(* ===== verification/Prelude.thy ===== *)
theory Prelude
  imports Main "HOL-Library.List_Lexorder" "HOL-Library.Sublist"
begin

text \<open>
  Shared vocabulary of the development.

  \<^item> \<open>jstr\<close>: a JavaScript string as the list of its UTF-16 code units, with the operations
    of the language the sources use on strings (\<open>trim\<close>, \<open>includes\<close>, \<open>startsWith\<close>,
    \<open>split\<close>, \<open>padStart\<close>).
  \<^item> \<open>bindE\<close>: sequencing of computations that may throw (\<open>'e + 'a\<close>, with \<open>Inl\<close> the
    error); \<open>bindS\<close>: the same for computations that also change a state, where the state
    at the time of the throw is kept.
  \<^item> decimal digits of fixed width, the shape of every number inside a storage key, with
    their injectivity and order lemmas.
  \<^item> generic lemmas on \<open>find\<close>, filtered lists and association lists.

  The collection \<open>sem_simps\<close> holds the unfolding rules of the two monads.
\<close>

named_theorems sem_simps

section \<open>Errors and state\<close>

definition bindE :: "'e + 'a \<Rightarrow> ('a \<Rightarrow> 'e + 'b) \<Rightarrow> 'e + 'b" where
  "bindE m f = (case m of Inl e \<Rightarrow> Inl e | Inr a \<Rightarrow> f a)"

lemma bindE_simps [simp, sem_simps]:
  "bindE (Inl e) f = Inl e"
  "bindE (Inr a) f = f a"
  by (simp_all add: bindE_def)

lemma bindE_Inr_iff: "bindE m f = Inr b \<longleftrightarrow> (\<exists>a. m = Inr a \<and> f a = Inr b)"
  by (cases m) auto

type_synonym ('s, 'e, 'a) sem = "'s \<Rightarrow> ('e + 'a) \<times> 's"

definition retS :: "'a \<Rightarrow> ('s, 'e, 'a) sem" where
  "retS a = (\<lambda>s. (Inr a, s))"

definition throwS :: "'e \<Rightarrow> ('s, 'e, 'a) sem" where
  "throwS e = (\<lambda>s. (Inl e, s))"

definition bindS :: "('s, 'e, 'a) sem \<Rightarrow> ('a \<Rightarrow> ('s, 'e, 'b) sem) \<Rightarrow> ('s, 'e, 'b) sem" where
  "bindS m f = (\<lambda>s. case m s of (Inl e, t) \<Rightarrow> (Inl e, t) | (Inr a, t) \<Rightarrow> f a t)"

definition liftS :: "'e + 'a \<Rightarrow> ('s, 'e, 'a) sem" where
  "liftS x = (\<lambda>s. (x, s))"

lemma sem_run [simp, sem_simps]:
  "retS a s = (Inr a, s)"
  "throwS e s = (Inl e, s)"
  "liftS x s = (x, s)"
  by (simp_all add: retS_def throwS_def liftS_def)

lemma bindS_run [simp, sem_simps]:
  "m s = (Inl e, t) \<Longrightarrow> bindS m f s = (Inl e, t)"
  "m s = (Inr a, t) \<Longrightarrow> bindS m f s = f a t"
  by (simp_all add: bindS_def)

lemma bindS_Inr_iff:
  "bindS m f s = (Inr b, u) \<longleftrightarrow> (\<exists>a t. m s = (Inr a, t) \<and> f a t = (Inr b, u))"
  by (cases "m s"; cases "fst (m s)") (auto simp: bindS_def)

lemma bindS_liftS [simp]: "bindS (liftS (Inr a)) f = f a"
  "bindS (liftS (Inl e)) f = throwS e" "bindS (retS a) f = f a" "bindS (throwS e) g = throwS e"
  by (simp_all add: fun_eq_iff bindS_def)

text \<open>A \<open>for\<close> loop that collects one result per element and stops at the first throw.\<close>

fun mapS :: "('a \<Rightarrow> ('s, 'e, 'b) sem) \<Rightarrow> 'a list \<Rightarrow> ('s, 'e, 'b list) sem" where
  "mapS f [] = retS []"
| "mapS f (x # xs) = bindS (f x) (\<lambda>r. bindS (mapS f xs) (\<lambda>rs. retS (r # rs)))"

lemma mapS_invariant:
  assumes "mapS f xs s = (r, t)" and "P s"
    and "\<And>x s r t. x \<in> set xs \<Longrightarrow> f x s = (r, t) \<Longrightarrow> P s \<Longrightarrow> P t"
  shows "P t"
  using assms
proof (induction xs arbitrary: s r)
  case (Cons x xs)
  obtain q u where 1: "f x s = (q, u)" by force
  with Cons.prems(2) Cons.prems(3) [of x] have "P u" by auto
  with Cons 1 show ?case
    by (cases q) (fastforce simp: bindS_def split: sum.splits prod.splits)+
qed simp

lemma mapS_reads:
  "(\<And>x. x \<in> set xs \<Longrightarrow> f x s = (Inr (g x), s)) \<Longrightarrow> mapS f xs s = (Inr (map g xs), s)"
  by (induction xs) auto

fun mapE :: "('a \<Rightarrow> 'e + 'b) \<Rightarrow> 'a list \<Rightarrow> 'e + 'b list" where
  "mapE f [] = Inr []"
| "mapE f (x # xs) = bindE (f x) (\<lambda>y. bindE (mapE f xs) (\<lambda>ys. Inr (y # ys)))"

lemma mapE_ok: "(\<And>x. x \<in> set xs \<Longrightarrow> f x = Inr (g x)) \<Longrightarrow> mapE f xs = Inr (map g xs)"
  by (induction xs) auto

lemma bindS_Pair [simp]: "bindS (Pair (Inr a)) f = f a" "bindS (Pair (Inl e)) f = Pair (Inl e)"
  by (simp_all add: fun_eq_iff bindS_def)

section \<open>JavaScript strings\<close>

type_synonym jstr = "nat list"

definition js :: "string \<Rightarrow> jstr" where
  "js s = map of_char s"

definition ch_bang :: nat where "ch_bang = 33"
definition ch_nul :: nat where "ch_nul = 0"

text \<open>The string \<open>"\uffff"\<close>, appended to a key prefix as an upper bound.\<close>

definition ch_max :: nat where "ch_max = 65535"

text \<open>The code units removed by \<open>String.prototype.trim\<close>: white space and line terminators.\<close>

definition js_space :: "nat \<Rightarrow> bool" where
  "js_space c \<longleftrightarrow> (9 \<le> c \<and> c \<le> 13) \<or> c = 32 \<or> c = 160 \<or> c = 5760 \<or> (8192 \<le> c \<and> c \<le> 8202)
     \<or> c = 8232 \<or> c = 8233 \<or> c = 8239 \<or> c = 8287 \<or> c = 12288 \<or> c = 65279"

definition js_trim :: "jstr \<Rightarrow> jstr" where
  "js_trim s = rev (dropWhile js_space (rev (dropWhile js_space s)))"

definition startsWith :: "jstr \<Rightarrow> jstr \<Rightarrow> bool" where
  "startsWith s p \<longleftrightarrow> take (length p) s = p"

lemma startsWith_iff_prefix: "startsWith s p \<longleftrightarrow> prefix p s"
  by (metis append_eq_conv_conj prefix_def startsWith_def append_take_drop_id)

lemma startsWith_self [simp]: "startsWith p p"
  by (simp add: startsWith_def)

lemma startsWith_append [simp]: "startsWith (p @ s) p"
  by (simp add: startsWith_def)

lemma startsWith_append_iff [simp]: "startsWith (p @ s) (p @ q) \<longleftrightarrow> startsWith s q"
  by (simp add: startsWith_def)

lemma startsWithE: "startsWith s p \<Longrightarrow> (\<And>t. s = p @ t \<Longrightarrow> thesis) \<Longrightarrow> thesis"
  by (auto simp: startsWith_iff_prefix prefix_def)

text \<open>\<open>s.split(sep)\<close> for a one-character separator.\<close>

fun js_split :: "nat \<Rightarrow> jstr \<Rightarrow> jstr list" where
  "js_split c [] = [[]]"
| "js_split c (x # xs) =
     (if x = c then [] # js_split c xs
      else (case js_split c xs of [] \<Rightarrow> [[x]] | p # ps \<Rightarrow> (x # p) # ps))"

lemma js_split_not_Nil [simp]: "js_split c s \<noteq> []"
  by (induction s) (auto split: list.splits)

lemma js_split_none [simp]: "c \<notin> set s \<Longrightarrow> js_split c s = [s]"
  by (induction s) auto

lemma js_split_app: "c \<notin> set s \<Longrightarrow> js_split c (s @ c # t) = s # js_split c t"
  by (induction s) auto

lemma tl_js_split: "tl (js_split c (s @ c # t)) \<noteq> []"
  by (induction s) (auto split: list.splits)

lemma last_js_split: "c \<notin> set t \<Longrightarrow> last (js_split c (s @ c # t)) = t"
proof (induction s)
  case (Cons a s)
  then show ?case using tl_js_split [of c s t] by (auto split: list.splits)
qed simp

lemma js_trim_not_space:
  assumes "s = [] \<or> (\<not> js_space (hd s) \<and> \<not> js_space (last s))"
  shows "js_trim s = s"
proof (cases "s = []")
  case True
  then show ?thesis by (simp add: js_trim_def)
next
  case False
  with assms have "dropWhile js_space s = s" and "dropWhile js_space (rev s) = rev s"
    by (auto simp: neq_Nil_conv hd_rev dropWhile_eq_self_iff)
  then show ?thesis by (simp add: js_trim_def)
qed

lemma set_js_trim: "set (js_trim s) \<subseteq> set s"
  by (auto simp: js_trim_def dest!: set_dropWhileD)

text \<open>\<open>toLowerCase\<close> and \<open>toUpperCase\<close> on the letters of ASCII; other letters are not changed here.\<close>

definition toLowerCase :: "jstr \<Rightarrow> jstr" where
  "toLowerCase = map (\<lambda>c. if 65 \<le> c \<and> c \<le> 90 then c + 32 else c)"

definition toUpperCase :: "jstr \<Rightarrow> jstr" where
  "toUpperCase = map (\<lambda>c. if 97 \<le> c \<and> c \<le> 122 then c - 32 else c)"

section \<open>Decimal digits\<close>

fun dec_digits :: "nat \<Rightarrow> nat list" where
  "dec_digits n = (if n < 10 then [48 + n] else dec_digits (n div 10) @ [48 + n mod 10])"

declare dec_digits.simps [simp del]

text \<open>\<open>s.padStart(w, '0')\<close>.\<close>

definition padStart0 :: "nat \<Rightarrow> jstr \<Rightarrow> jstr" where
  "padStart0 w s = replicate (w - length s) 48 @ s"

text \<open>The digits of \<open>n mod 10 ^ w\<close>, most significant first.\<close>

fun fixed_digits :: "nat \<Rightarrow> nat \<Rightarrow> nat list" where
  "fixed_digits 0 n = []"
| "fixed_digits (Suc w) n = fixed_digits w (n div 10) @ [48 + n mod 10]"

lemma length_fixed_digits [simp]: "length (fixed_digits w n) = w"
  by (induction w arbitrary: n) auto

lemma fixed_digits_0: "fixed_digits w 0 = replicate w 48"
  by (induction w) (simp_all add: replicate_append_same)

lemma fixed_digits_range: "d \<in> set (fixed_digits w n) \<Longrightarrow> 48 \<le> d \<and> d \<le> 57"
proof (induction w arbitrary: n)
  case (Suc w)
  have "n mod 10 \<le> 9" by presburger
  with Suc show ?case by auto
qed simp

lemma dec_digits_range: "d \<in> set (dec_digits n) \<Longrightarrow> 48 \<le> d \<and> d \<le> 57"
proof (induction n rule: dec_digits.induct)
  case (1 n)
  have "n mod 10 \<le> 9" by presburger
  with 1 show ?case by (subst (asm) dec_digits.simps) (auto split: if_splits)
qed

lemma dec_digits_not_Nil [simp]: "dec_digits n \<noteq> []"
  by (subst dec_digits.simps) simp

lemma length_dec_digits: "0 < w \<Longrightarrow> n < 10 ^ w \<Longrightarrow> length (dec_digits n) \<le> w"
proof (induction n arbitrary: w rule: dec_digits.induct)
  case (1 n w)
  show ?case
  proof (cases "n < 10")
    case True
    with 1 show ?thesis by (subst dec_digits.simps) simp
  next
    case False
    with 1 have "w \<noteq> 0" "w \<noteq> 1" by auto
    then obtain v where w: "w = Suc v" "0 < v" by (cases w) auto
    then have "n div 10 < 10 ^ v" using 1 by (simp add: less_mult_imp_div_less mult.commute)
    with 1 False w show ?thesis by (subst dec_digits.simps) simp
  qed
qed

lemma pad_dec_digits: "0 < w \<Longrightarrow> n < 10 ^ w \<Longrightarrow> padStart0 w (dec_digits n) = fixed_digits w n"
proof (induction n arbitrary: w rule: dec_digits.induct)
  case (1 n w)
  show ?case
  proof (cases "n < 10")
    case True
    with 1 show ?thesis
      by (cases w) (simp_all add: dec_digits.simps [of n] padStart0_def fixed_digits_0)
  next
    case False
    with 1 have "w \<noteq> 0" "w \<noteq> 1" by auto
    then obtain v where w: "w = Suc v" "0 < v" by (cases w) auto
    then have *: "n div 10 < 10 ^ v" using 1 by (simp add: less_mult_imp_div_less mult.commute)
    with 1 False w show ?thesis by (auto simp: dec_digits.simps [of n] padStart0_def)
  qed
qed

lemma fixed_digits_inj:
  "m < 10 ^ w \<Longrightarrow> n < 10 ^ w \<Longrightarrow> fixed_digits w m = fixed_digits w n \<Longrightarrow> m = n"
proof (induction w arbitrary: m n)
  case (Suc w)
  from Suc.prems have "m div 10 < 10 ^ w" "n div 10 < 10 ^ w"
    by (simp_all add: less_mult_imp_div_less mult.commute)
  with Suc have "m div 10 = n div 10" "m mod 10 = n mod 10" by auto
  then show ?case by (metis div_mult_mod_eq)
qed simp

text \<open>Fixed-width digits compare, as strings, as the numbers they stand for.\<close>

lemma lex_snoc:
  fixes xs ys :: "nat list"
  shows "length xs = length ys \<Longrightarrow>
    (xs @ [a] < ys @ [b]) = (xs < ys \<or> (xs = ys \<and> a < b))"
proof (induction xs arbitrary: ys)
  case (Cons x xs)
  then show ?case by (cases ys) auto
qed simp

lemma fixed_digits_less:
  "m < 10 ^ w \<Longrightarrow> n < 10 ^ w \<Longrightarrow> fixed_digits w m < fixed_digits w n \<longleftrightarrow> m < n"
proof (induction w arbitrary: m n)
  case (Suc w)
  from Suc.prems have lt: "m div 10 < 10 ^ w" "n div 10 < 10 ^ w"
    by (simp_all add: less_mult_imp_div_less mult.commute)
  then have eq: "fixed_digits w (m div 10) = fixed_digits w (n div 10) \<longleftrightarrow> m div 10 = n div 10"
    by (auto dest: fixed_digits_inj)
  have "m = 10 * (m div 10) + m mod 10" "n = 10 * (n div 10) + n mod 10"
    "m mod 10 < 10" "n mod 10 < 10" by simp_all
  then have "m < n \<longleftrightarrow> m div 10 < n div 10 \<or> (m div 10 = n div 10 \<and> m mod 10 < n mod 10)"
    by linarith
  with Suc.IH [OF lt] eq show ?case by (simp add: lex_snoc)
qed simp

text \<open>Comparing strings that share a prefix, or differ inside a block of fixed width.\<close>

lemma lex_prefix_cancel [simp]:
  fixes p :: "nat list"
  shows "p @ xs < p @ ys \<longleftrightarrow> xs < ys" and "p @ xs \<le> p @ ys \<longleftrightarrow> xs \<le> ys"
  by (induction p) auto

lemma lex_prefix_Nil [simp]:
  fixes p :: "nat list"
  shows "p @ xs < p \<longleftrightarrow> False" and "p \<le> p @ xs" and "p < p @ xs \<longleftrightarrow> xs \<noteq> []"
    and "p @ xs \<le> p \<longleftrightarrow> xs = []"
proof -
  show "p @ xs < p \<longleftrightarrow> False" "p \<le> p @ xs" "p < p @ xs \<longleftrightarrow> xs \<noteq> []" "p @ xs \<le> p \<longleftrightarrow> xs = []"
    using lex_prefix_cancel [of p xs "[]"] lex_prefix_cancel [of p "[]" xs]
    by (cases xs; simp)+
qed

lemma lex_block:
  fixes a b :: "nat list"
  shows "length a = length b \<Longrightarrow> a @ xs < b @ ys \<longleftrightarrow> a < b \<or> (a = b \<and> xs < ys)"
proof (induction a arbitrary: b)
  case (Cons x a)
  then show ?case by (cases b) auto
qed simp

lemma lex_block_le:
  fixes a b :: "nat list"
  shows "length a = length b \<Longrightarrow> a @ xs \<le> b @ ys \<longleftrightarrow> a < b \<or> (a = b \<and> xs \<le> ys)"
  by (auto simp: less_le lex_block dest: order.strict_implies_order)
    (metis append_eq_append_conv lex_block order_le_less)+

text \<open>The keys between a prefix and that prefix followed by the largest code unit are those
  that start with the prefix.\<close>

lemma between_prefix_max:
  fixes k :: jstr
  assumes "\<forall>c \<in> set k. c < ch_max"
  shows "p \<le> k \<and> k < p @ [ch_max] \<longleftrightarrow> startsWith k p"
  using assms
proof (induction p arbitrary: k)
  case Nil
  then show ?case by (cases k) (auto simp: startsWith_def)
next
  case (Cons a p)
  show ?case
  proof (cases k)
    case Nil
    then show ?thesis by (simp add: startsWith_def)
  next
    case (Cons b l)
    with Cons.prems Cons.IH [of l] show ?thesis
      by (auto simp: startsWith_def)
  qed
qed

section \<open>Lists\<close>

lemma find_Some_in: "find P xs = Some x \<Longrightarrow> x \<in> set xs \<and> P x"
  by (induction xs) (auto split: if_splits)

lemma find_None_all: "find P xs = None \<longleftrightarrow> (\<forall>x \<in> set xs. \<not> P x)"
  by (induction xs) auto

lemma set_map_filter: "y \<in> set (List.map_filter f xs) \<longleftrightarrow> (\<exists>x \<in> set xs. f x = Some y)"
  by (induction xs) (auto simp: List.map_filter_simps split: option.split)

lemma distinct_map_filter:
  assumes "distinct xs" and "\<And>i y. i \<in> set xs \<Longrightarrow> f i = Some y \<Longrightarrow> g y = i"
  shows "distinct (List.map_filter f xs)"
  using assms
proof (induction xs)
  case (Cons i xs)
  have "y \<notin> set (List.map_filter f xs)" if "f i = Some y" for y
    using Cons.prems that by (auto simp: set_map_filter)
  with Cons show ?case by (auto simp: List.map_filter_simps split: option.split)
qed (simp add: List.map_filter_simps)

end
