(* ===== verification/RocksKeys.thy ===== *)
theory RocksKeys
  imports Prelude
begin

text \<open>
  The key space of \<^verbatim>\<open>src/src/storage/rocksdb/RocksDbWalletStore.ts\<close>: normalisation of
  namespaces, keys and index parts, zero-padded numbers, the primary and secondary index keys of an
  output, the key ranges a reservation by value walks, and the parsers that read an output id or an
  amount back from an index key. Every function that may throw returns a \<open>rocks_error + _\<close>.
  JavaScript numbers that identify rows are \<open>int\<close>; the safe-integer test of the code is explicit.
\<close>

text \<open>The errors the store throws. \<open>Mistyped\<close> is not one of them: it marks the runs in which a
  record is read at a type it was not written at, which the model does not follow further.\<close>

datatype rocks_error =
    PathRequired
  | NamespaceRequired
  | KeyRequired
  | KeyInvalid
  | IncrementAmountInvalid
  | OutputIdRequired
  | RecordTypeMismatch jstr
  | MigrationRequired jstr "int option"
  | UpdatedAtInvalid
  | IndexPartInvalid
  | IndexNumberInvalid
  | UnsupportedOption string
  | Mistyped

type_synonym 'a rocks_res = "rocks_error + 'a"

section \<open>Numbers\<close>

definition max_safe_integer :: int where
  "max_safe_integer = 9007199254740991"

definition isSafeInteger :: "int \<Rightarrow> bool" where
  "isSafeInteger v \<longleftrightarrow> - max_safe_integer \<le> v \<and> v \<le> max_safe_integer"

definition padNumber :: "int \<Rightarrow> jstr rocks_res" where
  "padNumber v =
     (if \<not> isSafeInteger v \<or> v < 0 then Inl IndexNumberInvalid
      else Inr (padStart0 16 (dec_digits (nat v))))"

definition positiveModulo :: "int \<Rightarrow> int \<Rightarrow> int" where
  "positiveModulo v d =
     (if \<not> isSafeInteger d \<or> d \<le> 0 then 0
      else (let result = sgn v * (\<bar>v\<bar> mod d) in if result < 0 then result + d else result))"

definition spendableReservationSeed :: "int \<Rightarrow> int" where
  "spendableReservationSeed t = (if \<not> isSafeInteger t \<or> t < 0 then 0 else t)"

text \<open>The numbers a key can carry, and the sixteen digits they become.\<close>

definition key_num :: "int \<Rightarrow> bool" where
  "key_num v \<longleftrightarrow> 0 \<le> v \<and> v \<le> max_safe_integer"

definition pad16 :: "int \<Rightarrow> jstr" where
  "pad16 v = fixed_digits 16 (nat v)"

lemma key_num_bound: "key_num v \<Longrightarrow> nat v < 10 ^ 16"
  by (simp add: key_num_def max_safe_integer_def nat_less_iff)

lemma padNumber_eq [simp]:
  "key_num v \<Longrightarrow> padNumber v = Inr (pad16 v)"
  "\<not> key_num v \<Longrightarrow> padNumber v = Inl IndexNumberInvalid"
  using key_num_bound [of v]
  by (auto simp: padNumber_def pad16_def pad_dec_digits key_num_def isSafeInteger_def
      max_safe_integer_def)

lemma length_pad16 [simp]: "length (pad16 v) = 16"
  by (simp add: pad16_def)

lemma pad16_digit: "d \<in> set (pad16 v) \<Longrightarrow> 48 \<le> d \<and> d \<le> 57"
  by (auto simp: pad16_def dest: fixed_digits_range)

lemma pad16_no_bang [simp]: "ch_bang \<notin> set (pad16 v)" "33 \<notin> set (pad16 v)"
  by (auto simp: ch_bang_def dest: pad16_digit)

lemma pad16_inj: "key_num u \<Longrightarrow> key_num v \<Longrightarrow> pad16 u = pad16 v \<longleftrightarrow> u = v"
  using fixed_digits_inj [of "nat u" 16 "nat v"] key_num_bound [of u] key_num_bound [of v]
  by (auto simp: pad16_def key_num_def)

lemma pad16_less: "key_num u \<Longrightarrow> key_num v \<Longrightarrow> pad16 u < pad16 v \<longleftrightarrow> u < v"
  using key_num_bound [of u] key_num_bound [of v]
  by (auto simp: pad16_def fixed_digits_less key_num_def)

lemma positiveModulo_range: "isSafeInteger d \<Longrightarrow> 0 < d \<Longrightarrow> 0 \<le> positiveModulo v d \<and> positiveModulo v d < d"
proof -
  assume d: "isSafeInteger d" "0 < d"
  then have "0 \<le> \<bar>v\<bar> mod d" "\<bar>v\<bar> mod d < d" by simp_all
  with d show ?thesis by (cases "v < 0"; cases "v = 0") (auto simp: positiveModulo_def Let_def)
qed

section \<open>Normalisation\<close>

definition strip_bangs :: "jstr \<Rightarrow> jstr" where
  "strip_bangs s = rev (dropWhile (\<lambda>c. c = ch_bang) (rev (dropWhile (\<lambda>c. c = ch_bang) s)))"

definition normalizeNamespace :: "jstr option \<Rightarrow> jstr rocks_res" where
  "normalizeNamespace v =
     (let normalized = strip_bangs (js_trim (case v of None \<Rightarrow> js ''wallet-toolbox'' | Some s \<Rightarrow> s))
      in if normalized = [] then Inl NamespaceRequired else Inr (normalized @ [ch_bang]))"

definition normalizeKey :: "jstr \<Rightarrow> jstr rocks_res" where
  "normalizeKey v =
     (let normalized = js_trim v
      in if normalized = [] then Inl KeyRequired
         else if ch_nul \<in> set normalized then Inl KeyInvalid
         else Inr normalized)"

definition normalizeIndexPart :: "jstr \<Rightarrow> jstr rocks_res" where
  "normalizeIndexPart v =
     (let normalized = js_trim v
      in if normalized = [] \<or> ch_bang \<in> set normalized \<or> ch_nul \<in> set normalized
         then Inl IndexPartInvalid else Inr normalized)"

lemma normalizeIndexPart_no_bang:
  "normalizeIndexPart v = Inr p \<Longrightarrow> p \<noteq> [] \<and> ch_bang \<notin> set p \<and> ch_nul \<notin> set p"
  by (auto simp: normalizeIndexPart_def Let_def split: if_splits)

section \<open>Index keys of an output\<close>

definition OUTPUT_PRIMARY_PREFIX :: jstr where
  "OUTPUT_PRIMARY_PREFIX = js ''output!id!''"
definition OUTPUT_SCRIPT_HASH_PREFIX :: jstr where
  "OUTPUT_SCRIPT_HASH_PREFIX = js ''output!scriptHash!''"
definition OUTPUT_SPENDABLE_PREFIX :: jstr where
  "OUTPUT_SPENDABLE_PREFIX = js ''output!spendable!''"
definition OUTPUT_SPENDABLE_VALUE_PREFIX :: jstr where
  "OUTPUT_SPENDABLE_VALUE_PREFIX = js ''output!spendableValue!''"
definition OUTPUT_SPENDABLE_STATUS_VALUE_PREFIX :: jstr where
  "OUTPUT_SPENDABLE_STATUS_VALUE_PREFIX = js ''output!spendableStatusValue!''"
definition OUTPUT_OUTPOINT_PREFIX :: jstr where
  "OUTPUT_OUTPOINT_PREFIX = js ''output!outpoint!''"
definition OUTPUT_TRANSACTION_PREFIX :: jstr where
  "OUTPUT_TRANSACTION_PREFIX = js ''output!transaction!''"

lemmas key_prefix_defs = OUTPUT_PRIMARY_PREFIX_def OUTPUT_SCRIPT_HASH_PREFIX_def
  OUTPUT_SPENDABLE_PREFIX_def OUTPUT_SPENDABLE_VALUE_PREFIX_def
  OUTPUT_SPENDABLE_STATUS_VALUE_PREFIX_def OUTPUT_OUTPOINT_PREFIX_def OUTPUT_TRANSACTION_PREFIX_def

definition outputPrimaryKey :: "int \<Rightarrow> jstr rocks_res" where
  "outputPrimaryKey outputId = bindE (padNumber outputId) (\<lambda>n. Inr (OUTPUT_PRIMARY_PREFIX @ n))"

definition outputScriptHashPrefix :: "jstr \<Rightarrow> jstr" where
  "outputScriptHashPrefix h = OUTPUT_SCRIPT_HASH_PREFIX @ h @ [ch_bang]"

definition outputScriptHashKey :: "jstr \<Rightarrow> int \<Rightarrow> jstr rocks_res" where
  "outputScriptHashKey h outputId =
     bindE (normalizeIndexPart h) (\<lambda>p. bindE (padNumber outputId) (\<lambda>n.
       Inr (outputScriptHashPrefix p @ n)))"

definition outputSpendableUserPrefix :: "int \<Rightarrow> jstr rocks_res" where
  "outputSpendableUserPrefix userId =
     bindE (padNumber userId) (\<lambda>u. Inr (OUTPUT_SPENDABLE_PREFIX @ u @ [ch_bang]))"

definition outputSpendableAllPrefix :: "int \<Rightarrow> jstr rocks_res" where
  "outputSpendableAllPrefix userId =
     bindE (outputSpendableUserPrefix userId) (\<lambda>p. Inr (p @ js ''all!''))"

definition outputSpendableUserKey :: "int \<Rightarrow> int \<Rightarrow> jstr rocks_res" where
  "outputSpendableUserKey userId outputId =
     bindE (outputSpendableAllPrefix userId) (\<lambda>p. bindE (padNumber outputId) (\<lambda>n. Inr (p @ n)))"

definition outputSpendableBasketPrefix :: "int \<Rightarrow> int \<Rightarrow> jstr rocks_res" where
  "outputSpendableBasketPrefix userId basketId =
     bindE (outputSpendableUserPrefix userId) (\<lambda>p. bindE (padNumber basketId) (\<lambda>b.
       Inr (p @ js ''basket!'' @ b @ [ch_bang])))"

definition outputSpendableBasketKey :: "int \<Rightarrow> int \<Rightarrow> int \<Rightarrow> jstr rocks_res" where
  "outputSpendableBasketKey userId basketId outputId =
     bindE (outputSpendableBasketPrefix userId basketId) (\<lambda>p.
       bindE (padNumber outputId) (\<lambda>n. Inr (p @ n)))"

definition outputSpendableBasketValuePrefix :: "int \<Rightarrow> int \<Rightarrow> jstr rocks_res" where
  "outputSpendableBasketValuePrefix userId basketId =
     bindE (padNumber userId) (\<lambda>u. bindE (padNumber basketId) (\<lambda>b.
       Inr (OUTPUT_SPENDABLE_VALUE_PREFIX @ u @ js ''!basket!'' @ b @ [ch_bang])))"

definition outputSpendableBasketValueSatoshisPrefix :: "int \<Rightarrow> int \<Rightarrow> int \<Rightarrow> jstr rocks_res" where
  "outputSpendableBasketValueSatoshisPrefix userId basketId satoshis =
     bindE (outputSpendableBasketValuePrefix userId basketId) (\<lambda>p.
       bindE (padNumber satoshis) (\<lambda>s. Inr (p @ s @ [ch_bang])))"

definition outputSpendableBasketValueKey :: "int \<Rightarrow> int \<Rightarrow> int \<Rightarrow> int \<Rightarrow> jstr rocks_res" where
  "outputSpendableBasketValueKey userId basketId satoshis outputId =
     bindE (outputSpendableBasketValueSatoshisPrefix userId basketId satoshis) (\<lambda>p.
       bindE (padNumber outputId) (\<lambda>n. Inr (p @ n)))"

definition outputSpendableBasketStatusPrefix :: "int \<Rightarrow> int \<Rightarrow> jstr \<Rightarrow> jstr rocks_res" where
  "outputSpendableBasketStatusPrefix userId basketId status =
     bindE (padNumber userId) (\<lambda>u. bindE (padNumber basketId) (\<lambda>b.
       bindE (normalizeIndexPart status) (\<lambda>st.
         Inr (OUTPUT_SPENDABLE_STATUS_VALUE_PREFIX @ u @ js ''!basket!'' @ b @ js ''!status!''
              @ st @ [ch_bang]))))"

definition outputSpendableBasketStatusValueSatoshisPrefix ::
  "int \<Rightarrow> int \<Rightarrow> jstr \<Rightarrow> int \<Rightarrow> jstr rocks_res" where
  "outputSpendableBasketStatusValueSatoshisPrefix userId basketId status satoshis =
     bindE (outputSpendableBasketStatusPrefix userId basketId status) (\<lambda>p.
       bindE (padNumber satoshis) (\<lambda>s. Inr (p @ s @ [ch_bang])))"

definition outputSpendableBasketStatusValueKey ::
  "int \<Rightarrow> int \<Rightarrow> jstr \<Rightarrow> int \<Rightarrow> int \<Rightarrow> jstr rocks_res" where
  "outputSpendableBasketStatusValueKey userId basketId status satoshis outputId =
     bindE (outputSpendableBasketStatusValueSatoshisPrefix userId basketId status satoshis) (\<lambda>p.
       bindE (padNumber outputId) (\<lambda>n. Inr (p @ n)))"

definition outputOutpointKey :: "int \<Rightarrow> jstr \<Rightarrow> int \<Rightarrow> jstr rocks_res" where
  "outputOutpointKey userId txid vout =
     bindE (padNumber userId) (\<lambda>u. bindE (normalizeIndexPart txid) (\<lambda>t.
       bindE (padNumber vout) (\<lambda>v. Inr (OUTPUT_OUTPOINT_PREFIX @ u @ [ch_bang] @ t @ [ch_bang] @ v))))"

definition outputTransactionPrefix :: "int \<Rightarrow> jstr rocks_res" where
  "outputTransactionPrefix transactionId =
     bindE (padNumber transactionId) (\<lambda>t. Inr (OUTPUT_TRANSACTION_PREFIX @ t @ [ch_bang]))"

definition outputTransactionKey :: "int \<Rightarrow> int \<Rightarrow> jstr rocks_res" where
  "outputTransactionKey transactionId outputId =
     bindE (outputTransactionPrefix transactionId) (\<lambda>p.
       bindE (padNumber outputId) (\<lambda>n. Inr (p @ n)))"

section \<open>Ranges walked by a reservation\<close>

datatype reservation_mode = Exact | Over | Under

record value_range =
  rng_prefix :: jstr
  rng_start :: jstr
  rng_end :: jstr
  rng_reverse :: bool

text \<open>The common part of \<open>spendableValueRange\<close> and \<open>spendableStatusValueRange\<close>: the two
  functions of the code differ only in the prefixes they compute.\<close>

definition range_of_prefixes ::
  "jstr rocks_res \<Rightarrow> jstr rocks_res \<Rightarrow> reservation_mode \<Rightarrow> int \<Rightarrow> value_range rocks_res" where
  "range_of_prefixes basketPrefixE satPrefixE mode satoshis =
     bindE basketPrefixE (\<lambda>basketPrefix.
       (case mode of
          Exact \<Rightarrow> bindE satPrefixE (\<lambda>pfx.
            Inr \<lparr>rng_prefix = pfx, rng_start = pfx, rng_end = pfx @ [ch_max],
                 rng_reverse = False\<rparr>)
        | Over \<Rightarrow> bindE (padNumber satoshis) (\<lambda>s.
            Inr \<lparr>rng_prefix = basketPrefix, rng_start = basketPrefix @ s,
                 rng_end = basketPrefix @ [ch_max], rng_reverse = False\<rparr>)
        | Under \<Rightarrow> bindE (padNumber satoshis) (\<lambda>s.
            Inr \<lparr>rng_prefix = basketPrefix, rng_start = basketPrefix @ s,
                 rng_end = basketPrefix, rng_reverse = True\<rparr>)))"

definition spendableValueRange ::
  "int \<Rightarrow> int \<Rightarrow> reservation_mode \<Rightarrow> int \<Rightarrow> value_range rocks_res" where
  "spendableValueRange userId basketId mode satoshis =
     range_of_prefixes (outputSpendableBasketValuePrefix userId basketId)
       (outputSpendableBasketValueSatoshisPrefix userId basketId satoshis) mode satoshis"

definition spendableStatusValueRange ::
  "int \<Rightarrow> int \<Rightarrow> jstr \<Rightarrow> reservation_mode \<Rightarrow> int \<Rightarrow> value_range rocks_res" where
  "spendableStatusValueRange userId basketId status mode satoshis =
     range_of_prefixes (outputSpendableBasketStatusPrefix userId basketId status)
       (outputSpendableBasketStatusValueSatoshisPrefix userId basketId status satoshis) mode satoshis"

definition bucket_ranges :: "jstr \<Rightarrow> jstr \<Rightarrow> bool \<Rightarrow> value_range list" where
  "bucket_ranges pfx seededKey backwards =
     (if backwards then
        [\<lparr>rng_prefix = pfx, rng_start = seededKey, rng_end = pfx, rng_reverse = True\<rparr>,
         \<lparr>rng_prefix = pfx, rng_start = pfx @ [ch_max], rng_end = seededKey, rng_reverse = True\<rparr>]
      else
        [\<lparr>rng_prefix = pfx, rng_start = seededKey, rng_end = pfx @ [ch_max], rng_reverse = False\<rparr>,
         \<lparr>rng_prefix = pfx, rng_start = pfx, rng_end = seededKey, rng_reverse = False\<rparr>])"

definition spendableValueSeededBucketRanges ::
  "int \<Rightarrow> int \<Rightarrow> int \<Rightarrow> int \<Rightarrow> bool \<Rightarrow> value_range list rocks_res" where
  "spendableValueSeededBucketRanges userId basketId satoshis seed backwards =
     bindE (outputSpendableBasketValueSatoshisPrefix userId basketId satoshis) (\<lambda>pfx.
       bindE (padNumber seed) (\<lambda>n. Inr (bucket_ranges pfx (pfx @ n) backwards)))"

definition spendableStatusValueSeededBucketRanges ::
  "int \<Rightarrow> int \<Rightarrow> jstr \<Rightarrow> int \<Rightarrow> int \<Rightarrow> bool \<Rightarrow> value_range list rocks_res" where
  "spendableStatusValueSeededBucketRanges userId basketId status satoshis seed backwards =
     bindE (outputSpendableBasketStatusValueSatoshisPrefix userId basketId status satoshis) (\<lambda>pfx.
       bindE (padNumber seed) (\<lambda>n. Inr (bucket_ranges pfx (pfx @ n) backwards)))"

text \<open>Membership of a key in a range: \<open>start\<close> is included and \<open>end\<close> is not, in either
  direction; the loops over a range also skip keys that do not carry the prefix.\<close>

definition in_range :: "value_range \<Rightarrow> jstr \<Rightarrow> bool" where
  "in_range r k \<longleftrightarrow> startsWith k (rng_prefix r) \<and>
     (if rng_reverse r then rng_end r < k \<and> k \<le> rng_start r
      else rng_start r \<le> k \<and> k < rng_end r)"

section \<open>Reading numbers back from index keys\<close>

text \<open>\<open>Number(raw)\<close> on a run of decimal digits (the empty string is 0); a field with any other
  code unit is not a number (\<open>None\<close>). The other numeric literals of JavaScript (signs,
  exponents, hexadecimal) are not written into keys by this module.\<close>

definition js_Number :: "jstr \<Rightarrow> int option" where
  "js_Number s = (if (\<forall>c \<in> set s. 48 \<le> c \<and> c \<le> 57)
     then Some (int (foldl (\<lambda>a c. 10 * a + (c - 48)) 0 s)) else None)"

definition safe_field :: "jstr \<Rightarrow> int option" where
  "safe_field raw = (case js_Number raw of None \<Rightarrow> None
     | Some v \<Rightarrow> if isSafeInteger v \<and> 0 \<le> v then Some v else None)"

definition satoshisFromSpendableValueKey :: "jstr \<Rightarrow> int option" where
  "satoshisFromSpendableValueKey key =
     (if \<not> startsWith key OUTPUT_SPENDABLE_VALUE_PREFIX
        \<and> \<not> startsWith key OUTPUT_SPENDABLE_STATUS_VALUE_PREFIX then None
      else (let parts = js_split ch_bang key;
                i = (if startsWith key OUTPUT_SPENDABLE_STATUS_VALUE_PREFIX then 7 else 5)
            in if i < length parts then safe_field (parts ! i) else None))"

definition outputIdFromSpendableValueKey :: "jstr \<Rightarrow> int option" where
  "outputIdFromSpendableValueKey key =
     (if \<not> startsWith key OUTPUT_SPENDABLE_VALUE_PREFIX
        \<and> \<not> startsWith key OUTPUT_SPENDABLE_STATUS_VALUE_PREFIX then None
      else safe_field (last (js_split ch_bang key)))"


section \<open>Evaluation of the key builders\<close>

text \<open>The values of the key builders on numbers a key can carry.\<close>

definition value_pfx :: "int \<Rightarrow> int \<Rightarrow> jstr" where
  "value_pfx u b = OUTPUT_SPENDABLE_VALUE_PREFIX @ pad16 u @ js ''!basket!'' @ pad16 b @ [ch_bang]"

definition status_pfx :: "int \<Rightarrow> int \<Rightarrow> jstr \<Rightarrow> jstr" where
  "status_pfx u b st = OUTPUT_SPENDABLE_STATUS_VALUE_PREFIX @ pad16 u @ js ''!basket!'' @ pad16 b
     @ js ''!status!'' @ st @ [ch_bang]"

text \<open>What follows a value prefix in an index key: the amount and the output id.\<close>

definition sat_oid :: "int \<Rightarrow> int \<Rightarrow> jstr" where
  "sat_oid s i = pad16 s @ [ch_bang] @ pad16 i"

lemma value_key_simps [simp]:
  "key_num u \<Longrightarrow> key_num b \<Longrightarrow> outputSpendableBasketValuePrefix u b = Inr (value_pfx u b)"
  "key_num u \<Longrightarrow> key_num b \<Longrightarrow> key_num s \<Longrightarrow>
     outputSpendableBasketValueSatoshisPrefix u b s = Inr (value_pfx u b @ pad16 s @ [ch_bang])"
  "key_num u \<Longrightarrow> key_num b \<Longrightarrow> key_num s \<Longrightarrow> key_num i \<Longrightarrow>
     outputSpendableBasketValueKey u b s i = Inr (value_pfx u b @ sat_oid s i)"
  by (simp_all add: outputSpendableBasketValuePrefix_def value_pfx_def sat_oid_def
      outputSpendableBasketValueSatoshisPrefix_def outputSpendableBasketValueKey_def)

lemma status_key_simps [simp]:
  "key_num u \<Longrightarrow> key_num b \<Longrightarrow> normalizeIndexPart st = Inr p \<Longrightarrow>
     outputSpendableBasketStatusPrefix u b st = Inr (status_pfx u b p)"
  "key_num u \<Longrightarrow> key_num b \<Longrightarrow> key_num s \<Longrightarrow> normalizeIndexPart st = Inr p \<Longrightarrow>
     outputSpendableBasketStatusValueSatoshisPrefix u b st s
       = Inr (status_pfx u b p @ pad16 s @ [ch_bang])"
  "key_num u \<Longrightarrow> key_num b \<Longrightarrow> key_num s \<Longrightarrow> key_num i \<Longrightarrow> normalizeIndexPart st = Inr p \<Longrightarrow>
     outputSpendableBasketStatusValueKey u b st s i = Inr (status_pfx u b p @ sat_oid s i)"
  by (simp_all add: outputSpendableBasketStatusPrefix_def status_pfx_def sat_oid_def
      outputSpendableBasketStatusValueSatoshisPrefix_def outputSpendableBasketStatusValueKey_def)

lemma pad16_head: "\<exists>d ds. pad16 v = d # ds \<and> 48 \<le> d \<and> d \<le> 57"
proof -
  obtain d ds where "pad16 v = d # ds" using length_pad16 [of v] by (cases "pad16 v") auto
  then show ?thesis using pad16_digit [of d v] by auto
qed

lemma pad16_below_max [simp]: "pad16 v @ xs < [ch_max]" "\<not> [ch_max] < pad16 v @ xs"
  "\<not> [ch_max] \<le> pad16 v @ xs" "[] < pad16 v @ xs" "\<not> pad16 v @ xs \<le> []" "\<not> pad16 v @ xs < []"
  "pad16 v < [ch_max]" "\<not> [ch_max] < pad16 v" "\<not> [ch_max] \<le> pad16 v" "pad16 v \<noteq> []"
  "pad16 v \<le> [ch_max]"
  using pad16_head [of v] by (auto simp: ch_max_def)

lemma pad16_le: "key_num u \<Longrightarrow> key_num v \<Longrightarrow> pad16 u \<le> pad16 v \<longleftrightarrow> u \<le> v"
  using pad16_less [of u v] pad16_inj [of u v] by (auto simp: less_le)

lemma pad16_block_less:
  "key_num u \<Longrightarrow> key_num v \<Longrightarrow>
     pad16 u @ xs < pad16 v @ ys \<longleftrightarrow> u < v \<or> (u = v \<and> xs < ys)"
  "key_num u \<Longrightarrow> key_num v \<Longrightarrow>
     pad16 u @ xs \<le> pad16 v @ ys \<longleftrightarrow> u < v \<or> (u = v \<and> xs \<le> ys)"
  "key_num u \<Longrightarrow> key_num v \<Longrightarrow> pad16 u @ xs < pad16 v \<longleftrightarrow> u < v"
  "key_num u \<Longrightarrow> key_num v \<Longrightarrow> pad16 u \<le> pad16 v @ ys \<longleftrightarrow> u \<le> v"
  "key_num u \<Longrightarrow> key_num v \<Longrightarrow> pad16 u @ x # xs \<le> pad16 v \<longleftrightarrow> u < v"
  using lex_block [of "pad16 u" "pad16 v" xs ys] lex_block_le [of "pad16 u" "pad16 v" xs ys]
    lex_block [of "pad16 u" "pad16 v" xs "[]"] lex_block_le [of "pad16 u" "pad16 v" "[]" ys]
    lex_block_le [of "pad16 u" "pad16 v" "x # xs" "[]"]
    pad16_less [of u v] pad16_inj [of u v]
  by auto

section \<open>Which amounts a range holds\<close>

text \<open>In any family of keys of the form \<open>P @ sat_oid s i\<close>, the three ranges select exactly
  the amounts equal to, at least, and strictly below the requested one.\<close>

fun mode_selects :: "reservation_mode \<Rightarrow> int \<Rightarrow> int \<Rightarrow> bool" where
  "mode_selects Exact target s \<longleftrightarrow> s = target"
| "mode_selects Over target s \<longleftrightarrow> target \<le> s"
| "mode_selects Under target s \<longleftrightarrow> s < target"

lemma range_of_prefixes_selects:
  assumes "range_of_prefixes (Inr P) (Inr (P @ pad16 t @ [ch_bang])) mode t = Inr r"
    and "key_num s" "key_num t" "key_num i"
  shows "in_range r (P @ sat_oid s i) \<longleftrightarrow> mode_selects mode t s"
proof (cases mode)
  case Exact
  have "startsWith (pad16 s @ ch_bang # pad16 i) (pad16 t @ [ch_bang]) \<longleftrightarrow> s = t"
    using assms(2,3) by (auto simp: startsWith_def take_Suc pad16_inj)
  with Exact assms show ?thesis
    by (auto simp: range_of_prefixes_def in_range_def sat_oid_def pad16_block_less)
next
  case Over
  with assms show ?thesis
    by (auto simp: range_of_prefixes_def in_range_def sat_oid_def pad16_block_less)
next
  case Under
  with assms show ?thesis
    by (auto simp: range_of_prefixes_def in_range_def sat_oid_def pad16_block_less)
qed

lemma bucket_ranges_partition:
  assumes "key_num seed" "key_num i"
    and "bucket_ranges P (P @ pad16 seed) backwards = [r1, r2]"
  shows "in_range r1 (P @ pad16 i) \<longleftrightarrow> (if backwards then i \<le> seed else seed \<le> i)"
    and "in_range r2 (P @ pad16 i) \<longleftrightarrow> (if backwards then seed < i else i < seed)"
  using assms(3)
  by (cases backwards;
      auto simp: bucket_ranges_def in_range_def pad16_less [OF assms(1,2)]
        pad16_less [OF assms(2,1)] pad16_le [OF assms(1,2)] pad16_le [OF assms(2,1)])+

section \<open>Reading back what was written\<close>

lemma foldl_fixed_digits:
  "foldl (\<lambda>a c. 10 * a + (c - 48)) a (fixed_digits w n) = a * 10 ^ w + n mod 10 ^ w"
proof (induction w arbitrary: n)
  case (Suc w)
  have "n mod (10 * 10 ^ w) = 10 * (n div 10 mod 10 ^ w) + n mod 10"
    by (rule mod_mult2_eq)
  with Suc show ?case by (simp add: algebra_simps)
qed simp

lemma safe_field_pad16 [simp]: "key_num v \<Longrightarrow> safe_field (pad16 v) = Some v"
proof -
  assume v: "key_num v"
  have "\<forall>c \<in> set (pad16 v). 48 \<le> c \<and> c \<le> 57" by (auto dest: pad16_digit)
  then have "js_Number (pad16 v) = Some (int (nat v mod 10 ^ 16))"
    unfolding js_Number_def by (simp add: pad16_def foldl_fixed_digits)
  also have "int (nat v mod 10 ^ 16) = v"
    using key_num_bound [OF v] v by (simp add: key_num_def)
  finally have "js_Number (pad16 v) = Some v" .
  moreover have "isSafeInteger v" "0 \<le> v"
    using v by (auto simp: key_num_def isSafeInteger_def max_safe_integer_def)
  ultimately show ?thesis by (simp add: safe_field_def)
qed

text \<open>Splitting a key at its separators.\<close>

lemma split_value_pfx:
  "js_split ch_bang (value_pfx u b @ t)
     = [js ''output'', js ''spendableValue'', pad16 u, js ''basket'', pad16 b] @ js_split ch_bang t"
proof -
  have *: "value_pfx u b @ t = js ''output'' @ ch_bang # js ''spendableValue'' @ ch_bang #
      pad16 u @ ch_bang # js ''basket'' @ ch_bang # pad16 b @ ch_bang # t"
    by (simp add: value_pfx_def key_prefix_defs js_def ch_bang_def)
  show ?thesis unfolding * by (simp add: js_split_app) (simp add: js_split_app js_def ch_bang_def)
qed

lemma split_status_pfx:
  assumes "ch_bang \<notin> set st"
  shows "js_split ch_bang (status_pfx u b st @ t)
     = [js ''output'', js ''spendableStatusValue'', pad16 u, js ''basket'', pad16 b,
        js ''status'', st] @ js_split ch_bang t"
proof -
  have *: "status_pfx u b st @ t = js ''output'' @ ch_bang # js ''spendableStatusValue'' @ ch_bang #
      pad16 u @ ch_bang # js ''basket'' @ ch_bang # pad16 b @ ch_bang # js ''status'' @ ch_bang #
      st @ ch_bang # t"
    by (simp add: status_pfx_def key_prefix_defs js_def ch_bang_def)
  show ?thesis using assms unfolding *
    by (simp add: js_split_app) (simp add: js_split_app js_def ch_bang_def)
qed

lemma split_sat_oid: "js_split ch_bang (sat_oid s i) = [pad16 s, pad16 i]"
  by (simp add: sat_oid_def js_split_app)

lemma value_pfx_starts [simp]:
  "startsWith (value_pfx u b @ t) OUTPUT_SPENDABLE_VALUE_PREFIX"
  "\<not> startsWith (value_pfx u b @ t) OUTPUT_SPENDABLE_STATUS_VALUE_PREFIX"
  "startsWith (status_pfx u b st @ t) OUTPUT_SPENDABLE_STATUS_VALUE_PREFIX"
  by (simp_all add: value_pfx_def status_pfx_def startsWith_def key_prefix_defs js_def)

end
