(* ===== verification/RocksStore.thy ===== *)
theory RocksStore
  imports RocksKeys
begin

text \<open>
  The versioned record store of \<^verbatim>\<open>src/src/storage/rocksdb/RocksDbWalletStore.ts\<close>.

  The native database (the package \<^verbatim>\<open>@harperfast/rocksdb-js\<close>) is not part of the
  repository: it is the parameter \<open>K\<close>, a record of the calls the store makes, over an
  unknown state type \<open>'db\<close>. What the store relies on is the locale \<open>rocks_db\<close>: point
  reads see the last write, a range holds the entries between its bounds in key order.
  \<open>mem_kv\<close> is an executable database with these laws, on which the witnesses run.

  Each method is a state transformer over the database that may throw (\<open>sem\<close>): a throw keeps
  the writes made before it, except inside a native transaction, which is rolled back.
  \<open>rocks_view\<close> abstracts a database to the versioned map it stands for, and the refinement lemmas
  say that every operation acts on that map as the abstract store \<open>abs_write\<close> does.
\<close>

section \<open>Records\<close>

record table_output =
  out_created_at :: int
  out_updated_at :: int
  out_outputId :: int
  out_userId :: int
  out_transactionId :: "int option"
  out_basketId :: "int option"
  out_spendable :: bool
  out_change :: bool
  out_outputDescription :: jstr
  out_vout :: "int option"
  out_satoshis :: int
  out_providedBy :: jstr
  out_purpose :: jstr
  out_type :: jstr
  out_txid :: "jstr option"
  out_senderIdentityKey :: "jstr option"
  out_derivationPrefix :: "jstr option"
  out_derivationSuffix :: "jstr option"
  out_customInstructions :: "jstr option"
  out_spentBy :: "int option"
  out_sequenceNumber :: "int option"
  out_spendingDescription :: "jstr option"
  out_scriptLength :: "int option"
  out_scriptOffset :: "int option"
  out_lockingScript :: "nat list option"
  out_scriptHash :: "jstr option"
  out_cacheUpdatedAt :: "int option"

text \<open>The values the store holds: an output, an index record \<open>{ outputId }\<close>, a number (a
  counter), or any other value, which this module never looks into.\<close>

datatype wval = VOutput table_output | VIndex int | VNumber int | VOther jstr

record stored =
  st_recordType :: jstr
  st_schemaVersion :: "int option"
  st_value :: wval
  st_version :: int
  st_updated_at :: int

record wallet_record =
  rec_key :: jstr
  rec_value :: wval
  rec_version :: int
  rec_updated_at :: int

text \<open>\<open>updated_at?: Date | string | number\<close>: absent, a valid time value in milliseconds, or a
  value \<open>new Date(value)\<close> turns into an invalid date.\<close>

datatype date_arg = NoDate | DateMs int | BadDate

text \<open>\<open>expectedVersion?: number | null\<close>: \<open>None\<close> is \<open>undefined\<close> and \<open>Some None\<close> is \<open>null\<close>.\<close>

record put_args =
  put_key :: jstr
  put_value :: wval
  put_expected :: "int option option"
  put_updated_at :: date_arg

datatype store_write = WPut put_args | WDelete jstr

datatype put_result = PutOk jstr int | VersionConflict jstr "int option"

section \<open>The native database\<close>

record 'db kv =
  kv_get :: "'db \<Rightarrow> jstr \<Rightarrow> stored option"
  kv_put :: "'db \<Rightarrow> jstr \<Rightarrow> stored \<Rightarrow> 'db"
  kv_remove :: "'db \<Rightarrow> jstr \<Rightarrow> 'db"
  kv_range :: "'db \<Rightarrow> jstr \<Rightarrow> jstr \<Rightarrow> bool \<Rightarrow> (jstr \<times> stored) list"
  kv_flush :: "'db \<Rightarrow> 'db"
  kv_compact :: "'db \<Rightarrow> jstr \<Rightarrow> jstr \<Rightarrow> 'db"

locale rocks_db =
  fixes K :: "'db kv"
  assumes get_put: "kv_get K (kv_put K db k s) = (kv_get K db)(k \<mapsto> s)"
    and get_remove: "kv_get K (kv_remove K db k) = (kv_get K db)(k := None)"
    and range_forward:
      "set (kv_range K db lo hi False) = {(k, s). kv_get K db k = Some s \<and> lo \<le> k \<and> k < hi}"
    and range_backward:
      "set (kv_range K db lo hi True) = {(k, s). kv_get K db k = Some s \<and> hi < k \<and> k \<le> lo}"
    and range_ascending: "sorted_wrt (<) (map fst (kv_range K db lo hi False))"
    and range_descending: "sorted_wrt (>) (map fst (kv_range K db lo hi True))"
    and get_flush: "kv_get K (kv_flush K db) = kv_get K db"
    and get_compact: "kv_get K (kv_compact K db lo hi) = kv_get K db"

text \<open>An in-memory database with these laws.\<close>

type_synonym mem_db = "(jstr \<times> stored) list"

definition mem_entries :: "mem_db \<Rightarrow> (jstr \<Rightarrow> bool) \<Rightarrow> (jstr \<times> stored) list" where
  "mem_entries db P = map (\<lambda>k. (k, the (map_of db k))) (filter P (sort (remdups (map fst db))))"

definition mem_kv :: "mem_db kv" where
  "mem_kv = \<lparr>kv_get = map_of,
     kv_put = (\<lambda>db k s. (k, s) # db),
     kv_remove = (\<lambda>db k. filter (\<lambda>e. fst e \<noteq> k) db),
     kv_range = (\<lambda>db lo hi backwards.
       if backwards then rev (mem_entries db (\<lambda>k. hi < k \<and> k \<le> lo))
       else mem_entries db (\<lambda>k. lo \<le> k \<and> k < hi)),
     kv_flush = (\<lambda>db. db),
     kv_compact = (\<lambda>db lo hi. db)\<rparr>"

lemma map_of_filter_key: "map_of (filter (\<lambda>e. fst e \<noteq> k) db) = (map_of db)(k := None)"
  by (induction db) (auto simp: fun_eq_iff)

lemma set_mem_entries: "set (mem_entries db P) = {(k, s). map_of db k = Some s \<and> P k}"
proof -
  have "k \<in> fst ` set db \<longleftrightarrow> map_of db k \<noteq> None" for k
    by (simp add: map_of_eq_None_iff)
  then show ?thesis by (force simp: mem_entries_def)
qed

lemma sorted_mem_entries: "sorted_wrt (<) (map fst (mem_entries db P))"
proof -
  have "map fst (mem_entries db P) = filter P (sort (remdups (map fst db)))"
    by (simp add: mem_entries_def comp_def)
  then show ?thesis by (simp add: sorted_wrt_filter strict_sorted_iff)
qed

interpretation mem: rocks_db mem_kv
proof unfold_locales
  fix db :: mem_db and lo hi :: jstr
  show "sorted_wrt (\<lambda>x y. y < x) (map fst (kv_range mem_kv db lo hi True))"
    using sorted_mem_entries [of db "\<lambda>k. hi < k \<and> k \<le> lo"]
    by (simp add: mem_kv_def sorted_wrt_rev flip: rev_map)
qed (simp_all add: mem_kv_def map_of_filter_key set_mem_entries sorted_mem_entries)

section \<open>Encoding of records\<close>

definition RECORD_TYPE :: jstr where
  "RECORD_TYPE = js ''wallet-toolbox-rocksdb-record''"

definition SCHEMA_VERSION :: int where
  "SCHEMA_VERSION = 1"

text \<open>\<open>now\<close> is the time read by \<open>new Date()\<close>; time values stand for their ISO strings.\<close>

definition normalizeDate :: "int \<Rightarrow> date_arg \<Rightarrow> int rocks_res" where
  "normalizeDate now d = (case d of NoDate \<Rightarrow> Inr now | DateMs t \<Rightarrow> Inr t | BadDate \<Rightarrow> Inl UpdatedAtInvalid)"

definition encode :: "int \<Rightarrow> wval \<Rightarrow> int option \<Rightarrow> date_arg \<Rightarrow> stored rocks_res" where
  "encode now v currentVersion d =
     bindE (normalizeDate now d) (\<lambda>t.
       Inr \<lparr>st_recordType = RECORD_TYPE, st_schemaVersion = Some SCHEMA_VERSION, st_value = v,
            st_version = (case currentVersion of None \<Rightarrow> 0 | Some n \<Rightarrow> n) + 1, st_updated_at = t\<rparr>)"

definition decode :: "jstr \<Rightarrow> stored \<Rightarrow> wallet_record rocks_res" where
  "decode key st =
     (if st_recordType st \<noteq> RECORD_TYPE then Inl (RecordTypeMismatch key)
      else if st_schemaVersion st \<noteq> Some SCHEMA_VERSION then Inl (MigrationRequired key (st_schemaVersion st))
      else Inr \<lparr>rec_key = key, rec_value = st_value st, rec_version = st_version st,
                rec_updated_at = st_updated_at st\<rparr>)"

definition storageKey :: "jstr \<Rightarrow> jstr \<Rightarrow> jstr" where
  "storageKey ns key = ns @ key"

section \<open>Point operations\<close>

definition kv_read :: "'db kv \<Rightarrow> jstr \<Rightarrow> ('db, rocks_error, stored option) sem" where
  "kv_read K k = (\<lambda>db. (Inr (kv_get K db k), db))"

definition kv_write :: "'db kv \<Rightarrow> jstr \<Rightarrow> stored \<Rightarrow> ('db, rocks_error, unit) sem" where
  "kv_write K k s = (\<lambda>db. (Inr (), kv_put K db k s))"

definition kv_delete :: "'db kv \<Rightarrow> jstr \<Rightarrow> ('db, rocks_error, unit) sem" where
  "kv_delete K k = (\<lambda>db. (Inr (), kv_remove K db k))"

text \<open>A native transaction: its writes are dropped when the body throws. Transactions of one
  store are chained on \<open>nativeTransactionTail\<close>, so they never overlap and each is one step.\<close>

definition runNativeTransaction :: "('db, rocks_error, 'a) sem \<Rightarrow> ('db, rocks_error, 'a) sem" where
  "runNativeTransaction work =
     (\<lambda>db. case work db of (Inl e, _) \<Rightarrow> (Inl e, db) | (Inr a, db') \<Rightarrow> (Inr a, db'))"

definition rocks_get :: "'db kv \<Rightarrow> jstr \<Rightarrow> jstr \<Rightarrow> ('db, rocks_error, wallet_record option) sem" where
  "rocks_get K ns key =
     bindS (liftS (normalizeKey key)) (\<lambda>normalizedKey.
     bindS (kv_read K (storageKey ns normalizedKey)) (\<lambda>st.
       case st of None \<Rightarrow> retS None
       | Some s \<Rightarrow> bindS (liftS (decode normalizedKey s)) (\<lambda>r. retS (Some r))))"

definition rocks_put ::
  "'db kv \<Rightarrow> jstr \<Rightarrow> int \<Rightarrow> put_args \<Rightarrow> ('db, rocks_error, put_result) sem" where
  "rocks_put K ns now args =
     bindS (liftS (normalizeKey (put_key args))) (\<lambda>normalizedKey.
     let sk = storageKey ns normalizedKey in
     case put_expected args of
       Some expected \<Rightarrow> runNativeTransaction (
         bindS (kv_read K sk) (\<lambda>current.
         let currentVersion = map_option st_version current in
         if currentVersion \<noteq> expected then retS (VersionConflict normalizedKey currentVersion)
         else
           bindS (liftS (encode now (put_value args) currentVersion (put_updated_at args))) (\<lambda>next.
           bindS (kv_write K sk next) (\<lambda>_.
             retS (PutOk normalizedKey (st_version next))))))
     | None \<Rightarrow>
         bindS (kv_read K sk) (\<lambda>current.
         bindS (liftS (encode now (put_value args) (map_option st_version current)
                        (put_updated_at args))) (\<lambda>next.
         bindS (kv_write K sk next) (\<lambda>_.
           retS (PutOk normalizedKey (st_version next))))))"

definition rocks_delete :: "'db kv \<Rightarrow> jstr \<Rightarrow> jstr \<Rightarrow> ('db, rocks_error, unit) sem" where
  "rocks_delete K ns key =
     bindS (liftS (normalizeKey key)) (\<lambda>k. kv_delete K (storageKey ns k))"

text \<open>One write of a batch. The body of the loop reads, compares and writes outside any native
  transaction.\<close>

definition batch_write ::
  "'db kv \<Rightarrow> jstr \<Rightarrow> int \<Rightarrow> store_write \<Rightarrow> ('db, rocks_error, put_result) sem" where
  "batch_write K ns now w =
     (case w of
        WDelete k0 \<Rightarrow>
          bindS (liftS (normalizeKey k0)) (\<lambda>key.
          bindS (kv_delete K (storageKey ns key)) (\<lambda>_. retS (PutOk key 0)))
      | WPut args \<Rightarrow>
          bindS (liftS (normalizeKey (put_key args))) (\<lambda>key.
          bindS (kv_read K (storageKey ns key)) (\<lambda>current.
          let currentVersion = map_option st_version current in
          if put_expected args \<noteq> None \<and> Some currentVersion \<noteq> put_expected args
          then retS (VersionConflict key currentVersion)
          else
            bindS (liftS (encode now (put_value args) currentVersion (put_updated_at args))) (\<lambda>next.
            bindS (kv_write K (storageKey ns key) next) (\<lambda>_.
              retS (PutOk key (st_version next)))))))"

definition batch ::
  "'db kv \<Rightarrow> jstr \<Rightarrow> int \<Rightarrow> store_write list \<Rightarrow> ('db, rocks_error, put_result list) sem" where
  "batch K ns now writes = mapS (batch_write K ns now) writes"

definition incrementNumber ::
  "'db kv \<Rightarrow> jstr \<Rightarrow> int \<Rightarrow> jstr \<Rightarrow> int \<Rightarrow> ('db, rocks_error, int) sem" where
  "incrementNumber K ns now key amount =
     (if \<not> isSafeInteger amount \<or> amount < 1 then throwS IncrementAmountInvalid
      else
        bindS (liftS (normalizeKey key)) (\<lambda>normalizedKey.
        let sk = storageKey ns normalizedKey in
        runNativeTransaction (
          bindS (kv_read K sk) (\<lambda>current.
          bindS (case current of None \<Rightarrow> retS 0
                 | Some s \<Rightarrow> (case st_value s of VNumber n \<Rightarrow> retS n | _ \<Rightarrow> throwS Mistyped)) (\<lambda>value.
          let next = value + amount in
          bindS (liftS (encode now (VNumber next) (map_option st_version current) NoDate)) (\<lambda>rec.
          bindS (kv_write K sk rec) (\<lambda>_. retS next)))))))"

section \<open>Scans\<close>

text \<open>The loop over a range that decodes entries until \<open>n\<close> records are collected.\<close>

fun scan_entries :: "jstr \<Rightarrow> nat \<Rightarrow> (jstr \<times> stored) list \<Rightarrow> wallet_record list rocks_res" where
  "scan_entries ns n [] = Inr []"
| "scan_entries ns n ((key, st) # es) =
     (if \<not> startsWith key ns then scan_entries ns n es
      else bindE (decode (drop (length ns) key) st) (\<lambda>r.
        if n \<le> 1 then Inr [r]
        else bindE (scan_entries ns (n - 1) es) (\<lambda>rs. Inr (r # rs))))"

definition normalizedLimit :: "int \<Rightarrow> nat" where
  "normalizedLimit l = nat (max 1 l)"

definition scan ::
  "'db kv \<Rightarrow> jstr \<Rightarrow> jstr \<Rightarrow> int option \<Rightarrow> ('db, rocks_error, wallet_record list) sem" where
  "scan K ns pfx limit =
     bindS (liftS (normalizeKey pfx)) (\<lambda>p.
     (\<lambda>db. (scan_entries ns (normalizedLimit (case limit of None \<Rightarrow> 100 | Some l \<Rightarrow> l))
              (kv_range K db (storageKey ns p) (storageKey ns p @ [ch_max]) False), db)))"

definition findEntities ::
  "'db kv \<Rightarrow> jstr \<Rightarrow> jstr \<Rightarrow> int option \<Rightarrow> ('db, rocks_error, wallet_record list) sem" where
  "findEntities K ns pfx limit = scan K ns pfx limit"


section \<open>The abstract store\<close>

text \<open>What clients see of the store: each key has at most one value, with its version.\<close>

type_synonym vmap = "jstr \<rightharpoonup> wval \<times> int"

definition vview :: "'db kv \<Rightarrow> jstr \<Rightarrow> 'db \<Rightarrow> vmap" where
  "vview K ns db = (\<lambda>k. map_option (\<lambda>s. (st_value s, st_version s)) (kv_get K db (storageKey ns k)))"

definition next_version :: "int option \<Rightarrow> int" where
  "next_version v = (case v of None \<Rightarrow> 0 | Some n \<Rightarrow> n) + 1"

text \<open>The contract of one write: a compare-and-set put, an unconditional put, or a delete.\<close>

fun abs_write :: "store_write \<Rightarrow> vmap \<Rightarrow> vmap \<times> put_result" where
  "abs_write (WDelete k) m = (m(js_trim k := None), PutOk (js_trim k) 0)"
| "abs_write (WPut a) m =
     (let k = js_trim (put_key a); v = map_option snd (m k) in
      if put_expected a \<noteq> None \<and> put_expected a \<noteq> Some v then (m, VersionConflict k v)
      else (m(k \<mapsto> (put_value a, next_version v)), PutOk k (next_version v)))"

fun abs_batch :: "store_write list \<Rightarrow> vmap \<Rightarrow> vmap \<times> put_result list" where
  "abs_batch [] m = (m, [])"
| "abs_batch (w # ws) m =
     (let (m1, r) = abs_write w m; (m2, rs) = abs_batch ws m1 in (m2, r # rs))"

text \<open>The writes that do not throw.\<close>

fun write_ok :: "store_write \<Rightarrow> bool" where
  "write_ok (WDelete k) \<longleftrightarrow> js_trim k \<noteq> [] \<and> ch_nul \<notin> set (js_trim k)"
| "write_ok (WPut a) \<longleftrightarrow>
     js_trim (put_key a) \<noteq> [] \<and> ch_nul \<notin> set (js_trim (put_key a)) \<and> put_updated_at a \<noteq> BadDate"

lemma normalizeKey_ok: "js_trim k \<noteq> [] \<Longrightarrow> ch_nul \<notin> set (js_trim k) \<Longrightarrow> normalizeKey k = Inr (js_trim k)"
  by (simp add: normalizeKey_def Let_def)

lemma normalizeKey_Inr: "normalizeKey k = Inr k' \<Longrightarrow> k' = js_trim k \<and> k' \<noteq> [] \<and> ch_nul \<notin> set k'"
  by (auto simp: normalizeKey_def Let_def split: if_splits)

lemma encode_ok:
  "d \<noteq> BadDate \<Longrightarrow> \<exists>t. encode now v cv d = Inr \<lparr>st_recordType = RECORD_TYPE,
     st_schemaVersion = Some SCHEMA_VERSION, st_value = v, st_version = next_version cv, st_updated_at = t\<rparr>"
  by (cases d) (auto simp: encode_def normalizeDate_def next_version_def)

lemma encode_bad: "encode now v cv BadDate = Inl UpdatedAtInvalid"
  by (simp add: encode_def normalizeDate_def)

lemma decode_encode: "encode now v cv d = Inr st \<Longrightarrow>
    decode k st = Inr \<lparr>rec_key = k, rec_value = v, rec_version = next_version cv,
                       rec_updated_at = st_updated_at st\<rparr>"
  by (auto simp: encode_def decode_def next_version_def bindE_Inr_iff)

lemmas sem_defs = kv_read_def kv_write_def kv_delete_def

text \<open>A store that promises its clients that a valid write acts as \<open>abs_write\<close>, and that a write
  which throws leaves the store as it was.\<close>

locale versioned_store =
  fixes view :: "'s \<Rightarrow> vmap"
    and wr :: "store_write \<Rightarrow> ('s, rocks_error, put_result) sem"
  assumes write_acts:
      "write_ok w \<Longrightarrow> \<exists>r s'. wr w s = (Inr r, s') \<and> abs_write w (view s) = (view s', r)"
    and write_throws: "wr w s = (Inl e, s') \<Longrightarrow> view s' = view s"
begin

lemma writes_refine:
  "list_all write_ok ws \<Longrightarrow>
     \<exists>rs s'. mapS wr ws s = (Inr rs, s') \<and> abs_batch ws (view s) = (view s', rs)"
proof (induction ws arbitrary: s)
  case Nil
  then show ?case by simp
next
  case (Cons w ws)
  then obtain r s1 where 1: "wr w s = (Inr r, s1)" "abs_write w (view s) = (view s1, r)"
    using write_acts [of w s] by auto
  from Cons obtain rs s2 where
    2: "mapS wr ws s1 = (Inr rs, s2)" "abs_batch ws (view s1) = (view s2, rs)" by force
  from 1 2 show ?case by simp
qed

lemma writes_view:
  "list_all write_ok ws \<Longrightarrow> mapS wr ws s = (r, s') \<Longrightarrow> view s' = fst (abs_batch ws (view s))"
  using writes_refine [of ws s] by auto

text \<open>Of two compare-and-set writes to one key that expect the same version, run one after the
  other, at most one takes effect.\<close>

lemma cas_exclusive:
  assumes "wr (WPut a) s = (Inr (PutOk k v), s1)" "wr (WPut b) s1 = (Inr (PutOk k' v'), s2)"
    and "write_ok (WPut a)" "write_ok (WPut b)"
    and "js_trim (put_key a) = js_trim (put_key b)"
    and "put_expected a = Some e" "put_expected b = Some e"
  shows False
proof -
  from assms(1,3) write_acts [of "WPut a" s] have "abs_write (WPut a) (view s) = (view s1, PutOk k v)"
    by auto
  then have "view s1 = (view s)(js_trim (put_key a) \<mapsto> (put_value a, next_version e))"
    using assms(6) by (auto simp: Let_def split: if_splits)
  moreover from assms(2,4) write_acts [of "WPut b" s1]
  have "abs_write (WPut b) (view s1) = (view s2, PutOk k' v')" by auto
  then have "map_option snd (view s1 (js_trim (put_key b))) = e"
    using assms(7) by (auto simp: Let_def split: if_splits)
  ultimately show False using assms(5) by (cases e) (auto simp: next_version_def)
qed

end

locale rocks_store = rocks_db K for K :: "'db kv" +
  fixes ns :: jstr and now :: int
begin

lemma vview_put:
  "vview K ns (kv_put K db (storageKey ns k) s) = (vview K ns db)(k \<mapsto> (st_value s, st_version s))"
  by (auto simp: vview_def get_put storageKey_def fun_eq_iff)

lemma vview_remove: "vview K ns (kv_remove K db (storageKey ns k)) = (vview K ns db)(k := None)"
  by (auto simp: vview_def get_remove storageKey_def fun_eq_iff)

lemma vview_version: "map_option snd (vview K ns db k) = map_option st_version (kv_get K db (storageKey ns k))"
  by (simp add: vview_def option.map_comp comp_def)

lemma batch_write_acts:
  assumes "write_ok w"
  shows "\<exists>r db'. batch_write K ns now w db = (Inr r, db') \<and> abs_write w (vview K ns db) = (vview K ns db', r)"
proof (cases w)
  case (WDelete k)
  with assms show ?thesis
    by (simp add: batch_write_def normalizeKey_ok sem_defs bindS_def vview_remove)
next
  case (WPut a)
  let ?k = "js_trim (put_key a)" and ?cur = "kv_get K db (storageKey ns (js_trim (put_key a)))"
  obtain t where "encode now (put_value a) (map_option st_version ?cur) (put_updated_at a) =
      Inr \<lparr>st_recordType = RECORD_TYPE, st_schemaVersion = Some SCHEMA_VERSION, st_value = put_value a,
        st_version = next_version (map_option st_version ?cur), st_updated_at = t\<rparr>"
    using assms WPut
      encode_ok [of "put_updated_at a" now "put_value a" "map_option st_version ?cur"] by auto
  with WPut assms show ?thesis
    by (auto simp: batch_write_def normalizeKey_ok sem_defs bindS_def vview_put vview_version Let_def)
qed

lemma batch_write_throws: "batch_write K ns now w db = (Inl e, db') \<Longrightarrow> db' = db"
  by (auto simp: batch_write_def sem_defs bindS_def Let_def retS_def throwS_def liftS_def
      split: store_write.splits sum.splits prod.splits if_splits)

end

sublocale rocks_store \<subseteq> store: versioned_store "vview K ns" "batch_write K ns now"
proof unfold_locales
  fix w :: store_write and s
  assume "write_ok w"
  then show "\<exists>r s'. batch_write K ns now w s = (Inr r, s') \<and> abs_write w (vview K ns s) = (vview K ns s', r)"
    by (rule batch_write_acts)
next
  fix w s e s'
  assume "batch_write K ns now w s = (Inl e, s')"
  then show "vview K ns s' = vview K ns s" by (auto dest: batch_write_throws)
qed

interpretation mem_store: rocks_store mem_kv ns now for ns now
  by unfold_locales

end
