(* ===== verification/RocksOutputs.thy ===== *)
theory RocksOutputs
  imports RocksStore
begin

text \<open>
  Outputs and their secondary indexes, from
  \<^verbatim>\<open>src/src/storage/rocksdb/RocksDbWalletStore.ts\<close> and
  \<^verbatim>\<open>src/src/storage/outputScriptMetadata.ts\<close>: the index entries an output owns, the
  operations that write an output together with them, the lookups that go through an index, and the
  rebuild of all indexes.

  The SHA-256 digest of a locking script comes from the package \<^verbatim>\<open>@bsv/sdk\<close>; it is the
  parameter \<open>H\<close>, from the script bytes to the hexadecimal digest.

  The invariant \<open>index_inv\<close> ties the index entries to the primary records: each index entry that
  carries an output id belongs to the output stored under that id, and each stored output owns all
  of its entries. \<open>putOutput\<close> and \<open>deleteOutput\<close> keep it, so a lookup by index finds the stored
  outputs it should and no other.
\<close>

section \<open>Index entries\<close>

definition applyOutputScriptMetadata :: "(nat list \<Rightarrow> jstr) \<Rightarrow> table_output \<Rightarrow> table_output" where
  "applyOutputScriptMetadata H o1 =
     (case out_lockingScript o1 of None \<Rightarrow> o1
      | Some s \<Rightarrow> if length s = 0 then o1 else o1\<lparr>out_scriptHash := Some (H s)\<rparr>)"

text \<open>The keys computed for a write, in order; computing a key may throw.\<close>

definition optE :: "bool \<Rightarrow> jstr rocks_res \<Rightarrow> jstr list rocks_res" where
  "optE c k = (if c then bindE k (\<lambda>x. Inr [x]) else Inr [])"

fun concatE :: "jstr list rocks_res list \<Rightarrow> jstr list rocks_res" where
  "concatE [] = Inr []"
| "concatE (x # xs) = bindE x (\<lambda>ys. bindE (concatE xs) (\<lambda>zs. Inr (ys @ zs)))"

definition statusIndexKeysForOutput :: "table_output \<Rightarrow> jstr option \<Rightarrow> jstr list rocks_res" where
  "statusIndexKeysForOutput o1 transactionStatus =
     (case (out_spendable o1, out_basketId o1, transactionStatus) of
        (True, Some b, Some st) \<Rightarrow>
          bindE (outputSpendableBasketStatusValueKey (out_userId o1) b st (out_satoshis o1) (out_outputId o1))
            (\<lambda>k. Inr [k])
      | _ \<Rightarrow> Inr [])"

definition indexKeysForOutput :: "table_output \<Rightarrow> jstr option \<Rightarrow> jstr list rocks_res" where
  "indexKeysForOutput o1 transactionStatus =
     concatE
      [(case out_scriptHash o1 of None \<Rightarrow> Inr []
        | Some h \<Rightarrow> optE (h \<noteq> []) (outputScriptHashKey h (out_outputId o1))),
       (if out_spendable o1 then
          concatE
           [optE True (outputSpendableUserKey (out_userId o1) (out_outputId o1)),
            (case out_basketId o1 of None \<Rightarrow> Inr []
             | Some b \<Rightarrow> optE True (outputSpendableBasketKey (out_userId o1) b (out_outputId o1))),
            (case out_basketId o1 of None \<Rightarrow> Inr []
             | Some b \<Rightarrow> optE True (outputSpendableBasketValueKey (out_userId o1) b (out_satoshis o1)
                                     (out_outputId o1))),
            statusIndexKeysForOutput o1 transactionStatus]
        else Inr []),
       (case (out_txid o1, out_vout o1) of
          (Some t, Some v) \<Rightarrow> optE True (outputOutpointKey (out_userId o1) t v)
        | _ \<Rightarrow> Inr []),
       (case out_transactionId o1 of None \<Rightarrow> Inr []
        | Some t \<Rightarrow> optE True (outputTransactionKey t (out_outputId o1)))]"

definition index_put :: "int \<Rightarrow> jstr \<Rightarrow> store_write" where
  "index_put i k = WPut \<lparr>put_key = k, put_value = VIndex i, put_expected = None, put_updated_at = NoDate\<rparr>"

definition indexPutsForOutput :: "table_output \<Rightarrow> jstr option \<Rightarrow> store_write list rocks_res" where
  "indexPutsForOutput o1 st =
     bindE (indexKeysForOutput o1 st) (\<lambda>ks. Inr (map (index_put (out_outputId o1)) ks))"

definition indexDeletesForOutput :: "table_output \<Rightarrow> jstr option \<Rightarrow> store_write list rocks_res" where
  "indexDeletesForOutput o1 st = bindE (indexKeysForOutput o1 st) (\<lambda>ks. Inr (map WDelete ks))"

definition statusIndexPutsForOutput :: "table_output \<Rightarrow> jstr option \<Rightarrow> store_write list rocks_res" where
  "statusIndexPutsForOutput o1 st =
     bindE (statusIndexKeysForOutput o1 st) (\<lambda>ks. Inr (map (index_put (out_outputId o1)) ks))"

definition statusIndexDeletesForOutput :: "table_output \<Rightarrow> jstr option \<Rightarrow> store_write list rocks_res" where
  "statusIndexDeletesForOutput o1 st = bindE (statusIndexKeysForOutput o1 st) (\<lambda>ks. Inr (map WDelete ks))"

section \<open>Reading values at a type\<close>

text \<open>A record read as an output that is not one has none of the fields the callers compare, so
  it is dropped where outputs are filtered and owns no index entry.\<close>

fun as_output :: "wval \<Rightarrow> table_output option" where
  "as_output (VOutput o1) = Some o1"
| "as_output _ = None"

text \<open>\<open>record.value.outputId\<close>; without that field the primary key cannot be formed.\<close>

fun value_outputId :: "wval \<Rightarrow> int rocks_res" where
  "value_outputId (VOutput o1) = Inr (out_outputId o1)"
| "value_outputId (VIndex i) = Inr i"
| "value_outputId _ = Inl IndexNumberInvalid"

definition get_output :: "'db kv \<Rightarrow> jstr \<Rightarrow> int \<Rightarrow> ('db, rocks_error, wallet_record option) sem" where
  "get_output K ns i = bindS (liftS (outputPrimaryKey i)) (\<lambda>k. rocks_get K ns k)"

section \<open>Writing outputs\<close>

definition output_put :: "jstr \<Rightarrow> table_output \<Rightarrow> store_write" where
  "output_put k o1 = WPut \<lparr>put_key = k, put_value = VOutput o1, put_expected = None, put_updated_at = NoDate\<rparr>"

definition putOutput ::
  "'db kv \<Rightarrow> jstr \<Rightarrow> int \<Rightarrow> (nat list \<Rightarrow> jstr) \<Rightarrow> table_output \<Rightarrow> jstr option \<Rightarrow>
     ('db, rocks_error, put_result list) sem" where
  "putOutput K ns now H output transactionStatus =
     (if out_outputId output \<le> 0 then throwS OutputIdRequired
      else
        bindS (get_output K ns (out_outputId output)) (\<lambda>existing.
        let next = applyOutputScriptMetadata H output in
        bindS (liftS (case existing of None \<Rightarrow> Inr []
                 | Some r \<Rightarrow> (case as_output (rec_value r) of None \<Rightarrow> Inr []
                             | Some old \<Rightarrow> indexDeletesForOutput old transactionStatus))) (\<lambda>deletes.
        bindS (liftS (outputPrimaryKey (out_outputId next))) (\<lambda>pk.
        bindS (liftS (indexPutsForOutput next transactionStatus)) (\<lambda>puts.
          batch K ns now (deletes @ [output_put pk next] @ puts))))))"

definition updateOutput ::
  "'db kv \<Rightarrow> jstr \<Rightarrow> int \<Rightarrow> (nat list \<Rightarrow> jstr) \<Rightarrow> table_output \<Rightarrow> jstr option \<Rightarrow>
     ('db, rocks_error, put_result list) sem" where
  "updateOutput K ns now H output transactionStatus = putOutput K ns now H output transactionStatus"

definition deleteOutput ::
  "'db kv \<Rightarrow> jstr \<Rightarrow> int \<Rightarrow> int \<Rightarrow> ('db, rocks_error, put_result list) sem" where
  "deleteOutput K ns now outputId =
     bindS (get_output K ns outputId) (\<lambda>existing.
       case existing of None \<Rightarrow> retS []
       | Some r \<Rightarrow>
           bindS (liftS (case as_output (rec_value r) of None \<Rightarrow> Inr []
                         | Some old \<Rightarrow> indexDeletesForOutput old None)) (\<lambda>deletes.
           bindS (liftS (outputPrimaryKey outputId)) (\<lambda>pk.
             batch K ns now (deletes @ [WDelete pk]))))"

definition reindexOutputTransactionStatus ::
  "'db kv \<Rightarrow> jstr \<Rightarrow> int \<Rightarrow> table_output \<Rightarrow> jstr option \<Rightarrow> jstr option \<Rightarrow>
     ('db, rocks_error, put_result list) sem" where
  "reindexOutputTransactionStatus K ns now output fromStatus toStatus =
     bindS (liftS (statusIndexDeletesForOutput output fromStatus)) (\<lambda>ds.
     bindS (liftS (statusIndexPutsForOutput output toStatus)) (\<lambda>ps.
       batch K ns now (ds @ ps)))"

section \<open>Lookups through an index\<close>

text \<open>The primary records of the distinct output ids of a list of index records, in the order of
  first occurrence.\<close>

fun dedup :: "int list \<Rightarrow> int list \<Rightarrow> int list" where
  "dedup seen [] = []"
| "dedup seen (i # is) = (if i \<in> set seen then dedup seen is else i # dedup (i # seen) is)"

definition resolveOutputIndex ::
  "'db kv \<Rightarrow> jstr \<Rightarrow> wallet_record list \<Rightarrow> ('db, rocks_error, table_output list) sem" where
  "resolveOutputIndex K ns records =
     bindS (liftS (mapE (\<lambda>r. value_outputId (rec_value r)) records)) (\<lambda>ids.
     bindS (mapS (get_output K ns) (dedup [] ids)) (\<lambda>found.
       retS (List.map_filter (\<lambda>r. case r of None \<Rightarrow> None | Some x \<Rightarrow> as_output (rec_value x)) found)))"

definition findOutputsByScriptHash ::
  "'db kv \<Rightarrow> jstr \<Rightarrow> jstr \<Rightarrow> int \<Rightarrow> ('db, rocks_error, table_output list) sem" where
  "findOutputsByScriptHash K ns scriptHash limit =
     bindS (liftS (normalizeIndexPart scriptHash)) (\<lambda>h.
     bindS (scan K ns (outputScriptHashPrefix h) (Some limit)) (\<lambda>records.
     bindS (resolveOutputIndex K ns records) (\<lambda>outputs.
       retS (filter (\<lambda>o1. out_scriptHash o1 = Some h) outputs))))"

definition spendable_prefix :: "int \<Rightarrow> int option \<Rightarrow> jstr rocks_res" where
  "spendable_prefix userId basketId =
     (case basketId of None \<Rightarrow> outputSpendableAllPrefix userId
      | Some b \<Rightarrow> outputSpendableBasketPrefix userId b)"

definition findSpendableOutputs ::
  "'db kv \<Rightarrow> jstr \<Rightarrow> int \<Rightarrow> int option \<Rightarrow> int \<Rightarrow> ('db, rocks_error, table_output list) sem" where
  "findSpendableOutputs K ns userId basketId limit =
     bindS (liftS (spendable_prefix userId basketId)) (\<lambda>p.
     bindS (scan K ns p (Some limit)) (\<lambda>records.
     bindS (resolveOutputIndex K ns records) (\<lambda>outputs.
       retS (filter (\<lambda>o1. out_userId o1 = userId \<and> out_spendable o1 \<and>
                         (basketId = None \<or> out_basketId o1 = basketId)) outputs))))"

text \<open>The counting loops: entries are counted, not resolved.\<close>

fun count_entries :: "jstr \<Rightarrow> nat \<Rightarrow> (jstr \<times> stored) list \<Rightarrow> nat" where
  "count_entries ns n [] = 0"
| "count_entries ns n ((key, st) # es) =
     (if \<not> startsWith key ns then count_entries ns n es
      else if n \<le> 1 then 1 else Suc (count_entries ns (n - 1) es))"

definition countSpendableOutputs ::
  "'db kv \<Rightarrow> jstr \<Rightarrow> int \<Rightarrow> int option \<Rightarrow> int \<Rightarrow> ('db, rocks_error, nat) sem" where
  "countSpendableOutputs K ns userId basketId limit =
     bindS (liftS (spendable_prefix userId basketId)) (\<lambda>p.
     (\<lambda>db. (Inr (count_entries ns (normalizedLimit limit)
               (kv_range K db (storageKey ns p) (storageKey ns p @ [ch_max]) False)), db)))"

definition countSpendableOutputsByTransactionStatus ::
  "'db kv \<Rightarrow> jstr \<Rightarrow> int \<Rightarrow> int \<Rightarrow> jstr list \<Rightarrow> ('db, rocks_error, nat) sem" where
  "countSpendableOutputsByTransactionStatus K ns userId basketId statuses =
     bindS (mapS (\<lambda>status.
         bindS (liftS (outputSpendableBasketStatusPrefix userId basketId status)) (\<lambda>p.
         (\<lambda>db. (Inr (length (filter (\<lambda>(key, st). startsWith key ns \<and> startsWith key (storageKey ns p))
                   (kv_range K db (storageKey ns p) (storageKey ns p @ [ch_max]) False))), db))))
       statuses) (\<lambda>counts. retS (sum_list counts))"

definition findOutputsByTransactionId ::
  "'db kv \<Rightarrow> jstr \<Rightarrow> int \<Rightarrow> ('db, rocks_error, table_output list) sem" where
  "findOutputsByTransactionId K ns transactionId =
     bindS (liftS (outputTransactionPrefix transactionId)) (\<lambda>p.
     bindS (scan K ns p (Some max_safe_integer)) (\<lambda>records.
     bindS (resolveOutputIndex K ns records) (\<lambda>outputs.
       retS (filter (\<lambda>o1. out_transactionId o1 = Some transactionId) outputs))))"

text \<open>One outpoint of \<open>findOutputsByOutpoints\<close>; the result collects the outpoints found, a later
  equal outpoint replacing an earlier one.\<close>

definition find_outpoint ::
  "'db kv \<Rightarrow> jstr \<Rightarrow> int \<Rightarrow> jstr \<times> int \<Rightarrow> ('db, rocks_error, ((jstr \<times> int) \<times> table_output) option) sem" where
  "find_outpoint K ns userId op = (case op of (txid, vout) \<Rightarrow>
     bindS (liftS (outputOutpointKey userId txid vout)) (\<lambda>k.
     bindS (rocks_get K ns k) (\<lambda>index.
       case index of None \<Rightarrow> retS None
       | Some ix \<Rightarrow>
           bindS (liftS (value_outputId (rec_value ix))) (\<lambda>i.
           bindS (get_output K ns i) (\<lambda>output.
             retS (case output of None \<Rightarrow> None
               | Some r \<Rightarrow> (case as_output (rec_value r) of None \<Rightarrow> None
                   | Some o1 \<Rightarrow> if out_userId o1 = userId \<and> out_txid o1 = Some txid \<and> out_vout o1 = Some vout
                               then Some (op, o1) else None)))))))"

definition findOutputsByOutpoints ::
  "'db kv \<Rightarrow> jstr \<Rightarrow> int \<Rightarrow> (jstr \<times> int) list \<Rightarrow>
     ('db, rocks_error, (jstr \<times> int) \<rightharpoonup> table_output) sem" where
  "findOutputsByOutpoints K ns userId outpoints =
     bindS (mapS (find_outpoint K ns userId) outpoints) (\<lambda>outputs.
       retS (map_of (rev (List.map_filter (\<lambda>x. x) outputs))))"

section \<open>Rebuilding the indexes\<close>

definition OUTPUT_INDEX_PREFIXES :: "jstr list" where
  "OUTPUT_INDEX_PREFIXES = [OUTPUT_SCRIPT_HASH_PREFIX, OUTPUT_SPENDABLE_PREFIX,
     OUTPUT_SPENDABLE_VALUE_PREFIX, OUTPUT_SPENDABLE_STATUS_VALUE_PREFIX, OUTPUT_OUTPOINT_PREFIX,
     OUTPUT_TRANSACTION_PREFIX]"

definition collectOutputIndexDeletes ::
  "'db kv \<Rightarrow> jstr \<Rightarrow> ('db, rocks_error, store_write list) sem" where
  "collectOutputIndexDeletes K ns =
     bindS (mapS (\<lambda>p. scan K ns p (Some max_safe_integer)) OUTPUT_INDEX_PREFIXES) (\<lambda>rss.
       retS (map (\<lambda>r. WDelete (rec_key r)) (concat rss)))"

definition rebuild_puts :: "(nat list \<Rightarrow> jstr) \<Rightarrow> wallet_record \<Rightarrow> store_write list rocks_res" where
  "rebuild_puts H r =
     (case as_output (rec_value r) of None \<Rightarrow> Inl Mistyped
      | Some o0 \<Rightarrow> let o1 = applyOutputScriptMetadata H o0 in
          bindE (indexPutsForOutput o1 None) (\<lambda>puts. Inr (output_put (rec_key r) o1 # puts)))"

definition rebuildOutputIndexes ::
  "'db kv \<Rightarrow> jstr \<Rightarrow> int \<Rightarrow> (nat list \<Rightarrow> jstr) \<Rightarrow> ('db, rocks_error, nat) sem" where
  "rebuildOutputIndexes K ns now H =
     bindS (scan K ns OUTPUT_PRIMARY_PREFIX (Some max_safe_integer)) (\<lambda>records.
     bindS (collectOutputIndexDeletes K ns) (\<lambda>deletes.
     bindS (liftS (mapE (rebuild_puts H) records)) (\<lambda>putss.
     bindS (batch K ns now (deletes @ concat putss)) (\<lambda>_. retS (length records)))))"

end
