(* ===== verification/RocksIndexInv.thy ===== *)
theory RocksIndexInv
  imports RocksOutputs
begin

text \<open>
  The invariant of the output indexes and the correctness of the lookups that use them.

  \<open>index_inv\<close> is stated on the abstract store, so that the native database appears only through
  the contract \<open>rocks_store\<close>. The first part computes the keys an output owns and what a list of
  index writes does to the abstract store; the second shows that \<open>putOutput\<close> and
  \<open>deleteOutput\<close> keep the invariant; the third that a scan of an index prefix followed by the
  resolution of the ids finds exactly the stored outputs that own an entry under the prefix.
\<close>

section \<open>Keys as plain strings\<close>

definition pk :: "int \<Rightarrow> jstr" where
  "pk i = OUTPUT_PRIMARY_PREFIX @ pad16 i"

definition hash_key :: "jstr \<Rightarrow> int \<Rightarrow> jstr" where
  "hash_key h i = OUTPUT_SCRIPT_HASH_PREFIX @ h @ [ch_bang] @ pad16 i"

definition all_pfx :: "int \<Rightarrow> jstr" where
  "all_pfx u = OUTPUT_SPENDABLE_PREFIX @ pad16 u @ [ch_bang] @ js ''all!''"

definition basket_pfx :: "int \<Rightarrow> int \<Rightarrow> jstr" where
  "basket_pfx u b = OUTPUT_SPENDABLE_PREFIX @ pad16 u @ [ch_bang] @ js ''basket!'' @ pad16 b @ [ch_bang]"

definition tx_pfx :: "int \<Rightarrow> jstr" where
  "tx_pfx t = OUTPUT_TRANSACTION_PREFIX @ pad16 t @ [ch_bang]"

definition outpoint_key :: "int \<Rightarrow> jstr \<Rightarrow> int \<Rightarrow> jstr" where
  "outpoint_key u t v = OUTPUT_OUTPOINT_PREFIX @ pad16 u @ [ch_bang] @ t @ [ch_bang] @ pad16 v"

lemma plain_keys [simp]:
  "key_num i \<Longrightarrow> outputPrimaryKey i = Inr (pk i)"
  "key_num i \<Longrightarrow> normalizeIndexPart h = Inr h' \<Longrightarrow> outputScriptHashKey h i = Inr (hash_key h' i)"
  "key_num u \<Longrightarrow> outputSpendableAllPrefix u = Inr (all_pfx u)"
  "key_num u \<Longrightarrow> key_num i \<Longrightarrow> outputSpendableUserKey u i = Inr (all_pfx u @ pad16 i)"
  "key_num u \<Longrightarrow> key_num b \<Longrightarrow> outputSpendableBasketPrefix u b = Inr (basket_pfx u b)"
  "key_num u \<Longrightarrow> key_num b \<Longrightarrow> key_num i \<Longrightarrow>
     outputSpendableBasketKey u b i = Inr (basket_pfx u b @ pad16 i)"
  "key_num t \<Longrightarrow> outputTransactionPrefix t = Inr (tx_pfx t)"
  "key_num t \<Longrightarrow> key_num i \<Longrightarrow> outputTransactionKey t i = Inr (tx_pfx t @ pad16 i)"
  "key_num u \<Longrightarrow> key_num v \<Longrightarrow> normalizeIndexPart h = Inr h' \<Longrightarrow>
     outputOutpointKey u h v = Inr (outpoint_key u h' v)"
  by (simp_all add: outputPrimaryKey_def pk_def outputScriptHashKey_def outputScriptHashPrefix_def
      hash_key_def outputSpendableAllPrefix_def all_pfx_def outputSpendableUserKey_def
      outputSpendableBasketPrefix_def basket_pfx_def outputSpendableBasketKey_def tx_pfx_def
      outputTransactionPrefix_def outputTransactionKey_def outputSpendableUserPrefix_def
      outputOutpointKey_def outpoint_key_def)

text \<open>Keys with no code unit above \<open>"\ufffe"\<close>, so that the upper bound of a prefix scan is above
  every key with the prefix; index parts already in normal form.\<close>

definition ord_key :: "jstr \<Rightarrow> bool" where
  "ord_key k \<longleftrightarrow> (\<forall>c \<in> set k. c < ch_max)"

definition part_ok :: "jstr \<Rightarrow> bool" where
  "part_ok h \<longleftrightarrow> normalizeIndexPart h = Inr h \<and> ord_key h"

text \<open>The outputs whose keys can be formed, with index parts already in normal form.\<close>

definition output_ok :: "table_output \<Rightarrow> bool" where
  "output_ok o1 \<longleftrightarrow>
     0 < out_outputId o1 \<and> key_num (out_outputId o1) \<and> key_num (out_userId o1) \<and> key_num (out_satoshis o1) \<and>
     (case out_basketId o1 of None \<Rightarrow> True | Some b \<Rightarrow> key_num b) \<and>
     (case out_transactionId o1 of None \<Rightarrow> True | Some t \<Rightarrow> key_num t) \<and>
     (case out_vout o1 of None \<Rightarrow> True | Some v \<Rightarrow> key_num v) \<and>
     (case out_txid o1 of None \<Rightarrow> True | Some t \<Rightarrow> part_ok t) \<and>
     (case out_scriptHash o1 of None \<Rightarrow> True | Some h \<Rightarrow> h = [] \<or> part_ok h)"

text \<open>The index entries that end in the output's own id: all but the outpoint entry.\<close>

definition id_keys :: "table_output \<Rightarrow> jstr list" where
  "id_keys o1 =
     (case out_scriptHash o1 of None \<Rightarrow> [] | Some h \<Rightarrow> if h \<noteq> [] then [hash_key h (out_outputId o1)] else []) @
     (if out_spendable o1 then
        [all_pfx (out_userId o1) @ pad16 (out_outputId o1)] @
        (case out_basketId o1 of None \<Rightarrow> []
         | Some b \<Rightarrow> [basket_pfx (out_userId o1) b @ pad16 (out_outputId o1),
                     value_pfx (out_userId o1) b @ sat_oid (out_satoshis o1) (out_outputId o1)])
      else []) @
     (case out_transactionId o1 of None \<Rightarrow> [] | Some t \<Rightarrow> [tx_pfx t @ pad16 (out_outputId o1)])"

definition outpoint_keys :: "table_output \<Rightarrow> jstr list" where
  "outpoint_keys o1 = (case (out_txid o1, out_vout o1) of
     (Some t, Some v) \<Rightarrow> [outpoint_key (out_userId o1) t v] | _ \<Rightarrow> [])"

definition status_keys :: "table_output \<Rightarrow> jstr option \<Rightarrow> jstr list" where
  "status_keys o1 st = (case (out_spendable o1, out_basketId o1, st) of
     (True, Some b, Some x) \<Rightarrow> [status_pfx (out_userId o1) b x @ sat_oid (out_satoshis o1) (out_outputId o1)]
   | _ \<Rightarrow> [])"

definition status_ok :: "jstr option \<Rightarrow> bool" where
  "status_ok st \<longleftrightarrow> (case st of None \<Rightarrow> True | Some x \<Rightarrow> part_ok x)"

text \<open>All the entries of an output, for a given transaction status.\<close>

definition all_keys :: "table_output \<Rightarrow> jstr option \<Rightarrow> jstr set" where
  "all_keys o1 st = set (id_keys o1) \<union> set (outpoint_keys o1) \<union> set (status_keys o1 st)"

lemma indexKeysForOutput_ok:
  assumes "output_ok o1" "status_ok st"
  shows "\<exists>ks. indexKeysForOutput o1 st = Inr ks \<and> set ks = all_keys o1 st"
  using assms
  by (auto simp: output_ok_def status_ok_def part_ok_def indexKeysForOutput_def optE_def all_keys_def
      statusIndexKeysForOutput_def id_keys_def outpoint_keys_def status_keys_def
      split: option.splits bool.splits)

text \<open>Key prefixes that differ tell index families and primary keys apart.\<close>

definition id_index_key :: "jstr \<Rightarrow> bool" where
  "id_index_key k \<longleftrightarrow> startsWith k OUTPUT_SCRIPT_HASH_PREFIX \<or> startsWith k OUTPUT_SPENDABLE_PREFIX \<or>
     startsWith k OUTPUT_SPENDABLE_VALUE_PREFIX \<or> startsWith k OUTPUT_TRANSACTION_PREFIX"

lemmas pfx_defs = key_prefix_defs pk_def hash_key_def all_pfx_def basket_pfx_def tx_pfx_def
  outpoint_key_def value_pfx_def status_pfx_def

lemma id_keys_id_index: "k \<in> set (id_keys o1) \<Longrightarrow> id_index_key k"
  by (auto simp: id_keys_def id_index_key_def pfx_defs split: option.splits if_splits)

lemma pk_not_index [simp]: "\<not> id_index_key (pk i)"
  by (simp add: id_index_key_def pfx_defs startsWith_def js_def)

lemma extra_not_index:
  "k \<in> all_keys o1 st \<Longrightarrow> k \<notin> set (id_keys o1) \<Longrightarrow> \<not> id_index_key k \<and> (\<forall>i. k \<noteq> pk i)"
  by (auto simp: all_keys_def outpoint_keys_def status_keys_def id_index_key_def pfx_defs startsWith_def
      js_def split: option.splits bool.splits)

lemma pk_inj: "key_num i \<Longrightarrow> key_num j \<Longrightarrow> pk i = pk j \<longleftrightarrow> i = j"
  by (simp add: pk_def pad16_inj)

text \<open>The id an index entry ends in.\<close>

definition key_tail :: "jstr \<Rightarrow> jstr" where
  "key_tail k = drop (length k - 16) k"

lemma key_tail_append [simp]: "key_tail (p @ pad16 i) = pad16 i" "key_tail (x # p @ pad16 i) = pad16 i"
  by (simp_all add: key_tail_def)

lemma id_keys_tail: "k \<in> set (id_keys o1) \<Longrightarrow> key_tail k = pad16 (out_outputId o1)"
  using key_tail_append(1) [of "value_pfx u b @ pad16 s @ [ch_bang]" for u b s]
    key_tail_append(1) [of "OUTPUT_SCRIPT_HASH_PREFIX @ h @ [ch_bang]" for h]
  by (auto simp: id_keys_def hash_key_def sat_oid_def split: option.splits if_splits)

lemma id_keys_disjoint:
  "k \<in> set (id_keys o1) \<Longrightarrow> k \<in> set (id_keys o2) \<Longrightarrow> output_ok o1 \<Longrightarrow> output_ok o2 \<Longrightarrow>
     out_outputId o1 = out_outputId o2"
  by (auto dest!: id_keys_tail simp: output_ok_def pad16_inj)

text \<open>Keys that normalisation leaves alone.\<close>

definition good_key :: "jstr \<Rightarrow> bool" where
  "good_key k \<longleftrightarrow> js_trim k = k \<and> k \<noteq> [] \<and> ch_nul \<notin> set k"

lemma good_key_normal: "good_key k \<Longrightarrow> normalizeKey k = Inr k"
  by (simp add: good_key_def normalizeKey_def)

lemma good_keyI:
  assumes "k = 111 # p @ pad16 i" and "ch_nul \<notin> set p"
  shows "good_key k"
proof -
  have "last k \<in> set (pad16 i)"
    using assms(1) pad16_head [of i] by (metis append_is_Nil_conv last_appendR last_ConsR last_in_set list.distinct(1))
  then have "\<not> js_space (last k)" by (auto dest: pad16_digit simp: js_space_def)
  moreover have "\<not> js_space (hd k)" using assms by (simp add: js_space_def)
  ultimately have "js_trim k = k" by (intro js_trim_not_space) simp
  moreover have "ch_nul \<notin> set (pad16 i)" by (auto dest: pad16_digit simp: ch_nul_def)
  ultimately show ?thesis using assms by (auto simp: good_key_def ch_nul_def)
qed

lemma digits_no_nul [simp]: "0 \<notin> set (pad16 i)"
  by (auto dest: pad16_digit)

lemma good_pk [simp]: "good_key (pk i)"
  by (rule good_keyI [of _ "tl OUTPUT_PRIMARY_PREFIX" i]) (simp_all add: pfx_defs js_def ch_nul_def)

lemma normal_part_no_nul: "normalizeIndexPart h = Inr h \<Longrightarrow> 0 \<notin> set h"
  by (auto dest!: normalizeIndexPart_no_bang simp: ch_nul_def)

lemma good_hash_key: "normalizeIndexPart h = Inr h \<Longrightarrow> good_key (hash_key h i)"
  by (rule good_keyI [of _ "tl OUTPUT_SCRIPT_HASH_PREFIX @ h @ [ch_bang]" i])
    (auto simp: pfx_defs js_def ch_nul_def ch_bang_def dest: normal_part_no_nul)

lemma good_index_keys:
  "good_key (all_pfx u @ pad16 i)" "good_key (basket_pfx u b @ pad16 i)"
  "good_key (value_pfx u b @ sat_oid s i)" "good_key (tx_pfx t @ pad16 i)"
  by (rule good_keyI [of _ "tl (all_pfx u)" i], simp_all add: pfx_defs js_def ch_nul_def ch_bang_def)
    (rule good_keyI [of _ "tl (basket_pfx u b)" i], simp_all add: pfx_defs js_def ch_nul_def ch_bang_def,
     rule good_keyI [of _ "tl (value_pfx u b) @ pad16 s @ [ch_bang]" i],
     simp_all add: pfx_defs js_def ch_nul_def ch_bang_def sat_oid_def,
     rule good_keyI [of _ "tl (tx_pfx t)" i], simp_all add: pfx_defs js_def ch_nul_def ch_bang_def)

lemma good_outpoint: "normalizeIndexPart t = Inr t \<Longrightarrow> good_key (outpoint_key u t v)"
  by (rule good_keyI [of _ "tl OUTPUT_OUTPOINT_PREFIX @ pad16 u @ [ch_bang] @ t @ [ch_bang]" v])
    (auto simp: pfx_defs js_def ch_nul_def ch_bang_def dest: normal_part_no_nul)

lemma good_status: "normalizeIndexPart st = Inr st \<Longrightarrow> good_key (status_pfx u b st @ sat_oid s i)"
  by (rule good_keyI [of _ "tl (status_pfx u b st) @ pad16 s @ [ch_bang]" i])
    (auto simp: pfx_defs js_def ch_nul_def ch_bang_def sat_oid_def dest: normal_part_no_nul)

lemma digits_ord [simp]: "ord_key (pad16 i)"
  by (auto simp: ord_key_def ch_max_def dest: pad16_digit)

lemma ord_key_simps [simp]:
  "ord_key (a @ b) \<longleftrightarrow> ord_key a \<and> ord_key b" "ord_key (c # a) \<longleftrightarrow> c < ch_max \<and> ord_key a" "ord_key []"
  by (auto simp: ord_key_def)

lemma ord_pk [simp]: "ord_key (pk i)"
  by (simp add: pfx_defs js_def ch_max_def)

lemma output_keys_good:
  "output_ok o1 \<Longrightarrow> status_ok st \<Longrightarrow> k \<in> all_keys o1 st \<Longrightarrow> good_key k"
  by (auto simp: all_keys_def id_keys_def outpoint_keys_def status_keys_def output_ok_def status_ok_def
      part_ok_def good_hash_key good_index_keys good_outpoint good_status
      split: option.splits if_splits bool.splits)

lemma output_keys_ord:
  "output_ok o1 \<Longrightarrow> status_ok st \<Longrightarrow> k \<in> all_keys o1 st \<Longrightarrow> ord_key k"
  by (auto simp: all_keys_def id_keys_def outpoint_keys_def status_keys_def output_ok_def status_ok_def
      part_ok_def pfx_defs js_def ch_max_def ch_bang_def sat_oid_def
      split: option.splits if_splits bool.splits)

section \<open>The invariant\<close>

definition index_inv :: "vmap \<Rightarrow> bool" where
  "index_inv m \<longleftrightarrow>
     (\<forall>i w. key_num i \<longrightarrow> m (pk i) = Some w \<longrightarrow>
        (\<exists>o1 v. w = (VOutput o1, v) \<and> out_outputId o1 = i \<and> output_ok o1)) \<and>
     (\<forall>i o1 v k. key_num i \<longrightarrow> m (pk i) = Some (VOutput o1, v) \<longrightarrow> k \<in> set (id_keys o1) \<longrightarrow>
        (\<exists>v. m k = Some (VIndex i, v))) \<and>
     (\<forall>k w. m k = Some w \<longrightarrow> id_index_key k \<longrightarrow>
        (\<exists>i v o1 v'. w = (VIndex i, v) \<and> key_num i \<and> m (pk i) = Some (VOutput o1, v') \<and>
           k \<in> set (id_keys o1)))"

lemma index_inv_primary:
  "index_inv m \<Longrightarrow> key_num i \<Longrightarrow> m (pk i) = Some (w, v) \<Longrightarrow>
     (\<And>o1. w = VOutput o1 \<Longrightarrow> out_outputId o1 = i \<Longrightarrow> output_ok o1 \<Longrightarrow> P) \<Longrightarrow> P"
  unfolding index_inv_def by blast

lemma index_inv_owned:
  "index_inv m \<Longrightarrow> key_num i \<Longrightarrow> m (pk i) = Some (VOutput o1, v) \<Longrightarrow> k \<in> set (id_keys o1) \<Longrightarrow>
     \<exists>v. m k = Some (VIndex i, v)"
  unfolding index_inv_def by blast

lemma index_inv_entry:
  "index_inv m \<Longrightarrow> m k = Some w \<Longrightarrow> id_index_key k \<Longrightarrow>
     (\<And>i v o1 v'. w = (VIndex i, v) \<Longrightarrow> key_num i \<Longrightarrow> m (pk i) = Some (VOutput o1, v') \<Longrightarrow>
        k \<in> set (id_keys o1) \<Longrightarrow> P) \<Longrightarrow> P"
  unfolding index_inv_def by blast

text \<open>The entries of the output stored under an id, if any.\<close>

definition old_keys :: "vmap \<Rightarrow> jstr option \<Rightarrow> int \<Rightarrow> jstr set" where
  "old_keys m st i = (case m (pk i) of Some (VOutput o1, _) \<Rightarrow> all_keys o1 st | _ \<Rightarrow> {})"

text \<open>Keys of another stored output are not among the entries of the output under \<open>i\<close>.\<close>

lemma other_not_old:
  assumes "index_inv m" "key_num i" "key_num j" "i \<noteq> j" "m (pk j) = Some (VOutput o1, v)"
    and "k \<in> set (id_keys o1)"
  shows "k \<notin> old_keys m st i"
proof
  assume "k \<in> old_keys m st i"
  then obtain o2 v2 where o2: "m (pk i) = Some (VOutput o2, v2)" "k \<in> all_keys o2 st"
    by (auto simp: old_keys_def split: option.splits wval.splits)
  have "id_index_key k" using assms(6) by (rule id_keys_id_index)
  with o2(2) have "k \<in> set (id_keys o2)" using extra_not_index by blast
  moreover have "output_ok o1" "out_outputId o1 = j" "output_ok o2" "out_outputId o2 = i"
    using index_inv_primary [OF assms(1,3,5)] index_inv_primary [OF assms(1,2) o2(1)] by auto
  ultimately show False using assms(4,6) id_keys_disjoint by blast
qed

text \<open>The effect of an operation on the output \<open>i\<close>: its entries are dropped, its record is replaced
  by \<open>nw\<close> (or removed), and the entries of the new record are added.\<close>

definition replaced :: "vmap \<Rightarrow> jstr option \<Rightarrow> int \<Rightarrow> table_output option \<Rightarrow> vmap \<Rightarrow> bool" where
  "replaced m st i nw m' \<longleftrightarrow>
     (let news = (case nw of None \<Rightarrow> {} | Some o1 \<Rightarrow> all_keys o1 st) in
      map_option fst (m' (pk i)) = map_option VOutput nw \<and>
      (\<forall>k \<in> news. \<exists>v. m' k = Some (VIndex i, v)) \<and>
      (\<forall>k. k \<notin> news \<longrightarrow> k \<noteq> pk i \<longrightarrow> m' k = (if k \<in> old_keys m st i then None else m k)))"

lemma replaced_other_pk:
  assumes "replaced m st i nw m'" "index_inv m" "key_num i" "key_num j" "j \<noteq> i"
  shows "m' (pk j) = m (pk j)"
proof -
  have new: "pk j \<notin> all_keys o1 st" for o1
    using extra_not_index [of "pk j" o1 st] id_keys_id_index [of "pk j" o1] by auto
  then have old: "pk j \<notin> old_keys m st i"
    by (auto simp: old_keys_def split: option.splits wval.splits prod.splits)
  have "pk j \<noteq> pk i" using assms by (simp add: pk_inj)
  with assms(1) new old show ?thesis
    by (auto simp: replaced_def Let_def split: option.splits)
qed

lemma index_inv_replaced:
  assumes rep: "replaced m st i nw m'" and inv: "index_inv m" and i: "key_num i"
    and nw: "\<And>o1. nw = Some o1 \<Longrightarrow> out_outputId o1 = i \<and> output_ok o1"
  shows "index_inv m'"
proof -
  define news where "news = (case nw of None \<Rightarrow> {} | Some o1 \<Rightarrow> all_keys o1 st)"
  have here: "map_option fst (m' (pk i)) = map_option VOutput nw"
    and new: "\<And>k. k \<in> news \<Longrightarrow> \<exists>v. m' k = Some (VIndex i, v)"
    and rest: "\<And>k. k \<notin> news \<Longrightarrow> k \<noteq> pk i \<Longrightarrow> m' k = (if k \<in> old_keys m st i then None else m k)"
    using rep by (auto simp: replaced_def Let_def news_def)
  note other = replaced_other_pk [OF rep inv i]
  have news_id: "k \<in> news \<Longrightarrow> id_index_key k \<Longrightarrow> \<exists>o1. nw = Some o1 \<and> k \<in> set (id_keys o1)" for k
    using extra_not_index by (auto simp: news_def split: option.splits)
  have id_news: "nw = Some o1 \<Longrightarrow> k \<in> set (id_keys o1) \<Longrightarrow> k \<in> news" for o1 k
    by (auto simp: news_def all_keys_def)
  show ?thesis
    unfolding index_inv_def
  proof (intro conjI allI impI)
    fix j w assume j: "key_num j" "m' (pk j) = Some w"
    show "\<exists>o1 v. w = (VOutput o1, v) \<and> out_outputId o1 = j \<and> output_ok o1"
    proof (cases "j = i")
      case True
      with j here nw show ?thesis by (cases w; cases nw) auto
    next
      case False
      with j other show ?thesis using index_inv_primary [OF inv, of j] by (cases w) force
    qed
  next
    fix j o1 v k
    assume j: "key_num j" "m' (pk j) = Some (VOutput o1, v)" and k: "k \<in> set (id_keys o1)"
    show "\<exists>v. m' k = Some (VIndex j, v)"
    proof (cases "j = i")
      case True
      with j here have "nw = Some o1" by (cases nw) auto
      with k True new id_news show ?thesis by blast
    next
      case False
      with j other have old: "m (pk j) = Some (VOutput o1, v)" by simp
      have "k \<notin> news"
      proof
        assume "k \<in> news"
        then obtain o2 where "nw = Some o2" "k \<in> set (id_keys o2)"
          using news_id id_keys_id_index [OF k] by blast
        moreover have "output_ok o1" "out_outputId o1 = j"
          using index_inv_primary [OF inv j(1) old] by auto
        ultimately show False using nw k False id_keys_disjoint by blast
      qed
      moreover have "k \<noteq> pk i" using id_keys_id_index [OF k] by auto
      ultimately show ?thesis
        using rest other_not_old [OF inv i j(1) _ old k] False index_inv_owned [OF inv j(1) old k] by auto
    qed
  next
    fix k w assume k: "m' k = Some w" "id_index_key k"
    show "\<exists>j v o1 v'. w = (VIndex j, v) \<and> key_num j \<and> m' (pk j) = Some (VOutput o1, v') \<and>
        k \<in> set (id_keys o1)"
    proof (cases "k \<in> news")
      case True
      then obtain o1 where "nw = Some o1" "k \<in> set (id_keys o1)" using news_id k(2) by blast
      moreover have "\<exists>v. w = (VIndex i, v)" using new [OF True] k(1) by auto
      ultimately show ?thesis using here i by (cases "m' (pk i)") auto
    next
      case False
      have "k \<noteq> pk i" using k(2) by auto
      with rest False k have m: "m k = Some w" "k \<notin> old_keys m st i" by (auto split: if_splits)
      obtain j v o1 v' where e: "w = (VIndex j, v)" "key_num j" "m (pk j) = Some (VOutput o1, v')"
        "k \<in> set (id_keys o1)" by (rule index_inv_entry [OF inv m(1) k(2)]) blast
      have "j \<noteq> i" using m(2) e(3,4) by (auto simp: old_keys_def all_keys_def)
      with e other show ?thesis by metis
    qed
  qed
qed

end
