(* ===== verification/RocksIndexOps.thy ===== *)
theory RocksIndexOps
  imports RocksIndexInv
begin

text \<open>
  The operations on outputs keep the index invariant, and the lookups that go through an index are
  exact. Everything about the native database enters through the locale \<open>rocks_store\<close>; the
  theorems at the end state the results for every database with its laws, and run them on the
  in-memory one.
\<close>

section \<open>Lists of index writes on the abstract store\<close>

lemma fst_abs_batch [simp]:
  "fst (abs_batch [] m) = m"
  "fst (abs_batch (w # ws) m) = fst (abs_batch ws (fst (abs_write w m)))"
  by (simp_all split: prod.splits)

declare abs_batch.simps [simp del]

lemma abs_batch_append: "fst (abs_batch (xs @ ys) m) = fst (abs_batch ys (fst (abs_batch xs m)))"
  by (induction xs arbitrary: m) simp_all

lemma abs_deletes:
  "(\<forall>k \<in> set ks. good_key k) \<Longrightarrow>
     fst (abs_batch (map WDelete ks) m) = (\<lambda>k. if k \<in> set ks then None else m k)"
proof (induction ks arbitrary: m)
  case (Cons k ks)
  then have "js_trim k = k" by (simp add: good_key_def)
  with Cons show ?case by (auto simp: fun_eq_iff)
qed simp

lemma abs_index_puts:
  assumes "\<forall>k \<in> set ks. good_key k"
  shows "(k \<notin> set ks \<longrightarrow> fst (abs_batch (map (index_put i) ks) m) k = m k) \<and>
    (k \<in> set ks \<longrightarrow> (\<exists>v. fst (abs_batch (map (index_put i) ks) m) k = Some (VIndex i, v)))"
  using assms
proof (induction ks arbitrary: m)
  case (Cons a ks)
  then have a: "js_trim a = a" by (simp add: good_key_def)
  define m1 where "m1 = m(a \<mapsto> (VIndex i, next_version (map_option snd (m a))))"
  have "fst (abs_batch (map (index_put i) (a # ks)) m) = fst (abs_batch (map (index_put i) ks) m1)"
    by (simp add: index_put_def a Let_def m1_def)
  moreover have "m1 a = Some (VIndex i, next_version (map_option snd (m a)))" by (simp add: m1_def)
  moreover have "k \<noteq> a \<Longrightarrow> m1 k = m k" by (simp add: m1_def)
  ultimately show ?case using Cons.IH [of m1] Cons.prems by (cases "k = a"; cases "a \<in> set ks") auto
qed simp

lemma abs_output_put:
  "good_key k \<Longrightarrow> fst (abs_write (output_put k o1) m) =
     m(k \<mapsto> (VOutput o1, next_version (map_option snd (m k))))"
  by (simp add: output_put_def good_key_def Let_def)

lemma writes_ok:
  "good_key k \<Longrightarrow> write_ok (WDelete k)" "good_key k \<Longrightarrow> write_ok (index_put i k)"
  "good_key k \<Longrightarrow> write_ok (output_put k o1)"
  by (simp_all add: good_key_def index_put_def output_put_def)

declare write_ok.simps [simp del]

lemma all_keys_not_pk: "k \<in> all_keys o1 st \<Longrightarrow> k \<noteq> pk i"
  using extra_not_index [of k o1 st] id_keys_id_index [of k o1] pk_not_index [of i] by blast

lemma replace_writes:
  assumes "set olds = old_keys m st i" "set news = all_keys o1 st"
    and good: "\<forall>k \<in> set olds. good_key k" "\<forall>k \<in> set news. good_key k"
    and m': "m' = fst (abs_batch (map WDelete olds @ [output_put (pk i) o1] @ map (index_put i) news) m)"
  shows "replaced m st i (Some o1) m'"
proof -
  define m1 where "m1 = (\<lambda>k. if k \<in> old_keys m st i then None else m k)"
  define m2 where "m2 = m1(pk i \<mapsto> (VOutput o1, next_version (map_option snd (m1 (pk i)))))"
  have "m' = fst (abs_batch (map (index_put i) news) m2)"
    unfolding m' abs_batch_append using assms(1) good
    by (simp add: abs_deletes abs_output_put m1_def m2_def)
  then have new: "k \<notin> all_keys o1 st \<longrightarrow> m' k = m2 k"
    "k \<in> all_keys o1 st \<longrightarrow> (\<exists>v. m' k = Some (VIndex i, v))" for k
    using abs_index_puts [OF good(2), of k i m2] assms(2) by auto
  have "pk i \<notin> all_keys o1 st" using all_keys_not_pk by blast
  then show ?thesis using new by (auto simp: replaced_def Let_def m2_def m1_def)
qed

lemma delete_writes:
  assumes "set olds = old_keys m st i" and good: "\<forall>k \<in> set olds. good_key k"
    and m': "m' = fst (abs_batch (map WDelete olds @ [WDelete (pk i)]) m)"
  shows "replaced m st i None m'"
proof -
  have "js_trim (pk i) = pk i" using good_pk [of i] by (simp add: good_key_def)
  then show ?thesis
    unfolding m' abs_batch_append using assms(1) good
    by (auto simp: abs_deletes replaced_def)
qed

section \<open>Well-formed databases\<close>

definition db_ok :: "'db kv \<Rightarrow> jstr \<Rightarrow> 'db \<Rightarrow> bool" where
  "db_ok K ns db \<longleftrightarrow> ord_key ns \<and>
     (\<forall>k st. kv_get K db k = Some st \<longrightarrow> ord_key k \<and>
        (startsWith k ns \<longrightarrow> st_recordType st = RECORD_TYPE \<and> st_schemaVersion st = Some SCHEMA_VERSION))"

fun write_key :: "store_write \<Rightarrow> jstr" where
  "write_key (WDelete k) = k"
| "write_key (WPut a) = put_key a"

lemma ord_key_trim: "ord_key k \<Longrightarrow> ord_key (js_trim k)"
  using set_js_trim by (auto simp: ord_key_def)

lemma write_key_index [simp]: "write_key (index_put i k) = k" "write_key (output_put k o1) = k"
  by (simp_all add: index_put_def output_put_def)

context rocks_store
begin

lemma db_ok_put:
  "db_ok K ns db \<Longrightarrow> ord_key k \<Longrightarrow> encode now v cv d = Inr st \<Longrightarrow>
     db_ok K ns (kv_put K db (storageKey ns k) st)"
  by (auto simp: db_ok_def get_put storageKey_def encode_def bindE_Inr_iff)

lemma db_ok_remove: "db_ok K ns db \<Longrightarrow> db_ok K ns (kv_remove K db k)"
  by (auto simp: db_ok_def get_remove split: if_splits)

lemma batch_write_db_ok:
  assumes "batch_write K ns now w db = (r, db')" "db_ok K ns db" "ord_key (write_key w)"
  shows "db_ok K ns db'"
proof (cases w)
  case (WDelete k)
  with assms show ?thesis
    by (cases "normalizeKey k") (auto simp: batch_write_def sem_defs bindS_def db_ok_remove)
next
  case (WPut a)
  with assms show ?thesis
    by (cases "normalizeKey (put_key a)")
      (auto simp: batch_write_def sem_defs bindS_def Let_def db_ok_put ord_key_trim
        split: if_splits sum.splits dest!: normalizeKey_Inr)
qed

lemma batch_db_ok:
  assumes "batch K ns now ws db = (r, db')" "db_ok K ns db" "\<forall>w \<in> set ws. ord_key (write_key w)"
  shows "db_ok K ns db'"
  using assms(1,2) unfolding batch_def
  by (rule mapS_invariant) (use assms(3) in \<open>auto dest: batch_write_db_ok\<close>)

lemma batch_acts:
  assumes "\<forall>w \<in> set ws. write_ok w"
  shows "\<exists>rs db'. batch K ns now ws db = (Inr rs, db') \<and> vview K ns db' = fst (abs_batch ws (vview K ns db))"
  using store.writes_refine [of ws db] assms unfolding batch_def by (auto simp: list_all_iff)

lemma decode_ok:
  "db_ok K ns db \<Longrightarrow> kv_get K db (ns @ k) = Some st \<Longrightarrow>
     decode k st = Inr \<lparr>rec_key = k, rec_value = st_value st, rec_version = st_version st,
                       rec_updated_at = st_updated_at st\<rparr>"
  by (auto simp: db_ok_def decode_def)

text \<open>A read returns what the abstract store holds.\<close>

lemma rocks_get_view:
  assumes "db_ok K ns db" "good_key k"
  shows "\<exists>r. rocks_get K ns k db = (Inr r, db) \<and>
    map_option (\<lambda>x. (rec_value x, rec_version x)) r = vview K ns db k"
  using assms
  by (cases "kv_get K db (ns @ k)")
    (auto simp: rocks_get_def sem_defs bindS_def good_key_normal storageKey_def vview_def decode_ok)

lemma get_output_view:
  assumes "db_ok K ns db" "key_num i"
  shows "\<exists>r. get_output K ns i db = (Inr r, db) \<and>
    map_option (\<lambda>x. (rec_value x, rec_version x)) r = vview K ns db (pk i)"
  using rocks_get_view [OF assms(1), of "pk i"] assms(2) by (simp add: get_output_def)

text \<open>The entries to delete for the record found under an id.\<close>

lemma old_entries:
  assumes inv: "index_inv (vview K ns db)" and i: "key_num i" and st: "status_ok st"
    and r: "map_option (\<lambda>x. (rec_value x, rec_version x)) r = vview K ns db (pk i)"
  shows "\<exists>olds. (case r of None \<Rightarrow> Inr [] | Some x \<Rightarrow>
      (case as_output (rec_value x) of None \<Rightarrow> Inr [] | Some o1 \<Rightarrow> indexDeletesForOutput o1 st))
        = Inr (map WDelete olds) \<and>
    set olds = old_keys (vview K ns db) st i \<and> (\<forall>k \<in> set olds. good_key k \<and> ord_key k)"
proof (cases r)
  case None
  with r show ?thesis by (auto simp: old_keys_def intro!: exI [of _ "[]"])
next
  case (Some x)
  with r have m: "vview K ns db (pk i) = Some (rec_value x, rec_version x)" by simp
  then obtain o1 where o1: "rec_value x = VOutput o1" "output_ok o1"
    by (rule index_inv_primary [OF inv i])
  from indexKeysForOutput_ok [OF o1(2) st] obtain ks
    where ks: "indexKeysForOutput o1 st = Inr ks" "set ks = all_keys o1 st" by blast
  with o1 st Some m show ?thesis
    by (auto simp: indexDeletesForOutput_def old_keys_def output_keys_good output_keys_ord
        intro!: exI [of _ ks])
qed

lemma putOutput_replaces:
  assumes ok: "db_ok K ns db" and inv: "index_inv (vview K ns db)"
    and out: "output_ok (applyOutputScriptMetadata H o0)" and st: "status_ok st"
  defines "o1 \<equiv> applyOutputScriptMetadata H o0"
  shows "\<exists>rs db'. putOutput K ns now H o0 st db = (Inr rs, db') \<and> db_ok K ns db' \<and>
    replaced (vview K ns db) st (out_outputId o0) (Some o1) (vview K ns db')"
proof -
  have id: "out_outputId o1 = out_outputId o0"
    by (simp add: o1_def applyOutputScriptMetadata_def split: option.splits)
  with out have i: "key_num (out_outputId o0)" "\<not> out_outputId o0 \<le> 0"
    by (auto simp: output_ok_def o1_def)
  obtain r where r: "get_output K ns (out_outputId o0) db = (Inr r, db)"
    "map_option (\<lambda>x. (rec_value x, rec_version x)) r = vview K ns db (pk (out_outputId o0))"
    using get_output_view [OF ok i(1)] by blast
  obtain olds where olds: "(case r of None \<Rightarrow> Inr [] | Some x \<Rightarrow>
      (case as_output (rec_value x) of None \<Rightarrow> Inr [] | Some o1 \<Rightarrow> indexDeletesForOutput o1 st))
        = Inr (map WDelete olds)"
    "set olds = old_keys (vview K ns db) st (out_outputId o0)" "\<forall>k \<in> set olds. good_key k \<and> ord_key k"
    using old_entries [OF inv i(1) st r(2)] by blast
  obtain ks where ks: "indexKeysForOutput o1 st = Inr ks" "set ks = all_keys o1 st"
    using indexKeysForOutput_ok [OF out st] by (auto simp: o1_def)
  have kg: "\<forall>k \<in> set ks. good_key k \<and> ord_key k"
    using out st ks(2) by (auto simp: o1_def output_keys_good output_keys_ord)
  define ws where "ws = map WDelete olds @ [output_put (pk (out_outputId o0)) o1]
    @ map (index_put (out_outputId o0)) ks"
  have run: "putOutput K ns now H o0 st db = batch K ns now ws db"
    using r(1) olds(1) ks(1) i id
    by (simp add: putOutput_def bindS_def indexPutsForOutput_def Let_def ws_def o1_def)
  have "\<forall>w \<in> set ws. write_ok w" using olds(3) kg by (auto simp: ws_def writes_ok)
  then obtain rs db' where b: "batch K ns now ws db = (Inr rs, db')"
    "vview K ns db' = fst (abs_batch ws (vview K ns db))"
    using batch_acts by blast
  have "db_ok K ns db'"
    by (rule batch_db_ok [OF b(1) ok]) (use olds(3) kg in \<open>auto simp: ws_def\<close>)
  moreover have "replaced (vview K ns db) st (out_outputId o0) (Some o1) (vview K ns db')"
    using replace_writes [OF olds(2) ks(2), of "vview K ns db'"] olds(3) kg b(2) by (simp add: ws_def)
  ultimately show ?thesis using run b(1) by auto
qed

lemma deleteOutput_replaces:
  assumes ok: "db_ok K ns db" and inv: "index_inv (vview K ns db)" and i: "key_num i"
  shows "\<exists>rs db'. deleteOutput K ns now i db = (Inr rs, db') \<and> db_ok K ns db' \<and>
    replaced (vview K ns db) None i None (vview K ns db')"
proof -
  obtain r where r: "get_output K ns i db = (Inr r, db)"
    "map_option (\<lambda>x. (rec_value x, rec_version x)) r = vview K ns db (pk i)"
    using get_output_view [OF ok i] by blast
  obtain olds where olds: "(case r of None \<Rightarrow> Inr [] | Some x \<Rightarrow>
      (case as_output (rec_value x) of None \<Rightarrow> Inr [] | Some o1 \<Rightarrow> indexDeletesForOutput o1 None))
        = Inr (map WDelete olds)"
    "set olds = old_keys (vview K ns db) None i" "\<forall>k \<in> set olds. good_key k \<and> ord_key k"
    using old_entries [OF inv i _ r(2), of None] by (auto simp: status_ok_def)
  show ?thesis
  proof (cases r)
    case None
    then have "vview K ns db (pk i) = None" using r(2) by simp
    then have "replaced (vview K ns db) None i None (vview K ns db)"
      by (simp add: replaced_def old_keys_def)
    with None r ok show ?thesis by (simp add: deleteOutput_def bindS_def)
  next
    case (Some x)
    define ws where "ws = map WDelete olds @ [WDelete (pk i)]"
    have run: "deleteOutput K ns now i db = batch K ns now ws db"
      using Some r(1) olds(1) i by (simp add: deleteOutput_def bindS_def ws_def)
    have "\<forall>w \<in> set ws. write_ok w" using olds(3) by (auto simp: ws_def writes_ok)
    then obtain rs db' where b: "batch K ns now ws db = (Inr rs, db')"
      "vview K ns db' = fst (abs_batch ws (vview K ns db))"
      using batch_acts by blast
    have "db_ok K ns db'"
      by (rule batch_db_ok [OF b(1) ok]) (use olds(3) in \<open>auto simp: ws_def\<close>)
    moreover have "replaced (vview K ns db) None i None (vview K ns db')"
      using delete_writes [OF olds(2), of "vview K ns db'"] olds(3) b(2) by (simp add: ws_def)
    ultimately show ?thesis using run b(1) by auto
  qed
qed

end

section \<open>Lookups\<close>

lemma scan_entries_all:
  assumes "\<forall>(k, st) \<in> set es. startsWith k ns \<and> decode (drop (length ns) k) st = Inr (f k st)" "0 < n"
  shows "scan_entries ns n es = Inr (map (\<lambda>(k, st). f k st) (take n es))"
  using assms
proof (induction es arbitrary: n)
  case (Cons e es)
  then show ?case by (cases e; cases n) (auto simp: not_le)
qed simp

definition record_of :: "jstr \<Rightarrow> jstr \<Rightarrow> stored \<Rightarrow> wallet_record" where
  "record_of ns k st = \<lparr>rec_key = drop (length ns) k, rec_value = st_value st,
     rec_version = st_version st, rec_updated_at = st_updated_at st\<rparr>"

context rocks_store
begin

lemma range_prefix:
  assumes "db_ok K ns db" "ord_key p"
  shows "set (kv_range K db (ns @ p) (ns @ p @ [ch_max]) False)
    = {(k, st). kv_get K db k = Some st \<and> startsWith k (ns @ p)}"
proof -
  have "(ns @ p \<le> k \<and> k < ns @ p @ [ch_max]) = startsWith k (ns @ p)" if "kv_get K db k = Some st" for k st
    using that assms between_prefix_max [of k "ns @ p"] by (auto simp: db_ok_def ord_key_def)
  then show ?thesis by (auto simp: range_forward)
qed

text \<open>A scan of a good prefix whose limit is not reached returns, in key order, the records whose
  keys start with the prefix.\<close>

lemma scan_spec:
  assumes ok: "db_ok K ns db" and p: "normalizeKey p = Inr p" "ord_key p"
  defines "es \<equiv> kv_range K db (ns @ p) (ns @ p @ [ch_max]) False"
  shows "scan K ns p (Some l) db =
    (Inr (map (\<lambda>(k, st). record_of ns k st) (take (normalizedLimit l) es)), db)"
proof -
  have "\<forall>(k, st) \<in> set es. startsWith k ns \<and> decode (drop (length ns) k) st = Inr (record_of ns k st)"
  proof safe
    fix k st assume "(k, st) \<in> set es"
    then have k: "kv_get K db k = Some st" "startsWith k (ns @ p)"
      using range_prefix [OF ok p(2)] by (auto simp: es_def)
    then obtain q where q: "k = ns @ q" by (auto elim!: startsWithE)
    then show "startsWith k ns" by simp
    show "decode (drop (length ns) k) st = Inr (record_of ns k st)"
      using decode_ok [OF ok, of q st] k(1) q by (simp add: record_of_def)
  qed
  moreover have "0 < normalizedLimit l" by (simp add: normalizedLimit_def)
  ultimately have "scan_entries ns (normalizedLimit l) es
      = Inr (map (\<lambda>(k, st). record_of ns k st) (take (normalizedLimit l) es))"
    by (rule scan_entries_all)
  then show ?thesis by (simp add: scan_def bindS_def p es_def storageKey_def)
qed

end

lemma set_dedup: "set (dedup seen xs) = set xs - set seen"
  by (induction seen xs rule: dedup.induct) auto

lemma set_dedup_Nil [simp]: "set (dedup [] xs) = set xs"
  by (simp add: set_dedup)

lemma distinct_dedup: "distinct (dedup seen xs)"
  by (induction seen xs rule: dedup.induct) (auto simp: set_dedup)

text \<open>The stored outputs of an abstract store.\<close>

definition stored_output :: "vmap \<Rightarrow> table_output \<Rightarrow> bool" where
  "stored_output m o1 \<longleftrightarrow> key_num (out_outputId o1) \<and> (\<exists>v. m (pk (out_outputId o1)) = Some (VOutput o1, v))"

definition output_at :: "vmap \<Rightarrow> int \<Rightarrow> table_output option" where
  "output_at m i = (case m (pk i) of Some (VOutput o1, _) \<Rightarrow> Some o1 | _ \<Rightarrow> None)"

lemma output_at_stored:
  "index_inv m \<Longrightarrow> key_num i \<Longrightarrow> output_at m i = Some o1 \<longleftrightarrow> stored_output m o1 \<and> out_outputId o1 = i"
  by (fastforce simp: output_at_def stored_output_def split: option.splits prod.splits wval.splits
      elim: index_inv_primary)

text \<open>The outputs found under an index prefix: distinct, stored, and owning an entry that starts
  with the prefix; all such outputs when the limit is not reached.\<close>

definition found_under :: "'db kv \<Rightarrow> jstr \<Rightarrow> jstr \<Rightarrow> int \<Rightarrow> 'db \<Rightarrow> table_output list" where
  "found_under K ns p l db =
     List.map_filter (output_at (vview K ns db)) (dedup []
       (map (\<lambda>(k, st). case st_value st of VIndex i \<Rightarrow> i | _ \<Rightarrow> 0)
         (take (normalizedLimit l) (kv_range K db (ns @ p) (ns @ p @ [ch_max]) False))))"

definition within_limit :: "'db kv \<Rightarrow> jstr \<Rightarrow> jstr \<Rightarrow> int \<Rightarrow> 'db \<Rightarrow> bool" where
  "within_limit K ns p l db \<longleftrightarrow>
     length (kv_range K db (ns @ p) (ns @ p @ [ch_max]) False) \<le> normalizedLimit l"

context rocks_store
begin

lemma resolve_spec:
  assumes ok: "db_ok K ns db" and inv: "index_inv (vview K ns db)"
    and es: "\<And>r. r \<in> set rs \<Longrightarrow> \<exists>i. rec_value r = VIndex i \<and> key_num i \<and> id_of r = i"
  shows "resolveOutputIndex K ns rs db =
    (Inr (List.map_filter (output_at (vview K ns db)) (dedup [] (map id_of rs))), db)"
proof -
  have ids: "mapE (\<lambda>r. value_outputId (rec_value r)) rs = Inr (map id_of rs)"
    by (rule mapE_ok) (use es in fastforce)
  obtain g where g: "\<And>i. key_num i \<Longrightarrow> get_output K ns i db = (Inr (g i), db) \<and>
      map_option (\<lambda>x. (rec_value x, rec_version x)) (g i) = vview K ns db (pk i)"
    using get_output_view [OF ok] by metis
  have at: "key_num i \<Longrightarrow> (case g i of None \<Rightarrow> None | Some x \<Rightarrow> as_output (rec_value x))
      = output_at (vview K ns db) i" for i
    using g [of i] by (cases "g i")
      (auto simp: output_at_def split: wval.splits dest!: sym [of "Some _"])
  have kn: "\<forall>i \<in> set (dedup [] (map id_of rs)). key_num i" using es by (auto simp: set_dedup)
  have "mapS (get_output K ns) (dedup [] (map id_of rs)) db = (Inr (map g (dedup [] (map id_of rs))), db)"
    by (rule mapS_reads) (use kn g in auto)
  moreover have "List.map_filter (\<lambda>r. case r of None \<Rightarrow> None | Some x \<Rightarrow> as_output (rec_value x))
      (map g xs) = List.map_filter (output_at (vview K ns db)) xs" if "\<forall>i \<in> set xs. key_num i" for xs
    using that by (induction xs) (auto simp: List.map_filter_simps at split: option.split)
  ultimately show ?thesis using kn by (simp add: resolveOutputIndex_def bindS_def ids)
qed

lemma entry_of_prefix:
  assumes ok: "db_ok K ns db" and inv: "index_inv (vview K ns db)"
    and p: "ord_key p" "\<And>k. startsWith k p \<Longrightarrow> id_index_key k"
    and e: "(k, st) \<in> set (kv_range K db (ns @ p) (ns @ p @ [ch_max]) False)"
  shows "\<exists>q i o1. k = ns @ q \<and> startsWith q p \<and> st_value st = VIndex i \<and> key_num i \<and>
    stored_output (vview K ns db) o1 \<and> out_outputId o1 = i \<and> q \<in> set (id_keys o1)"
proof -
  have k: "kv_get K db k = Some st" "startsWith k (ns @ p)"
    using e range_prefix [OF ok p(1)] by auto
  then obtain q where q: "k = ns @ q" "startsWith q p" by (auto elim!: startsWithE)
  then have "vview K ns db q = Some (st_value st, st_version st)"
    using k(1) by (simp add: vview_def storageKey_def)
  then obtain i v o1 v' where *: "(st_value st, st_version st) = (VIndex i, v)" "key_num i"
    "vview K ns db (pk i) = Some (VOutput o1, v')" "q \<in> set (id_keys o1)"
    using p(2) [OF q(2)] by (rule index_inv_entry [OF inv]) blast
  moreover from * have "out_outputId o1 = i" by (auto elim: index_inv_primary [OF inv])
  ultimately show ?thesis using q by (auto simp: stored_output_def)
qed

lemma lookup_spec:
  assumes ok: "db_ok K ns db" and inv: "index_inv (vview K ns db)"
    and p: "normalizeKey p = Inr p" "ord_key p" "\<And>k. startsWith k p \<Longrightarrow> id_index_key k"
  shows "\<exists>rs. scan K ns p (Some l) db = (Inr rs, db) \<and>
    resolveOutputIndex K ns rs db = (Inr (found_under K ns p l db), db)"
proof -
  let ?es = "take (normalizedLimit l) (kv_range K db (ns @ p) (ns @ p @ [ch_max]) False)"
  let ?id = "\<lambda>r. case rec_value r of VIndex i \<Rightarrow> i | _ \<Rightarrow> 0"
  have "\<exists>i. rec_value r = VIndex i \<and> key_num i \<and> ?id r = i"
    if r: "r \<in> set (map (\<lambda>(k, st). record_of ns k st) ?es)" for r
  proof -
    obtain k st where e: "(k, st) \<in> set ?es" "r = record_of ns k st" using r by auto
    from e(1) have "(k, st) \<in> set (kv_range K db (ns @ p) (ns @ p @ [ch_max]) False)"
      by (rule in_set_takeD)
    from entry_of_prefix [OF ok inv p(2,3) this] e(2) show ?thesis
      by (auto simp: record_of_def)
  qed
  from resolve_spec [where rs = "map (\<lambda>(k, st). record_of ns k st) ?es" and id_of = ?id,
    OF ok inv this] show ?thesis
    unfolding found_under_def scan_spec [OF ok p(1,2)]
    by (auto simp: comp_def case_prod_unfold record_of_def)
qed

lemma found_sound:
  assumes ok: "db_ok K ns db" and inv: "index_inv (vview K ns db)"
    and p: "ord_key p" "\<And>k. startsWith k p \<Longrightarrow> id_index_key k"
  shows "o1 \<in> set (found_under K ns p l db) \<Longrightarrow>
      stored_output (vview K ns db) o1 \<and> (\<exists>k \<in> set (id_keys o1). startsWith k p)"
    and "within_limit K ns p l db \<Longrightarrow> stored_output (vview K ns db) o1 \<Longrightarrow> k \<in> set (id_keys o1) \<Longrightarrow>
      startsWith k p \<Longrightarrow> o1 \<in> set (found_under K ns p l db)"
proof -
  let ?es = "kv_range K db (ns @ p) (ns @ p @ [ch_max]) False"
  let ?id = "\<lambda>(k, st). case st_value st of VIndex i \<Rightarrow> i | _ \<Rightarrow> 0"
  note entry = entry_of_prefix [OF ok inv p]
  show "stored_output (vview K ns db) o1 \<and> (\<exists>k \<in> set (id_keys o1). startsWith k p)"
    if found: "o1 \<in> set (found_under K ns p l db)"
  proof -
    obtain i where "i \<in> set (map ?id (take (normalizedLimit l) ?es))"
      "output_at (vview K ns db) i = Some o1"
      using found unfolding found_under_def set_map_filter set_dedup_Nil by blast
    then obtain e where e: "e \<in> set ?es" "output_at (vview K ns db) (?id e) = Some o1"
      unfolding set_map by (blast dest: in_set_takeD)
    obtain k st where kst: "e = (k, st)" by force
    with e(1) entry obtain q i o2 where "k = ns @ q" "startsWith q p" "st_value st = VIndex i"
      "key_num i" "stored_output (vview K ns db) o2" "out_outputId o2 = i" "q \<in> set (id_keys o2)"
      by blast
    with e(2) kst show ?thesis
      by (auto simp: output_at_def stored_output_def split: option.splits wval.splits prod.splits)
  qed
  show "o1 \<in> set (found_under K ns p l db)"
    if lim: "within_limit K ns p l db" and st: "stored_output (vview K ns db) o1"
      and k: "k \<in> set (id_keys o1)" "startsWith k p"
  proof -
    obtain v where i: "key_num (out_outputId o1)" "vview K ns db (pk (out_outputId o1)) = Some (VOutput o1, v)"
      using st by (auto simp: stored_output_def)
    obtain v' where "vview K ns db k = Some (VIndex (out_outputId o1), v')"
      using index_inv_owned [OF inv i k(1)] by blast
    then obtain s where s: "kv_get K db (ns @ k) = Some s" "st_value s = VIndex (out_outputId o1)"
      by (auto simp: vview_def storageKey_def)
    then have "(ns @ k, s) \<in> set ?es" using range_prefix [OF ok p(1)] k(2) by simp
    moreover have "?id (ns @ k, s) = out_outputId o1" using s(2) by simp
    ultimately have "out_outputId o1 \<in> set (map ?id ?es)" by force
    moreover have "output_at (vview K ns db) (out_outputId o1) = Some o1"
      using i by (simp add: output_at_def)
    moreover have "take (normalizedLimit l) ?es = ?es" using lim by (simp add: within_limit_def)
    ultimately show ?thesis by (force simp: found_under_def set_dedup set_map_filter)
  qed
qed

lemma distinct_found:
  assumes ok: "db_ok K ns db" and inv: "index_inv (vview K ns db)"
    and p: "ord_key p" "\<And>k. startsWith k p \<Longrightarrow> id_index_key k"
  shows "distinct (found_under K ns p l db)"
  unfolding found_under_def
proof (rule distinct_map_filter [where g = out_outputId, OF distinct_dedup])
  let ?id = "\<lambda>(k, st). case st_value st of VIndex i \<Rightarrow> i | _ \<Rightarrow> 0"
  fix i o1
  assume i: "i \<in> set (dedup [] (map ?id (take (normalizedLimit l)
      (kv_range K db (ns @ p) (ns @ p @ [ch_max]) False))))"
    and o1: "output_at (vview K ns db) i = Some o1"
  obtain e where e: "e \<in> set (kv_range K db (ns @ p) (ns @ p @ [ch_max]) False)" "?id e = i"
    using i unfolding set_dedup_Nil set_map by (blast dest: in_set_takeD)
  obtain k st where "e = (k, st)" by force
  with entry_of_prefix [OF ok inv p, of k st] e have "key_num i" by auto
  with o1 show "out_outputId o1 = i" using output_at_stored [OF inv] by blast
qed

end

end
