(* ===== verification/RocksReserve.thy ===== *)
theory RocksReserve
  imports RocksIndexOps
begin

text \<open>
  Selecting and reserving spendable outputs, from
  \<^verbatim>\<open>src/src/storage/rocksdb/RocksDbWalletStore.ts\<close>.

  A reservation walks a range of index entries, reads the primary record of each, and tries to
  reserve the first acceptable one in a native transaction (\<open>tryReserveSpendableOutput\<close>) which checks
  again that the record is unchanged and still spendable. The caller's predicate and its map from
  output ids to entity keys are the parameters \<open>pred\<close> and \<open>entityKey\<close>.

  The reservation by value starts inside the bucket of one amount at a seed derived from the
  transaction id, so that concurrent transactions start at different outputs, and falls back to the
  whole range.
\<close>

section \<open>Looking at candidates\<close>

definition candidate :: "int \<Rightarrow> int \<Rightarrow> (table_output \<Rightarrow> bool) \<Rightarrow> wallet_record option \<Rightarrow> table_output option" where
  "candidate userId basketId pred r =
     (case r of None \<Rightarrow> None
      | Some x \<Rightarrow> (case as_output (rec_value x) of None \<Rightarrow> None
          | Some o1 \<Rightarrow> if out_userId o1 = userId \<and> out_basketId o1 = Some basketId \<and> out_spendable o1 \<and> pred o1
                      then Some o1 else None))"

text \<open>The primary record an index entry points to.\<close>

definition entry_record ::
  "'db kv \<Rightarrow> jstr \<Rightarrow> jstr \<times> stored \<Rightarrow> ('db, rocks_error, wallet_record option) sem" where
  "entry_record K ns e =
     bindS (liftS (decode (drop (length ns) (fst e)) (snd e))) (\<lambda>record.
     bindS (liftS (value_outputId (rec_value record))) (\<lambda>i. get_output K ns i))"

fun find_first_loop ::
  "'db kv \<Rightarrow> jstr \<Rightarrow> int \<Rightarrow> int \<Rightarrow> (table_output \<Rightarrow> bool) \<Rightarrow> nat \<Rightarrow> (jstr \<times> stored) list \<Rightarrow>
     ('db, rocks_error, table_output option) sem" where
  "find_first_loop K ns userId basketId pred n [] = retS None"
| "find_first_loop K ns userId basketId pred n (e # es) =
     (if \<not> startsWith (fst e) ns then find_first_loop K ns userId basketId pred n es
      else
        bindS (entry_record K ns e) (\<lambda>output.
          case candidate userId basketId pred output of
            Some o1 \<Rightarrow> retS (Some o1)
          | None \<Rightarrow> if n \<le> 1 then retS None
                    else find_first_loop K ns userId basketId pred (n - 1) es))"

definition findFirstSpendableOutput ::
  "'db kv \<Rightarrow> jstr \<Rightarrow> int \<Rightarrow> int \<Rightarrow> (table_output \<Rightarrow> bool) \<Rightarrow> int \<Rightarrow>
     ('db, rocks_error, table_output option) sem" where
  "findFirstSpendableOutput K ns userId basketId pred limit =
     bindS (liftS (outputSpendableBasketPrefix userId basketId)) (\<lambda>p.
     (\<lambda>db. find_first_loop K ns userId basketId pred (normalizedLimit limit)
             (kv_range K db (storageKey ns p) (storageKey ns p @ [ch_max]) False) db))"

section \<open>Reserving one output\<close>

record reserve_args =
  ra_userId :: int
  ra_basketId :: int
  ra_transactionId :: int
  ra_status :: "jstr option"

text \<open>The writes of a successful reservation.\<close>

definition reserved_output :: "(nat list \<Rightarrow> jstr) \<Rightarrow> int \<Rightarrow> int \<Rightarrow> table_output \<Rightarrow> table_output" where
  "reserved_output H now transactionId current =
     applyOutputScriptMetadata H
       (current\<lparr>out_spendable := False, out_spentBy := Some transactionId, out_updated_at := now\<rparr>)"

definition tx_remove_keys :: "'db kv \<Rightarrow> jstr \<Rightarrow> jstr list \<Rightarrow> ('db, rocks_error, unit) sem" where
  "tx_remove_keys K ns ks =
     bindS (mapS (\<lambda>k. bindS (liftS (normalizeKey k)) (\<lambda>k'. kv_delete K (storageKey ns k'))) ks)
       (\<lambda>_. retS ())"

definition tx_put_index :: "'db kv \<Rightarrow> jstr \<Rightarrow> int \<Rightarrow> int \<Rightarrow> jstr list \<Rightarrow> ('db, rocks_error, unit) sem" where
  "tx_put_index K ns now i ks =
     bindS (mapS (\<lambda>k. bindS (liftS (normalizeKey k)) (\<lambda>k'.
         bindS (liftS (encode now (VIndex i) None (DateMs now))) (\<lambda>st.
           kv_write K (storageKey ns k') st))) ks) (\<lambda>_. retS ())"

definition reserve_body ::
  "'db kv \<Rightarrow> jstr \<Rightarrow> int \<Rightarrow> (nat list \<Rightarrow> jstr) \<Rightarrow> reserve_args \<Rightarrow> wallet_record \<Rightarrow> jstr \<Rightarrow> jstr \<Rightarrow>
     ('db, rocks_error, table_output option) sem" where
  "reserve_body K ns now H a outputRecord primaryKey entityKey =
     bindS (liftS (normalizeKey entityKey)) (\<lambda>ek.
     bindS (kv_read K (storageKey ns primaryKey)) (\<lambda>currentPrimary.
     bindS (kv_read K (storageKey ns ek)) (\<lambda>currentEntity.
       case (currentPrimary, currentEntity) of
         (Some p, Some e) \<Rightarrow>
           if st_version p \<noteq> rec_version outputRecord then retS None
           else (case (as_output (st_value p), as_output (st_value e)) of
             (Some current, Some entity) \<Rightarrow>
               if out_outputId entity \<noteq> out_outputId current \<or> out_userId current \<noteq> ra_userId a
                  \<or> out_basketId current \<noteq> Some (ra_basketId a) \<or> \<not> out_spendable current
                  \<or> \<not> out_spendable entity
               then retS None
               else
                 let next = reserved_output H now (ra_transactionId a) current in
                 bindS (liftS (indexKeysForOutput current (ra_status a))) (\<lambda>dels.
                 bindS (tx_remove_keys K ns dels) (\<lambda>_.
                 bindS (liftS (encode now (VOutput next) (Some (st_version p)) (DateMs now))) (\<lambda>np.
                 bindS (kv_write K (storageKey ns primaryKey) np) (\<lambda>_.
                 bindS (liftS (encode now (VOutput next) (Some (st_version e)) (DateMs now))) (\<lambda>ne.
                 bindS (kv_write K (storageKey ns ek) ne) (\<lambda>_.
                 bindS (liftS (indexKeysForOutput next (ra_status a))) (\<lambda>puts.
                 bindS (tx_put_index K ns now (out_outputId next) puts) (\<lambda>_. retS (Some next)))))))))
           | _ \<Rightarrow> retS None)
       | _ \<Rightarrow> retS None)))"

definition tryReserveSpendableOutput ::
  "'db kv \<Rightarrow> jstr \<Rightarrow> int \<Rightarrow> (nat list \<Rightarrow> jstr) \<Rightarrow> reserve_args \<Rightarrow> wallet_record \<Rightarrow> jstr \<Rightarrow>
     ('db, rocks_error, table_output option) sem" where
  "tryReserveSpendableOutput K ns now H a outputRecord entityKey =
     bindS (liftS (bindE (value_outputId (rec_value outputRecord)) outputPrimaryKey)) (\<lambda>primaryKey.
       runNativeTransaction (reserve_body K ns now H a outputRecord primaryKey entityKey))"

section \<open>Walking a range\<close>

text \<open>The loop shared by \<open>reserveFirstSpendableOutput\<close> and
  \<open>reserveFirstSpendableOutputFromIndexRange\<close>; \<open>keep\<close> is the test a key must pass.\<close>

fun reserve_loop ::
  "'db kv \<Rightarrow> jstr \<Rightarrow> int \<Rightarrow> (nat list \<Rightarrow> jstr) \<Rightarrow> reserve_args \<Rightarrow> (table_output \<Rightarrow> bool) \<Rightarrow> (int \<Rightarrow> jstr) \<Rightarrow>
     (jstr \<Rightarrow> bool) \<Rightarrow> nat \<Rightarrow> (jstr \<times> stored) list \<Rightarrow> ('db, rocks_error, table_output option) sem" where
  "reserve_loop K ns now H a pred entityKey keep n [] = retS None"
| "reserve_loop K ns now H a pred entityKey keep n (e # es) =
     (if \<not> keep (fst e) then reserve_loop K ns now H a pred entityKey keep n es
      else
        bindS (entry_record K ns e) (\<lambda>outputRecord.
        bindS (case (outputRecord, candidate (ra_userId a) (ra_basketId a) pred outputRecord) of
                 (Some r, Some o1) \<Rightarrow> tryReserveSpendableOutput K ns now H a r (entityKey (out_outputId o1))
               | _ \<Rightarrow> retS None) (\<lambda>reserved.
          if reserved \<noteq> None then retS reserved
          else if n \<le> 1 then retS None
          else reserve_loop K ns now H a pred entityKey keep (n - 1) es)))"

definition reserveFirstSpendableOutput ::
  "'db kv \<Rightarrow> jstr \<Rightarrow> int \<Rightarrow> (nat list \<Rightarrow> jstr) \<Rightarrow> int \<Rightarrow> int \<Rightarrow> (table_output \<Rightarrow> bool) \<Rightarrow> int \<Rightarrow> (int \<Rightarrow> jstr) \<Rightarrow> int \<Rightarrow>
     ('db, rocks_error, table_output option) sem" where
  "reserveFirstSpendableOutput K ns now H userId basketId pred transactionId entityKey limit =
     bindS (liftS (outputSpendableBasketPrefix userId basketId)) (\<lambda>p.
     (\<lambda>db. reserve_loop K ns now H
             \<lparr>ra_userId = userId, ra_basketId = basketId, ra_transactionId = transactionId, ra_status = None\<rparr>
             pred entityKey (\<lambda>key. startsWith key ns) (normalizedLimit limit)
             (kv_range K db (storageKey ns p) (storageKey ns p @ [ch_max]) False) db))"

definition range_entries :: "'db kv \<Rightarrow> jstr \<Rightarrow> value_range \<Rightarrow> 'db \<Rightarrow> (jstr \<times> stored) list" where
  "range_entries K ns rng db =
     kv_range K db (storageKey ns (rng_start rng)) (storageKey ns (rng_end rng)) (rng_reverse rng)"

definition range_keep :: "jstr \<Rightarrow> value_range \<Rightarrow> jstr \<Rightarrow> bool" where
  "range_keep ns rng key \<longleftrightarrow> startsWith key ns \<and> startsWith key (storageKey ns (rng_prefix rng))"

definition reserveFirstSpendableOutputFromIndexRange ::
  "'db kv \<Rightarrow> jstr \<Rightarrow> int \<Rightarrow> (nat list \<Rightarrow> jstr) \<Rightarrow> reserve_args \<Rightarrow> (table_output \<Rightarrow> bool) \<Rightarrow> (int \<Rightarrow> jstr) \<Rightarrow>
     value_range \<Rightarrow> int \<Rightarrow> ('db, rocks_error, table_output option) sem" where
  "reserveFirstSpendableOutputFromIndexRange K ns now H a pred entityKey rng limit =
     (\<lambda>db. reserve_loop K ns now H a pred entityKey (range_keep ns rng) (normalizedLimit limit)
             (range_entries K ns rng db) db)"

fun reserve_ranges ::
  "'db kv \<Rightarrow> jstr \<Rightarrow> int \<Rightarrow> (nat list \<Rightarrow> jstr) \<Rightarrow> reserve_args \<Rightarrow> (table_output \<Rightarrow> bool) \<Rightarrow> (int \<Rightarrow> jstr) \<Rightarrow>
     int \<Rightarrow> value_range list \<Rightarrow> ('db, rocks_error, table_output option) sem" where
  "reserve_ranges K ns now H a pred entityKey limit [] = retS None"
| "reserve_ranges K ns now H a pred entityKey limit (rng # rngs) =
     bindS (reserveFirstSpendableOutputFromIndexRange K ns now H a pred entityKey rng limit) (\<lambda>reserved.
       if reserved \<noteq> None then retS reserved
       else reserve_ranges K ns now H a pred entityKey limit rngs)"

definition reserveSpendableValueBucketFromSeed ::
  "'db kv \<Rightarrow> jstr \<Rightarrow> int \<Rightarrow> (nat list \<Rightarrow> jstr) \<Rightarrow> reserve_args \<Rightarrow> int \<Rightarrow> bool \<Rightarrow> int \<Rightarrow> (table_output \<Rightarrow> bool) \<Rightarrow>
     (int \<Rightarrow> jstr) \<Rightarrow> int \<Rightarrow> ('db, rocks_error, table_output option) sem" where
  "reserveSpendableValueBucketFromSeed K ns now H a satoshis backwards seed pred entityKey limit =
     bindS (liftS (case ra_status a of
         None \<Rightarrow> spendableValueSeededBucketRanges (ra_userId a) (ra_basketId a) satoshis seed backwards
       | Some st \<Rightarrow> spendableStatusValueSeededBucketRanges (ra_userId a) (ra_basketId a) st satoshis seed backwards))
     (\<lambda>ranges. reserve_ranges K ns now H a pred entityKey limit ranges)"

section \<open>The first entry of a bucket or range\<close>

fun first_kept :: "(jstr \<Rightarrow> bool) \<Rightarrow> (jstr \<times> stored) list \<Rightarrow> jstr option" where
  "first_kept keep [] = None"
| "first_kept keep (e # es) = (if keep (fst e) then Some (fst e) else first_kept keep es)"

definition firstSpendableValueOutputIdInBucket :: "'db kv \<Rightarrow> jstr \<Rightarrow> jstr \<Rightarrow> bool \<Rightarrow> 'db \<Rightarrow> int option" where
  "firstSpendableValueOutputIdInBucket K ns p backwards db =
     (let sp = storageKey ns p;
          es = (if backwards then kv_range K db (sp @ [ch_max]) sp True
                else kv_range K db sp (sp @ [ch_max]) False)
      in case first_kept (\<lambda>key. startsWith key ns \<and> startsWith key sp) es of
           None \<Rightarrow> None | Some key \<Rightarrow> outputIdFromSpendableValueKey (drop (length ns) key))"

definition firstSpendableValueSatoshisInRange :: "'db kv \<Rightarrow> jstr \<Rightarrow> value_range \<Rightarrow> 'db \<Rightarrow> int option" where
  "firstSpendableValueSatoshisInRange K ns rng db =
     (case first_kept (range_keep ns rng) (range_entries K ns rng db) of
        None \<Rightarrow> None | Some key \<Rightarrow> satoshisFromSpendableValueKey (drop (length ns) key))"

definition bucket_seed :: "'db kv \<Rightarrow> jstr \<Rightarrow> jstr \<Rightarrow> int \<Rightarrow> 'db \<Rightarrow> int" where
  "bucket_seed K ns p transactionId db =
     (case (firstSpendableValueOutputIdInBucket K ns p False db,
            firstSpendableValueOutputIdInBucket K ns p True db) of
        (Some firstOutputId, Some lastOutputId) \<Rightarrow>
          if lastOutputId < firstOutputId then spendableReservationSeed transactionId
          else firstOutputId + positiveModulo (transactionId - 1) (lastOutputId - firstOutputId + 1)
      | _ \<Rightarrow> spendableReservationSeed transactionId)"

definition spendableValueBucketSeed ::
  "'db kv \<Rightarrow> jstr \<Rightarrow> int \<Rightarrow> int \<Rightarrow> int \<Rightarrow> int \<Rightarrow> ('db, rocks_error, int) sem" where
  "spendableValueBucketSeed K ns userId basketId satoshis transactionId =
     bindS (liftS (outputSpendableBasketValueSatoshisPrefix userId basketId satoshis)) (\<lambda>p.
     (\<lambda>db. (Inr (bucket_seed K ns p transactionId db), db)))"

definition spendableStatusValueBucketSeed ::
  "'db kv \<Rightarrow> jstr \<Rightarrow> int \<Rightarrow> int \<Rightarrow> jstr \<Rightarrow> int \<Rightarrow> int \<Rightarrow> ('db, rocks_error, int) sem" where
  "spendableStatusValueBucketSeed K ns userId basketId status satoshis transactionId =
     bindS (liftS (outputSpendableBasketStatusValueSatoshisPrefix userId basketId status satoshis)) (\<lambda>p.
     (\<lambda>db. (Inr (bucket_seed K ns p transactionId db), db)))"

section \<open>Reserving by value\<close>

text \<open>The body shared by the two methods: the seeded bucket first, then the whole range.\<close>

definition reserve_by_range ::
  "'db kv \<Rightarrow> jstr \<Rightarrow> int \<Rightarrow> (nat list \<Rightarrow> jstr) \<Rightarrow> reserve_args \<Rightarrow> reservation_mode \<Rightarrow> int \<Rightarrow>
     (table_output \<Rightarrow> bool) \<Rightarrow> (int \<Rightarrow> jstr) \<Rightarrow> int \<Rightarrow> value_range \<Rightarrow>
     (int \<Rightarrow> ('db, rocks_error, int) sem) \<Rightarrow> ('db, rocks_error, table_output option) sem" where
  "reserve_by_range K ns now H a mode satoshis pred entityKey limit rng seedOf =
     bindS (\<lambda>db. (Inr (if mode = Exact then Some satoshis
                       else firstSpendableValueSatoshisInRange K ns rng db), db)) (\<lambda>seededSatoshis.
     bindS (case seededSatoshis of
              None \<Rightarrow> retS None
            | Some s \<Rightarrow> bindS (seedOf s) (\<lambda>seed.
                reserveSpendableValueBucketFromSeed K ns now H a s (mode = Under) seed pred entityKey limit))
       (\<lambda>seeded. if seeded \<noteq> None then retS seeded
                 else reserveFirstSpendableOutputFromIndexRange K ns now H a pred entityKey rng limit))"

definition reserveSpendableOutputByValue ::
  "'db kv \<Rightarrow> jstr \<Rightarrow> int \<Rightarrow> (nat list \<Rightarrow> jstr) \<Rightarrow> int \<Rightarrow> int \<Rightarrow> reservation_mode \<Rightarrow> int \<Rightarrow>
     (table_output \<Rightarrow> bool) \<Rightarrow> int \<Rightarrow> (int \<Rightarrow> jstr) \<Rightarrow> int \<Rightarrow> ('db, rocks_error, table_output option) sem" where
  "reserveSpendableOutputByValue K ns now H userId basketId mode satoshis pred transactionId entityKey limit =
     bindS (liftS (spendableValueRange userId basketId mode satoshis)) (\<lambda>rng.
       reserve_by_range K ns now H
         \<lparr>ra_userId = userId, ra_basketId = basketId, ra_transactionId = transactionId, ra_status = None\<rparr>
         mode satoshis pred entityKey limit rng
         (\<lambda>s. spendableValueBucketSeed K ns userId basketId s transactionId))"

fun reserveSpendableOutputByStatusAndValue ::
  "'db kv \<Rightarrow> jstr \<Rightarrow> int \<Rightarrow> (nat list \<Rightarrow> jstr) \<Rightarrow> int \<Rightarrow> int \<Rightarrow> jstr list \<Rightarrow> reservation_mode \<Rightarrow> int \<Rightarrow>
     (table_output \<Rightarrow> bool) \<Rightarrow> int \<Rightarrow> (int \<Rightarrow> jstr) \<Rightarrow> int \<Rightarrow> ('db, rocks_error, table_output option) sem" where
  "reserveSpendableOutputByStatusAndValue K ns now H userId basketId [] mode satoshis pred transactionId
     entityKey limit = retS None"
| "reserveSpendableOutputByStatusAndValue K ns now H userId basketId (status # statuses) mode satoshis
     pred transactionId entityKey limit =
     bindS (liftS (spendableStatusValueRange userId basketId status mode satoshis)) (\<lambda>rng.
     bindS (reserve_by_range K ns now H
         \<lparr>ra_userId = userId, ra_basketId = basketId, ra_transactionId = transactionId,
          ra_status = Some status\<rparr>
         mode satoshis pred entityKey limit rng
         (\<lambda>s. spendableStatusValueBucketSeed K ns userId basketId status s transactionId)) (\<lambda>reserved.
       if reserved \<noteq> None then retS reserved
       else reserveSpendableOutputByStatusAndValue K ns now H userId basketId statuses mode satoshis
              pred transactionId entityKey limit))"

end
