(* ===== verification/RocksReserveInv.thy ===== *)
theory RocksReserveInv
  imports RocksReserve
begin

text \<open>
  Reservations are exclusive and keep the indexes.

  \<open>try_reserve_acts\<close> says what a successful \<open>tryReserveSpendableOutput\<close> did to the abstract
  store: the record under the output's primary key was spendable and unchanged since it was read, it
  is now the same output marked spent, and its index entries were exchanged. All other outcomes leave
  the database as it was. \<open>run_attempts\<close> runs reservation attempts of any number of callers, in the
  order the native transactions are serialised; the records the attempts carry may be arbitrarily old.
\<close>

text \<open>A digest function whose results can be part of a key, and entity keys outside the key space of
  outputs (\<open>StorageRocksDb\<close> uses keys that start with \<open>entity!\<close>).\<close>

definition hash_ok :: "(nat list \<Rightarrow> jstr) \<Rightarrow> bool" where
  "hash_ok H \<longleftrightarrow> (\<forall>s. s \<noteq> [] \<longrightarrow> part_ok (H s))"

definition entity_key_ok :: "jstr \<Rightarrow> bool" where
  "entity_key_ok k \<longleftrightarrow> good_key k \<and> ord_key k \<and> \<not> startsWith k (js ''output!'')"

lemma entity_not_output:
  assumes "entity_key_ok k"
  shows "k \<notin> all_keys o1 st" "k \<noteq> pk i" "\<not> id_index_key k"
proof -
  have "startsWith x (js ''output!'')" if "x \<in> all_keys o1 st" for x
    using that
    by (auto simp: all_keys_def id_keys_def outpoint_keys_def status_keys_def pfx_defs startsWith_def js_def
        split: option.splits if_splits bool.splits)
  moreover have "startsWith (pk i) (js ''output!'')" by (simp add: pfx_defs startsWith_def js_def)
  moreover have "startsWith x (js ''output!'')" if "id_index_key x" for x
    using that by (auto simp: id_index_key_def key_prefix_defs js_def elim!: startsWithE)
      (simp_all add: startsWith_def)
  ultimately show "k \<notin> all_keys o1 st" "k \<noteq> pk i" "\<not> id_index_key k"
    using assms by (auto simp: entity_key_ok_def)
qed

lemma apply_fields [simp]:
  "out_outputId (applyOutputScriptMetadata H o1) = out_outputId o1"
  "out_spendable (applyOutputScriptMetadata H o1) = out_spendable o1"
  "out_spentBy (applyOutputScriptMetadata H o1) = out_spentBy o1"
  "out_userId (applyOutputScriptMetadata H o1) = out_userId o1"
  "out_basketId (applyOutputScriptMetadata H o1) = out_basketId o1"
  "out_satoshis (applyOutputScriptMetadata H o1) = out_satoshis o1"
  by (simp_all add: applyOutputScriptMetadata_def split: option.split)

lemma apply_ok: "hash_ok H \<Longrightarrow> output_ok o1 \<Longrightarrow> output_ok (applyOutputScriptMetadata H o1)"
  by (auto simp: applyOutputScriptMetadata_def hash_ok_def output_ok_def split: option.splits)

lemma reserved_output_fields [simp]:
  "out_outputId (reserved_output H now t o1) = out_outputId o1"
  "\<not> out_spendable (reserved_output H now t o1)"
  "out_spentBy (reserved_output H now t o1) = Some t"
  "out_satoshis (reserved_output H now t o1) = out_satoshis o1"
  by (simp_all add: reserved_output_def)

lemma reserved_output_ok: "hash_ok H \<Longrightarrow> output_ok o1 \<Longrightarrow> output_ok (reserved_output H now t o1)"
  unfolding reserved_output_def by (rule apply_ok) (simp_all add: output_ok_def)

text \<open>An entity record is not an index entry, so writing it does not touch the invariant.\<close>

lemma index_inv_entity: "index_inv m \<Longrightarrow> entity_key_ok ek \<Longrightarrow> index_inv (m(ek := w))"
  unfolding index_inv_def using entity_not_output [of ek]
  by (smt (verit, best) fun_upd_other id_keys_id_index)

lemma index_inv_entity_iff: "entity_key_ok ek \<Longrightarrow> index_inv (m(ek := w)) \<longleftrightarrow> index_inv m"
  using index_inv_entity [of m ek w] index_inv_entity [of "m(ek := w)" ek "m ek"] by auto

context rocks_store
begin

lemma tx_remove_view:
  assumes "\<forall>k \<in> set ks. good_key k"
  shows "\<exists>db'. tx_remove_keys K ns ks db = (Inr (), db') \<and>
     vview K ns db' = (\<lambda>k. if k \<in> set ks then None else vview K ns db k) \<and>
     (db_ok K ns db \<longrightarrow> db_ok K ns db')"
proof -
  define f where "f = (\<lambda>k. bindS (liftS (normalizeKey k)) (\<lambda>k'. kv_delete K (storageKey ns k')))"
  have f: "good_key k \<Longrightarrow> f k db = (Inr (), kv_remove K db (storageKey ns k))" for k db
    by (simp add: f_def good_key_normal kv_delete_def)
  have "\<exists>rs db'. mapS f ks db = (Inr rs, db') \<and>
     vview K ns db' = (\<lambda>k. if k \<in> set ks then None else vview K ns db k) \<and>
     (db_ok K ns db \<longrightarrow> db_ok K ns db')"
    using assms
  proof (induction ks arbitrary: db)
    case (Cons k ks)
    then obtain rs db' where "mapS f ks (kv_remove K db (storageKey ns k)) = (Inr rs, db')"
      "vview K ns db' = (\<lambda>x. if x \<in> set ks then None else vview K ns (kv_remove K db (storageKey ns k)) x)"
      "db_ok K ns (kv_remove K db (storageKey ns k)) \<longrightarrow> db_ok K ns db'"
      by (meson list.set_intros(2))
    then show ?case using Cons.prems db_ok_remove [of db "storageKey ns k"]
      by (auto simp: fun_eq_iff vview_remove f)
  qed simp
  then show ?thesis unfolding tx_remove_keys_def f_def [symmetric] by auto
qed

lemma tx_put_view:
  assumes "\<forall>k \<in> set ks. good_key k \<and> ord_key k"
  shows "\<exists>db'. tx_put_index K ns now i ks db = (Inr (), db') \<and>
     (\<forall>k. vview K ns db' k = (if k \<in> set ks then Some (VIndex i, 1) else vview K ns db k)) \<and>
     (db_ok K ns db \<longrightarrow> db_ok K ns db')"
proof -
  define f where "f = (\<lambda>k. bindS (liftS (normalizeKey k)) (\<lambda>k'.
         bindS (liftS (encode now (VIndex i) None (DateMs now))) (\<lambda>st. kv_write K (storageKey ns k') st)))"
  obtain st where t: "encode now (VIndex i) None (DateMs now) = Inr st" and st: "st_value st = VIndex i" "st_version st = 1"
    using encode_ok [of "DateMs now" now "VIndex i" None] by (auto simp: next_version_def)
  have f: "good_key k \<Longrightarrow> f k db = (Inr (), kv_put K db (storageKey ns k) st)" for k db
    using t by (simp add: f_def good_key_normal kv_write_def)
  have "\<exists>rs db'. mapS f ks db = (Inr rs, db') \<and>
     (\<forall>k. vview K ns db' k = (if k \<in> set ks then Some (VIndex i, 1) else vview K ns db k)) \<and>
     (db_ok K ns db \<longrightarrow> db_ok K ns db')"
    using assms
  proof (induction ks arbitrary: db)
    case (Cons k ks)
    let ?db = "kv_put K db (storageKey ns k) st"
    from Cons obtain rs db' where "mapS f ks ?db = (Inr rs, db')"
      "\<forall>x. vview K ns db' x = (if x \<in> set ks then Some (VIndex i, 1) else vview K ns ?db x)"
      "db_ok K ns ?db \<longrightarrow> db_ok K ns db'"
      by (meson list.set_intros(2))
    moreover have "db_ok K ns db \<longrightarrow> db_ok K ns ?db" using Cons.prems db_ok_put [OF _ _ t] by auto
    ultimately show ?case using Cons.prems by (auto simp: vview_put st f)
  qed simp
  then show ?thesis unfolding tx_put_index_def f_def [symmetric] by auto
qed

lemma write_view:
  assumes "good_key k" "ord_key k"
  shows "\<exists>st. encode now v cv (DateMs now) = Inr st \<and>
    vview K ns (kv_put K db (storageKey ns k) st) = (vview K ns db)(k \<mapsto> (v, next_version cv)) \<and>
    (db_ok K ns db \<longrightarrow> db_ok K ns (kv_put K db (storageKey ns k) st))"
proof -
  obtain t where t: "encode now v cv (DateMs now) = Inr \<lparr>st_recordType = RECORD_TYPE,
      st_schemaVersion = Some SCHEMA_VERSION, st_value = v, st_version = next_version cv, st_updated_at = t\<rparr>"
    using encode_ok by blast
  with assms show ?thesis using db_ok_put [OF _ _ t] by (auto simp: vview_put)
qed

end

text \<open>The record an attempt saw is still the current one, and its output is spendable.\<close>

definition reservable :: "vmap \<Rightarrow> reserve_args \<Rightarrow> wallet_record \<Rightarrow> table_output \<Rightarrow> bool" where
  "reservable m a r current \<longleftrightarrow>
     value_outputId (rec_value r) = Inr (out_outputId current) \<and>
     m (pk (out_outputId current)) = Some (VOutput current, rec_version r) \<and>
     out_userId current = ra_userId a \<and> out_basketId current = Some (ra_basketId a) \<and> out_spendable current"

text \<open>What a reservation does to the abstract store.\<close>

definition reserves :: "vmap \<Rightarrow> reserve_args \<Rightarrow> table_output \<Rightarrow> table_output \<Rightarrow> jstr \<Rightarrow> vmap \<Rightarrow> bool" where
  "reserves m a current next ek m' \<longleftrightarrow>
     replaced m (ra_status a) (out_outputId current) (Some next) (m'(ek := m ek)) \<and>
     map_option fst (m' ek) = Some (VOutput next)"

lemma runNativeTransaction_cases:
  assumes "runNativeTransaction work db = (x, db')"
  obtains (ok) a where "x = Inr a" "work db = (Inr a, db')"
    | (rollback) e where "x = Inl e" "db' = db"
  using assms by (auto simp: runNativeTransaction_def split: prod.splits sum.splits)

context rocks_store
begin

text \<open>The writes of a reservation.\<close>

lemma reserve_writes:
  assumes ok: "db_ok K ns db" and inv: "index_inv (vview K ns db)" and H: "hash_ok H"
    and ek: "entity_key_ok ek" and st: "status_ok (ra_status a)"
    and cur: "vview K ns db (pk i) = Some (VOutput current, v)" "key_num i" "out_outputId current = i"
  defines "next \<equiv> reserved_output H now (ra_transactionId a) current"
  shows "\<exists>db'. bindS (liftS (indexKeysForOutput current (ra_status a))) (\<lambda>dels.
       bindS (tx_remove_keys K ns dels) (\<lambda>_.
       bindS (liftS (encode now (VOutput next) (Some v) (DateMs now))) (\<lambda>np.
       bindS (kv_write K (storageKey ns (pk i)) np) (\<lambda>_.
       bindS (liftS (encode now (VOutput next) (Some w) (DateMs now))) (\<lambda>ne.
       bindS (kv_write K (storageKey ns ek) ne) (\<lambda>_.
       bindS (liftS (indexKeysForOutput next (ra_status a))) (\<lambda>puts.
       bindS (tx_put_index K ns now (out_outputId next) puts) (\<lambda>_. retS (Some next)))))))))
       db = (Inr (Some next), db') \<and> db_ok K ns db' \<and> reserves (vview K ns db) a current next ek (vview K ns db')"
proof -
  have cok: "output_ok current" using index_inv_primary [OF inv cur(2,1)] by auto
  then have nok: "output_ok next" using H by (simp add: next_def reserved_output_ok)
  obtain dels where d: "indexKeysForOutput current (ra_status a) = Inr dels" "set dels = all_keys current (ra_status a)"
    using indexKeysForOutput_ok [OF cok st] by blast
  obtain puts where p: "indexKeysForOutput next (ra_status a) = Inr puts" "set puts = all_keys next (ra_status a)"
    using indexKeysForOutput_ok [OF nok st] by blast
  have dg: "\<forall>k \<in> set dels. good_key k" and pg: "\<forall>k \<in> set puts. good_key k \<and> ord_key k"
    using d(2) p(2) cok nok st by (auto simp: output_keys_good output_keys_ord)
  obtain db1 where 1: "tx_remove_keys K ns dels db = (Inr (), db1)"
    "vview K ns db1 = (\<lambda>k. if k \<in> set dels then None else vview K ns db k)" "db_ok K ns db1"
    using tx_remove_view [OF dg, of db] ok by blast
  obtain np where np: "encode now (VOutput next) (Some v) (DateMs now) = Inr np"
    and 2: "vview K ns (kv_put K db1 (storageKey ns (pk i)) np) = (vview K ns db1)(pk i \<mapsto> (VOutput next, next_version (Some v)))"
      "db_ok K ns (kv_put K db1 (storageKey ns (pk i)) np)"
    using write_view [OF good_pk ord_pk] 1(3) by blast
  define db2 where "db2 = kv_put K db1 (storageKey ns (pk i)) np"
  obtain ne where ne: "encode now (VOutput next) (Some w) (DateMs now) = Inr ne"
    and 3: "vview K ns (kv_put K db2 (storageKey ns ek) ne) = (vview K ns db2)(ek \<mapsto> (VOutput next, next_version (Some w)))"
      "db_ok K ns (kv_put K db2 (storageKey ns ek) ne)"
    using write_view [of ek "VOutput next" "Some w" db2] ek 2(2) by (auto simp: entity_key_ok_def db2_def)
  define db3 where "db3 = kv_put K db2 (storageKey ns ek) ne"
  obtain db4 where 4: "tx_put_index K ns now (out_outputId next) puts db3 = (Inr (), db4)"
    "\<forall>k. vview K ns db4 k = (if k \<in> set puts then Some (VIndex (out_outputId next), 1) else vview K ns db3 k)"
    "db_ok K ns db4"
    using tx_put_view [OF pg, of "out_outputId next" db3] 3(2) by (auto simp: db3_def)
  have run: "bindS (liftS (indexKeysForOutput current (ra_status a))) (\<lambda>dels.
       bindS (tx_remove_keys K ns dels) (\<lambda>_.
       bindS (liftS (encode now (VOutput next) (Some v) (DateMs now))) (\<lambda>np.
       bindS (kv_write K (storageKey ns (pk i)) np) (\<lambda>_.
       bindS (liftS (encode now (VOutput next) (Some w) (DateMs now))) (\<lambda>ne.
       bindS (kv_write K (storageKey ns ek) ne) (\<lambda>_.
       bindS (liftS (indexKeysForOutput next (ra_status a))) (\<lambda>puts.
       bindS (tx_put_index K ns now (out_outputId next) puts) (\<lambda>_. retS (Some next)))))))))
       db = (Inr (Some next), db4)"
    using d(1) p(1) 1(1) np ne 4(1) by (simp add: bindS_def kv_write_def db2_def db3_def)
  have ekn: "ek \<notin> set puts" "ek \<notin> set dels" "ek \<noteq> pk i"
    using entity_not_output [OF ek] d(2) p(2) by auto
  have "pk i \<notin> set puts" using p(2) all_keys_not_pk by blast
  then have "reserves (vview K ns db) a current next ek (vview K ns db4)"
    using 1(2) 2(1) 3(1) 4(2) d(2) p(2) ekn cur
    by (auto simp: reserves_def replaced_def Let_def old_keys_def db2_def db3_def next_def)
  with run 4(3) show ?thesis by blast
qed

text \<open>Every outcome of an attempt: either the reservation took place, or nothing changed.\<close>

lemma try_reserve_acts:
  assumes ok: "db_ok K ns db" and inv: "index_inv (vview K ns db)" and H: "hash_ok H"
    and ek: "normalizeKey entityKey = Inr ek" "entity_key_ok ek" and st: "status_ok (ra_status a)"
    and run: "tryReserveSpendableOutput K ns now H a r entityKey db = (x, db')"
  obtains (reserved) current where "x = Inr (Some (reserved_output H now (ra_transactionId a) current))"
      "reservable (vview K ns db) a r current" "key_num (out_outputId current)" "output_ok current"
      "reserves (vview K ns db) a current (reserved_output H now (ra_transactionId a) current) ek (vview K ns db')"
      "db_ok K ns db'"
    | (refused) "x = Inr None \<or> (\<exists>e. x = Inl e)" "db' = db"
proof -
  show ?thesis
  proof (cases "bindE (value_outputId (rec_value r)) outputPrimaryKey")
    case (Inl e)
    with run have "x = Inl e" "db' = db" by (auto simp: tryReserveSpendableOutput_def)
    then show ?thesis using refused by blast
  next
    case (Inr primaryKey)
    then obtain i where i: "value_outputId (rec_value r) = Inr i" "outputPrimaryKey i = Inr primaryKey"
      by (auto simp: bindE_Inr_iff)
    then have ki: "key_num i" "primaryKey = pk i"
      by (cases "key_num i"; simp add: outputPrimaryKey_def pk_def)+
    from run Inr have tx: "runNativeTransaction (reserve_body K ns now H a r (pk i) entityKey) db = (x, db')"
      by (simp add: tryReserveSpendableOutput_def ki)
    then show ?thesis
    proof (cases rule: runNativeTransaction_cases)
      case rollback
      then show ?thesis using refused by blast
    next
      case (ok y)
      let ?p = "kv_get K db (storageKey ns (pk i))" and ?e = "kv_get K db (storageKey ns ek)"
      have body: "reserve_body K ns now H a r (pk i) entityKey db = (Inr y, db')" by (rule ok)
      show ?thesis
      proof (cases "y = None")
        case True
        have "db' = db"
        proof (rule ccontr)
          assume "db' \<noteq> db"
          with body True show False
            by (auto simp: reserve_body_def ek kv_read_def bindS_def Let_def
                split: option.splits if_splits prod.splits sum.splits)
        qed
        with ok True show ?thesis using refused by blast
      next
        case False
        then obtain p e current entity where pe: "?p = Some p" "?e = Some e"
          "st_version p = rec_version r" "as_output (st_value p) = Some current"
          "as_output (st_value e) = Some entity" "out_userId current = ra_userId a"
          "out_basketId current = Some (ra_basketId a)" "out_spendable current"
          "out_outputId entity = out_outputId current" "out_spendable entity"
          using body by (auto simp: reserve_body_def ek kv_read_def bindS_def Let_def
                split: option.splits if_splits)
        have vp: "st_value p = VOutput current" using pe(4) by (cases "st_value p") auto
        then have m: "vview K ns db (pk i) = Some (VOutput current, rec_version r)"
          using pe(1,3) by (simp add: vview_def)
        have cur: "out_outputId current = i" "output_ok current"
          using index_inv_primary [OF inv ki(1) m] by auto
        obtain db2 where w: "y = Some (reserved_output H now (ra_transactionId a) current)" "db' = db2"
          "db_ok K ns db2"
          "reserves (vview K ns db) a current (reserved_output H now (ra_transactionId a) current) ek (vview K ns db2)"
          using reserve_writes [OF assms(1) inv H ek(2) st m ki(1) cur(1), of "st_version e"] body pe
          by (auto simp: reserve_body_def ek kv_read_def bindS_def [of "\<lambda>db. (Inr (kv_get K db k), db)" for k] Let_def)
        have "reservable (vview K ns db) a r current"
          using i(1) cur(1) m pe by (simp add: reservable_def)
        with w ok cur ki(1) show ?thesis using reserved by auto
      qed
    qed
  qed
qed

end

end
