(* ===== verification/RocksReserveRun.thy ===== *)
theory RocksReserveRun
  imports RocksReserveInv
begin

text \<open>
  Runs of reservations: a loop over a range reserves an acceptable output or changes nothing, and a
  sequence of attempts, in the order their native transactions are serialised, never reserves one
  output twice.
\<close>

section \<open>The loop over a range\<close>

text \<open>What a client may assume of a reserved output: it was stored, spendable, in the user's basket
  and accepted by the predicate; it is now stored as spent by the transaction.\<close>

definition acceptable :: "vmap \<Rightarrow> reserve_args \<Rightarrow> (table_output \<Rightarrow> bool) \<Rightarrow> table_output \<Rightarrow> bool" where
  "acceptable m a pred o1 \<longleftrightarrow> stored_output m o1 \<and> output_ok o1 \<and> out_userId o1 = ra_userId a \<and>
     out_basketId o1 = Some (ra_basketId a) \<and> out_spendable o1 \<and> pred o1"

definition entity_keys_ok :: "(int \<Rightarrow> jstr) \<Rightarrow> bool" where
  "entity_keys_ok entityKey \<longleftrightarrow> (\<forall>i. \<exists>ek. normalizeKey (entityKey i) = Inr ek \<and> entity_key_ok ek)"

text \<open>The outcome of a reservation that started at \<open>db\<close>: refused, with nothing changed, or an
  output with \<open>P\<close> reserved.\<close>

definition outcome ::
  "'db kv \<Rightarrow> jstr \<Rightarrow> int \<Rightarrow> (nat list \<Rightarrow> jstr) \<Rightarrow> reserve_args \<Rightarrow> (table_output \<Rightarrow> bool) \<Rightarrow> 'db \<Rightarrow>
     (rocks_error + table_output option) \<times> 'db \<Rightarrow> bool" where
  "outcome K ns now H a P db res \<longleftrightarrow>
     ((fst res = Inr None \<or> (\<exists>e. fst res = Inl e)) \<and> snd res = db) \<or>
     (\<exists>current ek. fst res = Inr (Some (reserved_output H now (ra_transactionId a) current)) \<and>
        acceptable (vview K ns db) a P current \<and> entity_key_ok ek \<and> db_ok K ns (snd res) \<and>
        reserves (vview K ns db) a current (reserved_output H now (ra_transactionId a) current) ek
          (vview K ns (snd res)))"

lemma outcome_refused [simp]: "outcome K ns now H a P db (Inr None, db)" "outcome K ns now H a P db (Inl e, db)"
  by (simp_all add: outcome_def)

lemma outcome_mono:
  "outcome K ns now H a P db res \<Longrightarrow>
     (\<And>o1. acceptable (vview K ns db) a P o1 \<Longrightarrow> Q o1) \<Longrightarrow> outcome K ns now H a Q db res"
  by (auto simp: outcome_def acceptable_def)

lemma outcome_cases:
  assumes "outcome K ns now H a P db (x, db')"
  obtains "x = Inr None" "db' = db" | e where "x = Inl e" "db' = db"
    | o1 where "x = Inr (Some o1)" "outcome K ns now H a P db (Inr (Some o1), db')"
  using assms by (auto simp: outcome_def)

lemma outcome_bind:
  assumes "outcome K ns now H a P db (m db)"
    and "\<And>r. f (Some r) = retS (Some r)" and "outcome K ns now H a P db (f None db)"
  shows "outcome K ns now H a P db (bindS m f db)"
proof -
  obtain x db' where m: "m db = (x, db')" by force
  from assms(1) [unfolded m] show ?thesis
    by (cases rule: outcome_cases) (use m assms in \<open>auto simp: bindS_def\<close>)
qed

lemma get_output_read:
  assumes "get_output K ns i db = (x, db')"
  shows "db' = db" and "x = Inr (Some r) \<Longrightarrow> key_num i \<and> vview K ns db (pk i) = Some (rec_value r, rec_version r)"
proof -
  show "db' = db"
    using assms by (auto simp: get_output_def rocks_get_def kv_read_def bindS_def liftS_def retS_def
        split: prod.splits sum.splits option.splits)
  assume x: "x = Inr (Some r)"
  have i: "key_num i"
    using assms x by (cases "key_num i") (simp_all add: get_output_def outputPrimaryKey_def bindS_def)
  show "key_num i \<and> vview K ns db (pk i) = Some (rec_value r, rec_version r)"
  proof (cases "kv_get K db (storageKey ns (pk i))")
    case None
    with assms x i show ?thesis
      by (simp add: get_output_def rocks_get_def good_key_normal kv_read_def bindS_def)
  next
    case (Some s)
    with assms x i show ?thesis
      by (cases "decode (pk i) s")
        (auto simp: get_output_def rocks_get_def good_key_normal kv_read_def bindS_def vview_def
          decode_def split: if_splits)
  qed
qed

lemma entry_record_read:
  assumes "entry_record K ns e db = (x, db')"
  shows "db' = db"
    and "x = Inr (Some r) \<Longrightarrow> \<exists>i. value_outputId (st_value (snd e)) = Inr i \<and>
      vview K ns db (pk i) = Some (rec_value r, rec_version r) \<and> key_num i"
  using assms
  by (auto simp: entry_record_def bindS_def liftS_def decode_def split: prod.splits sum.splits if_splits
      dest: get_output_read)

lemma candidate_Some: "candidate u b pred r = Some o1 \<Longrightarrow>
    \<exists>x. r = Some x \<and> rec_value x = VOutput o1 \<and> out_userId o1 = u \<and> out_basketId o1 = Some b \<and>
      out_spendable o1 \<and> pred o1"
  by (auto simp: candidate_def split: option.splits if_splits elim!: as_output.elims)

context rocks_store
begin

text \<open>One attempt on the record of an index entry.\<close>

lemma attempt_outcome:
  assumes "db_ok K ns db" "index_inv (vview K ns db)" "hash_ok H" "status_ok (ra_status a)"
    and "entity_keys_ok entityKey"
    and r: "vview K ns db (pk i) = Some (rec_value r, rec_version r)" "key_num i"
    and c: "rec_value r = VOutput o1" "out_userId o1 = ra_userId a" "out_basketId o1 = Some (ra_basketId a)"
      "out_spendable o1" "pred o1"
  shows "outcome K ns now H a (\<lambda>o1. pred o1 \<and> out_outputId o1 = i) db
           (tryReserveSpendableOutput K ns now H a r (entityKey (out_outputId o1)) db)"
proof -
  obtain x db' where run: "tryReserveSpendableOutput K ns now H a r (entityKey (out_outputId o1)) db = (x, db')"
    by force
  obtain ek where ek: "normalizeKey (entityKey (out_outputId o1)) = Inr ek" "entity_key_ok ek"
    using assms(5) by (auto simp: entity_keys_ok_def)
  have o1: "out_outputId o1 = i" "output_ok o1"
    using index_inv_primary [OF assms(2) r(2,1)] c(1) by auto
  from assms(1-3) ek assms(4) run show ?thesis
  proof (cases rule: try_reserve_acts)
    case (reserved current)
    from reserved(2) c(1) have "out_outputId current = i" using o1(1) by (auto simp: reservable_def)
    with reserved(2) r c(1) have "current = o1" by (auto simp: reservable_def)
    with reserved ek o1 c run r show ?thesis
      by (auto simp: outcome_def acceptable_def stored_output_def)
  next
    case refused
    with run show ?thesis by (auto simp: outcome_def)
  qed
qed

lemma reserve_loop_outcome:
  assumes "db_ok K ns db" "index_inv (vview K ns db)" "hash_ok H" "status_ok (ra_status a)"
    and "entity_keys_ok entityKey"
  shows "outcome K ns now H a (\<lambda>o1. pred o1 \<and>
      (\<exists>e \<in> set es. keep (fst e) \<and> value_outputId (st_value (snd e)) = Inr (out_outputId o1))) db
    (reserve_loop K ns now H a pred entityKey keep n es db)"
proof (induction es arbitrary: n)
  case Nil
  then show ?case by simp
next
  case (Cons e es)
  let ?P = "\<lambda>es o1. pred o1 \<and>
      (\<exists>e \<in> set es. keep (fst e) \<and> value_outputId (st_value (snd e)) = Inr (out_outputId o1))"
  have IH: "outcome K ns now H a (?P (e # es)) db (reserve_loop K ns now H a pred entityKey keep m es db)" for m
    by (rule outcome_mono [OF Cons.IH]) (auto simp: acceptable_def)
  show ?case
  proof (cases "keep (fst e)")
    case False
    then show ?thesis using IH [of n] by simp
  next
    case True
    obtain x db1 where er: "entry_record K ns e db = (x, db1)" by force
    have db1: "db1 = db" using entry_record_read(1) [OF er] .
    show ?thesis
    proof (cases x)
      case (Inl err)
      with True er db1 show ?thesis by simp
    next
      case (Inr r0)
      let ?att = "case (r0, candidate (ra_userId a) (ra_basketId a) pred r0) of
                 (Some r, Some o1) \<Rightarrow> tryReserveSpendableOutput K ns now H a r (entityKey (out_outputId o1))
               | _ \<Rightarrow> retS None"
      have "outcome K ns now H a (?P (e # es)) db (?att db)"
      proof (cases "candidate (ra_userId a) (ra_basketId a) pred r0")
        case None
        then show ?thesis by (simp split: option.splits)
      next
        case (Some o1)
        from candidate_Some [OF this] obtain r where r: "r0 = Some r" "rec_value r = VOutput o1"
          "out_userId o1 = ra_userId a" "out_basketId o1 = Some (ra_basketId a)" "out_spendable o1" "pred o1"
          by blast
        obtain i where i: "value_outputId (st_value (snd e)) = Inr i"
          "vview K ns db (pk i) = Some (rec_value r, rec_version r)" "key_num i"
          using entry_record_read(2) [OF er] Inr r(1) by auto
        have "outcome K ns now H a (\<lambda>o1. pred o1 \<and> out_outputId o1 = i) db
           (tryReserveSpendableOutput K ns now H a r (entityKey (out_outputId o1)) db)"
          using attempt_outcome [where pred = pred, OF assms i(2,3) r(2-6)] .
        then have "outcome K ns now H a (?P (e # es)) db
           (tryReserveSpendableOutput K ns now H a r (entityKey (out_outputId o1)) db)"
          by (rule outcome_mono) (use True i(1) in \<open>auto simp: acceptable_def\<close>)
        with Some r(1) show ?thesis by simp
      qed
      then have "outcome K ns now H a (?P (e # es)) db (bindS ?att (\<lambda>reserved.
          if reserved \<noteq> None then retS reserved else if n \<le> 1 then retS None
          else reserve_loop K ns now H a pred entityKey keep (n - 1) es) db)"
        by (rule outcome_bind) (use IH [of "n - 1"] in simp_all)
      with True er db1 Inr show ?thesis by simp
    qed
  qed
qed

end

section \<open>Reserving by value\<close>

text \<open>In an index with \<open>index_inv\<close>, an entry under a value prefix of a user's basket is the entry
  of a stored output of that basket.\<close>

lemma value_pfx_inj:
  assumes "value_pfx u b @ s = value_pfx u' b' @ s'" "key_num u" "key_num u'" "key_num b" "key_num b'"
  shows "u = u' \<and> b = b' \<and> s = s'"
proof -
  have "pad16 u @ js ''!basket!'' @ pad16 b @ [ch_bang] @ s = pad16 u' @ js ''!basket!'' @ pad16 b' @ [ch_bang] @ s'"
    using assms(1) by (simp add: value_pfx_def)
  then have "pad16 u = pad16 u'" "pad16 b @ [ch_bang] @ s = pad16 b' @ [ch_bang] @ s'" by simp_all
  with assms show ?thesis by (auto simp: pad16_inj)
qed

lemma value_key_of:
  assumes "k \<in> set (id_keys o1)" "startsWith k (value_pfx u b)" "output_ok o1" "key_num u" "key_num b"
  shows "k = value_pfx u b @ sat_oid (out_satoshis o1) (out_outputId o1)"
proof -
  have v: "startsWith k OUTPUT_SPENDABLE_VALUE_PREFIX" using assms(2) by (auto elim!: startsWithE)
  have "\<not> startsWith (hash_key h i) OUTPUT_SPENDABLE_VALUE_PREFIX"
    "\<not> startsWith (all_pfx u @ s) OUTPUT_SPENDABLE_VALUE_PREFIX"
    "\<not> startsWith (basket_pfx u b @ s) OUTPUT_SPENDABLE_VALUE_PREFIX"
    "\<not> startsWith (tx_pfx t @ s) OUTPUT_SPENDABLE_VALUE_PREFIX" for h i u b t s
    by (simp_all add: pfx_defs startsWith_def js_def)
  with assms(1) v obtain b' where k: "k = value_pfx (out_userId o1) b' @ sat_oid (out_satoshis o1) (out_outputId o1)"
    "out_basketId o1 = Some b'"
    by (auto simp: id_keys_def split: option.splits if_splits)
  obtain t where "k = value_pfx u b @ t" using assms(2) by (auto elim: startsWithE)
  with k assms show ?thesis using value_pfx_inj [of u b t "out_userId o1" b'] by (auto simp: output_ok_def)
qed

lemma first_kept_Some: "first_kept keep es = Some k \<Longrightarrow> \<exists>e \<in> set es. fst e = k \<and> keep k"
  by (induction es) (auto split: if_splits)

lemma stored_output_unique:
  "out_outputId o2 = out_outputId o1 \<Longrightarrow> stored_output m o2 \<Longrightarrow> stored_output m o1 \<Longrightarrow> o2 = o1"
  by (simp add: stored_output_def) (metis Pair_inject option.inject wval.inject(1))

lemma padNumber_Inr_iff: "padNumber v = Inr p \<longleftrightarrow> key_num v \<and> p = pad16 v"
  by (cases "key_num v") auto

text \<open>Ranges whose prefix lies under the value prefix of a user's basket.\<close>

definition under_value_pfx :: "int \<Rightarrow> int \<Rightarrow> value_range \<Rightarrow> bool" where
  "under_value_pfx u b rng \<longleftrightarrow> startsWith (rng_prefix rng) (value_pfx u b) \<and> key_num u \<and> key_num b"

lemma spendableValueRange_under:
  assumes "spendableValueRange u b mode t = Inr rng"
  shows "under_value_pfx u b rng" and "key_num t"
proof -
  have n: "key_num u" "key_num b" "key_num t"
    using assms by (auto simp: spendableValueRange_def range_of_prefixes_def bindE_Inr_iff padNumber_Inr_iff
        outputSpendableBasketValuePrefix_def outputSpendableBasketValueSatoshisPrefix_def
        split: reservation_mode.splits)
  then show "key_num t" by simp
  from assms n show "under_value_pfx u b rng"
    by (cases mode) (auto simp: spendableValueRange_def range_of_prefixes_def under_value_pfx_def)
qed

lemma seeded_ranges_under:
  assumes "spendableValueSeededBucketRanges u b s seed backwards = Inr rngs" "rng \<in> set rngs"
  shows "under_value_pfx u b rng" and "key_num s" and "rng_prefix rng = value_pfx u b @ pad16 s @ [ch_bang]"
proof -
  have n: "key_num u" "key_num b" "key_num s" "key_num seed"
    using assms(1) by (auto simp: spendableValueSeededBucketRanges_def bindE_Inr_iff padNumber_Inr_iff
        outputSpendableBasketValuePrefix_def outputSpendableBasketValueSatoshisPrefix_def)
  with assms show "under_value_pfx u b rng" "key_num s" "rng_prefix rng = value_pfx u b @ pad16 s @ [ch_bang]"
    by (auto simp: spendableValueSeededBucketRanges_def bucket_ranges_def under_value_pfx_def
        split: if_splits)
qed

lemma bucket_key_satoshis:
  assumes "in_range rng (value_pfx u b @ sat_oid s i)" "rng_prefix rng = value_pfx u b @ pad16 t @ [ch_bang]"
    "key_num s" "key_num t"
  shows "s = t"
proof -
  have "startsWith (pad16 s @ ch_bang # pad16 i) (pad16 t @ [ch_bang])"
    using assms(1,2) by (simp add: in_range_def sat_oid_def)
  then show ?thesis using assms(3,4) by (auto simp: startsWith_def take_Suc pad16_inj)
qed

context rocks_store
begin

lemma range_entry:
  assumes ok: "db_ok K ns db" and inv: "index_inv (vview K ns db)"
    and e: "e \<in> set (range_entries K ns rng db)" "range_keep ns rng (fst e)" and u: "under_value_pfx u b rng"
  shows "\<exists>q o1. fst e = ns @ q \<and> q = value_pfx u b @ sat_oid (out_satoshis o1) (out_outputId o1) \<and>
    in_range rng q \<and> stored_output (vview K ns db) o1 \<and> output_ok o1 \<and>
    st_value (snd e) = VIndex (out_outputId o1)"
proof -
  obtain k st where kst: "e = (k, st)" by force
  have k: "kv_get K db k = Some st" "if rng_reverse rng then ns @ rng_end rng < k \<and> k \<le> ns @ rng_start rng
      else ns @ rng_start rng \<le> k \<and> k < ns @ rng_end rng"
    using e(1) by (auto simp: range_entries_def kst storageKey_def range_forward range_backward
        split: if_splits) (cases "rng_reverse rng"; auto simp: range_forward range_backward)+
  obtain q where q: "k = ns @ q" "startsWith q (rng_prefix rng)"
    using e(2) by (auto simp: range_keep_def kst storageKey_def elim!: startsWithE)
  have r: "in_range rng q" using k(2) q by (auto simp: in_range_def split: if_splits)
  have p: "startsWith q (value_pfx u b)"
    using u q(2) by (auto simp: under_value_pfx_def elim!: startsWithE)
  then have "id_index_key q" by (auto simp: id_index_key_def elim!: startsWithE)
  moreover have "vview K ns db q = Some (st_value st, st_version st)"
    using k(1) q(1) by (simp add: vview_def storageKey_def)
  ultimately obtain i v o1 v' where *: "(st_value st, st_version st) = (VIndex i, v)" "key_num i"
    "vview K ns db (pk i) = Some (VOutput o1, v')" "q \<in> set (id_keys o1)"
    using index_inv_entry [OF inv, of q] by metis
  have o1: "out_outputId o1 = i" "output_ok o1" using index_inv_primary [OF inv *(2,3)] by auto
  have "q = value_pfx u b @ sat_oid (out_satoshis o1) (out_outputId o1)"
    using value_key_of [OF *(4) p o1(2)] u by (simp add: under_value_pfx_def)
  with * o1 q r kst show ?thesis by (auto simp: stored_output_def)
qed

lemma from_range_outcome:
  assumes "db_ok K ns db" "index_inv (vview K ns db)" "hash_ok H" "status_ok (ra_status a)"
    "entity_keys_ok entityKey"
    and u: "under_value_pfx u b rng"
  shows "outcome K ns now H a (\<lambda>o1. pred o1 \<and> in_range rng (value_pfx u b @ sat_oid (out_satoshis o1) (out_outputId o1)))
    db (reserveFirstSpendableOutputFromIndexRange K ns now H a pred entityKey rng limit db)"
  unfolding reserveFirstSpendableOutputFromIndexRange_def
proof (rule outcome_mono [OF reserve_loop_outcome [OF assms(1-5)]], safe)
  fix o1 k st
  assume acc: "acceptable (vview K ns db) a
      (\<lambda>o1. pred o1 \<and> (\<exists>e\<in>set (range_entries K ns rng db). range_keep ns rng (fst e) \<and>
         value_outputId (st_value (snd e)) = Inr (out_outputId o1))) o1"
  then obtain e where e: "e \<in> set (range_entries K ns rng db)" "range_keep ns rng (fst e)"
    "value_outputId (st_value (snd e)) = Inr (out_outputId o1)" and so: "stored_output (vview K ns db) o1"
    and "pred o1"
    by (auto simp: acceptable_def)
  then show "pred o1" by simp
  obtain q o2 where o2: "q = value_pfx u b @ sat_oid (out_satoshis o2) (out_outputId o2)" "in_range rng q"
    "stored_output (vview K ns db) o2" "st_value (snd e) = VIndex (out_outputId o2)"
    using range_entry [OF assms(1,2) e(1,2) u] by auto
  have "out_outputId o2 = out_outputId o1" using o2(4) e(3) by simp
  from this o2(3) so have "o2 = o1" by (rule stored_output_unique)
  with o2 show "in_range rng (value_pfx u b @ sat_oid (out_satoshis o1) (out_outputId o1))" by simp
qed

lemma reserve_ranges_outcome:
  assumes "\<And>rng. rng \<in> set rngs \<Longrightarrow> outcome K ns now H a P db
      (reserveFirstSpendableOutputFromIndexRange K ns now H a pred entityKey rng limit db)"
  shows "outcome K ns now H a P db (reserve_ranges K ns now H a pred entityKey limit rngs db)"
  using assms
proof (induction rngs)
  case (Cons rng rngs)
  show ?case
    unfolding reserve_ranges.simps
    by (rule outcome_bind) (use Cons in simp_all)
qed simp

lemma bucket_outcome:
  assumes pre: "db_ok K ns db" "index_inv (vview K ns db)" "hash_ok H" "ra_status a = None"
    "entity_keys_ok entityKey"
  shows "outcome K ns now H a (\<lambda>o1. pred o1 \<and> out_satoshis o1 = s) db
    (reserveSpendableValueBucketFromSeed K ns now H a s backwards seed pred entityKey limit db)"
proof (cases "spendableValueSeededBucketRanges (ra_userId a) (ra_basketId a) s seed backwards")
  case (Inl e)
  with pre(4) show ?thesis by (simp add: reserveSpendableValueBucketFromSeed_def)
next
  case (Inr rngs)
  have st: "status_ok (ra_status a)" using pre(4) by (simp add: status_ok_def)
  have "outcome K ns now H a (\<lambda>o1. pred o1 \<and> out_satoshis o1 = s) db
      (reserve_ranges K ns now H a pred entityKey limit rngs db)"
  proof (rule reserve_ranges_outcome)
    fix rng assume rng: "rng \<in> set rngs"
    note u = seeded_ranges_under [OF Inr rng]
    show "outcome K ns now H a (\<lambda>o1. pred o1 \<and> out_satoshis o1 = s) db
      (reserveFirstSpendableOutputFromIndexRange K ns now H a pred entityKey rng limit db)"
      by (rule outcome_mono [OF from_range_outcome [OF pre(1-3) st pre(5) u(1)]])
        (auto simp: acceptable_def output_ok_def dest!: bucket_key_satoshis [OF _ u(3) _ u(2)])
  qed
  with Inr pre(4) show ?thesis by (simp add: reserveSpendableValueBucketFromSeed_def)
qed

lemma first_satoshis_selected:
  assumes "db_ok K ns db" "index_inv (vview K ns db)"
    and rng: "spendableValueRange u b mode t = Inr rng"
    and s: "firstSpendableValueSatoshisInRange K ns rng db = Some s"
  shows "mode_selects mode t s"
proof -
  note u = spendableValueRange_under [OF rng]
  obtain k where k: "first_kept (range_keep ns rng) (range_entries K ns rng db) = Some k"
    "satoshisFromSpendableValueKey (drop (length ns) k) = Some s"
    using s by (auto simp: firstSpendableValueSatoshisInRange_def split: option.splits)
  obtain e where e: "e \<in> set (range_entries K ns rng db)" "range_keep ns rng (fst e)" "fst e = k"
    using first_kept_Some [OF k(1)] by auto
  obtain o1 where o1: "k = ns @ value_pfx u b @ sat_oid (out_satoshis o1) (out_outputId o1)"
    "in_range rng (value_pfx u b @ sat_oid (out_satoshis o1) (out_outputId o1))" "output_ok o1"
    using range_entry [OF assms(1,2) e(1,2) u(1)] e(3) by auto
  have "s = out_satoshis o1"
    using k(2) o1 by (simp add: satoshisFromSpendableValueKey_def split_value_pfx split_sat_oid output_ok_def)
  moreover have "mode_selects mode t (out_satoshis o1)"
    using range_of_prefixes_selects [of "value_pfx u b" t mode rng "out_satoshis o1" "out_outputId o1"]
      rng u o1 by (simp add: spendableValueRange_def under_value_pfx_def output_ok_def)
  ultimately show ?thesis by simp
qed

lemma byValue_outcome:
  assumes pre: "db_ok K ns db" "index_inv (vview K ns db)" "hash_ok H" "entity_keys_ok entityKey"
  shows "outcome K ns now H
      \<lparr>ra_userId = u, ra_basketId = b, ra_transactionId = t, ra_status = None\<rparr>
      (\<lambda>o1. pred o1 \<and> mode_selects mode sats (out_satoshis o1)) db
      (reserveSpendableOutputByValue K ns now H u b mode sats pred t entityKey limit db)"
proof (cases "spendableValueRange u b mode sats")
  case (Inl e)
  then show ?thesis by (simp add: reserveSpendableOutputByValue_def)
next
  case (Inr rng)
  let ?a = "\<lparr>ra_userId = u, ra_basketId = b, ra_transactionId = t, ra_status = None\<rparr>"
  let ?P = "\<lambda>o1. pred o1 \<and> mode_selects mode sats (out_satoshis o1)"
  note u = spendableValueRange_under [OF Inr]
  have st: "status_ok (ra_status ?a)" by (simp add: status_ok_def)
  have whole: "outcome K ns now H ?a ?P db
      (reserveFirstSpendableOutputFromIndexRange K ns now H ?a pred entityKey rng limit db)"
    by (rule outcome_mono [OF from_range_outcome [OF pre(1-3) st pre(4) u(1)]])
      (use range_of_prefixes_selects [of "value_pfx u b" sats mode rng] Inr u in
        \<open>auto simp: acceptable_def spendableValueRange_def under_value_pfx_def output_ok_def\<close>)
  define seeded where "seeded = (if mode = Exact then Some sats else firstSpendableValueSatoshisInRange K ns rng db)"
  have sel: "mode_selects mode sats s" if "seeded = Some s" for s
    using that first_satoshis_selected [OF pre(1,2) Inr] by (cases mode) (auto simp: seeded_def)
  have bucket: "outcome K ns now H ?a ?P db (bindS (spendableValueBucketSeed K ns u b s t) (\<lambda>seed.
      reserveSpendableValueBucketFromSeed K ns now H ?a s (mode = Under) seed pred entityKey limit) db)"
    if "seeded = Some s" for s
  proof (cases "outputSpendableBasketValueSatoshisPrefix u b s")
    case (Inl e)
    then show ?thesis by (simp add: spendableValueBucketSeed_def)
  next
    case (Inr p)
    then show ?thesis
      using outcome_mono [OF bucket_outcome [where a = ?a and s = s and pred = pred and entityKey = entityKey,
          OF pre(1-3) _ pre(4)]] sel [OF that]
      by (auto simp: spendableValueBucketSeed_def bindS_def acceptable_def)
  qed
  have "outcome K ns now H ?a ?P db (bindS (case seeded of None \<Rightarrow> retS None
      | Some s \<Rightarrow> bindS (spendableValueBucketSeed K ns u b s t) (\<lambda>seed.
          reserveSpendableValueBucketFromSeed K ns now H ?a s (mode = Under) seed pred entityKey limit))
      (\<lambda>seeded. if seeded \<noteq> None then retS seeded
        else reserveFirstSpendableOutputFromIndexRange K ns now H ?a pred entityKey rng limit) db)"
    by (rule outcome_bind) (use whole bucket in \<open>auto split: option.split\<close>)
  then show ?thesis
    using Inr by (simp add: reserveSpendableOutputByValue_def reserve_by_range_def bindS_def seeded_def)
qed

end

section \<open>Runs of attempts\<close>

text \<open>The attempts of any number of callers in the order their native transactions run. The record
  an attempt carries was read at some earlier time.\<close>

record attempt =
  at_now :: int
  at_args :: reserve_args
  at_record :: wallet_record
  at_entity :: jstr

definition run_attempt ::
  "'db kv \<Rightarrow> jstr \<Rightarrow> (nat list \<Rightarrow> jstr) \<Rightarrow> attempt \<Rightarrow> ('db, rocks_error, table_output option) sem" where
  "run_attempt K ns H t = tryReserveSpendableOutput K ns (at_now t) H (at_args t) (at_record t) (at_entity t)"

fun run_attempts ::
  "'db kv \<Rightarrow> jstr \<Rightarrow> (nat list \<Rightarrow> jstr) \<Rightarrow> attempt list \<Rightarrow> 'db \<Rightarrow> (rocks_error + table_output option) list \<times> 'db" where
  "run_attempts K ns H [] db = ([], db)"
| "run_attempts K ns H (t # ts) db =
     (let (x, db1) = run_attempt K ns H t db; (xs, db2) = run_attempts K ns H ts db1 in (x # xs, db2))"

definition reserved_of :: "rocks_error + table_output option \<Rightarrow> table_output option" where
  "reserved_of x = (case x of Inr (Some o1) \<Rightarrow> Some o1 | _ \<Rightarrow> None)"

lemma reserved_of_simps [simp]:
  "reserved_of (Inl e) = None" "reserved_of (Inr None) = None" "reserved_of (Inr (Some o1)) = Some o1"
  by (simp_all add: reserved_of_def)

definition attempt_ok :: "attempt \<Rightarrow> bool" where
  "attempt_ok t \<longleftrightarrow> status_ok (ra_status (at_args t)) \<and>
     (\<exists>ek. normalizeKey (at_entity t) = Inr ek \<and> entity_key_ok ek)"

text \<open>The outputs that are stored as spent.\<close>

definition stored_spent :: "vmap \<Rightarrow> table_output \<Rightarrow> bool" where
  "stored_spent m o1 \<longleftrightarrow> key_num (out_outputId o1) \<and> (\<exists>v. m (pk (out_outputId o1)) = Some (VOutput o1, v)) \<and>
     \<not> out_spendable o1"

lemma reserves_pk:
  assumes "reserves m a current next ek m'" "index_inv m" "key_num i" "entity_key_ok ek"
    and "out_outputId current = i" "output_ok next" "out_outputId next = i"
  shows "map_option fst (m' (pk i)) = Some (VOutput next)"
    and "key_num j \<Longrightarrow> j \<noteq> i \<Longrightarrow> m' (pk j) = m (pk j)" and "index_inv m'"
proof -
  have r: "replaced m (ra_status a) i (Some next) (m'(ek := m ek))"
    using assms by (simp add: reserves_def)
  have ek: "pk j \<noteq> ek" for j using entity_not_output(2) [OF assms(4)] by metis
  show "map_option fst (m' (pk i)) = Some (VOutput next)"
    using r ek [of i] by (simp add: replaced_def Let_def)
  show "m' (pk j) = m (pk j)" if "key_num j" "j \<noteq> i"
    using replaced_other_pk [OF r assms(2,3) that] ek [of j] by simp
  have "index_inv (m'(ek := m ek))"
    by (rule index_inv_replaced [OF r assms(2,3)]) (use assms in auto)
  then show "index_inv m'" using index_inv_entity_iff [OF assms(4)] by simp
qed

lemma run_attempt_step:
  assumes K: "rocks_db K" and ok: "db_ok K ns db" and inv: "index_inv (vview K ns db)" and H: "hash_ok H"
    and t: "attempt_ok t" and run: "run_attempt K ns H t db = (x, db')"
  shows "db_ok K ns db' \<and> index_inv (vview K ns db') \<and>
    (\<forall>o1. reserved_of x = Some o1 \<longrightarrow> stored_spent (vview K ns db') o1 \<and>
       out_spentBy o1 = Some (ra_transactionId (at_args t))) \<and>
    (\<forall>o2. stored_spent (vview K ns db) o2 \<longrightarrow> stored_spent (vview K ns db') o2 \<and>
      (\<forall>o1. reserved_of x = Some o1 \<longrightarrow> out_outputId o1 \<noteq> out_outputId o2))"
proof -
  obtain ek where ek: "normalizeKey (at_entity t) = Inr ek" "entity_key_ok ek"
    and st: "status_ok (ra_status (at_args t))"
    using t by (auto simp: attempt_ok_def)
  show ?thesis
  proof (rule rocks_store.try_reserve_acts [OF rocks_store.intro [OF K] ok inv H ek st run [unfolded run_attempt_def]], goal_cases)
    case (1 current)
    let ?next = "reserved_output H (at_now t) (ra_transactionId (at_args t)) current"
    define i where "i = out_outputId current"
    have i: "key_num i" "out_outputId ?next = i" "output_ok ?next"
      using 1 H by (simp_all add: i_def reserved_output_ok)
    obtain v where cur: "vview K ns db (pk i) = Some (VOutput current, v)" "out_spendable current"
      using 1(2) by (auto simp: reservable_def i_def)
    note r = reserves_pk [OF 1(5) inv i(1) ek(2) _ i(3,2)]
    have here: "map_option fst (vview K ns db' (pk i)) = Some (VOutput ?next)" using r(1) by (simp add: i_def)
    have other: "key_num j \<Longrightarrow> j \<noteq> i \<Longrightarrow> vview K ns db' (pk j) = vview K ns db (pk j)" for j
      using r(2) by (simp add: i_def)
    have new: "stored_spent (vview K ns db') ?next"
      using here i by (auto simp: stored_spent_def i_def)
    have keep: "\<forall>o2. stored_spent (vview K ns db) o2 \<longrightarrow> stored_spent (vview K ns db') o2 \<and> i \<noteq> out_outputId o2"
    proof (intro allI impI)
      fix o2 assume s: "stored_spent (vview K ns db) o2"
      then have "out_outputId o2 \<noteq> i" using cur by (auto simp: stored_spent_def)
      with s other show "stored_spent (vview K ns db') o2 \<and> i \<noteq> out_outputId o2"
        by (auto simp: stored_spent_def)
    qed
    have "index_inv (vview K ns db')" by (rule r(3)) (simp add: i_def)
    with 1(1,6) new keep i(2) show ?case by simp
  next
    case 2
    then show ?case using ok inv by (auto simp: reserved_of_def)
  qed
qed

lemma run_attempts_spec:
  assumes K: "rocks_db K" and H: "hash_ok H"
  shows "db_ok K ns db \<Longrightarrow> index_inv (vview K ns db) \<Longrightarrow> (\<forall>t \<in> set ts. attempt_ok t) \<Longrightarrow>
    run_attempts K ns H ts db = (xs, db') \<Longrightarrow>
    db_ok K ns db' \<and> index_inv (vview K ns db') \<and>
    (\<forall>o2. stored_spent (vview K ns db) o2 \<longrightarrow> stored_spent (vview K ns db') o2 \<and>
       out_outputId o2 \<notin> out_outputId ` set (List.map_filter reserved_of xs)) \<and>
    (\<forall>o1 \<in> set (List.map_filter reserved_of xs). stored_spent (vview K ns db') o1) \<and>
    distinct (map out_outputId (List.map_filter reserved_of xs))"
proof (induction ts arbitrary: db xs)
  case Nil
  then show ?case by (simp add: List.map_filter_simps)
next
  case (Cons t ts)
  obtain x db1 where 1: "run_attempt K ns H t db = (x, db1)" by force
  obtain ys db2 where 2: "run_attempts K ns H ts db1 = (ys, db2)" by force
  have xs: "xs = x # ys" "db' = db2" using Cons.prems(4) 1 2 by simp_all
  have t: "attempt_ok t" using Cons.prems by simp
  note s = run_attempt_step [OF K Cons.prems(1,2) H t 1]
  have "\<forall>t \<in> set ts. attempt_ok t" using Cons.prems by simp
  note IH = Cons.IH [OF conjunct1 [OF s] conjunct1 [OF conjunct2 [OF s]] this 2 [folded xs(2)]]
  show ?case
  proof (cases "reserved_of x")
    case None
    with s IH xs show ?thesis by (simp add: List.map_filter_simps)
  next
    case (Some o1)
    then have o1: "stored_spent (vview K ns db1) o1" using s by blast
    then have "out_outputId o1 \<notin> out_outputId ` set (List.map_filter reserved_of ys)"
      "stored_spent (vview K ns db') o1" using IH by blast+
    moreover have "stored_spent (vview K ns db') o2 \<and>
        out_outputId o2 \<notin> out_outputId ` set (o1 # List.map_filter reserved_of ys)"
      if o2: "stored_spent (vview K ns db) o2" for o2
    proof -
      have "stored_spent (vview K ns db1) o2" "out_outputId o1 \<noteq> out_outputId o2"
        using o2 s Some by blast+
      moreover from this(1) have "stored_spent (vview K ns db') o2"
        "out_outputId o2 \<notin> out_outputId ` set (List.map_filter reserved_of ys)"
        using IH by blast+
      ultimately show ?thesis by simp
    qed
    ultimately show ?thesis using IH Some xs(1)
      by (simp add: List.map_filter_simps)
  qed
qed

text \<open>An attempt on an output that is still spendable, whose record did not change since it was read
  and whose entity record agrees, succeeds.\<close>

lemma try_reserve_succeeds:
  assumes K: "rocks_db K" and ok: "db_ok K ns db" and inv: "index_inv (vview K ns db)" and H: "hash_ok H"
    and ek: "normalizeKey entityKey = Inr ek" "entity_key_ok ek" and st: "status_ok (ra_status a)"
    and r: "reservable (vview K ns db) a r current" "key_num (out_outputId current)"
    and e: "vview K ns db ek = Some (VOutput entity, w)" "out_outputId entity = out_outputId current"
      "out_spendable entity"
  shows "\<exists>db'. tryReserveSpendableOutput K ns now H a r entityKey db =
      (Inr (Some (reserved_output H now (ra_transactionId a) current)), db') \<and> db_ok K ns db' \<and>
    reserves (vview K ns db) a current (reserved_output H now (ra_transactionId a) current) ek (vview K ns db')"
proof -
  have c: "value_outputId (rec_value r) = Inr (out_outputId current)" "out_userId current = ra_userId a"
    "out_basketId current = Some (ra_basketId a)" "out_spendable current"
    and m: "vview K ns db (pk (out_outputId current)) = Some (VOutput current, rec_version r)"
    using r(1) by (auto simp: reservable_def)
  obtain p where p: "kv_get K db (storageKey ns (pk (out_outputId current))) = Some p"
    "st_value p = VOutput current" "st_version p = rec_version r"
    using m by (auto simp: vview_def)
  obtain s where s: "kv_get K db (storageKey ns ek) = Some s" "st_value s = VOutput entity"
    using e(1) by (auto simp: vview_def)
  from rocks_store.reserve_writes [OF rocks_store.intro [OF K] ok inv H ek(2) st m r(2) refl,
      of now "st_version s"]
  obtain db' where db': "db_ok K ns db'"
    "reserves (vview K ns db) a current (reserved_output H now (ra_transactionId a) current) ek (vview K ns db')"
    "reserve_body K ns now H a r (pk (out_outputId current)) entityKey db =
      (Inr (Some (reserved_output H now (ra_transactionId a) current)), db')"
    using p s c e ek(1)
    by (auto simp: reserve_body_def kv_read_def Let_def bindS_def [of "\<lambda>db. (Inr (kv_get K db k), db)" for k])
  then show ?thesis
    using c(1) r(2) by (auto simp: tryReserveSpendableOutput_def runNativeTransaction_def)
qed

end
