(* ===== verification/RocksProps.thy ===== *)
theory RocksProps
  imports RocksReserveRun
begin

text \<open>
  The properties of the RocksDB wallet store: keys and ranges, the refinement of the versioned map,
  index maintenance and lookup, and exclusive reservation. They hold for every native database with
  the laws of \<open>rocks_db\<close>; the witnesses run on the in-memory database.
\<close>

section \<open>A concrete store\<close>

definition sample_output :: "int \<Rightarrow> int \<Rightarrow> table_output" where
  "sample_output i sats = \<lparr>out_created_at = 0, out_updated_at = 0, out_outputId = i, out_userId = 1,
     out_transactionId = Some 7, out_basketId = Some 1, out_spendable = True, out_change = True,
     out_outputDescription = [], out_vout = Some 0, out_satoshis = sats, out_providedBy = [],
     out_purpose = [], out_type = [], out_txid = None, out_senderIdentityKey = None,
     out_derivationPrefix = None, out_derivationSuffix = None, out_customInstructions = None,
     out_spentBy = None, out_sequenceNumber = None, out_spendingDescription = None,
     out_scriptLength = None, out_scriptOffset = None, out_lockingScript = None,
     out_scriptHash = None, out_cacheUpdatedAt = None\<rparr>"

definition sample_hash :: "nat list \<Rightarrow> jstr" where
  "sample_hash s = js ''ab''"

definition sample_ns :: jstr where
  "sample_ns = js ''w!''"

lemma sample_part: "part_ok (js ''ab'')" "js ''ab'' \<noteq> []"
  by (simp_all add: part_ok_def normalizeIndexPart_def js_def js_trim_def js_space_def ch_bang_def
      ch_nul_def ch_max_def)

lemma sample_hash_ok: "hash_ok sample_hash"
  by (simp add: hash_ok_def sample_hash_def sample_part)

lemma sample_status_ok: "status_ok (Some (js ''ab''))"
  by (simp add: status_ok_def sample_part)

lemma sample_key_nums: "key_num 0" "key_num 1" "key_num 5" "key_num 6" "key_num 7" "key_num 40" "key_num 1000"
  by (simp_all add: key_num_def max_safe_integer_def)

lemma sample_output_ok: "key_num i \<Longrightarrow> 0 < i \<Longrightarrow> key_num sats \<Longrightarrow> output_ok (sample_output i sats)"
  by (simp add: output_ok_def sample_output_def key_num_def max_safe_integer_def)

lemma sample_apply [simp]: "applyOutputScriptMetadata H (sample_output i s) = sample_output i s"
  by (simp add: applyOutputScriptMetadata_def sample_output_def)

lemma sample_output_id [simp]: "out_outputId (sample_output i s) = i"
  by (simp add: sample_output_def)

lemma empty_ok: "db_ok mem_kv sample_ns []" "index_inv (vview mem_kv sample_ns [])"
  by (simp_all add: db_ok_def sample_ns_def js_def ch_max_def mem_kv_def index_inv_def vview_def)

definition sample_db :: mem_db where
  "sample_db = snd (putOutput mem_kv sample_ns 0 sample_hash (sample_output 5 1000) None [])"

lemma sample_db_replaced:
  "db_ok mem_kv sample_ns sample_db \<and>
   replaced (vview mem_kv sample_ns []) None 5 (Some (sample_output 5 1000)) (vview mem_kv sample_ns sample_db)"
proof -
  have "output_ok (sample_output 5 1000)" by (rule sample_output_ok) (simp_all add: sample_key_nums)
  with mem_store.putOutput_replaces [OF empty_ok, of sample_hash "sample_output 5 1000" None 0]
  show ?thesis by (auto simp: status_ok_def sample_db_def)
qed

lemma sample_db_ok: "db_ok mem_kv sample_ns sample_db \<and> index_inv (vview mem_kv sample_ns sample_db)"
proof -
  have "output_ok (sample_output 5 1000)" by (rule sample_output_ok) (simp_all add: sample_key_nums)
  with index_inv_replaced [OF conjunct2 [OF sample_db_replaced] empty_ok(2)] sample_db_replaced
  show ?thesis by (simp add: sample_key_nums)
qed

lemma sample_db_at:
  "map_option fst (vview mem_kv sample_ns sample_db (pk 5)) = Some (VOutput (sample_output 5 1000))"
  using sample_db_replaced by (simp add: replaced_def Let_def)

lemma batch_length:
  "batch mem_kv ns now ws db = (r, db') \<Longrightarrow> length db' \<le> length db + length ws"
  unfolding batch_def
proof (induction ws arbitrary: db r)
  case (Cons w ws)
  obtain x db1 where 1: "batch_write mem_kv ns now w db = (x, db1)" by force
  have l: "length db1 \<le> Suc (length db)"
    using 1 by (auto simp: batch_write_def mem_kv_def sem_defs bindS_def Let_def liftS_def retS_def throwS_def
        le_SucI split: store_write.splits sum.splits if_splits prod.splits)
  with Cons 1 show ?case
    by (cases x) (fastforce simp: bindS_def split: sum.splits prod.splits)+
qed simp

lemma sample_db_length: "length sample_db \<le> 10"
proof -
  have p: "normalizeKey (pk 5) = Inr (pk 5)" by (simp add: good_key_normal)
  have n: "key_num 5" "key_num 1" "key_num 7" "key_num 1000" "key_num 0"
    by (simp_all add: key_num_def max_safe_integer_def)
  have "\<exists>ws. length ws \<le> 10 \<and> sample_db = snd (batch mem_kv sample_ns 0 ws [])"
    using n by (simp add: sample_db_def putOutput_def get_output_def rocks_get_def p kv_read_def mem_kv_def
       indexPutsForOutput_def indexKeysForOutput_def sample_output_def optE_def
       statusIndexKeysForOutput_def applyOutputScriptMetadata_def bindS_def)
      (rule exI, rule conjI [rotated], rule refl, simp)
  then show ?thesis using batch_length by (metis add_0 list.size(3) order_trans prod.collapse)
qed

lemma sample_within: "within_limit mem_kv sample_ns p 10 sample_db"
proof -
  have "length (mem_entries db P) \<le> length db" for db P
    using length_filter_le [of P "sort (remdups (map fst db))"] length_remdups_leq [of "map fst db"]
    by (simp add: mem_entries_def)
  with sample_db_length show ?thesis
    by (auto simp: within_limit_def mem_kv_def normalizedLimit_def intro: order_trans)
qed

section \<open>Lookups by index are exact\<close>

definition spendable_pfx :: "int \<Rightarrow> int option \<Rightarrow> jstr" where
  "spendable_pfx u b = (case b of None \<Rightarrow> all_pfx u | Some x \<Rightarrow> basket_pfx u x)"

definition hash_pfx :: "jstr \<Rightarrow> jstr" where
  "hash_pfx h = OUTPUT_SCRIPT_HASH_PREFIX @ h @ [ch_bang]"

text \<open>Prefixes that start and end with a visible character are left alone by normalisation.\<close>

lemma prefix_normal:
  assumes "k = 111 # p @ [ch_bang]" and "ch_nul \<notin> set p"
  shows "normalizeKey k = Inr k"
proof (rule good_key_normal)
  have "js_trim k = k" by (rule js_trim_not_space) (simp add: assms(1) js_space_def ch_bang_def)
  then show "good_key k" using assms by (auto simp: good_key_def ch_nul_def ch_bang_def)
qed

lemma lookup_prefixes:
  "normalizeKey (all_pfx u) = Inr (all_pfx u)" "normalizeKey (basket_pfx u b) = Inr (basket_pfx u b)"
  "normalizeKey (tx_pfx t) = Inr (tx_pfx t)"
  "ord_key (all_pfx u)" "ord_key (basket_pfx u b)" "ord_key (tx_pfx t)"
  "startsWith k (all_pfx u) \<Longrightarrow> id_index_key k" "startsWith k (basket_pfx u b) \<Longrightarrow> id_index_key k"
  "startsWith k (tx_pfx t) \<Longrightarrow> id_index_key k"
proof -
  show "normalizeKey (all_pfx u) = Inr (all_pfx u)"
    by (rule prefix_normal [of _ "tl OUTPUT_SPENDABLE_PREFIX @ pad16 u @ [ch_bang] @ js ''all''"])
      (simp_all add: pfx_defs js_def ch_nul_def ch_bang_def)
  show "normalizeKey (basket_pfx u b) = Inr (basket_pfx u b)"
    by (rule prefix_normal [of _ "tl OUTPUT_SPENDABLE_PREFIX @ pad16 u @ [ch_bang] @ js ''basket!'' @ pad16 b"])
      (simp_all add: pfx_defs js_def ch_nul_def ch_bang_def)
  show "normalizeKey (tx_pfx t) = Inr (tx_pfx t)"
    by (rule prefix_normal [of _ "tl OUTPUT_TRANSACTION_PREFIX @ pad16 t"])
      (simp_all add: pfx_defs js_def ch_nul_def)
  show "ord_key (all_pfx u)" "ord_key (basket_pfx u b)" "ord_key (tx_pfx t)"
    by (simp_all add: pfx_defs js_def ch_max_def ch_bang_def)
  show "startsWith k (all_pfx u) \<Longrightarrow> id_index_key k" "startsWith k (basket_pfx u b) \<Longrightarrow> id_index_key k"
    "startsWith k (tx_pfx t) \<Longrightarrow> id_index_key k"
    by (auto simp: id_index_key_def all_pfx_def basket_pfx_def tx_pfx_def elim!: startsWithE)
qed

lemma hash_prefix:
  assumes "part_ok h"
  shows "normalizeKey (hash_pfx h) = Inr (hash_pfx h)" "ord_key (hash_pfx h)"
    "startsWith k (hash_pfx h) \<Longrightarrow> id_index_key k"
proof -
  have h: "normalizeIndexPart h = Inr h" "ord_key h" using assms by (auto simp: part_ok_def)
  show "normalizeKey (hash_pfx h) = Inr (hash_pfx h)"
    by (rule prefix_normal [of _ "tl OUTPUT_SCRIPT_HASH_PREFIX @ h"])
      (use normal_part_no_nul [OF h(1)] in \<open>auto simp: hash_pfx_def pfx_defs js_def ch_nul_def\<close>)
  show "ord_key (hash_pfx h)"
    using h(2) by (simp add: hash_pfx_def pfx_defs js_def ch_max_def ch_bang_def)
  show "startsWith k (hash_pfx h) \<Longrightarrow> id_index_key k"
    by (auto simp: id_index_key_def hash_pfx_def elim!: startsWithE)
qed

text \<open>A lookup filtered by \<open>Q\<close>, where every output with \<open>Q\<close> owns an entry under the prefix.\<close>

definition exact_outputs :: "vmap \<Rightarrow> (table_output \<Rightarrow> bool) \<Rightarrow> table_output list \<Rightarrow> bool" where
  "exact_outputs m Q os \<longleftrightarrow> distinct os \<and> (\<forall>o1. o1 \<in> set os \<longleftrightarrow> stored_output m o1 \<and> Q o1)"

lemma lookup_exact:
  assumes K: "rocks_db K" and ok: "db_ok K ns db" and inv: "index_inv (vview K ns db)"
    and p: "normalizeKey p = Inr p" "ord_key p" "\<And>k. startsWith k p \<Longrightarrow> id_index_key k"
    and Q: "\<And>o1. Q o1 \<Longrightarrow> output_ok o1 \<Longrightarrow> \<exists>k \<in> set (id_keys o1). startsWith k p"
    and lim: "within_limit K ns p l db"
  shows "\<exists>os. bindS (scan K ns p (Some l)) (\<lambda>rs. bindS (resolveOutputIndex K ns rs)
      (\<lambda>os. retS (filter Q os))) db = (Inr os, db) \<and> exact_outputs (vview K ns db) Q os"
proof -
  note S = rocks_store.intro [OF K]
  obtain rs where rs: "scan K ns p (Some l) db = (Inr rs, db)"
    "resolveOutputIndex K ns rs db = (Inr (found_under K ns p l db), db)"
    using rocks_store.lookup_spec [OF S ok inv p] by blast
  have "exact_outputs (vview K ns db) Q (filter Q (found_under K ns p l db))"
    unfolding exact_outputs_def
  proof (intro conjI allI)
    show "distinct (filter Q (found_under K ns p l db))"
      using rocks_store.distinct_found [OF S ok inv p(2,3)] by simp
    fix o1
    show "o1 \<in> set (filter Q (found_under K ns p l db)) \<longleftrightarrow> stored_output (vview K ns db) o1 \<and> Q o1"
    proof
      assume "o1 \<in> set (filter Q (found_under K ns p l db))"
      then have f: "o1 \<in> set (found_under K ns p l db)" and q: "Q o1" by simp_all
      from rocks_store.found_sound(1) [OF S ok inv p(2,3) f] q
      show "stored_output (vview K ns db) o1 \<and> Q o1" by blast
    next
      assume o1: "stored_output (vview K ns db) o1 \<and> Q o1"
      then have "output_ok o1" by (auto simp: stored_output_def elim: index_inv_primary [OF inv])
      with o1 Q obtain k where k: "k \<in> set (id_keys o1)" "startsWith k p" by blast
      have "o1 \<in> set (found_under K ns p l db)"
        using rocks_store.found_sound(2) [OF S ok inv p(2,3) lim conjunct1 [OF o1] k] .
      with o1 show "o1 \<in> set (filter Q (found_under K ns p l db))" by simp
    qed
  qed
  with rs show ?thesis by simp
qed

section \<open>Keys\<close>

text \<open>the amount range of a reservation selects exactly the index entries of the user's basket
  whose amount is equal to, at least, or below the requested amount, for every output id.\<close>

theorem spendableValueRange_selects:
  assumes "key_num u" "key_num b" "key_num t" "key_num s" "key_num i"
    and "spendableValueRange u b mode t = Inr r" and "outputSpendableBasketValueKey u b s i = Inr k"
  shows "in_range r k \<longleftrightarrow> mode_selects mode t s"
  using assms range_of_prefixes_selects [of "value_pfx u b" t mode r s i]
  by (simp add: spendableValueRange_def)

theorem spendableValueRange_selects_witness:
  "\<exists>r k. spendableValueRange 1 2 Under 100 = Inr r \<and> outputSpendableBasketValueKey 1 2 99 7 = Inr k \<and>
     in_range r k"
proof -
  have n: "key_num 1" "key_num 2" "key_num 100" "key_num 99" "key_num 7"
    by (simp_all add: key_num_def max_safe_integer_def)
  obtain r where r: "spendableValueRange 1 2 Under 100 = Inr r"
    using n by (simp add: spendableValueRange_def range_of_prefixes_def)
  obtain k where k: "outputSpendableBasketValueKey 1 2 99 7 = Inr k" using n by simp
  show ?thesis using spendableValueRange_selects [OF n r k] r k by simp
qed

text \<open>the two seeded ranges of a bucket split its output ids into those from the seed on and the
  rest, in either direction, so together they visit every entry of the bucket exactly once.\<close>

theorem seeded_bucket_partition:
  assumes "key_num u" "key_num b" "key_num s" "key_num seed" "key_num i"
    and "outputSpendableBasketValueKey u b s i = Inr k"
  shows "\<exists>r1 r2. spendableValueSeededBucketRanges u b s seed backwards = Inr [r1, r2] \<and>
    (in_range r1 k \<longleftrightarrow> \<not> in_range r2 k) \<and>
    (in_range r1 k \<longleftrightarrow> (if backwards then i \<le> seed else seed \<le> i))"
proof -
  obtain r1 r2 where r: "bucket_ranges (value_pfx u b @ pad16 s @ [ch_bang])
      ((value_pfx u b @ pad16 s @ [ch_bang]) @ pad16 seed) backwards = [r1, r2]"
    by (cases backwards) (auto simp: bucket_ranges_def)
  have k: "k = (value_pfx u b @ pad16 s @ [ch_bang]) @ pad16 i"
    using assms by (simp add: sat_oid_def)
  show ?thesis
    using assms r bucket_ranges_partition [OF assms(4,5) r]
    by (auto simp: spendableValueSeededBucketRanges_def k)
qed

theorem seeded_bucket_partition_witness:
  "\<exists>r1 r2 k. outputSpendableBasketValueKey 1 2 500 3 = Inr k \<and>
     spendableValueSeededBucketRanges 1 2 500 9 False = Inr [r1, r2] \<and> \<not> in_range r1 k \<and> in_range r2 k"
proof -
  have n: "key_num 1" "key_num 2" "key_num 500" "key_num 9" "key_num 3"
    by (simp_all add: key_num_def max_safe_integer_def)
  obtain k where k: "outputSpendableBasketValueKey 1 2 500 3 = Inr k" using n by simp
  show ?thesis using seeded_bucket_partition [OF n k, of False] k by auto
qed

text \<open>the amount and the output id are read back from every value index key, with or without a
  transaction status in it.\<close>

theorem value_key_roundtrip:
  assumes "key_num u" "key_num b" "key_num s" "key_num i" and "normalizeIndexPart st = Inr p"
    and "outputSpendableBasketValueKey u b s i = Inr k1"
    and "outputSpendableBasketStatusValueKey u b st s i = Inr k2"
  shows "satoshisFromSpendableValueKey k1 = Some s \<and> outputIdFromSpendableValueKey k1 = Some i \<and>
    satoshisFromSpendableValueKey k2 = Some s \<and> outputIdFromSpendableValueKey k2 = Some i"
proof -
  have "ch_bang \<notin> set p" using normalizeIndexPart_no_bang [OF assms(5)] by simp
  moreover have "k1 = value_pfx u b @ sat_oid s i" "k2 = status_pfx u b p @ sat_oid s i"
    using assms by simp_all
  ultimately show ?thesis
    using assms(3,4)
    by (simp add: satoshisFromSpendableValueKey_def outputIdFromSpendableValueKey_def split_value_pfx
        split_status_pfx split_sat_oid)
qed

theorem value_key_roundtrip_witness:
  "\<exists>k1 k2. outputSpendableBasketValueKey 1 2 500 3 = Inr k1 \<and>
     outputSpendableBasketStatusValueKey 1 2 (js ''unproven'') 500 3 = Inr k2 \<and>
     satoshisFromSpendableValueKey k1 = Some 500 \<and> outputIdFromSpendableValueKey k2 = Some 3"
proof -
  have n: "key_num 1" "key_num 2" "key_num 500" "key_num 3"
    by (simp_all add: key_num_def max_safe_integer_def)
  have p: "normalizeIndexPart (js ''unproven'') = Inr (js ''unproven'')"
    by (simp add: normalizeIndexPart_def js_def js_trim_def js_space_def ch_bang_def ch_nul_def)
  obtain k1 where k1: "outputSpendableBasketValueKey 1 2 500 3 = Inr k1" using n by simp
  obtain k2 where k2: "outputSpendableBasketStatusValueKey 1 2 (js ''unproven'') 500 3 = Inr k2"
    using n p by simp
  show ?thesis using value_key_roundtrip [OF n p k1 k2] k1 k2 by auto
qed

section \<open>Lookups\<close>

text \<open>C26: a lookup of spendable outputs, of a user or of one basket, returns exactly the stored outputs
  of that user (and basket) that are spendable, each once, when the limit is not reached.\<close>

theorem findSpendableOutputs_exact:
  assumes "rocks_db K" "db_ok K ns db" "index_inv (vview K ns db)" and u: "key_num u"
    and b: "case b of None \<Rightarrow> True | Some x \<Rightarrow> key_num x"
    and "within_limit K ns (spendable_pfx u b) l db"
  shows "\<exists>os. findSpendableOutputs K ns u b l db = (Inr os, db) \<and> distinct os \<and>
    (\<forall>o1. o1 \<in> set os \<longleftrightarrow> stored_output (vview K ns db) o1 \<and> out_userId o1 = u \<and> out_spendable o1 \<and>
       (b = None \<or> out_basketId o1 = b))"
proof -
  let ?Q = "\<lambda>o1. out_userId o1 = u \<and> out_spendable o1 \<and> (b = None \<or> out_basketId o1 = b)"
  have "spendable_prefix u b = Inr (spendable_pfx u b)"
    using u b by (simp add: spendable_prefix_def spendable_pfx_def split: option.splits)
  moreover have p: "normalizeKey (spendable_pfx u b) = Inr (spendable_pfx u b)" "ord_key (spendable_pfx u b)"
    "\<And>k. startsWith k (spendable_pfx u b) \<Longrightarrow> id_index_key k"
    by (cases b; simp add: spendable_pfx_def lookup_prefixes)+
  moreover have "\<exists>k \<in> set (id_keys o1). startsWith k (spendable_pfx u b)" if "?Q o1" for o1
    using that by (cases b) (auto simp: id_keys_def spendable_pfx_def split: option.split)
  ultimately show ?thesis
    using lookup_exact [OF assms(1-3) p, of ?Q l] assms(6)
    by (simp add: findSpendableOutputs_def exact_outputs_def)
qed

theorem findSpendableOutputs_exact_witness:
  "\<exists>os. findSpendableOutputs mem_kv sample_ns 1 (Some 1) 10 sample_db = (Inr os, sample_db) \<and>
     (\<forall>o1. o1 \<in> set os \<longleftrightarrow> stored_output (vview mem_kv sample_ns sample_db) o1 \<and> out_userId o1 = 1 \<and>
        out_spendable o1 \<and> out_basketId o1 = Some 1)"
  using findSpendableOutputs_exact [OF mem.rocks_db_axioms conjunct1 [OF sample_db_ok]
      conjunct2 [OF sample_db_ok], of 1 "Some 1" 10] sample_within [of "spendable_pfx 1 (Some 1)"]
  by (simp add: sample_key_nums) blast

text \<open>a lookup by locking script hash returns exactly the stored outputs with that hash.\<close>

theorem findOutputsByScriptHash_exact:
  assumes "rocks_db K" "db_ok K ns db" "index_inv (vview K ns db)" and h: "part_ok h" "h \<noteq> []"
    and "within_limit K ns (hash_pfx h) l db"
  shows "\<exists>os. findOutputsByScriptHash K ns h l db = (Inr os, db) \<and> distinct os \<and>
    (\<forall>o1. o1 \<in> set os \<longleftrightarrow> stored_output (vview K ns db) o1 \<and> out_scriptHash o1 = Some h)"
proof -
  have "normalizeIndexPart h = Inr h" using h(1) by (simp add: part_ok_def)
  moreover from this have "outputScriptHashPrefix h = hash_pfx h"
    by (simp add: outputScriptHashPrefix_def hash_pfx_def)
  moreover have "\<exists>k \<in> set (id_keys o1). startsWith k (hash_pfx h)" if "out_scriptHash o1 = Some h" for o1
    using that h(2) startsWith_append [of "hash_pfx h" "pad16 (out_outputId o1)"]
    by (auto simp: id_keys_def hash_pfx_def hash_key_def)
  ultimately show ?thesis
    using lookup_exact [OF assms(1-3) hash_prefix [OF h(1)], of "\<lambda>o1. out_scriptHash o1 = Some h" l] assms(6)
    by (simp add: findOutputsByScriptHash_def exact_outputs_def)
qed

theorem findOutputsByScriptHash_exact_witness:
  "\<exists>os. findOutputsByScriptHash mem_kv sample_ns (js ''ab'') 10 sample_db = (Inr os, sample_db) \<and> distinct os"
  using findOutputsByScriptHash_exact [OF mem.rocks_db_axioms conjunct1 [OF sample_db_ok]
      conjunct2 [OF sample_db_ok] sample_part sample_within] by blast

text \<open>a lookup by transaction returns exactly the stored outputs of that transaction.\<close>

theorem findOutputsByTransactionId_exact:
  assumes "rocks_db K" "db_ok K ns db" "index_inv (vview K ns db)" and t: "key_num t"
    and "within_limit K ns (tx_pfx t) max_safe_integer db"
  shows "\<exists>os. findOutputsByTransactionId K ns t db = (Inr os, db) \<and> distinct os \<and>
    (\<forall>o1. o1 \<in> set os \<longleftrightarrow> stored_output (vview K ns db) o1 \<and> out_transactionId o1 = Some t)"
proof -
  have "\<exists>k \<in> set (id_keys o1). startsWith k (tx_pfx t)" if "out_transactionId o1 = Some t" for o1
    using that by (auto simp: id_keys_def)
  then show ?thesis
    using lookup_exact [OF assms(1-3) lookup_prefixes(3,6,9),
      where Q = "\<lambda>o1. out_transactionId o1 = Some t" and l = max_safe_integer] assms(5) t
    by (simp add: findOutputsByTransactionId_def exact_outputs_def)
qed

theorem findOutputsByTransactionId_exact_witness:
  "\<exists>os. findOutputsByTransactionId mem_kv sample_ns 7 sample_db = (Inr os, sample_db) \<and> distinct os"
proof -
  have "within_limit mem_kv sample_ns (tx_pfx 7) max_safe_integer sample_db"
    using sample_within [of "tx_pfx 7"] by (simp add: within_limit_def normalizedLimit_def max_safe_integer_def)
  then show ?thesis
    using findOutputsByTransactionId_exact [OF mem.rocks_db_axioms conjunct1 [OF sample_db_ok]
      conjunct2 [OF sample_db_ok], of 7] by (auto simp: key_num_def max_safe_integer_def)
qed

section \<open>Writing outputs\<close>

text \<open>C25: writing an output never fails on a well-formed store, stores it under its id with the script
  metadata applied, leaves every other output as it was, and keeps the index invariant.\<close>

theorem putOutput_correct:
  assumes "rocks_db K" "db_ok K ns db" "index_inv (vview K ns db)" "hash_ok H" "output_ok o1" "status_ok st"
  shows "\<exists>rs db'. putOutput K ns now H o1 st db = (Inr rs, db') \<and> db_ok K ns db' \<and> index_inv (vview K ns db') \<and>
    output_at (vview K ns db') (out_outputId o1) = Some (applyOutputScriptMetadata H o1) \<and>
    (\<forall>j. key_num j \<longrightarrow> j \<noteq> out_outputId o1 \<longrightarrow> output_at (vview K ns db') j = output_at (vview K ns db) j)"
proof -
  note S = rocks_store.intro [OF assms(1)]
  have ok: "output_ok (applyOutputScriptMetadata H o1)" using assms(4,5) by (rule apply_ok)
  then have i: "key_num (out_outputId o1)" by (auto simp: output_ok_def)
  obtain rs db' where p: "putOutput K ns now H o1 st db = (Inr rs, db')" "db_ok K ns db'"
    and r: "replaced (vview K ns db) st (out_outputId o1) (Some (applyOutputScriptMetadata H o1)) (vview K ns db')"
    using rocks_store.putOutput_replaces [OF S assms(2,3) ok assms(6)] by blast
  have "index_inv (vview K ns db')"
    by (rule index_inv_replaced [OF r assms(3) i]) (use ok in auto)
  with p r replaced_other_pk [OF r assms(3) i] show ?thesis
    by (auto simp: replaced_def Let_def output_at_def)
qed

theorem putOutput_correct_witness:
  "\<exists>rs db'. putOutput mem_kv sample_ns 0 sample_hash (sample_output 6 40) (Some (js ''ab'')) sample_db = (Inr rs, db') \<and>
     output_at (vview mem_kv sample_ns db') 6 = Some (sample_output 6 40) \<and> index_inv (vview mem_kv sample_ns db')"
proof -
  have "output_ok (sample_output 6 40)"
    by (rule sample_output_ok) (simp_all add: key_num_def max_safe_integer_def)
  from putOutput_correct [OF mem.rocks_db_axioms conjunct1 [OF sample_db_ok] conjunct2 [OF sample_db_ok]
      sample_hash_ok this sample_status_ok, of 0] show ?thesis
    by (auto simp: sample_output_id)
qed

text \<open>deleting an output removes it and the entries it owns, leaves every other output as it was, and
  keeps the index invariant.\<close>

theorem deleteOutput_correct:
  assumes "rocks_db K" "db_ok K ns db" "index_inv (vview K ns db)" "key_num i"
  shows "\<exists>rs db'. deleteOutput K ns now i db = (Inr rs, db') \<and> db_ok K ns db' \<and> index_inv (vview K ns db') \<and>
    output_at (vview K ns db') i = None \<and>
    (\<forall>j. key_num j \<longrightarrow> j \<noteq> i \<longrightarrow> output_at (vview K ns db') j = output_at (vview K ns db) j)"
proof -
  obtain rs db' where p: "deleteOutput K ns now i db = (Inr rs, db')" "db_ok K ns db'"
    and r: "replaced (vview K ns db) None i None (vview K ns db')"
    using rocks_store.deleteOutput_replaces [OF rocks_store.intro [OF assms(1)] assms(2-4)] by blast
  have "index_inv (vview K ns db')"
    by (rule index_inv_replaced [OF r assms(3,4)]) simp
  with p r replaced_other_pk [OF r assms(3,4)] show ?thesis
    by (auto simp: replaced_def Let_def output_at_def)
qed

theorem deleteOutput_correct_witness:
  "\<exists>rs db'. deleteOutput mem_kv sample_ns 0 5 sample_db = (Inr rs, db') \<and>
     output_at (vview mem_kv sample_ns db') 5 = None"
  using deleteOutput_correct [OF mem.rocks_db_axioms conjunct1 [OF sample_db_ok] conjunct2 [OF sample_db_ok],
      of 5 0] by (auto simp: key_num_def max_safe_integer_def)

end
