(* ===== verification/RocksReserveProps.thy ===== *)
theory RocksReserveProps
  imports RocksProps
begin

text \<open>
  The properties of the writes to the RocksDB store: the refinement of the versioned map by single
  writes and batches, compare-and-set, the counters, exclusive reservation, and what deleting an
  output leaves behind in the index by transaction status.
\<close>

section \<open>The versioned map\<close>

context rocks_store
begin

lemma batch_simulates:
  "list_all write_ok ws \<Longrightarrow> \<exists>rs db'. batch K ns now ws db = (Inr rs, db') \<and>
     abs_batch ws (vview K ns db) = (vview K ns db', rs)"
  unfolding batch_def by (rule store.writes_refine)

lemma batch_stops:
  assumes "list_all write_ok ws" and "batch_write K ns now w = throwS e"
  shows "\<exists>db'. batch K ns now (ws @ w # vs) db = (Inl e, db') \<and> vview K ns db' = fst (abs_batch ws (vview K ns db))"
proof -
  have w: "batch_write K ns now w db = (Inl e, db)" for db using assms(2) by simp
  show ?thesis
    using assms(1)
  proof (induction ws arbitrary: db)
    case Nil
    then show ?case by (simp add: batch_def w)
  next
    case (Cons x ws)
    then obtain r db1 where 1: "batch_write K ns now x db = (Inr r, db1)"
      "abs_write x (vview K ns db) = (vview K ns db1, r)"
      using batch_write_acts [of x db] by auto
    with Cons obtain db' where "mapS (batch_write K ns now) (ws @ w # vs) db1 = (Inl e, db')"
      "vview K ns db' = fst (abs_batch ws (vview K ns db1))"
      by (auto simp: batch_def)
    with 1 show ?case by (simp add: batch_def bindS_def)
  qed
qed

text \<open>A single \<open>put\<close> acts as one write of a batch.\<close>

lemma rocks_put_batch: "rocks_put K ns now a db = batch_write K ns now (WPut a) db"
proof (cases "put_expected a")
  case None
  then show ?thesis by (simp add: rocks_put_def batch_write_def Let_def)
next
  case (Some e)
  then show ?thesis
    by (cases "normalizeKey (put_key a)")
      (auto simp: rocks_put_def batch_write_def Let_def runNativeTransaction_def bindS_def sem_defs
        split: sum.split prod.split)
qed

lemma rocks_put_acts:
  "write_ok (WPut a) \<Longrightarrow> \<exists>r db'. rocks_put K ns now a db = (Inr r, db') \<and>
     abs_write (WPut a) (vview K ns db) = (vview K ns db', r)"
  unfolding rocks_put_batch by (rule batch_write_acts)

lemma rocks_put_cas:
  assumes "rocks_put K ns now a db = (Inr (PutOk k v), db1)" "rocks_put K ns now b db1 = (Inr (PutOk k' v'), db2)"
    and "write_ok (WPut a)" "write_ok (WPut b)" "js_trim (put_key a) = js_trim (put_key b)"
    and "put_expected a = Some e" "put_expected b = Some e"
  shows False
  using store.cas_exclusive assms unfolding rocks_put_batch by blast

end

text \<open>C28: a batch of valid writes acts on the namespace as the abstract versioned map does, write
  by write, and reports the same results (new versions, or the version found on a conflict).\<close>

theorem batch_refines:
  assumes "rocks_db K" and "list_all write_ok ws"
  shows "\<exists>rs db'. batch K ns now ws db = (Inr rs, db') \<and>
    abs_batch ws (vview K ns db) = (vview K ns db', rs)"
  using rocks_store.batch_simulates [OF rocks_store.intro [OF assms(1)] assms(2)] .

definition sample_put :: "int option option \<Rightarrow> put_args" where
  "sample_put e = \<lparr>put_key = js ''n'', put_value = VNumber 4, put_expected = e, put_updated_at = DateMs 3\<rparr>"

lemma sample_key: "js_trim (js ''n'') = js ''n''" "js ''n'' \<noteq> []" "ch_nul \<notin> set (js ''n'')"
  by (simp_all add: js_def js_trim_def js_space_def ch_nul_def)

lemma sample_put_ok: "write_ok (WPut (sample_put e))"
  by (simp add: sample_put_def write_ok.simps sample_key)

theorem batch_refines_witness:
  "\<exists>rs db'. batch mem_kv sample_ns 0 [WPut (sample_put (Some None)), WPut (sample_put (Some None))] [] = (Inr rs, db') \<and>
     rs = [PutOk (js ''n'') 1, VersionConflict (js ''n'') (Some 1)] \<and>
     vview mem_kv sample_ns db' (js ''n'') = Some (VNumber 4, 1)"
proof -
  let ?ws = "[WPut (sample_put (Some None)), WPut (sample_put (Some None))]"
  have ws: "list_all write_ok ?ws" by (simp add: sample_put_ok)
  obtain rs db' where b: "batch mem_kv sample_ns 0 ?ws [] = (Inr rs, db')"
    "abs_batch ?ws (vview mem_kv sample_ns []) = (vview mem_kv sample_ns db', rs)"
    using batch_refines [OF mem.rocks_db_axioms ws, of sample_ns 0 "[]"] by blast
  have e: "vview mem_kv sample_ns [] = (\<lambda>k. None)" by (simp add: vview_def mem_kv_def fun_eq_iff)
  have "(vview mem_kv sample_ns db', rs) = ((\<lambda>k. None)(js ''n'' \<mapsto> (VNumber 4, 1)),
      [PutOk (js ''n'') 1, VersionConflict (js ''n'') (Some 1)])"
    unfolding b(2) [symmetric] e by (simp add: abs_batch.simps sample_put_def sample_key next_version_def Let_def)
  with b(1) show ?thesis by (auto simp: fun_eq_iff)
qed

text \<open>a batch is not a transaction: when a write of it throws, the writes before it stay.\<close>

theorem batch_keeps_prefix:
  assumes "rocks_db K" and "list_all write_ok ws"
    and "js_trim (put_key a) \<noteq> []" "ch_nul \<notin> set (js_trim (put_key a))" "put_expected a = None"
    and "put_updated_at a = BadDate"
  shows "\<exists>db'. batch K ns now (ws @ WPut a # vs) db = (Inl UpdatedAtInvalid, db') \<and>
    vview K ns db' = fst (abs_batch ws (vview K ns db))"
proof (rule rocks_store.batch_stops [OF rocks_store.intro [OF assms(1)] assms(2)])
  show "batch_write K ns now (WPut a) = throwS UpdatedAtInvalid"
    using assms(3-6) by (simp add: batch_write_def normalizeKey_ok encode_bad fun_eq_iff bindS_def sem_defs Let_def)
qed

theorem batch_keeps_prefix_witness:
  "\<exists>db'. batch mem_kv sample_ns 0 [WPut (sample_put None), WPut ((sample_put None)\<lparr>put_updated_at := BadDate\<rparr>)] []
       = (Inl UpdatedAtInvalid, db') \<and>
     vview mem_kv sample_ns db' (js ''n'') = Some (VNumber 4, 1)"
proof -
  let ?a = "(sample_put None)\<lparr>put_updated_at := BadDate\<rparr>"
  have a: "js_trim (put_key ?a) \<noteq> []" "ch_nul \<notin> set (js_trim (put_key ?a))" "put_expected ?a = None"
    "put_updated_at ?a = BadDate" and ws: "list_all write_ok [WPut (sample_put None)]"
    by (simp_all add: sample_put_def sample_key write_ok.simps)
  have e: "vview mem_kv sample_ns [] = (\<lambda>k. None)" by (simp add: vview_def mem_kv_def fun_eq_iff)
  from batch_keeps_prefix [OF mem.rocks_db_axioms ws a, of sample_ns 0 "[]" "[]"] show ?thesis
    by (auto simp: e sample_put_def sample_key next_version_def Let_def)
qed

text \<open>of two compare-and-set puts to one key that expect the same version, at most one takes
  effect, in whichever order they run; the other reports a conflict.\<close>

theorem put_cas_exclusive:
  assumes "rocks_db K" and "write_ok (WPut a)" "write_ok (WPut b)" "js_trim (put_key a) = js_trim (put_key b)"
    and "put_expected a = Some e" "put_expected b = Some e"
    and "rocks_put K ns now a db = (Inr (PutOk k v), db1)"
  shows "\<exists>k' c. rocks_put K ns now b db1 = (Inr (VersionConflict k' c), db1)"
proof -
  note S = rocks_store.intro [OF assms(1)]
  obtain r db2 where r: "rocks_put K ns now b db1 = (Inr r, db2)"
    using rocks_store.rocks_put_acts [OF S assms(3)] by blast
  then have "r \<noteq> PutOk k' v'" for k' v'
    using rocks_store.rocks_put_cas [OF S assms(7) _ assms(2-6)] by blast
  then obtain k' c where c: "r = VersionConflict k' c" by (cases r) auto
  have "db2 = db1"
    using r c assms(6) unfolding rocks_store.rocks_put_batch [OF S]
    by (cases "normalizeKey (put_key b)") (auto simp: batch_write_def bindS_def sem_defs Let_def
        split: if_splits sum.splits)
  with r c show ?thesis by simp
qed

theorem put_cas_exclusive_witness:
  "\<exists>db1 k c. rocks_put mem_kv sample_ns 0 (sample_put (Some None)) [] = (Inr (PutOk (js ''n'') 1), db1) \<and>
     rocks_put mem_kv sample_ns 0 (sample_put (Some None)) db1 = (Inr (VersionConflict k c), db1)"
proof -
  have "\<exists>db1. rocks_put mem_kv sample_ns 0 (sample_put (Some None)) [] = (Inr (PutOk (js ''n'') 1), db1)"
    by (simp add: rocks_put_def sample_put_def normalizeKey_ok sample_key runNativeTransaction_def kv_read_def
        kv_write_def mem_kv_def encode_def normalizeDate_def bindS_def Let_def)
  then obtain db1 where 1: "rocks_put mem_kv sample_ns 0 (sample_put (Some None)) [] = (Inr (PutOk (js ''n'') 1), db1)"
    by blast
  have e: "put_expected (sample_put (Some None)) = Some None" by (simp add: sample_put_def)
  from put_cas_exclusive [OF mem.rocks_db_axioms sample_put_ok sample_put_ok refl e e 1] 1
  show ?thesis by blast
qed

section \<open>Counters\<close>

definition number_at :: "vmap \<Rightarrow> jstr \<Rightarrow> int option" where
  "number_at m k = (case m k of None \<Rightarrow> Some 0 | Some (VNumber n, _) \<Rightarrow> Some n | _ \<Rightarrow> None)"

text \<open>The values a counter at \<open>n\<close> takes when the amounts are added one after the other.\<close>

fun running :: "int \<Rightarrow> int list \<Rightarrow> int list" where
  "running n [] = []"
| "running n (a # as) = (n + a) # running (n + a) as"

lemma running_increasing: "\<forall>a \<in> set as. 1 \<le> a \<Longrightarrow> sorted_wrt (<) (running n as) \<and> (\<forall>v \<in> set (running n as). n < v)"
  by (induction as arbitrary: n) fastforce+

context rocks_store
begin

lemma increment_acts:
  assumes k: "normalizeKey key = Inr k" and n: "number_at (vview K ns db) k = Some n"
    and a: "1 \<le> a" "isSafeInteger a"
  shows "\<exists>db' v. incrementNumber K ns now key a db = (Inr (n + a), db') \<and>
    vview K ns db' = (vview K ns db)(k \<mapsto> (VNumber (n + a), v))"
proof -
  let ?cur = "kv_get K db (storageKey ns k)"
  obtain t where t: "encode now (VNumber (n + a)) (map_option st_version ?cur) NoDate =
      Inr \<lparr>st_recordType = RECORD_TYPE, st_schemaVersion = Some SCHEMA_VERSION, st_value = VNumber (n + a),
        st_version = next_version (map_option st_version ?cur), st_updated_at = t\<rparr>"
    using encode_ok [of NoDate] by blast
  have "(case ?cur of None \<Rightarrow> retS 0
      | Some s \<Rightarrow> (case st_value s of VNumber n \<Rightarrow> retS n | _ \<Rightarrow> throwS Mistyped)) db
      = (Inr n :: rocks_error + int, db)"
    using n by (auto simp: number_at_def vview_def split: option.splits wval.splits)
  with t a k show ?thesis
    by (auto simp: incrementNumber_def Let_def runNativeTransaction_def sem_defs bindS_def vview_put)
qed

end

text \<open>increments of one counter run one after the other return the running sums, each increment a
  value above all earlier ones, and change no other key; so blocks of numbers taken from a counter are
  disjoint.\<close>

theorem incrementNumber_allocates:
  assumes "rocks_db K" and "normalizeKey key = Inr k" "number_at (vview K ns db) k = Some n"
    and "\<forall>a \<in> set as. 1 \<le> a \<and> isSafeInteger a"
  shows "\<exists>vs db'. mapS (incrementNumber K ns now key) as db = (Inr vs, db') \<and> vs = running n as \<and>
    sorted_wrt (<) (n # vs) \<and> number_at (vview K ns db') k = Some (n + sum_list as) \<and>
    (\<forall>x. x \<noteq> k \<longrightarrow> vview K ns db' x = vview K ns db x)"
proof -
  have "\<exists>db'. mapS (incrementNumber K ns now key) as db = (Inr (running n as), db') \<and>
      number_at (vview K ns db') k = Some (n + sum_list as) \<and> (\<forall>x. x \<noteq> k \<longrightarrow> vview K ns db' x = vview K ns db x)"
    using assms(3,4)
  proof (induction as arbitrary: db n)
    case (Cons a as)
    then obtain db1 v where 1: "incrementNumber K ns now key a db = (Inr (n + a), db1)"
      "vview K ns db1 = (vview K ns db)(k \<mapsto> (VNumber (n + a), v))"
      using rocks_store.increment_acts [OF rocks_store.intro [OF assms(1)] assms(2), of ns db n a now] by auto
    then have "number_at (vview K ns db1) k = Some (n + a)" by (simp add: number_at_def)
    with Cons obtain db' where "mapS (incrementNumber K ns now key) as db1 = (Inr (running (n + a) as), db')"
      "number_at (vview K ns db') k = Some (n + a + sum_list as)"
      "\<forall>x. x \<noteq> k \<longrightarrow> vview K ns db' x = vview K ns db1 x"
      by (metis list.set_intros(2))
    with 1 show ?case by (auto simp: add.assoc)
  qed simp
  with running_increasing [of as n] assms(4) show ?thesis by auto
qed

theorem incrementNumber_allocates_witness:
  "\<exists>db'. mapS (incrementNumber mem_kv sample_ns 0 (js ''n'')) [256, 1, 256] [] = (Inr [256, 257, 513], db')"
proof -
  have k: "normalizeKey (js ''n'') = Inr (js ''n'')" by (simp add: normalizeKey_ok sample_key)
  have n: "number_at (vview mem_kv sample_ns []) (js ''n'') = Some 0"
    by (simp add: number_at_def vview_def mem_kv_def)
  have a: "\<forall>a \<in> set [256, 1, 256]. 1 \<le> a \<and> isSafeInteger a"
    by (simp add: isSafeInteger_def max_safe_integer_def)
  from incrementNumber_allocates [OF mem.rocks_db_axioms k n a, of 0] show ?thesis by auto
qed

section \<open>Reservations\<close>

text \<open>C3: whatever the attempts of concurrent callers carry, no output is reserved twice: the outputs
  returned by a run of attempts are pairwise different, each is stored as spent at the end, and the
  indexes stay consistent.\<close>

theorem reservations_exclusive:
  assumes "rocks_db K" "hash_ok H" "db_ok K ns db" "index_inv (vview K ns db)" "\<forall>t \<in> set ts. attempt_ok t"
    and "run_attempts K ns H ts db = (xs, db')"
  shows "distinct (map out_outputId (List.map_filter reserved_of xs)) \<and>
    (\<forall>o1 \<in> set (List.map_filter reserved_of xs). stored_spent (vview K ns db') o1) \<and>
    db_ok K ns db' \<and> index_inv (vview K ns db')"
  using run_attempts_spec [OF assms] by blast

text \<open>an attempt on an output that is still spendable, unchanged since its record was read and with
  an entity record that agrees, succeeds, and the output is then stored as spent by the transaction.\<close>

theorem reservation_succeeds:
  assumes "rocks_db K" "db_ok K ns db" "index_inv (vview K ns db)" "hash_ok H"
    and "normalizeKey entityKey = Inr ek" "entity_key_ok ek" "status_ok (ra_status a)"
    and "reservable (vview K ns db) a r current" "key_num (out_outputId current)"
    and "vview K ns db ek = Some (VOutput entity, w)" "out_outputId entity = out_outputId current"
      "out_spendable entity"
  shows "\<exists>db' next. tryReserveSpendableOutput K ns now H a r entityKey db = (Inr (Some next), db') \<and>
    out_outputId next = out_outputId current \<and> out_satoshis next = out_satoshis current \<and>
    out_spentBy next = Some (ra_transactionId a) \<and> stored_spent (vview K ns db') next"
proof -
  let ?next = "reserved_output H now (ra_transactionId a) current"
  obtain db' where db': "tryReserveSpendableOutput K ns now H a r entityKey db = (Inr (Some ?next), db')"
    "reserves (vview K ns db) a current ?next ek (vview K ns db')"
    using try_reserve_succeeds [OF assms] by blast
  have "output_ok current" using assms(3,8,9) by (auto simp: reservable_def elim: index_inv_primary)
  then have "output_ok ?next" using assms(4) by (rule reserved_output_ok [rotated])
  then have "map_option fst (vview K ns db' (pk (out_outputId current))) = Some (VOutput ?next)"
    using reserves_pk(1) [OF db'(2) assms(3,9,6) refl] by simp
  then have "stored_spent (vview K ns db') ?next" using assms(9) by (auto simp: stored_spent_def)
  with db'(1) show ?thesis by auto
qed

definition sample_entity :: jstr where
  "sample_entity = js ''entity!outputs!5''"

lemma sample_entity_ok: "normalizeKey sample_entity = Inr sample_entity" "entity_key_ok sample_entity"
proof -
  have "js_trim sample_entity = sample_entity"
    by (rule js_trim_not_space) (simp add: sample_entity_def js_def js_space_def)
  then have "good_key sample_entity" by (simp add: good_key_def sample_entity_def js_def ch_nul_def)
  then show "normalizeKey sample_entity = Inr sample_entity" "entity_key_ok sample_entity"
    by (simp_all add: good_key_normal entity_key_ok_def)
      (simp_all add: sample_entity_def js_def ch_max_def startsWith_def)
qed

text \<open>The sample database with the entity record of the output.\<close>

definition sample_db2 :: mem_db where
  "sample_db2 = kv_put mem_kv sample_db (storageKey sample_ns sample_entity)
     \<lparr>st_recordType = RECORD_TYPE, st_schemaVersion = Some SCHEMA_VERSION,
      st_value = VOutput (sample_output 5 1000), st_version = 1, st_updated_at = 0\<rparr>"

lemma sample_db2_view:
  "vview mem_kv sample_ns sample_db2 = (vview mem_kv sample_ns sample_db)(sample_entity \<mapsto> (VOutput (sample_output 5 1000), 1))"
  by (simp add: sample_db2_def mem_store.vview_put)

lemma sample_db2_ok: "db_ok mem_kv sample_ns sample_db2" "index_inv (vview mem_kv sample_ns sample_db2)"
proof -
  have "ord_key sample_entity" using sample_entity_ok(2) by (simp add: entity_key_ok_def)
  moreover have "ord_key sample_ns" using sample_db_ok by (simp add: db_ok_def)
  ultimately show "db_ok mem_kv sample_ns sample_db2"
    using conjunct1 [OF sample_db_ok] unfolding sample_db2_def
    by (auto simp: db_ok_def mem.get_put storageKey_def)
  show "index_inv (vview mem_kv sample_ns sample_db2)"
    unfolding sample_db2_view using sample_entity_ok(2) sample_db_ok by (simp add: index_inv_entity)
qed

definition sample_attempt :: attempt where
  "sample_attempt = \<lparr>at_now = 9, at_args = \<lparr>ra_userId = 1, ra_basketId = 1, ra_transactionId = 8, ra_status = None\<rparr>,
     at_record = \<lparr>rec_key = pk 5, rec_value = VOutput (sample_output 5 1000),
       rec_version = snd (the (vview mem_kv sample_ns sample_db2 (pk 5))), rec_updated_at = 0\<rparr>,
     at_entity = sample_entity\<rparr>"

lemma sample_reservable:
  "reservable (vview mem_kv sample_ns sample_db2) (at_args sample_attempt) (at_record sample_attempt) (sample_output 5 1000)"
proof -
  have "pk 5 \<noteq> sample_entity" using entity_not_output(2) [OF sample_entity_ok(2)] by metis
  then have "map_option fst (vview mem_kv sample_ns sample_db2 (pk 5)) = Some (VOutput (sample_output 5 1000))"
    using sample_db_at by (simp add: sample_db2_view)
  then show ?thesis by (auto simp: reservable_def sample_attempt_def sample_output_def)
qed

theorem reservation_succeeds_witness:
  "\<exists>db' next. run_attempt mem_kv sample_ns sample_hash sample_attempt sample_db2 = (Inr (Some next), db') \<and>
     out_outputId next = 5 \<and> out_spentBy next = Some 8"
proof -
  have e: "vview mem_kv sample_ns sample_db2 sample_entity = Some (VOutput (sample_output 5 1000), 1)"
    by (simp add: sample_db2_view)
  have st: "status_ok (ra_status (at_args sample_attempt))" by (simp add: sample_attempt_def status_ok_def)
  have k: "key_num (out_outputId (sample_output 5 1000))" "out_spendable (sample_output 5 1000)"
    by (simp_all add: sample_key_nums) (simp add: sample_output_def)
  from reservation_succeeds [OF mem.rocks_db_axioms sample_db2_ok sample_hash_ok sample_entity_ok st
      sample_reservable k(1) e refl k(2), of 9]
  show ?thesis by (auto simp: run_attempt_def sample_attempt_def)
qed

theorem reservations_exclusive_witness:
  "\<exists>xs db'. run_attempts mem_kv sample_ns sample_hash [sample_attempt, sample_attempt] sample_db2 = (xs, db') \<and>
     length xs = 2 \<and> distinct (map out_outputId (List.map_filter reserved_of xs)) \<and>
     index_inv (vview mem_kv sample_ns db')"
proof -
  obtain xs db' where r: "run_attempts mem_kv sample_ns sample_hash [sample_attempt, sample_attempt] sample_db2 = (xs, db')"
    by force
  have "length xs = 2" using r by (auto split: prod.splits)
  moreover have "\<forall>t \<in> set [sample_attempt, sample_attempt]. attempt_ok t"
    using sample_entity_ok by (simp add: attempt_ok_def sample_attempt_def status_ok_def)
  ultimately show ?thesis
    using reservations_exclusive [OF mem.rocks_db_axioms sample_hash_ok sample_db2_ok _ r] r by blast
qed

text \<open>a reservation by value either changes nothing, or returns an output that was stored as
  spendable in the user's basket, satisfied the caller's predicate and has an amount equal to, at
  least, or below the requested one as the mode asks; it is then stored as spent by the transaction.\<close>

theorem reserveByValue_sound:
  assumes "rocks_db K" "db_ok K ns db" "index_inv (vview K ns db)" "hash_ok H" "entity_keys_ok entityKey"
    and "reserveSpendableOutputByValue K ns now H u b mode sats pred t entityKey limit db = (x, db')"
  shows "(x = Inr None \<or> (\<exists>e. x = Inl e)) \<and> db' = db \<or>
    (\<exists>current next. x = Inr (Some next) \<and> stored_output (vview K ns db) current \<and> out_spendable current \<and>
       out_userId current = u \<and> out_basketId current = Some b \<and> pred current \<and>
       mode_selects mode sats (out_satoshis current) \<and> out_outputId next = out_outputId current \<and>
       out_satoshis next = out_satoshis current \<and> out_spentBy next = Some t \<and>
       stored_spent (vview K ns db') next \<and> db_ok K ns db' \<and> index_inv (vview K ns db'))"
proof -
  let ?a = "\<lparr>ra_userId = u, ra_basketId = b, ra_transactionId = t, ra_status = None\<rparr>"
  let ?next = "\<lambda>c. reserved_output H now t c"
  have "outcome K ns now H ?a (\<lambda>o1. pred o1 \<and> mode_selects mode sats (out_satoshis o1)) db (x, db')"
    using rocks_store.byValue_outcome [OF rocks_store.intro [OF assms(1)] assms(2-5),
        of now u b t pred mode sats limit] unfolding assms(6) .
  then consider "(x = Inr None \<or> (\<exists>e. x = Inl e)) \<and> db' = db"
    | c ek where "x = Inr (Some (?next c))" "acceptable (vview K ns db) ?a
          (\<lambda>o1. pred o1 \<and> mode_selects mode sats (out_satoshis o1)) c" "entity_key_ok ek" "db_ok K ns db'"
        "reserves (vview K ns db) ?a c (?next c) ek (vview K ns db')"
    by (auto simp: outcome_def)
  then show ?thesis
  proof cases
    case 2
    have c: "stored_output (vview K ns db) c" "output_ok c" "key_num (out_outputId c)"
      using 2(2) by (auto simp: acceptable_def stored_output_def)
    note r = reserves_pk [OF 2(5) assms(3) c(3) 2(3) refl reserved_output_ok [OF assms(4) c(2)]]
    have "stored_spent (vview K ns db') (?next c)" using r(1) c(3) by (auto simp: stored_spent_def)
    with 2 r(3) show ?thesis by (auto simp: acceptable_def)
  qed blast
qed

theorem reserveByValue_sound_witness:
  "\<exists>x db'. reserveSpendableOutputByValue mem_kv sample_ns 9 sample_hash 1 1 Over 600 (\<lambda>_. True) 8
       (\<lambda>_. sample_entity) 10 sample_db2 = (x, db') \<and>
     ((x = Inr None \<or> (\<exists>e. x = Inl e)) \<and> db' = sample_db2 \<or>
      (\<exists>next. x = Inr (Some next) \<and> 600 \<le> out_satoshis next \<and> stored_spent (vview mem_kv sample_ns db') next))"
proof -
  obtain x db' where r: "reserveSpendableOutputByValue mem_kv sample_ns 9 sample_hash 1 1 Over 600 (\<lambda>_. True) 8
       (\<lambda>_. sample_entity) 10 sample_db2 = (x, db')" by force
  have "entity_keys_ok (\<lambda>_. sample_entity)" using sample_entity_ok by (simp add: entity_keys_ok_def)
  from reserveByValue_sound [OF mem.rocks_db_axioms sample_db2_ok sample_hash_ok this r] r show ?thesis
    by (metis mode_selects.simps(2))
qed

section \<open>What a delete leaves behind\<close>

lemma status_key_extra:
  assumes "out_spendable o1" "out_basketId o1 = Some b"
    and k_def: "k = status_pfx (out_userId o1) b st @ sat_oid (out_satoshis o1) (out_outputId o1)"
  shows "k \<in> all_keys o1 (Some st)" "k \<notin> all_keys o2 None"
proof -
  show "k \<in> all_keys o1 (Some st)" using assms by (simp add: all_keys_def status_keys_def k_def)
  have "\<not> id_index_key k" by (simp add: id_index_key_def k_def pfx_defs startsWith_def js_def)
  moreover have "k \<notin> set (outpoint_keys o2)"
    by (auto simp: outpoint_keys_def k_def pfx_defs js_def split: option.splits)
  ultimately show "k \<notin> all_keys o2 None"
    using id_keys_id_index by (auto simp: all_keys_def status_keys_def split: bool.splits)
qed

text \<open>\<open>deleteOutput\<close> deletes the entries an output owns without a transaction status, so the
  entry that \<open>putOutput\<close> wrote for its status stays and the count by status still includes the output
  that is gone.\<close>

theorem deleteOutput_keeps_status_entry:
  assumes "rocks_db K" "db_ok K ns db" "index_inv (vview K ns db)" "hash_ok H"
    and o1: "output_ok o1" "out_spendable o1" "out_basketId o1 = Some b" and st: "part_ok st"
  shows "\<exists>rs db1 rs' db2 n. putOutput K ns now H o1 (Some st) db = (Inr rs, db1) \<and>
    deleteOutput K ns now (out_outputId o1) db1 = (Inr rs', db2) \<and>
    output_at (vview K ns db2) (out_outputId o1) = None \<and>
    countSpendableOutputsByTransactionStatus K ns (out_userId o1) b [st] db2 = (Inr n, db2) \<and> 1 \<le> n"
proof -
  note S = rocks_store.intro [OF assms(1)]
  let ?o = "applyOutputScriptMetadata H o1" and ?i = "out_outputId o1"
  define k where "k = status_pfx (out_userId o1) b st @ sat_oid (out_satoshis o1) ?i"
  have ok: "output_ok ?o" using assms(4) o1(1) by (rule apply_ok)
  have nums: "key_num ?i" "key_num (out_userId o1)" "key_num b" "key_num (out_satoshis o1)"
    using o1 by (auto simp: output_ok_def)
  have sst: "status_ok (Some st)" using st by (simp add: status_ok_def)
  obtain rs db1 where p: "putOutput K ns now H o1 (Some st) db = (Inr rs, db1)" "db_ok K ns db1"
    and r1: "replaced (vview K ns db) (Some st) ?i (Some ?o) (vview K ns db1)"
    using rocks_store.putOutput_replaces [OF S assms(2,3) ok sst] by blast
  have inv1: "index_inv (vview K ns db1)"
    by (rule index_inv_replaced [OF r1 assms(3) nums(1)]) (use ok in auto)
  obtain rs' db2 where d: "deleteOutput K ns now ?i db1 = (Inr rs', db2)" "db_ok K ns db2"
    and r2: "replaced (vview K ns db1) None ?i None (vview K ns db2)"
    using rocks_store.deleteOutput_replaces [OF S p(2) inv1 nums(1)] by blast
  have k: "k \<in> all_keys ?o (Some st)" "k \<notin> all_keys o2 None" for o2
    using status_key_extra [of ?o b k st] o1 by (auto simp: k_def)
  then have "vview K ns db1 k \<noteq> None" using r1 by (auto simp: replaced_def Let_def)
  moreover have "k \<notin> old_keys (vview K ns db1) None ?i"
    using k(2) by (auto simp: old_keys_def split: option.splits wval.splits)
  moreover have "k \<noteq> pk ?i" using k(1) all_keys_not_pk by blast
  ultimately have "vview K ns db2 k \<noteq> None" using r2 by (simp add: replaced_def Let_def)
  then obtain s where s: "kv_get K db2 (storageKey ns k) = Some s" by (auto simp: vview_def)
  let ?p = "status_pfx (out_userId o1) b st"
  let ?es = "kv_range K db2 (storageKey ns ?p) (storageKey ns ?p @ [ch_max]) False"
  have "ord_key ?p" using st by (simp add: part_ok_def pfx_defs js_def ch_max_def ch_bang_def)
  then have "(storageKey ns k, s) \<in> set ?es"
    using rocks_store.range_prefix [OF S d(2), of ?p] s by (simp add: storageKey_def k_def)
  then have "(storageKey ns k, s) \<in> set (filter (\<lambda>(key, st). startsWith key ns \<and> startsWith key (storageKey ns ?p)) ?es)"
    by (simp add: storageKey_def k_def)
  then have n: "1 \<le> length (filter (\<lambda>(key, st). startsWith key ns \<and> startsWith key (storageKey ns ?p)) ?es)"
    by (cases "filter (\<lambda>(key, st). startsWith key ns \<and> startsWith key (storageKey ns ?p)) ?es") auto
  have "outputSpendableBasketStatusPrefix (out_userId o1) b st = Inr ?p"
    using nums st by (simp add: part_ok_def)
  with n have "\<exists>n. countSpendableOutputsByTransactionStatus K ns (out_userId o1) b [st] db2 = (Inr n, db2) \<and> 1 \<le> n"
    by (simp add: countSpendableOutputsByTransactionStatus_def bindS_def)
  moreover have "output_at (vview K ns db2) ?i = None" using r2 by (auto simp: replaced_def Let_def output_at_def)
  ultimately show ?thesis using p(1) d(1) by blast
qed

theorem deleteOutput_keeps_status_entry_witness:
  "\<exists>rs db1 rs' db2 n. putOutput mem_kv sample_ns 0 sample_hash (sample_output 6 40) (Some (js ''ab'')) [] = (Inr rs, db1) \<and>
     deleteOutput mem_kv sample_ns 0 6 db1 = (Inr rs', db2) \<and>
     output_at (vview mem_kv sample_ns db2) 6 = None \<and>
     countSpendableOutputsByTransactionStatus mem_kv sample_ns 1 1 [js ''ab''] db2 = (Inr n, db2) \<and> 1 \<le> n"
proof -
  have o1: "output_ok (sample_output 6 40)" "out_spendable (sample_output 6 40)"
    "out_basketId (sample_output 6 40) = Some 1" "out_userId (sample_output 6 40) = 1"
    by (rule sample_output_ok, simp_all add: sample_key_nums) (simp_all add: sample_output_def)
  from deleteOutput_keeps_status_entry [OF mem.rocks_db_axioms empty_ok sample_hash_ok o1(1-3) sample_part(1), of 0] o1(4)
  show ?thesis by simp
qed

end
