(* ===== verification/RocksAdmin.thy ===== *)
theory RocksAdmin
  imports RocksProps
begin

text \<open>
  Opening a store, its tuning options and its maintenance operations, from
  \<^verbatim>\<open>src/src/storage/rocksdb/RocksDbWalletStore.ts\<close>.

  The options object is an association of option names to values; the options the store knows are the
  fields of \<open>store_options\<close>, every other key the caller set is in \<open>so_extra\<close>. Opening the native
  database and creating its directory are calls of other packages; the model keeps what they are given.
\<close>

record store_options =
  so_path :: jstr
  so_namespace :: "jstr option"
  so_encoding :: "jstr option"
  so_parallelismThreads :: "int option"
  so_disableWAL :: "bool option"
  so_enableStats :: "bool option"
  so_noBlockCache :: "bool option"
  so_pessimistic :: "bool option"
  so_readOnly :: "bool option"
  so_statsLevel :: "int option"
  so_transactionLogMaxAgeThreshold :: "int option"
  so_transactionLogMaxSize :: "int option"
  so_transactionLogRetention :: "jstr option"
  so_transactionLogsPath :: "jstr option"
  so_blockCacheSize :: "int option"
  so_compactOnClose :: "bool option"
  so_extra :: "string list"

definition UNSUPPORTED_SOURCE_TUNING_OPTIONS :: "string list" where
  "UNSUPPORTED_SOURCE_TUNING_OPTIONS =
     [''writeOptions'', ''columnFamilies'', ''writeBufferSize'', ''maxWriteBufferNumber'',
      ''level0FileNumCompactionTrigger'', ''level0SlowdownWritesTrigger'', ''level0StopWritesTrigger'',
      ''maxBytesForLevelBase'', ''targetFileSizeBase'', ''maxCompactionBytes'', ''compression'', ''sync'']"

definition rejectUnsupportedRocksDbTuningOptions :: "store_options \<Rightarrow> unit rocks_res" where
  "rejectUnsupportedRocksDbTuningOptions options =
     (case find (\<lambda>k. k \<in> set (so_extra options)) UNSUPPORTED_SOURCE_TUNING_OPTIONS of
        Some k \<Rightarrow> Inl (UnsupportedOption k) | None \<Rightarrow> Inr ())"

text \<open>The fields the constructor keeps.\<close>

record store_config =
  sc_dbPath :: jstr
  sc_namespace :: jstr
  sc_parallelismThreads :: int
  sc_disableWAL :: bool
  sc_enableStats :: bool
  sc_noBlockCache :: bool
  sc_pessimistic :: "bool option"
  sc_readOnly :: "bool option"
  sc_statsLevel :: "int option"
  sc_transactionLogMaxAgeThreshold :: "int option"
  sc_transactionLogMaxSize :: "int option"
  sc_transactionLogRetention :: "jstr option"
  sc_transactionLogsPath :: "jstr option"
  sc_blockCacheSize :: "int option"
  sc_compactOnClose :: "bool option"

definition defaultParallelismThreads :: int where
  "defaultParallelismThreads = 12"

definition or_default :: "'a option \<Rightarrow> 'a \<Rightarrow> 'a" where
  "or_default x d = (case x of None \<Rightarrow> d | Some v \<Rightarrow> v)"

definition open_store :: "store_options \<Rightarrow> store_config rocks_res" where
  "open_store options =
     bindE (rejectUnsupportedRocksDbTuningOptions options) (\<lambda>_.
     let dbPath = js_trim (so_path options) in
     if dbPath = [] then Inl PathRequired
     else
       bindE (normalizeNamespace (so_namespace options)) (\<lambda>ns.
         Inr \<lparr>sc_dbPath = dbPath, sc_namespace = ns,
              sc_parallelismThreads = or_default (so_parallelismThreads options) defaultParallelismThreads,
              sc_disableWAL = or_default (so_disableWAL options) False,
              sc_enableStats = or_default (so_enableStats options) False,
              sc_noBlockCache = or_default (so_noBlockCache options) False,
              sc_pessimistic = so_pessimistic options,
              sc_readOnly = so_readOnly options,
              sc_statsLevel = so_statsLevel options,
              sc_transactionLogMaxAgeThreshold = so_transactionLogMaxAgeThreshold options,
              sc_transactionLogMaxSize = so_transactionLogMaxSize options,
              sc_transactionLogRetention = so_transactionLogRetention options,
              sc_transactionLogsPath = so_transactionLogsPath options,
              sc_blockCacheSize = so_blockCacheSize options,
              sc_compactOnClose = so_compactOnClose options\<rparr>))"

text \<open>The tuning object: a property is present only when the field is defined.\<close>

datatype tuning_value = TNum int | TBool bool | TStr jstr

definition present :: "string \<Rightarrow> tuning_value option \<Rightarrow> (string \<times> tuning_value) list" where
  "present name v = (case v of None \<Rightarrow> [] | Some x \<Rightarrow> [(name, x)])"

definition getTuningOptions :: "store_config \<Rightarrow> (string \<times> tuning_value) list" where
  "getTuningOptions c =
     [(''parallelismThreads'', TNum (sc_parallelismThreads c)),
      (''disableWAL'', TBool (sc_disableWAL c)),
      (''enableStats'', TBool (sc_enableStats c)),
      (''noBlockCache'', TBool (sc_noBlockCache c))] @
     present ''pessimistic'' (map_option TBool (sc_pessimistic c)) @
     present ''readOnly'' (map_option TBool (sc_readOnly c)) @
     present ''statsLevel'' (map_option TNum (sc_statsLevel c)) @
     present ''transactionLogMaxAgeThreshold'' (map_option TNum (sc_transactionLogMaxAgeThreshold c)) @
     present ''transactionLogMaxSize'' (map_option TNum (sc_transactionLogMaxSize c)) @
     present ''transactionLogRetention'' (map_option TStr (sc_transactionLogRetention c)) @
     present ''transactionLogsPath'' (map_option TStr (sc_transactionLogsPath c)) @
     present ''blockCacheSize'' (map_option TNum (sc_blockCacheSize c)) @
     present ''compactOnClose'' (map_option TBool (sc_compactOnClose c))"

section \<open>Maintenance\<close>

definition rocks_flush :: "'db kv \<Rightarrow> ('db, rocks_error, unit) sem" where
  "rocks_flush K = (\<lambda>db. (Inr (), kv_flush K db))"

definition rocks_compact :: "'db kv \<Rightarrow> jstr \<Rightarrow> jstr option \<Rightarrow> ('db, rocks_error, unit) sem" where
  "rocks_compact K ns pfx =
     bindS (liftS (case pfx of None \<Rightarrow> Inr [] | Some p \<Rightarrow> normalizeKey p)) (\<lambda>p.
     (\<lambda>db. (Inr (), kv_compact K db (storageKey ns p) (storageKey ns p @ [ch_max]))))"

record snapshot_preparation =
  sp_path :: jstr
  sp_preparedAt :: int
  sp_compacted :: bool

definition prepareForFilesystemSnapshot ::
  "'db kv \<Rightarrow> store_config \<Rightarrow> int \<Rightarrow> bool option \<Rightarrow> ('db, rocks_error, snapshot_preparation) sem" where
  "prepareForFilesystemSnapshot K c now compact =
     bindS (rocks_flush K) (\<lambda>_.
     bindS (if compact = Some True then rocks_compact K (sc_namespace c) None else retS ()) (\<lambda>_.
       retS \<lparr>sp_path = sc_dbPath c, sp_preparedAt = now, sp_compacted = (compact = Some True)\<rparr>))"

context rocks_store
begin

lemma flush_view: "rocks_flush K db = (Inr (), kv_flush K db) \<and> vview K ns (kv_flush K db) = vview K ns db"
  by (simp add: rocks_flush_def vview_def get_flush)

lemma compact_view: "\<exists>db'. rocks_compact K ns' None db = (Inr (), db') \<and> vview K ns db' = vview K ns db"
  by (simp add: rocks_compact_def vview_def get_compact)

end

definition sample_options :: store_options where
  "sample_options = \<lparr>so_path = js ''/data'', so_namespace = Some (js ''w''), so_encoding = None,
     so_parallelismThreads = Some 4, so_disableWAL = None, so_enableStats = None, so_noBlockCache = None,
     so_pessimistic = None, so_readOnly = Some False, so_statsLevel = None,
     so_transactionLogMaxAgeThreshold = None, so_transactionLogMaxSize = None,
     so_transactionLogRetention = None, so_transactionLogsPath = None, so_blockCacheSize = None,
     so_compactOnClose = None, so_extra = []\<rparr>"

definition sample_config :: store_config where
  "sample_config = projr (open_store sample_options)"

text \<open>preparing a snapshot always succeeds, reports whether it compacted, and leaves every record of
  every namespace as it was.\<close>

theorem snapshot_keeps_records:
  assumes "rocks_db K"
  shows "\<exists>db' r. prepareForFilesystemSnapshot K c now compact db = (Inr r, db') \<and>
    sp_compacted r = (compact = Some True) \<and> sp_path r = sc_dbPath c \<and> (\<forall>ns. vview K ns db' = vview K ns db)"
  using rocks_db.get_flush [OF assms] rocks_db.get_compact [OF assms]
  by (auto simp: prepareForFilesystemSnapshot_def rocks_flush_def rocks_compact_def bindS_def vview_def)

theorem snapshot_keeps_records_witness:
  "\<exists>db' r. prepareForFilesystemSnapshot mem_kv sample_config 5 (Some True) sample_db = (Inr r, db') \<and> sp_compacted r"
  using snapshot_keeps_records [OF mem.rocks_db_axioms, of sample_config 5 "Some True" sample_db] by auto

lemma map_of_present:
  "map_of (present n x) m = (if m = n then x else None)"
  by (auto simp: present_def split: option.splits)

text \<open>a store opened without unsupported options, with a path and a namespace that are not blank,
  reports in its tuning object every option that was set, with the value given, and the four options
  that have a default always.\<close>

theorem open_reports_tuning:
  assumes "\<forall>k \<in> set (so_extra opts). k \<notin> set UNSUPPORTED_SOURCE_TUNING_OPTIONS"
    and "js_trim (so_path opts) \<noteq> []" and "normalizeNamespace (so_namespace opts) = Inr ns"
  shows "\<exists>c. open_store opts = Inr c \<and> sc_namespace c = ns \<and>
    map_of (getTuningOptions c) ''parallelismThreads''
      = Some (TNum (case so_parallelismThreads opts of None \<Rightarrow> 12 | Some m \<Rightarrow> m)) \<and>
    map_of (getTuningOptions c) ''disableWAL'' = Some (TBool (so_disableWAL opts = Some True)) \<and>
    map_of (getTuningOptions c) ''readOnly'' = map_option TBool (so_readOnly opts) \<and>
    map_of (getTuningOptions c) ''transactionLogMaxSize'' = map_option TNum (so_transactionLogMaxSize opts) \<and>
    map_of (getTuningOptions c) ''transactionLogsPath'' = map_option TStr (so_transactionLogsPath opts) \<and>
    map_of (getTuningOptions c) ''compactOnClose'' = map_option TBool (so_compactOnClose opts)"
proof -
  have "find (\<lambda>k. k \<in> set (so_extra opts)) UNSUPPORTED_SOURCE_TUNING_OPTIONS = None"
    using assms(1) by (auto simp: find_None_all)
  with assms show ?thesis
    by (simp add: open_store_def rejectUnsupportedRocksDbTuningOptions_def getTuningOptions_def Let_def or_default_def
        defaultParallelismThreads_def map_of_present map_add_def split: option.split)
qed

theorem open_reports_tuning_witness:
  "\<exists>c. open_store sample_options = Inr c \<and>
     map_of (getTuningOptions c) ''parallelismThreads'' = Some (TNum 4) \<and>
     map_of (getTuningOptions c) ''readOnly'' = Some (TBool False) \<and>
     map_of (getTuningOptions c) ''compactOnClose'' = None"
proof -
  have "\<forall>k \<in> set (so_extra sample_options). k \<notin> set UNSUPPORTED_SOURCE_TUNING_OPTIONS"
    by (simp add: sample_options_def)
  moreover have "js_trim (so_path sample_options) \<noteq> []"
    by (simp add: sample_options_def js_def js_trim_def js_space_def)
  moreover have "\<exists>ns. normalizeNamespace (so_namespace sample_options) = Inr ns"
    by (simp add: sample_options_def normalizeNamespace_def js_def js_trim_def js_space_def ch_bang_def Let_def strip_bangs_def)
  ultimately show ?thesis using open_reports_tuning [of sample_options] by (auto simp: sample_options_def)
qed

end
