(* ===== verification/RocksIds.thy ===== *)
theory RocksIds
  imports Prelude
begin

text \<open>
  The allocation of row ids in \<^verbatim>\<open>src/src/storage/StorageRocksDb.ts\<close> (\<open>nextId\<close>,
  \<open>refillIdBlock\<close>) as a step relation.

  A process keeps a block of ids for a table and hands them out without touching the store; when the
  block is used up, it takes a new one from the counter in the store with \<open>incrementNumber\<close>. Several
  callers of \<open>nextId\<close> wait for the same refill (\<open>idBlockRefills\<close>). A step is a piece of code between
  two \<open>await\<close>s, so the steps of any number of callers and of several processes over one store (or of
  a process before and after a restart) interleave freely.
\<close>

definition ROCKSDB_ID_BLOCK_SIZE :: int where
  "ROCKSDB_ID_BLOCK_SIZE = 256"

text \<open>The promise in \<open>idBlockRefills\<close>: none, before the increment of the counter, or after it.\<close>

datatype refill = NoRefill | Requested | Allocated int

record id_block =
  ib_next :: int
  ib_end :: int

record id_state =
  ids_counter :: int
  ids_blocks :: "nat \<Rightarrow> id_block option"
  ids_refills :: "nat \<Rightarrow> refill"
  ids_issued :: "(nat \<times> int) list"

datatype id_event = Issue nat | StartRefill nat | Increment nat | Install nat | FailRefill nat | Restart nat

definition block_available :: "id_block option \<Rightarrow> bool" where
  "block_available b = (case b of None \<Rightarrow> False | Some x \<Rightarrow> ib_next x \<le> ib_end x)"

text \<open>One step of process \<open>p\<close>; \<open>None\<close> when the step is not enabled.\<close>

fun id_step :: "id_event \<Rightarrow> id_state \<Rightarrow> id_state option" where
  "id_step (Issue p) s =
     (case ids_blocks s p of
        None \<Rightarrow> None
      | Some b \<Rightarrow>
          if ib_next b \<le> ib_end b
          then Some (s\<lparr>ids_blocks := (ids_blocks s)(p := Some (b\<lparr>ib_next := ib_next b + 1\<rparr>)),
                       ids_issued := (p, ib_next b) # ids_issued s\<rparr>)
          else None)"
| "id_step (StartRefill p) s =
     (if \<not> block_available (ids_blocks s p) \<and> ids_refills s p = NoRefill
      then Some (s\<lparr>ids_refills := (ids_refills s)(p := Requested)\<rparr>) else None)"
| "id_step (Increment p) s =
     (if ids_refills s p = Requested
      then (let end = ids_counter s + ROCKSDB_ID_BLOCK_SIZE in
            Some (s\<lparr>ids_counter := end, ids_refills := (ids_refills s)(p := Allocated end)\<rparr>))
      else None)"
| "id_step (Install p) s =
     (case ids_refills s p of
        Allocated end \<Rightarrow>
          Some (s\<lparr>ids_blocks := (ids_blocks s)(p := Some \<lparr>ib_next = end - ROCKSDB_ID_BLOCK_SIZE + 1, ib_end = end\<rparr>),
                  ids_refills := (ids_refills s)(p := NoRefill)\<rparr>)
      | _ \<Rightarrow> None)"
| "id_step (FailRefill p) s =
     (if ids_refills s p = Requested
      then Some (s\<lparr>ids_refills := (ids_refills s)(p := NoRefill)\<rparr>) else None)"
| "id_step (Restart p) s =
     Some (s\<lparr>ids_blocks := (ids_blocks s)(p := None), ids_refills := (ids_refills s)(p := NoRefill)\<rparr>)"

definition id_init :: "int \<Rightarrow> id_state" where
  "id_init c = \<lparr>ids_counter = c, ids_blocks = (\<lambda>_. None), ids_refills = (\<lambda>_. NoRefill), ids_issued = []\<rparr>"

inductive id_reachable :: "int \<Rightarrow> id_state \<Rightarrow> bool" for c where
  init: "id_reachable c (id_init c)"
| step: "id_reachable c s \<Longrightarrow> id_step e s = Some t \<Longrightarrow> id_reachable c t"

fun id_run :: "id_event list \<Rightarrow> id_state \<Rightarrow> id_state option" where
  "id_run [] s = Some s"
| "id_run (e # es) s = (case id_step e s of None \<Rightarrow> None | Some t \<Rightarrow> id_run es t)"

lemma id_run_reachable: "id_reachable c s \<Longrightarrow> id_run es s = Some t \<Longrightarrow> id_reachable c t"
  by (induction es arbitrary: s) (auto split: option.splits intro: id_reachable.step)

section \<open>The invariant\<close>

text \<open>The ids a process may still hand out.\<close>

definition free_ids :: "id_state \<Rightarrow> nat \<Rightarrow> int set" where
  "free_ids s p = (case ids_blocks s p of None \<Rightarrow> {} | Some b \<Rightarrow> {ib_next b .. ib_end b}) \<union>
     (case ids_refills s p of Allocated end \<Rightarrow> {end - ROCKSDB_ID_BLOCK_SIZE + 1 .. end} | _ \<Rightarrow> {})"

definition id_inv :: "int \<Rightarrow> id_state \<Rightarrow> bool" where
  "id_inv c s \<longleftrightarrow> c \<le> ids_counter s \<and> (\<forall>p. free_ids s p \<subseteq> {c <.. ids_counter s}) \<and>
     snd ` set (ids_issued s) \<subseteq> {c <.. ids_counter s} \<and>
     (\<forall>p q. p \<noteq> q \<longrightarrow> free_ids s p \<inter> free_ids s q = {}) \<and>
     (\<forall>p. snd ` set (ids_issued s) \<inter> free_ids s p = {}) \<and>
     distinct (map snd (ids_issued s)) \<and>
     (\<forall>p. ids_refills s p \<noteq> NoRefill \<longrightarrow> \<not> block_available (ids_blocks s p))"

text \<open>A step changes the free ids of its process only.\<close>

lemma id_step_other:
  "id_step e s = Some t \<Longrightarrow> q \<noteq> (case e of Issue p \<Rightarrow> p | StartRefill p \<Rightarrow> p | Increment p \<Rightarrow> p
      | Install p \<Rightarrow> p | FailRefill p \<Rightarrow> p | Restart p \<Rightarrow> p) \<Longrightarrow>
     free_ids t q = free_ids s q \<and> ids_refills t q = ids_refills s q \<and> ids_blocks t q = ids_blocks s q"
  by (cases e) (auto simp: free_ids_def Let_def split: option.splits if_splits refill.splits)

lemma id_inv_step_rule:
  assumes inv: "id_inv c s"
    and other: "\<And>q. q \<noteq> p \<Longrightarrow> free_ids t q = free_ids s q \<and> ids_refills t q = ids_refills s q \<and>
      ids_blocks t q = ids_blocks s q"
    and cnt: "ids_counter s \<le> ids_counter t"
    and iss: "ids_issued t = ids_issued s \<or> (\<exists>i \<in> free_ids s p. ids_issued t = (p, i) # ids_issued s \<and> i \<notin> free_ids t p)"
    and free: "free_ids t p \<subseteq> free_ids s p \<union> {ids_counter s <.. ids_counter t}"
    and ref: "ids_refills t p \<noteq> NoRefill \<longrightarrow> \<not> block_available (ids_blocks t p)"
  shows "id_inv c t"
proof -
  have s: "c \<le> ids_counter s" "\<And>q. free_ids s q \<subseteq> {c <.. ids_counter s}"
    "snd ` set (ids_issued s) \<subseteq> {c <.. ids_counter s}"
    "\<And>q r. q \<noteq> r \<Longrightarrow> free_ids s q \<inter> free_ids s r = {}"
    "\<And>q. snd ` set (ids_issued s) \<inter> free_ids s q = {}" "distinct (map snd (ids_issued s))"
    "\<And>q. ids_refills s q \<noteq> NoRefill \<longrightarrow> \<not> block_available (ids_blocks s q)"
    using inv by (simp_all add: id_inv_def)
  define old new all where "old = {c <.. ids_counter s}" and "new = {ids_counter s <.. ids_counter t}"
    and "all = {c <.. ids_counter t}"
  have sub: "old \<subseteq> all" "new \<subseteq> all" "old \<inter> new = {}"
    using cnt s(1) by (auto simp: old_def new_def all_def)
  note s' = s(2,3) [folded old_def] and free' = free [folded new_def]
  have oth: "q \<noteq> p \<Longrightarrow> free_ids t q = free_ids s q" for q using other by blast
  have f: "free_ids t q \<subseteq> all" for q
    using s'(1) [of q] free' oth [of q] sub(1,2) by (cases "q = p") blast+
  have d: "free_ids t q \<inter> free_ids t p = {}" if "q \<noteq> p" for q
    using s(4) [OF that] s'(1) [of q] free' oth [OF that] sub(3) by blast
  have i: "snd ` set (ids_issued t) \<subseteq> snd ` set (ids_issued s) \<union> free_ids s p" using iss by auto
  have di: "distinct (map snd (ids_issued t))"
    using iss
  proof
    assume "\<exists>i \<in> free_ids s p. ids_issued t = (p, i) # ids_issued s \<and> i \<notin> free_ids t p"
    then obtain i where i: "i \<in> free_ids s p" "ids_issued t = (p, i) # ids_issued s" by blast
    then have "i \<notin> snd ` set (ids_issued s)" using s(5) [of p] by blast
    with i(2) s(6) show ?thesis by simp
  qed (use s(6) in simp)
  have n: "snd ` set (ids_issued t) \<inter> free_ids t q = {}" for q
  proof (cases "q = p")
    case True
    have "snd ` set (ids_issued s) \<inter> free_ids t p = {}" using s'(2) s(5) [of p] free' sub(3) by blast
    from iss this True show ?thesis by (elim disjE bexE conjE) simp_all
  next
    case False
    with i s(4) [OF False] s(5) [of q] oth [OF False] show ?thesis by blast
  qed
  have "snd ` set (ids_issued t) \<subseteq> all"
    using i s'(1) [of p] s'(2) sub(1) by blast
  moreover have "free_ids t q \<inter> free_ids t r = {}" if "q \<noteq> r" for q r
    using d [of q] d [of r] s(4) [OF that] oth [of q] oth [of r] that by (cases "q = p"; cases "r = p") auto
  moreover have "ids_refills t q \<noteq> NoRefill \<longrightarrow> \<not> block_available (ids_blocks t q)" for q
    using ref s(7) [of q] other [of q] by (cases "q = p") auto
  ultimately show ?thesis using s(1) cnt f di n by (simp add: id_inv_def all_def)
qed

lemma id_inv_step:
  assumes "id_inv c s" "id_step e s = Some t"
  shows "id_inv c t"
proof -
  have blk: "ids_refills s p \<noteq> NoRefill \<Longrightarrow> \<not> block_available (ids_blocks s p)" for p
    using assms(1) by (simp add: id_inv_def)
  show ?thesis
  proof (rule id_inv_step_rule [OF assms(1) id_step_other [OF assms(2)]], assumption)
    let ?p = "case e of Issue p \<Rightarrow> p | StartRefill p \<Rightarrow> p | Increment p \<Rightarrow> p
      | Install p \<Rightarrow> p | FailRefill p \<Rightarrow> p | Restart p \<Rightarrow> p"
    show "ids_counter s \<le> ids_counter t"
      using assms(2) by (cases e) (auto simp: Let_def ROCKSDB_ID_BLOCK_SIZE_def split: option.splits if_splits refill.splits)
    show "ids_issued t = ids_issued s \<or>
        (\<exists>i \<in> free_ids s ?p. ids_issued t = (?p, i) # ids_issued s \<and> i \<notin> free_ids t ?p)"
      using assms(2) blk [of ?p]
      by (cases e) (auto simp: Let_def free_ids_def block_available_def split: option.splits if_splits refill.splits)
    show "free_ids t ?p \<subseteq> free_ids s ?p \<union> {ids_counter s <.. ids_counter t}"
      using assms(2) blk [of ?p]
      by (cases e) (auto simp: Let_def free_ids_def block_available_def ROCKSDB_ID_BLOCK_SIZE_def
          split: option.splits if_splits refill.splits)
    show "ids_refills t ?p \<noteq> NoRefill \<longrightarrow> \<not> block_available (ids_blocks t ?p)"
      using assms(2) blk [of ?p]
      by (cases e) (auto simp: Let_def block_available_def split: option.splits if_splits refill.splits)
  qed
qed

lemma id_reachable_inv: "id_reachable c s \<Longrightarrow> id_inv c s"
proof (induction rule: id_reachable.induct)
  case init
  then show ?case by (simp add: id_inv_def id_init_def free_ids_def)
next
  case (step s e t)
  then show ?case using id_inv_step by blast
qed

lemma next_id_run:
  "\<exists>es t i. length es \<le> 4 \<and> id_run es s = Some t \<and> ids_issued t = (p, i) # ids_issued s"
proof (cases "block_available (ids_blocks s p)")
  case True
  then show ?thesis by (intro exI [of _ "[Issue p]"]) (auto simp: block_available_def split: option.splits)
next
  case False
  then show ?thesis
  proof (cases "ids_refills s p")
    case NoRefill
    with False show ?thesis
      by (intro exI [of _ "[StartRefill p, Increment p, Install p, Issue p]"])
        (auto simp: Let_def ROCKSDB_ID_BLOCK_SIZE_def)
  next
    case Requested
    then show ?thesis
      by (intro exI [of _ "[Increment p, Install p, Issue p]"]) (auto simp: Let_def ROCKSDB_ID_BLOCK_SIZE_def)
  next
    case (Allocated e)
    then show ?thesis
      by (intro exI [of _ "[Install p, Issue p]"]) (auto simp: ROCKSDB_ID_BLOCK_SIZE_def)
  qed
qed

text \<open>C27: however the callers of \<open>nextId\<close> in any number of processes interleave, fail and restart, no id
  is handed out twice, and every id is above the value the counter started from and at most its
  current value.\<close>

theorem ids_unique:
  assumes "id_reachable c s"
  shows "distinct (map snd (ids_issued s)) \<and> (\<forall>(p, i) \<in> set (ids_issued s). c < i \<and> i \<le> ids_counter s)"
proof -
  have "snd ` set (ids_issued s) \<subseteq> {c <.. ids_counter s}" "distinct (map snd (ids_issued s))"
    using id_reachable_inv [OF assms] by (simp_all add: id_inv_def)
  then show ?thesis by auto
qed

theorem ids_unique_witness:
  "\<exists>s. id_reachable 0 s \<and> map fst (ids_issued s) = [7, 3, 7] \<and> distinct (map snd (ids_issued s))"
proof -
  obtain es1 s1 i1 where 1: "id_run es1 (id_init 0) = Some s1" "ids_issued s1 = (7, i1) # ids_issued (id_init 0)"
    using next_id_run by blast
  obtain es2 s2 i2 where 2: "id_run es2 s1 = Some s2" "ids_issued s2 = (3, i2) # ids_issued s1"
    using next_id_run by blast
  obtain es3 s3 i3 where 3: "id_run es3 s2 = Some s3" "ids_issued s3 = (7, i3) # ids_issued s2"
    using next_id_run by blast
  have r: "id_reachable 0 s3"
    using id_run_reachable [OF _ 3(1)] id_run_reachable [OF _ 2(1)] id_run_reachable [OF _ 1(1)] id_reachable.init
    by blast
  moreover have "map fst (ids_issued s3) = [7, 3, 7]" using 1(2) 2(2) 3(2) by (simp add: id_init_def)
  ultimately show ?thesis using ids_unique [OF r] by (intro exI [of _ s3]) simp
qed

text \<open>a process is never stuck: from every state it can hand out an id in at most four of its own
  steps.\<close>

theorem next_id_available:
  "\<exists>es t i. length es \<le> 4 \<and> id_run es s = Some t \<and> ids_issued t = (p, i) # ids_issued s"
  by (rule next_id_run)

end
