(* ===== verification/HeightRanges.thy ===== *)
theory HeightRanges
  imports Prelude
begin

text \<open>
  Ranges of block heights, from
  \<^verbatim>\<open>src/src/services/chaintracker/chaintracks/util/HeightRange.ts\<close>.

  A range is a pair of bounds; \<open>heights\<close> is the set of heights it stands for, and each operation is
  shown to compute the set operation it is named after, or to throw exactly when the result would not
  be one range. \<open>height_algebra\<close> is the contract the chaintracks storage relies on; it is interpreted
  on the code's operations.
\<close>

record height_range =
  minHeight :: int
  maxHeight :: int

datatype range_error = UnionGap | SubtractSplits | CasesExhausted

definition new_range :: "int \<Rightarrow> int \<Rightarrow> height_range" where
  "new_range lo hi = \<lparr>minHeight = lo, maxHeight = hi\<rparr>"

definition empty_range :: height_range where
  "empty_range = new_range 0 (- 1)"

definition isEmpty :: "height_range \<Rightarrow> bool" where
  "isEmpty r \<longleftrightarrow> minHeight r > maxHeight r"

text \<open>\<open>HeightRange.from\<close>, on the heights of the headers.\<close>

definition range_from :: "int list \<Rightarrow> height_range" where
  "range_from hs = (case hs of [] \<Rightarrow> empty_range
     | h # _ \<Rightarrow> new_range (foldl min h hs) (foldl max h hs))"

definition range_length :: "height_range \<Rightarrow> int" where
  "range_length r = max 0 (maxHeight r - minHeight r + 1)"

definition range_copy :: "height_range \<Rightarrow> height_range" where
  "range_copy r = new_range (minHeight r) (maxHeight r)"

definition containsHeight :: "height_range \<Rightarrow> int \<Rightarrow> bool" where
  "containsHeight r h \<longleftrightarrow> minHeight r \<le> h \<and> maxHeight r \<ge> h"

definition containsRange :: "height_range \<Rightarrow> height_range \<Rightarrow> bool" where
  "containsRange r q \<longleftrightarrow> minHeight r \<le> minHeight q \<and> maxHeight r \<ge> maxHeight q"

definition intersect :: "height_range \<Rightarrow> height_range \<Rightarrow> height_range" where
  "intersect r q = new_range (max (minHeight r) (minHeight q)) (min (maxHeight r) (maxHeight q))"

definition range_union :: "height_range \<Rightarrow> height_range \<Rightarrow> range_error + height_range" where
  "range_union r q =
     (if isEmpty r then Inr (range_copy q)
      else if isEmpty q then Inr (range_copy r)
      else if maxHeight r + 1 < minHeight q \<or> maxHeight q + 1 < minHeight r then Inl UnionGap
      else Inr (new_range (min (minHeight r) (minHeight q)) (max (maxHeight r) (maxHeight q))))"

definition range_subtract :: "height_range \<Rightarrow> height_range \<Rightarrow> range_error + height_range" where
  "range_subtract r q =
     (if isEmpty r \<or> isEmpty q then Inr (range_copy r)
      else if minHeight r < minHeight q \<and> maxHeight r > maxHeight q then Inl SubtractSplits
      else if maxHeight q < minHeight r \<or> minHeight q > maxHeight r then Inr (range_copy r)
      else if minHeight q \<le> minHeight r \<and> maxHeight q < maxHeight r
        then Inr (new_range (maxHeight q + 1) (maxHeight r))
      else if minHeight q \<le> minHeight r \<and> maxHeight q \<ge> maxHeight r
        then Inr (new_range (minHeight r) (minHeight r - 1))
      else if minHeight q \<le> maxHeight r \<and> maxHeight q \<ge> maxHeight r
        then Inr (new_range (minHeight r) (minHeight q - 1))
      else Inl CasesExhausted)"

definition above :: "height_range \<Rightarrow> height_range \<Rightarrow> height_range" where
  "above r q = (if isEmpty q \<or> isEmpty r then range_copy r else new_range (maxHeight q + 1) (maxHeight r))"

section \<open>The set a range stands for\<close>

definition heights :: "height_range \<Rightarrow> int set" where
  "heights r = {minHeight r .. maxHeight r}"

lemma new_range_simps [simp]:
  "minHeight (new_range lo hi) = lo" "maxHeight (new_range lo hi) = hi" "heights (new_range lo hi) = {lo .. hi}"
  by (simp_all add: new_range_def heights_def)

lemma range_copy_id [simp]: "range_copy r = r"
  by (simp add: range_copy_def new_range_def)

lemma isEmpty_iff: "isEmpty r \<longleftrightarrow> heights r = {}"
  by (auto simp: isEmpty_def heights_def)

lemma foldl_min_max:
  fixes h :: int
  shows "foldl min h hs \<in> set (h # hs)" "foldl max h hs \<in> set (h # hs)"
    "x \<in> set (h # hs) \<Longrightarrow> foldl min h hs \<le> x" "x \<in> set (h # hs) \<Longrightarrow> x \<le> foldl max h hs"
proof -
  have m: "foldl min h hs \<in> set (h # hs) \<and> (\<forall>x \<in> set (h # hs). foldl min h hs \<le> x)" for h :: int
  proof (induction hs arbitrary: h)
    case (Cons a hs)
    from Cons [of "min h a"] show ?case by (auto simp: min_def split: if_splits)
  qed simp
  have n: "foldl max h hs \<in> set (h # hs) \<and> (\<forall>x \<in> set (h # hs). x \<le> foldl max h hs)" for h :: int
  proof (induction hs arbitrary: h)
    case (Cons a hs)
    from Cons [of "max h a"] show ?case by (auto simp: max_def split: if_splits)
  qed simp
  show "foldl min h hs \<in> set (h # hs)" "foldl max h hs \<in> set (h # hs)"
    "x \<in> set (h # hs) \<Longrightarrow> foldl min h hs \<le> x" "x \<in> set (h # hs) \<Longrightarrow> x \<le> foldl max h hs"
    using m [of h] n [of h] by blast+
qed

text \<open>The contract of a range algebra over an abstraction to sets of heights.\<close>

locale height_algebra =
  fixes hts :: "'r \<Rightarrow> int set"
    and inter :: "'r \<Rightarrow> 'r \<Rightarrow> 'r"
    and uni :: "'r \<Rightarrow> 'r \<Rightarrow> range_error + 'r"
    and sub :: "'r \<Rightarrow> 'r \<Rightarrow> range_error + 'r"
  assumes inter_sets: "hts (inter r q) = hts r \<inter> hts q"
    and uni_sets: "uni r q = Inr u \<Longrightarrow> hts u = hts r \<union> hts q"
    and sub_sets: "sub r q = Inr d \<Longrightarrow> hts d = hts r - hts q"
    and sub_splits: "sub r q = Inl e \<Longrightarrow>
      e = SubtractSplits \<and> (\<exists>a b c. a < b \<and> b < c \<and> a \<in> hts r - hts q \<and> b \<in> hts q \<and> c \<in> hts r - hts q)"
begin

text \<open>Cutting a range out and putting it back changes nothing, whenever both steps succeed.\<close>

lemma sub_uni:
  assumes "sub r q = Inr d" "uni d (inter r q) = Inr u"
  shows "hts u = hts r"
  using sub_sets [OF assms(1)] uni_sets [OF assms(2)] inter_sets [of r q] by auto

lemma uni_sub:
  assumes "uni r q = Inr u" "sub u q = Inr d" "hts r \<inter> hts q = {}"
  shows "hts d = hts r"
  using uni_sets [OF assms(1)] sub_sets [OF assms(2)] assms(3) by auto

end

lemma intersect_sets: "heights (intersect r q) = heights r \<inter> heights q"
  by (auto simp: intersect_def heights_def)

lemma union_sets: "range_union r q = Inr u \<Longrightarrow> heights u = heights r \<union> heights q"
  by (auto simp: range_union_def isEmpty_def heights_def new_range_def split: if_splits)

lemma subtract_sets: "range_subtract r q = Inr d \<Longrightarrow> heights d = heights r - heights q"
  by (auto simp: range_subtract_def isEmpty_def heights_def new_range_def split: if_splits)

lemma subtract_splits:
  assumes "range_subtract r q = Inl e"
  shows "e = SubtractSplits \<and>
    (\<exists>a b c. a < b \<and> b < c \<and> a \<in> heights r - heights q \<and> b \<in> heights q \<and> c \<in> heights r - heights q)"
proof -
  have *: "minHeight r < minHeight q" "maxHeight q < maxHeight r" "minHeight q \<le> maxHeight q" "e = SubtractSplits"
    using assms by (auto simp: range_subtract_def isEmpty_def split: if_splits)
  then have "minHeight r \<in> heights r - heights q" "minHeight q \<in> heights q" "maxHeight r \<in> heights r - heights q"
    by (auto simp: heights_def)
  with * show ?thesis by (meson less_le_trans le_less_trans)
qed

interpretation hr: height_algebra heights intersect range_union range_subtract
  by unfold_locales (rule intersect_sets, erule union_sets, erule subtract_sets, erule subtract_splits)

text \<open>the union of two ranges is the union of their sets of heights, and it is refused exactly when
  neither is empty and there is a height strictly between them.\<close>

theorem range_union_correct:
  "(\<exists>u. range_union r q = Inr u \<and> heights u = heights r \<union> heights q) \<or>
   (range_union r q = Inl UnionGap \<and> heights r \<noteq> {} \<and> heights q \<noteq> {} \<and>
    (\<exists>h. h \<notin> heights r \<union> heights q \<and>
       ((\<forall>x \<in> heights r. \<forall>y \<in> heights q. x < h \<and> h < y) \<or> (\<forall>x \<in> heights r. \<forall>y \<in> heights q. y < h \<and> h < x))))"
proof (cases "range_union r q")
  case (Inr u)
  then show ?thesis using union_sets by blast
next
  case (Inl e)
  then have *: "minHeight r \<le> maxHeight r" "minHeight q \<le> maxHeight q" "e = UnionGap"
    "maxHeight r + 1 < minHeight q \<or> maxHeight q + 1 < minHeight r"
    by (auto simp: range_union_def isEmpty_def split: if_splits)
  let ?h = "if maxHeight r + 1 < minHeight q then maxHeight r + 1 else maxHeight q + 1"
  have "?h \<notin> heights r \<union> heights q" "heights r \<noteq> {}" "heights q \<noteq> {}"
    "(\<forall>x \<in> heights r. \<forall>y \<in> heights q. x < ?h \<and> ?h < y) \<or> (\<forall>x \<in> heights r. \<forall>y \<in> heights q. y < ?h \<and> ?h < x)"
    using * by (auto simp: heights_def)
  with * Inl show ?thesis by blast
qed

text \<open>subtracting a range removes exactly its heights; the only refusal is when heights of the first
  range remain on both sides, so the last error of the method is never thrown.\<close>

theorem range_subtract_correct:
  "(\<exists>d. range_subtract r q = Inr d \<and> heights d = heights r - heights q) \<or>
   (range_subtract r q = Inl SubtractSplits \<and>
    (\<exists>a b c. a < b \<and> b < c \<and> a \<in> heights r - heights q \<and> b \<in> heights q \<and> c \<in> heights r - heights q))"
  using hr.sub_sets [of r q] hr.sub_splits [of r q] by (cases "range_subtract r q") auto

text \<open>the range of a list of headers is the smallest range that holds all their heights, the length of
  a range counts its heights, and intersection and containment are those of the sets.\<close>

theorem range_from_tight:
  "(\<forall>h \<in> set hs. containsHeight (range_from hs) h) \<and>
   (hs \<noteq> [] \<longrightarrow> minHeight (range_from hs) \<in> set hs \<and> maxHeight (range_from hs) \<in> set hs) \<and>
   range_length r = int (card (heights r)) \<and> heights (intersect r q) = heights r \<inter> heights q \<and>
   (containsHeight r h \<longleftrightarrow> h \<in> heights r) \<and> (heights q \<noteq> {} \<longrightarrow> containsRange r q = (heights q \<subseteq> heights r))"
proof (intro conjI)
  show "\<forall>h \<in> set hs. containsHeight (range_from hs) h"
    "hs \<noteq> [] \<longrightarrow> minHeight (range_from hs) \<in> set hs \<and> maxHeight (range_from hs) \<in> set hs"
    using foldl_min_max [where h = "hd hs" and hs = hs]
    by (cases hs; auto simp: range_from_def containsHeight_def)+
qed (auto simp: range_length_def heights_def containsHeight_def containsRange_def intersect_def)

theorem range_from_tight_witness:
  "range_from [7, 3, 5] = new_range 3 7 \<and> minHeight (range_from [7, 3, 5]) \<in> set [7, 3, 5]"
  using range_from_tight [of "[7, 3, 5]"] by (simp add: range_from_def)

text \<open>\<open>above\<close> is the part of a range above another one only when the other one reaches up to its lower
  bound; otherwise the result starts below the range itself.\<close>

theorem above_not_a_part:
  "heights (above (new_range 10 20) (new_range 0 3)) = {4 .. 20} \<and>
   (\<not> isEmpty r \<and> \<not> isEmpty q \<and> minHeight r \<le> maxHeight q + 1 \<longrightarrow>
      heights (above r q) = {h \<in> heights r. maxHeight q < h})"
  by (auto simp: above_def isEmpty_def heights_def new_range_def)

theorem above_not_a_part_witness:
  "heights (above (new_range 10 20) (new_range 0 12)) = {h \<in> heights (new_range 10 20). 12 < h}"
  using above_not_a_part [of "new_range 10 20" "new_range 0 12"] by (simp add: isEmpty_def)

end
