(* ===== verification/JsBits.thy ===== *)
theory JsBits
  imports Prelude "HOL-Library.Word"
begin

text \<open>
  The bitwise operators of JavaScript on numbers: both operands are converted to 32-bit words, and the
  result is read as a signed number. Bytes of a number, big and little endian, and hexadecimal strings.
\<close>

unbundle bit_operations_syntax

definition to_word :: "int \<Rightarrow> 32 word" where
  "to_word n = word_of_int n"

definition js_and :: "int \<Rightarrow> int \<Rightarrow> int" where
  "js_and a b = sint (to_word a AND to_word b)"

definition js_or :: "int \<Rightarrow> int \<Rightarrow> int" where
  "js_or a b = sint (to_word a OR to_word b)"

definition js_shl :: "int \<Rightarrow> nat \<Rightarrow> int" where
  "js_shl a k = sint (push_bit k (to_word a))"

definition js_sar :: "int \<Rightarrow> nat \<Rightarrow> int" where
  "js_sar a k = sint (signed_drop_bit k (to_word a))"

lemma js_to_bits:
  "js_and a b = signed_take_bit 31 (a AND b)"
  "js_or a b = signed_take_bit 31 (a OR b)"
  "js_shl a k = signed_take_bit 31 (push_bit k a)"
  "js_sar a k = drop_bit k (signed_take_bit 31 a)"
proof -
  have w: "sint (to_word n) = signed_take_bit 31 n" for n
    by (rule bit_eqI) (auto simp: to_word_def bit_simps min_def)
  show "js_sar a k = drop_bit k (signed_take_bit 31 a)"
    by (simp add: js_sar_def sint_signed_drop_bit_eq w)
qed (rule bit_eqI; auto simp: js_and_def js_or_def js_shl_def to_word_def bit_simps min_def)+

lemma and_255: "a AND 255 = take_bit 8 (a :: int)"
proof -
  have "(255 :: int) = mask 8" by (simp add: mask_eq_exp_minus_1)
  then show ?thesis by (simp add: take_bit_eq_mask)
qed

text \<open>The byte of a number at a given position, for every number.\<close>

definition byte_at :: "nat \<Rightarrow> int \<Rightarrow> int" where
  "byte_at k n = n div 2 ^ (8 * k) mod 256"

lemma byte_at_range: "0 \<le> byte_at k n \<and> byte_at k n < 256"
  by (simp add: byte_at_def)

lemma byte_at_bits: "byte_at k n = take_bit 8 (drop_bit (8 * k) n)"
  by (simp add: byte_at_def take_bit_eq_mod drop_bit_eq_div)

lemma js_byte:
  "js_and n 255 = byte_at 0 n"
  "k \<le> 3 \<Longrightarrow> js_and (js_sar n (8 * k)) 255 = byte_at k n"
proof -
  show "js_and n 255 = byte_at 0 n"
    unfolding js_to_bits and_255 byte_at_bits by (rule bit_eqI) (auto simp: bit_simps min_def)
  assume k: "k \<le> 3"
  have e: "8 * k + i = 31" if "i < 8" "31 \<le> 8 * k + i" for i
    using k that by linarith
  show "js_and (js_sar n (8 * k)) 255 = byte_at k n"
    unfolding js_to_bits and_255 byte_at_bits
    by (intro bit_eqI) (auto simp: bit_simps min_def; metis e)
qed

text \<open>Four bytes read as a number with \<open>|\<close> and \<open><<\<close>.\<close>

definition four_bytes :: "int \<Rightarrow> int \<Rightarrow> int \<Rightarrow> int \<Rightarrow> int" where
  "four_bytes b0 b1 b2 b3 = b0 + 256 * b1 + 65536 * b2 + 16777216 * b3"

definition is_byte :: "int \<Rightarrow> bool" where
  "is_byte b \<longleftrightarrow> 0 \<le> b \<and> b < 256"

lemma is_byte_bits: "is_byte b \<Longrightarrow> take_bit 8 b = b"
  by (simp add: is_byte_def take_bit_eq_mod)

lemma or_bytes:
  assumes "is_byte b0" "is_byte b1" "is_byte b2" "is_byte b3"
  shows "b0 OR push_bit 8 b1 OR push_bit 16 b2 OR push_bit 24 b3 = four_bytes b0 b1 b2 b3"
proof -
  have a: "x OR push_bit n y = x + push_bit n y" if "take_bit n x = x" for x y :: int and n
    by (rule disjunctive_add [symmetric]) (metis bit_push_bit_iff bit_take_bit_iff not_less that)
  have t: "b OR push_bit 8 y = b + 256 * y" if "is_byte b" for b y
    using a [of 8 b y] is_byte_bits [OF that] by (simp add: push_bit_eq_mult mult.commute)
  have "b0 OR push_bit 8 b1 OR push_bit 16 b2 OR push_bit 24 b3 = b0 OR push_bit 8 (b1 OR push_bit 8 (b2 OR push_bit 8 b3))"
    by (rule bit_eqI) (auto simp: bit_simps)
  also have "\<dots> = four_bytes b0 b1 b2 b3" by (simp only: t assms) (simp add: four_bytes_def)
  finally show ?thesis .
qed

definition to_int32 :: "int \<Rightarrow> int" where
  "to_int32 n = (n + 2147483648) mod 4294967296 - 2147483648"

lemma to_int32_bits: "signed_take_bit 31 n = to_int32 n"
  by (simp add: to_int32_def signed_take_bit_eq_take_bit_shift take_bit_eq_mod)

lemma js_or_bytes:
  assumes "is_byte b0" "is_byte b1" "is_byte b2" "is_byte b3"
  shows "js_or (js_or (js_or b0 (js_shl b1 8)) (js_shl b2 16)) (js_shl b3 24) = to_int32 (four_bytes b0 b1 b2 b3)"
proof -
  have "js_or (js_or (js_or b0 (js_shl b1 8)) (js_shl b2 16)) (js_shl b3 24)
      = signed_take_bit 31 (b0 OR push_bit 8 b1 OR push_bit 16 b2 OR push_bit 24 b3)"
    unfolding js_to_bits by (rule bit_eqI) (auto simp: bit_simps min_def)
  then show ?thesis by (simp add: or_bytes [OF assms] to_int32_bits)
qed

lemma four_bytes_byte_at: "four_bytes (byte_at 0 n) (byte_at 1 n) (byte_at 2 n) (byte_at 3 n) = n mod 4294967296"
proof -
  have b: "is_byte (byte_at k n)" for k using byte_at_range by (simp add: is_byte_def)
  have "byte_at 0 n OR push_bit 8 (byte_at 1 n) OR push_bit 16 (byte_at 2 n) OR push_bit 24 (byte_at 3 n) = take_bit 32 n"
    unfolding byte_at_bits
  proof (rule bit_eqI)
    fix i
    show "bit (take_bit 8 (drop_bit (8 * 0) n) OR push_bit 8 (take_bit 8 (drop_bit (8 * 1) n)) OR
        push_bit 16 (take_bit 8 (drop_bit (8 * 2) n)) OR push_bit 24 (take_bit 8 (drop_bit (8 * 3) n))) i
      = bit (take_bit 32 n) i"
      by (cases "i < 8"; cases "i < 16"; cases "i < 24") (auto simp: bit_simps)
  qed
  then show ?thesis unfolding or_bytes [OF b b b b] by (simp add: take_bit_eq_mod)
qed

end
