(* ===== verification/Headers.thy ===== *)
theory Headers
  imports JsBits
begin

text \<open>
  Block headers, from
  \<^verbatim>\<open>src/src/services/chaintracker/chaintracks/util/blockHeaderUtilities.ts\<close> and
  \<^verbatim>\<open>dirtyHashes.ts\<close>: serialization, validation of headers and of buffers of headers, targets
  and chain work, and the byte order helpers.

  Byte arrays are \<open>int list\<close>. The package \<^verbatim>\<open>@bsv/sdk\<close> is not part of the repository: the hex
  codec, the 32-bit reader and writer and the hash are the record \<open>S\<close> with the laws of the locale
  \<open>header_sdk\<close>, and the big integers are the record \<open>B\<close> with the laws of \<open>bignum_laws\<close>. \<open>ref_sdk\<close>
  and \<open>int_bn\<close> are executable instances.
\<close>

section \<open>Hexadecimal strings\<close>

definition hex_digit :: "nat \<Rightarrow> nat" where
  "hex_digit d = (if d < 10 then 48 + d else 87 + d)"

definition hex_digit_val :: "nat \<Rightarrow> int" where
  "hex_digit_val c = (if 97 \<le> c then int c - 87 else int c - 48)"

definition is_hex :: "nat \<Rightarrow> bool" where
  "is_hex c \<longleftrightarrow> (48 \<le> c \<and> c \<le> 57) \<or> (97 \<le> c \<and> c \<le> 102)"

definition hex_val :: "jstr \<Rightarrow> int" where
  "hex_val s = foldl (\<lambda>a c. 16 * a + hex_digit_val c) 0 s"

definition be_val :: "int list \<Rightarrow> int" where
  "be_val bs = foldl (\<lambda>a b. 256 * a + b) 0 bs"

fun hex_of :: "nat \<Rightarrow> jstr" where
  "hex_of n = (if n < 16 then [hex_digit n] else hex_of (n div 16) @ [hex_digit (n mod 16)])"

declare hex_of.simps [simp del]

text \<open>Strings of 64 hexadecimal digits: hashes and chain work.\<close>

definition hash_string :: "jstr \<Rightarrow> bool" where
  "hash_string s \<longleftrightarrow> length s = 64 \<and> list_all is_hex s"

definition bytes :: "int list \<Rightarrow> bool" where
  "bytes bs \<longleftrightarrow> list_all is_byte bs"

lemma bytes_simps [simp]:
  "bytes []" "bytes (a # bs) \<longleftrightarrow> is_byte a \<and> bytes bs" "bytes (as @ bs) \<longleftrightarrow> bytes as \<and> bytes bs"
  "bytes (rev bs) = bytes bs"
  by (auto simp: bytes_def list_all_iff)

lemma bytes_take_drop [simp]: "bytes bs \<Longrightarrow> bytes (take n bs)" "bytes bs \<Longrightarrow> bytes (drop n bs)"
  by (auto simp: bytes_def list_all_iff dest: in_set_takeD in_set_dropD)

lemma hex_digit_val [simp]: "d < 16 \<Longrightarrow> hex_digit_val (hex_digit d) = int d" "d < 16 \<Longrightarrow> is_hex (hex_digit d)"
  by (auto simp: hex_digit_val_def hex_digit_def is_hex_def)

lemma hex_digit_val_range: "is_hex c \<Longrightarrow> 0 \<le> hex_digit_val c \<and> hex_digit_val c < 16"
  by (auto simp: is_hex_def hex_digit_val_def)

lemma hex_val_append: "hex_val (s @ [c]) = 16 * hex_val s + hex_digit_val c"
  by (simp add: hex_val_def)

lemma hex_val_hex_of [simp]: "hex_val (hex_of n) = int n"
proof (induction n rule: hex_of.induct)
  case (1 n)
  have "16 * int (n div 16) + int (n mod 16) = int n"
    by (metis mult_div_mod_eq of_nat_add of_nat_mult of_nat_numeral)
  then show ?case
    by (cases "n < 16")
      (simp add: hex_of.simps [of n] hex_val_def, simp add: hex_of.simps [of n] hex_val_append 1)
qed

lemma hex_of_hex: "list_all is_hex (hex_of n)"
proof (induction n rule: hex_of.induct)
  case (1 n)
  then show ?case by (subst hex_of.simps) simp
qed

lemma length_hex_of: "0 < w \<Longrightarrow> n < 16 ^ w \<Longrightarrow> length (hex_of n) \<le> w"
proof (induction n arbitrary: w rule: hex_of.induct)
  case (1 n w)
  show ?case
  proof (cases "n < 16")
    case True
    with 1 show ?thesis by (subst hex_of.simps) simp
  next
    case False
    with 1 have "w \<noteq> 0" "w \<noteq> 1" by auto
    then obtain v where w: "w = Suc v" "0 < v" by (cases w) auto
    then have "n div 16 < 16 ^ v" using 1 by (simp add: less_mult_imp_div_less mult.commute)
    with 1 False w show ?thesis by (subst hex_of.simps) simp
  qed
qed

lemma hex_val_pad [simp]: "hex_val (padStart0 w s) = hex_val s"
proof -
  have z: "foldl (\<lambda>a c. 16 * a + hex_digit_val c) 0 (replicate k 48) = 0" for k
    by (induction k) (simp_all add: hex_digit_val_def)
  show ?thesis by (simp add: hex_val_def padStart0_def z)
qed

lemma pad_hash_string:
  assumes "0 \<le> n" "n < 2 ^ 256"
  shows "hash_string (padStart0 64 (hex_of (nat n)))"
proof -
  have "(2 :: int) ^ 256 = 16 ^ 64" by (simp add: power_mult [of "2 :: int" 4 64, simplified])
  with assms have "int (nat n) < int (16 ^ 64)" by simp
  then have "nat n < 16 ^ 64" by (simp only: of_nat_less_iff)
  then have "length (hex_of (nat n)) \<le> 64" by (intro length_hex_of) simp
  then show ?thesis
    using hex_of_hex [of "nat n"] by (auto simp: hash_string_def padStart0_def list_all_iff is_hex_def)
qed

lemma hex_val_bound: "list_all is_hex s \<Longrightarrow> 0 \<le> hex_val s \<and> hex_val s < 16 ^ length s"
proof (induction s rule: rev_induct)
  case Nil
  then show ?case by (simp add: hex_val_def)
next
  case (snoc c s)
  then have "0 \<le> hex_val s" "hex_val s < 16 ^ length s" "0 \<le> hex_digit_val c" "hex_digit_val c < 16"
    using hex_digit_val_range [of c] by auto
  then show ?case by (simp add: hex_val_append)
qed

section \<open>The packages\<close>

record sdk =
  sdk_hex :: "int list \<Rightarrow> jstr"
  sdk_unhex :: "jstr \<Rightarrow> int list"
  sdk_w32 :: "int \<Rightarrow> int list"
  sdk_r32 :: "int list \<Rightarrow> int"
  sdk_hash256 :: "int list \<Rightarrow> int list"

definition uint32 :: "int \<Rightarrow> bool" where
  "uint32 n \<longleftrightarrow> 0 \<le> n \<and> n < 4294967296"

locale header_sdk =
  fixes S :: sdk
  assumes unhex_hex: "bytes bs \<Longrightarrow> sdk_unhex S (sdk_hex S bs) = bs"
    and hex_unhex: "hash_string h \<Longrightarrow> sdk_hex S (sdk_unhex S h) = h \<and> length (sdk_unhex S h) = 32 \<and>
      bytes (sdk_unhex S h) \<and> be_val (sdk_unhex S h) = hex_val h"
    and hex_hash: "bytes bs \<Longrightarrow> length bs = 32 \<Longrightarrow> hash_string (sdk_hex S bs)"
    and r32_w32: "uint32 n \<Longrightarrow> length (sdk_w32 S n) = 4 \<and> bytes (sdk_w32 S n) \<and> sdk_r32 S (sdk_w32 S n) = n"
    and w32_r32: "length bs = 4 \<Longrightarrow> bytes bs \<Longrightarrow> uint32 (sdk_r32 S bs) \<and> sdk_w32 S (sdk_r32 S bs) = bs"
    and hash256: "length (sdk_hash256 S bs) = 32 \<and> bytes (sdk_hash256 S bs)"

record 'b bignum =
  bn_ofHex :: "jstr \<Rightarrow> 'b"
  bn_ofBytes :: "int list \<Rightarrow> 'b"
  bn_ofInt :: "int \<Rightarrow> 'b"
  bn_add :: "'b \<Rightarrow> 'b \<Rightarrow> 'b"
  bn_sub :: "'b \<Rightarrow> 'b \<Rightarrow> 'b"
  bn_div :: "'b \<Rightarrow> 'b \<Rightarrow> 'b"
  bn_addn :: "'b \<Rightarrow> int \<Rightarrow> 'b"
  bn_notn :: "'b \<Rightarrow> nat \<Rightarrow> 'b"
  bn_shr :: "'b \<Rightarrow> nat \<Rightarrow> 'b"
  bn_shl :: "'b \<Rightarrow> nat \<Rightarrow> 'b"
  bn_gt :: "'b \<Rightarrow> 'b \<Rightarrow> bool"
  bn_lte :: "'b \<Rightarrow> 'b \<Rightarrow> bool"
  bn_toHex :: "'b \<Rightarrow> jstr"

locale bignum_laws =
  fixes B :: "'b bignum" and bval :: "'b \<Rightarrow> int"
  assumes of_hex: "list_all is_hex s \<Longrightarrow> bval (bn_ofHex B s) = hex_val s"
    and of_bytes: "bytes bs \<Longrightarrow> bval (bn_ofBytes B bs) = be_val bs"
    and of_int: "bval (bn_ofInt B n) = n"
    and add: "bval (bn_add B x y) = bval x + bval y"
    and sub: "bval (bn_sub B x y) = bval x - bval y"
    and div: "0 \<le> bval x \<Longrightarrow> 0 < bval y \<Longrightarrow> bval (bn_div B x y) = bval x div bval y"
    and addn: "bval (bn_addn B x n) = bval x + n"
    and notn: "0 \<le> bval x \<Longrightarrow> bval x < 2 ^ k \<Longrightarrow> bval (bn_notn B x k) = 2 ^ k - 1 - bval x"
    and shr: "0 \<le> bval x \<Longrightarrow> bval (bn_shr B x k) = bval x div 2 ^ k"
    and shl: "0 \<le> bval x \<Longrightarrow> bval (bn_shl B x k) = bval x * 2 ^ k"
    and gt: "bn_gt B x y \<longleftrightarrow> bval y < bval x"
    and lte: "bn_lte B x y \<longleftrightarrow> bval x \<le> bval y"
    and toHex: "0 \<le> bval x \<Longrightarrow> bn_toHex B x = hex_of (nat (bval x))"

section \<open>Targets and chain work\<close>

definition readUInt32LE :: "int list \<Rightarrow> nat \<Rightarrow> int" where
  "readUInt32LE a off = js_or (js_or (js_or (a ! off) (js_shl (a ! (off + 1)) 8)) (js_shl (a ! (off + 2)) 16))
     (js_shl (a ! (off + 3)) 24)"

definition readUInt32BE :: "int list \<Rightarrow> nat \<Rightarrow> int" where
  "readUInt32BE a off = js_or (js_or (js_or (js_shl (a ! off) 24) (js_shl (a ! (off + 1)) 16))
     (js_shl (a ! (off + 2)) 8)) (a ! (off + 3))"

definition workBNtoBuffer :: "'b bignum \<Rightarrow> 'b \<Rightarrow> jstr" where
  "workBNtoBuffer B work = padStart0 64 (bn_toHex B work)"

definition isMoreWork :: "sdk \<Rightarrow> 'b bignum \<Rightarrow> jstr \<Rightarrow> jstr \<Rightarrow> bool" where
  "isMoreWork S B work1 work2 =
     bn_gt B (bn_ofBytes B (sdk_unhex S work1)) (bn_ofBytes B (sdk_unhex S work2))"

definition addWork :: "'b bignum \<Rightarrow> jstr \<Rightarrow> jstr \<Rightarrow> jstr" where
  "addWork B work1 work2 = workBNtoBuffer B (bn_add B (bn_ofHex B work1) (bn_ofHex B work2))"

definition subWork :: "'b bignum \<Rightarrow> jstr \<Rightarrow> jstr \<Rightarrow> jstr" where
  "subWork B work1 work2 = workBNtoBuffer B (bn_sub B (bn_ofHex B work1) (bn_ofHex B work2))"

text \<open>\<open>bits\<close> is a number, or four bytes.\<close>

datatype bits_arg = BitsNumber int | BitsBytes "int list"

definition bits_number :: "bits_arg \<Rightarrow> int" where
  "bits_number b = (case b of BitsNumber n \<Rightarrow> n | BitsBytes a \<Rightarrow> readUInt32LE a 0)"

definition convertBitsToTarget :: "'b bignum \<Rightarrow> bits_arg \<Rightarrow> 'b" where
  "convertBitsToTarget B b =
     (let bits = bits_number b;
          shift = js_and (js_sar bits 24) 255;
          data = js_and bits 8388607;
          target = bn_ofInt B data
      in if shift \<le> 3 then bn_shr B target (nat (8 * (3 - shift)))
         else bn_shl B target (nat (8 * (shift - 3))))"

definition convertBitsToWork :: "'b bignum \<Rightarrow> bits_arg \<Rightarrow> jstr" where
  "convertBitsToWork B b =
     (let target = convertBitsToTarget B b;
          work = bn_addn B (bn_div B (bn_notn B target 256) (bn_addn B target 1)) 1
      in padStart0 64 (bn_toHex B work))"

section \<open>Serialization\<close>

record base_header =
  bh_version :: int
  bh_previousHash :: jstr
  bh_merkleRoot :: jstr
  bh_time :: int
  bh_bits :: int
  bh_nonce :: int

record block_header = base_header +
  bh_height :: int
  bh_hash :: jstr

definition doubleSha256BE :: "sdk \<Rightarrow> int list \<Rightarrow> int list" where
  "doubleSha256BE S bs = rev (sdk_hash256 S bs)"

definition serializeBaseBlockHeader :: "sdk \<Rightarrow> 'a base_header_scheme \<Rightarrow> int list" where
  "serializeBaseBlockHeader S h =
     sdk_w32 S (bh_version h) @ rev (sdk_unhex S (bh_previousHash h)) @ rev (sdk_unhex S (bh_merkleRoot h)) @
     sdk_w32 S (bh_time h) @ sdk_w32 S (bh_bits h) @ sdk_w32 S (bh_nonce h)"

definition deserializeBaseBlockHeader :: "sdk \<Rightarrow> int list \<Rightarrow> nat \<Rightarrow> base_header" where
  "deserializeBaseBlockHeader S buffer offset =
     (let a = drop offset buffer in
      \<lparr>bh_version = sdk_r32 S (take 4 a),
       bh_previousHash = sdk_hex S (rev (take 32 (drop 4 a))),
       bh_merkleRoot = sdk_hex S (rev (take 32 (drop 36 a))),
       bh_time = sdk_r32 S (take 4 (drop 68 a)),
       bh_bits = sdk_r32 S (take 4 (drop 72 a)),
       bh_nonce = sdk_r32 S (take 4 (drop 76 a))\<rparr>)"

definition with_height :: "base_header \<Rightarrow> int \<Rightarrow> jstr \<Rightarrow> block_header" where
  "with_height b height hash = base_header.extend b (block_header.fields height hash)"

definition deserializeBlockHeader :: "sdk \<Rightarrow> int list \<Rightarrow> int \<Rightarrow> nat \<Rightarrow> block_header" where
  "deserializeBlockHeader S buffer height offset =
     with_height (deserializeBaseBlockHeader S buffer offset) height
       (sdk_hex S (doubleSha256BE S (take 80 (drop offset buffer))))"

definition serializeBaseBlockHeaders :: "sdk \<Rightarrow> block_header list \<Rightarrow> int list" where
  "serializeBaseBlockHeaders S hs = concat (map (serializeBaseBlockHeader S) hs)"

text \<open>The loops over a buffer: a missing or zero \<open>count\<close> is no limit; \<open>n\<close> is the number of headers
  read so far.\<close>

definition more_headers :: "int list \<Rightarrow> nat \<Rightarrow> nat option \<Rightarrow> nat \<Rightarrow> bool" where
  "more_headers buffer offset count n \<longleftrightarrow>
     (case count of None \<Rightarrow> True | Some c \<Rightarrow> c = 0 \<or> n < c) \<and> offset + 80 \<le> length buffer"

function deserializeBaseBlockHeaders :: "sdk \<Rightarrow> int list \<Rightarrow> nat \<Rightarrow> nat option \<Rightarrow> nat \<Rightarrow> base_header list" where
  "deserializeBaseBlockHeaders S buffer offset count n =
     (if more_headers buffer offset count n
      then deserializeBaseBlockHeader S buffer offset #
           deserializeBaseBlockHeaders S buffer (offset + 80) count (n + 1)
      else [])"
  by pat_completeness auto
termination by (relation "measure (\<lambda>(S, buffer, offset, count, n). length buffer - offset)")
    (auto simp: more_headers_def)

function deserializeBlockHeaders :: "sdk \<Rightarrow> int \<Rightarrow> int list \<Rightarrow> nat \<Rightarrow> nat option \<Rightarrow> nat \<Rightarrow> block_header list" where
  "deserializeBlockHeaders S nextHeight buffer offset count n =
     (if more_headers buffer offset count n
      then (let baseBuffer = take 80 (drop offset buffer) in
            with_height (deserializeBaseBlockHeader S baseBuffer 0) nextHeight
              (sdk_hex S (doubleSha256BE S baseBuffer)) #
            deserializeBlockHeaders S (nextHeight + 1) buffer (offset + 80) count (n + 1))
      else [])"
  by pat_completeness auto
termination by (relation "measure (\<lambda>(S, h, buffer, offset, count, n). length buffer - offset)")
    (auto simp: more_headers_def)

declare deserializeBaseBlockHeaders.simps [simp del] deserializeBlockHeaders.simps [simp del]

end
