(* ===== verification/HeaderChecks.thy ===== *)
theory HeaderChecks
  imports Headers
begin

text \<open>
  Validation of headers and of buffers of headers, the genesis headers and the byte order helpers, from
  \<^verbatim>\<open>src/src/services/chaintracker/chaintracks/util/blockHeaderUtilities.ts\<close> and
  \<^verbatim>\<open>dirtyHashes.ts\<close>.
\<close>

datatype header_error =
    MissingHeader
  | NotAnObject
  | ExtraProperties
  | NotNumber string
  | NotInteger string
  | OutOfBounds string
  | NotHex32 string
  | RuntimeTypeError
  | HashInvalid
  | NotEightyBytes
  | BufferTruncated nat
  | BufferOverflow nat
  | InvalidPreviousHash nat jstr jstr
  | DirtyHash jstr
  | GenesisMismatch
  | MockGenesis
  | NotBelowTarget

section \<open>Dirty hashes and the genesis headers\<close>

definition dirtyHashes :: "jstr list" where
  "dirtyHashes = [js ''00000000000000000019f112ec0a9982926f1258cdcc558dd7c3b7e5dc7fa148'',
     js ''0000000000000000004626ff6e3b936941d341c5932ece4357eeccac44e6d56c'']"

definition validateAgainstDirtyHashes :: "jstr \<Rightarrow> header_error + unit" where
  "validateAgainstDirtyHashes h = (if h \<in> set dirtyHashes then Inl (DirtyHash h) else Inr ())"

datatype chain = Main | Test | TeraTest | Mock

definition genesis_record :: "int \<Rightarrow> int \<Rightarrow> string \<Rightarrow> block_header" where
  "genesis_record time nonce hash = \<lparr>bh_version = 1, bh_previousHash = replicate 64 48,
     bh_merkleRoot = js ''4a5e1e4baab89f3a32518a88c31bc87f618f76673e2cc77ab2127b7afdeda33b'',
     bh_time = time, bh_bits = 486604799, bh_nonce = nonce, bh_height = 0, bh_hash = js hash\<rparr>"

fun genesisHeader :: "chain \<Rightarrow> header_error + block_header" where
  "genesisHeader Main = Inr (genesis_record 1231006505 2083236893
     ''000000000019d6689c085ae165831e934ff763ae46a2a6c172b3f1b60a8ce26f'')"
| "genesisHeader Test = Inr (genesis_record 1296688602 414098458
     ''000000000933ea01ad0ee984209779baaec3ced90fa3f408719526f8d77f4943'')"
| "genesisHeader TeraTest = Inr (genesis_record 1296688602 414098458
     ''000000000933ea01ad0ee984209779baaec3ced90fa3f408719526f8d77f4943'')"
| "genesisHeader Mock = Inl MockGenesis"

definition genesisBuffer :: "sdk \<Rightarrow> chain \<Rightarrow> header_error + int list" where
  "genesisBuffer S c = bindE (genesisHeader c) (\<lambda>h. Inr (serializeBaseBlockHeader S h))"

definition validateGenesisHeader :: "sdk \<Rightarrow> int list \<Rightarrow> chain \<Rightarrow> header_error + unit" where
  "validateGenesisHeader S buffer c =
     (let h = deserializeBlockHeader S (take 80 buffer) 0 0 in
      bindE (genesisHeader c) (\<lambda>gh.
        if bh_bits h \<noteq> bh_bits gh \<or> bh_previousHash h \<noteq> bh_previousHash gh \<or> bh_merkleRoot h \<noteq> bh_merkleRoot gh
           \<or> bh_time h \<noteq> bh_time gh \<or> bh_nonce h \<noteq> bh_nonce gh \<or> bh_version h \<noteq> bh_version gh
           \<or> bh_height h \<noteq> bh_height gh \<or> bh_hash h \<noteq> bh_hash gh
        then Inl GenesisMismatch else Inr ()))"

section \<open>Buffers of headers\<close>

text \<open>The loop: \<open>i\<close> is the index of the header, \<open>n\<close> the number left; the state is the hash of the last
  header and the chain work, which is only kept when it is a non-empty string.\<close>

primrec validate_loop ::
  "sdk \<Rightarrow> 'b bignum \<Rightarrow> int list \<Rightarrow> nat \<Rightarrow> nat \<Rightarrow> nat \<Rightarrow> jstr \<Rightarrow> jstr option \<Rightarrow> header_error + jstr \<times> jstr option" where
  "validate_loop S B buffer offset i 0 lastHash lastWork = Inr (lastHash, lastWork)"
| "validate_loop S B buffer offset i (Suc n) lastHash lastWork =
     (let start = offset + i * 80 in
      if start + 80 > length buffer then Inl (BufferTruncated i)
      else
        let header = take 80 (drop start buffer);
            h = deserializeBaseBlockHeader S header 0;
            hashPrev = sdk_hex S (rev (take 32 (drop 4 header)))
        in if lastHash \<noteq> hashPrev then Inl (InvalidPreviousHash i lastHash hashPrev)
           else
             let hash = sdk_hex S (doubleSha256BE S header) in
             bindE (validateAgainstDirtyHashes hash) (\<lambda>_.
               validate_loop S B buffer offset (i + 1) n hash
                 (case lastWork of None \<Rightarrow> None
                  | Some w \<Rightarrow> if w = [] then Some w
                              else Some (addWork B w (convertBitsToWork B (BitsNumber (bh_bits h)))))))"

definition validateBufferOfHeaders ::
  "sdk \<Rightarrow> 'b bignum \<Rightarrow> int list \<Rightarrow> jstr \<Rightarrow> nat \<Rightarrow> int \<Rightarrow> jstr option \<Rightarrow> header_error + jstr \<times> jstr option" where
  "validateBufferOfHeaders S B buffer previousHash offset count previousChainWork =
     (let count1 = (if count < 0 then (int (length buffer) - int offset) div 80 else count);
          count2 = max 0 count1
      in validate_loop S B buffer offset 0 (nat count2) previousHash previousChainWork)"

section \<open>One header\<close>

definition blockHash :: "sdk \<Rightarrow> int list \<Rightarrow> header_error + jstr" where
  "blockHash S a = (if length a \<noteq> 80 then Inl NotEightyBytes else Inr (sdk_hex S (doubleSha256BE S a)))"

definition blockHashOf :: "sdk \<Rightarrow> 'a base_header_scheme \<Rightarrow> header_error + jstr" where
  "blockHashOf S h = blockHash S (serializeBaseBlockHeader S h)"

text \<open>A value a caller may pass as a header: it is looked at property by property.\<close>

datatype js_value = JUndefined | JInt int | JFraction | JString jstr | JOther

datatype header_arg = ArgUndefined | ArgNotObject | ArgObject "(string \<times> js_value) list"

definition ALLOWED_KEYS :: "string list" where
  "ALLOWED_KEYS = [''version'', ''previousHash'', ''merkleRoot'', ''time'', ''bits'', ''nonce'', ''height'', ''hash'']"

definition UINT_MAX :: int where
  "UINT_MAX = 4294967295"

definition prop_of :: "(string \<times> js_value) list \<Rightarrow> string \<Rightarrow> js_value" where
  "prop_of ps k = (case map_of ps k of None \<Rightarrow> JUndefined | Some v \<Rightarrow> v)"

text \<open>The three tests of an integer field. The bound of the height is \<open>UINT_MAX / 2\<close>, which is not an
  integer.\<close>

definition check_uint :: "string \<Rightarrow> int \<Rightarrow> js_value \<Rightarrow> header_error + int" where
  "check_uint name bound v = (case v of
       JInt n \<Rightarrow> if n < 0 \<or> n > bound then Inl (OutOfBounds name) else Inr n
     | JFraction \<Rightarrow> Inl (NotInteger name)
     | _ \<Rightarrow> Inl (NotNumber name))"

text \<open>\<open>header.previousHash.length !== 64\<close>; a property that is missing has no \<open>length\<close> to read.\<close>

definition check_hex32 :: "string \<Rightarrow> js_value \<Rightarrow> header_error + jstr" where
  "check_hex32 name v = (case v of
       JString s \<Rightarrow> if length s \<noteq> 64 then Inl (NotHex32 name) else Inr s
     | JUndefined \<Rightarrow> Inl RuntimeTypeError
     | _ \<Rightarrow> Inl (NotHex32 name))"

definition validateHeaderFormat :: "sdk \<Rightarrow> header_arg \<Rightarrow> header_error + unit" where
  "validateHeaderFormat S arg =
     (case arg of
        ArgUndefined \<Rightarrow> Inl MissingHeader
      | ArgNotObject \<Rightarrow> Inl NotAnObject
      | ArgObject ps \<Rightarrow>
          if \<not> list_all (\<lambda>k. k \<in> set ALLOWED_KEYS) (map fst ps) then Inl ExtraProperties
          else
            bindE (check_uint ''version'' UINT_MAX (prop_of ps ''version'')) (\<lambda>version.
            bindE (check_uint ''height'' (UINT_MAX div 2) (prop_of ps ''height'')) (\<lambda>height.
            bindE (check_hex32 ''previousHash'' (prop_of ps ''previousHash'')) (\<lambda>previousHash.
            bindE (check_hex32 ''merkleRoot'' (prop_of ps ''merkleRoot'')) (\<lambda>merkleRoot.
            bindE (check_uint ''time'' UINT_MAX (prop_of ps ''time'')) (\<lambda>time.
            bindE (check_uint ''bits'' UINT_MAX (prop_of ps ''bits'')) (\<lambda>bits.
            bindE (check_uint ''nonce'' UINT_MAX (prop_of ps ''nonce'')) (\<lambda>nonce.
            bindE (check_hex32 ''hash'' (prop_of ps ''hash'')) (\<lambda>hash.
            bindE (blockHashOf S \<lparr>bh_version = version, bh_previousHash = previousHash, bh_merkleRoot = merkleRoot,
                                  bh_time = time, bh_bits = bits, bh_nonce = nonce\<rparr>) (\<lambda>computed.
              if hash \<noteq> computed then Inl HashInvalid else Inr ()))))))))))"

definition validateHeaderDifficulty :: "'b bignum \<Rightarrow> int list \<Rightarrow> int \<Rightarrow> header_error + bool" where
  "validateHeaderDifficulty B hash bits =
     (if bn_lte B (bn_ofBytes B hash) (convertBitsToTarget B (BitsNumber bits)) then Inr True
      else Inl NotBelowTarget)"

text \<open>Serialization into a caller's buffer: the bytes before an overflow stay written.\<close>

fun copy_bytes :: "nat \<Rightarrow> int list \<Rightarrow> (int list, header_error, unit) sem" where
  "copy_bytes off [] = retS ()"
| "copy_bytes off (d # ds) = (\<lambda>buffer.
     if off \<ge> length buffer then (Inl (BufferOverflow off), buffer)
     else copy_bytes (off + 1) ds (buffer[off := d]))"

definition serializeInto :: "sdk \<Rightarrow> 'a base_header_scheme \<Rightarrow> nat option \<Rightarrow> (int list, header_error, int list) sem" where
  "serializeInto S h offset =
     (let data = serializeBaseBlockHeader S h in
      bindS (copy_bytes (case offset of None \<Rightarrow> 0 | Some n \<Rightarrow> n) data) (\<lambda>_. retS data))"

section \<open>Byte order\<close>

definition swapByteOrder :: "int list \<Rightarrow> int list" where
  "swapByteOrder buffer = rev buffer"

definition convertUint32ToBuffer :: "int \<Rightarrow> bool \<Rightarrow> int list" where
  "convertUint32ToBuffer n littleEndian =
     (let a = [js_and n 255, js_and (js_sar n 8) 255, js_and (js_sar n 16) 255, js_and (js_sar n 24) 255]
      in if littleEndian then a else rev a)"

text \<open>Writing into a buffer at an offset, where the buffer is long enough.\<close>

definition writeUInt32LE :: "int \<Rightarrow> int list \<Rightarrow> nat \<Rightarrow> nat \<times> int list" where
  "writeUInt32LE n a off =
     (off + 4, a[off := js_and n 255, off + 1 := js_and (js_sar n 8) 255, off + 2 := js_and (js_sar n 16) 255,
                 off + 3 := js_and (js_sar n 24) 255])"

definition writeUInt32BE :: "int \<Rightarrow> int list \<Rightarrow> nat \<Rightarrow> nat \<times> int list" where
  "writeUInt32BE n a off =
     (off + 4, a[off := js_and (js_sar n 24) 255, off + 1 := js_and (js_sar n 16) 255, off + 2 := js_and (js_sar n 8) 255,
                 off + 3 := js_and n 255])"

definition convertBufferToUint32 :: "int list \<Rightarrow> bool \<Rightarrow> int" where
  "convertBufferToUint32 buffer littleEndian =
     (let a = (if littleEndian then buffer else rev buffer)
      in js_or (js_or (js_or (a ! 0) (js_shl (a ! 1) 8)) (js_shl (a ! 2) 16)) (js_shl (a ! 3) 24))"

section \<open>An executable instance of the packages\<close>

definition ref_hex :: "int list \<Rightarrow> jstr" where
  "ref_hex bs = concat (map (\<lambda>b. [hex_digit (nat b div 16), hex_digit (nat b mod 16)]) bs)"

fun ref_unhex :: "jstr \<Rightarrow> int list" where
  "ref_unhex (a # b # s) = (16 * hex_digit_val a + hex_digit_val b) # ref_unhex s"
| "ref_unhex _ = []"

definition ref_w32 :: "int \<Rightarrow> int list" where
  "ref_w32 n = [byte_at 0 n, byte_at 1 n, byte_at 2 n, byte_at 3 n]"

definition ref_r32 :: "int list \<Rightarrow> int" where
  "ref_r32 bs = four_bytes (bs ! 0) (bs ! 1) (bs ! 2) (bs ! 3)"

definition ref_hash256 :: "int list \<Rightarrow> int list" where
  "ref_hash256 bs = map (\<lambda>b. b mod 256) (take 32 (rev bs @ replicate 32 7))"

definition ref_sdk :: sdk where
  "ref_sdk = \<lparr>sdk_hex = ref_hex, sdk_unhex = ref_unhex, sdk_w32 = ref_w32, sdk_r32 = ref_r32, sdk_hash256 = ref_hash256\<rparr>"

definition int_bn :: "int bignum" where
  "int_bn = \<lparr>bn_ofHex = hex_val, bn_ofBytes = be_val, bn_ofInt = (\<lambda>n. n), bn_add = (\<lambda>x y. x + y),
     bn_sub = (\<lambda>x y. x - y), bn_div = (\<lambda>x y. x div y), bn_addn = (\<lambda>x n. x + n), bn_notn = (\<lambda>x k. 2 ^ k - 1 - x),
     bn_shr = (\<lambda>x k. x div 2 ^ k), bn_shl = (\<lambda>x k. x * 2 ^ k), bn_gt = (\<lambda>x y. y < x), bn_lte = (\<lambda>x y. x \<le> y),
     bn_toHex = (\<lambda>x. hex_of (nat x))\<rparr>"

interpretation ibn: bignum_laws int_bn "\<lambda>x. x"
  by unfold_locales (simp_all add: int_bn_def)

lemma ref_unhex_hex: "bytes bs \<Longrightarrow> ref_unhex (ref_hex bs) = bs"
proof (induction bs)
  case (Cons b bs)
  have "int (nat b div 16) = b div 16" "int (nat b mod 16) = b mod 16" if "0 \<le> b"
    using that by (simp_all add: zdiv_int zmod_int)
  moreover have "nat b div 16 < 16" using Cons.prems by (auto simp: is_byte_def)
  ultimately show ?case using Cons by (auto simp: ref_hex_def is_byte_def)
qed (simp add: ref_hex_def)

lemma ref_hex_hash: "bytes bs \<Longrightarrow> length (ref_hex bs) = 2 * length bs \<and> list_all is_hex (ref_hex bs)"
  by (induction bs) (auto simp: ref_hex_def is_byte_def)

lemma hex_digit_of_val: "is_hex c \<Longrightarrow> hex_digit (nat (hex_digit_val c)) = c"
  by (auto simp: is_hex_def hex_digit_def hex_digit_val_def)

lemma ref_hex_unhex:
  "even (length h) \<Longrightarrow> list_all is_hex h \<Longrightarrow>
     ref_hex (ref_unhex h) = h \<and> 2 * length (ref_unhex h) = length h \<and> bytes (ref_unhex h)"
proof (induction h rule: ref_unhex.induct)
  case (1 a b s)
  then have "0 \<le> hex_digit_val a" "hex_digit_val a < 16" "0 \<le> hex_digit_val b" "hex_digit_val b < 16"
    using hex_digit_val_range by auto
  then obtain x y where h: "hex_digit_val a = int x" "x < 16" "hex_digit_val b = int y" "y < 16"
    by (metis of_nat_less_numeral_iff zero_le_imp_eq_int)
  then have "nat (16 * hex_digit_val a + hex_digit_val b) = 16 * x + y" by simp
  then have "nat (16 * hex_digit_val a + hex_digit_val b) div 16 = nat (hex_digit_val a)"
    "nat (16 * hex_digit_val a + hex_digit_val b) mod 16 = nat (hex_digit_val b)"
    using h by simp_all
  moreover have "hex_digit x = a" "hex_digit y = b"
    using hex_digit_of_val [of a] hex_digit_of_val [of b] 1(3) h by simp_all
  ultimately show ?case using 1 h by (auto simp: ref_hex_def is_byte_def)
qed (simp_all add: ref_hex_def)

lemma be_val_unhex: "even (length h) \<Longrightarrow>
    foldl (\<lambda>a b. 256 * a + b) v (ref_unhex h) = foldl (\<lambda>a c. 16 * a + hex_digit_val c) v h"
  by (induction h arbitrary: v rule: ref_unhex.induct) (simp_all add: algebra_simps)

lemma byte_at_Suc: "byte_at (Suc k) n = byte_at k (n div 256)"
proof -
  have "(2 :: int) ^ (8 * Suc k) = 256 * 2 ^ (8 * k)" by (simp add: power_add)
  then show ?thesis using zdiv_zmult2_eq [of "2 ^ (8 * k)" n 256] by (simp add: byte_at_def)
qed

lemma bytes_of_four:
  assumes "is_byte a" "is_byte b" "is_byte c" "is_byte d"
  shows "byte_at 0 (four_bytes a b c d) = a" "byte_at (Suc 0) (four_bytes a b c d) = b"
    "byte_at 2 (four_bytes a b c d) = c" "byte_at 3 (four_bytes a b c d) = d" "uint32 (four_bytes a b c d)"
proof -
  have f: "four_bytes a b c d = a + 256 * (b + 256 * (c + 256 * d))" by (simp add: four_bytes_def)
  have q: "is_byte x \<Longrightarrow> (x + 256 * y) div 256 = y" "is_byte x \<Longrightarrow> (x + 256 * y) mod 256 = x" for x y
    by (simp_all add: is_byte_def)
  have m: "d mod 256 = d" using assms(4) by (simp add: is_byte_def)
  have z: "byte_at 0 n = n mod 256" for n by (simp add: byte_at_def)
  have n: "(2 :: nat) = Suc (Suc 0)" "(3 :: nat) = Suc (Suc (Suc 0))" by simp_all
  show "byte_at 0 (four_bytes a b c d) = a" "byte_at (Suc 0) (four_bytes a b c d) = b"
    "byte_at 2 (four_bytes a b c d) = c" "byte_at 3 (four_bytes a b c d) = d"
    unfolding f n byte_at_Suc z by (simp_all only: q assms m)
  show "uint32 (four_bytes a b c d)" using assms by (simp add: uint32_def four_bytes_def is_byte_def)
qed

interpretation ref: header_sdk ref_sdk
proof unfold_locales
  fix bs :: "int list" and h n
  show "bytes bs \<Longrightarrow> sdk_unhex ref_sdk (sdk_hex ref_sdk bs) = bs" by (simp add: ref_sdk_def ref_unhex_hex)
  show "hash_string h \<Longrightarrow> sdk_hex ref_sdk (sdk_unhex ref_sdk h) = h \<and> length (sdk_unhex ref_sdk h) = 32 \<and>
      bytes (sdk_unhex ref_sdk h) \<and> be_val (sdk_unhex ref_sdk h) = hex_val h"
    using ref_hex_unhex [of h] be_val_unhex [of h 0] by (simp add: ref_sdk_def hash_string_def be_val_def hex_val_def)
  show "bytes bs \<Longrightarrow> length bs = 32 \<Longrightarrow> hash_string (sdk_hex ref_sdk bs)"
    using ref_hex_hash [of bs] by (simp add: ref_sdk_def hash_string_def)
  show "uint32 n \<Longrightarrow> length (sdk_w32 ref_sdk n) = 4 \<and> bytes (sdk_w32 ref_sdk n) \<and> sdk_r32 ref_sdk (sdk_w32 ref_sdk n) = n"
    using byte_at_range four_bytes_byte_at [of n]
    by (simp add: ref_sdk_def ref_w32_def ref_r32_def uint32_def is_byte_def)
  show "length bs = 4 \<Longrightarrow> bytes bs \<Longrightarrow> uint32 (sdk_r32 ref_sdk bs) \<and> sdk_w32 ref_sdk (sdk_r32 ref_sdk bs) = bs"
  proof -
    assume "length bs = 4" "bytes bs"
    then obtain a b c d where bs: "bs = [a, b, c, d]" "is_byte a" "is_byte b" "is_byte c" "is_byte d"
      by (auto simp: length_Suc_conv numeral_eq_Suc)
    then have "byte_at 0 (four_bytes a b c d) = a" "byte_at (Suc 0) (four_bytes a b c d) = b"
      "byte_at 2 (four_bytes a b c d) = c" "byte_at 3 (four_bytes a b c d) = d" "uint32 (four_bytes a b c d)"
      by (simp_all add: bytes_of_four)
    with bs show ?thesis by (simp add: ref_sdk_def ref_w32_def ref_r32_def)
  qed
  show "length (sdk_hash256 ref_sdk bs) = 32 \<and> bytes (sdk_hash256 ref_sdk bs)"
    by (auto simp: ref_sdk_def ref_hash256_def bytes_def list_all_iff is_byte_def)
qed

end
