(* ===== verification/HeaderProps.thy ===== *)
theory HeaderProps
  imports HeaderChecks
begin

text \<open>
  The properties of block headers: round trips of the serialization, what a validated buffer of headers
  is, when a header is accepted, the arithmetic of targets and chain work, and the byte order helpers.
\<close>

section \<open>Byte order\<close>

lemma js_bytes:
  "js_and n 255 = byte_at 0 n" "byte_at 0 (js_sar n 8) = byte_at (Suc 0) n"
  "byte_at 0 (js_sar n 16) = byte_at 2 n" "byte_at 0 (js_sar n 24) = byte_at 3 n"
  using js_byte(2) [of "Suc 0" n] js_byte(2) [of 2 n] js_byte(2) [of 3 n] by (simp_all add: js_byte(1))

lemma is_byte_byte_at [simp]: "is_byte (byte_at k n)"
  using byte_at_range by (simp add: is_byte_def)

lemma four_byte_at: "four_bytes (byte_at 0 n) (byte_at (Suc 0) n) (byte_at 2 n) (byte_at 3 n) = n mod 4294967296"
  using four_bytes_byte_at by simp

lemma to_int32_mod [simp]: "to_int32 (n mod 4294967296) = to_int32 n"
  by (simp add: to_int32_def mod_add_left_eq)

lemma js_or_commute: "js_or a b = js_or b a" "js_or a (js_or b c) = js_or b (js_or a c)"
  "js_or (js_or a b) c = js_or a (js_or b c)"
  unfolding js_to_bits by (rule bit_eqI; auto simp: bit_simps min_def)+

lemma read_le: "bytes [a, b, c, d] \<Longrightarrow>
    js_or (js_or (js_or a (js_shl b 8)) (js_shl c 16)) (js_shl d 24) = to_int32 (four_bytes a b c d)"
  by (simp add: js_or_bytes)

lemma read_be: "bytes [a, b, c, d] \<Longrightarrow>
    js_or (js_or (js_or (js_shl a 24) (js_shl b 16)) (js_shl c 8)) d = to_int32 (four_bytes d c b a)"
  using read_le [of d c b a] by (simp add: js_or_commute)

lemma to_int32_fits: "uint32 n \<Longrightarrow> to_int32 n = n \<longleftrightarrow> n < 2147483648"
proof -
  assume n: "uint32 n"
  show ?thesis
  proof (cases "n < 2147483648")
    case True
    with n show ?thesis by (simp add: to_int32_def uint32_def)
  next
    case False
    have "to_int32 n < 2147483648" by (simp add: to_int32_def)
    with False show ?thesis by simp
  qed
qed

text \<open>a 32-bit number written to four bytes, in either byte order and at any offset of a long enough
  buffer, is read back as the signed 32-bit number with the same bits: the same number only below
  2147483648, although the callers are told the result is in the unsigned range.\<close>

theorem uint32_read_back:
  assumes "off + 4 \<le> length a"
  shows "convertBufferToUint32 (convertUint32ToBuffer n le) le = to_int32 n \<and>
    readUInt32LE (snd (writeUInt32LE n a off)) off = to_int32 n \<and>
    readUInt32BE (snd (writeUInt32BE n a off)) off = to_int32 n \<and>
    (uint32 n \<longrightarrow> (convertBufferToUint32 (convertUint32ToBuffer n le) le = n \<longleftrightarrow> n < 2147483648))"
proof -
  have c: "convertBufferToUint32 (convertUint32ToBuffer n le) le = to_int32 n"
    by (cases le) (simp_all add: convertBufferToUint32_def convertUint32ToBuffer_def Let_def js_bytes
        numeral_2_eq_2 numeral_3_eq_3 read_le [simplified] four_byte_at [simplified numeral_2_eq_2 numeral_3_eq_3])
  have l: "readUInt32LE (snd (writeUInt32LE n a off)) off = to_int32 n"
    using assms by (simp add: readUInt32LE_def writeUInt32LE_def js_bytes read_le four_byte_at)
  have b: "readUInt32BE (snd (writeUInt32BE n a off)) off = to_int32 n"
    using assms by (simp add: readUInt32BE_def writeUInt32BE_def js_bytes read_be four_byte_at)
  show ?thesis using c l b to_int32_fits [of n] by simp
qed

theorem uint32_read_back_witness:
  "readUInt32LE (snd (writeUInt32LE 4294967295 [0, 0, 0, 0, 0] 1)) 1 = - 1"
  using uint32_read_back [of 1 "[0, 0, 0, 0, 0]" 4294967295] by (simp add: to_int32_def)

section \<open>Chain work\<close>

definition compact_target :: "int \<Rightarrow> int" where
  "compact_target bits = (let e = byte_at 3 bits; m = bits mod 8388608 in
     if e \<le> 3 then m div 256 ^ nat (3 - e) else m * 256 ^ nat (e - 3))"

lemma js_mantissa: "js_and n 8388607 = n mod 8388608"
proof -
  have m: "(8388607 :: int) = mask 23" by (simp add: mask_eq_exp_minus_1)
  have "js_and n 8388607 = take_bit 23 n"
    unfolding js_to_bits m by (rule bit_eqI) (auto simp: bit_simps min_def)
  then show ?thesis by (simp add: take_bit_eq_mod)
qed

lemma pow_8: "(2 :: int) ^ nat (8 * k) = 256 ^ nat k" if "0 \<le> k"
proof -
  have "nat (8 * k) = 8 * nat k" using that by (simp add: nat_mult_distrib)
  then show ?thesis by (simp add: power_mult)
qed

context bignum_laws
begin

lemma target_val: "bval (convertBitsToTarget B b) = compact_target (bits_number b)"
proof -
  have "0 \<le> bits_number b mod 8388608" by simp
  then show ?thesis
    using pow_8 [of "3 - byte_at 3 (bits_number b)"] pow_8 [of "byte_at 3 (bits_number b) - 3"]
    by (simp add: convertBitsToTarget_def Let_def js_bytes js_mantissa compact_target_def shr shl of_int)
qed

lemma compact_target_nonneg: "0 \<le> compact_target n"
  by (simp add: compact_target_def Let_def div_int_pos_iff)

lemma work_buffer:
  assumes "0 \<le> bval x" "bval x < 2 ^ 256"
  shows "hex_val (padStart0 64 (bn_toHex B x)) = bval x" "hash_string (padStart0 64 (bn_toHex B x))"
  using assms pad_hash_string [OF assms] by (simp_all add: toHex)

lemma work_val:
  assumes t: "compact_target (bits_number b) < 2 ^ 256 - 1"
  shows "hex_val (convertBitsToWork B b) = 2 ^ 256 div (compact_target (bits_number b) + 1)"
proof -
  define T where "T = compact_target (bits_number b)"
  have T: "0 \<le> T" "T < 2 ^ 256 - 1" "bval (convertBitsToTarget B b) = T"
    using compact_target_nonneg t target_val by (simp_all add: T_def)
  let ?w = "bn_addn B (bn_div B (bn_notn B (convertBitsToTarget B b) 256) (bn_addn B (convertBitsToTarget B b) 1)) 1"
  have "bval ?w = (2 ^ 256 - 1 - T) div (T + 1) + 1"
    using T by (simp add: addn div notn)
  also have "\<dots> = (2 ^ 256 - 1 - T + (T + 1)) div (T + 1)"
    using T(1) by (subst div_add_self2) simp_all
  finally have w: "bval ?w = 2 ^ 256 div (T + 1)" by simp
  have "0 \<le> bval ?w" using w T(1) by (simp add: div_int_pos_iff)
  then show "hex_val (convertBitsToWork B b) = 2 ^ 256 div (compact_target (bits_number b) + 1)"
    using w by (simp add: convertBitsToWork_def Let_def toHex T_def)
qed

end

text \<open>the target of \<open>bits\<close> is the compact number they encode, and the work of a header is
  2 to the 256 divided by its target plus one, so a smaller target never counts for less work.\<close>

theorem bits_work_correct:
  assumes "bignum_laws B bval" and "compact_target n < 2 ^ 256 - 1" "compact_target m \<le> compact_target n"
  shows "bval (convertBitsToTarget B (BitsNumber n)) = compact_target n \<and>
    hex_val (convertBitsToWork B (BitsNumber n)) = 2 ^ 256 div (compact_target n + 1) \<and>
    hex_val (convertBitsToWork B (BitsNumber n)) \<le> hex_val (convertBitsToWork B (BitsNumber m))"
proof -
  have w: "hex_val (convertBitsToWork B (BitsNumber k)) = 2 ^ 256 div (compact_target k + 1)"
    if "compact_target k \<le> compact_target n" for k
    using bignum_laws.work_val(1) [OF assms(1), of "BitsNumber k"] that assms(2) by (simp add: bits_number_def)
  have "0 \<le> compact_target m" using bignum_laws.compact_target_nonneg [OF assms(1)] .
  then have "(2 :: int) ^ 256 div (compact_target n + 1) \<le> 2 ^ 256 div (compact_target m + 1)"
    using assms(3) by (intro zdiv_mono2) simp_all
  then show ?thesis
    using w [of n] w [OF assms(3)] bignum_laws.target_val [OF assms(1), of "BitsNumber n"]
    by (simp add: bits_number_def)
qed

theorem bits_work_correct_witness:
  "hex_val (convertBitsToWork int_bn (BitsNumber 486604799)) = 4295032833"
proof -
  have t: "compact_target 486604799 = 65535 * 256 ^ 26" by (simp add: compact_target_def byte_at_def)
  show ?thesis
    using bits_work_correct [OF ibn.bignum_laws_axioms, of 486604799 486604799] unfolding t by simp
qed

context bignum_laws
begin

lemma add_work:
  assumes "list_all is_hex w1" "list_all is_hex w2" "hex_val w1 + hex_val w2 < 2 ^ 256"
  shows "hash_string (addWork B w1 w2)" "hex_val (addWork B w1 w2) = hex_val w1 + hex_val w2"
  using assms work_buffer [of "bn_add B (bn_ofHex B w1) (bn_ofHex B w2)"] hex_val_bound [of w1] hex_val_bound [of w2]
  by (simp_all add: addWork_def workBNtoBuffer_def add of_hex)

lemma sub_work:
  assumes "list_all is_hex w1" "list_all is_hex w2" "hex_val w1 < 2 ^ 256" "hex_val w2 \<le> hex_val w1"
  shows "hash_string (subWork B w1 w2)" "hex_val (subWork B w1 w2) = hex_val w1 - hex_val w2"
  using assms work_buffer [of "bn_sub B (bn_ofHex B w1) (bn_ofHex B w2)"] hex_val_bound [of w2]
  by (simp_all add: subWork_def workBNtoBuffer_def sub of_hex)

lemma more_work:
  assumes "header_sdk S" "hash_string w1" "hash_string w2"
  shows "isMoreWork S B w1 w2 \<longleftrightarrow> hex_val w2 < hex_val w1"
  using header_sdk.hex_unhex [OF assms(1,2)] header_sdk.hex_unhex [OF assms(1,3)]
  by (simp add: isMoreWork_def gt of_bytes)

lemma work_string:
  assumes "0 < compact_target (bits_number b)" "compact_target (bits_number b) < 2 ^ 256 - 1"
  shows "hash_string (convertBitsToWork B b)" "0 < hex_val (convertBitsToWork B b)"
proof -
  define T where "T = compact_target (bits_number b)"
  have T: "0 < T" "T < 2 ^ 256 - 1" "bval (convertBitsToTarget B b) = T"
    using assms target_val by (simp_all add: T_def)
  let ?w = "bn_addn B (bn_div B (bn_notn B (convertBitsToTarget B b) 256) (bn_addn B (convertBitsToTarget B b) 1)) 1"
  have "(2 ^ 256 - 1 - T) div (T + 1) \<le> 2 ^ 256 - 1 - T" using T zdiv_mono2 [of "2 ^ 256 - 1 - T" 1 "T + 1"] by simp
  then have "bval ?w < 2 ^ 256" using T by (simp add: addn div notn)
  moreover have "0 < bval ?w" using T by (simp add: addn div notn) (smt (verit) pos_imp_zdiv_nonneg_iff)
  ultimately show "hash_string (convertBitsToWork B b)" "0 < hex_val (convertBitsToWork B b)"
    using work_buffer [of ?w] by (simp_all add: convertBitsToWork_def Let_def)
qed

end

text \<open>adding and subtracting chain work, as strings of 64 hexadecimal digits, are exact while the
  result fits, and \<open>isMoreWork\<close> compares the numbers.\<close>

theorem chain_work_arithmetic:
  assumes "bignum_laws B bval" "header_sdk S" "hash_string w1" "hash_string w2"
  shows "(hex_val w1 + hex_val w2 < 2 ^ 256 \<longrightarrow>
      hash_string (addWork B w1 w2) \<and> hex_val (addWork B w1 w2) = hex_val w1 + hex_val w2) \<and>
    (hex_val w2 \<le> hex_val w1 \<longrightarrow>
      hash_string (subWork B w1 w2) \<and> hex_val (subWork B w1 w2) = hex_val w1 - hex_val w2) \<and>
    (isMoreWork S B w1 w2 \<longleftrightarrow> hex_val w2 < hex_val w1)"
proof -
  have "list_all is_hex w1" "list_all is_hex w2" "hex_val w1 < 2 ^ 256"
    using assms(3,4) hex_val_bound [of w1] by (auto simp: hash_string_def)
  then show ?thesis
    using bignum_laws.add_work [OF assms(1)] bignum_laws.sub_work [OF assms(1)] bignum_laws.more_work [OF assms]
    by blast
qed

definition sample_work :: "nat \<Rightarrow> jstr" where
  "sample_work n = padStart0 64 (hex_of n)"

theorem chain_work_arithmetic_witness:
  "hex_val (addWork int_bn (sample_work 300) (sample_work 5)) = 305 \<and>
   hex_val (subWork int_bn (sample_work 300) (sample_work 5)) = 295 \<and>
   isMoreWork ref_sdk int_bn (sample_work 300) (sample_work 5)"
proof -
  have "hash_string (sample_work 300)" "hash_string (sample_work 5)"
    using pad_hash_string [of 300] pad_hash_string [of 5] by (simp_all add: sample_work_def)
  from chain_work_arithmetic [OF ibn.bignum_laws_axioms ref.header_sdk_axioms this] show ?thesis
    by (simp add: sample_work_def)
qed

section \<open>Serialization\<close>

definition header_ok :: "'a base_header_scheme \<Rightarrow> bool" where
  "header_ok h \<longleftrightarrow> uint32 (bh_version h) \<and> hash_string (bh_previousHash h) \<and> hash_string (bh_merkleRoot h) \<and>
     uint32 (bh_time h) \<and> uint32 (bh_bits h) \<and> uint32 (bh_nonce h)"

definition hash_of :: "sdk \<Rightarrow> 'a base_header_scheme \<Rightarrow> jstr" where
  "hash_of S h = sdk_hex S (doubleSha256BE S (serializeBaseBlockHeader S h))"

definition base_of :: "'a base_header_scheme \<Rightarrow> base_header" where
  "base_of h = base_header.truncate h"

lemma base_of_simps [simp]:
  "bh_version (base_of h) = bh_version h" "bh_previousHash (base_of h) = bh_previousHash h"
  "bh_merkleRoot (base_of h) = bh_merkleRoot h" "bh_time (base_of h) = bh_time h"
  "bh_bits (base_of h) = bh_bits h" "bh_nonce (base_of h) = bh_nonce h"
  by (simp_all add: base_of_def base_header.truncate_def)

lemma base_of_id [simp]: "base_of h = h" for h :: base_header
  by (simp add: base_of_def base_header.truncate_def)

lemma base_header_eqI:
  fixes g :: base_header
  assumes "bh_version g = bh_version h" "bh_previousHash g = bh_previousHash h" "bh_merkleRoot g = bh_merkleRoot h"
    "bh_time g = bh_time h" "bh_bits g = bh_bits h" "bh_nonce g = bh_nonce h"
  shows "g = base_of h"
  using assms by (simp add: base_header.equality)

context header_sdk
begin

lemma serialize_length: "header_ok h \<Longrightarrow> length (serializeBaseBlockHeader S h) = 80 \<and> bytes (serializeBaseBlockHeader S h)"
  by (simp add: serializeBaseBlockHeader_def header_ok_def r32_w32 hex_unhex)

lemma deserialize_serialize:
  assumes "header_ok h"
  shows "deserializeBaseBlockHeader S (pre @ serializeBaseBlockHeader S h @ post) (length pre) = base_of h"
proof (rule base_header_eqI)
  have w: "length (sdk_w32 S n) = 4" "sdk_r32 S (sdk_w32 S n) = n" if "uint32 n" for n
    using r32_w32 [OF that] by auto
  have x: "length (sdk_unhex S s) = 32" "sdk_hex S (sdk_unhex S s) = s" if "hash_string s" for s
    using hex_unhex [OF that] by auto
  show "bh_version (deserializeBaseBlockHeader S (pre @ serializeBaseBlockHeader S h @ post) (length pre)) = bh_version h"
    "bh_previousHash (deserializeBaseBlockHeader S (pre @ serializeBaseBlockHeader S h @ post) (length pre)) = bh_previousHash h"
    "bh_merkleRoot (deserializeBaseBlockHeader S (pre @ serializeBaseBlockHeader S h @ post) (length pre)) = bh_merkleRoot h"
    "bh_time (deserializeBaseBlockHeader S (pre @ serializeBaseBlockHeader S h @ post) (length pre)) = bh_time h"
    "bh_bits (deserializeBaseBlockHeader S (pre @ serializeBaseBlockHeader S h @ post) (length pre)) = bh_bits h"
    "bh_nonce (deserializeBaseBlockHeader S (pre @ serializeBaseBlockHeader S h @ post) (length pre)) = bh_nonce h"
    using assms w x by (simp_all add: deserializeBaseBlockHeader_def serializeBaseBlockHeader_def header_ok_def)
qed

lemma serialize_deserialize:
  assumes "length bs = 80" "bytes bs"
  shows "header_ok (deserializeBaseBlockHeader S bs 0) \<and> serializeBaseBlockHeader S (deserializeBaseBlockHeader S bs 0) = bs"
proof -
  have t: "take 4 bs @ take 32 (drop 4 bs) @ take 32 (drop 36 bs) @ take 4 (drop 68 bs) @ take 4 (drop 72 bs) @ take 4 (drop 76 bs) = bs"
    using assms(1) append_take_drop_id [of 4 bs] append_take_drop_id [of 32 "drop 4 bs"]
      append_take_drop_id [of 32 "drop 36 bs"] append_take_drop_id [of 4 "drop 68 bs"] append_take_drop_id [of 4 "drop 72 bs"]
    by simp
  have w: "uint32 (sdk_r32 S (take 4 (drop k bs)))" "sdk_w32 S (sdk_r32 S (take 4 (drop k bs))) = take 4 (drop k bs)"
    if "k \<le> 76" for k
    using w32_r32 [of "take 4 (drop k bs)"] that assms by simp_all
  have x: "hash_string (sdk_hex S (rev (take 32 (drop k bs))))"
    "sdk_unhex S (sdk_hex S (rev (take 32 (drop k bs)))) = rev (take 32 (drop k bs))" if "k \<le> 36" for k
    using hex_hash [of "rev (take 32 (drop k bs))"] unhex_hex [of "rev (take 32 (drop k bs))"] that assms by simp_all
  show ?thesis
    using w [of 0] w [of 68] w [of 72] w [of 76] x [of 4] x [of 36] t
    by (simp add: header_ok_def serializeBaseBlockHeader_def deserializeBaseBlockHeader_def)
qed

end

text \<open>C40: a header is read back from its 80 bytes at any place in a buffer, and 80 bytes are written back
  from the header they are read as; so headers and blocks of 80 bytes correspond one to one.\<close>

theorem header_roundtrip:
  fixes h :: base_header
  assumes "header_sdk S" "header_ok h" "length bs = 80" "bytes bs"
  shows "deserializeBaseBlockHeader S (pre @ serializeBaseBlockHeader S h @ post) (length pre) = h \<and>
    length (serializeBaseBlockHeader S h) = 80 \<and>
    header_ok (deserializeBaseBlockHeader S bs 0) \<and> serializeBaseBlockHeader S (deserializeBaseBlockHeader S bs 0) = bs"
  using header_sdk.deserialize_serialize [OF assms(1,2), of pre post] header_sdk.serialize_length [OF assms(1,2)]
    header_sdk.serialize_deserialize [OF assms(1,3,4)] by simp

definition sample_header :: "jstr \<Rightarrow> int \<Rightarrow> base_header" where
  "sample_header p n = \<lparr>bh_version = 1, bh_previousHash = p, bh_merkleRoot = replicate 64 48, bh_time = 1231006505,
     bh_bits = 486604799, bh_nonce = n\<rparr>"

lemma sample_header_ok: "hash_string p \<Longrightarrow> uint32 n \<Longrightarrow> header_ok (sample_header p n)"
  by (simp add: header_ok_def sample_header_def uint32_def hash_string_def list_all_iff is_hex_def)

lemma zero_hash_string: "hash_string (replicate 64 48)"
  by (simp add: hash_string_def list_all_iff is_hex_def)

theorem header_roundtrip_witness:
  "deserializeBaseBlockHeader ref_sdk ([9] @ serializeBaseBlockHeader ref_sdk (sample_header (replicate 64 48) 7)) 1
     = sample_header (replicate 64 48) 7 \<and>
   serializeBaseBlockHeader ref_sdk (deserializeBaseBlockHeader ref_sdk (replicate 80 200) 0) = replicate 80 200"
proof -
  have "header_ok (sample_header (replicate 64 48) 7)"
    by (rule sample_header_ok [OF zero_hash_string]) (simp add: uint32_def)
  moreover have "bytes (replicate 80 200)" by (simp add: bytes_def list_all_iff is_byte_def)
  ultimately show ?thesis
    using header_roundtrip [OF ref.header_sdk_axioms, of "sample_header (replicate 64 48) 7" "replicate 80 200" "[9]" "[]"]
    by simp
qed

section \<open>Buffers of headers\<close>

text \<open>A list of headers that continues a chain: each names the hash of the one before it as its
  predecessor, and none is one of the dirty hashes.\<close>

fun header_chain :: "sdk \<Rightarrow> jstr \<Rightarrow> base_header list \<Rightarrow> bool" where
  "header_chain S prev [] = True"
| "header_chain S prev (h # hs) \<longleftrightarrow> bh_previousHash h = prev \<and> hash_of S h \<notin> set dirtyHashes \<and> header_chain S (hash_of S h) hs"

fun last_hash :: "sdk \<Rightarrow> jstr \<Rightarrow> base_header list \<Rightarrow> jstr" where
  "last_hash S prev [] = prev"
| "last_hash S prev (h # hs) = last_hash S (hash_of S h) hs"

definition total_work :: "'b bignum \<Rightarrow> jstr \<Rightarrow> base_header list \<Rightarrow> jstr" where
  "total_work B w hs = foldl (\<lambda>w h. addWork B w (convertBitsToWork B (BitsNumber (bh_bits h)))) w hs"

definition ser_all :: "sdk \<Rightarrow> base_header list \<Rightarrow> int list" where
  "ser_all S hs = concat (map (serializeBaseBlockHeader S) hs)"

lemma addWork_not_Nil [simp]: "addWork B w1 w2 \<noteq> []"
  by (auto simp: addWork_def workBNtoBuffer_def padStart0_def)

context header_sdk
begin

lemma header_slice:
  assumes "header_ok h"
  shows "take 80 (drop (length pre) (pre @ serializeBaseBlockHeader S h @ post)) = serializeBaseBlockHeader S h"
  using serialize_length [OF assms] by simp

lemma prev_hash_slice:
  assumes "header_ok h"
  shows "sdk_hex S (rev (take 32 (drop 4 (serializeBaseBlockHeader S h)))) = bh_previousHash h"
  using assms r32_w32 [of "bh_version h"] hex_unhex [of "bh_previousHash h"]
  by (simp add: header_ok_def serializeBaseBlockHeader_def)

lemma validate_loop_spec:
  fixes hs :: "base_header list"
  assumes "\<forall>h \<in> set hs. header_ok h" "length pre = offset + i * 80"
  shows "validate_loop S B (pre @ ser_all S hs @ post) offset i (length hs) prev w =
      Inr (last_hash S prev hs, map_option (\<lambda>w. if w = [] then w else total_work B w hs) w) \<and> header_chain S prev hs \<or>
    (\<exists>e. validate_loop S B (pre @ ser_all S hs @ post) offset i (length hs) prev w = Inl e) \<and> \<not> header_chain S prev hs"
  using assms
proof (induction hs arbitrary: pre i prev w)
  case Nil
  then show ?case by (cases w) (simp_all add: ser_all_def total_work_def)
next
  case (Cons h hs)
  let ?d = "serializeBaseBlockHeader S h"
  let ?w = "case w of None \<Rightarrow> None | Some w \<Rightarrow> if w = [] then Some w
              else Some (addWork B w (convertBitsToWork B (BitsNumber (bh_bits h))))"
  have ok: "header_ok h" and len: "length ?d = 80" using Cons.prems(1) serialize_length [of h] by simp_all
  have buf: "pre @ ser_all S (h # hs) @ post = pre @ ?d @ ser_all S hs @ post" by (simp add: ser_all_def)
  have sl: "take 80 (drop (offset + i * 80) (pre @ ?d @ ser_all S hs @ post)) = ?d"
    using header_slice [OF ok, of pre "ser_all S hs @ post"] Cons.prems(2) by (simp only:)
  have de: "bh_bits (deserializeBaseBlockHeader S ?d 0) = bh_bits h"
    using deserialize_serialize [OF ok, of "[]" "[]"] by simp
  have ex: "\<not> length (pre @ ?d @ ser_all S hs @ post) < offset + i * 80 + 80" using Cons.prems(2) len by simp
  have IH: "validate_loop S B (pre @ ?d @ ser_all S hs @ post) offset (i + 1) (length hs) (hash_of S h) ?w =
      Inr (last_hash S (hash_of S h) hs, map_option (\<lambda>w. if w = [] then w else total_work B w hs) ?w) \<and> header_chain S (hash_of S h) hs \<or>
    (\<exists>e. validate_loop S B (pre @ ?d @ ser_all S hs @ post) offset (i + 1) (length hs) (hash_of S h) ?w = Inl e) \<and>
      \<not> header_chain S (hash_of S h) hs"
    using Cons.IH [of "pre @ ?d" "i + 1" "hash_of S h" ?w] Cons.prems len by simp
  have w: "map_option (\<lambda>w. if w = [] then w else total_work B w hs) ?w
      = map_option (\<lambda>w. if w = [] then w else total_work B w (h # hs)) w"
    by (cases w) (simp_all add: total_work_def)
  have step: "validate_loop S B (pre @ ser_all S (h # hs) @ post) offset i (length (h # hs)) prev w =
      (if prev \<noteq> bh_previousHash h then Inl (InvalidPreviousHash i prev (bh_previousHash h))
       else if hash_of S h \<in> set dirtyHashes then Inl (DirtyHash (hash_of S h))
       else validate_loop S B (pre @ ?d @ ser_all S hs @ post) offset (i + 1) (length hs) (hash_of S h) ?w)"
    unfolding buf using ex
    by (simp only: length_Cons validate_loop.simps Let_def sl prev_hash_slice [OF ok] de hash_of_def [symmetric] if_False)
      (simp add: validateAgainstDirtyHashes_def)
  show ?case
    unfolding step using IH w by auto
qed

lemma deserialize_headers_spec:
  fixes hs :: "block_header list"
  assumes "\<forall>h \<in> set hs. header_ok h \<and> bh_hash h = hash_of S h" "map bh_height hs = map (\<lambda>k. h0 + int k) [0..<length hs]"
  shows "deserializeBlockHeaders S h0 (pre @ serializeBaseBlockHeaders S hs) (length pre) None n = hs"
  using assms
proof (induction hs arbitrary: pre h0 n)
  case Nil
  then show ?case
    by (subst deserializeBlockHeaders.simps) (simp add: more_headers_def serializeBaseBlockHeaders_def)
next
  case (Cons h hs)
  let ?d = "serializeBaseBlockHeader S h" and ?r = "serializeBaseBlockHeaders S hs"
  have ok: "header_ok h" "bh_hash h = hash_of S h" "length ?d = 80"
    using Cons.prems(1) serialize_length [of h] by simp_all
  have ht: "bh_height h = h0" "map bh_height hs = map (\<lambda>k. (h0 + 1) + int k) [0..<length hs]"
    using Cons.prems(2) by (simp_all add: upt_conv_Cons map_Suc_upt [symmetric] comp_def algebra_simps del: upt_Suc)
  have "with_height (deserializeBaseBlockHeader S ?d 0) h0 (sdk_hex S (doubleSha256BE S ?d)) = h"
    using deserialize_serialize [OF ok(1), of "[]" "[]"] ht(1) ok(2)
    by (simp add: with_height_def base_of_def hash_of_def base_header.defs block_header.defs)
  moreover have "take 80 (drop (length pre) (pre @ ?d @ ?r)) = ?d" using header_slice [OF ok(1)] .
  moreover have "more_headers (pre @ ?d @ ?r) (length pre) None n" using ok(3) by (simp add: more_headers_def)
  moreover have "deserializeBlockHeaders S (h0 + 1) (pre @ ?d @ ?r) (length pre + 80) None (n + 1) = hs"
    using Cons.IH [of "h0 + 1" "pre @ ?d" "n + 1"] Cons.prems(1) ht(2) ok(3) by simp
  moreover have "pre @ serializeBaseBlockHeaders S (h # hs) = pre @ ?d @ ?r" by (simp add: serializeBaseBlockHeaders_def)
  ultimately show ?case by (subst deserializeBlockHeaders.simps) (simp add: Let_def)
qed

end

text \<open>C39: a buffer of serialized headers is accepted exactly when the headers form a chain from the given
  hash with no dirty hash; the result is the hash of the last header and the previous chain work plus
  the work of every header.\<close>

theorem validateBufferOfHeaders_correct:
  assumes "header_sdk S" "\<forall>h \<in> set hs. header_ok h"
  shows "(header_chain S prev hs \<longrightarrow> validateBufferOfHeaders S B (ser_all S hs) prev 0 (- 1) w =
      Inr (last_hash S prev hs, map_option (\<lambda>w. if w = [] then w else total_work B w hs) w)) \<and>
    (\<not> header_chain S prev hs \<longrightarrow> (\<exists>e. validateBufferOfHeaders S B (ser_all S hs) prev 0 (- 1) w = Inl e))"
proof -
  have "length (ser_all S hs) = 80 * length hs"
    using assms(2) by (induction hs) (simp_all add: ser_all_def header_sdk.serialize_length [OF assms(1)])
  then have "validateBufferOfHeaders S B (ser_all S hs) prev 0 (- 1) w = validate_loop S B (ser_all S hs) 0 0 (length hs) prev w"
    by (simp add: validateBufferOfHeaders_def)
  then show ?thesis
    using header_sdk.validate_loop_spec [OF assms, of "[]" 0 0 B "[]" prev w] by auto
qed

definition sample_chain :: "base_header list" where
  "sample_chain = (let h1 = sample_header (replicate 64 48) 1 in [h1, sample_header (hash_of ref_sdk h1) 2])"

lemma ref_hash_string: "hash_string (hash_of ref_sdk h)"
  using ref.hash256 ref.hex_hash by (simp add: hash_of_def doubleSha256BE_def)

theorem validateBufferOfHeaders_correct_witness:
  "\<exists>e. validateBufferOfHeaders ref_sdk int_bn (ser_all ref_sdk sample_chain) (sample_work 5) 0 (- 1) None = Inl e"
proof -
  have "\<forall>h \<in> set sample_chain. header_ok h"
    by (auto simp: sample_chain_def Let_def uint32_def intro!: sample_header_ok zero_hash_string ref_hash_string)
  moreover have "sample_work 5 \<noteq> replicate 64 48"
  proof
    assume "sample_work 5 = replicate 64 48"
    then have "hex_val (sample_work 5) = hex_val (padStart0 64 [])" by (simp add: padStart0_def)
    then show False by (simp add: sample_work_def) (simp add: hex_val_def)
  qed
  then have "\<not> header_chain ref_sdk (sample_work 5) sample_chain" by (auto simp: sample_chain_def Let_def sample_header_def)
  ultimately show ?thesis using validateBufferOfHeaders_correct [OF ref.header_sdk_axioms] by blast
qed

text \<open>deserializing the serialization of headers with consecutive heights and their own hashes gives
  the headers back, heights and hashes included.\<close>

theorem headers_roundtrip:
  assumes "header_sdk S" "\<forall>h \<in> set hs. header_ok h \<and> bh_hash h = hash_of S h"
    and "map bh_height hs = map (\<lambda>k. h0 + int k) [0..<length hs]"
  shows "deserializeBlockHeaders S h0 (serializeBaseBlockHeaders S hs) 0 None 0 = hs"
  using header_sdk.deserialize_headers_spec [OF assms, of "[]" 0] by simp

definition sample_block :: block_header where
  "sample_block = with_height (sample_header (replicate 64 48) 1) 5 (hash_of ref_sdk (sample_header (replicate 64 48) 1))"

theorem headers_roundtrip_witness:
  "deserializeBlockHeaders ref_sdk 5 (serializeBaseBlockHeaders ref_sdk [sample_block]) 0 None 0 = [sample_block]"
proof -
  have "header_ok sample_block" "bh_hash sample_block = hash_of ref_sdk sample_block" "bh_height sample_block = 5"
    using sample_header_ok [OF zero_hash_string, of 1]
    by (simp_all add: sample_block_def with_height_def base_header.defs block_header.defs header_ok_def uint32_def
        hash_of_def serializeBaseBlockHeader_def)
  then show ?thesis using headers_roundtrip [OF ref.header_sdk_axioms, of "[sample_block]" 5] by simp
qed

section \<open>The format of a header\<close>

definition object_of :: "block_header \<Rightarrow> (string \<times> js_value) list" where
  "object_of h = [(''version'', JInt (bh_version h)), (''previousHash'', JString (bh_previousHash h)),
     (''merkleRoot'', JString (bh_merkleRoot h)), (''time'', JInt (bh_time h)), (''bits'', JInt (bh_bits h)),
     (''nonce'', JInt (bh_nonce h)), (''height'', JInt (bh_height h)), (''hash'', JString (bh_hash h))]"

lemma check_uint_Inr: "check_uint name bound v = Inr n \<longleftrightarrow> v = JInt n \<and> 0 \<le> n \<and> n \<le> bound"
  by (auto simp: check_uint_def split: js_value.splits)

lemma check_hex32_Inr: "check_hex32 name v = Inr s \<longleftrightarrow> v = JString s \<and> length s = 64"
  by (auto simp: check_hex32_def split: js_value.splits)

lemma object_props:
  "prop_of (object_of h) ''version'' = JInt (bh_version h)" "prop_of (object_of h) ''previousHash'' = JString (bh_previousHash h)"
  "prop_of (object_of h) ''merkleRoot'' = JString (bh_merkleRoot h)" "prop_of (object_of h) ''time'' = JInt (bh_time h)"
  "prop_of (object_of h) ''bits'' = JInt (bh_bits h)" "prop_of (object_of h) ''nonce'' = JInt (bh_nonce h)"
  "prop_of (object_of h) ''height'' = JInt (bh_height h)" "prop_of (object_of h) ''hash'' = JString (bh_hash h)"
  "list_all (\<lambda>k. k \<in> set ALLOWED_KEYS) (map fst (object_of h))"
  by (simp_all add: prop_of_def object_of_def ALLOWED_KEYS_def)

text \<open>a header whose hashes are hexadecimal strings is accepted exactly when its numbers are in range
  and its hash is the hash of its serialization; one with a property more is refused.\<close>

theorem validateHeaderFormat_iff:
  assumes "header_sdk S" "hash_string (bh_previousHash h)" "hash_string (bh_merkleRoot h)"
  shows "(validateHeaderFormat S (ArgObject (object_of h)) = Inr () \<longleftrightarrow>
      uint32 (bh_version h) \<and> 0 \<le> bh_height h \<and> bh_height h < 2147483648 \<and> uint32 (bh_time h) \<and> uint32 (bh_bits h) \<and>
      uint32 (bh_nonce h) \<and> bh_hash h = hash_of S h) \<and>
    (k \<notin> set ALLOWED_KEYS \<longrightarrow> validateHeaderFormat S (ArgObject (object_of h @ [(k, v)])) = Inl ExtraProperties)"
proof
  define b where "b = \<lparr>bh_version = bh_version h, bh_previousHash = bh_previousHash h, bh_merkleRoot = bh_merkleRoot h,
      bh_time = bh_time h, bh_bits = bh_bits h, bh_nonce = bh_nonce h\<rparr>"
  have ser: "serializeBaseBlockHeader S b = serializeBaseBlockHeader S h"
    by (simp add: b_def serializeBaseBlockHeader_def)
  have len: "length (hash_of S h) = 64"
    using header_sdk.hash256 [OF assms(1)] header_sdk.hex_hash [OF assms(1)]
    by (simp add: hash_of_def doubleSha256BE_def hash_string_def)
  have hash: "blockHashOf S b = Inr (hash_of S h)" if "header_ok h"
    using header_sdk.serialize_length [OF assms(1) that] by (simp add: blockHashOf_def blockHash_def ser hash_of_def)
  have ok: "header_ok h \<longleftrightarrow> uint32 (bh_version h) \<and> uint32 (bh_time h) \<and> uint32 (bh_bits h) \<and> uint32 (bh_nonce h)"
    using assms(2,3) by (auto simp: header_ok_def)
  have hs: "length (bh_previousHash h) = 64" "length (bh_merkleRoot h) = 64" using assms(2,3) by (simp_all add: hash_string_def)
  have "validateHeaderFormat S (ArgObject (object_of h)) = Inr () \<longleftrightarrow>
      uint32 (bh_version h) \<and> 0 \<le> bh_height h \<and> bh_height h < 2147483648 \<and> uint32 (bh_time h) \<and> uint32 (bh_bits h) \<and>
      uint32 (bh_nonce h) \<and> length (bh_hash h) = 64 \<and> blockHashOf S b = Inr (bh_hash h)"
    unfolding validateHeaderFormat_def
    by (simp add: object_props bindE_Inr_iff check_uint_Inr check_hex32_Inr hs b_def [symmetric] UINT_MAX_def uint32_def)
      (auto split: if_splits)
  then show "validateHeaderFormat S (ArgObject (object_of h)) = Inr () \<longleftrightarrow>
      uint32 (bh_version h) \<and> 0 \<le> bh_height h \<and> bh_height h < 2147483648 \<and> uint32 (bh_time h) \<and> uint32 (bh_bits h) \<and>
      uint32 (bh_nonce h) \<and> bh_hash h = hash_of S h"
    using hash ok len by auto
  show "k \<notin> set ALLOWED_KEYS \<longrightarrow> validateHeaderFormat S (ArgObject (object_of h @ [(k, v)])) = Inl ExtraProperties"
    by (simp add: validateHeaderFormat_def)
qed

theorem validateHeaderFormat_iff_witness:
  "validateHeaderFormat ref_sdk (ArgObject (object_of sample_block)) = Inr ()"
proof -
  have s: "bh_previousHash sample_block = replicate 64 48" "bh_merkleRoot sample_block = replicate 64 48"
    "bh_version sample_block = 1" "bh_height sample_block = 5" "bh_time sample_block = 1231006505"
    "bh_bits sample_block = 486604799" "bh_nonce sample_block = 1" "bh_hash sample_block = hash_of ref_sdk sample_block"
    by (simp_all add: sample_block_def with_height_def base_header.defs block_header.defs sample_header_def
        hash_of_def serializeBaseBlockHeader_def)
  with validateHeaderFormat_iff [OF ref.header_sdk_axioms, of sample_block] zero_hash_string show ?thesis
    by (simp add: uint32_def)
qed

end
