(* ===== verification/LiveHeaders.thy ===== *)
theory LiveHeaders
  imports HeightRanges Headers "HOL-Library.AList"
begin

text \<open>
  The live headers of the chain tracker kept in memory,
  \<^verbatim>\<open>src/src/services/chaintracker/chaintracks/Storage/ChaintracksStorageNoDb.ts\<close>.

  A JavaScript \<open>Map\<close> is the association list of its entries in insertion order: setting a key that is
  present keeps its place. \<open>hashToHeaderId\<close> is never iterated and is a map. The last bulk file, which the
  bulk file manager answers, is an argument of \<open>insertHeader\<close>; the call of \<open>pruneLiveBlockHeaders\<close>,
  which is started and not awaited, is the height it is started with, returned beside the result.
\<close>

section \<open>State\<close>

record live_header = block_header +
  lh_headerId :: nat
  lh_previousHeaderId :: "nat option"
  lh_chainWork :: jstr
  lh_isChainTip :: bool
  lh_isActive :: bool

type_synonym live_map = "(nat \<times> live_header) list"

record nodb =
  liveHeaders :: live_map
  maxHeaderId :: nat
  tipHeaderId :: nat
  hashToHeaderId :: "jstr \<rightharpoonup> nat"

datatype live_error = LiveInvalidOperation | LiveTypeError | LiveNotFound | LiveEndless

text \<open>The fields of a bulk file that the first live header is checked against.\<close>

record bulk_end =
  be_lastHash :: jstr
  be_firstHeight :: int
  be_count :: int
  be_lastChainWork :: jstr

definition live_values :: "nodb \<Rightarrow> live_header list" where
  "live_values d = map snd (liveHeaders d)"

definition active_tip :: "live_header \<Rightarrow> bool" where
  "active_tip h \<longleftrightarrow> lh_isActive h \<and> lh_isChainTip h"

section \<open>Deletion\<close>

definition deleteLiveBlockHeaders :: "nodb \<Rightarrow> nodb" where
  "deleteLiveBlockHeaders d = \<lparr>liveHeaders = [], maxHeaderId = 0, tipHeaderId = 0, hashToHeaderId = Map.empty\<rparr>"

text \<open>A \<open>previousHeaderId\<close> of 0 is falsy, as null is.\<close>

definition clear_link :: "live_map \<Rightarrow> int \<Rightarrow> live_header \<Rightarrow> live_header" where
  "clear_link m limit h =
     (case lh_previousHeaderId h of
        None \<Rightarrow> h
      | Some p \<Rightarrow> if p = 0 then h else
          (case map_of m p of
             None \<Rightarrow> h
           | Some q \<Rightarrow> if bh_height q \<le> limit then h\<lparr>lh_previousHeaderId := None\<rparr> else h))"

definition find_active_tip :: "live_map \<Rightarrow> live_header option" where
  "find_active_tip m = List.find active_tip (map snd m)"

definition deleteOlderLiveBlockHeaders :: "int \<Rightarrow> nodb \<Rightarrow> nat \<times> nodb" where
  "deleteOlderLiveBlockHeaders limit d =
     (let cleared = map (\<lambda>(i, h). (i, clear_link (liveHeaders d) limit h)) (liveHeaders d);
          old = filter (\<lambda>(i, h). bh_height h \<le> limit) cleared;
          kept = filter (\<lambda>(i, h). \<not> bh_height h \<le> limit) cleared;
          hashes = fold (\<lambda>(i, h) m. m(bh_hash h := None)) old (hashToHeaderId d);
          tip = (case find_active_tip kept of None \<Rightarrow> 0 | Some t \<Rightarrow> lh_headerId t)
      in (length old, d\<lparr>liveHeaders := kept, hashToHeaderId := hashes, tipHeaderId := tip\<rparr>))"

section \<open>Lookups\<close>

definition findChainTipHeaderOrUndefined :: "nodb \<Rightarrow> live_header option" where
  "findChainTipHeaderOrUndefined d = find_active_tip (liveHeaders d)"

definition findChainTipHeader :: "nodb \<Rightarrow> live_error + live_header" where
  "findChainTipHeader d = (case find_active_tip (liveHeaders d) of None \<Rightarrow> Inl LiveNotFound | Some t \<Rightarrow> Inr t)"

definition findLiveHeaderForBlockHash :: "nodb \<Rightarrow> jstr \<Rightarrow> live_header option" where
  "findLiveHeaderForBlockHash d hash =
     (case hashToHeaderId d hash of
        None \<Rightarrow> None
      | Some i \<Rightarrow> if i = 0 then None else map_of (liveHeaders d) i)"

definition findLiveHeaderForHeaderId :: "nodb \<Rightarrow> nat \<Rightarrow> live_error + live_header" where
  "findLiveHeaderForHeaderId d i = (case map_of (liveHeaders d) i of None \<Rightarrow> Inl LiveNotFound | Some h \<Rightarrow> Inr h)"

definition findLiveHeaderForHeight :: "nodb \<Rightarrow> int \<Rightarrow> live_header option" where
  "findLiveHeaderForHeight d height = List.find (\<lambda>h. bh_height h = height \<and> lh_isActive h) (live_values d)"

definition findLiveHeaderForMerkleRoot :: "nodb \<Rightarrow> jstr \<Rightarrow> live_header option" where
  "findLiveHeaderForMerkleRoot d root = List.find (\<lambda>h. bh_merkleRoot h = root) (live_values d)"

definition active_headers :: "nodb \<Rightarrow> live_header list" where
  "active_headers d = filter lh_isActive (live_values d)"

definition findLiveHeightRange :: "nodb \<Rightarrow> height_range" where
  "findLiveHeightRange d =
     (let heights = map bh_height (active_headers d)
      in if heights = [] then empty_range
         else new_range (fold min (tl heights) (hd heights)) (fold max (tl heights) (hd heights)))"

definition findMaxHeaderId :: "nodb \<Rightarrow> nat" where
  "findMaxHeaderId d = maxHeaderId d"

definition liveHeadersForBulk :: "nat \<Rightarrow> nodb \<Rightarrow> live_header list" where
  "liveHeadersForBulk count d = take count (sort_key bh_height (active_headers d))"

definition getLiveHeaders :: "height_range \<Rightarrow> nodb \<Rightarrow> live_header list" where
  "getLiveHeaders r d =
     (if isEmpty r then []
      else sort_key bh_height (filter (\<lambda>h. minHeight r \<le> bh_height h \<and> bh_height h \<le> maxHeight r) (active_headers d)))"

section \<open>Insertion\<close>

record insert_result =
  ir_added :: bool
  ir_dupe :: bool
  ir_noPrev :: bool
  ir_badPrev :: bool
  ir_noActiveAncestor :: bool
  ir_isActiveTip :: bool
  ir_reorgDepth :: int
  ir_priorTip :: "live_header option"
  ir_noTip :: bool
  ir_deactivatedHeaders :: "live_header list"

definition new_result :: insert_result where
  "new_result = \<lparr>ir_added = False, ir_dupe = False, ir_noPrev = False, ir_badPrev = False,
     ir_noActiveAncestor = False, ir_isActiveTip = False, ir_reorgDepth = 0, ir_priorTip = None,
     ir_noTip = False, ir_deactivatedHeaders = []\<rparr>"

text \<open>The header a link leads to; \<open>get(null)\<close> is undefined.\<close>

definition prev_of :: "live_map \<Rightarrow> live_header \<Rightarrow> live_header option" where
  "prev_of m h = (case lh_previousHeaderId h of None \<Rightarrow> None | Some p \<Rightarrow> map_of m p)"

text \<open>The three loops follow the links. Their bound is the number of headers: a walk that makes more turns
  meets a header twice and would go on for ever, which is \<open>LiveEndless\<close>.\<close>

primrec find_active_ancestor :: "nat \<Rightarrow> live_map \<Rightarrow> live_header \<Rightarrow> live_error + live_header option" where
  "find_active_ancestor 0 m h = Inl LiveEndless"
| "find_active_ancestor (Suc n) m h =
     (if lh_isActive h then Inr (Some h)
      else case prev_of m h of None \<Rightarrow> Inr None | Some p \<Rightarrow> find_active_ancestor n m p)"

primrec deactivate_loop ::
  "nat \<Rightarrow> nat \<Rightarrow> live_header option \<Rightarrow> live_map \<Rightarrow> live_error + live_header list \<times> live_map" where
  "deactivate_loop 0 ancestor x m = Inl LiveEndless"
| "deactivate_loop (Suc n) ancestor x m =
     (case x of
        None \<Rightarrow> Inr ([], m)
      | Some h \<Rightarrow>
          if lh_headerId h = ancestor then Inr ([], m)
          else let m' = AList.update (lh_headerId h) (h\<lparr>lh_isActive := False\<rparr>) m
               in bindE (deactivate_loop n ancestor (prev_of m' h) m') (\<lambda>(hs, m'').
                    Inr (h # hs, m'')))"

primrec activate_loop :: "nat \<Rightarrow> nat \<Rightarrow> live_header \<Rightarrow> live_map \<Rightarrow> live_error + live_map" where
  "activate_loop 0 ancestor h m = Inl LiveEndless"
| "activate_loop (Suc n) ancestor h m =
     (if lh_headerId h = ancestor then Inr m
      else let m' = AList.update (lh_headerId h) (h\<lparr>lh_isActive := True\<rparr>) m
           in case prev_of m' h of None \<Rightarrow> Inl LiveTypeError | Some p \<Rightarrow> activate_loop n ancestor p m')"

definition new_live :: "block_header \<Rightarrow> nat \<Rightarrow> nat option \<Rightarrow> jstr \<Rightarrow> bool \<Rightarrow> live_header" where
  "new_live h i prev work tip = block_header.extend h (live_header.fields i prev work tip tip)"

text \<open>The first live header must follow the last bulk header.\<close>

definition insert_first ::
  "'b bignum \<Rightarrow> bulk_end option \<Rightarrow> block_header \<Rightarrow> nodb \<Rightarrow> live_error + insert_result \<times> nodb" where
  "insert_first B bulk h d =
     (if length (liveHeaders d) = 0
      then case bulk of
             None \<Rightarrow> Inl LiveInvalidOperation
           | Some lbf \<Rightarrow>
               if bh_previousHash h = be_lastHash lbf \<and> bh_height h = be_firstHeight lbf + be_count lbf
               then let work = addWork B (be_lastChainWork lbf) (convertBitsToWork B (BitsNumber (bh_bits h)));
                        i = maxHeaderId d + 1;
                        n = new_live h i None work True
                    in Inr (new_result\<lparr>ir_isActiveTip := True, ir_added := True\<rparr>,
                         d\<lparr>maxHeaderId := i, liveHeaders := AList.update i n (liveHeaders d),
                           hashToHeaderId := (hashToHeaderId d)(bh_hash h \<mapsto> i), tipHeaderId := i\<rparr>)
               else Inr (new_result\<lparr>ir_noPrev := True\<rparr>, d)
      else Inr (new_result\<lparr>ir_noPrev := True\<rparr>, d))"

text \<open>The reorganization of the active chain when the new header is its new tip and its previous header is
  not on the chain.\<close>

definition reorganize ::
  "live_header \<Rightarrow> live_header \<Rightarrow> live_map \<Rightarrow> live_error + live_header list \<times> live_map" where
  "reorganize ancestor oneBack m =
     (if lh_headerId ancestor = lh_headerId oneBack then Inr ([], m)
      else bindE (deactivate_loop (Suc (length m)) (lh_headerId ancestor)
               (List.find (\<lambda>h. lh_isChainTip h \<and> lh_isActive h) (map snd m)) m) (\<lambda>(hs, m').
           bindE (activate_loop (Suc (length m)) (lh_headerId ancestor) oneBack m') (\<lambda>m''.
           Inr (hs, m''))))"

text \<open>The end of an insertion: \<open>oneBack\<close> is the header as it was read before the reorganization.\<close>

definition store_new ::
  "live_header \<Rightarrow> live_header \<Rightarrow> insert_result \<Rightarrow> nodb \<Rightarrow> (insert_result \<times> int option) \<times> nodb" where
  "store_new oneBack n r d =
     (let m = (if lh_isChainTip oneBack
               then AList.update (lh_headerId oneBack) (oneBack\<lparr>lh_isChainTip := False\<rparr>) (liveHeaders d)
               else liveHeaders d);
          d' = d\<lparr>liveHeaders := AList.update (lh_headerId n) n m,
                 hashToHeaderId := (hashToHeaderId d)(bh_hash n \<mapsto> lh_headerId n)\<rparr>
      in if ir_isActiveTip r
         then ((r\<lparr>ir_added := True\<rparr>, Some (bh_height n)), d'\<lparr>tipHeaderId := lh_headerId n\<rparr>)
         else ((r\<lparr>ir_added := True\<rparr>, None), d'))"

definition insert_after ::
  "sdk \<Rightarrow> 'b bignum \<Rightarrow> live_header \<Rightarrow> block_header \<Rightarrow> nodb \<Rightarrow> live_error + (insert_result \<times> int option) \<times> nodb" where
  "insert_after S B oneBack h d =
     (if bh_height oneBack + 1 \<noteq> bh_height h then Inr ((new_result\<lparr>ir_badPrev := True\<rparr>, None), d)
      else case (if active_tip oneBack then Some oneBack else find_active_tip (liveHeaders d)) of
             None \<Rightarrow> Inr ((new_result\<lparr>ir_noTip := True\<rparr>, None), d)
           | Some prior \<Rightarrow>
               let work = addWork B (lh_chainWork oneBack) (convertBitsToWork B (BitsNumber (bh_bits h)));
                   more = isMoreWork S B work (lh_chainWork prior);
                   r = new_result\<lparr>ir_priorTip := Some prior, ir_isActiveTip := more\<rparr>;
                   i = maxHeaderId d + 1;
                   n = new_live h i (Some (lh_headerId oneBack)) work more;
                   d' = d\<lparr>maxHeaderId := i\<rparr>
               in if \<not> more then Inr (store_new oneBack n r d')
                  else bindE (find_active_ancestor (Suc (length (liveHeaders d))) (liveHeaders d) oneBack) (\<lambda>a.
                    case a of
                      None \<Rightarrow> Inr ((r\<lparr>ir_noActiveAncestor := True\<rparr>, None), d')
                    | Some ancestor \<Rightarrow>
                        let depth = (if active_tip oneBack then 0
                                     else min (bh_height prior) (bh_height h) - bh_height ancestor)
                        in bindE (reorganize ancestor oneBack (liveHeaders d)) (\<lambda>(hs, m).
                             Inr (store_new oneBack n
                               (r\<lparr>ir_reorgDepth := depth, ir_deactivatedHeaders := hs\<rparr>)
                               (d'\<lparr>liveHeaders := m\<rparr>)))))"

definition insertHeader ::
  "sdk \<Rightarrow> 'b bignum \<Rightarrow> bulk_end option \<Rightarrow> block_header \<Rightarrow> nodb \<Rightarrow> live_error + (insert_result \<times> int option) \<times> nodb" where
  "insertHeader S B bulk h d =
     (if hashToHeaderId d (bh_hash h) \<noteq> None then Inr ((new_result\<lparr>ir_dupe := True\<rparr>, None), d)
      else case List.find (\<lambda>x. bh_hash x = bh_previousHash h) (live_values d) of
             None \<Rightarrow> bindE (insert_first B bulk h d) (\<lambda>(r, d'). Inr ((r, None), d'))
           | Some oneBack \<Rightarrow> insert_after S B oneBack h d)"

end
