(* ===== verification/LiveChain.thy ===== *)
theory LiveChain
  imports LiveHeaders
begin

text \<open>
  Links between live headers as a relation on the map of their ids, paths along them, and what the three
  loops of a reorganization compute on a map whose links go one height down.
\<close>

section \<open>Links and paths\<close>

type_synonym live_view = "nat \<rightharpoonup> live_header"

definition link :: "live_view \<Rightarrow> nat \<Rightarrow> nat \<Rightarrow> bool" where
  "link m x y \<longleftrightarrow> (\<exists>h. m x = Some h \<and> lh_previousHeaderId h = Some y)"

abbreviation reach :: "live_view \<Rightarrow> nat \<Rightarrow> nat \<Rightarrow> bool" where
  "reach m \<equiv> (link m)\<^sup>*\<^sup>*"

text \<open>Every link leads to a header one lower, whose hash is the previous hash; ids are the keys.\<close>

definition linked :: "live_view \<Rightarrow> bool" where
  "linked m \<longleftrightarrow> (\<forall>x h. m x = Some h \<longrightarrow> lh_headerId h = x \<and>
     (\<forall>p. lh_previousHeaderId h = Some p \<longrightarrow>
        (\<exists>q. m p = Some q \<and> bh_height q + 1 = bh_height h \<and> bh_hash q = bh_previousHash h)))"

lemma linkedD:
  assumes "linked m" "m x = Some h"
  shows "lh_headerId h = x"
    and "lh_previousHeaderId h = Some p \<Longrightarrow>
      \<exists>q. m p = Some q \<and> bh_height q + 1 = bh_height h \<and> bh_hash q = bh_previousHash h"
  using assms by (auto simp: linked_def)

lemma link_fun: "link m x y \<Longrightarrow> link m x z \<Longrightarrow> y = z"
  by (auto simp: link_def)

lemma reach_dom: "reach m x y \<Longrightarrow> x \<noteq> y \<Longrightarrow> \<exists>h. m x = Some h"
  by (erule converse_rtranclpE) (auto simp: link_def)

lemma reach_split:
  assumes "reach m x y" "reach m x z" shows "reach m y z \<or> reach m z y"
  using assms
proof (induction arbitrary: z rule: converse_rtranclp_induct)
  case (step x w)
  from step.prems show ?case
  proof (cases rule: converse_rtranclpE)
    case base
    then show ?thesis using step.hyps by (meson converse_rtranclp_into_rtranclp)
  next
    case (step v)
    with \<open>link m x w\<close> have "v = w" by (blast intro: link_fun)
    with step step.IH show ?thesis by blast
  qed
qed auto

lemma reach_height:
  assumes "reach m x y" "linked m" "m x = Some h"
  shows "\<exists>q. m y = Some q \<and> bh_height q \<le> bh_height h \<and> (x \<noteq> y \<longrightarrow> bh_height q < bh_height h)"
  using assms
proof (induction arbitrary: h rule: converse_rtranclp_induct)
  case (step x w)
  then obtain q where q: "m w = Some q" "bh_height q + 1 = bh_height h"
    by (auto simp: link_def dest: linkedD(2))
  with step.IH [OF step.prems(1), of q] show ?case by fastforce
qed auto

lemma reach_antisym:
  assumes "reach m x y" "reach m y x" "linked m" "m x = Some h" shows "x = y"
proof -
  from reach_height [OF assms(1,3,4)] obtain q where
    q: "m y = Some q" "x \<noteq> y \<longrightarrow> bh_height q < bh_height h" by blast
  from reach_height [OF assms(2,3) q(1)] assms(4) q(2) show ?thesis by fastforce
qed

text \<open>The headers from \<open>x\<close> down to, not including, \<open>a\<close>.\<close>

fun path_to :: "live_view \<Rightarrow> nat \<Rightarrow> nat \<Rightarrow> live_header list \<Rightarrow> bool" where
  "path_to m a x [] \<longleftrightarrow> x = a"
| "path_to m a x (h # hs) \<longleftrightarrow> x \<noteq> a \<and> m x = Some h \<and> (\<exists>p. lh_previousHeaderId h = Some p \<and> path_to m a p hs)"

lemma reach_path:
  assumes "reach m x a" "linked m" "m x = Some h" shows "\<exists>hs. path_to m a x hs"
  using assms
proof (induction arbitrary: h rule: converse_rtranclp_induct)
  case base
  then show ?case by (intro exI [of _ "[]"]) simp
next
  case (step x w)
  then obtain q where q: "m w = Some q" "lh_previousHeaderId h = Some w" "bh_height q + 1 = bh_height h"
    by (auto simp: link_def dest: linkedD(2))
  from step.IH [OF step.prems(1) q(1)] obtain hs where hs: "path_to m a w hs" by auto
  have "x \<noteq> a"
    using reach_height [OF step.hyps(2) step.prems(1) q(1)] step.prems(2) q(3) by auto
  with hs q step.prems show ?case by (intro exI [of _ "h # hs"]) auto
qed

lemma path_reach: "path_to m a x hs \<Longrightarrow> reach m x a"
  by (induction hs arbitrary: x) (auto simp: link_def intro: converse_rtranclp_into_rtranclp)

lemma path_heights:
  assumes "path_to m a x hs" "linked m" "m a = Some g"
  shows "map bh_height hs = map (\<lambda>k. bh_height g + int (length hs) - int k) [0..<length hs]"
    and "m x = Some h \<Longrightarrow> bh_height h = bh_height g + int (length hs)"
    and "\<forall>q \<in> set hs. m (lh_headerId q) = Some q"
proof -
  have "(\<forall>h. m x = Some h \<longrightarrow> bh_height h = bh_height g + int (length hs)) \<and>
      map bh_height hs = map (\<lambda>k. bh_height g + int (length hs) - int k) [0..<length hs] \<and>
      (\<forall>q \<in> set hs. m (lh_headerId q) = Some q)"
    using assms(1)
  proof (induction hs arbitrary: x)
    case (Cons h hs)
    then obtain p where p: "m x = Some h" "lh_previousHeaderId h = Some p" "path_to m a p hs" by auto
    with assms(2) obtain q where q: "m p = Some q" "bh_height q + 1 = bh_height h" by (auto dest: linkedD(2))
    from Cons.IH [OF p(3)] q have hh: "bh_height h = bh_height g + int (length (h # hs))" by auto
    have "map (\<lambda>k. bh_height g + int (length (h # hs)) - int k) [0..<length (h # hs)] =
        bh_height h # map (\<lambda>k. bh_height g + int (length hs) - int k) [0..<length hs]"
      using hh by (simp add: upt_conv_Cons map_Suc_upt [symmetric] comp_def del: upt_Suc)
    with Cons.IH [OF p(3)] p hh linkedD(1) [OF assms(2) p(1)] show ?case by auto
  qed (use assms(3) in auto)
  then show "m x = Some h \<Longrightarrow> bh_height h = bh_height g + int (length hs)"
    "map bh_height hs = map (\<lambda>k. bh_height g + int (length hs) - int k) [0..<length hs]"
    "\<forall>q \<in> set hs. m (lh_headerId q) = Some q" by blast+
qed

lemma path_ids:
  assumes "path_to m a x hs" "linked m"
  shows "y \<in> lh_headerId ` set hs \<longleftrightarrow> reach m x y \<and> reach m y a \<and> y \<noteq> a"
  using assms(1)
proof (induction hs arbitrary: x)
  case Nil
  have "y = a" if "reach m a y" "reach m y a"
    using that(1)
  proof (cases rule: converse_rtranclpE)
    case (step z)
    then obtain h where "m a = Some h" by (auto simp: link_def)
    from reach_antisym [OF that assms(2) this] show ?thesis by simp
  qed simp
  with Nil show ?case by auto
next
  case (Cons h hs)
  then obtain p where p: "x \<noteq> a" "m x = Some h" "lh_previousHeaderId h = Some p" "path_to m a p hs" by auto
  then have l: "link m x p" by (auto simp: link_def)
  have id: "lh_headerId h = x" using linkedD(1) [OF assms(2) p(2)] .
  have ra: "reach m x a" using path_reach [OF Cons.prems] .
  have "reach m x y \<longleftrightarrow> x = y \<or> reach m p y"
    using l link_fun by (metis converse_rtranclp_into_rtranclp converse_rtranclpE rtranclp.rtrancl_refl)
  with Cons.IH [OF p(4)] id p(1) ra show ?case by auto
qed

lemma path_distinct:
  assumes "path_to m a x hs" "linked m" shows "distinct (map lh_headerId hs)"
  using assms(1)
proof (induction hs arbitrary: x)
  case (Cons h hs)
  then obtain p where p: "m x = Some h" "lh_previousHeaderId h = Some p" "path_to m a p hs" by auto
  obtain q where q: "m p = Some q" "bh_height q + 1 = bh_height h"
    using linkedD(2) [OF assms(2) p(1,2)] by auto
  have "x \<notin> lh_headerId ` set hs"
  proof
    assume "x \<in> lh_headerId ` set hs"
    then have "reach m p x" using path_ids [OF p(3) assms(2)] by blast
    from reach_height [OF this assms(2) q(1)] p(1) q(2) show False by auto
  qed
  with Cons.IH [OF p(3)] linkedD(1) [OF assms(2) p(1)] show ?case by auto
qed simp

lemma path_length:
  assumes "path_to m a x hs" "linked m" "dom m \<subseteq> A" "finite A"
  shows "length hs \<le> card A"
proof -
  have "y \<in> A" if "y \<in> lh_headerId ` set hs" for y
  proof -
    from that path_ids [OF assms(1,2)] have "reach m y a" "y \<noteq> a" by blast+
    from reach_dom [OF this] assms(3) show ?thesis by auto
  qed
  then have "lh_headerId ` set hs \<subseteq> A" by blast
  then have "card (set (map lh_headerId hs)) \<le> card A" using assms(4) by (auto intro: card_mono)
  with distinct_card [OF path_distinct [OF assms(1,2)]] show ?thesis by simp
qed


section \<open>The loops\<close>

text \<open>Two maps with the same headers up to the flags have the same links.\<close>

definition unflagged :: "live_header \<Rightarrow> live_header" where
  "unflagged h = h\<lparr>lh_isActive := False, lh_isChainTip := False\<rparr>"

definition same_headers :: "live_view \<Rightarrow> live_view \<Rightarrow> bool" where
  "same_headers m m' \<longleftrightarrow> (\<forall>x. map_option unflagged (m x) = map_option unflagged (m' x))"

lemma unflagged_fields:
  assumes "unflagged h = unflagged h'"
  shows "lh_previousHeaderId h = lh_previousHeaderId h'" "lh_headerId h = lh_headerId h'"
    "bh_height h = bh_height h'" "bh_hash h = bh_hash h'" "bh_previousHash h = bh_previousHash h'"
    "lh_chainWork h = lh_chainWork h'" "bh_bits h = bh_bits h'"
  using assms by (cases h; cases h'; simp add: unflagged_def)+

lemma unflagged_update [simp]:
  "unflagged (h\<lparr>lh_isActive := b\<rparr>) = unflagged h" "unflagged (h\<lparr>lh_isChainTip := b\<rparr>) = unflagged h"
  by (cases h; simp add: unflagged_def)+

lemma same_headers_refl [simp]: "same_headers m m"
  by (simp add: same_headers_def)

lemma same_headers_sym: "same_headers m m' \<Longrightarrow> same_headers m' m"
  by (simp add: same_headers_def)

lemma same_headers_trans: "same_headers m m' \<Longrightarrow> same_headers m' m'' \<Longrightarrow> same_headers m m''"
  by (simp add: same_headers_def)

lemma same_headersD:
  assumes "same_headers m m'" "m x = Some h"
  obtains h' where "m' x = Some h'" "unflagged h = unflagged h'"
  using assms unfolding same_headers_def
  by (metis map_option_eq_Some option.simps(9))

lemma same_headers_link: assumes "same_headers m m'" shows "link m = link m'"
proof -
  have "link m x y \<Longrightarrow> link m' x y" if "same_headers m m'" for m m' x y
    by (auto simp: link_def elim!: same_headersD [OF that] dest: unflagged_fields)
  from this [OF assms] this [OF same_headers_sym [OF assms]] show ?thesis by (intro ext) blast
qed

lemma same_headers_linked: assumes "same_headers m m'" "linked m" shows "linked m'"
  unfolding linked_def
proof (intro allI impI conjI)
  fix x h' assume h': "m' x = Some h'"
  with same_headers_sym [OF assms(1)] obtain h where h: "m x = Some h" "unflagged h' = unflagged h"
    by (rule same_headersD)
  note f = unflagged_fields [OF h(2)]
  show "lh_headerId h' = x" using linkedD(1) [OF assms(2) h(1)] f by simp
  fix p assume "lh_previousHeaderId h' = Some p"
  with f(1) have "lh_previousHeaderId h = Some p" by simp
  from linkedD(2) [OF assms(2) h(1) this] obtain q where
    q: "m p = Some q" "bh_height q + 1 = bh_height h" "bh_hash q = bh_previousHash h" by blast
  from assms(1) q(1) obtain q' where "m' p = Some q'" "unflagged q = unflagged q'" by (rule same_headersD)
  with q f show "\<exists>q. m' p = Some q \<and> bh_height q + 1 = bh_height h' \<and> bh_hash q = bh_previousHash h'"
    by (auto dest: unflagged_fields)
qed

text \<open>Setting the activity flag of the headers with ids in a set.\<close>

definition set_active :: "bool \<Rightarrow> nat set \<Rightarrow> live_view \<Rightarrow> live_view" where
  "set_active b A m = (\<lambda>x. if x \<in> A then map_option (\<lambda>h. h\<lparr>lh_isActive := b\<rparr>) (m x) else m x)"

lemma set_active_empty [simp]: "set_active b {} m = m"
  by (simp add: set_active_def)

lemma set_active_same: "same_headers m (set_active b A m)"
  by (simp add: same_headers_def set_active_def option.map_comp comp_def)

lemma set_active_insert:
  "m x = Some h \<Longrightarrow> x \<notin> A \<Longrightarrow> set_active b A (m(x \<mapsto> h\<lparr>lh_isActive := b\<rparr>)) = set_active b (insert x A) m"
  by (auto simp: set_active_def fun_eq_iff)

lemma path_to_cong:
  assumes "path_to m a x hs" "linked m" "\<And>h. h \<in> set hs \<Longrightarrow> m' (lh_headerId h) = Some h"
  shows "path_to m' a x hs"
  using assms(1,3)
proof (induction hs arbitrary: x)
  case (Cons h hs)
  then have "lh_headerId h = x" using linkedD(1) [OF assms(2)] by auto
  with Cons.prems(2) [of h] have "m' x = Some h" by simp
  with Cons show ?case by auto
qed simp

lemma path_hd: "path_to m a x hs \<Longrightarrow> m a = Some g \<Longrightarrow> m x = Some (case hs of [] \<Rightarrow> g | h # _ \<Rightarrow> h)"
  by (cases hs) auto

lemma walk_up:
  assumes p: "path_to m a x (h # hs)" and l: "linked m" and g: "m a = Some g"
    and m': "m' = m(lh_headerId h \<mapsto> h\<lparr>lh_isActive := b\<rparr>)"
  shows "\<exists>y. lh_previousHeaderId h = Some y \<and> path_to m' a y hs \<and> linked m' \<and> m' a = Some g \<and>
    set_active b (lh_headerId ` set hs) m' = set_active b (lh_headerId ` set (h # hs)) m"
proof -
  from p obtain y where y: "x \<noteq> a" "m x = Some h" "lh_previousHeaderId h = Some y" "path_to m a y hs" by auto
  have id: "lh_headerId h = x" using linkedD(1) [OF l y(2)] .
  have nin: "x \<notin> lh_headerId ` set hs" using path_distinct [OF p l] id by auto
  have "same_headers m m'" using y(2) by (simp add: m' id same_headers_def)
  then have "linked m'" using l by (rule same_headers_linked)
  moreover have "path_to m' a y hs"
    using path_heights(3) [OF y(4) l g] nin by (intro path_to_cong [OF y(4) l]) (auto simp: m' id)
  moreover have "set_active b (lh_headerId ` set hs) m' = set_active b (lh_headerId ` set (h # hs)) m"
    using set_active_insert [of m x h "lh_headerId ` set hs" b, OF y(2) nin] by (simp add: m' id)
  ultimately show ?thesis using y g id by (auto simp: m')
qed

lemma deactivate_loop_path:
  assumes "path_to (map_of m) a x hs" "linked (map_of m)" "map_of m a = Some g" "length hs < n"
  shows "\<exists>m'. deactivate_loop n a (map_of m x) m = Inr (hs, m') \<and> map fst m' = map fst m \<and>
    map_of m' = set_active False (lh_headerId ` set hs) (map_of m)"
  using assms
proof (induction n arbitrary: hs m x)
  case (Suc n)
  show ?case
  proof (cases hs)
    case Nil
    with Suc.prems have "lh_headerId g = a" by (auto dest: linkedD(1))
    with Nil Suc.prems show ?thesis by auto
  next
    case (Cons h t)
    let ?m = "AList.update (lh_headerId h) (h\<lparr>lh_isActive := False\<rparr>) m"
    have h: "map_of m x = Some h" "x \<noteq> a" "lh_headerId h = x"
      using Suc.prems(1) Cons linkedD(1) [OF Suc.prems(2)] by auto
    from walk_up [OF Suc.prems(1) [unfolded Cons] Suc.prems(2,3) update_conv'] obtain y where
      y: "lh_previousHeaderId h = Some y" "path_to (map_of ?m) a y t" "linked (map_of ?m)" "map_of ?m a = Some g"
        "set_active False (lh_headerId ` set t) (map_of ?m) = set_active False (lh_headerId ` set hs) (map_of m)"
      unfolding Cons by blast
    have "length t < n" using Suc.prems(4) Cons by simp
    from Suc.IH [OF y(2-4) this] obtain m' where m':
      "deactivate_loop n a (map_of ?m y) ?m = Inr (t, m')" "map fst m' = map fst ?m"
      "map_of m' = set_active False (lh_headerId ` set t) (map_of ?m)" by blast
    have "map fst ?m = map fst m" using h(1,3) by (auto simp: update_keys dest!: map_of_SomeD) force
    with m' y h Cons show ?thesis by (auto simp: prev_of_def Let_def)
  qed
qed simp

lemma activate_loop_path:
  assumes "path_to (map_of m) a x hs" "linked (map_of m)" "map_of m a = Some g" "map_of m x = Some h" "length hs < n"
  shows "\<exists>m'. activate_loop n a h m = Inr m' \<and> map fst m' = map fst m \<and>
    map_of m' = set_active True (lh_headerId ` set hs) (map_of m)"
  using assms
proof (induction n arbitrary: hs m x h)
  case (Suc n)
  show ?case
  proof (cases hs)
    case Nil
    with Suc.prems have "lh_headerId h = a" by (auto dest: linkedD(1))
    with Nil Suc.prems show ?thesis by auto
  next
    case (Cons k t)
    let ?m = "AList.update (lh_headerId h) (h\<lparr>lh_isActive := True\<rparr>) m"
    have h: "k = h" "x \<noteq> a" "lh_headerId h = x"
      using Suc.prems(1,4) Cons linkedD(1) [OF Suc.prems(2)] by auto
    from walk_up [OF Suc.prems(1) [unfolded Cons h(1)] Suc.prems(2,3) update_conv'] obtain y where
      y: "lh_previousHeaderId h = Some y" "path_to (map_of ?m) a y t" "linked (map_of ?m)" "map_of ?m a = Some g"
        "set_active True (lh_headerId ` set t) (map_of ?m) = set_active True (lh_headerId ` set hs) (map_of m)"
      unfolding Cons h(1) by blast
    obtain q where q: "map_of ?m y = Some q" using path_hd [OF y(2,4)] by blast
    have "length t < n" using Suc.prems(5) Cons by simp
    from Suc.IH [OF y(2-4) q this] obtain m' where m':
      "activate_loop n a q ?m = Inr m'" "map fst m' = map fst ?m"
      "map_of m' = set_active True (lh_headerId ` set t) (map_of ?m)" by blast
    have "map fst ?m = map fst m" using h(3) Suc.prems(4) by (auto simp: update_keys dest!: map_of_SomeD) force
    with m' y h q show ?thesis by (auto simp: prev_of_def Let_def)
  qed
qed simp

text \<open>The walk to the first active header on the way down.\<close>

lemma find_active_ancestor_cases:
  assumes "linked m" "m = map_of al" "m x = Some h" "card (dom m \<inter> {y. reach m x y}) \<le> n"
  shows "(\<exists>g. find_active_ancestor (Suc n) al h = Inr (Some g) \<and> m (lh_headerId g) = Some g \<and> lh_isActive g \<and>
      (\<exists>hs. path_to m (lh_headerId g) x hs \<and> (\<forall>q \<in> set hs. \<not> lh_isActive q))) \<or>
    (find_active_ancestor (Suc n) al h = Inr None \<and>
      (\<forall>y q. reach m x y \<longrightarrow> m y = Some q \<longrightarrow> \<not> lh_isActive q))"
  using assms(3,4)
proof (induction n arbitrary: x h)
  case 0
  have "finite (dom m)" using assms(2) finite_dom_map_of by simp
  moreover have "x \<in> dom m \<inter> {y. reach m x y}" using 0 by auto
  ultimately show ?case using 0 by (auto simp: card_eq_0_iff)
next
  case (Suc n)
  have id: "lh_headerId h = x" using linkedD(1) [OF assms(1) Suc.prems(1)] .
  show ?case
  proof (cases "lh_isActive h")
    case True
    with Suc.prems(1) id show ?thesis by (intro disjI1 exI [of _ h]) (auto intro: exI [of _ "[]"])
  next
    case False
    show ?thesis
    proof (cases "lh_previousHeaderId h")
      case None
      then have "reach m x y \<Longrightarrow> y = x" for y
        using Suc.prems(1) by (auto simp: link_def elim: converse_rtranclpE)
      with None False Suc.prems(1) show ?thesis by (intro disjI2) (fastforce simp: prev_of_def)
    next
      case (Some p)
      then obtain q where q: "m p = Some q" "bh_height q + 1 = bh_height h"
        using linkedD(2) [OF assms(1) Suc.prems(1)] by blast
      have l: "link m x p" using Some Suc.prems(1) by (simp add: link_def)
      have nx: "\<not> reach m p x" using reach_height [OF _ assms(1) q(1), of x] q(2) Suc.prems(1) by auto
      have "finite (dom m \<inter> {y. reach m x y})" using assms(2) finite_dom_map_of by auto
      moreover have "dom m \<inter> {y. reach m p y} \<subset> dom m \<inter> {y. reach m x y}"
        using l nx Suc.prems(1) by (auto intro: converse_rtranclp_into_rtranclp)
      ultimately have "card (dom m \<inter> {y. reach m p y}) < card (dom m \<inter> {y. reach m x y})"
        by (rule psubset_card_mono)
      with Suc.prems(2) have "card (dom m \<inter> {y. reach m p y}) \<le> n" by linarith
      note IH = Suc.IH [OF q(1) this]
      have step: "find_active_ancestor (Suc (Suc n)) al h = find_active_ancestor (Suc n) al q"
        using False Some q(1) assms(2) by (simp add: prev_of_def)
      have rx: "reach m x y \<longleftrightarrow> x = y \<or> reach m p y" for y
        using l link_fun by (metis converse_rtranclp_into_rtranclp converse_rtranclpE rtranclp.rtrancl_refl)
      have path: "path_to m g x (h # hs)" if "path_to m g p hs" for g hs
        using that Some Suc.prems(1) path_reach [OF that] nx by auto
      from IH show ?thesis
      proof (elim disjE exE conjE)
        fix g hs assume "find_active_ancestor (Suc n) al q = Inr (Some g)" "m (lh_headerId g) = Some g"
          "lh_isActive g" "path_to m (lh_headerId g) p hs" "\<forall>q \<in> set hs. \<not> lh_isActive q"
        then show ?thesis
          unfolding step using path [of "lh_headerId g" hs] False
          by (intro disjI1 exI [of _ g] conjI exI [of _ "h # hs"]) auto
      next
        assume "find_active_ancestor (Suc n) al q = Inr None"
          "\<forall>y q. reach m p y \<longrightarrow> m y = Some q \<longrightarrow> \<not> lh_isActive q"
        then show ?thesis
          unfolding step rx using False Suc.prems(1) by (intro disjI2) auto
      qed
    qed
  qed
qed

end
