(* ===== verification/LiveInv.thy ===== *)
theory LiveInv
  imports LiveChain
begin

text \<open>
  The invariant of the live headers (ids, links, the hash map and the active chain: the tip and everything
  it is linked to) and the effect of an insertion on it.
\<close>

section \<open>The invariant\<close>

abbreviation view_of :: "nodb \<Rightarrow> live_view" where
  "view_of d \<equiv> map_of (liveHeaders d)"

definition live_wf :: "nodb \<Rightarrow> bool" where
  "live_wf d \<longleftrightarrow> distinct (map fst (liveHeaders d)) \<and> linked (view_of d) \<and>
     (\<forall>i h. view_of d i = Some h \<longrightarrow> 0 < i \<and> i \<le> maxHeaderId d) \<and>
     (\<forall>s i. hashToHeaderId d s = Some i \<longleftrightarrow> (\<exists>h. view_of d i = Some h \<and> bh_hash h = s))"

text \<open>The active headers are the tip and the headers it reaches; the tip is the only active chain tip; and
  no header follows one that is marked as a chain tip.\<close>

definition chain_at :: "live_view \<Rightarrow> nat \<Rightarrow> bool" where
  "chain_at m t \<longleftrightarrow> (\<exists>h. m t = Some h) \<and>
     (\<forall>x h. m x = Some h \<longrightarrow> (lh_isActive h \<longleftrightarrow> reach m t x) \<and> (active_tip h \<longleftrightarrow> x = t) \<and>
        (lh_isChainTip h \<longrightarrow> (\<forall>y. \<not> link m y x)))"

definition live_inv :: "nodb \<Rightarrow> bool" where
  "live_inv d \<longleftrightarrow> live_wf d \<and> chain_at (view_of d) (tipHeaderId d)"

lemma live_wfD:
  assumes "live_wf d"
  shows "distinct (map fst (liveHeaders d))" "linked (view_of d)"
    "view_of d i = Some h \<Longrightarrow> 0 < i \<and> i \<le> maxHeaderId d"
    "hashToHeaderId d s = Some i \<longleftrightarrow> (\<exists>h. view_of d i = Some h \<and> bh_hash h = s)"
  using assms by (auto simp: live_wf_def)

lemma chain_atD:
  assumes "chain_at m t"
  shows "\<exists>h. m t = Some h" "m x = Some h \<Longrightarrow> lh_isActive h \<longleftrightarrow> reach m t x"
    "m x = Some h \<Longrightarrow> active_tip h \<longleftrightarrow> x = t" "m x = Some h \<Longrightarrow> lh_isChainTip h \<Longrightarrow> \<not> link m y x"
  using assms by (auto simp: chain_at_def)

lemma chain_tip:
  assumes "chain_at m t" obtains h where "m t = Some h" "lh_isActive h" "lh_isChainTip h"
  using assms by (auto simp: chain_at_def active_tip_def)

lemma values_view: "distinct (map fst m) \<Longrightarrow> h \<in> set (map snd m) \<longleftrightarrow> (\<exists>i. map_of m i = Some h)"
  using map_of_eq_Some_iff [of m] by (auto simp: image_iff) force

lemma dom_keys: "dom (map_of al) \<subseteq> set (map fst al)"
  by (simp add: dom_map_of_conv_image_fst)

lemma find_unique:
  assumes "x \<in> set xs" "P x" "\<And>y. y \<in> set xs \<Longrightarrow> P y \<Longrightarrow> y = x" shows "List.find P xs = Some x"
proof (cases "List.find P xs")
  case None
  with assms(1,2) show ?thesis by (auto simp: find_None_all)
next
  case (Some y)
  with find_Some_in [OF Some] assms(3) [of y] show ?thesis by simp
qed

lemma find_tip:
  assumes "distinct (map fst m)" "chain_at (map_of m) t" "map_of m t = Some h"
  shows "find_active_tip m = Some h" "List.find (\<lambda>h. lh_isChainTip h \<and> lh_isActive h) (map snd m) = Some h"
proof -
  have "List.find P (map snd m) = Some h" if P: "P h" "\<And>x. P x \<longleftrightarrow> active_tip x" for P
  proof (rule find_unique)
    show "h \<in> set (map snd m)" using values_view [OF assms(1)] assms(3) by blast
    fix y assume y: "y \<in> set (map snd m)" "P y"
    then obtain i where i: "map_of m i = Some y" using values_view [OF assms(1)] by blast
    with chain_atD(3) [OF assms(2) i] P(2) y(2) assms(3) show "y = h" by simp
  qed (rule P(1))
  note * = this
  have "active_tip h" using chain_atD(3) [OF assms(2,3)] by simp
  then show "find_active_tip m = Some h" "List.find (\<lambda>h. lh_isChainTip h \<and> lh_isActive h) (map snd m) = Some h"
    unfolding find_active_tip_def by (intro *; auto simp: active_tip_def)+
qed

lemma find_hash:
  assumes "live_wf d"
  shows "List.find (\<lambda>x. bh_hash x = s) (live_values d) = (case hashToHeaderId d s of None \<Rightarrow> None | Some i \<Rightarrow> view_of d i)"
proof (cases "hashToHeaderId d s")
  case None
  have "\<not> bh_hash h = s" if "h \<in> set (live_values d)" for h
  proof
    assume "bh_hash h = s"
    with that values_view [OF live_wfD(1) [OF assms]] live_wfD(4) [OF assms, of s] None show False
      by (fastforce simp: live_values_def)
  qed
  with None show ?thesis by (simp add: find_None_all)
next
  case (Some i)
  with live_wfD(4) [OF assms] obtain h where h: "view_of d i = Some h" "bh_hash h = s" by blast
  have "List.find (\<lambda>x. bh_hash x = s) (live_values d) = Some h"
  proof (rule find_unique)
    fix y assume "y \<in> set (live_values d)" "bh_hash y = s"
    then obtain j where "view_of d j = Some y" "hashToHeaderId d s = Some j"
      using values_view [OF live_wfD(1) [OF assms]] live_wfD(4) [OF assms] by (auto simp: live_values_def)
    with Some h show "y = h" by simp
  qed (use h values_view [OF live_wfD(1) [OF assms]] in \<open>auto simp: live_values_def\<close>)
  with Some h show ?thesis by simp
qed

section \<open>The reorganization\<close>

definition redraw :: "live_view \<Rightarrow> nat \<Rightarrow> live_view" where
  "redraw m x = (\<lambda>y. map_option (\<lambda>h. h\<lparr>lh_isActive := reach m x y\<rparr>) (m y))"

lemma same_headers_redraw: "same_headers m (redraw m x)"
  by (simp add: same_headers_def redraw_def option.map_comp comp_def)

lemma live_header_same [simp]: "h\<lparr>lh_isActive := lh_isActive h\<rparr> = (h :: live_header)"
  by (cases h) simp

lemma redraw_tip: "chain_at m t \<Longrightarrow> redraw m t = m"
  by (rule ext) (auto simp: redraw_def chain_at_def map_option_case split: option.splits
      simp flip: live_header_same)

lemma card_reach_le: "card (dom (map_of al) \<inter> {y. reach (map_of al) x y}) \<le> length al"
proof -
  from dom_keys [of al] have "card (dom (map_of al) \<inter> {y. reach (map_of al) x y}) \<le> card (set (map fst al))"
    by (intro card_mono) auto
  also have "\<dots> \<le> length al" using card_length [of "map fst al"] by simp
  finally show ?thesis .
qed

lemma path_fuel:
  assumes "path_to (map_of al) a x hs" "linked (map_of al)" shows "length hs < Suc (length al)"
proof -
  from path_length [OF assms dom_keys] have "length hs \<le> card (set (map fst al))" by simp
  also have "\<dots> \<le> length al" using card_length [of "map fst al"] by simp
  finally show ?thesis by simp
qed

lemma redraw_paths:
  assumes l: "linked m" and c: "chain_at m t" and g: "m a = Some g" "lh_isActive g"
    and p1: "path_to m a t hs1" and p2: "path_to m a x hs2"
  shows "set_active True (lh_headerId ` set hs2) (set_active False (lh_headerId ` set hs1) m) = redraw m x"
proof (rule ext)
  fix y
  note i1 = path_ids [OF p1 l, of y] and i2 = path_ids [OF p2 l, of y]
  have xa: "reach m x a" "reach m t a" using path_reach [OF p1] path_reach [OF p2] by auto
  show "set_active True (lh_headerId ` set hs2) (set_active False (lh_headerId ` set hs1) m) y = redraw m x y"
  proof (cases "m y")
    case (Some h)
    have act: "lh_isActive h \<longleftrightarrow> reach m t y" using chain_atD(2) [OF c Some] .
    consider "y \<in> lh_headerId ` set hs2" | "y \<notin> lh_headerId ` set hs2" "y \<in> lh_headerId ` set hs1"
      | "y \<notin> lh_headerId ` set hs2" "y \<notin> lh_headerId ` set hs1" by blast
    then show ?thesis
    proof cases
      case 1
      with i2 Some show ?thesis by (simp add: set_active_def redraw_def option.map_comp comp_def)
    next
      case 2
      with i1 i2 have "\<not> reach m x y" by auto
      with 2 Some show ?thesis by (simp add: set_active_def redraw_def)
    next
      case 3
      have "reach m t y \<longleftrightarrow> reach m x y"
        using 3 i1 i2 reach_split [OF _ xa(2), of y] reach_split [OF _ xa(1), of y] xa
        by (metis rtranclp_trans rtranclp.rtrancl_refl)
      with 3 Some act show ?thesis
        by (simp add: set_active_def redraw_def flip: act)
    qed
  qed (simp add: set_active_def redraw_def)
qed

lemma reorganize_correct:
  assumes d: "distinct (map fst al)" and l: "linked (map_of al)" and c: "chain_at (map_of al) t"
    and x: "map_of al x = Some oneBack" and g: "map_of al (lh_headerId g) = Some g" "lh_isActive g"
    and p: "path_to (map_of al) (lh_headerId g) x hs2" "\<forall>q \<in> set hs2. \<not> lh_isActive q" and tip: "lh_headerId g = x \<Longrightarrow> x = t"
  shows "\<exists>hs1 al'. reorganize g oneBack al = Inr (hs1, al') \<and> map fst al' = map fst al \<and>
    map_of al' = redraw (map_of al) x \<and>
    (if lh_headerId g = x then hs1 = [] else path_to (map_of al) (lh_headerId g) t hs1)"
proof (cases "lh_headerId g = x")
  case True
  then have "lh_headerId oneBack = x" using linkedD(1) [OF l x] by simp
  with True tip redraw_tip [OF c] show ?thesis by (auto simp: reorganize_def)
next
  case False
  let ?a = "lh_headerId g"
  from chain_atD(1) [OF c] obtain th where th: "map_of al t = Some th" by blast
  from reach_path [OF _ l th, of ?a] chain_atD(2) [OF c g(1)] g(2) obtain hs1 where
    p1: "path_to (map_of al) ?a t hs1" by blast
  note f = find_tip(2) [OF d c th]
  from deactivate_loop_path [OF p1 l g(1) path_fuel [OF p1 l]] obtain m' where
    m': "deactivate_loop (Suc (length al)) ?a (map_of al t) al = Inr (hs1, m')" "map fst m' = map fst al"
      "map_of m' = set_active False (lh_headerId ` set hs1) (map_of al)" by blast
  have same: "same_headers (map_of al) (map_of m')" unfolding m'(3) by (rule set_active_same)
  have l': "linked (map_of m')" using same_headers_linked [OF same l] .
  have len: "length m' = length al" using m'(2) by (metis length_map)
  have p1a: "reach (map_of al) t y" "y \<noteq> ?a" if "y \<in> lh_headerId ` set hs1" for y
    using that path_ids [OF p1 l] by auto
  have keep: "map_of m' (lh_headerId h) = Some h" if "map_of al (lh_headerId h) = Some h" "\<not> lh_isActive h \<or> h = g" for h
    using that p1a [of "lh_headerId h"] chain_atD(2) [OF c that(1)] g(2) by (auto simp: m'(3) set_active_def)
  have p2: "path_to (map_of m') ?a x hs2"
    using path_heights(3) [OF p(1) l g(1)] p(2) by (intro path_to_cong [OF p(1) l] keep) auto
  have "hs2 \<noteq> []" using p(1) False by auto
  then have "\<not> lh_isActive oneBack" using p x by (cases hs2) auto
  then have x': "map_of m' x = Some oneBack" using keep [of oneBack] linkedD(1) [OF l x] x by simp
  from activate_loop_path [OF p2 l' keep [OF g(1)] x' path_fuel [OF p2 l']] obtain m'' where
    m'': "activate_loop (Suc (length m')) ?a oneBack m' = Inr m''" "map fst m'' = map fst m'"
      "map_of m'' = set_active True (lh_headerId ` set hs2) (map_of m')" by auto
  have "map_of m'' = redraw (map_of al) x"
    unfolding m''(3) m'(3) by (rule redraw_paths [OF l c g p1 p(1)])
  moreover have "reorganize g oneBack al = Inr (hs1, m'')"
    using f m'(1) m''(1) th False linkedD(1) [OF l x] len by (simp add: reorganize_def th)
  ultimately show ?thesis using m'(2) m''(2) p1 False by auto
qed


section \<open>Adding the new header\<close>

definition unmark :: "live_view \<Rightarrow> nat \<Rightarrow> live_view" where
  "unmark m x = (\<lambda>y. map_option (\<lambda>h. h\<lparr>lh_isChainTip := lh_isChainTip h \<and> y \<noteq> x\<rparr>) (m y))"

lemma same_headers_unmark: "same_headers m (unmark m x)"
  by (simp add: same_headers_def unmark_def option.map_comp comp_def)

lemma unmark_none:
  assumes "m x = Some h" "\<not> lh_isChainTip h" shows "unmark m x = m"
proof
  fix y show "unmark m x y = m y"
  proof (cases "m y")
    case (Some k)
    then show ?thesis using assms by (cases k) (auto simp: unmark_def)
  qed (simp add: unmark_def)
qed

lemma live_header_unmarked [simp]: "\<not> lh_isChainTip h \<Longrightarrow> h\<lparr>lh_isChainTip := False\<rparr> = (h :: live_header)"
  by (cases h) simp

lemma live_header_mark_same [simp]: "h\<lparr>lh_isChainTip := lh_isChainTip h\<rparr> = (h :: live_header)"
  by (cases h) simp

definition new_header :: "live_view \<Rightarrow> live_view \<Rightarrow> nat \<Rightarrow> nat \<Rightarrow> live_header \<Rightarrow> bool" where
  "new_header m m' i x n \<longleftrightarrow> linked m \<and> same_headers m m' \<and> m i = None \<and> lh_headerId n = i \<and>
     lh_previousHeaderId n = Some x \<and>
     (\<exists>q. m x = Some q \<and> bh_height q + 1 = bh_height n \<and> bh_hash q = bh_previousHash n)"

lemma new_headerD:
  assumes "new_header m m' i x n"
  shows "linked m" "same_headers m m'" "m i = None" "m' i = None" "lh_headerId n = i" "lh_previousHeaderId n = Some x"
    "x \<noteq> i" "\<not> link m y i"
    "\<exists>q. m x = Some q \<and> bh_height q + 1 = bh_height n \<and> bh_hash q = bh_previousHash n"
proof -
  show l: "linked m" and s: "same_headers m m'" and f: "m i = None" and "lh_headerId n = i"
    "lh_previousHeaderId n = Some x"
    and b: "\<exists>q. m x = Some q \<and> bh_height q + 1 = bh_height n \<and> bh_hash q = bh_previousHash n"
    using assms by (auto simp: new_header_def)
  show "m' i = None" using s f by (metis map_option_is_None same_headers_def)
  show "x \<noteq> i" using b f by auto
  show "\<not> link m y i" using l f by (auto simp: link_def dest: linkedD(2))
qed

lemma link_new:
  assumes "new_header m m' i x n" shows "link (m'(i \<mapsto> n)) y z \<longleftrightarrow> (if y = i then z = x else link m y z)"
  using new_headerD(6) [OF assms] same_headers_link [OF new_headerD(2) [OF assms]]
  by (auto simp: link_def fun_eq_iff)

lemma reach_new:
  assumes nh: "new_header m m' i x n"
  shows "reach (m'(i \<mapsto> n)) y z \<longleftrightarrow> (if y = i then z = i \<or> reach m x z else reach m y z)"
proof -
  note l = link_new [OF nh] and nf = new_headerD(8) [OF nh]
  have old: "reach (m'(i \<mapsto> n)) y z \<longleftrightarrow> reach m y z" if "y \<noteq> i" for y
  proof
    assume "reach (m'(i \<mapsto> n)) y z"
    from this that show "reach m y z"
    proof (induction rule: converse_rtranclp_induct)
      case (step u v)
      then show ?case by (metis converse_rtranclp_into_rtranclp l nf)
    qed simp
  next
    assume "reach m y z"
    from this that show "reach (m'(i \<mapsto> n)) y z"
    proof (induction rule: converse_rtranclp_induct)
      case (step u v)
      then show ?case by (metis converse_rtranclp_into_rtranclp l nf)
    qed simp
  qed
  have "reach (m'(i \<mapsto> n)) i z \<longleftrightarrow> z = i \<or> reach (m'(i \<mapsto> n)) x z"
    by (metis converse_rtranclpE converse_rtranclp_into_rtranclp l rtranclp.rtrancl_refl)
  with old [of x] old [of y] new_headerD(7) [OF nh] show ?thesis by auto
qed

lemma linked_new:
  assumes nh: "new_header m m' i x n" shows "linked (m'(i \<mapsto> n))"
proof -
  note h = new_headerD [OF nh]
  have l': "linked m'" using same_headers_linked [OF h(2,1)] .
  from h(9) obtain q where q: "m x = Some q" "bh_height q + 1 = bh_height n" "bh_hash q = bh_previousHash n" by blast
  from h(2) q(1) obtain q' where "m' x = Some q'" "unflagged q = unflagged q'" by (rule same_headersD)
  with q unflagged_fields(3,4) [of q q']
  have "\<exists>q. m' x = Some q \<and> bh_height q + 1 = bh_height n \<and> bh_hash q = bh_previousHash n" by auto
  moreover have "p \<noteq> i" if "m' y = Some h" "lh_previousHeaderId h = Some p" for y h p
    using linkedD(2) [OF l' that] new_headerD(4) [OF nh] by auto
  ultimately have "lh_headerId h = y \<and> (\<forall>p. lh_previousHeaderId h = Some p \<longrightarrow>
      (\<exists>q. (m'(i \<mapsto> n)) p = Some q \<and> bh_height q + 1 = bh_height h \<and> bh_hash q = bh_previousHash h))"
    if "(m'(i \<mapsto> n)) y = Some h" for y h
    using that h(5-7) linkedD [OF l', of y h] by (cases "y = i") auto
  then show ?thesis unfolding linked_def by blast
qed

lemma chain_more:
  assumes nh: "new_header m (unmark (redraw m x) x) i x n" and c: "chain_at m t" and n: "active_tip n"
    and o: "m x = Some oneBack" "x = t \<or> \<not> lh_isActive oneBack \<and> \<not> lh_isChainTip oneBack"
  shows "chain_at ((unmark (redraw m x) x)(i \<mapsto> n)) i"
proof -
  let ?M = "(unmark (redraw m x) x)(i \<mapsto> n)"
  note rn = reach_new [OF nh] and ln = link_new [OF nh]
  have "lh_isActive h \<longleftrightarrow> reach ?M i y" "active_tip h \<longleftrightarrow> y = i" "lh_isChainTip h \<Longrightarrow> \<not> link ?M z y"
    if h: "?M y = Some h" for y h z
  proof -
    have yi: "y \<noteq> i" if "y = x \<or> m y \<noteq> None" using that new_headerD(7) [OF nh] new_headerD(3) [OF nh] by auto
    have "reach ?M i y \<longleftrightarrow> y = i \<or> reach m x y" by (simp only: rn if_True simp_thms)
    moreover have "lh_isActive h \<longleftrightarrow> y = i \<or> reach m x y"
      using h n by (auto simp: unmark_def redraw_def active_tip_def split: if_splits)
    ultimately show "lh_isActive h \<longleftrightarrow> reach ?M i y" by blast
    show "\<not> link ?M z y" if tip: "lh_isChainTip h"
    proof (cases "y = i")
      case True
      then show ?thesis using new_headerD(7) [OF nh] new_headerD(8) [OF nh] by (auto simp: ln)
    next
      case False
      with h obtain k where k: "m y = Some k" "lh_isChainTip h \<longleftrightarrow> lh_isChainTip k \<and> y \<noteq> x"
        by (auto simp: unmark_def redraw_def)
      with tip chain_atD(4) [OF c k(1)] show ?thesis by (auto simp: ln)
    qed
    show "active_tip h \<longleftrightarrow> y = i"
    proof (cases "y = i")
      case False
      with h obtain k where k: "m y = Some k" "lh_isChainTip h \<longleftrightarrow> lh_isChainTip k \<and> y \<noteq> x"
        "lh_isActive h \<longleftrightarrow> reach m x y" by (auto simp: unmark_def redraw_def)
      have False if "reach m x y" "x \<noteq> y" "lh_isChainTip k"
      proof -
        from that(1,2) obtain z where "link m z y" by (metis rtranclp.cases)
        with chain_atD(4) [OF c k(1) that(3)] show False by blast
      qed
      with k False show ?thesis by (auto simp: active_tip_def)
    qed (use h n in simp)
  qed
  then show ?thesis unfolding chain_at_def by auto
qed

lemma chain_less:
  assumes nh: "new_header m (unmark m x) i x n" and c: "chain_at m t"
    and n: "\<not> lh_isActive n" "\<not> lh_isChainTip n" and x: "x \<noteq> t"
  shows "chain_at ((unmark m x)(i \<mapsto> n)) t"
proof -
  let ?M = "(unmark m x)(i \<mapsto> n)"
  note rn = reach_new [OF nh] and ln = link_new [OF nh]
  obtain th where th: "m t = Some th" using chain_atD(1) [OF c] by blast
  then have ti: "t \<noteq> i" using new_headerD(3) [OF nh] by auto
  have "lh_isActive h \<longleftrightarrow> reach ?M t y" "active_tip h \<longleftrightarrow> y = t" "lh_isChainTip h \<Longrightarrow> \<not> link ?M z y"
    if h: "?M y = Some h" for y h z
  proof -
    have ri: "\<not> reach m t i"
      using ti new_headerD(8) [OF nh] by (metis rtranclp.cases)
    have old: "\<exists>k. m y = Some k \<and> lh_isActive h = lh_isActive k \<and> (lh_isChainTip h \<longleftrightarrow> lh_isChainTip k \<and> y \<noteq> x)"
      if "y \<noteq> i" using h that by (auto simp: unmark_def)
    have "reach ?M t y \<longleftrightarrow> reach m t y" using ti by (simp only: rn if_False)
    moreover have "lh_isActive h \<longleftrightarrow> reach m t y"
      using h n ri old chain_atD(2) [OF c] by (cases "y = i") auto
    ultimately show "lh_isActive h \<longleftrightarrow> reach ?M t y" by blast
    show "active_tip h \<longleftrightarrow> y = t"
      using h n ti old chain_atD(3) [OF c] x by (cases "y = i") (auto simp: active_tip_def)
    show "\<not> link ?M z y" if tip: "lh_isChainTip h"
      using h n old tip chain_atD(4) [OF c] by (cases "y = i") (auto simp: ln)
  qed
  moreover have "\<exists>h. ?M t = Some h" using th ti by (simp add: unmark_def)
  ultimately show ?thesis unfolding chain_at_def by blast
qed

text \<open>What \<open>store_new\<close> leaves: the previous header loses its tip mark and the new one is added.\<close>

lemma store_new_view:
  assumes "map_of (liveHeaders d) x = Some o'" "lh_headerId oneBack = x" "lh_headerId n \<noteq> x"
    and "lh_isChainTip oneBack \<Longrightarrow> o' = oneBack" "lh_isChainTip o' = lh_isChainTip oneBack"
    and s: "store_new oneBack n r d = (rp, d')"
  shows "view_of d' = (unmark (view_of d) x)(lh_headerId n \<mapsto> n)"
    "hashToHeaderId d' = (hashToHeaderId d)(bh_hash n \<mapsto> lh_headerId n)" "maxHeaderId d' = maxHeaderId d"
    "rp = (r\<lparr>ir_added := True\<rparr>, if ir_isActiveTip r then Some (bh_height n) else None)"
    "tipHeaderId d' = (if ir_isActiveTip r then lh_headerId n else tipHeaderId d)"
    "distinct (map fst (liveHeaders d)) \<Longrightarrow> distinct (map fst (liveHeaders d'))"
proof -
  let ?m = "if lh_isChainTip oneBack
    then AList.update (lh_headerId oneBack) (oneBack\<lparr>lh_isChainTip := False\<rparr>) (liveHeaders d) else liveHeaders d"
  have m: "map_of ?m = unmark (view_of d) x"
  proof (cases "lh_isChainTip oneBack")
    case True
    then have "unmark (view_of d) x = (view_of d)(x \<mapsto> oneBack\<lparr>lh_isChainTip := False\<rparr>)"
      using assms(1,4) by (auto simp: unmark_def fun_eq_iff map_option_case split: option.splits)
    with True assms(2) show ?thesis by (simp add: update_conv')
  qed (use unmark_none [of "view_of d" x o', OF assms(1)] assms(5) in simp)
  show "view_of d' = (unmark (view_of d) x)(lh_headerId n \<mapsto> n)"
  proof -
    have "liveHeaders d' = AList.update (lh_headerId n) n ?m"
      using s by (auto simp: store_new_def Let_def split: if_splits)
    then show ?thesis by (simp only: update_conv' m)
  qed
  show "hashToHeaderId d' = (hashToHeaderId d)(bh_hash n \<mapsto> lh_headerId n)" "maxHeaderId d' = maxHeaderId d"
    "rp = (r\<lparr>ir_added := True\<rparr>, if ir_isActiveTip r then Some (bh_height n) else None)"
    "tipHeaderId d' = (if ir_isActiveTip r then lh_headerId n else tipHeaderId d)"
    using s by (auto simp: store_new_def Let_def split: if_splits)
  show "distinct (map fst (liveHeaders d)) \<Longrightarrow> distinct (map fst (liveHeaders d'))"
    using s by (auto simp: store_new_def Let_def distinct_update split: if_splits)
qed

text \<open>Well-formedness after the new header is added.\<close>

lemma new_header_wf:
  assumes wf: "live_wf d" and nh: "new_header (view_of d) m' (maxHeaderId d + 1) x n"
    and hash: "hashToHeaderId d (bh_hash n) = None"
    and d': "view_of d' = m'(maxHeaderId d + 1 \<mapsto> n)" "distinct (map fst (liveHeaders d'))"
      "hashToHeaderId d' = (hashToHeaderId d)(bh_hash n \<mapsto> maxHeaderId d + 1)" "maxHeaderId d' = maxHeaderId d + 1"
  shows "live_wf d'"
  unfolding live_wf_def
proof (intro conjI allI impI)
  note same = new_headerD(2) [OF nh]
  show "distinct (map fst (liveHeaders d'))" by (rule d'(2))
  show "linked (view_of d')" unfolding d'(1) by (rule linked_new [OF nh])
  fix i h assume "view_of d' i = Some h"
  then show "0 < i" "i \<le> maxHeaderId d'"
    using live_wfD(3) [OF wf] unfolding d'(1,4)
    by (auto split: if_splits elim!: same_headersD [OF same_headers_sym [OF same]] dest: le_SucI)
next
  fix s i
  note same = new_headerD(2) [OF nh]
  have e: "(\<exists>h. m' j = Some h \<and> bh_hash h = s) \<longleftrightarrow> (\<exists>h. view_of d j = Some h \<and> bh_hash h = s)" for j
    by (metis same_headersD [OF same] same_headersD [OF same_headers_sym [OF same]] unflagged_fields(4))
  have f: "hashToHeaderId d s \<noteq> Some (maxHeaderId d + 1)"
    using live_wfD(4) [OF wf] new_headerD(3) [OF nh] by auto
  show "hashToHeaderId d' s = Some i \<longleftrightarrow> (\<exists>h. view_of d' i = Some h \<and> bh_hash h = s)"
    using e [of i] f live_wfD(4) [OF wf, of s i] hash new_headerD(3) [OF nh]
    unfolding d'(1,3) by auto
qed


section \<open>The whole insertion\<close>

text \<open>\<open>inserted\<close>: the header \<open>n\<close> was added, the others are unchanged up to the two flags, the
  invariant holds again and the headers reported as deactivated are those that were active and are not any
  more.\<close>

definition inserted :: "nodb \<Rightarrow> live_header \<Rightarrow> insert_result \<Rightarrow> nodb \<Rightarrow> bool" where
  "inserted d n r d' \<longleftrightarrow> live_inv d' \<and> maxHeaderId d' = maxHeaderId d + 1 \<and> lh_headerId n = maxHeaderId d + 1 \<and>
     view_of d' (lh_headerId n) = Some n \<and> same_headers ((view_of d)(lh_headerId n \<mapsto> n)) (view_of d') \<and>
     ir_added r \<and> (ir_isActiveTip r \<longleftrightarrow> lh_isActive n) \<and>
     tipHeaderId d' = (if lh_isActive n then lh_headerId n else tipHeaderId d) \<and>
     (\<not> lh_isActive n \<longrightarrow> ir_deactivatedHeaders r = []) \<and>
     (\<forall>y h h'. view_of d y = Some h \<longrightarrow> view_of d' y = Some h' \<longrightarrow>
        (h \<in> set (ir_deactivatedHeaders r) \<longleftrightarrow> lh_isActive h \<and> \<not> lh_isActive h') \<and>
        (lh_isChainTip h' \<longrightarrow> lh_isChainTip h))"


lemma off_path:
  assumes l: "linked m" and c: "chain_at m t" and g: "m a = Some g" "lh_isActive g"
    and p1: "path_to m a t hs1" and p2: "path_to m a x hs2" "\<forall>q \<in> set hs2. \<not> lh_isActive q"
    and h: "m y = Some h" "lh_headerId h = y"
  shows "h \<in> set hs1 \<longleftrightarrow> lh_isActive h \<and> \<not> reach m x y"
proof -
  have ra: "reach m t a" "reach m x a" using path_reach [OF p1] path_reach [OF p2(1)] by auto
  have in1: "h \<in> set hs1 \<longleftrightarrow> y \<in> lh_headerId ` set hs1"
  proof
    assume "y \<in> lh_headerId ` set hs1"
    then obtain q where q: "q \<in> set hs1" "lh_headerId q = y" by auto
    from bspec [OF path_heights(3) [OF p1 l g(1)] q(1)] q(2) h(1) have "q = h" by simp
    with q show "h \<in> set hs1" by simp
  qed (use h(2) in auto)
  have act: "lh_isActive h \<longleftrightarrow> reach m t y" using chain_atD(2) [OF c h(1)] .
  have "\<not> reach m x y" if "reach m t y" "reach m y a" "y \<noteq> a"
  proof
    assume r: "reach m x y"
    have "y \<in> lh_headerId ` set hs2" unfolding path_ids [OF p2(1) l] using that r by blast
    then obtain q where q: "q \<in> set hs2" "lh_headerId q = y" by auto
    from bspec [OF path_heights(3) [OF p2(1) l g(1)] q(1)] q(2) h(1) have "q = h" by simp
    with q(1) p2(2) act that(1) show False by simp
  qed
  moreover have "reach m y a \<and> y \<noteq> a" if "reach m t y" "\<not> reach m x y"
  proof -
    have "\<not> reach m a y" using that(2) ra(2) rtranclp_trans by fast
    with reach_split [OF that(1) ra(1)] that(2) ra(2) show ?thesis by auto
  qed
  ultimately show ?thesis using in1 path_ids [OF p1 l, of y] act by blast
qed

lemma new_live_fields [simp]:
  "lh_headerId (new_live h i p w b) = i" "lh_previousHeaderId (new_live h i p w b) = p"
  "lh_chainWork (new_live h i p w b) = w" "lh_isChainTip (new_live h i p w b) = b"
  "lh_isActive (new_live h i p w b) = b" "bh_height (new_live h i p w b) = bh_height h"
  "bh_hash (new_live h i p w b) = bh_hash h" "bh_previousHash (new_live h i p w b) = bh_previousHash h"
  "bh_merkleRoot (new_live h i p w b) = bh_merkleRoot h" "bh_bits (new_live h i p w b) = bh_bits h"
  by (simp_all add: new_live_def block_header.extend_def live_header.fields_def)

lemma insertedI:
  assumes wf: "live_wf d" and nh: "new_header (view_of d) m' (maxHeaderId d + 1) x n"
    and hash: "hashToHeaderId d (bh_hash n) = None"
    and d': "view_of d' = m'(maxHeaderId d + 1 \<mapsto> n)" "distinct (map fst (liveHeaders d'))"
      "hashToHeaderId d' = (hashToHeaderId d)(bh_hash n \<mapsto> maxHeaderId d + 1)" "maxHeaderId d' = maxHeaderId d + 1"
    and c: "chain_at (view_of d') (tipHeaderId d')"
      "tipHeaderId d' = (if lh_isActive n then maxHeaderId d + 1 else tipHeaderId d)"
    and r: "ir_added r" "ir_isActiveTip r = lh_isActive n"
      "\<And>y h h'. view_of d y = Some h \<Longrightarrow> m' y = Some h' \<Longrightarrow>
        (h \<in> set (ir_deactivatedHeaders r) \<longleftrightarrow> lh_isActive h \<and> \<not> lh_isActive h') \<and>
        (lh_isChainTip h' \<longrightarrow> lh_isChainTip h)"
      "\<not> lh_isActive n \<Longrightarrow> ir_deactivatedHeaders r = []"
  shows "inserted d n r d'"
  unfolding inserted_def live_inv_def
proof (intro conjI allI impI)
  note h = new_headerD [OF nh]
  show "live_wf d'" by (rule new_header_wf [OF wf nh hash d'])
  show "same_headers ((view_of d)(lh_headerId n \<mapsto> n)) (view_of d')"
    using h(2) unfolding d'(1) h(5) by (simp add: same_headers_def)
  fix y k k' assume k: "view_of d y = Some k" "view_of d' y = Some k'"
  then have "y \<noteq> maxHeaderId d + 1" using h(3) by auto
  with k r(3) [of y k k'] show "k \<in> set (ir_deactivatedHeaders r) \<longleftrightarrow> lh_isActive k \<and> \<not> lh_isActive k'"
    "lh_isChainTip k' \<Longrightarrow> lh_isChainTip k" by (simp_all add: d'(1))
qed (use assms new_headerD(5) [OF nh] in auto)

lemma insert_after_correct:
  fixes S :: sdk and B :: "'b bignum"
  assumes inv: "live_inv d" and th: "view_of d (tipHeaderId d) = Some th"
    and new: "hashToHeaderId d (bh_hash h) = None"
    and x: "view_of d x = Some p" "bh_hash p = bh_previousHash h" "bh_height p + 1 = bh_height h"
    and work: "work = addWork B (lh_chainWork p) (convertBitsToWork B (BitsNumber (bh_bits h)))"
    and heavier: "heavier = isMoreWork S B work (lh_chainWork th)"
    and safe: "heavier \<Longrightarrow> x = tipHeaderId d \<or> \<not> lh_isActive p \<and> \<not> lh_isChainTip p"
      "x = tipHeaderId d \<Longrightarrow> heavier"
  shows "(\<exists>r d'. insert_after S B p h d = Inr ((r, if heavier then Some (bh_height h) else None), d') \<and>
        inserted d (new_live h (maxHeaderId d + 1) (Some x) work heavier) r d' \<and> ir_priorTip r = Some th \<and>
        (bh_height th < bh_height h \<longrightarrow> ir_reorgDepth r = int (length (ir_deactivatedHeaders r)))) \<or>
      (heavier \<and> (\<exists>r. insert_after S B p h d = Inr ((r, None), d\<lparr>maxHeaderId := maxHeaderId d + 1\<rparr>) \<and>
        \<not> ir_added r \<and> ir_noActiveAncestor r) \<and>
        (\<forall>y q. reach (view_of d) x y \<longrightarrow> view_of d y = Some q \<longrightarrow> \<not> lh_isActive q))"
proof -
  let ?t = "tipHeaderId d" and ?i = "maxHeaderId d + 1" and ?m = "view_of d"
  let ?n = "new_live h ?i (Some x) work heavier"
  from inv have wf: "live_wf d" and c: "chain_at ?m ?t" by (auto simp: live_inv_def)
  note l = live_wfD(2) [OF wf] and dist = live_wfD(1) [OF wf]
  have px: "lh_headerId p = x" using linkedD(1) [OF l x(1)] .
  have tip: "active_tip p \<longleftrightarrow> x = ?t" using chain_atD(3) [OF c x(1)] .
  have prior: "(if active_tip p then Some p else find_active_tip (liveHeaders d)) = Some th"
    using tip x(1) th find_tip(1) [OF dist c th] by auto
  have fresh: "?m ?i = None" using live_wfD(3) [OF wf, of ?i] by (cases "?m ?i") auto
  have xi: "x \<noteq> ?i" using fresh x(1) by auto
  have nh: "new_header ?m m' ?i x ?n" if "same_headers ?m m'" for m'
    using l fresh x that by (simp add: new_header_def)
  define r0 where "r0 = new_result\<lparr>ir_priorTip := Some th, ir_isActiveTip := heavier\<rparr>"
  define d0 where "d0 = d\<lparr>maxHeaderId := ?i\<rparr>"
  note d0 = d0_def
  have ins: "insert_after S B p h d =
      (if \<not> heavier then Inr (store_new p ?n r0 d0)
       else bindE (find_active_ancestor (Suc (length (liveHeaders d))) (liveHeaders d) p) (\<lambda>a.
         case a of
           None \<Rightarrow> Inr ((r0\<lparr>ir_noActiveAncestor := True\<rparr>, None), d0)
         | Some ancestor \<Rightarrow> bindE (reorganize ancestor p (liveHeaders d)) (\<lambda>(hs, m).
             Inr (store_new p ?n (r0\<lparr>ir_reorgDepth := (if active_tip p then 0
                                     else min (bh_height th) (bh_height h) - bh_height ancestor),
                 ir_deactivatedHeaders := hs\<rparr>) (d0\<lparr>liveHeaders := m\<rparr>)))))"
    using x(3) by (simp add: insert_after_def prior px Let_def r0_def d0_def work heavier)
  show ?thesis
  proof (cases heavier)
    case False
    obtain rp d' where s: "store_new p ?n r0 d0 = (rp, d')" by (metis surj_pair)
    have f: "view_of d' = (unmark (view_of d0) x)(lh_headerId ?n \<mapsto> ?n)"
      "hashToHeaderId d' = (hashToHeaderId d0)(bh_hash ?n \<mapsto> lh_headerId ?n)" "maxHeaderId d' = maxHeaderId d0"
      "rp = (r0\<lparr>ir_added := True\<rparr>, if ir_isActiveTip r0 then Some (bh_height ?n) else None)"
      "tipHeaderId d' = (if ir_isActiveTip r0 then lh_headerId ?n else tipHeaderId d0)"
      "distinct (map fst (liveHeaders d0)) \<Longrightarrow> distinct (map fst (liveHeaders d'))"
      by (rule store_new_view [OF _ px _ _ _ s]; use x(1) xi in \<open>auto simp: d0\<close>)+
    have "inserted d ?n (r0\<lparr>ir_added := True\<rparr>) d'"
    proof (rule insertedI [OF wf nh [OF same_headers_unmark]])
      show "view_of d' = (unmark ?m x)(?i \<mapsto> ?n)" using f(1) by (simp add: d0)
      moreover have "tipHeaderId d' = ?t" using f(5) False by (simp add: r0_def d0)
      moreover have "x \<noteq> ?t" using safe(2) False by auto
      ultimately show "chain_at (view_of d') (tipHeaderId d')"
        using chain_less [OF nh [OF same_headers_unmark] c] False by simp
    qed (use new f(2-6) False dist in \<open>auto simp: r0_def d0 new_result_def unmark_def\<close>)
    with s f False ins show ?thesis by (auto simp: r0_def new_result_def)
  next
    case True
    note cases = find_active_ancestor_cases [OF l refl x(1) card_reach_le]
    show ?thesis
    proof (cases "find_active_ancestor (Suc (length (liveHeaders d))) (liveHeaders d) p = Inr None")
      case none: True
      with cases have "\<forall>y q. reach ?m x y \<longrightarrow> ?m y = Some q \<longrightarrow> \<not> lh_isActive q" by auto
      with none True ins show ?thesis by (auto simp: r0_def new_result_def d0)
    next
      case False
      with cases obtain g hs2 where g: "find_active_ancestor (Suc (length (liveHeaders d))) (liveHeaders d) p = Inr (Some g)"
        "?m (lh_headerId g) = Some g" "lh_isActive g" "path_to ?m (lh_headerId g) x hs2" "\<forall>q \<in> set hs2. \<not> lh_isActive q"
        by blast
      have "x = ?t" if "lh_headerId g = x" using that g(2,3) x(1) safe(1) True by auto
      from reorganize_correct [OF dist l c x(1) g(2-5) this] obtain hs1 al' where
        al': "reorganize g p (liveHeaders d) = Inr (hs1, al')" "map fst al' = map fst (liveHeaders d)"
          "map_of al' = redraw ?m x" "if lh_headerId g = x then hs1 = [] else path_to ?m (lh_headerId g) ?t hs1"
        by blast
      let ?r = "r0\<lparr>ir_reorgDepth := (if active_tip p then 0 else min (bh_height th) (bh_height h) - bh_height g),
        ir_deactivatedHeaders := hs1\<rparr>"
      obtain rp d' where s: "store_new p ?n ?r (d0\<lparr>liveHeaders := al'\<rparr>) = (rp, d')" by (metis surj_pair)
      let ?p' = "p\<lparr>lh_isActive := True\<rparr>"
      have tp: "lh_isChainTip p \<Longrightarrow> lh_isActive p" using safe(1) True tip by (auto simp: active_tip_def)
      have f: "view_of d' = (unmark (view_of (d0\<lparr>liveHeaders := al'\<rparr>)) x)(lh_headerId ?n \<mapsto> ?n)"
        "hashToHeaderId d' = (hashToHeaderId (d0\<lparr>liveHeaders := al'\<rparr>))(bh_hash ?n \<mapsto> lh_headerId ?n)"
        "maxHeaderId d' = maxHeaderId (d0\<lparr>liveHeaders := al'\<rparr>)"
        "rp = (?r\<lparr>ir_added := True\<rparr>, if ir_isActiveTip ?r then Some (bh_height ?n) else None)"
        "tipHeaderId d' = (if ir_isActiveTip ?r then lh_headerId ?n else tipHeaderId (d0\<lparr>liveHeaders := al'\<rparr>))"
        "distinct (map fst (liveHeaders (d0\<lparr>liveHeaders := al'\<rparr>))) \<Longrightarrow> distinct (map fst (liveHeaders d'))"
        by (rule store_new_view [where o' = ?p', OF _ px _ _ _ s];
            use x(1) xi tp in \<open>auto simp: al'(3) redraw_def simp flip: live_header_same\<close>)+
      let ?M = "unmark (redraw ?m x) x"
      have same: "same_headers ?m ?M" by (rule same_headers_trans [OF same_headers_redraw same_headers_unmark])
      have v: "view_of d' = ?M(?i \<mapsto> ?n)" using f(1) by (simp add: al'(3))
      have t': "tipHeaderId d' = ?i" using f(5) True by (simp add: r0_def)
      have ids: "k \<in> set hs1 \<longleftrightarrow> lh_isActive k \<and> \<not> lh_isActive k'" if "?m y = Some k" "?M y = Some k'" for y k k'
      proof -
        have k': "lh_isActive k' \<longleftrightarrow> reach ?m x y" using that by (auto simp: unmark_def redraw_def)
        show ?thesis
        proof (cases "lh_headerId g = x")
          case True
          then have "x = ?t" using g(2,3) x(1) safe(1) \<open>heavier\<close> by auto
          with True al'(4) chain_atD(2) [OF c that(1)] k' show ?thesis by simp
        next
          case False
          with al'(4) have "path_to ?m (lh_headerId g) ?t hs1" by simp
          from off_path [OF l c g(2,3) this g(4,5) that(1) linkedD(1) [OF l that(1)]] k' show ?thesis by simp
        qed
      qed
      have "inserted d ?n (?r\<lparr>ir_added := True\<rparr>) d'"
      proof (rule insertedI [OF wf nh [OF same] _ v])
        show "chain_at (view_of d') (tipHeaderId d')"
          unfolding v t' by (rule chain_more [OF nh [OF same] c _ x(1) safe(1)]) (use True in \<open>auto simp: active_tip_def\<close>)
        show "(k \<in> set (ir_deactivatedHeaders (?r\<lparr>ir_added := True\<rparr>)) \<longleftrightarrow> lh_isActive k \<and> \<not> lh_isActive k') \<and>
          (lh_isChainTip k' \<longrightarrow> lh_isChainTip k)"
          if "?m y = Some k" "?M y = Some k'" for y k k'
          using ids [OF that] that by (auto simp: unmark_def redraw_def)
      qed (use new f(2-6) True dist al'(2) in \<open>auto simp: r0_def d0\<close>)
      moreover have "ir_reorgDepth ?r = int (length hs1)" if "bh_height th < bh_height h"
      proof (cases "lh_headerId g = x")
        case True
        then have "x = ?t" using g(2,3) x(1) safe(1) \<open>heavier\<close> by auto
        with tip True al'(4) show ?thesis by simp
      next
        case False
        then have "\<not> active_tip p" using g(2-5) x(1) by (cases hs2) (auto simp: active_tip_def)
        with False al'(4) path_heights(2) [OF _ l g(2) th, of hs1] that show ?thesis by simp
      qed
      ultimately show ?thesis
        using s f(4) al'(1) g(1) True ins by (auto simp: r0_def new_result_def)
    qed
  qed
qed

end
