(* ===== verification/LiveProps.thy ===== *)
theory LiveProps
  imports LiveInv HeaderProps
begin

text \<open>
  Properties of the live headers in memory: insertion on a chain of constant difficulty, a heavier sibling
  of the tip, the deletion of old headers, and the lookups on the active chain.
\<close>

section \<open>Insertion at constant difficulty\<close>

text \<open>Chain work grows by the same amount with every height, and no inactive header is above the tip.\<close>

definition uniform :: "int \<Rightarrow> int \<Rightarrow> nodb \<Rightarrow> bool" where
  "uniform c w d \<longleftrightarrow> (\<forall>x h th. view_of d x = Some h \<longrightarrow> view_of d (tipHeaderId d) = Some th \<longrightarrow>
     hash_string (lh_chainWork h) \<and> hex_val (lh_chainWork h) = c + w * bh_height h \<and>
     (\<not> lh_isActive h \<longrightarrow> bh_height h \<le> bh_height th \<and> (lh_isChainTip h \<longrightarrow> bh_height h < bh_height th)))"

lemma uniformD:
  assumes "uniform c w d" "view_of d x = Some h" "view_of d (tipHeaderId d) = Some th"
  shows "hash_string (lh_chainWork h)" "hex_val (lh_chainWork h) = c + w * bh_height h"
    "\<not> lh_isActive h \<Longrightarrow> bh_height h \<le> bh_height th"
    "\<not> lh_isActive h \<Longrightarrow> lh_isChainTip h \<Longrightarrow> bh_height h < bh_height th"
  using assms by (auto simp: uniform_def)

lemma active_below_tip:
  assumes "live_inv d" "view_of d x = Some h" "lh_isActive h" "view_of d (tipHeaderId d) = Some th"
  shows "bh_height h \<le> bh_height th" "bh_height h = bh_height th \<Longrightarrow> x = tipHeaderId d"
proof -
  from assms have l: "linked (view_of d)" and c: "chain_at (view_of d) (tipHeaderId d)"
    by (auto simp: live_inv_def live_wf_def)
  have "reach (view_of d) (tipHeaderId d) x" using chain_atD(2) [OF c assms(2)] assms(3) by simp
  from reach_height [OF this l assms(4)] assms(2)
  show "bh_height h \<le> bh_height th" "bh_height h = bh_height th \<Longrightarrow> x = tipHeaderId d" by auto
qed

definition headers_with_hash :: "nodb \<Rightarrow> jstr \<Rightarrow> live_header set" where
  "headers_with_hash d s = {p. bh_hash p = s \<and> (\<exists>x. view_of d x = Some p)}"

lemma insert_uniform_cases:
  fixes S :: sdk and B :: "'b bignum"
  assumes B: "bignum_laws B bval" and S: "header_sdk S" and inv: "live_inv d" and u: "uniform c w d"
    and w: "hash_string (convertBitsToWork B (BitsNumber (bh_bits h)))"
      "hex_val (convertBitsToWork B (BitsNumber (bh_bits h))) = w" "0 < w" "c + w * bh_height h < 2 ^ 256"
    and th: "view_of d (tipHeaderId d) = Some th"
    and new: "hashToHeaderId d (bh_hash h) = None"
    and x: "view_of d x = Some p" "bh_hash p = bh_previousHash h" "bh_height p + 1 = bh_height h"
  defines "n \<equiv> new_live h (maxHeaderId d + 1) (Some x)
      (addWork B (lh_chainWork p) (convertBitsToWork B (BitsNumber (bh_bits h)))) (bh_height th < bh_height h)"
  shows "(\<exists>r d'. insert_after S B p h d = Inr ((r, if lh_isActive n then Some (bh_height h) else None), d') \<and>
        inserted d n r d' \<and> uniform c w d' \<and> ir_priorTip r = Some th \<and>
        (lh_isActive n \<longrightarrow> ir_reorgDepth r = int (length (ir_deactivatedHeaders r)))) \<or>
      (\<exists>r. insert_after S B p h d = Inr ((r, None), d\<lparr>maxHeaderId := maxHeaderId d + 1\<rparr>) \<and>
        \<not> ir_added r \<and> ir_noActiveAncestor r \<and>
        (\<forall>y q. reach (view_of d) x y \<longrightarrow> view_of d y = Some q \<longrightarrow> \<not> lh_isActive q))"
proof -
  from inv have wf: "live_wf d" and c: "chain_at (view_of d) (tipHeaderId d)" by (auto simp: live_inv_def)
  define work where "work = addWork B (lh_chainWork p) (convertBitsToWork B (BitsNumber (bh_bits h)))"
  note up = uniformD [OF u x(1) th] and ut = uniformD [OF u th th]
  have sum: "hex_val (lh_chainWork p) + w = c + w * bh_height h"
    using up(2) x(3) by (metis (no_types) add.assoc distrib_left mult.right_neutral)
  have hexs: "list_all is_hex (lh_chainWork p)" "list_all is_hex (convertBitsToWork B (BitsNumber (bh_bits h)))"
    using up(1) w(1) by (auto simp: hash_string_def)
  have wk: "hash_string work" "hex_val work = c + w * bh_height h"
    using bignum_laws.add_work [OF B hexs] sum w(2,4) by (simp_all add: work_def)
  have heavier: "isMoreWork S B work (lh_chainWork th) \<longleftrightarrow> bh_height th < bh_height h"
    using bignum_laws.more_work [OF B S wk(1) ut(1)] wk(2) ut(2) w(3) by simp
  have safe: "x = tipHeaderId d \<or> \<not> lh_isActive p \<and> \<not> lh_isChainTip p" if "bh_height th < bh_height h"
    using active_below_tip [OF inv x(1) _ th] up(3,4) that x(3) by fastforce
  have tip: "bh_height th < bh_height h" if "x = tipHeaderId d" using that x th by simp
  note main = insert_after_correct [OF inv th new x work_def refl, of S, unfolded heavier, OF safe tip]
  then consider r d' where "insert_after S B p h d = Inr ((r, if lh_isActive n then Some (bh_height h) else None), d')"
      "inserted d n r d'" "ir_priorTip r = Some th"
      "lh_isActive n \<longrightarrow> ir_reorgDepth r = int (length (ir_deactivatedHeaders r))"
    | "\<exists>r. insert_after S B p h d = Inr ((r, None), d\<lparr>maxHeaderId := maxHeaderId d + 1\<rparr>) \<and>
        \<not> ir_added r \<and> ir_noActiveAncestor r"
      "\<forall>y q. reach (view_of d) x y \<longrightarrow> view_of d y = Some q \<longrightarrow> \<not> lh_isActive q"
    unfolding n_def work_def [symmetric] new_live_fields by blast
  then show ?thesis
  proof cases
    case 1
    note ins = 1(2) [unfolded inserted_def]
    have n: "view_of d' (maxHeaderId d + 1) = Some n" "lh_headerId n = maxHeaderId d + 1"
      "bh_height n = bh_height h" "lh_chainWork n = work" "lh_isActive n \<longleftrightarrow> bh_height th < bh_height h"
      "lh_isChainTip n = lh_isActive n" using ins by (auto simp: n_def work_def)
    have old: "\<exists>k. view_of d y = Some k \<and> unflagged k = unflagged k'"
      if "view_of d' y = Some k'" "y \<noteq> maxHeaderId d + 1" for y k'
      using ins that n(2) by (auto elim!: same_headersD [OF same_headers_sym])
    have tip': "\<exists>th'. view_of d' (tipHeaderId d') = Some th' \<and> bh_height th' = max (bh_height th) (bh_height h)"
    proof (cases "lh_isActive n")
      case True
      with ins n show ?thesis by auto
    next
      case False
      have "tipHeaderId d \<noteq> maxHeaderId d + 1" using live_wfD(3) [OF wf th] by simp
      then have base: "((view_of d)(lh_headerId n \<mapsto> n)) (tipHeaderId d) = Some th" using th n(2) by simp
      have sm: "same_headers ((view_of d)(lh_headerId n \<mapsto> n)) (view_of d')"
        and t: "tipHeaderId d' = tipHeaderId d" using ins False by auto
      from same_headersD [OF sm base] obtain th' where
        "view_of d' (tipHeaderId d') = Some th'" "unflagged th = unflagged th'" unfolding t .
      with False n unflagged_fields(3) [of th th'] show ?thesis by auto
    qed
    have "uniform c w d'"
      unfolding uniform_def
    proof (intro allI impI)
      fix y k' th' assume k': "view_of d' y = Some k'" and th': "view_of d' (tipHeaderId d') = Some th'"
      with tip' have H: "bh_height th' = max (bh_height th) (bh_height h)" by auto
      show "hash_string (lh_chainWork k') \<and> hex_val (lh_chainWork k') = c + w * bh_height k' \<and>
        (\<not> lh_isActive k' \<longrightarrow> bh_height k' \<le> bh_height th' \<and> (lh_isChainTip k' \<longrightarrow> bh_height k' < bh_height th'))"
      proof (cases "y = maxHeaderId d + 1")
        case True
        with n k' wk H show ?thesis by auto
      next
        case False
        from old [OF k' this] obtain k where k: "view_of d y = Some k" "unflagged k = unflagged k'" by blast
        note f = unflagged_fields [OF k(2)] and uk = uniformD [OF u k(1) th]
        have "bh_height k \<le> bh_height th" using active_below_tip(1) [OF inv k(1) _ th] uk(3) by blast
        moreover have "bh_height k < bh_height th'" if tip: "\<not> lh_isActive k'" "lh_isChainTip k'"
        proof (cases "lh_isActive n")
          case True
          then show ?thesis using H n(5) \<open>bh_height k \<le> bh_height th\<close> by simp
        next
          case False
          with ins k(1) k' tip have "\<not> lh_isActive k" "lh_isChainTip k" by auto
          with uk(4) H show ?thesis by auto
        qed
        ultimately show ?thesis using uk f H by auto
      qed
    qed
    with 1 show ?thesis by blast
  next
    case 2
    then show ?thesis by blast
  qed
qed


text \<open>The outcome of an insertion: the reason why a header is not added, or what adding it changes.\<close>

definition has_hash :: "nodb \<Rightarrow> jstr \<Rightarrow> bool" where
  "has_hash d s \<longleftrightarrow> (\<exists>x p. view_of d x = Some p \<and> bh_hash p = s)"

definition insert_refused :: "nodb \<Rightarrow> block_header \<Rightarrow> insert_result \<Rightarrow> bool" where
  "insert_refused d h r \<longleftrightarrow> \<not> ir_added r \<and>
     (ir_dupe r \<and> has_hash d (bh_hash h) \<or>
      ir_noPrev r \<and> \<not> has_hash d (bh_previousHash h) \<or>
      ir_badPrev r \<and> (\<exists>x p. view_of d x = Some p \<and> bh_hash p = bh_previousHash h \<and> bh_height p + 1 \<noteq> bh_height h) \<or>
      ir_noActiveAncestor r \<and> (\<exists>x p. view_of d x = Some p \<and> bh_hash p = bh_previousHash h \<and>
        (\<forall>y q. reach (view_of d) x y \<longrightarrow> view_of d y = Some q \<longrightarrow> \<not> lh_isActive q)))"

lemma live_inv_max: "live_inv d \<Longrightarrow> live_inv (d\<lparr>maxHeaderId := maxHeaderId d + 1\<rparr>)"
  unfolding live_inv_def live_wf_def by (auto intro: le_SucI) (meson le_SucI)

lemma uniform_max: "uniform c w (d\<lparr>maxHeaderId := k\<rparr>) = uniform c w d"
  by (simp add: uniform_def)

text \<open>C4: while all headers have the same difficulty, inserting a header never fails and keeps the live
  headers well formed: the active headers are exactly the tip and its ancestors. The header is refused only
  as a duplicate, without a previous header, at a wrong height, or when no active header is below it;
  otherwise it is added, it becomes the tip exactly when it is higher than the tip, the headers reported as
  deactivated are the ones that stopped being active, and the reported depth is their number.\<close>

theorem insertHeader_correct:
  fixes S :: sdk and B :: "'b bignum"
  assumes "bignum_laws B bval" "header_sdk S" and "live_inv d" "uniform c w d"
    and "view_of d (tipHeaderId d) = Some th"
    and "0 < compact_target (bh_bits h)" "compact_target (bh_bits h) < 2 ^ 256 - 1"
      "w = hex_val (convertBitsToWork B (BitsNumber (bh_bits h)))" "c + w * bh_height h < 2 ^ 256"
  shows "\<exists>r prune d'. insertHeader S B bulk h d = Inr ((r, prune), d') \<and> live_inv d' \<and> uniform c w d' \<and>
    (insert_refused d h r \<and> prune = None \<and> liveHeaders d' = liveHeaders d \<or>
     (\<exists>n. inserted d n r d' \<and> bh_hash n = bh_hash h \<and> bh_height n = bh_height h \<and> ir_priorTip r = Some th \<and>
        (lh_isActive n \<longleftrightarrow> bh_height th < bh_height h) \<and> prune = (if lh_isActive n then Some (bh_height h) else None) \<and>
        (lh_isActive n \<longrightarrow> ir_reorgDepth r = int (length (ir_deactivatedHeaders r)))))"
proof -
  let ?b = "BitsNumber (bh_bits h)"
  have wk: "hash_string (convertBitsToWork B ?b)" "0 < w"
    using bignum_laws.work_string [OF assms(1), of ?b] assms(6-8) by (simp_all add: bits_number_def)
  from assms(3) have wf: "live_wf d" by (simp add: live_inv_def)
  note hashes = live_wfD(4) [OF wf]
  consider "hashToHeaderId d (bh_hash h) \<noteq> None"
    | "hashToHeaderId d (bh_hash h) = None" "hashToHeaderId d (bh_previousHash h) = None"
    | x p where "hashToHeaderId d (bh_hash h) = None" "hashToHeaderId d (bh_previousHash h) = Some x"
      "view_of d x = Some p" "bh_hash p = bh_previousHash h"
    using hashes by (metis option.exhaust)
  then show ?thesis
  proof cases
    case 1
    then obtain i where "hashToHeaderId d (bh_hash h) = Some i" by blast
    then have "has_hash d (bh_hash h)" unfolding hashes has_hash_def by blast
    with 1 assms(3,4) show ?thesis by (auto simp: insertHeader_def insert_refused_def new_result_def)
  next
    case 2
    then have "\<not> has_hash d (bh_previousHash h)" using hashes by (auto simp: has_hash_def) (metis option.distinct(1))
    moreover have "liveHeaders d \<noteq> []" using assms(5) by auto
    ultimately show ?thesis using 2 assms(3,4)
      by (auto simp: insertHeader_def find_hash [OF wf] insert_first_def insert_refused_def new_result_def)
  next
    case 3
    have ins: "insertHeader S B bulk h d = insert_after S B p h d"
      using 3 by (simp add: insertHeader_def find_hash [OF wf])
    show ?thesis
    proof (cases "bh_height p + 1 = bh_height h")
      case False
      then have "insert_after S B p h d = Inr ((new_result\<lparr>ir_badPrev := True\<rparr>, None), d)"
        by (simp add: insert_after_def)
      with ins False 3 assms(3,4) show ?thesis by (auto simp: insert_refused_def new_result_def)
    next
      case True
      from insert_uniform_cases [OF assms(1-4) wk(1) assms(8) [symmetric] wk(2) assms(9,5) 3(1,3,4) True]
      show ?thesis
      proof (elim disjE exE conjE)
        fix r d'
        let ?n = "new_live h (maxHeaderId d + 1) (Some x) (addWork B (lh_chainWork p) (convertBitsToWork B ?b))
          (bh_height th < bh_height h)"
        assume *: "insert_after S B p h d = Inr ((r, if lh_isActive ?n then Some (bh_height h) else None), d')"
          "inserted d ?n r d'" "uniform c w d'" "ir_priorTip r = Some th"
          "lh_isActive ?n \<longrightarrow> ir_reorgDepth r = int (length (ir_deactivatedHeaders r))"
        from *(2) have "live_inv d'" by (simp add: inserted_def)
        with * show ?thesis unfolding ins
          by (intro exI [of _ r] exI [of _ "if lh_isActive ?n then Some (bh_height h) else None"] exI [of _ d']
              conjI disjI2 exI [of _ ?n]) auto
      next
        fix r assume "insert_after S B p h d = Inr ((r, None), d\<lparr>maxHeaderId := maxHeaderId d + 1\<rparr>)"
          "\<not> ir_added r" "ir_noActiveAncestor r"
          "\<forall>y q. reach (view_of d) x y \<longrightarrow> view_of d y = Some q \<longrightarrow> \<not> lh_isActive q"
        with live_inv_max [OF assms(3)] assms(4) 3 show ?thesis unfolding ins insert_refused_def
          by (intro exI [of _ r] exI [of _ None] exI [of _ "d\<lparr>maxHeaderId := maxHeaderId d + 1\<rparr>"]
              conjI disjI1 disjI2) (auto simp: uniform_max)
      qed
    qed
  qed
qed


text \<open>A store with one header, of difficulty 1.\<close>

definition live_block :: "nat \<Rightarrow> nat \<Rightarrow> int \<Rightarrow> int \<Rightarrow> block_header" where
  "live_block hash prev height bits = \<lparr>bh_version = 1, bh_previousHash = replicate 64 (48 + prev),
     bh_merkleRoot = replicate 64 48, bh_time = 0, bh_bits = bits, bh_nonce = 0, bh_height = height,
     bh_hash = replicate 64 (48 + hash)\<rparr>"

definition sample_live :: nodb where
  "sample_live = \<lparr>liveHeaders = [(1, new_live (live_block 2 0 0 486604799) 1 None (sample_work 5) True)],
     maxHeaderId = 1, tipHeaderId = 1, hashToHeaderId = [replicate 64 50 \<mapsto> 1]\<rparr>"

lemma single_reach: "link m t = (\<lambda>y. False) \<Longrightarrow> reach m t x \<longleftrightarrow> x = t"
  by (metis converse_rtranclpE rtranclp.rtrancl_refl)

lemma single_inv:
  assumes "liveHeaders d = [(i, n)]" "lh_headerId n = i" "lh_previousHeaderId n = None" "0 < i" "i \<le> maxHeaderId d"
    "hashToHeaderId d = [bh_hash n \<mapsto> i]" "active_tip n" "tipHeaderId d = i"
  shows "live_inv d"
proof -
  have l: "link (view_of d) y z = False" for y z using assms(1,3) by (auto simp: link_def)
  then have "reach (view_of d) y x \<longleftrightarrow> x = y" for x y using single_reach [of "view_of d" y x] by auto
  then show ?thesis using assms l
    by (auto simp: live_inv_def live_wf_def linked_def chain_at_def active_tip_def)
qed

lemma sample_live_ok: "live_inv sample_live" "uniform 5 4295032833 sample_live"
  "view_of sample_live (tipHeaderId sample_live) = Some (new_live (live_block 2 0 0 486604799) 1 None (sample_work 5) True)"
proof -
  have "hash_string (sample_work 5)" using pad_hash_string [of 5] by (simp add: sample_work_def)
  then show "uniform 5 4295032833 sample_live"
    by (auto simp: uniform_def sample_live_def sample_work_def live_block_def)
  show "live_inv sample_live"
    by (rule single_inv [where n = "new_live (live_block 2 0 0 486604799) 1 None (sample_work 5) True"])
      (simp_all add: sample_live_def live_block_def active_tip_def)
  show "view_of sample_live (tipHeaderId sample_live) = Some (new_live (live_block 2 0 0 486604799) 1 None (sample_work 5) True)"
    by (simp add: sample_live_def)
qed

lemma difficulty_one: "compact_target 486604799 = 65535 * 256 ^ 26"
    "hex_val (convertBitsToWork int_bn (BitsNumber 486604799)) = 4295032833"
proof -
  show t: "compact_target 486604799 = 65535 * 256 ^ 26" by (simp add: compact_target_def byte_at_def)
  show "hex_val (convertBitsToWork int_bn (BitsNumber 486604799)) = 4295032833"
    using ibn.work_val [of "BitsNumber 486604799"] unfolding bits_number_def by (simp add: t)
qed

theorem insertHeader_correct_witness:
  "\<exists>r prune d'. insertHeader ref_sdk int_bn None (live_block 3 2 1 486604799) sample_live = Inr ((r, prune), d') \<and>
     ir_added r \<and> ir_isActiveTip r \<and> tipHeaderId d' = 2 \<and> prune = Some 1 \<and> live_inv d'"
proof -
  let ?h = "live_block 3 2 1 486604799"
  have f: "bh_bits ?h = 486604799" "bh_height ?h = 1" "bh_hash ?h = replicate 64 51" "bh_previousHash ?h = replicate 64 50"
    by (simp_all add: live_block_def)
  from insertHeader_correct [OF ibn.bignum_laws_axioms ref.header_sdk_axioms sample_live_ok, of ?h None]
  obtain r prune d' where *: "insertHeader ref_sdk int_bn None ?h sample_live = Inr ((r, prune), d')" "live_inv d'"
    "insert_refused sample_live ?h r \<or> (\<exists>n. inserted sample_live n r d' \<and> bh_height n = bh_height ?h \<and>
      lh_isActive n \<and> prune = (if lh_isActive n then Some (bh_height ?h) else None))"
    unfolding f difficulty_one by (auto simp: live_block_def)
  have v: "view_of sample_live x = Some p \<longleftrightarrow> x = 1 \<and> p = new_live (live_block 2 0 0 486604799) 1 None (sample_work 5) True" for x p
    by (auto simp: sample_live_def)
  have "\<not> insert_refused sample_live ?h r"
    by (auto simp: insert_refused_def has_hash_def v live_block_def)
  with *(3) obtain n where n: "inserted sample_live n r d'" "lh_isActive n" "prune = Some (bh_height ?h)" by auto
  then have "ir_added r" "ir_isActiveTip r" "tipHeaderId d' = 2" by (auto simp: inserted_def sample_live_def)
  with * n(3) f(2) show ?thesis by auto
qed


section \<open>Where the bookkeeping goes wrong\<close>

lemma insert_found:
  assumes "live_inv d" "hashToHeaderId d (bh_hash h) = None" "view_of d x = Some p" "bh_hash p = bh_previousHash h"
  shows "insertHeader S B bulk h d = insert_after S B p h d"
proof -
  from assms(1) have wf: "live_wf d" by (simp add: live_inv_def)
  with assms(3,4) have "hashToHeaderId d (bh_previousHash h) = Some x" using live_wfD(4) [OF wf] by blast
  then show ?thesis using assms(2,3) by (simp add: insertHeader_def find_hash [OF wf])
qed

text \<open>a header with more work than the tip whose previous header is on the active chain below the tip
  (a heavier sibling of the tip) is reported as the new active tip, but nothing is deactivated: the old tip
  stays an active chain tip, it is still the one that \<open>findChainTipHeader\<close> answers, and the live headers are
  no longer well formed.\<close>

theorem heavier_sibling_leaves_two_tips:
  assumes "live_inv d" and "view_of d (tipHeaderId d) = Some th" "hashToHeaderId d (bh_hash h) = None"
    and "view_of d x = Some p" "bh_hash p = bh_previousHash h" "bh_height p + 1 = bh_height h"
    and "lh_isActive p" "x \<noteq> tipHeaderId d"
    and "isMoreWork S B (addWork B (lh_chainWork p) (convertBitsToWork B (BitsNumber (bh_bits h)))) (lh_chainWork th)"
  shows "\<exists>r d' n. insertHeader S B bulk h d = Inr ((r, Some (bh_height h)), d') \<and> ir_isActiveTip r \<and>
    ir_deactivatedHeaders r = [] \<and> view_of d' (tipHeaderId d') = Some n \<and> bh_hash n = bh_hash h \<and> active_tip n \<and>
    view_of d' (tipHeaderId d) = Some th \<and> active_tip th \<and> findChainTipHeader d' = Inr th \<and> \<not> live_inv d'"
proof -
  let ?t = "tipHeaderId d" and ?i = "maxHeaderId d + 1" and ?m = "view_of d"
  let ?n = "new_live h ?i (Some x) (addWork B (lh_chainWork p) (convertBitsToWork B (BitsNumber (bh_bits h)))) True"
  from assms(1) have wf: "live_wf d" and c: "chain_at ?m ?t" by (auto simp: live_inv_def)
  have px: "lh_headerId p = x" using linkedD(1) [OF live_wfD(2) [OF wf] assms(4)] .
  have np: "\<not> active_tip p" using chain_atD(3) [OF c assms(4)] assms(8) by simp
  have tip: "active_tip th" using chain_atD(3) [OF c assms(2)] by simp
  note ft = find_tip(1) [OF live_wfD(1) [OF wf] c assms(2)]
  have fresh: "?i \<notin> set (map fst (liveHeaders d))"
    using live_wfD(3) [OF wf, of ?i] map_of_eq_None_iff [of "liveHeaders d" ?i] by (cases "?m ?i") auto
  define d' where "d' = d\<lparr>maxHeaderId := ?i, liveHeaders := liveHeaders d @ [(?i, ?n)],
    hashToHeaderId := (hashToHeaderId d)(bh_hash h \<mapsto> ?i), tipHeaderId := ?i\<rparr>"
  define r where "r = new_result\<lparr>ir_priorTip := Some th, ir_isActiveTip := True, ir_added := True,
    ir_reorgDepth := min (bh_height th) (bh_height h) - bh_height p\<rparr>"
  have upd: "AList.update ?i ?n (liveHeaders d) = liveHeaders d @ [(?i, ?n)]"
  proof -
    have "k \<notin> set (map fst al) \<Longrightarrow> AList.update k v al = al @ [(k, v)]" for k v and al :: live_map
      by (induction al) auto
    with fresh show ?thesis by blast
  qed
  have unmarked: "\<not> lh_isChainTip p" using np assms(7) by (simp add: active_tip_def)
  have "insertHeader S B bulk h d = Inr ((r, Some (bh_height h)), d')"
    unfolding insert_found [OF assms(1,3,4,5)] insert_after_def r_def d'_def
    using assms(6,7,9) np ft unmarked upd by (simp add: reorganize_def store_new_def Let_def px new_result_def)
  moreover have v: "view_of d' = ?m(?i \<mapsto> ?n)" using fresh
    by (auto simp: d'_def map_add_def fun_eq_iff map_of_eq_None_iff [symmetric] split: option.splits)
  have ti: "?t \<noteq> ?i" using fresh assms(2) by (metis map_of_eq_None_iff option.distinct(1) set_map)
  have "find_active_tip (liveHeaders d') = Some th"
  proof -
    have "List.find P xs = Some y \<Longrightarrow> List.find P (xs @ ys) = Some y" for P xs ys and y :: live_header
      by (induction xs) auto
    with ft show ?thesis by (simp add: find_active_tip_def d'_def)
  qed
  moreover have "\<not> live_inv d'"
  proof
    assume "live_inv d'"
    then have "chain_at (view_of d') ?i" by (simp add: live_inv_def d'_def)
    from chain_atD(3) [OF this, of ?t th] v ti assms(2) tip show False by simp
  qed
  ultimately show ?thesis
    using v ti assms(2) tip by (auto simp: r_def d'_def new_result_def findChainTipHeader_def active_tip_def)
qed

definition fork_base :: live_header where
  "fork_base = (new_live (live_block 2 0 0 486604799) 2 None (sample_work 5) False)\<lparr>lh_isActive := True\<rparr>"

definition fork_tip :: live_header where
  "fork_tip = new_live (live_block 3 2 1 0) 3 (Some 2) (sample_work 7) True"

definition fork_side :: live_header where
  "fork_side = (new_live (live_block 4 2 1 0) 4 (Some 2) (sample_work 6) False)\<lparr>lh_isChainTip := True\<rparr>"

definition fork_store :: nodb where
  "fork_store = \<lparr>liveHeaders = [(2, fork_base), (3, fork_tip), (4, fork_side)], maxHeaderId = 4, tipHeaderId = 3,
     hashToHeaderId = [replicate 64 50 \<mapsto> 2, replicate 64 51 \<mapsto> 3, replicate 64 52 \<mapsto> 4]\<rparr>"

lemma fork_fields [simp]:
  "lh_headerId fork_base = 2" "lh_previousHeaderId fork_base = None" "lh_isActive fork_base" "\<not> lh_isChainTip fork_base"
  "bh_height fork_base = 0" "bh_hash fork_base = replicate 64 50" "lh_chainWork fork_base = sample_work 5"
  "lh_headerId fork_tip = 3" "lh_previousHeaderId fork_tip = Some 2" "lh_isActive fork_tip" "lh_isChainTip fork_tip"
  "bh_height fork_tip = 1" "bh_hash fork_tip = replicate 64 51" "lh_chainWork fork_tip = sample_work 7"
  "bh_previousHash fork_tip = replicate 64 50"
  "lh_headerId fork_side = 4" "lh_previousHeaderId fork_side = Some 2" "\<not> lh_isActive fork_side" "lh_isChainTip fork_side"
  "bh_height fork_side = 1" "bh_hash fork_side = replicate 64 52" "lh_chainWork fork_side = sample_work 6"
  "bh_previousHash fork_side = replicate 64 50"
  unfolding fork_base_def fork_tip_def fork_side_def by (simp_all add: live_block_def)

lemma fork_view: "view_of fork_store y = Some h \<longleftrightarrow>
    y = 2 \<and> h = fork_base \<or> y = 3 \<and> h = fork_tip \<or> y = 4 \<and> h = fork_side"
  by (auto simp: fork_store_def)

lemma rep_eq: "replicate 64 (x :: nat) = replicate 64 y \<longleftrightarrow> x = y"
  by (simp add: replicate_eq_replicate)

lemma fork_store_inv: "live_inv fork_store"
proof -
  have l: "link (view_of fork_store) y z \<longleftrightarrow> (y = 3 \<or> y = 4) \<and> z = 2" for y z
    by (auto simp: link_def fork_view)
  have r: "reach (view_of fork_store) 3 z \<longleftrightarrow> z = 3 \<or> z = 2" for z
  proof
    assume "reach (view_of fork_store) 3 z"
    then show "z = 3 \<or> z = 2" by (induction rule: rtranclp_induct) (auto simp: l)
  next
    assume "z = 3 \<or> z = 2"
    with l [of 3 2] show "reach (view_of fork_store) 3 z" by auto
  qed
  have t: "tipHeaderId fork_store = 3" "maxHeaderId fork_store = 4" by (simp_all add: fork_store_def)
  have h: "hashToHeaderId fork_store s = Some i \<longleftrightarrow>
      i = 2 \<and> s = replicate 64 50 \<or> i = 3 \<and> s = replicate 64 51 \<or> i = 4 \<and> s = replicate 64 52" for s i
    using rep_eq [of 50 51] rep_eq [of 50 52] rep_eq [of 51 52] by (auto simp: fork_store_def)
  have "linked (view_of fork_store)" by (auto simp: linked_def fork_view)
  moreover have "distinct (map fst (liveHeaders fork_store))" by (simp add: fork_store_def)
  ultimately have "live_wf fork_store" unfolding live_wf_def h fork_view t by auto
  moreover have "chain_at (view_of fork_store) 3"
    unfolding chain_at_def
  proof (intro conjI allI impI)
    fix y k assume k: "view_of fork_store y = Some k"
    then show "lh_isActive k \<longleftrightarrow> reach (view_of fork_store) 3 y" "active_tip k \<longleftrightarrow> y = 3"
      unfolding r fork_view by (auto simp: active_tip_def)
    show "\<not> link (view_of fork_store) z y" if "lh_isChainTip k" for z
      using k that unfolding l fork_view by auto
  qed (auto simp: fork_view)
  ultimately show ?thesis by (simp add: live_inv_def t)
qed

lemma sample_more_work:
  assumes "n < 100" "k < 100"
  shows "isMoreWork ref_sdk int_bn (addWork int_bn (sample_work n) (convertBitsToWork int_bn (BitsNumber 486604799))) (sample_work k)"
proof -
  let ?w = "convertBitsToWork int_bn (BitsNumber 486604799)"
  have s: "hash_string (sample_work j)" "hex_val (sample_work j) = int j" if "j < 100" for j
    using that pad_hash_string [of "int j"] by (simp_all add: sample_work_def)
  have w: "hash_string ?w" using ibn.work_string [of "BitsNumber 486604799"] unfolding bits_number_def
    by (simp add: difficulty_one)
  have "list_all is_hex (sample_work n)" "list_all is_hex ?w" using s [OF assms(1)] w by (auto simp: hash_string_def)
  from ibn.add_work [OF this] s(2) [OF assms(1)] assms(1)
  have "hash_string (addWork int_bn (sample_work n) ?w)" "hex_val (addWork int_bn (sample_work n) ?w) = int n + 4295032833"
    by (simp_all add: difficulty_one)
  then show ?thesis using ibn.more_work [OF ref.header_sdk_axioms _ s(1) [OF assms(2)]] s(2) [OF assms(2)] assms(2) by simp
qed

theorem heavier_sibling_leaves_two_tips_witness:
  "\<exists>r d'. insertHeader ref_sdk int_bn None (live_block 5 2 1 486604799) fork_store = Inr ((r, Some 1), d') \<and>
     ir_isActiveTip r \<and> findChainTipHeader d' = Inr fork_tip"
proof -
  let ?h = "live_block 5 2 1 486604799"
  have f: "bh_hash ?h = replicate 64 53" "bh_previousHash ?h = replicate 64 50" "bh_height ?h = 1" "bh_bits ?h = 486604799"
    by (simp_all add: live_block_def)
  have t: "view_of fork_store (tipHeaderId fork_store) = Some fork_tip" "tipHeaderId fork_store = 3"
    by (simp_all add: fork_store_def)
  have n: "hashToHeaderId fork_store (replicate 64 53) = None"
    using rep_eq [of 53 50] rep_eq [of 53 51] rep_eq [of 53 52] by (simp add: fork_store_def)
  have "isMoreWork ref_sdk int_bn (addWork int_bn (lh_chainWork fork_base) (convertBitsToWork int_bn (BitsNumber (bh_bits ?h))))
      (lh_chainWork fork_tip)"
    unfolding f fork_fields by (rule sample_more_work) simp_all
  from heavier_sibling_leaves_two_tips [OF fork_store_inv t(1) _ _ _ _ _ _ this, of 2 None]
  show ?thesis unfolding f using n t(2) by (auto simp: fork_view)
qed

text \<open>when a fork whose tip still carries its mark as a chain tip takes over again, the previous header
  of the new tip is written back as it was read before the reorganization: it is left inactive below an
  active tip, and the live headers are no longer well formed.\<close>

theorem stale_mark_leaves_gap:
  assumes "live_inv d" and "view_of d (tipHeaderId d) = Some th" "hashToHeaderId d (bh_hash h) = None"
    and "view_of d x = Some p" "bh_hash p = bh_previousHash h" "bh_height p + 1 = bh_height h"
    and "\<not> lh_isActive p" "lh_isChainTip p" "reach (view_of d) x a" "view_of d a = Some q" "lh_isActive q"
    and "isMoreWork S B (addWork B (lh_chainWork p) (convertBitsToWork B (BitsNumber (bh_bits h)))) (lh_chainWork th)"
  shows "\<exists>r d' n p'. insertHeader S B bulk h d = Inr ((r, Some (bh_height h)), d') \<and> ir_isActiveTip r \<and>
    view_of d' (tipHeaderId d') = Some n \<and> bh_hash n = bh_hash h \<and> active_tip n \<and>
    lh_previousHeaderId n = Some x \<and> view_of d' x = Some p' \<and> \<not> lh_isActive p' \<and> \<not> live_inv d'"
proof -
  let ?t = "tipHeaderId d" and ?i = "maxHeaderId d + 1" and ?m = "view_of d"
  let ?n = "new_live h ?i (Some x) (addWork B (lh_chainWork p) (convertBitsToWork B (BitsNumber (bh_bits h)))) True"
  from assms(1) have wf: "live_wf d" and c: "chain_at ?m ?t" by (auto simp: live_inv_def)
  note l = live_wfD(2) [OF wf] and dist = live_wfD(1) [OF wf]
  have px: "lh_headerId p = x" using linkedD(1) [OF l assms(4)] .
  have xi: "x \<noteq> ?i" using live_wfD(3) [OF wf assms(4)] by auto
  note ft = find_tip(1) [OF dist c assms(2)]
  from find_active_ancestor_cases [OF l refl assms(4) card_reach_le] assms(9-11)
  obtain g hs2 where g: "find_active_ancestor (Suc (length (liveHeaders d))) (liveHeaders d) p = Inr (Some g)"
    "?m (lh_headerId g) = Some g" "lh_isActive g" "path_to ?m (lh_headerId g) x hs2" "\<forall>q \<in> set hs2. \<not> lh_isActive q"
    by blast
  have gx: "lh_headerId g \<noteq> x" using g(2,3) assms(4,7) by auto
  from reorganize_correct [OF dist l c assms(4) g(2-5)] gx obtain hs1 al' where
    al': "reorganize g p (liveHeaders d) = Inr (hs1, al')" by blast
  define m' where "m' = AList.update ?i ?n (AList.update x (p\<lparr>lh_isChainTip := False\<rparr>) al')"
  define d' where "d' = d\<lparr>maxHeaderId := ?i, liveHeaders := m',
    hashToHeaderId := (hashToHeaderId d)(bh_hash h \<mapsto> ?i), tipHeaderId := ?i\<rparr>"
  define r where "r = new_result\<lparr>ir_priorTip := Some th, ir_isActiveTip := True, ir_added := True,
    ir_reorgDepth := min (bh_height th) (bh_height h) - bh_height g, ir_deactivatedHeaders := hs1\<rparr>"
  have "insertHeader S B bulk h d = Inr ((r, Some (bh_height h)), d')"
    unfolding insert_found [OF assms(1,3,4,5)] insert_after_def r_def d'_def m'_def
    using assms(6-8,12) ft g(1) al' px by (simp add: store_new_def Let_def new_result_def active_tip_def)
  moreover have v: "view_of d' ?i = Some ?n" "view_of d' x = Some (p\<lparr>lh_isChainTip := False\<rparr>)"
    using xi by (simp_all add: d'_def m'_def update_conv')
  moreover have "\<not> live_inv d'"
  proof
    assume "live_inv d'"
    then have c': "chain_at (view_of d') ?i" by (simp add: live_inv_def d'_def)
    have "link (view_of d') ?i x" using v(1) by (simp add: link_def)
    then have "reach (view_of d') ?i x" by blast
    with chain_atD(2) [OF c' v(2)] assms(7) show False by simp
  qed
  ultimately show ?thesis using assms(7)
    by (intro exI [of _ r] exI [of _ d'] exI [of _ ?n] exI [of _ "p\<lparr>lh_isChainTip := False\<rparr>"])
      (auto simp: r_def d'_def active_tip_def)
qed

theorem stale_mark_leaves_gap_witness:
  "\<exists>r d' p'. insertHeader ref_sdk int_bn None (live_block 5 4 2 486604799) fork_store = Inr ((r, Some 2), d') \<and>
     ir_isActiveTip r \<and> view_of d' 4 = Some p' \<and> \<not> lh_isActive p'"
proof -
  let ?h = "live_block 5 4 2 486604799"
  have f: "bh_hash ?h = replicate 64 53" "bh_previousHash ?h = replicate 64 52" "bh_height ?h = 2" "bh_bits ?h = 486604799"
    by (simp_all add: live_block_def)
  have t: "view_of fork_store (tipHeaderId fork_store) = Some fork_tip"
    by (simp add: fork_store_def)
  have n: "hashToHeaderId fork_store (bh_hash ?h) = None"
    unfolding f using rep_eq [of 53 50] rep_eq [of 53 51] rep_eq [of 53 52] by (simp add: fork_store_def)
  have "link (view_of fork_store) 4 2" by (auto simp: link_def fork_view)
  then have r: "reach (view_of fork_store) 4 2" by blast
  have v: "view_of fork_store 4 = Some fork_side" "view_of fork_store 2 = Some fork_base" by (simp_all add: fork_view)
  have "isMoreWork ref_sdk int_bn (addWork int_bn (lh_chainWork fork_side) (convertBitsToWork int_bn (BitsNumber (bh_bits ?h))))
      (lh_chainWork fork_tip)"
    unfolding f fork_fields by (rule sample_more_work) simp_all
  from stale_mark_leaves_gap [OF fork_store_inv t n v(1) _ _ _ _ r v(2) _ this, of None]
  show ?thesis unfolding f by auto
qed

end
