(* ===== verification/LiveStorage.thy ===== *)
theory LiveStorage
  imports LiveProps "HOL-Library.Multiset"
begin

text \<open>
  The part of \<^verbatim>\<open>src/src/services/chaintracker/chaintracks/Storage/ChaintracksStorageBase.ts\<close> that
  reads the live headers, over the store of \<open>LiveHeaders\<close>; deletion of old headers; and the properties of
  the lookups on the active chain. What the bulk file manager answers is an argument.
\<close>

section \<open>Operations of the base class\<close>

definition findChainTipHash :: "nodb \<Rightarrow> live_error + jstr" where
  "findChainTipHash d = bindE (findChainTipHeader d) (\<lambda>t. Inr (bh_hash t))"

definition findChainTipWork :: "nodb \<Rightarrow> live_error + jstr" where
  "findChainTipWork d = bindE (findChainTipHeader d) (\<lambda>t. Inr (lh_chainWork t))"

definition findChainWorkForBlockHash :: "nodb \<Rightarrow> jstr \<Rightarrow> live_error + jstr" where
  "findChainWorkForBlockHash d hash =
     (case findLiveHeaderForBlockHash d hash of None \<Rightarrow> Inl LiveNotFound | Some h \<Rightarrow> Inr (lh_chainWork h))"

definition isMerkleRootActive :: "nodb \<Rightarrow> jstr \<Rightarrow> bool" where
  "isMerkleRootActive d root = (case findLiveHeaderForMerkleRoot d root of None \<Rightarrow> False | Some h \<Rightarrow> lh_isActive h)"

text \<open>A header of either storage.\<close>

datatype found_header = FoundLive live_header | FoundBulk block_header

definition findHeaderForHeightOrUndefined ::
  "(int \<Rightarrow> block_header option) \<Rightarrow> nodb \<Rightarrow> int \<Rightarrow> live_error + found_header option" where
  "findHeaderForHeightOrUndefined bulkFind d height =
     (if height < 0 then Inl LiveInvalidOperation
      else case findLiveHeaderForHeight d height of
             Some h \<Rightarrow> Inr (Some (FoundLive h))
           | None \<Rightarrow> Inr (map_option FoundBulk (bulkFind height)))"

definition findHeaderForHeight ::
  "(int \<Rightarrow> block_header option) \<Rightarrow> nodb \<Rightarrow> int \<Rightarrow> live_error + found_header" where
  "findHeaderForHeight bulkFind d height =
     bindE (findHeaderForHeightOrUndefined bulkFind d height) (\<lambda>x.
       case x of None \<Rightarrow> Inl LiveNotFound | Some h \<Rightarrow> Inr h)"

datatype range_problem = LiveWithoutGenesis | BulkWithoutGenesis | GapOrOverlap

definition getAvailableHeightRanges :: "height_range \<Rightarrow> nodb \<Rightarrow> range_problem + height_range \<times> height_range" where
  "getAvailableHeightRanges bulk d =
     (let live = findLiveHeightRange d
      in if isEmpty bulk
         then if \<not> isEmpty live \<and> minHeight live \<noteq> 0 then Inl LiveWithoutGenesis else Inr (bulk, live)
         else if minHeight bulk \<noteq> 0 then Inl BulkWithoutGenesis
         else if \<not> isEmpty live \<and> maxHeight bulk + 1 \<noteq> minHeight live then Inl GapOrOverlap
         else Inr (bulk, live))"

text \<open>Two headers step back, the higher one first and both when they are equally high. The bound on the
  number of turns is the number of live headers, twice: every turn moves one of them along a link.\<close>

primrec common_ancestor_loop :: "nat \<Rightarrow> nodb \<Rightarrow> live_header \<Rightarrow> live_header \<Rightarrow> live_error + live_header" where
  "common_ancestor_loop 0 d h1 h2 = Inl LiveEndless"
| "common_ancestor_loop (Suc n) d h1 h2 =
     (case lh_previousHeaderId h1 of
        None \<Rightarrow> Inl LiveInvalidOperation
      | Some p1 \<Rightarrow> (case lh_previousHeaderId h2 of
          None \<Rightarrow> Inl LiveInvalidOperation
        | Some p2 \<Rightarrow>
            if p1 = p2 then findLiveHeaderForHeaderId d p1
            else bindE (if bh_height h1 \<le> bh_height h2 then findLiveHeaderForHeaderId d p2 else Inr h2) (\<lambda>k2.
                 bindE (if bh_height h2 \<le> bh_height h1 then findLiveHeaderForHeaderId d p1 else Inr h1) (\<lambda>k1.
                 common_ancestor_loop n d k1 k2))))"

definition findCommonAncestor :: "nodb \<Rightarrow> live_header \<Rightarrow> live_header \<Rightarrow> live_error + live_header" where
  "findCommonAncestor d h1 h2 = common_ancestor_loop (2 * length (liveHeaders d) + 1) d h1 h2"

definition findReorgDepth :: "nodb \<Rightarrow> live_header \<Rightarrow> live_header \<Rightarrow> live_error + int" where
  "findReorgDepth d h1 h2 =
     bindE (findCommonAncestor d h1 h2) (\<lambda>a. Inr (max (bh_height h1) (bh_height h2) - bh_height a))"

section \<open>The active chain in order\<close>

text \<open>The active headers from the lowest to the tip.\<close>

lemma active_root:
  assumes "live_inv d"
  obtains r g where "view_of d r = Some g" "lh_isActive g" "lh_previousHeaderId g = None"
proof -
  let ?m = "view_of d" and ?t = "tipHeaderId d"
  from assms have c: "chain_at ?m ?t" and l: "linked ?m" by (auto simp: live_inv_def live_wf_def)
  let ?A = "{x \<in> dom ?m. reach ?m ?t x}"
  have fin: "finite ?A" by (rule finite_subset [OF _ finite_dom_map_of]) auto
  have "?t \<in> ?A" using chain_atD(1) [OF c] by auto
  then have ne: "?A \<noteq> {}" by blast
  obtain r where r: "r \<in> ?A" "\<forall>y \<in> ?A. bh_height (the (?m r)) \<le> bh_height (the (?m y))"
    using arg_min_if_finite [OF fin ne, of "\<lambda>x. bh_height (the (?m x))"] by (meson not_le)
  then obtain g where g: "?m r = Some g" by auto
  have "lh_previousHeaderId g = None"
  proof (cases "lh_previousHeaderId g")
    case (Some p)
    from linkedD(2) [OF l g this] obtain q where q: "?m p = Some q" "bh_height q + 1 = bh_height g" by blast
    have "link ?m r p" using g Some by (simp add: link_def)
    with r(1) have "reach ?m ?t p" by (auto intro: rtranclp.rtrancl_into_rtrancl)
    with q(1) r(2) g q(2) show ?thesis by fastforce
  qed
  with that [OF g] chain_atD(2) [OF c g] r(1) show ?thesis by blast
qed

lemma active_chain:
  assumes "live_inv d" "view_of d (tipHeaderId d) = Some th"
  obtains cs b where "sort_key bh_height (active_headers d) = cs" "cs \<noteq> []" "last cs = th"
    "map bh_height cs = map (\<lambda>k. b + int k) [0..<length cs]"
    "set cs = {h. lh_isActive h \<and> (\<exists>x. view_of d x = Some h)}"
proof -
  let ?m = "view_of d" and ?t = "tipHeaderId d"
  from assms(1) have wf: "live_wf d" and c: "chain_at ?m ?t" by (auto simp: live_inv_def)
  note l = live_wfD(2) [OF wf] and dist = live_wfD(1) [OF wf]
  obtain r g where g: "?m r = Some g" "lh_isActive g" "lh_previousHeaderId g = None" by (rule active_root [OF assms(1)])
  have tr: "reach ?m ?t r" using chain_atD(2) [OF c g(1)] g(2) by simp
  from reach_path [OF this l assms(2)] obtain hs where hs: "path_to ?m r ?t hs" by blast
  note ph = path_heights [OF hs l g(1)]
  let ?cs = "rev (hs @ [g])"
  have stop: "reach ?m r y \<longleftrightarrow> y = r" for y
    using g(1,3) by (auto simp: link_def elim: converse_rtranclpE)
  have act: "h \<in> set ?cs \<longleftrightarrow> lh_isActive h" if "?m x = Some h" for x h
  proof -
    have id: "lh_headerId h = x" using linkedD(1) [OF l that] .
    have "h \<in> set hs \<longleftrightarrow> x \<in> lh_headerId ` set hs"
    proof
      assume "x \<in> lh_headerId ` set hs"
      then obtain q where q: "q \<in> set hs" "lh_headerId q = x" by auto
      from bspec [OF ph(3) q(1)] q(2) that have "q = h" by simp
      with q show "h \<in> set hs" by simp
    qed (use id in auto)
    also have "\<dots> \<longleftrightarrow> reach ?m ?t x \<and> x \<noteq> r"
      unfolding path_ids [OF hs l] using reach_split [OF _ tr, of x] stop by auto
    finally show ?thesis using chain_atD(2) [OF c that] tr g(1) that id linkedD(1) [OF l g(1)] by auto
  qed
  have hts: "map bh_height ?cs = map (\<lambda>k. bh_height g + int k) [0..<length ?cs]"
  proof (rule nth_equalityI)
    fix i assume i: "i < length (map bh_height ?cs)"
    then have rhs: "map (\<lambda>k. bh_height g + int k) [0..<length ?cs] ! i = bh_height g + int i"
      by (simp del: upt_Suc)
    have "map bh_height ?cs ! i = bh_height g + int i"
    proof (cases i)
      case (Suc j)
      with i have j: "length hs - Suc j < length hs" by simp
      then have "map bh_height hs ! (length hs - Suc j) = bh_height g + int (Suc j)"
        unfolding ph(1) using i Suc by (simp add: of_nat_diff)
      with i Suc j show ?thesis by (simp add: rev_nth)
    qed simp
    with rhs show "map bh_height ?cs ! i = map (\<lambda>k. bh_height g + int k) [0..<length ?cs] ! i" by (simp only:)
  qed simp
  have "distinct (map bh_height ?cs)" unfolding hts by (auto simp: distinct_map inj_on_def)
  then have inj: "inj_on bh_height (set ?cs)" and dcs: "distinct ?cs" unfolding distinct_map by auto
  have dv: "distinct (live_values d)"
  proof -
    have "map lh_headerId (live_values d) = map fst (liveHeaders d)"
      using linkedD(1) [OF l map_of_is_SomeI [OF dist]] by (auto simp: live_values_def)
    with dist show ?thesis by (metis distinct_map)
  qed
  have "set (active_headers d) = set ?cs"
  proof (intro set_eqI iffI)
    fix h assume "h \<in> set (active_headers d)"
    with values_view [OF dist, of h] act show "h \<in> set ?cs" by (auto simp: active_headers_def live_values_def)
  next
    fix h assume h: "h \<in> set ?cs"
    then obtain x where "?m x = Some h" using ph(3) g(1) by auto
    with h act values_view [OF dist, of h] show "h \<in> set (active_headers d)"
      by (auto simp: active_headers_def live_values_def)
  qed
  moreover have "distinct (active_headers d)" using dv by (simp add: active_headers_def)
  ultimately have ms: "mset (active_headers d) = mset ?cs" using dcs set_eq_iff_mset_eq_distinct by blast
  have "sorted (map bh_height ?cs)" unfolding hts by (auto simp: sorted_iff_nth_mono simp del: upt_Suc)
  with ms have "sort_key bh_height (active_headers d) = ?cs"
    using inj mset_eq_setD [OF ms] by (intro sort_key_inj_key_eq) simp_all
  moreover have "last ?cs = th" using path_hd [OF hs g(1)] assms(2) by (cases hs) (auto simp: last_rev)
  moreover have "set ?cs = {h. lh_isActive h \<and> (\<exists>x. ?m x = Some h)}"
    using act ph(3) g(1,2) by (auto simp del: set_rev) (force+)
  ultimately show ?thesis using that [of ?cs "bh_height g"] hts by simp
qed


text \<open>the active headers, in the order of their heights, have one header at every height of an interval
  and end with the tip. The height range, the lookup by height, the headers of a range and the oldest headers
  for migration are all read off that chain.\<close>

theorem active_chain_lookups:
  assumes "live_inv d" "view_of d (tipHeaderId d) = Some th"
  shows "\<exists>cs b. set cs = {h. lh_isActive h \<and> (\<exists>x. view_of d x = Some h)} \<and> cs \<noteq> [] \<and> last cs = th \<and>
    map bh_height cs = map (\<lambda>k. b + int k) [0..<length cs] \<and>
    findChainTipHeader d = Inr th \<and> findLiveHeightRange d = new_range b (b + int (length cs) - 1) \<and>
    liveHeadersForBulk m d = take m cs \<and>
    getLiveHeaders r d = filter (\<lambda>h. minHeight r \<le> bh_height h \<and> bh_height h \<le> maxHeight r) cs \<and>
    (\<forall>k < length cs. findLiveHeaderForHeight d (b + int k) = Some (cs ! k)) \<and>
    (findLiveHeaderForHeight d q \<noteq> None \<longleftrightarrow> b \<le> q \<and> q < b + int (length cs))"
proof -
  from assms(1) have wf: "live_wf d" and c: "chain_at (view_of d) (tipHeaderId d)" by (auto simp: live_inv_def)
  note dist = live_wfD(1) [OF wf]
  obtain cs b where cs: "sort_key bh_height (active_headers d) = cs" "cs \<noteq> []" "last cs = th"
    "map bh_height cs = map (\<lambda>k. b + int k) [0..<length cs]"
    "set cs = {h. lh_isActive h \<and> (\<exists>x. view_of d x = Some h)}" by (rule active_chain [OF assms])
  have set_cs: "set cs = set (active_headers d)" using cs(1) by auto
  have nth: "bh_height (cs ! k) = b + int k" if "k < length cs" for k
    using that cs(4) by (metis (no_types, lifting) add.left_neutral length_map length_upt minus_nat.diff_0 nth_map nth_upt)
  have hset: "set (map bh_height (active_headers d)) = {b ..< b + int (length cs)}"
  proof -
    have "set (map bh_height (active_headers d)) = set (map bh_height cs)" using set_cs by simp
    also have "\<dots> = (\<lambda>k. b + int k) ` {0..<length cs}" unfolding cs(4) by simp
    also have "\<dots> = {b ..< b + int (length cs)}"
    proof (intro set_eqI iffI)
      fix y assume "y \<in> {b ..< b + int (length cs)}"
      then show "y \<in> (\<lambda>k. b + int k) ` {0..<length cs}" by (intro image_eqI [of _ _ "nat (y - b)"]) auto
    qed auto
    finally show ?thesis .
  qed
  have "findLiveHeightRange d = new_range b (b + int (length cs) - 1)"
  proof -
    let ?hs = "map bh_height (active_headers d)"
    have ne: "?hs \<noteq> []" using cs(2) set_cs by auto
    have len: "0 < int (length cs)" using cs(2) by simp
    obtain a t where at: "?hs = a # t" using ne by (cases ?hs) auto
    have st: "set ?hs = set (a # t)" using at by simp
    have "fold min (tl ?hs) (hd ?hs) = Min {b ..< b + int (length cs)}"
      unfolding at hset [symmetric] st by (simp only: Min.set_eq_fold list.sel)
    also have "\<dots> = b" using len by (intro Min_eqI) auto
    finally have mn: "fold min (tl ?hs) (hd ?hs) = b" .
    have "fold max (tl ?hs) (hd ?hs) = Max {b ..< b + int (length cs)}"
      unfolding at hset [symmetric] st by (simp only: Max.set_eq_fold list.sel)
    also have "\<dots> = b + int (length cs) - 1" using len by (intro Max_eqI) auto
    finally have "fold max (tl ?hs) (hd ?hs) = b + int (length cs) - 1" .
    with mn ne show ?thesis unfolding findLiveHeightRange_def by (simp only: Let_def if_False)
  qed
  moreover have "findChainTipHeader d = Inr th"
    using find_tip(1) [OF dist c assms(2)] by (simp add: findChainTipHeader_def)
  moreover have "getLiveHeaders r d = filter (\<lambda>h. minHeight r \<le> bh_height h \<and> bh_height h \<le> maxHeight r) cs"
    by (auto simp: getLiveHeaders_def isEmpty_def filter_sort cs(1) [symmetric] intro!: filter_False [symmetric])
  moreover have look: "findLiveHeaderForHeight d (b + int k) = Some (cs ! k)" if k: "k < length cs" for k
    unfolding findLiveHeaderForHeight_def
  proof (rule find_unique)
    have "cs ! k \<in> set (active_headers d)" using k set_cs nth_mem by blast
    then show "cs ! k \<in> set (live_values d)" "bh_height (cs ! k) = b + int k \<and> lh_isActive (cs ! k)"
      using nth [OF k] by (auto simp: active_headers_def)
    fix y assume "y \<in> set (live_values d)" "bh_height y = b + int k \<and> lh_isActive y"
    then have "y \<in> set cs" and y: "bh_height y = b + int k" by (auto simp: set_cs active_headers_def)
    then obtain j where "j < length cs" "y = cs ! j" by (auto simp: in_set_conv_nth)
    with nth [of j] y show "y = cs ! k" by simp
  qed
  moreover have "findLiveHeaderForHeight d q \<noteq> None \<longleftrightarrow> b \<le> q \<and> q < b + int (length cs)"
  proof
    assume "findLiveHeaderForHeight d q \<noteq> None"
    then obtain h where "h \<in> set (live_values d)" "bh_height h = q" "lh_isActive h"
      by (auto simp: findLiveHeaderForHeight_def dest: find_Some_in)
    then have "q \<in> set (map bh_height (active_headers d))" by (auto simp: active_headers_def)
    then show "b \<le> q \<and> q < b + int (length cs)" unfolding hset by simp
  next
    assume "b \<le> q \<and> q < b + int (length cs)"
    with look [of "nat (q - b)"] show "findLiveHeaderForHeight d q \<noteq> None" by auto
  qed
  ultimately show ?thesis using cs by (intro exI [of _ cs] exI [of _ b]) (auto simp: liveHeadersForBulk_def)
qed

theorem active_chain_lookups_witness:
  "\<exists>b n. findLiveHeightRange fork_store = new_range b (b + int n - 1) \<and> 0 < n \<and>
     findChainTipHeader fork_store = Inr fork_tip"
proof -
  have "view_of fork_store (tipHeaderId fork_store) = Some fork_tip" by (simp add: fork_store_def)
  from active_chain_lookups [OF fork_store_inv this, of 0 empty_range 0] show ?thesis
    by (metis length_greater_0_conv)
qed


section \<open>Deletion of old headers\<close>

lemma map_of_mapped:
  "map_of (map (\<lambda>(i, h). (i, f h)) m) x = map_option f (map_of m x)"
  by (induction m) auto

lemma map_of_kept:
  "distinct (map fst m) \<Longrightarrow> map_of (filter (\<lambda>(i, h). P h) m) x =
     (case map_of m x of None \<Rightarrow> None | Some h \<Rightarrow> if P h then Some h else None)"
proof (induction m)
  case (Cons a m)
  obtain i h where a: "a = (i, h)" by (cases a)
  then have "map_of m i = None" using Cons.prems by (simp add: map_of_eq_None_iff)
  with Cons a show ?case by (auto split: option.splits)
qed simp

lemma clear_link_fields [simp]:
  "lh_headerId (clear_link m k h) = lh_headerId h" "bh_height (clear_link m k h) = bh_height h"
  "bh_hash (clear_link m k h) = bh_hash h" "bh_previousHash (clear_link m k h) = bh_previousHash h"
  "lh_isActive (clear_link m k h) = lh_isActive h" "lh_isChainTip (clear_link m k h) = lh_isChainTip h"
  "active_tip (clear_link m k h) = active_tip h"
  by (auto simp: clear_link_def active_tip_def split: option.splits)

lemma clear_link_prev:
  assumes "linked (map_of m)" "\<And>i h. map_of m i = Some h \<Longrightarrow> 0 < i" "map_of m x = Some h"
  shows "lh_previousHeaderId (clear_link m k h) = Some y \<longleftrightarrow>
    lh_previousHeaderId h = Some y \<and> (\<forall>q. map_of m y = Some q \<longrightarrow> k < bh_height q)"
proof (cases "lh_previousHeaderId h")
  case (Some p)
  from linkedD(2) [OF assms(1,3) this] obtain q where q: "map_of m p = Some q" by blast
  with assms(2) have "p \<noteq> 0" by force
  with Some q show ?thesis by (auto simp: clear_link_def not_le)
qed (simp add: clear_link_def)

lemma deleted_hashes:
  "fold (\<lambda>(i, h) m. m(bh_hash h := None)) old f s = (if \<exists>(i, h) \<in> set old. bh_hash h = s then None else f s)"
  for old :: live_map
  by (induction old arbitrary: f) auto

text \<open>deleting the headers up to a height below the tip removes exactly those, returns how many they
  were, clears the links into them, and keeps the live headers well formed with the same tip.\<close>

theorem deleteOlder_correct:
  assumes "live_inv d" "view_of d (tipHeaderId d) = Some th" "k < bh_height th"
    and "deleteOlderLiveBlockHeaders k d = (n, d')"
  shows "live_inv d' \<and> tipHeaderId d' = tipHeaderId d \<and> maxHeaderId d' = maxHeaderId d \<and>
    n = card {x. \<exists>h. view_of d x = Some h \<and> bh_height h \<le> k} \<and>
    (\<forall>x. view_of d' x = (case view_of d x of None \<Rightarrow> None | Some h \<Rightarrow>
        if bh_height h \<le> k then None
        else if \<exists>p q. lh_previousHeaderId h = Some p \<and> view_of d p = Some q \<and> bh_height q \<le> k
             then Some (h\<lparr>lh_previousHeaderId := None\<rparr>) else Some h))"
proof -
  let ?m = "view_of d" and ?al = "liveHeaders d" and ?t = "tipHeaderId d"
  from assms(1) have wf: "live_wf d" and c: "chain_at ?m ?t" by (auto simp: live_inv_def)
  note l = live_wfD(2) [OF wf] and dist = live_wfD(1) [OF wf]
  have pos: "0 < i" if "?m i = Some h" for i h using live_wfD(3) [OF wf that] by simp
  let ?cl = "map (\<lambda>(i, h). (i, clear_link ?al k h)) ?al"
  have keys: "map fst ?cl = map fst ?al" by (auto simp: comp_def)
  have live': "liveHeaders d' = filter (\<lambda>(i, h). \<not> bh_height h \<le> k) ?cl"
    and hash': "hashToHeaderId d' = fold (\<lambda>(i, h) m. m(bh_hash h := None)) (filter (\<lambda>(i, h). bh_height h \<le> k) ?cl) (hashToHeaderId d)"
    and max': "maxHeaderId d' = maxHeaderId d" and n: "n = length (filter (\<lambda>(i, h). bh_height h \<le> k) ?cl)"
    and tip': "tipHeaderId d' = (case find_active_tip (liveHeaders d') of None \<Rightarrow> 0 | Some t \<Rightarrow> lh_headerId t)"
    using assms(4) by (auto simp: deleteOlderLiveBlockHeaders_def Let_def)
  have v: "view_of d' x = (case ?m x of None \<Rightarrow> None | Some h \<Rightarrow>
      if bh_height h \<le> k then None else Some (clear_link ?al k h))" for x
  proof -
    have "distinct (map fst ?cl)" unfolding keys by (rule dist)
    from map_of_kept [OF this, of "\<lambda>h. \<not> bh_height h \<le> k" x] show ?thesis
      unfolding live' map_of_mapped by (cases "?m x") simp_all
  qed
  have v_Some: "view_of d' x = Some h' \<longleftrightarrow> (\<exists>h. ?m x = Some h \<and> k < bh_height h \<and> h' = clear_link ?al k h)" for x h'
    unfolding v by (auto split: option.splits)
  have cl: "clear_link ?al k h = (if \<exists>p q. lh_previousHeaderId h = Some p \<and> ?m p = Some q \<and> bh_height q \<le> k
      then h\<lparr>lh_previousHeaderId := None\<rparr> else h)" if "?m x = Some h" for x h
    using pos linkedD(2) [OF l that] by (fastforce simp: clear_link_def split: option.splits)
  have dist': "distinct (map fst (liveHeaders d'))" unfolding live' by (rule List.distinct_map_filter) (simp only: keys dist)
  have link': "link (view_of d') x y \<longleftrightarrow> link ?m x y \<and> (\<forall>q. ?m y = Some q \<longrightarrow> k < bh_height q)" for x y
  proof
    assume "link (view_of d') x y"
    then obtain h where "?m x = Some h" "lh_previousHeaderId (clear_link ?al k h) = Some y" by (auto simp: link_def v_Some)
    with clear_link_prev [OF l pos this(1)] show "link ?m x y \<and> (\<forall>q. ?m y = Some q \<longrightarrow> k < bh_height q)"
      by (auto simp: link_def)
  next
    assume *: "link ?m x y \<and> (\<forall>q. ?m y = Some q \<longrightarrow> k < bh_height q)"
    then obtain h where h: "?m x = Some h" "lh_previousHeaderId h = Some y" by (auto simp: link_def)
    with linkedD(2) [OF l h] * have "k < bh_height h" by fastforce
    with h * clear_link_prev [OF l pos h(1)] show "link (view_of d') x y" by (auto simp: link_def v_Some)
  qed
  have linked': "linked (view_of d')"
    unfolding linked_def v_Some
  proof (intro allI impI conjI)
    fix x h' assume "\<exists>h. ?m x = Some h \<and> k < bh_height h \<and> h' = clear_link ?al k h"
    then obtain h where h: "?m x = Some h" "h' = clear_link ?al k h" by blast
    show "lh_headerId h' = x" using linkedD(1) [OF l h(1)] h(2) by simp
    fix p assume "lh_previousHeaderId h' = Some p"
    with h clear_link_prev [OF l pos h(1)] have p: "lh_previousHeaderId h = Some p"
      "\<forall>q. ?m p = Some q \<longrightarrow> k < bh_height q" by auto
    from linkedD(2) [OF l h(1) p(1)] obtain q where "?m p = Some q" "bh_height q + 1 = bh_height h"
      "bh_hash q = bh_previousHash h" by blast
    with p(2) h(2) show "\<exists>q. (\<exists>h. ?m p = Some h \<and> k < bh_height h \<and> q = clear_link ?al k h) \<and>
        bh_height q + 1 = bh_height h' \<and> bh_hash q = bh_previousHash h'" by auto
  qed
  have reach': "reach (view_of d') ?t x \<longleftrightarrow> reach ?m ?t x" if "?m x = Some h" "k < bh_height h" for x h
  proof
    assume "reach (view_of d') ?t x"
    then show "reach ?m ?t x" by (induction rule: rtranclp_induct) (auto simp: link' intro: rtranclp.rtrancl_into_rtrancl)
  next
    assume "reach ?m ?t x"
    then show "reach (view_of d') ?t x" using that
    proof (induction arbitrary: h rule: rtranclp_induct)
      case (step y z)
      then obtain g where g: "?m y = Some g" "lh_previousHeaderId g = Some z" by (auto simp: link_def)
      with linkedD(2) [OF l g] step.prems have "k < bh_height g" by auto
      then have "reach (view_of d') ?t y" by (rule step.IH [OF g(1)])
      moreover have "link (view_of d') y z" using step.hyps(2) step.prems unfolding link' by simp
      ultimately show ?case by (rule rtranclp.rtrancl_into_rtrancl)
    qed simp
  qed
  have c': "chain_at (view_of d') ?t"
    unfolding chain_at_def
  proof (intro conjI allI impI)
    show "\<exists>h. view_of d' ?t = Some h" using assms(2,3) by (auto simp: v_Some)
    fix x h' assume "view_of d' x = Some h'"
    then obtain h where h: "?m x = Some h" "k < bh_height h" "h' = clear_link ?al k h" by (auto simp: v_Some)
    show "lh_isActive h' \<longleftrightarrow> reach (view_of d') ?t x" "active_tip h' \<longleftrightarrow> x = ?t"
      using h chain_atD(2,3) [OF c h(1)] reach' [OF h(1,2)] by auto
    show "\<not> link (view_of d') y x" if "lh_isChainTip h'" for y
      using h that chain_atD(4) [OF c h(1)] by (auto simp: link')
  qed
  have t': "tipHeaderId d' = ?t"
  proof -
    have "view_of d' ?t = Some (clear_link ?al k th)" using assms(2,3) by (auto simp: v_Some)
    from find_tip(1) [OF dist' c' this] tip' linkedD(1) [OF l assms(2)] show ?thesis by simp
  qed
  have hashes: "hashToHeaderId d' s = Some i \<longleftrightarrow> (\<exists>h. view_of d' i = Some h \<and> bh_hash h = s)" for s i
  proof -
    have mem: "(j, h) \<in> set (filter (\<lambda>(i, h). bh_height h \<le> k) ?cl) \<longleftrightarrow>
        (\<exists>g. ?m j = Some g \<and> h = clear_link ?al k g \<and> bh_height h \<le> k)" for j h
      unfolding map_of_eq_Some_iff [OF dist] by auto
    have old: "(\<exists>(j, h) \<in> set (filter (\<lambda>(i, h). bh_height h \<le> k) ?cl). bh_hash h = s) \<longleftrightarrow>
        (\<exists>j h. ?m j = Some h \<and> bh_height h \<le> k \<and> bh_hash h = s)"
      unfolding Bex_def case_prod_unfold split_paired_Ex fst_conv snd_conv mem [unfolded case_prod_unfold]
      by (simp add: conj_ac) (metis clear_link_fields(2,3))
    have "hashToHeaderId d' s = Some i \<longleftrightarrow>
        (\<exists>h. ?m i = Some h \<and> bh_hash h = s) \<and> \<not> (\<exists>j h. ?m j = Some h \<and> bh_height h \<le> k \<and> bh_hash h = s)"
      unfolding hash' deleted_hashes old using live_wfD(4) [OF wf, of s i] by auto
    also have "\<dots> \<longleftrightarrow> (\<exists>h. ?m i = Some h \<and> bh_hash h = s \<and> k < bh_height h)"
    proof -
      have "j = i" if "?m j = Some h" "bh_hash h = s" "?m i = Some g" "bh_hash g = s" for j h g
        using that live_wfD(4) [OF wf, of s] by (metis option.inject)
      then show ?thesis by (metis not_le option.inject)
    qed
    finally show ?thesis by (auto simp: v_Some)
  qed
  have "live_wf d'"
    unfolding live_wf_def max' using dist' linked' live_wfD(3) [OF wf] hashes by (auto simp: v_Some simp del: map_of_eq_Some_iff)
  moreover have "n = card {x. \<exists>h. ?m x = Some h \<and> bh_height h \<le> k}"
  proof -
    have "map fst (filter (\<lambda>(i, h). bh_height h \<le> k) ?cl) = map fst (filter (\<lambda>(i, h). bh_height h \<le> k) ?al)"
      by (induction ?al) (auto simp: filter_map comp_def case_prod_unfold)
    then have "n = length (filter (\<lambda>(i, h). bh_height h \<le> k) ?al)" unfolding n by (metis length_map)
    also have "\<dots> = card (fst ` set (filter (\<lambda>(i, h). bh_height h \<le> k) ?al))"
      using List.distinct_map_filter [OF dist] by (metis distinct_card length_map set_map)
    also have "fst ` set (filter (\<lambda>(i, h). bh_height h \<le> k) ?al) = {x. \<exists>h. ?m x = Some h \<and> bh_height h \<le> k}"
      using map_of_eq_Some_iff [OF dist] by (force simp: image_iff)
    finally show ?thesis .
  qed
  ultimately show ?thesis using c' t' max' cl by (auto simp: live_inv_def v split: option.splits)
qed

theorem deleteOlder_correct_witness:
  "live_inv (snd (deleteOlderLiveBlockHeaders 0 fork_store)) \<and> fst (deleteOlderLiveBlockHeaders 0 fork_store) = 1"
proof -
  have t: "view_of fork_store (tipHeaderId fork_store) = Some fork_tip" by (simp add: fork_store_def)
  have "{x. \<exists>h. view_of fork_store x = Some h \<and> bh_height h \<le> 0} = {2}" unfolding fork_view by auto
  then show ?thesis
    using deleteOlder_correct [OF fork_store_inv t, of 0] by (cases "deleteOlderLiveBlockHeaders 0 fork_store") auto
qed


section \<open>The common ancestor\<close>

definition below :: "live_view \<Rightarrow> nat \<Rightarrow> nat set" where
  "below m x = dom m \<inter> {y. reach m x y}"

lemma below_step:
  assumes "linked (map_of al)" "map_of al x = Some h" "lh_previousHeaderId h = Some p"
  shows "card (below (map_of al) p) < card (below (map_of al) x)"
proof -
  let ?m = "map_of al"
  obtain q where q: "?m p = Some q" "bh_height q + 1 = bh_height h" using linkedD(2) [OF assms] by blast
  have l: "link ?m x p" using assms(2,3) by (simp add: link_def)
  have nx: "\<not> reach ?m p x" using reach_height [OF _ assms(1) q(1), of x] q(2) assms(2) by auto
  have "finite (below ?m x)" by (rule finite_subset [OF _ finite_dom_map_of]) (auto simp: below_def)
  moreover have "below ?m p \<subset> below ?m x"
    using l nx assms(2) by (auto simp: below_def intro: converse_rtranclp_into_rtranclp)
  ultimately show ?thesis by (rule psubset_card_mono)
qed

definition forked :: "live_view \<Rightarrow> nat \<Rightarrow> nat \<Rightarrow> bool" where
  "forked m x y \<longleftrightarrow> \<not> reach m x y \<and> \<not> reach m y x"

lemma forked_step:
  assumes "linked m" "m x = Some h1" "m y = Some h2" "lh_previousHeaderId h1 = Some p" "bh_height h2 \<le> bh_height h1" "forked m x y"
  shows "reach m x z \<and> reach m y z \<longleftrightarrow> reach m p z \<and> reach m y z" "p \<noteq> y" "bh_height h2 < bh_height h1 \<Longrightarrow> forked m p y"
proof -
  obtain q where q: "m p = Some q" "bh_height q + 1 = bh_height h1" using linkedD(2) [OF assms(1,2,4)] by blast
  have l: "link m x p" using assms(2,4) by (simp add: link_def)
  have x: "reach m x z \<longleftrightarrow> x = z \<or> reach m p z" for z
    using l link_fun by (metis converse_rtranclp_into_rtranclp converse_rtranclpE rtranclp.rtrancl_refl)
  then show "reach m x z \<and> reach m y z \<longleftrightarrow> reach m p z \<and> reach m y z" "p \<noteq> y" using assms(6) by (auto simp: forked_def)
  assume lt: "bh_height h2 < bh_height h1"
  have "p = y" if "reach m y p"
    using reach_height [OF that assms(1,3)] q lt by fastforce
  with assms(6) x show "forked m p y" by (auto simp: forked_def)
qed

lemma forked_sym: "forked m x y \<longleftrightarrow> forked m y x"
  by (auto simp: forked_def)

lemma common_ancestor_loop_correct:
  assumes "linked (view_of d)" "view_of d x = Some h1" "view_of d y = Some h2" "forked (view_of d) x y"
    and "card (below (view_of d) x) + card (below (view_of d) y) \<le> n"
  shows "(\<exists>g a. common_ancestor_loop (Suc n) d h1 h2 = Inr g \<and> view_of d a = Some g \<and> reach (view_of d) x a \<and>
      reach (view_of d) y a \<and> (\<forall>z. reach (view_of d) x z \<and> reach (view_of d) y z \<longrightarrow> reach (view_of d) a z)) \<or>
    (common_ancestor_loop (Suc n) d h1 h2 = Inl LiveInvalidOperation \<and> (\<forall>z. \<not> (reach (view_of d) x z \<and> reach (view_of d) y z)))"
  using assms(2-5)
proof (induction n arbitrary: x y h1 h2 rule: less_induct)
  case (less n)
  let ?m = "view_of d"
  note l = assms(1) and x = less.prems(1) and y = less.prems(2) and f = less.prems(3)
  have alone: "reach ?m v z \<longleftrightarrow> z = v" if "?m v = Some h" "lh_previousHeaderId h = None" for v h z
    using that by (auto simp: link_def elim: converse_rtranclpE)
  show ?case
  proof (cases "lh_previousHeaderId h1 = None \<or> lh_previousHeaderId h2 = None")
    case True
    then have "\<not> (reach ?m x z \<and> reach ?m y z)" for z using alone x y f by (auto simp: forked_def)
    with True show ?thesis by (auto split: option.splits)
  next
    case False
    then obtain p1 p2 where p: "lh_previousHeaderId h1 = Some p1" "lh_previousHeaderId h2 = Some p2" by auto
    obtain q1 where q1: "?m p1 = Some q1" "bh_height q1 + 1 = bh_height h1" using linkedD(2) [OF l x p(1)] by blast
    obtain q2 where q2: "?m p2 = Some q2" "bh_height q2 + 1 = bh_height h2" using linkedD(2) [OF l y p(2)] by blast
    have lk: "link ?m x p1" "link ?m y p2" using x y p by (simp_all add: link_def)
    have rx: "reach ?m x z \<longleftrightarrow> x = z \<or> reach ?m p1 z" "reach ?m y z \<longleftrightarrow> y = z \<or> reach ?m p2 z" for z
      using lk link_fun by (metis converse_rtranclp_into_rtranclp converse_rtranclpE rtranclp.rtrancl_refl)+
    note c1 = below_step [OF l x p(1)] and c2 = below_step [OF l y p(2)]
    have f': "forked ?m y x" using f forked_sym by blast
    show ?thesis
    proof (cases "p1 = p2")
      case True
      have "reach ?m p1 z" if "reach ?m x z" "reach ?m y z" for z
        using that rx f by (auto simp: forked_def)
      with True p q1 rx show ?thesis by (intro disjI1) (auto simp: findLiveHeaderForHeaderId_def)
    next
      case pne: False
      consider "bh_height h1 = bh_height h2" | "bh_height h2 < bh_height h1" | "bh_height h1 < bh_height h2" by linarith
      then show ?thesis
      proof cases
        case 1
        have "p1 = p2" if "reach ?m p1 p2" using reach_height [OF that l q1(1)] q1 q2 1 by fastforce
        moreover have "p1 = p2" if "reach ?m p2 p1" using reach_height [OF that l q2(1)] q1 q2 1 by fastforce
        ultimately have "forked ?m p1 p2" using pne by (auto simp: forked_def)
        obtain k where k: "n = Suc k" "card (below ?m p1) + card (below ?m p2) \<le> k"
          using less.prems(4) c1 c2 by (cases n) auto
        have st: "common_ancestor_loop (Suc n) d h1 h2 = common_ancestor_loop (Suc k) d q1 q2"
          using p pne 1 q1(1) q2(1) k(1) by (simp add: findLiveHeaderForHeaderId_def del: common_ancestor_loop.simps(2))
            (simp add: findLiveHeaderForHeaderId_def)
        have eq: "reach ?m x z \<and> reach ?m y z \<longleftrightarrow> reach ?m p1 z \<and> reach ?m p2 z" for z
          using rx f pne reach_height [OF _ l q1(1), of y] reach_height [OF _ l q2(1), of x] 1 q1(2) q2(2) x y
          by (auto simp: forked_def)
        have k': "k < n" using k by simp
        note IH = less.IH [OF k' q1(1) q2(1) \<open>forked ?m p1 p2\<close> k(2)]
        from IH show ?thesis unfolding st eq using rx by blast
      next
        case 2
        note fs = forked_step [OF l x y p(1) less_imp_le [OF 2] f]
        obtain k where k: "n = Suc k" "card (below ?m p1) + card (below ?m y) \<le> k"
          using less.prems(4) c1 by (cases n) auto
        have st: "common_ancestor_loop (Suc n) d h1 h2 = common_ancestor_loop (Suc k) d q1 h2"
          using p pne 2 q1(1) k(1) by (simp add: findLiveHeaderForHeaderId_def)
        have k': "k < n" using k by simp
        from less.IH [OF k' q1(1) y fs(3) [OF 2] k(2)] show ?thesis unfolding st fs(1) using rx by blast
      next
        case 3
        note fs = forked_step [OF l y x p(2) less_imp_le [OF 3] f']
        obtain k where k: "n = Suc k" "card (below ?m x) + card (below ?m p2) \<le> k"
          using less.prems(4) c2 by (cases n) auto
        have st: "common_ancestor_loop (Suc n) d h1 h2 = common_ancestor_loop (Suc k) d h1 q2"
          using p pne 3 q2(1) k(1) by (simp add: findLiveHeaderForHeaderId_def)
        have k': "k < n" using k by simp
        have eq: "reach ?m x z \<and> reach ?m y z \<longleftrightarrow> reach ?m x z \<and> reach ?m p2 z" for z using fs(1) [of z] by blast
        have "forked ?m x p2" using fs(3) [OF 3] forked_sym by blast
        from less.IH [OF k' x q2(1) this k(2)] show ?thesis unfolding st eq using rx by blast
      qed
    qed
  qed
qed

text \<open>for two headers of different forks the walk always ends, with their highest common ancestor or,
  when the forks do not meet among the live headers, with an error; the depth of the reorganization is the
  distance from the higher one to that ancestor.\<close>

theorem findCommonAncestor_correct:
  assumes "live_inv d" "view_of d x = Some h1" "view_of d y = Some h2"
    and "\<not> reach (view_of d) x y" "\<not> reach (view_of d) y x"
  shows "(\<exists>g a. findCommonAncestor d h1 h2 = Inr g \<and> findReorgDepth d h1 h2 = Inr (max (bh_height h1) (bh_height h2) - bh_height g) \<and>
      view_of d a = Some g \<and> reach (view_of d) x a \<and> reach (view_of d) y a \<and>
      (\<forall>z. reach (view_of d) x z \<and> reach (view_of d) y z \<longrightarrow> reach (view_of d) a z)) \<or>
    (findCommonAncestor d h1 h2 = Inl LiveInvalidOperation \<and> findReorgDepth d h1 h2 = Inl LiveInvalidOperation \<and>
      (\<forall>z. \<not> (reach (view_of d) x z \<and> reach (view_of d) y z)))"
proof -
  from assms(1) have l: "linked (view_of d)" by (simp add: live_inv_def live_wf_def)
  have "card (below (view_of d) v) \<le> length (liveHeaders d)" for v
    using card_reach_le [of "liveHeaders d" v] by (simp add: below_def)
  from add_mono [OF this [of x] this [of y]]
  have n: "card (below (view_of d) x) + card (below (view_of d) y) \<le> 2 * length (liveHeaders d)" by simp
  have f: "forked (view_of d) x y" using assms(4,5) by (simp add: forked_def)
  from common_ancestor_loop_correct [OF l assms(2,3) f n] show ?thesis
    by (auto simp: findCommonAncestor_def findReorgDepth_def)
qed

theorem findCommonAncestor_correct_witness:
  "findCommonAncestor fork_store fork_tip fork_side = Inr fork_base \<and> findReorgDepth fork_store fork_tip fork_side = Inr 1"
proof -
  have l: "link (view_of fork_store) y z \<longleftrightarrow> (y = 3 \<or> y = 4) \<and> z = 2" for y z
    by (auto simp: link_def fork_view)
  have r: "reach (view_of fork_store) y z \<longleftrightarrow> z = y \<or> z = 2 \<and> (y = 3 \<or> y = 4)" for y z
  proof
    assume "reach (view_of fork_store) y z"
    then show "z = y \<or> z = 2 \<and> (y = 3 \<or> y = 4)" by (induction rule: rtranclp_induct) (auto simp: l)
  next
    assume "z = y \<or> z = 2 \<and> (y = 3 \<or> y = 4)"
    with l [of 3 2] l [of 4 2] show "reach (view_of fork_store) y z" by auto
  qed
  have v: "view_of fork_store 3 = Some fork_tip" "view_of fork_store 4 = Some fork_side" by (simp_all add: fork_view)
  have a: "\<not> reach (view_of fork_store) 3 4" "\<not> reach (view_of fork_store) 4 3" by (simp_all add: r)
  from findCommonAncestor_correct [OF fork_store_inv v a] show ?thesis
  proof (elim disjE exE conjE)
    fix g a assume g: "findCommonAncestor fork_store fork_tip fork_side = Inr g"
      "findReorgDepth fork_store fork_tip fork_side = Inr (max (bh_height fork_tip) (bh_height fork_side) - bh_height g)"
      "view_of fork_store a = Some g" "reach (view_of fork_store) 3 a" "reach (view_of fork_store) 4 a"
    from g(4,5) have "a = 2" unfolding r by auto
    with g(3) have "g = fork_base" unfolding fork_view by auto
    with g(1,2) show ?thesis by simp
  next
    assume "\<forall>z. \<not> (reach (view_of fork_store) 3 z \<and> reach (view_of fork_store) 4 z)"
    then have False unfolding r by blast
    then show ?thesis by simp
  qed
qed

end
