(* ===== verification/JsDoubles.thy ===== *)
theory JsDoubles
  imports Complex_Main "HOL-Library.Log_Nat"
begin

text \<open>
  The JavaScript number arithmetic the sources use on non-integers: a product or quotient of doubles is the
  exact result rounded to 53 significant bits, ties to even. Doubles are rationals; overflow, subnormal
  numbers, NaN and the sign of zero do not occur in the modelled code (amounts, sizes and fractions of them).
\<close>

text \<open>\<open>exp2 e\<close> is 2 to the power \<open>e\<close>, and \<open>exponent x\<close> the largest \<open>e\<close> with \<open>exp2 e \<le> x\<close>.\<close>

definition exp2 :: "int \<Rightarrow> rat" where
  "exp2 e = (if 0 \<le> e then 2 ^ nat e else 1 / 2 ^ nat (- e))"

definition exponent :: "rat \<Rightarrow> int" where
  "exponent x = (let (p, q) = quotient_of x; k = bitlen p - bitlen q in if exp2 k \<le> x then k else k - 1)"

definition round_even :: "rat \<Rightarrow> int" where
  "round_even x = (let n = \<lfloor>x\<rfloor>; r = x - of_int n in
     if r < 1 / 2 \<or> r = 1 / 2 \<and> even n then n else n + 1)"

definition dbl_pos :: "rat \<Rightarrow> rat" where
  "dbl_pos x = (let u = exp2 (exponent x - 52) in of_int (round_even (x / u)) * u)"

definition dbl :: "rat \<Rightarrow> rat" where
  "dbl x = (if x = 0 then 0 else if 0 < x then dbl_pos x else - dbl_pos (- x))"

definition js_mul :: "rat \<Rightarrow> rat \<Rightarrow> rat" where
  "js_mul x y = dbl (x * y)"

definition js_div :: "rat \<Rightarrow> rat \<Rightarrow> rat" where
  "js_div x y = dbl (x / y)"

definition js_add :: "rat \<Rightarrow> rat \<Rightarrow> rat" where
  "js_add x y = dbl (x + y)"

section \<open>The error of a rounding\<close>

lemma exp2_pos [simp]: "0 < exp2 e"
  by (simp add: exp2_def)

lemma exp2_add: "exp2 (a + b) = exp2 a * exp2 b"
proof -
  have e: "exp2 e = 2 powi e" for e
    by (simp add: exp2_def power_int_def field_simps)
  show ?thesis by (simp add: e power_int_add)
qed

lemma exponent_le: assumes "0 < x" shows "exp2 (exponent x) \<le> x"
proof -
  obtain p q where pq: "quotient_of x = (p, q)" by (cases "quotient_of x")
  have q: "0 < q" using quotient_of_denom_pos [OF pq] .
  have x: "x = of_int p / of_int q" using quotient_of_div [OF pq] .
  have p: "0 < p" using assms x q by (simp add: zero_less_divide_iff)
  define k where "k = bitlen p - bitlen q"
  have bp: "2 ^ nat (bitlen p - 1) \<le> p" "p < 2 ^ nat (bitlen p)"
    using bitlen_bounds [OF p] by auto
  have bq: "2 ^ nat (bitlen q - 1) \<le> q" "q < 2 ^ nat (bitlen q)"
    using bitlen_bounds [OF q] by auto
  have b1: "0 < bitlen p" "0 < bitlen q" using p q by (auto simp: bitlen_alt_def floorlog_def)
  have e: "exp2 (bitlen p - 1) \<le> of_int p" "of_int q \<le> exp2 (bitlen q)"
  proof -
    have "(of_int (2 ^ nat (bitlen p - 1)) :: rat) \<le> of_int p" using bp(1) by (simp only: of_int_le_iff)
    then show "exp2 (bitlen p - 1) \<le> of_int p" using b1 by (simp add: exp2_def)
    have "(of_int q :: rat) \<le> of_int (2 ^ nat (bitlen q))" using bq(2) by (simp only: of_int_le_iff)
    then show "of_int q \<le> exp2 (bitlen q)" using b1 by (simp add: exp2_def)
  qed
  have "exp2 (k - 1) * exp2 (bitlen q) = exp2 (bitlen p - 1)"
    by (simp add: k_def exp2_add [symmetric] algebra_simps)
  moreover have "exp2 (k - 1) * of_int q \<le> exp2 (k - 1) * exp2 (bitlen q)"
    using e(2) by (intro mult_left_mono) (simp_all add: less_imp_le)
  ultimately have "exp2 (k - 1) * of_int q \<le> of_int p" using e(1) by simp
  then have "exp2 (k - 1) \<le> x" unfolding x using q by (simp add: pos_le_divide_eq)
  then show ?thesis by (simp add: exponent_def pq k_def [symmetric] Let_def)
qed

lemma round_even_error: "\<bar>of_int (round_even x) - x\<bar> \<le> 1 / 2"
proof -
  have "of_int \<lfloor>x\<rfloor> \<le> x" "x < of_int \<lfloor>x\<rfloor> + 1" by linarith+
  then show ?thesis unfolding round_even_def Let_def by (simp split: if_split)
qed

text \<open>Rounding changes a number by at most one part in 2 to the 53.\<close>

lemma dbl_error: assumes "0 \<le> x" shows "\<bar>dbl x - x\<bar> \<le> x / 2 ^ 53"
proof (cases "x = 0")
  case False
  with assms have x: "0 < x" by simp
  define u where "u = exp2 (exponent x - 52)"
  have u: "0 < u" by (simp add: u_def)
  have "exp2 (exponent x) = u * exp2 52" by (simp add: u_def exp2_add [symmetric])
  then have ux: "u * 2 ^ 52 \<le> x" using exponent_le [OF x] by (simp add: exp2_def)
  have "dbl x - x = (of_int (round_even (x / u)) - x / u) * u"
    using x u by (simp add: dbl_def dbl_pos_def u_def [symmetric] Let_def algebra_simps)
  then have "\<bar>dbl x - x\<bar> = \<bar>of_int (round_even (x / u)) - x / u\<bar> * u"
    using u by (simp add: abs_mult)
  also have "\<dots> \<le> 1 / 2 * u" using round_even_error u by (intro mult_right_mono) simp_all
  also have "\<dots> \<le> x / 2 ^ 53" using ux by (simp add: field_simps)
  finally show ?thesis .
qed (simp add: dbl_def)

lemma dbl_le: "0 \<le> x \<Longrightarrow> dbl x \<le> x * (1 + 1 / 2 ^ 53)"
  using abs_le_D1 [OF dbl_error [of x]] by (simp add: field_simps)

lemma dbl_nonneg: "0 \<le> x \<Longrightarrow> 0 \<le> dbl x"
proof -
  assume x: "0 \<le> x"
  have "x / 2 ^ 53 \<le> x" using x by (simp add: field_simps)
  with abs_le_D2 [OF dbl_error [OF x]] show ?thesis by linarith
qed

lemma js_mul_le: "0 \<le> x \<Longrightarrow> 0 \<le> y \<Longrightarrow> x * y \<le> z \<Longrightarrow> js_mul x y \<le> z * (1 + 1 / 2 ^ 53)"
  unfolding js_mul_def
  by (rule order_trans [OF dbl_le]) (simp_all add: mult_right_mono)

lemma js_nonneg: "0 \<le> x \<Longrightarrow> 0 \<le> y \<Longrightarrow> 0 \<le> js_mul x y" "0 \<le> x \<Longrightarrow> 0 \<le> y \<Longrightarrow> 0 \<le> js_div x y"
  "0 \<le> x \<Longrightarrow> 0 \<le> y \<Longrightarrow> 0 \<le> js_add x y"
  by (simp_all add: js_mul_def js_div_def js_add_def dbl_nonneg)

end
