(* ===== verification/ChangeGen.thy ===== *)
theory ChangeGen
  imports Prelude JsBits JsDoubles
begin

text \<open>
  Funding a transaction and splitting its change,
  \<^verbatim>\<open>src/src/storage/methods/generateChange.ts\<close>, with the sizes of
  \<^verbatim>\<open>src/src/storage/methods/utils.ts\<close> and \<open>validateStorageFeeModel\<close> of
  \<^verbatim>\<open>src/src/storage/StorageProvider.ts\<close>.

  Amounts and lengths are integers; fees and random shares are computed on doubles. The allocator of change
  inputs is an argument, two operations on a state \<open>'s\<close>; the validators and \<open>Random\<close> of the SDK are
  arguments as well. The field \<open>feeExcessNow\<close> of the closures is the last value of \<open>feeExcess()\<close>; where the
  code reads it nothing changed since, so it is that value. Logging is left out.
\<close>

section \<open>Sizes and the fee model\<close>

datatype gen_error =
    InvalidParameter string
  | InternalError string
  | InsufficientFunds int int
  | ChangeTypeError
  | StoreError
  | Endless

definition varUintSize :: "int \<Rightarrow> gen_error + int" where
  "varUintSize val = (if val < 0 then Inl (InvalidParameter ''varUint'') else if val \<le> 252 then Inr 1
     else if val \<le> 65535 then Inr 3 else if val \<le> 4294967295 then Inr 5 else Inr 9)"

definition transactionInputSize :: "int \<Rightarrow> gen_error + int" where
  "transactionInputSize n = bindE (varUintSize n) (\<lambda>v. Inr (32 + 4 + v + n + 4))"

definition transactionOutputSize :: "int \<Rightarrow> gen_error + int" where
  "transactionOutputSize n = bindE (varUintSize n) (\<lambda>v. Inr (v + n + 8))"

definition transactionSize :: "int list \<Rightarrow> int list \<Rightarrow> gen_error + int" where
  "transactionSize ins outs =
     bindE (varUintSize (int (length ins))) (\<lambda>a.
     bindE (mapE transactionInputSize ins) (\<lambda>is.
     bindE (varUintSize (int (length outs))) (\<lambda>b.
     bindE (mapE transactionOutputSize outs) (\<lambda>os.
     Inr (4 + a + sum_list is + b + sum_list os + 4)))))"

record fee_model =
  fm_model :: string
  fm_value :: "int option"

definition validateStorageFeeModel :: "fee_model option \<Rightarrow> gen_error + fee_model" where
  "validateStorageFeeModel v =
     (let r = \<lparr>fm_model = ''sat/kb'', fm_value = Some 1\<rparr>
      in case v of
           None \<Rightarrow> Inr r
         | Some m \<Rightarrow> if fm_model m \<noteq> ''sat/kb'' then Inl (InvalidParameter ''StorageFeeModel.model'')
             else case fm_value m of None \<Rightarrow> Inr r | Some x \<Rightarrow> Inr (r\<lparr>fm_value := Some x\<rparr>))"

section \<open>Parameters\<close>

definition maxPossibleSatoshis :: int where
  "maxPossibleSatoshis = 2099999999999999"

definition maxChangeOutputsPerTransaction :: int where
  "maxChangeOutputsPerTransaction = 8"

record fixed_input =
  fi_satoshis :: int
  fi_unlockingScriptLength :: int

record change_output =
  co_satoshis :: int
  co_lockingScriptLength :: int

record change_input =
  ci_outputId :: int
  ci_satoshis :: int

record gen_params =
  gp_fixedInputs :: "fixed_input list"
  gp_fixedOutputs :: "change_output list"
  gp_feeModel :: "fee_model option"
  gp_targetNetCount :: "int option"
  gp_changeInitialSatoshis :: int
  gp_changeFirstSatoshis :: int
  gp_changeLockingScriptLength :: int
  gp_changeUnlockingScriptLength :: int
  gp_maxChangeOutputs :: "int option"
  gp_randomVals :: "rat list"

text \<open>The SDK's \<open>validateSatoshis(value, name, min)\<close> and \<open>validateInteger(value, name, default, min)\<close>: whether
  they return rather than throw.\<close>

record sdk_validation =
  val_satoshis :: "int \<Rightarrow> int option \<Rightarrow> bool"
  val_integer :: "int \<Rightarrow> int option \<Rightarrow> bool"

definition check :: "bool \<Rightarrow> string \<Rightarrow> gen_error + unit" where
  "check b name = (if b then Inr () else Inl (InvalidParameter name))"

fun check_inputs :: "sdk_validation \<Rightarrow> fixed_input list \<Rightarrow> gen_error + unit" where
  "check_inputs V [] = Inr ()"
| "check_inputs V (x # xs) =
     bindE (check (val_satoshis V (fi_satoshis x) None) ''fixedInputs.satoshis'') (\<lambda>_.
     bindE (check (val_integer V (fi_unlockingScriptLength x) (Some 0)) ''fixedInputs.unlockingScriptLength'') (\<lambda>_.
     check_inputs V xs))"

text \<open>The index of the one output that asks for the largest possible amount.\<close>

fun check_outputs :: "sdk_validation \<Rightarrow> change_output list \<Rightarrow> nat \<Rightarrow> nat option \<Rightarrow> gen_error + nat option" where
  "check_outputs V [] i r = Inr r"
| "check_outputs V (x # xs) i r =
     bindE (check (val_satoshis V (co_satoshis x) None) ''fixedOutputs.satoshis'') (\<lambda>_.
     bindE (check (val_integer V (co_lockingScriptLength x) (Some 0)) ''fixedOutputs.lockingScriptLength'') (\<lambda>_.
     if co_satoshis x = maxPossibleSatoshis
     then if r \<noteq> None then Inl (InvalidParameter ''fixedOutputs.satoshis'') else check_outputs V xs (i + 1) (Some i)
     else check_outputs V xs (i + 1) r))"

definition validateGenerateChangeSdkParams ::
  "sdk_validation \<Rightarrow> gen_params \<Rightarrow> gen_error + nat option \<times> gen_params" where
  "validateGenerateChangeSdkParams V p =
     bindE (check_inputs V (gp_fixedInputs p)) (\<lambda>_.
     bindE (check_outputs V (gp_fixedOutputs p) 0 None) (\<lambda>r.
     bindE (validateStorageFeeModel (gp_feeModel p)) (\<lambda>m.
     bindE (check (fm_model m = ''sat/kb'') ''feeModel.model'') (\<lambda>_.
     bindE (check (case gp_targetNetCount p of None \<Rightarrow> True | Some t \<Rightarrow> val_integer V t None) ''targetNetCount'') (\<lambda>_.
     bindE (check (val_satoshis V (gp_changeFirstSatoshis p) (Some 1)) ''changeFirstSatoshis'') (\<lambda>_.
     bindE (check (val_satoshis V (gp_changeInitialSatoshis p) (Some 1)) ''changeInitialSatoshis'') (\<lambda>_.
     bindE (check (val_integer V (gp_changeLockingScriptLength p) None) ''changeLockingScriptLength'') (\<lambda>_.
     bindE (check (val_integer V (gp_changeUnlockingScriptLength p) None) ''changeUnlockingScriptLength'') (\<lambda>_.
     Inr (r, p\<lparr>gp_feeModel := Some m\<rparr>))))))))))"

section \<open>Random numbers\<close>

text \<open>The values given with the parameters are used in turn; without any, the SDK's \<open>Random(4)\<close> gives four
  bytes, its \<open>n\<close>-th answer being \<open>rng_random n\<close>.\<close>

record rng =
  rng_vals :: "rat list"
  rng_random :: "nat \<Rightarrow> int list"
  rng_count :: nat

definition nextRandomVal :: "rng \<Rightarrow> rat \<times> rng" where
  "nextRandomVal g =
     (case rng_vals g of
        [] \<Rightarrow>
          let b = rng_random g (rng_count g);
              n = js_or (js_or (js_or (js_shl (b ! 0) 24) (js_shl (b ! 1) 16)) (js_shl (b ! 2) 8)) (b ! 3)
          in (of_int (n mod 4294967296) / 4294967296, g\<lparr>rng_count := rng_count g + 1\<rparr>)
      | v # vs \<Rightarrow> (v, g\<lparr>rng_vals := vs @ [v]\<rparr>))"

definition rand :: "int \<Rightarrow> int \<Rightarrow> rng \<Rightarrow> (gen_error + int) \<times> rng" where
  "rand mn mx g =
     (if mx < mn then (Inl (InvalidParameter ''max''), g)
      else let (v, g') = nextRandomVal g
           in (Inr \<lfloor>js_add (js_mul v (of_int (mx - mn + 1))) (of_int mn)\<rfloor>, g'))"

section \<open>Change outputs\<close>

text \<open>\<open>removeChurnPairs\<close> works on a copy of the inputs: only the outputs change.\<close>

function removeChurnPairs :: "change_input list \<Rightarrow> change_output list \<Rightarrow> change_output list" where
  "removeChurnPairs changeInputs changeOutputs =
     (if 1 < length changeInputs \<and> 1 < length changeOutputs
      then case List.extract (\<lambda>ci. ci_satoshis ci \<le> co_satoshis (last changeOutputs)) changeInputs of
             None \<Rightarrow> changeOutputs
           | Some (before, ci, after) \<Rightarrow> removeChurnPairs (before @ after) (butlast changeOutputs)
      else changeOutputs)"
  by pat_completeness auto
termination by (relation "measure (\<lambda>(is, os). length os)") auto

declare removeChurnPairs.simps [simp del]

definition add_sats :: "int \<Rightarrow> change_output \<Rightarrow> change_output" where
  "add_sats n x = x\<lparr>co_satoshis := co_satoshis x + n\<rparr>"

text \<open>The share of the excess that goes to a random output: between a quarter and a half, at least one.\<close>

definition random_share :: "int \<Rightarrow> int \<Rightarrow> int" where
  "random_share r excess = max 1 \<lfloor>js_mul (js_div (of_int r) 10000) (of_int excess)\<rfloor>"

function distributeExcessFees ::
  "change_output list \<Rightarrow> int \<Rightarrow> int \<Rightarrow> rng \<Rightarrow> (gen_error + change_output list \<times> int) \<times> rng" where
  "distributeExcessFees outs initial excess g =
     (if outs \<noteq> [] \<and> 0 < excess
      then if length outs = 1 then (Inr ([add_sats excess (hd outs)], 0), g)
           else if co_satoshis (hd outs) < initial
           then let sats = min excess (initial - co_satoshis (hd outs))
                in distributeExcessFees (add_sats sats (hd outs) # tl outs) initial (excess - sats) g
           else case rand 2500 5000 g of
                  (Inl e, g') \<Rightarrow> (Inl e, g')
                | (Inr r, g') \<Rightarrow>
                    let sats = random_share r excess
                    in case rand 0 (int (length outs) - 1) g' of
                         (Inl e, g'') \<Rightarrow> (Inl e, g'')
                       | (Inr i, g'') \<Rightarrow>
                           if 0 \<le> i \<and> i < int (length outs)
                           then distributeExcessFees (outs[nat i := add_sats sats (outs ! nat i)]) initial (excess - sats) g''
                           else (Inl ChangeTypeError, g'')
      else (Inr (outs, excess), g))"
  by pat_completeness auto
termination by (relation "measure (\<lambda>(outs, initial, excess, g). nat excess)") (auto simp: random_share_def)

declare distributeExcessFees.simps [simp del]

text \<open>The first of the largest outputs.\<close>

definition largest_index :: "change_output list \<Rightarrow> nat" where
  "largest_index xs = foldl (\<lambda>b j. if co_satoshis (xs ! b) < co_satoshis (xs ! j) then j else b) 0 [0..<length xs]"

primrec remove_dust_from :: "nat \<Rightarrow> int \<Rightarrow> change_output list \<Rightarrow> change_output list" where
  "remove_dust_from 0 dustFloor outs = outs"
| "remove_dust_from (Suc i) dustFloor outs =
     remove_dust_from i dustFloor
       (if co_satoshis (outs ! i) < dustFloor \<and> 1 < length outs
        then let rest = take i outs @ drop (i + 1) outs; j = largest_index rest
             in rest[j := add_sats (co_satoshis (outs ! i)) (rest ! j)]
        else outs)"

definition removeDustOutputs :: "change_output list \<Rightarrow> int \<Rightarrow> change_output list" where
  "removeDustOutputs outs dustFloor = remove_dust_from (length outs) dustFloor outs"

section \<open>State and balance\<close>

record 's gen =
  g_inputs :: "change_input list"
  g_outputs :: "change_output list"
  g_fixed :: "change_output list"
  g_store :: 's
  g_rng :: rng

text \<open>What is computed once from the parameters.\<close>

record fee_setup =
  su_satsPerKb :: int
  su_dustFloor :: int
  su_maxOutputs :: int
  su_hasTarget :: bool
  su_target :: int

record 's allocator =
  al_allocate :: "int \<Rightarrow> int option \<Rightarrow> ('s, gen_error, change_input option) sem"
  al_release :: "int \<Rightarrow> ('s, gen_error, unit) sem"

definition fee_of :: "int \<Rightarrow> int \<Rightarrow> int" where
  "fee_of sz rate = \<lceil>js_mul (js_div (of_int sz) 1000) (of_int rate)\<rceil>"

definition sum_of :: "('a \<Rightarrow> int) \<Rightarrow> 'a list \<Rightarrow> int" where
  "sum_of f xs = sum_list (map f xs)"

definition funding :: "gen_params \<Rightarrow> 's gen \<Rightarrow> int" where
  "funding p st = sum_of fi_satoshis (gp_fixedInputs p) + sum_of ci_satoshis (g_inputs st)"

definition spending :: "'s gen \<Rightarrow> int" where
  "spending st = sum_of co_satoshis (g_fixed st)"

definition change_total :: "'s gen \<Rightarrow> int" where
  "change_total st = sum_of co_satoshis (g_outputs st)"

text \<open>By the time \<open>size()\<close> is called no script length is negative: the fixed ones were validated, and the
  computation of the dust floor has thrown for a negative change script length. The size is then the value
  that \<open>transactionSize\<close> returns.\<close>

definition size_value :: "gen_error + int \<Rightarrow> int" where
  "size_value r = (case r of Inl _ \<Rightarrow> 0 | Inr n \<Rightarrow> n)"

definition tx_size :: "gen_params \<Rightarrow> 's gen \<Rightarrow> nat \<Rightarrow> nat \<Rightarrow> int" where
  "tx_size p st addedInputs addedOutputs = size_value (transactionSize
     (map fi_unlockingScriptLength (gp_fixedInputs p) @
      replicate (length (g_inputs st) + addedInputs) (gp_changeUnlockingScriptLength p))
     (map co_lockingScriptLength (g_fixed st) @
      replicate (length (g_outputs st) + addedOutputs) (gp_changeLockingScriptLength p)))"

definition feeTarget :: "gen_params \<Rightarrow> fee_setup \<Rightarrow> 's gen \<Rightarrow> nat \<Rightarrow> nat \<Rightarrow> int" where
  "feeTarget p su st ai ao = fee_of (tx_size p st ai ao) (su_satsPerKb su)"

definition feeExcess :: "gen_params \<Rightarrow> fee_setup \<Rightarrow> 's gen \<Rightarrow> nat \<Rightarrow> nat \<Rightarrow> int" where
  "feeExcess p su st ai ao = funding p st - spending st - change_total st - feeTarget p su st ai ao"

definition netChangeCount :: "'s gen \<Rightarrow> int" where
  "netChangeCount st = int (length (g_outputs st)) - int (length (g_inputs st))"

definition addOutputToBalanceNewInput :: "fee_setup \<Rightarrow> 's gen \<Rightarrow> bool" where
  "addOutputToBalanceNewInput su st \<longleftrightarrow>
     su_hasTarget su \<and> int (length (g_outputs st)) < su_maxOutputs su \<and> netChangeCount st - 1 < su_target su"

definition push_output :: "gen_params \<Rightarrow> int \<Rightarrow> 's gen \<Rightarrow> 's gen" where
  "push_output p sats st = st\<lparr>g_outputs := g_outputs st @
     [\<lparr>co_satoshis = sats, co_lockingScriptLength = gp_changeLockingScriptLength p\<rparr>]\<rparr>"

section \<open>Funding\<close>

function releaseAllocatedChangeInputs :: "'s allocator \<Rightarrow> 's gen \<Rightarrow> (gen_error + unit) \<times> 's gen" where
  "releaseAllocatedChangeInputs A st =
     (if g_inputs st = [] then (Inr (), st)
      else let i = last (g_inputs st); st' = st\<lparr>g_inputs := butlast (g_inputs st)\<rparr>
           in case al_release A (ci_outputId i) (g_store st') of
                (Inl e, s) \<Rightarrow> (Inl e, st'\<lparr>g_store := s\<rparr>)
              | (Inr _, s) \<Rightarrow> releaseAllocatedChangeInputs A (st'\<lparr>g_store := s\<rparr>))"
  by pat_completeness auto
termination by (relation "measure (\<lambda>(A, st). length (g_inputs st))") auto

declare releaseAllocatedChangeInputs.simps [simp del]

text \<open>The change outputs one would like to have, created up front.\<close>

function initial_outputs :: "gen_params \<Rightarrow> fee_setup \<Rightarrow> 's gen \<Rightarrow> 's gen" where
  "initial_outputs p su st =
     (if int (length (g_outputs st)) < su_maxOutputs su \<and>
        (su_hasTarget su \<and> netChangeCount st < su_target su \<or> g_outputs st = [] \<and> 0 < feeExcess p su st 0 0)
      then initial_outputs p su (push_output p
        (if g_outputs st = [] then max (su_dustFloor su) (gp_changeFirstSatoshis p)
         else max (su_dustFloor su) (gp_changeInitialSatoshis p)) st)
      else st)"
  by pat_completeness auto
termination by (relation "measure (\<lambda>(p, su, st). nat (su_maxOutputs su - int (length (g_outputs st))))")
    (auto simp: push_output_def)

declare initial_outputs.simps [simp del]

definition maybeAddChangeOutput :: "gen_params \<Rightarrow> fee_setup \<Rightarrow> bool \<Rightarrow> nat \<Rightarrow> 's gen \<Rightarrow> 's gen" where
  "maybeAddChangeOutput p su removingOutputs ao st =
     (if removingOutputs \<or> feeExcess p su st 0 0 \<le> 0 then st
      else if \<not> ((ao = 1 \<or> g_outputs st = []) \<and> int (length (g_outputs st)) < su_maxOutputs su) then st
      else let cap = (if g_outputs st = [] then gp_changeFirstSatoshis p else gp_changeInitialSatoshis p);
               satoshis = min (feeExcess p su st 0 0) (max (su_dustFloor su) cap)
           in if su_dustFloor su \<le> satoshis then push_output p satoshis st else st)"

definition attemptToFundTransaction ::
  "'s allocator \<Rightarrow> gen_params \<Rightarrow> fee_setup \<Rightarrow> bool \<Rightarrow> 's gen \<Rightarrow> (gen_error + bool) \<times> 's gen" where
  "attemptToFundTransaction A p su removingOutputs st =
     (if 0 < feeExcess p su st 0 0 then (Inr True, st)
      else let exact = (if \<not> su_hasTarget su \<and> g_outputs st = [] then Some (- feeExcess p su st 1 0) else None);
               ao = (if addOutputToBalanceNewInput su st then 1 else 0);
               changeBuffer = (if g_outputs st = [] \<and> ao = 0
                               then su_dustFloor su + feeTarget p su st 0 1 - feeTarget p su st 0 0 else 0);
               targetSatoshis = - feeExcess p su st 1 ao
                 + (if ao = 1 then 2 * gp_changeInitialSatoshis p else 0) + changeBuffer
           in case al_allocate A targetSatoshis exact (g_store st) of
                (Inl e, s) \<Rightarrow> (Inl e, st\<lparr>g_store := s\<rparr>)
              | (Inr None, s) \<Rightarrow> (Inr False, st\<lparr>g_store := s\<rparr>)
              | (Inr (Some c), s) \<Rightarrow>
                  (Inr True, maybeAddChangeOutput p su removingOutputs ao
                     (st\<lparr>g_store := s, g_inputs := g_inputs st @ [c]\<rparr>)))"

text \<open>The funding loop and, around it, the starvation loop. Both run on a bound; the theorems show that the
  number of free change inputs, and the number of change outputs, are bounds that are never exceeded.\<close>

primrec funding_loop ::
  "nat \<Rightarrow> 's allocator \<Rightarrow> gen_params \<Rightarrow> fee_setup \<Rightarrow> bool \<Rightarrow> 's gen \<Rightarrow> (gen_error + unit) \<times> 's gen" where
  "funding_loop 0 A p su removing st = (Inl Endless, st)"
| "funding_loop (Suc n) A p su removing st =
     (if 0 \<le> feeExcess p su st 0 0 then (Inr (), st)
      else case attemptToFundTransaction A p su removing st of
             (Inl e, st') \<Rightarrow> (Inl e, st')
           | (Inr ok, st') \<Rightarrow> if ok then funding_loop n A p su removing st' else (Inr (), st'))"

function drop_outputs :: "gen_params \<Rightarrow> fee_setup \<Rightarrow> 's gen \<Rightarrow> 's gen" where
  "drop_outputs p su st =
     (if g_outputs st \<noteq> [] \<and> feeExcess p su st 0 0 < 0
      then drop_outputs p su (st\<lparr>g_outputs := butlast (g_outputs st)\<rparr>) else st)"
  by pat_completeness auto
termination by (relation "measure (\<lambda>(p, su, st). length (g_outputs st))") auto

declare drop_outputs.simps [simp del]

primrec starvation_loop ::
  "nat \<Rightarrow> nat \<Rightarrow> 's allocator \<Rightarrow> gen_params \<Rightarrow> fee_setup \<Rightarrow> bool \<Rightarrow> 's gen \<Rightarrow> (gen_error + unit) \<times> 's gen" where
  "starvation_loop 0 m A p su removing st = (Inl Endless, st)"
| "starvation_loop (Suc n) m A p su removing st =
     (case releaseAllocatedChangeInputs A st of
        (Inl e, st1) \<Rightarrow> (Inl e, st1)
      | (Inr _, st1) \<Rightarrow>
          (case funding_loop m A p su removing st1 of
             (Inl e, st2) \<Rightarrow> (Inl e, st2)
           | (Inr _, st2) \<Rightarrow>
               if 0 \<le> feeExcess p su st2 0 0 \<or> g_outputs st2 = [] then (Inr (), st2)
               else let st3 = drop_outputs p su st2
                    in if feeExcess p su st3 0 0 < 0 then (Inr (), st3)
                       else starvation_loop n m A p su True
                              (st3\<lparr>g_outputs := removeChurnPairs (g_inputs st3) (g_outputs st3)\<rparr>)))"

definition fundTransaction ::
  "nat \<Rightarrow> 's allocator \<Rightarrow> gen_params \<Rightarrow> fee_setup \<Rightarrow> 's gen \<Rightarrow> (gen_error + unit) \<times> 's gen" where
  "fundTransaction n A p su st = starvation_loop n n A p su False st"

section \<open>The result\<close>

record gen_result =
  gr_allocatedChangeInputs :: "change_input list"
  gr_changeOutputs :: "change_output list"
  gr_size :: int
  gr_fee :: int
  gr_satsPerKb :: int
  gr_adjustment :: "(nat \<times> int) option"

text \<open>The three checks; \<open>r.size || 0\<close> and \<open>r.satsPerKb || 0\<close> are the values themselves.\<close>

definition validateGenerateChangeSdkResult :: "gen_params \<Rightarrow> change_output list \<Rightarrow> gen_result \<Rightarrow> bool" where
  "validateGenerateChangeSdkResult p fixedOutputs r =
     (let sumIn = sum_of fi_satoshis (gp_fixedInputs p) + sum_of ci_satoshis (gr_allocatedChangeInputs r);
          sumOut = sum_of co_satoshis fixedOutputs + sum_of co_satoshis (gr_changeOutputs r);
          feePaid = sumIn - sumOut;
          feeRequired = fee_of (gr_size r) (gr_satsPerKb r)
      in \<not> gr_fee r < 0 \<and> feePaid = gr_fee r \<and> feeRequired = gr_fee r)"

definition make_setup :: "gen_params \<Rightarrow> int \<Rightarrow> fee_setup" where
  "make_setup p minSpendTxSize =
     (let rate = (case gp_feeModel p of None \<Rightarrow> 0 | Some m \<Rightarrow> (case fm_value m of None \<Rightarrow> 0 | Some v \<Rightarrow> v));
          maxOut = (case gp_maxChangeOutputs p of None \<Rightarrow> maxChangeOutputsPerTransaction | Some m \<Rightarrow> m)
      in \<lparr>su_satsPerKb = rate, su_dustFloor = max 1 (fee_of minSpendTxSize rate * 2), su_maxOutputs = maxOut,
          su_hasTarget = (gp_targetNetCount p \<noteq> None),
          su_target = min (case gp_targetNetCount p of None \<Rightarrow> 0 | Some t \<Rightarrow> t) maxOut\<rparr>)"

text \<open>The one output of the largest possible amount gives up what is missing.\<close>

definition adjust_max_output ::
  "gen_params \<Rightarrow> fee_setup \<Rightarrow> nat option \<Rightarrow> 's gen \<Rightarrow> gen_error + (nat \<times> int) option \<times> 's gen" where
  "adjust_max_output p su hasMax st =
     (case hasMax of
        None \<Rightarrow> Inr (None, st)
      | Some i \<Rightarrow>
          if \<not> feeExcess p su st 0 0 < 0 then Inr (None, st)
          else if length (g_fixed st) \<le> i then Inl ChangeTypeError
          else if co_satoshis (g_fixed st ! i) \<noteq> maxPossibleSatoshis then Inl (InternalError [])
          else let x = add_sats (feeExcess p su st 0 0) (g_fixed st ! i)
               in Inr (Some (i, co_satoshis x), st\<lparr>g_fixed := (g_fixed st)[i := x]\<rparr>))"

definition release_and_throw ::
  "'s allocator \<Rightarrow> ('s gen \<Rightarrow> gen_error) \<Rightarrow> 's gen \<Rightarrow> (gen_error + gen_result) \<times> 's gen" where
  "release_and_throw A err st =
     (case releaseAllocatedChangeInputs A st of
        (Inl e, st') \<Rightarrow> (Inl e, st')
      | (Inr _, st') \<Rightarrow> (Inl (err st'), st'))"

definition finish_change ::
  "gen_params \<Rightarrow> fee_setup \<Rightarrow> (nat \<times> int) option \<Rightarrow> 's gen \<Rightarrow> (gen_error + gen_result) \<times> 's gen" where
  "finish_change p su adj st =
     (case distributeExcessFees (g_outputs st) (gp_changeInitialSatoshis p) (feeExcess p su st 0 0) (g_rng st) of
        (Inl e, g) \<Rightarrow> (Inl e, st\<lparr>g_rng := g\<rparr>)
      | (Inr (outs, excess), g) \<Rightarrow>
          let st' = st\<lparr>g_outputs := removeDustOutputs outs (su_dustFloor su), g_rng := g\<rparr>;
              r = \<lparr>gr_allocatedChangeInputs = g_inputs st', gr_changeOutputs = g_outputs st',
                   gr_size = tx_size p st' 0 0, gr_fee = funding p st' - spending st' - change_total st',
                   gr_satsPerKb = su_satsPerKb su, gr_adjustment = adj\<rparr>
          in if validateGenerateChangeSdkResult p (g_fixed st') r then (Inr r, st')
             else (Inl (InternalError ''generateChangeSdk error''), st'))"

definition settle_change ::
  "'s allocator \<Rightarrow> gen_params \<Rightarrow> fee_setup \<Rightarrow> (nat \<times> int) option \<Rightarrow> 's gen \<Rightarrow> (gen_error + gen_result) \<times> 's gen" where
  "settle_change A p su adj st =
     (if feeExcess p su st 0 0 < 0
      then release_and_throw A (\<lambda>_. InsufficientFunds (spending st + feeTarget p su st 0 0) (- feeExcess p su st 0 0)) st
      else if g_outputs st = [] \<and> 0 < feeExcess p su st 0 0
      then release_and_throw A (\<lambda>st'. InsufficientFunds (spending st' + feeTarget p su st' 0 0) (gp_changeFirstSatoshis p)) st
      else finish_change p su adj st)"

definition generateChangeSdk ::
  "nat \<Rightarrow> sdk_validation \<Rightarrow> 's allocator \<Rightarrow> gen_params \<Rightarrow> (nat \<Rightarrow> int list) \<Rightarrow> 's \<Rightarrow> (gen_error + gen_result) \<times> 's gen" where
  "generateChangeSdk n V A p0 random s =
     (let st0 = \<lparr>g_inputs = [], g_outputs = [], g_fixed = gp_fixedOutputs p0, g_store = s,
                 g_rng = \<lparr>rng_vals = gp_randomVals p0, rng_random = random, rng_count = 0\<rparr>\<rparr>
      in case validateGenerateChangeSdkParams V p0 of
           Inl e \<Rightarrow> (Inl e, st0)
         | Inr (hasMax, p) \<Rightarrow>
             (case transactionSize [gp_changeUnlockingScriptLength p] [gp_changeLockingScriptLength p] of
                Inl e \<Rightarrow> (Inl e, st0)
              | Inr minSpendTxSize \<Rightarrow>
                  let su = make_setup p minSpendTxSize
                  in case fundTransaction n A p su (initial_outputs p su st0) of
                       (Inl e, st) \<Rightarrow> (Inl e, st)
                     | (Inr _, st) \<Rightarrow>
                         (case adjust_max_output p su hasMax st of
                            Inl e \<Rightarrow> (Inl e, st)
                          | Inr (adj, st') \<Rightarrow> settle_change A p su adj st')))"

end
