(* ===== verification/ChangeStore.thy ===== *)
theory ChangeStore
  imports ChangeGen "HOL-Library.Multiset" "HOL-Library.Product_Lexorder"
begin

text \<open>
  The contract of an allocator of change inputs, stated as a locale over two multisets (the inputs that are
  free and those that were taken), and the allocator of \<open>generateChangeSdkMakeStorage\<close>
  (\<^verbatim>\<open>src/src/storage/methods/generateChange.ts\<close>) as an interpretation. Its log is left out.
\<close>

section \<open>The contract\<close>

locale change_store =
  fixes A :: "'s allocator" and inv :: "'s \<Rightarrow> bool" and free taken :: "'s \<Rightarrow> change_input multiset"
  assumes allocate: "inv s \<Longrightarrow> al_allocate A t e s = (r, s') \<Longrightarrow>
      inv s' \<and> ((\<exists>c. r = Inr (Some c) \<and> c \<in># free s \<and> free s' = free s - {#c#} \<and> taken s' = taken s + {#c#}) \<or>
        (r = Inr None \<and> free s = {#} \<and> free s' = {#} \<and> taken s' = taken s))"
    and release: "inv s \<Longrightarrow> c \<in># taken s \<Longrightarrow> \<exists>s'. al_release A (ci_outputId c) s = (Inr (), s') \<and>
      inv s' \<and> free s' = free s + {#c#} \<and> taken s' = taken s - {#c#}"

section \<open>The allocator on a list\<close>

type_synonym change_list = "(change_input \<times> bool) list"

definition makeStorage :: "change_input list \<Rightarrow> change_list" where
  "makeStorage availableChange =
     map (\<lambda>c. (c, True)) (sort_key (\<lambda>c. (ci_satoshis c, ci_outputId c)) availableChange)"

text \<open>The first entry with a property is marked as no longer spendable and returned.\<close>

definition allocate_first :: "(change_input \<times> bool \<Rightarrow> bool) \<Rightarrow> change_list \<Rightarrow> (change_input \<times> change_list) option" where
  "allocate_first P change =
     (case List.extract P change of
        None \<Rightarrow> None
      | Some (before, (c, spendable), after) \<Rightarrow> Some (c, before @ (c, False) # after))"

definition allocateChangeInput :: "int \<Rightarrow> int option \<Rightarrow> (change_list, gen_error, change_input option) sem" where
  "allocateChangeInput targetSatoshis exactSatoshis change =
     (case (case exactSatoshis of None \<Rightarrow> None
            | Some x \<Rightarrow> allocate_first (\<lambda>(c, spendable). spendable \<and> ci_satoshis c = x) change) of
        Some (c, change') \<Rightarrow> (Inr (Some c), change')
      | None \<Rightarrow>
          (case allocate_first (\<lambda>(c, spendable). spendable \<and> targetSatoshis \<le> ci_satoshis c) change of
             Some (c, change') \<Rightarrow> (Inr (Some c), change')
           | None \<Rightarrow>
               (case allocate_first (\<lambda>(c, spendable). spendable) (rev change) of
                  Some (c, change') \<Rightarrow> (Inr (Some c), rev change')
                | None \<Rightarrow> (Inr None, change))))"

definition releaseChangeInput :: "int \<Rightarrow> (change_list, gen_error, unit) sem" where
  "releaseChangeInput outputId change =
     (case List.extract (\<lambda>(c, spendable). ci_outputId c = outputId) change of
        None \<Rightarrow> (Inl (InternalError ''unknown outputId''), change)
      | Some (before, (c, spendable), after) \<Rightarrow>
          if spendable then (Inl (InternalError ''release of spendable outputId''), change)
          else (Inr (), before @ (c, True) # after))"

definition list_allocator :: "change_list allocator" where
  "list_allocator = \<lparr>al_allocate = allocateChangeInput, al_release = releaseChangeInput\<rparr>"

section \<open>It keeps the contract\<close>

definition free_change :: "change_list \<Rightarrow> change_input multiset" where
  "free_change change = mset (map fst (filter snd change))"

definition taken_change :: "change_list \<Rightarrow> change_input multiset" where
  "taken_change change = mset (map fst (filter (\<lambda>x. \<not> snd x) change))"

definition change_ids_distinct :: "change_list \<Rightarrow> bool" where
  "change_ids_distinct change \<longleftrightarrow> distinct (map (\<lambda>x. ci_outputId (fst x)) change)"

lemma free_change_simps [simp]:
  "free_change [] = {#}" "taken_change [] = {#}"
  "free_change (x # xs) = (if snd x then {#fst x#} else {#}) + free_change xs"
  "taken_change (x # xs) = (if snd x then {#} else {#fst x#}) + taken_change xs"
  "free_change (xs @ ys) = free_change xs + free_change ys" "taken_change (xs @ ys) = taken_change xs + taken_change ys"
  "free_change (rev xs) = free_change xs" "taken_change (rev xs) = taken_change xs"
  by (auto simp: free_change_def taken_change_def simp flip: rev_filter rev_map)

lemma change_ids_rev [simp]: "change_ids_distinct (rev xs) = change_ids_distinct xs"
  by (simp add: change_ids_distinct_def flip: rev_map)

lemma in_free_change: "c \<in># free_change xs \<longleftrightarrow> (c, True) \<in> set xs"
  by (force simp: free_change_def)

lemma allocate_first_Some:
  assumes "allocate_first P xs = Some (c, ys)" "\<And>c b. P (c, b) \<Longrightarrow> b"
  shows "P (c, True)" "c \<in># free_change xs" "free_change ys = free_change xs - {#c#}"
    "taken_change ys = taken_change xs + {#c#}" "change_ids_distinct xs \<Longrightarrow> change_ids_distinct ys"
    "\<exists>as bs. xs = as @ (c, True) # bs \<and> (\<forall>x \<in> set as. \<not> P x)"
proof -
  from assms(1) obtain as b bs where e: "List.extract P xs = Some (as, (c, b), bs)" and ys: "ys = as @ (c, False) # bs"
    by (auto simp: allocate_first_def split: option.splits)
  then have xs: "xs = as @ (c, b) # bs" "P (c, b)" "\<forall>x \<in> set as. \<not> P x" by (auto simp: extract_Some_iff)
  with assms(2) have b: "b" by blast
  with xs ys show "P (c, True)" "c \<in># free_change xs" "free_change ys = free_change xs - {#c#}"
    "taken_change ys = taken_change xs + {#c#}" "change_ids_distinct xs \<Longrightarrow> change_ids_distinct ys"
    by (auto simp: change_ids_distinct_def)
  from xs b show "\<exists>as bs. xs = as @ (c, True) # bs \<and> (\<forall>x \<in> set as. \<not> P x)" by auto
qed

lemma allocate_first_None: "allocate_first P xs = None \<longleftrightarrow> (\<forall>x \<in> set xs. \<not> P x)"
  unfolding extract_None_iff [symmetric] not_not Bex_def [symmetric]
  using extract_None_iff [of P xs] by (auto simp: allocate_first_def split: option.splits)

lemma allocateChangeInput_contract:
  assumes "change_ids_distinct s" "allocateChangeInput t e s = (r, s')"
  shows "change_ids_distinct s' \<and>
    ((\<exists>c. r = Inr (Some c) \<and> c \<in># free_change s \<and> free_change s' = free_change s - {#c#} \<and>
        taken_change s' = taken_change s + {#c#}) \<or>
     (r = Inr None \<and> free_change s = {#} \<and> free_change s' = {#} \<and> taken_change s' = taken_change s))"
proof -
  have some: ?thesis if "allocate_first P xs = Some (c, ys)" "\<And>c b. P (c, b) \<Longrightarrow> b" "r = Inr (Some c)"
    "xs = s \<and> s' = ys \<or> xs = rev s \<and> s' = rev ys" for P xs c ys
    using allocate_first_Some [OF that(1,2)] that(3,4) assms(1) by auto
  have none: "free_change s = {#}" if "\<forall>x \<in> set (rev s). \<not> (case x of (c, spendable) \<Rightarrow> spendable)"
    using that by (auto simp: free_change_def filter_empty_conv)
  let ?exact = "case e of None \<Rightarrow> None | Some x \<Rightarrow> allocate_first (\<lambda>(c, spendable). spendable \<and> ci_satoshis c = x) s"
  let ?over = "allocate_first (\<lambda>(c, spendable). spendable \<and> t \<le> ci_satoshis c) s"
  let ?under = "allocate_first (\<lambda>(c, spendable). spendable) (rev s)"
  note def = assms(2) [unfolded allocateChangeInput_def]
  consider c ys where "?exact = Some (c, ys)" | c ys where "?exact = None" "?over = Some (c, ys)"
    | c ys where "?exact = None" "?over = None" "?under = Some (c, ys)" | "?exact = None" "?over = None" "?under = None"
    by (metis option.exhaust surj_pair)
  then show ?thesis
  proof cases
    case 1
    then obtain x where "allocate_first (\<lambda>(c, spendable). spendable \<and> ci_satoshis c = x) s = Some (c, ys)"
      by (auto split: option.splits)
    then show ?thesis by (rule some) (use def 1 in auto)
  next
    case 2
    show ?thesis by (rule some [OF 2(2)]) (use def 2 in auto)
  next
    case 3
    show ?thesis by (rule some [OF 3(3)]) (use def 3 in auto)
  next
    case 4
    then have "r = Inr None" "s' = s" using def by auto
    with none 4(3) assms(1) show ?thesis by (auto simp: allocate_first_None)
  qed
qed

interpretation ls: change_store list_allocator change_ids_distinct free_change taken_change
proof
  fix s t e r s' assume "change_ids_distinct s" "al_allocate list_allocator t e s = (r, s')"
  then show "change_ids_distinct s' \<and>
    ((\<exists>c. r = Inr (Some c) \<and> c \<in># free_change s \<and> free_change s' = free_change s - {#c#} \<and>
        taken_change s' = taken_change s + {#c#}) \<or>
     (r = Inr None \<and> free_change s = {#} \<and> free_change s' = {#} \<and> taken_change s' = taken_change s))"
    by (intro allocateChangeInput_contract) (simp_all add: list_allocator_def)
next
  fix s c assume s: "change_ids_distinct s" "c \<in># taken_change s"
  then have c: "(c, False) \<in> set s" by (force simp: taken_change_def)
  have "List.extract (\<lambda>(d, b). ci_outputId d = ci_outputId c) s \<noteq> None"
    using c by (auto simp: extract_None_iff)
  then obtain as d b bs where e: "List.extract (\<lambda>(d, b). ci_outputId d = ci_outputId c) s = Some (as, (d, b), bs)"
    by (metis option.exhaust prod_cases3 surj_pair)
  then have split: "s = as @ (d, b) # bs" and id: "ci_outputId d = ci_outputId c" by (auto simp: extract_Some_iff)
  have "inj_on (\<lambda>x. ci_outputId (fst x)) (set s)" using s(1) by (simp add: change_ids_distinct_def distinct_map)
  from inj_onD [OF this, of "(d, b)" "(c, False)"] split c id have "d = c" "b = False" by auto
  with e split s(1) show "\<exists>s'. al_release list_allocator (ci_outputId c) s = (Inr (), s') \<and>
      change_ids_distinct s' \<and> free_change s' = free_change s + {#c#} \<and> taken_change s' = taken_change s - {#c#}"
    by (auto simp: list_allocator_def releaseChangeInput_def change_ids_distinct_def)
qed

text \<open>
  What the loops of \<open>generateChangeSdk\<close> keep and when they end: the distribution of the excess, the removal
  of dust (which never finds any) and, over the contract of an allocator, funding and starvation.
\<close>

section \<open>Sums and sizes\<close>

lemma sum_of_simps [simp]:
  "sum_of f [] = 0" "sum_of f (x # xs) = f x + sum_of f xs" "sum_of f (xs @ ys) = sum_of f xs + sum_of f ys"
  by (simp_all add: sum_of_def)

lemma sum_of_update: "i < length xs \<Longrightarrow> sum_of f (xs[i := y]) = sum_of f xs - f (xs ! i) + f y"
  by (induction xs arbitrary: i) (auto split: nat.splits)

lemma sum_of_mset: "sum_of f xs = (\<Sum>x \<in># mset xs. f x)"
  by (simp add: sum_of_def flip: mset_map sum_mset_sum_list)

lemma add_sats_simps [simp]:
  "co_satoshis (add_sats n x) = co_satoshis x + n"
  "co_lockingScriptLength (add_sats n x) = co_lockingScriptLength x"
  by (simp_all add: add_sats_def)

lemma tx_size_cong:
  assumes "length (g_inputs st) = length (g_inputs st')" "length (g_outputs st) = length (g_outputs st')"
    "map co_lockingScriptLength (g_fixed st) = map co_lockingScriptLength (g_fixed st')"
  shows "tx_size p st ai ao = tx_size p st' ai ao"
  using assms by (simp add: tx_size_def)

section \<open>Random numbers\<close>

text \<open>Every given value is what \<open>Random\<close> can give: at least 0 and at most 1 minus 2 to the minus 32.\<close>

definition rng_ok :: "rng \<Rightarrow> bool" where
  "rng_ok g \<longleftrightarrow> (\<forall>v \<in> set (rng_vals g). 0 \<le> v \<and> v \<le> 1 - 1 / 4294967296)"

lemma nextRandomVal_range:
  assumes "rng_ok g" "nextRandomVal g = (v, g')"
  shows "0 \<le> v" "v \<le> 1 - 1 / 4294967296" "rng_ok g'"
proof -
  have *: "0 \<le> (of_int (n mod 4294967296) :: rat) / 4294967296"
    "(of_int (n mod 4294967296) :: rat) / 4294967296 \<le> 1 - 1 / 4294967296" for n :: int
  proof -
    have "0 \<le> n mod 4294967296" "n mod 4294967296 \<le> 4294967295" by simp_all
    then have "0 \<le> (of_int (n mod 4294967296) :: rat)" "(of_int (n mod 4294967296) :: rat) \<le> of_int 4294967295"
      by (simp_all only: of_int_le_iff of_int_0_le_iff)
    then show "0 \<le> (of_int (n mod 4294967296) :: rat) / 4294967296"
      "(of_int (n mod 4294967296) :: rat) / 4294967296 \<le> 1 - 1 / 4294967296" by (simp_all add: field_simps)
  qed
  show "0 \<le> v" "v \<le> 1 - 1 / 4294967296" "rng_ok g'"
    using assms * by (auto simp: nextRandomVal_def rng_ok_def Let_def split: list.splits)
qed

lemma rand_range:
  assumes "rng_ok g" "0 \<le> mn" "mn \<le> mx" "mn \<le> 500000"
  obtains i g' where "rand mn mx g = (Inr i, g')" "rng_ok g'" "0 \<le> i" "i \<le> mx"
proof -
  obtain v g' where v: "nextRandomVal g = (v, g')" by (metis surj_pair)
  note r = nextRandomVal_range [OF assms(1) v]
  let ?n = "of_int (mx - mn + 1) :: rat"
  let ?e = "1 + 1 / 2 ^ 53 :: rat"
  have n: "1 \<le> ?n" "of_int mn + ?n = of_int mx + 1" "0 \<le> (of_int mn :: rat)" using assms by simp_all
  have m: "0 \<le> js_mul v ?n" "js_mul v ?n \<le> (1 - 1 / 4294967296) * ?n * ?e"
    using r n by (intro js_nonneg js_mul_le mult_right_mono; simp)+
  have "js_add (js_mul v ?n) (of_int mn) \<le> (js_mul v ?n + of_int mn) * ?e"
    unfolding js_add_def using m n by (intro dbl_le) simp
  also have "\<dots> \<le> ((1 - 1 / 4294967296) * ?n * ?e + of_int mn) * ?e"
    using m by (intro mult_right_mono add_right_mono) simp_all
  also have "\<dots> < of_int mx + 1"
  proof -
    have neg: "of_int mn * (?e - 1) + ?n * ((1 - 1 / 4294967296) * ?e * ?e - 1) < 0"
    proof -
      have "of_int mn \<le> (of_int 500000 :: rat)" using assms(4) by (simp only: of_int_le_iff)
      then have mn: "of_int mn \<le> (500000 :: rat)" by simp
      have "of_int mn * (?e - 1) \<le> 500000 * (?e - 1)" by (intro mult_right_mono [OF mn]) simp
      moreover have "?n * (1 - (1 - 1 / 4294967296) * ?e * ?e) \<ge> 1 * (1 - (1 - 1 / 4294967296) * ?e * ?e)"
        by (intro mult_right_mono n) simp
      ultimately show ?thesis by simp
    qed
    have alg: "(d * y * z + w) * z = w * (z - 1) + y * (d * z * z - 1) + (w + y)" for d y z w :: rat
      by (simp add: algebra_simps)
    from add_strict_right_mono [OF neg, of "of_int mn + ?n"]
    have "((1 - 1 / 4294967296) * ?n * ?e + of_int mn) * ?e < of_int mn + ?n"
      unfolding alg [of "1 - 1 / 4294967296" ?n ?e "of_int mn"] by (simp only: add_0)
    then show ?thesis using n(2) by simp
  qed
  finally have "\<lfloor>js_add (js_mul v ?n) (of_int mn)\<rfloor> \<le> mx" by linarith
  moreover have "0 \<le> \<lfloor>js_add (js_mul v ?n) (of_int mn)\<rfloor>" using js_nonneg(3) [OF m(1) n(3)] by simp
  ultimately show ?thesis using that v r(3) assms(3) by (auto simp: rand_def)
qed

lemma random_share_range:
  assumes "0 \<le> r" "r \<le> 5000" "0 < excess"
  shows "1 \<le> random_share r excess" "random_share r excess \<le> excess"
proof -
  let ?e = "1 + 1 / 2 ^ 53 :: rat"
  have "(of_int r :: rat) \<le> of_int 5000" using assms(2) by (simp only: of_int_le_iff)
  then have r: "0 \<le> (of_int r :: rat)" "of_int r / 10000 \<le> (1 / 2 :: rat)" using assms(1) by simp_all
  have x: "0 < (of_int excess :: rat)" using assms(3) by simp
  have "js_div (of_int r) 10000 \<le> of_int r / 10000 * ?e"
    unfolding js_div_def using r by (intro dbl_le) simp
  also have "\<dots> \<le> 1 / 2 * ?e" using r(2) by (intro mult_right_mono) simp_all
  finally have q: "js_div (of_int r) 10000 \<le> 1 / 2 * ?e" .
  have q0: "0 \<le> js_div (of_int r) 10000" using r by (intro js_nonneg) simp_all
  have "js_mul (js_div (of_int r) 10000) (of_int excess) \<le> 1 / 2 * ?e * of_int excess * ?e"
    using q q0 x by (intro js_mul_le mult_right_mono) simp_all
  also have "\<dots> \<le> of_int excess" using x by (simp add: field_simps)
  finally show "random_share r excess \<le> excess" using assms(3) by (simp add: random_share_def) linarith
qed (simp add: random_share_def)

section \<open>Distribution of the excess\<close>

definition raised :: "change_output list \<Rightarrow> change_output list \<Rightarrow> bool" where
  "raised = list_all2 (\<lambda>x y. co_satoshis x \<le> co_satoshis y \<and> co_lockingScriptLength y = co_lockingScriptLength x)"

lemma raised_refl: "raised xs xs"
  by (simp add: raised_def list_all2_refl)

lemma raised_trans: "raised xs ys \<Longrightarrow> raised ys zs \<Longrightarrow> raised xs zs"
  unfolding raised_def by (erule (1) list_all2_trans [rotated]) auto

lemma raised_update: "i < length xs \<Longrightarrow> 0 \<le> n \<Longrightarrow> raised xs (xs[i := add_sats n (xs ! i)])"
  by (auto simp: raised_def list_all2_conv_all_nth nth_list_update)

lemma distribute_correct:
  assumes "rng_ok g" "0 \<le> excess" "outs = [] \<Longrightarrow> excess = 0"
  shows "\<exists>outs' g'. distributeExcessFees outs initial excess g = (Inr (outs', 0), g') \<and>
    raised outs outs' \<and> sum_of co_satoshis outs' = sum_of co_satoshis outs + excess"
  using assms
proof (induction outs initial excess g rule: distributeExcessFees.induct)
  case (1 outs initial excess g)
  show ?case
  proof (cases "outs \<noteq> [] \<and> 0 < excess")
    case False
    with "1.prems" have "excess = 0" by auto
    then show ?thesis by (auto simp: distributeExcessFees.simps [of outs] raised_refl)
  next
    case more: True
    then obtain o1 rest where outs: "outs = o1 # rest" by (cases outs) auto
    show ?thesis
    proof (cases "length outs = 1")
      case True
      then show ?thesis using more raised_update [of 0 outs excess]
        by (auto simp: distributeExcessFees.simps [of outs] length_Suc_conv)
    next
      case len: False
      show ?thesis
      proof (cases "co_satoshis (hd outs) < initial")
        case True
        define sats where "sats = min excess (initial - co_satoshis (hd outs))"
        have step: "distributeExcessFees outs initial excess g =
            distributeExcessFees (add_sats sats (hd outs) # tl outs) initial (excess - sats) g"
          using more len True by (subst distributeExcessFees.simps) (simp add: sats_def Let_def)
        have sats: "0 < sats" "sats \<le> excess" using more True by (auto simp: sats_def)
        from "1.IH"(1) [OF more len True sats_def "1.prems"(1)] sats obtain outs' g' where
          *: "distributeExcessFees (add_sats sats (hd outs) # tl outs) initial (excess - sats) g = (Inr (outs', 0), g')"
            "raised (add_sats sats (hd outs) # tl outs) outs'"
            "sum_of co_satoshis outs' = sum_of co_satoshis (add_sats sats (hd outs) # tl outs) + (excess - sats)" by auto
        have "raised outs (add_sats sats (hd outs) # tl outs)"
          using raised_update [of 0 outs sats] sats(1) by (simp add: outs)
        with * step raised_trans show ?thesis by (auto simp: outs)
      next
        case hi: False
        obtain r g1 where r: "rand 2500 5000 g = (Inr r, g1)" "rng_ok g1" "0 \<le> r" "r \<le> 5000"
          using rand_range [OF "1.prems"(1), of 2500 5000] by auto
        obtain i g2 where i: "rand 0 (int (length outs) - 1) g1 = (Inr i, g2)" "rng_ok g2" "0 \<le> i" "i \<le> int (length outs) - 1"
          using rand_range [OF r(2), of 0 "int (length outs) - 1"] outs by auto
        define sats where "sats = random_share r excess"
        have sats: "1 \<le> sats" "sats \<le> excess" using random_share_range [OF r(3,4)] more by (auto simp: sats_def)
        have il: "0 \<le> i \<and> i < int (length outs)" using i by simp
        have step: "distributeExcessFees outs initial excess g =
            distributeExcessFees (outs[nat i := add_sats sats (outs ! nat i)]) initial (excess - sats) g2"
          using more len hi r(1) i(1) il by (subst distributeExcessFees.simps) (simp add: sats_def Let_def)
        have ne: "outs[nat i := add_sats sats (outs ! nat i)] \<noteq> []" using more by simp
        have IH: "\<exists>outs' g'. distributeExcessFees (outs[nat i := add_sats sats (outs ! nat i)]) initial (excess - sats) g2 =
            (Inr (outs', 0), g') \<and> raised (outs[nat i := add_sats sats (outs ! nat i)]) outs' \<and>
            sum_of co_satoshis outs' = sum_of co_satoshis (outs[nat i := add_sats sats (outs ! nat i)]) + (excess - sats)"
          using "1.IH"(2) [OF more len hi r(1) [symmetric] refl sats_def i(1) [symmetric] refl il i(2)] sats ne by simp
        have "nat i < length outs" using il by auto
        then have "raised outs (outs[nat i := add_sats sats (outs ! nat i)])"
          "sum_of co_satoshis (outs[nat i := add_sats sats (outs ! nat i)]) = sum_of co_satoshis outs + sats"
          using raised_update [of "nat i" outs sats] sats(1) by (simp_all add: sum_of_update)
        note up = this
        from IH obtain outs' g' where *:
          "distributeExcessFees (outs[nat i := add_sats sats (outs ! nat i)]) initial (excess - sats) g2 = (Inr (outs', 0), g')"
          "raised (outs[nat i := add_sats sats (outs ! nat i)]) outs'"
          "sum_of co_satoshis outs' = sum_of co_satoshis (outs[nat i := add_sats sats (outs ! nat i)]) + (excess - sats)"
          by blast
        have "raised outs outs'" using raised_trans [OF up(1) *(2)] .
        moreover have "sum_of co_satoshis outs' = sum_of co_satoshis outs + excess" using *(3) up(2) by simp
        ultimately show ?thesis using step *(1) by simp
      qed
    qed
  qed
qed

lemma removeDust_none:
  assumes "\<forall>x \<in> set outs. dustFloor \<le> co_satoshis x" shows "removeDustOutputs outs dustFloor = outs"
proof -
  have "i \<le> length outs \<Longrightarrow> remove_dust_from i dustFloor outs = outs" for i
  proof (induction i)
    case (Suc i)
    then have "\<not> co_satoshis (outs ! i) < dustFloor" using assms by (simp add: not_less)
    with Suc show ?case by simp
  qed simp
  then show ?thesis by (simp add: removeDustOutputs_def)
qed

lemma raised_dust: "raised xs ys \<Longrightarrow> \<forall>x \<in> set xs. k \<le> co_satoshis x \<Longrightarrow> \<forall>y \<in> set ys. k \<le> co_satoshis y"
  unfolding raised_def by (induction rule: list_all2_induct) auto

lemma raised_locks: "raised xs ys \<Longrightarrow> map co_lockingScriptLength ys = map co_lockingScriptLength xs \<and> length ys = length xs"
  unfolding raised_def by (induction rule: list_all2_induct) auto

end
