(* ===== verification/ChangeFund.thy ===== *)
theory ChangeFund
  imports ChangeStore
begin

text \<open>
  Funding and starvation over the contract of an allocator: the change inputs that are free and those the
  transaction holds always make up the pool that was free at the start, no loop runs out of its bound, and at
  the end the transaction is paid for, or it holds the whole pool and no change output is left.
\<close>

section \<open>Change outputs\<close>

definition outputs_ok :: "gen_params \<Rightarrow> fee_setup \<Rightarrow> change_output list \<Rightarrow> bool" where
  "outputs_ok p su outs \<longleftrightarrow> int (length outs) \<le> max 0 (su_maxOutputs su) \<and>
     (\<forall>x \<in> set outs. su_dustFloor su \<le> co_satoshis x \<and> co_lockingScriptLength x = gp_changeLockingScriptLength p)"

lemma outputs_ok_Nil [simp]: "outputs_ok p su []"
  by (simp add: outputs_ok_def)

lemma outputs_ok_take: "outputs_ok p su outs \<Longrightarrow> outputs_ok p su (take k outs)"
  by (auto simp: outputs_ok_def dest: in_set_takeD)

lemma push_output_simps [simp]:
  "g_inputs (push_output p n st) = g_inputs st" "g_fixed (push_output p n st) = g_fixed st"
  "g_store (push_output p n st) = g_store st" "g_rng (push_output p n st) = g_rng st"
  by (simp_all add: push_output_def)

lemma outputs_ok_push:
  "outputs_ok p su (g_outputs st) \<Longrightarrow> int (length (g_outputs st)) < su_maxOutputs su \<Longrightarrow> su_dustFloor su \<le> n \<Longrightarrow>
   outputs_ok p su (g_outputs (push_output p n st))"
  by (auto simp: outputs_ok_def push_output_def)

lemma maybeAdd_cases:
  obtains "maybeAddChangeOutput p su removing ao st = st"
  | n where "maybeAddChangeOutput p su removing ao st = push_output p n st" "\<not> removing" "su_dustFloor su \<le> n"
      "int (length (g_outputs st)) < su_maxOutputs su"
  unfolding maybeAddChangeOutput_def Let_def by (metis (no_types, lifting))

lemma maybeAdd_correct:
  "outputs_ok p su (g_outputs st) \<Longrightarrow> outputs_ok p su (g_outputs (maybeAddChangeOutput p su removing ao st))"
  "removing \<Longrightarrow> maybeAddChangeOutput p su removing ao st = st"
  "g_inputs (maybeAddChangeOutput p su removing ao st) = g_inputs st"
  "g_fixed (maybeAddChangeOutput p su removing ao st) = g_fixed st"
  "g_store (maybeAddChangeOutput p su removing ao st) = g_store st"
  "g_rng (maybeAddChangeOutput p su removing ao st) = g_rng st"
  by (cases rule: maybeAdd_cases [of p su removing ao st]; auto intro: outputs_ok_push)+

lemma initial_outputs_correct:
  "outputs_ok p su (g_outputs st) \<Longrightarrow> outputs_ok p su (g_outputs (initial_outputs p su st)) \<and>
   g_inputs (initial_outputs p su st) = g_inputs st \<and> g_fixed (initial_outputs p su st) = g_fixed st \<and>
   g_store (initial_outputs p su st) = g_store st \<and> g_rng (initial_outputs p su st) = g_rng st"
proof (induction p su st rule: initial_outputs.induct)
  case (1 p su st)
  let ?c = "int (length (g_outputs st)) < su_maxOutputs su \<and>
    (su_hasTarget su \<and> netChangeCount st < su_target su \<or> g_outputs st = [] \<and> 0 < feeExcess p su st 0 0)"
  let ?n = "if g_outputs st = [] then max (su_dustFloor su) (gp_changeFirstSatoshis p)
    else max (su_dustFloor su) (gp_changeInitialSatoshis p)"
  show ?case
  proof (cases ?c)
    case True
    then have "initial_outputs p su st = initial_outputs p su (push_output p ?n st)"
      by (subst initial_outputs.simps) simp
    moreover have "outputs_ok p su (g_outputs (push_output p ?n st))"
      using True "1.prems" by (intro outputs_ok_push) auto
    ultimately show ?thesis using "1.IH" [OF True] by simp
  next
    case False
    have "initial_outputs p su st = st" unfolding initial_outputs.simps [of p su st] by (rule if_not_P [OF False])
    with "1.prems" show ?thesis by simp
  qed
qed

lemma removeChurnPairs_take: "\<exists>k. removeChurnPairs ins outs = take k outs"
proof (induction ins outs rule: removeChurnPairs.induct)
  case (1 ins outs)
  have all: "\<exists>k. outs = take k outs" by (metis take_all_iff order_refl)
  show ?case
  proof (cases "1 < length ins \<and> 1 < length outs")
    case True
    show ?thesis
    proof (cases "List.extract (\<lambda>ci. ci_satoshis ci \<le> co_satoshis (last outs)) ins")
      case None
      with True all show ?thesis by (subst removeChurnPairs.simps) simp
    next
      case (Some r)
      then obtain a c b where r: "r = (a, c, b)" by (cases r) auto
      from "1.IH" [OF True Some r [symmetric] refl] obtain k where "removeChurnPairs (a @ b) (butlast outs) = take k (butlast outs)" by auto
      with True Some r show ?thesis
        by (subst removeChurnPairs.simps) (auto simp: butlast_conv_take)
    qed
  next
    case False
    with all show ?thesis by (subst removeChurnPairs.simps) auto
  qed
qed

lemma drop_outputs_correct:
  "\<exists>k. drop_outputs p su st = st\<lparr>g_outputs := take k (g_outputs st)\<rparr> \<and>
     (feeExcess p su st 0 0 < 0 \<and> g_outputs st \<noteq> [] \<longrightarrow> k < length (g_outputs st)) \<and>
     (feeExcess p su (drop_outputs p su st) 0 0 < 0 \<longrightarrow> g_outputs (drop_outputs p su st) = [])"
proof (induction p su st rule: drop_outputs.induct)
  case (1 p su st)
  show ?case
  proof (cases "g_outputs st \<noteq> [] \<and> feeExcess p su st 0 0 < 0")
    case True
    let ?st = "st\<lparr>g_outputs := butlast (g_outputs st)\<rparr>"
    have step: "drop_outputs p su st = drop_outputs p su ?st" using True by (subst drop_outputs.simps) simp
    from "1.IH" [OF True] obtain k where k: "drop_outputs p su ?st = ?st\<lparr>g_outputs := take k (g_outputs ?st)\<rparr>"
      "feeExcess p su (drop_outputs p su ?st) 0 0 < 0 \<longrightarrow> g_outputs (drop_outputs p su ?st) = []" by blast
    let ?k = "min k (length (g_outputs st) - 1)"
    have "drop_outputs p su st = st\<lparr>g_outputs := take ?k (g_outputs st)\<rparr>"
      unfolding step k(1) by (simp add: butlast_conv_take min_def)
    moreover have "?k < length (g_outputs st)" using True by (cases "g_outputs st") auto
    ultimately have "drop_outputs p su st = st\<lparr>g_outputs := take ?k (g_outputs st)\<rparr>" "?k < length (g_outputs st)" .
    then show ?thesis using k(2) step by metis
  next
    case False
    have "drop_outputs p su st = st" unfolding drop_outputs.simps [of p su st] by (rule if_not_P [OF False])
    with False show ?thesis by (intro exI [of _ "length (g_outputs st)"]) auto
  qed
qed

section \<open>Over the contract of an allocator\<close>

context change_store
begin

definition keeps :: "change_input multiset \<Rightarrow> 's gen \<Rightarrow> bool" where
  "keeps pool st \<longleftrightarrow> inv (g_store st) \<and> free (g_store st) + mset (g_inputs st) = pool \<and>
     mset (g_inputs st) \<subseteq># taken (g_store st)"

lemma keeps_outputs [simp]: "keeps pool (st\<lparr>g_outputs := x\<rparr>) = keeps pool st"
  by (simp add: keeps_def)

lemma keeps_start: "inv s \<Longrightarrow> g_store st = s \<Longrightarrow> g_inputs st = [] \<Longrightarrow> keeps (free s) st"
  by (simp add: keeps_def)

lemma release_all:
  "keeps pool st \<Longrightarrow> \<exists>s. releaseAllocatedChangeInputs A st = (Inr (), st\<lparr>g_inputs := [], g_store := s\<rparr>) \<and>
     keeps pool (st\<lparr>g_inputs := [], g_store := s\<rparr>) \<and> free s = pool"
proof (induction "length (g_inputs st)" arbitrary: st)
  case 0
  then have "releaseAllocatedChangeInputs A st = (Inr (), st\<lparr>g_inputs := [], g_store := g_store st\<rparr>)"
    by (subst releaseAllocatedChangeInputs.simps) simp
  with 0 show ?case by (intro exI [of _ "g_store st"]) (auto simp: keeps_def)
next
  case (Suc n)
  then obtain xs c where split: "g_inputs st = xs @ [c]" by (metis length_Suc_conv_rev)
  with Suc.prems have k: "inv (g_store st)" "c \<in># taken (g_store st)" "free (g_store st) + mset xs + {#c#} = pool"
      "mset xs + {#c#} \<subseteq># taken (g_store st)" by (auto simp: keeps_def intro: mset_subset_eqD)
  from release [OF k(1,2)] obtain s where s: "al_release A (ci_outputId c) (g_store st) = (Inr (), s)"
      "inv s" "free s = free (g_store st) + {#c#}" "taken s = taken (g_store st) - {#c#}" by blast
  let ?st = "st\<lparr>g_inputs := xs, g_store := s\<rparr>"
  have "keeps pool ?st" using s k(3,4) by (auto simp: keeps_def insert_subset_eq_iff)
  moreover have "n = length (g_inputs ?st)" using Suc.hyps(2) split by simp
  ultimately obtain s' where s': "releaseAllocatedChangeInputs A ?st = (Inr (), ?st\<lparr>g_inputs := [], g_store := s'\<rparr>)"
      "keeps pool (?st\<lparr>g_inputs := [], g_store := s'\<rparr>)" "free s' = pool" using Suc.hyps(1) by blast
  have "releaseAllocatedChangeInputs A st = releaseAllocatedChangeInputs A ?st"
    using split s(1) by (subst releaseAllocatedChangeInputs.simps) (simp add: Let_def)
  with s' show ?case by auto
qed

lemma attempt_cases:
  assumes "keeps pool st" "feeExcess p su st 0 0 < 0"
  obtains s where "attemptToFundTransaction A p su removing st = (Inr False, st\<lparr>g_store := s\<rparr>)"
      "keeps pool (st\<lparr>g_store := s\<rparr>)" "free s = {#}"
  | c s ao where "attemptToFundTransaction A p su removing st =
        (Inr True, maybeAddChangeOutput p su removing ao (st\<lparr>g_store := s, g_inputs := g_inputs st @ [c]\<rparr>))"
      "keeps pool (st\<lparr>g_store := s, g_inputs := g_inputs st @ [c]\<rparr>)" "size (free s) < size (free (g_store st))"
proof -
  define exact where "exact = (if \<not> su_hasTarget su \<and> g_outputs st = [] then Some (- feeExcess p su st 1 0) else None)"
  define ao :: nat where "ao = (if addOutputToBalanceNewInput su st then 1 else 0)"
  define changeBuffer where "changeBuffer = (if g_outputs st = [] \<and> ao = 0
                               then su_dustFloor su + feeTarget p su st 0 1 - feeTarget p su st 0 0 else 0)"
  define target where "target = - feeExcess p su st 1 ao
                 + (if ao = 1 then 2 * gp_changeInitialSatoshis p else 0) + changeBuffer"
  obtain r s where al: "al_allocate A target exact (g_store st) = (r, s)" by (metis surj_pair)
  have eq: "attemptToFundTransaction A p su removing st =
      (case (r, s) of (Inl e, s) \<Rightarrow> (Inl e, st\<lparr>g_store := s\<rparr>)
              | (Inr None, s) \<Rightarrow> (Inr False, st\<lparr>g_store := s\<rparr>)
              | (Inr (Some c), s) \<Rightarrow>
                  (Inr True, maybeAddChangeOutput p su removing ao
                     (st\<lparr>g_store := s, g_inputs := g_inputs st @ [c]\<rparr>)))"
  proof -
    have "(0 < feeExcess p su st 0 0) = False" using assms(2) by simp
    then show ?thesis unfolding attemptToFundTransaction_def al [symmetric] Let_def
      target_def changeBuffer_def ao_def exact_def by (simp only: if_False)
  qed
  from assms(1) have inv: "inv (g_store st)" by (simp add: keeps_def)
  note a = allocate [OF inv al]
  then consider c where "r = Inr (Some c)" "c \<in># free (g_store st)" "free s = free (g_store st) - {#c#}"
      "taken s = taken (g_store st) + {#c#}" | "r = Inr None" "free (g_store st) = {#}" "free s = {#}" "taken s = taken (g_store st)"
    by blast
  then show ?thesis
  proof cases
    case 1
    have "keeps pool (st\<lparr>g_store := s, g_inputs := g_inputs st @ [c]\<rparr>)"
      using assms(1) a 1 by (auto simp: keeps_def)
    moreover have "size (free s) < size (free (g_store st))"
      unfolding 1(3) by (rule size_Diff1_less [OF 1(2)])
    ultimately show ?thesis using that(2) [of ao c s] eq 1(1) by simp
  next
    case 2
    have "keeps pool (st\<lparr>g_store := s\<rparr>)" using 2(2-4) assms(1) a by (auto simp: keeps_def)
    then show ?thesis using that(1) [of s] eq 2(1,3) by simp
  qed
qed

lemma funding_loop_correct:
  assumes "keeps pool st" "outputs_ok p su (g_outputs st)" "size (free (g_store st)) < n"
  shows "\<exists>st'. funding_loop n A p su removing st = (Inr (), st') \<and> keeps pool st' \<and> outputs_ok p su (g_outputs st') \<and>
    g_fixed st' = g_fixed st \<and> g_rng st' = g_rng st \<and> (removing \<longrightarrow> g_outputs st' = g_outputs st) \<and>
    (feeExcess p su st' 0 0 < 0 \<longrightarrow> free (g_store st') = {#})"
  using assms
proof (induction n arbitrary: st)
  case (Suc n)
  show ?case
  proof (cases "0 \<le> feeExcess p su st 0 0")
    case True
    with Suc.prems show ?thesis by auto
  next
    case False
    then have neg: "feeExcess p su st 0 0 < 0" by simp
    show ?thesis
    proof (cases rule: attempt_cases [OF Suc.prems(1) neg, of removing])
      case (1 s)
      with False Suc.prems show ?thesis by (auto simp: feeExcess_def)
    next
      case (2 c s ao)
      let ?st = "maybeAddChangeOutput p su removing ao (st\<lparr>g_store := s, g_inputs := g_inputs st @ [c]\<rparr>)"
      have "keeps pool ?st" using 2(2) by (simp add: keeps_def maybeAdd_correct)
      moreover have "outputs_ok p su (g_outputs ?st)" using Suc.prems(2) by (intro maybeAdd_correct(1)) simp
      moreover have "size (free (g_store ?st)) < n" using 2(3) Suc.prems(3) by (simp add: maybeAdd_correct)
      moreover have "g_fixed ?st = g_fixed st" "g_rng ?st = g_rng st" "removing \<longrightarrow> g_outputs ?st = g_outputs st"
        by (simp_all add: maybeAdd_correct)
      ultimately show ?thesis using Suc.IH [of ?st] False 2(1) by auto
    qed
  qed
qed simp

lemma starvation_loop_correct:
  assumes "keeps pool st" "outputs_ok p su (g_outputs st)" "size pool < m"
    "if removing then length (g_outputs st) < n else nat (su_maxOutputs su) < n"
  shows "\<exists>st'. starvation_loop n m A p su removing st = (Inr (), st') \<and> keeps pool st' \<and>
    outputs_ok p su (g_outputs st') \<and> g_fixed st' = g_fixed st \<and> g_rng st' = g_rng st \<and>
    (feeExcess p su st' 0 0 < 0 \<longrightarrow> free (g_store st') = {#} \<and> g_outputs st' = [])"
  using assms
proof (induction n arbitrary: st removing)
  case (Suc n)
  from release_all [OF Suc.prems(1)] obtain s where
    r: "releaseAllocatedChangeInputs A st = (Inr (), st\<lparr>g_inputs := [], g_store := s\<rparr>)"
      "keeps pool (st\<lparr>g_inputs := [], g_store := s\<rparr>)" "free s = pool" by blast
  let ?st1 = "st\<lparr>g_inputs := [], g_store := s\<rparr>"
  have "outputs_ok p su (g_outputs ?st1)" "size (free (g_store ?st1)) < m" using Suc.prems(2,3) r(3) by simp_all
  from funding_loop_correct [OF r(2) this, of removing] obtain st2 where
    f: "funding_loop m A p su removing ?st1 = (Inr (), st2)" "keeps pool st2" "outputs_ok p su (g_outputs st2)"
      "g_fixed st2 = g_fixed st" "g_rng st2 = g_rng st" "removing \<longrightarrow> g_outputs st2 = g_outputs st"
      "feeExcess p su st2 0 0 < 0 \<longrightarrow> free (g_store st2) = {#}" by auto
  show ?case
  proof (cases "0 \<le> feeExcess p su st2 0 0 \<or> g_outputs st2 = []")
    case True
    with r f show ?thesis by auto
  next
    case short: False
    obtain k where k: "drop_outputs p su st2 = st2\<lparr>g_outputs := take k (g_outputs st2)\<rparr>" "k < length (g_outputs st2)"
      "feeExcess p su (drop_outputs p su st2) 0 0 < 0 \<longrightarrow> g_outputs (drop_outputs p su st2) = []"
      using drop_outputs_correct [of p su st2] short not_le by blast
    define st3 where "st3 = drop_outputs p su st2"
    have st3: "keeps pool st3" "outputs_ok p su (g_outputs st3)" "g_fixed st3 = g_fixed st" "g_rng st3 = g_rng st"
      "free (g_store st3) = {#}" "length (g_outputs st3) < length (g_outputs st2)"
      using f k short outputs_ok_take by (auto simp: st3_def)
    show ?thesis
    proof (cases "feeExcess p su st3 0 0 < 0")
      case True
      with r f short k(3) st3 show ?thesis by (auto simp: st3_def [symmetric] Let_def)
    next
      case False
      obtain j where j: "removeChurnPairs (g_inputs st3) (g_outputs st3) = take j (g_outputs st3)"
        using removeChurnPairs_take by blast
      let ?st4 = "st3\<lparr>g_outputs := take j (g_outputs st3)\<rparr>"
      have "length (g_outputs st2) \<le> n"
        using Suc.prems(4) f(3,6) by (auto simp: outputs_ok_def split: if_splits)
      then have "if True then length (g_outputs ?st4) < n else nat (su_maxOutputs su) < n" using st3(6) by simp
      moreover have "keeps pool ?st4" "outputs_ok p su (g_outputs ?st4)" using st3(1,2) outputs_ok_take by auto
      moreover have "starvation_loop (Suc n) m A p su removing st = starvation_loop n m A p su True ?st4"
        using r f(1) short False by (simp add: st3_def [symmetric] j Let_def)
      ultimately show ?thesis using Suc.IH [of ?st4 True] Suc.prems(3) st3(3,4) by auto
    qed
  qed
qed (auto split: if_splits)

lemma fundTransaction_correct:
  assumes "inv s" "g_store st = s" "g_inputs st = []" "g_outputs st = []" "size (free s) < n" "nat (su_maxOutputs su) < n"
  shows "\<exists>st'. fundTransaction n A p su (initial_outputs p su st) = (Inr (), st') \<and> keeps (free s) st' \<and>
    outputs_ok p su (g_outputs st') \<and> g_fixed st' = g_fixed st \<and> g_rng st' = g_rng st \<and>
    (feeExcess p su st' 0 0 < 0 \<longrightarrow> free (g_store st') = {#} \<and> g_outputs st' = [])"
proof -
  let ?st = "initial_outputs p su st"
  have i: "outputs_ok p su (g_outputs ?st)" "g_inputs ?st = []" "g_store ?st = s" "g_fixed ?st = g_fixed st" "g_rng ?st = g_rng st"
    using initial_outputs_correct [of p su st] assms by simp_all
  have "keeps (free s) ?st" using keeps_start [OF assms(1) i(3,2)] .
  from starvation_loop_correct [OF this i(1) assms(5), of False n] assms(6) i(4,5) show ?thesis
    by (simp add: fundTransaction_def)
qed

end

end
