(* ===== verification/ChangeRun.thy ===== *)
theory ChangeRun
  imports ChangeFund
begin

text \<open>
  A whole run of \<open>generateChangeSdk\<close>: fees on doubles against exact fees, what a run has validated, and the
  run taken apart into its funding, its adjustment and its settlement.
\<close>

section \<open>Fees\<close>

lemma fee_of_range:
  assumes "0 \<le> sz" "0 \<le> rate" "sz * rate < 2 ^ 40"
  shows "fee_of sz rate = (if sz * rate mod 1000 = 0 then sz * rate div 1000 else sz * rate div 1000 + 1) \<or>
    sz * rate mod 1000 = 0 \<and> fee_of sz rate = sz * rate div 1000 + 1"
proof -
  define x :: rat where "x = of_int sz / 1000"
  define r :: rat where "r = of_int rate"
  define y where "y = js_div (of_int sz) 1000"
  define z where "z = js_mul y r"
  let ?e = "1 / 2 ^ 53 :: rat"
  have x: "0 \<le> x" and r: "0 \<le> r" using assms by (simp_all add: x_def r_def)
  have "(of_int (sz * rate) :: rat) < of_int (2 ^ 40)" using assms(3) by (simp only: of_int_less_iff)
  then have xr: "x * r < 2 ^ 40 / 1000" by (simp add: x_def r_def mult.commute)
  have xr0: "0 \<le> x * r" using x r by simp
  have y: "\<bar>y - x\<bar> \<le> x * ?e" "0 \<le> y" using dbl_error [OF x] x by (simp_all add: y_def js_div_def x_def dbl_nonneg)
  have z: "\<bar>z - y * r\<bar> \<le> y * r * ?e" using dbl_error [of "y * r"] y(2) r by (simp add: z_def js_mul_def)
  have "x * ?e \<le> x" using x by simp
  with abs_le_D1 [OF y(1)] have "y \<le> x * 2" by linarith
  then have yr2: "y * r \<le> x * r * 2" using mult_right_mono [OF _ r, of y "x * 2"] by (simp add: ac_simps)
  have "\<bar>y * r - x * r\<bar> = \<bar>y - x\<bar> * r" using r by (simp add: left_diff_distrib [symmetric] abs_mult)
  also have "\<dots> \<le> x * ?e * r" by (rule mult_right_mono [OF y(1) r])
  finally have yr: "\<bar>y * r - x * r\<bar> \<le> x * r * ?e" by simp
  have gen: "\<bar>c - b\<bar> \<le> b * ?e \<Longrightarrow> \<bar>b - a\<bar> \<le> a * ?e \<Longrightarrow> b \<le> a * 2 \<Longrightarrow> \<bar>c - a\<bar> \<le> a * ?e + a * 2 * ?e"
    for a b c :: rat using abs_triangle_ineq [of "c - b" "b - a"] by simp
  have "\<bar>z - x * r\<bar> \<le> x * r * ?e + x * r * 2 * ?e" by (rule gen [OF z yr yr2])
  also have "\<dots> < 1 / 1000" using xr by (simp add: mult.commute)
  finally have "\<bar>z - x * r\<bar> < 1 / 1000" .
  then have err: "x * r - 1 / 1000 < z" "z < x * r + 1 / 1000" unfolding abs_less_iff by linarith+
  define q m where "q = sz * rate div 1000" and "m = sz * rate mod 1000"
  have "sz * rate = q * 1000 + m" by (simp add: q_def m_def)
  then have "(of_int (sz * rate) :: rat) = of_int (q * 1000 + m)" by (simp only:)
  then have split: "x * r = of_int q + of_int m / 1000" by (simp add: x_def r_def add_divide_distrib)
  have m: "0 \<le> m" "m < 1000" by (simp_all add: m_def)
  have ceil: "fee_of sz rate = \<lceil>z\<rceil>" by (simp add: fee_of_def z_def y_def r_def)
  show ?thesis
  proof (cases "m = 0")
    case True
    with split have "x * r = of_int q" by simp
    with err have "of_int q - 1 < z" "z \<le> of_int q + 1" by linarith+
    then have "\<lceil>z\<rceil> = q \<or> \<lceil>z\<rceil> = q + 1" by linarith
    with True ceil show ?thesis by (auto simp: q_def m_def)
  next
    case False
    with m have "1 \<le> m" "m \<le> 999" by simp_all
    then have "(of_int 1 :: rat) \<le> of_int m" "(of_int m :: rat) \<le> of_int 999" by (simp_all only: of_int_le_iff)
    with split err have "of_int q < z" "z \<le> of_int q + 1" by linarith+
    then have "\<lceil>z\<rceil> = q + 1" by linarith
    with False ceil show ?thesis by (auto simp: q_def m_def)
  qed
qed

lemma fee_of_code [code]:
  "fee_of sz rate = (if 0 \<le> sz \<and> 0 \<le> rate \<and> sz * rate < 2 ^ 40 \<and> sz * rate mod 1000 \<noteq> 0 then sz * rate div 1000 + 1
     else \<lceil>js_mul (js_div (of_int sz) 1000) (of_int rate)\<rceil>)"
  using fee_of_range [of sz rate] by (auto simp: fee_of_def)


lemma fee_of_nonneg: "0 \<le> sz \<Longrightarrow> 0 \<le> rate \<Longrightarrow> 0 \<le> fee_of sz rate"
  using js_nonneg(1) [OF js_nonneg(2) [of "of_int sz" 1000], of "of_int rate"] by (simp add: fee_of_def)

section \<open>Sizes of lengths that are not negative\<close>

lemma bindE_Inl_iff: "bindE r f = Inl e \<longleftrightarrow> r = Inl e \<or> (\<exists>x. r = Inr x \<and> f x = Inl e)"
  by (cases r) (auto simp: bindE_def)

lemma varUintSize_ok: "0 \<le> n \<Longrightarrow> \<exists>v > 0. varUintSize n = Inr v"
  by (auto simp: varUintSize_def)

lemma sizes_ok:
  "0 \<le> n \<Longrightarrow> \<exists>v > 0. transactionInputSize n = Inr v" "0 \<le> n \<Longrightarrow> \<exists>v > 0. transactionOutputSize n = Inr v"
  using varUintSize_ok [of n] by (auto simp: transactionInputSize_def transactionOutputSize_def bindE_def)

lemma mapE_positive: "\<forall>x \<in> set xs. \<exists>v > 0. f x = Inr (v :: int) \<Longrightarrow> \<exists>vs. mapE f xs = Inr vs \<and> 0 \<le> sum_list vs"
proof (induction xs)
  case (Cons x xs)
  then obtain v vs where "f x = Inr v" "0 < v" "mapE f xs = Inr vs" "0 \<le> sum_list vs" by auto
  then show ?case by (auto simp: bindE_def)
qed auto

lemma transactionSize_ok:
  assumes "\<forall>n \<in> set ins. 0 \<le> n" "\<forall>n \<in> set outs. 0 \<le> n" shows "\<exists>sz > 0. transactionSize ins outs = Inr sz"
proof -
  obtain a b where "varUintSize (int (length ins)) = Inr a" "0 < a" "varUintSize (int (length outs)) = Inr b" "0 < b"
    using varUintSize_ok by (meson of_nat_0_le_iff)
  moreover obtain is' os' where "mapE transactionInputSize ins = Inr is'" "0 \<le> sum_list is'"
    "mapE transactionOutputSize outs = Inr os'" "0 \<le> sum_list os'"
    using mapE_positive [of ins transactionInputSize] mapE_positive [of outs transactionOutputSize] sizes_ok assms by meson
  ultimately show ?thesis by (simp add: transactionSize_def bindE_def)
qed

lemma mapE_Inl: "mapE f xs = Inl e \<Longrightarrow> \<exists>x \<in> set xs. f x = Inl e"
  by (induction xs) (auto simp: bindE_Inl_iff)

lemma transactionSize_error: "transactionSize ins outs = Inl e \<Longrightarrow> \<exists>x. e = InvalidParameter x"
  by (auto simp: transactionSize_def transactionInputSize_def transactionOutputSize_def varUintSize_def bindE_Inl_iff
      split: if_splits dest!: mapE_Inl)

lemma transactionSize_one: "transactionSize [i] [o'] = Inr n \<Longrightarrow> 0 \<le> i \<and> 0 \<le> o'"
  by (auto simp: transactionSize_def transactionInputSize_def transactionOutputSize_def varUintSize_def bindE_Inr_iff
      split: if_splits)

section \<open>What a run has validated\<close>

text \<open>What is used of the SDK's validators: a length of at least 0 is not negative.\<close>

definition lengths_checked :: "sdk_validation \<Rightarrow> bool" where
  "lengths_checked V \<longleftrightarrow> (\<forall>n. val_integer V n (Some 0) \<longrightarrow> 0 \<le> n)"

definition rate_ok :: "gen_params \<Rightarrow> bool" where
  "rate_ok p \<longleftrightarrow> (\<forall>m v. gp_feeModel p = Some m \<longrightarrow> fm_value m = Some v \<longrightarrow> 0 \<le> v)"

text \<open>The rate of the fee model as it is after validation.\<close>

definition rate_of :: "gen_params \<Rightarrow> int" where
  "rate_of p = (case gp_feeModel p of None \<Rightarrow> 1 | Some m \<Rightarrow> (case fm_value m of None \<Rightarrow> 1 | Some v \<Rightarrow> v))"

definition lengths_ok :: "gen_params \<Rightarrow> bool" where
  "lengths_ok p \<longleftrightarrow> (\<forall>x \<in> set (gp_fixedInputs p). 0 \<le> fi_unlockingScriptLength x) \<and>
     (\<forall>x \<in> set (gp_fixedOutputs p). 0 \<le> co_lockingScriptLength x) \<and>
     0 \<le> gp_changeLockingScriptLength p \<and> 0 \<le> gp_changeUnlockingScriptLength p"

lemma check_Inr [simp]: "check b n = Inr u \<longleftrightarrow> b" "check b n = Inl e \<longleftrightarrow> \<not> b \<and> e = InvalidParameter n"
  by (auto simp: check_def)

lemma check_inputs_ok:
  "check_inputs V xs = Inr u \<Longrightarrow> lengths_checked V \<Longrightarrow> \<forall>x \<in> set xs. 0 \<le> fi_unlockingScriptLength x"
  by (induction xs) (auto simp: bindE_Inr_iff lengths_checked_def)

lemma check_inputs_error: "check_inputs V xs = Inl e \<Longrightarrow> \<exists>n. e = InvalidParameter n"
  by (induction xs) (auto simp: bindE_Inl_iff)

lemma check_outputs_ok:
  "check_outputs V xs i r = Inr q \<Longrightarrow> lengths_checked V \<Longrightarrow>
   (\<forall>x \<in> set xs. 0 \<le> co_lockingScriptLength x) \<and>
   (q = r \<or> (\<exists>j < length xs. q = Some (i + j) \<and> co_satoshis (xs ! j) = maxPossibleSatoshis))"
proof (induction xs arbitrary: i r)
  case (Cons x xs)
  have here: "0 \<le> co_lockingScriptLength x" using Cons.prems by (auto simp: bindE_Inr_iff lengths_checked_def)
  obtain r' where rest: "check_outputs V xs (i + 1) r' = Inr q"
      "r' = r \<or> r' = Some i \<and> co_satoshis x = maxPossibleSatoshis"
    using Cons.prems(1) by (auto simp: bindE_Inr_iff split: if_splits)
  from Cons.IH [OF rest(1) Cons.prems(2)] consider "q = r'" | j where "j < length xs" "q = Some (i + 1 + j)"
      "co_satoshis (xs ! j) = maxPossibleSatoshis" by blast
  then have "q = r \<or> (\<exists>j < length (x # xs). q = Some (i + j) \<and> co_satoshis ((x # xs) ! j) = maxPossibleSatoshis)"
  proof cases
    case 1
    with rest(2) show ?thesis by force
  next
    case (2 j)
    then show ?thesis by (intro disjI2 exI [of _ "Suc j"]) simp
  qed
  with here Cons.IH [OF rest(1) Cons.prems(2)] show ?case by simp
qed auto

lemma check_outputs_error: "check_outputs V xs i r = Inl e \<Longrightarrow> \<exists>n. e = InvalidParameter n"
  by (induction xs arbitrary: i r) (auto simp: bindE_Inl_iff split: if_splits)

lemma fee_model_ok:
  "validateStorageFeeModel v = Inr m \<Longrightarrow> \<exists>x. fm_value m = Some x \<and> (x = 1 \<or> (\<exists>m'. v = Some m' \<and> fm_value m' = Some x))"
  "validateStorageFeeModel v = Inl e \<Longrightarrow> \<exists>n. e = InvalidParameter n"
  by (auto simp: validateStorageFeeModel_def Let_def split: option.splits if_splits)

lemma fee_model_rate: "validateStorageFeeModel (gp_feeModel p) = Inr m \<Longrightarrow> fm_value m = Some (rate_of p)"
  by (auto simp: validateStorageFeeModel_def rate_of_def Let_def split: option.splits if_splits)

lemma validate_error: "validateGenerateChangeSdkParams V p = Inl e \<Longrightarrow> \<exists>n. e = InvalidParameter n"
  by (auto simp: validateGenerateChangeSdkParams_def bindE_Inl_iff dest: check_inputs_error check_outputs_error fee_model_ok(2))

lemma validate_ok:
  assumes "validateGenerateChangeSdkParams V p0 = Inr (hasMax, p)" "lengths_checked V" "rate_ok p0"
  shows "\<exists>m. p = p0\<lparr>gp_feeModel := Some m\<rparr> \<and> (\<forall>v. fm_value m = Some v \<longrightarrow> 0 \<le> v)"
    "su_satsPerKb (make_setup p mn) = rate_of p0"
    "\<forall>x \<in> set (gp_fixedInputs p). 0 \<le> fi_unlockingScriptLength x"
    "\<forall>x \<in> set (gp_fixedOutputs p). 0 \<le> co_lockingScriptLength x"
    "\<forall>i. hasMax = Some i \<longrightarrow> i < length (gp_fixedOutputs p) \<and> co_satoshis (gp_fixedOutputs p ! i) = maxPossibleSatoshis"
proof -
  from assms(1) obtain m where m: "check_inputs V (gp_fixedInputs p0) = Inr ()"
      "check_outputs V (gp_fixedOutputs p0) 0 None = Inr hasMax" "validateStorageFeeModel (gp_feeModel p0) = Inr m"
      "p = p0\<lparr>gp_feeModel := Some m\<rparr>"
    by (auto simp: validateGenerateChangeSdkParams_def bindE_Inr_iff)
  show "\<exists>m. p = p0\<lparr>gp_feeModel := Some m\<rparr> \<and> (\<forall>v. fm_value m = Some v \<longrightarrow> 0 \<le> v)"
    using m(4) fee_model_ok(1) [OF m(3)] assms(3) by (auto simp: rate_ok_def)
  show "su_satsPerKb (make_setup p mn) = rate_of p0"
    using fee_model_rate [OF m(3)] by (simp add: m(4) make_setup_def Let_def)
  show "\<forall>x \<in> set (gp_fixedInputs p). 0 \<le> fi_unlockingScriptLength x"
    using check_inputs_ok [OF m(1) assms(2)] m(4) by simp
  show "\<forall>x \<in> set (gp_fixedOutputs p). 0 \<le> co_lockingScriptLength x"
    "\<forall>i. hasMax = Some i \<longrightarrow> i < length (gp_fixedOutputs p) \<and> co_satoshis (gp_fixedOutputs p ! i) = maxPossibleSatoshis"
    using check_outputs_ok [OF m(2) assms(2)] m(4) by auto
qed

section \<open>Settlement\<close>

text \<open>A transaction whose fee is what its size asks for, paid by exactly what goes in and does not come out.\<close>

definition balanced :: "gen_params \<Rightarrow> change_output list \<Rightarrow> gen_result \<Rightarrow> bool" where
  "balanced p fixed r \<longleftrightarrow>
     transactionSize
       (map fi_unlockingScriptLength (gp_fixedInputs p) @
        replicate (length (gr_allocatedChangeInputs r)) (gp_changeUnlockingScriptLength p))
       (map co_lockingScriptLength (fixed @ gr_changeOutputs r)) = Inr (gr_size r) \<and>
     gr_fee r = fee_of (gr_size r) (gr_satsPerKb r) \<and> 0 \<le> gr_fee r \<and>
     sum_of fi_satoshis (gp_fixedInputs p) + sum_of ci_satoshis (gr_allocatedChangeInputs r) =
     sum_of co_satoshis fixed + sum_of co_satoshis (gr_changeOutputs r) + gr_fee r"

lemma tx_size_ok:
  assumes "lengths_ok p" "\<forall>x \<in> set (g_fixed st). 0 \<le> co_lockingScriptLength x"
    "\<forall>x \<in> set (g_outputs st). co_lockingScriptLength x = gp_changeLockingScriptLength p"
  shows "transactionSize
       (map fi_unlockingScriptLength (gp_fixedInputs p) @ replicate (length (g_inputs st)) (gp_changeUnlockingScriptLength p))
       (map co_lockingScriptLength (g_fixed st @ g_outputs st)) = Inr (tx_size p st 0 0)" "0 < tx_size p st 0 0"
proof -
  have "map co_lockingScriptLength (g_outputs st) = replicate (length (g_outputs st)) (gp_changeLockingScriptLength p)"
    using assms(3) by (simp cong: map_cong add: map_replicate_const)
  moreover have "\<exists>n > 0. transactionSize (map fi_unlockingScriptLength (gp_fixedInputs p) @
        replicate (length (g_inputs st)) (gp_changeUnlockingScriptLength p))
      (map co_lockingScriptLength (g_fixed st) @ replicate (length (g_outputs st)) (gp_changeLockingScriptLength p)) = Inr n"
    using assms(1,2) by (intro transactionSize_ok) (auto simp: lengths_ok_def in_set_replicate)
  ultimately show "transactionSize
       (map fi_unlockingScriptLength (gp_fixedInputs p) @ replicate (length (g_inputs st)) (gp_changeUnlockingScriptLength p))
       (map co_lockingScriptLength (g_fixed st @ g_outputs st)) = Inr (tx_size p st 0 0)" "0 < tx_size p st 0 0"
    by (auto simp: tx_size_def size_value_def)
qed

lemma finish_correct:
  assumes "outputs_ok p su (g_outputs st)" "rng_ok (g_rng st)" "lengths_ok p" "0 \<le> su_satsPerKb su"
    "\<forall>x \<in> set (g_fixed st). 0 \<le> co_lockingScriptLength x" "0 \<le> feeExcess p su st 0 0"
    "g_outputs st = [] \<Longrightarrow> feeExcess p su st 0 0 = 0"
  shows "\<exists>r st'. finish_change p su adj st = (Inr r, st') \<and> gr_allocatedChangeInputs r = g_inputs st \<and>
    g_inputs st' = g_inputs st \<and> g_store st' = g_store st \<and> g_fixed st' = g_fixed st \<and>
    outputs_ok p su (gr_changeOutputs r) \<and> gr_satsPerKb r = su_satsPerKb su \<and> gr_adjustment r = adj \<and>
    balanced p (g_fixed st) r"
proof -
  let ?x = "feeExcess p su st 0 0"
  from distribute_correct [OF assms(2,6,7)] obtain outs g where
    d: "distributeExcessFees (g_outputs st) (gp_changeInitialSatoshis p) ?x (g_rng st) = (Inr (outs, 0), g)"
      "raised (g_outputs st) outs" "sum_of co_satoshis outs = sum_of co_satoshis (g_outputs st) + ?x" by blast
  have locks: "map co_lockingScriptLength outs = map co_lockingScriptLength (g_outputs st)" "length outs = length (g_outputs st)"
    using raised_locks [OF d(2)] by simp_all
  have dust: "\<forall>x \<in> set outs. su_dustFloor su \<le> co_satoshis x"
    using raised_dust [OF d(2)] assms(1) by (auto simp: outputs_ok_def)
  have lens: "\<forall>x \<in> set (g_outputs st). co_lockingScriptLength x = gp_changeLockingScriptLength p"
    using assms(1) by (simp add: outputs_ok_def)
  have "co_lockingScriptLength ` set outs = co_lockingScriptLength ` set (g_outputs st)"
    using locks(1) by (metis set_map)
  with lens have "\<forall>x \<in> set outs. co_lockingScriptLength x = gp_changeLockingScriptLength p" by force
  with dust locks(2) assms(1) have ok: "outputs_ok p su outs" by (simp add: outputs_ok_def)
  define st' where "st' = st\<lparr>g_outputs := outs, g_rng := g\<rparr>"
  have sz: "tx_size p st' 0 0 = tx_size p st 0 0" by (intro tx_size_cong) (simp_all add: st'_def locks)
  note size = tx_size_ok [OF assms(3,5) lens]
  let ?r = "\<lparr>gr_allocatedChangeInputs = g_inputs st', gr_changeOutputs = g_outputs st',
                   gr_size = tx_size p st' 0 0, gr_fee = funding p st' - spending st' - change_total st',
                   gr_satsPerKb = su_satsPerKb su, gr_adjustment = adj\<rparr>"
  have fee: "funding p st' - spending st' - change_total st' = fee_of (tx_size p st 0 0) (su_satsPerKb su)"
    using d(3) by (simp add: st'_def funding_def spending_def change_total_def feeExcess_def feeTarget_def)
  have pos: "0 \<le> fee_of (tx_size p st 0 0) (su_satsPerKb su)" using size(2) assms(4) by (intro fee_of_nonneg) simp_all
  have bal: "balanced p (g_fixed st) ?r"
    using size(1) fee pos locks(1) by (simp add: balanced_def sz) (simp add: st'_def funding_def spending_def change_total_def)
  have "validateGenerateChangeSdkResult p (g_fixed st') ?r"
    using bal by (auto simp: validateGenerateChangeSdkResult_def balanced_def st'_def Let_def)
  then have "finish_change p su adj st = (Inr ?r, st')"
    using d(1) removeDust_none [OF dust] by (simp add: finish_change_def st'_def Let_def)
  with bal ok show ?thesis by (intro exI [of _ ?r] exI [of _ st']) (simp add: st'_def)
qed

context change_store
begin

lemma settle_correct:
  assumes "keeps pool st" "outputs_ok p su (g_outputs st)" "rng_ok (g_rng st)" "lengths_ok p" "0 \<le> su_satsPerKb su"
    "\<forall>x \<in> set (g_fixed st). 0 \<le> co_lockingScriptLength x"
  obtains r st' where "settle_change A p su adj st = (Inr r, st')" "gr_allocatedChangeInputs r = g_inputs st"
    "g_inputs st' = g_inputs st" "g_store st' = g_store st" "g_fixed st' = g_fixed st"
    "outputs_ok p su (gr_changeOutputs r)" "gr_satsPerKb r = su_satsPerKb su" "gr_adjustment r = adj" "balanced p (g_fixed st) r"
    "0 \<le> feeExcess p su st 0 0"
  | a b st' where "settle_change A p su adj st = (Inl (InsufficientFunds a b), st')" "g_inputs st' = []"
    "inv (g_store st')" "free (g_store st') = pool"
    "(a, b) = (spending st + feeTarget p su st 0 0, - feeExcess p su st 0 0) \<and> 0 < b \<or>
     b = gp_changeFirstSatoshis p \<and> g_outputs st = [] \<and> 0 < feeExcess p su st 0 0"
proof -
  from release_all [OF assms(1)] obtain s where
    rel: "releaseAllocatedChangeInputs A st = (Inr (), st\<lparr>g_inputs := [], g_store := s\<rparr>)"
      "keeps pool (st\<lparr>g_inputs := [], g_store := s\<rparr>)" "free s = pool" by blast
  then have inv: "inv s" by (simp add: keeps_def)
  show ?thesis
  proof (cases "feeExcess p su st 0 0 < 0 \<or> g_outputs st = [] \<and> 0 < feeExcess p su st 0 0")
    case True
    then obtain a b where "settle_change A p su adj st = (Inl (InsufficientFunds a b), st\<lparr>g_inputs := [], g_store := s\<rparr>)"
      "(a, b) = (spending st + feeTarget p su st 0 0, - feeExcess p su st 0 0) \<and> 0 < b \<or>
       b = gp_changeFirstSatoshis p \<and> g_outputs st = [] \<and> 0 < feeExcess p su st 0 0"
      using rel(1) by (auto simp: settle_change_def release_and_throw_def)
    with rel inv show ?thesis by (intro that(2)) auto
  next
    case False
    then have "0 \<le> feeExcess p su st 0 0" "g_outputs st = [] \<Longrightarrow> feeExcess p su st 0 0 = 0" by auto
    from finish_correct [OF assms(2-6) this, of adj] False that(1) show ?thesis by (auto simp: settle_change_def)
  qed
qed

text \<open>A run is an error of validation that touches nothing, or funding, adjustment and settlement.\<close>

lemma run_stages:
  assumes "generateChangeSdk n V A p0 random s = (res, st)" "inv s" "lengths_checked V" "rate_ok p0"
    "\<forall>v \<in> set (gp_randomVals p0). 0 \<le> v \<and> v \<le> 1 - 1 / 4294967296"
    "size (free s) < n" "nat (case gp_maxChangeOutputs p0 of None \<Rightarrow> maxChangeOutputsPerTransaction | Some m \<Rightarrow> m) < n"
  obtains e where "res = Inl (InvalidParameter e)" "g_store st = s" "g_inputs st = []"
  | hasMax p mn st1 where "validateGenerateChangeSdkParams V p0 = Inr (hasMax, p)"
      "transactionSize [gp_changeUnlockingScriptLength p] [gp_changeLockingScriptLength p] = Inr mn" "lengths_ok p"
      "0 \<le> su_satsPerKb (make_setup p mn)" "keeps (free s) st1" "outputs_ok p (make_setup p mn) (g_outputs st1)"
      "g_fixed st1 = gp_fixedOutputs p0" "rng_ok (g_rng st1)"
      "feeExcess p (make_setup p mn) st1 0 0 < 0 \<Longrightarrow> free (g_store st1) = {#} \<and> g_outputs st1 = []"
      "(case adjust_max_output p (make_setup p mn) hasMax st1 of Inl e \<Rightarrow> (Inl e, st1)
        | Inr (adj, st') \<Rightarrow> settle_change A p (make_setup p mn) adj st') = (res, st)"
proof -
  define st0 where "st0 = \<lparr>g_inputs = [], g_outputs = [], g_fixed = gp_fixedOutputs p0, g_store = s,
                 g_rng = \<lparr>rng_vals = gp_randomVals p0, rng_random = random, rng_count = 0\<rparr>\<rparr>"
  note run = assms(1) [unfolded generateChangeSdk_def Let_def, folded st0_def]
  show ?thesis
  proof (cases "validateGenerateChangeSdkParams V p0")
    case (Inl e)
    with run validate_error [OF Inl] that(1) show ?thesis by (auto simp: st0_def)
  next
    case (Inr q)
    obtain hasMax p where q: "q = (hasMax, p)" by (cases q) auto
    note v = validate_ok [OF Inr [unfolded q] assms(3,4)]
    from v(1) obtain m where m: "p = p0\<lparr>gp_feeModel := Some m\<rparr>" "\<forall>v. fm_value m = Some v \<longrightarrow> 0 \<le> v" by blast
    show ?thesis
    proof (cases "transactionSize [gp_changeUnlockingScriptLength p] [gp_changeLockingScriptLength p]")
      case (Inl e)
      with run Inr q transactionSize_error [OF Inl] that(1) show ?thesis by (auto simp: st0_def)
    next
      case mn: (Inr mn)
      let ?su = "make_setup p mn"
      have lens: "lengths_ok p" using v(3,4) transactionSize_one [OF mn] by (simp add: lengths_ok_def)
      have rate: "0 \<le> su_satsPerKb ?su" using m by (auto simp: make_setup_def Let_def split: option.splits)
      have st0: "g_store st0 = s" "g_inputs st0 = []" "g_outputs st0 = []" by (simp_all add: st0_def)
      have "nat (su_maxOutputs ?su) < n" using assms(7) m(1) by (simp add: make_setup_def Let_def)
      from fundTransaction_correct [OF assms(2) st0 assms(6) this, of p] obtain st1 where st1:
        "fundTransaction n A p ?su (initial_outputs p ?su st0) = (Inr (), st1)" "keeps (free s) st1"
        "outputs_ok p ?su (g_outputs st1)" "g_fixed st1 = g_fixed st0" "g_rng st1 = g_rng st0"
        "feeExcess p ?su st1 0 0 < 0 \<longrightarrow> free (g_store st1) = {#} \<and> g_outputs st1 = []" by blast
      have "rng_ok (g_rng st1)" using st1(5) assms(5) by (simp add: rng_ok_def st0_def)
      moreover have "g_fixed st1 = gp_fixedOutputs p0" using st1(4) by (simp add: st0_def)
      moreover have "(case adjust_max_output p ?su hasMax st1 of Inl e \<Rightarrow> (Inl e, st1)
        | Inr (adj, st') \<Rightarrow> settle_change A p ?su adj st') = (res, st)" using run Inr q mn st1(1) by simp
      ultimately show ?thesis using that(2) [OF Inr [unfolded q] mn lens rate st1(2,3)] st1(6) by blast
    qed
  qed
qed

end

text \<open>The adjustment of the one output of the largest amount pays exactly what is missing.\<close>

lemma adjust_correct:
  assumes "\<forall>i. hasMax = Some i \<longrightarrow> i < length (g_fixed st) \<and> co_satoshis (g_fixed st ! i) = maxPossibleSatoshis"
  obtains "adjust_max_output p su hasMax st = Inr (None, st)" "hasMax = None \<or> 0 \<le> feeExcess p su st 0 0"
  | i x where "hasMax = Some i" "feeExcess p su st 0 0 < 0" "x = add_sats (feeExcess p su st 0 0) (g_fixed st ! i)"
      "adjust_max_output p su hasMax st = Inr (Some (i, co_satoshis x), st\<lparr>g_fixed := (g_fixed st)[i := x]\<rparr>)"
      "feeExcess p su (st\<lparr>g_fixed := (g_fixed st)[i := x]\<rparr>) 0 0 = 0"
proof (cases "hasMax \<noteq> None \<and> feeExcess p su st 0 0 < 0")
  case False
  then show ?thesis using that(1) by (auto simp: adjust_max_output_def split: option.splits)
next
  case True
  then obtain i where i: "hasMax = Some i" by blast
  with assms have len: "i < length (g_fixed st)" "co_satoshis (g_fixed st ! i) = maxPossibleSatoshis" by auto
  let ?x = "add_sats (feeExcess p su st 0 0) (g_fixed st ! i)"
  let ?st = "st\<lparr>g_fixed := (g_fixed st)[i := ?x]\<rparr>"
  have "map co_lockingScriptLength ((g_fixed st)[i := ?x]) = map co_lockingScriptLength (g_fixed st)"
    using len(1) by (intro nth_equalityI) (auto simp: nth_list_update)
  then have "tx_size p ?st 0 0 = tx_size p st 0 0" by (intro tx_size_cong) simp_all
  then have "feeExcess p su ?st 0 0 = feeExcess p su st 0 0 - feeExcess p su st 0 0"
    using len(1) by (simp add: feeExcess_def feeTarget_def funding_def spending_def change_total_def sum_of_update)
  moreover have "adjust_max_output p su hasMax st = Inr (Some (i, co_satoshis ?x), ?st)"
    using True i len by (simp add: adjust_max_output_def Let_def)
  ultimately show ?thesis using that(2) [OF i _ refl] True by simp
qed

lemma adjust_keeps:
  assumes "\<forall>i. hasMax = Some i \<longrightarrow> i < length (g_fixed st) \<and> co_satoshis (g_fixed st ! i) = maxPossibleSatoshis"
  obtains adj F where "adjust_max_output p su hasMax st = Inr (adj, st\<lparr>g_fixed := F\<rparr>)"
    "map co_lockingScriptLength F = map co_lockingScriptLength (g_fixed st)"
    "0 \<le> feeExcess p su (st\<lparr>g_fixed := F\<rparr>) 0 0 \<or> F = g_fixed st"
proof (cases rule: adjust_correct [OF assms, of p su])
  case 1
  then show ?thesis by (intro that [of None "g_fixed st"]) simp_all
next
  case (2 i x)
  with assms have "map co_lockingScriptLength ((g_fixed st)[i := x]) = map co_lockingScriptLength (g_fixed st)"
    by (intro nth_equalityI) (auto simp: nth_list_update)
  with 2(4,5) show ?thesis by (intro that [of "Some (i, co_satoshis x)" "(g_fixed st)[i := x]"]) simp_all
qed

lemma lengths_of_map:
  "map f xs = map f ys \<Longrightarrow> \<forall>y \<in> set ys. P (f y) \<Longrightarrow> \<forall>x \<in> set xs. P (f x)"
  by (metis (no_types, lifting) image_iff list.set_map)

context change_store
begin

lemma run_correct:
  assumes "generateChangeSdk n V A p0 random s = (res, st)" "inv s" "lengths_checked V" "rate_ok p0"
    "\<forall>v \<in> set (gp_randomVals p0). 0 \<le> v \<and> v \<le> 1 - 1 / 4294967296"
    "size (free s) < n" "nat (case gp_maxChangeOutputs p0 of None \<Rightarrow> maxChangeOutputsPerTransaction | Some m \<Rightarrow> m) < n"
  obtains (invalid) e where "res = Inl (InvalidParameter e)" "g_store st = s" "g_inputs st = []"
  | (funded) r q m mn where "res = Inr r" "q = p0\<lparr>gp_feeModel := Some m\<rparr>" "balanced p0 (g_fixed st) r" "inv (g_store st)"
      "transactionSize [gp_changeUnlockingScriptLength q] [gp_changeLockingScriptLength q] = Inr mn"
      "free (g_store st) + mset (gr_allocatedChangeInputs r) = free s"
      "outputs_ok q (make_setup q mn) (gr_changeOutputs r)" "gr_satsPerKb r = su_satsPerKb (make_setup q mn)"
      "gr_satsPerKb r = rate_of p0"
  | (shortage) a b q m mn st1 where "res = Inl (InsufficientFunds a b)" "g_inputs st = []" "inv (g_store st)"
      "free (g_store st) = free s" "q = p0\<lparr>gp_feeModel := Some m\<rparr>" "lengths_ok q"
      "su_satsPerKb (make_setup q mn) = rate_of p0" "g_outputs (st1 :: 's gen) = []"
      "(a, b) = (spending st1 + feeTarget q (make_setup q mn) st1 0 0, - feeExcess q (make_setup q mn) st1 0 0) \<and>
         0 < b \<and> mset (g_inputs st1) = free s \<and> g_fixed st1 = gp_fixedOutputs p0 \<or> b = gp_changeFirstSatoshis p0"
proof (cases rule: run_stages [OF assms])
  case 1
  with invalid show ?thesis by blast
next
  case (2 hasMax q mn st1)
  note v = validate_ok [OF 2(1) assms(3,4)]
  from v(1) obtain m where q: "q = p0\<lparr>gp_feeModel := Some m\<rparr>" by blast
  let ?su = "make_setup q mn"
  have "\<forall>i. hasMax = Some i \<longrightarrow> i < length (g_fixed st1) \<and> co_satoshis (g_fixed st1 ! i) = maxPossibleSatoshis"
    using v(5) 2(7) q by simp
  from adjust_keeps [OF this, of q ?su] obtain adj F where
    F: "adjust_max_output q ?su hasMax st1 = Inr (adj, st1\<lparr>g_fixed := F\<rparr>)"
      "map co_lockingScriptLength F = map co_lockingScriptLength (g_fixed st1)"
      "0 \<le> feeExcess q ?su (st1\<lparr>g_fixed := F\<rparr>) 0 0 \<or> F = g_fixed st1" .
  let ?st2 = "st1\<lparr>g_fixed := F\<rparr>"
  have run: "settle_change A q ?su adj ?st2 = (res, st)" using 2(10) F(1) by simp
  have pre: "keeps (free s) ?st2" "outputs_ok q ?su (g_outputs ?st2)" "rng_ok (g_rng ?st2)"
    using 2(5,6,8) by (simp_all add: keeps_def)
  have fixed: "\<forall>x \<in> set (g_fixed ?st2). 0 \<le> co_lockingScriptLength x"
    using lengths_of_map [OF F(2), of "\<lambda>n. 0 \<le> n"] v(4) 2(7) q by simp
  show ?thesis
  proof (cases rule: settle_correct [OF pre 2(3,4) fixed, of adj])
    case (1 r st')
    have "balanced p0 (g_fixed st) r" using 1(1,5,9) run q by (simp add: balanced_def)
    moreover have "inv (g_store st)" "free (g_store st) + mset (gr_allocatedChangeInputs r) = free s"
      using 1(1,2,4) run pre(1) by (simp_all add: keeps_def)
    ultimately show ?thesis using funded [OF _ q] 1 run 2(2) v(2) by simp
  next
    case short: (2 a b st')
    have res: "res = Inl (InsufficientFunds a b)" "st' = st" using short(1) run by simp_all
    from short(5) show ?thesis
    proof
      assume neg: "(a, b) = (spending ?st2 + feeTarget q ?su ?st2 0 0, - feeExcess q ?su ?st2 0 0) \<and> 0 < b"
      then have "?st2 = st1" using F(3) by auto
      then have "(a, b) = (spending st1 + feeTarget q ?su st1 0 0, - feeExcess q ?su st1 0 0)" "feeExcess q ?su st1 0 0 < 0"
        using neg by auto
      moreover from this 2(9) have out: "free (g_store st1) = {#}" "g_outputs st1 = []" by simp_all
      ultimately have "(a, b) = (spending st1 + feeTarget q ?su st1 0 0, - feeExcess q ?su st1 0 0) \<and>
         0 < b \<and> mset (g_inputs st1) = free s \<and> g_fixed st1 = gp_fixedOutputs p0"
        using 2(5,7) neg by (simp add: keeps_def)
      then show ?thesis using shortage [OF res(1) _ _ _ q 2(3) v(2) out(2)] short(2-4) res(2) by blast
    next
      assume "b = gp_changeFirstSatoshis q \<and> g_outputs ?st2 = [] \<and> 0 < feeExcess q ?su ?st2 0 0"
      then show ?thesis using shortage [OF res(1) _ _ _ q 2(3) v(2), of "st1\<lparr>g_outputs := []\<rparr>"] short(2-4) res(2) q by simp
    qed
  qed
qed

end

end
