(* ===== verification/ChangeProps.thy ===== *)
theory ChangeProps
  imports ChangeRun
begin

text \<open>
  The properties of \<open>generateChangeSdk\<close>: a transaction it returns is balanced and pays the fee of its size, a
  failure gives everything back, and when a shortage is reported.
\<close>

section \<open>Sample runs\<close>

definition sample_validation :: sdk_validation where
  "sample_validation =
     \<lparr>val_satoshis = (\<lambda>v mn. 0 \<le> v \<and> v \<le> 2100000000000000 \<and> (case mn of None \<Rightarrow> True | Some m \<Rightarrow> m \<le> v)),
      val_integer = (\<lambda>v mn. case mn of None \<Rightarrow> True | Some m \<Rightarrow> m \<le> v)\<rparr>"

definition sample_payment :: "int \<Rightarrow> int \<Rightarrow> int option \<Rightarrow> gen_params" where
  "sample_payment rate sats target =
     \<lparr>gp_fixedInputs = [], gp_fixedOutputs = [\<lparr>co_satoshis = sats, co_lockingScriptLength = 25\<rparr>],
      gp_feeModel = Some \<lparr>fm_model = ''sat/kb'', fm_value = Some rate\<rparr>, gp_targetNetCount = target,
      gp_changeInitialSatoshis = 1000, gp_changeFirstSatoshis = 285, gp_changeLockingScriptLength = 25,
      gp_changeUnlockingScriptLength = 107, gp_maxChangeOutputs = None, gp_randomVals = [1 / 4, 1 / 2]\<rparr>"

definition sample_change :: "int list \<Rightarrow> change_input list" where
  "sample_change xs = map (\<lambda>(i, x). \<lparr>ci_outputId = int i, ci_satoshis = x\<rparr>) (enumerate 2 xs)"

definition sample_run :: "int \<Rightarrow> int \<Rightarrow> int option \<Rightarrow> int list \<Rightarrow> (gen_error + gen_result) \<times> change_list gen" where
  "sample_run rate sats target xs = generateChangeSdk 10 sample_validation list_allocator
     (sample_payment rate sats target) (\<lambda>_. []) (makeStorage (sample_change xs))"

lemma sample_params:
  "lengths_checked sample_validation" "0 \<le> rate \<Longrightarrow> rate_ok (sample_payment rate sats target)"
  "\<forall>v \<in> set (gp_randomVals (sample_payment rate sats target)). 0 \<le> v \<and> v \<le> 1 - 1 / 4294967296"
  "nat (case gp_maxChangeOutputs (sample_payment rate sats target) of None \<Rightarrow> maxChangeOutputsPerTransaction | Some m \<Rightarrow> m) < 10"
  by (simp_all add: lengths_checked_def sample_validation_def rate_ok_def sample_payment_def maxChangeOutputsPerTransaction_def)

lemma sample_wallet:
  "change_ids_distinct (makeStorage (sample_change [600, 450, 300]))"
  "free_change (makeStorage (sample_change [600, 450, 300])) =
     {#\<lparr>ci_outputId = 2, ci_satoshis = 600\<rparr>, \<lparr>ci_outputId = 3, ci_satoshis = 450\<rparr>, \<lparr>ci_outputId = 4, ci_satoshis = 300\<rparr>#}"
proof -
  have "makeStorage (sample_change [600, 450, 300]) = [(\<lparr>ci_outputId = 4, ci_satoshis = 300\<rparr>, True),
      (\<lparr>ci_outputId = 3, ci_satoshis = 450\<rparr>, True), (\<lparr>ci_outputId = 2, ci_satoshis = 600\<rparr>, True)]" by code_simp
  then show "change_ids_distinct (makeStorage (sample_change [600, 450, 300]))"
    "free_change (makeStorage (sample_change [600, 450, 300])) =
     {#\<lparr>ci_outputId = 2, ci_satoshis = 600\<rparr>, \<lparr>ci_outputId = 3, ci_satoshis = 450\<rparr>, \<lparr>ci_outputId = 4, ci_satoshis = 300\<rparr>#}"
    by (simp_all add: change_ids_distinct_def)
qed

text \<open>The same wallet of 1350 satoshis pays 1000 when two change outputs are wanted, and reports a shortage when
  none is.\<close>

lemma sample_runs:
  "fst (sample_run 100 1000 (Some 2) [600, 450, 300]) = Inr
     \<lparr>gr_allocatedChangeInputs = [\<lparr>ci_outputId = 2, ci_satoshis = 600\<rparr>, \<lparr>ci_outputId = 3, ci_satoshis = 450\<rparr>,
        \<lparr>ci_outputId = 4, ci_satoshis = 300\<rparr>],
      gr_changeOutputs = [\<lparr>co_satoshis = 297, co_lockingScriptLength = 25\<rparr>],
      gr_size = 522, gr_fee = 53, gr_satsPerKb = 100, gr_adjustment = None\<rparr>"
  "fst (sample_run 100 1000 (Some 0) [600, 450, 300]) = Inl (InsufficientFunds 1005 285)"
  "fst (sample_run 100 2000 (Some 0) [600, 450, 300]) = Inl (InsufficientFunds 2049 699)"
  "fst (sample_run 1 maxPossibleSatoshis None []) = Inr
     \<lparr>gr_allocatedChangeInputs = [], gr_changeOutputs = [], gr_size = 44, gr_fee = 1, gr_satsPerKb = 1,
      gr_adjustment = Some (0, - 1)\<rparr>"
  by code_simp+

section \<open>Balance\<close>

text \<open>C2: over any allocator that keeps its contract, a transaction that \<open>generateChangeSdk\<close> returns spends
  exactly what its inputs give: fixed outputs, change and the fee that the fee model asks for its real size. It
  has no more change outputs than the cap, every one of them is worth at least the dust floor, and its change
  inputs are just what left the free pool.\<close>

theorem generateChangeSdk_balanced:
  assumes "change_store A I free taken" "I s" "lengths_checked V" "rate_ok p"
    "\<forall>v \<in> set (gp_randomVals p). 0 \<le> v \<and> v \<le> 1 - 1 / 4294967296" "size (free s) < n"
    "nat (case gp_maxChangeOutputs p of None \<Rightarrow> maxChangeOutputsPerTransaction | Some m \<Rightarrow> m) < n"
    "generateChangeSdk n V A p random s = (Inr r, st)"
  shows "balanced p (g_fixed st) r \<and> gr_satsPerKb r = rate_of p \<and> I (g_store st) \<and>
    free (g_store st) + mset (gr_allocatedChangeInputs r) = free s \<and>
    int (length (gr_changeOutputs r)) \<le> max 0 (case gp_maxChangeOutputs p of None \<Rightarrow> maxChangeOutputsPerTransaction | Some m \<Rightarrow> m) \<and>
    (\<exists>sz. transactionSize [gp_changeUnlockingScriptLength p] [gp_changeLockingScriptLength p] = Inr sz \<and>
      (\<forall>x \<in> set (gr_changeOutputs r). max 1 (2 * fee_of sz (rate_of p)) \<le> co_satoshis x))"
proof (cases rule: change_store.run_correct [OF assms(1) assms(8,2-7)])
  case (2 r' q m mn)
  have "su_maxOutputs (make_setup q mn) = (case gp_maxChangeOutputs p of None \<Rightarrow> maxChangeOutputsPerTransaction | Some m \<Rightarrow> m)"
    "su_dustFloor (make_setup q mn) = max 1 (fee_of mn (su_satsPerKb (make_setup q mn)) * 2)"
    using 2(2) by (simp_all add: make_setup_def Let_def)
  with 2 show ?thesis by (auto simp: outputs_ok_def mult.commute)
qed simp_all

lemma generateChangeSdk_balanced_witness:
  "\<exists>r st. sample_run 100 1000 (Some 2) [600, 450, 300] = (Inr r, st) \<and> gr_fee r = 53 \<and>
     balanced (sample_payment 100 1000 (Some 2)) (g_fixed st) r"
proof -
  obtain r st where run: "sample_run 100 1000 (Some 2) [600, 450, 300] = (Inr r, st)" "gr_fee r = 53"
    using sample_runs(1) by (metis (no_types, lifting) fst_conv gen_result.select_convs(4) surj_pair)
  from generateChangeSdk_balanced [OF ls.change_store_axioms sample_wallet(1) sample_params(1,2) sample_params(3) _
      sample_params(4) run(1) [unfolded sample_run_def]] run sample_wallet(2) show ?thesis by auto
qed

text \<open>whatever fails, the wallet is as it was: an error of \<open>generateChangeSdk\<close> is a refused parameter or a
  shortage, never an endless loop or an internal error, and every change input it had taken is free again.\<close>

theorem generateChangeSdk_failure:
  assumes "change_store A I free taken" "I s" "lengths_checked V" "rate_ok p"
    "\<forall>v \<in> set (gp_randomVals p). 0 \<le> v \<and> v \<le> 1 - 1 / 4294967296" "size (free s) < n"
    "nat (case gp_maxChangeOutputs p of None \<Rightarrow> maxChangeOutputsPerTransaction | Some m \<Rightarrow> m) < n"
    "generateChangeSdk n V A p random s = (Inl e, st)"
  shows "g_inputs st = [] \<and> I (g_store st) \<and> free (g_store st) = free s \<and>
    ((\<exists>x. e = InvalidParameter x) \<or> (\<exists>a b. e = InsufficientFunds a b))"
  by (cases rule: change_store.run_correct [OF assms(1) assms(8,2-7)]) (use assms(2) in auto)

lemma generateChangeSdk_failure_witness:
  "\<exists>st. sample_run 100 1000 (Some 0) [600, 450, 300] = (Inl (InsufficientFunds 1005 285), st) \<and>
     free_change (g_store st) = free_change (makeStorage (sample_change [600, 450, 300]))"
proof -
  obtain st where run: "sample_run 100 1000 (Some 0) [600, 450, 300] = (Inl (InsufficientFunds 1005 285), st)"
    using sample_runs(2) by (metis fst_conv surj_pair)
  from generateChangeSdk_failure [OF ls.change_store_axioms sample_wallet(1) sample_params(1,2) sample_params(3) _
      sample_params(4) run [unfolded sample_run_def]] run sample_wallet(2) show ?thesis by auto
qed

section \<open>Shortages\<close>

text \<open>C23: a reported shortage is real and exact: all free change inputs together with the fixed inputs do not pay
  for the fixed outputs and the fee of the transaction without change, and the amount reported as missing is
  what is missing. The one other report, of the satoshis of a first change output, is for an overpaid
  transaction that has no change output.\<close>

theorem shortage_is_exact:
  assumes "change_store A I free taken" "I s" "lengths_checked V" "rate_ok p"
    "\<forall>v \<in> set (gp_randomVals p). 0 \<le> v \<and> v \<le> 1 - 1 / 4294967296" "size (free s) < n"
    "nat (case gp_maxChangeOutputs p of None \<Rightarrow> maxChangeOutputsPerTransaction | Some m \<Rightarrow> m) < n"
    "generateChangeSdk n V A p random s = (Inl (InsufficientFunds needed missing), st)" "missing \<noteq> gp_changeFirstSatoshis p"
  shows "0 < missing \<and> (\<exists>sz. transactionSize
      (map fi_unlockingScriptLength (gp_fixedInputs p) @ replicate (size (free s)) (gp_changeUnlockingScriptLength p))
      (map co_lockingScriptLength (gp_fixedOutputs p)) = Inr sz \<and>
    needed = sum_of co_satoshis (gp_fixedOutputs p) + fee_of sz (rate_of p) \<and>
    sum_of fi_satoshis (gp_fixedInputs p) + (\<Sum>c \<in># free s. ci_satoshis c) + missing = needed)"
proof (cases rule: change_store.run_correct [OF assms(1) assms(8,2-7)])
  case (3 a b q m mn st1)
  with assms(9) have st1: "needed = spending st1 + feeTarget q (make_setup q mn) st1 0 0"
      "missing = - feeExcess q (make_setup q mn) st1 0 0" "0 < missing" "mset (g_inputs st1) = free s"
      "g_fixed st1 = gp_fixedOutputs p" by auto
  have "length (g_inputs st1) = size (free s)" using st1(4) by (metis size_mset)
  with tx_size_ok(1) [OF 3(6), of st1] st1(5) 3(5,6,8) have
    "transactionSize (map fi_unlockingScriptLength (gp_fixedInputs p) @ replicate (size (free s)) (gp_changeUnlockingScriptLength p))
      (map co_lockingScriptLength (gp_fixedOutputs p)) = Inr (tx_size q st1 0 0)"
    by (simp add: lengths_ok_def)
  with st1 3(5,7,8) show ?thesis
    by (auto simp: feeExcess_def feeTarget_def funding_def spending_def change_total_def sum_of_mset [of ci_satoshis])
qed simp_all

lemma shortage_is_exact_witness:
  "\<exists>st. sample_run 100 2000 (Some 0) [600, 450, 300] = (Inl (InsufficientFunds 2049 699), st) \<and> (0::int) < 699"
proof -
  obtain st where run: "sample_run 100 2000 (Some 0) [600, 450, 300] = (Inl (InsufficientFunds 2049 699), st)"
    using sample_runs(3) by (metis fst_conv surj_pair)
  from shortage_is_exact [OF ls.change_store_axioms sample_wallet(1) sample_params(1,2) sample_params(3) _
      sample_params(4) run [unfolded sample_run_def]] run sample_wallet(2) show ?thesis
    by (auto simp: sample_payment_def)
qed

text \<open>a shortage of the other kind can be reported for a wallet that pays: 1350 satoshis in three change inputs
  pay 1000 satoshis when more change outputs are wanted than there are, and are reported as insufficient when
  the target is 0. The first two inputs then overpay by less than a change output is worth, and the third, still
  free, is not tried.\<close>

theorem shortage_of_a_wallet_that_pays:
  "fst (sample_run 100 1000 (Some 0) [600, 450, 300]) = Inl (InsufficientFunds 1005 285) \<and>
   (\<exists>r. fst (sample_run 100 1000 (Some 2) [600, 450, 300]) = Inr r \<and> gr_fee r = 53)"
  by (simp add: sample_runs)

text \<open>asked to send everything from an empty wallet, \<open>generateChangeSdk\<close> does not report a shortage: it returns
  a transaction without inputs whose output is worth minus one satoshi.\<close>

theorem sweep_of_an_empty_wallet:
  "\<exists>r. fst (sample_run 1 maxPossibleSatoshis None []) = Inr r \<and> gr_allocatedChangeInputs r = [] \<and>
     gr_adjustment r = Some (0, - 1)"
  by (simp add: sample_runs)

section \<open>Fees\<close>

text \<open>the fee, computed on doubles, is the exact fee of the size rounded up, or one satoshi more, and the
  latter only where the exact fee is a whole number of satoshis, as for 550 bytes at 100 satoshis per
  kilobyte.\<close>

theorem fee_is_exact_ceiling:
  assumes "0 \<le> sz" "0 \<le> rate" "sz * rate < 2 ^ 40"
  shows "(fee_of sz rate = \<lceil>(of_int (sz * rate) :: rat) / 1000\<rceil> \<or>
      sz * rate mod 1000 = 0 \<and> fee_of sz rate = sz * rate div 1000 + 1) \<and> fee_of 550 100 = 56"
proof -
  define q m where "q = sz * rate div 1000" and "m = sz * rate mod 1000"
  have "sz * rate = q * 1000 + m" by (simp add: q_def m_def)
  then have "(of_int (sz * rate) :: rat) = of_int q * 1000 + of_int m" by simp
  then have r: "(of_int (sz * rate) :: rat) / 1000 = of_int q + of_int m / 1000" by simp
  have m: "(of_int 0 :: rat) \<le> of_int m" "(of_int m :: rat) < of_int 1000"
    unfolding of_int_le_iff of_int_less_iff by (simp_all add: m_def)
  have "\<lceil>(of_int (sz * rate) :: rat) / 1000\<rceil> = (if m = 0 then q else q + 1)"
  proof (cases "m = 0")
    case False
    with m have "0 < (of_int m :: rat)" by simp
    with m(2) False show ?thesis unfolding r by (simp add: ceiling_eq_iff)
  next
    case True
    then have "(of_int (sz * rate) :: rat) / 1000 = of_int q" unfolding r by simp
    then show ?thesis using True by (simp only: ceiling_of_int refl if_True)
  qed
  moreover have "fee_of 550 100 = 56" by code_simp
  ultimately show ?thesis using fee_of_range [OF assms] by (auto simp: q_def m_def)
qed

lemma fee_is_exact_ceiling_witness: "fee_of 374 100 = \<lceil>(37400 :: rat) / 1000\<rceil>"
  using fee_is_exact_ceiling [of 374 100] by simp

section \<open>The allocator on a list, the distribution and the dust\<close>

lemma allocate_first_choice:
  assumes "allocate_first P xs = Some (c, ys)" "\<And>c b. P (c, b) \<Longrightarrow> b"
  shows "c \<in># free_change xs" "P (c, True)" "map fst ys = map fst xs"
    "sorted (map (\<lambda>x. ci_satoshis (fst x)) xs) \<Longrightarrow> d \<in># free_change xs \<Longrightarrow> P (d, True) \<Longrightarrow> ci_satoshis c \<le> ci_satoshis d"
    "sorted (map (\<lambda>x. ci_satoshis (fst x)) (rev xs)) \<Longrightarrow> d \<in># free_change xs \<Longrightarrow> P (d, True) \<Longrightarrow> ci_satoshis d \<le> ci_satoshis c"
proof -
  show "c \<in># free_change xs" "P (c, True)" using allocate_first_Some(1,2) [of P xs c ys] assms by blast+
  show "map fst ys = map fst xs"
    using assms(1) by (auto simp: allocate_first_def extract_Some_iff split: option.splits)
  from allocate_first_Some(6) [of P xs c ys] assms obtain as bs where
    xs: "xs = as @ (c, True) # bs" "\<forall>x \<in> set as. \<not> P x" by blast
  have d: "d = c \<or> (d, True) \<in> set bs" if "d \<in># free_change xs" "P (d, True)"
    using that xs by (auto simp: in_free_change)
  show "ci_satoshis c \<le> ci_satoshis d"
    if "sorted (map (\<lambda>x. ci_satoshis (fst x)) xs)" "d \<in># free_change xs" "P (d, True)"
    using d [OF that(2,3)] that(1) xs(1) by (auto simp: sorted_append)
  show "ci_satoshis d \<le> ci_satoshis c"
    if "sorted (map (\<lambda>x. ci_satoshis (fst x)) (rev xs))" "d \<in># free_change xs" "P (d, True)"
    using d [OF that(2,3)] that(1) xs(1) by (auto simp: sorted_append)
qed

lemma allocate_first_NoneD: "allocate_first P xs = None \<Longrightarrow> d \<in># free_change xs \<Longrightarrow> \<not> P (d, True)"
  by (simp add: allocate_first_None in_free_change)

lemma option_choices:
  assumes "\<And>x y. a = Some (x, y) \<Longrightarrow> P" "\<And>x y. a = None \<Longrightarrow> b = Some (x, y) \<Longrightarrow> P"
    "\<And>x y. a = None \<Longrightarrow> b = None \<Longrightarrow> c = Some (x, y) \<Longrightarrow> P" "a = None \<Longrightarrow> b = None \<Longrightarrow> c = None \<Longrightarrow> P"
  shows P
  using assms by (cases a; cases b; cases c) auto

lemma sorted_makeStorage: "sorted (map (\<lambda>x. ci_satoshis (fst x)) (makeStorage xs))"
proof -
  have "sorted (map (\<lambda>c. (ci_satoshis c, ci_outputId c)) (sort_key (\<lambda>c. (ci_satoshis c, ci_outputId c)) xs))"
    by (rule sorted_sort_key)
  then show ?thesis
    unfolding makeStorage_def map_map comp_def fst_conv sorted_map
    by (rule sorted_wrt_mono_rel [rotated]) (auto simp: less_eq_prod_def)
qed

text \<open>the allocator of \<open>generateChangeSdkMakeStorage\<close> gives the exact amount where there is one, else the
  smallest free input that reaches the target, else the largest one that is free, and nothing only when nothing
  is free; the order of the amounts stays.\<close>

theorem allocateChangeInput_best_fit:
  assumes "sorted (map (\<lambda>x. ci_satoshis (fst x)) change)" "allocateChangeInput targetSatoshis exact change = (r, change')"
  shows "(case r of
      Inl _ \<Rightarrow> False
    | Inr None \<Rightarrow> free_change change = {#} \<and> change' = change
    | Inr (Some c) \<Rightarrow> c \<in># free_change change \<and>
        (if \<exists>d \<in># free_change change. exact = Some (ci_satoshis d) then exact = Some (ci_satoshis c)
         else if \<exists>d \<in># free_change change. targetSatoshis \<le> ci_satoshis d
         then targetSatoshis \<le> ci_satoshis c \<and>
           (\<forall>d \<in># free_change change. targetSatoshis \<le> ci_satoshis d \<longrightarrow> ci_satoshis c \<le> ci_satoshis d)
         else \<forall>d \<in># free_change change. ci_satoshis d \<le> ci_satoshis c)) \<and>
    map fst change' = map fst change"
proof -
  let ?E = "\<lambda>x (c, spendable). spendable \<and> ci_satoshis c = x"
  let ?T = "\<lambda>(c, spendable). spendable \<and> targetSatoshis \<le> ci_satoshis c"
  let ?U = "\<lambda>(c, spendable :: bool). spendable"
  have exact_none: "\<not> (\<exists>d \<in># free_change change. exact = Some (ci_satoshis d))"
    if "(case exact of None \<Rightarrow> None | Some x \<Rightarrow> allocate_first (?E x) change) = None"
  proof (intro notI, elim bexE)
    fix d assume d: "d \<in># free_change change" "exact = Some (ci_satoshis d)"
    with that have "allocate_first (?E (ci_satoshis d)) change = None" by simp
    from allocate_first_NoneD [OF this d(1)] show False by simp
  qed
  have over_none: "\<not> (\<exists>d \<in># free_change change. targetSatoshis \<le> ci_satoshis d)" if "allocate_first ?T change = None"
    using allocate_first_NoneD [OF that] by auto
  note def = assms(2) [unfolded allocateChangeInput_def]
  let ?e = "case exact of None \<Rightarrow> None | Some x \<Rightarrow> allocate_first (?E x) change"
  show ?thesis
  proof (rule option_choices [of ?e _ "allocate_first ?T change" "allocate_first ?U (rev change)"], goal_cases exact over under none)
    case (exact c ys)
    then obtain x where x: "exact = Some x" "allocate_first (?E x) change = Some (c, ys)" by (auto split: option.splits)
    from allocate_first_choice(1-3) [OF x(2)] have "c \<in># free_change change" "ci_satoshis c = x" "map fst ys = map fst change"
      by auto
    moreover have "r = Inr (Some c)" "change' = ys" using def exact by auto
    ultimately show ?thesis using x(1) by auto
  next
    case (over c ys)
    from allocate_first_choice [OF over(2)] assms(1) have "c \<in># free_change change" "targetSatoshis \<le> ci_satoshis c"
      "map fst ys = map fst change"
      "\<forall>d \<in># free_change change. targetSatoshis \<le> ci_satoshis d \<longrightarrow> ci_satoshis c \<le> ci_satoshis d" by auto
    moreover have "r = Inr (Some c)" "change' = ys" using def over by auto
    ultimately show ?thesis using exact_none [OF over(1)] by auto
  next
    case (under c ys)
    from allocate_first_choice [OF under(3)] assms(1) have "c \<in># free_change change" "map fst (rev ys) = map fst change"
      "\<forall>d \<in># free_change change. ci_satoshis d \<le> ci_satoshis c" by (auto simp: rev_map [symmetric])
    moreover have "r = Inr (Some c)" "change' = rev ys" using def under by auto
    ultimately show ?thesis using exact_none [OF under(1)] over_none [OF under(2)] by auto
  next
    case none
    then have "free_change change = {#}" by (auto simp: allocate_first_None free_change_def filter_empty_conv)
    moreover have "r = Inr None" "change' = change" using def none by auto
    ultimately show ?thesis by simp
  qed
qed

lemma allocateChangeInput_best_fit_witness:
  "fst (allocateChangeInput 400 None (makeStorage (sample_change [600, 450, 300]))) = Inr (Some \<lparr>ci_outputId = 3, ci_satoshis = 450\<rparr>)
   \<and> map fst (snd (allocateChangeInput 400 None (makeStorage (sample_change [600, 450, 300])))) =
     map fst (makeStorage (sample_change [600, 450, 300]))"
proof -
  have "fst (allocateChangeInput 400 None (makeStorage (sample_change [600, 450, 300]))) = Inr (Some \<lparr>ci_outputId = 3, ci_satoshis = 450\<rparr>)"
    by code_simp
  with allocateChangeInput_best_fit [OF sorted_makeStorage [of "sample_change [600, 450, 300]"] surjective_pairing, of 400 None]
  show ?thesis by blast
qed

text \<open>the distribution of the excess gives all of it to the change outputs and lowers none of them, whatever
  random values are drawn, and it ends with nothing left.\<close>

theorem distributeExcessFees_gives_all:
  assumes "\<forall>v \<in> set (rng_vals g). 0 \<le> v \<and> v \<le> 1 - 1 / 4294967296" "0 \<le> excess" "outs \<noteq> []"
  shows "\<exists>outs' g'. distributeExcessFees outs initial excess g = (Inr (outs', 0), g') \<and>
    list_all2 (\<lambda>x y. co_satoshis x \<le> co_satoshis y \<and> co_lockingScriptLength y = co_lockingScriptLength x) outs outs' \<and>
    sum_of co_satoshis outs' = sum_of co_satoshis outs + excess"
  using distribute_correct [of g excess outs initial] assms by (simp add: rng_ok_def raised_def)

lemma distributeExcessFees_gives_all_witness:
  "\<exists>outs' g'. distributeExcessFees (replicate 3 \<lparr>co_satoshis = 5, co_lockingScriptLength = 25\<rparr>) 7 100
      \<lparr>rng_vals = [1 / 4, 1 / 2], rng_random = (\<lambda>_. []), rng_count = 0\<rparr> = (Inr (outs', 0), g') \<and>
     sum_of co_satoshis outs' = 115"
  using distributeExcessFees_gives_all [of "\<lparr>rng_vals = [1 / 4, 1 / 2], rng_random = (\<lambda>_. []), rng_count = 0\<rparr>" 100
      "replicate 3 \<lparr>co_satoshis = 5, co_lockingScriptLength = 25\<rparr>" 7] by (auto simp: sum_of_def numeral_eq_Suc)

end
