(* ===== verification/ServiceCalls.thy ===== *)
theory ServiceCalls
  imports Prelude
begin

text \<open>
  A rotating collection of service providers with the history of the calls made to them,
  \<^verbatim>\<open>src/src/services/ServiceCollection.ts\<close>.

  Times are milliseconds. Everything that reads the clock works on a pair of the collection and the world \<open>'w\<close>,
  and \<open>clk\<close>, an argument, reads the time and lets some pass. A \<open>Date\<close> rendered as a string is the same number.
  The index is \<open>None\<close> when it is \<open>NaN\<close>: \<open>next()\<close> on an empty collection divides by zero. A thrown value is
  represented by the code and the message \<open>WalletError.fromUnknown\<close> gives it.
\<close>

type_synonym msecs = int

record service_error =
  we_code :: string
  we_message :: string

definition type_error :: service_error where
  "type_error = \<lparr>we_code = ''TypeError'', we_message = []\<rparr>"

record service_call =
  ca_when :: msecs
  ca_msecs :: msecs
  ca_success :: bool
  ca_result :: "string option"
  ca_error :: "service_error option"

record call_counts =
  cc_success :: nat
  cc_failure :: nat
  cc_error :: nat
  cc_since :: msecs
  cc_until :: msecs

record provider_history =
  ph_serviceName :: string
  ph_providerName :: string
  ph_calls :: "service_call list"
  ph_totalCounts :: call_counts
  ph_resetCounts :: "call_counts list"

record 'p services =
  sv_serviceName :: string
  sv_services :: "(string \<times> 'p) list"
  sv_index :: "nat option"
  sv_since :: msecs
  sv_history :: "string \<rightharpoonup> provider_history"

record 'p service_to_call =
  st_providerName :: string
  st_serviceName :: string
  st_service :: 'p
  st_call :: service_call

definition MAX_CALL_HISTORY :: nat where
  "MAX_CALL_HISTORY = 32"

section \<open>The list of providers\<close>

definition new_services :: "string \<Rightarrow> (string \<times> 'p) list \<Rightarrow> msecs \<Rightarrow> 'p services" where
  "new_services nm ps now = \<lparr>sv_serviceName = nm, sv_services = ps, sv_index = Some 0, sv_since = now, sv_history = Map.empty\<rparr>"

definition add_service :: "string \<times> 'p \<Rightarrow> 'p services \<Rightarrow> 'p services" where
  "add_service p sv = sv\<lparr>sv_services := sv_services sv @ [p]\<rparr>"

definition remove_service :: "string \<Rightarrow> 'p services \<Rightarrow> 'p services" where
  "remove_service nm sv = sv\<lparr>sv_services := filter (\<lambda>s. fst s \<noteq> nm) (sv_services sv)\<rparr>"

definition service_at :: "nat option \<Rightarrow> 'p services \<Rightarrow> service_error + string \<times> 'p" where
  "service_at i sv = (case i of None \<Rightarrow> Inl type_error
     | Some n \<Rightarrow> if n < length (sv_services sv) then Inr (sv_services sv ! n) else Inl type_error)"

definition current_name :: "'p services \<Rightarrow> service_error + string" where
  "current_name sv = bindE (service_at (sv_index sv) sv) (\<lambda>s. Inr (fst s))"

definition current_service :: "'p services \<Rightarrow> service_error + 'p" where
  "current_service sv = bindE (service_at (sv_index sv) sv) (\<lambda>s. Inr (snd s))"

definition all_services :: "'p services \<Rightarrow> 'p list" where
  "all_services sv = map snd (sv_services sv)"

definition services_count :: "'p services \<Rightarrow> nat" where
  "services_count sv = length (sv_services sv)"

definition reset_index :: "'p services \<Rightarrow> 'p services" where
  "reset_index sv = sv\<lparr>sv_index := Some 0\<rparr>"

definition next_index :: "'p services \<Rightarrow> 'p services" where
  "next_index sv = sv\<lparr>sv_index := (case sv_index sv of None \<Rightarrow> None
     | Some i \<Rightarrow> if services_count sv = 0 then None else Some ((i + 1) mod services_count sv))\<rparr>"

definition clone_services :: "msecs \<Rightarrow> 'p services \<Rightarrow> 'p services" where
  "clone_services now sv = new_services (sv_serviceName sv) (sv_services sv) now"

definition moveServiceToLast :: "'p service_to_call \<Rightarrow> 'p services \<Rightarrow> 'p services" where
  "moveServiceToLast stc sv =
     (case List.extract (\<lambda>s. fst s = st_providerName stc) (sv_services sv) of
        None \<Rightarrow> sv
      | Some (before, s, after) \<Rightarrow> sv\<lparr>sv_services := before @ after @ [s]\<rparr>)"

section \<open>Calls\<close>

type_synonym 'w clock = "'w \<Rightarrow> msecs \<times> 'w"
type_synonym ('p, 'w, 'a) calls = "('p services \<times> 'w, service_error, 'a) sem"

definition now_of :: "'w clock \<Rightarrow> ('p, 'w, msecs) calls" where
  "now_of clk = (\<lambda>(sv, w). let (t, w') = clk w in (Inr t, (sv, w')))"

definition getServiceToCall :: "'w clock \<Rightarrow> nat option \<Rightarrow> ('p, 'w, 'p service_to_call) calls" where
  "getServiceToCall clk i = (\<lambda>(sv, w). case service_at i sv of
        Inl e \<Rightarrow> (Inl e, (sv, w))
      | Inr (nm, p) \<Rightarrow> let (t, w') = clk w in
          (Inr \<lparr>st_providerName = nm, st_serviceName = sv_serviceName sv, st_service = p,
             st_call = \<lparr>ca_when = t, ca_msecs = 0, ca_success = False, ca_result = None, ca_error = None\<rparr>\<rparr>, (sv, w')))"

definition serviceToCall :: "'w clock \<Rightarrow> ('p, 'w, 'p service_to_call) calls" where
  "serviceToCall clk = (\<lambda>(sv, w). getServiceToCall clk (sv_index sv) (sv, w))"

definition allServicesToCall :: "'w clock \<Rightarrow> ('p, 'w, 'p service_to_call list) calls" where
  "allServicesToCall clk = (\<lambda>(sv, w). mapS (\<lambda>i. getServiceToCall clk (Some i)) [0..<length (sv_services sv)] (sv, w))"

definition new_counts :: "msecs \<Rightarrow> msecs \<Rightarrow> call_counts" where
  "new_counts since til = \<lparr>cc_success = 0, cc_failure = 0, cc_error = 0, cc_since = since, cc_until = til\<rparr>"

definition on_first :: "('a \<Rightarrow> 'a) \<Rightarrow> 'a list \<Rightarrow> 'a list" where
  "on_first f xs = (case xs of [] \<Rightarrow> [] | x # xs \<Rightarrow> f x # xs)"

definition add_call_at :: "msecs \<Rightarrow> string \<Rightarrow> service_call \<Rightarrow> 'p services \<Rightarrow> provider_history" where
  "add_call_at now providerName call sv =
     (let h = (case sv_history sv providerName of Some h \<Rightarrow> h
               | None \<Rightarrow> \<lparr>ph_serviceName = sv_serviceName sv, ph_providerName = providerName, ph_calls = [],
                   ph_totalCounts = new_counts (sv_since sv) now, ph_resetCounts = [new_counts (sv_since sv) now]\<rparr>)
      in h\<lparr>ph_calls := take MAX_CALL_HISTORY (call # ph_calls h),
           ph_totalCounts := (ph_totalCounts h)\<lparr>cc_until := now\<rparr>,
           ph_resetCounts := on_first (\<lambda>r. r\<lparr>cc_until := now\<rparr>) (ph_resetCounts h)\<rparr>)"

text \<open>\<open>_addServiceCall\<close>, and then the counters \<open>f\<close> of the history it returns.\<close>

definition addServiceCall ::
  "'w clock \<Rightarrow> string \<Rightarrow> service_call \<Rightarrow> (call_counts \<Rightarrow> call_counts) \<Rightarrow> ('p, 'w, unit) calls" where
  "addServiceCall clk providerName call f = bindS (now_of clk) (\<lambda>now. \<lambda>(sv, w).
     (Inr (), (sv\<lparr>sv_history := (sv_history sv)(providerName \<mapsto>
        (let h = add_call_at now providerName call sv
         in h\<lparr>ph_totalCounts := f (ph_totalCounts h), ph_resetCounts := on_first f (ph_resetCounts h)\<rparr>))\<rparr>, w)))"

definition one_success :: "call_counts \<Rightarrow> call_counts" where
  "one_success c = c\<lparr>cc_success := cc_success c + 1\<rparr>"

definition one_failure :: "call_counts \<Rightarrow> call_counts" where
  "one_failure c = c\<lparr>cc_failure := cc_failure c + 1\<rparr>"

definition one_error :: "call_counts \<Rightarrow> call_counts" where
  "one_error c = c\<lparr>cc_failure := cc_failure c + 1, cc_error := cc_error c + 1\<rparr>"

definition addServiceCallSuccess :: "'w clock \<Rightarrow> 'p service_to_call \<Rightarrow> string option \<Rightarrow> ('p, 'w, unit) calls" where
  "addServiceCallSuccess clk stc result = bindS (now_of clk) (\<lambda>now.
     addServiceCall clk (st_providerName stc)
       ((st_call stc)\<lparr>ca_success := True, ca_result := result, ca_error := None, ca_msecs := now - ca_when (st_call stc)\<rparr>)
       one_success)"

text \<open>Failures and errors are entered under the name of the provider at the index, not of the one called.\<close>

definition addServiceCallFailure :: "'w clock \<Rightarrow> 'p service_to_call \<Rightarrow> string option \<Rightarrow> ('p, 'w, unit) calls" where
  "addServiceCallFailure clk stc result = bindS (now_of clk) (\<lambda>now. \<lambda>(sv, w).
     bindS (liftS (current_name sv)) (\<lambda>nm. addServiceCall clk nm
       ((st_call stc)\<lparr>ca_success := False, ca_result := result, ca_error := None, ca_msecs := now - ca_when (st_call stc)\<rparr>)
       one_failure) (sv, w))"

definition addServiceCallError :: "'w clock \<Rightarrow> 'p service_to_call \<Rightarrow> service_error \<Rightarrow> ('p, 'w, unit) calls" where
  "addServiceCallError clk stc err = bindS (now_of clk) (\<lambda>now. \<lambda>(sv, w).
     bindS (liftS (current_name sv)) (\<lambda>nm. addServiceCall clk nm
       ((st_call stc)\<lparr>ca_success := False, ca_result := None, ca_error := Some err, ca_msecs := now - ca_when (st_call stc)\<rparr>)
       one_error) (sv, w))"

section \<open>The history\<close>

text \<open>With \<open>reset\<close> every provider starts a new interval; the answer is the history before that.\<close>

definition new_interval :: "msecs \<Rightarrow> provider_history \<Rightarrow> provider_history" where
  "new_interval now h = h\<lparr>ph_resetCounts := take MAX_CALL_HISTORY
     (new_counts now now # on_first (\<lambda>r. r\<lparr>cc_until := now\<rparr>) (ph_resetCounts h))\<rparr>"

definition getServiceCallHistory :: "'w clock \<Rightarrow> bool \<Rightarrow> ('p, 'w, string \<rightharpoonup> provider_history) calls" where
  "getServiceCallHistory clk reset = bindS (now_of clk) (\<lambda>now. \<lambda>(sv, w).
     (Inr (sv_history sv),
      (if reset then sv\<lparr>sv_history := (\<lambda>nm. map_option (new_interval now) (sv_history sv nm))\<rparr> else sv, w)))"

section \<open>What recording keeps\<close>

text \<open>The outcome of every operation on the calls, given the two times it reads.\<close>

lemma serviceToCall_cases:
  assumes "sv_index sv = Some i" "i < length (sv_services sv)"
  obtains stc w' where "serviceToCall clk (sv, w) = (Inr stc, (sv, w'))"
    "st_providerName stc = fst (sv_services sv ! i)" "st_service stc = snd (sv_services sv ! i)"
  using assms by (cases "sv_services sv ! i"; cases "clk w")
    (auto simp: serviceToCall_def getServiceToCall_def service_at_def Let_def)

definition same_providers :: "'p services \<Rightarrow> 'p services \<Rightarrow> bool" where
  "same_providers sv sv' \<longleftrightarrow> sv_services sv' = sv_services sv \<and> sv_index sv' = sv_index sv \<and>
     sv_serviceName sv' = sv_serviceName sv \<and> sv_since sv' = sv_since sv"

lemma same_providers_refl [simp]: "same_providers sv sv"
  by (simp add: same_providers_def)

lemma same_providers_history [simp]: "same_providers sv (sv\<lparr>sv_history := h\<rparr>)"
  by (simp add: same_providers_def)

lemma same_providers_trans: "same_providers a b \<Longrightarrow> same_providers b c \<Longrightarrow> same_providers a c"
  by (simp add: same_providers_def)

lemma now_of_run: "now_of clk (sv, w) = (Inr (fst (clk w)), (sv, snd (clk w)))"
  by (simp add: now_of_def split: prod.splits)

lemma recording:
  "\<exists>sv' w'. addServiceCallSuccess clk stc r (sv, w) = (Inr (), (sv', w')) \<and> same_providers sv sv'"
  "current_name sv = Inr nm \<Longrightarrow> \<exists>sv' w'. addServiceCallFailure clk stc r (sv, w) = (Inr (), (sv', w')) \<and> same_providers sv sv'"
  "current_name sv = Inr nm \<Longrightarrow> \<exists>sv' w'. addServiceCallError clk stc err (sv, w) = (Inr (), (sv', w')) \<and> same_providers sv sv'"
  by (auto simp: addServiceCallSuccess_def addServiceCallFailure_def addServiceCallError_def addServiceCall_def
      bindS_def now_of_run liftS_def)

lemma current_name_at: "sv_index sv = Some i \<Longrightarrow> i < length (sv_services sv) \<Longrightarrow> current_name sv = Inr (fst (sv_services sv ! i))"
  by (simp add: current_name_def service_at_def)

section \<open>The history is consistent\<close>

definition counts_sum :: "(call_counts \<Rightarrow> nat) \<Rightarrow> call_counts list \<Rightarrow> nat" where
  "counts_sum f rs = sum_list (map f rs)"

definition history_ok :: "string \<Rightarrow> provider_history \<Rightarrow> bool" where
  "history_ok nm h \<longleftrightarrow> ph_providerName h = nm \<and>
     length (ph_calls h) = min 32 (cc_success (ph_totalCounts h) + cc_failure (ph_totalCounts h)) \<and>
     cc_error (ph_totalCounts h) \<le> cc_failure (ph_totalCounts h) \<and>
     ph_resetCounts h \<noteq> [] \<and> length (ph_resetCounts h) \<le> 32 \<and>
     (\<forall>r \<in> set (ph_resetCounts h). cc_error r \<le> cc_failure r) \<and>
     (\<forall>f \<in> {cc_success, cc_failure, cc_error}. counts_sum f (ph_resetCounts h) \<le> f (ph_totalCounts h) \<and>
        (length (ph_resetCounts h) < 32 \<longrightarrow> counts_sum f (ph_resetCounts h) = f (ph_totalCounts h)))"

definition histories_ok :: "'p services \<Rightarrow> bool" where
  "histories_ok sv \<longleftrightarrow> (\<forall>nm h. sv_history sv nm = Some h \<longrightarrow> history_ok nm h)"

text \<open>What the three ways of counting a call have in common.\<close>

definition counts_one :: "(call_counts \<Rightarrow> call_counts) \<Rightarrow> bool" where
  "counts_one f \<longleftrightarrow> f \<in> {one_success, one_failure, one_error}"

lemma history_ok_call:
  assumes "\<And>h. sv_history sv nm = Some h \<Longrightarrow> history_ok nm h" "counts_one f"
  shows "let h = add_call_at now nm call sv
    in history_ok nm (h\<lparr>ph_totalCounts := f (ph_totalCounts h), ph_resetCounts := on_first f (ph_resetCounts h)\<rparr>)"
proof -
  define h where "h = (case sv_history sv nm of Some h \<Rightarrow> h
               | None \<Rightarrow> \<lparr>ph_serviceName = sv_serviceName sv, ph_providerName = nm, ph_calls = [],
                   ph_totalCounts = new_counts (sv_since sv) now, ph_resetCounts = [new_counts (sv_since sv) now]\<rparr>)"
  have ok: "history_ok nm h"
    using assms(1) by (cases "sv_history sv nm") (auto simp: h_def history_ok_def new_counts_def counts_sum_def)
  then obtain r rs where rs: "ph_resetCounts h = r # rs" by (auto simp: history_ok_def neq_Nil_conv)
  show ?thesis using ok assms(2) rs
    by (auto simp: add_call_at_def h_def [symmetric] history_ok_def counts_one_def on_first_def counts_sum_def
        MAX_CALL_HISTORY_def one_success_def one_failure_def one_error_def Let_def)
qed

lemma new_interval_ok: "history_ok nm h \<Longrightarrow> history_ok nm (new_interval now h)"
proof -
  assume ok: "history_ok nm h"
  then obtain r rs where rs: "ph_resetCounts h = r # rs" by (auto simp: history_ok_def neq_Nil_conv)
  have le: "sum_list (map f (take k xs)) \<le> sum_list (map f xs)" for f :: "call_counts \<Rightarrow> nat" and k xs
    by (metis append_take_drop_id le_add1 map_append sum_list_append)
  have t: "take 32 (x # y # xs) = x # y # take 30 xs" for x y :: call_counts and xs by simp
  show ?thesis
  proof (cases "length rs < 31")
    case True
    then show ?thesis using ok rs
      by (auto simp: new_interval_def history_ok_def on_first_def counts_sum_def MAX_CALL_HISTORY_def new_counts_def t)
  next
    case False
    have *: "sum_list (map f (take 30 rs)) \<le> sum_list (map f rs)" for f :: "call_counts \<Rightarrow> nat" by (rule le)
    have **: "r' \<in> set (take 30 rs) \<Longrightarrow> r' \<in> set rs" for r' by (rule in_set_takeD)
    show ?thesis using ok rs False * [of cc_success] * [of cc_failure] * [of cc_error]
      by (auto simp: new_interval_def history_ok_def on_first_def counts_sum_def MAX_CALL_HISTORY_def new_counts_def t
          dest: **)
  qed
qed

inductive service_step :: "'w clock \<Rightarrow> 'p services \<times> 'w \<Rightarrow> 'p services \<times> 'w \<Rightarrow> bool" for clk where
  success: "addServiceCallSuccess clk stc r s = (q, s') \<Longrightarrow> service_step clk s s'"
| failure: "addServiceCallFailure clk stc r s = (q, s') \<Longrightarrow> service_step clk s s'"
| error: "addServiceCallError clk stc e s = (q, s') \<Longrightarrow> service_step clk s s'"
| history: "getServiceCallHistory clk reset s = (q, s') \<Longrightarrow> service_step clk s s'"
| add: "service_step clk (sv, w) (add_service p sv, w')"
| remove: "service_step clk (sv, w) (remove_service nm sv, w')"
| move: "service_step clk (sv, w) (moveServiceToLast stc sv, w')"
| next_one: "service_step clk (sv, w) (next_index sv, w')"
| reset: "service_step clk (sv, w) (reset_index sv, w')"

lemma addServiceCall_ok:
  assumes "addServiceCall clk nm call f s = (q, s')" "histories_ok (fst s)" "counts_one f"
  shows "histories_ok (fst s')"
proof -
  obtain sv w where s: "s = (sv, w)" by (cases s) auto
  from assms(1) have "fst s' = sv\<lparr>sv_history := (sv_history sv)(nm \<mapsto>
        (let h = add_call_at (fst (clk w)) nm call sv
         in h\<lparr>ph_totalCounts := f (ph_totalCounts h), ph_resetCounts := on_first f (ph_resetCounts h)\<rparr>))\<rparr>"
    by (auto simp: s addServiceCall_def bindS_def now_of_run)
  moreover have "let h = add_call_at (fst (clk w)) nm call sv
    in history_ok nm (h\<lparr>ph_totalCounts := f (ph_totalCounts h), ph_resetCounts := on_first f (ph_resetCounts h)\<rparr>)"
    using assms(2) by (intro history_ok_call assms(3)) (simp add: s histories_ok_def)
  ultimately show ?thesis using assms(2) by (simp add: s histories_ok_def Let_def)
qed

lemma service_step_ok: "service_step clk s s' \<Longrightarrow> histories_ok (fst s) \<Longrightarrow> histories_ok (fst s')"
proof (induction rule: service_step.induct)
  case (success stc r s q s')
  then show ?case by (cases s)
      (auto simp: addServiceCallSuccess_def bindS_def now_of_run counts_one_def elim!: addServiceCall_ok)
next
  case (failure stc r s q s')
  then show ?case by (cases s; cases "current_name (fst s)")
      (auto simp: addServiceCallFailure_def bindS_def now_of_run counts_one_def elim!: addServiceCall_ok)
next
  case (error stc e s q s')
  then show ?case by (cases s; cases "current_name (fst s)")
      (auto simp: addServiceCallError_def bindS_def now_of_run counts_one_def elim!: addServiceCall_ok)
next
  case (history reset s q s')
  then show ?case by (cases s)
      (auto simp: getServiceCallHistory_def bindS_def now_of_run histories_ok_def intro!: new_interval_ok split: if_splits)
qed (auto simp: histories_ok_def add_service_def remove_service_def moveServiceToLast_def next_index_def reset_index_def
    split: option.splits)

lemma histories_reachable:
  "(service_step clk)\<^sup>*\<^sup>* s s' \<Longrightarrow> histories_ok (fst s) \<Longrightarrow> histories_ok (fst s')"
  by (induction rule: rtranclp_induct) (auto intro: service_step_ok)

end
