(* ===== verification/HeaderCache.thy ===== *)
theory HeaderCache
  imports ServiceCalls Headers "HOL-Library.AList"
begin

text \<open>
  The cache of block headers by height and by hash, \<^verbatim>\<open>src/src/cache/BlockHeaderCache.ts\<close>, and the requests for
  headers and lock times of \<^verbatim>\<open>src/src/services/Services.ts\<close> that use it.

  The package \<open>node-cache\<close> is an association list from the keys \<open>height:\<close> and \<open>hash:\<close>; an entry expires in a
  step of its own, \<open>expire_key\<close>, which calls the handler the cache registers for it. The set of hashes is the
  list of its members in order of insertion. Events and metrics are left out.
\<close>

section \<open>The cache\<close>

datatype cache_key = HeightKey int | HashKey jstr

record header_cache =
  hc_cache :: "(cache_key \<times> block_header) list"
  hc_headerHashes :: "jstr list"
  hc_maxEntries :: int
  hc_hits :: nat
  hc_misses :: nat

definition new_cache :: "int \<Rightarrow> header_cache" where
  "new_cache maxEntries = \<lparr>hc_cache = [], hc_headerHashes = [], hc_maxEntries = maxEntries, hc_hits = 0, hc_misses = 0\<rparr>"

definition cache_get :: "cache_key \<Rightarrow> header_cache \<Rightarrow> block_header option" where
  "cache_get k c = map_of (hc_cache c) k"

definition cache_del :: "cache_key \<Rightarrow> header_cache \<Rightarrow> header_cache" where
  "cache_del k c = c\<lparr>hc_cache := AList.delete k (hc_cache c)\<rparr>"

definition cache_set :: "cache_key \<Rightarrow> block_header \<Rightarrow> header_cache \<Rightarrow> header_cache" where
  "cache_set k h c = c\<lparr>hc_cache := AList.update k h (hc_cache c)\<rparr>"

definition drop_hash :: "jstr \<Rightarrow> header_cache \<Rightarrow> header_cache" where
  "drop_hash x c = c\<lparr>hc_headerHashes := filter (\<lambda>y. y \<noteq> x) (hc_headerHashes c)\<rparr>"

definition count_lookup :: "block_header option \<Rightarrow> header_cache \<Rightarrow> header_cache" where
  "count_lookup r c = (if r \<noteq> None then c\<lparr>hc_hits := hc_hits c + 1\<rparr> else c\<lparr>hc_misses := hc_misses c + 1\<rparr>)"

definition getByHeight :: "int \<Rightarrow> header_cache \<Rightarrow> block_header option \<times> header_cache" where
  "getByHeight height c = (let r = cache_get (HeightKey height) c in (r, count_lookup r c))"

definition getByHash :: "jstr \<Rightarrow> header_cache \<Rightarrow> block_header option \<times> header_cache" where
  "getByHash hash c = (let r = cache_get (HashKey hash) c in (r, count_lookup r c))"

definition invalidateHeight :: "int \<Rightarrow> header_cache \<Rightarrow> header_cache" where
  "invalidateHeight height c =
     (let header = cache_get (HeightKey height) c; c' = cache_del (HeightKey height) c
      in case header of None \<Rightarrow> c' | Some h \<Rightarrow> drop_hash (bh_hash h) (cache_del (HashKey (bh_hash h)) c'))"

definition invalidateHash :: "jstr \<Rightarrow> header_cache \<Rightarrow> header_cache" where
  "invalidateHash hash c =
     (let header = cache_get (HashKey hash) c; c' = drop_hash hash (cache_del (HashKey hash) c)
      in case header of None \<Rightarrow> c' | Some h \<Rightarrow> cache_del (HeightKey (bh_height h)) c')"

function evictOldHeaders :: "header_cache \<Rightarrow> header_cache" where
  "evictOldHeaders c =
     (if hc_maxEntries c < int (length (hc_headerHashes c))
      then case hc_headerHashes c of [] \<Rightarrow> c | oldHash # _ \<Rightarrow> evictOldHeaders (invalidateHash oldHash c)
      else c)"
  by pat_completeness auto
termination
proof (relation "measure (\<lambda>c. length (hc_headerHashes c))")
  fix c :: header_cache and x xs assume "hc_headerHashes c = x # xs"
  then show "(invalidateHash x c, c) \<in> measure (\<lambda>c. length (hc_headerHashes c))"
    by (auto simp: invalidateHash_def drop_hash_def cache_del_def Let_def less_Suc_eq_le split: option.splits)
qed simp

declare evictOldHeaders.simps [simp del]

definition set_header :: "block_header \<Rightarrow> header_cache \<Rightarrow> header_cache" where
  "set_header header c0 =
     (let c1 = (case cache_get (HeightKey (bh_height header)) c0 of
            Some h \<Rightarrow> if bh_hash h \<noteq> bh_hash header then drop_hash (bh_hash h) (cache_del (HashKey (bh_hash h)) c0) else c0
          | None \<Rightarrow> c0);
          c2 = (case cache_get (HashKey (bh_hash header)) c1 of
            Some h \<Rightarrow> if bh_height h \<noteq> bh_height header then cache_del (HeightKey (bh_height h)) c1 else c1
          | None \<Rightarrow> c1);
          c3 = drop_hash (bh_hash header) c2;
          c4 = c3\<lparr>hc_headerHashes := hc_headerHashes c3 @ [bh_hash header]\<rparr>
      in evictOldHeaders (cache_set (HashKey (bh_hash header)) header (cache_set (HeightKey (bh_height header)) header c4)))"

definition setHeader :: "int \<Rightarrow> block_header \<Rightarrow> header_cache \<Rightarrow> service_error + header_cache" where
  "setHeader height header c = (if bh_height header \<noteq> height
     then Inl \<lparr>we_code = ''Error'', we_message = ''BLOCK_HEADER_CACHE_HEIGHT_MISMATCH''\<rparr> else Inr (set_header header c))"

fun invalidate_hashes_from :: "int \<Rightarrow> jstr list \<Rightarrow> header_cache \<Rightarrow> nat \<Rightarrow> nat \<times> header_cache" where
  "invalidate_hashes_from height [] c removed = (removed, c)"
| "invalidate_hashes_from height (x # xs) c removed =
     (case cache_get (HashKey x) c of
        Some h \<Rightarrow> if height \<le> bh_height h then invalidate_hashes_from height xs (invalidateHash x c) (removed + 1)
          else invalidate_hashes_from height xs c removed
      | None \<Rightarrow> invalidate_hashes_from height xs c removed)"

definition invalidateFromHeight :: "int \<Rightarrow> header_cache \<Rightarrow> nat \<times> header_cache" where
  "invalidateFromHeight height c = invalidate_hashes_from height (hc_headerHashes c) c 0"

definition clear_cache :: "header_cache \<Rightarrow> header_cache" where
  "clear_cache c = c\<lparr>hc_cache := [], hc_headerHashes := []\<rparr>"

definition removeHeaderIndexes :: "cache_key \<Rightarrow> block_header option \<Rightarrow> header_cache \<Rightarrow> header_cache" where
  "removeHeaderIndexes key header c =
     (case header of None \<Rightarrow> c
      | Some h \<Rightarrow> (case key of
            HeightKey _ \<Rightarrow> drop_hash (bh_hash h) (cache_del (HashKey (bh_hash h)) c)
          | HashKey _ \<Rightarrow> drop_hash (bh_hash h) (cache_del (HeightKey (bh_height h)) c)))"

definition expire_key :: "cache_key \<Rightarrow> header_cache \<Rightarrow> header_cache" where
  "expire_key k c = removeHeaderIndexes k (cache_get k c) (cache_del k c)"

definition onBlockMined :: "block_header option \<Rightarrow> int option \<Rightarrow> header_cache \<Rightarrow> header_cache" where
  "onBlockMined header blockHeight c =
     (case header of Some h \<Rightarrow> set_header h (snd (invalidateFromHeight (bh_height h) c))
      | None \<Rightarrow> (case blockHeight of Some n \<Rightarrow> snd (invalidateFromHeight n c) | None \<Rightarrow> c))"

definition onReorg :: "block_header list option \<Rightarrow> block_header option \<Rightarrow> int option \<Rightarrow> header_cache \<Rightarrow> header_cache" where
  "onReorg deactivatedHeaders oldTip depth c =
     (if deactivatedHeaders \<noteq> None \<and> deactivatedHeaders \<noteq> Some []
      then fold (\<lambda>h. invalidateHash (bh_hash h)) (case deactivatedHeaders of None \<Rightarrow> [] | Some hs \<Rightarrow> hs) c
      else case (oldTip, depth) of
             (Some t, Some d) \<Rightarrow> snd (invalidateFromHeight (max 0 (bh_height t - d + 1)) c)
           | _ \<Rightarrow> clear_cache c)"

section \<open>Headers and lock times from the services\<close>

text \<open>The chain tracker of the options, where there is one.\<close>

record 'w chaintracks =
  ct_findHeaderForHeight :: "int \<Rightarrow> ('w, service_error, block_header option) sem"
  ct_findHeaderForBlockHash :: "jstr \<Rightarrow> ('w, service_error, block_header option) sem"
  ct_currentHeight :: "('w, service_error, int) sem"

definition named_error :: "string \<Rightarrow> string \<Rightarrow> service_error" where
  "named_error code msg = \<lparr>we_code = code, we_message = msg\<rparr>"

primrec retry_method :: "nat \<Rightarrow> ('w, service_error, 'r) sem \<Rightarrow> ('w, service_error, 'r) sem" where
  "retry_method 0 method = throwS (named_error ''WERR_INVALID_OPERATION'' ''hashToHeader service unavailable'')"
| "retry_method (Suc n) method = (\<lambda>w. case method w of
      (Inr r, w') \<Rightarrow> (Inr r, w')
    | (Inl e, w') \<Rightarrow> if we_code e \<noteq> ''ECONNRESET'' then (Inl e, w') else retry_method n method w')"

definition invokeChaintracksWithRetry ::
  "'w chaintracks option \<Rightarrow> ('w chaintracks \<Rightarrow> ('w, service_error, 'r) sem) \<Rightarrow> ('w, service_error, 'r) sem" where
  "invokeChaintracksWithRetry ct method =
     (case ct of None \<Rightarrow> throwS (named_error ''WERR_INVALID_PARAMETER'' ''options.chaintracks'')
      | Some t \<Rightarrow> retry_method 3 (method t))"

definition on_world :: "('w, 'e, 'a) sem \<Rightarrow> ('c \<times> 'w, 'e, 'a) sem" where
  "on_world m = (\<lambda>(c, w). let (r, w') = m w in (r, (c, w')))"

definition on_cache :: "('c \<Rightarrow> 'a \<times> 'c) \<Rightarrow> ('c \<times> 'w, 'e, 'a) sem" where
  "on_cache f = (\<lambda>(c, w). let (r, c') = f c in (Inr r, (c', w)))"

definition toBinaryBaseBlockHeader :: "sdk \<Rightarrow> block_header \<Rightarrow> int list" where
  "toBinaryBaseBlockHeader S header =
     sdk_w32 S (bh_version header) @ rev (sdk_unhex S (bh_previousHash header)) @ rev (sdk_unhex S (bh_merkleRoot header)) @
     sdk_w32 S (bh_time header) @ sdk_w32 S (bh_bits header) @ sdk_w32 S (bh_nonce header)"

definition validateHeaderMatchesHeight :: "block_header \<Rightarrow> int \<Rightarrow> service_error + unit" where
  "validateHeaderMatchesHeight header height =
     (if bh_height header \<noteq> height then Inl (named_error ''WERR_INTERNAL'' ''header service returned height'') else Inr ())"

definition validateHeaderMatchesHash :: "block_header \<Rightarrow> jstr \<Rightarrow> service_error + unit" where
  "validateHeaderMatchesHash header hash =
     (if toLowerCase (bh_hash header) \<noteq> toLowerCase hash
      then Inl (named_error ''WERR_INTERNAL'' ''header service returned hash'') else Inr ())"

definition header_at_height :: "int \<Rightarrow> 'w chaintracks \<Rightarrow> ('w, service_error, block_header) sem" where
  "header_at_height height t = bindS (ct_findHeaderForHeight t height) (\<lambda>header.
     case header of None \<Rightarrow> throwS (named_error ''WERR_INVALID_PARAMETER'' ''hash'')
       | Some h \<Rightarrow> bindS (liftS (validateHeaderMatchesHeight h height)) (\<lambda>_. retS h))"

definition getHeaderForHeight ::
  "sdk \<Rightarrow> 'w chaintracks option \<Rightarrow> int \<Rightarrow> (header_cache \<times> 'w, service_error, int list) sem" where
  "getHeaderForHeight S ct height = bindS (on_cache (getByHeight height)) (\<lambda>cached.
     case cached of Some h \<Rightarrow> retS (toBinaryBaseBlockHeader S h)
     | None \<Rightarrow> bindS (on_world (invokeChaintracksWithRetry ct (header_at_height height))) (\<lambda>header.
         bindS (on_cache (\<lambda>c. ((), set_header header c))) (\<lambda>_. retS (toBinaryBaseBlockHeader S header))))"

definition getHeight :: "'w chaintracks option \<Rightarrow> ('w, service_error, int) sem" where
  "getHeight ct = invokeChaintracksWithRetry ct ct_currentHeight"

definition checked_header :: "jstr \<Rightarrow> block_header option \<Rightarrow> (header_cache \<times> 'w, service_error, block_header) sem" where
  "checked_header hash header = (case header of None \<Rightarrow> throwS (named_error ''WERR_INVALID_PARAMETER'' ''hash'')
     | Some h \<Rightarrow> bindS (liftS (validateHeaderMatchesHash h hash)) (\<lambda>_.
         bindS (on_cache (\<lambda>c. ((), set_header h c))) (\<lambda>_. retS h)))"

text \<open>The second source of a header by its hash, the provider WhatsOnChain, is an argument.\<close>

definition hashToHeader ::
  "'w chaintracks option \<Rightarrow> (jstr \<Rightarrow> ('w, service_error, block_header option) sem) \<Rightarrow> jstr \<Rightarrow>
   (header_cache \<times> 'w, service_error, block_header) sem" where
  "hashToHeader ct getBlockHeaderByHash hash = bindS (on_cache (getByHash hash)) (\<lambda>cached.
     case cached of Some h \<Rightarrow> retS h
     | None \<Rightarrow> bindS (on_world (invokeChaintracksWithRetry ct (\<lambda>t. ct_findHeaderForBlockHash t hash))) (\<lambda>header0.
         bindS (case header0 of Some h \<Rightarrow> retS (Some h) | None \<Rightarrow> on_world (getBlockHeaderByHash hash)) (checked_header hash)))"

text \<open>A lock time, or a transaction by the sequence numbers of its inputs and its lock time. \<open>seconds\<close> is
  \<open>Math.floor(Date.now() / 1000)\<close>.\<close>

datatype lock_time = LockNumber int | LockOf "int list" int

definition nLockTimeIsFinal :: "'w chaintracks option \<Rightarrow> ('w \<Rightarrow> int \<times> 'w) \<Rightarrow> lock_time \<Rightarrow> ('w, service_error, bool) sem" where
  "nLockTimeIsFinal ct seconds tx =
     (let n = (case tx of LockNumber n \<Rightarrow> n | LockOf _ n \<Rightarrow> n)
      in if (case tx of LockNumber _ \<Rightarrow> False | LockOf seqs _ \<Rightarrow> list_all (\<lambda>s. s = 4294967295) seqs) then retS True
         else if 500000000 \<le> n then (\<lambda>w. let (limit, w') = seconds w in (Inr (n < limit), w'))
         else bindS (getHeight ct) (\<lambda>height. retS (n < height)))"

end
