(* ===== verification/HeaderCacheProps.thy ===== *)
theory HeaderCacheProps
  imports HeaderCache
begin

text \<open>
  The header cache refines a set of headers with distinct heights and distinct hashes: the invariant that both
  keys of a header come and go together, and what every operation does to the set. Headers answered by the
  services are those asked for.
\<close>

section \<open>The invariant and the abstraction\<close>

definition cached :: "header_cache \<Rightarrow> block_header set" where
  "cached c = {h. cache_get (HashKey (bh_hash h)) c = Some h}"

definition cache_ok :: "header_cache \<Rightarrow> bool" where
  "cache_ok c \<longleftrightarrow> distinct (hc_headerHashes c) \<and>
     (\<forall>n h. cache_get (HeightKey n) c = Some h \<longrightarrow> bh_height h = n \<and> cache_get (HashKey (bh_hash h)) c = Some h) \<and>
     (\<forall>x h. cache_get (HashKey x) c = Some h \<longrightarrow> bh_hash h = x \<and> cache_get (HeightKey (bh_height h)) c = Some h) \<and>
     (\<forall>x. x \<in> set (hc_headerHashes c) \<longleftrightarrow> cache_get (HashKey x) c \<noteq> None)"

lemma cache_get_simps [simp]:
  "cache_get k (cache_del j c) = (if k = j then None else cache_get k c)"
  "cache_get k (cache_set j h c) = (if k = j then Some h else cache_get k c)"
  "cache_get k (drop_hash x c) = cache_get k c"
  "cache_get k (c\<lparr>hc_headerHashes := xs\<rparr>) = cache_get k c"
  "cache_get k (count_lookup r c) = cache_get k c"
  "hc_headerHashes (cache_del j c) = hc_headerHashes c" "hc_headerHashes (cache_set j h c) = hc_headerHashes c"
  "hc_headerHashes (drop_hash x c) = filter (\<lambda>y. y \<noteq> x) (hc_headerHashes c)"
  "hc_headerHashes (count_lookup r c) = hc_headerHashes c"
  "hc_maxEntries (cache_del j c) = hc_maxEntries c" "hc_maxEntries (cache_set j h c) = hc_maxEntries c"
  "hc_maxEntries (drop_hash x c) = hc_maxEntries c" "hc_maxEntries (count_lookup r c) = hc_maxEntries c"
  by (auto simp: cache_get_def cache_del_def cache_set_def drop_hash_def count_lookup_def update_conv' delete_conv')

lemma cache_okD:
  assumes "cache_ok c"
  shows "cache_get (HeightKey n) c = Some h \<longleftrightarrow> h \<in> cached c \<and> bh_height h = n"
    "cache_get (HashKey x) c = Some h \<longleftrightarrow> h \<in> cached c \<and> bh_hash h = x"
    "x \<in> set (hc_headerHashes c) \<longleftrightarrow> (\<exists>h \<in> cached c. bh_hash h = x)"
    "h \<in> cached c \<Longrightarrow> g \<in> cached c \<Longrightarrow> bh_height h = bh_height g \<or> bh_hash h = bh_hash g \<Longrightarrow> h = g"
proof -
  note ok = assms [unfolded cache_ok_def]
  show 1: "cache_get (HeightKey n) c = Some h \<longleftrightarrow> h \<in> cached c \<and> bh_height h = n" for n h
    using ok by (auto simp: cached_def)
  show 2: "cache_get (HashKey x) c = Some h \<longleftrightarrow> h \<in> cached c \<and> bh_hash h = x" for x h
    using ok by (auto simp: cached_def)
  show "x \<in> set (hc_headerHashes c) \<longleftrightarrow> (\<exists>h \<in> cached c. bh_hash h = x)"
    using ok 2 by (metis option.exhaust option.distinct(1))
  show "h \<in> cached c \<Longrightarrow> g \<in> cached c \<Longrightarrow> bh_height h = bh_height g \<or> bh_hash h = bh_hash g \<Longrightarrow> h = g"
    using 1 2 by (metis option.inject)
qed

text \<open>A cache is determined, up to its counters and the order of its hashes, by the set it stands for.\<close>

lemma cache_okI:
  assumes "distinct (hc_headerHashes c)" "set (hc_headerHashes c) = bh_hash ` H"
    "\<And>g h. g \<in> H \<Longrightarrow> h \<in> H \<Longrightarrow> bh_height g = bh_height h \<or> bh_hash g = bh_hash h \<Longrightarrow> g = h"
    "\<And>n h. cache_get (HeightKey n) c = Some h \<longleftrightarrow> h \<in> H \<and> bh_height h = n"
    "\<And>x h. cache_get (HashKey x) c = Some h \<longleftrightarrow> h \<in> H \<and> bh_hash h = x"
  shows "cache_ok c \<and> cached c = H"
proof
  show "cached c = H" using assms(5) by (auto simp: cached_def)
  have "cache_get (HashKey x) c \<noteq> None \<longleftrightarrow> x \<in> bh_hash ` H" for x
    using assms(5) by (metis (no_types, lifting) image_iff option.exhaust option.distinct(1))
  then show "cache_ok c" unfolding cache_ok_def using assms(1,2,4,5) by auto
qed

lemma new_cache_ok: "cache_ok (new_cache m) \<and> cached (new_cache m) = {}"
  by (rule cache_okI) (auto simp: new_cache_def cache_get_def)

lemma remove_both:
  assumes "cache_ok c" "h \<in> cached c"
    "\<And>k. cache_get k c' = (if k = HashKey (bh_hash h) \<or> k = HeightKey (bh_height h) then None else cache_get k c)"
    "hc_headerHashes c' = filter (\<lambda>y. y \<noteq> bh_hash h) (hc_headerHashes c)"
  shows "cache_ok c' \<and> cached c' = cached c - {h}"
proof (rule cache_okI)
  note D = cache_okD [OF assms(1)]
  show "distinct (hc_headerHashes c')" using assms(1) by (simp add: assms(4) cache_ok_def)
  show "set (hc_headerHashes c') = bh_hash ` (cached c - {h})"
    using D(3) D(4) [OF _ assms(2)] unfolding assms(4) by auto
  show "cache_get (HeightKey n) c' = Some g \<longleftrightarrow> g \<in> cached c - {h} \<and> bh_height g = n" for n g
    using D(1) D(4) [OF _ assms(2)] by (auto simp: assms(3))
  show "cache_get (HashKey x) c' = Some g \<longleftrightarrow> g \<in> cached c - {h} \<and> bh_hash g = x" for x g
    using D(2) D(4) [OF _ assms(2)] by (auto simp: assms(3))
qed (use cache_okD(4) [OF assms(1)] in blast)

lemma remove_none:
  assumes "cache_ok c" "\<And>k. cache_get k c' = cache_get k c" "hc_headerHashes c' = hc_headerHashes c"
  shows "cache_ok c' \<and> cached c' = cached c"
  using assms by (simp add: cache_ok_def cached_def)

section \<open>Invalidation\<close>

lemma invalidateHash_ok:
  assumes "cache_ok c"
  shows "cache_ok (invalidateHash x c) \<and> cached (invalidateHash x c) = {h \<in> cached c. bh_hash h \<noteq> x}"
    "hc_maxEntries (invalidateHash x c) = hc_maxEntries c"
    "hc_headerHashes (invalidateHash x c) = filter (\<lambda>y. y \<noteq> x) (hc_headerHashes c)"
proof -
  note D = cache_okD [OF assms]
  show "hc_maxEntries (invalidateHash x c) = hc_maxEntries c"
    "hc_headerHashes (invalidateHash x c) = filter (\<lambda>y. y \<noteq> x) (hc_headerHashes c)"
    by (auto simp: invalidateHash_def Let_def split: option.splits)
  show "cache_ok (invalidateHash x c) \<and> cached (invalidateHash x c) = {h \<in> cached c. bh_hash h \<noteq> x}"
  proof (cases "cache_get (HashKey x) c")
    case None
    have "bh_hash h \<noteq> x" if "h \<in> cached c" for h using D(2) that None by (metis option.distinct(1))
    then have no: "x \<notin> set (hc_headerHashes c)" "{h \<in> cached c. bh_hash h \<noteq> x} = cached c" using D(3) by auto
    then have "filter (\<lambda>y. y \<noteq> x) (hc_headerHashes c) = hc_headerHashes c" by (auto simp: filter_id_conv)
    with None remove_none [OF assms, of "invalidateHash x c"] show ?thesis unfolding no(2)
      by (simp add: invalidateHash_def)
  next
    case (Some h)
    then have h: "h \<in> cached c" "bh_hash h = x" using D(2) by auto
    have "{g \<in> cached c. bh_hash g \<noteq> x} = cached c - {h}" using h D(4) by blast
    with remove_both [OF assms h(1), of "invalidateHash x c"] Some h(2) show ?thesis
      by (simp add: invalidateHash_def)
  qed
qed

lemma invalidateHeight_ok:
  assumes "cache_ok c"
  shows "cache_ok (invalidateHeight n c) \<and> cached (invalidateHeight n c) = {h \<in> cached c. bh_height h \<noteq> n}"
proof (cases "cache_get (HeightKey n) c")
  case None
  have "bh_height h \<noteq> n" if "h \<in> cached c" for h using cache_okD(1) [OF assms] that None by (metis option.distinct(1))
  then have no: "{h \<in> cached c. bh_height h \<noteq> n} = cached c" by auto
  with None remove_none [OF assms, of "invalidateHeight n c"] show ?thesis unfolding no by (simp add: invalidateHeight_def)
next
  case (Some h)
  note D = cache_okD [OF assms]
  have h: "h \<in> cached c" "bh_height h = n" using Some D(1) by auto
  have "{g \<in> cached c. bh_height g \<noteq> n} = cached c - {h}" using h D(4) by blast
  with remove_both [OF assms h(1), of "invalidateHeight n c"] Some h(2) show ?thesis
    by (auto simp: invalidateHeight_def)
qed



lemma expire_ok: "cache_ok c \<Longrightarrow> expire_key k c = (case k of HeightKey n \<Rightarrow> invalidateHeight n c | HashKey x \<Rightarrow>
    (if cache_get (HashKey x) c = None then cache_del (HashKey x) c else invalidateHash x c))"
  by (cases k) (auto simp: expire_key_def removeHeaderIndexes_def invalidateHeight_def invalidateHash_def Let_def
      cache_ok_def drop_hash_def cache_del_def split: option.splits)

section \<open>Insertion\<close>

text \<open>Eviction drops the oldest hashes, as many as are too many, and their headers.\<close>

lemma evict_ok:
  "cache_ok c \<Longrightarrow> cache_ok (evictOldHeaders c) \<and> hc_maxEntries (evictOldHeaders c) = hc_maxEntries c \<and>
     hc_headerHashes (evictOldHeaders c) =
       drop (length (hc_headerHashes c) - nat (hc_maxEntries c)) (hc_headerHashes c) \<and>
     cached (evictOldHeaders c) = {h \<in> cached c. bh_hash h \<in> set (hc_headerHashes (evictOldHeaders c))}"
proof (induction c rule: evictOldHeaders.induct)
  case (1 c)
  note D = cache_okD [OF "1.prems"]
  show ?case
  proof (cases "hc_maxEntries c < int (length (hc_headerHashes c)) \<and> hc_headerHashes c \<noteq> []")
    case False
    then have "evictOldHeaders c = c" by (subst evictOldHeaders.simps) auto
    moreover have "length (hc_headerHashes c) - nat (hc_maxEntries c) = 0" using False by auto
    ultimately show ?thesis using "1.prems" D(3) by auto
  next
    case True
    then obtain x xs where hs: "hc_headerHashes c = x # xs" by (cases "hc_headerHashes c") auto
    have step: "evictOldHeaders c = evictOldHeaders (invalidateHash x c)"
      using True hs by (subst evictOldHeaders.simps) simp
    note inv = invalidateHash_ok [OF "1.prems", of x]
    have "distinct (x # xs)" using "1.prems" hs by (simp add: cache_ok_def)
    then have hs': "hc_headerHashes (invalidateHash x c) = xs" using inv(3) hs by (auto simp: filter_id_conv)
    have IH: "cache_ok (evictOldHeaders (invalidateHash x c))" "hc_maxEntries (evictOldHeaders (invalidateHash x c)) = hc_maxEntries c"
      "hc_headerHashes (evictOldHeaders (invalidateHash x c)) = drop (length xs - nat (hc_maxEntries c)) xs"
      "cached (evictOldHeaders (invalidateHash x c)) =
         {h \<in> cached (invalidateHash x c). bh_hash h \<in> set (hc_headerHashes (evictOldHeaders (invalidateHash x c)))}"
      using "1.IH" [OF _ hs] True inv(1,2) hs' by simp_all
    have n: "length (hc_headerHashes c) - nat (hc_maxEntries c) = Suc (length xs - nat (hc_maxEntries c))"
      using True hs by auto
    have "x \<notin> set (drop (length xs - nat (hc_maxEntries c)) xs)" using \<open>distinct (x # xs)\<close> by (auto dest: in_set_dropD)
    then have "cached (evictOldHeaders (invalidateHash x c)) =
        {h \<in> cached c. bh_hash h \<in> set (hc_headerHashes (evictOldHeaders (invalidateHash x c)))}"
      unfolding IH(4) conjunct2 [OF inv(1)] IH(3) by auto
    with IH n hs step show ?thesis by simp
  qed
qed

definition with_header :: "block_header \<Rightarrow> header_cache \<Rightarrow> header_cache" where
  "with_header header c0 =
     (let c1 = (case cache_get (HeightKey (bh_height header)) c0 of
            Some h \<Rightarrow> if bh_hash h \<noteq> bh_hash header then drop_hash (bh_hash h) (cache_del (HashKey (bh_hash h)) c0) else c0
          | None \<Rightarrow> c0);
          c2 = (case cache_get (HashKey (bh_hash header)) c1 of
            Some h \<Rightarrow> if bh_height h \<noteq> bh_height header then cache_del (HeightKey (bh_height h)) c1 else c1
          | None \<Rightarrow> c1);
          c3 = drop_hash (bh_hash header) c2;
          c4 = c3\<lparr>hc_headerHashes := hc_headerHashes c3 @ [bh_hash header]\<rparr>
      in cache_set (HashKey (bh_hash header)) header (cache_set (HeightKey (bh_height header)) header c4))"

lemma set_header_evicts: "set_header h c = evictOldHeaders (with_header h c)"
  by (simp add: set_header_def with_header_def Let_def)

lemma with_header_run:
  fixes h c
  defines "p \<equiv> cache_get (HeightKey (bh_height h)) c" and "q \<equiv> cache_get (HashKey (bh_hash h)) c"
  shows "hc_maxEntries (with_header h c) = hc_maxEntries c"
    "hc_headerHashes (with_header h c) =
       filter (\<lambda>y. y \<noteq> bh_hash h \<and> (\<forall>g. p = Some g \<longrightarrow> y \<noteq> bh_hash g)) (hc_headerHashes c) @ [bh_hash h]"
    "cache_get (HashKey x) (with_header h c) = (if x = bh_hash h then Some h
       else if \<exists>g. p = Some g \<and> x = bh_hash g then None else cache_get (HashKey x) c)"
    "cache_get (HeightKey n) (with_header h c) = (if n = bh_height h then Some h
       else if \<exists>g. q = Some g \<and> n = bh_height g then None else cache_get (HeightKey n) c)"
  unfolding p_def q_def
  by (cases "cache_get (HeightKey (bh_height h)) c"; cases "cache_get (HashKey (bh_hash h)) c";
      auto simp: with_header_def Let_def intro!: filter_cong)+

lemma with_header_ok:
  assumes "cache_ok c"
  shows "cache_ok (with_header h c) \<and>
    cached (with_header h c) = insert h {g \<in> cached c. bh_height g \<noteq> bh_height h \<and> bh_hash g \<noteq> bh_hash h}"
proof (rule cache_okI)
  note D = cache_okD [OF assms]
  note run = with_header_run [where h = h and c = c]
  let ?H = "insert h {g \<in> cached c. bh_height g \<noteq> bh_height h \<and> bh_hash g \<noteq> bh_hash h}"
  have p: "cache_get (HeightKey (bh_height h)) c = Some g \<longleftrightarrow> g \<in> cached c \<and> bh_height g = bh_height h" for g
    by (rule D(1))
  have q: "cache_get (HashKey (bh_hash h)) c = Some g \<longleftrightarrow> g \<in> cached c \<and> bh_hash g = bh_hash h" for g
    by (rule D(2))
  show "distinct (hc_headerHashes (with_header h c))" using assms by (auto simp: run(2) cache_ok_def)
  show "set (hc_headerHashes (with_header h c)) = bh_hash ` ?H"
    using D(3) D(4) by (auto simp: run(2) p)
  show "cache_get (HashKey x) (with_header h c) = Some g \<longleftrightarrow> g \<in> ?H \<and> bh_hash g = x" for x g
    using D(2) D(4) by (auto simp: run(3) p)
  show "cache_get (HeightKey n) (with_header h c) = Some g \<longleftrightarrow> g \<in> ?H \<and> bh_height g = n" for n g
    using D(1) D(4) by (auto simp: run(4) q)
  show "\<And>f g. f \<in> ?H \<Longrightarrow> g \<in> ?H \<Longrightarrow> bh_height f = bh_height g \<or> bh_hash f = bh_hash g \<Longrightarrow> f = g"
    using D(4) by auto
qed

lemma set_header_ok:
  assumes "cache_ok c"
  shows "cache_ok (set_header h c) \<and> hc_maxEntries (set_header h c) = hc_maxEntries c \<and>
    length (hc_headerHashes (set_header h c)) \<le> nat (hc_maxEntries c) \<and>
    cached (set_header h c) \<subseteq> insert h {g \<in> cached c. bh_height g \<noteq> bh_height h \<and> bh_hash g \<noteq> bh_hash h} \<and>
    (0 < hc_maxEntries c \<longrightarrow> h \<in> cached (set_header h c)) \<and>
    (int (length (hc_headerHashes c)) < hc_maxEntries c \<longrightarrow>
      cached (set_header h c) = insert h {g \<in> cached c. bh_height g \<noteq> bh_height h \<and> bh_hash g \<noteq> bh_hash h})"
proof -
  note w = with_header_ok [OF assms, of h]
  note e = evict_ok [OF conjunct1 [OF w]]
  let ?hs = "hc_headerHashes (with_header h c)"
  have max: "hc_maxEntries (with_header h c) = hc_maxEntries c" by (rule with_header_run(1))
  obtain ys where ys: "?hs = ys @ [bh_hash h]" "length ys \<le> length (hc_headerHashes c)"
    using with_header_run(2) [of h c] by (auto simp: length_filter_le)
  have last: "bh_hash h \<in> set (drop (length ?hs - nat (hc_maxEntries c)) ?hs)" if "0 < hc_maxEntries c"
    using that by (auto simp: ys(1))
  have all: "drop (length ?hs - nat (hc_maxEntries c)) ?hs = ?hs" if "int (length (hc_headerHashes c)) < hc_maxEntries c"
    using that ys by simp
  have member: "\<forall>g \<in> cached (with_header h c). bh_hash g \<in> set ?hs"
    using cache_okD(3) [OF conjunct1 [OF w]] by auto
  show ?thesis unfolding set_header_evicts
    using e w max last all member by (auto simp: Let_def)
qed

section \<open>Any sequence of operations\<close>

inductive cache_step :: "header_cache \<Rightarrow> header_cache \<Rightarrow> bool" where
  "cache_step c (snd (getByHeight n c))"
| "cache_step c (snd (getByHash x c))"
| "cache_step c (set_header h c)"
| "cache_step c (invalidateHeight n c)"
| "cache_step c (invalidateHash x c)"
| "cache_step c (snd (invalidateFromHeight n c))"
| "cache_step c (clear_cache c)"
| "cache_step c (expire_key k c)"
| "cache_step c (onBlockMined header blockHeight c)"
| "cache_step c (onReorg deactivated oldTip depth c)"

definition cache_inv :: "int \<Rightarrow> header_cache \<Rightarrow> bool" where
  "cache_inv m c \<longleftrightarrow> cache_ok c \<and> hc_maxEntries c = m \<and> length (hc_headerHashes c) \<le> nat m"

lemma invalidate_inv:
  "cache_inv m c \<Longrightarrow> cache_inv m (invalidateHash x c)" "cache_inv m c \<Longrightarrow> cache_inv m (invalidateHeight n c)"
  "cache_inv m c \<Longrightarrow> cache_inv m (snd (invalidate_hashes_from n xs c k))"
proof -
  show h: "cache_inv m c \<Longrightarrow> cache_inv m (invalidateHash x c)" for c x
    using invalidateHash_ok [of c x] order_trans [OF length_filter_le] by (auto simp: cache_inv_def)
  show "cache_inv m c \<Longrightarrow> cache_inv m (invalidateHeight n c)"
    using invalidateHeight_ok [of c n] le_trans [OF length_filter_le]
    by (auto simp: cache_inv_def invalidateHeight_def Let_def split: option.splits)
  show "cache_inv m c \<Longrightarrow> cache_inv m (snd (invalidate_hashes_from n xs c k))"
    by (induction xs arbitrary: c k) (auto intro: h split: option.splits)
qed

lemma set_inv: "cache_inv m c \<Longrightarrow> cache_inv m (set_header h c)"
  using set_header_ok [of c h] by (simp add: cache_inv_def)

lemma clear_inv: "cache_inv m c \<Longrightarrow> cache_inv m (clear_cache c)"
  by (auto simp: cache_inv_def cache_ok_def clear_cache_def cache_get_def)

lemma count_inv: "cache_inv m c \<Longrightarrow> cache_inv m (count_lookup r c)"
  using remove_none [of c "count_lookup r c"] by (simp add: cache_inv_def)

lemma del_absent_inv: "cache_inv m c \<Longrightarrow> cache_get k c = None \<Longrightarrow> cache_inv m (cache_del k c)"
  using remove_none [of c "cache_del k c"] by (auto simp: cache_inv_def)

lemma cache_step_inv: "cache_step c c' \<Longrightarrow> cache_inv m c \<Longrightarrow> cache_inv m c'"
proof (induction rule: cache_step.induct)
  case (8 c k)
  then have "cache_ok c" by (simp add: cache_inv_def)
  then show ?case using 8 by (auto simp: expire_ok intro: invalidate_inv del_absent_inv split: cache_key.split)
next
  case (10 c deactivated oldTip depth)
  have "cache_inv m c \<Longrightarrow> cache_inv m (fold (\<lambda>h. invalidateHash (bh_hash h)) hs c)" for hs :: "block_header list"
    by (induction hs arbitrary: c) (auto intro: invalidate_inv)
  with 10 show ?case
    by (auto simp: onReorg_def invalidateFromHeight_def intro: invalidate_inv clear_inv split: option.splits)
qed (auto simp: getByHeight_def getByHash_def Let_def invalidateFromHeight_def onBlockMined_def
    intro: count_inv set_inv invalidate_inv clear_inv split: option.splits)

lemma new_inv: "cache_inv m (new_cache m)"
  using new_cache_ok [of m] by (simp add: cache_inv_def new_cache_def)

lemma cache_reachable: "cache_step\<^sup>*\<^sup>* (new_cache m) c \<Longrightarrow> cache_inv m c"
  by (induction rule: rtranclp_induct) (auto intro: new_inv cache_step_inv)

section \<open>Properties\<close>

definition sample_header :: "int \<Rightarrow> nat \<Rightarrow> block_header" where
  "sample_header height hash = \<lparr>bh_version = 1, bh_previousHash = [], bh_merkleRoot = [], bh_time = 0, bh_bits = 0,
     bh_nonce = 0, bh_height = height, bh_hash = [hash]\<rparr>"

lemma sample_cache_step: "cache_step\<^sup>*\<^sup>* (new_cache 2) (set_header (sample_header 7 97) (new_cache 2))"
  by (rule r_into_rtranclp) (rule cache_step.intros(3))

lemma sample_cache_get: "fst (getByHeight 7 (set_header (sample_header 7 97) (new_cache 2))) = Some (sample_header 7 97)"
  by code_simp

text \<open>whatever was set, invalidated, expired, mined or reorganized before, a header the cache answers for a
  height has that height, is what it answers for the header's hash, and the cache holds at most as many headers
  as it may.\<close>

theorem header_cache_consistent:
  assumes "cache_step\<^sup>*\<^sup>* (new_cache m) c"
  shows "(fst (getByHeight n c) = Some h \<longrightarrow> bh_height h = n \<and> fst (getByHash (bh_hash h) c) = Some h) \<and>
    (fst (getByHash x c) = Some h \<longrightarrow> bh_hash h = x \<and> fst (getByHeight (bh_height h) c) = Some h) \<and>
    int (length (hc_headerHashes c)) \<le> max 0 m"
  using cache_reachable [OF assms] by (auto simp: cache_inv_def cache_ok_def getByHeight_def getByHash_def Let_def)

lemma header_cache_consistent_witness:
  "fst (getByHash [97] (set_header (sample_header 7 97) (new_cache 2))) = Some (sample_header 7 97)"
  using header_cache_consistent [OF sample_cache_step, of 7 "sample_header 7 97"] sample_cache_get
  by (simp add: sample_header_def)



lemma retry_answer: "retry_method n m w = (Inr r, w') \<Longrightarrow> \<exists>w1 w2. m w1 = (Inr r, w2)"
  by (induction n arbitrary: w) (auto split: prod.splits sum.splits if_splits)

lemma invoke_answer:
  "invokeChaintracksWithRetry ct f w = (Inr r, w') \<Longrightarrow> \<exists>t w1 w2. f t w1 = (Inr r, w2)"
  unfolding invokeChaintracksWithRetry_def by (cases ct) (simp, simp, drule retry_answer, blast)

lemma on_world_Inr: "on_world m s = (Inr r, s') \<longleftrightarrow> (\<exists>w'. m (snd s) = (Inr r, w') \<and> s' = (fst s, w'))"
  by (cases s; cases "m (snd s)") (auto simp: on_world_def)

lemma on_cache_Inr: "on_cache f s = (Inr r, s') \<longleftrightarrow> r = fst (f (fst s)) \<and> s' = (snd (f (fst s)), snd s)"
  by (cases s; cases "f (fst s)") (auto simp: on_cache_def)

lemmas request_simps = bindS_Inr_iff on_world_Inr on_cache_Inr getByHeight_def getByHash_def Let_def

lemma checked_header_Inr:
  "checked_header x ho s = (Inr h, s') \<longleftrightarrow>
     ho = Some h \<and> toLowerCase (bh_hash h) = toLowerCase x \<and> s' = (set_header h (fst s), snd s)"
  by (cases ho) (auto simp: checked_header_def request_simps liftS_def validateHeaderMatchesHash_def split: if_splits)

lemma second_source_Inr:
  "(case ho of Some h \<Rightarrow> retS (Some h) | None \<Rightarrow> on_world m) s = (Inr r, s') \<Longrightarrow> fst s' = fst s"
  by (cases ho) (auto simp: on_world_Inr)

lemma header_at_height_answer: "header_at_height n t w = (Inr h, w') \<Longrightarrow> bh_height h = n"
  by (auto simp: header_at_height_def bindS_Inr_iff validateHeaderMatchesHeight_def liftS_def split: option.splits if_splits)

text \<open>the answer to a request for the header at a height is the serialization of a header of that height, and
  the answer to a request by hash is a header with that hash, up to the case of its letters, whatever the chain
  tracker and the provider answer; the cache stays consistent.\<close>

theorem header_requests_answer_what_was_asked:
  assumes "cache_inv m c"
  shows "(getHeaderForHeight S ct n (c, w) = (Inr bs, (c', w')) \<longrightarrow>
      (\<exists>h. bs = toBinaryBaseBlockHeader S h \<and> bh_height h = n) \<and> cache_inv m c') \<and>
    (hashToHeader ct woc x (c, w) = (Inr h, (c'', w'')) \<longrightarrow> toLowerCase (bh_hash h) = toLowerCase x \<and> cache_inv m c'')"
proof (intro conjI impI)
  note ok = cache_okD [OF conjunct1 [OF assms [unfolded cache_inv_def]]]
  let ?c1 = "count_lookup (cache_get (HeightKey n) c) c"
  have c1: "cache_inv m (count_lookup r c)" for r using assms by (rule count_inv)
  assume run: "getHeaderForHeight S ct n (c, w) = (Inr bs, (c', w'))"
  have "\<exists>h. bs = toBinaryBaseBlockHeader S h \<and> bh_height h = n \<and> cache_inv m c'"
  proof (cases "cache_get (HeightKey n) c")
    case None
    from run None obtain h w1 where h: "invokeChaintracksWithRetry ct (header_at_height n) w = (Inr h, w1)"
        "bs = toBinaryBaseBlockHeader S h" "c' = set_header h (count_lookup None c)"
      by (auto simp: getHeaderForHeight_def request_simps)
    from invoke_answer [OF h(1)] have "bh_height h = n" by (auto dest: header_at_height_answer)
    with h(2,3) set_inv [OF c1] show ?thesis by blast
  next
    case (Some h)
    with run have "bs = toBinaryBaseBlockHeader S h" "c' = count_lookup (Some h) c"
      by (auto simp: getHeaderForHeight_def request_simps)
    with Some ok(1) c1 show ?thesis by blast
  qed
  then show "\<exists>h. bs = toBinaryBaseBlockHeader S h \<and> bh_height h = n" "cache_inv m c'" by blast+
next
  note ok = cache_okD [OF conjunct1 [OF assms [unfolded cache_inv_def]]]
  have c1: "cache_inv m (count_lookup r c)" for r using assms by (rule count_inv)
  assume run: "hashToHeader ct woc x (c, w) = (Inr h, (c'', w''))"
  have "toLowerCase (bh_hash h) = toLowerCase x \<and> cache_inv m c''"
  proof (cases "cache_get (HashKey x) c")
    case None
    let ?rest = "bindS (on_world (invokeChaintracksWithRetry ct (\<lambda>t. ct_findHeaderForBlockHash t x))) (\<lambda>header0.
         bindS (case header0 of Some h \<Rightarrow> retS (Some h) | None \<Rightarrow> on_world (woc x)) (checked_header x))"
    have a: "on_cache (getByHash x) (c, w) = (Inr None, (count_lookup None c, w))"
      using None by (simp add: on_cache_def getByHash_def Let_def)
    have "hashToHeader ct woc x (c, w) = ?rest (count_lookup None c, w)"
      unfolding hashToHeader_def bindS_run(2) [where m = "on_cache (getByHash x)" and s = "(c, w)", OF a] by simp
    then have "?rest (count_lookup None c, w) = (Inr h, (c'', w''))" using run by simp
    then obtain ho0 s1 where 1: "on_world (invokeChaintracksWithRetry ct (\<lambda>t. ct_findHeaderForBlockHash t x)) (count_lookup None c, w) = (Inr ho0, s1)"
        "bindS (case ho0 of Some h \<Rightarrow> retS (Some h) | None \<Rightarrow> on_world (woc x)) (checked_header x) s1 = (Inr h, (c'', w''))"
      unfolding bindS_Inr_iff [of "on_world _"] by blast
    from 1(2) obtain ho s2 where s: "(case ho0 of Some h \<Rightarrow> retS (Some h) | None \<Rightarrow> on_world (woc x)) s1 = (Inr ho, s2)"
        "checked_header x ho s2 = (Inr h, (c'', w''))" unfolding bindS_Inr_iff by blast
    have "fst s1 = count_lookup None c" using 1(1) by (auto simp: on_world_Inr)
    note s = this s
    then have "toLowerCase (bh_hash h) = toLowerCase x" "c'' = set_header h (count_lookup None c)"
      using second_source_Inr [OF s(2)] by (auto simp: checked_header_Inr)
    with set_inv [OF c1] show ?thesis by blast
  next
    case (Some g)
    then have a: "on_cache (getByHash x) (c, w) = (Inr (Some g), (count_lookup (Some g) c, w))"
      by (simp add: on_cache_def getByHash_def Let_def)
    have "h = g" "c'' = count_lookup (Some g) c"
      using run unfolding hashToHeader_def bindS_run(2) [where m = "on_cache (getByHash x)" and s = "(c, w)", OF a] by auto
    moreover have "bh_hash g = x" using ok(2) [of x g] Some by simp
    ultimately show ?thesis using c1 [of "Some g"] by simp
  qed
  then show "toLowerCase (bh_hash h) = toLowerCase x" "cache_inv m c''" by blast+
qed

definition sample_tracker :: "unit chaintracks" where
  "sample_tracker = \<lparr>ct_findHeaderForHeight = (\<lambda>n. retS (Some (sample_header n 97))),
     ct_findHeaderForBlockHash = (\<lambda>x. retS None), ct_currentHeight = retS 100\<rparr>"

lemma header_requests_answer_what_was_asked_witness:
  "\<exists>c' w'. hashToHeader (Some sample_tracker) (\<lambda>x. retS (Some (sample_header 7 97))) [65] (new_cache 2, ()) =
      (Inr (sample_header 7 97), (c', w')) \<and> cache_inv 2 c'"
proof -
  obtain c' w' where run: "hashToHeader (Some sample_tracker) (\<lambda>x. retS (Some (sample_header 7 97))) [65] (new_cache 2, ()) =
      (Inr (sample_header 7 97), (c', w'))"
    by (simp add: hashToHeader_def on_cache_def on_world_def getByHash_def new_cache_def cache_get_def bindS_def
        invokeChaintracksWithRetry_def sample_tracker_def numeral_eq_Suc checked_header_def validateHeaderMatchesHash_def toLowerCase_def
        sample_header_def liftS_def Let_def)
  from header_requests_answer_what_was_asked [OF new_inv, THEN conjunct2, rule_format, OF run] run show ?thesis by blast
qed

end
