(* ===== verification/Services.thy ===== *)
theory Services
  imports ServiceCalls JsDoubles
begin

text \<open>
  Requests to the external services with failover between their providers, \<^verbatim>\<open>src/src/services/Services.ts\<close>.

  A provider is the function the collection holds: from the arguments of the request to a computation on the
  world that returns a result or throws. What an \<open>await\<close> lets happen in between is part of the world; requests
  of one \<open>Services\<close> are modelled one at a time. Metrics and logging are left out, and so are the two caches
  in front of \<open>getUtxoStatus\<close> and of the script hash. A status is the boolean of being 'success'.
\<close>

section \<open>One provider after another\<close>

type_synonym ('a, 'w, 'r) provider = "'a \<Rightarrow> ('w, service_error, 'r) sem"

definition catchS :: "('s, 'e, 'a) sem \<Rightarrow> ('e \<Rightarrow> ('s, 'e, 'a) sem) \<Rightarrow> ('s, 'e, 'a) sem" where
  "catchS m h = (\<lambda>s. case m s of (Inl e, t) \<Rightarrow> h e t | (Inr a, t) \<Rightarrow> (Inr a, t))"

definition call_service :: "('a, 'w, 'r) provider service_to_call \<Rightarrow> 'a \<Rightarrow> (('a, 'w, 'r) provider, 'w, 'r) calls" where
  "call_service stc a = (\<lambda>(sv, w). let (r, w') = st_service stc a w in (r, (sv, w')))"

definition go_next :: "('p, 'w, unit) calls" where
  "go_next = (\<lambda>(sv, w). (Inr (), (next_index sv, w)))"

definition use_next :: "bool \<Rightarrow> ('p, 'w, unit) calls" where
  "use_next useNext = (if useNext then go_next else retS ())"

text \<open>The loop all requests share: at most one try per provider, each try on the provider at the index; a try
  that is not the last word moves the index. \<open>body\<close> returns whether to leave the loop, and the result so far.\<close>

primrec provider_loop ::
  "'w clock \<Rightarrow> ('p service_to_call \<Rightarrow> 'acc \<Rightarrow> ('p, 'w, bool \<times> 'acc) calls) \<Rightarrow> nat \<Rightarrow> 'acc \<Rightarrow> ('p, 'w, 'acc) calls" where
  "provider_loop clk body 0 acc = retS acc"
| "provider_loop clk body (Suc n) acc = bindS (serviceToCall clk) (\<lambda>stc. bindS (body stc acc) (\<lambda>(leave, acc').
     if leave then retS acc' else bindS go_next (\<lambda>_. provider_loop clk body n acc')))"

definition over_providers ::
  "'w clock \<Rightarrow> ('p service_to_call \<Rightarrow> 'acc \<Rightarrow> ('p, 'w, bool \<times> 'acc) calls) \<Rightarrow> 'acc \<Rightarrow> ('p, 'w, 'acc) calls" where
  "over_providers clk body acc = (\<lambda>(sv, w). provider_loop clk body (services_count sv) acc (sv, w))"

text \<open>A try: call the provider and deal with its result; whatever is thrown is recorded as an error.\<close>

definition try_provider ::
  "'w clock \<Rightarrow> ('p service_to_call \<Rightarrow> ('p, 'w, 'r) calls) \<Rightarrow>
   ('p service_to_call \<Rightarrow> 'r \<Rightarrow> 'acc \<Rightarrow> ('p, 'w, bool \<times> 'acc) calls) \<Rightarrow>
   'p service_to_call \<Rightarrow> 'acc \<Rightarrow> ('p, 'w, bool \<times> 'acc) calls" where
  "try_provider clk call deal stc acc =
     catchS (bindS (call stc) (\<lambda>r. deal stc r acc)) (\<lambda>e. bindS (addServiceCallError clk stc e) (\<lambda>_. retS (False, acc)))"

definition record_failed :: "'w clock \<Rightarrow> 'p service_to_call \<Rightarrow> service_error option \<Rightarrow> ('p, 'w, unit) calls" where
  "record_failed clk stc err = (case err of Some e \<Rightarrow> addServiceCallError clk stc e | None \<Rightarrow> addServiceCallFailure clk stc None)"

definition no_services :: service_error where
  "no_services = \<lparr>we_code = ''WERR_INTERNAL'', we_message = ''No services available.''\<rparr>"

section \<open>Status of transactions\<close>

record 'x status_result =
  sr_name :: string
  sr_success :: bool
  sr_error :: "service_error option"
  sr_results :: "'x list"

fun batches_of :: "nat \<Rightarrow> 'a list \<Rightarrow> 'a list list" where
  "batches_of n xs = (if xs = [] \<or> n = 0 then [] else take n xs # batches_of n (drop n xs))"

declare batches_of.simps [simp del]

definition getStatusForTxidsBatchLimit :: nat where
  "getStatusForTxidsBatchLimit = 20"

text \<open>The results of the batches in order: the first that is no success, else all of them with the first error.\<close>

fun merge_batches :: "string \<Rightarrow> 'x status_result list \<Rightarrow> service_error option \<Rightarrow> 'x list \<Rightarrow> 'x status_result" where
  "merge_batches nm [] err results = \<lparr>sr_name = nm, sr_success = True, sr_error = err, sr_results = results\<rparr>"
| "merge_batches nm (r # rs) err results =
     (if \<not> sr_success r then r
      else merge_batches nm rs (case err of None \<Rightarrow> sr_error r | Some e \<Rightarrow> Some e) (results @ sr_results r))"

text \<open>The limiter runs up to 50 batches at once; here they run in order.\<close>

definition getStatusForTxidsBatched ::
  "(string list, 'w, 'x status_result) provider service_to_call \<Rightarrow> string list \<Rightarrow>
   ((string list, 'w, 'x status_result) provider, 'w, 'x status_result) calls" where
  "getStatusForTxidsBatched stc txids =
     bindS (mapS (call_service stc) (batches_of getStatusForTxidsBatchLimit txids)) (\<lambda>rs.
     retS (merge_batches (st_providerName stc) rs None []))"

definition deal_status ::
  "'w clock \<Rightarrow> 'p service_to_call \<Rightarrow> 'x status_result \<Rightarrow> 'x status_result \<Rightarrow> ('p, 'w, bool \<times> 'x status_result) calls" where
  "deal_status clk stc r r0 =
     (if sr_success r then bindS (addServiceCallSuccess clk stc None) (\<lambda>_. retS (True, r))
      else bindS (record_failed clk stc (sr_error r)) (\<lambda>_. retS (False, r0)))"

definition getStatusForTxids ::
  "'w clock \<Rightarrow> string list \<Rightarrow> bool \<Rightarrow> ((string list, 'w, 'x status_result) provider, 'w, 'x status_result) calls" where
  "getStatusForTxids clk txids useNext = bindS (use_next useNext) (\<lambda>_.
     over_providers clk (try_provider clk (\<lambda>stc. getStatusForTxidsBatched stc txids) (deal_status clk))
       \<lparr>sr_name = ''<noservices>'', sr_success = False, sr_error = Some no_services, sr_results = []\<rparr>)"

section \<open>Unspent outputs\<close>

record 'd utxo_result =
  ur_name :: string
  ur_success :: bool
  ur_error :: "service_error option"
  ur_isUtxo :: "bool option"
  ur_details :: "'d list"

type_synonym utxo_query = "string \<times> string option \<times> string option"

definition deal_utxo ::
  "'w clock \<Rightarrow> 'p service_to_call \<Rightarrow> 'd utxo_result \<Rightarrow> 'd utxo_result option \<Rightarrow> ('p, 'w, bool \<times> 'd utxo_result option) calls" where
  "deal_utxo clk stc r acc =
     (if ur_success r then bindS (addServiceCallSuccess clk stc None) (\<lambda>_. retS (True, Some r))
      else bindS (record_failed clk stc (ur_error r)) (\<lambda>_. retS (False, acc)))"

definition tryUtxoStatusProviders ::
  "'w clock \<Rightarrow> utxo_query \<Rightarrow> ((utxo_query, 'w, 'd utxo_result) provider, 'w, 'd utxo_result option) calls" where
  "tryUtxoStatusProviders clk q =
     over_providers clk (try_provider clk (\<lambda>stc. call_service stc q) (deal_utxo clk)) None"

primrec utxo_retries ::
  "'w clock \<Rightarrow> (msecs \<Rightarrow> 'w \<Rightarrow> 'w) \<Rightarrow> utxo_query \<Rightarrow> nat \<Rightarrow> 'd utxo_result \<Rightarrow>
   ((utxo_query, 'w, 'd utxo_result) provider, 'w, 'd utxo_result) calls" where
  "utxo_retries clk wait q 0 r0 = retS r0"
| "utxo_retries clk wait q (Suc n) r0 = bindS (tryUtxoStatusProviders clk q) (\<lambda>r.
     let r1 = (case r of None \<Rightarrow> r0 | Some x \<Rightarrow> x)
     in if ur_success r1 then retS r1
        else bindS (\<lambda>(sv, w). (Inr (), (sv, wait 2000 w))) (\<lambda>_. utxo_retries clk wait q n r1))"

definition getUtxoStatusFromProviders ::
  "'w clock \<Rightarrow> (msecs \<Rightarrow> 'w \<Rightarrow> 'w) \<Rightarrow> utxo_query \<Rightarrow> bool \<Rightarrow>
   ((utxo_query, 'w, 'd utxo_result) provider, 'w, 'd utxo_result) calls" where
  "getUtxoStatusFromProviders clk wait q useNext = bindS (use_next useNext) (\<lambda>_. utxo_retries clk wait q 2
     \<lparr>ur_name = ''<noservices>'', ur_success = False, ur_error = Some no_services, ur_isUtxo = None, ur_details = []\<rparr>)"

definition isUtxo ::
  "'w clock \<Rightarrow> (msecs \<Rightarrow> 'w \<Rightarrow> 'w) \<Rightarrow> (nat list \<Rightarrow> string) \<Rightarrow> nat list option \<Rightarrow> string \<Rightarrow> bool \<Rightarrow>
   ((utxo_query, 'w, 'd utxo_result) provider, 'w, bool) calls" where
  "isUtxo clk wait hashOutputScript lockingScript outpoint useNext =
     (case lockingScript of
        None \<Rightarrow> throwS \<lparr>we_code = ''WERR_INVALID_PARAMETER'', we_message = ''output.lockingScript''\<rparr>
      | Some script \<Rightarrow> bindS (getUtxoStatusFromProviders clk wait (hashOutputScript script, None, Some outpoint) useNext)
          (\<lambda>r. retS (ur_isUtxo r = Some True)))"

section \<open>History of a script\<close>

record 'y history_result =
  hr_name :: string
  hr_success :: bool
  hr_error :: "service_error option"
  hr_history :: "'y list"

text \<open>A success is not recorded here.\<close>

definition deal_history ::
  "'w clock \<Rightarrow> 'p service_to_call \<Rightarrow> 'y history_result \<Rightarrow> 'y history_result \<Rightarrow> ('p, 'w, bool \<times> 'y history_result) calls" where
  "deal_history clk stc r r0 =
     (if hr_success r then retS (True, r)
      else bindS (record_failed clk stc (hr_error r)) (\<lambda>_. retS (False, r0)))"

definition getScriptHashHistory ::
  "'w clock \<Rightarrow> string \<Rightarrow> bool \<Rightarrow> ((string, 'w, 'y history_result) provider, 'w, 'y history_result) calls" where
  "getScriptHashHistory clk hash useNext = bindS (use_next useNext) (\<lambda>_.
     over_providers clk (try_provider clk (\<lambda>stc. call_service stc hash) (deal_history clk))
       \<lparr>hr_name = ''<noservices>'', hr_success = False, hr_error = Some no_services, hr_history = []\<rparr>)"

section \<open>Raw transactions\<close>

record raw_tx_result =
  rt_txid :: string
  rt_name :: "string option"
  rt_rawTx :: "nat list option"
  rt_error :: "service_error option"

text \<open>\<open>txid_of\<close> is the hexadecimal double hash of the bytes.\<close>

definition applyRawTxResult ::
  "'w clock \<Rightarrow> (nat list \<Rightarrow> string) \<Rightarrow> string \<Rightarrow> 'p service_to_call \<Rightarrow> raw_tx_result \<Rightarrow> raw_tx_result \<Rightarrow>
   ('p, 'w, bool \<times> raw_tx_result) calls" where
  "applyRawTxResult clk txid_of txid stc r r0 =
     (let fail = (\<lambda>r. bindS
            (case rt_error r of Some e \<Rightarrow> addServiceCallError clk stc e
             | None \<Rightarrow> if rt_rawTx r \<noteq> None then addServiceCallFailure clk stc None
                else addServiceCallSuccess clk stc (Some ''not found''))
            (\<lambda>_. retS (False, if rt_error r \<noteq> None \<and> rt_error r0 = None \<and> rt_rawTx r0 = None
                  then r0\<lparr>rt_error := rt_error r\<rparr> else r0)))
      in case rt_rawTx r of
           None \<Rightarrow> fail r
         | Some tx \<Rightarrow>
             if txid_of tx = txid
             then bindS (addServiceCallSuccess clk stc None) (\<lambda>_.
               retS (True, r0\<lparr>rt_rawTx := Some tx, rt_name := rt_name r, rt_error := None\<rparr>))
             else fail (r\<lparr>rt_error := Some \<lparr>we_code = ''WERR_INTERNAL'',
                    we_message = ''computed txid '' @ txid_of tx @ '' doesn't match requested value '' @ txid\<rparr>,
                  rt_rawTx := None\<rparr>))"

definition getRawTx ::
  "'w clock \<Rightarrow> (nat list \<Rightarrow> string) \<Rightarrow> string \<Rightarrow> bool \<Rightarrow> ((string, 'w, raw_tx_result) provider, 'w, raw_tx_result) calls" where
  "getRawTx clk txid_of txid useNext = bindS (use_next useNext) (\<lambda>_.
     over_providers clk (try_provider clk (\<lambda>stc. call_service stc txid) (applyRawTxResult clk txid_of txid))
       \<lparr>rt_txid = txid, rt_name = None, rt_rawTx = None, rt_error = None\<rparr>)"

section \<open>Merkle paths\<close>

record ('m, 'h, 'n) merkle_path_result =
  mp_name :: "string option"
  mp_merklePath :: "'m option"
  mp_header :: "'h option"
  mp_error :: "service_error option"
  mp_notes :: "'n list option"

definition deal_merkle_path ::
  "'w clock \<Rightarrow> 'p service_to_call \<Rightarrow> ('m, 'h, 'n) merkle_path_result \<Rightarrow> ('m, 'h, 'n) merkle_path_result \<Rightarrow>
   ('p, 'w, bool \<times> ('m, 'h, 'n) merkle_path_result) calls" where
  "deal_merkle_path clk stc r r0 =
     (let r1 = r0\<lparr>mp_notes := (case (mp_notes r0, mp_notes r) of (Some a, Some b) \<Rightarrow> Some (a @ b) | (x, _) \<Rightarrow> x),
                 mp_name := (case mp_name r0 of None \<Rightarrow> mp_name r | Some n \<Rightarrow> Some n)\<rparr>
      in case mp_merklePath r of
           Some p \<Rightarrow> bindS (addServiceCallSuccess clk stc None) (\<lambda>_. retS (True,
             r1\<lparr>mp_merklePath := Some p, mp_header := mp_header r, mp_name := mp_name r, mp_error := None\<rparr>))
         | None \<Rightarrow> bindS (record_failed clk stc (mp_error r)) (\<lambda>_. retS (False,
             if mp_error r \<noteq> None \<and> mp_error r1 = None then r1\<lparr>mp_error := mp_error r\<rparr> else r1)))"

definition getMerklePath ::
  "'w clock \<Rightarrow> string \<Rightarrow> bool \<Rightarrow>
   ((string, 'w, ('m, 'h, 'n) merkle_path_result) provider, 'w, ('m, 'h, 'n) merkle_path_result) calls" where
  "getMerklePath clk txid useNext = bindS (use_next useNext) (\<lambda>_.
     over_providers clk (try_provider clk (\<lambda>stc. call_service stc txid) (deal_merkle_path clk))
       \<lparr>mp_name = None, mp_merklePath = None, mp_header = None, mp_error = None, mp_notes = Some []\<rparr>)"

end
