(* ===== verification/ServiceLoops.thy ===== *)
theory ServiceLoops
  imports Services
begin

text \<open>
  The rule of the loop over providers: a body that returns, and leaves providers and index alone, is run on the
  providers in the order of a rotation of the collection, each at most once, until it leaves the loop; then the
  index stays at that provider, and otherwise returns to where it was.
\<close>

definition nth_cyclic :: "'a list \<Rightarrow> nat \<Rightarrow> 'a" where
  "nth_cyclic xs i = xs ! (i mod length xs)"

lemma rotate_cyclic: "map (\<lambda>j. nth_cyclic xs (i + j)) [0..<length xs] = rotate i xs"
  by (intro nth_equalityI) (simp_all add: nth_cyclic_def nth_rotate)

definition ready :: "'p services \<Rightarrow> nat \<Rightarrow> bool" where
  "ready sv i \<longleftrightarrow> sv_index sv = Some i \<and> i < length (sv_services sv)"

lemma ready_name: "ready sv i \<Longrightarrow> current_name sv = Inr (fst (sv_services sv ! i))"
  by (simp add: ready_def current_name_at)

lemma ready_same: "ready sv i \<Longrightarrow> same_providers sv sv' \<Longrightarrow> ready sv' i"
  by (simp add: ready_def same_providers_def)

lemma ready_next: "ready sv i \<Longrightarrow> ready (next_index sv) (Suc i mod length (sv_services sv)) \<and> sv_services (next_index sv) = sv_services sv"
  by (auto simp: ready_def next_index_def services_count_def)

lemma provider_loop_rule:
  assumes body: "\<And>stc acc sv w i vis. ready sv i \<Longrightarrow> st_service stc = snd (sv_services sv ! i) \<Longrightarrow>
      st_providerName stc = fst (sv_services sv ! i) \<Longrightarrow> P vis acc \<Longrightarrow>
      \<exists>leave acc' sv' w'. body stc acc (sv, w) = (Inr (leave, acc'), (sv', w')) \<and> same_providers sv sv' \<and>
        (if leave then Q (sv_services sv ! i) acc' else P (vis @ [sv_services sv ! i]) acc')"
  shows "ready sv i \<Longrightarrow> P vis acc \<Longrightarrow> \<exists>acc' sv' w'. provider_loop clk body n acc (sv, w) = (Inr acc', (sv', w')) \<and>
    sv_services sv' = sv_services sv \<and>
    ((\<exists>j < n. Q (nth_cyclic (sv_services sv) (i + j)) acc' \<and> ready sv' ((i + j) mod length (sv_services sv))) \<or>
     (P (vis @ map (\<lambda>j. nth_cyclic (sv_services sv) (i + j)) [0..<n]) acc' \<and> ready sv' ((i + n) mod length (sv_services sv))))"
proof (induction n arbitrary: sv w i vis acc)
  case 0
  then show ?case by (auto simp: ready_def)
next
  case (Suc n)
  let ?k = "length (sv_services sv)"
  have i: "i < ?k" "i mod ?k = i" using Suc.prems(1) by (auto simp: ready_def)
  obtain stc w1 where stc: "serviceToCall clk (sv, w) = (Inr stc, (sv, w1))"
      "st_providerName stc = fst (sv_services sv ! i)" "st_service stc = snd (sv_services sv ! i)"
    using serviceToCall_cases [of sv i clk w] Suc.prems(1) unfolding ready_def by blast
  from body [OF Suc.prems(1) stc(3,2) Suc.prems(2)] obtain leave acc1 sv1 w2 where
    b: "body stc acc (sv, w1) = (Inr (leave, acc1), (sv1, w2))" "same_providers sv sv1"
      "if leave then Q (sv_services sv ! i) acc1 else P (vis @ [sv_services sv ! i]) acc1" by metis
  note r1 = ready_same [OF Suc.prems(1) b(2)]
  have same: "sv_services sv1 = sv_services sv" using b(2) by (simp add: same_providers_def)
  show ?case
  proof (cases leave)
    case True
    then have "provider_loop clk body (Suc n) acc (sv, w) = (Inr acc1, (sv1, w2))"
      using stc(1) b(1) by (simp add: bindS_def)
    with True b(3) r1 same i show ?thesis 
      by (intro exI [of _ acc1] exI [of _ sv1] exI [of _ w2] conjI disjI1 exI [of _ 0]) (simp_all add: nth_cyclic_def)
  next
    case False
    then have step: "provider_loop clk body (Suc n) acc (sv, w) = provider_loop clk body n acc1 (next_index sv1, w2)"
      using stc(1) b(1) by (simp add: bindS_def go_next_def)
    note nx = ready_next [OF r1]
    have "P (vis @ [sv_services sv ! i]) acc1" using b(3) False by simp
    from Suc.IH [OF conjunct1 [OF nx] this, of w2] obtain acc' sv' w' where
      IH: "provider_loop clk body n acc1 (next_index sv1, w2) = (Inr acc', (sv', w'))" "sv_services sv' = sv_services sv"
        "(\<exists>j < n. Q (nth_cyclic (sv_services sv) (Suc i mod ?k + j)) acc' \<and> ready sv' ((Suc i mod ?k + j) mod ?k)) \<or>
         (P ((vis @ [sv_services sv ! i]) @ map (\<lambda>j. nth_cyclic (sv_services sv) (Suc i mod ?k + j)) [0..<n]) acc' \<and>
          ready sv' ((Suc i mod ?k + n) mod ?k))"
      using nx same by auto
    have cyc: "nth_cyclic (sv_services sv) (Suc i mod ?k + j) = nth_cyclic (sv_services sv) (i + Suc j)"
      "(Suc i mod ?k + j) mod ?k = (i + Suc j) mod ?k" for j
      by (simp_all add: nth_cyclic_def mod_add_left_eq)
    have map: "[sv_services sv ! i] @ map (\<lambda>j. nth_cyclic (sv_services sv) (i + Suc j)) [0..<n] =
        map (\<lambda>j. nth_cyclic (sv_services sv) (i + j)) [0..<Suc n]"
      using i by (simp only: map_upt_Suc) (simp add: nth_cyclic_def)
    show ?thesis
      using IH(3) unfolding step cyc append_assoc map using IH(1,2) by (metis Suc_less_eq)
  qed
qed

lemma over_providers_rule:
  assumes "\<And>stc acc sv w i vis. ready sv i \<Longrightarrow> st_service stc = snd (sv_services sv ! i) \<Longrightarrow>
      st_providerName stc = fst (sv_services sv ! i) \<Longrightarrow> P vis acc \<Longrightarrow>
      \<exists>leave acc' sv' w'. body stc acc (sv, w) = (Inr (leave, acc'), (sv', w')) \<and> same_providers sv sv' \<and>
        (if leave then Q (sv_services sv ! i) acc' else P (vis @ [sv_services sv ! i]) acc')"
    and "ready sv i" "P [] acc"
  obtains acc' sv' w' j where "over_providers clk body acc (sv, w) = (Inr acc', (sv', w'))" "sv_services sv' = sv_services sv"
      "ready sv' j" "Q (sv_services sv ! j) acc'"
  | acc' sv' w' where "over_providers clk body acc (sv, w) = (Inr acc', (sv', w'))" "sv_services sv' = sv_services sv"
      "ready sv' i" "P (rotate i (sv_services sv)) acc'"
proof -
  let ?k = "length (sv_services sv)"
  have "\<exists>acc' sv' w'. provider_loop clk body ?k acc (sv, w) = (Inr acc', (sv', w')) \<and> sv_services sv' = sv_services sv \<and>
      ((\<exists>j < ?k. Q (nth_cyclic (sv_services sv) (i + j)) acc' \<and> ready sv' ((i + j) mod ?k)) \<or>
       (P ([] @ map (\<lambda>j. nth_cyclic (sv_services sv) (i + j)) [0..<?k]) acc' \<and> ready sv' ((i + ?k) mod ?k)))"
    by (rule provider_loop_rule [where P = P and Q = Q, OF assms])
  then obtain acc' sv' w' where
    l: "provider_loop clk body ?k acc (sv, w) = (Inr acc', (sv', w'))" "sv_services sv' = sv_services sv"
      "(\<exists>j < ?k. Q (nth_cyclic (sv_services sv) (i + j)) acc' \<and> ready sv' ((i + j) mod ?k)) \<or>
       (P ([] @ map (\<lambda>j. nth_cyclic (sv_services sv) (i + j)) [0..<?k]) acc' \<and> ready sv' ((i + ?k) mod ?k))" by blast
  have run: "over_providers clk body acc (sv, w) = (Inr acc', (sv', w'))"
    using l(1) by (simp add: over_providers_def services_count_def)
  have "(i + ?k) mod ?k = i" using assms(2) by (simp add: ready_def)
  with l(3) consider j where "Q (sv_services sv ! ((i + j) mod ?k)) acc'" "ready sv' ((i + j) mod ?k)"
    | "P (rotate i (sv_services sv)) acc'" "ready sv' i"
    unfolding append_Nil rotate_cyclic by (auto simp: nth_cyclic_def)
  then show ?thesis
  proof cases
    case 1
    then show ?thesis using that(1) [OF run l(2)] by blast
  next
    case 2
    then show ?thesis using that(2) [OF run l(2)] by blast
  qed
qed

lemma use_next_ready:
  assumes "ready sv i"
  obtains sv1 j where "use_next b (sv, w) = (Inr (), (sv1, w))" "ready sv1 j" "sv_services sv1 = sv_services sv"
  using assms ready_next [OF assms] by (cases b) (auto simp: use_next_def go_next_def)

section \<open>One try\<close>

lemma record_failed_ok:
  assumes "ready sv i"
  obtains sv' w' where "record_failed clk stc e (sv, w) = (Inr (), (sv', w'))" "same_providers sv sv'"
proof (cases e)
  case None
  then show ?thesis using that recording(2) [OF ready_name [OF assms], of clk stc None w] by (auto simp: record_failed_def)
next
  case (Some x)
  then show ?thesis using that recording(3) [OF ready_name [OF assms], of clk stc x w] by (auto simp: record_failed_def)
qed

lemma record_success_ok:
  obtains sv' w' where "addServiceCallSuccess clk stc r (sv, w) = (Inr (), (sv', w'))" "same_providers sv sv'"
  using recording(1) [of clk stc r sv w] that by blast

lemma call_service_run: "call_service stc a (sv, w) = (fst (st_service stc a w), (sv, snd (st_service stc a w)))"
  by (simp add: call_service_def split: prod.splits)

lemma try_provider_ok:
  assumes "ready sv i" "call stc (sv, w) = (r, (sv, w1))"
    "\<And>x. r = Inr x \<Longrightarrow> \<exists>leave acc' sv' w'. deal stc x acc (sv, w1) = (Inr (leave, acc'), (sv', w')) \<and>
       same_providers sv sv' \<and> R leave acc'"
    "\<And>e. r = Inl e \<Longrightarrow> R False acc"
  shows "\<exists>leave acc' sv' w'. try_provider clk call deal stc acc (sv, w) = (Inr (leave, acc'), (sv', w')) \<and>
    same_providers sv sv' \<and> R leave acc'"
proof (cases r)
  case (Inl e)
  obtain sv' w' where "addServiceCallError clk stc e (sv, w1) = (Inr (), (sv', w'))" "same_providers sv sv'"
    using recording(3) [OF ready_name [OF assms(1)], of clk stc e w1] by blast
  with Inl assms(2,4) show ?thesis by (auto simp: try_provider_def catchS_def bindS_def)
next
  case (Inr x)
  with assms(2) assms(3) [OF Inr] show ?thesis by (auto simp: try_provider_def catchS_def bindS_def)
qed

section \<open>Failover\<close>

text \<open>How all requests deal with a result: leave the loop if it is good, and go on from a pure function of the
  result; what else happens is recorded. \<open>C\<close> is what a call does to the world.\<close>

definition returns :: "('p, 'w, 'a) calls \<Rightarrow> 'p services \<Rightarrow> 'w \<Rightarrow> 'a \<Rightarrow> bool" where
  "returns m sv w y \<longleftrightarrow> (\<exists>sv' w'. m (sv, w) = (Inr y, (sv', w')) \<and> same_providers sv sv')"

definition deals ::
  "('p service_to_call \<Rightarrow> 'r \<Rightarrow> 'acc \<Rightarrow> ('p, 'w, bool \<times> 'acc) calls) \<Rightarrow> ('r \<Rightarrow> bool) \<Rightarrow> ('r \<Rightarrow> 'acc \<Rightarrow> 'acc) \<Rightarrow> bool" where
  "deals deal ok F \<longleftrightarrow> (\<forall>stc x acc sv w i. ready sv i \<longrightarrow> returns (deal stc x acc) sv w (ok x, F x acc))"

definition calls_world ::
  "('p service_to_call \<Rightarrow> ('p, 'w, 'r) calls) \<Rightarrow> ('p service_to_call \<Rightarrow> ('w, service_error, 'r) sem) \<Rightarrow> bool" where
  "calls_world call C \<longleftrightarrow> (\<forall>stc sv w. call stc (sv, w) = (fst (C stc w), (sv, snd (C stc w))))"

definition got :: "('p service_to_call \<Rightarrow> ('w, service_error, 'r) sem) \<Rightarrow> string \<times> 'p \<Rightarrow> 'r \<Rightarrow> bool" where
  "got C p x \<longleftrightarrow> (\<exists>stc w. st_service stc = snd p \<and> st_providerName stc = fst p \<and> fst (C stc w) = Inr x)"

definition failed :: "('p service_to_call \<Rightarrow> ('w, service_error, 'r) sem) \<Rightarrow> ('r \<Rightarrow> bool) \<Rightarrow> string \<times> 'p \<Rightarrow> bool" where
  "failed C ok p \<longleftrightarrow> (\<exists>stc w. st_service stc = snd p \<and> st_providerName stc = fst p \<and> (\<forall>x. fst (C stc w) = Inr x \<longrightarrow> \<not> ok x))"

lemma failover:
  assumes deal: "deals deal ok F" and call: "calls_world call C"
    and inv: "\<And>x acc. Inv acc \<Longrightarrow> \<not> ok x \<Longrightarrow> Inv (F x acc)" and "ready sv i" "Inv acc"
  obtains x acc1 sv' w' j where
      "over_providers clk (try_provider clk call deal) acc (sv, w) = (Inr (F x acc1), (sv', w'))"
      "sv_services sv' = sv_services sv" "ready sv' j" "sv_services sv ! j \<in> set (sv_services sv)"
      "ok x" "got C (sv_services sv ! j) x" "Inv acc1"
  | acc' sv' w' where
      "over_providers clk (try_provider clk call deal) acc (sv, w) = (Inr acc', (sv', w'))"
      "sv_services sv' = sv_services sv" "ready sv' i" "\<forall>p \<in> set (sv_services sv). failed C ok p" "Inv acc'"
proof -
  let ?P = "\<lambda>vis acc. Inv acc \<and> (\<forall>p \<in> set vis. failed C ok p)"
  let ?Q = "\<lambda>p acc. \<exists>x acc1. ok x \<and> got C p x \<and> Inv acc1 \<and> acc = F x acc1"
  have body: "\<exists>leave acc' sv' w'. try_provider clk call deal stc acc (sv, w) = (Inr (leave, acc'), (sv', w')) \<and>
      same_providers sv sv' \<and> (if leave then ?Q (sv_services sv ! i) acc' else ?P (vis @ [sv_services sv ! i]) acc')"
    if r: "ready sv i" and st: "st_service stc = snd (sv_services sv ! i)" "st_providerName stc = fst (sv_services sv ! i)"
      and P: "?P vis acc" for stc acc sv w i vis
  proof (rule try_provider_ok [OF r])
    show "call stc (sv, w) = (fst (C stc w), (sv, snd (C stc w)))" using call by (simp add: calls_world_def)
  next
    fix x assume x: "fst (C stc w) = Inr x"
    obtain sv' w' where d: "deal stc x acc (sv, snd (C stc w)) = (Inr (ok x, F x acc), (sv', w'))" "same_providers sv sv'"
      using deal r unfolding deals_def returns_def by blast
    have "if ok x then ?Q (sv_services sv ! i) (F x acc) else ?P (vis @ [sv_services sv ! i]) (F x acc)"
    proof (cases "ok x")
      case True
      then show ?thesis using x st P by (auto simp: got_def)
    next
      case False
      then have "failed C ok (sv_services sv ! i)" using x st
        unfolding failed_def by (intro exI [of _ stc] exI [of _ w]) simp
      with False P inv show ?thesis by auto
    qed
    with d show "\<exists>leave acc' sv' w'. deal stc x acc (sv, snd (C stc w)) = (Inr (leave, acc'), (sv', w')) \<and>
       same_providers sv sv' \<and> (if leave then ?Q (sv_services sv ! i) acc' else ?P (vis @ [sv_services sv ! i]) acc')"
      by blast
  next
    fix e assume "fst (C stc w) = Inl e"
    then have "failed C ok (sv_services sv ! i)" using st
      unfolding failed_def by (intro exI [of _ stc] exI [of _ w]) simp
    with P show "if False then ?Q (sv_services sv ! i) acc else ?P (vis @ [sv_services sv ! i]) acc" by auto
  qed
  have start: "?P [] acc" using assms(5) by simp
  show ?thesis
  proof (rule over_providers_rule [where P = ?P and Q = ?Q and body = "try_provider clk call deal" and clk = clk and w = w,
        OF body assms(4) start], assumption, assumption, assumption, assumption, goal_cases left all)
    case (left acc' sv' w' j)
    then have "sv_services sv ! j \<in> set (sv_services sv)" by (simp add: ready_def)
    with left show ?case using that(1) by blast
  next
    case (all acc' sv' w')
    then show ?case using that(2) by auto
  qed
qed

lemma call_service_world: "calls_world (\<lambda>stc. call_service stc a) (\<lambda>stc. st_service stc a)"
  by (simp add: calls_world_def call_service_run)

lemma ready_mem: "ready sv j \<Longrightarrow> sv_services sv' = sv_services sv \<Longrightarrow> sv_services sv' ! j \<in> set (sv_services sv')"
  by (simp add: ready_def)

lemma got_call: "got (\<lambda>stc. st_service stc a) p x \<Longrightarrow> \<exists>w w'. snd p a w = (Inr x, w')"
  unfolding got_def by (metis prod.collapse)

lemma failed_call: "failed (\<lambda>stc. st_service stc a) ok p \<Longrightarrow> \<exists>w. \<forall>r. fst (snd p a w) = Inr r \<longrightarrow> \<not> ok r"
  unfolding failed_def by metis

end
