(* ===== verification/ServicesProps.thy ===== *)
theory ServicesProps
  imports ServiceLoops
begin

text \<open>
  The properties of the failover between providers: what a request answers and when, what is recorded and under
  whose name.
\<close>

section \<open>How each request deals with a result\<close>

lemma dealsI:
  "(\<And>stc x acc sv w i. ready sv i \<Longrightarrow> returns (deal stc x acc) sv w (ok x, F x acc)) \<Longrightarrow> deals deal ok F"
  by (simp add: deals_def)

lemma after_success: "returns (bindS (addServiceCallSuccess clk stc r) (\<lambda>_. retS y)) sv w y"
  using recording(1) [of clk stc r sv w] by (auto simp: bindS_def returns_def)

lemma after_failed: "ready sv i \<Longrightarrow> returns (bindS (record_failed clk stc e) (\<lambda>_. retS y)) sv w y"
  by (rule record_failed_ok [of sv i clk stc e w]) (auto simp: bindS_def returns_def)

lemma returns_retS: "returns (retS y) sv w y"
  by (simp add: returns_def)

lemma deals_utxo: "deals (deal_utxo clk) ur_success (\<lambda>x acc. if ur_success x then Some x else acc)"
  by (rule dealsI) (auto simp: deal_utxo_def intro: after_success after_failed)

lemma deals_status: "deals (deal_status clk) sr_success (\<lambda>x acc. if sr_success x then x else acc)"
  by (rule dealsI) (auto simp: deal_status_def intro: after_success after_failed)

lemma deals_history: "deals (deal_history clk) hr_success (\<lambda>x acc. if hr_success x then x else acc)"
  by (rule dealsI) (auto simp: deal_history_def intro: after_failed returns_retS)

section \<open>Unspent outputs\<close>

definition no_utxo_services :: "'d utxo_result" where
  "no_utxo_services =
     \<lparr>ur_name = ''<noservices>'', ur_success = False, ur_error = Some no_services, ur_isUtxo = None, ur_details = []\<rparr>"

definition utxo_got :: "utxo_query \<Rightarrow> string \<times> (utxo_query, 'w, 'd utxo_result) provider \<Rightarrow> 'd utxo_result \<Rightarrow> bool" where
  "utxo_got q p r \<longleftrightarrow> ur_success r \<and> (\<exists>w w'. snd p q w = (Inr r, w'))"

definition utxo_failed :: "utxo_query \<Rightarrow> string \<times> (utxo_query, 'w, 'd utxo_result) provider \<Rightarrow> bool" where
  "utxo_failed q p \<longleftrightarrow> (\<exists>w. \<forall>r. fst (snd p q w) = Inr r \<longrightarrow> \<not> ur_success r)"

lemma utxo_round:
  assumes "ready sv i"
  obtains r sv' w' j where "tryUtxoStatusProviders clk q (sv, w) = (Inr (Some r), (sv', w'))" "sv_services sv' = sv_services sv"
      "ready sv' j" "sv_services sv ! j \<in> set (sv_services sv)" "utxo_got q (sv_services sv ! j) r"
  | sv' w' where "tryUtxoStatusProviders clk q (sv, w) = (Inr None, (sv', w'))" "sv_services sv' = sv_services sv"
      "ready sv' i" "\<forall>p \<in> set (sv_services sv). utxo_failed q p"
proof (rule failover [OF deals_utxo [of clk] call_service_world [of q] _ assms, where Inv = "\<lambda>acc. acc = None" and acc = None
      and clk = clk and w = w], goal_cases)
  case (3 x acc1 sv' w' j)
  then show ?case by (intro that(1)) (auto simp: tryUtxoStatusProviders_def utxo_got_def dest: got_call)
next
  case (4 acc' sv' w')
  then show ?case by (intro that(2)) (auto simp: tryUtxoStatusProviders_def utxo_failed_def dest!: failed_call bspec)
qed auto

lemma no_utxo_not_success: "\<not> ur_success no_utxo_services"
  by (simp add: no_utxo_services_def)

lemma utxo_retries_run:
  assumes "ready sv i" "\<not> ur_success r0"
  shows "\<exists>r sv' w'. utxo_retries clk wait q n r0 (sv, w) = (Inr r, (sv', w')) \<and> sv_services sv' = sv_services sv \<and>
    ((\<exists>p \<in> set (sv_services sv). utxo_got q p r) \<or>
     (r = r0 \<and> (0 < n \<longrightarrow> (\<forall>p \<in> set (sv_services sv). utxo_failed q p))))"
  using assms
proof (induction n arbitrary: sv i w)
  case (Suc n)
  show ?case
  proof (rule utxo_round [OF Suc.prems(1), of clk q w], goal_cases)
    case (1 r sv' w' j)
    have "utxo_retries clk wait q (Suc n) r0 (sv, w) = (Inr r, (sv', w'))"
      using 1(1,5) by (simp add: bindS_def utxo_got_def)
    then show ?case using 1(2,4,5)
      by (intro exI [of _ r] exI [of _ sv'] exI [of _ w'] conjI disjI1 bexI [of _ "sv_services sv ! j"]) simp_all
  next
    case (2 sv' w')
    have step: "utxo_retries clk wait q (Suc n) r0 (sv, w) = utxo_retries clk wait q n r0 (sv', wait 2000 w')"
      using 2(1) Suc.prems(2) by (simp add: bindS_def)
    from Suc.IH [OF 2(3) Suc.prems(2), of "wait 2000 w'"] 2(2,4) show ?case unfolding step by simp
  qed
qed auto

lemma utxo_status_run:
  assumes "ready sv i"
  shows "\<exists>r sv' w'. getUtxoStatusFromProviders clk wait q useNext (sv, w) = (Inr r, (sv', w')) \<and>
    ((\<exists>p \<in> set (sv_services sv). utxo_got q p r) \<or>
     (r = no_utxo_services \<and> (\<forall>p \<in> set (sv_services sv). utxo_failed q p)))"
proof -
  obtain sv1 j where n: "use_next useNext (sv, w) = (Inr (), (sv1, w))" "ready sv1 j" "sv_services sv1 = sv_services sv"
    by (rule use_next_ready [OF assms])
  from utxo_retries_run [OF n(2) no_utxo_not_success, of clk wait q 2 w] n show ?thesis
    by (auto simp: getUtxoStatusFromProviders_def bindS_def no_utxo_services_def [symmetric])
qed

text \<open>the status of an output is what a provider answered with success, whichever the index is at and however
  many fail or throw before it; it is not an error unless every provider failed. But what the providers answered
  is then lost: the answer is that there are no services.\<close>

theorem utxo_status_answer:
  assumes "sv_index sv = Some i" "i < length (sv_services sv)"
  shows "\<exists>r sv' w'. getUtxoStatusFromProviders clk wait q useNext (sv, w) = (Inr r, (sv', w')) \<and>
    ((ur_success r \<and> (\<exists>p \<in> set (sv_services sv). \<exists>w1 w2. snd p q w1 = (Inr r, w2))) \<or>
     ((\<forall>p \<in> set (sv_services sv). \<exists>w1. \<forall>x. fst (snd p q w1) = Inr x \<longrightarrow> \<not> ur_success x) \<and>
      ur_name r = ''<noservices>'' \<and> \<not> ur_success r \<and> ur_error r = Some no_services))"
proof -
  have "ready sv i" using assms by (simp add: ready_def)
  from utxo_status_run [OF this, of clk wait q useNext w] obtain r sv' w' where
    "getUtxoStatusFromProviders clk wait q useNext (sv, w) = (Inr r, (sv', w'))"
    "(\<exists>p \<in> set (sv_services sv). utxo_got q p r) \<or>
     (r = no_utxo_services \<and> (\<forall>p \<in> set (sv_services sv). utxo_failed q p))" by blast
  then show ?thesis unfolding utxo_got_def utxo_failed_def by (auto simp: no_utxo_services_def)
qed

text \<open>A provider that always answers, one that always answers with an error, and a clock that ticks.\<close>

definition ticking :: "nat clock" where
  "ticking n = (int n, n + 1)"

definition good_utxo :: "(utxo_query, nat, unit utxo_result) provider" where
  "good_utxo q = retS \<lparr>ur_name = ''good'', ur_success = True, ur_error = None, ur_isUtxo = Some True, ur_details = []\<rparr>"

definition bad_utxo :: "(utxo_query, nat, unit utxo_result) provider" where
  "bad_utxo q = retS \<lparr>ur_name = ''bad'', ur_success = False,
     ur_error = Some \<lparr>we_code = ''WERR_BAD'', we_message = []\<rparr>, ur_isUtxo = None, ur_details = []\<rparr>"

lemma utxo_status_answer_witness:
  "\<exists>r sv' w'. getUtxoStatusFromProviders ticking (\<lambda>_ w. w) ([], None, None) True
     (new_services ''getUtxoStatus'' [(''bad'', bad_utxo)] 0, 0) = (Inr r, (sv', w')) \<and> ur_error r = Some no_services"
proof -
  have bad: "snd p q w = (Inr r, w') \<Longrightarrow> \<not> ur_success r" if "p \<in> set [(''bad'', bad_utxo)]" for p q w r w'
    using that by (auto simp: bad_utxo_def)
  show ?thesis
    using utxo_status_answer [of "new_services ''getUtxoStatus'' [(''bad'', bad_utxo)] 0" 0 ticking "\<lambda>_ w. w" "([], None, None)" True 0] bad
    by (auto simp: new_services_def)
qed

text \<open>one reliable provider is enough: if some provider answers with success whenever it is called, so does the
  request, whatever the other providers do.\<close>

theorem utxo_status_available:
  assumes "sv_index sv = Some i" "i < length (sv_services sv)" "p \<in> set (sv_services sv)"
    "\<forall>w. \<exists>r w'. snd p q w = (Inr r, w') \<and> ur_success r"
  shows "\<exists>r sv' w'. getUtxoStatusFromProviders clk wait q useNext (sv, w) = (Inr r, (sv', w')) \<and> ur_success r"
proof -
  have "ready sv i" using assms by (simp add: ready_def)
  from utxo_status_run [OF this, of clk wait q useNext w] obtain r sv' w' where
    r: "getUtxoStatusFromProviders clk wait q useNext (sv, w) = (Inr r, (sv', w'))"
    "(\<exists>p \<in> set (sv_services sv). utxo_got q p r) \<or> (\<forall>p \<in> set (sv_services sv). utxo_failed q p)" by blast
  have "\<not> utxo_failed q p" using assms(4) unfolding utxo_failed_def by (metis fst_conv)
  with r assms(3) show ?thesis by (auto simp: utxo_got_def)
qed

lemma utxo_status_available_witness:
  "\<exists>r sv' w'. getUtxoStatusFromProviders ticking (\<lambda>_ w. w) ([], None, None) False
     (new_services ''getUtxoStatus'' [(''bad'', bad_utxo), (''good'', good_utxo)] 0, 0) = (Inr r, (sv', w')) \<and> ur_success r"
  by (rule utxo_status_available [where i = 0 and p = "(''good'', good_utxo)"]) (simp_all add: new_services_def good_utxo_def)

section \<open>Raw transactions\<close>

definition raw_ok :: "(nat list \<Rightarrow> string) \<Rightarrow> string \<Rightarrow> raw_tx_result \<Rightarrow> bool" where
  "raw_ok txid_of txid r \<longleftrightarrow> (case rt_rawTx r of None \<Rightarrow> False | Some tx \<Rightarrow> txid_of tx = txid)"

definition raw_error :: "(nat list \<Rightarrow> string) \<Rightarrow> string \<Rightarrow> raw_tx_result \<Rightarrow> service_error option" where
  "raw_error txid_of txid r = (case rt_rawTx r of None \<Rightarrow> rt_error r
     | Some tx \<Rightarrow> Some \<lparr>we_code = ''WERR_INTERNAL'',
         we_message = ''computed txid '' @ txid_of tx @ '' doesn't match requested value '' @ txid\<rparr>)"

definition raw_next :: "(nat list \<Rightarrow> string) \<Rightarrow> string \<Rightarrow> raw_tx_result \<Rightarrow> raw_tx_result \<Rightarrow> raw_tx_result" where
  "raw_next txid_of txid r acc =
     (if raw_ok txid_of txid r then acc\<lparr>rt_rawTx := rt_rawTx r, rt_name := rt_name r, rt_error := None\<rparr>
      else if raw_error txid_of txid r \<noteq> None \<and> rt_error acc = None \<and> rt_rawTx acc = None
      then acc\<lparr>rt_error := raw_error txid_of txid r\<rparr> else acc)"

lemma after_error:
  "ready sv i \<Longrightarrow> returns (bindS (addServiceCallError clk stc e) (\<lambda>_. retS y)) sv w y"
  using after_failed [of sv i clk stc "Some e" y w] by (simp add: record_failed_def)

lemma deals_raw: "deals (applyRawTxResult clk txid_of txid) (raw_ok txid_of txid) (raw_next txid_of txid)"
proof (rule dealsI)
  fix stc r acc sv w i assume r: "ready sv i"
  show "returns (applyRawTxResult clk txid_of txid stc r acc) sv w (raw_ok txid_of txid r, raw_next txid_of txid r acc)"
  proof (cases "rt_rawTx r")
    case None
    then show ?thesis using after_error [OF r] after_success
      by (cases "rt_error r") (auto simp: applyRawTxResult_def raw_ok_def raw_next_def raw_error_def Let_def)
  next
    case (Some tx)
    then show ?thesis using after_error [OF r] after_success
      by (cases "txid_of tx = txid") (auto simp: applyRawTxResult_def raw_ok_def raw_next_def raw_error_def Let_def)
  qed
qed

text \<open>C24: a raw transaction in the answer has the requested transaction id, whatever bytes the providers return; and
  without one, every provider was asked and failed to give such bytes.\<close>

theorem raw_transaction_answer:
  assumes "sv_index sv = Some i" "i < length (sv_services sv)"
  shows "\<exists>r sv' w'. getRawTx clk txid_of txid useNext (sv, w) = (Inr r, (sv', w')) \<and> rt_txid r = txid \<and>
    (case rt_rawTx r of
       Some tx \<Rightarrow> txid_of tx = txid \<and> rt_error r = None \<and>
         (\<exists>p \<in> set (sv_services sv). \<exists>x w1 w2. snd p txid w1 = (Inr x, w2) \<and> rt_rawTx x = Some tx)
     | None \<Rightarrow> \<forall>p \<in> set (sv_services sv). \<exists>w1. \<forall>x tx. fst (snd p txid w1) = Inr x \<and> rt_rawTx x = Some tx \<longrightarrow> txid_of tx \<noteq> txid)"
proof -
  have "ready sv i" using assms by (simp add: ready_def)
  then obtain sv1 j where n: "use_next useNext (sv, w) = (Inr (), (sv1, w))" "ready sv1 j" "sv_services sv1 = sv_services sv"
    by (rule use_next_ready)
  let ?Inv = "\<lambda>acc. rt_txid acc = txid \<and> rt_rawTx acc = None"
  let ?start = "\<lparr>rt_txid = txid, rt_name = None, rt_rawTx = None, rt_error = None\<rparr>"
  have run: "getRawTx clk txid_of txid useNext (sv, w) =
      over_providers clk (try_provider clk (\<lambda>stc. call_service stc txid) (applyRawTxResult clk txid_of txid)) ?start (sv1, w)"
    using n(1) by (simp add: getRawTx_def bindS_def)
  show ?thesis unfolding run
  proof (rule failover [OF deals_raw [of clk txid_of txid] call_service_world [of txid] _ n(2), where Inv = ?Inv and acc = ?start
        and clk = clk and w = w], goal_cases)
    case (1 x acc)
    then show ?case by (simp add: raw_next_def)
  next
    case (3 x acc1 sv' w' j)
    then obtain tx where tx: "rt_rawTx x = Some tx" "txid_of tx = txid" by (auto simp: raw_ok_def split: option.splits)
    from got_call [OF 3(6)] obtain w1 w2 where "snd (sv_services sv1 ! j) txid w1 = (Inr x, w2)" by blast
    then have "\<exists>p \<in> set (sv_services sv). \<exists>x w1 w2. snd p txid w1 = (Inr x, w2) \<and> rt_rawTx x = Some tx"
      using 3(4) tx(1) n(3) by (metis prod.collapse)
    with 3(1,5,7) tx show ?case by (auto simp: raw_next_def)
  next
    case (4 acc' sv' w')
    have "\<exists>w1. \<forall>x tx. fst (snd p txid w1) = Inr x \<and> rt_rawTx x = Some tx \<longrightarrow> txid_of tx \<noteq> txid"
      if "p \<in> set (sv_services sv)" for p
      using failed_call [of txid "raw_ok txid_of txid" p] 4(4) that n(3) by (fastforce simp: raw_ok_def)
    with 4(1,5) show ?case by auto
  qed simp
qed

lemma raw_transaction_answer_witness:
  "\<exists>r sv' w'. getRawTx ticking (\<lambda>_. ''ff'') ''aa'' False (new_services ''getRawTx''
      [(''liar'', \<lambda>_. retS \<lparr>rt_txid = ''aa'', rt_name = None, rt_rawTx = Some [1], rt_error = None\<rparr>)] 0, 0) = (Inr r, (sv', w'))
    \<and> rt_rawTx r = None"
  using raw_transaction_answer [of "new_services ''getRawTx''
      [(''liar'', \<lambda>_. retS \<lparr>rt_txid = ''aa'', rt_name = None, rt_rawTx = Some [1], rt_error = None\<rparr>)] 0" 0 ticking "\<lambda>_. ''ff''" "''aa''" False 0]
  by (auto simp: new_services_def split: option.splits)

section \<open>Batches of transaction ids\<close>

lemma batches_of_exact:
  "0 < n \<Longrightarrow> concat (batches_of n xs) = xs \<and> list_all (\<lambda>b. b \<noteq> [] \<and> length b \<le> n) (batches_of n xs)"
proof (induction n xs rule: batches_of.induct)
  case (1 n xs)
  then show ?case
    by (cases "xs = []") (simp_all add: batches_of.simps [of n xs] batches_of.simps [of n "[]"])
qed

text \<open>the batches of a list of transaction ids are the list cut into pieces of at most 20, in order, none of
  them empty.\<close>

theorem batches_exact:
  "concat (batches_of getStatusForTxidsBatchLimit txids) = txids \<and>
   list_all (\<lambda>b. b \<noteq> [] \<and> length b \<le> 20) (batches_of getStatusForTxidsBatchLimit txids)"
  using batches_of_exact [of 20 txids] by (simp add: getStatusForTxidsBatchLimit_def)

section \<open>Call histories\<close>

text \<open>whatever is recorded, read with or without reset, added, removed or moved, the history of a provider keeps
  its last 32 calls and counts every one: as many entries as successes and failures up to 32, no more errors
  than failures, and at most 32 intervals that add up to the totals unless older ones were dropped.\<close>

theorem call_history_consistent:
  assumes "(service_step clk)\<^sup>*\<^sup>* (new_services nm ps t, w) (sv, w')" "sv_history sv p = Some h"
  shows "ph_providerName h = p \<and>
    length (ph_calls h) = min 32 (cc_success (ph_totalCounts h) + cc_failure (ph_totalCounts h)) \<and>
    cc_error (ph_totalCounts h) \<le> cc_failure (ph_totalCounts h) \<and>
    0 < length (ph_resetCounts h) \<and> length (ph_resetCounts h) \<le> 32 \<and>
    (\<forall>f \<in> {cc_success, cc_failure, cc_error}. sum_list (map f (ph_resetCounts h)) \<le> f (ph_totalCounts h) \<and>
       (length (ph_resetCounts h) < 32 \<longrightarrow> sum_list (map f (ph_resetCounts h)) = f (ph_totalCounts h)))"
proof -
  have "histories_ok (new_services nm ps t)" by (simp add: histories_ok_def new_services_def)
  with histories_reachable [OF assms(1)] have "histories_ok sv" by simp
  with assms(2) have "history_ok p h" by (simp add: histories_ok_def)
  then show ?thesis unfolding history_ok_def counts_sum_def by auto
qed

lemma call_history_consistent_witness:
  "\<exists>h. sv_history (fst (snd (addServiceCallSuccess ticking
      \<lparr>st_providerName = ''A'', st_serviceName = ''x'', st_service = (), st_call =
        \<lparr>ca_when = 0, ca_msecs = 0, ca_success = False, ca_result = None, ca_error = None\<rparr>\<rparr> None
      (new_services ''x'' [(''A'', ())] 0, 1)))) ''A'' = Some h \<and> length (ph_calls h) \<le> 32"
proof -
  let ?stc = "\<lparr>st_providerName = ''A'', st_serviceName = ''x'', st_service = (), st_call =
        \<lparr>ca_when = 0, ca_msecs = 0, ca_success = False, ca_result = None, ca_error = None\<rparr>\<rparr>"
  let ?s = "addServiceCallSuccess ticking ?stc None (new_services ''x'' [(''A'', ())] 0, 1)"
  have step: "(service_step ticking)\<^sup>*\<^sup>* (new_services ''x'' [(''A'', ())] 0, 1) (fst (snd ?s), snd (snd ?s))"
    by (rule r_into_rtranclp) (rule service_step.success [of _ ?stc None _ "fst ?s"], simp)
  obtain h where h: "sv_history (fst (snd ?s)) ''A'' = Some h"
    by (simp add: addServiceCallSuccess_def addServiceCall_def bindS_def now_of_run)
  from call_history_consistent [OF step h] h show ?thesis by simp
qed

end
