(* ===== verification/Broadcasting.thy ===== *)
theory Broadcasting
  imports Services "HOL-Library.AList"
begin

text \<open>
  Posting transactions to the broadcasters, \<open>postBeef\<close> of \<^verbatim>\<open>src/src/services/Services.ts\<close>: one provider after
  another until one succeeds, or all of them at once.

  The race between a call and its timer is decided by an argument, \<open>times_out ms w\<close>: whether a timer of \<open>ms\<close>
  milliseconds ends before a call started in \<open>w\<close>. What the call does to the world happens in both cases.
  The notes leave out when they were written.
  In the mode for all providers the calls start together; here they run in the order of the providers.
\<close>

datatype txid_detail = Message string | TimeoutAfter msecs

record post_note =
  pn_what :: string
  pn_providerName :: string
  pn_error :: "service_error option"
  pn_timeoutMs :: "msecs option"

record txid_result =
  tr_txid :: string
  tr_success :: bool
  tr_serviceError :: bool
  tr_detail :: txid_detail

record post_result =
  po_name :: string
  po_success :: bool
  po_error :: "service_error option"
  po_txidResults :: "txid_result list"
  po_notes :: "post_note list option"

datatype postBeefMode = UntilSuccess | PromiseAll

type_synonym 'b post_args = "'b \<times> string list"

definition makeServiceExceptionResult :: "string \<Rightarrow> string list \<Rightarrow> service_error \<Rightarrow> post_result" where
  "makeServiceExceptionResult providerName txids err =
     \<lparr>po_name = providerName, po_success = False, po_error = Some err,
      po_txidResults = map (\<lambda>t. \<lparr>tr_txid = t, tr_success = False, tr_serviceError = True, tr_detail = Message (we_message err)\<rparr>) txids,
      po_notes = Some [\<lparr>pn_what = ''postBeefServiceException'', pn_providerName = providerName, pn_error = Some err, pn_timeoutMs = None\<rparr>]\<rparr>"

definition makeServiceTimeoutResult :: "string \<Rightarrow> string list \<Rightarrow> msecs \<Rightarrow> post_result" where
  "makeServiceTimeoutResult providerName txids timeoutMs =
     \<lparr>po_name = providerName, po_success = False, po_error = None,
      po_txidResults = map (\<lambda>t. \<lparr>tr_txid = t, tr_success = False, tr_serviceError = True, tr_detail = TimeoutAfter timeoutMs\<rparr>) txids,
      po_notes = Some [\<lparr>pn_what = ''postBeefServiceTimeout'', pn_providerName = providerName, pn_error = None, pn_timeoutMs = Some timeoutMs\<rparr>]\<rparr>"

definition race_service ::
  "(msecs \<Rightarrow> 'w \<Rightarrow> bool) \<Rightarrow> msecs \<Rightarrow> ('b post_args, 'w, post_result) provider service_to_call \<Rightarrow> 'b post_args \<Rightarrow>
   (('b post_args, 'w, post_result) provider, 'w, post_result) calls" where
  "race_service times_out timeoutMs stc a = (\<lambda>(sv, w).
     if 0 < timeoutMs \<and> times_out timeoutMs w
     then let (_, s) = call_service stc a (sv, w) in (Inr (makeServiceTimeoutResult (st_providerName stc) (snd a) timeoutMs), s)
     else call_service stc a (sv, w))"

definition post_once ::
  "'w clock \<Rightarrow> (msecs \<Rightarrow> 'w \<Rightarrow> bool) \<Rightarrow> msecs \<Rightarrow> 'b post_args \<Rightarrow> ('b post_args, 'w, post_result) provider service_to_call \<Rightarrow>
   (('b post_args, 'w, post_result) provider, 'w, post_result) calls" where
  "post_once clk times_out timeoutMs a stc =
     bindS (catchS (race_service times_out timeoutMs stc a)
       (\<lambda>e. retS (makeServiceExceptionResult (st_providerName stc) (snd a) e))) (\<lambda>r.
     bindS (if po_success r then addServiceCallSuccess clk stc None else record_failed clk stc (po_error r)) (\<lambda>_. retS r))"

definition soft_timed_out :: "post_result \<Rightarrow> bool" where
  "soft_timed_out r \<longleftrightarrow> (case po_notes r of None \<Rightarrow> False | Some ns \<Rightarrow> ''postBeefServiceTimeout'' \<in> pn_what ` set ns)"

text \<open>\<open>until_success\<close> goes through the providers as they were at the start; one that could not serve any of the
  transactions is moved to the end of the collection.\<close>

primrec until_success ::
  "(('b post_args, 'w, post_result) provider service_to_call \<Rightarrow> (('b post_args, 'w, post_result) provider, 'w, post_result) calls) \<Rightarrow>
   ('b post_args, 'w, post_result) provider service_to_call list \<Rightarrow>
   (('b post_args, 'w, post_result) provider, 'w, post_result list) calls" where
  "until_success post [] = retS []"
| "until_success post (stc # stcs) = bindS (post stc) (\<lambda>r.
     if po_success r then retS [r]
     else bindS (if \<not> soft_timed_out r \<and> list_all tr_serviceError (po_txidResults r)
                 then (\<lambda>(sv, w). (Inr (), (moveServiceToLast stc sv, w))) else retS ()) (\<lambda>_.
          bindS (until_success post stcs) (\<lambda>rs. retS (r # rs))))"

record post_options =
  pf_softTimeoutMs :: msecs
  pf_perKbMs :: msecs
  pf_maxMs :: msecs

definition getPostBeefSoftTimeoutMs :: "post_options \<Rightarrow> nat \<Rightarrow> msecs" where
  "getPostBeefSoftTimeoutMs opt beefBytes =
     (let baseMs = max 0 (pf_softTimeoutMs opt);
          perKbMs = max 0 (pf_perKbMs opt);
          maxMs = max baseMs (pf_maxMs opt)
      in if perKbMs \<le> 0 then min baseMs maxMs
         else min maxMs (baseMs + \<lceil>js_mul (js_div (of_nat beefBytes) 1024) (of_int perKbMs)\<rceil>))"

definition runPostBeef ::
  "'w clock \<Rightarrow> (msecs \<Rightarrow> 'w \<Rightarrow> bool) \<Rightarrow> ('b \<Rightarrow> nat) \<Rightarrow> post_options \<Rightarrow> postBeefMode \<Rightarrow> 'b \<Rightarrow> string list \<Rightarrow>
   (('b post_args, 'w, post_result) provider, 'w, post_result list) calls" where
  "runPostBeef clk times_out beef_bytes opt mode beef txids = bindS (allServicesToCall clk) (\<lambda>stcs.
     let post = post_once clk times_out (getPostBeefSoftTimeoutMs opt (beef_bytes beef)) (beef, txids)
     in case mode of UntilSuccess \<Rightarrow> until_success post stcs | PromiseAll \<Rightarrow> mapS post stcs)"

definition postBeef ::
  "bool \<Rightarrow> 'w clock \<Rightarrow> (msecs \<Rightarrow> 'w \<Rightarrow> bool) \<Rightarrow> ('b \<Rightarrow> nat) \<Rightarrow> post_options \<Rightarrow> postBeefMode \<Rightarrow> 'b \<Rightarrow> string list \<Rightarrow>
   (('b post_args, 'w, post_result) provider, 'w, post_result list) calls" where
  "postBeef isClosed clk times_out beef_bytes opt mode beef txids =
     (if isClosed then throwS \<lparr>we_code = ''WERR_INVALID_OPERATION'', we_message = ''Services are closed.''\<rparr>
      else runPostBeef clk times_out beef_bytes opt mode beef txids)"

text \<open>
  Exchange rates of currencies against the dollar, \<open>updateFiatExchangeRates\<close> and the two readers of
  \<^verbatim>\<open>src/src/services/Services.ts\<close>. A rate is a rational other than 0; the one division, of
  \<open>getFiatExchangeRate\<close>, is that of doubles. The objects keyed by currency are association lists. The state is the options' \<open>fiatExchangeRates\<close>, beside the collection of providers.
\<close>

record fiat_rates =
  fx_timestamp :: msecs
  fx_base :: string
  fx_rates :: "(string \<times> rat) list option"
  fx_rateTimestamps :: "(string \<times> msecs) list option"

type_synonym ('w, 'a) fiat_calls =
  "((string list, 'w, fiat_rates) provider services \<times> fiat_rates \<times> 'w, service_error, 'a) sem"

definition stored_rates :: "fiat_rates \<Rightarrow> (string \<times> rat) list" where
  "stored_rates fx = (case fx_rates fx of None \<Rightarrow> [] | Some m \<Rightarrow> m)"

definition rate_in :: "fiat_rates \<Rightarrow> string \<Rightarrow> rat option" where
  "rate_in fx = map_of (stored_rates fx)"

definition is_fresh :: "fiat_rates \<Rightarrow> (string \<times> rat) list \<Rightarrow> msecs \<Rightarrow> string \<Rightarrow> bool" where
  "is_fresh stored rates freshnessDate c \<longleftrightarrow> map_of rates c \<noteq> None \<and>
     freshnessDate < (case (case fx_rateTimestamps stored of None \<Rightarrow> None | Some ts \<Rightarrow> map_of ts c) of
        None \<Rightarrow> fx_timestamp stored | Some t \<Rightarrow> t)"

text \<open>The currencies to fetch; a dollar without a rate gets the rate 1.\<close>

fun collectStaleCurrencies :: "string list \<Rightarrow> (string \<times> rat) list \<Rightarrow> fiat_rates \<Rightarrow> msecs \<Rightarrow> string list \<times> (string \<times> rat) list" where
  "collectStaleCurrencies [] rates stored freshnessDate = ([], rates)"
| "collectStaleCurrencies (c # cs) rates stored freshnessDate =
     (if c = ''USD'' then collectStaleCurrencies cs (if map_of rates c = None then AList.update c 1 rates else rates) stored freshnessDate
      else if is_fresh stored rates freshnessDate c then collectStaleCurrencies cs rates stored freshnessDate
      else let (l, rates') = collectStaleCurrencies cs rates stored freshnessDate in (c # l, rates'))"

definition covers :: "fiat_rates \<Rightarrow> string list \<Rightarrow> bool" where
  "covers fx cs \<longleftrightarrow> (\<forall>c \<in> set cs. c = ''USD'' \<or> rate_in fx c \<noteq> None)"

definition deal_rates ::
  "'w clock \<Rightarrow> string list \<Rightarrow> 'p service_to_call \<Rightarrow> fiat_rates \<Rightarrow> fiat_rates option \<Rightarrow> ('p, 'w, bool \<times> fiat_rates option) calls" where
  "deal_rates clk toFetch stc r acc =
     (if covers r toFetch then bindS (addServiceCallSuccess clk stc None) (\<lambda>_. retS (True, Some r))
      else bindS (addServiceCallFailure clk stc None) (\<lambda>_. retS (False, acc)))"

text \<open>The calls are made, and recorded, on a clone of the collection.\<close>

definition fetchFiatRates :: "'w clock \<Rightarrow> string list \<Rightarrow> ('w, fiat_rates option) fiat_calls" where
  "fetchFiatRates clk toFetch = (\<lambda>(sv, fx, w).
     let (t, w1) = clk w;
         (r, (sv', w2)) = over_providers clk (try_provider clk (\<lambda>stc. call_service stc toFetch) (deal_rates clk toFetch)) None
            (clone_services t sv, w1)
     in (r, (sv, fx, w2)))"

definition mergeFiatRates :: "fiat_rates \<Rightarrow> (string \<times> rat) list \<Rightarrow> fiat_rates \<Rightarrow> fiat_rates" where
  "mergeFiatRates stored rates fetched =
     (let ts = (case fx_rateTimestamps stored of None \<Rightarrow> [] | Some m \<Rightarrow> m)
      in \<lparr>fx_timestamp = max (fx_timestamp stored) (fx_timestamp fetched), fx_base = fx_base stored,
          fx_rates = Some (foldl (\<lambda>m (c, v). AList.update c v m) rates (stored_rates fetched)),
          fx_rateTimestamps = Some (foldl (\<lambda>m (c, v). AList.update c (fx_timestamp fetched) m) ts (stored_rates fetched))\<rparr>)"

text \<open>Rates that are there are an object the dollar's rate is entered into; rates that are not are an empty one.\<close>

definition updateFiatExchangeRates ::
  "'w clock \<Rightarrow> string list \<Rightarrow> msecs option \<Rightarrow> ('w, fiat_rates) fiat_calls" where
  "updateFiatExchangeRates clk targetCurrencies updateMsecs = (\<lambda>(sv, stored, w).
     let (t, w1) = clk w;
         freshnessDate = t - (case updateMsecs of None \<Rightarrow> 1000 * 60 * 60 * 24 | Some m \<Rightarrow> m);
         (toFetch, rates) = collectStaleCurrencies targetCurrencies (stored_rates stored) stored freshnessDate;
         stored1 = (if fx_rates stored = None then stored else stored\<lparr>fx_rates := Some rates\<rparr>)
     in if toFetch = [] then let fx = stored\<lparr>fx_rates := Some rates\<rparr> in (Inr fx, (sv, fx, w1))
        else case fetchFiatRates clk toFetch (sv, stored1, w1) of
               (Inl e, s) \<Rightarrow> (Inl e, s)
             | (Inr None, s) \<Rightarrow> if rates \<noteq> [] then (Inr stored1, s)
                 else (Inl \<lparr>we_code = ''WERR_INTERNAL'', we_message = []\<rparr>, s)
             | (Inr (Some fetched), (sv', _, w2)) \<Rightarrow>
                 let fx = mergeFiatRates stored1 rates fetched in (Inr fx, (sv', fx, w2)))"

definition getFiatExchangeRate :: "'w clock \<Rightarrow> msecs option \<Rightarrow> string \<Rightarrow> string option \<Rightarrow> ('w, rat) fiat_calls" where
  "getFiatExchangeRate clk fiatUpdateMsecs currency base0 =
     (let base = (case base0 of None \<Rightarrow> ''USD'' | Some b \<Rightarrow> if b = [] then ''USD'' else b)
      in if currency = base then retS 1
         else bindS (updateFiatExchangeRates clk (if base = ''USD'' then [currency] else [currency, base]) fiatUpdateMsecs) (\<lambda>_.
           \<lambda>(sv, fx, w). case (rate_in fx currency, rate_in fx base) of
               (None, _) \<Rightarrow> (Inl \<lparr>we_code = ''WERR_INVALID_PARAMETER'', we_message = ''currency''\<rparr>, (sv, fx, w))
             | (Some _, None) \<Rightarrow> (Inl \<lparr>we_code = ''WERR_INVALID_PARAMETER'', we_message = ''base''\<rparr>, (sv, fx, w))
             | (Some c, Some b) \<Rightarrow> (Inr (js_div c b), (sv, fx, w))))"

definition getFiatExchangeRates :: "'w clock \<Rightarrow> msecs option \<Rightarrow> string list \<Rightarrow> ('w, fiat_rates) fiat_calls" where
  "getFiatExchangeRates clk fiatUpdateMsecs targetCurrencies =
     bindS (updateFiatExchangeRates clk targetCurrencies fiatUpdateMsecs) (\<lambda>_. \<lambda>(sv, fx, w).
       (Inr \<lparr>fx_timestamp = fx_timestamp fx, fx_base = ''USD'',
          fx_rates = Some (foldl (\<lambda>m c. case rate_in fx c of None \<Rightarrow> m | Some v \<Rightarrow> AList.update c v m) [] targetCurrencies),
          fx_rateTimestamps = fx_rateTimestamps fx\<rparr>, (sv, fx, w)))"

end
