(* ===== verification/BroadcastProps.thy ===== *)
theory BroadcastProps
  imports ServicesProps Broadcasting "HOL-Library.Multiset"
begin

text \<open>
  The properties of broadcasting and of the exchange rates.
\<close>

section \<open>Broadcasting\<close>

lemma calls_of_all:
  "\<forall>i \<in> set is'. i < length (sv_services sv) \<Longrightarrow>
   \<exists>stcs w'. mapS (\<lambda>i. getServiceToCall clk (Some i)) is' (sv, w) = (Inr stcs, (sv, w')) \<and>
     map (\<lambda>s. (st_providerName s, st_service s)) stcs = map (\<lambda>i. sv_services sv ! i) is'"
proof (induction is' arbitrary: w)
  case (Cons i is')
  obtain nm p where p: "sv_services sv ! i = (nm, p)" by force
  obtain t w1 where w1: "clk w = (t, w1)" by force
  from Cons.IH [of w1] Cons.prems obtain stcs w' where
    "mapS (\<lambda>i. getServiceToCall clk (Some i)) is' (sv, w1) = (Inr stcs, (sv, w'))"
    "map (\<lambda>s. (st_providerName s, st_service s)) stcs = map (\<lambda>i. sv_services sv ! i) is'" by auto
  with Cons.prems p w1 show ?case by (auto simp: bindS_def getServiceToCall_def service_at_def Let_def)
qed simp

lemma all_calls:
  "\<exists>stcs w'. allServicesToCall clk (sv, w) = (Inr stcs, (sv, w')) \<and>
     map (\<lambda>s. (st_providerName s, st_service s)) stcs = sv_services sv"
  using calls_of_all [of "[0..<length (sv_services sv)]" sv clk w] by (simp add: allServicesToCall_def map_nth)

definition post_answer :: "'b post_args \<Rightarrow> string \<Rightarrow> ('b post_args, 'w, post_result) provider \<Rightarrow> post_result \<Rightarrow> bool" where
  "post_answer a nm p r \<longleftrightarrow> (\<exists>w w'. p a w = (Inr r, w')) \<or> (\<exists>ms. r = makeServiceTimeoutResult nm (snd a) ms) \<or>
     (\<exists>w w' e. p a w = (Inl e, w') \<and> r = makeServiceExceptionResult nm (snd a) e)"

lemma post_once_run:
  assumes "ready sv i"
  obtains r sv' w' where "post_once clk times_out ms a stc (sv, w) = (Inr r, (sv', w'))" "same_providers sv sv'"
    "post_answer a (st_providerName stc) (st_service stc) r"
proof -
  obtain q w1 where call: "st_service stc a w = (q, w1)" by force
  let ?m = "catchS (race_service times_out ms stc a) (\<lambda>e. retS (makeServiceExceptionResult (st_providerName stc) (snd a) e))"
  define r where "r = (if 0 < ms \<and> times_out ms w then makeServiceTimeoutResult (st_providerName stc) (snd a) ms
    else case q of Inl e \<Rightarrow> makeServiceExceptionResult (st_providerName stc) (snd a) e | Inr x \<Rightarrow> x)"
  have r: "?m (sv, w) = (Inr r, (sv, w1))" "post_answer a (st_providerName stc) (st_service stc) r"
  proof -
    show "?m (sv, w) = (Inr r, (sv, w1))" using call
      by (simp add: r_def catchS_def race_service_def call_service_def Let_def split: sum.split)
    show "post_answer a (st_providerName stc) (st_service stc) r"
      unfolding r_def post_answer_def using call by (cases q) (simp_all, blast+)
  qed
  have "returns (bindS (if po_success r then addServiceCallSuccess clk stc None else record_failed clk stc (po_error r)) (\<lambda>_. retS r)) sv w1 r"
    by (simp add: after_success after_failed [OF assms])
  then obtain sv' w' where "bindS (if po_success r then addServiceCallSuccess clk stc None else record_failed clk stc (po_error r))
      (\<lambda>_. retS r) (sv, w1) = (Inr r, (sv', w'))" "same_providers sv sv'" by (auto simp: returns_def)
  note rec = this(1)
  have "post_once clk times_out ms a stc (sv, w) = (Inr r, (sv', w'))"
    unfolding post_once_def bindS_run(2) [of ?m, OF r(1)] by (rule rec)
  with \<open>same_providers sv sv'\<close> r(2) that show ?thesis by blast
qed


text \<open>The providers of the collection in the order the calls were prepared, as \<open>until_success\<close> goes on: what it
  answers is a list of answers of a prefix of them, all but the last without success.\<close>

lemma ready_move:
  assumes "ready sv i"
  shows "ready (moveServiceToLast stc sv) i \<and> mset (sv_services (moveServiceToLast stc sv)) = mset (sv_services sv)"
proof (cases "List.extract (\<lambda>s. fst s = st_providerName stc) (sv_services sv)")
  case (Some t)
  obtain xs y ys where t: "t = (xs, y, ys)" by (cases t) auto
  with Some have "sv_services sv = xs @ y # ys" by (simp add: extract_Some_iff)
  with Some t assms show ?thesis by (simp add: moveServiceToLast_def ready_def)
qed (use assms in \<open>simp add: moveServiceToLast_def\<close>)

lemma until_success_run:
  assumes "ready sv i"
  shows "\<exists>rs sv' w' n. until_success (post_once clk times_out ms a) stcs (sv, w) = (Inr rs, (sv', w')) \<and>
    mset (sv_services sv') = mset (sv_services sv) \<and> n \<le> length stcs \<and>
    list_all2 (\<lambda>stc. post_answer a (st_providerName stc) (st_service stc)) (take n stcs) rs \<and>
    list_all (\<lambda>r. \<not> po_success r) (butlast rs) \<and> (n < length stcs \<longrightarrow> rs \<noteq> [] \<and> po_success (last rs))"
  using assms
proof (induction stcs arbitrary: sv i w)
  case Nil
  then show ?case by simp
next
  case (Cons stc stcs)
  obtain r sv1 w1 where p: "post_once clk times_out ms a stc (sv, w) = (Inr r, (sv1, w1))" "same_providers sv sv1"
      "post_answer a (st_providerName stc) (st_service stc) r"
    by (rule post_once_run [OF Cons.prems])
  note r1 = ready_same [OF Cons.prems p(2)]
  show ?case
  proof (cases "po_success r")
    case True
    with p have "until_success (post_once clk times_out ms a) (stc # stcs) (sv, w) = (Inr [r], (sv1, w1))" by simp
    then show ?thesis using p(2,3) True
      by (intro exI [of _ "[r]"] exI [of _ sv1] exI [of _ w1] exI [of _ 1]) (simp add: same_providers_def)
  next
    case False
    define sv2 where "sv2 = (if \<not> soft_timed_out r \<and> list_all tr_serviceError (po_txidResults r) then moveServiceToLast stc sv1 else sv1)"
    have r2: "ready sv2 i" "mset (sv_services sv2) = mset (sv_services sv)"
      using r1 ready_move [OF r1, of stc] p(2) by (simp_all add: sv2_def same_providers_def)
    obtain rs sv' w' n where IH: "until_success (post_once clk times_out ms a) stcs (sv2, w1) = (Inr rs, (sv', w'))"
      "mset (sv_services sv') = mset (sv_services sv2)" "n \<le> length stcs"
      "list_all2 (\<lambda>stc. post_answer a (st_providerName stc) (st_service stc)) (take n stcs) rs"
      "list_all (\<lambda>r. \<not> po_success r) (butlast rs)" "n < length stcs \<longrightarrow> rs \<noteq> [] \<and> po_success (last rs)"
      using Cons.IH [OF r2(1), of w1] by blast
    have "until_success (post_once clk times_out ms a) (stc # stcs) (sv, w) = (Inr (r # rs), (sv', w'))"
      using False p(1) IH(1) by (auto simp: sv2_def bindS_def split: if_splits)
    then show ?thesis using IH(2-6) r2(2) p(3) False
      by (intro exI [of _ "r # rs"] exI [of _ sv'] exI [of _ w'] exI [of _ "Suc n"]) auto
  qed
qed

lemma post_all_run:
  assumes "ready sv i"
  shows "\<exists>rs sv' w'. mapS (post_once clk times_out ms a) stcs (sv, w) = (Inr rs, (sv', w')) \<and>
    sv_services sv' = sv_services sv \<and>
    list_all2 (\<lambda>stc. post_answer a (st_providerName stc) (st_service stc)) stcs rs"
  using assms
proof (induction stcs arbitrary: sv w)
  case (Cons stc stcs)
  obtain r sv1 w1 where p: "post_once clk times_out ms a stc (sv, w) = (Inr r, (sv1, w1))" "same_providers sv sv1"
      "post_answer a (st_providerName stc) (st_service stc) r"
    by (rule post_once_run [OF Cons.prems])
  obtain rs sv' w' where "mapS (post_once clk times_out ms a) stcs (sv1, w1) = (Inr rs, (sv', w'))"
      "sv_services sv' = sv_services sv1"
      "list_all2 (\<lambda>stc. post_answer a (st_providerName stc) (st_service stc)) stcs rs"
    using Cons.IH [OF ready_same [OF Cons.prems p(2)], of w1] by blast
  with p show ?case by (auto simp: same_providers_def)
qed simp


lemma answers_map: "list_all2 P (take n (map f xs)) ys \<longleftrightarrow> list_all2 (\<lambda>x. P (f x)) (take n xs) ys"
  by (simp add: take_map list_all2_map1)

lemma answers_of:
  assumes "map (\<lambda>s. (st_providerName s, st_service s)) stcs = ps"
  shows "list_all2 (\<lambda>p. post_answer a (fst p) (snd p)) (take n ps) rs \<longleftrightarrow>
    list_all2 (\<lambda>stc. post_answer a (st_providerName stc) (st_service stc)) (take n stcs) rs"
  using answers_map [of "\<lambda>p. post_answer a (fst p) (snd p)" n "\<lambda>s. (st_providerName s, st_service s)" stcs rs] assms by simp

text \<open>C32: in the mode until success, posting always answers: with the answers of the first providers of the list, in
  order, all without success but the last one, which is a success unless all providers were asked; what throws or
  takes too long is an answer that says so. The collection keeps the same providers, reordered.\<close>

theorem broadcast_until_success:
  assumes "sv_index sv = Some i" "i < length (sv_services sv)"
  shows "\<exists>rs sv' w' n. postBeef False clk times_out beef_bytes opt UntilSuccess beef txids (sv, w) = (Inr rs, (sv', w')) \<and>
    mset (sv_services sv') = mset (sv_services sv) \<and> n \<le> length (sv_services sv) \<and>
    list_all2 (\<lambda>(nm, p) r. (\<exists>w1 w2. p (beef, txids) w1 = (Inr r, w2)) \<or> (\<exists>ms. r = makeServiceTimeoutResult nm txids ms) \<or>
       (\<exists>w1 w2 e. p (beef, txids) w1 = (Inl e, w2) \<and> r = makeServiceExceptionResult nm txids e)) (take n (sv_services sv)) rs \<and>
    list_all (\<lambda>r. \<not> po_success r) (butlast rs) \<and> (n < length (sv_services sv) \<longrightarrow> rs \<noteq> [] \<and> po_success (last rs))"
proof -
  have r: "ready sv i" using assms by (simp add: ready_def)
  obtain stcs w1 where calls: "allServicesToCall clk (sv, w) = (Inr stcs, (sv, w1))"
      "map (\<lambda>s. (st_providerName s, st_service s)) stcs = sv_services sv" using all_calls [of clk sv w] by (elim exE conjE)
  have len: "length stcs = length (sv_services sv)" using arg_cong [OF calls(2), of length] by simp
  have "postBeef False clk times_out beef_bytes opt UntilSuccess beef txids (sv, w) =
      until_success (post_once clk times_out (getPostBeefSoftTimeoutMs opt (beef_bytes beef)) (beef, txids)) stcs (sv, w1)"
    using calls(1) by (simp add: postBeef_def runPostBeef_def Let_def)
  note run = this
  obtain rs sv' w' n where u: "until_success (post_once clk times_out (getPostBeefSoftTimeoutMs opt (beef_bytes beef)) (beef, txids)) stcs (sv, w1)
        = (Inr rs, (sv', w'))" "mset (sv_services sv') = mset (sv_services sv)" "n \<le> length stcs"
      "list_all2 (\<lambda>stc. post_answer (beef, txids) (st_providerName stc) (st_service stc)) (take n stcs) rs"
      "list_all (\<lambda>r. \<not> po_success r) (butlast rs)" "n < length stcs \<longrightarrow> rs \<noteq> [] \<and> po_success (last rs)"
    using until_success_run [OF r, of clk times_out "getPostBeefSoftTimeoutMs opt (beef_bytes beef)" "(beef, txids)" stcs w1]
    by (elim exE conjE)
  have "list_all2 (\<lambda>p. post_answer (beef, txids) (fst p) (snd p)) (take n (sv_services sv)) rs"
    unfolding answers_of [OF calls(2)] by (rule u(4))
  note a = this [unfolded post_answer_def snd_conv]
  show ?thesis unfolding run u(1) case_prod_beta
    by (rule exI [of _ rs], rule exI [of _ sv'], rule exI [of _ w'], rule exI [of _ n]) (use u a len in simp)
qed

text \<open>in the mode for all providers, posting always answers, with exactly one answer of each provider, in the
  order of the collection.\<close>

theorem broadcast_to_all:
  assumes "sv_index sv = Some i" "i < length (sv_services sv)"
  shows "\<exists>rs sv' w'. postBeef False clk times_out beef_bytes opt PromiseAll beef txids (sv, w) = (Inr rs, (sv', w')) \<and>
    sv_services sv' = sv_services sv \<and>
    list_all2 (\<lambda>(nm, p) r. (\<exists>w1 w2. p (beef, txids) w1 = (Inr r, w2)) \<or> (\<exists>ms. r = makeServiceTimeoutResult nm txids ms) \<or>
       (\<exists>w1 w2 e. p (beef, txids) w1 = (Inl e, w2) \<and> r = makeServiceExceptionResult nm txids e)) (sv_services sv) rs"
proof -
  have r: "ready sv i" using assms by (simp add: ready_def)
  obtain stcs w1 where calls: "allServicesToCall clk (sv, w) = (Inr stcs, (sv, w1))"
      "map (\<lambda>s. (st_providerName s, st_service s)) stcs = sv_services sv" using all_calls [of clk sv w] by (elim exE conjE)
  have "postBeef False clk times_out beef_bytes opt PromiseAll beef txids (sv, w) =
      mapS (post_once clk times_out (getPostBeefSoftTimeoutMs opt (beef_bytes beef)) (beef, txids)) stcs (sv, w1)"
    using calls(1) by (simp add: postBeef_def runPostBeef_def Let_def)
  note run = this
  obtain rs sv' w' where u: "mapS (post_once clk times_out (getPostBeefSoftTimeoutMs opt (beef_bytes beef)) (beef, txids)) stcs (sv, w1)
        = (Inr rs, (sv', w'))" "sv_services sv' = sv_services sv"
      "list_all2 (\<lambda>stc. post_answer (beef, txids) (st_providerName stc) (st_service stc)) stcs rs"
    using post_all_run [OF r, of clk times_out "getPostBeefSoftTimeoutMs opt (beef_bytes beef)" "(beef, txids)" stcs w1]
    by (elim exE conjE)
  have "length stcs = length (sv_services sv)" using arg_cong [OF calls(2), of length] by simp
  then have "list_all2 (\<lambda>p. post_answer (beef, txids) (fst p) (snd p)) (sv_services sv) rs"
    using answers_of [OF calls(2), of "(beef, txids)" "length stcs" rs] u(3) by simp
  note a = this [unfolded post_answer_def snd_conv]
  show ?thesis unfolding run u(1) case_prod_beta
    by (rule exI [of _ rs], rule exI [of _ sv'], rule exI [of _ w']) (use u a in simp)
qed

definition good_post :: "(unit post_args, nat, post_result) provider" where
  "good_post a = retS \<lparr>po_name = ''good'', po_success = True, po_error = None, po_txidResults = [], po_notes = None\<rparr>"

definition bad_post :: "(unit post_args, nat, post_result) provider" where
  "bad_post a = throwS \<lparr>we_code = ''ECONNRESET'', we_message = []\<rparr>"

definition two_posts :: "(unit post_args, nat, post_result) provider services" where
  "two_posts = new_services ''postBeef'' [(''A'', good_post), (''B'', bad_post)] 0"

definition default_post_options :: post_options where
  "default_post_options = \<lparr>pf_softTimeoutMs = 5000, pf_perKbMs = 50, pf_maxMs = 30000\<rparr>"

lemma broadcast_until_success_witness:
  "\<exists>rs s. postBeef False ticking (\<lambda>_ _. False) (\<lambda>_. 300) default_post_options UntilSuccess () [''aa''] (two_posts, 0) = (Inr rs, s)"
proof -
  have "sv_index two_posts = Some 0" "0 < length (sv_services two_posts)" by (simp_all add: two_posts_def new_services_def)
  from broadcast_until_success [OF this, of ticking "\<lambda>_ _. False" "\<lambda>_. 300" default_post_options "()" "[''aa'']" 0]
  show ?thesis by blast
qed

lemma broadcast_to_all_witness:
  "\<exists>rs s. postBeef False ticking (\<lambda>_ _. False) (\<lambda>_. 300) default_post_options PromiseAll () [''aa''] (two_posts, 0) = (Inr rs, s)"
proof -
  have "sv_index two_posts = Some 0" "0 < length (sv_services two_posts)" by (simp_all add: two_posts_def new_services_def)
  from broadcast_to_all [OF this, of ticking "\<lambda>_ _. False" "\<lambda>_. 300" default_post_options "()" "[''aa'']" 0]
  show ?thesis by blast
qed

text \<open>the history blames the wrong provider: of two broadcasters the first accepts the transaction and the second
  throws, and afterwards the first has a success and an error, the second nothing.\<close>

theorem failure_recorded_under_other_provider:
  "let sv = fst (snd (postBeef False ticking (\<lambda>_ _. False) (\<lambda>_. 300) default_post_options PromiseAll () [''aa''] (two_posts, 0)))
   in map_option (\<lambda>h. (cc_success (ph_totalCounts h), cc_error (ph_totalCounts h))) (sv_history sv ''A'') = Some (1, 1) \<and>
      sv_history sv ''B'' = None"
  by code_simp

text \<open>the soft timeout is never less than the configured base nor more than the configured maximum, unless the
  base is.\<close>

theorem soft_timeout_bounds:
  "max 0 (pf_softTimeoutMs opt) \<le> getPostBeefSoftTimeoutMs opt beefBytes \<and>
   getPostBeefSoftTimeoutMs opt beefBytes \<le> max (max 0 (pf_softTimeoutMs opt)) (pf_maxMs opt)"
proof -
  have "0 \<le> js_mul (js_div (of_nat beefBytes) 1024) (of_int (max 0 (pf_perKbMs opt)))"
    by (intro js_nonneg) simp_all
  then have "0 \<le> \<lceil>js_mul (js_div (of_nat beefBytes) 1024) (of_int (max 0 (pf_perKbMs opt)))\<rceil>" by simp
  then show ?thesis unfolding getPostBeefSoftTimeoutMs_def Let_def by (auto simp: min_def max_def)
qed

section \<open>Exchange rates\<close>

lemma collect_stale:
  "collectStaleCurrencies cs rates stored d = (l, rates') \<Longrightarrow>
   (\<forall>c v. map_of rates c = Some v \<longrightarrow> map_of rates' c = Some v) \<and> (\<forall>c \<in> set cs. c \<in> set l \<or> map_of rates' c \<noteq> None) \<and>
   ''USD'' \<notin> set l"
proof (induction cs rates stored d arbitrary: l rates' rule: collectStaleCurrencies.induct)
  case (2 c cs rates stored d)
  consider "c = ''USD''" | "c \<noteq> ''USD''" "is_fresh stored rates d c" | "c \<noteq> ''USD''" "\<not> is_fresh stored rates d c" by blast
  then show ?case
  proof cases
    case 1
    note IH = "2.IH"(1) [of l rates', OF 1]
    show ?thesis
    proof (cases "map_of rates c")
      case None
      with IH "2.prems" 1 have "\<forall>x v. map_of (AList.update c 1 rates) x = Some v \<longrightarrow> map_of rates' x = Some v"
        "\<forall>x \<in> set cs. x \<in> set l \<or> map_of rates' x \<noteq> None" "''USD'' \<notin> set l" by simp_all
      then have u: "\<forall>x v. ((map_of rates)(c \<mapsto> 1)) x = Some v \<longrightarrow> map_of rates' x = Some v"
        "\<forall>x \<in> set cs. x \<in> set l \<or> map_of rates' x \<noteq> None" "''USD'' \<notin> set l" by (simp_all add: update_conv)
      have "map_of rates' x = Some v" if "map_of rates x = Some v" for x v
        using u(1) that None by (cases "x = c") auto
      moreover have "map_of rates' c = Some 1" using u(1) by simp
      ultimately show ?thesis using u(2,3) by auto
    next
      case (Some v)
      with IH "2.prems" 1 have "\<forall>x v. map_of rates x = Some v \<longrightarrow> map_of rates' x = Some v"
        "\<forall>x \<in> set cs. x \<in> set l \<or> map_of rates' x \<noteq> None" "''USD'' \<notin> set l" by simp_all
      then show ?thesis using Some by auto
    qed
  next
    case 2
    then show ?thesis using "2.IH"(2) [of l rates'] "2.prems" by (auto simp: is_fresh_def)
  next
    case 3
    obtain l1 where "collectStaleCurrencies cs rates stored d = (l1, rates')" "l = c # l1"
      using 3 "2.prems" by (auto split: prod.splits)
    with 3 "2.IH"(3) [of l1 rates'] show ?thesis by auto
  qed
qed simp

lemma map_of_updates:
  "map_of (foldl (\<lambda>m (c, v). AList.update c v m) m xs) c = None \<longleftrightarrow> map_of m c = None \<and> map_of xs c = None"
  by (induction xs arbitrary: m) (simp_all add: update_conv split: prod.splits)

lemma merged_rates:
  "rate_in (mergeFiatRates stored rates fetched) c = None \<longleftrightarrow> map_of rates c = None \<and> rate_in fetched c = None"
  by (simp add: mergeFiatRates_def rate_in_def stored_rates_def map_of_updates Let_def)

lemma deals_fiat: "deals (deal_rates clk cs) (\<lambda>r. covers r cs) (\<lambda>r acc. if covers r cs then Some r else acc)"
proof (rule dealsI)
  fix stc r acc sv w i assume "ready sv i"
  then show "returns (deal_rates clk cs stc r acc) sv w (covers r cs, if covers r cs then Some r else acc)"
    using after_success after_failed [of sv i clk stc None "(False, acc)" w]
    by (auto simp: deal_rates_def record_failed_def)
qed

lemma fetch_run:
  "\<exists>r w'. fetchFiatRates clk cs (sv, fx, w) = (Inr r, (sv, fx, w')) \<and> (\<forall>x. r = Some x \<longrightarrow> covers x cs)"
proof (cases "sv_services sv = []")
  case True
  then show ?thesis
    by (simp add: fetchFiatRates_def over_providers_def services_count_def clone_services_def new_services_def split: prod.splits)
next
  case False
  obtain t w1 where clk: "clk w = (t, w1)" by force
  define c where "c = clone_services t sv"
  have c: "ready c 0" using False by (simp add: c_def ready_def clone_services_def new_services_def)
  let ?run = "over_providers clk (try_provider clk (\<lambda>stc. call_service stc cs) (deal_rates clk cs)) None (c, w1)"
  have "\<exists>r s. ?run = (Inr r, s) \<and> (\<forall>x. r = Some x \<longrightarrow> covers x cs)"
    by (rule failover [OF deals_fiat [of clk cs] call_service_world [of cs] _ c, where Inv = "\<lambda>acc. acc = None" and acc = None
        and clk = clk and w = w1]) auto
  then show ?thesis by (auto simp: fetchFiatRates_def clk c_def [symmetric])
qed

text \<open>updating the exchange rates ends with a rate for every currency asked for, or leaves the rates there were
  (and a 1 for the dollar), and throws when there were none; the rates returned are the rates stored. The
  collection of providers never changes, so that none of these calls is ever in its history.\<close>

theorem fiat_update_answer:
  "(\<exists>fx w'. updateFiatExchangeRates clk cs ms (sv, stored, w) = (Inr fx, (sv, fx, w')) \<and>
      (set cs \<subseteq> dom (rate_in fx) \<or> (fx_timestamp fx = fx_timestamp stored \<and> rate_in stored \<subseteq>\<^sub>m rate_in fx))) \<or>
   (\<exists>fx w'. updateFiatExchangeRates clk cs ms (sv, stored, w) = (Inl \<lparr>we_code = ''WERR_INTERNAL'', we_message = []\<rparr>, (sv, fx, w')) \<and>
      stored_rates stored = [])"
proof -
  obtain t w1 where clk: "clk w = (t, w1)" by force
  define d where "d = t - (case ms of None \<Rightarrow> 1000 * 60 * 60 * 24 | Some m \<Rightarrow> m)"
  obtain l rates where c: "collectStaleCurrencies cs (stored_rates stored) stored d = (l, rates)" by force
  note kept = collect_stale [OF c]
  define stored1 where "stored1 = (if fx_rates stored = None then stored else stored\<lparr>fx_rates := Some rates\<rparr>)"
  let ?fx = "stored\<lparr>fx_rates := Some rates\<rparr>"
  obtain r w' where f: "fetchFiatRates clk l (sv, stored1, w1) = (Inr r, (sv, stored1, w'))" "\<forall>x. r = Some x \<longrightarrow> covers x l"
    using fetch_run [of clk l sv stored1 w1] by (elim exE conjE)
  have run: "updateFiatExchangeRates clk cs ms (sv, stored, w) =
      (if l = [] then (Inr ?fx, (sv, ?fx, w1))
       else case r of Some fetched \<Rightarrow> (Inr (mergeFiatRates stored1 rates fetched), (sv, mergeFiatRates stored1 rates fetched, w'))
         | None \<Rightarrow> (if rates \<noteq> [] then Inr stored1 else Inl \<lparr>we_code = ''WERR_INTERNAL'', we_message = []\<rparr>, (sv, stored1, w')))"
    using f(1) by (cases "fx_rates stored"; cases r)
      (simp_all add: updateFiatExchangeRates_def clk c d_def [symmetric] stored1_def Let_def)
  have sub: "rate_in stored \<subseteq>\<^sub>m rate_in stored1" "fx_timestamp stored1 = fx_timestamp stored"
    using kept by (auto simp: stored1_def rate_in_def stored_rates_def map_le_def)
  show ?thesis
  proof (cases "l = [] \<or> r \<noteq> None")
    case True
    have 1: "set cs \<subseteq> dom (rate_in ?fx)" if "l = []" using kept that by (auto simp: rate_in_def stored_rates_def)
    have 2: "set cs \<subseteq> dom (rate_in (mergeFiatRates stored1 rates fetched))" if "r = Some fetched" for fetched
    proof
      fix c assume "c \<in> set cs"
      then have "rate_in (mergeFiatRates stored1 rates fetched) c \<noteq> None"
        using kept f(2) that by (auto simp: merged_rates covers_def)
      then show "c \<in> dom (rate_in (mergeFiatRates stored1 rates fetched))" by blast
    qed
    show ?thesis using True 1 2 unfolding run by (cases r) auto
  next
    case False
    have "stored_rates stored = []" if "rates = []"
    proof (rule ccontr)
      assume "stored_rates stored \<noteq> []"
      then obtain x y where "map_of (stored_rates stored) x = Some y" by (cases "stored_rates stored") fastforce+
      with kept that show False by fastforce
    qed
    then show ?thesis using False sub unfolding run by auto
  qed
qed

end
