(* ===== verification/Async.thy ===== *)
theory Async
  imports Prelude
begin

text \<open>
  Asynchronous programs. An \<open>async\<close> function runs without interruption from one \<open>await\<close> to the next; what other
  calls do happens at the \<open>await\<close>s. A program is a tree of such stretches:

  \<^item> \<open>Do f k\<close>: change the shared state by \<open>f\<close> and go on as \<open>k\<close> of the state before;
  \<^item> \<open>Await q k\<close>: send the request \<open>q\<close> to the outside and go on with its answer, or with what it throws;
  \<^item> \<open>Wait w k\<close>: wait for the promise \<open>w\<close> of the program's own and go on with how it was settled.

  The system of all calls is the step relation \<open>async_step\<close>: a call starts, an answer arrives, a promise is found
  settled, or the world moves. The locale \<open>rely\<close> is a logic for it: \<open>wp\<close> is what a call needs of the
  state to keep the invariant \<open>I\<close>, to change the state only as \<open>R\<close> allows the others to change it, to send only
  requests \<open>C\<close> permits (and goes on permitting), and to end in its postcondition; it composes along \<open>bindP\<close> and \<open>catchP\<close>, and
  \<open>async_sound\<close> carries it to all interleavings.
\<close>

datatype ('s, 'q, 'r, 'e, 'a) prog =
    Ret 'a
  | Throw 'e
  | Do "'s \<Rightarrow> 's" "'s \<Rightarrow> ('s, 'q, 'r, 'e, 'a) prog"
  | Await 'q "'e + 'r \<Rightarrow> ('s, 'q, 'r, 'e, 'a) prog"
  | Wait nat "'e + bool \<Rightarrow> ('s, 'q, 'r, 'e, 'a) prog"

primrec bindP :: "('s, 'q, 'r, 'e, 'a) prog \<Rightarrow> ('a \<Rightarrow> ('s, 'q, 'r, 'e, 'b) prog) \<Rightarrow> ('s, 'q, 'r, 'e, 'b) prog" where
  "bindP (Ret a) f = f a"
| "bindP (Throw e) f = Throw e"
| "bindP (Do g k) f = Do g (\<lambda>s. bindP (k s) f)"
| "bindP (Await q k) f = Await q (\<lambda>x. bindP (k x) f)"
| "bindP (Wait w k) f = Wait w (\<lambda>x. bindP (k x) f)"

text \<open>\<open>try { p } catch (e) { h e }\<close>, and \<open>finally\<close>.\<close>

primrec catchP :: "('s, 'q, 'r, 'e, 'a) prog \<Rightarrow> ('e \<Rightarrow> ('s, 'q, 'r, 'e, 'a) prog) \<Rightarrow> ('s, 'q, 'r, 'e, 'a) prog" where
  "catchP (Ret a) h = Ret a"
| "catchP (Throw e) h = h e"
| "catchP (Do g k) h = Do g (\<lambda>s. catchP (k s) h)"
| "catchP (Await q k) h = Await q (\<lambda>x. catchP (k x) h)"
| "catchP (Wait w k) h = Wait w (\<lambda>x. catchP (k x) h)"

definition finallyP :: "('s, 'q, 'r, 'e, 'a) prog \<Rightarrow> ('s, 'q, 'r, 'e, unit) prog \<Rightarrow> ('s, 'q, 'r, 'e, 'a) prog" where
  "finallyP p c = bindP (catchP (bindP p (\<lambda>a. Ret (Inr a))) (\<lambda>e. Ret (Inl e)))
     (\<lambda>r. bindP c (\<lambda>_. case r of Inl e \<Rightarrow> Throw e | Inr a \<Rightarrow> Ret a))"

definition readP :: "('s \<Rightarrow> 'a) \<Rightarrow> ('s, 'q, 'r, 'e, 'a) prog" where
  "readP f = Do id (\<lambda>s. Ret (f s))"

definition modifyP :: "('s \<Rightarrow> 's) \<Rightarrow> ('s, 'q, 'r, 'e, unit) prog" where
  "modifyP f = Do f (\<lambda>_. Ret ())"

definition awaitP :: "'q \<Rightarrow> ('r \<Rightarrow> 'a option) \<Rightarrow> 'e \<Rightarrow> ('s, 'q, 'r, 'e, 'a) prog" where
  "awaitP q get bad = Await q (\<lambda>x. case x of Inl e \<Rightarrow> Throw e
     | Inr r \<Rightarrow> (case get r of None \<Rightarrow> Throw bad | Some a \<Rightarrow> Ret a))"

definition waitP :: "nat \<Rightarrow> ('s, 'q, 'r, 'e, bool) prog" where
  "waitP w = Wait w (\<lambda>x. case x of Inl e \<Rightarrow> Throw e | Inr b \<Rightarrow> Ret b)"

definition whenP :: "bool \<Rightarrow> ('s, 'q, 'r, 'e, unit) prog \<Rightarrow> ('s, 'q, 'r, 'e, unit) prog" where
  "whenP b p = (if b then p else Ret ())"

fun mapP :: "('a \<Rightarrow> ('s, 'q, 'r, 'e, 'b) prog) \<Rightarrow> 'a list \<Rightarrow> ('s, 'q, 'r, 'e, 'b list) prog" where
  "mapP f [] = Ret []"
| "mapP f (x # xs) = bindP (f x) (\<lambda>y. bindP (mapP f xs) (\<lambda>ys. Ret (y # ys)))"

fun eachP :: "('a \<Rightarrow> ('s, 'q, 'r, 'e, unit) prog) \<Rightarrow> 'a list \<Rightarrow> ('s, 'q, 'r, 'e, unit) prog" where
  "eachP f [] = Ret ()"
| "eachP f (x # xs) = bindP (f x) (\<lambda>_. eachP f xs)"

text \<open>A loop that ends with the first element for which the body finds something.\<close>

fun firstP :: "('a \<Rightarrow> ('s, 'q, 'r, 'e, 'b option) prog) \<Rightarrow> 'a list \<Rightarrow> ('s, 'q, 'r, 'e, 'b option) prog" where
  "firstP f [] = Ret None"
| "firstP f (x # xs) = bindP (f x) (\<lambda>y. case y of None \<Rightarrow> firstP f xs | Some b \<Rightarrow> Ret (Some b))"

lemma bindP_assoc: "bindP (bindP p f) g = bindP p (\<lambda>a. bindP (f a) g)"
  by (induction p) simp_all

lemma bindP_Ret: "bindP p Ret = p"
  by (induction p) simp_all

section \<open>Stretches and steps\<close>

primrec advance :: "('s, 'q, 'r, 'e, 'a) prog \<Rightarrow> 's \<Rightarrow> 's \<times> ('s, 'q, 'r, 'e, 'a) prog" where
  "advance (Ret a) s = (s, Ret a)"
| "advance (Throw e) s = (s, Throw e)"
| "advance (Do f k) s = advance (k s) (f s)"
| "advance (Await q k) s = (s, Await q k)"
| "advance (Wait w k) s = (s, Wait w k)"

text \<open>The shared state, and the calls in the order they were made. \<open>starts p\<close>: the call \<open>p\<close> may be made;
  \<open>moves s t\<close>: the world may change the shared state from \<open>s\<close> to \<open>t\<close>.\<close>

type_synonym ('s, 'q, 'r, 'e, 'a) async_sys = "'s \<times> ('s, 'q, 'r, 'e, 'a) prog list"

inductive async_step ::
  "('s \<Rightarrow> nat \<Rightarrow> ('e + bool) option) \<Rightarrow> (('s, 'q, 'r, 'e, 'a) prog \<Rightarrow> bool) \<Rightarrow> ('s \<Rightarrow> 's \<Rightarrow> bool) \<Rightarrow>
   ('s, 'q, 'r, 'e, 'a) async_sys \<Rightarrow> ('s, 'q, 'r, 'e, 'a) async_sys \<Rightarrow> bool"
  for settled starts moves where
  start: "starts p \<Longrightarrow> advance p s = (s', p') \<Longrightarrow> async_step settled starts moves (s, ps) (s', ps @ [p'])"
| answer: "i < length ps \<Longrightarrow> ps ! i = Await q k \<Longrightarrow> advance (k x) s = (s', p') \<Longrightarrow>
    async_step settled starts moves (s, ps) (s', ps[i := p'])"
| wake: "i < length ps \<Longrightarrow> ps ! i = Wait w k \<Longrightarrow> settled s w = Some x \<Longrightarrow> advance (k x) s = (s', p') \<Longrightarrow>
    async_step settled starts moves (s, ps) (s', ps[i := p'])"
| move: "moves s s' \<Longrightarrow> async_step settled starts moves (s, ps) (s', ps)"

inductive_cases async_stepE: "async_step settled starts moves (s, ps) (s', ps')"

text \<open>A schedule: what happens, in order. It is a run of the system when everything it wants is possible.\<close>

datatype ('s, 'q, 'r, 'e, 'a) act = Start "('s, 'q, 'r, 'e, 'a) prog" | Answer nat "'e + 'r" | Wake nat

definition resume :: "nat \<Rightarrow> ('s, 'q, 'r, 'e, 'a) prog \<Rightarrow> ('s, 'q, 'r, 'e, 'a) async_sys \<Rightarrow> ('s, 'q, 'r, 'e, 'a) async_sys" where
  "resume i p sys = (case advance p (fst sys) of (s', p') \<Rightarrow> (s', (snd sys)[i := p']))"

fun act_step :: "('s \<Rightarrow> nat \<Rightarrow> ('e + bool) option) \<Rightarrow> ('s, 'q, 'r, 'e, 'a) act \<Rightarrow> ('s, 'q, 'r, 'e, 'a) async_sys \<Rightarrow>
    ('s, 'q, 'r, 'e, 'a) async_sys option" where
  "act_step settled (Start p) sys = (case advance p (fst sys) of (s', p') \<Rightarrow> Some (s', snd sys @ [p']))"
| "act_step settled (Answer i x) sys = (if length (snd sys) \<le> i then None
     else (case snd sys ! i of Await q k \<Rightarrow> Some (resume i (k x) sys) | _ \<Rightarrow> None))"
| "act_step settled (Wake i) sys = (if length (snd sys) \<le> i then None
     else (case snd sys ! i of Wait w k \<Rightarrow> map_option (\<lambda>x. resume i (k x) sys) (settled (fst sys) w) | _ \<Rightarrow> None))"

fun run_acts :: "('s \<Rightarrow> nat \<Rightarrow> ('e + bool) option) \<Rightarrow> ('s, 'q, 'r, 'e, 'a) act list \<Rightarrow> ('s, 'q, 'r, 'e, 'a) async_sys \<Rightarrow>
    ('s, 'q, 'r, 'e, 'a) async_sys option" where
  "run_acts settled [] sys = Some sys"
| "run_acts settled (a # as) sys = (case act_step settled a sys of None \<Rightarrow> None | Some sys' \<Rightarrow> run_acts settled as sys')"

fun act_ok :: "(('s, 'q, 'r, 'e, 'a) prog \<Rightarrow> bool) \<Rightarrow> ('s, 'q, 'r, 'e, 'a) act \<Rightarrow> bool" where
  "act_ok starts (Start p) = starts p"
| "act_ok starts _ = True"

lemma act_step_sound:
  assumes "act_step settled a sys = Some sys'" "act_ok starts a"
  shows "async_step settled starts moves sys sys'"
proof -
  obtain s ps where sys: "sys = (s, ps)" by (cases sys)
  obtain s' ps' where sys': "sys' = (s', ps')" by (cases sys')
  show ?thesis
  proof (cases a)
    case (Start p)
    with assms show ?thesis by (auto simp: sys sys' split: prod.splits intro: async_step.start)
  next
    case (Answer i x)
    with assms(1) obtain q k where "i < length ps" "ps ! i = Await q k" "sys' = resume i (k x) sys"
      by (auto simp: sys split: if_splits prog.splits)
    then show ?thesis
      by (cases "advance (k x) s") (auto simp: sys resume_def intro: async_step.answer)
  next
    case (Wake i)
    with assms(1) obtain w k x where "i < length ps" "ps ! i = Wait w k" "settled s w = Some x" "sys' = resume i (k x) sys"
      by (auto simp: sys split: if_splits prog.splits)
    then show ?thesis
      by (cases "advance (k x) s") (auto simp: sys resume_def intro: async_step.wake)
  qed
qed

lemma run_acts_sound:
  "run_acts settled as sys = Some sys' \<Longrightarrow> list_all (act_ok starts) as \<Longrightarrow> (async_step settled starts moves)\<^sup>*\<^sup>* sys sys'"
  by (induction "as" arbitrary: sys)
    (auto split: option.splits intro: converse_rtranclp_into_rtranclp act_step_sound)

text \<open>A program alone with an outside that answers as \<open>w\<close>: what it returns or throws, unless it waits.\<close>

primrec serve :: "('q \<Rightarrow> 'e + 'r) \<Rightarrow> ('s, 'q, 'r, 'e, 'a) prog \<Rightarrow> 's \<Rightarrow> ('e + 'a) option \<times> 's" where
  "serve w (Ret a) s = (Some (Inr a), s)"
| "serve w (Throw e) s = (Some (Inl e), s)"
| "serve w (Do f k) s = serve w (k s) (f s)"
| "serve w (Await q k) s = serve w (k (w q)) s"
| "serve w (Wait v k) s = (None, s)"

lemma serve_bind: "serve w (bindP p f) s = (case serve w p s of
    (Some (Inr a), t) \<Rightarrow> serve w (f a) t | (Some (Inl e), t) \<Rightarrow> (Some (Inl e), t) | (None, t) \<Rightarrow> (None, t))"
  by (induction p arbitrary: s) simp_all

lemma serve_catch: "serve w (catchP p h) s = (case serve w p s of
    (Some (Inl e), t) \<Rightarrow> serve w (h e) t | x \<Rightarrow> x)"
  by (induction p arbitrary: s) (simp_all split: prod.split option.split sum.split)

lemma serve_simps [simp]:
  "serve w (readP g) s = (Some (Inr (g s)), s)"
  "serve w (modifyP f) s = (Some (Inr ()), f s)"
  by (simp_all add: readP_def modifyP_def)

lemma serve_awaitP: "w q = Inr r \<Longrightarrow> get r = Some a \<Longrightarrow> serve w (awaitP q get bad) s = (Some (Inr a), s)"
  by (simp add: awaitP_def)

lemma serve_mapP: "(\<And>x. x \<in> set xs \<Longrightarrow> serve w (f x) s = (Some (Inr (g x)), s)) \<Longrightarrow> serve w (mapP f xs) s = (Some (Inr (map g xs)), s)"
  by (induction xs) (simp_all add: serve_bind)

section \<open>A logic of interference\<close>

locale rely =
  fixes settled :: "'s \<Rightarrow> nat \<Rightarrow> ('e + bool) option"
    and I :: "'s \<Rightarrow> bool"
    and R :: "'s \<Rightarrow> 's \<Rightarrow> bool"
    and C :: "'q \<Rightarrow> 's \<Rightarrow> bool"
  assumes R_refl: "R s s"
    and R_trans: "R s t \<Longrightarrow> R t u \<Longrightarrow> R s u"
    and C_steady: "C q s \<Longrightarrow> R s t \<Longrightarrow> I t \<Longrightarrow> C q t"
begin

primrec wp :: "('s, 'q, 'r, 'e, 'a) prog \<Rightarrow> ('a \<Rightarrow> 's \<Rightarrow> bool) \<Rightarrow> ('e \<Rightarrow> 's \<Rightarrow> bool) \<Rightarrow> 's \<Rightarrow> bool" where
  "wp (Ret a) Q E s = Q a s"
| "wp (Throw e) Q E s = E e s"
| "wp (Do f k) Q E s = (I (f s) \<and> R s (f s) \<and> wp (k s) Q E (f s))"
| "wp (Await q k) Q E s = (C q s \<and> (\<forall>x t. I t \<longrightarrow> R s t \<longrightarrow> wp (k x) Q E t))"
| "wp (Wait w k) Q E s = (\<forall>x t. I t \<longrightarrow> R s t \<longrightarrow> settled t w = Some x \<longrightarrow> wp (k x) Q E t)"

lemma wp_bind: "wp (bindP p f) Q E s = wp p (\<lambda>a. wp (f a) Q E) E s"
  by (induction p arbitrary: s) simp_all

lemma wp_catch: "wp (catchP p h) Q E s = wp p Q (\<lambda>e. wp (h e) Q E) s"
  by (induction p arbitrary: s) simp_all

lemma wp_mono:
  "wp p Q E s \<Longrightarrow> (\<And>a t. Q a t \<Longrightarrow> Q' a t) \<Longrightarrow> (\<And>e t. E e t \<Longrightarrow> E' e t) \<Longrightarrow> wp p Q' E' s"
  by (induction p arbitrary: s) simp_all

text \<open>What holds now and is kept by the others holds in the end.\<close>

lemma wp_frame:
  assumes "wp p Q E s" "R u s"
  shows "wp p (\<lambda>a t. Q a t \<and> R u t) (\<lambda>e t. E e t \<and> R u t) s"
  using assms
proof (induction p arbitrary: s)
  case (Do f k)
  have "R u (f s)" using Do.prems R_trans by simp
  with Do.IH [of "k s" "f s"] Do.prems show ?case by simp
next
  case (Await q k)
  have "wp (k x) (\<lambda>a t. Q a t \<and> R u t) (\<lambda>e t. E e t \<and> R u t) t" if "I t" "R s t" for x t
    by (rule Await.IH) (use Await.prems that R_trans [of u s t] in auto)
  with Await.prems(1) show ?case by simp
next
  case (Wait w k)
  have "wp (k x) (\<lambda>a t. Q a t \<and> R u t) (\<lambda>e t. E e t \<and> R u t) t" if "I t" "R s t" "settled t w = Some x" for x t
    by (rule Wait.IH) (use Wait.prems that R_trans [of u s t] in auto)
  then show ?case by simp
qed simp_all

lemma wp_conseq:
  assumes "wp p Q E s" "\<And>a t. Q a t \<Longrightarrow> R s t \<Longrightarrow> Q' a t" "\<And>e t. E e t \<Longrightarrow> R s t \<Longrightarrow> E' e t"
  shows "wp p Q' E' s"
  using assms(2,3) by (intro wp_mono [OF wp_frame [OF assms(1) R_refl]]) auto

lemma wp_conj: "wp p Q E s \<Longrightarrow> wp p Q' E' s \<Longrightarrow> wp p (\<lambda>a t. Q a t \<and> Q' a t) (\<lambda>e t. E e t \<and> E' e t) s"
  by (induction p arbitrary: s) auto

lemma wp_read [simp]: "wp (readP f) Q E s \<longleftrightarrow> I s \<and> Q (f s) s"
  by (simp add: readP_def R_refl)

lemma wp_simps [simp]:
  "wp (modifyP g) Q E s \<longleftrightarrow> I (g s) \<and> R s (g s) \<and> Q () (g s)"
  "wp (whenP b p) Q E s \<longleftrightarrow> (if b then wp p Q E s else Q () s)"
  by (simp_all add: readP_def modifyP_def whenP_def R_refl)

lemma wp_awaitP:
  assumes "C q s" "\<And>a t. I t \<Longrightarrow> R s t \<Longrightarrow> Q a t" "\<And>e t. I t \<Longrightarrow> R s t \<Longrightarrow> E e t"
  shows "wp (awaitP q get bad) Q E s"
  using assms by (simp add: awaitP_def split: sum.split option.split)

lemma wp_waitP:
  assumes "\<And>b t. I t \<Longrightarrow> R s t \<Longrightarrow> settled t w = Some (Inr b) \<Longrightarrow> Q b t"
    "\<And>e t. I t \<Longrightarrow> R s t \<Longrightarrow> settled t w = Some (Inl e) \<Longrightarrow> E e t"
  shows "wp (waitP w) Q E s"
  using assms by (simp add: waitP_def split: sum.split)

text \<open>\<open>spec P p Q\<close>: from a state of the invariant in which \<open>P\<close> holds, \<open>p\<close> keeps the invariant, sends only what is
  permitted, and if it returns, \<open>Q\<close> holds. \<open>P\<close> and \<open>Q\<close> need not survive what the others do; \<open>stable\<close> facts do.\<close>

definition spec :: "('s \<Rightarrow> bool) \<Rightarrow> ('s, 'q, 'r, 'e, 'a) prog \<Rightarrow> ('a \<Rightarrow> 's \<Rightarrow> bool) \<Rightarrow> bool" where
  "spec P p Q \<longleftrightarrow> (\<forall>s. I s \<longrightarrow> P s \<longrightarrow> wp p (\<lambda>a t. I t \<and> Q a t) (\<lambda>_. I) s)"

definition keeps :: "('s, 'q, 'r, 'e, 'a) prog \<Rightarrow> bool" where
  "keeps p \<longleftrightarrow> spec (\<lambda>_. True) p (\<lambda>_ _. True)"

definition stable :: "('s \<Rightarrow> bool) \<Rightarrow> bool" where
  "stable P \<longleftrightarrow> (\<forall>s t. P s \<longrightarrow> R s t \<longrightarrow> I t \<longrightarrow> P t)"

lemma specD: "spec P p Q \<Longrightarrow> I s \<Longrightarrow> P s \<Longrightarrow> wp p (\<lambda>a t. I t \<and> Q a t) (\<lambda>_. I) s"
  by (simp add: spec_def)

lemma specI: "(\<And>s. I s \<Longrightarrow> P s \<Longrightarrow> wp p (\<lambda>a t. I t \<and> Q a t) (\<lambda>_. I) s) \<Longrightarrow> spec P p Q"
  by (simp add: spec_def)

lemma keeps_wp: "keeps p \<longleftrightarrow> (\<forall>s. I s \<longrightarrow> wp p (\<lambda>_. I) (\<lambda>_. I) s)"
  by (simp add: keeps_def spec_def)

lemma keepsD: "keeps p \<Longrightarrow> I s \<Longrightarrow> wp p (\<lambda>_. I) (\<lambda>_. I) s"
  by (simp add: keeps_wp)

lemma keepsI: "(\<And>s. I s \<Longrightarrow> wp p (\<lambda>_. I) (\<lambda>_. I) s) \<Longrightarrow> keeps p"
  by (simp add: keeps_wp)

lemma spec_conseq:
  assumes "spec P p Q" "\<And>s. I s \<Longrightarrow> P' s \<Longrightarrow> P s" "\<And>a s. I s \<Longrightarrow> Q a s \<Longrightarrow> Q' a s"
  shows "spec P' p Q'"
  using assms by (intro specI wp_mono [OF specD [OF assms(1)]]) auto

lemma spec_keeps: "spec (\<lambda>_. True) p Q \<Longrightarrow> keeps p"
  unfolding keeps_def by (erule spec_conseq) simp_all

lemma keeps_spec: "keeps p \<Longrightarrow> spec P p (\<lambda>_ _. True)"
  unfolding keeps_def by (erule spec_conseq) simp_all

lemma spec_bind:
  assumes "spec P p Q" "\<And>a. spec (Q a) (f a) T"
  shows "spec P (bindP p f) T"
proof (rule specI)
  fix s assume "I s" "P s"
  then have "wp p (\<lambda>a t. I t \<and> Q a t) (\<lambda>_. I) s" by (rule specD [OF assms(1)])
  then show "wp (bindP p f) (\<lambda>a t. I t \<and> T a t) (\<lambda>_. I) s"
    unfolding wp_bind by (rule wp_mono) (use specD [OF assms(2)] in auto)
qed

text \<open>After a program that only keeps the invariant.\<close>

lemma spec_then: "keeps p \<Longrightarrow> (\<And>a. spec (\<lambda>_. True) (f a) T) \<Longrightarrow> spec P (bindP p f) T"
  by (rule spec_bind [OF keeps_spec])

lemma spec_catch:
  assumes "spec P p Q" "\<And>e. spec (\<lambda>_. True) (h e) Q"
  shows "spec P (catchP p h) Q"
proof (rule specI)
  fix s assume "I s" "P s"
  then have "wp p (\<lambda>a t. I t \<and> Q a t) (\<lambda>_. I) s" by (rule specD [OF assms(1)])
  then show "wp (catchP p h) (\<lambda>a t. I t \<and> Q a t) (\<lambda>_. I) s"
    unfolding wp_catch by (rule wp_mono) (use specD [OF assms(2)] in auto)
qed

lemma spec_frame:
  assumes "spec P p Q" "stable F"
  shows "spec (\<lambda>s. P s \<and> F s) p (\<lambda>a s. Q a s \<and> F s)"
proof (rule specI)
  fix s assume s: "I s" "P s \<and> F s"
  then have "wp p (\<lambda>a t. I t \<and> Q a t) (\<lambda>_. I) s" using assms(1) by (blast dest: specD)
  then show "wp p (\<lambda>a t. I t \<and> Q a t \<and> F t) (\<lambda>_. I) s"
    by (rule wp_conseq) (use s assms(2) in \<open>auto simp: stable_def\<close>)
qed

text \<open>A stable fact beside a program that needs nothing.\<close>

lemma spec_stable: "spec (\<lambda>_. True) p Q \<Longrightarrow> stable F \<Longrightarrow> spec F p (\<lambda>a s. Q a s \<and> F s)"
  using spec_frame [of "\<lambda>_. True" p Q F] by simp

text \<open>After such a program, with a stable fact kept.\<close>

lemma spec_then_stable: "keeps p \<Longrightarrow> stable F \<Longrightarrow> (\<And>a. spec F (f a) T) \<Longrightarrow> spec F (bindP p f) T"
  unfolding keeps_def by (drule spec_stable, assumption, erule spec_bind) simp

lemma spec_pure: "(A \<Longrightarrow> spec P p Q) \<Longrightarrow> spec (\<lambda>s. P s \<and> A) p Q"
  by (auto simp: spec_def)

lemma spec_Ret: "(\<And>s. I s \<Longrightarrow> P s \<Longrightarrow> Q a s) \<Longrightarrow> spec P (Ret a) Q"
  by (simp add: spec_def)

lemma spec_Throw: "spec P (Throw e) Q"
  by (simp add: spec_def)

lemma spec_read: "(\<And>s. I s \<Longrightarrow> P s \<Longrightarrow> Q (g s) s) \<Longrightarrow> spec P (readP g) Q"
  by (simp add: spec_def)

lemma spec_modify: "(\<And>s. I s \<Longrightarrow> P s \<Longrightarrow> I (g s) \<and> R s (g s) \<and> Q () (g s)) \<Longrightarrow> spec P (modifyP g) Q"
  by (simp add: spec_def)

lemma spec_await:
  assumes "\<And>s. I s \<Longrightarrow> P s \<Longrightarrow> C q s" "\<And>a s. I s \<Longrightarrow> Q a s"
  shows "spec P (awaitP q get bad) Q"
  using assms by (auto simp: spec_def intro: wp_awaitP)

lemma spec_wait:
  assumes "\<And>b s. I s \<Longrightarrow> settled s w = Some (Inr b) \<Longrightarrow> Q b s"
  shows "spec P (waitP w) Q"
  using assms by (auto simp: spec_def intro: wp_waitP)

lemma spec_each:
  assumes "\<And>x. x \<in> set xs \<Longrightarrow> spec (\<lambda>_. True) (f x) (\<lambda>_. Q x)" "\<And>x. stable (Q x)"
  shows "spec (\<lambda>_. True) (eachP f xs) (\<lambda>_ s. \<forall>x \<in> set xs. Q x s)"
  using assms(1)
proof (induction xs)
  case (Cons x xs)
  have "spec (Q x) (eachP f xs) (\<lambda>_ s. (\<forall>y \<in> set xs. Q y s) \<and> Q x s)"
    by (rule spec_stable) (use Cons assms(2) in simp_all)
  then have "spec (Q x) (eachP f xs) (\<lambda>_ s. \<forall>y \<in> set (x # xs). Q y s)"
    by (rule spec_conseq) simp_all
  moreover have "spec (\<lambda>_. True) (f x) (\<lambda>_. Q x)" using Cons.prems by simp
  ultimately show ?case by (simp add: spec_bind)
qed (simp add: spec_def)

lemma spec_map:
  assumes f: "\<And>x. spec (\<lambda>_. True) (f x) (T x)" and st: "\<And>x y. stable (T x y)"
  shows "spec (\<lambda>_. True) (mapP f xs) (\<lambda>ys s. list_all2 (\<lambda>x y. T x y s) xs ys)"
proof (induction xs)
  case (Cons x xs)
  have "spec (T x y) (bindP (mapP f xs) (\<lambda>ys. Ret (y # ys))) (\<lambda>zs s. list_all2 (\<lambda>x y. T x y s) (x # xs) zs)" for y
    by (rule spec_bind [OF spec_stable [OF Cons st]], rule spec_Ret) auto
  from spec_bind [OF f this] show ?case by simp
qed (simp add: spec_def)

lemma keeps_bind: "keeps p \<Longrightarrow> (\<And>a. keeps (f a)) \<Longrightarrow> keeps (bindP p f)"
  unfolding keeps_def by (rule spec_bind)

lemma keeps_catch: "keeps p \<Longrightarrow> (\<And>e. keeps (h e)) \<Longrightarrow> keeps (catchP p h)"
  unfolding keeps_def by (rule spec_catch)

lemma keeps_Ret: "keeps (Ret a)" and keeps_Throw: "keeps (Throw e)" and keeps_read: "keeps (readP g)"
  by (simp_all add: keeps_wp)

lemma spec_finally:
  assumes p: "spec (\<lambda>_. True) p Q" and c: "spec F c (\<lambda>_ _. True)" and st: "stable F" "\<And>a. stable (Q a)"
  shows "spec F (finallyP p c) Q"
  unfolding finallyP_def
proof (rule spec_bind)
  let ?G = "\<lambda>r s. case r of Inl e \<Rightarrow> True | Inr a \<Rightarrow> Q a s"
  have G: "stable (?G r)" for r using st(2) by (cases r) (simp_all add: stable_def)
  have "spec (\<lambda>_. True) (catchP (bindP p (\<lambda>a. Ret (Inr a))) (\<lambda>e. Ret (Inl e))) ?G"
    by (intro spec_catch spec_bind [OF p] spec_Ret) simp_all
  then show "spec F (catchP (bindP p (\<lambda>a. Ret (Inr a))) (\<lambda>e. Ret (Inl e))) (\<lambda>r s. ?G r s \<and> F s)"
    by (intro spec_stable st(1))
  show "spec (\<lambda>s. ?G r s \<and> F s) (bindP c (\<lambda>_. case r of Inl e \<Rightarrow> Throw e | Inr a \<Rightarrow> Ret a)) Q" for r
  proof (rule spec_bind)
    show "spec (\<lambda>s. ?G r s \<and> F s) c (\<lambda>_. ?G r)"
      by (rule spec_conseq [OF spec_frame [OF c G [of r]]]) auto
    show "spec (?G r) (case r of Inl e \<Rightarrow> Throw e | Inr a \<Rightarrow> Ret a) Q"
      by (cases r) (simp_all add: spec_def)
  qed
qed

lemma keeps_finally: "keeps p \<Longrightarrow> keeps c \<Longrightarrow> keeps (finallyP p c)"
  using spec_finally [of p "\<lambda>_ _. True" "\<lambda>_. True" c] by (simp add: keeps_def stable_def)

lemma keeps_when: "(b \<Longrightarrow> keeps p) \<Longrightarrow> keeps (whenP b p)"
  by (simp add: whenP_def keeps_Ret)

lemma keeps_await: "(\<And>s. I s \<Longrightarrow> C q s) \<Longrightarrow> keeps (awaitP q get bad)"
  unfolding keeps_def by (rule spec_await) simp_all

lemma keeps_wait: "keeps (waitP w)"
  unfolding keeps_def by (rule spec_wait) simp

lemma keeps_modify: "(\<And>s. I s \<Longrightarrow> I (f s) \<and> R s (f s)) \<Longrightarrow> keeps (modifyP f)"
  unfolding keeps_def by (rule spec_modify) simp

lemma keeps_Do: "(\<And>s. I s \<Longrightarrow> I (f s) \<and> R s (f s)) \<Longrightarrow> (\<And>s. keeps (k s)) \<Longrightarrow> keeps (Do f k)"
  by (simp add: keeps_wp)

text \<open>Loops: every element keeps what the loop keeps.\<close>

lemma keeps_mapP: "(\<And>x. keeps (f x)) \<Longrightarrow> keeps (mapP f xs)"
  by (induction xs) (simp_all add: keeps_bind keeps_Ret)

lemma keeps_eachP: "(\<And>x. keeps (f x)) \<Longrightarrow> keeps (eachP f xs)"
  by (induction xs) (simp_all add: keeps_bind keeps_Ret)

lemma keeps_firstP: "(\<And>x. keeps (f x)) \<Longrightarrow> keeps (firstP f xs)"
  by (induction xs) (auto intro!: keeps_bind keeps_Ret split: option.split)

lemma keeps_if: "(b \<Longrightarrow> keeps p) \<Longrightarrow> (\<not> b \<Longrightarrow> keeps q) \<Longrightarrow> keeps (if b then p else q)"
  by simp

lemma keeps_option: "keeps p \<Longrightarrow> (\<And>x. keeps (f x)) \<Longrightarrow> keeps (case v of None \<Rightarrow> p | Some x \<Rightarrow> f x)"
  by (simp split: option.split)

lemma keeps_sum: "(\<And>e. keeps (f e)) \<Longrightarrow> (\<And>x. keeps (g x)) \<Longrightarrow> keeps (case v of Inl e \<Rightarrow> f e | Inr x \<Rightarrow> g x)"
  by (simp split: sum.split)

lemma keeps_prod: "(\<And>x y. keeps (f x y)) \<Longrightarrow> keeps (case v of (x, y) \<Rightarrow> f x y)"
  by (simp split: prod.split)

lemma keeps_list: "keeps p \<Longrightarrow> (\<And>x xs. keeps (f x xs)) \<Longrightarrow> keeps (case v of [] \<Rightarrow> p | x # xs \<Rightarrow> f x xs)"
  by (simp split: list.split)

lemma keeps_bool: "keeps p \<Longrightarrow> keeps q \<Longrightarrow> keeps (case v of True \<Rightarrow> p | False \<Rightarrow> q)"
  by (simp split: bool.split)

lemma keeps_let: "(\<And>x. keeps (f x)) \<Longrightarrow> keeps (Let v f)"
  by simp

lemmas keeps_rules = keeps_bind keeps_catch keeps_Ret keeps_Throw keeps_read keeps_finally keeps_when keeps_wait keeps_mapP
  keeps_eachP keeps_firstP keeps_if keeps_option keeps_sum keeps_prod keeps_list keeps_bool keeps_let

text \<open>A call that has come to an \<open>await\<close> is good in a state if it will stay so whatever the others do. Good
  calls make the whole system keep the invariant, and one that has ended has established its postcondition.\<close>

fun parked :: "('s, 'q, 'r, 'e, 'a) prog \<Rightarrow> ('a \<Rightarrow> 's \<Rightarrow> bool) \<Rightarrow> ('e \<Rightarrow> 's \<Rightarrow> bool) \<Rightarrow> 's \<Rightarrow> bool" where
  "parked (Ret a) Q E s = Q a s"
| "parked (Throw e) Q E s = E e s"
| "parked (Do f k) Q E s = False"
| "parked (Await q k) Q E s = (C q s \<and> (\<forall>x t. I t \<longrightarrow> R s t \<longrightarrow> wp (k x) Q E t))"
| "parked (Wait w k) Q E s = (\<forall>x t. I t \<longrightarrow> R s t \<longrightarrow> settled t w = Some x \<longrightarrow> wp (k x) Q E t)"

lemma wp_advance: "wp p Q E s \<Longrightarrow> I s \<Longrightarrow> advance p s = (s', p') \<Longrightarrow> I s' \<and> R s s' \<and> parked p' Q E s'"
proof (induction p arbitrary: s)
  case (Do f k)
  have "I s' \<and> R (f s) s' \<and> parked p' Q E s'"
    by (rule Do.IH) (use Do.prems in auto)
  with Do.prems R_trans show ?case by auto
qed (auto intro: R_refl)

definition steady :: "('a \<Rightarrow> 's \<Rightarrow> bool) \<Rightarrow> bool" where
  "steady Q \<longleftrightarrow> (\<forall>a s t. Q a s \<longrightarrow> R s t \<longrightarrow> I t \<longrightarrow> Q a t)"

lemma parked_steady:
  assumes "steady Q" "steady E" "parked p Q E s" "R s t" "I t"
  shows "parked p Q E t"
  using assms(3)
proof (cases p)
  case (Await q k)
  show ?thesis unfolding Await parked.simps
  proof (intro conjI allI impI)
    show "C q t" using assms(3-5) C_steady by (auto simp: Await)
  next
    fix x u assume "I u" "R t u"
    with assms(3) R_trans [OF assms(4)] show "wp (k x) Q E u" by (simp add: Await)
  qed
next
  case (Wait w k)
  show ?thesis unfolding Wait parked.simps
  proof (intro allI impI)
    fix x u assume "I u" "R t u" "settled u w = Some x"
    with assms(3) R_trans [OF assms(4)] show "wp (k x) Q E u" by (simp add: Wait)
  qed
qed (use assms in \<open>auto simp: steady_def\<close>)

theorem async_sound:
  assumes "async_step settled starts moves (s, ps) (s', ps')"
    and starts: "\<And>p s. starts p \<Longrightarrow> I s \<Longrightarrow> wp p Q E s" and moves: "\<And>s t. moves s t \<Longrightarrow> I s \<Longrightarrow> I t \<and> R s t"
    and st: "steady Q" "steady E" and I: "I s" and ok: "\<forall>p \<in> set ps. parked p Q E s"
  shows "I s' \<and> R s s' \<and> (\<forall>p \<in> set ps'. parked p Q E s')"
proof -
  have others: "\<forall>p \<in> set ps. parked p Q E t" if "R s t" "I t" for t
    using ok parked_steady [OF st] that by blast
  have resumed: "I t \<and> R s t \<and> (\<forall>p \<in> set (ps[i := p']). parked p Q E t)"
    if "wp p Q E s" "advance p s = (t, p')" for p p' t i
  proof -
    have t: "I t" "R s t" "parked p' Q E t" using wp_advance [OF that(1) I that(2)] by auto
    have "\<forall>p \<in> insert p' (set ps). parked p Q E t" using others [OF t(2,1)] t(3) by simp
    with t(1,2) set_update_subset_insert [of ps i p'] show ?thesis by (meson subsetD)
  qed
  from assms(1) show ?thesis
  proof (rule async_stepE, goal_cases)
    case (1 p p')
    have t: "I s'" "R s s'" "parked p' Q E s'" using wp_advance [OF starts [OF 1(2) I] I 1(3)] by auto
    with others [OF t(2,1)] 1(1) show ?case by auto
  next
    case (2 i q k x p')
    then have "parked (Await q k) Q E s" using ok nth_mem by metis
    then have "wp (k x) Q E s" using I R_refl by simp
    with resumed 2 show ?case by blast
  next
    case (3 i w k x p')
    then have "parked (Wait w k) Q E s" using ok nth_mem by metis
    then have "wp (k x) Q E s" using I R_refl 3(4) by simp
    with resumed 3 show ?case by blast
  next
    case 4
    then show ?case using moves I others by blast
  qed
qed

theorem async_reachable:
  assumes "(async_step settled starts moves)\<^sup>*\<^sup>* (s, []) (s', ps')"
    and "\<And>p s. starts p \<Longrightarrow> I s \<Longrightarrow> wp p Q E s" and "\<And>s t. moves s t \<Longrightarrow> I s \<Longrightarrow> I t \<and> R s t"
    and "steady Q" "steady E" and "I s"
  shows "I s' \<and> R s s' \<and> (\<forall>p \<in> set ps'. parked p Q E s')"
  using assms(1)
proof (induction "(s', ps')" arbitrary: s' ps' rule: rtranclp_induct)
  case base
  then show ?case using assms(6) R_refl by auto
next
  case (step y)
  obtain t qs where y: "y = (t, qs)" by (cases y) auto
  from step(3) [OF y] have t: "I t" "R s t" "\<forall>p \<in> set qs. parked p Q E t" by auto
  from async_sound [OF step(2) [unfolded y] assms(2-5) t(1,3)] R_trans [OF t(2)] show ?case by blast
qed

end

end
