(* ===== verification/PermTypes.thy ===== *)
theory PermTypes
  imports Async
begin

text \<open>
  The data of the permissions manager, \<^verbatim>\<open>src/src/WalletPermissionsManager.ts\<close>: requests, tokens, grouped and
  counterparty permissions, the configuration, what the manager asks of the outside, and its state.

  An optional array is here a list, the empty one where it is undefined. The decoding of scripts and
  transactions, of URLs and of UTF-8, which other packages do, are the fields of \<open>outside\<close>.
\<close>

section \<open>Permissions\<close>

datatype line_item_type = InputItem | OutputItem | FeeItem

record line_item =
  li_type :: line_item_type
  li_description :: jstr
  li_satoshis :: int

datatype perm_type = ProtocolPerm | BasketPerm | CertificatePerm | SpendingPerm

type_synonym wallet_protocol = "nat \<times> jstr"

record perm_token =
  pt_txid :: jstr
  pt_tx :: "nat list"
  pt_outputIndex :: int
  pt_outputScript :: jstr
  pt_satoshis :: int
  pt_originator :: jstr
  pt_rawOriginator :: "jstr option"
  pt_expiry :: int
  pt_privileged :: "bool option"
  pt_protocol :: "jstr option"
  pt_securityLevel :: "nat option"
  pt_counterparty :: "jstr option"
  pt_basketName :: "jstr option"
  pt_certType :: "jstr option"
  pt_certFields :: "jstr list option"
  pt_verifier :: "jstr option"
  pt_authorizedAmount :: "int option"

record certificate_ref =
  ce_verifier :: jstr
  ce_certType :: jstr
  ce_fields :: "jstr list"

record spending_ref =
  sp_satoshis :: int
  sp_lineItems :: "line_item list"

record perm_request =
  pr_type :: perm_type
  pr_originator :: jstr
  pr_displayOriginator :: "jstr option"
  pr_usageType :: "jstr option"
  pr_privileged :: "bool option"
  pr_protocolID :: "wallet_protocol option"
  pr_counterparty :: "jstr option"
  pr_basket :: "jstr option"
  pr_certificate :: "certificate_ref option"
  pr_spending :: "spending_ref option"
  pr_reason :: "jstr option"
  pr_renewal :: bool
  pr_previousToken :: "perm_token option"

definition blank_request :: "perm_type \<Rightarrow> jstr \<Rightarrow> perm_request" where
  "blank_request ty originator =
     \<lparr>pr_type = ty, pr_originator = originator, pr_displayOriginator = None, pr_usageType = None, pr_privileged = None,
      pr_protocolID = None, pr_counterparty = None, pr_basket = None, pr_certificate = None, pr_spending = None,
      pr_reason = None, pr_renewal = False, pr_previousToken = None\<rparr>"

record group_protocol =
  gp_protocolID :: wallet_protocol
  gp_counterparty :: "jstr option"
  gp_description :: jstr

record group_basket =
  gb_basket :: jstr
  gb_description :: jstr

record group_certificate =
  gc_type :: jstr
  gc_fields :: "jstr list"
  gc_verifierPublicKey :: jstr
  gc_description :: jstr

record group_spending =
  gs_amount :: int
  gs_description :: jstr

record grouped_permissions =
  gr_description :: "jstr option"
  gr_spending :: "group_spending option"
  gr_protocols :: "group_protocol list"
  gr_baskets :: "group_basket list"
  gr_certificates :: "group_certificate list"

record counterparty_protocol =
  cp_protocolName :: jstr
  cp_description :: "jstr option"

record counterparty_permissions =
  cq_description :: "jstr option"
  cq_protocols :: "counterparty_protocol list"

text \<open>What is asked of the user: a single permission, a group, or the permissions with a counterparty.\<close>

datatype flow_request =
    SingleRequest perm_request
  | GroupRequest (gq_originator: jstr) (gq_permissions: grouped_permissions) (gq_display: "jstr option")
  | PactRequest (pq_originator: jstr) (pq_counterparty: jstr) (pq_permissions: counterparty_permissions) (pq_display: "jstr option")

section \<open>Configuration and outside\<close>

record perm_config =
  seekProtocolPermissionsForSigning :: bool
  seekProtocolPermissionsForEncrypting :: bool
  seekProtocolPermissionsForHMAC :: bool
  seekPermissionsForKeyLinkageRevelation :: bool
  seekPermissionsForPublicKeyRevelation :: bool
  seekPermissionsForIdentityKeyRevelation :: bool
  seekPermissionsForIdentityResolution :: bool
  seekBasketInsertionPermissions :: bool
  seekBasketRemovalPermissions :: bool
  seekBasketListingPermissions :: bool
  seekPermissionWhenApplyingActionLabels :: bool
  seekPermissionWhenListingActionsByLabel :: bool
  seekCertificateDisclosurePermissions :: bool
  seekCertificateAcquisitionPermissions :: bool
  seekCertificateRelinquishmentPermissions :: bool
  seekCertificateListingPermissions :: bool
  encryptWalletMetadata :: bool
  seekSpendingPermissions :: bool
  seekGroupedPermission :: bool
  differentiatePrivilegedOperations :: bool
  whitelistedCounterparties :: "(jstr \<times> jstr list) list"
  permissionModules :: "jstr list"

definition default_config :: perm_config where
  "default_config =
     \<lparr>seekProtocolPermissionsForSigning = True, seekProtocolPermissionsForEncrypting = True,
      seekProtocolPermissionsForHMAC = True, seekPermissionsForKeyLinkageRevelation = True,
      seekPermissionsForPublicKeyRevelation = True, seekPermissionsForIdentityKeyRevelation = True,
      seekPermissionsForIdentityResolution = True, seekBasketInsertionPermissions = True,
      seekBasketRemovalPermissions = True, seekBasketListingPermissions = True,
      seekPermissionWhenApplyingActionLabels = True, seekPermissionWhenListingActionsByLabel = True,
      seekCertificateDisclosurePermissions = True, seekCertificateAcquisitionPermissions = True,
      seekCertificateRelinquishmentPermissions = True, seekCertificateListingPermissions = True,
      encryptWalletMetadata = True, seekSpendingPermissions = True, seekGroupedPermission = True,
      differentiatePrivilegedOperations = True, whitelistedCounterparties = [], permissionModules = []\<rparr>"

text \<open>The arguments and the result of \<open>createAction\<close>, as far as the manager reads or builds them.\<close>

record action_input =
  ai_outpoint :: jstr
  ai_unlockingScriptLength :: "int option"
  ai_inputDescription :: jstr

record action_output =
  ao_lockingScript :: jstr
  ao_satoshis :: int
  ao_outputDescription :: jstr
  ao_basket :: "jstr option"
  ao_customInstructions :: "jstr option"
  ao_tags :: "jstr list"

record action_options =
  op_signAndProcess :: "bool option"
  op_acceptDelayedBroadcast :: "bool option"
  op_randomizeOutputs :: "bool option"

record action_args =
  aa_description :: jstr
  aa_inputBEEF :: "nat list option"
  aa_inputs :: "action_input list"
  aa_outputs :: "action_output list"
  aa_labels :: "jstr list"
  aa_options :: action_options

record action_result =
  ar_txid :: "jstr option"
  ar_tx :: "nat list option"
  ar_signable :: "(nat list \<times> jstr) option"

text \<open>The arguments of the wallet's other methods, as far as the manager reads them: \<open>wa_insertions\<close> has the basket
  and the custom instructions of every output of \<open>internalizeAction\<close> that is a basket insertion; \<open>'x\<close> is the rest.
  Of the results the manager reads the texts it decrypts.\<close>

record 'x wallet_args =
  wa_protocolID :: "wallet_protocol option"
  wa_keyID :: jstr
  wa_counterparty :: "jstr option"
  wa_verifier :: jstr
  wa_privileged :: bool
  wa_privilegedReason :: "jstr option"
  wa_identityKey :: bool
  wa_basket :: jstr
  wa_labels :: "jstr list"
  wa_certType :: jstr
  wa_certFields :: "jstr list"
  wa_description :: jstr
  wa_insertions :: "(jstr \<times> jstr option) option list"
  wa_rest :: 'x

record listed_action =
  la_description :: jstr
  la_inputs :: "jstr list"
  la_outputs :: "(jstr \<times> jstr option) list"

datatype 'x wallet_result =
    PlainResult 'x
  | OutputsResult "jstr option list" 'x
  | ActionsResult "listed_action list" 'x

text \<open>A transaction: the output each input spends (id, index, amount), the amounts of its outputs, and its fee.\<close>

record tx_view =
  tv_inputs :: "(jstr \<times> nat \<times> int) list"
  tv_outputs :: "int list"
  tv_fee :: int

text \<open>\<open>o_url\<close> is \<open>new URL\<close>: the host name, the port and the protocol, or nothing when it throws.
  \<open>o_fields\<close>, \<open>o_script\<close> and \<open>o_tx\<close>: of a bundle of transactions, a transaction id and an output index, the
  fields of the PushDrop script, the script in hexadecimal, and the bundle of that transaction. \<open>o_tx_view\<close>: of
  the bundle of an action, its transaction. \<open>o_mergeBeef\<close>: several bundles as one. \<open>o_isSignAction\<close>: whether the
  validated arguments leave inputs to be signed, or nothing when they are invalid.\<close>

record outside =
  o_url :: "jstr \<Rightarrow> (jstr \<times> jstr \<times> jstr) option"
  o_fields :: "nat list \<Rightarrow> jstr \<Rightarrow> int \<Rightarrow> nat list list option"
  o_script :: "nat list \<Rightarrow> jstr \<Rightarrow> int \<Rightarrow> jstr"
  o_tx :: "nat list \<Rightarrow> jstr \<Rightarrow> nat list"
  o_utf8 :: "jstr \<Rightarrow> nat list"
  o_toUTF8 :: "nat list \<Rightarrow> jstr"
  o_toBase64 :: "nat list \<Rightarrow> jstr"
  o_fromBase64 :: "jstr \<Rightarrow> nat list"
  o_tx_view :: "nat list \<Rightarrow> tx_view"
  o_mergeBeef :: "nat list list \<Rightarrow> nat list"
  o_isSignAction :: "action_args \<Rightarrow> bool option"

text \<open>The manager's fixed parts: what is outside, the configuration, and the admin originator.\<close>

record manager =
  m_out :: outside
  m_config :: perm_config
  m_admin :: jstr

end
