(* ===== verification/JsText.thy ===== *)
theory JsText
  imports Prelude
begin

text \<open>
  Numbers and arrays of strings as text: \<open>String(n)\<close>, \<open>parseInt(s, 10)\<close>, and \<open>JSON.stringify\<close> and \<open>JSON.parse\<close>
  on arrays of strings; the month of a date. \<open>parseInt\<close> answers \<open>None\<close> for \<open>NaN\<close>. \<open>JSON.parse\<close> answers \<open>None\<close> for everything that is
  not an array of strings; lone surrogates are not escaped.
\<close>

section \<open>Numbers\<close>

definition js_int :: "int \<Rightarrow> jstr" where
  "js_int n = (if n < 0 then [45] else []) @ dec_digits (nat \<bar>n\<bar>)"

definition is_digit :: "nat \<Rightarrow> bool" where
  "is_digit c \<longleftrightarrow> 48 \<le> c \<and> c \<le> 57"

definition digits_value :: "jstr \<Rightarrow> nat" where
  "digits_value = foldl (\<lambda>v c. 10 * v + (c - 48)) 0"

definition parse_digits :: "jstr \<Rightarrow> int option" where
  "parse_digits s = (let ds = takeWhile is_digit s in if ds = [] then None else Some (int (digits_value ds)))"

definition js_parseInt :: "jstr \<Rightarrow> int option" where
  "js_parseInt s = (case dropWhile js_space s of
       [] \<Rightarrow> None
     | c # cs \<Rightarrow> if c = 45 then map_option uminus (parse_digits cs) else if c = 43 then parse_digits cs else parse_digits (c # cs))"

lemma dec_digits_digits: "c \<in> set (dec_digits n) \<Longrightarrow> is_digit c"
proof (induction n rule: dec_digits.induct)
  case (1 n)
  show ?case
  proof (cases "n < 10")
    case True
    then show ?thesis using 1(2) by (simp add: dec_digits.simps [of n] is_digit_def)
  next
    case False
    have "n mod 10 \<le> 9" by presburger
    with False 1 show ?thesis by (auto simp: dec_digits.simps [of n] is_digit_def)
  qed
qed

lemma digits_value_dec: "digits_value (dec_digits n) = n"
proof (induction n rule: dec_digits.induct)
  case (1 n)
  then show ?case by (cases "n < 10") (simp_all add: dec_digits.simps [of n] digits_value_def)
qed

lemma parse_dec_digits: "parse_digits (dec_digits n) = Some (int n)"
proof -
  have t: "takeWhile is_digit (dec_digits n) = dec_digits n"
    unfolding takeWhile_eq_all_conv using dec_digits_digits [of _ n] by blast
  show ?thesis unfolding parse_digits_def t Let_def by (simp add: digits_value_dec)
qed

lemma digit_no_space: "is_digit c \<Longrightarrow> \<not> js_space c \<and> c \<noteq> 45 \<and> c \<noteq> 43"
  by (auto simp: is_digit_def js_space_def)

lemma parseInt_js_int: "js_parseInt (js_int n) = Some n"
proof -
  obtain c cs where c: "dec_digits (nat \<bar>n\<bar>) = c # cs" by (metis dec_digits_not_Nil neq_Nil_conv)
  then have d: "\<not> js_space c" "c \<noteq> 45" "c \<noteq> 43"
    using digit_no_space dec_digits_digits [of c "nat \<bar>n\<bar>"] by auto
  have p: "parse_digits (c # cs) = Some \<bar>n\<bar>" using parse_dec_digits [of "nat \<bar>n\<bar>"] c by simp
  show ?thesis
  proof (cases "n < 0")
    case True
    have "\<not> js_space 45" by (simp add: js_space_def)
    with True c p show ?thesis by (simp add: js_int_def js_parseInt_def)
  next
    case False
    with c d p show ?thesis by (simp add: js_int_def js_parseInt_def)
  qed
qed

lemma js_int_inj [simp]: "js_int a = js_int b \<longleftrightarrow> a = b"
  by (metis parseInt_js_int option.inject)

section \<open>Dates\<close>

text \<open>The year and the month (1 to 12) of the day that many days after 1 January 1970, in the Gregorian calendar
  of \<open>getUTCFullYear\<close> and \<open>getUTCMonth\<close>: the years are counted from 1 March, in cycles of 400.\<close>

definition utc_year_month :: "int \<Rightarrow> int \<times> nat" where
  "utc_year_month days =
     (let z = days + 719468; era = z div 146097; doe = z mod 146097;
          yoe = (doe - doe div 1460 + doe div 36524 - doe div 146096) div 365;
          doy = doe - (365 * yoe + yoe div 4 - yoe div 100);
          mp = (5 * doy + 2) div 153;
          month = (if mp < 10 then mp + 3 else mp - 9)
      in (yoe + era * 400 + (if month \<le> 2 then 1 else 0), nat month))"

text \<open>\<open>getCurrentMonthYearUTC\<close>, the time in milliseconds.\<close>

definition currentMonthYearUTC :: "int \<Rightarrow> jstr" where
  "currentMonthYearUTC now = (let (year, month) = utc_year_month (now div 86400000)
     in js_int year @ js ''-'' @ padStart0 2 (dec_digits month))"

section \<open>Arrays of strings\<close>

definition hexd :: "nat \<Rightarrow> nat" where
  "hexd d = (if d < 10 then 48 + d else 87 + d)"

definition json_char :: "nat \<Rightarrow> jstr" where
  "json_char c = (if c = 34 then [92, 34] else if c = 92 then [92, 92] else if c = 8 then [92, 98] else if c = 9 then [92, 116]
     else if c = 10 then [92, 110] else if c = 12 then [92, 102] else if c = 13 then [92, 114]
     else if c < 32 then [92, 117, 48, 48, hexd (c div 16), hexd (c mod 16)] else [c])"

definition json_string :: "jstr \<Rightarrow> jstr" where
  "json_string s = [34] @ concat (map json_char s) @ [34]"

fun json_join :: "jstr list \<Rightarrow> jstr" where
  "json_join [] = []"
| "json_join [x] = json_string x"
| "json_join (x # xs) = json_string x @ [44] @ json_join xs"

definition json_strings :: "jstr list \<Rightarrow> jstr" where
  "json_strings xs = [91] @ json_join xs @ [93]"

definition json_space :: "nat \<Rightarrow> bool" where
  "json_space c \<longleftrightarrow> c = 32 \<or> c = 9 \<or> c = 10 \<or> c = 13"

definition hex_value :: "nat \<Rightarrow> nat option" where
  "hex_value c = (if 48 \<le> c \<and> c \<le> 57 then Some (c - 48) else if 97 \<le> c \<and> c \<le> 102 then Some (c - 87)
     else if 65 \<le> c \<and> c \<le> 70 then Some (c - 55) else None)"

definition escape_value :: "nat \<Rightarrow> nat option" where
  "escape_value c = map_of [(34, 34), (92, 92), (47, 47), (98, 8), (102, 12), (110, 10), (114, 13), (116, 9)] c"

definition unicode_value :: "nat \<Rightarrow> nat \<Rightarrow> nat \<Rightarrow> nat \<Rightarrow> nat option" where
  "unicode_value a b c d = (case (hex_value a, hex_value b, hex_value c, hex_value d) of
      (Some w, Some x, Some y, Some z) \<Rightarrow> Some (4096 * w + 256 * x + 16 * y + z) | _ \<Rightarrow> None)"

text \<open>The rest of a string literal after its opening quote, and what follows it.\<close>

fun json_literal :: "jstr \<Rightarrow> (jstr \<times> jstr) option" where
  "json_literal [] = None"
| "json_literal (c # cs) =
     (if c = 34 then Some ([], cs)
      else if c = 92 then
        (case cs of
           [] \<Rightarrow> None
         | e # es \<Rightarrow>
             if e = 117 then
               (case es of h1 # h2 # h3 # h4 # rest \<Rightarrow>
                  (case unicode_value h1 h2 h3 h4 of None \<Rightarrow> None
                   | Some v \<Rightarrow> map_option (\<lambda>(s, t). (v # s, t)) (json_literal rest))
                | _ \<Rightarrow> None)
             else (case escape_value e of None \<Rightarrow> None
                   | Some v \<Rightarrow> map_option (\<lambda>(s, t). (v # s, t)) (json_literal es)))
      else if c < 32 then None
      else map_option (\<lambda>(s, t). (c # s, t)) (json_literal cs))"

lemma json_literal_shorter: "json_literal s = Some (x, t) \<Longrightarrow> length t < length s"
proof (induction s arbitrary: x rule: json_literal.induct)
  case (2 c cs)
  show ?case
  proof (cases "c = 34")
    case True
    with 2(4) show ?thesis by simp
  next
    case F: False
    show ?thesis
    proof (cases "c = 92")
      case True
      with 2(4) obtain e es where cs: "cs = e # es" by (cases cs) auto
      show ?thesis
      proof (cases "e = 117")
        case u: True
        with True F cs 2(4) obtain h1 h2 h3 h4 rest v y where
          "es = h1 # h2 # h3 # h4 # rest" "unicode_value h1 h2 h3 h4 = Some v" "json_literal rest = Some (y, t)"
          by (auto split: list.splits option.splits)
        with 2(1) [OF F True cs u] cs show ?thesis by fastforce
      next
        case u: False
        with True F cs 2(4) obtain v y where "escape_value e = Some v" "json_literal es = Some (y, t)"
          by (auto split: option.splits)
        with 2(2) [OF F True cs u] cs show ?thesis by fastforce
      qed
    next
      case False
      with F 2(4) obtain y where "json_literal cs = Some (y, t)" "\<not> c < 32" by (auto split: if_splits)
      with 2(3) [OF F False] show ?thesis by fastforce
    qed
  qed
qed simp

text \<open>The elements of an array and what follows its closing bracket; \<open>first\<close>: no element has been read.\<close>

function json_elements :: "jstr \<Rightarrow> (jstr list \<times> jstr) option" where
  "json_elements s = (case dropWhile json_space s of
      [] \<Rightarrow> None
    | c # cs \<Rightarrow> if c \<noteq> 34 then None
        else (case json_literal cs of
                None \<Rightarrow> None
              | Some (x, t) \<Rightarrow> (case dropWhile json_space t of
                    [] \<Rightarrow> None
                  | d # ds \<Rightarrow> if d = 93 then Some ([x], ds)
                      else if d = 44 then map_option (\<lambda>(xs, u). (x # xs, u)) (json_elements ds) else None)))"
  by pat_completeness auto
termination
proof (relation "measure length")
  fix s c cs p x t d ds
  assume a: "dropWhile json_space s = c # cs" "json_literal cs = Some p" "(x, t) = p" "dropWhile json_space t = d # ds"
  have "length (c # cs) \<le> length s" using length_dropWhile_le [of json_space s] a(1) by simp
  moreover have "length t < length cs" using json_literal_shorter a(2,3) by blast
  moreover have "length (d # ds) \<le> length t" using length_dropWhile_le [of json_space t] a(4) by simp
  ultimately show "(ds, s) \<in> measure length" by simp
qed simp

declare json_elements.simps [simp del]

definition json_parse_strings :: "jstr \<Rightarrow> jstr list option" where
  "json_parse_strings s = (case dropWhile json_space s of
      [] \<Rightarrow> None
    | c # cs \<Rightarrow> if c \<noteq> 91 then None
        else (case dropWhile json_space cs of
                [] \<Rightarrow> None
              | d # ds \<Rightarrow>
                  let r = (if d = 93 then Some ([], ds) else json_elements (d # ds))
                  in (case r of None \<Rightarrow> None | Some (xs, t) \<Rightarrow> if list_all json_space t then Some xs else None)))"

lemma hex_value_hexd: "d < 16 \<Longrightarrow> hex_value (hexd d) = Some d"
  by (auto simp: hex_value_def hexd_def)

lemma json_literal_char: "json_literal (json_char c @ s) = map_option (\<lambda>(x, t). (c # x, t)) (json_literal s)"
proof -
  have lt: "c < 32 \<Longrightarrow> unicode_value 48 48 (hexd (c div 16)) (hexd (c mod 16)) = Some c"
    by (simp add: unicode_value_def hex_value_hexd) (simp add: hex_value_def)
  show ?thesis unfolding json_char_def
    by (simp add: escape_value_def lt split: option.splits)
qed

lemma json_literal_string: "json_literal (concat (map json_char s) @ 34 # t) = Some (s, t)"
  by (induction s) (simp_all add: json_literal_char)

lemma json_elements_join: "xs \<noteq> [] \<Longrightarrow> json_elements (json_join xs @ 93 # t) = Some (xs, t)"
proof (induction xs rule: json_join.induct)
  case (2 x)
  then show ?case by (simp add: json_elements.simps json_string_def json_literal_string json_space_def)
next
  case (3 x y xs)
  then show ?case
    by (subst json_elements.simps) (simp add: json_string_def json_literal_string json_space_def)
qed simp

lemma json_join_first: "xs \<noteq> [] \<Longrightarrow> \<exists>s. json_join xs = 34 # s"
  by (cases xs rule: json_join.cases) (simp_all add: json_string_def)

lemma json_roundtrip: "json_parse_strings (json_strings xs) = Some xs"
proof (cases "xs = []")
  case True
  then show ?thesis by (simp add: json_parse_strings_def json_strings_def json_space_def)
next
  case False
  then obtain s where s: "json_join xs = 34 # s" using json_join_first by blast
  with json_elements_join [OF False, of "[]"] show ?thesis
    by (simp add: json_parse_strings_def json_strings_def json_space_def)
qed

end
