(* ===== verification/PermState.thy ===== *)
theory PermState
  imports PermTypes JsText
begin

text \<open>
  The state of the permissions manager, what it asks of the outside, the keys its maps are indexed by, and its
  caches (section 8 of \<^verbatim>\<open>src/src/WalletPermissionsManager.ts\<close>).

  A promise of the manager's own is a number; an entry of \<open>activeRequests\<close> is an object that calls may hold on to
  after it has left the map, so entries are numbers too, and the map holds those. \<open>pm_log\<close> is a history variable:
  nothing reads it.
\<close>

section \<open>Errors, requests to the outside, answers\<close>

datatype pm_error = Err string "jstr list" | UserDenied | External jstr

record listed_output =
  lo_outpoint :: jstr
  lo_satoshis :: int

datatype pm_callback = OnProtocol | OnBasket | OnCertificate | OnSpending | OnGrouped | OnCounterparty

text \<open>\<open>'x\<close>: what the manager only passes on. The last argument of \<open>CreateActionQ\<close>, \<open>SignActionQ\<close> and \<open>WalletQ\<close> is
  part of the history and not of the request: the permission modules that changed the arguments, and the net
  amount the signature spends where the manager computed it.\<close>

datatype 'x pm_query =
    YieldQ
  | ListOutputsQ jstr "jstr list"
  | ListActionsQ "jstr list"
  | EncryptQ wallet_protocol "nat list"
  | DecryptQ wallet_protocol "nat list"
  | ManifestQ jstr
  | CallbackQ pm_callback nat jstr flow_request
  | LockQ "nat list list"
  | UnlockQ jstr "nat list" nat
  | CreateActionQ action_args "jstr option" "jstr list"
  | SignActionQ jstr "(nat \<times> jstr) list" "action_options option" "jstr option" "int option"
  | AbortActionQ jstr
  | ModuleRequestQ jstr string "'x wallet_args" jstr
  | ModuleResponseQ jstr string "'x wallet_result" jstr
  | ModuleActionQ jstr action_args jstr
  | ModuleResultQ jstr action_result jstr
  | WalletQ string "'x wallet_args" "jstr option" "jstr list"

datatype 'x pm_answer =
    UnitA
  | OutputsA "listed_output list" "nat list"
  | AmountsA "int list"
  | BytesA "nat list"
  | ManifestA "grouped_permissions option" "counterparty_permissions option"
  | ScriptA jstr
  | ActionArgsA action_args
  | ActionA action_result
  | ArgsA "'x wallet_args"
  | ValueA "'x wallet_result"

section \<open>State\<close>

text \<open>\<open>Answered key\<close>: the user settled the request of that key positively; \<open>Granted r\<close>: a permission for \<open>r\<close>
  was granted, for more than the one request; \<open>Found key token\<close>: a valid token was found for the request key;
  \<open>LateDelete key\<close>: the end of granting a request removed a newer request of the same key.\<close>

datatype pm_event = Answered jstr | Granted perm_request | Found jstr perm_token | LateDelete jstr

record active_entry =
  en_key :: jstr
  en_request :: flow_request
  en_pending :: "nat list"

text \<open>The key of a promise, \<open>None\<close> for the gate of a lock, is part of the history.\<close>

record promise =
  pr_key :: "jstr option"
  pr_outcome :: "(pm_error + bool) option"

record pm =
  pm_now :: int
  pm_active :: "jstr \<rightharpoonup> nat"
  pm_entries :: "active_entry list"
  pm_promises :: "promise list"
  pm_cache :: "jstr \<rightharpoonup> int \<times> int"
  pm_recent :: "jstr \<rightharpoonup> int"
  pm_pacts :: "jstr \<rightharpoonup> int"
  pm_manifests :: "jstr \<rightharpoonup> (grouped_permissions option \<times> counterparty_permissions option) \<times> int"
  pm_tails :: "jstr \<rightharpoonup> nat"
  pm_callbacks :: "pm_callback \<Rightarrow> nat option list"
  pm_log :: "pm_event list"

definition empty_pm :: "int \<Rightarrow> pm" where
  "empty_pm now = \<lparr>pm_now = now, pm_active = Map.empty, pm_entries = [], pm_promises = [], pm_cache = Map.empty,
     pm_recent = Map.empty, pm_pacts = Map.empty, pm_manifests = Map.empty, pm_tails = Map.empty,
     pm_callbacks = (\<lambda>_. []), pm_log = []\<rparr>"

type_synonym ('x, 'a) pmp = "(pm, 'x pm_query, 'x pm_answer, pm_error, 'a) prog"

definition settled :: "pm \<Rightarrow> nat \<Rightarrow> (pm_error + bool) option" where
  "settled s w = (if w < length (pm_promises s) then pr_outcome (pm_promises s ! w) else None)"

definition logE :: "pm_event \<Rightarrow> pm \<Rightarrow> pm" where
  "logE e s = s\<lparr>pm_log := e # pm_log s\<rparr>"

definition bad_answer :: pm_error where
  "bad_answer = External []"

definition yieldP :: "('x, unit) pmp" where
  "yieldP = Await YieldQ (\<lambda>_. Ret ())"

text \<open>\<open>await f()\<close> yields even when \<open>f\<close> ended without waiting for anything.\<close>

definition callP :: "('x, 'a) pmp \<Rightarrow> ('x, 'a) pmp" where
  "callP p = bindP p (\<lambda>a. bindP yieldP (\<lambda>_. Ret a))"

section \<open>Originators\<close>

definition is_alpha :: "nat \<Rightarrow> bool" where
  "is_alpha c \<longleftrightarrow> (65 \<le> c \<and> c \<le> 90) \<or> (97 \<le> c \<and> c \<le> 122)"

definition is_scheme_char :: "nat \<Rightarrow> bool" where
  "is_scheme_char c \<longleftrightarrow> is_alpha c \<or> (48 \<le> c \<and> c \<le> 57) \<or> c = 43 \<or> c = 45 \<or> c = 46"

definition hasScheme :: "jstr \<Rightarrow> bool" where
  "hasScheme s \<longleftrightarrow> (case s of [] \<Rightarrow> False
     | c # cs \<Rightarrow> is_alpha c \<and> startsWith (dropWhile is_scheme_char cs) (js ''://''))"

definition default_port :: "jstr \<Rightarrow> jstr option" where
  "default_port protocol = (if protocol = js ''http:'' then Some (js ''80'')
     else if protocol = js ''https:'' then Some (js ''443'') else None)"

definition normalizeOriginator :: "outside \<Rightarrow> jstr \<Rightarrow> jstr" where
  "normalizeOriginator out originator =
     (let trimmed = js_trim originator in
      if trimmed = [] then []
      else case o_url out (if hasScheme trimmed then trimmed else js ''https://'' @ trimmed) of
             None \<Rightarrow> toLowerCase trimmed
           | Some (hostname, port, protocol) \<Rightarrow>
               if hostname = [] then toLowerCase trimmed
               else let host = toLowerCase hostname;
                        baseHost = (if 58 \<in> set host then [91] @ host @ [93] else host)
                    in if port \<noteq> [] \<and> default_port protocol = Some port then baseHost
                       else if port \<noteq> [] then baseHost @ [58] @ port else baseHost)"

text \<open>The distinct elements in the order of their first occurrence, as a \<open>Set\<close> keeps them.\<close>

fun insertion_order :: "'a list \<Rightarrow> 'a list" where
  "insertion_order [] = []"
| "insertion_order (x # xs) = x # filter (\<lambda>y. y \<noteq> x) (insertion_order xs)"

definition prepareOriginator :: "outside \<Rightarrow> jstr \<Rightarrow> pm_error + jstr \<times> jstr list" where
  "prepareOriginator out originator =
     (let trimmed = js_trim originator in
      if trimmed = [] then Inl (Err ''Originator is required for permission checks.'' [])
      else let n = normalizeOriginator out trimmed; normalized = (if n = [] then toLowerCase trimmed else n)
           in Inr (normalized, filter (\<lambda>v. v \<noteq> []) (insertion_order [trimmed, normalized])))"

definition buildOriginatorLookupValues :: "jstr option list \<Rightarrow> jstr list" where
  "buildOriginatorLookupValues origins =
     insertion_order (filter (\<lambda>v. v \<noteq> []) (map (\<lambda>v. case v of None \<Rightarrow> [] | Some x \<Rightarrow> js_trim x) origins))"

definition isAdminOriginator :: "manager \<Rightarrow> jstr \<Rightarrow> bool" where
  "isAdminOriginator m originator \<longleftrightarrow> normalizeOriginator (m_out m) originator = m_admin m"

definition new_manager :: "outside \<Rightarrow> jstr \<Rightarrow> perm_config \<Rightarrow> manager" where
  "new_manager out adminOriginator cfg =
     \<lparr>m_out = out, m_config = cfg,
      m_admin = (let n = normalizeOriginator out adminOriginator in if n = [] then adminOriginator else n)\<rparr>"

section \<open>Reserved names\<close>

definition isAdminProtocol :: "wallet_protocol \<Rightarrow> bool" where
  "isAdminProtocol proto \<longleftrightarrow> startsWith (snd proto) (js ''admin'')"

definition isAdminLabel :: "jstr \<Rightarrow> bool" where
  "isAdminLabel label \<longleftrightarrow> startsWith label (js ''admin'') \<or> startsWith label (js ''p '')"

definition isAdminBasket :: "jstr \<Rightarrow> bool" where
  "isAdminBasket basket \<longleftrightarrow> basket = js ''default'' \<or> startsWith basket (js ''admin'')"

definition lookup_counterparty :: "(jstr \<times> jstr list) list \<Rightarrow> jstr \<Rightarrow> jstr list option" where
  "lookup_counterparty whitelist cp = (case map_of whitelist cp of Some ps \<Rightarrow> Some ps
     | None \<Rightarrow> (case map_of whitelist (toLowerCase cp) of Some ps \<Rightarrow> Some ps
       | None \<Rightarrow> map_of whitelist (toUpperCase cp)))"

definition isWhitelistedCounterpartyProtocol :: "perm_config \<Rightarrow> jstr \<Rightarrow> wallet_protocol \<Rightarrow> bool" where
  "isWhitelistedCounterpartyProtocol cfg counterparty protocolID \<longleftrightarrow>
     counterparty \<noteq> [] \<and> counterparty \<noteq> js ''self'' \<and> counterparty \<noteq> js ''anyone'' \<and>
     (case lookup_counterparty (whitelistedCounterparties cfg) counterparty of
        None \<Rightarrow> False
      | Some protocols \<Rightarrow> let protoName = toLowerCase (snd protocolID)
          in protoName \<noteq> [] \<and> protoName \<in> toLowerCase ` set protocols)"

section \<open>Keys\<close>

definition js_bool :: "bool \<Rightarrow> jstr" where
  "js_bool b = (if b then js ''true'' else js ''false'')"

definition js_opt :: "jstr option \<Rightarrow> jstr" where
  "js_opt x = (case x of None \<Rightarrow> js ''undefined'' | Some s \<Rightarrow> s)"

fun js_join :: "jstr \<Rightarrow> jstr list \<Rightarrow> jstr" where
  "js_join sep [] = []"
| "js_join sep [x] = x"
| "js_join sep (x # xs) = x @ sep @ js_join sep xs"

definition privileged_of :: "perm_request \<Rightarrow> bool" where
  "privileged_of r \<longleftrightarrow> pr_privileged r = Some True"

definition buildRequestKey :: "outside \<Rightarrow> perm_request \<Rightarrow> jstr" where
  "buildRequestKey out r =
     (let origin = normalizeOriginator out (pr_originator r) in
      case pr_type r of
        ProtocolPerm \<Rightarrow> js ''proto:'' @ origin @ js '':'' @ js_bool (privileged_of r) @ js '':'' @
          js_opt (map_option (\<lambda>(l, n). js_join (js '','') [dec_digits l, n]) (pr_protocolID r)) @ js '':'' @ js_opt (pr_counterparty r)
      | BasketPerm \<Rightarrow> js ''basket:'' @ origin @ js '':'' @ js_opt (pr_basket r)
      | CertificatePerm \<Rightarrow> js ''cert:'' @ origin @ js '':'' @ js_bool (privileged_of r) @ js '':'' @
          js_opt (map_option ce_verifier (pr_certificate r)) @ js '':'' @ js_opt (map_option ce_certType (pr_certificate r)) @ js '':'' @
          js_opt (map_option (\<lambda>c. js_join (js ''|'') (ce_fields c)) (pr_certificate r))
      | SpendingPerm \<Rightarrow> js ''spend:'' @ origin @ js '':'' @ js_opt (map_option (\<lambda>s. js_int (sp_satoshis s)) (pr_spending r)))"

definition buildActiveRequestKey :: "outside \<Rightarrow> perm_request \<Rightarrow> jstr" where
  "buildActiveRequestKey out r =
     (let base = buildRequestKey out r in
      if pr_type r \<in> {ProtocolPerm, BasketPerm, CertificatePerm}
      then base @ js '':'' @ (case pr_usageType r of None \<Rightarrow> [] | Some u \<Rightarrow> u) else base)"

section \<open>Caches\<close>

definition CACHE_TTL_MS :: int where "CACHE_TTL_MS = 5 * 60 * 1000"
definition RECENT_GRANT_COVER_MS :: int where "RECENT_GRANT_COVER_MS = 15 * 1000"
definition MANIFEST_CACHE_TTL_MS :: int where "MANIFEST_CACHE_TTL_MS = 5 * 60 * 1000"

definition isTokenExpired :: "int \<Rightarrow> pm \<Rightarrow> bool" where
  "isTokenExpired expiry s \<longleftrightarrow> (let now = pm_now s div 1000 in 0 < expiry \<and> expiry < now)"

definition cache_valid :: "jstr \<Rightarrow> pm \<Rightarrow> bool" where
  "cache_valid key s = (case pm_cache s key of None \<Rightarrow> False
     | Some (expiry, cachedAt) \<Rightarrow> pm_now s - cachedAt \<le> CACHE_TTL_MS \<and> \<not> isTokenExpired expiry s)"

definition isPermissionCached :: "jstr \<Rightarrow> ('x, bool) pmp" where
  "isPermissionCached key = Do
     (\<lambda>s. if pm_cache s key \<noteq> None \<and> \<not> cache_valid key s then s\<lparr>pm_cache := (pm_cache s)(key := None)\<rparr> else s)
     (\<lambda>s. Ret (cache_valid key s))"

definition cachePermission :: "jstr \<Rightarrow> int \<Rightarrow> pm \<Rightarrow> pm" where
  "cachePermission key expiry s = s\<lparr>pm_cache := (pm_cache s)(key \<mapsto> (expiry, pm_now s))\<rparr>"

definition markRecentGrant :: "outside \<Rightarrow> perm_request \<Rightarrow> pm \<Rightarrow> pm" where
  "markRecentGrant out r s =
     (if pr_type r = SpendingPerm then s
      else s\<lparr>pm_recent := (pm_recent s)(buildRequestKey out r \<mapsto> pm_now s + RECENT_GRANT_COVER_MS)\<rparr>)"

definition recent_valid :: "jstr \<Rightarrow> pm \<Rightarrow> bool" where
  "recent_valid key s = (case pm_recent s key of None \<Rightarrow> False | Some expiry \<Rightarrow> expiry \<noteq> 0 \<and> pm_now s \<le> expiry)"

definition isRecentlyGranted :: "jstr \<Rightarrow> ('x, bool) pmp" where
  "isRecentlyGranted key = Do
     (\<lambda>s. case pm_recent s key of None \<Rightarrow> s
        | Some expiry \<Rightarrow> if expiry \<noteq> 0 \<and> expiry < pm_now s then s\<lparr>pm_recent := (pm_recent s)(key := None)\<rparr> else s)
     (\<lambda>s. Ret (recent_valid key s))"

section \<open>Callbacks\<close>

text \<open>\<open>bindCallback\<close> returns the number of the new handler; handlers are numbers.\<close>

definition bindCallback :: "pm_callback \<Rightarrow> nat \<Rightarrow> pm \<Rightarrow> nat \<times> pm" where
  "bindCallback ev handler s =
     (length (pm_callbacks s ev), s\<lparr>pm_callbacks := (pm_callbacks s)(ev := pm_callbacks s ev @ [Some handler])\<rparr>)"

definition unbindCallbackId :: "pm_callback \<Rightarrow> nat \<Rightarrow> pm \<Rightarrow> bool \<times> pm" where
  "unbindCallbackId ev i s = (let arr = pm_callbacks s ev in
     if i < length arr \<and> arr ! i \<noteq> None then (True, s\<lparr>pm_callbacks := (pm_callbacks s)(ev := arr[i := None])\<rparr>) else (False, s))"

fun index_of :: "'a \<Rightarrow> 'a list \<Rightarrow> nat option" where
  "index_of x [] = None"
| "index_of x (y # ys) = (if y = x then Some 0 else map_option Suc (index_of x ys))"

definition unbindCallback :: "pm_callback \<Rightarrow> nat \<Rightarrow> pm \<Rightarrow> bool \<times> pm" where
  "unbindCallback ev handler s = (case index_of (Some handler) (pm_callbacks s ev) of
     None \<Rightarrow> (False, s)
   | Some i \<Rightarrow> (True, s\<lparr>pm_callbacks := (pm_callbacks s)(ev := (pm_callbacks s ev)[i := None])\<rparr>))"

definition has_handlers :: "pm_callback \<Rightarrow> pm \<Rightarrow> bool" where
  "has_handlers ev s \<longleftrightarrow> list_ex (\<lambda>h. h \<noteq> None) (pm_callbacks s ev)"

text \<open>Every handler is awaited in turn, and what it throws is dropped. The handlers are those bound at the start.\<close>

definition callEvent :: "pm_callback \<Rightarrow> jstr \<Rightarrow> flow_request \<Rightarrow> ('x, unit) pmp" where
  "callEvent ev key r = bindP (readP (\<lambda>s. pm_callbacks s ev)) (eachP (\<lambda>cb. case cb of
     None \<Rightarrow> Ret () | Some h \<Rightarrow> catchP (awaitP (CallbackQ ev h key r) (\<lambda>_. Some ()) bad_answer) (\<lambda>_. Ret ())))"

end
