(* ===== verification/PermTokens.thy ===== *)
theory PermTokens
  imports PermState
begin

text \<open>
  Permission tokens as PushDrop outputs (sections 4 and 5 of \<^verbatim>\<open>src/src/WalletPermissionsManager.ts\<close>): the fields and
  tags of a new token, and the search for a token that covers a request. \<open>Number.parseInt\<close> may give \<open>NaN\<close>, which
  an expiry or an amount here holds as 0: the code treats both alike.
\<close>

definition BASKET_MAP :: "perm_type \<Rightarrow> jstr" where
  "BASKET_MAP ty = (case ty of ProtocolPerm \<Rightarrow> js ''admin protocol-permission'' | BasketPerm \<Rightarrow> js ''admin basket-access''
     | CertificatePerm \<Rightarrow> js ''admin certificate-access'' | SpendingPerm \<Rightarrow> js ''admin spending-authorization'')"

definition PERM_TOKEN_ENCRYPTION_PROTOCOL :: wallet_protocol where
  "PERM_TOKEN_ENCRYPTION_PROTOCOL = (2, js ''admin permission token encryption'')"

definition METADATA_ENCRYPTION_PROTOCOL :: wallet_protocol where
  "METADATA_ENCRYPTION_PROTOCOL = (2, js ''admin metadata encryption'')"

definition bytes_of :: "'x pm_answer \<Rightarrow> nat list option" where
  "bytes_of a = (case a of BytesA b \<Rightarrow> Some b | _ \<Rightarrow> None)"

definition outputs_of :: "'x pm_answer \<Rightarrow> (listed_output list \<times> nat list) option" where
  "outputs_of a = (case a of OutputsA os b \<Rightarrow> Some (os, b) | _ \<Rightarrow> None)"

definition amounts_of :: "'x pm_answer \<Rightarrow> int list option" where
  "amounts_of a = (case a of AmountsA xs \<Rightarrow> Some xs | _ \<Rightarrow> None)"

section \<open>Encryption\<close>

definition encryptPermissionTokenField :: "manager \<Rightarrow> jstr \<Rightarrow> ('x, nat list) pmp" where
  "encryptPermissionTokenField m plaintext =
     awaitP (EncryptQ PERM_TOKEN_ENCRYPTION_PROTOCOL (o_utf8 (m_out m) plaintext)) bytes_of bad_answer"

definition decryptPermissionTokenField :: "nat list \<Rightarrow> ('x, nat list) pmp" where
  "decryptPermissionTokenField ciphertext =
     catchP (awaitP (DecryptQ PERM_TOKEN_ENCRYPTION_PROTOCOL ciphertext) bytes_of bad_answer) (\<lambda>_. Ret ciphertext)"

definition decrypt_text :: "manager \<Rightarrow> nat list \<Rightarrow> ('x, jstr) pmp" where
  "decrypt_text m f = bindP (decryptPermissionTokenField f) (\<lambda>b. Ret (o_toUTF8 (m_out m) b))"

definition maybeEncryptMetadata :: "manager \<Rightarrow> jstr \<Rightarrow> ('x, jstr) pmp" where
  "maybeEncryptMetadata m plaintext =
     (if \<not> encryptWalletMetadata (m_config m) then Ret plaintext
      else bindP (awaitP (EncryptQ METADATA_ENCRYPTION_PROTOCOL (o_utf8 (m_out m) plaintext)) bytes_of bad_answer)
        (\<lambda>c. Ret (o_toBase64 (m_out m) c)))"

definition maybeDecryptMetadata :: "manager \<Rightarrow> jstr \<Rightarrow> ('x, jstr) pmp" where
  "maybeDecryptMetadata m ciphertext =
     catchP (bindP (awaitP (DecryptQ METADATA_ENCRYPTION_PROTOCOL (o_fromBase64 (m_out m) ciphertext)) bytes_of bad_answer)
       (\<lambda>p. Ret (o_toUTF8 (m_out m) p))) (\<lambda>_. Ret ciphertext)"

section \<open>New tokens\<close>

text \<open>What is encrypted into the fields, in their order.\<close>

definition token_texts :: "perm_request \<Rightarrow> int \<Rightarrow> int option \<Rightarrow> jstr list" where
  "token_texts r expiry amount = (case pr_type r of
     ProtocolPerm \<Rightarrow> (case pr_protocolID r of None \<Rightarrow> [] | Some (secLevel, protoName) \<Rightarrow>
       [pr_originator r, js_int expiry, js_bool (privileged_of r), dec_digits secLevel, protoName,
        if secLevel = 2 then (case pr_counterparty r of None \<Rightarrow> js ''self'' | Some c \<Rightarrow> c) else []])
   | BasketPerm \<Rightarrow> [pr_originator r, js_int expiry, case pr_basket r of None \<Rightarrow> [] | Some b \<Rightarrow> b]
   | CertificatePerm \<Rightarrow> (case pr_certificate r of None \<Rightarrow> [] | Some c \<Rightarrow>
       [pr_originator r, js_int expiry, js_bool (privileged_of r), ce_certType c, json_strings (ce_fields c), ce_verifier c])
   | SpendingPerm \<Rightarrow> [pr_originator r, js_int (case amount of Some a \<Rightarrow> a
       | None \<Rightarrow> (case pr_spending r of None \<Rightarrow> 0 | Some s \<Rightarrow> sp_satoshis s))])"

definition buildPushdropFields :: "manager \<Rightarrow> perm_request \<Rightarrow> int \<Rightarrow> int option \<Rightarrow> ('x, nat list list) pmp" where
  "buildPushdropFields m r expiry amount = mapP (encryptPermissionTokenField m) (token_texts r expiry amount)"

definition buildTagsForRequest :: "perm_request \<Rightarrow> jstr list" where
  "buildTagsForRequest r = (js ''originator '' @ pr_originator r) # (case pr_type r of
     ProtocolPerm \<Rightarrow> (case pr_protocolID r of None \<Rightarrow> [] | Some (secLevel, protoName) \<Rightarrow>
       [js ''privileged '' @ js_bool (privileged_of r), js ''protocolName '' @ protoName,
        js ''protocolSecurityLevel '' @ dec_digits secLevel] @
       (if secLevel = 2 then [js ''counterparty '' @ (case pr_counterparty r of None \<Rightarrow> js ''self'' | Some c \<Rightarrow> c)] else []))
   | BasketPerm \<Rightarrow> [js ''basket '' @ js_opt (pr_basket r)]
   | CertificatePerm \<Rightarrow> (case pr_certificate r of None \<Rightarrow> [] | Some c \<Rightarrow>
       [js ''privileged '' @ js_bool (privileged_of r), js ''type '' @ ce_certType c, js ''verifier '' @ ce_verifier c])
   | SpendingPerm \<Rightarrow> [])"

section \<open>Searching for a token\<close>

definition parseOutpoint :: "jstr \<Rightarrow> (jstr \<times> int) option" where
  "parseOutpoint outpoint = (case js_split 46 outpoint of
     txid # indexStr # _ \<Rightarrow> map_option (\<lambda>i. (txid, i)) (js_parseInt indexStr) | _ \<Rightarrow> None)"

definition no_token :: perm_token where
  "no_token = \<lparr>pt_txid = [], pt_tx = [], pt_outputIndex = 0, pt_outputScript = [], pt_satoshis = 0, pt_originator = [],
     pt_rawOriginator = None, pt_expiry = 0, pt_privileged = None, pt_protocol = None, pt_securityLevel = None,
     pt_counterparty = None, pt_basketName = None, pt_certType = None, pt_certFields = None, pt_verifier = None,
     pt_authorizedAmount = None\<rparr>"

text \<open>The place of a listed output and its fields; an output that is not there throws.\<close>

definition token_at :: "manager \<Rightarrow> nat list \<Rightarrow> listed_output \<Rightarrow> ('x, perm_token \<times> nat list list option) pmp" where
  "token_at m beef out = (case parseOutpoint (lo_outpoint out) of
      None \<Rightarrow> Throw (Err ''TypeError'' [])
    | Some (txid, i) \<Rightarrow> Ret (no_token\<lparr>pt_txid := txid, pt_tx := o_tx (m_out m) beef txid, pt_outputIndex := i,
        pt_outputScript := o_script (m_out m) beef txid i, pt_satoshis := lo_satoshis out\<rparr>, o_fields (m_out m) beef txid i))"

definition nan0 :: "int option \<Rightarrow> int" where
  "nan0 x = (case x of None \<Rightarrow> 0 | Some n \<Rightarrow> n)"

record protocol_fields =
  pf_domain :: jstr
  pf_expiry :: int
  pf_priv :: bool
  pf_secLevel :: "int option"
  pf_protoName :: jstr
  pf_cpty :: jstr

definition decryptProtocolTokenFields :: "manager \<Rightarrow> nat list list \<Rightarrow> ('x, protocol_fields) pmp" where
  "decryptProtocolTokenFields m flds =
     bindP (decrypt_text m (flds ! 0)) (\<lambda>domain. bindP (decrypt_text m (flds ! 1)) (\<lambda>expiry.
     bindP (decrypt_text m (flds ! 2)) (\<lambda>priv. bindP (decrypt_text m (flds ! 3)) (\<lambda>secLevel.
     bindP (decrypt_text m (flds ! 4)) (\<lambda>protoName. bindP (decrypt_text m (flds ! 5)) (\<lambda>cpty.
     Ret \<lparr>pf_domain = domain, pf_expiry = nan0 (js_parseInt expiry), pf_priv = (priv = js ''true''),
          pf_secLevel = js_parseInt secLevel, pf_protoName = protoName, pf_cpty = cpty\<rparr>))))))"

definition origins_to_try :: "jstr \<Rightarrow> jstr list \<Rightarrow> jstr list" where
  "origins_to_try originator lookup = (if lookup = [] then [originator] else lookup)"

definition protocol_tags :: "jstr \<Rightarrow> bool \<Rightarrow> wallet_protocol \<Rightarrow> jstr \<Rightarrow> jstr list" where
  "protocol_tags originTag privileged protocolID counterparty =
     [js ''originator '' @ originTag, js ''privileged '' @ js_bool privileged, js ''protocolName '' @ snd protocolID,
      js ''protocolSecurityLevel '' @ dec_digits (fst protocolID)] @
     (if fst protocolID = 2 then [js ''counterparty '' @ counterparty] else [])"

definition protocol_fields_match :: "manager \<Rightarrow> jstr \<Rightarrow> bool \<Rightarrow> wallet_protocol \<Rightarrow> jstr \<Rightarrow> protocol_fields \<Rightarrow> bool" where
  "protocol_fields_match m originator privileged protocolID counterparty f \<longleftrightarrow>
     normalizeOriginator (m_out m) (pf_domain f) = originator \<and> pf_priv f = privileged \<and>
     pf_secLevel f = Some (int (fst protocolID)) \<and> pf_protoName f = snd protocolID \<and>
     (pf_secLevel f = Some 2 \<longrightarrow> pf_cpty f = counterparty)"

definition protocol_token :: "perm_token \<Rightarrow> jstr \<Rightarrow> bool \<Rightarrow> wallet_protocol \<Rightarrow> protocol_fields \<Rightarrow> perm_token" where
  "protocol_token t originator privileged protocolID f =
     t\<lparr>pt_originator := originator, pt_rawOriginator := Some (pf_domain f), pt_privileged := Some privileged,
       pt_protocol := Some (snd protocolID), pt_securityLevel := Some (fst protocolID), pt_expiry := pf_expiry f,
       pt_counterparty := Some (pf_cpty f)\<rparr>"

text \<open>\<open>continue\<close> is \<open>None\<close>.\<close>

definition skip_expired :: "bool \<Rightarrow> perm_token \<Rightarrow> ('x, perm_token option) pmp" where
  "skip_expired includeExpired t =
     bindP (readP (\<lambda>s. isTokenExpired (pt_expiry t) s)) (\<lambda>e. Ret (if \<not> includeExpired \<and> e then None else Some t))"

definition findProtocolToken ::
  "manager \<Rightarrow> jstr \<Rightarrow> bool \<Rightarrow> wallet_protocol \<Rightarrow> jstr \<Rightarrow> bool \<Rightarrow> jstr list \<Rightarrow> ('x, perm_token option) pmp" where
  "findProtocolToken m originator privileged protocolID counterparty includeExpired lookup =
     firstP (\<lambda>originTag.
       bindP (awaitP (ListOutputsQ (BASKET_MAP ProtocolPerm) (protocol_tags originTag privileged protocolID counterparty)) outputs_of bad_answer)
         (\<lambda>(outs, beef). firstP (\<lambda>out. bindP (token_at m beef out) (\<lambda>(t, flds). case flds of
             None \<Rightarrow> Ret None
           | Some fs \<Rightarrow> if length fs < 6 then Ret None
               else bindP (decryptProtocolTokenFields m fs) (\<lambda>f.
                 if \<not> protocol_fields_match m originator privileged protocolID counterparty f then Ret None
                 else skip_expired includeExpired (protocol_token t originator privileged protocolID f)))) outs))
       (origins_to_try originator lookup)"

text \<open>\<open>findAllProtocolTokens\<close> goes on after a match; what it has seen is a list of outpoints.\<close>

fun all_tokens_in ::
  "manager \<Rightarrow> jstr \<Rightarrow> bool \<Rightarrow> wallet_protocol \<Rightarrow> jstr \<Rightarrow> nat list \<Rightarrow> listed_output list \<Rightarrow> jstr list \<Rightarrow> perm_token list \<Rightarrow>
   ('x, jstr list \<times> perm_token list) pmp" where
  "all_tokens_in m originator privileged protocolID counterparty beef [] seen matches = Ret (seen, matches)"
| "all_tokens_in m originator privileged protocolID counterparty beef (out # outs) seen matches =
     (if lo_outpoint out \<in> set seen then all_tokens_in m originator privileged protocolID counterparty beef outs seen matches
      else bindP (token_at m beef out) (\<lambda>(t, flds). case flds of
          None \<Rightarrow> all_tokens_in m originator privileged protocolID counterparty beef outs seen matches
        | Some fs \<Rightarrow> if length fs < 6 then all_tokens_in m originator privileged protocolID counterparty beef outs seen matches
            else bindP (decryptProtocolTokenFields m fs) (\<lambda>f.
              if \<not> protocol_fields_match m originator privileged protocolID counterparty f
              then all_tokens_in m originator privileged protocolID counterparty beef outs seen matches
              else all_tokens_in m originator privileged protocolID counterparty beef outs (lo_outpoint out # seen)
                (matches @ [protocol_token t originator privileged protocolID f]))))"

fun all_tokens_of ::
  "manager \<Rightarrow> jstr \<Rightarrow> bool \<Rightarrow> wallet_protocol \<Rightarrow> jstr \<Rightarrow> jstr list \<Rightarrow> jstr list \<Rightarrow> perm_token list \<Rightarrow> ('x, perm_token list) pmp" where
  "all_tokens_of m originator privileged protocolID counterparty [] seen matches = Ret matches"
| "all_tokens_of m originator privileged protocolID counterparty (originTag # tags) seen matches =
     bindP (awaitP (ListOutputsQ (BASKET_MAP ProtocolPerm) (protocol_tags originTag privileged protocolID counterparty)) outputs_of bad_answer)
       (\<lambda>(outs, beef). bindP (all_tokens_in m originator privileged protocolID counterparty beef outs seen matches)
         (\<lambda>(seen', matches'). all_tokens_of m originator privileged protocolID counterparty tags seen' matches'))"

definition findAllProtocolTokens ::
  "manager \<Rightarrow> jstr \<Rightarrow> bool \<Rightarrow> wallet_protocol \<Rightarrow> jstr \<Rightarrow> jstr list \<Rightarrow> ('x, perm_token list) pmp" where
  "findAllProtocolTokens m originator privileged protocolID counterparty lookup =
     all_tokens_of m originator privileged protocolID counterparty (origins_to_try originator lookup) [] []"

definition findBasketToken :: "manager \<Rightarrow> jstr \<Rightarrow> jstr \<Rightarrow> bool \<Rightarrow> jstr list \<Rightarrow> ('x, perm_token option) pmp" where
  "findBasketToken m originator basket includeExpired lookup =
     firstP (\<lambda>originTag.
       bindP (awaitP (ListOutputsQ (BASKET_MAP BasketPerm) [js ''originator '' @ originTag, js ''basket '' @ basket]) outputs_of bad_answer)
         (\<lambda>(outs, beef). firstP (\<lambda>out. bindP (token_at m beef out) (\<lambda>(t, flds). case flds of
             None \<Rightarrow> Ret None
           | Some fs \<Rightarrow> if length fs < 3 then Ret None
               else bindP (decrypt_text m (fs ! 0)) (\<lambda>domain.
                 if normalizeOriginator (m_out m) domain \<noteq> originator then Ret None
                 else bindP (decrypt_text m (fs ! 1)) (\<lambda>expiry. bindP (decrypt_text m (fs ! 2)) (\<lambda>b.
                   if b \<noteq> basket then Ret None
                   else skip_expired includeExpired (t\<lparr>pt_originator := originator, pt_rawOriginator := Some domain,
                     pt_basketName := Some b, pt_expiry := nan0 (js_parseInt expiry)\<rparr>)))))) outs))
       (origins_to_try originator lookup)"

definition findCertificateToken ::
  "manager \<Rightarrow> jstr \<Rightarrow> bool \<Rightarrow> jstr \<Rightarrow> jstr \<Rightarrow> jstr list \<Rightarrow> bool \<Rightarrow> jstr list \<Rightarrow> ('x, perm_token option) pmp" where
  "findCertificateToken m originator privileged verifier certType flds includeExpired lookup =
     firstP (\<lambda>originTag.
       bindP (awaitP (ListOutputsQ (BASKET_MAP CertificatePerm) [js ''originator '' @ originTag, js ''privileged '' @ js_bool privileged,
           js ''type '' @ certType, js ''verifier '' @ verifier]) outputs_of bad_answer)
         (\<lambda>(outs, beef). firstP (\<lambda>out. bindP (token_at m beef out) (\<lambda>(t, fs0). case fs0 of
             None \<Rightarrow> Ret None
           | Some fs \<Rightarrow> if length fs < 6 then Ret None
               else bindP (decrypt_text m (fs ! 0)) (\<lambda>domain.
                 if normalizeOriginator (m_out m) domain \<noteq> originator then Ret None
                 else bindP (decrypt_text m (fs ! 1)) (\<lambda>expiry. bindP (decrypt_text m (fs ! 2)) (\<lambda>priv.
                   bindP (decrypt_text m (fs ! 3)) (\<lambda>ty. bindP (decrypt_text m (fs ! 5)) (\<lambda>ver.
                   bindP (decrypt_text m (fs ! 4)) (\<lambda>all. case json_parse_strings all of
                       None \<Rightarrow> Throw (Err ''SyntaxError'' [])
                     | Some allFields \<Rightarrow>
                         if (priv = js ''true'') \<noteq> privileged \<or> ty \<noteq> certType \<or> ver \<noteq> verifier then Ret None
                         else if \<not> set flds \<subseteq> set allFields then Ret None
                         else skip_expired includeExpired (t\<lparr>pt_originator := originator, pt_rawOriginator := Some domain,
                           pt_privileged := Some privileged, pt_verifier := Some ver, pt_certType := Some ty,
                           pt_certFields := Some allFields, pt_expiry := nan0 (js_parseInt expiry)\<rparr>))))))))) outs))
       (origins_to_try originator lookup)"

definition findSpendingToken :: "manager \<Rightarrow> jstr \<Rightarrow> jstr list \<Rightarrow> ('x, perm_token option) pmp" where
  "findSpendingToken m originator lookup =
     firstP (\<lambda>originTag.
       bindP (awaitP (ListOutputsQ (BASKET_MAP SpendingPerm) [js ''originator '' @ originTag]) outputs_of bad_answer)
         (\<lambda>(outs, beef). firstP (\<lambda>out. bindP (token_at m beef out) (\<lambda>(t, flds). case flds of
             None \<Rightarrow> Ret None
           | Some fs \<Rightarrow> if length fs < 2 then Ret None
               else bindP (decrypt_text m (fs ! 0)) (\<lambda>domain.
                 if normalizeOriginator (m_out m) domain \<noteq> originator then Ret None
                 else bindP (decrypt_text m (fs ! 1)) (\<lambda>amt.
                   Ret (Some (t\<lparr>pt_originator := originator, pt_rawOriginator := Some domain,
                     pt_authorizedAmount := js_parseInt amt, pt_expiry := 0\<rparr>)))))) outs))
       (origins_to_try originator lookup)"

definition querySpentSince :: "manager \<Rightarrow> perm_token \<Rightarrow> ('x, int) pmp" where
  "querySpentSince m t =
     bindP (mapP (\<lambda>labelOrigin. bindP (readP (\<lambda>s. currentMonthYearUTC (pm_now s))) (\<lambda>month.
         bindP (awaitP (ListActionsQ [js ''admin originator '' @ labelOrigin, js ''admin month '' @ month]) amounts_of bad_answer)
           (\<lambda>actions. Ret (foldl (\<lambda>a e. a - e) 0 actions))))
       (buildOriginatorLookupValues [pt_rawOriginator t, Some (pt_originator t)]))
     (\<lambda>totals. Ret (sum_list totals))"

end
