(* ===== verification/PermEnsure.thy ===== *)
theory PermEnsure
  imports PermTokens
begin

text \<open>
  Is an originator permitted to do something? The \<open>ensure\<close> methods of \<^verbatim>\<open>src/src/WalletPermissionsManager.ts\<close>
  (section 3) answer from the reserved names, the configuration, the caches and the tokens, and else start the
  flow that asks the user, here the argument \<open>flow\<close>; with \<open>seekPermission\<close> false they throw instead, so the \<open>has\<close>
  methods need no flow. An originator that is undefined is the empty string; \<open>privileged\<close> undefined is false.
\<close>

datatype protocol_usage = Signing | Encrypting | Hmac | PublicKey | IdentityKey | LinkageRevelation | Generic

datatype basket_usage = Insertion | Removal | Listing

datatype label_usage = ApplyLabel | ListLabel

definition protocol_usage_name :: "protocol_usage \<Rightarrow> jstr" where
  "protocol_usage_name u = (case u of Signing \<Rightarrow> js ''signing'' | Encrypting \<Rightarrow> js ''encrypting'' | Hmac \<Rightarrow> js ''hmac''
     | PublicKey \<Rightarrow> js ''publicKey'' | IdentityKey \<Rightarrow> js ''identityKey'' | LinkageRevelation \<Rightarrow> js ''linkageRevelation''
     | Generic \<Rightarrow> js ''generic'')"

definition basket_usage_name :: "basket_usage \<Rightarrow> jstr" where
  "basket_usage_name u = (case u of Insertion \<Rightarrow> js ''insertion'' | Removal \<Rightarrow> js ''removal'' | Listing \<Rightarrow> js ''listing'')"

definition isProtocolUsageTypeExempted :: "perm_config \<Rightarrow> protocol_usage \<Rightarrow> bool" where
  "isProtocolUsageTypeExempted cfg u \<longleftrightarrow>
     u = Signing \<and> \<not> seekProtocolPermissionsForSigning cfg \<or>
     u = Encrypting \<and> \<not> seekProtocolPermissionsForEncrypting cfg \<or>
     u = Hmac \<and> \<not> seekProtocolPermissionsForHMAC cfg \<or>
     u = PublicKey \<and> \<not> seekPermissionsForPublicKeyRevelation cfg \<or>
     u = IdentityKey \<and> \<not> seekPermissionsForIdentityKeyRevelation cfg \<or>
     u = LinkageRevelation \<and> \<not> seekPermissionsForKeyLinkageRevelation cfg"

definition isBasketUsageRequired :: "perm_config \<Rightarrow> basket_usage \<Rightarrow> bool" where
  "isBasketUsageRequired cfg u \<longleftrightarrow>
     \<not> (u = Insertion \<and> \<not> seekBasketInsertionPermissions cfg) \<and>
     \<not> (u = Removal \<and> \<not> seekBasketRemovalPermissions cfg) \<and>
     \<not> (u = Listing \<and> \<not> seekBasketListingPermissions cfg)"

definition level1_counterparty :: "wallet_protocol \<Rightarrow> jstr \<Rightarrow> jstr" where
  "level1_counterparty protocolID counterparty = (if fst protocolID = 1 then [] else counterparty)"

section \<open>Common parts\<close>

definition is_covered :: "jstr \<Rightarrow> ('x, bool) pmp" where
  "is_covered key = bindP (isPermissionCached key) (\<lambda>c. if c then Ret True else isRecentlyGranted key)"

definition cache_found :: "jstr \<Rightarrow> perm_token \<Rightarrow> ('x, bool) pmp" where
  "cache_found key t = Do (\<lambda>s. logE (Found key t) (cachePermission key (pt_expiry t) s)) (\<lambda>_. Ret True)"

text \<open>What the three methods for tokens with an expiry do with the token found: ask for a new one, ask for its
  renewal, or remember it.\<close>

definition use_token ::
  "(perm_request \<Rightarrow> ('x, bool) pmp) \<Rightarrow> jstr \<Rightarrow> perm_request \<Rightarrow> bool \<Rightarrow> pm_error \<Rightarrow> pm_error \<Rightarrow> perm_token option \<Rightarrow> ('x, bool) pmp" where
  "use_token flow key r seekPermission none expired token = (case token of
      None \<Rightarrow> if \<not> seekPermission then Throw none else flow r
    | Some t \<Rightarrow> bindP (readP (isTokenExpired (pt_expiry t))) (\<lambda>e.
        if e then (if \<not> seekPermission then Throw expired else flow (r\<lparr>pr_renewal := True, pr_previousToken := Some t\<rparr>))
        else cache_found key t))"

section \<open>Protocols\<close>

definition protocol_request ::
  "jstr \<Rightarrow> bool \<Rightarrow> wallet_protocol \<Rightarrow> jstr \<Rightarrow> perm_request" where
  "protocol_request originator privileged protocolID counterparty =
     (blank_request ProtocolPerm originator)\<lparr>pr_privileged := Some privileged, pr_protocolID := Some protocolID,
       pr_counterparty := Some counterparty\<rparr>"

definition ensureProtocol_with ::
  "(perm_request \<Rightarrow> ('x, bool) pmp) \<Rightarrow> manager \<Rightarrow> jstr \<Rightarrow> bool \<Rightarrow> wallet_protocol \<Rightarrow> jstr \<Rightarrow> jstr option \<Rightarrow> bool \<Rightarrow>
   protocol_usage \<Rightarrow> ('x, bool) pmp" where
  "ensureProtocol_with flow m originator0 privileged0 protocolID counterparty0 reason seekPermission u =
     (case prepareOriginator (m_out m) originator0 of
        Inl e \<Rightarrow> Throw e
      | Inr (originator, lookup) \<Rightarrow>
          if isAdminOriginator m originator then Ret True
          else if fst protocolID = 0 then Ret True
          else if isAdminProtocol protocolID then Throw (Err ''Protocol is admin-only.'' [snd protocolID])
          else if isProtocolUsageTypeExempted (m_config m) u then Ret True
          else let counterparty = level1_counterparty protocolID counterparty0;
                   privileged = (differentiatePrivilegedOperations (m_config m) \<and> privileged0)
               in if \<not> privileged \<and> isWhitelistedCounterpartyProtocol (m_config m) counterparty protocolID then Ret True
                  else let r = protocol_request originator privileged protocolID counterparty;
                           key = buildRequestKey (m_out m) r
                       in bindP (is_covered key) (\<lambda>c. if c then Ret True
                          else bindP (callP (findProtocolToken m originator privileged protocolID counterparty True lookup))
                            (use_token flow key (r\<lparr>pr_usageType := Some (protocol_usage_name u), pr_reason := reason\<rparr>) seekPermission
                              (Err ''No protocol permission token found (seekPermission=false).'' [])
                              (Err ''Protocol permission expired and no further user consent allowed (seekPermission=false).'' []))))"

section \<open>Baskets\<close>

definition basket_request :: "jstr \<Rightarrow> jstr \<Rightarrow> perm_request" where
  "basket_request originator basket = (blank_request BasketPerm originator)\<lparr>pr_basket := Some basket\<rparr>"

definition ensureBasket_with ::
  "(perm_request \<Rightarrow> ('x, bool) pmp) \<Rightarrow> manager \<Rightarrow> jstr \<Rightarrow> jstr \<Rightarrow> jstr option \<Rightarrow> bool \<Rightarrow> basket_usage \<Rightarrow> ('x, bool) pmp" where
  "ensureBasket_with flow m originator0 basket reason seekPermission u =
     (case prepareOriginator (m_out m) originator0 of
        Inl e \<Rightarrow> Throw e
      | Inr (originator, lookup) \<Rightarrow>
          if isAdminOriginator m originator then Ret True
          else if isAdminBasket basket then Throw (Err ''Basket is admin-only.'' [basket])
          else if \<not> isBasketUsageRequired (m_config m) u then Ret True
          else let r = basket_request originator basket; key = buildRequestKey (m_out m) r
               in bindP (is_covered key) (\<lambda>c. if c then Ret True
                  else bindP (callP (findBasketToken m originator basket True lookup))
                    (use_token flow key (r\<lparr>pr_usageType := Some (basket_usage_name u), pr_reason := reason\<rparr>) seekPermission
                      (Err ''No basket permission found, and no user consent allowed (seekPermission=false).'' [])
                      (Err ''Basket permission expired (seekPermission=false).'' []))))"

section \<open>Certificates\<close>

definition certificate_request :: "jstr \<Rightarrow> bool \<Rightarrow> certificate_ref \<Rightarrow> perm_request" where
  "certificate_request originator privileged c =
     (blank_request CertificatePerm originator)\<lparr>pr_privileged := Some privileged, pr_certificate := Some c\<rparr>"

definition ensureCertificate_with ::
  "(perm_request \<Rightarrow> ('x, bool) pmp) \<Rightarrow> manager \<Rightarrow> jstr \<Rightarrow> bool \<Rightarrow> certificate_ref \<Rightarrow> jstr option \<Rightarrow> bool \<Rightarrow> ('x, bool) pmp" where
  "ensureCertificate_with flow m originator0 privileged0 c reason seekPermission =
     (case prepareOriginator (m_out m) originator0 of
        Inl e \<Rightarrow> Throw e
      | Inr (originator, lookup) \<Rightarrow>
          if isAdminOriginator m originator then Ret True
          else if \<not> seekCertificateDisclosurePermissions (m_config m) then Ret True
          else let privileged = (differentiatePrivilegedOperations (m_config m) \<and> privileged0);
                   r = certificate_request originator privileged c; key = buildRequestKey (m_out m) r
               in bindP (is_covered key) (\<lambda>b. if b then Ret True
                  else bindP (callP (findCertificateToken m originator privileged (ce_verifier c) (ce_certType c) (ce_fields c) True lookup))
                    (use_token flow key (r\<lparr>pr_usageType := Some (js ''disclosure''), pr_reason := reason\<rparr>) seekPermission
                      (Err ''No certificate permission found (seekPermission=false).'' [])
                      (Err ''Certificate permission expired (seekPermission=false).'' []))))"

section \<open>Spending\<close>

definition spending_request :: "jstr \<Rightarrow> int \<Rightarrow> line_item list \<Rightarrow> perm_request" where
  "spending_request originator satoshis items =
     (blank_request SpendingPerm originator)\<lparr>pr_spending := Some \<lparr>sp_satoshis = satoshis, sp_lineItems = items\<rparr>\<rparr>"

definition ensureSpending_with ::
  "(perm_request \<Rightarrow> ('x, bool) pmp) \<Rightarrow> manager \<Rightarrow> jstr \<Rightarrow> int \<Rightarrow> line_item list \<Rightarrow> jstr option \<Rightarrow> bool \<Rightarrow> ('x, bool) pmp" where
  "ensureSpending_with flow m originator0 satoshis items reason seekPermission =
     (case prepareOriginator (m_out m) originator0 of
        Inl e \<Rightarrow> Throw e
      | Inr (originator, lookup) \<Rightarrow>
          if isAdminOriginator m originator then Ret True
          else if \<not> seekSpendingPermissions (m_config m) then Ret True
          else let key = buildRequestKey (m_out m) (spending_request originator satoshis []);
                   r = (spending_request originator satoshis items)\<lparr>pr_reason := reason\<rparr>
               in bindP (isPermissionCached key) (\<lambda>c. if c then Ret True
                  else bindP (callP (findSpendingToken m originator lookup)) (\<lambda>token.
                    case token of
                      None \<Rightarrow> if \<not> seekPermission then Throw (Err ''No spending authorization found, (seekPermission=false).'' []) else flow r
                    | Some t \<Rightarrow>
                        if pt_authorizedAmount t = None \<or> pt_authorizedAmount t = Some 0
                        then (if \<not> seekPermission then Throw (Err ''No spending authorization found, (seekPermission=false).'' []) else flow r)
                        else bindP (callP (querySpentSince m t)) (\<lambda>spentSoFar.
                          if spentSoFar + satoshis \<le> nan0 (pt_authorizedAmount t) then cache_found key t
                          else if \<not> seekPermission
                          then Throw (Err ''Spending authorization insufficient, no user consent (seekPermission=false).'' [js_int satoshis])
                          else flow (r\<lparr>pr_renewal := True, pr_previousToken := Some t\<rparr>)))))"

section \<open>Labels\<close>

definition label_protocol :: "jstr \<Rightarrow> wallet_protocol" where
  "label_protocol label = (1, js ''action label '' @ label)"

definition ensureLabel_with ::
  "(perm_request \<Rightarrow> ('x, bool) pmp) \<Rightarrow> manager \<Rightarrow> jstr \<Rightarrow> jstr \<Rightarrow> jstr option \<Rightarrow> bool \<Rightarrow> label_usage \<Rightarrow> ('x, bool) pmp" where
  "ensureLabel_with flow m originator0 label reason seekPermission u =
     (case prepareOriginator (m_out m) originator0 of
        Inl e \<Rightarrow> Throw e
      | Inr (originator, _) \<Rightarrow>
          if isAdminOriginator m originator then Ret True
          else if isAdminLabel label then Throw (Err ''Label is admin-only.'' [label])
          else if u = ApplyLabel \<and> \<not> seekPermissionWhenApplyingActionLabels (m_config m) then Ret True
          else if u = ListLabel \<and> \<not> seekPermissionWhenListingActionsByLabel (m_config m) then Ret True
          else bindP (isPermissionCached (buildRequestKey (m_out m)
                 (protocol_request originator False (label_protocol label) (js ''self'')))) (\<lambda>c. if c then Ret True
               else callP (ensureProtocol_with flow m originator False (label_protocol label) (js ''self'') reason seekPermission Generic)))"

section \<open>Has a permission\<close>

definition no_flow :: "perm_request \<Rightarrow> ('x, bool) pmp" where
  "no_flow r = Throw bad_answer"

definition succeeds :: "('x, bool) pmp \<Rightarrow> ('x, bool) pmp" where
  "succeeds p = catchP (bindP (callP p) (\<lambda>_. Ret True)) (\<lambda>_. Ret False)"

definition hasProtocolPermission :: "manager \<Rightarrow> jstr \<Rightarrow> bool \<Rightarrow> wallet_protocol \<Rightarrow> jstr \<Rightarrow> ('x, bool) pmp" where
  "hasProtocolPermission m originator privileged protocolID counterparty =
     succeeds (ensureProtocol_with no_flow m originator privileged protocolID counterparty (Some (js ''hasProtocolPermission'')) False Generic)"

definition hasBasketAccess :: "manager \<Rightarrow> jstr \<Rightarrow> jstr \<Rightarrow> ('x, bool) pmp" where
  "hasBasketAccess m originator basket = succeeds (ensureBasket_with no_flow m originator basket None False Insertion)"

definition hasSpendingAuthorization :: "manager \<Rightarrow> jstr \<Rightarrow> int \<Rightarrow> ('x, bool) pmp" where
  "hasSpendingAuthorization m originator satoshis = succeeds (ensureSpending_with no_flow m originator satoshis [] None False)"

definition hasCertificateAccess :: "manager \<Rightarrow> jstr \<Rightarrow> bool \<Rightarrow> certificate_ref \<Rightarrow> ('x, bool) pmp" where
  "hasCertificateAccess m originator privileged c = succeeds (ensureCertificate_with no_flow m originator privileged c None False)"

end
