(* ===== verification/PermFlow.thy ===== *)
theory PermFlow
  imports PermEnsure
begin

text \<open>
  Asking the user (section 3 of \<^verbatim>\<open>src/src/WalletPermissionsManager.ts\<close>): the queue of active requests, the
  permissions of an originator's manifest that are asked for together, and \<open>requestPermissionFlow\<close>.

  A manifest is fetched by the outside, which answers with its groups as far as they are well formed; several
  fetches of one manifest at a time are not merged. Checks the code makes at once (\<open>Promise.all\<close>) are made here
  one after the other.
\<close>

section \<open>Active requests\<close>

definition open_request :: "jstr \<Rightarrow> flow_request \<Rightarrow> ('x, nat) pmp" where
  "open_request key r = Do
     (\<lambda>s. s\<lparr>pm_promises := pm_promises s @ [\<lparr>pr_key = Some key, pr_outcome = None\<rparr>],
            pm_entries := pm_entries s @ [\<lparr>en_key = key, en_request = r, en_pending = [length (pm_promises s)]\<rparr>],
            pm_active := (pm_active s)(key \<mapsto> length (pm_entries s))\<rparr>)
     (\<lambda>s. Ret (length (pm_promises s)))"

definition change_entry :: "nat \<Rightarrow> (active_entry \<Rightarrow> active_entry) \<Rightarrow> pm \<Rightarrow> pm" where
  "change_entry eid f s = (if eid < length (pm_entries s)
     then s\<lparr>pm_entries := (pm_entries s)[eid := f (pm_entries s ! eid)]\<rparr> else s)"

text \<open>\<open>existing.pending.push(...)\<close>, with a change \<open>f\<close> of the request made before it.\<close>

definition join_request :: "nat \<Rightarrow> (flow_request \<Rightarrow> flow_request) \<Rightarrow> ('x, nat) pmp" where
  "join_request eid f = Do
     (\<lambda>s. change_entry eid (\<lambda>e. e\<lparr>en_request := f (en_request e), en_pending := en_pending e @ [length (pm_promises s)]\<rparr>)
        (s\<lparr>pm_promises := pm_promises s @ [\<lparr>pr_key = Some (en_key (pm_entries s ! eid)), pr_outcome = None\<rparr>]\<rparr>))
     (\<lambda>s. Ret (length (pm_promises s)))"

definition settle_promise :: "pm_error + bool \<Rightarrow> promise \<Rightarrow> promise" where
  "settle_promise x p = (if pr_outcome p = None then p\<lparr>pr_outcome := Some x\<rparr> else p)"

definition settle_all :: "nat list \<Rightarrow> pm_error + bool \<Rightarrow> pm \<Rightarrow> pm" where
  "settle_all ws x s = s\<lparr>pm_promises := map (\<lambda>i. if i \<in> set ws then settle_promise x (pm_promises s ! i) else pm_promises s ! i)
     [0..<length (pm_promises s)]\<rparr>"

definition delete_active :: "jstr \<Rightarrow> pm \<Rightarrow> pm" where
  "delete_active key s = s\<lparr>pm_active := (pm_active s)(key := None)\<rparr>"

section \<open>Manifests\<close>

definition manifest_of :: "'x pm_answer \<Rightarrow> (grouped_permissions option \<times> counterparty_permissions option) option" where
  "manifest_of a = (case a of ManifestA g c \<Rightarrow> Some (g, c) | _ \<Rightarrow> None)"

definition fetchManifestPermissions ::
  "jstr \<Rightarrow> ('x, grouped_permissions option \<times> counterparty_permissions option) pmp" where
  "fetchManifestPermissions originator =
     bindP (readP (\<lambda>s. case pm_manifests s originator of
         Some (p, fetchedAt) \<Rightarrow> if pm_now s - fetchedAt < MANIFEST_CACHE_TTL_MS then Some p else None
       | None \<Rightarrow> None)) (\<lambda>cached. case cached of
       Some p \<Rightarrow> Ret p
     | None \<Rightarrow> bindP (catchP (awaitP (ManifestQ originator) manifest_of bad_answer) (\<lambda>_. Ret (None, None))) (\<lambda>p.
         Do (\<lambda>s. s\<lparr>pm_manifests := (pm_manifests s)(originator \<mapsto> (p, pm_now s))\<rparr>) (\<lambda>_. Ret p)))"

definition hasAnyPermissionsToRequest :: "grouped_permissions \<Rightarrow> bool" where
  "hasAnyPermissionsToRequest p \<longleftrightarrow> gr_spending p \<noteq> None \<or> gr_protocols p \<noteq> [] \<or> gr_baskets p \<noteq> [] \<or> gr_certificates p \<noteq> []"

text \<open>Those of the elements for which the check says no.\<close>

definition missing :: "('a \<Rightarrow> ('x, bool) pmp) \<Rightarrow> 'a list \<Rightarrow> ('x, 'a list) pmp" where
  "missing has xs = bindP (mapP (\<lambda>x. bindP (callP (has x)) (\<lambda>b. Ret (if b then [] else [x]))) xs) (\<lambda>xss. Ret (concat xss))"

definition group_certificate_ref :: "group_certificate \<Rightarrow> certificate_ref" where
  "group_certificate_ref c = \<lparr>ce_verifier = gc_verifierPublicKey c, ce_certType = gc_type c, ce_fields = gc_fields c\<rparr>"

definition askable_protocol :: "group_protocol \<Rightarrow> bool" where
  "askable_protocol p \<longleftrightarrow> gp_counterparty p \<noteq> Some [] \<and> \<not> (fst (gp_protocolID p) = 2 \<and> gp_counterparty p = None)"

definition or_self :: "jstr option \<Rightarrow> jstr" where
  "or_self c = (case c of None \<Rightarrow> js ''self'' | Some x \<Rightarrow> x)"

definition filterAlreadyGrantedPermissions :: "manager \<Rightarrow> jstr \<Rightarrow> grouped_permissions \<Rightarrow> ('x, grouped_permissions) pmp" where
  "filterAlreadyGrantedPermissions m originator g =
     bindP (case gr_spending g of None \<Rightarrow> Ret None
       | Some sp \<Rightarrow> bindP (callP (hasSpendingAuthorization m originator (gs_amount sp))) (\<lambda>b. Ret (if b then None else Some sp))) (\<lambda>sp.
     bindP (missing (\<lambda>p. hasProtocolPermission m originator False (gp_protocolID p) (or_self (gp_counterparty p)))
       (filter askable_protocol (gr_protocols g))) (\<lambda>ps.
     bindP (missing (\<lambda>b. hasBasketAccess m originator (gb_basket b)) (gr_baskets g)) (\<lambda>bs.
     bindP (missing (\<lambda>c. hasCertificateAccess m originator False (group_certificate_ref c)) (gr_certificates g)) (\<lambda>cs.
     Ret \<lparr>gr_description = gr_description g, gr_spending = sp, gr_protocols = ps, gr_baskets = bs, gr_certificates = cs\<rparr>))))"

section \<open>One flow per originator\<close>

definition withGroupedPermissionFlowLock :: "jstr \<Rightarrow> ('x, 'a) pmp \<Rightarrow> ('x, 'a) pmp" where
  "withGroupedPermissionFlowLock originator p = Do
     (\<lambda>s. s\<lparr>pm_promises := pm_promises s @ [\<lparr>pr_key = None, pr_outcome = None\<rparr>],
            pm_tails := (pm_tails s)(originator \<mapsto> length (pm_promises s))\<rparr>)
     (\<lambda>s. let gate = length (pm_promises s) in
        bindP (case pm_tails s originator of None \<Rightarrow> yieldP | Some prior \<Rightarrow> Wait prior (\<lambda>_. Ret ())) (\<lambda>_.
        finallyP (callP p) (modifyP (\<lambda>s. let t = settle_all [gate] (Inr True) s
          in if pm_tails t originator = Some gate then t\<lparr>pm_tails := (pm_tails t)(originator := None)\<rparr> else t))))"

section \<open>Groups\<close>

definition checkSpecificPermissionAfterGroupFlow :: "manager \<Rightarrow> perm_request \<Rightarrow> ('x, bool) pmp" where
  "checkSpecificPermissionAfterGroupFlow m r = (case pr_type r of
      ProtocolPerm \<Rightarrow> (case pr_protocolID r of None \<Rightarrow> Throw (Err ''TypeError'' [])
        | Some pid \<Rightarrow> hasProtocolPermission m (pr_originator r) (privileged_of r) pid (or_self (pr_counterparty r)))
    | BasketPerm \<Rightarrow> hasBasketAccess m (pr_originator r) (case pr_basket r of None \<Rightarrow> [] | Some b \<Rightarrow> b)
    | CertificatePerm \<Rightarrow> (case pr_certificate r of None \<Rightarrow> Throw (Err ''TypeError'' [])
        | Some c \<Rightarrow> hasCertificateAccess m (pr_originator r) (privileged_of r) c)
    | SpendingPerm \<Rightarrow> (case pr_spending r of None \<Rightarrow> Throw (Err ''TypeError'' [])
        | Some sp \<Rightarrow> hasSpendingAuthorization m (pr_originator r) (sp_satoshis sp)))"

definition isRequestIncludedInGroupPermissions :: "perm_request \<Rightarrow> grouped_permissions \<Rightarrow> bool" where
  "isRequestIncludedInGroupPermissions r g \<longleftrightarrow> (case pr_type r of
      ProtocolPerm \<Rightarrow> \<not> privileged_of r \<and> (case pr_protocolID r of None \<Rightarrow> False
        | Some pid \<Rightarrow> list_ex (\<lambda>p. askable_protocol p \<and> gp_protocolID p = pid \<and>
            (if fst (gp_protocolID p) = 1 then [] else or_self (gp_counterparty p)) = or_self (pr_counterparty r)) (gr_protocols g))
    | BasketPerm \<Rightarrow> (case pr_basket r of None \<Rightarrow> False
        | Some b \<Rightarrow> b \<noteq> [] \<and> list_ex (\<lambda>x. gb_basket x = b) (gr_baskets g))
    | CertificatePerm \<Rightarrow> \<not> privileged_of r \<and> (case pr_certificate r of None \<Rightarrow> False
        | Some c \<Rightarrow> list_ex (\<lambda>x. set (gc_fields x) = set (ce_fields c) \<and> gc_type x = ce_certType c \<and>
            gc_verifierPublicKey x = ce_verifier c) (gr_certificates g))
    | SpendingPerm \<Rightarrow> gr_spending g \<noteq> None)"

definition add_missing :: "('a \<Rightarrow> 'a \<Rightarrow> bool) \<Rightarrow> 'a list \<Rightarrow> 'a list \<Rightarrow> 'a list" where
  "add_missing same xs ys = foldl (\<lambda>acc y. if list_ex (\<lambda>x. same x y) acc then acc else acc @ [y]) xs ys"

definition merge_group :: "grouped_permissions \<Rightarrow> flow_request \<Rightarrow> flow_request" where
  "merge_group p r = (case r of
      GroupRequest org q d \<Rightarrow> GroupRequest org (q\<lparr>gr_protocols := add_missing (=) (gr_protocols q) (gr_protocols p)\<rparr>) d
    | x \<Rightarrow> x)"

definition joinOrCreateGroupedRequest :: "jstr \<Rightarrow> jstr \<Rightarrow> grouped_permissions \<Rightarrow> jstr option \<Rightarrow> ('x, unit) pmp" where
  "joinOrCreateGroupedRequest key originator p display =
     bindP (readP (\<lambda>s. pm_active s key)) (\<lambda>existing. case existing of
       None \<Rightarrow> bindP (open_request key (GroupRequest originator p display)) (\<lambda>w.
         bindP (callP (callEvent OnGrouped key (GroupRequest originator p None))) (\<lambda>_. bindP (waitP w) (\<lambda>_. Ret ())))
     | Some eid \<Rightarrow> bindP (join_request eid (merge_group p)) (\<lambda>w. bindP (waitP w) (\<lambda>_. Ret ())))"

text \<open>\<open>satisfied ? true : null\<close>\<close>

definition satisfied_now :: "manager \<Rightarrow> perm_request \<Rightarrow> ('x, bool option) pmp" where
  "satisfied_now m r = bindP (callP (checkSpecificPermissionAfterGroupFlow m r)) (\<lambda>b. Ret (if b then Some True else None))"

definition maybeRequestGroupedPermissions :: "manager \<Rightarrow> perm_request \<Rightarrow> ('x, bool option) pmp" where
  "maybeRequestGroupedPermissions m r =
     (if \<not> seekGroupedPermission (m_config m) then Ret None
      else bindP (callP (fetchManifestPermissions (pr_originator r))) (\<lambda>(g, _). case g of
          None \<Rightarrow> Ret None
        | Some g \<Rightarrow> if \<not> isRequestIncludedInGroupPermissions r g then Ret None
            else bindP (callP (filterAlreadyGrantedPermissions m (pr_originator r) g)) (\<lambda>p.
              if \<not> hasAnyPermissionsToRequest p then Ret None
              else bindP (callP (joinOrCreateGroupedRequest (js ''group:'' @ pr_originator r) (pr_originator r) p (pr_displayOriginator r)))
                (\<lambda>_. satisfied_now m r))))"

definition peer_protocols :: "jstr \<Rightarrow> grouped_permissions \<Rightarrow> group_protocol list" where
  "peer_protocols counterparty g =
     filter (\<lambda>p. gp_counterparty p \<noteq> Some [] \<and> gp_counterparty p = Some counterparty)
       (map (\<lambda>p. p\<lparr>gp_counterparty := Some (case gp_counterparty p of None \<Rightarrow> counterparty | Some c \<Rightarrow> c)\<rparr>)
         (filter (\<lambda>p. fst (gp_protocolID p) = 2) (gr_protocols g)))"

definition maybeRequestPeerGroupedLevel2ProtocolPermissions :: "manager \<Rightarrow> perm_request \<Rightarrow> ('x, bool option) pmp" where
  "maybeRequestPeerGroupedLevel2ProtocolPermissions m r =
     bindP (readP (has_handlers OnGrouped)) (\<lambda>handlers.
     case pr_protocolID r of
       None \<Rightarrow> Ret None
     | Some pid \<Rightarrow>
         if \<not> seekGroupedPermission (m_config m) \<or> \<not> handlers \<or> pr_type r \<noteq> ProtocolPerm \<or> fst pid \<noteq> 2 then Ret None
         else let counterparty = or_self (pr_counterparty r) in
           bindP (callP (fetchManifestPermissions (pr_originator r))) (\<lambda>(g, _). case g of
               None \<Rightarrow> Ret None
             | Some g \<Rightarrow> let ps = peer_protocols counterparty g in
                 if \<not> list_ex (\<lambda>p. gp_protocolID p = pid) ps then Ret None
                 else bindP (missing (\<lambda>p. hasProtocolPermission m (pr_originator r) (privileged_of r) (gp_protocolID p)
                        (or_self (gp_counterparty p))) ps) (\<lambda>qs.
                   let p = \<lparr>gr_description = None, gr_spending = None, gr_protocols = qs, gr_baskets = [], gr_certificates = []\<rparr> in
                   if \<not> hasAnyPermissionsToRequest p then Ret None
                   else bindP (callP (joinOrCreateGroupedRequest (js ''group-peer:'' @ pr_originator r @ js '':'' @
                          js_bool (privileged_of r) @ js '':'' @ counterparty) (pr_originator r) p (pr_displayOriginator r)))
                     (\<lambda>_. satisfied_now m r))))"

section \<open>Counterparties\<close>

definition pact_key :: "jstr \<Rightarrow> jstr \<Rightarrow> jstr" where
  "pact_key originator counterparty = originator @ js '':'' @ counterparty"

definition markPactEstablished :: "jstr \<Rightarrow> jstr \<Rightarrow> pm \<Rightarrow> pm" where
  "markPactEstablished originator counterparty s = s\<lparr>pm_pacts := (pm_pacts s)(pact_key originator counterparty \<mapsto> pm_now s)\<rparr>"

definition has_level2 :: "manager \<Rightarrow> jstr \<Rightarrow> jstr \<Rightarrow> counterparty_protocol \<Rightarrow> ('x, bool) pmp" where
  "has_level2 m originator counterparty p = hasProtocolPermission m originator False (2, cp_protocolName p) counterparty"

definition hasPactEstablished :: "manager \<Rightarrow> jstr \<Rightarrow> jstr \<Rightarrow> ('x, bool) pmp" where
  "hasPactEstablished m originator counterparty =
     (if counterparty = js ''self'' \<or> counterparty = js ''anyone'' then Ret True
      else bindP (readP (\<lambda>s. pm_pacts s (pact_key originator counterparty) \<noteq> None)) (\<lambda>known. if known then Ret True
      else bindP (callP (fetchManifestPermissions originator)) (\<lambda>(_, c).
        case (case c of None \<Rightarrow> [] | Some q \<Rightarrow> cq_protocols q) of
          [] \<Rightarrow> Ret True
        | firstProtocol # _ \<Rightarrow> bindP (callP (has_level2 m originator counterparty firstProtocol)) (\<lambda>b.
            if b then Do (markPactEstablished originator counterparty) (\<lambda>_. Ret True) else Ret False))))"

definition merge_pact :: "counterparty_permissions \<Rightarrow> flow_request \<Rightarrow> flow_request" where
  "merge_pact p r = (case r of
      PactRequest org c q d \<Rightarrow> PactRequest org c
        (q\<lparr>cq_protocols := add_missing (\<lambda>x y. cp_protocolName x = cp_protocolName y) (cq_protocols q) (cq_protocols p)\<rparr>) d
    | x \<Rightarrow> x)"

definition joinOrCreatePactRequest ::
  "jstr \<Rightarrow> jstr \<Rightarrow> jstr \<Rightarrow> counterparty_permissions \<Rightarrow> jstr option \<Rightarrow> ('x, unit) pmp" where
  "joinOrCreatePactRequest key originator counterparty p display =
     bindP (readP (\<lambda>s. pm_active s key)) (\<lambda>existing. case existing of
       None \<Rightarrow> bindP (open_request key (PactRequest originator counterparty p display)) (\<lambda>w.
         bindP (callP (callEvent OnCounterparty key (PactRequest originator counterparty p None))) (\<lambda>_. bindP (waitP w) (\<lambda>_. Ret ())))
     | Some eid \<Rightarrow> bindP (join_request eid (merge_pact p)) (\<lambda>w. bindP (waitP w) (\<lambda>_. Ret ())))"

definition is_pubkey :: "jstr \<Rightarrow> bool" where
  "is_pubkey s \<longleftrightarrow> length s = 66 \<and> list_all (\<lambda>c. (48 \<le> c \<and> c \<le> 57) \<or> (97 \<le> c \<and> c \<le> 102) \<or> (65 \<le> c \<and> c \<le> 70)) s"

definition isProtocolInCounterpartyPermissions :: "wallet_protocol \<Rightarrow> counterparty_permissions \<Rightarrow> bool" where
  "isProtocolInCounterpartyPermissions protocolID q \<longleftrightarrow> list_ex (\<lambda>p. cp_protocolName p = snd protocolID) (cq_protocols q)"

definition maybeRequestPact :: "manager \<Rightarrow> perm_request \<Rightarrow> ('x, bool option) pmp" where
  "maybeRequestPact m r =
     bindP (readP (has_handlers OnCounterparty)) (\<lambda>handlers.
     case (pr_protocolID r, pr_counterparty r) of
       (Some pid, Some counterparty) \<Rightarrow>
         if \<not> seekGroupedPermission (m_config m) \<or> \<not> handlers \<or> pr_type r \<noteq> ProtocolPerm \<or> privileged_of r \<or> fst pid \<noteq> 2 \<or>
            counterparty = [] \<or> counterparty = js ''self'' \<or> counterparty = js ''anyone'' \<or> \<not> is_pubkey counterparty then Ret None
         else let originator = pr_originator r in
           bindP (callP (fetchManifestPermissions originator)) (\<lambda>(_, c). case c of
               None \<Rightarrow> Ret None
             | Some q \<Rightarrow>
                 if cq_protocols q = [] \<or> \<not> isProtocolInCounterpartyPermissions pid q then Ret None
                 else bindP (callP (hasPactEstablished m originator counterparty)) (\<lambda>known. if known then Ret None
                 else bindP (missing (has_level2 m originator counterparty) (cq_protocols q)) (\<lambda>ps.
                   if ps = [] then Do (markPactEstablished originator counterparty) (\<lambda>_. Ret None)
                   else bindP (callP (joinOrCreatePactRequest (js ''pact:'' @ originator @ js '':'' @ counterparty) originator counterparty
                          \<lparr>cq_description = cq_description q, cq_protocols = ps\<rparr> (pr_displayOriginator r))) (\<lambda>_.
                     bindP (modifyP (markPactEstablished originator counterparty)) (\<lambda>_.
                     bindP (callP (hasProtocolPermission m originator False pid counterparty)) (\<lambda>b.
                     Ret (if b then Some True else None)))))))
     | _ \<Rightarrow> Ret None)"

section \<open>The flow\<close>

definition prepared_request :: "manager \<Rightarrow> perm_request \<Rightarrow> perm_request" where
  "prepared_request m r =
     (let n = normalizeOriginator (m_out m) (pr_originator r);
          p = r\<lparr>pr_originator := (if n = [] then pr_originator r else n),
                pr_displayOriginator := (case pr_displayOriginator r of Some d \<Rightarrow> Some d
                  | None \<Rightarrow> (case (case pr_previousToken r of None \<Rightarrow> None | Some t \<Rightarrow> pt_rawOriginator t) of
                      Some d \<Rightarrow> Some d | None \<Rightarrow> Some (pr_originator r)))\<rparr>
      in if pr_type p = ProtocolPerm \<and> map_option fst (pr_protocolID p) = Some 1 then p\<lparr>pr_counterparty := Some []\<rparr> else p)"

text \<open>An active entry always has pending promises, so looking for the entry is enough: \<open>isPiggybacking\<close>.\<close>

definition isPiggybacking :: "jstr \<Rightarrow> pm \<Rightarrow> nat option" where
  "isPiggybacking key s = (case pm_active s key of None \<Rightarrow> None
     | Some eid \<Rightarrow> if eid < length (pm_entries s) \<and> en_pending (pm_entries s ! eid) \<noteq> [] then Some eid else None)"

definition piggybackOnExistingQueue :: "nat \<Rightarrow> ('x, bool) pmp" where
  "piggybackOnExistingQueue eid = bindP (join_request eid id) waitP"

definition resolveGroupedFlow :: "manager \<Rightarrow> perm_request \<Rightarrow> ('x, bool option) pmp" where
  "resolveGroupedFlow m r =
     bindP (readP (\<lambda>s. seekGroupedPermission (m_config m) \<and> pm_tails s (pr_originator r) \<noteq> None)) (\<lambda>hadPending.
     bindP (callP (if seekGroupedPermission (m_config m)
            then withGroupedPermissionFlowLock (pr_originator r) (maybeRequestGroupedPermissions m r)
            else maybeRequestGroupedPermissions m r)) (\<lambda>groupResult.
       if groupResult \<noteq> None then Ret groupResult
       else if hadPending then satisfied_now m r else Ret None))"

definition event_of :: "perm_type \<Rightarrow> pm_callback" where
  "event_of ty = (case ty of ProtocolPerm \<Rightarrow> OnProtocol | BasketPerm \<Rightarrow> OnBasket | CertificatePerm \<Rightarrow> OnCertificate
     | SpendingPerm \<Rightarrow> OnSpending)"

definition firePermissionRequestEvent :: "perm_request \<Rightarrow> jstr \<Rightarrow> ('x, unit) pmp" where
  "firePermissionRequestEvent r key = callEvent (event_of (pr_type r)) key
     (SingleRequest (if pr_type r = ProtocolPerm \<and> map_option fst (pr_protocolID r) = Some 1 then r\<lparr>pr_counterparty := None\<rparr> else r))"

text \<open>The \<open>catch\<close> around the event is left out: \<open>callEvent\<close> throws nothing.\<close>

definition enqueueAndFireEvent :: "perm_request \<Rightarrow> jstr \<Rightarrow> ('x, bool) pmp" where
  "enqueueAndFireEvent r key =
     bindP (open_request key (SingleRequest r)) (\<lambda>w. bindP (callP (firePermissionRequestEvent r key)) (\<lambda>_. waitP w))"

definition piggyback_or :: "jstr \<Rightarrow> ('x, bool) pmp \<Rightarrow> ('x, bool) pmp" where
  "piggyback_or key p = bindP (readP (isPiggybacking key)) (\<lambda>e. case e of Some eid \<Rightarrow> piggybackOnExistingQueue eid | None \<Rightarrow> p)"

definition requestPermissionFlow :: "manager \<Rightarrow> perm_request \<Rightarrow> ('x, bool) pmp" where
  "requestPermissionFlow m r0 =
     (let r = prepared_request m r0; key = buildActiveRequestKey (m_out m) r in
      piggyback_or key
        (bindP (callP (maybeRequestPact m r)) (\<lambda>pact. case pact of Some b \<Rightarrow> Ret b | None \<Rightarrow>
         bindP (callP (maybeRequestPeerGroupedLevel2ProtocolPermissions m r)) (\<lambda>peer. case peer of Some b \<Rightarrow> Ret b | None \<Rightarrow>
         bindP (callP (resolveGroupedFlow m r)) (\<lambda>grp. case grp of Some b \<Rightarrow> Ret b | None \<Rightarrow>
         piggyback_or key (enqueueAndFireEvent r key))))))"

section \<open>The public methods\<close>

definition flow_call :: "manager \<Rightarrow> perm_request \<Rightarrow> ('x, bool) pmp" where
  "flow_call m r = callP (requestPermissionFlow m r)"

definition ensureProtocolPermission ::
  "manager \<Rightarrow> jstr \<Rightarrow> bool \<Rightarrow> wallet_protocol \<Rightarrow> jstr \<Rightarrow> jstr option \<Rightarrow> bool \<Rightarrow> protocol_usage \<Rightarrow> ('x, bool) pmp" where
  "ensureProtocolPermission m = ensureProtocol_with (flow_call m) m"

definition ensureBasketAccess :: "manager \<Rightarrow> jstr \<Rightarrow> jstr \<Rightarrow> jstr option \<Rightarrow> bool \<Rightarrow> basket_usage \<Rightarrow> ('x, bool) pmp" where
  "ensureBasketAccess m = ensureBasket_with (flow_call m) m"

definition ensureCertificateAccess :: "manager \<Rightarrow> jstr \<Rightarrow> bool \<Rightarrow> certificate_ref \<Rightarrow> jstr option \<Rightarrow> bool \<Rightarrow> ('x, bool) pmp" where
  "ensureCertificateAccess m = ensureCertificate_with (flow_call m) m"

definition ensureSpendingAuthorization ::
  "manager \<Rightarrow> jstr \<Rightarrow> int \<Rightarrow> line_item list \<Rightarrow> jstr option \<Rightarrow> bool \<Rightarrow> ('x, bool) pmp" where
  "ensureSpendingAuthorization m = ensureSpending_with (flow_call m) m"

definition ensureLabelAccess :: "manager \<Rightarrow> jstr \<Rightarrow> jstr \<Rightarrow> jstr option \<Rightarrow> bool \<Rightarrow> label_usage \<Rightarrow> ('x, bool) pmp" where
  "ensureLabelAccess m = ensureLabel_with (flow_call m) m"

end
