(* ===== verification/PermActions.thy ===== *)
theory PermActions
  imports PermFlow
begin

text \<open>
  \<open>createAction\<close> with its gates, and the transactions that create, renew and revoke permission tokens (sections 5
  to 7 of \<^verbatim>\<open>src/src/WalletPermissionsManager.ts\<close>). A method of an undefined originator takes \<open>None\<close>; \<open>createAction\<close>
  writes its encrypted texts into the arguments it was given, here a new value. What the code does at once
  (\<open>Promise.all\<close>, \<open>mapWithConcurrency\<close>) is done here one after the other.
\<close>

section \<open>Permission modules\<close>

definition P_PREFIX :: jstr where "P_PREFIX = js ''p ''"

definition addPModuleByScheme :: "manager \<Rightarrow> jstr \<Rightarrow> string \<Rightarrow> jstr list \<Rightarrow> pm_error + jstr list" where
  "addPModuleByScheme m schemeID kind mods =
     (if schemeID \<in> set mods then Inr mods
      else if schemeID \<notin> set (permissionModules (m_config m)) then Inl (Err ''Unsupported P-module scheme'' [js kind, schemeID])
      else Inr (mods @ [schemeID]))"

definition scheme_of :: "jstr \<Rightarrow> jstr" where
  "scheme_of name = js_split 32 name ! 1"

definition invalid_label :: "jstr \<Rightarrow> pm_error" where
  "invalid_label label = Err ''Invalid P-label format: '' [label]"

text \<open>The module id of a label that begins with \<open>p\<close> and a space.\<close>

definition label_scheme :: "jstr \<Rightarrow> pm_error + jstr" where
  "label_scheme label = (let remainder = drop 2 label in case index_of 32 remainder of
      None \<Rightarrow> Inl (invalid_label label)
    | Some i \<Rightarrow> if i = 0 \<or> i = length remainder - 1 then Inl (invalid_label label)
        else if remainder ! (i + 1) = 32 then Inl (invalid_label label)
        else Inr (take i remainder))"

fun splitLabelsByPermissionModule :: "manager \<Rightarrow> jstr list \<Rightarrow> jstr list \<Rightarrow> pm_error + jstr list \<times> jstr list" where
  "splitLabelsByPermissionModule m [] mods = Inr (mods, [])"
| "splitLabelsByPermissionModule m (label # labels) mods =
     (if startsWith label P_PREFIX
      then bindE (label_scheme label) (\<lambda>schemeID. bindE (addPModuleByScheme m schemeID ''label'' mods)
             (splitLabelsByPermissionModule m labels))
      else bindE (splitLabelsByPermissionModule m labels mods) (\<lambda>(mods', rest). Inr (mods', label # rest)))"

fun collectNonPBaskets :: "manager \<Rightarrow> action_output list \<Rightarrow> jstr list \<Rightarrow> pm_error + jstr list \<times> jstr list" where
  "collectNonPBaskets m [] mods = Inr (mods, [])"
| "collectNonPBaskets m (out # outs) mods = (case ao_basket out of
      None \<Rightarrow> collectNonPBaskets m outs mods
    | Some basket \<Rightarrow>
        if basket = [] then collectNonPBaskets m outs mods
        else if startsWith basket P_PREFIX
        then bindE (addPModuleByScheme m (scheme_of basket) ''basket'' mods) (collectNonPBaskets m outs)
        else bindE (collectNonPBaskets m outs mods) (\<lambda>(mods', rest). Inr (mods', basket # rest)))"

section \<open>Actions\<close>

definition action_of :: "'x pm_answer \<Rightarrow> action_result option" where
  "action_of a = (case a of ActionA r \<Rightarrow> Some r | _ \<Rightarrow> None)"

definition action_args_of :: "'x pm_answer \<Rightarrow> action_args option" where
  "action_args_of a = (case a of ActionArgsA r \<Rightarrow> Some r | _ \<Rightarrow> None)"

definition script_of :: "'x pm_answer \<Rightarrow> jstr option" where
  "script_of a = (case a of ScriptA s \<Rightarrow> Some s | _ \<Rightarrow> None)"

definition or_empty :: "jstr option \<Rightarrow> jstr" where
  "or_empty x = (case x of None \<Rightarrow> [] | Some s \<Rightarrow> s)"

definition enforceSignAndProcess :: "manager \<Rightarrow> action_options \<Rightarrow> jstr option \<Rightarrow> pm_error + action_options" where
  "enforceSignAndProcess m opts originator =
     (if op_signAndProcess opts \<noteq> Some True then Inr (opts\<lparr>op_signAndProcess := Some False\<rparr>)
      else if \<not> isAdminOriginator m (or_empty originator)
      then Inl (Err ''Only the admin originator can set signAndProcess=true explicitly.'' [])
      else Inr opts)"

text \<open>The empty text is not encrypted, but an empty description is.\<close>

definition encrypt_text :: "manager \<Rightarrow> jstr \<Rightarrow> ('x, jstr) pmp" where
  "encrypt_text m s = (if s = [] then Ret [] else callP (maybeEncryptMetadata m s))"

definition encrypt_instructions :: "manager \<Rightarrow> jstr option \<Rightarrow> ('x, jstr option) pmp" where
  "encrypt_instructions m c = (case c of None \<Rightarrow> Ret None | Some s \<Rightarrow> bindP (encrypt_text m s) (\<lambda>t. Ret (Some t)))"

definition encryptActionMetadata :: "manager \<Rightarrow> action_args \<Rightarrow> ('x, action_args) pmp" where
  "encryptActionMetadata m args =
     bindP (mapP (\<lambda>i. bindP (encrypt_text m (ai_inputDescription i)) (\<lambda>d. Ret (i\<lparr>ai_inputDescription := d\<rparr>))) (aa_inputs args)) (\<lambda>ins.
     bindP (mapP (\<lambda>out. bindP (encrypt_text m (ao_outputDescription out)) (\<lambda>d.
         bindP (encrypt_instructions m (ao_customInstructions out)) (\<lambda>c.
         Ret (out\<lparr>ao_outputDescription := d, ao_customInstructions := c\<rparr>)))) (aa_outputs args)) (\<lambda>outs.
     bindP (callP (maybeEncryptMetadata m (aa_description args))) (\<lambda>d.
     Ret (args\<lparr>aa_description := d, aa_inputs := ins, aa_outputs := outs\<rparr>))))"

text \<open>The requests of the modules in their order, the responses in the opposite order.\<close>

fun chain_requests :: "jstr \<Rightarrow> jstr list \<Rightarrow> action_args \<Rightarrow> ('x, action_args) pmp" where
  "chain_requests originator [] args = Ret args"
| "chain_requests originator (s # mods) args =
     bindP (awaitP (ModuleActionQ s args originator) action_args_of bad_answer) (chain_requests originator mods)"

fun chain_results :: "jstr \<Rightarrow> jstr list \<Rightarrow> action_result \<Rightarrow> ('x, action_result) pmp" where
  "chain_results originator [] r = Ret r"
| "chain_results originator (s # mods) r =
     bindP (awaitP (ModuleResultQ s r originator) action_of bad_answer) (chain_results originator mods)"

definition callCreateActionWithPModules :: "action_args \<Rightarrow> jstr list \<Rightarrow> jstr option \<Rightarrow> ('x, action_result) pmp" where
  "callCreateActionWithPModules args mods originator =
     bindP (chain_requests (or_empty originator) mods args) (\<lambda>args'.
     bindP (awaitP (CreateActionQ args' originator mods) action_of bad_answer) (chain_results (or_empty originator) (rev mods)))"

section \<open>Net spend\<close>

definition outpoint_of :: "jstr \<Rightarrow> int \<Rightarrow> jstr" where
  "outpoint_of txid i = txid @ js ''.'' @ js_int i"

definition or_text :: "jstr \<Rightarrow> string \<Rightarrow> jstr" where
  "or_text s d = (if s = [] then js d else s)"

text \<open>The inputs of the transaction that the originator gave, with the descriptions it gave them.\<close>

definition input_items :: "action_input list \<Rightarrow> (jstr \<times> nat \<times> int) list \<Rightarrow> line_item list" where
  "input_items given ins = concat (map (\<lambda>(txid, i, satoshis).
     case index_of (outpoint_of txid (int i)) (map ai_outpoint given) of
       None \<Rightarrow> []
     | Some j \<Rightarrow> [\<lparr>li_type = InputItem, li_description = or_text (ai_inputDescription (given ! j)) ''No input description provided'',
                   li_satoshis = satoshis\<rparr>]) ins)"

definition output_items :: "action_output list \<Rightarrow> line_item list" where
  "output_items outs = map (\<lambda>out. \<lparr>li_type = OutputItem,
     li_description = or_text (ao_outputDescription out) ''No output description provided'', li_satoshis = ao_satoshis out\<rparr>) outs"

definition computeNetSpend :: "tx_view \<Rightarrow> action_args \<Rightarrow> int \<times> line_item list" where
  "computeNetSpend tx args =
     (let ins = input_items (aa_inputs args) (tv_inputs tx);
          totalInputSatoshis = sum_list (map li_satoshis ins);
          totalOutputSatoshis = sum_list (map ao_satoshis (aa_outputs args));
          fee = tv_fee tx
      in (totalOutputSatoshis + fee - totalInputSatoshis,
          ins @ output_items (aa_outputs args) @ [\<lparr>li_type = FeeItem, li_description = js ''Network fee'', li_satoshis = fee\<rparr>]))"

section \<open>Creating an action\<close>

definition sign_merge :: "action_result \<Rightarrow> action_result \<Rightarrow> action_result" where
  "sign_merge r s = \<lparr>ar_txid = (case ar_txid s of None \<Rightarrow> ar_txid r | Some t \<Rightarrow> Some t),
     ar_tx = (case ar_tx s of None \<Rightarrow> ar_tx r | Some t \<Rightarrow> Some t), ar_signable = None\<rparr>"

definition admin_labels :: "jstr option \<Rightarrow> int \<Rightarrow> jstr list" where
  "admin_labels originator now = [js ''admin originator '' @ js_opt originator, js ''admin month '' @ currentMonthYearUTC now]"

text \<open>What comes after the wallet's answer: the spending gate, then the signing.\<close>

definition finish_action :: "manager \<Rightarrow> action_args \<Rightarrow> action_args \<Rightarrow> jstr option \<Rightarrow> action_result \<Rightarrow> ('x, action_result) pmp" where
  "finish_action m args encrypted originator result = (case ar_signable result of
      None \<Rightarrow> Ret result
    | Some (tx, reference) \<Rightarrow>
        let (netSpent, lineItems) = computeNetSpend (o_tx_view (m_out m) tx) args in
        bindP (whenP (0 < netSpent) (catchP
          (bindP (callP (ensureSpendingAuthorization m (or_empty originator) netSpent lineItems (Some (aa_description args)) True)) (\<lambda>_. Ret ()))
          (\<lambda>err. bindP (awaitP (AbortActionQ reference) (\<lambda>_. Some ()) bad_answer) (\<lambda>_. Throw err)))) (\<lambda>_.
        case o_isSignAction (m_out m) encrypted of
          None \<Rightarrow> Throw (Err ''WERR_INVALID_PARAMETER'' [])
        | Some True \<Rightarrow> Ret result
        | Some False \<Rightarrow> bindP (awaitP (SignActionQ reference [] (Some (aa_options args)) originator (Some netSpent)) action_of bad_answer)
            (\<lambda>signed. Ret (sign_merge result signed))))"

definition createAction :: "manager \<Rightarrow> action_args \<Rightarrow> jstr option \<Rightarrow> ('x, action_result) pmp" where
  "createAction m args originator =
     (case bindE (collectNonPBaskets m (aa_outputs args) []) (\<lambda>(mods, baskets).
             bindE (splitLabelsByPermissionModule m (aa_labels args) mods) (\<lambda>(mods', labels). Inr (mods', baskets, labels))) of
        Inl e \<Rightarrow> Throw e
      | Inr (mods, baskets, labels) \<Rightarrow>
          bindP (eachP (\<lambda>b. bindP (callP (ensureBasketAccess m (or_empty originator) b (Some (aa_description args)) True Insertion))
            (\<lambda>_. Ret ())) baskets) (\<lambda>_.
          bindP (eachP (\<lambda>l. bindP (callP (ensureLabelAccess m (or_empty originator) l (Some (aa_description args)) True ApplyLabel))
            (\<lambda>_. Ret ())) labels) (\<lambda>_.
          case enforceSignAndProcess m (aa_options args) originator of
            Inl e \<Rightarrow> Throw e
          | Inr opts \<Rightarrow>
              bindP (callP (encryptActionMetadata m args)) (\<lambda>encrypted.
              bindP (readP (\<lambda>s. encrypted\<lparr>aa_options := opts, aa_labels := aa_labels args @ admin_labels originator (pm_now s)\<rparr>)) (\<lambda>finalArgs.
              bindP (callP (callCreateActionWithPModules finalArgs mods originator)) (finish_action m args encrypted originator))))))"

section \<open>Batches\<close>

function (sequential) runBestEffortChunk :: "('a list \<Rightarrow> ('x, 'b list) pmp) \<Rightarrow> 'a list \<Rightarrow> ('x, 'b list) pmp" where
  "runBestEffortChunk runChunk chunk = catchP (callP (runChunk chunk)) (\<lambda>e.
     if length chunk \<le> 1 then Ret []
     else let mid = (length chunk + 1) div 2 in
       bindP (callP (runBestEffortChunk runChunk (take mid chunk))) (\<lambda>left.
       bindP (callP (runBestEffortChunk runChunk (drop mid chunk))) (\<lambda>right. Ret (left @ right))))"
  by pat_completeness auto
termination by (relation "measure (\<lambda>(_, chunk). length chunk)") auto

declare runBestEffortChunk.simps [simp del]

text \<open>Chunks of \<open>k + 1\<close> elements.\<close>

function (sequential) runBestEffortBatches :: "nat \<Rightarrow> ('a list \<Rightarrow> ('x, 'b list) pmp) \<Rightarrow> 'a list \<Rightarrow> ('x, 'b list) pmp" where
  "runBestEffortBatches k runChunk [] = Ret []"
| "runBestEffortBatches k runChunk items =
     bindP (callP (runBestEffortChunk runChunk (take (k + 1) items))) (\<lambda>out.
     bindP (runBestEffortBatches k runChunk (drop (k + 1) items)) (\<lambda>rest. Ret (out @ rest)))"
  by pat_completeness auto
termination by (relation "measure (\<lambda>(_, _, items). length items)") auto

section \<open>New tokens\<close>

definition type_name :: "perm_type \<Rightarrow> jstr" where
  "type_name ty = (case ty of ProtocolPerm \<Rightarrow> js ''protocol'' | BasketPerm \<Rightarrow> js ''basket'' | CertificatePerm \<Rightarrow> js ''certificate''
     | SpendingPerm \<Rightarrow> js ''spending'')"

text \<open>The code writes the normalised originator into the request; here the request is answered with it. Every
  request has a type with a basket.\<close>

definition normalized_request :: "manager \<Rightarrow> perm_request \<Rightarrow> perm_request" where
  "normalized_request m r = (let n = normalizeOriginator (m_out m) (pr_originator r) in if n = [] then r else r\<lparr>pr_originator := n\<rparr>)"

definition token_script :: "manager \<Rightarrow> perm_request \<Rightarrow> int \<Rightarrow> int option \<Rightarrow> ('x, jstr) pmp" where
  "token_script m r expiry amount = bindP (callP (buildPushdropFields m r expiry amount)) (\<lambda>flds. awaitP (LockQ flds) script_of bad_answer)"

definition token_output :: "jstr \<Rightarrow> jstr \<Rightarrow> perm_request \<Rightarrow> action_output" where
  "token_output script description r =
     \<lparr>ao_lockingScript = script, ao_satoshis = 1, ao_outputDescription = description, ao_basket = Some (BASKET_MAP (pr_type r)),
      ao_customInstructions = None, ao_tags = buildTagsForRequest r\<rparr>"

definition delayed :: action_options where
  "delayed = \<lparr>op_signAndProcess = None, op_acceptDelayedBroadcast = Some True, op_randomizeOutputs = None\<rparr>"

definition delayed_unsigned :: action_options where
  "delayed_unsigned = delayed\<lparr>op_signAndProcess := Some False, op_randomizeOutputs := Some False\<rparr>"

definition plain_action :: "jstr \<Rightarrow> action_output list \<Rightarrow> action_args" where
  "plain_action description outs = \<lparr>aa_description = description, aa_inputBEEF = None, aa_inputs = [], aa_outputs = outs,
     aa_labels = [], aa_options = delayed\<rparr>"

definition as_admin :: "manager \<Rightarrow> action_args \<Rightarrow> ('x, action_result) pmp" where
  "as_admin m args = callP (createAction m args (Some (m_admin m)))"

definition createPermissionOnChain :: "manager \<Rightarrow> perm_request \<Rightarrow> int \<Rightarrow> int option \<Rightarrow> ('x, perm_request) pmp" where
  "createPermissionOnChain m r0 expiry amount =
     (let r = normalized_request m r0 in
      bindP (token_script m r expiry amount) (\<lambda>script.
      bindP (as_admin m (plain_action (js ''Grant '' @ type_name (pr_type r) @ js '' permission'')
        [token_output script (type_name (pr_type r) @ js '' permission token'') r])) (\<lambda>_. Ret r)))"

definition buildPermissionOutput :: "manager \<Rightarrow> perm_request \<Rightarrow> int \<Rightarrow> int option \<Rightarrow> ('x, action_output \<times> perm_request) pmp" where
  "buildPermissionOutput m r0 expiry amount =
     (let r = normalized_request m r0 in
      bindP (token_script m r expiry amount) (\<lambda>script. Ret (token_output script (type_name (pr_type r) @ js '' permission token'') r, r)))"

text \<open>What is to be created: the request, the expiry, the amount; to be renewed: with the old token.\<close>

type_synonym creation = "perm_request \<times> int \<times> int option"

definition build_all :: "manager \<Rightarrow> creation list \<Rightarrow> ('x, (action_output \<times> perm_request) list) pmp" where
  "build_all m chunk = mapP (\<lambda>(r, expiry, amount). callP (buildPermissionOutput m r expiry amount)) chunk"

definition create_chunk :: "manager \<Rightarrow> creation list \<Rightarrow> ('x, perm_request list) pmp" where
  "create_chunk m chunk =
     bindP (build_all m chunk) (\<lambda>built.
     bindP (as_admin m (plain_action (js ''Grant '' @ dec_digits (length built) @ js '' permissions'') (map fst built))) (\<lambda>_.
     Ret (map snd built)))"

definition createPermissionTokensBestEffort :: "manager \<Rightarrow> creation list \<Rightarrow> ('x, perm_request list) pmp" where
  "createPermissionTokensBestEffort m items = runBestEffortBatches 24 (create_chunk m) items"

section \<open>Spending tokens\<close>

definition token_outpoint :: "perm_token \<Rightarrow> jstr" where
  "token_outpoint t = outpoint_of (pt_txid t) (pt_outputIndex t)"

text \<open>One input for every token, described by a text and its number.\<close>

definition token_inputs :: "int \<Rightarrow> string \<Rightarrow> perm_token list \<Rightarrow> action_input list" where
  "token_inputs len description tokens = map (\<lambda>(i, t). \<lparr>ai_outpoint = token_outpoint t, ai_unlockingScriptLength = Some len,
     ai_inputDescription = js description @ dec_digits (i + 1)\<rparr>) (List.enumerate 0 tokens)"

definition merged_beef :: "manager \<Rightarrow> perm_token list \<Rightarrow> nat list" where
  "merged_beef m tokens = o_mergeBeef (m_out m) (map pt_tx tokens)"

definition signable_of :: "action_result \<Rightarrow> pm_error + nat list \<times> jstr" where
  "signable_of r = (case ar_signable r of
      Some (tx, reference) \<Rightarrow> if reference = [] then Inl (Err ''Failed to create signable transaction'' []) else Inr (tx, reference)
    | None \<Rightarrow> Inl (Err ''Failed to create signable transaction'' []))"

definition unlock_input :: "nat list \<Rightarrow> perm_token \<Rightarrow> nat \<Rightarrow> ('x, nat \<times> jstr) pmp" where
  "unlock_input tx t i = bindP (awaitP (UnlockQ (pt_outputScript t) tx i) script_of bad_answer) (\<lambda>script. Ret (i, script))"

text \<open>\<open>spends[i] = \<dots>\<close> in order: of two entries for an index the later one stays.\<close>

fun spends_record :: "(nat \<times> jstr) list \<Rightarrow> (nat \<times> jstr) list" where
  "spends_record [] = []"
| "spends_record ((i, s) # xs) = (if i \<in> fst ` set xs then spends_record xs else (i, s) # spends_record xs)"

definition finalize :: "jstr \<Rightarrow> (nat \<times> jstr) list \<Rightarrow> string \<Rightarrow> ('x, jstr) pmp" where
  "finalize reference spends failure =
     bindP (awaitP (SignActionQ reference (spends_record spends) None None None) action_of bad_answer) (\<lambda>r.
     case ar_txid r of None \<Rightarrow> Throw (Err failure []) | Some txid \<Rightarrow> if txid = [] then Throw (Err failure []) else Ret txid)"

definition spend_tokens :: "perm_token list \<Rightarrow> string \<Rightarrow> action_result \<Rightarrow> ('x, jstr) pmp" where
  "spend_tokens tokens failure result = (case signable_of result of
      Inl e \<Rightarrow> Throw e
    | Inr (tx, reference) \<Rightarrow>
        bindP (mapP (\<lambda>(i, t). unlock_input tx t i) (List.enumerate 0 tokens)) (\<lambda>spends. finalize reference spends failure))"

section \<open>Renewal\<close>

type_synonym renewal = "perm_token \<times> creation"

definition renew_chunk :: "manager \<Rightarrow> renewal list \<Rightarrow> ('x, perm_request list) pmp" where
  "renew_chunk m chunk =
     bindP (build_all m (map snd chunk)) (\<lambda>built.
     bindP (as_admin m \<lparr>aa_description = js ''Renew '' @ dec_digits (length chunk) @ js '' permissions'',
         aa_inputBEEF = Some (merged_beef m (map fst chunk)),
         aa_inputs = token_inputs 73 ''Consume old permission token #'' (map fst chunk),
         aa_outputs = map fst built, aa_labels = [], aa_options = delayed_unsigned\<rparr>) (\<lambda>result.
     bindP (spend_tokens (map fst chunk) ''Failed to finalize renewal transaction'' result) (\<lambda>_. Ret (map snd built))))"

definition renewPermissionTokensBestEffort :: "manager \<Rightarrow> renewal list \<Rightarrow> ('x, perm_request list) pmp" where
  "renewPermissionTokensBestEffort m items = runBestEffortBatches 14 (renew_chunk m) items"

definition coalescePermissionTokens :: "manager \<Rightarrow> perm_token list \<Rightarrow> jstr \<Rightarrow> jstr list \<Rightarrow> jstr \<Rightarrow> jstr \<Rightarrow> ('x, jstr) pmp" where
  "coalescePermissionTokens m oldTokens newScript tags basket description =
     (if oldTokens = [] then Throw (Err ''No permission tokens to coalesce'' [])
      else if length oldTokens < 2 then Throw (Err ''Need at least 2 tokens to coalesce'' [])
      else bindP (as_admin m \<lparr>aa_description = description, aa_inputBEEF = Some (merged_beef m oldTokens),
          aa_inputs = token_inputs 74 ''Consume permission token #'' oldTokens,
          aa_outputs = [\<lparr>ao_lockingScript = newScript, ao_satoshis = 1, ao_outputDescription = js ''Renewed permission token'',
            ao_basket = Some basket, ao_customInstructions = None, ao_tags = tags\<rparr>],
          aa_labels = [], aa_options = delayed_unsigned\<rparr>)
        (spend_tokens oldTokens ''Failed to finalize coalescing transaction''))"

text \<open>\<open>findAllProtocolTokens\<close> is called for tokens of every type: for one without a protocol it decrypts what it
  finds and matches nothing.\<close>

definition search_without_protocol :: "manager \<Rightarrow> bool \<Rightarrow> jstr list \<Rightarrow> ('x, unit) pmp" where
  "search_without_protocol m privileged lookup = eachP (\<lambda>originTag.
     bindP (awaitP (ListOutputsQ (BASKET_MAP ProtocolPerm) [js ''originator '' @ originTag, js ''privileged '' @ js_bool privileged,
         js ''protocolName undefined'', js ''protocolSecurityLevel undefined'']) outputs_of bad_answer)
       (\<lambda>(outs, beef). eachP (\<lambda>out. bindP (token_at m beef out) (\<lambda>(t, flds). case flds of
           None \<Rightarrow> Ret ()
         | Some fs \<Rightarrow> if length fs < 6 then Ret () else bindP (decryptProtocolTokenFields m fs) (\<lambda>_. Ret ()))) outs)) lookup"

definition old_protocol_tokens :: "manager \<Rightarrow> perm_token \<Rightarrow> ('x, perm_token list) pmp" where
  "old_protocol_tokens m t =
     (let lookup = origins_to_try (pt_originator t) (buildOriginatorLookupValues [pt_rawOriginator t, Some (pt_originator t)]);
          privileged = (pt_privileged t = Some True)
      in case (pt_securityLevel t, pt_protocol t) of
           (Some secLevel, Some protoName) \<Rightarrow>
             findAllProtocolTokens m (pt_originator t) privileged (secLevel, protoName) (js_opt (pt_counterparty t)) lookup
         | _ \<Rightarrow> bindP (search_without_protocol m privileged lookup) (\<lambda>_. Ret []))"

definition renewPermissionOnChain :: "manager \<Rightarrow> perm_token \<Rightarrow> perm_request \<Rightarrow> int \<Rightarrow> int option \<Rightarrow> ('x, perm_request) pmp" where
  "renewPermissionOnChain m oldToken r0 newExpiry newAmount =
     (let r = normalized_request m r0; ty = type_name (pr_type r) in
      bindP (token_script m r newExpiry newAmount) (\<lambda>newScript.
      bindP (callP (old_protocol_tokens m oldToken)) (\<lambda>oldTokens.
      if 1 < length oldTokens
      then bindP (callP (coalescePermissionTokens m oldTokens newScript (buildTagsForRequest r) (BASKET_MAP (pr_type r))
             (js ''Coalesce '' @ ty @ js '' permission tokens''))) (\<lambda>_. Ret r)
      else bindP (as_admin m \<lparr>aa_description = js ''Renew '' @ ty @ js '' permission'', aa_inputBEEF = Some (pt_tx oldToken),
             aa_inputs = [\<lparr>ai_outpoint = token_outpoint oldToken, ai_unlockingScriptLength = Some 73,
               ai_inputDescription = js ''Consume old '' @ ty @ js '' token''\<rparr>],
             aa_outputs = [token_output newScript (js ''Renewed '' @ ty @ js '' permission token'') r],
             aa_labels = [], aa_options = delayed\<rparr>) (\<lambda>result.
           case ar_signable result of
             None \<Rightarrow> Throw (Err ''TypeError'' [])
           | Some (tx, reference) \<Rightarrow> bindP (unlock_input tx oldToken 0) (\<lambda>spend.
               bindP (awaitP (SignActionQ reference [spend] None None None) action_of bad_answer) (\<lambda>_. Ret r))))))"

section \<open>Revocation\<close>

definition normalizeTxid :: "jstr \<Rightarrow> jstr" where
  "normalizeTxid txid = toLowerCase txid"

fun pairs_of :: "jstr \<Rightarrow> jstr list" where
  "pairs_of (a # b # s) = [a, b] # pairs_of s"
| "pairs_of _ = []"

definition reverseHexTxid :: "jstr \<Rightarrow> jstr" where
  "reverseHexTxid txid = (let hex = normalizeTxid txid in
     if length hex = 64 \<and> list_all (\<lambda>c. (48 \<le> c \<and> c \<le> 57) \<or> (97 \<le> c \<and> c \<le> 102)) hex then concat (rev (pairs_of hex)) else hex)"

text \<open>The inputs of a transaction of the SDK have their transaction id and output index under the first of the names
  the code tries; the comparison of whole outpoints is for inputs without them.\<close>

definition spends_token :: "perm_token \<Rightarrow> jstr \<times> nat \<times> int \<Rightarrow> bool" where
  "spends_token t inp = (case inp of (txid, vout, _) \<Rightarrow>
     (normalizeTxid txid = normalizeTxid (pt_txid t) \<or> normalizeTxid txid = reverseHexTxid (pt_txid t)) \<and> int vout = pt_outputIndex t)"

definition findInputIndexForToken :: "tx_view \<Rightarrow> perm_token \<Rightarrow> nat option" where
  "findInputIndexForToken tx t = index_of True (map (spends_token t) (tv_inputs tx))"

text \<open>With the only input standing in for one that is not recognised.\<close>

definition input_for_token :: "tx_view \<Rightarrow> perm_token \<Rightarrow> pm_error + nat" where
  "input_for_token tx t = (case findInputIndexForToken tx t of
      Some i \<Rightarrow> Inr i
    | None \<Rightarrow> if length (tv_inputs tx) = 1 then Inr 0 else Inl (Err ''Unable to locate permission token input for revocation.'' []))"

definition revoke_action :: "jstr \<Rightarrow> nat list \<Rightarrow> action_input list \<Rightarrow> action_options \<Rightarrow> action_args" where
  "revoke_action description beef ins opts = \<lparr>aa_description = description, aa_inputBEEF = Some beef, aa_inputs = ins,
     aa_outputs = [], aa_labels = [], aa_options = opts\<rparr>"

definition revokePermissionTokensChunk :: "manager \<Rightarrow> perm_token list \<Rightarrow> ('x, unit) pmp" where
  "revokePermissionTokensChunk m oldTokens =
     (if oldTokens = [] then Ret ()
      else bindP (as_admin m (revoke_action (js ''Revoke '' @ dec_digits (length oldTokens) @ js '' permissions'')
             (merged_beef m oldTokens) (token_inputs 73 ''Consume old permission token #'' oldTokens) delayed_unsigned)) (\<lambda>result.
        case signable_of result of
          Inl e \<Rightarrow> Throw e
        | Inr (tx, reference) \<Rightarrow> (case mapE (\<lambda>t. map_sum id (Pair t) (input_for_token (o_tx_view (m_out m) tx) t)) oldTokens of
            Inl e \<Rightarrow> Throw e
          | Inr toSign \<Rightarrow> bindP (mapP (\<lambda>(t, i). unlock_input tx t i) toSign) (\<lambda>spends.
              bindP (finalize reference spends ''Failed to finalize revoke transaction'') (\<lambda>_. Ret ())))))"

definition revokePermissions :: "manager \<Rightarrow> perm_token list \<Rightarrow> ('x, perm_token list) pmp" where
  "revokePermissions m oldTokens =
     runBestEffortBatches 14 (\<lambda>chunk. bindP (callP (revokePermissionTokensChunk m chunk)) (\<lambda>_. Ret chunk)) oldTokens"

definition revokePermission :: "manager \<Rightarrow> perm_token \<Rightarrow> ('x, unit) pmp" where
  "revokePermission m t =
     bindP (as_admin m (revoke_action (js ''Revoke permission'') (pt_tx t)
       [\<lparr>ai_outpoint = token_outpoint t, ai_unlockingScriptLength = Some 73, ai_inputDescription = js ''Consume old permission token''\<rparr>]
       delayed)) (\<lambda>result.
     case ar_signable result of
       None \<Rightarrow> Throw (Err ''TypeError'' [])
     | Some (tx, reference) \<Rightarrow> (case input_for_token (o_tx_view (m_out m) tx) t of
         Inl e \<Rightarrow> Throw e
       | Inr i \<Rightarrow> bindP (unlock_input tx t i) (\<lambda>spend.
           bindP (awaitP (SignActionQ reference [spend] None None None) action_of bad_answer) (\<lambda>_. Ret ()))))"

end
