(* ===== verification/PermGrants.thy ===== *)
theory PermGrants
  imports PermActions
begin

text \<open>
  The user's answers (section 2 of \<^verbatim>\<open>src/src/WalletPermissionsManager.ts\<close>): granting and denying a request. What a
  method reads of the active entry it read at its start; that entry may have left the map, and a new one of the
  same key have come, when the method goes on after an \<open>await\<close>. A request that is not of the kind the method is
  for throws here, where the code would go on with undefined parts.
\<close>

definition not_found :: pm_error where
  "not_found = Err ''Request ID not found.'' []"

text \<open>\<open>this.activeRequests.get(requestID)\<close>, or throw.\<close>

definition with_active :: "jstr \<Rightarrow> (nat \<Rightarrow> ('x, 'a) pmp) \<Rightarrow> ('x, 'a) pmp" where
  "with_active requestID f = bindP (readP (\<lambda>s. pm_active s requestID)) (\<lambda>e. case e of None \<Rightarrow> Throw not_found | Some eid \<Rightarrow> f eid)"

definition entry :: "nat \<Rightarrow> pm \<Rightarrow> active_entry" where
  "entry eid s = pm_entries s ! eid"

text \<open>\<open>for (const x of matching.pending) x.resolve(true)\<close> or \<open>x.reject(\<dots>)\<close>: those pending now.\<close>

definition settle_entry :: "nat \<Rightarrow> pm_error + bool \<Rightarrow> pm \<Rightarrow> pm" where
  "settle_entry eid x s = (let t = settle_all (en_pending (entry eid s)) x s in
     if x = Inr True then logE (Answered (en_key (entry eid s))) t else t)"

text \<open>Deleting the key of the request \<open>eid\<close>; the history notes it when a newer request has taken its place.\<close>

definition finish_entry :: "nat \<Rightarrow> jstr \<Rightarrow> pm \<Rightarrow> pm" where
  "finish_entry eid requestID s = (case pm_active s requestID of
      None \<Rightarrow> s
    | Some k \<Rightarrow> if k = eid then delete_active requestID s else logE (LateDelete requestID) (delete_active requestID s))"

definition settle_and_delete :: "jstr \<Rightarrow> pm_error + bool \<Rightarrow> nat \<Rightarrow> ('x, unit) pmp" where
  "settle_and_delete requestID x eid = modifyP (\<lambda>s. delete_active requestID (settle_entry eid x s))"

section \<open>Single permissions\<close>

definition remember_grant :: "manager \<Rightarrow> perm_request \<Rightarrow> int \<Rightarrow> pm \<Rightarrow> pm" where
  "remember_grant m r expiry s =
     logE (Granted r) (markRecentGrant (m_out m) r (cachePermission (buildRequestKey (m_out m) r) expiry s))"

definition or_zero :: "int option \<Rightarrow> int" where
  "or_zero x = (case x of None \<Rightarrow> 0 | Some n \<Rightarrow> n)"

text \<open>The entry's request is read when the promises have been resolved. \<open>expiry\<close> undefined is 0.\<close>

definition grantPermission :: "manager \<Rightarrow> jstr \<Rightarrow> int option \<Rightarrow> bool \<Rightarrow> int option \<Rightarrow> ('x, unit) pmp" where
  "grantPermission m requestID expiry ephemeral amount =
     with_active requestID (\<lambda>eid.
       bindP (settle_and_delete requestID (Inr True) eid) (\<lambda>_.
       if ephemeral then Ret ()
       else bindP (readP (\<lambda>s. en_request (entry eid s))) (\<lambda>q. case q of
           SingleRequest r \<Rightarrow>
             bindP (callP (if pr_renewal r
                 then (case pr_previousToken r of None \<Rightarrow> Throw (Err ''TypeError'' [])
                   | Some t \<Rightarrow> renewPermissionOnChain m t r (or_zero expiry) amount)
                 else createPermissionOnChain m r (or_zero expiry) amount)) (\<lambda>r'.
             modifyP (remember_grant m r' (or_zero expiry)))
         | _ \<Rightarrow> Throw (Err ''TypeError'' []))))"

definition denyPermission :: "jstr \<Rightarrow> ('x, unit) pmp" where
  "denyPermission requestID = with_active requestID (settle_and_delete requestID (Inl (Err ''Permission denied.'' [])))"

definition denyActiveRequest :: "jstr \<Rightarrow> ('x, unit) pmp" where
  "denyActiveRequest requestID = with_active requestID (settle_and_delete requestID (Inl UserDenied))"

definition denyGroupedPermission :: "jstr \<Rightarrow> ('x, unit) pmp" where
  "denyGroupedPermission requestID = denyActiveRequest requestID"

definition denyCounterpartyPermission :: "jstr \<Rightarrow> ('x, unit) pmp" where
  "denyCounterpartyPermission requestID = denyActiveRequest requestID"

definition dismissGroupedPermission :: "jstr \<Rightarrow> ('x, unit) pmp" where
  "dismissGroupedPermission requestID = with_active requestID (settle_and_delete requestID (Inr True))"

section \<open>Groups\<close>

definition validateGrantedPermissionsSubset :: "grouped_permissions \<Rightarrow> grouped_permissions \<Rightarrow> pm_error + unit" where
  "validateGrantedPermissionsSubset granted requested =
     (if gr_spending granted \<noteq> None \<and> gr_spending requested = None
      then Inl (Err ''Granted spending authorization was not part of the original request.'' [])
      else if list_ex (\<lambda>g. g \<notin> set (gr_protocols requested)) (gr_protocols granted)
      then Inl (Err ''Granted protocol permissions are not a subset of the original request.'' [])
      else if list_ex (\<lambda>g. g \<notin> set (gr_baskets requested)) (gr_baskets granted)
      then Inl (Err ''Granted basket access permissions are not a subset of the original request.'' [])
      else if list_ex (\<lambda>g. g \<notin> set (gr_certificates requested)) (gr_certificates granted)
      then Inl (Err ''Granted certificate access permissions are not a subset of the original request.'' [])
      else Inr ())"

definition spending_creation :: "jstr \<Rightarrow> group_spending \<Rightarrow> creation" where
  "spending_creation originator g =
     ((spending_request originator (gs_amount g) [])\<lparr>pr_reason := Some (gs_description g)\<rparr>, 0, Some (gs_amount g))"

definition basket_creation :: "jstr \<Rightarrow> int \<Rightarrow> group_basket \<Rightarrow> creation" where
  "basket_creation originator expiry b =
     ((basket_request originator (gb_basket b))\<lparr>pr_reason := Some (gb_description b)\<rparr>, expiry, None)"

definition certificate_creation :: "jstr \<Rightarrow> int \<Rightarrow> group_certificate \<Rightarrow> creation" where
  "certificate_creation originator expiry c =
     ((certificate_request originator False (group_certificate_ref c))\<lparr>pr_reason := Some (gc_description c)\<rparr>, expiry, None)"

text \<open>The protocols granted, each with its request and the token it already has.\<close>

definition protocol_grants ::
  "manager \<Rightarrow> jstr \<Rightarrow> jstr list \<Rightarrow> (wallet_protocol \<times> jstr \<times> jstr option) list \<Rightarrow> ('x, (perm_request \<times> perm_token option) list) pmp" where
  "protocol_grants m originator lookup ps = mapP (\<lambda>(pid, counterparty, reason).
     bindP (callP (findProtocolToken m originator False pid counterparty True lookup)) (\<lambda>token.
     Ret ((protocol_request originator False pid counterparty)\<lparr>pr_reason := reason\<rparr>, token))) ps"

definition to_create :: "int \<Rightarrow> (perm_request \<times> perm_token option) list \<Rightarrow> creation list" where
  "to_create expiry grants = concat (map (\<lambda>(r, token). case token of None \<Rightarrow> [(r, expiry, None)] | Some _ \<Rightarrow> []) grants)"

definition to_renew :: "int \<Rightarrow> (perm_request \<times> perm_token option) list \<Rightarrow> renewal list" where
  "to_renew expiry grants = concat (map (\<lambda>(r, token). case token of None \<Rightarrow> [] | Some t \<Rightarrow> [(t, r, expiry, None)]) grants)"

definition mark_granted :: "manager \<Rightarrow> perm_request \<Rightarrow> ('x, unit) pmp" where
  "mark_granted m r = modifyP (\<lambda>s. logE (Granted r) (markRecentGrant (m_out m) r s))"

text \<open>Create and renew, then remember what came through.\<close>

definition issue_tokens :: "manager \<Rightarrow> creation list \<Rightarrow> renewal list \<Rightarrow> ('x, unit) pmp" where
  "issue_tokens m creations renewals =
     bindP (callP (createPermissionTokensBestEffort m creations)) (\<lambda>created.
     bindP (callP (renewPermissionTokensBestEffort m renewals)) (\<lambda>renewed.
     eachP (mark_granted m) (created @ renewed)))"

definition group_protocol_grant :: "group_protocol \<Rightarrow> wallet_protocol \<times> jstr \<times> jstr option" where
  "group_protocol_grant p = (gp_protocolID p, (if fst (gp_protocolID p) = 1 then []
     else if gp_counterparty p = Some [] then js ''self'' else or_self (gp_counterparty p)), Some (gp_description p))"

definition grant_group :: "manager \<Rightarrow> jstr \<Rightarrow> jstr option \<Rightarrow> grouped_permissions \<Rightarrow> int \<Rightarrow> ('x, unit) pmp" where
  "grant_group m originator display granted expiry =
     bindP (callP (protocol_grants m originator (buildOriginatorLookupValues [display, Some originator])
       (map group_protocol_grant (gr_protocols granted)))) (\<lambda>grants.
     issue_tokens m
       ((case gr_spending granted of None \<Rightarrow> [] | Some g \<Rightarrow> [spending_creation originator g]) @ to_create expiry grants @
        map (basket_creation originator expiry) (gr_baskets granted) @
        map (certificate_creation originator expiry) (gr_certificates granted))
       (to_renew expiry grants))"

definition grantGroupedPermission :: "manager \<Rightarrow> jstr \<Rightarrow> grouped_permissions \<Rightarrow> int option \<Rightarrow> ('x, unit) pmp" where
  "grantGroupedPermission m requestID granted expiry =
     with_active requestID (\<lambda>eid. finallyP (catchP
         (bindP (readP (\<lambda>s. en_request (entry eid s))) (\<lambda>q. case q of
             GroupRequest originator requested display \<Rightarrow>
               (case validateGrantedPermissionsSubset granted requested of
                  Inl e \<Rightarrow> Throw e
                | Inr _ \<Rightarrow> bindP (grant_group m originator display granted (or_zero expiry)) (\<lambda>_. modifyP (settle_entry eid (Inr True))))
           | _ \<Rightarrow> Throw (Err ''TypeError'' [])))
         (\<lambda>e. bindP (modifyP (settle_entry eid (Inl e))) (\<lambda>_. Throw e)))
       (modifyP (finish_entry eid requestID)))"

section \<open>Counterparties\<close>

text \<open>An entry of the permissions granted has a name or a protocol id; here it has its name, perhaps empty.\<close>

definition pact_grant :: "jstr \<Rightarrow> counterparty_protocol \<Rightarrow> wallet_protocol \<times> jstr \<times> jstr option" where
  "pact_grant counterparty p = ((2, cp_protocolName p), counterparty, cp_description p)"

definition grantCounterpartyPermission :: "manager \<Rightarrow> jstr \<Rightarrow> counterparty_protocol list \<Rightarrow> int option \<Rightarrow> ('x, unit) pmp" where
  "grantCounterpartyPermission m requestID granted expiry =
     with_active requestID (\<lambda>eid.
       bindP (readP (\<lambda>s. en_request (entry eid s))) (\<lambda>q. case q of
           PactRequest originator counterparty requested display \<Rightarrow>
             if list_ex (\<lambda>g. cp_protocolName g = [] \<or> \<not> list_ex (\<lambda>r. cp_protocolName r = cp_protocolName g) (cq_protocols requested)) granted
             then Throw (Err ''Granted protocol permissions are not a subset of the original request.'' [])
             else bindP (callP (protocol_grants m originator (buildOriginatorLookupValues [display, Some originator])
                    (map (pact_grant counterparty) granted))) (\<lambda>grants.
                  bindP (issue_tokens m (to_create (or_zero expiry) grants) (to_renew (or_zero expiry) grants)) (\<lambda>_.
                  modifyP (\<lambda>s. finish_entry eid requestID (settle_entry eid (Inr True) s))))
         | _ \<Rightarrow> Throw (Err ''TypeError'' [])))"

text \<open>
  Listing the permission tokens, and revoking all of an originator (section 6 of
  \<^verbatim>\<open>src/src/WalletPermissionsManager.ts\<close>). The four lists \<open>revokeAllForOriginator\<close> asks for at once are asked for
  here one after the other.
\<close>

section \<open>Collecting\<close>

text \<open>Every output not seen before is read; \<open>None\<close> is \<open>continue\<close>.\<close>

fun collectP ::
  "(listed_output \<Rightarrow> ('x, perm_token option) pmp) \<Rightarrow> listed_output list \<Rightarrow> jstr list \<Rightarrow> perm_token list \<Rightarrow>
   ('x, jstr list \<times> perm_token list) pmp" where
  "collectP f [] seen tokens = Ret (seen, tokens)"
| "collectP f (out # outs) seen tokens =
     (if lo_outpoint out \<in> set seen then collectP f outs seen tokens
      else bindP (f out) (\<lambda>t. case t of
          None \<Rightarrow> collectP f outs seen tokens
        | Some tok \<Rightarrow> collectP f outs (lo_outpoint out # seen) (tokens @ [tok])))"

text \<open>\<open>f beef out\<close> reads an output of an answer; one request for every tag list.\<close>

fun collect_all ::
  "jstr \<Rightarrow> (nat list \<Rightarrow> listed_output \<Rightarrow> ('x, perm_token option) pmp) \<Rightarrow> jstr list list \<Rightarrow> jstr list \<Rightarrow> perm_token list \<Rightarrow>
   ('x, perm_token list) pmp" where
  "collect_all basket f [] seen tokens = Ret tokens"
| "collect_all basket f (tags # rest) seen tokens =
     bindP (awaitP (ListOutputsQ basket tags) outputs_of bad_answer) (\<lambda>(outs, beef).
     bindP (callP (collectP (f beef) outs seen tokens)) (\<lambda>(seen', tokens'). collect_all basket f rest seen' tokens'))"

text \<open>An output with at least \<open>n\<close> fields, whose first, decrypted, is a domain; \<open>wanted\<close> is the filter's normalised
  originator.\<close>

definition read_token ::
  "manager \<Rightarrow> nat \<Rightarrow> jstr option \<Rightarrow> (perm_token \<Rightarrow> nat list list \<Rightarrow> ('x, perm_token) pmp) \<Rightarrow> nat list \<Rightarrow> listed_output \<Rightarrow>
   ('x, perm_token option) pmp" where
  "read_token m n wanted g beef out = bindP (token_at m beef out) (\<lambda>(t, flds). case flds of
      None \<Rightarrow> Ret None
    | Some fs \<Rightarrow> if length fs < n then Ret None
        else bindP (decrypt_text m (fs ! 0)) (\<lambda>domain.
          let normalized = normalizeOriginator (m_out m) domain in
          if wanted \<noteq> None \<and> wanted \<noteq> Some normalized then Ret None
          else bindP (g (t\<lparr>pt_originator := normalized, pt_rawOriginator := Some domain\<rparr>) fs) (\<lambda>tok. Ret (Some tok))))"

text \<open>The filter on the originator: its normalised form, and the tags to ask for, \<open>None\<close> for no tag.\<close>

definition originator_filter :: "manager \<Rightarrow> jstr option \<Rightarrow> pm_error + jstr option \<times> jstr option list" where
  "originator_filter m originator = (if or_empty originator = [] then Inr (None, [None])
     else (case prepareOriginator (m_out m) (or_empty originator) of
         Inl e \<Rightarrow> Inl e | Inr (normalized, lookup) \<Rightarrow> Inr (Some normalized, map Some lookup)))"

definition origin_tags :: "jstr list \<Rightarrow> jstr option list \<Rightarrow> jstr list list" where
  "origin_tags baseTags variants = map (\<lambda>v. case v of None \<Rightarrow> baseTags | Some tag \<Rightarrow> baseTags @ [js ''originator '' @ tag]) variants"

section \<open>Lists\<close>

definition tag_of :: "string \<Rightarrow> jstr option \<Rightarrow> jstr list" where
  "tag_of name v = (if or_empty v = [] then [] else [js name @ or_empty v])"

definition privileged_tag :: "bool option \<Rightarrow> jstr list" where
  "privileged_tag p = (case p of None \<Rightarrow> [] | Some b \<Rightarrow> [js ''privileged '' @ js_bool b])"

definition buildProtocolFilterTags :: "bool option \<Rightarrow> jstr option \<Rightarrow> nat option \<Rightarrow> jstr option \<Rightarrow> jstr list" where
  "buildProtocolFilterTags privileged protocolName securityLevel counterparty =
     privileged_tag privileged @ tag_of ''protocolName '' protocolName @
     (case securityLevel of None \<Rightarrow> [] | Some l \<Rightarrow> [js ''protocolSecurityLevel '' @ dec_digits l]) @
     tag_of ''counterparty '' counterparty"

text \<open>All six fields are decrypted before the filter is looked at.\<close>

definition collect_protocol_token :: "manager \<Rightarrow> jstr option \<Rightarrow> nat list \<Rightarrow> listed_output \<Rightarrow> ('x, perm_token option) pmp" where
  "collect_protocol_token m wanted beef out = bindP (token_at m beef out) (\<lambda>(t, flds). case flds of
      None \<Rightarrow> Ret None
    | Some fs \<Rightarrow> if length fs < 6 then Ret None
        else bindP (decryptProtocolTokenFields m fs) (\<lambda>f.
          let normalized = normalizeOriginator (m_out m) (pf_domain f) in
          if wanted \<noteq> None \<and> wanted \<noteq> Some normalized then Ret None
          else Ret (Some (t\<lparr>pt_originator := normalized, pt_rawOriginator := Some (pf_domain f), pt_expiry := pf_expiry f,
            pt_privileged := Some (pf_priv f), pt_securityLevel := map_option nat (pf_secLevel f), pt_protocol := Some (pf_protoName f),
            pt_counterparty := Some (pf_cpty f)\<rparr>))))"

definition listProtocolPermissions ::
  "manager \<Rightarrow> jstr option \<Rightarrow> bool option \<Rightarrow> jstr option \<Rightarrow> nat option \<Rightarrow> jstr option \<Rightarrow> ('x, perm_token list) pmp" where
  "listProtocolPermissions m originator privileged protocolName securityLevel counterparty =
     (case originator_filter m originator of
        Inl e \<Rightarrow> Throw e
      | Inr (wanted, variants) \<Rightarrow> collect_all (BASKET_MAP ProtocolPerm) (collect_protocol_token m wanted)
          (origin_tags (buildProtocolFilterTags privileged protocolName securityLevel counterparty) variants) [] [])"

definition basket_tags :: "jstr list \<Rightarrow> jstr option list \<Rightarrow> jstr list list" where
  "basket_tags baseTags variants = map (\<lambda>v. baseTags @ tag_of ''originator '' v) variants"

definition read_basket_token :: "manager \<Rightarrow> perm_token \<Rightarrow> nat list list \<Rightarrow> ('x, perm_token) pmp" where
  "read_basket_token m t fs = bindP (decrypt_text m (fs ! 1)) (\<lambda>expiry. bindP (decrypt_text m (fs ! 2)) (\<lambda>b.
     Ret (t\<lparr>pt_basketName := Some b, pt_expiry := nan0 (js_parseInt expiry)\<rparr>)))"

definition listBasketAccess :: "manager \<Rightarrow> jstr option \<Rightarrow> jstr option \<Rightarrow> ('x, perm_token list) pmp" where
  "listBasketAccess m originator basket =
     (case originator_filter m originator of
        Inl e \<Rightarrow> Throw e
      | Inr (wanted, variants) \<Rightarrow> collect_all (BASKET_MAP BasketPerm) (read_token m 3 wanted (read_basket_token m))
          (basket_tags (tag_of ''basket '' basket) variants) [] [])"

definition read_certificate_token :: "manager \<Rightarrow> perm_token \<Rightarrow> nat list list \<Rightarrow> ('x, perm_token) pmp" where
  "read_certificate_token m t fs =
     bindP (decrypt_text m (fs ! 1)) (\<lambda>expiry. bindP (decrypt_text m (fs ! 2)) (\<lambda>priv.
     bindP (decrypt_text m (fs ! 3)) (\<lambda>ty. bindP (decrypt_text m (fs ! 5)) (\<lambda>ver. bindP (decrypt_text m (fs ! 4)) (\<lambda>all.
     case json_parse_strings all of
       None \<Rightarrow> Throw (Err ''SyntaxError'' [])
     | Some allFields \<Rightarrow> Ret (t\<lparr>pt_privileged := Some (priv = js ''true''), pt_certType := Some ty, pt_certFields := Some allFields,
         pt_verifier := Some ver, pt_expiry := nan0 (js_parseInt expiry)\<rparr>))))))"

definition listCertificateAccess ::
  "manager \<Rightarrow> jstr option \<Rightarrow> bool option \<Rightarrow> jstr option \<Rightarrow> jstr option \<Rightarrow> ('x, perm_token list) pmp" where
  "listCertificateAccess m originator privileged certType verifier =
     (case originator_filter m originator of
        Inl e \<Rightarrow> Throw e
      | Inr (wanted, variants) \<Rightarrow> collect_all (BASKET_MAP CertificatePerm) (read_token m 6 wanted (read_certificate_token m))
          (origin_tags (privileged_tag privileged @ tag_of ''type '' certType @ tag_of ''verifier '' verifier) variants) [] [])"

text \<open>The list of spending tokens does not normalise, and does not look for the same output twice.\<close>

definition listSpendingAuthorizations :: "manager \<Rightarrow> jstr option \<Rightarrow> ('x, perm_token list) pmp" where
  "listSpendingAuthorizations m originator =
     bindP (awaitP (ListOutputsQ (BASKET_MAP SpendingPerm) (tag_of ''originator '' originator)) outputs_of bad_answer) (\<lambda>(outs, beef).
     bindP (mapP (\<lambda>out. bindP (token_at m beef out) (\<lambda>(t, flds). case flds of
         None \<Rightarrow> Ret []
       | Some fs \<Rightarrow> if length fs < 2 then Ret []
           else bindP (decrypt_text m (fs ! 0)) (\<lambda>domain. bindP (decrypt_text m (fs ! 1)) (\<lambda>amt.
             Ret [t\<lparr>pt_originator := domain, pt_authorizedAmount := js_parseInt amt, pt_expiry := 0\<rparr>])))) outs)
       (\<lambda>ts. Ret (concat ts)))"

section \<open>Revoking all\<close>

fun dedupe_tokens :: "jstr list \<Rightarrow> perm_token list \<Rightarrow> perm_token list" where
  "dedupe_tokens seen [] = []"
| "dedupe_tokens seen (t # ts) = (if token_outpoint t \<in> set seen then dedupe_tokens seen ts
     else t # dedupe_tokens (token_outpoint t # seen) ts)"

record include_types =
  in_protocol :: bool
  in_basket :: bool
  in_certificate :: bool
  in_spending :: bool

definition listed_when :: "bool \<Rightarrow> ('x, perm_token list) pmp \<Rightarrow> ('x, perm_token list) pmp" where
  "listed_when b p = (if b then p else Ret [])"

definition tokens_to_revoke :: "manager \<Rightarrow> jstr \<Rightarrow> include_types \<Rightarrow> ('x, perm_token list) pmp" where
  "tokens_to_revoke m originator inc = (case prepareOriginator (m_out m) originator of
      Inl e \<Rightarrow> Throw e
    | Inr (normalized, _) \<Rightarrow>
        bindP (listed_when (in_protocol inc) (listProtocolPermissions m (Some originator) None None None None)) (\<lambda>protocolTokens.
        bindP (listed_when (in_basket inc) (listBasketAccess m (Some originator) None)) (\<lambda>basketTokens.
        bindP (listed_when (in_certificate inc) (listCertificateAccess m (Some originator) None None None)) (\<lambda>certificateTokens.
        bindP (listed_when (in_spending inc) (listSpendingAuthorizations m (Some normalized))) (\<lambda>spendingTokens.
        bindP yieldP (\<lambda>_.
        Ret (dedupe_tokens [] (protocolTokens @ basketTokens @ certificateTokens @ take 1 spendingTokens))))))))"

definition revokeAllForOriginator :: "manager \<Rightarrow> jstr \<Rightarrow> include_types \<Rightarrow> ('x, perm_token list) pmp" where
  "revokeAllForOriginator m originator inc = bindP (tokens_to_revoke m originator inc) (\<lambda>tokens. callP (revokePermissions m tokens))"

end
