(* ===== verification/PermForward.thy ===== *)
theory PermForward
  imports PermGrants
begin

text \<open>
  The wallet's methods behind their permission checks (section 7 of \<^verbatim>\<open>src/src/WalletPermissionsManager.ts\<close>), the
  labels for a range of times (\<^verbatim>\<open>src/src/utility/brc114ActionTimeLabels.ts\<close>), and the decryption of what was listed.
  A permission module answers with arguments and with a result; that it answers \<open>null\<close> is not modelled.
\<close>

section \<open>Asking the wallet\<close>

definition args_of :: "'x pm_answer \<Rightarrow> 'x wallet_args option" where
  "args_of a = (case a of ArgsA x \<Rightarrow> Some x | _ \<Rightarrow> None)"

definition value_of :: "'x pm_answer \<Rightarrow> 'x wallet_result option" where
  "value_of a = (case a of ValueA x \<Rightarrow> Some x | _ \<Rightarrow> None)"

definition wallet :: "string \<Rightarrow> 'x wallet_args \<Rightarrow> jstr option \<Rightarrow> jstr list \<Rightarrow> ('x, 'x wallet_result) pmp" where
  "wallet method args originator mods = awaitP (WalletQ method args originator mods) value_of bad_answer"

definition delegateToPModuleIfNeeded ::
  "manager \<Rightarrow> jstr \<Rightarrow> string \<Rightarrow> 'x wallet_args \<Rightarrow> jstr option \<Rightarrow> ('x wallet_args \<Rightarrow> ('x, 'x wallet_result) pmp) \<Rightarrow>
   ('x, 'x wallet_result option) pmp" where
  "delegateToPModuleIfNeeded m name method args originator underlying =
     (if \<not> startsWith name P_PREFIX then Ret None
      else let schemeID = scheme_of name in
        if schemeID \<notin> set (permissionModules (m_config m)) then Throw (Err ''Unsupported P-module scheme: p '' [schemeID])
        else bindP (awaitP (ModuleRequestQ schemeID method args (or_empty originator)) args_of bad_answer) (\<lambda>args'.
             bindP (callP (underlying args')) (\<lambda>result.
             bindP (awaitP (ModuleResponseQ schemeID method result (or_empty originator)) value_of bad_answer) (\<lambda>r. Ret (Some r)))))"

text \<open>\<open>if (pModuleResult !== null) return pModuleResult\<close>\<close>

definition unless_delegated ::
  "manager \<Rightarrow> jstr \<Rightarrow> string \<Rightarrow> 'x wallet_args \<Rightarrow> jstr option \<Rightarrow> ('x wallet_args \<Rightarrow> ('x, 'x wallet_result) pmp) \<Rightarrow>
   ('x, 'x wallet_result) pmp \<Rightarrow> ('x, 'x wallet_result) pmp" where
  "unless_delegated m name method args originator underlying p =
     bindP (callP (delegateToPModuleIfNeeded m name method args originator underlying)) (\<lambda>r. case r of Some x \<Rightarrow> Ret x | None \<Rightarrow> p)"

section \<open>Labels for a range of times\<close>

definition TIME_FROM :: jstr where "TIME_FROM = js ''action time from ''"
definition TIME_TO :: jstr where "TIME_TO = js ''action time to ''"

text \<open>A time is at most \<open>8.64e15\<close> milliseconds, less than the largest safe integer.\<close>

definition MAX_TIME :: int where "MAX_TIME = 8640000000000000"

definition parse_time :: "jstr \<Rightarrow> int option" where
  "parse_time v = (if v = [] \<or> \<not> list_all is_digit v then None
     else let n = int (digits_value v) in if n \<le> MAX_TIME then Some n else None)"

definition invalid_labels :: "string \<Rightarrow> pm_error" where
  "invalid_labels what = Err ''WERR_INVALID_PARAMETER'' [js ''labels'', js what]"

record time_labels =
  tl_from :: "int option"
  tl_to :: "int option"
  tl_requested :: bool
  tl_remaining :: "jstr list"

definition time_label :: "jstr \<Rightarrow> time_labels \<Rightarrow> pm_error + time_labels" where
  "time_label label a =
     (if startsWith label TIME_FROM
      then if tl_from a \<noteq> None then Inl (invalid_labels ''valid. Duplicate action time from label.'')
           else (case parse_time (drop (length TIME_FROM) label) of
               None \<Rightarrow> Inl (invalid_labels ''valid. Invalid action time from timestamp value.'')
             | Some n \<Rightarrow> Inr (a\<lparr>tl_requested := True, tl_from := Some n\<rparr>))
      else if startsWith label TIME_TO
      then if tl_to a \<noteq> None then Inl (invalid_labels ''valid. Duplicate action time to label.'')
           else (case parse_time (drop (length TIME_TO) label) of
               None \<Rightarrow> Inl (invalid_labels ''valid. Invalid action time to timestamp value.'')
             | Some n \<Rightarrow> Inr (a\<lparr>tl_requested := True, tl_to := Some n\<rparr>))
      else Inr (a\<lparr>tl_remaining := tl_remaining a @ [label]\<rparr>))"

fun time_labels_from :: "jstr list \<Rightarrow> time_labels \<Rightarrow> pm_error + time_labels" where
  "time_labels_from [] a = (case (tl_from a, tl_to a) of
      (Some f, Some t) \<Rightarrow> if t \<le> f then Inl (invalid_labels ''valid. action time from must be less than action time to.'') else Inr a
    | _ \<Rightarrow> Inr a)"
| "time_labels_from (label # labels) a = bindE (time_label label a) (time_labels_from labels)"

definition parseBrc114ActionTimeLabels :: "jstr list \<Rightarrow> pm_error + time_labels" where
  "parseBrc114ActionTimeLabels labels =
     time_labels_from labels \<lparr>tl_from = None, tl_to = None, tl_requested = False, tl_remaining = []\<rparr>"

definition makeBrc114ActionTimeLabel :: "int \<Rightarrow> jstr" where
  "makeBrc114ActionTimeLabel unixMillis = js ''action time '' @ js_int unixMillis"

section \<open>Decryption of what was listed\<close>

definition decrypt_nonempty :: "manager \<Rightarrow> jstr \<Rightarrow> ('x, jstr) pmp" where
  "decrypt_nonempty m s = (if s = [] then Ret [] else callP (maybeDecryptMetadata m s))"

definition decrypt_optional :: "manager \<Rightarrow> jstr option \<Rightarrow> ('x, jstr option) pmp" where
  "decrypt_optional m c = (case c of None \<Rightarrow> Ret None | Some s \<Rightarrow> bindP (decrypt_nonempty m s) (\<lambda>t. Ret (Some t)))"

definition decryptListOutputsMetadata :: "manager \<Rightarrow> 'x wallet_result \<Rightarrow> ('x, 'x wallet_result) pmp" where
  "decryptListOutputsMetadata m r = (case r of
      OutputsResult outs x \<Rightarrow> bindP (mapP (decrypt_optional m) outs) (\<lambda>outs'. Ret (OutputsResult outs' x)) | _ \<Rightarrow> Ret r)"

definition decryptActionOutputMetadata :: "manager \<Rightarrow> jstr \<times> jstr option \<Rightarrow> ('x, jstr \<times> jstr option) pmp" where
  "decryptActionOutputMetadata m out = bindP (decrypt_nonempty m (fst out)) (\<lambda>d. bindP (decrypt_optional m (snd out)) (\<lambda>c. Ret (d, c)))"

definition decryptSingleActionMetadata :: "manager \<Rightarrow> listed_action \<Rightarrow> ('x, listed_action) pmp" where
  "decryptSingleActionMetadata m a =
     bindP (decrypt_nonempty m (la_description a)) (\<lambda>d. bindP (mapP (decrypt_nonempty m) (la_inputs a)) (\<lambda>ins.
     bindP (mapP (\<lambda>out. callP (decryptActionOutputMetadata m out)) (la_outputs a)) (\<lambda>outs.
     Ret \<lparr>la_description = d, la_inputs = ins, la_outputs = outs\<rparr>)))"

definition decryptListActionsMetadata :: "manager \<Rightarrow> 'x wallet_result \<Rightarrow> ('x, 'x wallet_result) pmp" where
  "decryptListActionsMetadata m r = (case r of
      ActionsResult acts x \<Rightarrow> bindP (mapP (\<lambda>a. callP (decryptSingleActionMetadata m a)) acts) (\<lambda>acts'. Ret (ActionsResult acts' x))
    | _ \<Rightarrow> Ret r)"

section \<open>Several modules\<close>

fun module_requests :: "string \<Rightarrow> jstr \<Rightarrow> jstr list \<Rightarrow> 'x wallet_args \<Rightarrow> ('x, 'x wallet_args) pmp" where
  "module_requests method originator [] args = Ret args"
| "module_requests method originator (s # mods) args =
     bindP (awaitP (ModuleRequestQ s method args originator) args_of bad_answer) (module_requests method originator mods)"

fun module_responses :: "string \<Rightarrow> jstr \<Rightarrow> jstr list \<Rightarrow> 'x wallet_result \<Rightarrow> ('x, 'x wallet_result) pmp" where
  "module_responses method originator [] r = Ret r"
| "module_responses method originator (s # mods) r =
     bindP (awaitP (ModuleResponseQ s method r originator) value_of bad_answer) (module_responses method originator mods)"

definition encrypt_insertion :: "manager \<Rightarrow> (jstr \<times> jstr option) option \<Rightarrow> ('x, (jstr \<times> jstr option) option) pmp" where
  "encrypt_insertion m i = (case i of None \<Rightarrow> Ret None
     | Some (b, c) \<Rightarrow> bindP (encrypt_instructions m c) (\<lambda>c'. Ret (Some (b, c'))))"

section \<open>Checks\<close>

definition check_protocol ::
  "manager \<Rightarrow> jstr option \<Rightarrow> bool \<Rightarrow> wallet_protocol \<Rightarrow> jstr \<Rightarrow> jstr option \<Rightarrow> protocol_usage \<Rightarrow> ('x, unit) pmp" where
  "check_protocol m originator privileged protocolID counterparty reason u =
     bindP (callP (ensureProtocolPermission m (or_empty originator) privileged protocolID counterparty reason True u)) (\<lambda>_. Ret ())"

definition check_basket :: "manager \<Rightarrow> jstr option \<Rightarrow> jstr \<Rightarrow> jstr option \<Rightarrow> basket_usage \<Rightarrow> ('x, unit) pmp" where
  "check_basket m originator basket reason u =
     bindP (callP (ensureBasketAccess m (or_empty originator) basket reason True u)) (\<lambda>_. Ret ())"

definition check_label :: "manager \<Rightarrow> jstr option \<Rightarrow> jstr \<Rightarrow> jstr option \<Rightarrow> label_usage \<Rightarrow> ('x, unit) pmp" where
  "check_label m originator label reason u =
     bindP (callP (ensureLabelAccess m (or_empty originator) label reason True u)) (\<lambda>_. Ret ())"

section \<open>Methods\<close>

definition counterparty_or_self :: "'x wallet_args \<Rightarrow> jstr" where
  "counterparty_or_self args = (if or_empty (wa_counterparty args) = [] then js ''self'' else or_empty (wa_counterparty args))"

definition signAction :: "'x wallet_args \<Rightarrow> jstr option \<Rightarrow> ('x, 'x wallet_result) pmp" where
  "signAction args originator = wallet ''signAction'' args originator []"

definition abortAction :: "'x wallet_args \<Rightarrow> jstr option \<Rightarrow> ('x, 'x wallet_result) pmp" where
  "abortAction args originator = wallet ''abortAction'' args originator []"

definition listActions :: "manager \<Rightarrow> 'x wallet_args \<Rightarrow> jstr option \<Rightarrow> ('x, 'x wallet_result) pmp" where
  "listActions m args originator =
     (case bindE (parseBrc114ActionTimeLabels (wa_labels args)) (\<lambda>t. splitLabelsByPermissionModule m (tl_remaining t) []) of
        Inl e \<Rightarrow> Throw e
      | Inr (mods, labels) \<Rightarrow>
          bindP (eachP (\<lambda>l. check_label m originator l (Some (js ''listActions'')) ListLabel) labels) (\<lambda>_.
          bindP (module_requests ''listActions'' (or_empty originator) mods args) (\<lambda>args'.
          bindP (wallet ''listActions'' args' originator mods) (\<lambda>r.
          bindP (module_responses ''listActions'' (or_empty originator) (rev mods) r) (\<lambda>r'.
          callP (decryptListActionsMetadata m r'))))))"

text \<open>The baskets of the insertions: the modules of those for a module, and the others.\<close>

fun split_insertions :: "manager \<Rightarrow> (jstr \<times> jstr option) option list \<Rightarrow> jstr list \<Rightarrow> pm_error + jstr list" where
  "split_insertions m [] mods = Inr mods"
| "split_insertions m (None # outs) mods = split_insertions m outs mods"
| "split_insertions m (Some (basket, _) # outs) mods =
     (if startsWith basket P_PREFIX
      then bindE (addPModuleByScheme m (scheme_of basket) ''basket'' mods) (split_insertions m outs)
      else split_insertions m outs mods)"

text \<open>An insertion into a basket that is not a module's: the check, then the encryption of its instructions.\<close>

definition check_insertion :: "manager \<Rightarrow> jstr option \<Rightarrow> jstr \<Rightarrow> (jstr \<times> jstr option) option \<Rightarrow> ('x, (jstr \<times> jstr option) option) pmp" where
  "check_insertion m originator description i = (case i of None \<Rightarrow> Ret None
     | Some (basket, c) \<Rightarrow> if startsWith basket P_PREFIX then Ret i
         else bindP (check_basket m originator basket (Some description) Insertion) (\<lambda>_. encrypt_insertion m i))"

definition internalizeAction :: "manager \<Rightarrow> 'x wallet_args \<Rightarrow> jstr option \<Rightarrow> ('x, 'x wallet_result) pmp" where
  "internalizeAction m args originator =
     (case bindE (split_insertions m (wa_insertions args) []) (splitLabelsByPermissionModule m (wa_labels args)) of
        Inl e \<Rightarrow> Throw e
      | Inr (mods, labels) \<Rightarrow>
          bindP (mapP (check_insertion m originator (wa_description args)) (wa_insertions args)) (\<lambda>ins.
          bindP (eachP (\<lambda>l. check_label m originator l (Some (wa_description args)) ApplyLabel) labels) (\<lambda>_.
          let args1 = args\<lparr>wa_insertions := ins\<rparr> in
          if mods = [] then wallet ''internalizeAction'' args1 originator []
          else bindP (module_requests ''internalizeAction'' (or_empty originator) mods args1) (\<lambda>args2.
               bindP (mapP (encrypt_insertion m) (wa_insertions args2)) (\<lambda>ins2.
               bindP (wallet ''internalizeAction'' (args2\<lparr>wa_insertions := ins2\<rparr>) originator mods)
                 (module_responses ''internalizeAction'' (or_empty originator) (rev mods)))))))"

definition listOutputs :: "manager \<Rightarrow> 'x wallet_args \<Rightarrow> jstr option \<Rightarrow> ('x, 'x wallet_result) pmp" where
  "listOutputs m args originator =
     unless_delegated m (wa_basket args) ''listOutputs'' args originator
       (\<lambda>args'. bindP (wallet ''listOutputs'' args' originator [scheme_of (wa_basket args)]) (\<lambda>r. callP (decryptListOutputsMetadata m r)))
       (bindP (check_basket m originator (wa_basket args) (Some (js ''listOutputs'')) Listing) (\<lambda>_.
        bindP (wallet ''listOutputs'' args originator []) (\<lambda>r. callP (decryptListOutputsMetadata m r))))"

definition relinquishOutput :: "manager \<Rightarrow> 'x wallet_args \<Rightarrow> jstr option \<Rightarrow> ('x, 'x wallet_result) pmp" where
  "relinquishOutput m args originator =
     unless_delegated m (wa_basket args) ''relinquishOutput'' args originator
       (\<lambda>args'. wallet ''relinquishOutput'' args' originator [scheme_of (wa_basket args)])
       (bindP (check_basket m originator (wa_basket args) (Some (js ''relinquishOutput'')) Removal) (\<lambda>_.
        wallet ''relinquishOutput'' args originator []))"

definition getPublicKey :: "manager \<Rightarrow> 'x wallet_args \<Rightarrow> jstr option \<Rightarrow> ('x, 'x wallet_result) pmp" where
  "getPublicKey m args originator =
     (let rest = bindP (whenP (wa_identityKey args) (check_protocol m originator (wa_privileged args) (1, js ''identity key retrieval'')
            (js ''self'') (wa_privilegedReason args) IdentityKey)) (\<lambda>_. wallet ''getPublicKey'' args originator [])
      in case wa_protocolID args of
           None \<Rightarrow> rest
         | Some pid \<Rightarrow> unless_delegated m (snd pid) ''getPublicKey'' args originator
             (\<lambda>args'. wallet ''getPublicKey'' args' originator [scheme_of (snd pid)])
             (bindP (check_protocol m originator (wa_privileged args) pid (counterparty_or_self args) (wa_privilegedReason args) PublicKey)
               (\<lambda>_. rest)))"

definition revealCounterpartyKeyLinkage :: "manager \<Rightarrow> 'x wallet_args \<Rightarrow> jstr option \<Rightarrow> ('x, 'x wallet_result) pmp" where
  "revealCounterpartyKeyLinkage m args originator =
     bindP (check_protocol m originator (wa_privileged args) (2, js ''counterparty key linkage revelation '' @ js_opt (wa_counterparty args))
       (wa_verifier args) (wa_privilegedReason args) LinkageRevelation) (\<lambda>_. wallet ''revealCounterpartyKeyLinkage'' args originator [])"

text \<open>The protocol of \<open>revealSpecificKeyLinkage\<close> and of the eight operations below is always given.\<close>

definition the_protocol :: "'x wallet_args \<Rightarrow> wallet_protocol" where
  "the_protocol args = (case wa_protocolID args of None \<Rightarrow> (0, []) | Some pid \<Rightarrow> pid)"

definition specific_linkage_protocol :: "'x wallet_args \<Rightarrow> wallet_protocol" where
  "specific_linkage_protocol args = (2, js ''specific key linkage revelation '' @ snd (the_protocol args) @ js '' '' @
     (if fst (the_protocol args) = 2 then wa_keyID args else js ''all''))"

definition revealSpecificKeyLinkage :: "manager \<Rightarrow> 'x wallet_args \<Rightarrow> jstr option \<Rightarrow> ('x, 'x wallet_result) pmp" where
  "revealSpecificKeyLinkage m args originator =
     bindP (check_protocol m originator (wa_privileged args) (specific_linkage_protocol args) (wa_verifier args)
       (wa_privilegedReason args) LinkageRevelation) (\<lambda>_. wallet ''revealSpecificKeyLinkage'' args originator [])"

text \<open>The six methods that use a key of a protocol have the same shape.\<close>

definition crypto_method :: "manager \<Rightarrow> string \<Rightarrow> protocol_usage \<Rightarrow> 'x wallet_args \<Rightarrow> jstr option \<Rightarrow> ('x, 'x wallet_result) pmp" where
  "crypto_method m method u args originator =
     unless_delegated m (snd (the_protocol args)) method args originator
       (\<lambda>args'. wallet method args' originator [scheme_of (snd (the_protocol args))])
       (bindP (check_protocol m originator (wa_privileged args) (the_protocol args) (counterparty_or_self args) (wa_privilegedReason args) u)
         (\<lambda>_. wallet method args originator []))"

definition encrypt :: "manager \<Rightarrow> 'x wallet_args \<Rightarrow> jstr option \<Rightarrow> ('x, 'x wallet_result) pmp" where
  "encrypt m = crypto_method m ''encrypt'' Encrypting"

definition decrypt :: "manager \<Rightarrow> 'x wallet_args \<Rightarrow> jstr option \<Rightarrow> ('x, 'x wallet_result) pmp" where
  "decrypt m = crypto_method m ''decrypt'' Encrypting"

definition createHmac :: "manager \<Rightarrow> 'x wallet_args \<Rightarrow> jstr option \<Rightarrow> ('x, 'x wallet_result) pmp" where
  "createHmac m = crypto_method m ''createHmac'' Hmac"

definition verifyHmac :: "manager \<Rightarrow> 'x wallet_args \<Rightarrow> jstr option \<Rightarrow> ('x, 'x wallet_result) pmp" where
  "verifyHmac m = crypto_method m ''verifyHmac'' Hmac"

definition createSignature :: "manager \<Rightarrow> 'x wallet_args \<Rightarrow> jstr option \<Rightarrow> ('x, 'x wallet_result) pmp" where
  "createSignature m = crypto_method m ''createSignature'' Signing"

definition verifySignature :: "manager \<Rightarrow> 'x wallet_args \<Rightarrow> jstr option \<Rightarrow> ('x, 'x wallet_result) pmp" where
  "verifySignature m = crypto_method m ''verifySignature'' Signing"

definition acquireCertificate :: "manager \<Rightarrow> 'x wallet_args \<Rightarrow> jstr option \<Rightarrow> ('x, 'x wallet_result) pmp" where
  "acquireCertificate m args originator =
     bindP (whenP (seekCertificateAcquisitionPermissions (m_config m)) (check_protocol m originator (wa_privileged args)
       (1, js ''certificate acquisition '' @ wa_certType args) (js ''self'') (wa_privilegedReason args) Generic))
     (\<lambda>_. wallet ''acquireCertificate'' args originator [])"

definition listCertificates :: "manager \<Rightarrow> 'x wallet_args \<Rightarrow> jstr option \<Rightarrow> ('x, 'x wallet_result) pmp" where
  "listCertificates m args originator =
     bindP (whenP (seekCertificateListingPermissions (m_config m)) (check_protocol m originator (wa_privileged args)
       (1, js ''certificate list'') (js ''self'') (wa_privilegedReason args) Generic))
     (\<lambda>_. wallet ''listCertificates'' args originator [])"

definition disclosed_certificate :: "'x wallet_args \<Rightarrow> certificate_ref" where
  "disclosed_certificate args = \<lparr>ce_verifier = wa_verifier args, ce_certType = wa_certType args, ce_fields = wa_certFields args\<rparr>"

definition proveCertificate :: "manager \<Rightarrow> 'x wallet_args \<Rightarrow> jstr option \<Rightarrow> ('x, 'x wallet_result) pmp" where
  "proveCertificate m args originator =
     bindP (callP (ensureCertificateAccess m (or_empty originator) (wa_privileged args) (disclosed_certificate args)
       (Some (js ''proveCertificate'')) True)) (\<lambda>_. wallet ''proveCertificate'' args originator [])"

definition relinquishCertificate :: "manager \<Rightarrow> 'x wallet_args \<Rightarrow> jstr option \<Rightarrow> ('x, 'x wallet_result) pmp" where
  "relinquishCertificate m args originator =
     bindP (whenP (seekCertificateRelinquishmentPermissions (m_config m)) (check_protocol m originator (wa_privileged args)
       (1, js ''certificate relinquishment '' @ wa_certType args) (js ''self'')
       (Some (if or_empty (wa_privilegedReason args) = [] then js ''relinquishCertificate'' else or_empty (wa_privilegedReason args))) Generic))
     (\<lambda>_. wallet ''relinquishCertificate'' args originator [])"

definition identity_resolution :: "manager \<Rightarrow> string \<Rightarrow> 'x wallet_args \<Rightarrow> jstr option \<Rightarrow> ('x, 'x wallet_result) pmp" where
  "identity_resolution m method args originator =
     bindP (whenP (seekPermissionsForIdentityResolution (m_config m)) (check_protocol m originator False
       (1, js ''identity resolution'') (js ''self'') (Some (js method)) Generic)) (\<lambda>_. wallet method args originator [])"

definition discoverByIdentityKey :: "manager \<Rightarrow> 'x wallet_args \<Rightarrow> jstr option \<Rightarrow> ('x, 'x wallet_result) pmp" where
  "discoverByIdentityKey m = identity_resolution m ''discoverByIdentityKey''"

definition discoverByAttributes :: "manager \<Rightarrow> 'x wallet_args \<Rightarrow> jstr option \<Rightarrow> ('x, 'x wallet_result) pmp" where
  "discoverByAttributes m = identity_resolution m ''discoverByAttributes''"

definition isAuthenticated :: "'x wallet_args \<Rightarrow> jstr option \<Rightarrow> ('x, 'x wallet_result) pmp" where
  "isAuthenticated args originator = wallet ''isAuthenticated'' args originator []"

text \<open>The permissions of the originator's manifest are asked for when it signs in.\<close>

definition request_manifest :: "manager \<Rightarrow> jstr \<Rightarrow> ('x, unit) pmp" where
  "request_manifest m originator =
     bindP (callP (fetchManifestPermissions originator)) (\<lambda>(g, _). case g of
         None \<Rightarrow> Ret ()
       | Some g \<Rightarrow> bindP (callP (filterAlreadyGrantedPermissions m originator g)) (\<lambda>p.
           if \<not> hasAnyPermissionsToRequest p then Ret ()
           else let key = js ''group:'' @ originator in
             bindP (readP (\<lambda>s. pm_active s key)) (\<lambda>existing. case existing of
                 Some eid \<Rightarrow> bindP (join_request eid id) (\<lambda>w. bindP (waitP w) (\<lambda>_. Ret ()))
               | None \<Rightarrow> bindP (open_request key (GroupRequest originator p None)) (\<lambda>w.
                   bindP (callP (callEvent OnGrouped key (GroupRequest originator p None))) (\<lambda>_. bindP (waitP w) (\<lambda>_. Ret ()))))))"

definition waitForAuthentication :: "manager \<Rightarrow> 'x wallet_args \<Rightarrow> jstr option \<Rightarrow> ('x, 'x wallet_result) pmp" where
  "waitForAuthentication m args originator =
     (if seekGroupedPermission (m_config m) \<and> or_empty originator \<noteq> []
      then (case prepareOriginator (m_out m) (or_empty originator) of
          Inl e \<Rightarrow> Throw e
        | Inr (normalized, _) \<Rightarrow> bindP (callP (withGroupedPermissionFlowLock normalized (request_manifest m normalized)))
            (\<lambda>_. wallet ''waitForAuthentication'' args originator []))
      else wallet ''waitForAuthentication'' args originator [])"

definition getHeight :: "'x wallet_args \<Rightarrow> jstr option \<Rightarrow> ('x, 'x wallet_result) pmp" where
  "getHeight args originator = wallet ''getHeight'' args originator []"

definition getHeaderForHeight :: "'x wallet_args \<Rightarrow> jstr option \<Rightarrow> ('x, 'x wallet_result) pmp" where
  "getHeaderForHeight args originator = wallet ''getHeaderForHeight'' args originator []"

definition getNetwork :: "'x wallet_args \<Rightarrow> jstr option \<Rightarrow> ('x, 'x wallet_result) pmp" where
  "getNetwork args originator = wallet ''getNetwork'' args originator []"

definition getVersion :: "'x wallet_args \<Rightarrow> jstr option \<Rightarrow> ('x, 'x wallet_result) pmp" where
  "getVersion args originator = wallet ''getVersion'' args originator []"

end
