(* ===== verification/PermInv.thy ===== *)
theory PermInv
  imports PermForward PermGrants
begin

text \<open>
  The invariant of the permissions manager under every interleaving of its calls, what a call may rely on, the
  policy every request to the wallet has to meet, and the interpretation of the logic \<open>rely\<close> on them.
\<close>

section \<open>What is known\<close>

text \<open>A permission for the request key was found as a token, or the user granted it.\<close>

definition known :: "manager \<Rightarrow> jstr \<Rightarrow> pm \<Rightarrow> bool" where
  "known m key s \<longleftrightarrow> (\<exists>t. Found key t \<in> set (pm_log s)) \<or>
     (\<exists>r. Granted r \<in> set (pm_log s) \<and> buildRequestKey (m_out m) r = key)"

text \<open>The user agreed to the request as it was asked.\<close>

definition agreed :: "manager \<Rightarrow> perm_request \<Rightarrow> pm \<Rightarrow> bool" where
  "agreed m r s \<longleftrightarrow> Answered (buildActiveRequestKey (m_out m) (prepared_request m r)) \<in> set (pm_log s)"

section \<open>The invariant\<close>

definition open_promise :: "pm \<Rightarrow> jstr \<Rightarrow> nat \<Rightarrow> bool" where
  "open_promise s key w \<longleftrightarrow> w < length (pm_promises s) \<and> pr_key (pm_promises s ! w) = Some key \<and> pr_outcome (pm_promises s ! w) = None"

text \<open>Whoever waits is in the queue: a promise not settled is pending in the active request of its key, unless the end
  of granting an older request removed that.\<close>

definition no_lost_waiter :: "pm \<Rightarrow> bool" where
  "no_lost_waiter s \<longleftrightarrow> (\<forall>key w. open_promise s key w \<longrightarrow>
     (\<exists>eid. pm_active s key = Some eid \<and> w \<in> set (en_pending (pm_entries s ! eid))) \<or> LateDelete key \<in> set (pm_log s))"

definition active_ok :: "pm \<Rightarrow> bool" where
  "active_ok s \<longleftrightarrow> (\<forall>key eid. pm_active s key = Some eid \<longrightarrow> eid < length (pm_entries s) \<and>
     en_key (pm_entries s ! eid) = key \<and> en_pending (pm_entries s ! eid) \<noteq> [])"

definition pending_ok :: "pm \<Rightarrow> bool" where
  "pending_ok s \<longleftrightarrow> (\<forall>eid < length (pm_entries s). \<forall>w \<in> set (en_pending (pm_entries s ! eid)).
     w < length (pm_promises s) \<and> pr_key (pm_promises s ! w) = Some (en_key (pm_entries s ! eid)))"

text \<open>A promise of a request is only ever resolved with \<open>true\<close>, and only by an answer of the user.\<close>

definition answers_ok :: "pm \<Rightarrow> bool" where
  "answers_ok s \<longleftrightarrow> (\<forall>w < length (pm_promises s). \<forall>key b. pr_key (pm_promises s ! w) = Some key \<longrightarrow>
     pr_outcome (pm_promises s ! w) = Some (Inr b) \<longrightarrow> b \<and> Answered key \<in> set (pm_log s))"

definition caches_ok :: "manager \<Rightarrow> pm \<Rightarrow> bool" where
  "caches_ok m s \<longleftrightarrow> (\<forall>key. pm_cache s key \<noteq> None \<or> pm_recent s key \<noteq> None \<longrightarrow> known m key s)"

definition pm_inv :: "manager \<Rightarrow> pm \<Rightarrow> bool" where
  "pm_inv m s \<longleftrightarrow> no_lost_waiter s \<and> active_ok s \<and> pending_ok s \<and> answers_ok s \<and> caches_ok m s"

text \<open>What every stretch of a call guarantees, and every call relies on: entries keep their keys, promises are settled
  at most once, and nothing leaves the history.\<close>

definition promises_grow :: "promise list \<Rightarrow> promise list \<Rightarrow> bool" where
  "promises_grow ps qs \<longleftrightarrow> length ps \<le> length qs \<and> (\<forall>w < length ps. pr_key (qs ! w) = pr_key (ps ! w) \<and>
     (pr_outcome (ps ! w) \<noteq> None \<longrightarrow> pr_outcome (qs ! w) = pr_outcome (ps ! w)))"

definition entries_grow :: "active_entry list \<Rightarrow> active_entry list \<Rightarrow> bool" where
  "entries_grow xs ys \<longleftrightarrow> length xs \<le> length ys \<and> (\<forall>i < length xs. en_key (ys ! i) = en_key (xs ! i))"

definition pm_rel :: "pm \<Rightarrow> pm \<Rightarrow> bool" where
  "pm_rel s t \<longleftrightarrow> promises_grow (pm_promises s) (pm_promises t) \<and> entries_grow (pm_entries s) (pm_entries t) \<and>
     set (pm_log s) \<subseteq> set (pm_log t)"

section \<open>The policy\<close>

text \<open>Normalising an originator a second time changes nothing: what is asked of \<open>new URL\<close>.\<close>

definition origins_ok :: "outside \<Rightarrow> bool" where
  "origins_ok out \<longleftrightarrow> (\<forall>x. normalizeOriginator out (normalizeOriginator out x) = normalizeOriginator out x)"

text \<open>The managers the policy is stated for: their originators normalise once and for all, and they do not ask for groups
  of permissions while letting everyone insert into baskets.\<close>

definition sound_manager :: "manager \<Rightarrow> bool" where
  "sound_manager m \<longleftrightarrow> origins_ok (m_out m) \<and>
     (seekGroupedPermission (m_config m) \<longrightarrow> seekBasketInsertionPermissions (m_config m))"

text \<open>The originator may: it is the admin, or \<open>cond\<close> holds of its normalised name.\<close>

definition originator_may :: "manager \<Rightarrow> jstr \<Rightarrow> (jstr \<Rightarrow> bool) \<Rightarrow> bool" where
  "originator_may m originator0 cond \<longleftrightarrow> (case prepareOriginator (m_out m) originator0 of
     Inl _ \<Rightarrow> False | Inr (originator, _) \<Rightarrow> isAdminOriginator m originator \<or> cond originator)"

definition has_leave :: "manager \<Rightarrow> bool \<Rightarrow> perm_request \<Rightarrow> jstr option \<Rightarrow> pm \<Rightarrow> bool" where
  "has_leave m asked r u s \<longleftrightarrow> known m (buildRequestKey (m_out m) r) s \<or> asked \<and> agreed m (r\<lparr>pr_usageType := u\<rparr>) s"

text \<open>\<open>asked\<close>: the user may have been asked for it; if not, the permission has to be known.\<close>

definition may_protocol :: "manager \<Rightarrow> bool \<Rightarrow> jstr \<Rightarrow> bool \<Rightarrow> wallet_protocol \<Rightarrow> jstr \<Rightarrow> protocol_usage \<Rightarrow> pm \<Rightarrow> bool" where
  "may_protocol m asked originator0 privileged0 pid counterparty0 u s \<longleftrightarrow> originator_may m originator0 (\<lambda>originator.
     fst pid = 0 \<or> \<not> isAdminProtocol pid \<and> (isProtocolUsageTypeExempted (m_config m) u \<or>
       (let counterparty = level1_counterparty pid counterparty0;
            privileged = (differentiatePrivilegedOperations (m_config m) \<and> privileged0)
        in \<not> privileged \<and> isWhitelistedCounterpartyProtocol (m_config m) counterparty pid \<or>
           has_leave m asked (protocol_request originator privileged pid counterparty) (Some (protocol_usage_name u)) s)))"

definition may_basket :: "manager \<Rightarrow> bool \<Rightarrow> jstr \<Rightarrow> jstr \<Rightarrow> basket_usage \<Rightarrow> pm \<Rightarrow> bool" where
  "may_basket m asked originator0 basket u s \<longleftrightarrow> originator_may m originator0 (\<lambda>originator.
     \<not> isAdminBasket basket \<and> (\<not> isBasketUsageRequired (m_config m) u \<or>
       has_leave m asked (basket_request originator basket) (Some (basket_usage_name u)) s))"

definition may_certificate :: "manager \<Rightarrow> bool \<Rightarrow> jstr \<Rightarrow> bool \<Rightarrow> certificate_ref \<Rightarrow> pm \<Rightarrow> bool" where
  "may_certificate m asked originator0 privileged0 c s \<longleftrightarrow> originator_may m originator0 (\<lambda>originator.
     \<not> seekCertificateDisclosurePermissions (m_config m) \<or>
     has_leave m asked (certificate_request originator (differentiatePrivilegedOperations (m_config m) \<and> privileged0) c)
       (Some (js ''disclosure'')) s)"

definition may_spend :: "manager \<Rightarrow> bool \<Rightarrow> jstr \<Rightarrow> int \<Rightarrow> pm \<Rightarrow> bool" where
  "may_spend m asked originator0 satoshis s \<longleftrightarrow> originator_may m originator0 (\<lambda>originator.
     \<not> seekSpendingPermissions (m_config m) \<or> has_leave m asked (spending_request originator satoshis []) None s)"

definition may_label :: "manager \<Rightarrow> bool \<Rightarrow> jstr \<Rightarrow> jstr \<Rightarrow> label_usage \<Rightarrow> pm \<Rightarrow> bool" where
  "may_label m asked originator0 label u s \<longleftrightarrow> originator_may m originator0 (\<lambda>originator.
     \<not> isAdminLabel label \<and>
       (u = ApplyLabel \<and> \<not> seekPermissionWhenApplyingActionLabels (m_config m) \<or>
        u = ListLabel \<and> \<not> seekPermissionWhenListingActionsByLabel (m_config m) \<or>
        known m (buildRequestKey (m_out m) (protocol_request originator False (label_protocol label) (js ''self''))) s \<or>
        may_protocol m asked originator False (label_protocol label) (js ''self'') Generic s))"

text \<open>The usages of the methods that use a key of a protocol.\<close>

definition crypto_usage :: "string \<Rightarrow> protocol_usage option" where
  "crypto_usage method = map_of [(''encrypt'', Encrypting), (''decrypt'', Encrypting), (''createHmac'', Hmac), (''verifyHmac'', Hmac),
     (''createSignature'', Signing), (''verifySignature'', Signing)] method"

definition plain_label :: "jstr \<Rightarrow> bool" where
  "plain_label l \<longleftrightarrow> \<not> startsWith l TIME_FROM \<and> \<not> startsWith l TIME_TO"

text \<open>What the originator must be permitted for the wallet to be asked for the method with these arguments.\<close>

datatype need =
    NeedProtocol bool wallet_protocol jstr protocol_usage
  | NeedBasket jstr basket_usage
  | NeedCertificate bool certificate_ref
  | NeedLabel jstr label_usage

definition meets :: "manager \<Rightarrow> jstr \<Rightarrow> pm \<Rightarrow> need \<Rightarrow> bool" where
  "meets m x s n = (case n of
      NeedProtocol privileged pid counterparty u \<Rightarrow> may_protocol m True x privileged pid counterparty u s
    | NeedBasket b u \<Rightarrow> may_basket m True x b u s
    | NeedCertificate privileged c \<Rightarrow> may_certificate m True x privileged c s
    | NeedLabel l u \<Rightarrow> may_label m True x l u s)"

definition method_needs :: "perm_config \<Rightarrow> string \<Rightarrow> 'x wallet_args \<Rightarrow> need list" where
  "method_needs cfg method args =
     (let own = (\<lambda>name. NeedProtocol (wa_privileged args) (1, name) (js ''self'')) in
      if crypto_usage method \<noteq> None
      then [NeedProtocol (wa_privileged args) (the_protocol args) (counterparty_or_self args) (the (crypto_usage method))]
      else if method = ''getPublicKey''
      then (case wa_protocolID args of None \<Rightarrow> []
            | Some pid \<Rightarrow> [NeedProtocol (wa_privileged args) pid (counterparty_or_self args) PublicKey]) @
           (if wa_identityKey args then [own (js ''identity key retrieval'') IdentityKey] else [])
      else if method = ''revealCounterpartyKeyLinkage''
      then [NeedProtocol (wa_privileged args) (2, js ''counterparty key linkage revelation '' @ js_opt (wa_counterparty args))
             (wa_verifier args) LinkageRevelation]
      else if method = ''revealSpecificKeyLinkage''
      then [NeedProtocol (wa_privileged args) (specific_linkage_protocol args) (wa_verifier args) LinkageRevelation]
      else if method = ''listOutputs'' then [NeedBasket (wa_basket args) Listing]
      else if method = ''relinquishOutput'' then [NeedBasket (wa_basket args) Removal]
      else if method = ''listActions'' then map (\<lambda>l. NeedLabel l ListLabel) (filter plain_label (wa_labels args))
      else if method = ''internalizeAction''
      then concat (map (\<lambda>i. case i of None \<Rightarrow> [] | Some (b, _) \<Rightarrow> [NeedBasket b Insertion]) (wa_insertions args)) @
           map (\<lambda>l. NeedLabel l ApplyLabel) (wa_labels args)
      else if method = ''proveCertificate'' then [NeedCertificate (wa_privileged args) (disclosed_certificate args)]
      else if method = ''acquireCertificate'' \<and> seekCertificateAcquisitionPermissions cfg
      then [own (js ''certificate acquisition '' @ wa_certType args) Generic]
      else if method = ''listCertificates'' \<and> seekCertificateListingPermissions cfg then [own (js ''certificate list'') Generic]
      else if method = ''relinquishCertificate'' \<and> seekCertificateRelinquishmentPermissions cfg
      then [own (js ''certificate relinquishment '' @ wa_certType args) Generic]
      else if (method = ''discoverByIdentityKey'' \<or> method = ''discoverByAttributes'') \<and> seekPermissionsForIdentityResolution cfg
      then [NeedProtocol False (1, js ''identity resolution'') (js ''self'') Generic]
      else [])"

definition method_policy :: "manager \<Rightarrow> string \<Rightarrow> 'x wallet_args \<Rightarrow> jstr \<Rightarrow> pm \<Rightarrow> bool" where
  "method_policy m method args x s \<longleftrightarrow> list_all (meets m x s) (method_needs (m_config m) method args)"

text \<open>An action: its baskets and its labels but for the two the manager adds, and who may have it signed at once.\<close>

definition action_needs :: "action_args \<Rightarrow> need list" where
  "action_needs args =
     map (\<lambda>b. NeedBasket b Insertion) (filter (\<lambda>b. b \<noteq> []) (map (\<lambda>out. or_empty (ao_basket out)) (aa_outputs args))) @
     map (\<lambda>l. NeedLabel l ApplyLabel) (take (length (aa_labels args) - 2) (aa_labels args))"

definition action_policy :: "manager \<Rightarrow> action_args \<Rightarrow> jstr \<Rightarrow> pm \<Rightarrow> bool" where
  "action_policy m args x s \<longleftrightarrow> list_all (meets m x s) (action_needs args) \<and>
     (op_signAndProcess (aa_options args) = Some True \<longrightarrow> isAdminOriginator m x)"

text \<open>A request whose arguments modules have changed is theirs to answer for.\<close>

definition pm_permits :: "manager \<Rightarrow> 'x pm_query \<Rightarrow> pm \<Rightarrow> bool" where
  "pm_permits m q s \<longleftrightarrow> (sound_manager m \<longrightarrow> (case q of
      WalletQ method args originator mods \<Rightarrow>
        set mods \<subseteq> set (permissionModules (m_config m)) \<and> (mods = [] \<longrightarrow> method_policy m method args (or_empty originator) s)
    | CreateActionQ args originator mods \<Rightarrow>
        set mods \<subseteq> set (permissionModules (m_config m)) \<and> (mods = [] \<longrightarrow> action_policy m args (or_empty originator) s)
    | SignActionQ _ _ _ originator net \<Rightarrow> (case net of None \<Rightarrow> originator = None
        | Some n \<Rightarrow> 0 < n \<longrightarrow> may_spend m True (or_empty originator) n s)
    | _ \<Rightarrow> True))"

section \<open>Facts that stay\<close>

lemma pm_rel_log: "pm_rel s t \<Longrightarrow> set (pm_log s) \<subseteq> set (pm_log t)"
  by (simp add: pm_rel_def)

lemma known_mono: "known m key s \<Longrightarrow> set (pm_log s) \<subseteq> set (pm_log t) \<Longrightarrow> known m key t"
  by (auto simp: known_def)

lemma has_leave_mono: "has_leave m asked r u s \<Longrightarrow> set (pm_log s) \<subseteq> set (pm_log t) \<Longrightarrow> has_leave m asked r u t"
  unfolding has_leave_def agreed_def by (blast intro: known_mono)

lemma originator_may_mono: "originator_may m x c \<Longrightarrow> (\<And>y. c y \<Longrightarrow> d y) \<Longrightarrow> originator_may m x d"
  by (auto simp: originator_may_def split: sum.splits)

lemma may_mono:
  assumes "set (pm_log s) \<subseteq> set (pm_log t)"
  shows "may_protocol m asked x priv pid cp u s \<Longrightarrow> may_protocol m asked x priv pid cp u t"
    and "may_basket m asked x b bu s \<Longrightarrow> may_basket m asked x b bu t"
    and "may_certificate m asked x priv c s \<Longrightarrow> may_certificate m asked x priv c t"
    and "may_spend m asked x n s \<Longrightarrow> may_spend m asked x n t"
proof -
  note mono = has_leave_mono [OF _ assms]
  show "may_protocol m asked x priv pid cp u s \<Longrightarrow> may_protocol m asked x priv pid cp u t"
    unfolding may_protocol_def Let_def by (erule originator_may_mono) (use mono in blast)
  show "may_basket m asked x b bu s \<Longrightarrow> may_basket m asked x b bu t"
    unfolding may_basket_def by (erule originator_may_mono) (use mono in blast)
  show "may_certificate m asked x priv c s \<Longrightarrow> may_certificate m asked x priv c t"
    unfolding may_certificate_def by (erule originator_may_mono) (use mono in blast)
  show "may_spend m asked x n s \<Longrightarrow> may_spend m asked x n t"
    unfolding may_spend_def by (erule originator_may_mono) (use mono in blast)
qed

lemma may_label_mono:
  assumes "set (pm_log s) \<subseteq> set (pm_log t)" "may_label m asked x l u s"
  shows "may_label m asked x l u t"
  using assms(2) unfolding may_label_def
  by (rule originator_may_mono) (use may_mono(1) [OF assms(1)] known_mono [OF _ assms(1)] in blast)

lemma meets_mono: "set (pm_log s) \<subseteq> set (pm_log t) \<Longrightarrow> meets m x s n \<Longrightarrow> meets m x t n"
  unfolding meets_def by (cases n) (simp_all add: may_mono may_label_mono)

lemma method_policy_mono: "set (pm_log s) \<subseteq> set (pm_log t) \<Longrightarrow> method_policy m method args x s \<Longrightarrow> method_policy m method args x t"
  unfolding method_policy_def by (simp add: list_all_iff meets_mono)

lemma action_policy_mono:
  assumes "set (pm_log s) \<subseteq> set (pm_log t)" "action_policy m args x s"
  shows "action_policy m args x t"
  using assms(2) unfolding action_policy_def by (simp add: list_all_iff) (use meets_mono [OF assms(1)] in blast)

lemma pm_permits_mono: "set (pm_log s) \<subseteq> set (pm_log t) \<Longrightarrow> pm_permits m q s \<Longrightarrow> pm_permits m q t"
  unfolding pm_permits_def
  by (cases q) (auto split: option.splits simp: method_policy_mono action_policy_mono may_mono(4))

lemma promises_grow_refl [simp]: "promises_grow ps ps"
  by (simp add: promises_grow_def)

lemma entries_grow_refl [simp]: "entries_grow xs xs"
  by (simp add: entries_grow_def)

lemma promises_grow_trans: "promises_grow ps qs \<Longrightarrow> promises_grow qs us \<Longrightarrow> promises_grow ps us"
  by (force simp: promises_grow_def)

lemma entries_grow_trans: "entries_grow ps qs \<Longrightarrow> entries_grow qs us \<Longrightarrow> entries_grow ps us"
  by (force simp: entries_grow_def)

interpretation rl: rely settled "pm_inv m" pm_rel "pm_permits m" for m
proof
  show "pm_rel s s" for s by (simp add: pm_rel_def)
  show "pm_rel s t \<Longrightarrow> pm_rel t u \<Longrightarrow> pm_rel s u" for s t u
    unfolding pm_rel_def by (meson promises_grow_trans entries_grow_trans subset_trans)
  show "pm_permits m q s \<Longrightarrow> pm_rel s t \<Longrightarrow> pm_inv m t \<Longrightarrow> pm_permits m q t" for q s t
    by (rule pm_permits_mono [OF pm_rel_log])
qed

end
