(* ===== verification/PermStep.thy ===== *)
theory PermStep
  imports PermInv
begin

text \<open>
  Every change of the manager's state keeps its invariant: opening, joining and settling requests, the locks, the
  caches.
\<close>

lemma pm_invD:
  assumes "pm_inv m s"
  shows "no_lost_waiter s" "active_ok s" "pending_ok s" "answers_ok s" "caches_ok m s"
  using assms by (simp_all add: pm_inv_def)

text \<open>A change of the caches and the history only.\<close>

lemma side_step:
  assumes "pm_inv m s" "pm_promises t = pm_promises s" "pm_entries t = pm_entries s" "pm_active t = pm_active s"
    "set (pm_log s) \<subseteq> set (pm_log t)" "caches_ok m t"
  shows "pm_inv m t \<and> pm_rel s t"
proof -
  note inv = pm_invD [OF assms(1)]
  have "open_promise t key w \<longleftrightarrow> open_promise s key w" for key w by (simp add: open_promise_def assms(2))
  then have "no_lost_waiter t" using inv(1) assms(3-5) unfolding no_lost_waiter_def by (simp add: subset_iff) blast
  moreover have "active_ok t" "pending_ok t" using inv(2,3) by (simp_all add: active_ok_def pending_ok_def assms(2-4))
  moreover have "answers_ok t" using inv(4) assms(2,5) unfolding answers_ok_def by (simp add: subset_iff) blast
  ultimately show ?thesis using assms by (simp add: pm_inv_def pm_rel_def)
qed

lemma caches_okD: "pm_inv m s \<Longrightarrow> pm_cache s key \<noteq> None \<or> pm_recent s key \<noteq> None \<Longrightarrow> known m key s"
  unfolding pm_inv_def caches_ok_def by blast

lemma caches_okI:
  assumes "\<And>key. pm_cache s key \<noteq> None \<Longrightarrow> known m key s" "\<And>key. pm_recent s key \<noteq> None \<Longrightarrow> known m key s"
  shows "caches_ok m s"
  using assms unfolding caches_ok_def by blast

lemma logE_fields [simp]:
  "pm_now (logE e s) = pm_now s" "pm_active (logE e s) = pm_active s" "pm_entries (logE e s) = pm_entries s"
  "pm_promises (logE e s) = pm_promises s" "pm_cache (logE e s) = pm_cache s" "pm_recent (logE e s) = pm_recent s"
  "pm_tails (logE e s) = pm_tails s" "pm_callbacks (logE e s) = pm_callbacks s" "pm_log (logE e s) = e # pm_log s"
  by (simp_all add: logE_def)

lemma known_log:
  "known m key (logE (Granted r) s) \<longleftrightarrow> key = buildRequestKey (m_out m) r \<or> known m key s"
  "known m key (logE (Found k t) s) \<longleftrightarrow> key = k \<or> known m key s"
  by (auto simp: known_def)

lemma known_same: "pm_log t = pm_log s \<Longrightarrow> known m key t = known m key s"
  by (simp add: known_def)

lemma known_upd [simp]: "known m key (s\<lparr>pm_cache := c\<rparr>) = known m key s" "known m key (s\<lparr>pm_recent := r\<rparr>) = known m key s"
  by (simp_all add: known_def)

lemma cache_found_step:
  assumes "pm_inv m s"
  shows "pm_inv m (logE (Found key t) (cachePermission key e s)) \<and> pm_rel s (logE (Found key t) (cachePermission key e s))"
proof (rule side_step [OF assms])
  show "caches_ok m (logE (Found key t) (cachePermission key e s))"
    using caches_okD [OF assms] by (intro caches_okI; simp add: known_log cachePermission_def split: if_splits)
qed (simp_all add: cachePermission_def subset_insertI)

lemma mark_step:
  assumes "pm_inv m s"
  shows "pm_inv m (logE (Granted r) (markRecentGrant (m_out m) r s)) \<and> pm_rel s (logE (Granted r) (markRecentGrant (m_out m) r s))"
proof (rule side_step [OF assms])
  show "caches_ok m (logE (Granted r) (markRecentGrant (m_out m) r s))"
    using caches_okD [OF assms]
    by (intro caches_okI; simp add: known_log markRecentGrant_def split: if_splits)
qed (simp_all add: markRecentGrant_def subset_insertI)

lemma remember_step:
  assumes "pm_inv m s"
  shows "pm_inv m (remember_grant m r e s) \<and> pm_rel s (remember_grant m r e s)"
proof (rule side_step [OF assms])
  show "caches_ok m (remember_grant m r e s)"
    using caches_okD [OF assms]
    by (intro caches_okI; simp add: remember_grant_def known_log markRecentGrant_def cachePermission_def split: if_splits)
qed (simp_all add: remember_grant_def markRecentGrant_def cachePermission_def subset_insertI)

lemma forget_step:
  assumes "pm_inv m s"
  shows "pm_inv m (s\<lparr>pm_cache := (pm_cache s)(key := None)\<rparr>) \<and> pm_rel s (s\<lparr>pm_cache := (pm_cache s)(key := None)\<rparr>)"
    and "pm_inv m (s\<lparr>pm_recent := (pm_recent s)(key := None)\<rparr>) \<and> pm_rel s (s\<lparr>pm_recent := (pm_recent s)(key := None)\<rparr>)"
proof -
  have "caches_ok m (s\<lparr>pm_cache := (pm_cache s)(key := None)\<rparr>)" "caches_ok m (s\<lparr>pm_recent := (pm_recent s)(key := None)\<rparr>)"
    using caches_okD [OF assms] by (intro caches_okI; simp split: if_splits)+
  then show "pm_inv m (s\<lparr>pm_cache := (pm_cache s)(key := None)\<rparr>) \<and> pm_rel s (s\<lparr>pm_cache := (pm_cache s)(key := None)\<rparr>)"
    "pm_inv m (s\<lparr>pm_recent := (pm_recent s)(key := None)\<rparr>) \<and> pm_rel s (s\<lparr>pm_recent := (pm_recent s)(key := None)\<rparr>)"
    using assms by (simp_all add: side_step)
qed

text \<open>Clock, handlers, manifests, established pacts and lock tails are not in the invariant.\<close>

lemma aside_step:
  assumes "pm_inv m s" "pm_promises t = pm_promises s" "pm_entries t = pm_entries s" "pm_active t = pm_active s"
    "pm_log t = pm_log s" "pm_cache t = pm_cache s" "pm_recent t = pm_recent s"
  shows "pm_inv m t \<and> pm_rel s t"
proof (rule side_step [OF assms(1-4)])
  show "caches_ok m t" using assms pm_invD(5) [OF assms(1)] by (simp add: caches_ok_def known_same [of t s])
qed (simp add: assms)

section \<open>Requests\<close>

definition opened :: "jstr \<Rightarrow> flow_request \<Rightarrow> pm \<Rightarrow> pm" where
  "opened key r s = s\<lparr>pm_promises := pm_promises s @ [\<lparr>pr_key = Some key, pr_outcome = None\<rparr>],
     pm_entries := pm_entries s @ [\<lparr>en_key = key, en_request = r, en_pending = [length (pm_promises s)]\<rparr>],
     pm_active := (pm_active s)(key \<mapsto> length (pm_entries s))\<rparr>"

lemma promises_grow_append [simp]: "promises_grow ps (ps @ qs)"
  by (simp add: promises_grow_def nth_append)

lemma entries_grow_append [simp]: "entries_grow xs (xs @ ys)"
  by (simp add: entries_grow_def nth_append)

lemma caches_same: "pm_cache t = pm_cache s \<Longrightarrow> pm_recent t = pm_recent s \<Longrightarrow> set (pm_log s) \<subseteq> set (pm_log t) \<Longrightarrow> caches_ok m s \<Longrightarrow> caches_ok m t"
  unfolding caches_ok_def using known_mono by metis

lemma opened_fields [simp]:
  "pm_promises (opened key r s) = pm_promises s @ [\<lparr>pr_key = Some key, pr_outcome = None\<rparr>]"
  "pm_entries (opened key r s) = pm_entries s @ [\<lparr>en_key = key, en_request = r, en_pending = [length (pm_promises s)]\<rparr>]"
  "pm_active (opened key r s) = (pm_active s)(key \<mapsto> length (pm_entries s))"
  "pm_cache (opened key r s) = pm_cache s" "pm_recent (opened key r s) = pm_recent s" "pm_log (opened key r s) = pm_log s"
  by (simp_all add: opened_def)

lemma active_okD: "active_ok s \<Longrightarrow> pm_active s key = Some eid \<Longrightarrow>
    eid < length (pm_entries s) \<and> en_key (pm_entries s ! eid) = key \<and> en_pending (pm_entries s ! eid) \<noteq> []"
  by (simp add: active_ok_def)

lemma pending_okD: "pending_ok s \<Longrightarrow> eid < length (pm_entries s) \<Longrightarrow> w \<in> set (en_pending (pm_entries s ! eid)) \<Longrightarrow>
    w < length (pm_promises s) \<and> pr_key (pm_promises s ! w) = Some (en_key (pm_entries s ! eid))"
  by (simp add: pending_ok_def)

lemma opened_step:
  assumes I: "pm_inv m s" and free: "pm_active s key = None"
  shows "pm_inv m (opened key r s) \<and> pm_rel s (opened key r s)"
proof -
  note inv = pm_invD [OF I]
  have "no_lost_waiter (opened key r s)"
    unfolding no_lost_waiter_def
  proof (intro allI impI)
    fix k w assume w: "open_promise (opened key r s) k w"
    show "(\<exists>eid. pm_active (opened key r s) k = Some eid \<and> w \<in> set (en_pending (pm_entries (opened key r s) ! eid))) \<or>
        LateDelete k \<in> set (pm_log (opened key r s))"
    proof (cases "w < length (pm_promises s)")
      case True
      with w have "open_promise s k w" by (simp add: open_promise_def nth_append)
      with inv(1) consider eid where "pm_active s k = Some eid" "w \<in> set (en_pending (pm_entries s ! eid))" | "LateDelete k \<in> set (pm_log s)"
        unfolding no_lost_waiter_def by blast
      then show ?thesis
      proof cases
        case 1
        then have "eid < length (pm_entries s)" "k \<noteq> key" using active_okD [OF inv(2)] free by auto
        with 1 show ?thesis by (auto simp: nth_append)
      qed simp
    next
      case False
      with w have "k = key" "w = length (pm_promises s)" by (auto simp: open_promise_def nth_append split: if_splits)
      then show ?thesis by simp
    qed
  qed
  moreover have "active_ok (opened key r s)"
    unfolding active_ok_def using active_okD [OF inv(2)] by (auto simp: nth_append less_SucI split: if_splits)
  moreover have "pending_ok (opened key r s)"
    unfolding pending_ok_def using pending_okD [OF inv(3)] by (auto simp: nth_append less_Suc_eq)
  moreover have "answers_ok (opened key r s)"
    using inv(4) unfolding answers_ok_def by (auto simp: nth_append less_Suc_eq)
  moreover have "caches_ok m (opened key r s)" by (rule caches_same [OF _ _ _ inv(5)]) simp_all
  ultimately show ?thesis by (simp add: pm_inv_def pm_rel_def)
qed

definition joined :: "nat \<Rightarrow> (flow_request \<Rightarrow> flow_request) \<Rightarrow> pm \<Rightarrow> pm" where
  "joined eid f s = change_entry eid (\<lambda>e. e\<lparr>en_request := f (en_request e), en_pending := en_pending e @ [length (pm_promises s)]\<rparr>)
     (s\<lparr>pm_promises := pm_promises s @ [\<lparr>pr_key = Some (en_key (pm_entries s ! eid)), pr_outcome = None\<rparr>]\<rparr>)"

lemma joined_fields:
  assumes "eid < length (pm_entries s)"
  shows "pm_promises (joined eid f s) = pm_promises s @ [\<lparr>pr_key = Some (en_key (pm_entries s ! eid)), pr_outcome = None\<rparr>]"
    "length (pm_entries (joined eid f s)) = length (pm_entries s)"
    "\<And>i. i < length (pm_entries s) \<Longrightarrow> en_key (pm_entries (joined eid f s) ! i) = en_key (pm_entries s ! i)"
    "\<And>i. i < length (pm_entries s) \<Longrightarrow> en_pending (pm_entries (joined eid f s) ! i) =
       en_pending (pm_entries s ! i) @ (if i = eid then [length (pm_promises s)] else [])"
    "pm_active (joined eid f s) = pm_active s" "pm_cache (joined eid f s) = pm_cache s" "pm_recent (joined eid f s) = pm_recent s"
    "pm_log (joined eid f s) = pm_log s"
  using assms by (simp_all add: joined_def change_entry_def nth_list_update)

lemma joined_step:
  assumes I: "pm_inv m s" and act: "pm_active s key = Some eid"
  shows "pm_inv m (joined eid f s) \<and> pm_rel s (joined eid f s)"
proof -
  note inv = pm_invD [OF I]
  have eid: "eid < length (pm_entries s)" "en_key (pm_entries s ! eid) = key" using active_okD [OF inv(2) act] by auto
  note flds = joined_fields [OF eid(1)]
  have "no_lost_waiter (joined eid f s)"
    unfolding no_lost_waiter_def
  proof (intro allI impI)
    fix k w assume w: "open_promise (joined eid f s) k w"
    show "(\<exists>i. pm_active (joined eid f s) k = Some i \<and> w \<in> set (en_pending (pm_entries (joined eid f s) ! i))) \<or>
        LateDelete k \<in> set (pm_log (joined eid f s))"
    proof (cases "w < length (pm_promises s)")
      case True
      with w have "open_promise s k w" by (simp add: open_promise_def nth_append flds)
      with inv(1) consider i where "pm_active s k = Some i" "w \<in> set (en_pending (pm_entries s ! i))" | "LateDelete k \<in> set (pm_log s)"
        unfolding no_lost_waiter_def by blast
      then show ?thesis
      proof cases
        case 1
        then have "i < length (pm_entries s)" using active_okD [OF inv(2)] by auto
        with 1 show ?thesis by (auto simp: flds)
      qed (simp add: flds)
    next
      case False
      with w have "k = key" "w = length (pm_promises s)" by (auto simp: open_promise_def nth_append flds eid split: if_splits)
      with act eid show ?thesis by (simp add: flds)
    qed
  qed
  moreover have "active_ok (joined eid f s)"
    unfolding active_ok_def using active_okD [OF inv(2)] by (auto simp: flds)
  moreover have "pending_ok (joined eid f s)"
    unfolding pending_ok_def using pending_okD [OF inv(3)] by (auto simp: flds nth_append split: if_splits)
  moreover have "answers_ok (joined eid f s)"
    using inv(4) unfolding answers_ok_def by (auto simp: flds nth_append less_Suc_eq)
  moreover have "caches_ok m (joined eid f s)" by (rule caches_same [OF _ _ _ inv(5)]) (simp_all add: flds)
  moreover have "entries_grow (pm_entries s) (pm_entries (joined eid f s))" by (simp add: entries_grow_def flds)
  ultimately show ?thesis by (simp add: pm_inv_def pm_rel_def flds)
qed

section \<open>Settling\<close>

lemma settle_all_fields [simp]:
  "pm_active (settle_all ws x s) = pm_active s" "pm_entries (settle_all ws x s) = pm_entries s"
  "pm_cache (settle_all ws x s) = pm_cache s" "pm_recent (settle_all ws x s) = pm_recent s"
  "pm_log (settle_all ws x s) = pm_log s" "pm_tails (settle_all ws x s) = pm_tails s"
  "length (pm_promises (settle_all ws x s)) = length (pm_promises s)"
  by (simp_all add: settle_all_def)

lemma settle_all_nth:
  "w < length (pm_promises s) \<Longrightarrow> pm_promises (settle_all ws x s) ! w =
     (if w \<in> set ws then settle_promise x (pm_promises s ! w) else pm_promises s ! w)"
  by (simp add: settle_all_def)

lemma settle_promise_simps [simp]:
  "pr_key (settle_promise x p) = pr_key p" "pr_outcome (settle_promise x p) = (if pr_outcome p = None then Some x else pr_outcome p)"
  by (simp_all add: settle_promise_def)

lemma settle_all_grow: "promises_grow (pm_promises s) (pm_promises (settle_all ws x s))"
  by (simp add: promises_grow_def settle_all_nth)

lemma settle_all_open: "open_promise (settle_all ws x s) key w \<longleftrightarrow> open_promise s key w \<and> w \<notin> set ws"
proof (cases "w < length (pm_promises s)")
  case True
  then show ?thesis by (simp add: open_promise_def settle_all_nth)
qed (simp add: open_promise_def)

text \<open>Settling the promises \<open>ws\<close> with a refusal, with an answer that is in the history, or promises of no request.\<close>

lemma settle_step:
  assumes I: "pm_inv m s"
    and ok: "\<And>w key b. w \<in> set ws \<Longrightarrow> w < length (pm_promises s) \<Longrightarrow> pr_key (pm_promises s ! w) = Some key \<Longrightarrow> x = Inr b \<Longrightarrow>
      b \<and> Answered key \<in> set es"
  shows "pm_inv m ((settle_all ws x s)\<lparr>pm_log := es @ pm_log s\<rparr>) \<and> pm_rel s ((settle_all ws x s)\<lparr>pm_log := es @ pm_log s\<rparr>)"
    (is "pm_inv m ?t \<and> _")
proof -
  note inv = pm_invD [OF I]
  have opn: "open_promise ?t key w \<longleftrightarrow> open_promise s key w \<and> w \<notin> set ws" for key w
    using settle_all_open [of ws x s key w] by (simp add: open_promise_def)
  have "no_lost_waiter ?t"
    using inv(1) unfolding no_lost_waiter_def opn by simp blast
  moreover have "active_ok ?t" using inv(2) by (simp add: active_ok_def)
  moreover have "pending_ok ?t" using inv(3) by (simp add: pending_ok_def settle_all_nth)
  moreover have "answers_ok ?t"
    unfolding answers_ok_def
  proof (intro allI impI)
    fix w key b assume w: "w < length (pm_promises ?t)" "pr_key (pm_promises ?t ! w) = Some key"
      "pr_outcome (pm_promises ?t ! w) = Some (Inr b)"
    then have k: "pr_key (pm_promises s ! w) = Some key" by (simp add: settle_all_nth split: if_splits)
    consider "pr_outcome (pm_promises s ! w) = Some (Inr b)" | "w \<in> set ws" "x = Inr b"
      using w by (auto simp: settle_all_nth split: if_splits)
    then show "b \<and> Answered key \<in> set (pm_log ?t)"
    proof cases
      case 1
      then show ?thesis using inv(4) [unfolded answers_ok_def, rule_format, of w key b] w k by simp
    next
      case 2
      then show ?thesis using ok [of w key b] w k by simp
    qed
  qed
  moreover have "caches_ok m ?t" by (rule caches_same [OF _ _ _ inv(5)]) simp_all
  moreover have "pm_rel s ?t" by (simp add: pm_rel_def settle_all_grow)
  ultimately show ?thesis by (simp add: pm_inv_def)
qed

definition refusal_or_yes :: "pm_error + bool \<Rightarrow> bool" where
  "refusal_or_yes x \<longleftrightarrow> x \<noteq> Inr False"

lemma settle_entry_eq:
  "settle_entry eid x s = (settle_all (en_pending (entry eid s)) x s)\<lparr>pm_log := (if x = Inr True then [Answered (en_key (entry eid s))] else []) @ pm_log s\<rparr>"
  by (simp add: settle_entry_def logE_def Let_def)

lemma settle_entry_fields [simp]:
  "pm_active (settle_entry eid x s) = pm_active s" "pm_entries (settle_entry eid x s) = pm_entries s"
  by (simp_all add: settle_entry_eq)

lemma settle_entry_open: "open_promise (settle_entry eid x s) key w \<longleftrightarrow> open_promise s key w \<and> w \<notin> set (en_pending (entry eid s))"
  using settle_all_open [of "en_pending (entry eid s)" x s key w] by (simp add: open_promise_def settle_entry_eq)

lemma settle_entry_step:
  assumes "pm_inv m s" "eid < length (pm_entries s)" "refusal_or_yes x"
  shows "pm_inv m (settle_entry eid x s) \<and> pm_rel s (settle_entry eid x s)"
  unfolding settle_entry_eq
proof (rule settle_step [OF assms(1)])
  fix w key b
  assume "w \<in> set (en_pending (entry eid s))" "w < length (pm_promises s)" "pr_key (pm_promises s ! w) = Some key" "x = Inr b"
  with pending_okD [OF pm_invD(3) [OF assms(1)] assms(2)] assms(3)
  show "b \<and> Answered key \<in> set (if x = Inr True then [Answered (en_key (entry eid s))] else [])"
    by (auto simp: entry_def refusal_or_yes_def)
qed

text \<open>A key may be deleted when nobody waits for its request, or when the history says so.\<close>

lemma delete_step:
  assumes I: "pm_inv m s"
    and ok: "(\<forall>w. \<not> open_promise s key w) \<or> LateDelete key \<in> set es"
  shows "pm_inv m ((delete_active key s)\<lparr>pm_log := es @ pm_log s\<rparr>) \<and> pm_rel s ((delete_active key s)\<lparr>pm_log := es @ pm_log s\<rparr>)"
    (is "pm_inv m ?t \<and> _")
proof -
  note inv = pm_invD [OF I]
  have opn: "open_promise ?t k w \<longleftrightarrow> open_promise s k w" for k w
    by (simp add: open_promise_def delete_active_def)
  have "no_lost_waiter ?t"
    unfolding no_lost_waiter_def opn
  proof (intro allI impI)
    fix k w assume w: "open_promise s k w"
    then show "(\<exists>eid. pm_active ?t k = Some eid \<and> w \<in> set (en_pending (pm_entries ?t ! eid))) \<or> LateDelete k \<in> set (pm_log ?t)"
      using inv(1) ok unfolding no_lost_waiter_def by (cases "k = key") (auto simp: delete_active_def)
  qed
  moreover have "active_ok ?t" using inv(2) by (simp add: active_ok_def delete_active_def)
  moreover have "pending_ok ?t" using inv(3) by (simp add: pending_ok_def delete_active_def)
  moreover have "answers_ok ?t" using inv(4) by (auto simp: answers_ok_def delete_active_def)
  moreover have "caches_ok m ?t" by (rule caches_same [OF _ _ _ inv(5)]) (simp_all add: delete_active_def)
  moreover have "pm_rel s ?t" by (auto simp: pm_rel_def delete_active_def)
  ultimately show ?thesis by (simp add: pm_inv_def)
qed

text \<open>All that wait for a key wait in its active request, or a late deletion is in the history.\<close>

lemma late_keeps: "pm_inv m s \<Longrightarrow> LateDelete key \<in> set (pm_log s) \<Longrightarrow>
   pm_inv m (delete_active key s) \<and> pm_rel s (delete_active key s)"
proof -
  assume I: "pm_inv m s" and l: "LateDelete key \<in> set (pm_log s)"
  have "pm_inv m ((delete_active key s)\<lparr>pm_log := [LateDelete key] @ pm_log s\<rparr>)"
    using delete_step [OF I, of key "[LateDelete key]"] by simp
  note inv = pm_invD [OF this]
  have "no_lost_waiter (delete_active key s)"
    using inv(1) l unfolding no_lost_waiter_def by (fastforce simp: open_promise_def delete_active_def)
  moreover have "active_ok (delete_active key s)" "pending_ok (delete_active key s)" "answers_ok (delete_active key s)"
    using pm_invD [OF I] by (auto simp: active_ok_def pending_ok_def answers_ok_def delete_active_def)
  moreover have "caches_ok m (delete_active key s)" by (rule caches_same [OF _ _ _ pm_invD(5) [OF I]]) (simp_all add: delete_active_def)
  ultimately show ?thesis by (simp add: pm_inv_def pm_rel_def delete_active_def)
qed

definition all_settled :: "nat \<Rightarrow> pm \<Rightarrow> bool" where
  "all_settled eid s \<longleftrightarrow> (\<forall>w key. w \<in> set (en_pending (entry eid s)) \<longrightarrow> \<not> open_promise s key w)"

lemma all_settled_after: "all_settled eid (settle_entry eid x s)"
  by (simp add: all_settled_def settle_entry_open entry_def)

lemma delete_settled:
  assumes "pm_inv m s" "pm_active s key = Some eid" "all_settled eid s"
  shows "pm_inv m (delete_active key s) \<and> pm_rel s (delete_active key s)"
proof (cases "LateDelete key \<in> set (pm_log s)")
  case True
  then show ?thesis by (rule late_keeps [OF assms(1)])
next
  case False
  then have "\<forall>w. \<not> open_promise s key w"
    using pm_invD(1) [OF assms(1)] assms(2,3) unfolding no_lost_waiter_def all_settled_def entry_def by force
  then show ?thesis using delete_step [OF assms(1), of key "[]"] by (simp add: delete_active_def)
qed

lemma rel_trans: "pm_inv m t \<and> pm_rel s t \<Longrightarrow> pm_inv m u \<and> pm_rel t u \<Longrightarrow> pm_inv m u \<and> pm_rel s u"
  using rl.R_trans by blast

lemma settle_and_delete_step:
  assumes "pm_inv m s" "pm_active s key = Some eid" "refusal_or_yes x"
  shows "pm_inv m (delete_active key (settle_entry eid x s)) \<and> pm_rel s (delete_active key (settle_entry eid x s))"
proof -
  have "eid < length (pm_entries s)" using active_okD [OF pm_invD(2) [OF assms(1)] assms(2)] by simp
  then have s: "pm_inv m (settle_entry eid x s) \<and> pm_rel s (settle_entry eid x s)"
    by (rule settle_entry_step [OF assms(1) _ assms(3)])
  moreover have "pm_inv m (delete_active key (settle_entry eid x s)) \<and>
      pm_rel (settle_entry eid x s) (delete_active key (settle_entry eid x s))"
    by (rule delete_settled) (use s assms(2) in \<open>auto simp: all_settled_after\<close>)
  ultimately show ?thesis by (rule rel_trans)
qed

lemma finish_entry_step:
  assumes "pm_inv m s" "all_settled eid s"
  shows "pm_inv m (finish_entry eid key s) \<and> pm_rel s (finish_entry eid key s)"
proof (cases "pm_active s key")
  case None
  then show ?thesis using assms(1) rl.R_refl by (simp add: finish_entry_def)
next
  case (Some k)
  show ?thesis
  proof (cases "k = eid")
    case True
    with Some delete_settled [OF assms(1) _ assms(2)] show ?thesis by (simp add: finish_entry_def)
  next
    case False
    with Some delete_step [OF assms(1), of key "[LateDelete key]"] show ?thesis
      by (simp add: finish_entry_def logE_def delete_active_def)
  qed
qed

section \<open>Locks\<close>

definition is_gate :: "nat \<Rightarrow> pm \<Rightarrow> bool" where
  "is_gate w s \<longleftrightarrow> w < length (pm_promises s) \<and> pr_key (pm_promises s ! w) = None"

lemma stable_gate: "rl.stable m (is_gate w)"
  by (auto simp: rl.stable_def is_gate_def pm_rel_def promises_grow_def)

lemma gate_step:
  assumes "pm_inv m s"
  shows "pm_inv m (s\<lparr>pm_promises := pm_promises s @ [\<lparr>pr_key = None, pr_outcome = None\<rparr>], pm_tails := f\<rparr>) \<and>
    pm_rel s (s\<lparr>pm_promises := pm_promises s @ [\<lparr>pr_key = None, pr_outcome = None\<rparr>], pm_tails := f\<rparr>)" (is "pm_inv m ?t \<and> _")
proof -
  note inv = pm_invD [OF assms]
  have "open_promise ?t key w \<longleftrightarrow> open_promise s key w" for key w
    by (auto simp: open_promise_def nth_append)
  then have "no_lost_waiter ?t" using inv(1) by (simp add: no_lost_waiter_def)
  moreover have "active_ok ?t" using inv(2) by (simp add: active_ok_def)
  moreover have "pending_ok ?t" using inv(3) by (auto simp: pending_ok_def nth_append less_Suc_eq)
  moreover have "answers_ok ?t" using inv(4) by (auto simp: answers_ok_def nth_append less_Suc_eq)
  moreover have "caches_ok m ?t" by (rule caches_same [OF _ _ _ inv(5)]) simp_all
  ultimately show ?thesis by (simp add: pm_inv_def pm_rel_def)
qed

lemma open_gate_step:
  assumes "pm_inv m s" "is_gate g s"
  shows "pm_inv m (settle_all [g] (Inr True) s) \<and> pm_rel s (settle_all [g] (Inr True) s)"
proof -
  have "(settle_all [g] (Inr True) s)\<lparr>pm_log := [] @ pm_log s\<rparr> = settle_all [g] (Inr True) s" by (simp add: settle_all_def)
  moreover have "pm_inv m ((settle_all [g] (Inr True) s)\<lparr>pm_log := [] @ pm_log s\<rparr>) \<and> pm_rel s ((settle_all [g] (Inr True) s)\<lparr>pm_log := [] @ pm_log s\<rparr>)"
    by (rule settle_step [OF assms(1)]) (use assms(2) in \<open>auto simp: is_gate_def\<close>)
  ultimately show ?thesis by metis
qed

end
