(* ===== verification/PermKeeps.thy ===== *)
theory PermKeeps
  imports PermStep
begin

text \<open>
  What the methods guarantee at every step: the parts that only read tokens, build tokens or settle requests keep
  the invariant whatever the other calls do. The rules are collected in \<open>pm_keeps\<close>; most programs follow from them
  by their shape.
\<close>

named_theorems pm_keeps

fun harmless :: "'x pm_query \<Rightarrow> bool" where
  "harmless (WalletQ _ _ _ _) = False"
| "harmless (CreateActionQ _ _ _) = False"
| "harmless (SignActionQ _ _ _ originator net) = (net = None \<and> originator = None)"
| "harmless _ = True"

lemma harmless_permitted: "harmless q \<Longrightarrow> pm_permits m q s"
  by (cases q) (simp_all add: pm_permits_def)

declare rl.keeps_rules [pm_keeps]

lemma keeps_ask [pm_keeps]: "harmless q \<Longrightarrow> rl.keeps m (awaitP q get bad)"
  by (rule rl.keeps_await) (rule harmless_permitted)

lemma keeps_yield [pm_keeps]: "rl.keeps m yieldP"
  by (simp add: yieldP_def rl.keeps_wp harmless_permitted)

lemma keeps_call [pm_keeps]: "rl.keeps m p \<Longrightarrow> rl.keeps m (callP p)"
  unfolding callP_def by (intro pm_keeps)

text \<open>A call yields before it returns, so only what is stable is known of its result.\<close>

lemma spec_call:
  assumes "rl.spec m P p Q" "\<And>a. rl.stable m (Q a)"
  shows "rl.spec m P (callP p) Q"
  unfolding callP_def
proof (rule rl.spec_bind [OF assms(1)], rule rl.specI)
  fix a s assume "pm_inv m s" "Q a s"
  with assms(2) show "rl.wp m (bindP yieldP (\<lambda>_. Ret a)) (\<lambda>a t. pm_inv m t \<and> Q a t) (\<lambda>_. pm_inv m) s"
    by (auto simp: yieldP_def rl.stable_def harmless_permitted)
qed

lemma keeps_callEvent [pm_keeps]: "rl.keeps m (callEvent ev key r)"
  unfolding callEvent_def by (intro pm_keeps) simp

section \<open>Reading and building tokens\<close>

lemma keeps_decrypt_field [pm_keeps]: "rl.keeps m (decryptPermissionTokenField c)"
  unfolding decryptPermissionTokenField_def by (intro pm_keeps) simp

lemma keeps_decrypt_text [pm_keeps]: "rl.keeps m (decrypt_text n f)"
  unfolding decrypt_text_def by (intro pm_keeps)

lemma keeps_maybeEncrypt [pm_keeps]: "rl.keeps m (maybeEncryptMetadata n s)"
  unfolding maybeEncryptMetadata_def by (intro pm_keeps) simp

lemma keeps_maybeDecrypt [pm_keeps]: "rl.keeps m (maybeDecryptMetadata n s)"
  unfolding maybeDecryptMetadata_def by (intro pm_keeps) simp

lemma keeps_token_at [pm_keeps]: "rl.keeps m (token_at n beef out)"
  unfolding token_at_def by (intro pm_keeps)

lemma keeps_decryptProtocol [pm_keeps]: "rl.keeps m (decryptProtocolTokenFields n fs)"
  unfolding decryptProtocolTokenFields_def by (intro pm_keeps)

lemma keeps_buildPushdrop [pm_keeps]: "rl.keeps m (buildPushdropFields n r e a)"
  unfolding buildPushdropFields_def encryptPermissionTokenField_def by (intro pm_keeps) simp

lemma keeps_skip_expired [pm_keeps]: "rl.keeps m (skip_expired b t)"
  unfolding skip_expired_def by (intro pm_keeps)

lemma keeps_find [pm_keeps]:
  "rl.keeps m (findProtocolToken n x p pid cp b l)"
  "rl.keeps m (findBasketToken n x bk b l)"
  "rl.keeps m (findCertificateToken n x p v ty fs b l)"
  "rl.keeps m (findSpendingToken n x l)"
  unfolding findProtocolToken_def findBasketToken_def findCertificateToken_def findSpendingToken_def
  by (intro pm_keeps; simp)+

lemma keeps_all_tokens_in [pm_keeps]: "rl.keeps m (all_tokens_in n x p pid cp beef outs seen ts)"
  by (induction outs arbitrary: seen ts) (auto intro!: pm_keeps split: prod.split)

lemma keeps_all_tokens_of [pm_keeps]: "rl.keeps m (all_tokens_of n x p pid cp tags seen ts)"
  by (induction tags arbitrary: seen ts) (auto intro!: pm_keeps split: prod.split)

lemma keeps_findAll [pm_keeps]: "rl.keeps m (findAllProtocolTokens n x p pid cp l)"
  unfolding findAllProtocolTokens_def by (intro pm_keeps)

lemma keeps_querySpent [pm_keeps]: "rl.keeps m (querySpentSince n t)"
  unfolding querySpentSince_def by (intro pm_keeps) simp

lemma keeps_cached [pm_keeps]: "rl.keeps m (isPermissionCached key)"
  unfolding isPermissionCached_def
  by (rule rl.keeps_Do) (auto simp: forget_step rl.R_refl intro: pm_keeps)

lemma keeps_recent [pm_keeps]: "rl.keeps m (isRecentlyGranted key)"
  unfolding isRecentlyGranted_def
  by (rule rl.keeps_Do) (auto simp: forget_step rl.R_refl intro: pm_keeps split: option.split)

lemma keeps_cache_found [pm_keeps]: "rl.keeps m (cache_found key t)"
  unfolding cache_found_def by (rule rl.keeps_Do) (simp_all add: cache_found_step pm_keeps)

section \<open>Listing\<close>

lemma keeps_collectP: "(\<And>out. rl.keeps m (f out)) \<Longrightarrow> rl.keeps m (collectP f outs seen ts)"
  by (induction outs arbitrary: seen ts) (auto intro!: pm_keeps split: option.split)

lemma keeps_collect_all: "(\<And>beef out. rl.keeps m (f beef out)) \<Longrightarrow> rl.keeps m (collect_all bk f tags seen ts)"
  by (induction tags arbitrary: seen ts) (auto intro!: pm_keeps keeps_collectP split: prod.split)

lemma keeps_lists [pm_keeps]:
  "rl.keeps m (listProtocolPermissions n x p pn l cp)"
  "rl.keeps m (listBasketAccess n x b)"
  "rl.keeps m (listCertificateAccess n x p ty v)"
  "rl.keeps m (listSpendingAuthorizations n x)"
  unfolding listProtocolPermissions_def listBasketAccess_def listCertificateAccess_def listSpendingAuthorizations_def
    collect_protocol_token_def read_token_def read_basket_token_def read_certificate_token_def
  by (intro pm_keeps keeps_collect_all; simp)+

lemma keeps_tokens_to_revoke [pm_keeps]: "rl.keeps m (tokens_to_revoke n x inc)"
  unfolding tokens_to_revoke_def listed_when_def by (intro pm_keeps)

section \<open>Requests\<close>

lemma keeps_manifest [pm_keeps]: "rl.keeps m (fetchManifestPermissions x)"
  unfolding fetchManifestPermissions_def by (intro pm_keeps rl.keeps_Do aside_step) simp_all

lemma keeps_pact_mark: "pm_inv m s \<Longrightarrow> pm_inv m (markPactEstablished x c s) \<and> pm_rel s (markPactEstablished x c s)"
  by (rule aside_step) (simp_all add: markPactEstablished_def)

lemma spec_open: "rl.spec m (\<lambda>s. pm_active s key = None) (open_request key r)
    (\<lambda>w s. w < length (pm_promises s) \<and> pr_key (pm_promises s ! w) = Some key)"
  unfolding rl.spec_def open_request_def using opened_step by (simp add: opened_def)

lemma spec_join: "rl.spec m (\<lambda>s. pm_active s key = Some eid) (join_request eid f)
    (\<lambda>w s. w < length (pm_promises s) \<and> pr_key (pm_promises s ! w) = Some key)"
proof (rule rl.specI)
  fix s assume s: "pm_inv m s" "pm_active s key = Some eid"
  then have "eid < length (pm_entries s)" "en_key (pm_entries s ! eid) = key"
    using active_okD [OF pm_invD(2) [OF s(1)] s(2)] by auto
  with joined_step [OF s] show "rl.wp m (join_request eid f) (\<lambda>w t. pm_inv m t \<and> w < length (pm_promises t) \<and>
      pr_key (pm_promises t ! w) = Some key) (\<lambda>_. pm_inv m) s"
    unfolding join_request_def joined_def [symmetric] by (simp add: joined_fields)
qed

text \<open>Whoever has waited for the promise of a request and went on was given the user's answer.\<close>

lemma stable_key: "rl.stable m (\<lambda>s. w < length (pm_promises s) \<and> pr_key (pm_promises s ! w) = Some key)"
  by (auto simp: rl.stable_def pm_rel_def promises_grow_def)

lemma spec_waited:
  "rl.spec m (\<lambda>s. w < length (pm_promises s) \<and> pr_key (pm_promises s ! w) = Some key) (waitP w)
     (\<lambda>_ s. Answered key \<in> set (pm_log s))"
proof -
  have "rl.spec m (\<lambda>_. True) (waitP w) (\<lambda>b s. settled s w = Some (Inr b))"
    by (rule rl.spec_wait) simp
  from rl.spec_stable [OF this stable_key [of m w key]] show ?thesis
  proof (rule rl.spec_conseq)
    fix b s assume "pm_inv m s" "settled s w = Some (Inr b) \<and> w < length (pm_promises s) \<and> pr_key (pm_promises s ! w) = Some key"
    with pm_invD(4) show "Answered key \<in> set (pm_log s)"
      by (auto simp: answers_ok_def settled_def)
  qed
qed

text \<open>A program after the request, before the promise.\<close>

lemma spec_asked:
  assumes "rl.spec m P p (\<lambda>w s. w < length (pm_promises s) \<and> pr_key (pm_promises s ! w) = Some key)" "rl.keeps m q"
  shows "rl.spec m P (bindP p (\<lambda>w. bindP q (\<lambda>_. waitP w))) (\<lambda>_ s. Answered key \<in> set (pm_log s))"
proof (rule rl.spec_bind [OF assms(1)])
  fix w
  have "rl.spec m (\<lambda>s. w < length (pm_promises s) \<and> pr_key (pm_promises s ! w) = Some key) q
      (\<lambda>_ s. w < length (pm_promises s) \<and> pr_key (pm_promises s ! w) = Some key)"
    using rl.spec_stable [OF assms(2) [unfolded rl.keeps_def] stable_key] by simp
  then show "rl.spec m (\<lambda>s. w < length (pm_promises s) \<and> pr_key (pm_promises s ! w) = Some key) (bindP q (\<lambda>_. waitP w))
      (\<lambda>_ s. Answered key \<in> set (pm_log s))"
    by (rule rl.spec_bind) (rule spec_waited)
qed

text \<open>Reading the active requests, and going on in the same stretch.\<close>

lemma spec_active:
  assumes "rl.spec m (\<lambda>s. pm_active s key = None) p Q" "\<And>eid. rl.spec m (\<lambda>s. pm_active s key = Some eid) (f eid) Q"
  shows "rl.spec m (\<lambda>_. True) (bindP (readP (\<lambda>s. pm_active s key)) (\<lambda>e. case e of None \<Rightarrow> p | Some eid \<Rightarrow> f eid)) Q"
proof (rule rl.spec_bind [where Q = "\<lambda>e s. pm_active s key = e"])
  show "rl.spec m (\<lambda>s. pm_active s key = e) (case e of None \<Rightarrow> p | Some eid \<Rightarrow> f eid) Q" for e
    using assms by (cases e) simp_all
qed (rule rl.spec_read, simp)

lemma keeps_after: "rl.keeps m q \<Longrightarrow> rl.spec m P q (\<lambda>_ _. True)"
  by (rule rl.keeps_spec)

lemma keeps_asked:
  assumes "rl.spec m P p (\<lambda>w s. w < length (pm_promises s) \<and> pr_key (pm_promises s ! w) = Some key)" "\<And>w. rl.keeps m (q w)"
  shows "rl.spec m P (bindP p q) (\<lambda>_ _. True)"
  by (rule rl.spec_bind [OF assms(1)]) (rule keeps_after [OF assms(2)])

lemma keeps_joinOrCreateGrouped [pm_keeps]: "rl.keeps m (joinOrCreateGroupedRequest key x p d)"
  unfolding joinOrCreateGroupedRequest_def rl.keeps_def
  by (rule spec_active, rule keeps_asked [OF spec_open], intro pm_keeps, rule keeps_asked [OF spec_join], intro pm_keeps)

lemma keeps_joinOrCreatePact [pm_keeps]: "rl.keeps m (joinOrCreatePactRequest key x c p d)"
  unfolding joinOrCreatePactRequest_def rl.keeps_def
  by (rule spec_active, rule keeps_asked [OF spec_open], intro pm_keeps, rule keeps_asked [OF spec_join], intro pm_keeps)

lemma spec_lock:
  assumes p: "rl.spec m (\<lambda>_. True) p Q" and Q: "\<And>a. rl.stable m (Q a)"
  shows "rl.spec m (\<lambda>_. True) (withGroupedPermissionFlowLock x p) Q"
proof (rule rl.specI)
  fix s assume s: "pm_inv m s"
  let ?g = "length (pm_promises s)"
  let ?t = "s\<lparr>pm_promises := pm_promises s @ [\<lparr>pr_key = None, pr_outcome = None\<rparr>], pm_tails := (pm_tails s)(x \<mapsto> ?g)\<rparr>"
  let ?open = "\<lambda>s. let t = settle_all [?g] (Inr True) s in if pm_tails t x = Some ?g then t\<lparr>pm_tails := (pm_tails t)(x := None)\<rparr> else t"
  have g: "pm_inv m ?t \<and> pm_rel s ?t" by (rule gate_step [OF s])
  have opn: "pm_inv m (?open u) \<and> pm_rel u (?open u)" if u: "pm_inv m u" "is_gate ?g u" for u
  proof -
    let ?v = "settle_all [?g] (Inr True) u"
    have v: "pm_inv m ?v \<and> pm_rel u ?v" using u by (rule open_gate_step)
    have "pm_inv m (?v\<lparr>pm_tails := (pm_tails ?v)(x := None)\<rparr>) \<and> pm_rel ?v (?v\<lparr>pm_tails := (pm_tails ?v)(x := None)\<rparr>)"
      by (rule aside_step) (use v in simp_all)
    with v rel_trans [OF v] show ?thesis by (simp add: Let_def)
  qed
  have wait: "rl.spec m (is_gate ?g) (case pm_tails s x of None \<Rightarrow> yieldP | Some prior \<Rightarrow> Wait prior (\<lambda>_. Ret ())) (\<lambda>_. is_gate ?g)"
  proof -
    have "rl.keeps m (case pm_tails s x of None \<Rightarrow> yieldP | Some prior \<Rightarrow> Wait prior (\<lambda>_. Ret ()))"
      by (intro pm_keeps) (simp add: rl.keeps_wp)
    from rl.spec_stable [OF this [unfolded rl.keeps_def] stable_gate] show ?thesis by simp
  qed
  have fin: "rl.spec m (is_gate ?g) (finallyP (callP p) (modifyP ?open)) Q"
    by (rule rl.spec_finally [OF spec_call [OF p Q] _ stable_gate Q], rule rl.spec_modify) (use opn in auto)
  have "rl.wp m (bindP (case pm_tails s x of None \<Rightarrow> yieldP | Some prior \<Rightarrow> Wait prior (\<lambda>_. Ret ()))
      (\<lambda>_. finallyP (callP p) (modifyP ?open))) (\<lambda>a t. pm_inv m t \<and> Q a t) (\<lambda>_. pm_inv m) ?t"
    by (rule rl.specD [OF rl.spec_bind [OF wait fin]]) (use g in \<open>auto simp: is_gate_def\<close>)
  with g show "rl.wp m (withGroupedPermissionFlowLock x p) (\<lambda>a t. pm_inv m t \<and> Q a t) (\<lambda>_. pm_inv m) s"
    by (simp add: withGroupedPermissionFlowLock_def Let_def)
qed

lemma keeps_lock [pm_keeps]: "rl.keeps m p \<Longrightarrow> rl.keeps m (withGroupedPermissionFlowLock x p)"
  unfolding rl.keeps_def by (rule spec_lock) (simp_all add: rl.stable_def)

section \<open>Answers\<close>

lemma keeps_with_active:
  assumes "\<And>eid. rl.spec m (\<lambda>s. pm_active s key = Some eid) (f eid) (\<lambda>_ _. True)"
  shows "rl.keeps m (with_active key f)"
  unfolding with_active_def rl.keeps_def by (rule spec_active [OF rl.spec_Throw assms])

lemma spec_settle:
  assumes "refusal_or_yes x"
  shows "rl.spec m (\<lambda>s. pm_active s key = Some eid) (settle_and_delete key x eid) (\<lambda>_ _. True)"
  unfolding settle_and_delete_def
  by (rule rl.spec_modify) (use settle_and_delete_step [OF _ _ assms] in auto)

lemma keeps_denials [pm_keeps]:
  "rl.keeps m (denyPermission key)" "rl.keeps m (denyActiveRequest key)" "rl.keeps m (denyGroupedPermission key)"
  "rl.keeps m (denyCounterpartyPermission key)" "rl.keeps m (dismissGroupedPermission key)"
  unfolding denyPermission_def denyGroupedPermission_def denyCounterpartyPermission_def denyActiveRequest_def dismissGroupedPermission_def
  by (intro keeps_with_active spec_settle; simp add: refusal_or_yes_def)+

lemma keeps_mark [pm_keeps]: "rl.keeps m (mark_granted m r)"
  unfolding mark_granted_def by (rule rl.keeps_modify) (rule mark_step)

end
