(* ===== verification/PermAuth.thy ===== *)
theory PermAuth
  imports PermKeeps
begin

text \<open>
  The \<open>ensure\<close> methods return only to an originator that may: it is exempt, the permission is known, or the user has
  agreed. The statements hold for managers whose originators normalise once and for all, and which do not ask for
  groups of permissions while letting everyone insert into baskets (\<open>sound_manager\<close>).
\<close>

abbreviation sure :: "manager \<Rightarrow> bool \<Rightarrow> bool" where
  "sure m P \<equiv> sound_manager m \<longrightarrow> P"

section \<open>Originators\<close>

lemma js_trim_idem: "js_trim (js_trim s) = js_trim s"
proof (rule js_trim_not_space)
  let ?d = "dropWhile js_space s"
  have r: "js_trim s = rev (dropWhile js_space (rev ?d))" by (simp add: js_trim_def)
  show "js_trim s = [] \<or> \<not> js_space (hd (js_trim s)) \<and> \<not> js_space (last (js_trim s))"
  proof (cases "js_trim s = []")
    case False
    then have ne: "dropWhile js_space (rev ?d) \<noteq> []" by (simp add: r)
    then have "\<not> js_space (hd (dropWhile js_space (rev ?d)))" by (rule hd_dropWhile)
    with ne have l: "\<not> js_space (last (js_trim s))" by (simp add: r last_rev)
    obtain z where z: "?d = js_trim s @ z" by (metis r rev_append rev_rev_ident takeWhile_dropWhile_id)
    with False have "hd (js_trim s) = hd ?d" "?d \<noteq> []" by simp_all
    with hd_dropWhile [of js_space s] l show ?thesis by simp
  qed simp
qed

lemma normalize_trim: "normalizeOriginator out (js_trim x) = normalizeOriginator out x"
  by (simp add: normalizeOriginator_def js_trim_idem)

lemma toLowerCase_Nil [simp]: "toLowerCase s = [] \<longleftrightarrow> s = []"
  by (simp add: toLowerCase_def)

lemma normalize_nonempty:
  assumes "js_trim x \<noteq> []"
  shows "normalizeOriginator out x \<noteq> []"
proof (cases "o_url out (if hasScheme (js_trim x) then js_trim x else js ''https://'' @ js_trim x)")
  case None
  with assms show ?thesis by (simp add: normalizeOriginator_def)
next
  case (Some u)
  obtain h p q where "u = (h, p, q)" by (cases u) auto
  with Some assms show ?thesis by (simp add: normalizeOriginator_def Let_def)
qed

lemma prepare_normal:
  assumes "prepareOriginator out x = Inr (y, l)"
  shows "js_trim x \<noteq> []" "y = normalizeOriginator out x"
proof -
  show t: "js_trim x \<noteq> []" using assms by (auto simp: prepareOriginator_def Let_def split: if_splits)
  with assms normalize_nonempty [OF t, of out] show "y = normalizeOriginator out x"
    by (simp add: prepareOriginator_def Let_def normalize_trim)
qed

lemma prepare_again:
  assumes "origins_ok out" "prepareOriginator out x = Inr (y, l)"
  shows "normalizeOriginator out y = y" "y \<noteq> []" "\<exists>l'. prepareOriginator out y = Inr (y, l')"
proof -
  note p = prepare_normal [OF assms(2)]
  show n: "normalizeOriginator out y = y" using assms(1) p(2) by (simp add: origins_ok_def)
  show y: "y \<noteq> []" using normalize_nonempty [OF p(1)] p(2) by simp
  have "js_trim y \<noteq> []" using n y by (auto simp: normalizeOriginator_def)
  with n y show "\<exists>l'. prepareOriginator out y = Inr (y, l')"
    by (simp add: prepareOriginator_def Let_def normalize_trim)
qed

section \<open>Requests as prepared for the flow\<close>

lemma prepared_simps [simp]:
  "pr_type (prepared_request m r) = pr_type r" "pr_privileged (prepared_request m r) = pr_privileged r"
  "pr_protocolID (prepared_request m r) = pr_protocolID r" "pr_basket (prepared_request m r) = pr_basket r"
  "pr_certificate (prepared_request m r) = pr_certificate r" "pr_spending (prepared_request m r) = pr_spending r"
  "pr_usageType (prepared_request m r) = pr_usageType r"
  "pr_originator (prepared_request m r) = (let n = normalizeOriginator (m_out m) (pr_originator r) in if n = [] then pr_originator r else n)"
  by (simp_all add: prepared_request_def Let_def)

lemma prepared_counterparty: "pr_counterparty (prepared_request m r) =
    (if pr_type r = ProtocolPerm \<and> map_option fst (pr_protocolID r) = Some 1 then Some [] else pr_counterparty r)"
  by (simp add: prepared_request_def Let_def del: map_option_eq_Some)

text \<open>The reason, the renewal and the line items are not in the key.\<close>

lemma key_cong:
  assumes "pr_type a = pr_type b" "pr_originator a = pr_originator b" "pr_usageType a = pr_usageType b"
    "pr_privileged a = pr_privileged b" "pr_protocolID a = pr_protocolID b" "pr_counterparty a = pr_counterparty b"
    "pr_basket a = pr_basket b" "pr_certificate a = pr_certificate b" "pr_spending a = pr_spending b"
  shows "buildActiveRequestKey out a = buildActiveRequestKey out b"
  by (simp only: buildActiveRequestKey_def buildRequestKey_def privileged_of_def assms)

lemma agreed_cong:
  assumes "pr_type a = pr_type b" "pr_originator a = pr_originator b" "pr_usageType a = pr_usageType b"
    "pr_privileged a = pr_privileged b" "pr_protocolID a = pr_protocolID b" "pr_counterparty a = pr_counterparty b"
    "pr_basket a = pr_basket b" "pr_certificate a = pr_certificate b" "pr_spending a = pr_spending b"
  shows "agreed m a s = agreed m b s"
proof -
  have "buildActiveRequestKey (m_out m) (prepared_request m a) = buildActiveRequestKey (m_out m) (prepared_request m b)"
    by (rule key_cong) (simp_all only: prepared_simps prepared_counterparty assms)
  then show ?thesis by (simp add: agreed_def)
qed

lemma agreed_upd [simp]:
  "agreed m (r\<lparr>pr_reason := a\<rparr>) s = agreed m r s" "agreed m (r\<lparr>pr_renewal := b\<rparr>) s = agreed m r s"
  "agreed m (r\<lparr>pr_previousToken := t\<rparr>) s = agreed m r s"
  by (rule agreed_cong; simp)+

lemma agreed_items:
  "agreed m (spending_request x n items) s = agreed m (spending_request x n []) s"
  by (simp add: agreed_def buildActiveRequestKey_def buildRequestKey_def spending_request_def blank_request_def Let_def)

text \<open>What the flow may return on: the user's answer, or a permission known after a group was asked for.\<close>

definition after_group :: "manager \<Rightarrow> perm_request \<Rightarrow> pm \<Rightarrow> bool" where
  "after_group m p s \<longleftrightarrow> (case pr_type p of
     ProtocolPerm \<Rightarrow> (case pr_protocolID p of None \<Rightarrow> False
       | Some pid \<Rightarrow> may_protocol m False (pr_originator p) (privileged_of p) pid (or_self (pr_counterparty p)) Generic s)
   | BasketPerm \<Rightarrow> seekGroupedPermission (m_config m) \<and>
       may_basket m False (pr_originator p) (case pr_basket p of None \<Rightarrow> [] | Some b \<Rightarrow> b) Insertion s
   | CertificatePerm \<Rightarrow> (case pr_certificate p of None \<Rightarrow> False
       | Some c \<Rightarrow> may_certificate m False (pr_originator p) (privileged_of p) c s)
   | SpendingPerm \<Rightarrow> (case pr_spending p of None \<Rightarrow> False | Some sp \<Rightarrow> may_spend m False (pr_originator p) (sp_satoshis sp) s))"

definition flow_ok :: "manager \<Rightarrow> bool \<Rightarrow> perm_request \<Rightarrow> pm \<Rightarrow> bool" where
  "flow_ok m asked r s \<longleftrightarrow> asked \<and> (agreed m r s \<or> after_group m (prepared_request m r) s)"

text \<open>The same under renewal and with a reason.\<close>

definition dressed :: "perm_request \<Rightarrow> perm_request \<Rightarrow> bool" where
  "dressed r q \<longleftrightarrow> (\<exists>a b t. q = r\<lparr>pr_reason := a, pr_renewal := b, pr_previousToken := t\<rparr>)"

lemma dressed_agreed: "dressed r q \<Longrightarrow> agreed m q s = agreed m r s"
  by (auto simp: dressed_def)

lemma dressed_fields:
  assumes "dressed r q"
  shows "pr_type q = pr_type r" "pr_originator q = pr_originator r" "pr_privileged q = pr_privileged r"
    "pr_protocolID q = pr_protocolID r" "pr_counterparty q = pr_counterparty r" "pr_basket q = pr_basket r"
    "pr_certificate q = pr_certificate r" "pr_spending q = pr_spending r"
  using assms by (auto simp: dressed_def)

lemma dressed_self: "dressed r (r\<lparr>pr_reason := a\<rparr>)" "dressed r (r\<lparr>pr_reason := a, pr_renewal := b, pr_previousToken := t\<rparr>)"
  unfolding dressed_def
  by (rule exI [of _ a], rule exI [of _ "pr_renewal r"], rule exI [of _ "pr_previousToken r"], simp) blast

section \<open>From the flow's promise to a leave\<close>

lemma agreed_leave: "asked \<Longrightarrow> agreed m (r\<lparr>pr_usageType := u\<rparr>) s \<Longrightarrow> has_leave m asked r u s"
  by (simp add: has_leave_def)

lemma leave_protocol:
  assumes m: "sound_manager m" and x: "prepareOriginator (m_out m) x = Inr (y, l)" and adm: "\<not> isAdminOriginator m y"
    and lev: "fst pid \<noteq> 0" and white: "\<not> (\<not> priv \<and> isWhitelistedCounterpartyProtocol (m_config m) cp pid)"
    and priv: "priv = (differentiatePrivilegedOperations (m_config m) \<and> p0)" and cp: "cp = level1_counterparty pid cp0"
    and q: "dressed ((protocol_request y priv pid cp)\<lparr>pr_usageType := u\<rparr>) q" and ok: "flow_ok m asked q s"
  shows "has_leave m asked (protocol_request y priv pid cp) u s"
proof -
  have y: "normalizeOriginator (m_out m) y = y" "y \<noteq> []" "\<exists>l'. prepareOriginator (m_out m) y = Inr (y, l')"
    using m prepare_again [OF _ x] by (auto simp: sound_manager_def)
  from ok consider "asked" "agreed m q s" | "asked" "after_group m (prepared_request m q) s" by (auto simp: flow_ok_def)
  then show ?thesis
  proof cases
    case 1
    with dressed_agreed [OF q] show ?thesis by (simp add: agreed_leave)
  next
    case 2
    let ?c = "or_self (pr_counterparty (prepared_request m q))"
    have c: "level1_counterparty pid ?c = cp"
      by (auto simp: prepared_counterparty dressed_fields [OF q] protocol_request_def blank_request_def or_self_def cp level1_counterparty_def)
    have "may_protocol m False y priv pid ?c Generic s"
      using 2(2) y(1,2) by (simp add: after_group_def dressed_fields [OF q] protocol_request_def blank_request_def privileged_of_def)
    with y(3) adm lev white c priv show ?thesis
      by (auto simp: may_protocol_def originator_may_def isProtocolUsageTypeExempted_def Let_def has_leave_def)
  qed
qed

lemma leave_basket:
  assumes m: "sound_manager m" and x: "prepareOriginator (m_out m) x = Inr (y, l)" and adm: "\<not> isAdminOriginator m y"
    and q: "dressed ((basket_request y b)\<lparr>pr_usageType := u\<rparr>) q" and ok: "flow_ok m asked q s"
  shows "has_leave m asked (basket_request y b) u s"
proof -
  have y: "normalizeOriginator (m_out m) y = y" "y \<noteq> []" "\<exists>l'. prepareOriginator (m_out m) y = Inr (y, l')"
    using m prepare_again [OF _ x] by (auto simp: sound_manager_def)
  from ok consider "asked" "agreed m q s" | "asked" "after_group m (prepared_request m q) s" by (auto simp: flow_ok_def)
  then show ?thesis
  proof cases
    case 1
    with dressed_agreed [OF q] show ?thesis by (simp add: agreed_leave)
  next
    case 2
    then have "seekGroupedPermission (m_config m)" "may_basket m False y b Insertion s"
      using y(1,2) by (simp_all add: after_group_def dressed_fields [OF q] basket_request_def blank_request_def)
    with m y(3) adm show ?thesis
      by (auto simp: may_basket_def originator_may_def isBasketUsageRequired_def sound_manager_def has_leave_def)
  qed
qed

lemma leave_certificate:
  assumes m: "sound_manager m" and x: "prepareOriginator (m_out m) x = Inr (y, l)" and adm: "\<not> isAdminOriginator m y"
    and seek: "seekCertificateDisclosurePermissions (m_config m)"
    and priv: "priv = (differentiatePrivilegedOperations (m_config m) \<and> p0)"
    and q: "dressed ((certificate_request y priv c)\<lparr>pr_usageType := u\<rparr>) q" and ok: "flow_ok m asked q s"
  shows "has_leave m asked (certificate_request y priv c) u s"
proof -
  have y: "normalizeOriginator (m_out m) y = y" "y \<noteq> []" "\<exists>l'. prepareOriginator (m_out m) y = Inr (y, l')"
    using m prepare_again [OF _ x] by (auto simp: sound_manager_def)
  from ok consider "asked" "agreed m q s" | "asked" "after_group m (prepared_request m q) s" by (auto simp: flow_ok_def)
  then show ?thesis
  proof cases
    case 1
    with dressed_agreed [OF q] show ?thesis by (simp add: agreed_leave)
  next
    case 2
    then have "may_certificate m False y priv c s"
      using y(1,2) by (simp add: after_group_def dressed_fields [OF q] certificate_request_def blank_request_def privileged_of_def)
    with y(3) adm seek priv show ?thesis
      by (auto simp: may_certificate_def originator_may_def has_leave_def)
  qed
qed

lemma leave_spending:
  assumes m: "sound_manager m" and x: "prepareOriginator (m_out m) x = Inr (y, l)" and adm: "\<not> isAdminOriginator m y"
    and seek: "seekSpendingPermissions (m_config m)"
    and q: "dressed (spending_request y n items) q" and ok: "flow_ok m asked q s"
  shows "has_leave m asked (spending_request y n []) None s"
proof -
  have y: "normalizeOriginator (m_out m) y = y" "y \<noteq> []" "\<exists>l'. prepareOriginator (m_out m) y = Inr (y, l')"
    using m prepare_again [OF _ x] by (auto simp: sound_manager_def)
  have none: "(spending_request y n [])\<lparr>pr_usageType := None\<rparr> = spending_request y n []"
    by (simp add: spending_request_def blank_request_def)
  from ok consider "asked" "agreed m q s" | "asked" "after_group m (prepared_request m q) s" by (auto simp: flow_ok_def)
  then show ?thesis
  proof cases
    case 1
    with dressed_agreed [OF q] none show ?thesis by (simp add: has_leave_def agreed_items [of m y n items])
  next
    case 2
    then have "may_spend m False y n s"
      using y(1,2) by (simp add: after_group_def dressed_fields [OF q] spending_request_def blank_request_def)
    with y(3) adm seek show ?thesis
      by (auto simp: may_spend_def originator_may_def has_leave_def)
  qed
qed

end
