(* ===== verification/PermGates.thy ===== *)
theory PermGates
  imports PermAuth
begin

text \<open>
  The gates: an \<open>ensure\<close> method that returns has established that the originator may, the \<open>has\<close> methods answer true
  only for what is known, and the flow returns only on the user's answer or on a permission known by then.
\<close>

section \<open>Stable facts\<close>

lemma stable_log: "(\<And>s t. set (pm_log s) \<subseteq> set (pm_log t) \<Longrightarrow> F s \<Longrightarrow> F t) \<Longrightarrow> rl.stable m F"
  unfolding rl.stable_def using pm_rel_log by blast

lemma agreed_mono: "set (pm_log s) \<subseteq> set (pm_log t) \<Longrightarrow> agreed m r s \<Longrightarrow> agreed m r t"
  by (auto simp: agreed_def)

lemma after_group_mono: "set (pm_log s) \<subseteq> set (pm_log t) \<Longrightarrow> after_group m p s \<Longrightarrow> after_group m p t"
  unfolding after_group_def by (auto split: perm_type.splits option.splits simp: may_mono)

lemma flow_ok_mono: "set (pm_log s) \<subseteq> set (pm_log t) \<Longrightarrow> flow_ok m asked r s \<Longrightarrow> flow_ok m asked r t"
  unfolding flow_ok_def using agreed_mono after_group_mono by blast

lemma stable_imp: "(\<And>s t. set (pm_log s) \<subseteq> set (pm_log t) \<Longrightarrow> F s \<Longrightarrow> F t) \<Longrightarrow> rl.stable m (\<lambda>s. A \<longrightarrow> F s)"
  by (rule stable_log) blast

lemma stable_may:
  "rl.stable n (\<lambda>s. A \<longrightarrow> may_protocol m asked x p pid cp u s)" "rl.stable n (\<lambda>s. A \<longrightarrow> may_basket m asked x b bu s)"
  "rl.stable n (\<lambda>s. A \<longrightarrow> may_certificate m asked x p c s)" "rl.stable n (\<lambda>s. A \<longrightarrow> may_spend m asked x k s)"
  "rl.stable n (\<lambda>s. A \<longrightarrow> may_label m asked x l lu s)" "rl.stable n (\<lambda>s. A \<longrightarrow> flow_ok m asked r s)"
  "rl.stable n (\<lambda>s. A \<longrightarrow> after_group m r s)"
  by (rule stable_imp, erule (1) may_mono may_label_mono flow_ok_mono after_group_mono)+

lemma stable_True [simp]: "rl.stable m (\<lambda>s. A)"
  by (simp add: rl.stable_def)

text \<open>A fact that depends on the result only through a condition.\<close>

lemma spec_call_may:
  assumes "rl.spec m P p (\<lambda>a s. A a \<longrightarrow> F s)" "rl.stable m F"
  shows "rl.spec m P (callP p) (\<lambda>a s. A a \<longrightarrow> F s)"
  by (rule spec_call [OF assms(1)]) (use assms(2) in \<open>auto simp: rl.stable_def\<close>)

section \<open>Caches\<close>

lemma spec_cached: "rl.spec m (\<lambda>_. True) (isPermissionCached key) (\<lambda>c s. c \<longrightarrow> known m key s)"
proof (rule rl.specI)
  fix s assume s: "pm_inv m s"
  have k: "known m key s" if "cache_valid key s"
    using that caches_okD [OF s] by (auto simp: cache_valid_def split: option.splits)
  with s show "rl.wp m (isPermissionCached key) (\<lambda>c t. pm_inv m t \<and> (c \<longrightarrow> known m key t)) (\<lambda>_. pm_inv m) s"
    unfolding isPermissionCached_def by (simp add: forget_step rl.R_refl)
qed

lemma spec_recent: "rl.spec m (\<lambda>_. True) (isRecentlyGranted key) (\<lambda>c s. c \<longrightarrow> known m key s)"
proof (rule rl.specI)
  fix s assume s: "pm_inv m s"
  have "known m key s" if "recent_valid key s"
    using that caches_okD [OF s] by (auto simp: recent_valid_def split: option.splits)
  with s show "rl.wp m (isRecentlyGranted key) (\<lambda>c t. pm_inv m t \<and> (c \<longrightarrow> known m key t)) (\<lambda>_. pm_inv m) s"
    unfolding isRecentlyGranted_def by (auto simp: forget_step rl.R_refl split: option.split)
qed

lemma spec_covered: "rl.spec m (\<lambda>_. True) (is_covered key) (\<lambda>c s. c \<longrightarrow> known m key s)"
  unfolding is_covered_def
proof (rule rl.spec_bind [OF spec_cached])
  fix c show "rl.spec m (\<lambda>s. c \<longrightarrow> known m key s) (if c then Ret True else isRecentlyGranted key) (\<lambda>c s. c \<longrightarrow> known m key s)"
    using spec_recent by (auto intro: rl.spec_Ret)
qed

lemma spec_cache_found: "rl.spec m (\<lambda>_. True) (cache_found key t) (\<lambda>_ s. known m key s)"
  unfolding cache_found_def rl.spec_def
  by (auto simp: cache_found_step rl.R_refl known_log)

text \<open>The common part of the methods for protocols, baskets and certificates.\<close>

lemma spec_leave:
  fixes flow :: "perm_request \<Rightarrow> ('x, bool) pmp"
  assumes flow: "\<And>q. dressed r q \<Longrightarrow> rl.spec m (\<lambda>_. True) (flow q) (\<lambda>_. F)"
    and known: "\<And>s. known m key s \<Longrightarrow> F s" and found: "rl.keeps m look" and r: "dressed r r'" "pr_reason r' = a"
  shows "rl.spec m (\<lambda>_. True) (bindP (is_covered key) (\<lambda>c. if c then Ret True
     else bindP (callP look) (use_token flow key r' seek none expired))) (\<lambda>_. F)"
proof (rule rl.spec_bind [OF spec_covered])
  fix c
  have ren: "dressed r (r'\<lparr>pr_renewal := True, pr_previousToken := Some t\<rparr>)" for t
    using r(1) by (auto simp: dressed_def) (use dressed_self(2) [unfolded dressed_def] in blast)
  have found_ok: "rl.spec m (\<lambda>_. True) (cache_found key t :: ('x, bool) pmp) (\<lambda>_. F)" for t
    by (rule rl.spec_conseq [OF spec_cache_found]) (use known in auto)
  have use: "rl.spec m (\<lambda>_. True) (use_token flow key r' seek none expired token) (\<lambda>_. F)" for token
  proof (cases token)
    case None
    then show ?thesis using flow [OF r(1)] by (simp add: use_token_def rl.spec_Throw)
  next
    case (Some t)
    have "rl.spec m (\<lambda>_. True) (if e then (if \<not> seek then Throw expired else flow (r'\<lparr>pr_renewal := True, pr_previousToken := Some t\<rparr>))
        else cache_found key t) (\<lambda>_. F)" for e
      using flow [OF ren] found_ok by (simp add: rl.spec_Throw)
    note branches = this
    show ?thesis unfolding Some use_token_def option.case
      by (rule rl.spec_then [OF rl.keeps_read branches])
  qed
  show "rl.spec m (\<lambda>s. c \<longrightarrow> known m key s) (if c then Ret True else bindP (callP look) (use_token flow key r' seek none expired)) (\<lambda>_. F)"
    using known by (auto intro!: rl.spec_Ret rl.spec_then pm_keeps found use)
qed

section \<open>The gates over a flow\<close>

text \<open>What is asked of a flow: to return only when it may.\<close>

definition flow_sound :: "manager \<Rightarrow> bool \<Rightarrow> (perm_request \<Rightarrow> ('x, bool) pmp) \<Rightarrow> bool" where
  "flow_sound m asked flow \<longleftrightarrow> (\<forall>r. rl.spec m (\<lambda>_. True) (flow r) (\<lambda>_ s. sure m (flow_ok m asked r s)))"

lemma no_flow_sound: "flow_sound m asked no_flow"
  by (simp add: flow_sound_def no_flow_def rl.spec_Throw)

lemma flow_soundD: "flow_sound m asked flow \<Longrightarrow> (\<And>s. sure m (flow_ok m asked q s) \<Longrightarrow> F s) \<Longrightarrow> rl.spec m (\<lambda>_. True) (flow q) (\<lambda>_. F)"
  using rl.spec_conseq [of m "\<lambda>_. True" "flow q" "\<lambda>_ s. sure m (flow_ok m asked q s)" "\<lambda>_. True" "\<lambda>_. F"]
  by (auto simp: flow_sound_def)

lemma spec_if: "(b \<Longrightarrow> rl.spec m P p Q) \<Longrightarrow> (\<not> b \<Longrightarrow> rl.spec m P q Q) \<Longrightarrow> rl.spec m P (if b then p else q) Q"
  by simp

lemma spec_ensureProtocol:
  assumes flow: "flow_sound m asked flow"
  shows "rl.spec m (\<lambda>_. True) (ensureProtocol_with flow m x p0 pid cp0 reason seek u) (\<lambda>_ s. sure m (may_protocol m asked x p0 pid cp0 u s))"
proof (cases "prepareOriginator (m_out m) x")
  case (Inl e)
  then show ?thesis by (simp add: ensureProtocol_with_def rl.spec_Throw)
next
  case (Inr yl)
  obtain y l where x: "prepareOriginator (m_out m) x = Inr (y, l)" using Inr by (cases yl) auto
  let ?cp = "level1_counterparty pid cp0" and ?p = "differentiatePrivilegedOperations (m_config m) \<and> p0"
  let ?r = "protocol_request y ?p pid ?cp"
  note may = may_protocol_def originator_may_def x Let_def
  show ?thesis unfolding ensureProtocol_with_def x sum.case prod.case Let_def
  proof (intro spec_if rl.spec_Ret rl.spec_Throw spec_leave [where r = "?r\<lparr>pr_usageType := Some (protocol_usage_name u)\<rparr>"])
    fix q assume a: "\<not> isAdminOriginator m y" "fst pid \<noteq> 0" "\<not> isAdminProtocol pid"
      "\<not> (\<not> ?p \<and> isWhitelistedCounterpartyProtocol (m_config m) ?cp pid)"
      and q: "dressed (?r\<lparr>pr_usageType := Some (protocol_usage_name u)\<rparr>) q"
    show "rl.spec m (\<lambda>_. True) (flow q) (\<lambda>_ s. sure m (may_protocol m asked x p0 pid cp0 u s))"
      by (rule flow_soundD [OF flow]) (use leave_protocol [OF _ x a(1,2,4) refl refl q] a(3) in \<open>auto simp: may\<close>)
  next
    fix s assume "\<not> isAdminProtocol pid" "known m (buildRequestKey (m_out m) ?r) s"
    then show "sure m (may_protocol m asked x p0 pid cp0 u s)" by (simp add: may has_leave_def)
  qed (auto simp: may dressed_self intro: pm_keeps)
qed

lemma spec_ensureBasket:
  assumes flow: "flow_sound m asked flow"
  shows "rl.spec m (\<lambda>_. True) (ensureBasket_with flow m x b reason seek u) (\<lambda>_ s. sure m (may_basket m asked x b u s))"
proof (cases "prepareOriginator (m_out m) x")
  case (Inl e)
  then show ?thesis by (simp add: ensureBasket_with_def rl.spec_Throw)
next
  case (Inr yl)
  obtain y l where x: "prepareOriginator (m_out m) x = Inr (y, l)" using Inr by (cases yl) auto
  note may = may_basket_def originator_may_def x Let_def
  show ?thesis unfolding ensureBasket_with_def x sum.case prod.case Let_def
  proof (intro spec_if rl.spec_Ret rl.spec_Throw spec_leave [where r = "(basket_request y b)\<lparr>pr_usageType := Some (basket_usage_name u)\<rparr>"])
    fix q assume a: "\<not> isAdminOriginator m y" "\<not> isAdminBasket b"
      and q: "dressed ((basket_request y b)\<lparr>pr_usageType := Some (basket_usage_name u)\<rparr>) q"
    show "rl.spec m (\<lambda>_. True) (flow q) (\<lambda>_ s. sure m (may_basket m asked x b u s))"
      by (rule flow_soundD [OF flow]) (use leave_basket [OF _ x a(1) q] a(2) in \<open>auto simp: may\<close>)
  qed (auto simp: may dressed_self has_leave_def intro: pm_keeps)
qed

lemma spec_ensureCertificate:
  assumes flow: "flow_sound m asked flow"
  shows "rl.spec m (\<lambda>_. True) (ensureCertificate_with flow m x p0 c reason seek) (\<lambda>_ s. sure m (may_certificate m asked x p0 c s))"
proof (cases "prepareOriginator (m_out m) x")
  case (Inl e)
  then show ?thesis by (simp add: ensureCertificate_with_def rl.spec_Throw)
next
  case (Inr yl)
  obtain y l where x: "prepareOriginator (m_out m) x = Inr (y, l)" using Inr by (cases yl) auto
  let ?p = "differentiatePrivilegedOperations (m_config m) \<and> p0"
  let ?r = "certificate_request y ?p c"
  note may = may_certificate_def originator_may_def x Let_def
  show ?thesis unfolding ensureCertificate_with_def x sum.case prod.case Let_def
  proof (intro spec_if rl.spec_Ret rl.spec_Throw spec_leave [where r = "?r\<lparr>pr_usageType := Some (js ''disclosure'')\<rparr>"])
    fix q assume a: "\<not> isAdminOriginator m y" "\<not> \<not> seekCertificateDisclosurePermissions (m_config m)"
      and q: "dressed (?r\<lparr>pr_usageType := Some (js ''disclosure'')\<rparr>) q"
    show "rl.spec m (\<lambda>_. True) (flow q) (\<lambda>_ s. sure m (may_certificate m asked x p0 c s))"
      by (rule flow_soundD [OF flow]) (use leave_certificate [OF _ x a(1) _ refl q] a(2) in \<open>auto simp: may\<close>)
  qed (auto simp: may dressed_self has_leave_def intro: pm_keeps)
qed

lemma spec_ensureSpending:
  assumes flow: "flow_sound m asked flow"
  shows "rl.spec m (\<lambda>_. True) (ensureSpending_with flow m x n items reason seek) (\<lambda>_ s. sure m (may_spend m asked x n s))"
proof (cases "prepareOriginator (m_out m) x")
  case (Inl e)
  then show ?thesis by (simp add: ensureSpending_with_def rl.spec_Throw)
next
  case (Inr yl)
  obtain y l where x: "prepareOriginator (m_out m) x = Inr (y, l)" using Inr by (cases yl) auto
  let ?key = "buildRequestKey (m_out m) (spending_request y n [])" and ?r = "(spending_request y n items)\<lparr>pr_reason := reason\<rparr>"
  let ?F = "\<lambda>s. sure m (may_spend m asked x n s)"
  note may = may_spend_def originator_may_def x Let_def has_leave_def
  have known: "?F s" if "known m ?key s" for s using that by (simp add: may)
  have fl: "rl.spec m (\<lambda>_. True) (flow q) (\<lambda>_. ?F)"
    if "\<not> isAdminOriginator m y" "seekSpendingPermissions (m_config m)" "dressed (spending_request y n items) q" for q
    by (rule flow_soundD [OF flow]) (use leave_spending [OF _ x that] in \<open>auto simp: may\<close>)
  have dr: "dressed (spending_request y n items) ?r" "\<And>t. dressed (spending_request y n items) (?r\<lparr>pr_renewal := True, pr_previousToken := t\<rparr>)"
    by (simp_all add: dressed_self)
  have found: "rl.spec m (\<lambda>_. True) (cache_found ?key t) (\<lambda>_. ?F)" for t
    by (rule rl.spec_conseq [OF spec_cache_found]) (use known in auto)
  have rest: "rl.spec m (\<lambda>_. True) (bindP (isPermissionCached ?key) (\<lambda>c. if c then Ret True else bindP (callP (findSpendingToken m y l)) g)) (\<lambda>_. ?F)"
    if "\<And>token. rl.spec m (\<lambda>_. True) (g token) (\<lambda>_. ?F)" for g
  proof (rule rl.spec_bind [OF spec_cached])
    fix c show "rl.spec m (\<lambda>s. c \<longrightarrow> known m ?key s) (if c then Ret True else bindP (callP (findSpendingToken m y l)) g) (\<lambda>_. ?F)"
      using known that by (auto intro!: rl.spec_Ret rl.spec_then pm_keeps)
  qed
  show ?thesis unfolding ensureSpending_with_def x sum.case prod.case Let_def
  proof (intro spec_if rl.spec_Ret rl.spec_Throw rest)
    fix token assume a: "\<not> isAdminOriginator m y" "\<not> \<not> seekSpendingPermissions (m_config m)"
    have s: "seekSpendingPermissions (m_config m)" using a(2) by simp
    show "rl.spec m (\<lambda>_. True) (case token of
        None \<Rightarrow> if \<not> seek then Throw (Err ''No spending authorization found, (seekPermission=false).'' []) else flow ?r
      | Some t \<Rightarrow> if pt_authorizedAmount t = None \<or> pt_authorizedAmount t = Some 0
          then (if \<not> seek then Throw (Err ''No spending authorization found, (seekPermission=false).'' []) else flow ?r)
          else bindP (callP (querySpentSince m t)) (\<lambda>spentSoFar.
            if spentSoFar + n \<le> nan0 (pt_authorizedAmount t) then cache_found ?key t
            else if \<not> seek then Throw (Err ''Spending authorization insufficient, no user consent (seekPermission=false).'' [js_int n])
            else flow (?r\<lparr>pr_renewal := True, pr_previousToken := Some t\<rparr>))) (\<lambda>_. ?F)"
      using fl [OF a(1) s dr(1)] fl [OF a(1) s dr(2)] found
      by (cases token) (auto intro!: spec_if rl.spec_then rl.spec_Throw pm_keeps)
  qed (auto simp: may)
qed

lemma label_level: "fst (label_protocol l) = 1"
  by (simp add: label_protocol_def)

lemma spec_ensureLabel:
  assumes flow: "flow_sound m asked flow"
  shows "rl.spec m (\<lambda>_. True) (ensureLabel_with flow m x lbl reason seek u) (\<lambda>_ s. sure m (may_label m asked x lbl u s))"
proof (cases "prepareOriginator (m_out m) x")
  case (Inl e)
  then show ?thesis by (simp add: ensureLabel_with_def rl.spec_Throw)
next
  case (Inr yl)
  obtain y l where x: "prepareOriginator (m_out m) x = Inr (y, l)" using Inr by (cases yl) auto
  note may = may_label_def originator_may_def x
  let ?ask = "ensureProtocol_with flow m y False (label_protocol lbl) (js ''self'') reason seek Generic"
  have ask: "rl.spec m (\<lambda>_. True) (callP ?ask) (\<lambda>_ s. sure m (may_label m asked x lbl u s))" if "\<not> isAdminLabel lbl"
    by (rule rl.spec_conseq [OF spec_call [OF spec_ensureProtocol [OF flow] stable_may(1)]]) (use that in \<open>auto simp: may\<close>)
  let ?key = "buildRequestKey (m_out m) (protocol_request y False (label_protocol lbl) (js ''self''))"
  have rest: "rl.spec m (\<lambda>_. True) (bindP (isPermissionCached ?key) (\<lambda>c. if c then Ret True else callP ?ask))
      (\<lambda>_ s. sure m (may_label m asked x lbl u s))" if adm: "\<not> isAdminLabel lbl"
  proof (rule rl.spec_bind [OF spec_cached])
    fix c show "rl.spec m (\<lambda>s. c \<longrightarrow> known m ?key s) (if c then Ret True else callP ?ask) (\<lambda>_ s. sure m (may_label m asked x lbl u s))"
      using ask [OF adm] adm by (cases c) (auto intro!: rl.spec_Ret rl.spec_conseq [OF ask [OF adm]] simp: may)
  qed
  show ?thesis unfolding ensureLabel_with_def x sum.case prod.case Let_def
    by (intro spec_if rl.spec_Ret rl.spec_Throw rest) (auto simp: may)
qed

end
