(* ===== verification/PermFlowAuth.thy ===== *)
theory PermFlowAuth
  imports PermGates
begin

text \<open>The flow that asks the user returns only when the originator may, and so do the public \<open>ensure\<close> methods.\<close>

section \<open>Has a permission\<close>

lemma spec_succeeds:
  assumes "rl.spec m (\<lambda>_. True) p (\<lambda>_. F)" "rl.stable m F"
  shows "rl.spec m (\<lambda>_. True) (succeeds p) (\<lambda>b s. b \<longrightarrow> F s)"
  unfolding succeeds_def
proof (rule rl.spec_catch)
  show "rl.spec m (\<lambda>_. True) (bindP (callP p) (\<lambda>_. Ret True)) (\<lambda>b s. b \<longrightarrow> F s)"
    by (rule rl.spec_bind [OF spec_call [OF assms]]) (simp add: rl.spec_Ret)
qed (simp add: rl.spec_Ret)

lemma spec_has:
  "rl.spec m (\<lambda>_. True) (hasProtocolPermission m x p pid cp) (\<lambda>b s. b \<longrightarrow> sure m (may_protocol m False x p pid cp Generic s))"
  "rl.spec m (\<lambda>_. True) (hasBasketAccess m x b) (\<lambda>c s. c \<longrightarrow> sure m (may_basket m False x b Insertion s))"
  "rl.spec m (\<lambda>_. True) (hasCertificateAccess m x p c) (\<lambda>b s. b \<longrightarrow> sure m (may_certificate m False x p c s))"
  "rl.spec m (\<lambda>_. True) (hasSpendingAuthorization m x n) (\<lambda>b s. b \<longrightarrow> sure m (may_spend m False x n s))"
  unfolding hasProtocolPermission_def hasBasketAccess_def hasCertificateAccess_def hasSpendingAuthorization_def
  by (rule spec_succeeds [OF spec_ensureProtocol [OF no_flow_sound] stable_may(1)]
      spec_succeeds [OF spec_ensureBasket [OF no_flow_sound] stable_may(2)]
      spec_succeeds [OF spec_ensureCertificate [OF no_flow_sound] stable_may(3)]
      spec_succeeds [OF spec_ensureSpending [OF no_flow_sound] stable_may(4)])+

lemma keeps_has [pm_keeps]:
  "rl.keeps m (hasProtocolPermission m x p pid cp)" "rl.keeps m (hasBasketAccess m x b)"
  "rl.keeps m (hasCertificateAccess m x p c)" "rl.keeps m (hasSpendingAuthorization m x n)"
  by (rule rl.spec_keeps, rule spec_has)+

lemma keeps_missing [pm_keeps]: "(\<And>x. rl.keeps m (f x)) \<Longrightarrow> rl.keeps m (missing f xs)"
  unfolding missing_def by (intro pm_keeps)

lemma keeps_filterGranted [pm_keeps]: "rl.keeps m (filterAlreadyGrantedPermissions m x g)"
  unfolding filterAlreadyGrantedPermissions_def by (intro pm_keeps)

section \<open>After a group was asked for\<close>

lemma spec_checkSpecific:
  assumes "seekGroupedPermission (m_config m)"
  shows "rl.spec m (\<lambda>_. True) (checkSpecificPermissionAfterGroupFlow m r) (\<lambda>b s. b \<longrightarrow> sure m (after_group m r s))"
proof (cases "pr_type r")
  case ProtocolPerm
  then show ?thesis
    using spec_has(1) by (cases "pr_protocolID r") (simp_all add: checkSpecificPermissionAfterGroupFlow_def after_group_def rl.spec_Throw)
next
  case BasketPerm
  then show ?thesis using spec_has(2) assms by (simp add: checkSpecificPermissionAfterGroupFlow_def after_group_def)
next
  case CertificatePerm
  then show ?thesis
    using spec_has(3) by (cases "pr_certificate r") (simp_all add: checkSpecificPermissionAfterGroupFlow_def after_group_def rl.spec_Throw)
next
  case SpendingPerm
  then show ?thesis
    using spec_has(4) by (cases "pr_spending r") (simp_all add: checkSpecificPermissionAfterGroupFlow_def after_group_def rl.spec_Throw)
qed

definition satisfied :: "manager \<Rightarrow> perm_request \<Rightarrow> bool option \<Rightarrow> pm \<Rightarrow> bool" where
  "satisfied m r x s \<longleftrightarrow> x \<noteq> None \<longrightarrow> sure m (after_group m r s)"

lemma stable_satisfied: "rl.stable n (satisfied m r x)"
  unfolding satisfied_def by (rule stable_imp) (use after_group_mono in blast)

lemma satisfied_None: "rl.spec n P (Ret None) (satisfied m r)"
  by (simp add: rl.spec_def satisfied_def)

lemma spec_satisfied_now:
  assumes "seekGroupedPermission (m_config m)"
  shows "rl.spec m (\<lambda>_. True) (satisfied_now m r) (satisfied m r)"
  unfolding satisfied_now_def
proof (rule rl.spec_bind)
  show "rl.spec m (\<lambda>_. True) (callP (checkSpecificPermissionAfterGroupFlow m r)) (\<lambda>b s. b \<longrightarrow> sure m (after_group m r s))"
    by (rule spec_call_may [OF spec_checkSpecific [OF assms] stable_may(7)])
qed (simp add: rl.spec_def satisfied_def)

lemma spec_option:
  "rl.spec m P p Q \<Longrightarrow> (\<And>x. rl.spec m P (f x) Q) \<Longrightarrow> rl.spec m P (case v of None \<Rightarrow> p | Some x \<Rightarrow> f x) Q"
  by (simp split: option.split)

lemma spec_prod: "(\<And>x y. rl.spec m P (f x y) Q) \<Longrightarrow> rl.spec m P (case v of (x, y) \<Rightarrow> f x y) Q"
  by (simp split: prod.split)

lemma spec_let: "(\<And>x. rl.spec m P (f x) Q) \<Longrightarrow> rl.spec m P (Let v f) Q"
  by simp

lemma spec_maybeGrouped: "rl.spec m (\<lambda>_. True) (maybeRequestGroupedPermissions m r) (satisfied m r)"
  unfolding maybeRequestGroupedPermissions_def
  by (intro spec_if satisfied_None rl.spec_then spec_prod spec_option pm_keeps spec_satisfied_now) simp

lemma spec_maybePeer: "rl.spec m (\<lambda>_. True) (maybeRequestPeerGroupedLevel2ProtocolPermissions m r) (satisfied m r)"
  unfolding maybeRequestPeerGroupedLevel2ProtocolPermissions_def
  by (intro spec_if satisfied_None rl.spec_then spec_prod spec_option spec_let pm_keeps spec_satisfied_now) simp

lemma keeps_has_level2 [pm_keeps]: "rl.keeps m (has_level2 m x c p)"
  unfolding has_level2_def by (intro pm_keeps)

lemma keeps_pact_Do: "(\<And>s. rl.keeps m (k s)) \<Longrightarrow> rl.keeps m (Do (markPactEstablished x c) k)"
  by (rule rl.keeps_Do) (simp_all add: keeps_pact_mark)

lemma keeps_hasPact [pm_keeps]: "rl.keeps m (hasPactEstablished m x c)"
  unfolding hasPactEstablished_def by (intro pm_keeps keeps_pact_Do)

lemma keeps_pact_modify [pm_keeps]: "rl.keeps m (modifyP (markPactEstablished x c))"
  by (rule rl.keeps_modify) (rule keeps_pact_mark)

lemma spec_pact_done: "rl.spec m P (Do (markPactEstablished x c) (\<lambda>_. Ret None)) (satisfied m r)"
  using keeps_pact_mark by (simp add: rl.spec_def satisfied_def)

lemma spec_pact_check:
  assumes "pr_type r = ProtocolPerm" "pr_protocolID r = Some pid" "pr_counterparty r = Some cp" "\<not> privileged_of r"
  shows "rl.spec m (\<lambda>_. True) (bindP (callP (hasProtocolPermission m (pr_originator r) False pid cp)) (\<lambda>b. Ret (if b then Some True else None)))
    (satisfied m r)"
proof (rule rl.spec_bind)
  show "rl.spec m (\<lambda>_. True) (callP (hasProtocolPermission m (pr_originator r) False pid cp))
      (\<lambda>b s. b \<longrightarrow> sure m (may_protocol m False (pr_originator r) False pid cp Generic s))"
    by (rule spec_call_may [OF spec_has(1) stable_may(1)])
qed (use assms in \<open>simp add: rl.spec_def satisfied_def after_group_def or_self_def\<close>)

lemma spec_maybePact: "rl.spec m (\<lambda>_. True) (maybeRequestPact m r) (satisfied m r)"
proof (cases "\<exists>pid cp. pr_protocolID r = Some pid \<and> pr_counterparty r = Some cp")
  case False
  then show ?thesis unfolding maybeRequestPact_def
    by (auto intro!: rl.spec_then rl.keeps_read satisfied_None split: option.split)
next
  case True
  then obtain pid cp where r: "pr_protocolID r = Some pid" "pr_counterparty r = Some cp" by auto
  show ?thesis
  proof (cases "pr_type r = ProtocolPerm \<and> \<not> privileged_of r")
    case True
    then have "rl.spec m (\<lambda>_. True) (bindP (callP (hasProtocolPermission m (pr_originator r) False pid cp)) (\<lambda>b. Ret (if b then Some True else None)))
        (satisfied m r)" using r by (intro spec_pact_check) simp_all
    note check = this
    show ?thesis unfolding maybeRequestPact_def r option.case prod.case Let_def
      by (rule check spec_pact_done satisfied_None spec_if spec_prod spec_option rl.spec_then pm_keeps)+
  next
    case False
    then show ?thesis unfolding maybeRequestPact_def r option.case prod.case
      by (auto intro!: rl.spec_then rl.keeps_read satisfied_None)
  qed
qed

lemma spec_resolveGrouped: "rl.spec m (\<lambda>_. True) (resolveGroupedFlow m r) (satisfied m r)"
  unfolding resolveGroupedFlow_def
proof (rule rl.spec_bind [OF rl.spec_read [where Q = "\<lambda>h _. h \<longrightarrow> seekGroupedPermission (m_config m)"]])
  fix h
  have l: "rl.spec m (\<lambda>_. True) (callP (if seekGroupedPermission (m_config m)
      then withGroupedPermissionFlowLock (pr_originator r) (maybeRequestGroupedPermissions m r)
      else maybeRequestGroupedPermissions m r)) (satisfied m r)"
    by (rule spec_call, rule spec_if) (rule spec_lock spec_maybeGrouped stable_satisfied)+
  have rest: "rl.spec m (satisfied m r g) (if g \<noteq> None then Ret g else if h then satisfied_now m r else Ret None) (satisfied m r)"
    if "h \<longrightarrow> seekGroupedPermission (m_config m)" for g
  proof (cases "g = None \<and> h")
    case True
    with that have "rl.spec m (\<lambda>_. True) (satisfied_now m r) (satisfied m r)" by (intro spec_satisfied_now) simp
    with True show ?thesis by (auto intro: rl.spec_conseq)
  next
    case False
    then show ?thesis by (auto simp: rl.spec_def satisfied_def)
  qed
  show "rl.spec m (\<lambda>_. h \<longrightarrow> seekGroupedPermission (m_config m)) (bindP (callP (if seekGroupedPermission (m_config m)
      then withGroupedPermissionFlowLock (pr_originator r) (maybeRequestGroupedPermissions m r)
      else maybeRequestGroupedPermissions m r)) (\<lambda>g. if g \<noteq> None then Ret g else if h then satisfied_now m r else Ret None)) (satisfied m r)"
  proof (cases "h \<longrightarrow> seekGroupedPermission (m_config m)")
    case True
    show ?thesis by (rule rl.spec_conseq [OF rl.spec_bind [OF l rest [OF True]]]) simp_all
  next
    case False
    then show ?thesis by (simp add: rl.spec_def)
  qed
qed simp

section \<open>The flow\<close>

lemma spec_piggyback:
  assumes "rl.spec m (\<lambda>s. pm_active s key = None) p Q" "\<And>b s. Answered key \<in> set (pm_log s) \<Longrightarrow> Q b s"
  shows "rl.spec m (\<lambda>_. True) (piggyback_or key p) Q"
  unfolding piggyback_or_def
proof (rule rl.spec_bind [where Q = "\<lambda>e s. pm_active s key = e"])
  have "isPiggybacking key s = pm_active s key" if "pm_inv m s" for s
    using active_okD [OF pm_invD(2) [OF that]] by (auto simp: isPiggybacking_def split: option.split)
  then show "rl.spec m (\<lambda>_. True) (readP (isPiggybacking key)) (\<lambda>e s. pm_active s key = e)"
    by (intro rl.spec_read) simp
  fix e
  show "rl.spec m (\<lambda>s. pm_active s key = e) (case e of Some eid \<Rightarrow> piggybackOnExistingQueue eid | None \<Rightarrow> p) Q"
  proof (cases e)
    case (Some eid)
    have "rl.spec m (\<lambda>s. pm_active s key = Some eid) (piggybackOnExistingQueue eid) (\<lambda>_ s. Answered key \<in> set (pm_log s))"
      unfolding piggybackOnExistingQueue_def by (rule rl.spec_bind [OF spec_join spec_waited])
    then show ?thesis unfolding Some option.case by (rule rl.spec_conseq) (use assms(2) in auto)
  qed (simp add: assms(1))
qed

lemma spec_enqueue: "rl.spec m (\<lambda>s. pm_active s key = None) (enqueueAndFireEvent r key) (\<lambda>_ s. Answered key \<in> set (pm_log s))"
  unfolding enqueueAndFireEvent_def firePermissionRequestEvent_def by (rule spec_asked [OF spec_open]) (intro pm_keeps)

text \<open>One part of the flow after the other: one that answers ends it.\<close>

lemma spec_stage:
  assumes "rl.spec m (\<lambda>_. True) p (satisfied m (prepared_request m r))" "rl.spec m (\<lambda>_. True) q (\<lambda>_ s. sure m (flow_ok m True r s))"
  shows "rl.spec m P (bindP (callP p) (\<lambda>x. case x of Some b \<Rightarrow> Ret b | None \<Rightarrow> q)) (\<lambda>_ s. sure m (flow_ok m True r s))"
proof (rule rl.spec_bind)
  show "rl.spec m P (callP p) (satisfied m (prepared_request m r))"
    by (rule rl.spec_conseq [OF spec_call [OF assms(1) stable_satisfied]]) simp_all
  fix x show "rl.spec m (satisfied m (prepared_request m r) x) (case x of Some b \<Rightarrow> Ret b | None \<Rightarrow> q) (\<lambda>_ s. sure m (flow_ok m True r s))"
    using rl.spec_conseq [OF assms(2)] by (cases x) (auto simp: rl.spec_def satisfied_def flow_ok_def)
qed

lemma spec_flow: "rl.spec m (\<lambda>_. True) (requestPermissionFlow m r) (\<lambda>_ s. sure m (flow_ok m True r s))"
proof -
  let ?key = "buildActiveRequestKey (m_out m) (prepared_request m r)"
  have ans: "sure m (flow_ok m True r s)" if "Answered ?key \<in> set (pm_log s)" for s
    using that by (simp add: flow_ok_def agreed_def)
  have last: "rl.spec m (\<lambda>_. True) (piggyback_or ?key (enqueueAndFireEvent (prepared_request m r) ?key)) (\<lambda>_ s. sure m (flow_ok m True r s))"
    by (rule spec_piggyback [OF rl.spec_conseq [OF spec_enqueue]]) (use ans in auto)
  show ?thesis unfolding requestPermissionFlow_def Let_def
    by (rule spec_piggyback) (intro spec_stage spec_maybePact spec_maybePeer spec_resolveGrouped last, use ans in auto)
qed

lemma flow_call_sound: "flow_sound m True (flow_call m)"
  unfolding flow_sound_def flow_call_def by (intro allI spec_call spec_flow stable_may(6))

lemma spec_ensures:
  "rl.spec m (\<lambda>_. True) (ensureProtocolPermission m x p pid cp a k u) (\<lambda>_ s. sure m (may_protocol m True x p pid cp u s))"
  "rl.spec m (\<lambda>_. True) (ensureBasketAccess m x b a k bu) (\<lambda>_ s. sure m (may_basket m True x b bu s))"
  "rl.spec m (\<lambda>_. True) (ensureCertificateAccess m x p c a k) (\<lambda>_ s. sure m (may_certificate m True x p c s))"
  "rl.spec m (\<lambda>_. True) (ensureSpendingAuthorization m x n items a k) (\<lambda>_ s. sure m (may_spend m True x n s))"
  "rl.spec m (\<lambda>_. True) (ensureLabelAccess m x l a k lu) (\<lambda>_ s. sure m (may_label m True x l lu s))"
  unfolding ensureProtocolPermission_def ensureBasketAccess_def ensureCertificateAccess_def ensureSpendingAuthorization_def ensureLabelAccess_def
  by (rule spec_ensureProtocol spec_ensureBasket spec_ensureCertificate spec_ensureSpending spec_ensureLabel, rule flow_call_sound)+

lemma keeps_ensures [pm_keeps]:
  "rl.keeps m (ensureProtocolPermission m x p pid cp a k u)" "rl.keeps m (ensureBasketAccess m x b a k bu)"
  "rl.keeps m (ensureCertificateAccess m x p c a k)" "rl.keeps m (ensureSpendingAuthorization m x n items a k)"
  "rl.keeps m (ensureLabelAccess m x l a k lu)"
  by (rule rl.spec_keeps, rule spec_ensures)+

text \<open>
  \<open>createAction\<close> asks the wallet only for what the originator may, and signs only what it may spend; the methods that
  grant, renew and revoke tokens go through it.
\<close>

section \<open>Modules and the rest\<close>

lemma addPModule_Inr: "addPModuleByScheme m sc kind mods = Inr mods' \<Longrightarrow>
   mods' \<noteq> [] \<and> set mods \<subseteq> set mods' \<and> set mods' \<subseteq> set mods \<union> set (permissionModules (m_config m))"
  by (auto simp: addPModuleByScheme_def split: if_splits)

text \<open>When no module is involved, nothing has been set aside.\<close>

lemma collectNonPBaskets_Inr:
  "collectNonPBaskets m outs mods = Inr (mods', bs) \<Longrightarrow> set mods \<subseteq> set mods' \<and>
     set mods' \<subseteq> set mods \<union> set (permissionModules (m_config m)) \<and>
     (mods' = [] \<longrightarrow> bs = filter (\<lambda>b. b \<noteq> []) (map (\<lambda>out. or_empty (ao_basket out)) outs))"
proof (induction outs arbitrary: mods bs)
  case (Cons out outs)
  show ?case
  proof (cases "or_empty (ao_basket out) = []")
    case True
    with Cons show ?thesis by (auto simp: or_empty_def split: option.splits if_splits)
  next
    case False
    then obtain b where b: "ao_basket out = Some b" "b \<noteq> []" by (auto simp: or_empty_def split: option.splits)
    show ?thesis
    proof (cases "startsWith b P_PREFIX")
      case True
      with Cons.prems b obtain mods1 where 1: "addPModuleByScheme m (scheme_of b) ''basket'' mods = Inr mods1"
          "collectNonPBaskets m outs mods1 = Inr (mods', bs)" by (auto simp: bindE_Inr_iff)
      from Cons.IH [OF 1(2)] addPModule_Inr [OF 1(1)] show ?thesis by (cases mods1) auto
    next
      case nm: False
      with Cons.prems b obtain bs1 where "collectNonPBaskets m outs mods = Inr (mods', bs1)" "bs = b # bs1"
        by (auto simp: bindE_Inr_iff)
      with Cons.IH b show ?thesis by (auto simp: or_empty_def)
    qed
  qed
qed (simp split: if_splits)

lemma splitLabels_Inr:
  "splitLabelsByPermissionModule m labels mods = Inr (mods', ls) \<Longrightarrow> set mods \<subseteq> set mods' \<and>
     set mods' \<subseteq> set mods \<union> set (permissionModules (m_config m)) \<and> (mods' = [] \<longrightarrow> ls = labels)"
proof (induction labels arbitrary: mods ls)
  case (Cons l labels)
  show ?case
  proof (cases "startsWith l P_PREFIX")
    case True
    with Cons.prems obtain sc mods1 where 1: "addPModuleByScheme m sc ''label'' mods = Inr mods1"
        "splitLabelsByPermissionModule m labels mods1 = Inr (mods', ls)" by (auto simp: bindE_Inr_iff)
    from Cons.IH [OF 1(2)] addPModule_Inr [OF 1(1)] show ?thesis by (cases mods1) auto
  next
    case False
    with Cons.prems obtain ls1 where "splitLabelsByPermissionModule m labels mods = Inr (mods', ls1)" "ls = l # ls1"
      by (auto simp: bindE_Inr_iff)
    with Cons.IH show ?thesis by auto
  qed
qed simp

section \<open>Encryption keeps the baskets\<close>

lemma keeps_encrypt_text [pm_keeps]: "rl.keeps m (encrypt_text n s)"
  unfolding encrypt_text_def by (intro pm_keeps)

lemma keeps_encrypt_instructions [pm_keeps]: "rl.keeps m (encrypt_instructions n c)"
  unfolding encrypt_instructions_def by (intro pm_keeps)

definition same_gates :: "action_args \<Rightarrow> action_args \<Rightarrow> bool" where
  "same_gates a b \<longleftrightarrow> map ao_basket (aa_outputs b) = map ao_basket (aa_outputs a)"

lemma spec_encryptAction: "rl.spec m (\<lambda>_. True) (encryptActionMetadata n args :: ('x, action_args) pmp) (\<lambda>e _. same_gates args e)"
  unfolding encryptActionMetadata_def
proof (rule rl.spec_then)
  show "rl.keeps m (mapP (\<lambda>i. bindP (encrypt_text n (ai_inputDescription i)) (\<lambda>d. Ret (i\<lparr>ai_inputDescription := d\<rparr>))) (aa_inputs args))"
    by (intro pm_keeps)
  fix ins
  let ?f = "\<lambda>out :: action_output. bindP (encrypt_text n (ao_outputDescription out)) (\<lambda>d. bindP (encrypt_instructions n (ao_customInstructions out)) (\<lambda>c.
    Ret (out\<lparr>ao_outputDescription := d, ao_customInstructions := c\<rparr>)))"
  have f: "rl.spec m (\<lambda>_. True) (?f out) (\<lambda>o' _. ao_basket o' = ao_basket out)" for out :: action_output
    by (intro rl.spec_then pm_keeps rl.spec_Ret) simp
  show "rl.spec m (\<lambda>_. True) (bindP (mapP ?f (aa_outputs args)) (\<lambda>outs. bindP (callP (maybeEncryptMetadata n (aa_description args)))
      (\<lambda>d. Ret (args\<lparr>aa_description := d, aa_inputs := ins, aa_outputs := outs\<rparr>)))) (\<lambda>e _. same_gates args e)"
  proof (rule rl.spec_bind [OF rl.spec_map [OF f stable_True]])
    fix outs :: "action_output list"
    have eq: "map ao_basket outs = map ao_basket (aa_outputs args)" if "list_all2 (\<lambda>x y. ao_basket y = ao_basket x) (aa_outputs args) outs"
      using that by (induction rule: list_all2_induct) simp_all
    show "rl.spec m (\<lambda>_. list_all2 (\<lambda>x y. ao_basket y = ao_basket x) (aa_outputs args) outs)
        (bindP (callP (maybeEncryptMetadata n (aa_description args))) (\<lambda>d. Ret (args\<lparr>aa_description := d, aa_inputs := ins, aa_outputs := outs\<rparr>)))
        (\<lambda>e _. same_gates args e)"
      by (rule rl.spec_then_stable; (intro pm_keeps | rule stable_True | rule rl.spec_Ret)) (simp add: same_gates_def eq)
  qed
qed

section \<open>Creating an action\<close>

lemma spec_each_may:
  assumes "\<And>x. rl.spec m (\<lambda>_. True) (f x) (\<lambda>_ s. sure m (F x s))" "\<And>x. rl.stable m (\<lambda>s. sure m (F x s))"
  shows "rl.spec m (\<lambda>_. True) (eachP (\<lambda>x. bindP (callP (f x)) (\<lambda>_. Ret ())) xs) (\<lambda>_ s. sure m (\<forall>x \<in> set xs. F x s))"
proof -
  have "rl.spec m (\<lambda>_. True) (bindP (callP (f x)) (\<lambda>_. Ret ())) (\<lambda>_ s. sure m (F x s))" for x
    by (rule rl.spec_bind [OF spec_call [OF assms]]) (simp add: rl.spec_Ret)
  from rl.spec_conseq [OF rl.spec_each [OF this assms(2)]] show ?thesis by auto
qed

lemma keeps_chain [pm_keeps]: "rl.keeps m (chain_requests x mods args)" "rl.keeps m (chain_results x mods r)"
  by (induction mods arbitrary: args r) (auto intro!: pm_keeps)

lemma stable_permits: "rl.stable m (pm_permits m q)"
  by (rule stable_log) (rule pm_permits_mono)

lemma spec_callCreate:
  "rl.spec m (\<lambda>s. set mods \<subseteq> set (permissionModules (m_config m)) \<and> (mods = [] \<longrightarrow> pm_permits m (CreateActionQ args x [] :: 'x pm_query) s))
     (callCreateActionWithPModules args mods x :: ('x, action_result) pmp) (\<lambda>_ _. True)"
proof (cases "mods = []")
  case True
  then show ?thesis unfolding callCreateActionWithPModules_def
    by (auto simp: rl.spec_def rl.wp_bind intro!: rl.wp_awaitP)
next
  case False
  have permits: "pm_permits m (CreateActionQ a x mods :: 'x pm_query) s" if "set mods \<subseteq> set (permissionModules (m_config m))" for a s
    using that False by (simp add: pm_permits_def)
  have "rl.keeps m (callCreateActionWithPModules args mods x :: ('x, action_result) pmp)" if "set mods \<subseteq> set (permissionModules (m_config m))"
    unfolding callCreateActionWithPModules_def by (intro pm_keeps rl.keeps_await permits [OF that])
  then show ?thesis by (auto simp: rl.spec_def rl.keeps_wp)
qed

lemma keeps_finish [pm_keeps]: "rl.keeps m (finish_action m args enc x result)"
proof (cases "ar_signable result")
  case None
  then show ?thesis by (simp add: finish_action_def rl.keeps_Ret)
next
  case (Some tr)
  obtain tx ref where tr: "ar_signable result = Some (tx, ref)" using Some by (cases tr) auto
  obtain net items where net: "computeNetSpend (o_tx_view (m_out m) tx) args = (net, items)" by force
  let ?F = "\<lambda>s. 0 < net \<longrightarrow> sure m (may_spend m True (or_empty x) net s)"
  have st: "rl.stable m ?F" by (rule stable_log) (use may_mono(4) in blast)
  have ens: "rl.spec m (\<lambda>_. True) (bindP (callP (ensureSpendingAuthorization m (or_empty x) net items a True)) (\<lambda>_. Ret ())) (\<lambda>_. ?F)" for a
    by (rule rl.spec_bind [OF spec_call [OF spec_ensures(4) stable_may(4)]]) (simp add: rl.spec_Ret)
  have abort: "rl.spec m (\<lambda>_. True) (bindP (awaitP (AbortActionQ ref) (\<lambda>_. Some ()) bad_answer) (\<lambda>_. Throw e)) Q" for e Q
    by (intro rl.spec_then rl.spec_Throw keeps_ask) simp
  have gate: "rl.spec m (\<lambda>_. True) (whenP (0 < net) (catchP
      (bindP (callP (ensureSpendingAuthorization m (or_empty x) net items a True)) (\<lambda>_. Ret ()))
      (\<lambda>err. bindP (awaitP (AbortActionQ ref) (\<lambda>_. Some ()) bad_answer) (\<lambda>_. Throw err)))) (\<lambda>_. ?F)" for a
    unfolding whenP_def by (intro spec_if rl.spec_catch ens abort rl.spec_Ret) simp
  have sign: "rl.spec m ?F (case o_isSignAction (m_out m) enc of None \<Rightarrow> Throw (Err ''WERR_INVALID_PARAMETER'' [])
      | Some True \<Rightarrow> Ret result
      | Some False \<Rightarrow> bindP (awaitP (SignActionQ ref [] (Some (aa_options args)) x (Some net)) action_of bad_answer)
            (\<lambda>signed. Ret (sign_merge result signed))) (\<lambda>_ _. True)"
  proof -
    have "rl.spec m ?F (bindP (awaitP (SignActionQ ref [] (Some (aa_options args)) x (Some net)) action_of bad_answer)
        (\<lambda>signed. Ret (sign_merge result signed))) (\<lambda>_ _. True)"
    proof (rule rl.spec_bind [where Q = "\<lambda>_ _. True"])
      show "rl.spec m ?F (awaitP (SignActionQ ref [] (Some (aa_options args)) x (Some net)) action_of bad_answer) (\<lambda>_ _. True)"
        by (rule rl.spec_await) (auto simp: pm_permits_def)
    qed (simp add: rl.spec_Ret)
    then show ?thesis by (auto intro: rl.spec_Throw rl.spec_Ret split: option.split bool.split)
  qed
  show ?thesis unfolding rl.keeps_def finish_action_def tr option.case prod.case net Let_def
    by (rule rl.spec_bind [OF gate sign])
qed

theorem keeps_createAction [pm_keeps]: "rl.keeps m (createAction m args x :: ('x, action_result) pmp)"
proof (cases "bindE (collectNonPBaskets m (aa_outputs args) []) (\<lambda>(mods, baskets).
    bindE (splitLabelsByPermissionModule m (aa_labels args) mods) (\<lambda>(mods', labels). Inr (mods', baskets, labels)))")
  case (Inl e)
  then show ?thesis by (simp add: createAction_def rl.keeps_Throw)
next
  case (Inr y)
  obtain mods bs ls where y: "y = (mods, bs, ls)" by (cases y) auto
  from Inr y obtain mods1 where split: "collectNonPBaskets m (aa_outputs args) [] = Inr (mods1, bs)"
      "splitLabelsByPermissionModule m (aa_labels args) mods1 = Inr (mods, ls)"
    by (auto simp: bindE_Inr_iff)
  note c = collectNonPBaskets_Inr [OF split(1)] and l = splitLabels_Inr [OF split(2)]
  have mods: "set mods \<subseteq> set (permissionModules (m_config m))" using c l by auto
  have plain: "bs = filter (\<lambda>b. b \<noteq> []) (map (\<lambda>out. or_empty (ao_basket out)) (aa_outputs args))" "ls = aa_labels args" if "mods = []"
    using c l that by auto
  let ?B = "\<lambda>s. sure m (\<forall>b \<in> set bs. may_basket m True (or_empty x) b Insertion s)"
  let ?L = "\<lambda>s. sure m (\<forall>l \<in> set ls. may_label m True (or_empty x) l ApplyLabel s)"
  have stB: "rl.stable m ?B" by (rule stable_log) (use may_mono(2) in blast)
  have stL: "rl.stable m ?L" by (rule stable_log) (use may_label_mono in blast)
  have stBL: "rl.stable m (\<lambda>s. ?L s \<and> ?B s)" using stB stL by (auto simp: rl.stable_def)
  have baskets: "rl.spec m (\<lambda>_. True) (eachP (\<lambda>b. bindP (callP (ensureBasketAccess m (or_empty x) b (Some (aa_description args)) True Insertion))
      (\<lambda>_. Ret ())) bs) (\<lambda>_. ?B)"
    by (rule spec_each_may [OF spec_ensures(2) stable_may(2)])
  have labels: "rl.spec m ?B (eachP (\<lambda>l. bindP (callP (ensureLabelAccess m (or_empty x) l (Some (aa_description args)) True ApplyLabel))
      (\<lambda>_. Ret ())) ls) (\<lambda>_ s. ?L s \<and> ?B s)"
    by (rule rl.spec_stable [OF spec_each_may [OF spec_ensures(5) stable_may(5)] stB])
  let ?final = "\<lambda>enc opts s. enc\<lparr>aa_options := opts, aa_labels := aa_labels args @ admin_labels x (pm_now s)\<rparr>"
  have permit: "pm_permits m (CreateActionQ (?final enc opts t) x [] :: 'x pm_query) s"
    if "enforceSignAndProcess m (aa_options args) x = Inr opts" "same_gates args enc" "?L s \<and> ?B s" "mods = []" for enc opts s t
  proof -
    have "map (\<lambda>out. or_empty (ao_basket out)) (aa_outputs enc) = map (\<lambda>out. or_empty (ao_basket out)) (aa_outputs args)"
      using that(2) unfolding same_gates_def by (metis (no_types, lifting) map_map comp_def map_eq_conv)
    moreover have "op_signAndProcess opts = Some True \<Longrightarrow> isAdminOriginator m (or_empty x)"
      using that(1) by (auto simp: enforceSignAndProcess_def split: if_splits)
    ultimately show ?thesis
      using that(3) plain [OF that(4)]
      by (auto simp: pm_permits_def action_policy_def action_needs_def admin_labels_def meets_def list_all_iff)
  qed
  have go: "rl.spec m (\<lambda>s. ?L s \<and> ?B s) (bindP (callP (encryptActionMetadata m args)) (\<lambda>enc. bindP (readP (?final enc opts)) (\<lambda>fin.
      bindP (callP (callCreateActionWithPModules fin mods x)) (finish_action m args enc x))) :: ('x, action_result) pmp) (\<lambda>_ _. True)"
    if o: "enforceSignAndProcess m (aa_options args) x = Inr opts" for opts
  proof (rule rl.spec_bind)
    show "rl.spec m (\<lambda>s. ?L s \<and> ?B s) (callP (encryptActionMetadata m args)) (\<lambda>enc s. same_gates args enc \<and> ?L s \<and> ?B s)"
      by (rule rl.spec_stable [OF spec_call [OF spec_encryptAction stable_True] stBL])
    fix enc
    show "rl.spec m (\<lambda>s. same_gates args enc \<and> ?L s \<and> ?B s) (bindP (readP (?final enc opts)) (\<lambda>fin.
        bindP (callP (callCreateActionWithPModules fin mods x)) (finish_action m args enc x)) :: ('x, action_result) pmp) (\<lambda>_ _. True)"
    proof (rule rl.spec_bind)
      show "rl.spec m (\<lambda>s. same_gates args enc \<and> ?L s \<and> ?B s) (readP (?final enc opts)) (\<lambda>fin s.
          set mods \<subseteq> set (permissionModules (m_config m)) \<and> (mods = [] \<longrightarrow> pm_permits m (CreateActionQ fin x [] :: 'x pm_query) s))"
        by (rule rl.spec_read) (use mods permit [OF o] in auto)
    next
      fix fin
      show "rl.spec m (\<lambda>s. set mods \<subseteq> set (permissionModules (m_config m)) \<and> (mods = [] \<longrightarrow> pm_permits m (CreateActionQ fin x [] :: 'x pm_query) s))
          (bindP (callP (callCreateActionWithPModules fin mods x)) (finish_action m args enc x) :: ('x, action_result) pmp) (\<lambda>_ _. True)"
        by (rule rl.spec_bind [OF spec_call [OF spec_callCreate stable_True]]) (rule keeps_after [OF keeps_finish])
    qed
  qed
  show ?thesis unfolding rl.keeps_def createAction_def Inr y sum.case prod.case
  proof (rule rl.spec_bind [OF baskets], rule rl.spec_bind [OF labels])
    show "rl.spec m (\<lambda>s. ?L s \<and> ?B s) (case enforceSignAndProcess m (aa_options args) x of Inl e \<Rightarrow> Throw e
        | Inr opts \<Rightarrow> (bindP (callP (encryptActionMetadata m args)) (\<lambda>enc. bindP (readP (?final enc opts)) (\<lambda>fin.
            bindP (callP (callCreateActionWithPModules fin mods x)) (finish_action m args enc x))) :: ('x, action_result) pmp)) (\<lambda>_ _. True)"
      using go by (auto simp: rl.spec_Throw split: sum.split)
  qed
qed

end
