(* ===== verification/PermSystem.thy ===== *)
theory PermSystem
  imports PermFlowAuth
begin

text \<open>
  The permissions manager as a system: every public method keeps the invariant and meets the policy, so they hold of
  every state the manager can come to, however its calls are interleaved.
\<close>

section \<open>Token transactions\<close>

lemma keeps_as_admin [pm_keeps]: "rl.keeps m (as_admin m args)"
  unfolding as_admin_def by (intro pm_keeps)

lemma keeps_chunk: "(\<And>c. rl.keeps m (run c)) \<Longrightarrow> rl.keeps m (runBestEffortChunk run chunk)"
proof (induction run chunk rule: runBestEffortChunk.induct)
  case (1 run chunk)
  show ?case
    by (subst runBestEffortChunk.simps) (use 1 in \<open>auto intro!: pm_keeps simp: Let_def\<close>)
qed

lemma keeps_batches: "(\<And>c. rl.keeps m (run c)) \<Longrightarrow> rl.keeps m (runBestEffortBatches k run items)"
  by (induction k run items rule: runBestEffortBatches.induct) (auto intro!: pm_keeps keeps_chunk)

lemma keeps_token_script [pm_keeps]: "rl.keeps m (token_script n r e a)"
  unfolding token_script_def by (intro pm_keeps) simp

lemma keeps_createOnChain [pm_keeps]: "rl.keeps m (createPermissionOnChain m r e a)"
  unfolding createPermissionOnChain_def by (intro pm_keeps)

lemma keeps_build_all [pm_keeps]: "rl.keeps m (build_all n c)"
  unfolding build_all_def buildPermissionOutput_def by (intro pm_keeps)

lemma keeps_createBestEffort [pm_keeps]: "rl.keeps m (createPermissionTokensBestEffort m items)"
  unfolding createPermissionTokensBestEffort_def create_chunk_def by (intro keeps_batches pm_keeps)

lemma keeps_unlock [pm_keeps]: "rl.keeps m (unlock_input tx t i)"
  unfolding unlock_input_def by (intro pm_keeps) simp

lemma keeps_finalize [pm_keeps]: "rl.keeps m (finalize ref spends e)"
  unfolding finalize_def by (intro pm_keeps) simp

lemma keeps_spend_tokens [pm_keeps]: "rl.keeps m (spend_tokens ts e r)"
  unfolding spend_tokens_def by (intro pm_keeps)

lemma keeps_renewBestEffort [pm_keeps]: "rl.keeps m (renewPermissionTokensBestEffort m items)"
  unfolding renewPermissionTokensBestEffort_def renew_chunk_def by (intro keeps_batches pm_keeps)

lemma keeps_coalesce [pm_keeps]: "rl.keeps m (coalescePermissionTokens m ts sc tags b d)"
  unfolding coalescePermissionTokens_def by (intro pm_keeps)

lemma keeps_old_tokens [pm_keeps]: "rl.keeps m (old_protocol_tokens n t)"
  unfolding old_protocol_tokens_def search_without_protocol_def by (intro pm_keeps) simp_all

lemma keeps_renewOnChain [pm_keeps]: "rl.keeps m (renewPermissionOnChain m t r e a)"
  unfolding renewPermissionOnChain_def by (intro pm_keeps) simp

lemma keeps_revocations [pm_keeps]:
  "rl.keeps m (revokePermissions m ts)" "rl.keeps m (revokePermission m t)" "rl.keeps m (revokeAllForOriginator m x inc)"
  unfolding revokeAllForOriginator_def revokePermissions_def revokePermissionTokensChunk_def revokePermission_def
  by (intro pm_keeps keeps_batches; simp)+

section \<open>Granting\<close>

lemma spec_known_entry: "rl.stable m (\<lambda>s. eid < length (pm_entries s))"
  by (auto simp: rl.stable_def pm_rel_def entries_grow_def)

lemma keeps_remember [pm_keeps]: "rl.keeps m (modifyP (remember_grant m r e))"
  by (rule rl.keeps_modify) (rule remember_step)

lemma keeps_case_flow:
  "(\<And>r. rl.keeps m (f r)) \<Longrightarrow> (\<And>a b c. rl.keeps m (g a b c)) \<Longrightarrow> (\<And>a b c d. rl.keeps m (h a b c d)) \<Longrightarrow>
   rl.keeps m (case q of SingleRequest r \<Rightarrow> f r | GroupRequest a b c \<Rightarrow> g a b c | PactRequest a b c d \<Rightarrow> h a b c d)"
  by (cases q) simp_all

lemma keeps_grantPermission [pm_keeps]: "rl.keeps m (grantPermission m key e eph a)"
  unfolding grantPermission_def
proof (rule keeps_with_active, rule rl.spec_bind [OF spec_settle])
  show "refusal_or_yes (Inr True)" by (simp add: refusal_or_yes_def)
qed (rule keeps_after, intro pm_keeps keeps_case_flow)

lemma keeps_issue [pm_keeps]: "rl.keeps m (issue_tokens m cs rs)"
  unfolding issue_tokens_def by (intro pm_keeps)

lemma keeps_protocol_grants [pm_keeps]: "rl.keeps m (protocol_grants n x l ps)"
  unfolding protocol_grants_def by (intro pm_keeps)

lemma keeps_grant_group [pm_keeps]: "rl.keeps m (grant_group m x d g e)"
  unfolding grant_group_def by (intro pm_keeps)

text \<open>At the end of granting a group nobody waits in its entry any more, on every path.\<close>

lemma keeps_grantGrouped [pm_keeps]: "rl.keeps m (grantGroupedPermission m key granted e :: ('x, unit) pmp)"
  unfolding grantGroupedPermission_def
proof (rule keeps_with_active, rule rl.specI)
  fix eid s
  assume I: "pm_inv m s" and act: "pm_active s key = Some eid"
  have eid: "eid < length (pm_entries s)" using active_okD [OF pm_invD(2) [OF I] act] by simp
  let ?body = "\<lambda>M :: ('x, unit) pmp. bindP (readP (\<lambda>s. en_request (entry eid s))) (\<lambda>q. case q of
      GroupRequest originator requested display \<Rightarrow>
        (case validateGrantedPermissionsSubset granted requested of Inl e \<Rightarrow> Throw e
         | Inr _ \<Rightarrow> bindP (grant_group m originator display granted (or_zero e)) (\<lambda>_. M))
    | _ \<Rightarrow> Throw (Err ''TypeError'' []))"
  let ?M = "modifyP (settle_entry eid (Inr True)) :: ('x, unit) pmp"
  let ?h = "\<lambda>e. bindP (modifyP (settle_entry eid (Inl e))) (\<lambda>_. Throw e) :: ('x, unit) pmp"
  let ?S = "\<lambda>_ t. pm_inv m t \<and> all_settled eid t"
  define A where "A = ?body (Ret ())"
  have body: "?body ?M = bindP A (\<lambda>_. ?M)"
    by (auto simp: A_def readP_def bindP_assoc fun_eq_iff split: flow_request.split sum.split)
  have keeps: "rl.keeps m A" unfolding A_def by (intro pm_keeps keeps_case_flow)
  have settle: "rl.wp m (modifyP (settle_entry eid x) :: ('x, unit) pmp) ?S E t"
    if "pm_inv m t" "eid < length (pm_entries t)" "refusal_or_yes x" for x t E
    using settle_entry_step [OF that] by (simp add: all_settled_after)
  have run: "rl.wp m A (\<lambda>_ t. pm_inv m t \<and> eid < length (pm_entries t)) (\<lambda>_ t. pm_inv m t \<and> eid < length (pm_entries t)) s"
    by (rule rl.wp_conseq [OF rl.keepsD [OF keeps I]]) (use eid in \<open>auto simp: pm_rel_def entries_grow_def\<close>)
  have caught: "rl.wp m (catchP (?body ?M) ?h) ?S ?S s"
    unfolding body unfolding rl.wp_catch rl.wp_bind
  proof (rule rl.wp_mono [OF run])
    fix e t assume "pm_inv m t \<and> eid < length (pm_entries t)"
    then show "rl.wp m (modifyP (settle_entry eid (Inl e)) :: ('x, unit) pmp) (\<lambda>_. rl.wp m (Throw e :: ('x, unit) pmp) ?S ?S) ?S t"
      using settle [of t "Inl e"] by (simp add: refusal_or_yes_def)
  next
    fix t assume "pm_inv m t \<and> eid < length (pm_entries t)"
    then show "rl.wp m ?M ?S (\<lambda>e. rl.wp m (modifyP (settle_entry eid (Inl e)) :: ('x, unit) pmp) (\<lambda>_. rl.wp m (Throw e :: ('x, unit) pmp) ?S ?S) ?S) t"
      using settle [of t "Inr True"] by (simp add: refusal_or_yes_def)
  qed
  have fin: "pm_inv m (finish_entry eid key t) \<and> pm_rel t (finish_entry eid key t)" if "pm_inv m t \<and> all_settled eid t" for t
    using finish_entry_step [of m t eid key] that by simp
  show "rl.wp m (finallyP (catchP (?body ?M) ?h) (modifyP (finish_entry eid key))) (\<lambda>_ t. pm_inv m t \<and> True) (\<lambda>_. pm_inv m) s"
    unfolding finallyP_def rl.wp_bind [of m "catchP _ _"] rl.wp_catch [of m "bindP (catchP _ _) _"] rl.wp_bind [of m "catchP (?body ?M) ?h"]
    by (rule rl.wp_mono [OF caught]) (use fin in \<open>simp_all add: rl.wp_bind\<close>)
qed

lemma keeps_grantCounterparty [pm_keeps]: "rl.keeps m (grantCounterpartyPermission m key granted e)"
  unfolding grantCounterpartyPermission_def
proof (rule keeps_with_active)
  fix eid
  let ?F = "\<lambda>s. eid < length (pm_entries s)"
  have fin: "rl.spec m ?F (modifyP (\<lambda>s. finish_entry eid key (settle_entry eid (Inr True) s))) (\<lambda>_ _. True)"
  proof (rule rl.spec_modify)
    fix s assume s: "pm_inv m s" "?F s"
    then have t: "pm_inv m (settle_entry eid (Inr True) s) \<and> pm_rel s (settle_entry eid (Inr True) s)"
      by (intro settle_entry_step) (simp_all add: refusal_or_yes_def)
    show "pm_inv m (finish_entry eid key (settle_entry eid (Inr True) s)) \<and>
        pm_rel s (finish_entry eid key (settle_entry eid (Inr True) s)) \<and> True"
      using rel_trans [OF t finish_entry_step] t by (simp add: all_settled_after)
  qed
  have branch: "rl.spec m ?F (if b then Throw er else bindP p (\<lambda>g. bindP (q g) (\<lambda>_.
      modifyP (\<lambda>s. finish_entry eid key (settle_entry eid (Inr True) s))))) (\<lambda>_ _. True)"
    if "rl.keeps m p" "\<And>g. rl.keeps m (q g)" for b er p q
    using that by (intro spec_if rl.spec_Throw rl.spec_then_stable spec_known_entry fin)
  show "rl.spec m (\<lambda>s. pm_active s key = Some eid) (bindP (readP (\<lambda>s. en_request (entry eid s))) (\<lambda>q. case q of
        PactRequest originator counterparty requested display \<Rightarrow>
          if list_ex (\<lambda>g. cp_protocolName g = [] \<or> \<not> list_ex (\<lambda>r. cp_protocolName r = cp_protocolName g) (cq_protocols requested)) granted
          then Throw (Err ''Granted protocol permissions are not a subset of the original request.'' [])
          else bindP (callP (protocol_grants m originator (buildOriginatorLookupValues [display, Some originator])
                 (map (pact_grant counterparty) granted))) (\<lambda>grants.
               bindP (issue_tokens m (to_create (or_zero e) grants) (to_renew (or_zero e) grants)) (\<lambda>_.
               modifyP (\<lambda>s. finish_entry eid key (settle_entry eid (Inr True) s))))
      | _ \<Rightarrow> Throw (Err ''TypeError'' []))) (\<lambda>_ _. True)"
  proof (rule rl.spec_bind [OF rl.spec_read [where Q = "\<lambda>_. ?F"]])
    show "?F s" if "pm_inv m s" "pm_active s key = Some eid" for s
      using active_okD [OF pm_invD(2) [OF that(1)] that(2)] by simp
  next
    fix q show "rl.spec m ?F (case q of
        PactRequest originator counterparty requested display \<Rightarrow>
          if list_ex (\<lambda>g. cp_protocolName g = [] \<or> \<not> list_ex (\<lambda>r. cp_protocolName r = cp_protocolName g) (cq_protocols requested)) granted
          then Throw (Err ''Granted protocol permissions are not a subset of the original request.'' [])
          else bindP (callP (protocol_grants m originator (buildOriginatorLookupValues [display, Some originator])
                 (map (pact_grant counterparty) granted))) (\<lambda>grants.
               bindP (issue_tokens m (to_create (or_zero e) grants) (to_renew (or_zero e) grants)) (\<lambda>_.
               modifyP (\<lambda>s. finish_entry eid key (settle_entry eid (Inr True) s))))
      | _ \<Rightarrow> Throw (Err ''TypeError'' [])) (\<lambda>_ _. True)"
      by (cases q) (simp_all only: flow_request.case rl.spec_Throw branch keeps_call keeps_protocol_grants keeps_issue)
  qed
qed

end
