(* ===== verification/PermForwardAuth.thy ===== *)
theory PermForwardAuth
  imports PermSystem
begin

text \<open>Every method asks the wallet only for what its policy, \<open>method_needs\<close>, lets the originator have.\<close>

section \<open>Shapes\<close>

lemma spec_wallet:
  fixes args :: "'x wallet_args"
  assumes "\<And>s. F s \<Longrightarrow> sound_manager m \<Longrightarrow> list_all (meets m (or_empty x) s) (method_needs (m_config m) method args)"
  shows "rl.spec m F (wallet method args x []) (\<lambda>_ _. True)"
  unfolding wallet_def
  by (rule rl.spec_await) (use assms in \<open>auto simp: pm_permits_def method_policy_def\<close>)

lemma keeps_wallet_free:
  fixes args :: "'x wallet_args"
  shows "method_needs (m_config m) method args = [] \<Longrightarrow> rl.keeps m (wallet method args x [])"
  unfolding rl.keeps_def by (rule spec_wallet) simp

lemma keeps_wallet_mods:
  fixes args :: "'x wallet_args"
  assumes "mods \<noteq> []" "set mods \<subseteq> set (permissionModules (m_config m))"
  shows "rl.keeps m (wallet method args x mods)"
  unfolding wallet_def by (rule rl.keeps_await) (use assms in \<open>simp add: pm_permits_def\<close>)

lemma spec_check:
  "rl.spec m (\<lambda>_. True) (check_protocol m x p pid cp a u) (\<lambda>_ s. sure m (may_protocol m True (or_empty x) p pid cp u s))"
  "rl.spec m (\<lambda>_. True) (check_basket m x b a bu) (\<lambda>_ s. sure m (may_basket m True (or_empty x) b bu s))"
  "rl.spec m (\<lambda>_. True) (check_label m x l a lu) (\<lambda>_ s. sure m (may_label m True (or_empty x) l lu s))"
  unfolding check_protocol_def check_basket_def check_label_def
  by (rule rl.spec_bind [OF spec_call [OF spec_ensures(1) stable_may(1)]] rl.spec_bind [OF spec_call [OF spec_ensures(2) stable_may(2)]]
      rl.spec_bind [OF spec_call [OF spec_ensures(5) stable_may(5)]], rule rl.spec_Ret, simp)+

lemma keeps_check [pm_keeps]:
  "rl.keeps m (check_protocol m x p pid cp a u)" "rl.keeps m (check_basket m x b a bu)" "rl.keeps m (check_label m x l a lu)"
  by (rule rl.spec_keeps, rule spec_check)+

text \<open>A check, then the wallet.\<close>

lemma keeps_checked:
  fixes args :: "'x wallet_args"
  assumes "rl.spec m (\<lambda>_. True) p (\<lambda>_. F)"
    and "\<And>s. F s \<Longrightarrow> sound_manager m \<Longrightarrow> list_all (meets m (or_empty x) s) (method_needs (m_config m) method args)"
  shows "rl.keeps m (bindP p (\<lambda>_. wallet method args x []))"
  unfolding rl.keeps_def by (rule rl.spec_bind [OF assms(1)]) (rule spec_wallet [OF assms(2)])

lemma spec_when: "rl.spec m (\<lambda>_. True) p (\<lambda>_. F) \<Longrightarrow> rl.spec m (\<lambda>_. True) (whenP b p) (\<lambda>_ s. b \<longrightarrow> F s)"
  unfolding whenP_def by (auto intro: rl.spec_Ret)

lemma keeps_unless_delegated:
  assumes "\<And>args'. scheme_of name \<in> set (permissionModules (m_config m)) \<Longrightarrow> rl.keeps m (f args')" "rl.keeps m p"
  shows "rl.keeps m (unless_delegated m name method args x f p)"
  unfolding unless_delegated_def delegateToPModuleIfNeeded_def Let_def
  by (intro pm_keeps assms; simp)

section \<open>Decryption\<close>

lemma keeps_decrypt_nonempty [pm_keeps]: "rl.keeps m (decrypt_nonempty n s)"
  unfolding decrypt_nonempty_def by (intro pm_keeps)

lemma keeps_decrypt_optional [pm_keeps]: "rl.keeps m (decrypt_optional n s)"
  unfolding decrypt_optional_def by (intro pm_keeps)

lemma keeps_decryptLists [pm_keeps]: "rl.keeps m (decryptListOutputsMetadata n r)" "rl.keeps m (decryptListActionsMetadata n r)"
  unfolding decryptListOutputsMetadata_def decryptListActionsMetadata_def decryptSingleActionMetadata_def decryptActionOutputMetadata_def
  by (cases r; simp; intro pm_keeps)+

section \<open>Simple methods\<close>

lemma keeps_free_methods [pm_keeps]:
  "rl.keeps m (signAction args x)" "rl.keeps m (abortAction args x)" "rl.keeps m (isAuthenticated args x)"
  "rl.keeps m (getHeight args x)" "rl.keeps m (getHeaderForHeight args x)" "rl.keeps m (getNetwork args x)" "rl.keeps m (getVersion args x)"
  unfolding signAction_def abortAction_def isAuthenticated_def getHeight_def getHeaderForHeight_def getNetwork_def getVersion_def
  by (rule keeps_wallet_free; simp add: method_needs_def crypto_usage_def)+

lemma keeps_output_methods [pm_keeps]: "rl.keeps m (listOutputs m args x)" "rl.keeps m (relinquishOutput m args x)"
proof -
  have "rl.keeps m (bindP (check_basket m x (wa_basket args) (Some (js ''listOutputs'')) Listing) (\<lambda>_. wallet ''listOutputs'' args x []))"
    by (rule keeps_checked [OF spec_check(2)]) (simp add: method_needs_def crypto_usage_def meets_def)
  note keeps_bind' = rl.keeps_bind [OF this]
  have "rl.keeps m (bindP (check_basket m x (wa_basket args) (Some (js ''listOutputs'')) Listing)
      (\<lambda>_. bindP (wallet ''listOutputs'' args x []) (\<lambda>r. callP (decryptListOutputsMetadata m r))))"
    unfolding bindP_assoc [symmetric] by (intro keeps_bind' pm_keeps)
  then show "rl.keeps m (listOutputs m args x)"
    unfolding listOutputs_def by (rule keeps_unless_delegated [rotated]) (intro rl.keeps_bind keeps_wallet_mods pm_keeps, simp_all)
  have "rl.keeps m (bindP (check_basket m x (wa_basket args) (Some (js ''relinquishOutput'')) Removal) (\<lambda>_. wallet ''relinquishOutput'' args x []))"
    by (rule keeps_checked [OF spec_check(2)]) (simp add: method_needs_def crypto_usage_def meets_def)
  then show "rl.keeps m (relinquishOutput m args x)"
    unfolding relinquishOutput_def by (intro keeps_unless_delegated keeps_wallet_mods) simp_all
qed

lemma keeps_crypto:
  assumes "crypto_usage method = Some u"
  shows "rl.keeps m (crypto_method m method u args x)"
proof -
  have "rl.keeps m (bindP (check_protocol m x (wa_privileged args) (the_protocol args) (counterparty_or_self args) (wa_privilegedReason args) u)
      (\<lambda>_. wallet method args x []))"
    by (rule keeps_checked [OF spec_check(1)]) (simp add: method_needs_def assms meets_def)
  then show ?thesis unfolding crypto_method_def by (intro keeps_unless_delegated keeps_wallet_mods) simp_all
qed

lemma keeps_crypto_methods [pm_keeps]:
  "rl.keeps m (encrypt m args x)" "rl.keeps m (decrypt m args x)" "rl.keeps m (createHmac m args x)"
  "rl.keeps m (verifyHmac m args x)" "rl.keeps m (createSignature m args x)" "rl.keeps m (verifySignature m args x)"
  unfolding encrypt_def decrypt_def createHmac_def verifyHmac_def createSignature_def verifySignature_def
  by (rule keeps_crypto; simp add: crypto_usage_def)+

lemma keeps_linkage [pm_keeps]: "rl.keeps m (revealCounterpartyKeyLinkage m args x)" "rl.keeps m (revealSpecificKeyLinkage m args x)"
  unfolding revealCounterpartyKeyLinkage_def revealSpecificKeyLinkage_def
  by (rule keeps_checked [OF spec_check(1)]; simp add: method_needs_def crypto_usage_def meets_def)+

lemma keeps_certificates [pm_keeps]:
  "rl.keeps m (acquireCertificate m args x)" "rl.keeps m (listCertificates m args x)" "rl.keeps m (relinquishCertificate m args x)"
  "rl.keeps m (discoverByIdentityKey m args x)" "rl.keeps m (discoverByAttributes m args x)"
  unfolding acquireCertificate_def listCertificates_def relinquishCertificate_def discoverByIdentityKey_def discoverByAttributes_def
    identity_resolution_def
  by (rule keeps_checked [OF spec_when [OF spec_check(1)]]; simp add: method_needs_def crypto_usage_def meets_def)+

lemma keeps_proveCertificate [pm_keeps]: "rl.keeps m (proveCertificate m args x)"
  unfolding proveCertificate_def
  by (rule keeps_checked [OF spec_call [OF spec_ensures(3) stable_may(3)]]) (simp add: method_needs_def crypto_usage_def meets_def)

lemma keeps_getPublicKey [pm_keeps]: "rl.keeps m (getPublicKey m args x)"
proof -
  let ?idk = "check_protocol m x (wa_privileged args) (1, js ''identity key retrieval'') (js ''self'') (wa_privilegedReason args) IdentityKey"
  let ?pub = "\<lambda>pid. check_protocol m x (wa_privileged args) pid (counterparty_or_self args) (wa_privilegedReason args) PublicKey"
  let ?I = "\<lambda>s. wa_identityKey args \<longrightarrow> sure m (may_protocol m True (or_empty x) (wa_privileged args) (1, js ''identity key retrieval'') (js ''self'') IdentityKey s)"
  let ?P = "\<lambda>pid s. sure m (may_protocol m True (or_empty x) (wa_privileged args) pid (counterparty_or_self args) PublicKey s)"
  have idk: "rl.spec m (\<lambda>_. True) (whenP (wa_identityKey args) ?idk) (\<lambda>_. ?I)"
    by (rule spec_when [OF spec_check(1)])
  have alone: "rl.keeps m (bindP (whenP (wa_identityKey args) ?idk) (\<lambda>_. wallet ''getPublicKey'' args x []))" if "wa_protocolID args = None"
    by (rule keeps_checked [OF idk]) (simp add: method_needs_def crypto_usage_def meets_def that)
  have both: "rl.keeps m (bindP (?pub pid) (\<lambda>_. bindP (whenP (wa_identityKey args) ?idk) (\<lambda>_. wallet ''getPublicKey'' args x [])))"
    if "wa_protocolID args = Some pid" for pid
    unfolding rl.keeps_def
  proof (rule rl.spec_bind [OF spec_check(1)], rule rl.spec_bind [OF rl.spec_stable [OF idk stable_may(1)]], rule spec_wallet)
    fix s assume "?I s \<and> ?P pid s" "sound_manager m"
    then show "list_all (meets m (or_empty x) s) (method_needs (m_config m) ''getPublicKey'' args)"
      by (simp add: method_needs_def crypto_usage_def meets_def that)
  qed
  show ?thesis unfolding getPublicKey_def Let_def
  proof (cases "wa_protocolID args")
    case None
    then show "rl.keeps m (case wa_protocolID args of None \<Rightarrow> bindP (whenP (wa_identityKey args) ?idk) (\<lambda>_. wallet ''getPublicKey'' args x [])
      | Some pid \<Rightarrow> unless_delegated m (snd pid) ''getPublicKey'' args x (\<lambda>args'. wallet ''getPublicKey'' args' x [scheme_of (snd pid)])
          (bindP (?pub pid) (\<lambda>_. bindP (whenP (wa_identityKey args) ?idk) (\<lambda>_. wallet ''getPublicKey'' args x []))))"
      using alone by simp
  next
    case (Some pid)
    then show "rl.keeps m (case wa_protocolID args of None \<Rightarrow> bindP (whenP (wa_identityKey args) ?idk) (\<lambda>_. wallet ''getPublicKey'' args x [])
      | Some pid \<Rightarrow> unless_delegated m (snd pid) ''getPublicKey'' args x (\<lambda>args'. wallet ''getPublicKey'' args' x [scheme_of (snd pid)])
          (bindP (?pub pid) (\<lambda>_. bindP (whenP (wa_identityKey args) ?idk) (\<lambda>_. wallet ''getPublicKey'' args x []))))"
      using both [OF Some] by (simp add: keeps_unless_delegated keeps_wallet_mods)
  qed
qed

section \<open>Actions\<close>

lemma keeps_module_chains [pm_keeps]:
  "rl.keeps m (module_requests method x mods args)" "rl.keeps m (module_responses method x mods r)"
  by (induction mods arbitrary: args r) (auto intro!: pm_keeps)

lemma time_labels_remaining:
  "time_labels_from ls a = Inr t \<Longrightarrow> tl_remaining t = tl_remaining a @ filter plain_label ls"
proof (induction ls arbitrary: a)
  case Nil
  then show ?case by (auto split: option.splits if_splits)
next
  case (Cons l ls)
  then obtain b where b: "time_label l a = Inr b" "time_labels_from ls b = Inr t" by (auto simp: bindE_Inr_iff)
  have "tl_remaining b = tl_remaining a @ (if plain_label l then [l] else [])"
    using b(1) by (auto simp: time_label_def plain_label_def split: if_splits option.splits)
  with Cons.IH [OF b(2)] show ?case by simp
qed

lemma keeps_listActions [pm_keeps]: "rl.keeps m (listActions m args x)"
proof (cases "bindE (parseBrc114ActionTimeLabels (wa_labels args)) (\<lambda>t. splitLabelsByPermissionModule m (tl_remaining t) [])")
  case (Inl e)
  then show ?thesis by (simp add: listActions_def rl.keeps_Throw)
next
  case (Inr y)
  obtain mods ls where y: "y = (mods, ls)" by (cases y) auto
  from Inr y obtain t where t: "parseBrc114ActionTimeLabels (wa_labels args) = Inr t"
      "splitLabelsByPermissionModule m (tl_remaining t) [] = Inr (mods, ls)" by (auto simp: bindE_Inr_iff)
  have rem: "tl_remaining t = filter plain_label (wa_labels args)"
    using time_labels_remaining [of "wa_labels args" _ t] t(1) by (simp add: parseBrc114ActionTimeLabels_def)
  have mods: "set mods \<subseteq> set (permissionModules (m_config m))" "mods = [] \<Longrightarrow> ls = filter plain_label (wa_labels args)"
    using splitLabels_Inr [OF t(2)] rem by auto
  let ?L = "\<lambda>s. sure m (\<forall>l \<in> set ls. may_label m True (or_empty x) l ListLabel s)"
  have stL: "rl.stable m ?L" by (rule stable_log) (use may_label_mono in blast)
  have labels: "rl.spec m (\<lambda>_. True) (eachP (\<lambda>l. check_label m x l (Some (js ''listActions'')) ListLabel) ls) (\<lambda>_. ?L)"
    unfolding check_label_def by (rule spec_each_may [OF spec_ensures(5) stable_may(5)])
  show ?thesis unfolding rl.keeps_def listActions_def Inr y sum.case prod.case
  proof (rule rl.spec_bind [OF labels])
    show "rl.spec m ?L (bindP (module_requests ''listActions'' (or_empty x) mods args) (\<lambda>args'.
        bindP (wallet ''listActions'' args' x mods) (\<lambda>r. bindP (module_responses ''listActions'' (or_empty x) (rev mods) r) (\<lambda>r'.
        callP (decryptListActionsMetadata m r'))))) (\<lambda>_ _. True)"
    proof (cases "mods = []")
      case True
      have "rl.spec m ?L (wallet ''listActions'' args x []) (\<lambda>_ _. True)"
        by (rule spec_wallet) (use mods(2) [OF True] in \<open>simp add: method_needs_def crypto_usage_def meets_def list_all_iff\<close>)
      with True show ?thesis by (simp, intro rl.spec_bind [where Q = "\<lambda>_ _. True"]) (assumption, rule keeps_after, intro pm_keeps)
    next
      case False
      with mods(1) show ?thesis by (intro keeps_after pm_keeps keeps_wallet_mods)
    qed
  qed
qed

lemma split_insertions_Inr:
  "split_insertions m outs mods = Inr mods' \<Longrightarrow> set mods \<subseteq> set mods' \<and>
     set mods' \<subseteq> set mods \<union> set (permissionModules (m_config m)) \<and>
     (mods' = [] \<longrightarrow> (\<forall>b c. Some (b, c) \<in> set outs \<longrightarrow> \<not> startsWith b P_PREFIX))"
proof (induction m outs mods rule: split_insertions.induct)
  case (3 m basket c outs mods)
  show ?case
  proof (cases "startsWith basket P_PREFIX")
    case True
    with "3.prems" obtain mods1 where 1: "addPModuleByScheme m (scheme_of basket) ''basket'' mods = Inr mods1"
        "split_insertions m outs mods1 = Inr mods'" by (auto simp: bindE_Inr_iff)
    from "3.IH"(1) [OF True 1(2)] addPModule_Inr [OF 1(1)] show ?thesis by (cases mods1) auto
  next
    case False
    with "3.prems" "3.IH"(2) show ?thesis by auto
  qed
qed auto

lemma keeps_encrypt_insertion [pm_keeps]: "rl.keeps m (encrypt_insertion n i)"
  unfolding encrypt_insertion_def by (intro pm_keeps)

text \<open>An insertion checked: its basket is as before, and the originator may insert into it.\<close>

definition checked_insertion :: "manager \<Rightarrow> jstr \<Rightarrow> (jstr \<times> jstr option) option \<Rightarrow> (jstr \<times> jstr option) option \<Rightarrow> pm \<Rightarrow> bool" where
  "checked_insertion m x i j s \<longleftrightarrow> (case i of None \<Rightarrow> j = None
     | Some (b, c) \<Rightarrow> (\<exists>c'. j = Some (b, c')) \<and> (\<not> startsWith b P_PREFIX \<longrightarrow> sure m (may_basket m True x b Insertion s)))"

lemma stable_checked: "rl.stable n (checked_insertion m x i j)"
  by (rule stable_log) (auto simp: checked_insertion_def split: option.splits intro: may_mono(2))

lemma spec_check_insertion: "rl.spec m (\<lambda>_. True) (check_insertion m x d i) (checked_insertion m (or_empty x) i)"
proof (cases i)
  case None
  then show ?thesis by (simp add: check_insertion_def checked_insertion_def rl.spec_Ret)
next
  case (Some bc)
  obtain b c where bc: "bc = (b, c)" by (cases bc)
  have enc: "rl.spec m (\<lambda>s. sure m (may_basket m True (or_empty x) b Insertion s)) (encrypt_insertion m (Some (b, c)))
      (checked_insertion m (or_empty x) (Some (b, c)))"
    unfolding encrypt_insertion_def option.case prod.case
    by (intro rl.spec_then_stable stable_may(2) pm_keeps rl.spec_Ret) (simp add: checked_insertion_def)
  show ?thesis unfolding Some bc check_insertion_def option.case prod.case
    by (intro spec_if rl.spec_Ret rl.spec_bind [OF spec_check(2) enc]) (simp add: checked_insertion_def)
qed

lemma checked_needs:
  assumes "list_all2 (\<lambda>i j. checked_insertion m x i j s) is js'" "sound_manager m" "\<forall>b c. Some (b, c) \<in> set is \<longrightarrow> \<not> startsWith b P_PREFIX"
  shows "list_all (meets m x s) (concat (map (\<lambda>i. case i of None \<Rightarrow> [] | Some (b, _) \<Rightarrow> [NeedBasket b Insertion]) js'))"
  using assms
proof (induction rule: list_all2_induct)
  case (Cons i "is" j js')
  then have "list_all (meets m x s) (case j of None \<Rightarrow> [] | Some (b, _) \<Rightarrow> [NeedBasket b Insertion])"
    by (cases i) (auto simp: checked_insertion_def meets_def)
  with Cons show ?case by auto
qed simp

lemma keeps_internalizeAction [pm_keeps]: "rl.keeps m (internalizeAction m args x)"
proof (cases "bindE (split_insertions m (wa_insertions args) []) (splitLabelsByPermissionModule m (wa_labels args))")
  case (Inl e)
  then show ?thesis by (simp add: internalizeAction_def rl.keeps_Throw)
next
  case (Inr y)
  obtain mods ls where y: "y = (mods, ls)" by (cases y) auto
  from Inr y obtain mods1 where t: "split_insertions m (wa_insertions args) [] = Inr mods1"
      "splitLabelsByPermissionModule m (wa_labels args) mods1 = Inr (mods, ls)" by (auto simp: bindE_Inr_iff)
  note a = split_insertions_Inr [OF t(1)] and b = splitLabels_Inr [OF t(2)]
  have mods: "set mods \<subseteq> set (permissionModules (m_config m))" using a b by auto
  have plain: "ls = wa_labels args" "\<forall>b c. Some (b, c) \<in> set (wa_insertions args) \<longrightarrow> \<not> startsWith b P_PREFIX" if "mods = []"
    using a b that by auto
  let ?B = "\<lambda>ins s. list_all2 (\<lambda>i j. checked_insertion m (or_empty x) i j s) (wa_insertions args) ins"
  let ?L = "\<lambda>s. sure m (\<forall>l \<in> set ls. may_label m True (or_empty x) l ApplyLabel s)"
  have stB: "rl.stable m (?B ins)" for ins
    using stable_checked by (auto simp: rl.stable_def elim: list_all2_mono)
  have baskets: "rl.spec m (\<lambda>_. True) (mapP (check_insertion m x (wa_description args)) (wa_insertions args)) ?B"
    by (rule rl.spec_map [OF spec_check_insertion stable_checked])
  have labels: "rl.spec m (?B ins) (eachP (\<lambda>l. check_label m x l (Some (wa_description args)) ApplyLabel) ls) (\<lambda>_ s. ?L s \<and> ?B ins s)" for ins
    unfolding check_label_def by (rule rl.spec_stable [OF spec_each_may [OF spec_ensures(5) stable_may(5)] stB])
  show ?thesis unfolding rl.keeps_def internalizeAction_def Inr y sum.case prod.case Let_def
  proof (rule rl.spec_bind [OF baskets], rule rl.spec_bind [OF labels], rule spec_if)
    fix ins assume "mods = []"
    note p = plain [OF this]
    show "rl.spec m (\<lambda>s. ?L s \<and> ?B ins s) (wallet ''internalizeAction'' (args\<lparr>wa_insertions := ins\<rparr>) x []) (\<lambda>_ _. True)"
    proof (rule spec_wallet)
      fix s assume s: "?L s \<and> ?B ins s" "sound_manager m"
      show "list_all (meets m (or_empty x) s) (method_needs (m_config m) ''internalizeAction'' (args\<lparr>wa_insertions := ins\<rparr>))"
        using checked_needs [OF conjunct2 [OF s(1)] s(2) p(2)] s p(1)
        by (simp add: method_needs_def crypto_usage_def) (simp add: list_all_iff meets_def)
    qed
  next
    fix ins assume "mods \<noteq> []"
    with mods show "rl.spec m (\<lambda>s. ?L s \<and> ?B ins s)
        (bindP (module_requests ''internalizeAction'' (or_empty x) mods (args\<lparr>wa_insertions := ins\<rparr>)) (\<lambda>args2.
          bindP (mapP (encrypt_insertion m) (wa_insertions args2)) (\<lambda>ins2.
          bindP (wallet ''internalizeAction'' (args2\<lparr>wa_insertions := ins2\<rparr>) x mods)
            (module_responses ''internalizeAction'' (or_empty x) (rev mods))))) (\<lambda>_ _. True)"
      by (intro keeps_after pm_keeps keeps_wallet_mods)
  qed
qed

section \<open>Signing in\<close>

lemma keeps_request_manifest [pm_keeps]: "rl.keeps m (request_manifest m x)"
proof -
  have ask: "rl.keeps m (bindP (readP (\<lambda>s. pm_active s key)) (\<lambda>existing. case existing of
      Some eid \<Rightarrow> bindP (join_request eid id) (\<lambda>w. bindP (waitP w) (\<lambda>_. Ret ()))
    | None \<Rightarrow> bindP (open_request key r) (\<lambda>w. bindP (callP (callEvent OnGrouped key r)) (\<lambda>_. bindP (waitP w) (\<lambda>_. Ret ())))))" for key r
    unfolding rl.keeps_def
    by (rule spec_active, rule keeps_asked [OF spec_open], intro pm_keeps, rule keeps_asked [OF spec_join], intro pm_keeps)
  show ?thesis unfolding request_manifest_def Let_def by (intro pm_keeps ask)
qed

lemma keeps_waitForAuthentication [pm_keeps]: "rl.keeps m (waitForAuthentication m args x)"
proof -
  have "rl.keeps m (wallet ''waitForAuthentication'' args x [])"
    by (rule keeps_wallet_free) (simp add: method_needs_def crypto_usage_def)
  then show ?thesis unfolding waitForAuthentication_def by (intro pm_keeps)
qed

text \<open>
  The system of all calls of the manager's public methods, and what holds of every state it can come to. The world
  moves the clock on and binds and unbinds handlers.
\<close>

definition call_of :: "('x, 'a) pmp \<Rightarrow> ('x, unit) pmp" where
  "call_of p = bindP p (\<lambda>_. Ret ())"

inductive pm_call :: "manager \<Rightarrow> ('x, unit) pmp \<Rightarrow> bool" for m where
  "pm_call m (grantPermission m key e eph a)"
| "pm_call m (denyPermission key)"
| "pm_call m (grantGroupedPermission m key granted e)"
| "pm_call m (denyGroupedPermission key)"
| "pm_call m (dismissGroupedPermission key)"
| "pm_call m (grantCounterpartyPermission m key protocols e)"
| "pm_call m (denyCounterpartyPermission key)"
| "pm_call m (call_of (ensureProtocolPermission m x p pid cp reason seek u))"
| "pm_call m (call_of (ensureBasketAccess m x b reason seek bu))"
| "pm_call m (call_of (ensureCertificateAccess m x p c reason seek))"
| "pm_call m (call_of (ensureSpendingAuthorization m x n items reason seek))"
| "pm_call m (call_of (ensureLabelAccess m x l reason seek lu))"
| "pm_call m (call_of (hasProtocolPermission m x p pid cp))"
| "pm_call m (call_of (hasBasketAccess m x b))"
| "pm_call m (call_of (hasCertificateAccess m x p c))"
| "pm_call m (call_of (hasSpendingAuthorization m x n))"
| "pm_call m (call_of (listProtocolPermissions m y pr name level cpo))"
| "pm_call m (call_of (listBasketAccess m y bo))"
| "pm_call m (call_of (listCertificateAccess m y pr ty v))"
| "pm_call m (call_of (listSpendingAuthorizations m y))"
| "pm_call m (call_of (querySpentSince m t))"
| "pm_call m (call_of (revokePermissions m ts))"
| "pm_call m (call_of (revokeAllForOriginator m x inc))"
| "pm_call m (revokePermission m t)"
| "pm_call m (call_of (createAction m act y))"
| "pm_call m (call_of (signAction args y))"
| "pm_call m (call_of (abortAction args y))"
| "pm_call m (call_of (listActions m args y))"
| "pm_call m (call_of (internalizeAction m args y))"
| "pm_call m (call_of (listOutputs m args y))"
| "pm_call m (call_of (relinquishOutput m args y))"
| "pm_call m (call_of (getPublicKey m args y))"
| "pm_call m (call_of (revealCounterpartyKeyLinkage m args y))"
| "pm_call m (call_of (revealSpecificKeyLinkage m args y))"
| "pm_call m (call_of (encrypt m args y))"
| "pm_call m (call_of (decrypt m args y))"
| "pm_call m (call_of (createHmac m args y))"
| "pm_call m (call_of (verifyHmac m args y))"
| "pm_call m (call_of (createSignature m args y))"
| "pm_call m (call_of (verifySignature m args y))"
| "pm_call m (call_of (acquireCertificate m args y))"
| "pm_call m (call_of (listCertificates m args y))"
| "pm_call m (call_of (proveCertificate m args y))"
| "pm_call m (call_of (relinquishCertificate m args y))"
| "pm_call m (call_of (discoverByIdentityKey m args y))"
| "pm_call m (call_of (discoverByAttributes m args y))"
| "pm_call m (call_of (isAuthenticated args y))"
| "pm_call m (call_of (waitForAuthentication m args y))"
| "pm_call m (call_of (getHeight args y))"
| "pm_call m (call_of (getHeaderForHeight args y))"
| "pm_call m (call_of (getNetwork args y))"
| "pm_call m (call_of (getVersion args y))"

inductive pm_move :: "pm \<Rightarrow> pm \<Rightarrow> bool" where
  tick: "pm_now s \<le> n \<Longrightarrow> pm_move s (s\<lparr>pm_now := n\<rparr>)"
| handler_bound: "pm_move s (snd (bindCallback ev h s))"
| handler_unbound: "pm_move s (snd (unbindCallback ev h s))"
| handler_id_unbound: "pm_move s (snd (unbindCallbackId ev i s))"

abbreviation pm_reaches :: "manager \<Rightarrow> (pm, 'x pm_query, 'x pm_answer, pm_error, unit) async_sys \<Rightarrow>
    (pm, 'x pm_query, 'x pm_answer, pm_error, unit) async_sys \<Rightarrow> bool" where
  "pm_reaches m \<equiv> (async_step settled (pm_call m) pm_move)\<^sup>*\<^sup>*"

lemma keeps_call_of [pm_keeps]: "rl.keeps m p \<Longrightarrow> rl.keeps m (call_of p)"
  unfolding call_of_def by (intro pm_keeps)

lemma call_keeps: "pm_call m p \<Longrightarrow> rl.keeps m p"
  by (induction rule: pm_call.induct) (rule pm_keeps; (rule pm_keeps)?)+

lemma move_fields:
  "pm_move s t \<Longrightarrow> pm_promises t = pm_promises s \<and> pm_entries t = pm_entries s \<and> pm_active t = pm_active s \<and>
    pm_log t = pm_log s \<and> pm_cache t = pm_cache s \<and> pm_recent t = pm_recent s"
  by (induction rule: pm_move.induct)
    (simp_all add: bindCallback_def unbindCallback_def unbindCallbackId_def Let_def split: option.split)

lemma move_keeps: "pm_move s t \<Longrightarrow> pm_inv m s \<Longrightarrow> pm_inv m t \<and> pm_rel s t"
  using move_fields by (intro aside_step) blast+

lemma empty_inv: "pm_inv m (empty_pm now)"
  by (simp add: pm_inv_def empty_pm_def no_lost_waiter_def open_promise_def active_ok_def pending_ok_def answers_ok_def caches_ok_def)

lemma steady_inv: "rl.steady m (\<lambda>_. pm_inv m)"
  by (simp add: rl.steady_def)

lemma reach:
  assumes "pm_reaches m (s, []) (t, ps)" "pm_inv m s"
  shows "pm_inv m t \<and> pm_rel s t \<and> (\<forall>p \<in> set ps. rl.parked m p (\<lambda>_. pm_inv m) (\<lambda>_. pm_inv m) t)"
  by (rule rl.async_reachable [OF assms(1) _ move_keeps steady_inv steady_inv assms(2)])
    (simp add: rl.keepsD call_keeps)

lemma reach_more:
  assumes "pm_reaches m (s, ps) (t, qs)" "pm_inv m s" "\<forall>p \<in> set ps. rl.parked m p (\<lambda>_. pm_inv m) (\<lambda>_. pm_inv m) s"
  shows "pm_inv m t \<and> pm_rel s t \<and> (\<forall>p \<in> set qs. rl.parked m p (\<lambda>_. pm_inv m) (\<lambda>_. pm_inv m) t)"
  using assms(1)
proof (induction "(t, qs)" arbitrary: t qs rule: rtranclp_induct)
  case base
  then show ?case using assms(2,3) rl.R_refl by simp
next
  case (step y)
  obtain u us where y: "y = (u, us)" by (cases y)
  from step(3) [OF y] have u: "pm_inv m u" "pm_rel s u" "\<forall>p \<in> set us. rl.parked m p (\<lambda>_. pm_inv m) (\<lambda>_. pm_inv m) u" by auto
  have "\<And>p s. pm_call m p \<Longrightarrow> pm_inv m s \<Longrightarrow> rl.wp m p (\<lambda>_. pm_inv m) (\<lambda>_. pm_inv m) s" by (simp add: rl.keepsD call_keeps)
  from rl.async_sound [OF step(2) [unfolded y] this move_keeps steady_inv steady_inv u(1,3)]
  show ?case using rl.R_trans [OF u(2)] by blast
qed

lemma reachable_inv: "pm_reaches m (empty_pm now, []) (s, ps) \<Longrightarrow> pm_inv m s"
  using reach empty_inv by blast

lemma reachable_parked:
  assumes "pm_reaches m (empty_pm now, []) (s, ps)" "Await q k \<in> set ps"
  shows "pm_permits m q s"
  using reach [OF assms(1) empty_inv] assms(2) by fastforce

end
