(* ===== verification/PermDemo.thy ===== *)
theory PermDemo
  imports PermForwardAuth
begin

text \<open>
  A manager on which runs are evaluated: originators are names without a URL, scripts hold their fields in clear.
\<close>

definition demo_outside :: outside where
  "demo_outside = \<lparr>o_url = (\<lambda>_. None), o_fields = (\<lambda>beef txid i. Some [txid]), o_script = (\<lambda>beef txid i. txid), o_tx = (\<lambda>beef txid. beef),
     o_utf8 = (\<lambda>s. s), o_toUTF8 = (\<lambda>s. s), o_toBase64 = (\<lambda>s. s), o_fromBase64 = (\<lambda>s. s),
     o_tx_view = (\<lambda>_. \<lparr>tv_inputs = [], tv_outputs = [], tv_fee = 0\<rparr>), o_mergeBeef = concat, o_isSignAction = (\<lambda>_. Some False)\<rparr>"

definition demo_config :: perm_config where
  "demo_config = default_config\<lparr>encryptWalletMetadata := False\<rparr>"

definition demo :: manager where
  "demo = new_manager demo_outside (js ''admin'') demo_config"

definition no_args :: "unit wallet_args" where
  "no_args = \<lparr>wa_protocolID = None, wa_keyID = [], wa_counterparty = None, wa_verifier = [], wa_privileged = False,
     wa_privilegedReason = None, wa_identityKey = False, wa_basket = [], wa_labels = [], wa_certType = [], wa_certFields = [],
     wa_description = [], wa_insertions = [], wa_rest = ()\<rparr>"

definition demo_group :: grouped_permissions where
  "demo_group = \<lparr>gr_description = None, gr_spending = None, gr_protocols = [],
     gr_baskets = [\<lparr>gb_basket = js ''b'', gb_description = []\<rparr>], gr_certificates = []\<rparr>"

definition no_group :: grouped_permissions where
  "no_group = \<lparr>gr_description = None, gr_spending = None, gr_protocols = [], gr_baskets = [], gr_certificates = []\<rparr>"

type_synonym demo_prog = "(unit, unit) pmp"
type_synonym demo_act = "(pm, unit pm_query, unit pm_answer, pm_error, unit) act"

definition run :: "demo_act list \<Rightarrow> (pm \<times> demo_prog list) option" where
  "run acts = run_acts settled acts (empty_pm 0, [])"

text \<open>Programs are evaluated up to the next request, and not under it: no rewriting below the continuations.\<close>

lemma lazy:
  "q = q' \<Longrightarrow> Await q k = Await q' k" "w = w' \<Longrightarrow> Wait w k = Wait w' k" "f = f' \<Longrightarrow> Do f j = Do f' j"
  "p = p' \<Longrightarrow> bindP p g = bindP p' g" "p = p' \<Longrightarrow> catchP p h = catchP p' h"
  by simp_all

definition yes :: "nat \<Rightarrow> demo_act" where
  "yes i = Answer i (Inr UnitA)"

lemma demo_fields [simp]: "m_out demo = demo_outside" "m_config demo = demo_config"
  by (simp_all add: demo_def new_manager_def)

lemmas text_eval = js_def prepareOriginator_def js_trim_def js_space_def normalizeOriginator_def demo_outside_def toLowerCase_def
  Let_def hasScheme_def is_alpha_def isAdminOriginator_def demo_def new_manager_def isAdminBasket_def startsWith_def demo_config_def

lemma demo_app [simp]:
  "prepareOriginator demo_outside (js ''app'') = Inr (js ''app'', [js ''app''])" "isAdminOriginator demo (js ''app'') = False"
  "normalizeOriginator demo_outside (js ''app'') = js ''app''" "js ''app'' \<noteq> []"
  by (simp_all add: text_eval)

lemma demo_basket [simp]: "isAdminBasket (js ''b'') = False"
  by (simp add: text_eval)

lemma demo_cfg [simp]: "seekGroupedPermission demo_config" "isBasketUsageRequired demo_config u"
  by (simp_all add: demo_config_def default_config_def isBasketUsageRequired_def)

lemmas run_eval = yes_def call_of_def callP_def readP_def modifyP_def finallyP_def yieldP_def Let_def empty_pm_def awaitP_def waitP_def
  resume_def settled_def

lemmas flow_eval = waitForAuthentication_def or_empty_def withGroupedPermissionFlowLock_def request_manifest_def
  fetchManifestPermissions_def manifest_of_def filterAlreadyGrantedPermissions_def missing_def hasBasketAccess_def succeeds_def
  ensureBasket_with_def is_covered_def isPermissionCached_def isRecentlyGranted_def cache_valid_def recent_valid_def
  findBasketToken_def origins_to_try_def outputs_of_def use_token_def hasAnyPermissionsToRequest_def open_request_def callEvent_def
  settle_all_def settle_promise_def MANIFEST_CACHE_TTL_MS_def wallet_def

lemmas answer_eval = grantGroupedPermission_def with_active_def validateGrantedPermissionsSubset_def grant_group_def protocol_grants_def
  issue_tokens_def createPermissionTokensBestEffort_def renewPermissionTokensBestEffort_def to_create_def to_renew_def
  finish_entry_def settle_entry_def entry_def logE_def delete_active_def denyGroupedPermission_def denyActiveRequest_def settle_and_delete_def

section \<open>A waiter is lost\<close>

text \<open>The group is asked for when the application signs in; the user begins to grant none of it, then denies it; the
  application signs in again; then the granting ends.\<close>

definition login :: demo_prog where
  "login = call_of (waitForAuthentication demo no_args (Some (js ''app'')))"

definition group_key :: jstr where
  "group_key = js ''group:'' @ js ''app''"

definition race :: "demo_act list" where
  "race = [Start login, yes 0, Answer 0 (Inr (ManifestA (Some demo_group) None)), yes 0, Answer 0 (Inr (OutputsA [] [])),
     yes 0, yes 0, yes 0, yes 0,
     Start (grantGroupedPermission demo group_key no_group None), Start (denyGroupedPermission group_key), Wake 0,
     Start login, yes 3, yes 3, Answer 3 (Inr (OutputsA [] [])), yes 3, yes 3, yes 3, yes 3,
     yes 1, yes 1, yes 1]"

lemma race_ok: "list_all (act_ok (pm_call demo)) race"
  by (simp add: race_def yes_def login_def pm_call.intros)

lemma race_run:
  "map_option (\<lambda>(s, ps). (open_promise s group_key 3, pm_active s group_key)) (run race) = Some (True, None)"
  unfolding run_def race_def login_def group_key_def
  by (simp cong: lazy add: run_eval flow_eval answer_eval demo_group_def no_group_def no_args_def open_promise_def)

section \<open>The user is asked\<close>

text \<open>The application lists a basket: no token, no manifest; the user is asked, and agrees to the one use.\<close>

definition list_args :: "unit wallet_args" where
  "list_args = no_args\<lparr>wa_basket := js ''b''\<rparr>"

definition listing :: demo_prog where
  "listing = call_of (listOutputs demo list_args (Some (js ''app'')))"

definition asked_request :: perm_request where
  "asked_request = (basket_request (js ''app'') (js ''b''))\<lparr>pr_usageType := Some (basket_usage_name Listing),
     pr_reason := Some (js ''listOutputs''), pr_displayOriginator := Some (js ''app'')\<rparr>"

definition asked_key :: jstr where
  "asked_key = buildActiveRequestKey demo_outside asked_request"

definition asked :: "demo_act list" where
  "asked = [Start listing, yes 0, Answer 0 (Inr (OutputsA [] [])), yes 0, yes 0, yes 0, Answer 0 (Inr (ManifestA None None)),
     yes 0, yes 0, yes 0, yes 0, yes 0, yes 0, Start (grantPermission demo asked_key None True None), Wake 0, yes 0, yes 0]"

lemma asked_ok: "list_all (act_ok (pm_call demo)) asked"
  by (simp add: asked_def yes_def listing_def pm_call.intros)

lemma not_for_module [simp]: "startsWith (js ''b'') P_PREFIX = False"
  by (simp add: text_eval P_PREFIX_def)

lemma asked_prepared [simp]:
  "prepared_request demo (basket_request (js ''app'') (js ''b'')\<lparr>pr_usageType := Some (basket_usage_name Listing),
     pr_reason := Some (js ''listOutputs'')\<rparr>) = asked_request"
  by (simp add: prepared_request_def asked_request_def Let_def basket_request_def blank_request_def)

lemma asked_fields [simp]:
  "pr_type asked_request = BasketPerm" "pr_protocolID asked_request = None" "pr_originator asked_request = js ''app''"
  by (simp_all add: asked_request_def basket_request_def blank_request_def)

lemmas call_eval = listOutputs_def unless_delegated_def delegateToPModuleIfNeeded_def check_basket_def ensureBasketAccess_def
  flow_call_def requestPermissionFlow_def piggyback_or_def isPiggybacking_def maybeRequestPact_def
  maybeRequestPeerGroupedLevel2ProtocolPermissions_def resolveGroupedFlow_def maybeRequestGroupedPermissions_def
  enqueueAndFireEvent_def firePermissionRequestEvent_def event_of_def asked_key_def [symmetric] grantPermission_def

lemma asked_run: "\<exists>s ps k. run asked = Some (s, ps) \<and> Await (WalletQ ''listOutputs'' list_args (Some (js ''app'')) []) k \<in> set ps"
  unfolding run_def asked_def listing_def
  by (simp cong: lazy add: run_eval flow_eval answer_eval no_args_def list_args_def call_eval)

section \<open>A payment\<close>

text \<open>The application has 1000 satoshis paid to an output of a basket: the user is asked for the insertion, the wallet
  makes the action, the user is asked for the spending, and the wallet is asked to sign.\<close>

definition pay_output :: action_output where
  "pay_output = \<lparr>ao_lockingScript = [], ao_satoshis = 1000, ao_outputDescription = [], ao_basket = Some (js ''b''),
     ao_customInstructions = None, ao_tags = []\<rparr>"

definition pay_args :: action_args where
  "pay_args = (plain_action (js ''pay'') [pay_output])
     \<lparr>aa_options := \<lparr>op_signAndProcess = None, op_acceptDelayedBroadcast = None, op_randomizeOutputs = None\<rparr>\<rparr>"

definition paying :: demo_prog where
  "paying = call_of (createAction demo pay_args (Some (js ''app'')))"

definition insert_request :: perm_request where
  "insert_request = (basket_request (js ''app'') (js ''b''))\<lparr>pr_usageType := Some (basket_usage_name Insertion),
     pr_reason := Some (js ''pay''), pr_displayOriginator := Some (js ''app'')\<rparr>"

definition insert_key :: jstr where
  "insert_key = buildActiveRequestKey demo_outside insert_request"

definition spend_item :: "line_item list" where
  "spend_item = snd (computeNetSpend (o_tx_view demo_outside []) pay_args)"

definition spend_request :: perm_request where
  "spend_request = (spending_request (js ''app'') 1000 spend_item)\<lparr>pr_reason := Some (js ''pay''), pr_displayOriginator := Some (js ''app'')\<rparr>"

definition spend_key :: jstr where
  "spend_key = buildActiveRequestKey demo_outside spend_request"

definition paid :: "demo_act list" where
  "paid = [Start paying, Answer 0 (Inr (OutputsA [] [])), yes 0, yes 0, yes 0, Answer 0 (Inr (ManifestA None None)),
     yes 0, yes 0, yes 0, yes 0, yes 0, yes 0, Start (grantPermission demo insert_key None True None), Wake 0, yes 0, yes 0,
     yes 0, yes 0, Answer 0 (Inr (ActionA \<lparr>ar_txid = None, ar_tx = None, ar_signable = Some ([], js ''ref'')\<rparr>)), yes 0,
     Answer 0 (Inr (OutputsA [] [])), yes 0, yes 0, yes 0, yes 0, yes 0, yes 0, yes 0, yes 0, yes 0,
     Start (grantPermission demo spend_key None True None), Wake 0, yes 0, yes 0]"

lemma insert_prepared [simp]:
  "prepared_request demo (basket_request (js ''app'') (js ''b'')\<lparr>pr_usageType := Some (basket_usage_name Insertion),
     pr_reason := Some (js ''pay'')\<rparr>) = insert_request"
  by (simp add: prepared_request_def insert_request_def Let_def basket_request_def blank_request_def)

lemma insert_fields [simp]:
  "pr_type insert_request = BasketPerm" "pr_protocolID insert_request = None" "pr_originator insert_request = js ''app''"
  by (simp_all add: insert_request_def basket_request_def blank_request_def)

lemma pay_spends: "computeNetSpend (o_tx_view demo_outside []) pay_args = (1000, spend_item)"
  by (simp add: spend_item_def computeNetSpend_def Let_def demo_outside_def pay_args_def plain_action_def pay_output_def input_items_def)

lemma spend_prepared [simp]:
  "prepared_request demo (spending_request (js ''app'') 1000 spend_item\<lparr>pr_reason := Some (js ''pay'')\<rparr>) = spend_request"
  by (simp add: prepared_request_def spend_request_def Let_def spending_request_def blank_request_def)

lemma spend_fields [simp]:
  "pr_type spend_request = SpendingPerm" "pr_protocolID spend_request = None" "pr_originator spend_request = js ''app''"
  by (simp_all add: spend_request_def spending_request_def blank_request_def)

lemma pay_fields [simp]:
  "aa_outputs pay_args = [pay_output]" "aa_inputs pay_args = []" "aa_labels pay_args = []"
  "aa_description pay_args = js ''pay''"
  "ao_basket pay_output = Some (js ''b'')" "ao_outputDescription pay_output = []" "ao_customInstructions pay_output = None"
  "js ''b'' \<noteq> []" "op_signAndProcess (aa_options pay_args) = None" "\<not> encryptWalletMetadata demo_config" "seekSpendingPermissions demo_config"
  "o_isSignAction demo_outside a = Some False"
  by (simp_all add: pay_args_def pay_output_def plain_action_def js_def demo_config_def demo_outside_def default_config_def)

lemmas pay_eval = createAction_def finish_action_def callCreateActionWithPModules_def encryptActionMetadata_def encrypt_text_def encrypt_instructions_def
  maybeEncryptMetadata_def enforceSignAndProcess_def ensureSpendingAuthorization_def ensureSpending_with_def findSpendingToken_def pay_spends
  insert_key_def [symmetric] spend_key_def [symmetric] bindE_def action_of_def whenP_def

lemma paid_ok: "list_all (act_ok (pm_call demo)) paid"
  by (simp add: paid_def yes_def paying_def pm_call.intros)

definition sent_args :: action_args where
  "sent_args = pay_args\<lparr>aa_description := js ''pay'', aa_inputs := [],
     aa_outputs := [pay_output\<lparr>ao_outputDescription := [], ao_customInstructions := None\<rparr>],
     aa_options := aa_options pay_args\<lparr>op_signAndProcess := Some False\<rparr>, aa_labels := admin_labels (Some (js ''app'')) 0\<rparr>"

lemma create_run: "\<exists>s ps k. run (take 18 paid) = Some (s, ps) \<and> Await (CreateActionQ sent_args (Some (js ''app'')) []) k \<in> set ps"
  unfolding run_def paid_def paying_def
  by (simp cong: lazy add: run_eval flow_eval answer_eval call_eval pay_eval sent_args_def)

lemma sign_run: "\<exists>s ps k. run paid = Some (s, ps) \<and>
    Await (SignActionQ (js ''ref'') [] (Some (aa_options pay_args)) (Some (js ''app'')) (Some 1000)) k \<in> set ps"
  unfolding run_def paid_def paying_def
  by (simp cong: lazy add: run_eval flow_eval answer_eval call_eval pay_eval)

end
