(* ===== verification/PermProps.thy ===== *)
theory PermProps
  imports PermDemo
begin

text \<open>
  What the permissions manager guarantees under every interleaving of its calls, of the user's answers and of the
  wallet's.
\<close>

section \<open>The demonstration manager\<close>






lemma demo_reaches:
  "run acts = Some (s, ps) \<Longrightarrow> list_all (act_ok (pm_call demo)) acts \<Longrightarrow> pm_reaches demo (empty_pm 0, []) (s, ps)"
  unfolding run_def by (rule run_acts_sound)

lemma ok_prefix: "list_all P xs \<Longrightarrow> list_all P (take n xs)"
  by (simp add: list_all_iff) (meson in_set_takeD)


section \<open>Complete mediation\<close>







section \<open>Waiting for the user\<close>

lemma settled_open: "settled s w = None \<and> w < length (pm_promises s) \<and> pr_key (pm_promises s ! w) = Some key \<longleftrightarrow> open_promise s key w"
  by (auto simp: settled_def open_promise_def)

lemma waiter_queued:
  assumes "pm_inv m s" "open_promise s key w" "LateDelete key \<notin> set (pm_log s)"
  obtains eid where "pm_active s key = Some eid" "eid < length (pm_entries s)" "en_key (pm_entries s ! eid) = key"
    "w \<in> set (en_pending (pm_entries s ! eid))"
  using assms unfolding pm_inv_def no_lost_waiter_def active_ok_def by blast

lemma settle_all_settles:
  "open_promise s key w \<Longrightarrow> w \<in> set ws \<Longrightarrow> settled (settle_all ws x s) w = Some x"
  by (simp add: settled_def open_promise_def settle_all_nth)

lemma settled_fields: "pm_promises t = pm_promises s \<Longrightarrow> settled t = settled s"
  by (simp add: settled_def fun_eq_iff)

lemma settle_and_delete_settles:
  assumes "open_promise s key w" "w \<in> set (en_pending (pm_entries s ! eid))"
  shows "settled (delete_active key (settle_entry eid x s)) w = Some x"
  using settle_all_settles [OF assms, of x] assms(1)
  by (cases "x = Inr True") (auto simp: settle_entry_def entry_def delete_active_def logE_def Let_def settled_def open_promise_def)

text \<open>C8: the user's answer reaches every waiter. In every state the manager can come to, a call that waits for the
  user's answer to a request is woken by it, with \<open>true\<close> when the user grants and with an error when the user denies;
  the one exception is a key of which the late end of granting an older request deleted a newer one.\<close>

lemma answer_reaches_every_waiter:
  fixes ps :: "('x, unit) pmp list"
  assumes "pm_reaches m (empty_pm now, []) (s, ps)" "open_promise s key w" "LateDelete key \<notin> set (pm_log s)"
  shows "settled (fst (advance (grantPermission m key expiry True amount :: ('x, unit) pmp) s)) w = Some (Inr True) \<and>
    settled (fst (advance (denyPermission key :: ('x, unit) pmp) s)) w = Some (Inl (Err ''Permission denied.'' [])) \<and>
    settled (fst (advance (denyGroupedPermission key :: ('x, unit) pmp) s)) w = Some (Inl UserDenied)"
proof -
  obtain eid where "pm_active s key = Some eid" "w \<in> set (en_pending (pm_entries s ! eid))"
    using waiter_queued [OF reachable_inv [OF assms(1)] assms(2,3)] .
  with assms(2) show ?thesis
    by (simp add: grantPermission_def denyPermission_def denyGroupedPermission_def denyActiveRequest_def with_active_def readP_def
        settle_and_delete_def modifyP_def settle_and_delete_settles)
qed

lemma asked_waits: "\<exists>s ps. run (take 13 asked) = Some (s, ps) \<and> open_promise s asked_key 1 \<and> LateDelete asked_key \<notin> set (pm_log s)"
  unfolding run_def asked_def listing_def
  by (simp cong: lazy add: run_eval flow_eval answer_eval no_args_def list_args_def call_eval open_promise_def)

lemma answer_reaches_every_waiter_witness:
  "\<exists>s. open_promise s asked_key 1 \<and>
     settled (fst (advance (grantPermission demo asked_key None True None :: demo_prog) s)) 1 = Some (Inr True)"
proof -
  obtain s ps where r: "run (take 13 asked) = Some (s, ps)" and o: "open_promise s asked_key 1" "LateDelete asked_key \<notin> set (pm_log s)"
    using asked_waits by blast
  from answer_reaches_every_waiter [OF demo_reaches [OF r ok_prefix [OF asked_ok]] o] o show ?thesis by blast
qed

text \<open>a waiter can be lost. While the manager still writes the tokens of a group of permissions, the user denies
  the group; the application asks for it again, and the end of the writing deletes the new request: its caller waits
  for a request that neither granting nor denying finds any more.\<close>

lemma waiter_lost:
  "\<exists>s (ps :: demo_prog list). pm_reaches demo (empty_pm 0, []) (s, ps) \<and> open_promise s group_key 3 \<and>
     advance (denyGroupedPermission group_key :: demo_prog) s = (s, Throw not_found) \<and>
     advance (grantGroupedPermission demo group_key demo_group None :: demo_prog) s = (s, Throw not_found)"
proof -
  obtain s ps where r: "run race = Some (s, ps)" and o: "open_promise s group_key 3" and n: "pm_active s group_key = None"
    using race_run by (auto simp: map_option_case split: option.splits prod.splits)
  have "pm_reaches demo (empty_pm 0, []) (s, ps)" using demo_reaches [OF r race_ok] .
  moreover from n have "advance (denyGroupedPermission group_key :: demo_prog) s = (s, Throw not_found)"
    "advance (grantGroupedPermission demo group_key demo_group None :: demo_prog) s = (s, Throw not_found)"
    by (simp_all add: denyGroupedPermission_def denyActiveRequest_def grantGroupedPermission_def with_active_def readP_def)
  ultimately show ?thesis using o by blast
qed


text \<open>the queue is well formed. Every active request of a state the manager can come to is filed under its own
  key and has at least one waiter, and every promise pending in it exists and belongs to that key.\<close>

lemma active_requests_well_formed:
  fixes ps :: "('x, unit) pmp list"
  assumes "pm_reaches m (empty_pm now, []) (s, ps)" "pm_active s key = Some eid"
  shows "eid < length (pm_entries s) \<and> en_key (pm_entries s ! eid) = key \<and> en_pending (pm_entries s ! eid) \<noteq> [] \<and>
    (\<forall>w \<in> set (en_pending (pm_entries s ! eid)). w < length (pm_promises s) \<and> pr_key (pm_promises s ! w) = Some key)"
  using reachable_inv [OF assms(1)] assms(2) by (auto simp: pm_inv_def active_ok_def pending_ok_def)



lemma asked_active: "\<exists>s ps eid. run (take 13 asked) = Some (s, ps) \<and> pm_active s asked_key = Some eid"
  unfolding run_def asked_def listing_def
  by (simp cong: lazy add: run_eval flow_eval answer_eval no_args_def list_args_def call_eval)

lemma active_requests_well_formed_witness:
  "\<exists>(s::pm) eid. pm_active s asked_key = Some eid \<and> en_key (pm_entries s ! eid) = asked_key \<and> en_pending (pm_entries s ! eid) \<noteq> []"
proof -
  obtain s ps eid where r: "run (take 13 asked) = Some (s, ps)" and a: "pm_active s asked_key = Some eid"
    using asked_active by blast
  from active_requests_well_formed [OF demo_reaches [OF r ok_prefix [OF asked_ok]] a] a show ?thesis by (intro exI [of _ s] exI [of _ eid]) simp
qed

end
