(* ===== verification/PermTokenProps.thy ===== *)
theory PermTokenProps
  imports PermDemo
begin

text \<open>
  What is written into a permission token is what is found again: the fields and tags of a new token against the
  search for it. The wallet's encryption, its baskets and the decoding of scripts are what the outside answers.
\<close>

definition tokens_readable :: "manager \<Rightarrow> ('x pm_query \<Rightarrow> pm_error + 'x pm_answer) \<Rightarrow> (nat list \<Rightarrow> nat list) \<Rightarrow> bool" where
  "tokens_readable m w enc \<longleftrightarrow>
     (\<forall>b. w (EncryptQ PERM_TOKEN_ENCRYPTION_PROTOCOL b) = Inr (BytesA (enc b)) \<and>
          w (DecryptQ PERM_TOKEN_ENCRYPTION_PROTOCOL (enc b)) = Inr (BytesA b)) \<and>
     (\<forall>s. o_toUTF8 (m_out m) (o_utf8 (m_out m) s) = s)"

text \<open>The outside lists under the tags one output, whose script holds the fields.\<close>

definition token_listed ::
  "manager \<Rightarrow> ('x pm_query \<Rightarrow> pm_error + 'x pm_answer) \<Rightarrow> perm_type \<Rightarrow> jstr list \<Rightarrow> listed_output \<Rightarrow> nat list \<Rightarrow> nat list list \<Rightarrow> bool" where
  "token_listed m w ty tags out beef flds \<longleftrightarrow> w (ListOutputsQ (BASKET_MAP ty) tags) = Inr (OutputsA [out] beef) \<and>
     (case parseOutpoint (lo_outpoint out) of None \<Rightarrow> False | Some (txid, i) \<Rightarrow> o_fields (m_out m) beef txid i = Some flds)"

lemma serve_awaitP_eq: "serve w (awaitP q get bad) s =
    (case w q of Inl e \<Rightarrow> (Some (Inl e), s) | Inr r \<Rightarrow> (case get r of None \<Rightarrow> (Some (Inl bad), s) | Some a \<Rightarrow> (Some (Inr a), s)))"
  by (simp add: awaitP_def split: sum.split option.split)

lemma serve_encrypt_field:
  "tokens_readable m w enc \<Longrightarrow> serve w (encryptPermissionTokenField m t) s = (Some (Inr (enc (o_utf8 (m_out m) t))), s)"
  by (simp add: tokens_readable_def encryptPermissionTokenField_def serve_awaitP_eq bytes_of_def)

lemma serve_fields:
  "tokens_readable m w enc \<Longrightarrow> serve w (buildPushdropFields m r expiry amount) s =
     (Some (Inr (map (\<lambda>t. enc (o_utf8 (m_out m) t)) (token_texts r expiry amount))), s)"
  unfolding buildPushdropFields_def by (rule serve_mapP) (rule serve_encrypt_field)

lemma serve_decrypt_field:
  "tokens_readable m w enc \<Longrightarrow> serve w (decrypt_text m (enc (o_utf8 (m_out m) t))) s = (Some (Inr t), s)"
  by (simp add: tokens_readable_def decrypt_text_def decryptPermissionTokenField_def serve_bind serve_catch serve_awaitP_eq bytes_of_def)

lemma serve_token_at:
  "parseOutpoint (lo_outpoint out) = Some (txid, i) \<Longrightarrow> serve w (token_at m beef out) s =
     (Some (Inr (no_token\<lparr>pt_txid := txid, pt_tx := o_tx (m_out m) beef txid, pt_outputIndex := i,
        pt_outputScript := o_script (m_out m) beef txid i, pt_satoshis := lo_satoshis out\<rparr>, o_fields (m_out m) beef txid i)), s)"
  by (simp add: token_at_def)

lemma serve_skip_expired:
  "serve w (skip_expired b t) s = (Some (Inr (if \<not> b \<and> isTokenExpired (pt_expiry t) s then None else Some t)), s)"
  by (simp add: skip_expired_def serve_bind)

lemma parseInt_dec_digits: "js_parseInt (dec_digits n) = Some (int n)"
  using parseInt_js_int [of "int n"] by (simp add: js_int_def)

lemma js_bool_true [simp]: "js_bool b = js ''true'' \<longleftrightarrow> b"
  by (simp add: js_bool_def js_def)

section \<open>A store of one token\<close>

definition vault :: "nat list list \<Rightarrow> manager" where
  "vault flds = demo\<lparr>m_out := demo_outside\<lparr>o_fields := (\<lambda>_ _ _. Some flds)\<rparr>\<rparr>"

definition vault_output :: listed_output where
  "vault_output = \<lparr>lo_outpoint = js ''ab.0'', lo_satoshis = 1\<rparr>"

definition vault_world :: "unit pm_query \<Rightarrow> pm_error + unit pm_answer" where
  "vault_world q = (case q of EncryptQ _ b \<Rightarrow> Inr (BytesA b) | DecryptQ _ b \<Rightarrow> Inr (BytesA b)
     | ListOutputsQ _ _ \<Rightarrow> Inr (OutputsA [vault_output] []) | _ \<Rightarrow> Inl bad_answer)"

lemma vault_outpoint: "parseOutpoint (lo_outpoint vault_output) = Some (js ''ab'', 0)"
  by (simp add: vault_output_def parseOutpoint_def js_def js_parseInt_def parse_digits_def js_space_def is_digit_def digits_value_def)

lemma vault_readable: "tokens_readable (vault flds) vault_world id"
  by (simp add: tokens_readable_def vault_world_def vault_def demo_outside_def)

lemma vault_listed: "token_listed (vault flds) vault_world ty tags vault_output [] flds"
  by (simp add: token_listed_def vault_outpoint) (simp add: vault_world_def vault_def)

lemma vault_normal: "normalizeOriginator (m_out (vault flds)) (js ''app'') = js ''app''"
  by (simp add: vault_def normalizeOriginator_def demo_outside_def js_def js_trim_def js_space_def toLowerCase_def)

definition chat_request :: perm_request where
  "chat_request = protocol_request (js ''app'') False (2, js ''chat'') (js ''self'')"

definition chat_fields :: "nat list list" where
  "chat_fields = token_texts chat_request 99 None"

definition age_certificate :: certificate_ref where
  "age_certificate = \<lparr>ce_verifier = js ''03ab'', ce_certType = js ''id'', ce_fields = [js ''age'', js ''na\"me'']\<rparr>"

definition age_request :: perm_request where
  "age_request = certificate_request (js ''app'') False age_certificate"

definition age_fields :: "nat list list" where
  "age_fields = token_texts age_request 99 None"

lemma vault_fields:
  "serve vault_world (buildPushdropFields (vault flds) r expiry None) s = (Some (Inr (token_texts r expiry None)), s)"
  by (simp add: serve_fields [OF vault_readable]) (simp add: vault_def demo_outside_def)

text \<open>C35: protocol tokens round trip. The fields and the tags written for a request for a protocol let the search for
  that originator, protocol, counterparty and privilege find a token, with the expiry that was written.\<close>

lemma protocol_token_roundtrip:
  assumes "tokens_readable m w enc"
    and "pr_type r = ProtocolPerm" "pr_protocolID r = Some pid" "pr_counterparty r = Some counterparty"
    and "normalizeOriginator (m_out m) (pr_originator r) = pr_originator r"
    and "serve w (buildPushdropFields m r expiry None) s = (Some (Inr flds), s)"
    and "token_listed m w ProtocolPerm (buildTagsForRequest r) out beef flds"
    and "\<not> isTokenExpired expiry s"
  shows "\<exists>t. serve w (findProtocolToken m (pr_originator r) (privileged_of r) pid counterparty False [pr_originator r]) s =
      (Some (Inr (Some t)), s) \<and> pt_expiry t = expiry \<and> pt_protocol t = Some (snd pid) \<and> pt_securityLevel t = Some (fst pid) \<and>
      pt_originator t = pr_originator r"
proof -
  obtain level name where pid: "pid = (level, name)" by (cases pid)
  obtain txid i where o: "parseOutpoint (lo_outpoint out) = Some (txid, i)" and f: "o_fields (m_out m) beef txid i = Some flds"
    and l: "w (ListOutputsQ (BASKET_MAP ProtocolPerm) (buildTagsForRequest r)) = Inr (OutputsA [out] beef)"
    using assms(7) by (auto simp: token_listed_def split: option.splits)
  have tags: "protocol_tags (pr_originator r) (privileged_of r) pid counterparty = buildTagsForRequest r"
    by (simp add: protocol_tags_def buildTagsForRequest_def assms(2-4) pid)
  have flds: "flds = map (\<lambda>t. enc (o_utf8 (m_out m) t)) (token_texts r expiry None)"
    using assms(6) serve_fields [OF assms(1)] by simp
  show ?thesis using assms(2-5,8)
    by (simp add: findProtocolToken_def origins_to_try_def tags [unfolded pid] l serve_bind serve_awaitP_eq outputs_of_def serve_token_at [OF o] f
        flds token_texts_def pid decryptProtocolTokenFields_def serve_decrypt_field [OF assms(1)] parseInt_js_int parseInt_dec_digits nan0_def
        protocol_fields_match_def serve_skip_expired protocol_token_def)
qed

lemma protocol_token_roundtrip_witness:
  "\<exists>t. serve vault_world (findProtocolToken (vault chat_fields) (js ''app'') False (2, js ''chat'') (js ''self'') False [js ''app''])
     (empty_pm 0) = (Some (Inr (Some t)), empty_pm 0) \<and> pt_expiry t = 99"
  using protocol_token_roundtrip [OF vault_readable [of chat_fields], of chat_request "(2, js ''chat'')" "js ''self''" 99 "empty_pm 0" chat_fields
      vault_output "[]"]
  by (simp add: chat_request_def protocol_request_def blank_request_def vault_normal vault_listed vault_fields isTokenExpired_def
      empty_pm_def privileged_of_def Let_def) (simp add: chat_fields_def chat_request_def protocol_request_def blank_request_def, blast)

text \<open>certificate tokens round trip. The fields written for the disclosure of certificate fields, their names as a JSON
  array, let the search for any of those names find a token for the verifier, with the expiry that was written.\<close>

lemma certificate_token_roundtrip:
  assumes "tokens_readable m w enc"
    and "pr_type r = CertificatePerm" "pr_certificate r = Some c"
    and "normalizeOriginator (m_out m) (pr_originator r) = pr_originator r"
    and "serve w (buildPushdropFields m r expiry None) s = (Some (Inr flds), s)"
    and "token_listed m w CertificatePerm (buildTagsForRequest r) out beef flds"
    and "\<not> isTokenExpired expiry s" "set names \<subseteq> set (ce_fields c)"
  shows "\<exists>t. serve w (findCertificateToken m (pr_originator r) (privileged_of r) (ce_verifier c) (ce_certType c) names False
        [pr_originator r]) s = (Some (Inr (Some t)), s) \<and> pt_expiry t = expiry \<and> pt_certFields t = Some (ce_fields c)"
proof -
  obtain txid i where o: "parseOutpoint (lo_outpoint out) = Some (txid, i)" and f: "o_fields (m_out m) beef txid i = Some flds"
    and l: "w (ListOutputsQ (BASKET_MAP CertificatePerm) (buildTagsForRequest r)) = Inr (OutputsA [out] beef)"
    using assms(6) by (auto simp: token_listed_def split: option.splits)
  have tags: "[js ''originator '' @ pr_originator r, js ''privileged '' @ js_bool (privileged_of r), js ''type '' @ ce_certType c,
      js ''verifier '' @ ce_verifier c] = buildTagsForRequest r"
    by (simp add: buildTagsForRequest_def assms(2,3))
  have flds: "flds = map (\<lambda>t. enc (o_utf8 (m_out m) t)) (token_texts r expiry None)"
    using assms(5) serve_fields [OF assms(1)] by simp
  show ?thesis using assms(2-4,7,8)
    by (simp add: findCertificateToken_def origins_to_try_def tags l serve_bind serve_awaitP_eq outputs_of_def serve_token_at [OF o] f
        flds token_texts_def serve_decrypt_field [OF assms(1)] parseInt_js_int nan0_def json_roundtrip serve_skip_expired)
qed

lemma certificate_token_roundtrip_witness:
  "\<exists>t. serve vault_world (findCertificateToken (vault age_fields) (js ''app'') False (js ''03ab'') (js ''id'') [js ''age''] False [js ''app''])
     (empty_pm 0) = (Some (Inr (Some t)), empty_pm 0) \<and> pt_certFields t = Some [js ''age'', js ''na\"me'']"
  using certificate_token_roundtrip [OF vault_readable [of age_fields], of age_request age_certificate 99 "empty_pm 0" age_fields
      vault_output "[]" "[js ''age'']"]
  by (simp add: age_request_def certificate_request_def blank_request_def vault_normal vault_listed vault_fields isTokenExpired_def
      empty_pm_def privileged_of_def Let_def age_certificate_def)
    (simp add: age_fields_def age_request_def certificate_request_def blank_request_def age_certificate_def, blast)

end
