(* ===== verification/PermSpending.thy ===== *)
theory PermSpending
  imports PermTokenProps
begin

text \<open>
  Spending: what an action costs, what is counted against an authorization, and how long a check is remembered.
\<close>

section \<open>What an action costs\<close>

text \<open>The amounts of those inputs of a transaction that are among the outpoints given.\<close>

definition given_inputs :: "action_input list \<Rightarrow> (jstr \<times> nat \<times> int) list \<Rightarrow> (jstr \<times> nat \<times> int) list" where
  "given_inputs given ins = filter (\<lambda>(txid, i, _). outpoint_of txid (int i) \<in> ai_outpoint ` set given) ins"

lemma index_of_None: "index_of x xs = None \<longleftrightarrow> x \<notin> set xs"
  by (induction xs) auto

lemma index_of_Some: "index_of x xs = Some i \<Longrightarrow> i < length xs \<and> xs ! i = x"
  by (induction xs arbitrary: i) (auto split: if_splits)

lemma sum_input_items: "sum_list (map li_satoshis (input_items given ins)) = sum_list (map (\<lambda>(_, _, a). a) (given_inputs given ins))"
proof (induction ins)
  case (Cons x ins)
  obtain txid i a where x: "x = (txid, i, a)" by (cases x)
  show ?case
  proof (cases "index_of (outpoint_of txid (int i)) (map ai_outpoint given)")
    case None
    then have "outpoint_of txid (int i) \<notin> ai_outpoint ` set given" by (simp add: index_of_None)
    with Cons None show ?thesis by (simp add: x input_items_def given_inputs_def)
  next
    case (Some j)
    then have "outpoint_of txid (int i) \<in> ai_outpoint ` set given"
      using index_of_None [of "outpoint_of txid (int i)" "map ai_outpoint given"] by auto
    with Cons Some show ?thesis by (simp add: x input_items_def given_inputs_def)
  qed
qed (simp add: input_items_def given_inputs_def)

text \<open>C36: the net spend is what the wallet's own coins lose. Of a transaction whose outputs are the outputs asked for and the
  change, and whose fee is the difference between its inputs and its outputs, the amount put before the user is the sum
  of the inputs the wallet added, less the change.\<close>

lemma net_spend_is_own_coins:
  assumes "tv_fee tx = sum_list (map (\<lambda>(_, _, a). a) (tv_inputs tx)) - sum_list (tv_outputs tx)"
    and "tv_outputs tx = map ao_satoshis (aa_outputs args) @ change"
  shows "fst (computeNetSpend tx args) =
    sum_list (map (\<lambda>(_, _, a). a) (filter (\<lambda>(txid, i, _). outpoint_of txid (int i) \<notin> ai_outpoint ` set (aa_inputs args)) (tv_inputs tx)))
      - sum_list change"
proof -
  have "sum_list (map (\<lambda>(_, _, a). a) ins) = sum_list (map (\<lambda>(_, _, a). a) (given_inputs given ins)) +
      sum_list (map (\<lambda>(_, _, a). a) (filter (\<lambda>(txid, i, _). outpoint_of txid (int i) \<notin> ai_outpoint ` set given) ins))"
    for given and ins :: "(jstr \<times> nat \<times> int) list"
    by (induction ins) (auto simp: given_inputs_def)
  from this [of "tv_inputs tx" "aa_inputs args"] show ?thesis
    by (simp add: computeNetSpend_def Let_def sum_input_items assms)
qed

lemma net_spend_is_own_coins_witness:
  "fst (computeNetSpend \<lparr>tv_inputs = [(js ''aa'', 0, 500), (js ''bb'', 1, 900)], tv_outputs = [1000, 350], tv_fee = 50\<rparr>
     (pay_args\<lparr>aa_inputs := [\<lparr>ai_outpoint = outpoint_of (js ''aa'') 0, ai_unlockingScriptLength = None, ai_inputDescription = []\<rparr>]\<rparr>)) = 550"
  using net_spend_is_own_coins [of "\<lparr>tv_inputs = [(js ''aa'', 0, 500), (js ''bb'', 1, 900)], tv_outputs = [1000, 350], tv_fee = 50\<rparr>"
      "pay_args\<lparr>aa_inputs := [\<lparr>ai_outpoint = outpoint_of (js ''aa'') 0, ai_unlockingScriptLength = None, ai_inputDescription = []\<rparr>]\<rparr>" "[350]"]
  by (simp add: pay_args_def plain_action_def pay_output_def outpoint_of_def js_def)

section \<open>What is counted\<close>

lemma lookup_one: "js_trim n = n \<Longrightarrow> n \<noteq> [] \<Longrightarrow> buildOriginatorLookupValues [Some n, Some n] = [n]"
  by (simp add: buildOriginatorLookupValues_def)

text \<open>what is counted as spent. For a token of an originator \<open>n\<close>, the actions the originator made this month are counted
  in full when it made them under the name \<open>n\<close>, and not at all when it made them under another spelling of its name:
  an action is labelled with the originator as it was given, the count asks for the normalised name.\<close>

lemma spent_is_counted_by_spelling:
  assumes "js_trim n = n" "n \<noteq> []" "pt_rawOriginator t = Some n" "pt_originator t = n"
    and "\<And>labels. w (ListActionsQ labels) =
      Inr (AmountsA (if set labels \<subseteq> set (admin_labels (Some x) (pm_now s)) then map (\<lambda>a. - a) amounts else []))"
  shows "serve w (querySpentSince m t) s = (Some (Inr (if x = n then sum_list amounts else 0)), s)"
proof -
  have "foldl (\<lambda>a e. a - e) b (map (\<lambda>a. - a) amounts) = b + sum_list amounts" for b :: int
    by (induction amounts arbitrary: b) simp_all
  then have f: "foldl (\<lambda>a e. a - e) 0 (map (\<lambda>a. - a) amounts) = sum_list amounts" by simp
  have "js ''admin originator '' @ n \<noteq> js ''admin month '' @ z" for z by (simp add: js_def)
  then have "set [js ''admin originator '' @ n, js ''admin month '' @ currentMonthYearUTC (pm_now s)] \<subseteq>
      set (admin_labels (Some x) (pm_now s)) \<longleftrightarrow> x = n"
    by (auto simp: admin_labels_def js_opt_def)
  then have "w (ListActionsQ [js ''admin originator '' @ n, js ''admin month '' @ currentMonthYearUTC (pm_now s)]) =
      Inr (AmountsA (if x = n then map (\<lambda>a. - a) amounts else []))" by (simp add: assms(5))
  then show ?thesis
    by (simp add: querySpentSince_def assms(3,4) lookup_one [OF assms(1,2)] serve_bind serve_awaitP_eq amounts_of_def f)
qed

definition month_world :: "jstr \<Rightarrow> unit pm_query \<Rightarrow> pm_error + unit pm_answer" where
  "month_world x q = (case q of
      ListActionsQ labels \<Rightarrow> Inr (AmountsA (if set labels \<subseteq> set (admin_labels (Some x) 0) then map (\<lambda>a. - a) [700, 80] else []))
    | _ \<Rightarrow> Inl bad_answer)"

definition app_token :: perm_token where
  "app_token = no_token\<lparr>pt_originator := js ''app.com'', pt_rawOriginator := Some (js ''app.com''), pt_authorizedAmount := Some 1000\<rparr>"

lemma spent_is_counted_by_spelling_witness:
  "serve (month_world (js ''app.com'')) (querySpentSince demo app_token) (empty_pm 0) = (Some (Inr 780), empty_pm 0) \<and>
   serve (month_world (js ''https://app.com'')) (querySpentSince demo app_token) (empty_pm 0) = (Some (Inr 0), empty_pm 0)"
proof -
  have n: "js_trim (js ''app.com'') = js ''app.com''" "js ''app.com'' \<noteq> []"
    by (simp_all add: js_def js_trim_def js_space_def)
  have t: "pt_rawOriginator app_token = Some (js ''app.com'')" "pt_originator app_token = js ''app.com''"
    by (simp_all add: app_token_def)
  have w: "month_world x (ListActionsQ labels) = Inr (AmountsA (if set labels \<subseteq> set (admin_labels (Some x) (pm_now (empty_pm 0)))
      then map (\<lambda>a. - a) [700, 80] else []))" for x labels by (simp add: month_world_def empty_pm_def)
  have "js ''https://app.com'' \<noteq> js ''app.com''" by (simp add: js_def)
  then show ?thesis
    using spent_is_counted_by_spelling [OF n t w, of "js ''app.com''" demo]
      spent_is_counted_by_spelling [OF n t w, of "js ''https://app.com''" demo] by simp
qed

section \<open>What is remembered\<close>

lemma serve_yield: "serve w (callP p) s = serve w p s"
  by (simp add: callP_def yieldP_def serve_bind split: prod.splits option.splits sum.splits)

lemma cache_found_valid:
  assumes "\<not> isTokenExpired (pt_expiry t) s"
  shows "cache_valid key (logE (Found key t) (cachePermission key (pt_expiry t) s))"
  using assms by (simp add: cache_valid_def logE_def cachePermission_def CACHE_TTL_MS_def isTokenExpired_def Let_def)

lemma serve_cached: "serve w (isPermissionCached key) s = (Some (Inr (cache_valid key s)),
    if pm_cache s key \<noteq> None \<and> \<not> cache_valid key s then s\<lparr>pm_cache := (pm_cache s)(key := None)\<rparr> else s)"
  by (simp add: isPermissionCached_def)

text \<open>C37: the limit is checked once. When the authorization an originator has covers an amount with what was spent before, the
  manager agrees to the amount; and then agrees to the same amount again, whatever has been spent in the meantime and
  whatever authorization is still there, as long as the permission is in its cache.\<close>

lemma spending_limit_checked_once:
  assumes "prepareOriginator (m_out m) x = Inr (n, lookup)" "\<not> isAdminOriginator m n" "seekSpendingPermissions (m_config m)"
    and "pm_cache s (buildRequestKey (m_out m) (spending_request n satoshis [])) = None"
    and "serve w (findSpendingToken m n lookup) s = (Some (Inr (Some t)), s)" "serve w (querySpentSince m t) s = (Some (Inr spent), s)"
    and "pt_authorizedAmount t = Some limit" "limit \<noteq> 0" "spent + satoshis \<le> limit" "pt_expiry t = 0"
  shows "\<exists>s'. serve w (ensureSpendingAuthorization m x satoshis items reason True) s = (Some (Inr True), s') \<and>
    (\<forall>w'. serve w' (ensureSpendingAuthorization m x satoshis items reason True) s' = (Some (Inr True), s'))"
proof -
  let ?key = "buildRequestKey (m_out m) (spending_request n satoshis [])"
  define s' where "s' = logE (Found ?key t) (cachePermission ?key (pt_expiry t) s)"
  have v: "cache_valid ?key s'" unfolding s'_def by (rule cache_found_valid) (simp add: isTokenExpired_def assms(10))
  have "serve w (ensureSpendingAuthorization m x satoshis items reason True) s = (Some (Inr True), s')"
    using assms by (simp add: ensureSpendingAuthorization_def ensureSpending_with_def Let_def serve_bind serve_cached cache_valid_def
        serve_yield cache_found_def nan0_def s'_def)
  moreover have "serve w' (ensureSpendingAuthorization m x satoshis items reason True) s' = (Some (Inr True), s')" for w'
    using assms(1-3) v by (simp add: ensureSpendingAuthorization_def ensureSpending_with_def Let_def serve_bind serve_cached)
  ultimately show ?thesis by blast
qed

definition purse :: manager where
  "purse = vault [js ''app'', js ''1000'']"

definition purse_world :: "unit pm_query \<Rightarrow> pm_error + unit pm_answer" where
  "purse_world q = (case q of ListActionsQ _ \<Rightarrow> Inr (AmountsA [- 300]) | _ \<Rightarrow> vault_world q)"

definition purse_token :: perm_token where
  "purse_token = no_token\<lparr>pt_txid := js ''ab'', pt_tx := [], pt_outputIndex := 0, pt_outputScript := js ''ab'', pt_satoshis := 1,
     pt_originator := js ''app'', pt_rawOriginator := Some (js ''app''), pt_authorizedAmount := Some 1000, pt_expiry := 0\<rparr>"

lemma purse_simps [simp]:
  "normalizeOriginator (m_out purse) (js ''app'') = js ''app''" "isAdminOriginator purse (js ''app'') = False"
  "prepareOriginator (m_out purse) (js ''app'') = Inr (js ''app'', [js ''app''])" "seekSpendingPermissions (m_config purse)"
  by (simp_all add: purse_def vault_def text_eval default_config_def)

lemma parse_1000: "js_parseInt (js ''1000'') = Some 1000"
  by (simp add: js_def js_parseInt_def parse_digits_def js_space_def is_digit_def digits_value_def)

lemma purse_text: "serve purse_world (decrypt_text purse t) s = (Some (Inr t), s)"
  by (simp add: decrypt_text_def decryptPermissionTokenField_def serve_bind serve_catch serve_awaitP_eq purse_world_def vault_world_def
      bytes_of_def purse_def vault_def demo_outside_def)

lemma purse_outputs: "o_fields (m_out purse) b txid i = Some [js ''app'', js ''1000'']" "o_tx (m_out purse) b txid = b"
  "o_script (m_out purse) b txid i = txid"
  by (simp_all add: purse_def vault_def demo_outside_def)

lemma purse_finds: "serve purse_world (findSpendingToken purse (js ''app'') [js ''app'']) s = (Some (Inr (Some purse_token)), s)"
proof -
  have "purse_world (ListOutputsQ b ls) = Inr (OutputsA [vault_output] [])" for b ls by (simp add: purse_world_def vault_world_def)
  then show ?thesis
    by (simp add: findSpendingToken_def origins_to_try_def serve_bind serve_awaitP_eq outputs_of_def
        serve_token_at [OF vault_outpoint] purse_text purse_outputs parse_1000 purse_token_def)
      (simp add: vault_output_def)
qed

lemma purse_spent: "serve purse_world (querySpentSince purse purse_token) s = (Some (Inr 300), s)"
  by (simp add: querySpentSince_def purse_token_def buildOriginatorLookupValues_def js_trim_def js_space_def js_def serve_bind
      serve_awaitP_eq purse_world_def amounts_of_def)

lemma spending_limit_checked_once_witness:
  "\<exists>s'. serve purse_world (ensureSpendingAuthorization purse (js ''app'') 600 [] None True) (empty_pm 0) = (Some (Inr True), s') \<and>
    serve (\<lambda>_. Inl bad_answer) (ensureSpendingAuthorization purse (js ''app'') 600 [] None True) s' = (Some (Inr True), s')"
  using spending_limit_checked_once [of purse "js ''app''" "js ''app''" "[js ''app'']" "empty_pm 0" 600 purse_world purse_token 300 1000
      "[]" None, OF _ _ _ _ purse_finds purse_spent]
  by (fastforce simp: empty_pm_def purse_token_def)

end
