(* ===== verification/PermRules.thy ===== *)
theory PermRules
  imports PermSpending
begin

text \<open>
  The rules of single operations: reserved names, keys of requests, batches that fail in part, the labels for a range
  of times, and what becomes of custom instructions.
\<close>

section \<open>Reserved names\<close>

text \<open>reserved names are refused. For every originator but the admin, a protocol of a security level other than 0 whose
  name begins with \<open>admin\<close>, the basket \<open>default\<close> and baskets that begin with \<open>admin\<close>, and labels that begin with \<open>admin\<close>
  are refused without a question to anyone, whatever the configuration, the caches and the tokens say.\<close>

lemma reserved_names_refused:
  fixes w :: "'x pm_query \<Rightarrow> pm_error + 'x pm_answer"
  assumes "prepareOriginator (m_out m) x = Inr (n, lookup)" "\<not> isAdminOriginator m n"
  shows "(isAdminProtocol pid \<and> fst pid \<noteq> 0 \<longrightarrow>
      serve w (ensureProtocolPermission m x p pid cp reason seek u) s = (Some (Inl (Err ''Protocol is admin-only.'' [snd pid])), s)) \<and>
    (isAdminBasket b \<longrightarrow> serve w (ensureBasketAccess m x b reason seek bu) s = (Some (Inl (Err ''Basket is admin-only.'' [b])), s)) \<and>
    (isAdminLabel l \<longrightarrow> serve w (ensureLabelAccess m x l reason seek lu) s = (Some (Inl (Err ''Label is admin-only.'' [l])), s))"
  using assms by (auto simp: ensureProtocolPermission_def ensureProtocol_with_def ensureBasketAccess_def ensureBasket_with_def
      ensureLabelAccess_def ensureLabel_with_def)

lemma reserved_names_refused_witness:
  "serve vault_world (ensureBasketAccess demo (js ''app'') (js ''admin basket-access'') None True Listing) (empty_pm 0) =
     (Some (Inl (Err ''Basket is admin-only.'' [js ''admin basket-access''])), empty_pm 0)"
proof -
  have b: "isAdminBasket (js ''admin basket-access'')" by (simp add: isAdminBasket_def startsWith_def js_def)
  have "prepareOriginator (m_out demo) (js ''app'') = Inr (js ''app'', [js ''app''])" "\<not> isAdminOriginator demo (js ''app'')" by simp_all
  from reserved_names_refused [OF this] b show ?thesis by blast
qed

section \<open>Keys\<close>

text \<open>two requests with one key. The key of a request joins its parts with colons, and the normalised name of an originator
  has a colon before its port: a permission of \<open>x.com:8080\<close> for a basket and one of \<open>x.com\<close> for another basket have the
  same key, so that the caches and the queue take the one for the other.\<close>

lemma keys_collide:
  assumes "normalizeOriginator out (js ''x.com'') = js ''x.com''" "normalizeOriginator out (js ''x.com:8080'') = js ''x.com:8080''"
  shows "buildRequestKey out (basket_request (js ''x.com:8080'') b) = buildRequestKey out (basket_request (js ''x.com'') (js ''8080:'' @ b)) \<and>
    basket_request (js ''x.com:8080'') b \<noteq> basket_request (js ''x.com'') (js ''8080:'' @ b)"
  using assms by (simp add: buildRequestKey_def basket_request_def blank_request_def Let_def js_opt_def js_def)

lemma keys_collide_witness:
  "buildRequestKey demo_outside (basket_request (js ''x.com:8080'') (js ''foo'')) =
   buildRequestKey demo_outside (basket_request (js ''x.com'') (js ''8080:foo''))"
proof -
  have "normalizeOriginator demo_outside (js ''x.com'') = js ''x.com''"
    "normalizeOriginator demo_outside (js ''x.com:8080'') = js ''x.com:8080''" by (simp_all add: text_eval)
  from keys_collide [OF this, of "js ''foo''"] show ?thesis by (simp add: js_def)
qed

section \<open>Best effort\<close>

lemma serve_chunk:
  assumes "\<And>c s. serve w (runChunk c) s = (if list_all good c then Some (Inr (map g c)) else Some (Inl e), s)"
  shows "serve w (runBestEffortChunk runChunk chunk) s = (Some (Inr (map g (filter good chunk))), s)"
proof (induction chunk arbitrary: s rule: length_induct)
  case (1 chunk)
  show ?case
  proof (cases "list_all good chunk")
    case True
    then have "filter good chunk = chunk" by (simp add: list_all_iff)
    with True show ?thesis by (simp add: runBestEffortChunk.simps [of runChunk chunk] serve_catch serve_yield assms)
  next
    case False
    let ?mid = "(length chunk + 1) div 2"
    show ?thesis
    proof (cases "length chunk \<le> 1")
      case True
      with False have "filter good chunk = []" by (cases chunk) auto
      with True False show ?thesis by (simp add: runBestEffortChunk.simps [of runChunk chunk] serve_catch serve_yield assms)
    next
      case c: False
      then have "length (take ?mid chunk) < length chunk" "length (drop ?mid chunk) < length chunk" by auto
      with 1 have "serve w (runBestEffortChunk runChunk (take ?mid chunk)) s = (Some (Inr (map g (filter good (take ?mid chunk)))), s)"
        "serve w (runBestEffortChunk runChunk (drop ?mid chunk)) s = (Some (Inr (map g (filter good (drop ?mid chunk)))), s)"
        by blast+
      moreover have "filter good (take ?mid chunk) @ filter good (drop ?mid chunk) = filter good chunk"
        by (metis append_take_drop_id filter_append)
      ultimately show ?thesis using False c
        by (simp add: runBestEffortChunk.simps [of runChunk chunk] serve_catch serve_bind serve_yield assms Let_def flip: map_append)
    qed
  qed
qed

text \<open>a batch that fails in part. When writing tokens fails for exactly those chunks that hold a bad item, halving the
  chunks that fail writes all the good items and no others, in their order, and the batch ends.\<close>

lemma best_effort_writes_the_good:
  fixes runChunk :: "'i list \<Rightarrow> ('x, 'r list) pmp"
  assumes "\<And>c s. serve w (runChunk c) s = (if list_all good c then Some (Inr (map g c)) else Some (Inl e), s)"
  shows "serve w (runBestEffortBatches k runChunk items) s = (Some (Inr (map g (filter good items))), s)"
proof (induction items arbitrary: s rule: length_induct)
  case (1 items)
  show ?case
  proof (cases items)
    case (Cons x xs)
    have "length (drop (k + 1) items) < length items" by (simp add: Cons)
    with 1 have "serve w (runBestEffortBatches k runChunk (drop (k + 1) items)) s = (Some (Inr (map g (filter good (drop (k + 1) items)))), s)"
      by blast
    moreover have "filter good (take (k + 1) items) @ filter good (drop (k + 1) items) = filter good items"
      by (metis append_take_drop_id filter_append)
    ultimately show ?thesis
      using serve_chunk [OF assms, of "take (k + 1) items" s] by (simp add: Cons serve_bind serve_yield flip: map_append)
  qed simp
qed

definition half_chunk :: "nat list \<Rightarrow> (unit, nat list) pmp" where
  "half_chunk c = (if list_all even c then Ret (map (\<lambda>n. n + 1) c) else Throw bad_answer)"

lemma best_effort_writes_the_good_witness:
  "serve vault_world (runBestEffortBatches 3 half_chunk [2, 3, 4, 6, 8, 9, 10]) (empty_pm 0) = (Some (Inr [3, 5, 7, 9, 11]), empty_pm 0)"
  using best_effort_writes_the_good [of vault_world half_chunk even "\<lambda>n. n + 1" bad_answer 3 "[2, 3, 4, 6, 8, 9, 10]" "empty_pm 0"]
  by (simp add: half_chunk_def)

section \<open>Labels for a range of times\<close>

lemma time_label_range:
  assumes "time_label l a = Inr b" "\<And>n. tl_from a = Some n \<or> tl_to a = Some n \<Longrightarrow> 0 \<le> n \<and> n \<le> MAX_TIME"
    "tl_requested a \<longleftrightarrow> tl_from a \<noteq> None \<or> tl_to a \<noteq> None"
  shows "(\<forall>n. tl_from b = Some n \<or> tl_to b = Some n \<longrightarrow> 0 \<le> n \<and> n \<le> MAX_TIME) \<and>
    (tl_requested b \<longleftrightarrow> tl_from b \<noteq> None \<or> tl_to b \<noteq> None)"
proof -
  have "parse_time v = Some n \<Longrightarrow> 0 \<le> n \<and> n \<le> MAX_TIME" for v n
    by (auto simp: parse_time_def Let_def split: if_splits)
  with assms show ?thesis by (auto simp: time_label_def split: if_splits option.splits)
qed

lemma time_labels_range:
  assumes "time_labels_from ls a = Inr t" "\<And>n. tl_from a = Some n \<or> tl_to a = Some n \<Longrightarrow> 0 \<le> n \<and> n \<le> MAX_TIME"
    "tl_requested a \<longleftrightarrow> tl_from a \<noteq> None \<or> tl_to a \<noteq> None"
  shows "(\<forall>n. tl_from t = Some n \<or> tl_to t = Some n \<longrightarrow> 0 \<le> n \<and> n \<le> MAX_TIME) \<and>
    (tl_requested t \<longleftrightarrow> tl_from t \<noteq> None \<or> tl_to t \<noteq> None) \<and> (\<forall>f u. tl_from t = Some f \<longrightarrow> tl_to t = Some u \<longrightarrow> f < u)"
  using assms
proof (induction ls arbitrary: a)
  case Nil
  then have "t = a" "\<And>f u. tl_from t = Some f \<Longrightarrow> tl_to t = Some u \<Longrightarrow> f < u" by (auto split: option.splits if_splits)
  with Nil(2,3) show ?case by blast
next
  case (Cons l ls)
  then obtain b where b: "time_label l a = Inr b" "time_labels_from ls b = Inr t" by (auto simp: bindE_Inr_iff)
  from time_label_range [OF b(1) Cons.prems(2,3)] Cons.IH [OF b(2)] show ?case by blast
qed

text \<open>C38: the range of times. Labels that are accepted give times between 0 and the last time a \<open>Date\<close> can hold, the first
  before the second, and say that a range was asked for exactly when they give one; the other labels are passed on in
  their order.\<close>

lemma time_range_bounds:
  assumes "parseBrc114ActionTimeLabels labels = Inr t"
  shows "(\<forall>n. tl_from t = Some n \<or> tl_to t = Some n \<longrightarrow> 0 \<le> n \<and> n \<le> 8640000000000000) \<and>
    (\<forall>f u. tl_from t = Some f \<longrightarrow> tl_to t = Some u \<longrightarrow> f < u) \<and> (tl_requested t \<longleftrightarrow> tl_from t \<noteq> None \<or> tl_to t \<noteq> None) \<and>
    tl_remaining t = filter (\<lambda>l. \<not> startsWith l (js ''action time from '') \<and> \<not> startsWith l (js ''action time to '')) labels"
proof -
  let ?a = "\<lparr>tl_from = None, tl_to = None, tl_requested = False, tl_remaining = []\<rparr>"
  from assms have t: "time_labels_from labels ?a = Inr t" by (simp add: parseBrc114ActionTimeLabels_def)
  from time_labels_range [OF t] time_labels_remaining [OF t] show ?thesis
    by (simp add: MAX_TIME_def plain_label_def [abs_def] TIME_FROM_def TIME_TO_def)
qed

lemma time_range_bounds_witness:
  "\<exists>t. parseBrc114ActionTimeLabels [js ''action time to 20'', js ''paid'', js ''action time from 7''] = Inr t \<and>
     tl_remaining t = [js ''paid'']"
proof -
  have "\<exists>t. parseBrc114ActionTimeLabels [js ''action time to 20'', js ''paid'', js ''action time from 7''] = Inr t"
    by (simp add: parseBrc114ActionTimeLabels_def time_label_def parse_time_def TIME_FROM_def TIME_TO_def startsWith_def js_def
        is_digit_def digits_value_def MAX_TIME_def)
  with time_range_bounds [of "[js ''action time to 20'', js ''paid'', js ''action time from 7'']"] show ?thesis
    by (auto simp: startsWith_def js_def)
qed

section \<open>Custom instructions\<close>

definition metadata_cipher :: "manager \<Rightarrow> (nat list \<Rightarrow> nat list) \<Rightarrow> jstr \<Rightarrow> jstr" where
  "metadata_cipher m enc t = o_toBase64 (m_out m) (enc (o_utf8 (m_out m) t))"

text \<open>instructions encrypted twice. When an incoming transaction is put into a basket of a permission module and into one
  that is no module's, the custom instructions of the second are encrypted after the check of its basket and once more
  after the module has answered, though they are decrypted once when they are listed.\<close>

lemma internalize_encrypts_twice:
  fixes w :: "(jstr \<times> jstr option) option list pm_query \<Rightarrow> pm_error + (jstr \<times> jstr option) option list pm_answer"
    and args :: "(jstr \<times> jstr option) option list wallet_args"
  assumes "\<And>b. w (EncryptQ METADATA_ENCRYPTION_PROTOCOL b) = Inr (BytesA (enc b))"
    and "\<And>a. w (ModuleRequestQ (scheme_of p) ''internalizeAction'' a x) = Inr (ArgsA a)"
    and "\<And>r. w (ModuleResponseQ (scheme_of p) ''internalizeAction'' r x) = Inr (ValueA r)"
    and "\<And>a org mods. w (WalletQ ''internalizeAction'' a org mods) = Inr (ValueA (PlainResult (wa_insertions a)))"
    and "encryptWalletMetadata (m_config m)" "scheme_of p \<in> set (permissionModules (m_config m))" "startsWith p P_PREFIX" "\<not> startsWith b P_PREFIX"
    and "wa_insertions args = [Some (p, None), Some (b, Some instr)]" "wa_labels args = []"
    and "instr \<noteq> []" "metadata_cipher m enc instr \<noteq> []"
    and "serve w (ensureBasketAccess m x b (Some (wa_description args)) True Insertion) s = (Some (Inr True), s)"
  shows "serve w (internalizeAction m args (Some x)) s =
    (Some (Inr (PlainResult [Some (p, None), Some (b, Some (metadata_cipher m enc (metadata_cipher m enc instr)))])), s)"
proof -
  have e: "serve w (encrypt_text m t) s = (Some (Inr (metadata_cipher m enc t)), s)" if "t \<noteq> []" for t
    using that assms(1,5) by (simp add: encrypt_text_def maybeEncryptMetadata_def serve_yield serve_bind serve_awaitP_eq bytes_of_def
        metadata_cipher_def)
  show ?thesis using assms(2-4,6-13)
    by (simp add: internalizeAction_def addPModuleByScheme_def check_insertion_def check_basket_def or_empty_def serve_bind serve_yield
        encrypt_insertion_def encrypt_instructions_def e serve_awaitP_eq args_of_def value_of_def wallet_def)
qed

definition depot :: manager where
  "depot = demo\<lparr>m_config := default_config\<lparr>permissionModules := [js ''m''], seekBasketInsertionPermissions := False\<rparr>\<rparr>"

definition depot_world :: "(jstr \<times> jstr option) option list pm_query \<Rightarrow> pm_error + (jstr \<times> jstr option) option list pm_answer" where
  "depot_world q = (case q of EncryptQ _ b \<Rightarrow> Inr (BytesA (0 # b)) | ModuleRequestQ _ _ a _ \<Rightarrow> Inr (ArgsA a)
     | ModuleResponseQ _ _ r _ \<Rightarrow> Inr (ValueA r) | WalletQ _ a _ _ \<Rightarrow> Inr (ValueA (PlainResult (wa_insertions a))) | _ \<Rightarrow> Inl bad_answer)"

definition depot_args :: "(jstr \<times> jstr option) option list wallet_args" where
  "depot_args = \<lparr>wa_protocolID = None, wa_keyID = [], wa_counterparty = None, wa_verifier = [], wa_privileged = False,
     wa_privilegedReason = None, wa_identityKey = False, wa_basket = [], wa_labels = [], wa_certType = [], wa_certFields = [],
     wa_description = [], wa_insertions = [Some (js ''p m x'', None), Some (js ''b'', Some [7])], wa_rest = []\<rparr>"

lemma depot_simps [simp]:
  "m_out depot = demo_outside" "encryptWalletMetadata (m_config depot)" "permissionModules (m_config depot) = [js ''m'']"
  "\<not> seekBasketInsertionPermissions (m_config depot)" "isAdminOriginator depot (js ''app'') = False"
  by (simp_all add: depot_def default_config_def text_eval)

lemma depot_module [simp]: "scheme_of (js ''p m x'') = js ''m''" "startsWith (js ''p m x'') P_PREFIX"
  by (simp_all add: scheme_of_def js_def P_PREFIX_def startsWith_def)

lemma internalize_encrypts_twice_witness:
  "serve depot_world (internalizeAction depot depot_args (Some (js ''app''))) (empty_pm 0) =
     (Some (Inr (PlainResult [Some (js ''p m x'', None), Some (js ''b'', Some [0, 0, 7])])), empty_pm 0)"
proof -
  have c: "metadata_cipher depot (\<lambda>b. 0 # b) t = 0 # t" for t by (simp add: metadata_cipher_def) (simp add: demo_outside_def)
  have b: "serve depot_world (ensureBasketAccess depot (js ''app'') (js ''b'') r True Insertion) s = (Some (Inr True), s)" for r s
    by (simp add: ensureBasketAccess_def ensureBasket_with_def isBasketUsageRequired_def)
  show ?thesis
    using internalize_encrypts_twice [of depot_world "\<lambda>b. 0 # b" "js ''p m x''" "js ''app''" depot "js ''b''" depot_args "[7]" "empty_pm 0"]
    by (simp add: depot_world_def depot_args_def c b)
qed

section \<open>Groups\<close>

text \<open>a group that was not granted lets through. Where inserting into baskets needs no permission, the check that follows the
  question for an application's group of permissions is satisfied for every basket that is not reserved and for every use of it,
  also listing and removal, whatever the user granted.\<close>

lemma group_flow_lets_through:
  fixes w :: "'x pm_query \<Rightarrow> pm_error + 'x pm_answer"
  assumes "\<not> seekBasketInsertionPermissions (m_config m)" "prepareOriginator (m_out m) n = Inr (n', lookup)" "\<not> isAdminBasket b"
  shows "serve w (satisfied_now m ((basket_request n b)\<lparr>pr_usageType := Some (basket_usage_name u)\<rparr>)) s = (Some (Inr (Some True)), s)"
  using assms by (simp add: satisfied_now_def checkSpecificPermissionAfterGroupFlow_def basket_request_def blank_request_def
      hasBasketAccess_def succeeds_def ensureBasket_with_def isBasketUsageRequired_def serve_bind serve_catch serve_yield)

lemma group_flow_lets_through_witness:
  "serve depot_world (satisfied_now depot ((basket_request (js ''app'') (js ''b''))\<lparr>pr_usageType := Some (basket_usage_name Listing)\<rparr>))
     (empty_pm 0) = (Some (Inr (Some True)), empty_pm 0)"
  using group_flow_lets_through [of depot "js ''app''" "js ''app''" "[js ''app'']" "js ''b''" depot_world Listing "empty_pm 0"] by simp

end
