(* ===== verification/RwLock.thy ===== *)
theory RwLock
  imports Async
begin

text \<open>
  The lock around the header storage (\<open>chaintracks/util/SingleWriterMultiReaderLock.ts\<close>): its two entry points as
  programs of \<open>Async\<close>, their queues of promises, and what every interleaving of calls does with them.

  A promise is the number of its creation; \<open>promises\<close> says which are resolved. The section \<open>fn\<close> a caller passes is a
  request to the outside, tagged with the kind of lock it holds: a call is inside from the request to its answer.
\<close>

section \<open>The lock\<close>

record rwlock =
  readers :: int
  writerActive :: bool
  readerQueue :: "nat list"
  writerQueue :: "nat list"
  promises :: "bool list"

datatype rw_role = Reading | Writing

type_synonym ('q, 'r, 'e) rwp = "(rwlock, rw_role \<times> 'q, 'r, 'e, 'r) prog"

definition new_lock :: rwlock where
  "new_lock = \<lparr>readers = 0, writerActive = False, readerQueue = [], writerQueue = [], promises = []\<rparr>"

definition resolve :: "nat \<Rightarrow> rwlock \<Rightarrow> rwlock" where
  "resolve w s = s\<lparr>promises := (promises s)[w := True]\<rparr>"

definition checkQueues :: "rwlock \<Rightarrow> rwlock" where
  "checkQueues s = (if writerActive s \<or> readers s > 0 then s
     else case writerQueue s of
       w # ws \<Rightarrow> resolve w (s\<lparr>writerQueue := ws\<rparr>)
     | [] \<Rightarrow> (case readerQueue s of
         [] \<Rightarrow> s
       | rs \<Rightarrow> fold resolve rs (s\<lparr>readerQueue := []\<rparr>)))"

definition enter :: "rw_role \<Rightarrow> rwlock \<Rightarrow> rwlock" where
  "enter role s = (case role of Reading \<Rightarrow> s\<lparr>readers := readers s + 1\<rparr> | Writing \<Rightarrow> s\<lparr>writerActive := True\<rparr>)"

definition leave :: "rw_role \<Rightarrow> rwlock \<Rightarrow> rwlock" where
  "leave role s = checkQueues (case role of Reading \<Rightarrow> s\<lparr>readers := readers s - 1\<rparr> | Writing \<Rightarrow> s\<lparr>writerActive := False\<rparr>)"

definition section_of :: "rw_role \<Rightarrow> 'q \<Rightarrow> ('q, 'r, 'e) rwp" where
  "section_of role fn = finallyP (Await (role, fn) (\<lambda>x. case x of Inl e \<Rightarrow> Throw e | Inr r \<Rightarrow> Ret r)) (modifyP (leave role))"

text \<open>A new promise at the end of the queue.\<close>

definition enqueue :: "rw_role \<Rightarrow> rwlock \<Rightarrow> rwlock" where
  "enqueue role s = (let w = length (promises s); t = s\<lparr>promises := promises s @ [False]\<rparr> in
     (case role of Reading \<Rightarrow> t\<lparr>readerQueue := readerQueue s @ [w]\<rparr> | Writing \<Rightarrow> t\<lparr>writerQueue := writerQueue s @ [w]\<rparr>))"

definition queued :: "rw_role \<Rightarrow> nat \<Rightarrow> 'q \<Rightarrow> ('q, 'r, 'e) rwp" where
  "queued role w fn = bindP (waitP w) (\<lambda>_. bindP (modifyP (enter role)) (\<lambda>_. section_of role fn))"

definition new_promise :: "rw_role \<Rightarrow> (rwlock, rw_role \<times> 'q, 'r, 'e, nat) prog" where
  "new_promise role = Do (enqueue role) (\<lambda>s. Ret (length (promises s)))"

definition withReadLock :: "'q \<Rightarrow> ('q, 'r, 'e) rwp" where
  "withReadLock fn = bindP (readP (\<lambda>s. \<not> writerActive s \<and> writerQueue s = [])) (\<lambda>fast.
     if fast then bindP (modifyP (enter Reading)) (\<lambda>_. section_of Reading fn)
     else bindP (new_promise Reading) (\<lambda>w. queued Reading w fn))"

definition withWriteLock :: "'q \<Rightarrow> ('q, 'r, 'e) rwp" where
  "withWriteLock fn = bindP (readP (\<lambda>s. \<not> writerActive s \<and> readers s = 0)) (\<lambda>fast.
     if fast then bindP (modifyP (enter Writing)) (\<lambda>_. section_of Writing fn)
     else bindP (new_promise Writing) (\<lambda>w. queued Writing w fn))"

definition rw_settled :: "rwlock \<Rightarrow> nat \<Rightarrow> ('e + bool) option" where
  "rw_settled s w = (if w < length (promises s) \<and> promises s ! w then Some (Inr True) else None)"

section \<open>Systems of calls\<close>

definition rw_starts :: "('q, 'r, 'e) rwp \<Rightarrow> bool" where
  "rw_starts p \<longleftrightarrow> (\<exists>fn. p = withReadLock fn \<or> p = withWriteLock fn)"

abbreviation rw_step :: "(rwlock, rw_role \<times> 'q, 'r, 'e, 'r) async_sys \<Rightarrow> (rwlock, rw_role \<times> 'q, 'r, 'e, 'r) async_sys \<Rightarrow> bool" where
  "rw_step \<equiv> async_step rw_settled rw_starts (\<lambda>_ _. False)"

text \<open>Where a call is: inside its section, waiting for a promise, or over.\<close>

datatype phase = In rw_role | Queue rw_role nat | Over

fun at_phase :: "phase \<Rightarrow> ('q, 'r, 'e) rwp \<Rightarrow> bool" where
  "at_phase (In role) p \<longleftrightarrow> (\<exists>fn. p = section_of role fn)"
| "at_phase (Queue role w) p \<longleftrightarrow> (\<exists>fn. p = queued role w fn)"
| "at_phase Over p \<longleftrightarrow> (\<exists>r. p = Ret r) \<or> (\<exists>e. p = Throw e)"

definition resolved :: "rwlock \<Rightarrow> nat \<Rightarrow> bool" where
  "resolved s w \<longleftrightarrow> w < length (promises s) \<and> promises s ! w"

definition fast :: "rw_role \<Rightarrow> rwlock \<Rightarrow> bool" where
  "fast role s \<longleftrightarrow> \<not> writerActive s \<and> (case role of Reading \<Rightarrow> writerQueue s = [] | Writing \<Rightarrow> readers s = 0)"

inductive phase_step :: "rwlock \<times> phase list \<Rightarrow> rwlock \<times> phase list \<Rightarrow> bool" where
  straight: "fast role s \<Longrightarrow> phase_step (s, ps) (enter role s, ps @ [In role])"
| behind: "\<not> fast role s \<Longrightarrow> phase_step (s, ps) (enqueue role s, ps @ [Queue role (length (promises s))])"
| finish: "i < length ps \<Longrightarrow> ps ! i = In role \<Longrightarrow> phase_step (s, ps) (leave role s, ps[i := Over])"
| resume: "i < length ps \<Longrightarrow> ps ! i = Queue role w \<Longrightarrow> resolved s w \<Longrightarrow> phase_step (s, ps) (enter role s, ps[i := In role])"

inductive_cases phase_stepE: "phase_step (s, ps) (s', ps')"

lemma section_of_await:
  "section_of role fn = Await (role, fn) (\<lambda>x. Do (leave role) (\<lambda>_. case x of Inl e \<Rightarrow> Throw e | Inr r \<Rightarrow> Ret r))"
  by (auto simp: section_of_def finallyP_def modifyP_def split: sum.split)

lemma queued_wait:
  "queued role w fn = Wait w (\<lambda>x. case x of Inl e \<Rightarrow> Throw e | Inr b \<Rightarrow> Do (enter role) (\<lambda>_. section_of role fn))"
  by (auto simp: queued_def waitP_def modifyP_def split: sum.split)

lemma advance_enter: "advance (withReadLock fn) s = (if fast Reading s then (enter Reading s, section_of Reading fn)
     else (enqueue Reading s, queued Reading (length (promises s)) fn))"
  "advance (withWriteLock fn) s = (if fast Writing s then (enter Writing s, section_of Writing fn)
     else (enqueue Writing s, queued Writing (length (promises s)) fn))"
  by (auto simp: withReadLock_def withWriteLock_def fast_def readP_def modifyP_def new_promise_def section_of_await queued_wait)

text \<open>Every step of the programs is a step of the phases.\<close>

lemma at_phase_await: "at_phase ph (Await q k) \<Longrightarrow> \<exists>role fn. ph = In role \<and> Await q k = section_of role fn"
  by (cases ph) (auto simp: queued_wait)

lemma at_phase_wait: "at_phase ph (Wait w k) \<Longrightarrow> \<exists>role fn. ph = Queue role w \<and> Wait w k = queued role w fn"
  by (cases ph) (auto simp: queued_wait section_of_await)

lemma phase_simulation:
  assumes "rw_step (s, ps) (s', ps')" "list_all2 at_phase phs ps"
  shows "\<exists>phs'. phase_step (s, phs) (s', phs') \<and> list_all2 at_phase phs' ps'"
  using assms(1)
proof (cases rule: async_stepE [consumes 1, case_names Start Answer Wake Move])
  case (Start p p')
  then obtain fn where "p = withReadLock fn \<or> p = withWriteLock fn" by (auto simp: rw_starts_def)
  then obtain role where p: "(s', p') = (if fast role s then (enter role s, section_of role fn)
      else (enqueue role s, queued role (length (promises s)) fn))"
    using Start by (metis advance_enter)
  show ?thesis
  proof (cases "fast role s")
    case True
    with p Start assms(2) show ?thesis
      by (intro exI [of _ "phs @ [In role]"]) (auto intro!: phase_step.straight list_all2_appendI)
  next
    case False
    with p Start assms(2) show ?thesis
      by (intro exI [of _ "phs @ [Queue role (length (promises s))]"]) (auto intro!: phase_step.behind list_all2_appendI)
  qed
next
  case (Answer i q k x p')
  have len: "length phs = length ps" and ph: "at_phase (phs ! i) (Await q k)"
    using assms(2) Answer by (auto dest: list_all2_lengthD list_all2_nthD2)
  then obtain role fn where r: "phs ! i = In role" "Await q k = section_of role fn" by (auto dest!: at_phase_await)
  then have "s' = leave role s \<and> at_phase Over p'"
    using Answer by (auto simp: section_of_await split: sum.splits)
  with r Answer len assms(2) show ?thesis
    by (intro exI [of _ "phs[i := Over]"]) (auto intro!: phase_step.finish list_all2_update_cong simp del: at_phase.simps)
next
  case (Wake i w k x p')
  have len: "length phs = length ps" and ph: "at_phase (phs ! i) (Wait w k)"
    using assms(2) Wake by (auto dest: list_all2_lengthD list_all2_nthD2)
  then obtain role fn where r: "phs ! i = Queue role w" "Wait w k = queued role w fn" by (auto dest!: at_phase_wait)
  moreover from Wake have "x = Inr True" "resolved s w"
    by (auto simp: rw_settled_def resolved_def split: if_splits)
  ultimately have "s' = enter role s \<and> at_phase (In role) p'" "resolved s w"
    using Wake by (auto simp: queued_wait section_of_await)
  with r Wake len assms(2) show ?thesis
    by (intro exI [of _ "phs[i := In role]"]) (auto intro!: phase_step.resume list_all2_update_cong simp del: at_phase.simps)
qed simp_all

lemma phase_runs:
  assumes "rw_step\<^sup>*\<^sup>* (new_lock, []) (s, ps)"
  shows "\<exists>phs. phase_step\<^sup>*\<^sup>* (new_lock, []) (s, phs) \<and> list_all2 at_phase phs ps"
  using assms
proof (induction rule: rtranclp_induct2)
  case refl
  then show ?case by (intro exI [of _ "[]"]) simp
next
  case (step s ps s' ps')
  then show ?case by (blast dest: phase_simulation intro: rtranclp.rtrancl_into_rtrancl)
qed

end
