(* ===== verification/RwLockProps.thy ===== *)
theory RwLockProps
  imports RwLock
begin

text \<open>
  What holds of the lock however its calls are interleaved: its counters tell who is inside, and nobody waits for ever
  at a lock nobody holds; and what holds only when nothing comes between the resolution of a promise and the
  resumption of its call: that a writer is alone.
\<close>

section \<open>Counting\<close>

definition count_if :: "('a \<Rightarrow> bool) \<Rightarrow> 'a list \<Rightarrow> nat" where
  "count_if P xs = length (filter P xs)"

lemma count_if_simps [simp]: "count_if P [] = 0" "count_if P (x # xs) = of_bool (P x) + count_if P xs"
  "count_if P (xs @ ys) = count_if P xs + count_if P ys"
  by (simp_all add: count_if_def)

lemma count_if_update: "i < length xs \<Longrightarrow> count_if P (xs[i := y]) + of_bool (P (xs ! i)) = count_if P xs + of_bool (P y)"
proof (induction xs arbitrary: i)
  case (Cons x xs)
  then show ?case using Cons.IH [of "i - 1"] by (cases i) simp_all
qed simp

lemma count_if_pos: "0 < count_if P xs \<longleftrightarrow> (\<exists>x \<in> set xs. P x)"
  by (induction xs) auto

lemma count_if_0: "count_if P xs = 0 \<longleftrightarrow> (\<forall>x \<in> set xs. \<not> P x)"
  by (induction xs) auto

lemma count_if_cong: "(\<And>x. x \<in> set xs \<Longrightarrow> P x = Q x) \<Longrightarrow> count_if P xs = count_if Q xs"
  unfolding count_if_def by (metis filter_cong)

lemma count_if_mono: "(\<And>x. x \<in> set xs \<Longrightarrow> P x \<Longrightarrow> Q x) \<Longrightarrow> count_if P xs \<le> count_if Q xs"
  by (induction xs) auto

section \<open>The operations on the lock\<close>

definition queue_of :: "rw_role \<Rightarrow> rwlock \<Rightarrow> nat list" where
  "queue_of role s = (case role of Reading \<Rightarrow> readerQueue s | Writing \<Rightarrow> writerQueue s)"

lemma fold_resolve: "fold resolve ws s = s\<lparr>promises := fold (\<lambda>w p. p[w := True]) ws (promises s)\<rparr>"
  by (induction ws arbitrary: s) (simp_all add: resolve_def)

lemma nth_set_True: "v < length p \<Longrightarrow> p[w := True] ! v \<longleftrightarrow> w = v \<or> p ! v"
  by (cases "w = v") simp_all

lemma nth_fold_update: "length (fold (\<lambda>w p. p[w := True]) ws p) = length p"
  "v < length p \<Longrightarrow> fold (\<lambda>w p. p[w := True]) ws p ! v \<longleftrightarrow> v \<in> set ws \<or> p ! v"
  by (induction ws arbitrary: p) (auto simp: nth_set_True)

text \<open>What \<open>checkQueues\<close> does: nothing, or it hands the lock over.\<close>

definition handed :: "rwlock \<Rightarrow> nat list" where
  "handed s = (if writerActive s \<or> readers s > 0 then [] else case writerQueue s of w # ws \<Rightarrow> [w] | [] \<Rightarrow> readerQueue s)"

lemma checkQueues_simps [simp]:
  "readers (checkQueues s) = readers s" "writerActive (checkQueues s) = writerActive s"
  "length (promises (checkQueues s)) = length (promises s)"
  by (simp_all add: checkQueues_def resolve_def fold_resolve nth_fold_update split: list.split)

lemma checkQueues_resolved: "resolved (checkQueues s) w \<longleftrightarrow> resolved s w \<or> (w \<in> set (handed s) \<and> w < length (promises s))"
  by (auto simp: checkQueues_def handed_def resolve_def fold_resolve resolved_def nth_fold_update nth_set_True split: list.splits)

lemma checkQueues_queues:
  "writerQueue (checkQueues s) = (if handed s \<noteq> [] then tl (writerQueue s) else writerQueue s)"
  "readerQueue (checkQueues s) = (if handed s \<noteq> [] \<and> writerQueue s = [] then [] else readerQueue s)"
  by (auto simp: checkQueues_def handed_def resolve_def fold_resolve split: list.split)

lemma enter_simps [simp]:
  "promises (enter r s) = promises s" "queue_of q (enter r s) = queue_of q s" "resolved (enter r s) w = resolved s w"
  "readers (enter r s) = readers s + of_bool (r = Reading)" "writerActive (enter r s) = (r = Writing \<or> writerActive s)"
  by (cases r; simp add: enter_def queue_of_def resolved_def split: rw_role.split)+

lemma enqueue_simps [simp]:
  "readers (enqueue r s) = readers s" "writerActive (enqueue r s) = writerActive s"
  "promises (enqueue r s) = promises s @ [False]"
  "queue_of q (enqueue r s) = (if q = r then queue_of q s @ [length (promises s)] else queue_of q s)"
  "resolved (enqueue r s) w = resolved s w"
  by (cases r; cases q; auto simp: enqueue_def queue_of_def resolved_def Let_def nth_append)+

text \<open>Leaving, before the queues are looked at.\<close>

definition lower :: "rw_role \<Rightarrow> rwlock \<Rightarrow> rwlock" where
  "lower r s = (case r of Reading \<Rightarrow> s\<lparr>readers := readers s - 1\<rparr> | Writing \<Rightarrow> s\<lparr>writerActive := False\<rparr>)"

lemma leave_lower: "leave r s = checkQueues (lower r s)"
  by (simp add: leave_def lower_def)

lemma lower_simps [simp]:
  "promises (lower r s) = promises s" "queue_of q (lower r s) = queue_of q s" "resolved (lower r s) w = resolved s w"
  "readers (lower r s) = readers s - of_bool (r = Reading)" "writerActive (lower r s) = (r \<noteq> Writing \<and> writerActive s)"
  "readerQueue (lower r s) = readerQueue s" "writerQueue (lower r s) = writerQueue s"
  by (cases r; simp add: lower_def queue_of_def resolved_def split: rw_role.split)+

lemma all_roles: "(\<forall>r. P r) \<longleftrightarrow> P Reading \<and> P Writing" "(\<exists>r. P r) \<longleftrightarrow> P Reading \<or> P Writing"
  by (metis rw_role.exhaust)+

lemma handed_sub: "set (handed s) \<subseteq> set (queue_of Reading s) \<union> set (queue_of Writing s)"
  by (auto simp: handed_def queue_of_def split: list.splits if_splits)

section \<open>The invariant\<close>

definition inside_count :: "rw_role \<Rightarrow> phase list \<Rightarrow> nat" where
  "inside_count r ps = count_if (\<lambda>p. p = In r) ps"

definition counts_ok :: "rwlock \<Rightarrow> phase list \<Rightarrow> bool" where
  "counts_ok s ps \<longleftrightarrow> readers s = int (inside_count Reading ps) \<and> (writerActive s \<longrightarrow> 0 < inside_count Writing ps)"

fun waits_for :: "nat \<Rightarrow> phase \<Rightarrow> bool" where
  "waits_for w (Queue r v) = (v = w)"
| "waits_for w _ = False"

text \<open>The queues hold unresolved promises, each of one waiting call; every waiting call is in its queue or woken.\<close>

definition queues_ok :: "rwlock \<Rightarrow> phase list \<Rightarrow> bool" where
  "queues_ok s ps \<longleftrightarrow> distinct (queue_of Reading s @ queue_of Writing s) \<and>
     (\<forall>r. \<forall>w \<in> set (queue_of r s). w < length (promises s) \<and> \<not> resolved s w \<and> Queue r w \<in> set ps)"

definition waiters_ok :: "rwlock \<Rightarrow> phase list \<Rightarrow> bool" where
  "waiters_ok s ps \<longleftrightarrow> (\<forall>r w. Queue r w \<in> set ps \<longrightarrow> w < length (promises s) \<and> (resolved s w \<or> w \<in> set (queue_of r s))) \<and>
     (\<forall>w. count_if (waits_for w) ps \<le> 1)"

text \<open>Somebody is inside, or is about to be.\<close>

definition busy :: "rwlock \<Rightarrow> phase list \<Rightarrow> bool" where
  "busy s ps \<longleftrightarrow> (\<exists>r. In r \<in> set ps) \<or> (\<exists>r w. Queue r w \<in> set ps \<and> resolved s w)"

definition progress_ok :: "rwlock \<Rightarrow> phase list \<Rightarrow> bool" where
  "progress_ok s ps \<longleftrightarrow> (\<forall>r. queue_of r s \<noteq> [] \<longrightarrow> busy s ps)"

definition rw_inv :: "rwlock \<Rightarrow> phase list \<Rightarrow> bool" where
  "rw_inv s ps \<longleftrightarrow> counts_ok s ps \<and> queues_ok s ps \<and> waiters_ok s ps \<and> progress_ok s ps"

lemma inside_count_update:
  "i < length ps \<Longrightarrow> inside_count r (ps[i := p]) + of_bool (ps ! i = In r) = inside_count r ps + of_bool (p = In r)"
  unfolding inside_count_def by (rule count_if_update)

lemma inside_count_append [simp]: "inside_count r (ps @ [p]) = inside_count r ps + of_bool (p = In r)"
  by (simp add: inside_count_def)

lemma inside_count_pos: "0 < inside_count r ps \<longleftrightarrow> In r \<in> set ps"
  by (auto simp: inside_count_def count_if_pos)

lemma counts_step: "phase_step S T \<Longrightarrow> counts_ok (fst S) (snd S) \<Longrightarrow> counts_ok (fst T) (snd T)"
proof (induction S T rule: phase_step.induct)
  case (straight r s ps)
  then show ?case by (cases r) (auto simp: counts_ok_def)
next
  case (behind r s ps)
  then show ?case by (auto simp: counts_ok_def)
next
  case (finish i ps r s)
  with inside_count_update [of i ps Reading Over] inside_count_update [of i ps Writing Over]
  show ?case by (cases r) (auto simp: counts_ok_def leave_lower)
next
  case (resume i ps r w s)
  with inside_count_update [of i ps Reading "In r"] inside_count_update [of i ps Writing "In r"]
  show ?case by (cases r) (auto simp: counts_ok_def)
qed


lemma handed_queues:
  assumes "distinct (queue_of Reading s @ queue_of Writing s)"
  shows "distinct (queue_of Reading (checkQueues s) @ queue_of Writing (checkQueues s))"
    and "set (queue_of r (checkQueues s)) = set (queue_of r s) - set (handed s)"
proof -
  have D: "distinct (readerQueue s)" "distinct (writerQueue s)" "set (readerQueue s) \<inter> set (writerQueue s) = {}"
    using assms by (auto simp: queue_of_def)
  show "distinct (queue_of Reading (checkQueues s) @ queue_of Writing (checkQueues s))"
    using D by (cases "writerQueue s") (auto simp: queue_of_def checkQueues_queues)
  show "set (queue_of r (checkQueues s)) = set (queue_of r s) - set (handed s)"
    using D by (cases r; cases "writerQueue s") (auto simp: queue_of_def checkQueues_queues handed_def)
qed

lemma stays: "Queue r w \<in> set ps \<Longrightarrow> ps ! i \<noteq> Queue r w \<Longrightarrow> Queue r w \<in> set (ps[i := p])"
  by (metis in_set_conv_nth length_list_update nth_list_update_neq)

lemma member_update: "x \<in> set (ps[i := p]) \<Longrightarrow> x \<in> set ps \<or> x = p"
  using set_update_subset_insert by fastforce

lemma queuesD:
  assumes "queues_ok s ps" "w \<in> set (queue_of r s)"
  shows "w < length (promises s)" "\<not> resolved s w" "Queue r w \<in> set ps"
  using assms by (auto simp: queues_ok_def)

lemma queues_step: "phase_step S T \<Longrightarrow> queues_ok (fst S) (snd S) \<Longrightarrow> queues_ok (fst T) (snd T)"
proof (induction S T rule: phase_step.induct)
  case (straight r s ps)
  then show ?case by (auto simp: queues_ok_def)
next
  case (behind r s ps)
  then have Q: "queues_ok s ps" by simp
  have new: "length (promises s) \<notin> set (queue_of q s)" for q using queuesD(1) [OF Q] by blast
  have "resolved s w \<Longrightarrow> w < length (promises s)" for w by (simp add: resolved_def)
  with Q new show ?case
    by (cases r) (auto simp: queues_ok_def all_roles less_Suc_eq)
next
  case (finish i ps r s)
  let ?t = "lower r s"
  have D: "distinct (queue_of Reading ?t @ queue_of Writing ?t)" using finish by (simp add: queues_ok_def)
  show ?case
    unfolding queues_ok_def leave_lower fst_conv snd_conv
  proof (intro conjI allI ballI)
    show "distinct (queue_of Reading (checkQueues ?t) @ queue_of Writing (checkQueues ?t))"
      by (rule handed_queues [OF D])
    fix q w assume "w \<in> set (queue_of q (checkQueues ?t))"
    then have w: "w \<in> set (queue_of q s)" "w \<notin> set (handed ?t)" by (simp_all add: handed_queues [OF D])
    show "w < length (promises (checkQueues ?t))" "\<not> resolved (checkQueues ?t) w" "Queue q w \<in> set (ps[i := Over])"
      using queuesD [OF finish(3) [unfolded fst_conv snd_conv] w(1)] w(2) finish by (auto simp: checkQueues_resolved intro: stays)
  qed
next
  case (resume i ps r w s)
  then have "\<And>q. w \<notin> set (queue_of q s)" by (auto simp: queues_ok_def)
  with resume show ?case by (fastforce simp: queues_ok_def intro!: stays)
qed

lemma waits_for_iff: "waits_for w p \<longleftrightarrow> (\<exists>r. p = Queue r w)"
  by (cases p) auto

lemma waiters_step:
  assumes "phase_step S T" "waiters_ok (fst S) (snd S)" "queues_ok (fst S) (snd S)"
  shows "waiters_ok (fst T) (snd T)"
  using assms
proof (induction S T rule: phase_step.induct)
  case (straight r s ps)
  then show ?case by (simp add: waiters_ok_def)
next
  case (behind r s ps)
  have "count_if (waits_for (length (promises s))) ps = 0"
    using behind by (auto simp: count_if_0 waits_for_iff waiters_ok_def)
  with behind show ?case by (auto simp: waiters_ok_def all_roles)
next
  case (finish i ps r s)
  let ?t = "lower r s"
  have D: "distinct (queue_of Reading ?t @ queue_of Writing ?t)" using finish by (simp add: queues_ok_def)
  have "count_if (waits_for w) (ps[i := Over]) \<le> count_if (waits_for w) ps" for w
    using count_if_update [OF finish(1), of "waits_for w" Over] by simp
  then have "count_if (waits_for w) (ps[i := Over]) \<le> 1" for w
    using finish(3) unfolding fst_conv snd_conv by (meson le_trans waiters_ok_def)
  moreover have "v < length (promises s)" "resolved s v \<or> v \<in> set (queue_of q s)" if "Queue q v \<in> set (ps[i := Over])" for q v
    using member_update [OF that] finish(3) by (auto simp: waiters_ok_def)
  ultimately show ?case
    by (simp add: waiters_ok_def leave_lower checkQueues_resolved handed_queues [OF D]) blast
next
  case (resume i ps r w s)
  have "count_if (waits_for v) (ps[i := In r]) \<le> count_if (waits_for v) ps" for v
    using count_if_update [OF resume(1), of "waits_for v" "In r"] by simp
  then have "count_if (waits_for v) (ps[i := In r]) \<le> 1" for v
    using resume(4) unfolding fst_conv snd_conv by (meson le_trans waiters_ok_def)
  with resume(4) show ?case by (auto simp: waiters_ok_def dest!: member_update)
qed

lemma handed_busy:
  assumes "queues_ok s ps" "queue_of q (checkQueues s) \<noteq> []" "handed s \<noteq> []"
  shows "busy (checkQueues s) ps"
proof -
  obtain w where w: "w \<in> set (handed s)" using assms(3) by fastforce
  then obtain r where "w \<in> set (queue_of r s)" using handed_sub [of s] by (auto simp: all_roles)
  with queuesD [OF assms(1)] w have "Queue r w \<in> set ps" "resolved (checkQueues s) w" by (auto simp: checkQueues_resolved)
  then show ?thesis by (auto simp: busy_def)
qed


lemma busy_inside: "In r \<in> set ps \<Longrightarrow> busy s ps"
  by (auto simp: busy_def)

lemma counts_inside:
  assumes "counts_ok s ps" "writerActive s \<or> readers s > 0"
  shows "\<exists>r. In r \<in> set ps"
  using assms by (auto simp: counts_ok_def simp flip: inside_count_pos intro: exI [of _ Reading] exI [of _ Writing])

lemma not_handed: "handed s = [] \<Longrightarrow> writerActive s \<or> readers s > 0 \<or> (\<forall>r. queue_of r s = [])"
  by (auto simp: handed_def queue_of_def all_roles split: if_splits list.splits)

lemma handed_none: "handed s = [] \<Longrightarrow> queue_of r (checkQueues s) = queue_of r s"
  by (cases r) (simp_all add: queue_of_def checkQueues_queues)

lemma queues_lower: "queues_ok s ps \<Longrightarrow> ps ! i = In r \<Longrightarrow> queues_ok (lower r s) (ps[i := Over])"
  by (auto simp: queues_ok_def intro!: stays)

lemma counts_lower:
  "counts_ok s ps \<Longrightarrow> i < length ps \<Longrightarrow> ps ! i = In r \<Longrightarrow> counts_ok (lower r s) (ps[i := Over])"
  using inside_count_update [of i ps Reading Over] inside_count_update [of i ps Writing Over]
  by (cases r) (auto simp: counts_ok_def)

lemma progress_step:
  assumes "phase_step S T" "progress_ok (fst S) (snd S)" "counts_ok (fst S) (snd S)" "queues_ok (fst S) (snd S)"
  shows "progress_ok (fst T) (snd T)"
  using assms
proof (induction S T rule: phase_step.induct)
  case (straight r s ps)
  show ?case by (auto simp: progress_ok_def intro: busy_inside)
next
  case (behind r s ps)
  have "(\<exists>r. In r \<in> set ps) \<or> busy s ps"
  proof (cases "writerActive s \<or> readers s > 0")
    case True
    with behind show ?thesis by (simp add: counts_inside)
  next
    case False
    with behind have "queue_of Writing s \<noteq> []"
      by (cases r) (auto simp: fast_def queue_of_def counts_ok_def)
    with behind show ?thesis by (auto simp: progress_ok_def)
  qed
  then have "busy (enqueue r s) (ps @ [Queue r (length (promises s))])" by (auto simp: busy_def)
  then show ?case by (simp add: progress_ok_def)
next
  case (finish i ps r s)
  let ?t = "lower r s" and ?ps = "ps[i := Over]"
  have Q: "queues_ok ?t ?ps" and C: "counts_ok ?t ?ps"
    using finish by (auto intro: queues_lower counts_lower)
  have "busy (checkQueues ?t) ?ps" if "queue_of q (checkQueues ?t) \<noteq> []" for q
  proof (cases "handed ?t = []")
    case True
    then have "writerActive ?t \<or> readers ?t > 0" using that not_handed [OF True] by (auto simp: handed_none)
    from counts_inside [OF C this] show ?thesis by (auto intro: busy_inside)
  next
    case False
    then show ?thesis by (rule handed_busy [OF Q that])
  qed
  then show ?case by (simp add: progress_ok_def leave_lower)
next
  case (resume i ps r w s)
  then have "In r \<in> set (ps[i := In r])" by (simp add: set_update_memI)
  then show ?case by (auto simp: progress_ok_def intro: busy_inside)
qed

lemma rw_inv_step: "phase_step S T \<Longrightarrow> rw_inv (fst S) (snd S) \<Longrightarrow> rw_inv (fst T) (snd T)"
  unfolding rw_inv_def using counts_step queues_step waiters_step progress_step by blast

lemma rw_inv_new: "rw_inv new_lock []"
  by (auto simp: rw_inv_def new_lock_def counts_ok_def queues_ok_def waiters_ok_def progress_ok_def queue_of_def
      inside_count_def split: rw_role.split)

lemma rw_inv_reachable: "phase_step\<^sup>*\<^sup>* (new_lock, []) S \<Longrightarrow> rw_inv (fst S) (snd S)"
  by (induction rule: rtranclp_induct) (simp_all add: rw_inv_new rw_inv_step)

section \<open>A writer alone\<close>

definition woken_count :: "rw_role \<Rightarrow> rwlock \<Rightarrow> phase list \<Rightarrow> nat" where
  "woken_count r s ps = count_if (\<lambda>p. \<exists>w. p = Queue r w \<and> resolved s w) ps"

definition alone_ok :: "rwlock \<Rightarrow> phase list \<Rightarrow> bool" where
  "alone_ok s ps \<longleftrightarrow>
     (let writers = inside_count Writing ps + woken_count Writing s ps;
          others = inside_count Reading ps + woken_count Reading s ps
      in writers \<le> 1 \<and> (writers = 1 \<longrightarrow> others = 0) \<and>
         (writerActive s \<longleftrightarrow> inside_count Writing ps = 1) \<and>
         (woken_count Reading s ps > 0 \<longrightarrow> queue_of Writing s = []))"

lemma woken_append [simp]:
  "woken_count r s (ps @ [p]) = woken_count r s ps + of_bool (\<exists>w. p = Queue r w \<and> resolved s w)"
  by (simp add: woken_count_def)

lemma woken_update: "i < length ps \<Longrightarrow> woken_count r s (ps[i := p]) + of_bool (\<exists>w. ps ! i = Queue r w \<and> resolved s w)
     = woken_count r s ps + of_bool (\<exists>w. p = Queue r w \<and> resolved s w)"
  unfolding woken_count_def by (rule count_if_update)

lemma woken_same [simp]:
  "woken_count q (enter r s) ps = woken_count q s ps" "woken_count q (enqueue r s) ps = woken_count q s ps"
  "woken_count q (lower r s) ps = woken_count q s ps"
  by (simp_all add: woken_count_def)

text \<open>A step that starts a call only when no other is woken and not resumed.\<close>

definition nobody_woken :: "rwlock \<Rightarrow> phase list \<Rightarrow> bool" where
  "nobody_woken s ps \<longleftrightarrow> (\<forall>r. woken_count r s ps = 0)"

definition prompt_step :: "rwlock \<times> phase list \<Rightarrow> rwlock \<times> phase list \<Rightarrow> bool" where
  "prompt_step S T \<longleftrightarrow> phase_step S T \<and> (length (snd T) > length (snd S) \<longrightarrow> nobody_woken (fst S) (snd S))"

text \<open>Who is woken by a hand-over when no writer was.\<close>

lemma woken_handed:
  assumes Q: "queues_ok s ps" and W: "waiters_ok s ps" and hand: "handed s \<noteq> []"
    and none: "woken_count Writing s ps = 0" "writerQueue s \<noteq> [] \<Longrightarrow> woken_count Reading s ps = 0"
  shows "woken_count Writing (checkQueues s) ps \<le> 1"
    and "writerQueue s \<noteq> [] \<Longrightarrow> woken_count Reading (checkQueues s) ps = 0"
    and "writerQueue s = [] \<Longrightarrow> woken_count Writing (checkQueues s) ps = 0"
proof -
  have D: "set (queue_of Reading s) \<inter> set (queue_of Writing s) = {}" using Q by (simp add: queues_ok_def)
  have unres: "\<not> resolved s w" if "Queue Writing w \<in> set ps" for w
    using none(1) that by (auto simp: woken_count_def count_if_0)
  have role: "w \<in> set (queue_of Writing s)" if "Queue Writing w \<in> set ps" for w
    using W unres [OF that] that by (auto simp: waiters_ok_def)
  have res: "resolved (checkQueues s) w \<longleftrightarrow> w \<in> set (handed s)" if "Queue Writing w \<in> set ps" for w
    using W unres [OF that] that by (auto simp: checkQueues_resolved waiters_ok_def)
  have read: "woken_count Reading (checkQueues s) ps = 0" and "woken_count Writing (checkQueues s) ps \<le> 1"
    if wq: "writerQueue s \<noteq> []"
  proof -
    obtain w ws where w: "writerQueue s = w # ws" using wq by (cases "writerQueue s") auto
    then have h: "handed s = [w]" using hand by (auto simp: handed_def split: if_splits)
    have "woken_count Writing (checkQueues s) ps \<le> count_if (waits_for w) ps"
      unfolding woken_count_def by (rule count_if_mono) (use res h in auto)
    also have "\<dots> \<le> 1" using W by (simp add: waiters_ok_def)
    finally show "woken_count Writing (checkQueues s) ps \<le> 1" .
    have not: "\<not> resolved s v \<and> v \<in> set (queue_of Reading s)" if "Queue Reading v \<in> set ps" for v
      using none(2) [OF wq] W that by (auto simp: woken_count_def count_if_0 waiters_ok_def)
    have "w \<in> set (queue_of Writing s)" using w by (simp add: queue_of_def)
    then have "\<not> resolved (checkQueues s) v" if "Queue Reading v \<in> set ps" for v
      using not [OF that] D h by (auto simp: checkQueues_resolved)
    then show "woken_count Reading (checkQueues s) ps = 0" by (auto simp: woken_count_def count_if_0)
  qed
  have quiet: "woken_count Writing (checkQueues s) ps = 0" if "writerQueue s = []"
  proof -
    have "handed s = queue_of Reading s" using that hand by (auto simp: handed_def queue_of_def split: if_splits)
    then have "\<not> resolved (checkQueues s) w" if "Queue Writing w \<in> set ps" for w
      using role [OF that] res [OF that] D by auto
    then show ?thesis by (auto simp: woken_count_def count_if_0)
  qed
  show "woken_count Writing (checkQueues s) ps \<le> 1"
    using quiet \<open>writerQueue s \<noteq> [] \<Longrightarrow> woken_count Writing (checkQueues s) ps \<le> 1\<close> by (cases "writerQueue s = []") simp_all
  show "writerQueue s \<noteq> [] \<Longrightarrow> woken_count Reading (checkQueues s) ps = 0" by (rule read)
  show "writerQueue s = [] \<Longrightarrow> woken_count Writing (checkQueues s) ps = 0" by (rule quiet)
qed

lemma handed_nothing: "handed s = [] \<Longrightarrow> checkQueues s = s"
  by (auto simp: handed_def checkQueues_def split: if_splits list.splits)

lemma waiters_lower: "waiters_ok s ps \<Longrightarrow> i < length ps \<Longrightarrow> waiters_ok (lower r s) (ps[i := Over])"
proof -
  assume W: "waiters_ok s ps" and i: "i < length ps"
  have "count_if (waits_for w) (ps[i := Over]) \<le> count_if (waits_for w) ps" for w
    using count_if_update [OF i, of "waits_for w" Over] by simp
  then have "count_if (waits_for w) (ps[i := Over]) \<le> 1" for w
    using W by (meson le_trans waiters_ok_def)
  with W show ?thesis by (auto simp: waiters_ok_def dest!: member_update)
qed

lemma alone_lower:
  assumes "alone_ok s ps" "i < length ps" "ps ! i = In r"
  shows "alone_ok (lower r s) (ps[i := Over])"
  using assms inside_count_update [OF assms(2), of Reading Over] inside_count_update [OF assms(2), of Writing Over]
    woken_update [OF assms(2), of Reading s Over] woken_update [OF assms(2), of Writing s Over]
  by (cases r) (auto simp: alone_ok_def Let_def)

lemma alone_step:
  assumes "prompt_step S T" "alone_ok (fst S) (snd S)" "rw_inv (fst S) (snd S)"
  shows "alone_ok (fst T) (snd T)"
proof -
  have "phase_step S T" and quiet: "length (snd T) > length (snd S) \<Longrightarrow> nobody_woken (fst S) (snd S)"
    using assms(1) by (simp_all add: prompt_step_def)
  from this assms(2,3) show ?thesis
  proof (induction S T rule: phase_step.induct)
    case (straight r s ps)
    then have "woken_count q s ps = 0" for q by (simp add: nobody_woken_def)
    with straight show ?case
      by (cases r) (auto simp: alone_ok_def fast_def rw_inv_def counts_ok_def Let_def)
  next
    case (behind r s ps)
    then have "woken_count q s ps = 0" for q by (simp add: nobody_woken_def)
    moreover have "\<not> resolved s (length (promises s))" by (simp add: resolved_def)
    ultimately show ?case using behind by (simp add: alone_ok_def Let_def)
  next
    case (finish i ps r s)
    let ?t = "lower r s" and ?ps = "ps[i := Over]"
    have A: "alone_ok ?t ?ps" and Q: "queues_ok ?t ?ps" and C: "counts_ok ?t ?ps" and W: "waiters_ok ?t ?ps"
      using finish by (auto simp: rw_inv_def intro: alone_lower queues_lower counts_lower waiters_lower)
    show ?case
    proof (cases "handed ?t = []")
      case True
      with A show ?thesis by (simp add: leave_lower handed_nothing)
    next
      case False
      then have idle: "\<not> writerActive ?t" "\<not> readers ?t > 0" by (auto simp: handed_def split: if_splits)
      have in0: "inside_count q ?ps = 0" for q
        using A C idle by (cases q) (auto simp: alone_ok_def counts_ok_def Let_def)
      have w1: "woken_count q ?t ?ps = woken_count q s ps" for q
        using woken_update [OF finish(1), of q s Over] finish(2) by simp
      have in1: "0 < inside_count r ps" using finish(1,2) by (metis inside_count_pos nth_mem)
      have none: "woken_count Writing ?t ?ps = 0" "writerQueue ?t \<noteq> [] \<Longrightarrow> woken_count Reading ?t ?ps = 0"
        using finish(3-) w1 in1 by (cases r; auto simp: alone_ok_def Let_def queue_of_def)+
      show ?thesis
        using woken_handed [OF Q W False none] in0 idle
        by (cases "writerQueue ?t = []") (auto simp: alone_ok_def leave_lower Let_def queue_of_def checkQueues_queues)
    qed
  next
    case (resume i ps r w s)
    then show ?case
      using inside_count_update [OF resume(1), of Reading "In r"] inside_count_update [OF resume(1), of Writing "In r"]
        woken_update [OF resume(1), of Reading s "In r"] woken_update [OF resume(1), of Writing s "In r"]
      by (cases r) (auto simp: alone_ok_def Let_def)
  qed
qed


section \<open>Of the programs\<close>

definition inside :: "rw_role \<Rightarrow> ('q, 'r, 'e) rwp \<Rightarrow> bool" where
  "inside role p \<longleftrightarrow> (case p of Await q k \<Rightarrow> fst q = role | _ \<Rightarrow> False)"

definition waiting :: "('q, 'r, 'e) rwp \<Rightarrow> bool" where
  "waiting p \<longleftrightarrow> (case p of Wait w k \<Rightarrow> True | _ \<Rightarrow> False)"

text \<open>A call whose promise is resolved and that has not been resumed.\<close>

definition woken :: "rwlock \<Rightarrow> ('q, 'r, 'e) rwp \<Rightarrow> bool" where
  "woken s p \<longleftrightarrow> (case p of Wait w k \<Rightarrow> resolved s w | _ \<Rightarrow> False)"

definition rw_prompt :: "(rwlock, rw_role \<times> 'q, 'r, 'e, 'r) async_sys \<Rightarrow> (rwlock, rw_role \<times> 'q, 'r, 'e, 'r) async_sys \<Rightarrow> bool" where
  "rw_prompt S T \<longleftrightarrow> rw_step S T \<and> (length (snd T) > length (snd S) \<longrightarrow> (\<forall>p \<in> set (snd S). \<not> woken (fst S) p))"

lemma phase_views:
  assumes "at_phase ph p"
  shows "inside r p \<longleftrightarrow> ph = In r" "waiting p \<longleftrightarrow> (\<exists>r w. ph = Queue r w)"
    "woken s p \<longleftrightarrow> (\<exists>r w. ph = Queue r w \<and> resolved s w)"
  using assms by (cases ph; auto simp: inside_def waiting_def woken_def section_of_await queued_wait)+

lemma count_views:
  "list_all2 at_phase phs ps \<Longrightarrow> length (filter (inside r) ps) = inside_count r phs"
  by (induction rule: list_all2_induct) (auto simp: inside_count_def phase_views)

lemma member_views: "list_all2 at_phase phs ps \<Longrightarrow> p \<in> set ps \<Longrightarrow> \<exists>ph \<in> set phs. at_phase ph p"
  "list_all2 at_phase phs ps \<Longrightarrow> ph \<in> set phs \<Longrightarrow> \<exists>p \<in> set ps. at_phase ph p"
  by (metis in_set_conv_nth list_all2_conv_all_nth)+

lemma rw_runs_inv:
  assumes "rw_step\<^sup>*\<^sup>* (new_lock, []) (s, ps)"
  obtains phs where "list_all2 at_phase phs ps" "rw_inv s phs"
  using phase_runs [OF assms] rw_inv_reachable by fastforce

lemma prompt_runs:
  assumes "rw_prompt\<^sup>*\<^sup>* (new_lock, []) S"
  shows "\<exists>phs. list_all2 at_phase phs (snd S) \<and> rw_inv (fst S) phs \<and> alone_ok (fst S) phs"
  using assms
proof (induction rule: rtranclp_induct)
  case base
  have "alone_ok new_lock []"
    by (simp add: alone_ok_def new_lock_def inside_count_def woken_count_def)
  then show ?case by (intro exI [of _ "[]"]) (simp add: rw_inv_new)
next
  case (step S T)
  then obtain phs where phs: "list_all2 at_phase phs (snd S)" "rw_inv (fst S) phs" "alone_ok (fst S) phs" by blast
  have st: "rw_step S T" and quiet: "length (snd T) > length (snd S) \<longrightarrow> (\<forall>p \<in> set (snd S). \<not> woken (fst S) p)"
    using step(2) by (simp_all add: rw_prompt_def)
  obtain phs' where ph: "phase_step (fst S, phs) (fst T, phs')" "list_all2 at_phase phs' (snd T)"
    using phase_simulation [of "fst S" "snd S" "fst T" "snd T" phs] st phs(1) by (cases S; cases T) auto
  have "nobody_woken (fst S) phs" if "length (snd T) > length (snd S)"
    unfolding nobody_woken_def woken_count_def count_if_0
    using quiet that member_views(2) [OF phs(1)] phase_views(3) by blast
  moreover have "length phs = length (snd S)" "length phs' = length (snd T)" using phs(1) ph(2) by (auto dest: list_all2_lengthD)
  ultimately have "prompt_step (fst S, phs) (fst T, phs')" using ph(1) by (simp add: prompt_step_def)
  with alone_step [OF this] rw_inv_step [OF ph(1)] phs ph(2) show ?case by auto
qed

text \<open>The lock's counters tell who is inside, whatever the interleaving of its calls: \<open>readers\<close> is the number
  of read sections running (so it is never negative), and \<open>writerActive\<close> is only set while a write section runs.\<close>

theorem lock_counts:
  assumes "rw_step\<^sup>*\<^sup>* (new_lock, []) (s, ps)"
  shows "readers s = int (length (filter (inside Reading) ps)) \<and> (writerActive s \<longrightarrow> (\<exists>p \<in> set ps. inside Writing p))"
proof -
  from rw_runs_inv [OF assms] obtain phs where phs: "list_all2 at_phase phs ps" "rw_inv s phs" .
  have "0 < length (filter (inside Writing) ps) \<longleftrightarrow> (\<exists>p \<in> set ps. inside Writing p)" by (induction ps) auto
  with phs show ?thesis by (simp add: rw_inv_def counts_ok_def count_views)
qed

text \<open>C20: Nobody is stranded: whenever a call waits for the lock, some call is inside (and will look at the queues
  when it leaves) or some waiting call has been woken, whatever the interleaving.\<close>

theorem nobody_stranded:
  assumes "rw_step\<^sup>*\<^sup>* (new_lock, []) (s, ps)" "p \<in> set ps" "waiting p"
  shows "\<exists>q \<in> set ps. inside Reading q \<or> inside Writing q \<or> woken s q"
proof -
  from rw_runs_inv [OF assms(1)] obtain phs where phs: "list_all2 at_phase phs ps" "rw_inv s phs" .
  obtain r w where w: "Queue r w \<in> set phs"
    using member_views(1) [OF phs(1) assms(2)] assms(3) phase_views(2) by blast
  have "busy s phs"
  proof (cases "resolved s w")
    case True
    with w show ?thesis by (auto simp: busy_def)
  next
    case False
    with w phs(2) have "queue_of r s \<noteq> []" by (fastforce simp: rw_inv_def waiters_ok_def)
    with phs(2) show ?thesis by (auto simp: rw_inv_def progress_ok_def)
  qed
  then obtain ph where ph: "ph \<in> set phs" "(\<exists>r. ph = In r) \<or> (\<exists>r w. ph = Queue r w \<and> resolved s w)"
    by (auto simp: busy_def)
  obtain q where q: "q \<in> set ps" "at_phase ph q" using member_views(2) [OF phs(1) ph(1)] by blast
  have "inside Reading q \<or> inside Writing q \<or> woken s q"
    using ph(2) by (auto simp: phase_views [OF q(2)] all_roles)
  with q(1) show ?thesis by blast
qed

text \<open>C21: A writer is alone in its section, provided no new call of the lock is made between the resolution of a
  promise and the resumption of the call that waits for it.\<close>

theorem writer_alone:
  assumes "rw_prompt\<^sup>*\<^sup>* (new_lock, []) (s, ps)"
  shows "length (filter (inside Writing) ps) \<le> 1 \<and> (filter (inside Writing) ps \<noteq> [] \<longrightarrow> filter (inside Reading) ps = [])"
proof -
  obtain phs where phs: "list_all2 at_phase phs ps" "alone_ok s phs" using prompt_runs [OF assms] by auto
  then have "inside_count Writing phs \<le> 1 \<and> (inside_count Writing phs \<noteq> 0 \<longrightarrow> inside_count Reading phs = 0)"
    by (auto simp: alone_ok_def Let_def)
  then show ?thesis using count_views [OF phs(1)] by (metis length_0_conv)
qed

text \<open>A writer inside, a second one waiting.\<close>

abbreviation two_writers :: "(rwlock, rw_role \<times> nat, unit, unit, unit) act list" where
  "two_writers \<equiv> [Start (withWriteLock 0), Start (withWriteLock 1)]"

lemmas lock_eval = withWriteLock_def readP_def modifyP_def new_promise_def section_of_await queued_wait new_lock_def enter_def
  enqueue_def leave_def checkQueues_def resolve_def rw_settled_def resume_def inside_def waiting_def woken_def resolved_def Let_def

lemma rw_acts_run:
  "run_acts rw_settled acts (new_lock, []) = Some S \<Longrightarrow> list_all (act_ok rw_starts) acts \<Longrightarrow> rw_step\<^sup>*\<^sup>* (new_lock, []) S"
  by (rule run_acts_sound)

text \<open>Without that proviso it fails: when a writer has left and has woken the next one, a third call of
  \<open>withWriteLock\<close> finds the lock free before the woken one is resumed, and the two write sections run at once.\<close>

theorem two_writers_inside:
  "\<exists>s (ps :: (nat, unit, unit) rwp list). rw_step\<^sup>*\<^sup>* (new_lock, []) (s, ps) \<and> 2 \<le> length (filter (inside Writing) ps)"
proof -
  let ?acts = "two_writers @ [Answer 0 (Inr ()), Start (withWriteLock 2), Wake 1]"
  have "\<exists>s ps. run_acts rw_settled ?acts (new_lock, []) = Some (s, ps) \<and> 2 \<le> length (filter (inside Writing) ps)"
    by (simp add: lock_eval)
  then obtain s ps where run: "run_acts rw_settled ?acts (new_lock, []) = Some (s, ps)"
    and two: "2 \<le> length (filter (inside Writing) ps)" by blast
  have "list_all (act_ok rw_starts) ?acts" by (auto simp: rw_starts_def)
  with rw_acts_run [OF run] two show ?thesis by blast
qed

text \<open>One writer inside, one waiting: the state of the witnesses.\<close>

abbreviation one_waits :: "rwlock \<Rightarrow> (nat, unit, unit) rwp list \<Rightarrow> bool" where
  "one_waits s ps \<equiv> rw_step\<^sup>*\<^sup>* (new_lock, []) (s, ps) \<and> writerActive s \<and> (\<exists>p q. ps = [p, q] \<and> waiting q)"

lemma one_waits_reached: "\<exists>s ps. one_waits s ps"
proof -
  have "\<exists>s p q. run_acts rw_settled two_writers (new_lock, []) = Some (s, [p, q]) \<and> writerActive s \<and> waiting q"
    by (simp add: lock_eval)
  moreover have "list_all (act_ok rw_starts) two_writers" by (auto simp: rw_starts_def)
  ultimately show ?thesis using rw_acts_run by blast
qed

theorem lock_counts_witness:
  "\<exists>s ps. one_waits s ps \<and> (\<exists>p \<in> set ps. inside Writing p)"
proof -
  from one_waits_reached obtain s ps where r: "one_waits s ps" by blast
  with lock_counts [of s ps] show ?thesis by blast
qed

theorem nobody_stranded_witness:
  "\<exists>s ps. one_waits s ps \<and> (\<exists>q \<in> set ps. inside Reading q \<or> inside Writing q \<or> woken s q)"
proof -
  from one_waits_reached obtain s ps where r: "one_waits s ps" by blast
  then have "\<exists>q \<in> set ps. waiting q" by auto
  then obtain q where "q \<in> set ps" "waiting q" by blast
  with r nobody_stranded [of s ps q] show ?thesis by blast
qed

theorem writer_alone_witness:
  "\<exists>(s :: rwlock) (ps :: (nat, unit, unit) rwp list). writerActive s \<and> filter (inside Writing) ps \<noteq> [] \<and> filter (inside Reading) ps = []"
proof -
  let ?p = "section_of Writing 0 :: (nat, unit, unit) rwp"
  have adv: "advance (withWriteLock 0) new_lock = (enter Writing new_lock, ?p)"
    by (simp add: advance_enter fast_def new_lock_def)
  have "rw_step (new_lock, []) (enter Writing new_lock, [] @ [?p])"
    by (rule async_step.start [OF _ adv]) (auto simp: rw_starts_def)
  then have run: "rw_prompt\<^sup>*\<^sup>* (new_lock, []) (enter Writing new_lock, [?p])"
    by (intro r_into_rtranclp) (simp add: rw_prompt_def)
  have "filter (inside Writing) [?p] \<noteq> []" by (simp add: inside_def section_of_await)
  with writer_alone [OF run] have "filter (inside Writing) [?p] \<noteq> [] \<and> filter (inside Reading) [?p] = []" by blast
  moreover have "writerActive (enter Writing new_lock)" by simp
  ultimately show ?thesis by blast
qed

end
