(* ===== verification/JsJson.thy ===== *)
theory JsJson
  imports JsText
begin

text \<open>
  \<open>JSON.stringify\<close> and \<open>JSON.parse\<close> on values whose numbers are whole: the printer, the parser, and that what was
  printed is read back. The parser answers \<open>None\<close> where \<open>JSON.parse\<close> throws, and also on a number with a fraction or
  an exponent. Of repeated keys in an object the last one counts.

  Fuel: \<open>json_value\<close> and its companions take a bound on the depth of their recursion; every second call consumes a
  character, so twice the length of the text is enough, and \<open>json_parse\<close> starts with more.
\<close>

datatype json = JNull | JBool bool | JNum int | JStr jstr | JArr "json list" | JObj "(jstr \<times> json) list"

fun commas :: "jstr list \<Rightarrow> jstr" where
  "commas [] = []"
| "commas [x] = x"
| "commas (x # xs) = x @ 44 # commas xs"

fun json_text :: "json \<Rightarrow> jstr" where
  "json_text JNull = js ''null''"
| "json_text (JBool b) = (if b then js ''true'' else js ''false'')"
| "json_text (JNum n) = js_int n"
| "json_text (JStr s) = json_string s"
| "json_text (JArr xs) = 91 # commas (map json_text xs) @ [93]"
| "json_text (JObj kvs) = 123 # commas (map (\<lambda>kv. json_string (fst kv) @ 58 # json_text (snd kv)) kvs) @ [125]"

text \<open>A number literal without fraction or exponent, and what follows it.\<close>

definition json_number :: "jstr \<Rightarrow> (int \<times> jstr) option" where
  "json_number s = (let (neg, u) = (case s of c # cs \<Rightarrow> if c = 45 then (True, cs) else (False, s) | [] \<Rightarrow> (False, s));
       ds = takeWhile is_digit u; rest = dropWhile is_digit u
     in if ds = [] \<or> (hd ds = 48 \<and> ds \<noteq> [48]) \<or> (rest \<noteq> [] \<and> hd rest \<in> {46, 69, 101}) then None
        else Some (if neg then - int (digits_value ds) else int (digits_value ds), rest))"

definition after_word :: "string \<Rightarrow> json \<Rightarrow> jstr \<Rightarrow> (json \<times> jstr) option" where
  "after_word w v s = (if take (length w) s = js w then Some (v, drop (length w) s) else None)"

fun json_value :: "nat \<Rightarrow> jstr \<Rightarrow> (json \<times> jstr) option"
and json_items :: "nat \<Rightarrow> jstr \<Rightarrow> (json list \<times> jstr) option"
and json_members :: "nat \<Rightarrow> jstr \<Rightarrow> ((jstr \<times> json) list \<times> jstr) option" where
  "json_value 0 s = None"
| "json_value (Suc n) s = (case dropWhile json_space s of
      [] \<Rightarrow> None
    | c # cs \<Rightarrow>
        if c = 34 then map_option (\<lambda>(x, t). (JStr x, t)) (json_literal cs)
        else if c = 91 then (case dropWhile json_space cs of
            [] \<Rightarrow> None
          | d # ds \<Rightarrow> if d = 93 then Some (JArr [], ds) else map_option (\<lambda>(xs, t). (JArr xs, t)) (json_items n (d # ds)))
        else if c = 123 then (case dropWhile json_space cs of
            [] \<Rightarrow> None
          | d # ds \<Rightarrow> if d = 125 then Some (JObj [], ds) else map_option (\<lambda>(kvs, t). (JObj kvs, t)) (json_members n (d # ds)))
        else if c = 110 then after_word ''null'' JNull (c # cs)
        else if c = 116 then after_word ''true'' (JBool True) (c # cs)
        else if c = 102 then after_word ''false'' (JBool False) (c # cs)
        else map_option (\<lambda>(k, t). (JNum k, t)) (json_number (c # cs)))"
| "json_items 0 s = None"
| "json_items (Suc n) s = (case json_value n s of
      None \<Rightarrow> None
    | Some (x, t) \<Rightarrow> (case dropWhile json_space t of
        [] \<Rightarrow> None
      | d # ds \<Rightarrow> if d = 93 then Some ([x], ds)
          else if d = 44 then map_option (\<lambda>(xs, u). (x # xs, u)) (json_items n ds) else None))"
| "json_members 0 s = None"
| "json_members (Suc n) s = (case dropWhile json_space s of
      [] \<Rightarrow> None
    | c # cs \<Rightarrow> if c \<noteq> 34 then None
        else (case json_literal cs of
            None \<Rightarrow> None
          | Some (k, t) \<Rightarrow> (case dropWhile json_space t of
              [] \<Rightarrow> None
            | d # ds \<Rightarrow> if d \<noteq> 58 then None
                else (case json_value n ds of
                    None \<Rightarrow> None
                  | Some (v, u) \<Rightarrow> (case dropWhile json_space u of
                      [] \<Rightarrow> None
                    | e # es \<Rightarrow> if e = 125 then Some ([(k, v)], es)
                        else if e = 44 then map_option (\<lambda>(kvs, w). ((k, v) # kvs, w)) (json_members n es) else None)))))"

definition json_parse :: "jstr \<Rightarrow> json option" where
  "json_parse s = (case json_value (2 * length s + 2) s of
      None \<Rightarrow> None
    | Some (v, t) \<Rightarrow> if list_all json_space t then Some v else None)"

definition json_get :: "(jstr \<times> json) list \<Rightarrow> string \<Rightarrow> json option" where
  "json_get kvs k = map_of (rev kvs) (js k)"

section \<open>What was printed is read back\<close>

lemma dec_digits_lead: "dec_digits n = 48 # ds \<Longrightarrow> ds = []"
proof (induction n arbitrary: ds rule: dec_digits.induct)
  case (1 n)
  show ?case
  proof (cases "n < 10")
    case True
    with 1(2) show ?thesis by (simp add: dec_digits.simps [of n])
  next
    case False
    then obtain c cs where c: "dec_digits (n div 10) = c # cs" by (metis dec_digits_not_Nil neq_Nil_conv)
    with False 1(2) have "c = 48" by (simp add: dec_digits.simps [of n])
    with 1(1) [OF False] c have "dec_digits (n div 10) = [48]" by simp
    then have "n div 10 = 0" using digits_value_dec [of "n div 10"] by (simp add: digits_value_def)
    with False show ?thesis by simp
  qed
qed

text \<open>What may follow a printed value: nothing a number could go on with.\<close>

definition ends_number :: "jstr \<Rightarrow> bool" where
  "ends_number t \<longleftrightarrow> t = [] \<or> (\<not> is_digit (hd t) \<and> hd t \<notin> {46, 69, 101})"

lemma json_number_digits:
  assumes "ends_number t"
  shows "takeWhile is_digit (dec_digits n @ t) = dec_digits n" "dropWhile is_digit (dec_digits n @ t) = t"
  using assms dec_digits_digits [of _ n]
  by (auto simp: ends_number_def takeWhile_append dropWhile_append takeWhile_eq_all_conv dropWhile_eq_Nil_conv
      takeWhile_eq_Nil_iff dropWhile_eq_self_iff)

lemma json_number_int: "ends_number t \<Longrightarrow> json_number (js_int n @ t) = Some (n, t)"
proof -
  assume t: "ends_number t"
  obtain D where D: "D = dec_digits (nat \<bar>n\<bar>)" by simp
  obtain c cs where c: "D = c # cs" unfolding D by (metis dec_digits_not_Nil neq_Nil_conv)
  then have c45: "c \<noteq> 45" using digit_no_space dec_digits_digits [of c "nat \<bar>n\<bar>"] D by (metis list.set_intros(1))
  have zero: "(hd D = 48 \<and> D \<noteq> [48]) = False" using dec_digits_lead [of "nat \<bar>n\<bar>" cs] c D by auto
  have rest: "(t \<noteq> [] \<and> hd t \<in> {46, 69, 101}) = False" using t by (auto simp: ends_number_def)
  have take: "takeWhile is_digit (D @ t) = D" "dropWhile is_digit (D @ t) = t" and val: "int (digits_value D) = \<bar>n\<bar>"
    using json_number_digits [OF t, of "nat \<bar>n\<bar>"] digits_value_dec [of "nat \<bar>n\<bar>"] D by simp_all
  have ne: "(D = []) = False" using c by simp
  have plain: "(case D @ t of c # cs \<Rightarrow> if c = 45 then (True, cs) else (False, D @ t) | [] \<Rightarrow> (False, D @ t)) = (False, D @ t)"
    using c c45 by simp
  show ?thesis
  proof (cases "n < 0")
    case True
    then have "js_int n = 45 # D" using D by (simp add: js_int_def)
    with True val show ?thesis
      unfolding json_number_def by (simp only: append_Cons list.case simp_thms if_True Let_def prod.case take zero rest ne) simp
  next
    case False
    then have "js_int n = D" using D by (simp add: js_int_def)
    with False val show ?thesis
      unfolding json_number_def by (simp only: plain simp_thms Let_def prod.case take zero rest ne) simp
  qed
qed

lemma js_int_first: "\<exists>c cs. js_int n = c # cs \<and> (c = 45 \<or> is_digit c)"
proof -
  obtain c cs where c: "dec_digits (nat \<bar>n\<bar>) = c # cs" by (metis dec_digits_not_Nil neq_Nil_conv)
  then have "is_digit c" using dec_digits_digits [of c "nat \<bar>n\<bar>"] by auto
  with c show ?thesis by (auto simp: js_int_def)
qed

lemma json_value_num: "ends_number t \<Longrightarrow> json_value (Suc n) (js_int k @ t) = Some (JNum k, t)"
proof -
  assume t: "ends_number t"
  obtain c cs where c: "js_int k = c # cs" "c = 45 \<or> is_digit c" using js_int_first by blast
  then have "\<not> json_space c" "c \<notin> {34, 91, 123, 110, 116, 102}" by (auto simp: is_digit_def json_space_def)
  with json_number_int [OF t, of k] c show ?thesis by simp
qed

lemma json_text_first: "\<exists>c cs. json_text v = c # cs \<and> \<not> json_space c \<and> c \<notin> {93, 125}"
proof (cases v)
  case (JNum n)
  then show ?thesis using js_int_first [of n] by (auto simp: is_digit_def json_space_def)
qed (auto simp: json_string_def json_space_def js_def)

lemma ends_number_close: "ends_number (93 # t)" "ends_number (125 # t)" "ends_number (44 # t)" "ends_number []"
  by (auto simp: ends_number_def is_digit_def)

lemma commas_cons: "commas (x # xs) = x @ (if xs = [] then [] else 44 # commas xs)"
  by (cases xs) simp_all

lemma items_text:
  assumes "xs \<noteq> []" "2 * length (commas (map json_text xs)) + 2 \<le> n"
    and "\<And>x m t. x \<in> set xs \<Longrightarrow> 2 * length (json_text x) < m \<Longrightarrow> ends_number t \<Longrightarrow> json_value m (json_text x @ t) = Some (x, t)"
  shows "json_items n (commas (map json_text xs) @ 93 # t) = Some (xs, t)"
  using assms
proof (induction xs arbitrary: n)
  case (Cons x xs)
  from Cons.prems(2) obtain m where n: "n = Suc m" by (cases n) auto
  have m: "2 * length (json_text x) < m" using Cons.prems(2) n by (simp add: commas_cons)
  show ?case
  proof (cases "xs = []")
    case True
    then show ?thesis using Cons.prems(3) [OF _ m ends_number_close(1)] by (simp add: n json_space_def)
  next
    case False
    have "json_items m (commas (map json_text xs) @ 93 # t) = Some (xs, t)"
      by (rule Cons.IH) (use False Cons.prems n in \<open>auto simp: commas_cons\<close>)
    then show ?thesis using Cons.prems(3) [OF _ m ends_number_close(3)] False
      by (simp add: n commas_cons json_space_def)
  qed
qed simp

lemma members_text:
  assumes "kvs \<noteq> []" "2 * length (commas (map (\<lambda>kv. json_string (fst kv) @ 58 # json_text (snd kv)) kvs)) + 2 \<le> n"
    and "\<And>kv m t. kv \<in> set kvs \<Longrightarrow> 2 * length (json_text (snd kv)) < m \<Longrightarrow> ends_number t \<Longrightarrow>
      json_value m (json_text (snd kv) @ t) = Some (snd kv, t)"
  shows "json_members n (commas (map (\<lambda>kv. json_string (fst kv) @ 58 # json_text (snd kv)) kvs) @ 125 # t) = Some (kvs, t)"
  using assms
proof (induction kvs arbitrary: n)
  case (Cons kv kvs)
  obtain k v where kv: "kv = (k, v)" by (cases kv)
  from Cons.prems(2) obtain m where n: "n = Suc m" by (cases n) auto
  have m: "2 * length (json_text v) < m" using Cons.prems(2) n kv by (simp add: commas_cons)
  have val: "json_value m (json_text v @ u) = Some (v, u)" if "ends_number u" for u
    using Cons.prems(3) [of kv m u] m that kv by simp
  show ?case
  proof (cases "kvs = []")
    case True
    then show ?thesis using val [OF ends_number_close(2)]
      by (simp add: n kv json_space_def json_string_def json_literal_string)
  next
    case False
    have "json_members m (commas (map (\<lambda>kv. json_string (fst kv) @ 58 # json_text (snd kv)) kvs) @ 125 # t) = Some (kvs, t)"
      by (rule Cons.IH) (use False Cons.prems n in \<open>auto simp: commas_cons\<close>)
    then show ?thesis using val [OF ends_number_close(3)] False
      by (simp add: n kv commas_cons json_space_def json_string_def json_literal_string)
  qed
qed simp

lemma json_value_text: "2 * length (json_text v) < n \<Longrightarrow> ends_number t \<Longrightarrow> json_value n (json_text v @ t) = Some (v, t)"
proof (induction v arbitrary: n t rule: json_text.induct)
  case 1
  then obtain m where "n = Suc m" by (cases n) auto
  then show ?case by (simp add: js_def json_space_def after_word_def)
next
  case (2 b)
  then obtain m where "n = Suc m" by (cases n) auto
  then show ?case by (simp add: js_def json_space_def after_word_def)
next
  case (3 k)
  then obtain m where "n = Suc m" by (cases n) auto
  with 3 json_value_num show ?case by simp
next
  case (4 s)
  then obtain m where "n = Suc m" by (cases n) auto
  then show ?case by (simp add: json_string_def json_literal_string json_space_def)
next
  case (5 xs)
  then obtain m where n: "n = Suc m" by (cases n) auto
  show ?case
  proof (cases "xs = []")
    case True
    with n show ?thesis by (simp add: json_space_def)
  next
    case False
    then obtain x ys where xs: "xs = x # ys" by (cases xs) auto
    obtain c cs where c: "json_text x = c # cs" "\<not> json_space c" "c \<noteq> 93" using json_text_first [of x] by auto
    have "json_items m (commas (map json_text xs) @ 93 # t) = Some (xs, t)"
      by (rule items_text [OF False]) (use 5 n in auto)
    with n c xs show ?thesis by (simp add: json_space_def commas_cons)
  qed
next
  case (6 kvs)
  then obtain m where n: "n = Suc m" by (cases n) auto
  show ?case
  proof (cases "kvs = []")
    case True
    with n show ?thesis by (simp add: json_space_def)
  next
    case False
    then obtain kv ys where xs: "kvs = kv # ys" by (cases kvs) auto
    have "json_members m (commas (map (\<lambda>kv. json_string (fst kv) @ 58 # json_text (snd kv)) kvs) @ 125 # t) = Some (kvs, t)"
      by (rule members_text [OF False]) (use 6 n in auto)
    with n xs show ?thesis by (simp add: json_space_def commas_cons json_string_def)
  qed
qed

lemma json_parse_text: "json_parse (json_text v) = Some v"
  using json_value_text [of v "2 * length (json_text v) + 2" "[]"] by (simp add: json_parse_def ends_number_close)

section \<open>Text without half characters\<close>

text \<open>A string whose surrogates come in pairs: the strings UTF-8 can write and read back.\<close>

definition high_half :: "nat \<Rightarrow> bool" where "high_half c \<longleftrightarrow> 55296 \<le> c \<and> c < 56320"
definition low_half :: "nat \<Rightarrow> bool" where "low_half c \<longleftrightarrow> 56320 \<le> c \<and> c < 57344"

fun paired :: "jstr \<Rightarrow> bool" where
  "paired [] = True"
| "paired (c # cs) = (if high_half c then (case cs of d # ds \<Rightarrow> low_half d \<and> paired ds | [] \<Rightarrow> False)
     else \<not> low_half c \<and> paired cs)"

lemma paired_append: "paired s \<Longrightarrow> paired t \<Longrightarrow> paired (s @ t)"
  by (induction s rule: paired.induct) (auto split: if_splits list.splits)

lemma paired_small: "list_all (\<lambda>c. c < 55296) s \<Longrightarrow> paired s"
  by (induction s) (auto simp: high_half_def low_half_def)

lemma paired_cons: "c < 55296 \<Longrightarrow> paired (c # t) = paired t"
  by (simp add: high_half_def low_half_def)

lemma hexd_small: "d < 16 \<Longrightarrow> hexd d < 55296"
  by (simp add: hexd_def)

lemma paired_chars: "paired s \<Longrightarrow> paired (concat (map json_char s))"
proof (induction s rule: paired.induct)
  case (2 c cs)
  show ?case
  proof (cases "high_half c")
    case True
    with 2 obtain d ds where d: "cs = d # ds" "low_half d" "paired ds" by (auto split: list.splits)
    have "json_char c = [c]" "json_char d = [d]" using True d(2) by (auto simp: json_char_def high_half_def low_half_def)
    with True d 2 show ?thesis by simp
  next
    case False
    with 2 have "\<not> low_half c" "paired (concat (map json_char cs))" by auto
    moreover have "paired (json_char c)"
      using False \<open>\<not> low_half c\<close> by (auto simp: json_char_def hexd_def high_half_def low_half_def)
    ultimately show ?thesis by (simp add: paired_append)
  qed
qed simp

declare paired.simps(2) [simp del] paired_cons [simp]

lemma paired_json_string: "paired s \<Longrightarrow> paired (json_string s)"
  by (simp add: json_string_def paired_append paired_chars)

lemma paired_js: "paired (js s)"
proof (rule paired_small)
  have "of_char c < (256 :: nat)" for c :: char using of_char_mod_256 [where 'a = nat, of c] by (metis mod_less_divisor zero_less_numeral)
  then have "of_char c < (55296 :: nat)" for c :: char by (rule less_trans) simp
  then show "list_all (\<lambda>c. c < 55296) (js s)" by (auto simp: js_def list_all_iff)
qed

lemma paired_js_int: "paired (js_int n)"
proof (rule paired_small)
  have "c \<in> set (dec_digits k) \<Longrightarrow> c < 55296" for c k using dec_digits_digits [of c k] by (simp add: is_digit_def)
  then show "list_all (\<lambda>c. c < 55296) (js_int n)" by (auto simp: js_int_def list_all_iff)
qed

lemma paired_commas: "(\<And>x. x \<in> set xs \<Longrightarrow> paired x) \<Longrightarrow> paired (commas xs)"
  by (induction xs rule: commas.induct) (simp_all add: paired_append)

text \<open>The strings of a value, its keys among them.\<close>

fun json_paired :: "json \<Rightarrow> bool" where
  "json_paired (JStr s) = paired s"
| "json_paired (JArr xs) = list_all json_paired xs"
| "json_paired (JObj kvs) = list_all (\<lambda>kv. paired (fst kv) \<and> json_paired (snd kv)) kvs"
| "json_paired _ = True"

lemma paired_json_text: "json_paired v \<Longrightarrow> paired (json_text v)"
proof (induction v rule: json_text.induct)
  case (5 xs)
  then have "paired (commas (map json_text xs))" by (intro paired_commas) (auto simp: list_all_iff)
  then show ?case by (simp add: paired_append)
next
  case (6 kvs)
  then have "paired (commas (map (\<lambda>kv. json_string (fst kv) @ 58 # json_text (snd kv)) kvs))"
    by (intro paired_commas) (fastforce simp: list_all_iff paired_append paired_json_string)
  then show ?case by (simp add: paired_append)
qed (simp_all add: paired_js paired_js_int paired_json_string)

end
