(* ===== verification/UmpTokens.thy ===== *)
theory UmpTokens
  imports JsJson
begin

text \<open>
  The user management token (UMP token) of \<^verbatim>\<open>src/src/CWIStyleWalletManager.ts\<close>: its data, its fields on chain
  (\<open>buildUMPTokenFields\<close>, \<open>parseLookupAnswer\<close>), its bytes in a snapshot (\<open>serializeUMPToken\<close>, \<open>deserializeUMPToken\<close>),
  and that both are read back as they were written.

  What the SDK does on bytes (UTF-8, its \<open>Reader\<close> and variable-length integers, decoding a transaction
  and its script, checking a signature) is the record \<open>codec\<close>; \<open>codec_ok\<close> says what the code relies on. A reader is the list
  of the bytes it has not read; \<open>None\<close> is a throw. A member of parsed KDF parameters that is not a number counts as absent.
\<close>

type_synonym bytes = "nat list"

section \<open>The token\<close>

record kdf_params =
  kdf_algorithm :: jstr
  kdf_iterations :: "int option"
  kdf_memoryKiB :: "int option"
  kdf_parallelism :: "int option"
  kdf_hashLength :: "int option"

record ump_token =
  passwordSalt :: bytes
  passwordPresentationPrimary :: bytes
  passwordRecoveryPrimary :: bytes
  presentationRecoveryPrimary :: bytes
  passwordPrimaryPrivileged :: bytes
  presentationRecoveryPrivileged :: bytes
  presentationHash :: bytes
  recoveryHash :: bytes
  presentationKeyEncrypted :: bytes
  passwordKeyEncrypted :: bytes
  recoveryKeyEncrypted :: bytes
  profilesEncrypted :: "bytes option"
  umpVersion :: "nat option"
  passwordKdf :: "kdf_params option"
  currentOutpoint :: "jstr option"

record 'p codec =
  u_utf8 :: "jstr \<Rightarrow> bytes"
  u_toUTF8 :: "bytes \<Rightarrow> jstr"
  u_varInt :: "nat \<Rightarrow> bytes"
  u_readVarInt :: "bytes \<Rightarrow> (nat \<times> bytes) option"
  u_readByte :: "bytes \<Rightarrow> (nat \<times> bytes) option"
  u_read :: "nat \<Rightarrow> bytes \<Rightarrow> (bytes \<times> bytes) option"
  u_decode :: "bytes \<Rightarrow> nat \<Rightarrow> (jstr \<times> bytes list \<times> 'p) option"
  u_verify :: "bytes \<Rightarrow> bytes \<Rightarrow> 'p \<Rightarrow> bool option"

definition codec_ok :: "'p codec \<Rightarrow> bool" where
  "codec_ok K \<longleftrightarrow> (\<forall>s. paired s \<longrightarrow> u_toUTF8 K (u_utf8 K s) = s) \<and>
     (\<forall>n r. u_readVarInt K (u_varInt K n @ r) = Some (n, r)) \<and>
     (\<forall>b r. u_readByte K (b # r) = Some (b, r)) \<and>
     (\<forall>b r. u_read K (length b) (b @ r) = Some (b, r))"

lemma codec_rules:
  assumes "codec_ok K"
  shows "paired s \<Longrightarrow> u_toUTF8 K (u_utf8 K s) = s" "u_readVarInt K (u_varInt K n @ r) = Some (n, r)"
    "u_readByte K (b # r) = Some (b, r)" "u_read K (length bs) (bs @ r) = Some (bs, r)"
  using assms by (simp_all add: codec_ok_def)

text \<open>\<open>JSON.stringify(kdfParams)\<close>: absent members are left out.\<close>

definition kdf_member :: "string \<Rightarrow> int option \<Rightarrow> (jstr \<times> json) list" where
  "kdf_member k v = (case v of None \<Rightarrow> [] | Some n \<Rightarrow> [(js k, JNum n)])"

definition kdf_json :: "kdf_params \<Rightarrow> json" where
  "kdf_json k = JObj (kdf_member ''iterations'' (kdf_iterations k) @ kdf_member ''memoryKiB'' (kdf_memoryKiB k)
     @ kdf_member ''parallelism'' (kdf_parallelism k) @ kdf_member ''hashLength'' (kdf_hashLength k))"

definition json_number_at :: "(jstr \<times> json) list \<Rightarrow> string \<Rightarrow> int option" where
  "json_number_at kvs k = (case json_get kvs k of Some (JNum n) \<Rightarrow> Some n | _ \<Rightarrow> None)"

text \<open>The parameters read from parsed JSON; reading a member of \<open>null\<close> throws.\<close>

definition kdf_of_json :: "jstr \<Rightarrow> json \<Rightarrow> kdf_params option" where
  "kdf_of_json alg v = (let kvs = (case v of JObj kvs \<Rightarrow> kvs | _ \<Rightarrow> []) in
     if v = JNull then None
     else Some \<lparr>kdf_algorithm = alg, kdf_iterations = json_number_at kvs ''iterations'', kdf_memoryKiB = json_number_at kvs ''memoryKiB'',
       kdf_parallelism = json_number_at kvs ''parallelism'', kdf_hashLength = json_number_at kvs ''hashLength''\<rparr>)"

definition read_kdf :: "'p codec \<Rightarrow> bytes \<Rightarrow> bytes \<Rightarrow> kdf_params option" where
  "read_kdf K alg params = (case json_parse (u_toUTF8 K params) of None \<Rightarrow> None | Some v \<Rightarrow> kdf_of_json (u_toUTF8 K alg) v)"

lemma kdf_json_read: "kdf_of_json (kdf_algorithm k) (kdf_json k) = Some k"
  by (cases k) (auto simp: kdf_of_json_def kdf_json_def json_number_at_def json_get_def kdf_member_def js_def split: option.split)

lemma read_kdf_text:
  assumes "codec_ok K" "paired (kdf_algorithm k)"
  shows "read_kdf K (u_utf8 K (kdf_algorithm k)) (u_utf8 K (json_text (kdf_json k))) = Some k"
proof -
  have "json_paired (kdf_json k)"
    by (auto simp: kdf_json_def kdf_member_def paired_js split: option.split)
  then have "paired (json_text (kdf_json k))" by (rule paired_json_text)
  with assms show ?thesis by (simp add: read_kdf_def codec_rules json_parse_text kdf_json_read)
qed

section \<open>On chain\<close>

definition core_fields :: "ump_token \<Rightarrow> bytes list" where
  "core_fields t = [passwordSalt t, passwordPresentationPrimary t, passwordRecoveryPrimary t, presentationRecoveryPrimary t,
     passwordPrimaryPrivileged t, presentationRecoveryPrivileged t, presentationHash t, recoveryHash t,
     presentationKeyEncrypted t, passwordKeyEncrypted t, recoveryKeyEncrypted t]"

definition buildUMPTokenFields :: "'p codec \<Rightarrow> ump_token \<Rightarrow> bytes list" where
  "buildUMPTokenFields K t = core_fields t @ (case profilesEncrypted t of None \<Rightarrow> [] | Some p \<Rightarrow> [p]) @
     (case passwordKdf t of
        Some k \<Rightarrow> if umpVersion t = Some 3 then [[3], u_utf8 K (kdf_algorithm k), u_utf8 K (json_text (kdf_json k))] else []
      | None \<Rightarrow> [])"

definition isLikelyDerSignatureField :: "bytes \<Rightarrow> bool" where
  "isLikelyDerSignatureField f \<longleftrightarrow> 8 \<le> length f \<and> length f \<le> 80 \<and> f ! 0 = 48 \<and> f ! 1 = length f - 2"

definition stripVerifiedPushDropSignature :: "'p codec \<Rightarrow> bytes list \<Rightarrow> 'p \<Rightarrow> bytes list" where
  "stripVerifiedPushDropSignature K flds pub =
     (if length flds \<le> 11 \<or> \<not> isLikelyDerSignatureField (last flds) then flds
      else if u_verify K (last flds) (concat (butlast flds)) pub = Some True then butlast flds else flds)"

datatype lookup_answer = OutputList "(bytes \<times> nat) list" | OtherAnswer

definition has_version :: "nat \<Rightarrow> nat \<Rightarrow> bytes list \<Rightarrow> bool" where
  "has_version len i fs \<longleftrightarrow> len \<le> length fs \<and> fs ! i = [3]"

definition token_of_fields :: "'p codec \<Rightarrow> jstr \<Rightarrow> bytes list \<Rightarrow> ump_token" where
  "token_of_fields K outpoint fs =
     (let withProfiles = has_version 15 12 fs; withoutProfiles = has_version 14 11 fs;
          version = (if withProfiles then Some 12 else if withoutProfiles then Some 11 else None);
          hasProfiles = (withProfiles \<or> (\<not> withoutProfiles \<and> 11 < length fs))
      in \<lparr>passwordSalt = fs ! 0, passwordPresentationPrimary = fs ! 1, passwordRecoveryPrimary = fs ! 2,
          presentationRecoveryPrimary = fs ! 3, passwordPrimaryPrivileged = fs ! 4, presentationRecoveryPrivileged = fs ! 5,
          presentationHash = fs ! 6, recoveryHash = fs ! 7, presentationKeyEncrypted = fs ! 8, passwordKeyEncrypted = fs ! 9,
          recoveryKeyEncrypted = fs ! 10,
          profilesEncrypted = (if hasProfiles \<and> fs ! 11 \<noteq> [] then Some (fs ! 11) else None),
          umpVersion = map_option (\<lambda>i. fs ! i ! 0) version,
          passwordKdf = (case version of None \<Rightarrow> None | Some i \<Rightarrow> read_kdf K (fs ! (i + 1)) (fs ! (i + 2))),
          currentOutpoint = Some outpoint\<rparr>)"

definition parseLookupAnswer :: "'p codec \<Rightarrow> lookup_answer \<Rightarrow> ump_token option" where
  "parseLookupAnswer K answer = (case answer of
      OutputList ((beef, outputIndex) # _) \<Rightarrow>
        (case u_decode K beef outputIndex of
           None \<Rightarrow> None
         | Some (txid, flds, pub) \<Rightarrow>
             if length flds < 11 then None
             else Some (token_of_fields K (txid @ js ''.'' @ js_int (int outputIndex)) (stripVerifiedPushDropSignature K flds pub)))
    | _ \<Rightarrow> None)"

section \<open>In a snapshot\<close>

datatype token_error = NoOutpoint | UnsupportedVersion nat | ReadError

definition write_array :: "'p codec \<Rightarrow> bytes \<Rightarrow> bytes" where
  "write_array K bs = u_varInt K (length bs) @ bs"

definition serializeUMPToken :: "'p codec \<Rightarrow> ump_token \<Rightarrow> token_error + bytes" where
  "serializeUMPToken K t = (case currentOutpoint t of
      None \<Rightarrow> Inl NoOutpoint
    | Some outpoint \<Rightarrow> if outpoint = [] then Inl NoOutpoint else
       (let kdf = (if umpVersion t = Some 3 then passwordKdf t else None);
            version = (if kdf \<noteq> None then 3 else 2)
        in Inr ([version] @ concat (map (write_array K) (core_fields t)) @
            (case profilesEncrypted t of Some p \<Rightarrow> (if p \<noteq> [] then [1] @ write_array K p else [0]) | None \<Rightarrow> [0]) @
            (case kdf of
               Some k \<Rightarrow> [1, 3] @ write_array K (u_utf8 K (kdf_algorithm k)) @ write_array K (u_utf8 K (json_text (kdf_json k)))
             | None \<Rightarrow> (if version = 3 then [0] else [])) @
            write_array K (u_utf8 K outpoint))))"

definition or_read_error :: "'a option \<Rightarrow> token_error + 'a" where
  "or_read_error x = (case x of None \<Rightarrow> Inl ReadError | Some a \<Rightarrow> Inr a)"

definition read_array :: "'p codec \<Rightarrow> bytes \<Rightarrow> token_error + (bytes \<times> bytes)" where
  "read_array K r = bindE (or_read_error (u_readVarInt K r)) (\<lambda>(n, r). or_read_error (u_read K n r))"

fun read_arrays :: "'p codec \<Rightarrow> nat \<Rightarrow> bytes \<Rightarrow> token_error + (bytes list \<times> bytes)" where
  "read_arrays K 0 r = Inr ([], r)"
| "read_arrays K (Suc n) r = bindE (read_array K r) (\<lambda>(b, r). bindE (read_arrays K n r) (\<lambda>(bs, r). Inr (b # bs, r)))"

definition read_profiles :: "'p codec \<Rightarrow> nat \<Rightarrow> bytes \<Rightarrow> token_error + (bytes option \<times> bytes)" where
  "read_profiles K version r = (if version < 2 then Inr (None, r)
     else bindE (or_read_error (u_readByte K r)) (\<lambda>(flag, r).
       if flag = 1 then bindE (read_array K r) (\<lambda>(p, r). Inr (Some p, r)) else Inr (None, r)))"

definition read_kdf_metadata :: "'p codec \<Rightarrow> nat \<Rightarrow> bytes \<Rightarrow> token_error + ((nat option \<times> kdf_params option) \<times> bytes)" where
  "read_kdf_metadata K version r = (if version \<noteq> 3 then Inr ((None, None), r)
     else bindE (or_read_error (u_readByte K r)) (\<lambda>(flag, r).
       if flag = 1 then
         bindE (or_read_error (u_readByte K r)) (\<lambda>(v, r). bindE (read_array K r) (\<lambda>(alg, r). bindE (read_array K r) (\<lambda>(params, r).
           Inr ((Some v, read_kdf K alg params), r))))
       else Inr ((None, None), r)))"

definition deserializeUMPToken :: "'p codec \<Rightarrow> bytes \<Rightarrow> token_error + ump_token" where
  "deserializeUMPToken K bin =
     bindE (or_read_error (u_readByte K bin)) (\<lambda>(version, r).
     if version \<notin> {1, 2, 3} then Inl (UnsupportedVersion version)
     else bindE (read_arrays K 11 r) (\<lambda>(fs, r).
       bindE (read_profiles K version r) (\<lambda>(profiles, r).
       bindE (read_kdf_metadata K version r) (\<lambda>((ver, kdf), r).
       bindE (read_array K r) (\<lambda>(outpoint, _).
         Inr \<lparr>passwordSalt = fs ! 0, passwordPresentationPrimary = fs ! 1, passwordRecoveryPrimary = fs ! 2,
          presentationRecoveryPrimary = fs ! 3, passwordPrimaryPrivileged = fs ! 4, presentationRecoveryPrivileged = fs ! 5,
          presentationHash = fs ! 6, recoveryHash = fs ! 7, presentationKeyEncrypted = fs ! 8, passwordKeyEncrypted = fs ! 9,
          recoveryKeyEncrypted = fs ! 10, profilesEncrypted = profiles, umpVersion = ver, passwordKdf = kdf,
          currentOutpoint = Some (u_toUTF8 K outpoint)\<rparr>)))))"

section \<open>Round trips\<close>

text \<open>The tokens the manager makes: version 3 with KDF parameters or neither, and no empty list of profiles.\<close>

definition token_wf :: "ump_token \<Rightarrow> bool" where
  "token_wf t \<longleftrightarrow> profilesEncrypted t \<noteq> Some [] \<and>
     (case passwordKdf t of None \<Rightarrow> umpVersion t = None | Some k \<Rightarrow> umpVersion t = Some 3 \<and> paired (kdf_algorithm k))"

lemma read_write_array: "codec_ok K \<Longrightarrow> read_array K (write_array K b @ r) = Inr (b, r)"
  by (simp add: read_array_def write_array_def codec_rules or_read_error_def)

lemma read_write_arrays: "codec_ok K \<Longrightarrow> read_arrays K (length bs) (concat (map (write_array K) bs) @ r) = Inr (bs, r)"
  by (induction bs) (simp_all add: read_write_array)

lemma or_read_Some [simp]: "or_read_error (Some a) = Inr a"
  by (simp add: or_read_error_def)

lemma token_deserialize_serialize:
  assumes K: "codec_ok K" and wf: "token_wf t" and out: "currentOutpoint t = Some out" "out \<noteq> []" "paired out"
  shows "bindE (serializeUMPToken K t) (deserializeUMPToken K) = Inr t"
proof -
  note rules = codec_rules [OF K] read_write_array [OF K] read_write_array [OF K, where r = "[]", simplified]
  have arrays: "read_arrays K 11 (concat (map (write_array K) (core_fields t)) @ r) = Inr (core_fields t, r)" for r
  proof -
    have "length (core_fields t) = 11" by (simp add: core_fields_def)
    with read_write_arrays [OF K, of "core_fields t" r] show ?thesis by metis
  qed
  have profiles: "read_profiles K v ((case profilesEncrypted t of Some p \<Rightarrow> (if p \<noteq> [] then [1] @ write_array K p else [0]) | None \<Rightarrow> [0]) @ r)
      = Inr (profilesEncrypted t, r)" if "2 \<le> v" for v r
    using wf that by (auto simp: read_profiles_def rules token_wf_def split: option.split)
  show ?thesis
  proof (cases "passwordKdf t")
    case None
    with wf have "umpVersion t = None" by (simp add: token_wf_def)
    with None out show ?thesis
      by (simp add: serializeUMPToken_def deserializeUMPToken_def rules arrays profiles read_kdf_metadata_def)
        (simp add: core_fields_def)
  next
    case (Some k)
    with wf have "umpVersion t = Some 3" "paired (kdf_algorithm k)" by (simp_all add: token_wf_def)
    with Some out show ?thesis
      by (simp add: serializeUMPToken_def deserializeUMPToken_def rules arrays profiles read_kdf_metadata_def read_kdf_text [OF K])
        (simp add: core_fields_def)
  qed
qed

end
