(* ===== verification/UmpState.thy ===== *)
theory UmpState
  imports Async UmpTokens
begin

text \<open>
  The state of the CWI-style wallet manager (\<^verbatim>\<open>src/src/CWIStyleWalletManager.ts\<close>), what it asks of the outside, and
  its smallest operations.

  Fixed for a manager is the record \<open>cwi\<close>: the SDK's operations on bytes (\<open>codec\<close>), its hash, symmetric cipher, private
  keys and random bytes, and the constructor's arguments. Random bytes and the randomness of a cipher are the
  results of numbered draws; the state counts them. Key derivation, the wrapping of factors by the
  privileged key, the UMP token interactor, the wallet builder and the underlying wallet are requests to the outside.

  A privileged key manager is here what \<open>KeyGuard\<close> shows of it: a key that is held or not. The managers made by \<open>setupRootInfrastructure\<close>
  are numbered, since a call may still run on one that has been replaced; that the timer drops a held key is a move of the world.
\<close>

unbundle bit_operations_syntax

section \<open>Data\<close>

record profile =
  p_name :: jstr
  p_id :: bytes
  p_primaryPad :: bytes
  p_privilegedPad :: bytes
  p_createdAt :: int

datatype auth_mode = PresentationAndPassword | PresentationAndRecovery | RecoveryAndPassword

datatype auth_flow = NewUser | ExistingUser

record 'k key_holder =
  h_oneTime :: "'k option"
  h_held :: "'k option"

record ('k, 'w) cwi =
  authenticated :: bool
  authenticationMode :: auth_mode
  authenticationFlow :: auth_flow
  currentUMPToken :: "ump_token option"
  presentationKey :: "bytes option"
  recoveryKey :: "bytes option"
  rootPrimaryKey :: "bytes option"
  activeProfileId :: bytes
  profiles :: "profile list"
  underlying :: "'w option"
  rootPrivilegedKeyManager :: "nat option"
  holders :: "'k key_holder list"
  draws :: nat

datatype cwi_error = CErr string | COutside jstr | CWrap string cwi_error | CToken token_error

datatype cwi_method = GetPublicKey | RevealCounterpartyKeyLinkage | RevealSpecificKeyLinkage | EncryptM | DecryptM | CreateHmac
  | VerifyHmac | CreateSignature | VerifySignature | CreateActionM | SignAction | AbortAction | ListActionsM | InternalizeAction
  | ListOutputsM | RelinquishOutput | AcquireCertificate | ListCertificates | ProveCertificate | RelinquishCertificate
  | DiscoverByIdentityKey | DiscoverByAttributes | WaitForAuthentication | GetHeight | GetHeaderForHeight | GetNetwork | GetVersion

datatype ('k, 'w, 'x) cwi_req =
    FindByPresentationKeyHash bytes
  | FindByRecoveryKeyHash bytes
  | BuildAndSend 'w ump_token "ump_token option"
  | SaveRecoveryKey bytes
  | RetrievePassword "string option"
  | FundNewWallet "bytes option" 'w
  | BuildWallet bytes "bytes option" bytes
  | Pbkdf2Native bytes bytes int
  | Pbkdf2Wasm bytes bytes int
  | Argon2id bytes bytes int int int int
  | WrapKey 'k nat bytes
  | UnwrapKey 'k bytes
  | CallWallet 'w cwi_method 'x "jstr option"
  | Sleep100

datatype ('w, 'y) cwi_ans = AToken "ump_token option" | AOutpoint jstr | ADone | AText jstr | AWallet 'w | ABytes bytes | AResult 'y

type_synonym ('k, 'w, 'x, 'y, 'a) cwp = "(('k, 'w) cwi, ('k, 'w, 'x) cwi_req, ('w, 'y) cwi_ans, cwi_error, 'a) prog"

record ('p, 'k) cwi_fixed =
  c_codec :: "'p codec"
  c_sha256 :: "bytes \<Rightarrow> bytes"
  c_encrypt :: "bytes \<Rightarrow> nat \<Rightarrow> bytes \<Rightarrow> bytes"
  c_decrypt :: "bytes \<Rightarrow> bytes \<Rightarrow> bytes option"
  c_key :: "bytes \<Rightarrow> 'k"
  c_key_bytes :: "'k \<Rightarrow> bytes"
  c_identity :: "'k \<Rightarrow> jstr"
  c_random :: "nat \<Rightarrow> nat \<Rightarrow> bytes"
  c_subtle :: bool
  c_funder :: bool
  c_admin :: jstr
  c_kdfConfig :: kdf_params

definition PBKDF2_NUM_ROUNDS :: int where "PBKDF2_NUM_ROUNDS = 7777"
definition ARGON2ID_DEFAULT_ITERATIONS :: int where "ARGON2ID_DEFAULT_ITERATIONS = 7"
definition ARGON2ID_DEFAULT_MEMORY_KIB :: int where "ARGON2ID_DEFAULT_MEMORY_KIB = 131072"
definition ARGON2ID_DEFAULT_PARALLELISM :: int where "ARGON2ID_DEFAULT_PARALLELISM = 1"
definition ARGON2ID_DEFAULT_HASH_LENGTH :: int where "ARGON2ID_DEFAULT_HASH_LENGTH = 32"

definition DEFAULT_PROFILE_ID :: bytes where "DEFAULT_PROFILE_ID = replicate 16 0"

text \<open>The constructor: the defaults of the KDF configuration, and the initial state.\<close>

definition or_else :: "'a option \<Rightarrow> 'a \<Rightarrow> 'a" where
  "or_else x d = (case x of None \<Rightarrow> d | Some a \<Rightarrow> a)"

definition default_kdf :: "jstr option \<Rightarrow> int option \<Rightarrow> int option \<Rightarrow> int option \<Rightarrow> int option \<Rightarrow> kdf_params" where
  "default_kdf alg iter mem par len =
     \<lparr>kdf_algorithm = or_else alg (js ''argon2id''), kdf_iterations = Some (or_else iter ARGON2ID_DEFAULT_ITERATIONS),
      kdf_memoryKiB = Some (or_else mem ARGON2ID_DEFAULT_MEMORY_KIB), kdf_parallelism = Some (or_else par ARGON2ID_DEFAULT_PARALLELISM),
      kdf_hashLength = Some (or_else len ARGON2ID_DEFAULT_HASH_LENGTH)\<rparr>"

definition new_cwi :: "('k, 'w) cwi" where
  "new_cwi = \<lparr>authenticated = False, authenticationMode = PresentationAndPassword, authenticationFlow = NewUser,
     currentUMPToken = None, presentationKey = None, recoveryKey = None, rootPrimaryKey = None,
     activeProfileId = DEFAULT_PROFILE_ID, profiles = [], underlying = None, rootPrivilegedKeyManager = None, holders = [], draws = 0\<rparr>"

definition destroy :: "('k, 'w) cwi \<Rightarrow> ('k, 'w) cwi" where
  "destroy s = s\<lparr>underlying := None, rootPrivilegedKeyManager := None, authenticated := False, rootPrimaryKey := None,
     currentUMPToken := None, presentationKey := None, recoveryKey := None, profiles := [],
     activeProfileId := DEFAULT_PROFILE_ID, authenticationMode := PresentationAndPassword, authenticationFlow := NewUser\<rparr>"

section \<open>Bytes and keys\<close>

definition xor_bytes :: "bytes \<Rightarrow> bytes \<Rightarrow> cwi_error + bytes" where
  "xor_bytes n1 n2 = (if length n1 \<noteq> length n2 then Inl (CErr ''XOR length mismatch'') else Inr (map2 (XOR) n1 n2))"

text \<open>\<open>a.every((x, i) => x === b[i])\<close> and \<open>a.every(x => x === 0)\<close>.\<close>

definition every_at :: "bytes \<Rightarrow> bytes \<Rightarrow> bool" where
  "every_at a b \<longleftrightarrow> take (length a) b = a"

definition all_zero :: "bytes \<Rightarrow> bool" where
  "all_zero a \<longleftrightarrow> list_all (\<lambda>x. x = 0) a"

definition liftP :: "'e + 'a \<Rightarrow> ('s, 'q, 'r, 'e, 'a) prog" where
  "liftP x = (case x of Inl e \<Rightarrow> Throw e | Inr a \<Rightarrow> Ret a)"

definition needP :: "('s \<Rightarrow> 'a option) \<Rightarrow> 'e \<Rightarrow> ('s, 'q, 'r, 'e, 'a) prog" where
  "needP f e = bindP (readP f) (\<lambda>x. case x of None \<Rightarrow> Throw e | Some a \<Rightarrow> Ret a)"

definition guardP :: "('s \<Rightarrow> bool) \<Rightarrow> 'e \<Rightarrow> ('s, 'q, 'r, 'e, unit) prog" where
  "guardP P e = bindP (readP P) (\<lambda>b. if b then Ret () else Throw e)"

definition undef :: cwi_error where "undef = CErr ''TypeError''"

definition wrong :: cwi_error where "wrong = CErr ''unexpected answer''"

definition randomP :: "('p, 'k) cwi_fixed \<Rightarrow> nat \<Rightarrow> ('k, 'w, 'x, 'y, bytes) cwp" where
  "randomP M n = Do (\<lambda>s. s\<lparr>draws := draws s + 1\<rparr>) (\<lambda>s. Ret (c_random M (draws s) n))"

definition encryptP :: "('p, 'k) cwi_fixed \<Rightarrow> bytes \<Rightarrow> bytes \<Rightarrow> ('k, 'w, 'x, 'y, bytes) cwp" where
  "encryptP M key text = Do (\<lambda>s. s\<lparr>draws := draws s + 1\<rparr>) (\<lambda>s. Ret (c_encrypt M key (draws s) text))"

definition decryptP :: "('p, 'k) cwi_fixed \<Rightarrow> bytes \<Rightarrow> bytes \<Rightarrow> ('k, 'w, 'x, 'y, bytes) cwp" where
  "decryptP M key cipher = (case c_decrypt M key cipher of None \<Rightarrow> Throw (CErr ''Decryption failed!'') | Some t \<Rightarrow> Ret t)"

fun get_token :: "('w, 'y) cwi_ans \<Rightarrow> ump_token option option" where
  "get_token (AToken t) = Some t" | "get_token _ = None"
fun get_bytes :: "('w, 'y) cwi_ans \<Rightarrow> bytes option" where
  "get_bytes (ABytes b) = Some b" | "get_bytes _ = None"
fun get_outpoint :: "('w, 'y) cwi_ans \<Rightarrow> jstr option" where
  "get_outpoint (AOutpoint p) = Some p" | "get_outpoint _ = None"
fun get_done :: "('w, 'y) cwi_ans \<Rightarrow> unit option" where
  "get_done ADone = Some ()" | "get_done _ = None"
fun get_text :: "('w, 'y) cwi_ans \<Rightarrow> jstr option" where
  "get_text (AText t) = Some t" | "get_text _ = None"
fun get_wallet :: "('w, 'y) cwi_ans \<Rightarrow> 'w option" where
  "get_wallet (AWallet u) = Some u" | "get_wallet _ = None"
fun get_result :: "('w, 'y) cwi_ans \<Rightarrow> 'y option" where
  "get_result (AResult r) = Some r" | "get_result _ = None"

section \<open>Key derivation\<close>

definition pbkdf2NativeOrWasm :: "('p, 'k) cwi_fixed \<Rightarrow> bytes \<Rightarrow> bytes \<Rightarrow> int \<Rightarrow> ('k, 'w, 'x, 'y, bytes) cwp" where
  "pbkdf2NativeOrWasm M password salt iterations =
     (let wasm = awaitP (Pbkdf2Wasm password salt iterations) get_bytes wrong in
      if c_subtle M then catchP (awaitP (Pbkdf2Native password salt iterations) get_bytes wrong) (\<lambda>_. wasm) else wasm)"

definition derivePasswordKey :: "('p, 'k) cwi_fixed \<Rightarrow> bytes \<Rightarrow> kdf_params option \<Rightarrow> bytes \<Rightarrow> ('k, 'w, 'x, 'y, bytes) cwp" where
  "derivePasswordKey M salt kdf password = (case kdf of
      None \<Rightarrow> pbkdf2NativeOrWasm M password salt PBKDF2_NUM_ROUNDS
    | Some k \<Rightarrow>
        if kdf_algorithm k = js ''pbkdf2-sha512'' then pbkdf2NativeOrWasm M password salt (or_else (kdf_iterations k) PBKDF2_NUM_ROUNDS)
        else if kdf_algorithm k = js ''argon2id'' then
          awaitP (Argon2id password salt (or_else (kdf_iterations k) ARGON2ID_DEFAULT_ITERATIONS)
            (or_else (kdf_memoryKiB k) ARGON2ID_DEFAULT_MEMORY_KIB) (or_else (kdf_parallelism k) ARGON2ID_DEFAULT_PARALLELISM)
            (or_else (kdf_hashLength k) ARGON2ID_DEFAULT_HASH_LENGTH)) get_bytes wrong
        else Throw (CErr ''Unsupported KDF algorithm''))"

section \<open>Profiles\<close>

definition bytes_json :: "bytes \<Rightarrow> json" where
  "bytes_json b = JArr (map (\<lambda>n. JNum (int n)) b)"

definition profile_json :: "profile \<Rightarrow> json" where
  "profile_json p = JObj [(js ''name'', JStr (p_name p)), (js ''id'', bytes_json (p_id p)), (js ''primaryPad'', bytes_json (p_primaryPad p)),
     (js ''privilegedPad'', bytes_json (p_privilegedPad p)), (js ''createdAt'', JNum (p_createdAt p))]"

definition byte_of_json :: "json \<Rightarrow> nat option" where
  "byte_of_json v = (case v of JNum n \<Rightarrow> if 0 \<le> n then Some (nat n) else None | _ \<Rightarrow> None)"

fun all_some :: "'a option list \<Rightarrow> 'a list option" where
  "all_some [] = Some []"
| "all_some (x # xs) = (case (x, all_some xs) of (Some a, Some as) \<Rightarrow> Some (a # as) | _ \<Rightarrow> None)"

definition bytes_of_json :: "json option \<Rightarrow> bytes option" where
  "bytes_of_json v = (case v of Some (JArr xs) \<Rightarrow> all_some (map byte_of_json xs) | _ \<Rightarrow> None)"

text \<open>\<open>JSON.parse(...) as Profile[]\<close>: text that is no list of profiles, which the manager never writes, counts as unparsable.\<close>

definition profile_of_json :: "json \<Rightarrow> profile option" where
  "profile_of_json v = (case v of
      JObj kvs \<Rightarrow> (case (json_get kvs ''name'', bytes_of_json (json_get kvs ''id''), bytes_of_json (json_get kvs ''primaryPad''),
          bytes_of_json (json_get kvs ''privilegedPad''), json_get kvs ''createdAt'') of
        (Some (JStr n), Some i, Some a, Some b, Some (JNum c)) \<Rightarrow>
          Some \<lparr>p_name = n, p_id = i, p_primaryPad = a, p_privilegedPad = b, p_createdAt = c\<rparr>
      | _ \<Rightarrow> None)
    | _ \<Rightarrow> None)"

definition profiles_text :: "profile list \<Rightarrow> jstr" where
  "profiles_text ps = json_text (JArr (map profile_json ps))"

definition profiles_parse :: "jstr \<Rightarrow> profile list option" where
  "profiles_parse t = (case json_parse t of Some (JArr vs) \<Rightarrow> all_some (map profile_of_json vs) | _ \<Rightarrow> None)"

lemma all_some_map: "(\<And>x. x \<in> set xs \<Longrightarrow> f (g x) = Some x) \<Longrightarrow> all_some (map (\<lambda>x. f (g x)) xs) = Some xs"
  by (induction xs) auto

lemma bytes_json_read: "bytes_of_json (Some (bytes_json b)) = Some b"
  using all_some_map [of b byte_of_json "\<lambda>n. JNum (int n)"] by (simp add: bytes_of_json_def bytes_json_def byte_of_json_def comp_def)

lemma profile_json_read: "profile_of_json (profile_json p) = Some p"
proof -
  have "json_get [(js ''name'', JStr (p_name p)), (js ''id'', bytes_json (p_id p)), (js ''primaryPad'', bytes_json (p_primaryPad p)),
     (js ''privilegedPad'', bytes_json (p_privilegedPad p)), (js ''createdAt'', JNum (p_createdAt p))] k =
     (if js k = js ''name'' then Some (JStr (p_name p)) else if js k = js ''id'' then Some (bytes_json (p_id p))
      else if js k = js ''primaryPad'' then Some (bytes_json (p_primaryPad p)) else if js k = js ''privilegedPad'' then Some (bytes_json (p_privilegedPad p))
      else if js k = js ''createdAt'' then Some (JNum (p_createdAt p)) else None)" for k
    by (auto simp: json_get_def js_def)
  then show ?thesis by (simp add: profile_of_json_def profile_json_def bytes_json_read) (simp add: js_def)
qed

lemma profiles_read: "profiles_parse (profiles_text ps) = Some ps"
  using all_some_map [of ps profile_of_json profile_json]
  by (simp add: profiles_parse_def profiles_text_def json_parse_text profile_json_read comp_def del: json_text.simps)

lemma profiles_paired: "(\<And>p. p \<in> set ps \<Longrightarrow> paired (p_name p)) \<Longrightarrow> paired (profiles_text ps)"
  unfolding profiles_text_def
  by (rule paired_json_text) (auto simp: list_all_iff profile_json_def bytes_json_def paired_js)

end
