(* ===== verification/UmpWallet.thy ===== *)
theory UmpWallet
  imports UmpState
begin

text \<open>
  The operations of the CWI-style wallet manager as programs, in the order of
  \<^verbatim>\<open>src/src/CWIStyleWalletManager.ts\<close>; what is read at each point is read from the shared state there, since other calls run
  at every \<open>await\<close>.
\<close>

section \<open>Root keys\<close>

definition upd_holder :: "nat \<Rightarrow> ('k key_holder \<Rightarrow> 'k key_holder) \<Rightarrow> ('k, 'w) cwi \<Rightarrow> ('k, 'w) cwi" where
  "upd_holder i f s = s\<lparr>holders := (holders s)[i := f (holders s ! i)]\<rparr>"

text \<open>The key getter of the root manager. In it \<open>unlock_privileged\<close> is what a password, once derived, opens.\<close>

definition unlock_privileged :: "('p, 'k) cwi_fixed \<Rightarrow> bytes \<Rightarrow> ('k, 'w, 'x, 'y, bytes) cwp" where
  "unlock_privileged M password =
     bindP (needP currentUMPToken undef) (\<lambda>t. bindP (derivePasswordKey M (passwordSalt t) (passwordKdf t) password) (\<lambda>derived.
     bindP (needP rootPrimaryKey undef) (\<lambda>root. bindP (liftP (xor_bytes root derived)) (\<lambda>key.
     bindP (needP currentUMPToken undef) (\<lambda>t. decryptP M key (passwordPrimaryPrivileged t))))))"

text \<open>The test passed to the password retriever.\<close>

definition password_test :: "('p, 'k) cwi_fixed \<Rightarrow> jstr \<Rightarrow> ('k, 'w, 'x, 'y, bool) cwp" where
  "password_test M candidate = catchP (bindP (unlock_privileged M (u_utf8 (c_codec M) candidate)) (\<lambda>_. Ret True)) (\<lambda>_. Ret False)"

definition root_key_getter :: "('p, 'k) cwi_fixed \<Rightarrow> nat \<Rightarrow> string option \<Rightarrow> ('k, 'w, 'x, 'y, 'k) cwp" where
  "root_key_getter M i reason = bindP (readP (\<lambda>s. h_oneTime (holders s ! i))) (\<lambda>one. case one of
      Some k \<Rightarrow> bindP (modifyP (upd_holder i (\<lambda>h. h\<lparr>h_oneTime := None\<rparr>))) (\<lambda>_. Ret k)
    | None \<Rightarrow> bindP (awaitP (RetrievePassword reason) get_text wrong) (\<lambda>password.
        bindP (unlock_privileged M (u_utf8 (c_codec M) password)) (\<lambda>key. Ret (c_key M key))))"

text \<open>\<open>PrivilegedKeyManager.getPrivilegedKey\<close>, as \<open>KeyGuard\<close> specifies it.\<close>

definition getPrivilegedKey :: "('p, 'k) cwi_fixed \<Rightarrow> nat \<Rightarrow> string option \<Rightarrow> ('k, 'w, 'x, 'y, 'k) cwp" where
  "getPrivilegedKey M i reason = bindP (readP (\<lambda>s. h_held (holders s ! i))) (\<lambda>held. case held of
      Some k \<Rightarrow> Ret k
    | None \<Rightarrow> bindP (root_key_getter M i reason) (\<lambda>k.
        if length (c_key_bytes M k) > 32 then Throw (CErr ''PrivilegedKeyManager: Expected a 32-byte key, but got more.'')
        else bindP (modifyP (upd_holder i (\<lambda>h. h\<lparr>h_held := Some k\<rparr>))) (\<lambda>_. Ret k)))"

definition load_profiles :: "('p, 'k) cwi_fixed \<Rightarrow> bytes \<Rightarrow> ump_token \<Rightarrow> cwi_error + profile list" where
  "load_profiles M root t = (case profilesEncrypted t of
      None \<Rightarrow> Inr []
    | Some c \<Rightarrow> if c = [] then Inr [] else
        (case c_decrypt M root c of
           None \<Rightarrow> Inl (CErr ''Failed to load profiles'')
         | Some b \<Rightarrow> (case profiles_parse (u_toUTF8 (c_codec M) b) of
             None \<Rightarrow> Inl (CErr ''Failed to load profiles'') | Some ps \<Rightarrow> Inr ps)))"

definition new_holder :: "'k option \<Rightarrow> ('k, 'w) cwi \<Rightarrow> ('k, 'w) cwi" where
  "new_holder one s = s\<lparr>holders := holders s @ [\<lparr>h_oneTime = one, h_held = None\<rparr>],
     rootPrivilegedKeyManager := Some (length (holders s)), profiles := []\<rparr>"

definition setupRootInfrastructure :: "('p, 'k) cwi_fixed \<Rightarrow> bytes \<Rightarrow> bytes option \<Rightarrow> ('k, 'w, 'x, 'y, unit) cwp" where
  "setupRootInfrastructure M root ephemeral =
     bindP (needP currentUMPToken (CErr ''A UMP token must exist before setting up root infrastructure!'')) (\<lambda>t.
     bindP (modifyP (\<lambda>s. new_holder (map_option (c_key M) ephemeral) (s\<lparr>rootPrimaryKey := Some root\<rparr>))) (\<lambda>_.
     bindP (liftP (load_profiles M root t)) (\<lambda>ps. modifyP (\<lambda>s. s\<lparr>profiles := ps, authenticated := True\<rparr>))))"

text \<open>The keys of a profile: the root primary key and no pad for the default profile.\<close>

definition find_profile :: "bytes \<Rightarrow> profile list \<Rightarrow> profile option" where
  "find_profile i ps = find (\<lambda>p. every_at (p_id p) i) ps"

definition profile_keys :: "bytes \<Rightarrow> profile list \<Rightarrow> bytes \<Rightarrow> cwi_error + (bytes \<times> bytes option \<times> bytes)" where
  "profile_keys root ps i = (if all_zero i then Inr (root, None, DEFAULT_PROFILE_ID)
     else case find_profile i ps of
        None \<Rightarrow> Inl (CErr ''Profile not found.'')
      | Some p \<Rightarrow> bindE (xor_bytes root (p_primaryPad p)) (\<lambda>k. Inr (k, Some (p_privilegedPad p), i)))"

definition switchProfile :: "('p, 'k) cwi_fixed \<Rightarrow> bytes \<Rightarrow> ('k, 'w, 'x, 'y, unit) cwp" where
  "switchProfile M i =
     bindP (guardP (\<lambda>s. authenticated s \<and> rootPrimaryKey s \<noteq> None \<and> rootPrivilegedKeyManager s \<noteq> None) (CErr ''Cannot switch profile'')) (\<lambda>_.
     bindP (needP rootPrimaryKey undef) (\<lambda>root. bindP (readP profiles) (\<lambda>ps.
     bindP (liftP (profile_keys root ps i)) (\<lambda>(key, pad, active).
     bindP (modifyP (\<lambda>s. s\<lparr>activeProfileId := active\<rparr>)) (\<lambda>_.
     bindP (awaitP (BuildWallet key pad active) get_wallet wrong) (\<lambda>u. modifyP (\<lambda>s. s\<lparr>underlying := Some u\<rparr>)))))))"

text \<open>The key getter of a profile's privileged key manager, which the wallet built for the profile calls.\<close>

definition profile_key_getter :: "('p, 'k) cwi_fixed \<Rightarrow> bytes option \<Rightarrow> string option \<Rightarrow> ('k, 'w, 'x, 'y, 'k) cwp" where
  "profile_key_getter M pad reason =
     bindP (needP rootPrivilegedKeyManager undef) (\<lambda>i. bindP (getPrivilegedKey M i reason) (\<lambda>root.
     bindP (liftP (case pad of None \<Rightarrow> Inr (c_key_bytes M root) | Some p \<Rightarrow> xor_bytes (c_key_bytes M root) p)) (\<lambda>b. Ret (c_key M b))))"

section \<open>Authentication\<close>

definition providePresentationKey :: "('p, 'k) cwi_fixed \<Rightarrow> bytes \<Rightarrow> ('k, 'w, 'x, 'y, unit) cwp" where
  "providePresentationKey M key =
     bindP (guardP (\<lambda>s. \<not> authenticated s) (CErr ''User is already authenticated'')) (\<lambda>_.
     bindP (guardP (\<lambda>s. authenticationMode s \<noteq> RecoveryAndPassword) (CErr ''Presentation key is not needed in this mode'')) (\<lambda>_.
     bindP (awaitP (FindByPresentationKeyHash (c_sha256 M key)) get_token wrong) (\<lambda>t.
     case t of
       None \<Rightarrow> modifyP (\<lambda>s. s\<lparr>authenticationFlow := NewUser, presentationKey := Some key\<rparr>)
     | Some t \<Rightarrow> modifyP (\<lambda>s. s\<lparr>authenticationFlow := ExistingUser, presentationKey := Some key, currentUMPToken := Some t\<rparr>))))"

definition handleExistingUserPassword :: "('p, 'k) cwi_fixed \<Rightarrow> jstr \<Rightarrow> ('k, 'w, 'x, 'y, unit) cwp" where
  "handleExistingUserPassword M password =
     bindP (needP currentUMPToken (CErr ''Provide presentation or recovery key first.'')) (\<lambda>t.
     bindP (derivePasswordKey M (passwordSalt t) (passwordKdf t) (u_utf8 (c_codec M) password)) (\<lambda>derived.
     bindP (readP authenticationMode) (\<lambda>mode.
     bindP (if mode = PresentationAndPassword then
         bindP (needP presentationKey (CErr ''No presentation key found!'')) (\<lambda>p. bindP (liftP (xor_bytes p derived)) (\<lambda>key.
         bindP (needP currentUMPToken undef) (\<lambda>t. bindP (decryptP M key (passwordPresentationPrimary t)) (\<lambda>root. Ret (root, None)))))
       else
         bindP (needP recoveryKey (CErr ''No recovery key found!'')) (\<lambda>r. bindP (liftP (xor_bytes r derived)) (\<lambda>key.
         bindP (needP currentUMPToken undef) (\<lambda>t. bindP (decryptP M key (passwordRecoveryPrimary t)) (\<lambda>root.
         bindP (liftP (xor_bytes root derived)) (\<lambda>key. bindP (decryptP M key (passwordPrimaryPrivileged t)) (\<lambda>priv.
           Ret (root, Some priv))))))))
     (\<lambda>(root, priv). bindP (setupRootInfrastructure M root priv) (\<lambda>_.
       bindP (readP activeProfileId) (\<lambda>i. switchProfile M i))))))"

text \<open>The fields of a token that wrap the root keys by the factors, in the order their encryptions draw randomness.\<close>

definition wrap_roots :: "('p, 'k) cwi_fixed \<Rightarrow> bytes \<Rightarrow> bytes \<Rightarrow> bytes \<Rightarrow> bytes \<Rightarrow> bytes \<Rightarrow> bytes \<Rightarrow> ('k, 'w, 'x, 'y, ump_token) cwp" where
  "wrap_roots M salt password presentation recovery root priv =
     bindP (liftP (xor_bytes presentation password)) (\<lambda>pp. bindP (liftP (xor_bytes presentation recovery)) (\<lambda>pr.
     bindP (liftP (xor_bytes recovery password)) (\<lambda>rp. bindP (liftP (xor_bytes root password)) (\<lambda>kp.
     bindP (encryptP M pp root) (\<lambda>a. bindP (encryptP M rp root) (\<lambda>b. bindP (encryptP M pr root) (\<lambda>c.
     bindP (encryptP M kp priv) (\<lambda>d. bindP (encryptP M pr priv) (\<lambda>e.
       Ret \<lparr>passwordSalt = salt, passwordPresentationPrimary = a, passwordRecoveryPrimary = b, presentationRecoveryPrimary = c,
         passwordPrimaryPrivileged = d, presentationRecoveryPrivileged = e, presentationHash = c_sha256 M presentation,
         recoveryHash = c_sha256 M recovery, presentationKeyEncrypted = [], passwordKeyEncrypted = [], recoveryKeyEncrypted = [],
         profilesEncrypted = None, umpVersion = None, passwordKdf = None, currentOutpoint = None\<rparr>)))))))))"

definition wrap_factor :: "('p, 'k) cwi_fixed \<Rightarrow> bytes \<Rightarrow> bytes \<Rightarrow> ('k, 'w, 'x, 'y, bytes) cwp" where
  "wrap_factor M priv text = Do (\<lambda>s. s\<lparr>draws := draws s + 1\<rparr>) (\<lambda>s. awaitP (WrapKey (c_key M priv) (draws s) text) get_bytes wrong)"

text \<open>The last two parts of a new user's registration: funding the new wallet, and publishing the token.\<close>

definition fund_new_wallet :: "('p, 'k) cwi_fixed \<Rightarrow> ('k, 'w, 'x, 'y, unit) cwp" where
  "fund_new_wallet M = bindP (readP (\<lambda>s. (presentationKey s, underlying s))) (\<lambda>(p, u). case u of
      None \<Rightarrow> Ret ()
    | Some u \<Rightarrow> if \<not> c_funder M then Ret () else
        catchP (awaitP (FundNewWallet p u) get_done wrong)
          (\<lambda>e. Throw (CWrap ''Failed to fund new wallet before publishing UMP token: '' e)))"

text \<open>\<open>this.currentUMPToken.currentOutpoint = await ...\<close> assigns to the token object of before the \<open>await\<close>, which is found
  again by its value: its salt is random.\<close>

definition set_outpoint :: "ump_token \<Rightarrow> jstr \<Rightarrow> ('k, 'w) cwi \<Rightarrow> ('k, 'w) cwi" where
  "set_outpoint t p s = (if currentUMPToken s = Some t then s\<lparr>currentUMPToken := Some (t\<lparr>currentOutpoint := Some p\<rparr>)\<rparr> else s)"

text \<open>The new keys, and the token that wraps them.\<close>

definition new_user_token :: "('p, 'k) cwi_fixed \<Rightarrow> jstr \<Rightarrow> ('k, 'w, 'x, 'y, bytes \<times> ump_token) cwp" where
  "new_user_token M password =
     bindP (randomP M 32) (\<lambda>recovery. bindP (awaitP (SaveRecoveryKey recovery) get_done wrong) (\<lambda>_.
     bindP (randomP M 32) (\<lambda>salt.
     bindP (derivePasswordKey M salt (Some (c_kdfConfig M)) (u_utf8 (c_codec M) password)) (\<lambda>passwordKey.
     bindP (randomP M 32) (\<lambda>root. bindP (randomP M 32) (\<lambda>priv.
     bindP (needP presentationKey undef) (\<lambda>p. bindP (wrap_roots M salt passwordKey p recovery root priv) (\<lambda>t.
     bindP (wrap_factor M priv p) (\<lambda>pk. bindP (wrap_factor M priv passwordKey) (\<lambda>dk. bindP (wrap_factor M priv recovery) (\<lambda>rk.
       Ret (root, t\<lparr>presentationKeyEncrypted := pk, passwordKeyEncrypted := dk, recoveryKeyEncrypted := rk,
         umpVersion := Some 3, passwordKdf := Some (c_kdfConfig M)\<rparr>))))))))))))"

definition handleNewUserPassword :: "('p, 'k) cwi_fixed \<Rightarrow> jstr \<Rightarrow> ('k, 'w, 'x, 'y, unit) cwp" where
  "handleNewUserPassword M password =
     bindP (guardP (\<lambda>s. authenticationMode s = PresentationAndPassword) (CErr ''New-user flow requires presentation key and password mode.'')) (\<lambda>_.
     bindP (needP presentationKey (CErr ''No presentation key provided for new-user flow.'')) (\<lambda>_.
     bindP (new_user_token M password) (\<lambda>(root, t).
     bindP (modifyP (\<lambda>s. s\<lparr>currentUMPToken := Some t\<rparr>)) (\<lambda>_.
     bindP (setupRootInfrastructure M root None) (\<lambda>_. bindP (switchProfile M DEFAULT_PROFILE_ID) (\<lambda>_.
     bindP (fund_new_wallet M) (\<lambda>_.
     bindP (needP underlying (CErr ''Default profile wallet not built before attempting to publish UMP token.'')) (\<lambda>u.
     bindP (needP currentUMPToken undef) (\<lambda>current.
     bindP (awaitP (BuildAndSend u t None) get_outpoint wrong) (\<lambda>outpoint. modifyP (set_outpoint current outpoint)))))))))))"

definition providePassword :: "('p, 'k) cwi_fixed \<Rightarrow> jstr \<Rightarrow> ('k, 'w, 'x, 'y, unit) cwp" where
  "providePassword M password =
     bindP (guardP (\<lambda>s. \<not> authenticated s) (CErr ''User is already authenticated'')) (\<lambda>_.
     bindP (guardP (\<lambda>s. authenticationMode s \<noteq> PresentationAndRecovery) (CErr ''Password is not needed in this mode'')) (\<lambda>_.
     bindP (readP authenticationFlow) (\<lambda>flow.
       if flow = ExistingUser then handleExistingUserPassword M password else handleNewUserPassword M password)))"

definition provideRecoveryKey :: "('p, 'k) cwi_fixed \<Rightarrow> bytes \<Rightarrow> ('k, 'w, 'x, 'y, unit) cwp" where
  "provideRecoveryKey M key =
     bindP (guardP (\<lambda>s. \<not> authenticated s) (CErr ''Already authenticated'')) (\<lambda>_.
     bindP (guardP (\<lambda>s. \<not> (authenticationFlow s = NewUser \<and> authenticationMode s \<noteq> RecoveryAndPassword)) (CErr ''Do not submit recovery key in new-user flow'')) (\<lambda>_.
     bindP (readP authenticationMode) (\<lambda>mode. case mode of
       PresentationAndPassword \<Rightarrow> Throw (CErr ''No recovery key required in this mode'')
     | RecoveryAndPassword \<Rightarrow>
         bindP (awaitP (FindByRecoveryKeyHash (c_sha256 M key)) get_token wrong) (\<lambda>t. case t of
           None \<Rightarrow> Throw (CErr ''No user found with this recovery key'')
         | Some t \<Rightarrow> modifyP (\<lambda>s. s\<lparr>authenticationFlow := ExistingUser, recoveryKey := Some key, currentUMPToken := Some t\<rparr>))
     | PresentationAndRecovery \<Rightarrow>
         bindP (needP presentationKey (CErr ''Provide the presentation key first'')) (\<lambda>p.
         bindP (needP currentUMPToken (CErr ''Current UMP token not found'')) (\<lambda>t.
         bindP (liftP (xor_bytes p key)) (\<lambda>x.
         bindP (decryptP M x (presentationRecoveryPrimary t)) (\<lambda>root. bindP (decryptP M x (presentationRecoveryPrivileged t)) (\<lambda>priv.
         bindP (setupRootInfrastructure M root (Some priv)) (\<lambda>_.
         bindP (readP activeProfileId) (\<lambda>i. switchProfile M i))))))))))"

section \<open>Snapshots\<close>

definition saveSnapshot :: "('p, 'k) cwi_fixed \<Rightarrow> ('k, 'w, 'x, 'y, bytes) cwp" where
  "saveSnapshot M =
     bindP (readP (\<lambda>s. (rootPrimaryKey s, currentUMPToken s))) (\<lambda>x. case x of
       (Some root, Some t) \<Rightarrow> bindP (randomP M 32) (\<lambda>key.
         bindP (liftP (case serializeUMPToken (c_codec M) t of Inl e \<Rightarrow> Inl (CToken e) | Inr b \<Rightarrow> Inr b)) (\<lambda>token.
         bindP (encryptP M key (root @ u_varInt (c_codec M) (length token) @ token)) (\<lambda>payload.
         bindP (readP activeProfileId) (\<lambda>i. Ret ([2] @ key @ i @ payload)))))
     | _ \<Rightarrow> Throw (CErr ''No root primary key or current UMP token set''))"

definition token_read :: "token_error + 'a \<Rightarrow> cwi_error + 'a" where
  "token_read x = (case x of Inl e \<Rightarrow> Inl (CToken e) | Inr a \<Rightarrow> Inr a)"

text \<open>What is in a snapshot: root primary key, token, active profile.\<close>

definition open_snapshot :: "('p, 'k) cwi_fixed \<Rightarrow> bytes \<Rightarrow> cwi_error + (bytes \<times> ump_token \<times> bytes)" where
  "open_snapshot M snapshot = (let K = c_codec M; rd = (\<lambda>n r. token_read (or_read_error (u_read K n r))) in
     bindE (token_read (or_read_error (u_readByte K snapshot))) (\<lambda>(version, r).
     if version \<noteq> 1 \<and> version \<noteq> 2 then Inl (CErr ''Unsupported snapshot version'')
     else bindE (rd 32 r) (\<lambda>(key, r).
       bindE (if version = 1 then Inr (DEFAULT_PROFILE_ID, r) else rd 16 r) (\<lambda>(i, payload).
       case c_decrypt M key payload of
         None \<Rightarrow> Inl (CErr ''Decryption failed!'')
       | Some plain \<Rightarrow> bindE (rd 32 plain) (\<lambda>(root, r). bindE (token_read (read_array K r)) (\<lambda>(bytes, _).
           bindE (token_read (deserializeUMPToken K bytes)) (\<lambda>t. Inr (root, t, i))))))))"

definition loadSnapshot :: "('p, 'k) cwi_fixed \<Rightarrow> bytes \<Rightarrow> ('k, 'w, 'x, 'y, unit) cwp" where
  "loadSnapshot M snapshot = catchP
     (bindP (liftP (open_snapshot M snapshot)) (\<lambda>(root, t, i).
      bindP (modifyP (\<lambda>s. s\<lparr>currentUMPToken := Some t\<rparr>)) (\<lambda>_.
      bindP (setupRootInfrastructure M root None) (\<lambda>_. bindP (switchProfile M i) (\<lambda>_.
        modifyP (\<lambda>s. s\<lparr>authenticationFlow := ExistingUser\<rparr>))))))
     (\<lambda>e. bindP (modifyP destroy) (\<lambda>_. Throw (CWrap ''Failed to load snapshot: '' e)))"

text \<open>\<open>_init\<close>: a snapshot given to the constructor is loaded, and a failure is swallowed.\<close>

definition init_cwi :: "('p, 'k) cwi_fixed \<Rightarrow> bytes option \<Rightarrow> ('k, 'w, 'x, 'y, unit) cwp" where
  "init_cwi M snapshot = (case snapshot of None \<Rightarrow> Ret () | Some b \<Rightarrow> catchP (loadSnapshot M b) (\<lambda>_. modifyP destroy))"

definition refresh_token :: "ump_token \<Rightarrow> ('k, 'w, 'x, 'y, ump_token option) cwp" where
  "refresh_token t =
     bindP (if presentationHash t \<noteq> [] then awaitP (FindByPresentationKeyHash (presentationHash t)) get_token wrong else Ret None) (\<lambda>r.
       if r = None \<and> recoveryHash t \<noteq> [] then awaitP (FindByRecoveryKeyHash (recoveryHash t)) get_token wrong else Ret r)"

definition syncUMPToken :: "('p, 'k) cwi_fixed \<Rightarrow> ('k, 'w, 'x, 'y, bool) cwp" where
  "syncUMPToken M =
     bindP (guardP (\<lambda>s. authenticated s \<and> currentUMPToken s \<noteq> None \<and> rootPrimaryKey s \<noteq> None) (CErr ''Wallet not authenticated or missing UMP token.'')) (\<lambda>_.
     bindP (needP currentUMPToken undef) (\<lambda>t. bindP (refresh_token t) (\<lambda>r. case r of
       None \<Rightarrow> Ret False
     | Some t' \<Rightarrow>
         if or_else (currentOutpoint t') [] \<noteq> [] \<and> currentOutpoint t' = currentOutpoint t then Ret False
         else bindP (modifyP (\<lambda>s. s\<lparr>currentUMPToken := Some t'\<rparr>)) (\<lambda>_. bindP (needP rootPrimaryKey undef) (\<lambda>root.
           bindP (setupRootInfrastructure M root None) (\<lambda>_. bindP (saveSnapshot M) (\<lambda>_. Ret True)))))))"

section \<open>Factors\<close>

datatype factor = PasswordKey | PresentationKey | RecoveryKey | PrivilegedKey

fun factor_cipher :: "factor \<Rightarrow> ump_token \<Rightarrow> bytes" where
  "factor_cipher PasswordKey t = passwordKeyEncrypted t"
| "factor_cipher PresentationKey t = presentationKeyEncrypted t"
| "factor_cipher RecoveryKey t = recoveryKeyEncrypted t"
| "factor_cipher PrivilegedKey t = []"

text \<open>\<open>PrivilegedKeyManager.decrypt\<close> of a factor: its argument is read before the key is fetched.\<close>

definition getFactor :: "('p, 'k) cwi_fixed \<Rightarrow> factor \<Rightarrow> ('k, 'w, 'x, 'y, bytes) cwp" where
  "getFactor M f =
     bindP (guardP (\<lambda>s. authenticated s \<and> currentUMPToken s \<noteq> None \<and> rootPrivilegedKeyManager s \<noteq> None) (CErr ''Cannot get factor'')) (\<lambda>_.
     bindP (needP currentUMPToken undef) (\<lambda>t. bindP (needP rootPrivilegedKeyManager undef) (\<lambda>i.
     catchP (if f = PrivilegedKey then bindP (getPrivilegedKey M i (Some ''UMP token update'')) (\<lambda>k. Ret (c_key_bytes M k))
       else bindP (getPrivilegedKey M i None) (\<lambda>k. awaitP (UnwrapKey k (factor_cipher f t)) get_bytes wrong))
     (\<lambda>e. Throw (CWrap ''Failed to decrypt factor: '' e)))))"

definition publish :: "('p, 'k) cwi_fixed \<Rightarrow> ump_token \<Rightarrow> ump_token \<Rightarrow> ('k, 'w, 'x, 'y, unit) cwp" where
  "publish M t old =
     bindP (readP activeProfileId) (\<lambda>active.
     bindP (whenP (\<not> all_zero active) (switchProfile M DEFAULT_PROFILE_ID)) (\<lambda>_.
     bindP (needP underlying (CErr ''Default profile wallet could not be activated for UMP token update.'')) (\<lambda>u.
     finallyP
       (bindP (awaitP (BuildAndSend u t (Some old)) get_outpoint wrong) (\<lambda>outpoint.
          modifyP (\<lambda>s. s\<lparr>currentUMPToken := Some (t\<lparr>currentOutpoint := Some outpoint\<rparr>)\<rparr>)))
       (whenP (\<not> all_zero active) (switchProfile M active)))))"

definition updateAuthFactors :: "('p, 'k) cwi_fixed \<Rightarrow> bytes \<Rightarrow> bytes \<Rightarrow> bytes \<Rightarrow> bytes \<Rightarrow> bytes \<Rightarrow> bytes \<Rightarrow> profile list \<Rightarrow> ('k, 'w, 'x, 'y, unit) cwp" where
  "updateAuthFactors M salt password presentation recovery root priv ps =
     bindP (guardP (\<lambda>s. authenticated s \<and> rootPrimaryKey s \<noteq> None \<and> currentUMPToken s \<noteq> None) (CErr ''Wallet is not properly authenticated or missing data for update.'')) (\<lambda>_.
     bindP (needP currentUMPToken undef) (\<lambda>old.
     if or_else (currentOutpoint old) [] = [] then Throw (CErr ''Cannot update UMP token: Old token has no outpoint.'')
     else
     bindP (liftP (xor_bytes presentation password)) (\<lambda>_. bindP (liftP (xor_bytes presentation recovery)) (\<lambda>_.
     bindP (liftP (xor_bytes recovery password)) (\<lambda>_. bindP (liftP (xor_bytes root password)) (\<lambda>_.
     bindP (if ps = [] then Ret None else bindP (encryptP M root (u_utf8 (c_codec M) (profiles_text ps))) (\<lambda>c. Ret (Some c))) (\<lambda>prof.
     bindP (wrap_roots M salt password presentation recovery root priv) (\<lambda>t.
     bindP (wrap_factor M priv presentation) (\<lambda>pk. bindP (wrap_factor M priv password) (\<lambda>dk. bindP (wrap_factor M priv recovery) (\<lambda>rk.
       publish M (t\<lparr>presentationKeyEncrypted := pk, passwordKeyEncrypted := dk, recoveryKeyEncrypted := rk, profilesEncrypted := prof,
           umpVersion := (if passwordKdf old = None then None else Some 3), passwordKdf := passwordKdf old\<rparr>) old)))))))))))"

definition ready_for_update :: "('k, 'w) cwi \<Rightarrow> bool" where
  "ready_for_update s \<longleftrightarrow> authenticated s \<and> rootPrimaryKey s \<noteq> None \<and> currentUMPToken s \<noteq> None \<and> rootPrivilegedKeyManager s \<noteq> None"

definition changePassword :: "('p, 'k) cwi_fixed \<Rightarrow> jstr \<Rightarrow> ('k, 'w, 'x, 'y, unit) cwp" where
  "changePassword M newPassword =
     bindP (guardP ready_for_update (CErr ''Not authenticated or missing required data.'')) (\<lambda>_.
     bindP (randomP M 32) (\<lambda>salt. bindP (needP currentUMPToken undef) (\<lambda>t.
     bindP (derivePasswordKey M salt (Some (or_else (passwordKdf t) (c_kdfConfig M))) (u_utf8 (c_codec M) newPassword)) (\<lambda>password.
     bindP (getFactor M RecoveryKey) (\<lambda>recovery. bindP (getFactor M PresentationKey) (\<lambda>presentation. bindP (getFactor M PrivilegedKey) (\<lambda>priv.
     bindP (needP rootPrimaryKey undef) (\<lambda>root. bindP (readP profiles) (\<lambda>ps.
       updateAuthFactors M salt password presentation recovery root priv ps)))))))))"

definition getRecoveryKey :: "('p, 'k) cwi_fixed \<Rightarrow> ('k, 'w, 'x, 'y, bytes) cwp" where
  "getRecoveryKey M = bindP (guardP (\<lambda>s. authenticated s \<and> currentUMPToken s \<noteq> None \<and> rootPrivilegedKeyManager s \<noteq> None)
     (CErr ''Not authenticated or missing required data.'')) (\<lambda>_. getFactor M RecoveryKey)"

definition changeRecoveryKey :: "('p, 'k) cwi_fixed \<Rightarrow> ('k, 'w, 'x, 'y, unit) cwp" where
  "changeRecoveryKey M =
     bindP (guardP ready_for_update (CErr ''Not authenticated or missing required data.'')) (\<lambda>_.
     bindP (getFactor M PasswordKey) (\<lambda>password. bindP (getFactor M PresentationKey) (\<lambda>presentation. bindP (getFactor M PrivilegedKey) (\<lambda>priv.
     bindP (randomP M 32) (\<lambda>recovery. bindP (awaitP (SaveRecoveryKey recovery) get_done wrong) (\<lambda>_.
     bindP (needP currentUMPToken undef) (\<lambda>t. bindP (needP rootPrimaryKey undef) (\<lambda>root. bindP (readP profiles) (\<lambda>ps.
       updateAuthFactors M (passwordSalt t) password presentation recovery root priv ps)))))))))"

definition changePresentationKey :: "('p, 'k) cwi_fixed \<Rightarrow> bytes \<Rightarrow> ('k, 'w, 'x, 'y, unit) cwp" where
  "changePresentationKey M newKey =
     bindP (guardP ready_for_update (CErr ''Not authenticated or missing required data.'')) (\<lambda>_.
     if length newKey \<noteq> 32 then Throw (CErr ''Presentation key must be 32 bytes.'')
     else bindP (getFactor M RecoveryKey) (\<lambda>recovery. bindP (getFactor M PasswordKey) (\<lambda>password. bindP (getFactor M PrivilegedKey) (\<lambda>priv.
     bindP (needP currentUMPToken undef) (\<lambda>t. bindP (needP rootPrimaryKey undef) (\<lambda>root. bindP (readP profiles) (\<lambda>ps.
     bindP (updateAuthFactors M (passwordSalt t) password newKey recovery root priv ps) (\<lambda>_.
       modifyP (\<lambda>s. if presentationKey s \<noteq> None then s\<lparr>presentationKey := Some newKey\<rparr> else s)))))))))"

section \<open>Profiles\<close>

text \<open>What \<open>addProfile\<close> and \<open>deleteProfile\<close> end with: the token is rewritten with the current list. The salt is read before the first \<open>await\<close>.\<close>

definition rewrite_profiles :: "('p, 'k) cwi_fixed \<Rightarrow> ('k, 'w, 'x, 'y, unit) cwp" where
  "rewrite_profiles M =
     bindP (needP currentUMPToken undef) (\<lambda>t.
     bindP (getFactor M PasswordKey) (\<lambda>password. bindP (getFactor M PresentationKey) (\<lambda>presentation. bindP (getFactor M RecoveryKey) (\<lambda>recovery.
     bindP (needP rootPrimaryKey undef) (\<lambda>root. bindP (getFactor M PrivilegedKey) (\<lambda>priv. bindP (readP profiles) (\<lambda>ps.
       updateAuthFactors M (passwordSalt t) password presentation recovery root priv ps)))))))"

definition listProfiles :: "('p, 'k) cwi_fixed \<Rightarrow> ('k, 'w, 'x, 'y, (bytes \<times> jstr \<times> int option \<times> bool \<times> jstr) list) cwp" where
  "listProfiles M =
     bindP (guardP authenticated (CErr ''Not authenticated.'')) (\<lambda>_.
     bindP (readP (\<lambda>s. (activeProfileId s, profiles s))) (\<lambda>(active, ps). bindP (needP rootPrimaryKey undef) (\<lambda>root.
     bindP (liftP (mapE (\<lambda>p. bindE (xor_bytes root (p_primaryPad p)) (\<lambda>k.
         Inr (p_id p, p_name p, Some (p_createdAt p), every_at active (p_id p), c_identity M (c_key M k)))) ps)) (\<lambda>rest.
       Ret ((DEFAULT_PROFILE_ID, js ''default'', None, all_zero active, c_identity M (c_key M root)) # rest)))))"

text \<open>\<open>lower\<close>: \<open>String.prototype.toLowerCase\<close>; \<open>now\<close>: \<open>Date.now()\<close>.\<close>

definition name_taken :: "(jstr \<Rightarrow> jstr) \<Rightarrow> jstr \<Rightarrow> profile list \<Rightarrow> bool" where
  "name_taken lower name ps \<longleftrightarrow> name = js ''default'' \<or> list_ex (\<lambda>p. lower (p_name p) = lower name) ps"

definition addProfile :: "('p, 'k) cwi_fixed \<Rightarrow> (jstr \<Rightarrow> jstr) \<Rightarrow> int \<Rightarrow> jstr \<Rightarrow> ('k, 'w, 'x, 'y, bytes) cwp" where
  "addProfile M lower now name =
     bindP (guardP ready_for_update (CErr ''Wallet not fully initialized or authenticated.'')) (\<lambda>_.
     bindP (guardP (\<lambda>s. \<not> name_taken lower name (profiles s)) (CErr ''Profile name is already in use.'')) (\<lambda>_.
     bindP (randomP M 16) (\<lambda>i. bindP (randomP M 32) (\<lambda>a. bindP (randomP M 32) (\<lambda>b.
     bindP (modifyP (\<lambda>s. s\<lparr>profiles := profiles s @ [\<lparr>p_name = name, p_id = i, p_primaryPad = a, p_privilegedPad = b,
        p_createdAt = now div 1000\<rparr>]\<rparr>)) (\<lambda>_. bindP (rewrite_profiles M) (\<lambda>_. Ret i)))))))"

fun remove_at :: "nat \<Rightarrow> 'a list \<Rightarrow> 'a list" where
  "remove_at n xs = take n xs @ drop (Suc n) xs"

fun find_index :: "('a \<Rightarrow> bool) \<Rightarrow> 'a list \<Rightarrow> nat option" where
  "find_index P [] = None"
| "find_index P (x # xs) = (if P x then Some 0 else map_option Suc (find_index P xs))"

definition deleteProfile :: "('p, 'k) cwi_fixed \<Rightarrow> bytes \<Rightarrow> ('k, 'w, 'x, 'y, unit) cwp" where
  "deleteProfile M i =
     bindP (guardP ready_for_update (CErr ''Wallet not fully initialized or authenticated.'')) (\<lambda>_.
     if all_zero i then Throw (CErr ''Cannot delete the default profile.'')
     else bindP (needP (\<lambda>s. find_index (\<lambda>p. every_at (p_id p) i) (profiles s)) (CErr ''Profile not found.'')) (\<lambda>n.
     bindP (modifyP (\<lambda>s. s\<lparr>profiles := remove_at n (profiles s)\<rparr>)) (\<lambda>_.
     bindP (readP (\<lambda>s. every_at (activeProfileId s) i)) (\<lambda>active.
     bindP (whenP active (switchProfile M DEFAULT_PROFILE_ID)) (\<lambda>_. rewrite_profiles M)))))"

section \<open>The wallet's methods\<close>

definition checkAuthAndUnderlying :: "('p, 'k) cwi_fixed \<Rightarrow> jstr option \<Rightarrow> ('k, 'w, 'x, 'y, unit) cwp" where
  "checkAuthAndUnderlying M originator =
     bindP (guardP authenticated (CErr ''User is not authenticated.'')) (\<lambda>_.
     bindP (guardP (\<lambda>s. underlying s \<noteq> None) (CErr ''Underlying wallet for the active profile is not initialized.'')) (\<lambda>_.
     if originator = Some (c_admin M) then Throw (CErr ''External applications are not allowed to use the admin originator.'') else Ret ()))"

definition cwi_forward :: "('p, 'k) cwi_fixed \<Rightarrow> cwi_method \<Rightarrow> 'x \<Rightarrow> jstr option \<Rightarrow> ('k, 'w, 'x, 'y, 'y) cwp" where
  "cwi_forward M m args originator =
     bindP (checkAuthAndUnderlying M originator) (\<lambda>_. bindP (needP underlying undef) (\<lambda>u.
       awaitP (CallWallet u m args originator) get_result wrong))"

definition cwi_isAuthenticated :: "('p, 'k) cwi_fixed \<Rightarrow> jstr option \<Rightarrow> ('k, 'w, 'x, 'y, bool) cwp" where
  "cwi_isAuthenticated M originator =
     bindP (guardP authenticated (CErr ''User is not authenticated.'')) (\<lambda>_.
     if originator = Some (c_admin M) then Throw (CErr ''External applications are not allowed to use the admin originator.'') else Ret True)"

text \<open>\<open>waitForAuthentication\<close> polls; \<open>n\<close> bounds the polls looked at, \<open>None\<close>: still polling.\<close>

primrec poll_authenticated :: "nat \<Rightarrow> ('k, 'w, 'x, 'y, 'w option) cwp" where
  "poll_authenticated 0 = Ret None"
| "poll_authenticated (Suc n) = bindP (readP (\<lambda>s. if authenticated s then underlying s else None)) (\<lambda>u. case u of
      Some u \<Rightarrow> Ret (Some u)
    | None \<Rightarrow> bindP (awaitP Sleep100 get_done wrong) (\<lambda>_. poll_authenticated n))"

definition cwi_waitForAuthentication :: "('p, 'k) cwi_fixed \<Rightarrow> nat \<Rightarrow> 'x \<Rightarrow> jstr option \<Rightarrow> ('k, 'w, 'x, 'y, 'y option) cwp" where
  "cwi_waitForAuthentication M n args originator =
     (if originator = Some (c_admin M) then Throw (CErr ''External applications are not allowed to use the admin originator.'')
      else bindP (poll_authenticated n) (\<lambda>u. case u of
        None \<Rightarrow> Ret None
      | Some u \<Rightarrow> bindP (awaitP (CallWallet u WaitForAuthentication args originator) get_result wrong) (\<lambda>r. Ret (Some r))))"

end
