(* ===== verification/UmpRuns.thy ===== *)
theory UmpRuns
  imports UmpWallet
begin

text \<open>
  What the programs of the wallet manager do when they run alone with an outside that answers as \<open>w\<close>
  (\<open>serve w\<close> of \<open>Async\<close>): the lemmas the properties of \<open>UmpProps\<close> rest on.

  \<open>crypto_ok\<close> is what is relied on of the SDK: what a cipher encrypted it decrypts, a ciphertext is not empty, and random bytes have the length asked for. Of the outside:
  \<open>wraps_ok\<close>, that the privileged key unwraps what it wrapped, and \<open>builds\<close>, that the wallet builder builds.
  \<open>token_opens\<close> is the meaning of a token: which two of the three factors open which root key.
\<close>

type_synonym ('k, 'w, 'x, 'y) world = "('k, 'w, 'x) cwi_req \<Rightarrow> cwi_error + ('w, 'y) cwi_ans"

definition crypto_ok :: "('p, 'k) cwi_fixed \<Rightarrow> bool" where
  "crypto_ok M \<longleftrightarrow> codec_ok (c_codec M) \<and> (\<forall>k n t. c_decrypt M k (c_encrypt M k n t) = Some t \<and> c_encrypt M k n t \<noteq> []) \<and>
     (\<forall>n k. length (c_random M n k) = k)"

definition wraps_ok :: "('p, 'k) cwi_fixed \<Rightarrow> ('k, 'w, 'x, 'y) world \<Rightarrow> bool" where
  "wraps_ok M w \<longleftrightarrow> (\<forall>k n t. \<exists>c. w (WrapKey k n t) = Inr (ABytes c) \<and> w (UnwrapKey k c) = Inr (ABytes t))"

definition builds :: "('k, 'w, 'x, 'y) world \<Rightarrow> bool" where
  "builds w \<longleftrightarrow> (\<forall>k pad i. \<exists>u. w (BuildWallet k pad i) = Inr (AWallet u))"

text \<open>The password with those parameters derives \<open>d\<close>, whatever the state.\<close>

definition derives :: "('p, 'k) cwi_fixed \<Rightarrow> ('k, 'w, 'x, 'y) world \<Rightarrow> bytes \<Rightarrow> kdf_params option \<Rightarrow> jstr \<Rightarrow> bytes \<Rightarrow> bool" where
  "derives M w salt kdf password d \<longleftrightarrow>
     (\<forall>s. serve w (derivePasswordKey M salt kdf (u_utf8 (c_codec M) password) :: ('k, 'w, 'x, 'y, bytes) cwp) s = (Some (Inr d), s))"

definition opens :: "('p, 'k) cwi_fixed \<Rightarrow> bytes \<Rightarrow> bytes \<Rightarrow> bytes \<Rightarrow> bytes \<Rightarrow> bool" where
  "opens M a b cipher text \<longleftrightarrow> (\<exists>k. xor_bytes a b = Inr k \<and> c_decrypt M k cipher = Some text)"

text \<open>Presentation key \<open>p\<close>, recovery key \<open>r\<close>, password key \<open>d\<close>, root primary key \<open>R\<close> and root privileged key \<open>V\<close>.\<close>

datatype secrets = Secrets (f_presentation: bytes) (f_recovery: bytes) (f_password: bytes) (f_primary: bytes) (f_privileged: bytes)

text \<open>The root keys are wrapped by the factors; and the factors by the root privileged key.\<close>

fun roots_open :: "('p, 'k) cwi_fixed \<Rightarrow> ump_token \<Rightarrow> secrets \<Rightarrow> bool" where
  "roots_open M t (Secrets p r d R V) \<longleftrightarrow>
     opens M p d (passwordPresentationPrimary t) R \<and> opens M r d (passwordRecoveryPrimary t) R \<and>
     opens M p r (presentationRecoveryPrimary t) R \<and> opens M R d (passwordPrimaryPrivileged t) V \<and>
     opens M p r (presentationRecoveryPrivileged t) V \<and>
     presentationHash t = c_sha256 M p \<and> recoveryHash t = c_sha256 M r"

definition token_opens :: "('p, 'k) cwi_fixed \<Rightarrow> ('k, 'w, 'x, 'y) world \<Rightarrow> ump_token \<Rightarrow> secrets \<Rightarrow> bool" where
  "token_opens M w t x \<longleftrightarrow> roots_open M t x \<and>
     (let V = c_key M (f_privileged x) in
      w (UnwrapKey V (presentationKeyEncrypted t)) = Inr (ABytes (f_presentation x)) \<and>
      w (UnwrapKey V (passwordKeyEncrypted t)) = Inr (ABytes (f_password x)) \<and>
      w (UnwrapKey V (recoveryKeyEncrypted t)) = Inr (ABytes (f_recovery x)))"

definition all_32 :: "secrets \<Rightarrow> bool" where
  "all_32 x \<longleftrightarrow> length (f_presentation x) = 32 \<and> length (f_recovery x) = 32 \<and> length (f_password x) = 32 \<and> length (f_primary x) = 32"

section \<open>Small programs\<close>

named_theorems run_simps

lemma serve_liftP [run_simps]: "serve w (liftP x) s = (Some x, s)"
  by (cases x) (simp_all add: liftP_def)

lemma serve_needP [run_simps]: "serve w (needP f e) s = (Some (case f s of None \<Rightarrow> Inl e | Some a \<Rightarrow> Inr a), s)"
  by (cases "f s") (simp_all add: needP_def serve_bind)

lemma serve_guardP [run_simps]: "serve w (guardP P e) s = (Some (if P s then Inr () else Inl e), s)"
  by (simp add: guardP_def serve_bind)

lemma serve_randomP [run_simps]: "serve w (randomP M n) s = (Some (Inr (c_random M (draws s) n)), s\<lparr>draws := draws s + 1\<rparr>)"
  by (simp add: randomP_def)

lemma serve_encryptP [run_simps]:
  "serve w (encryptP M key t) s = (Some (Inr (c_encrypt M key (draws s) t)), s\<lparr>draws := draws s + 1\<rparr>)"
  by (simp add: encryptP_def)

lemma serve_decryptP [run_simps]:
  "serve w (decryptP M key c) s = (Some (case c_decrypt M key c of None \<Rightarrow> Inl (CErr ''Decryption failed!'') | Some t \<Rightarrow> Inr t), s)"
  by (simp add: decryptP_def split: option.split)

lemma serve_await [run_simps]: "serve w (awaitP q get bad) s =
    (Some (case w q of Inl e \<Rightarrow> Inl e | Inr r \<Rightarrow> (case get r of None \<Rightarrow> Inl bad | Some a \<Rightarrow> Inr a)), s)"
  by (simp add: awaitP_def split: sum.split option.split)

lemma serve_whenP [run_simps]: "serve w (whenP b p) s = (if b then serve w p s else (Some (Inr ()), s))"
  by (simp add: whenP_def)

lemma serve_finallyP [run_simps]:
  "serve w (finallyP p c) s = (case serve w p s of
     (None, t) \<Rightarrow> (None, t)
   | (Some r, t) \<Rightarrow> (case serve w c t of (Some (Inr _), u) \<Rightarrow> (Some r, u) | (Some (Inl e), u) \<Rightarrow> (Some (Inl e), u) | (None, u) \<Rightarrow> (None, u)))"
  by (auto simp: finallyP_def serve_bind serve_catch split: prod.split option.split sum.split)

lemmas [run_simps] = serve_bind serve_catch

lemma xor_32: "length a = length b \<Longrightarrow> xor_bytes a b = Inr (map2 (XOR) a b)"
  by (simp add: xor_bytes_def)

lemma xor_twice: "length a = length b \<Longrightarrow> map2 (XOR) (map2 (XOR) a b) b = (a :: nat list)"
  by (induction a b rule: list_induct2) (simp_all add: ac_simps)

lemma xor_involution: "length a = length b \<Longrightarrow> bindE (xor_bytes a b) (\<lambda>c. xor_bytes c b) = Inr a"
  by (simp add: xor_bytes_def xor_twice)

section \<open>Setting up, and switching profiles\<close>

definition after_setup :: "('p, 'k) cwi_fixed \<Rightarrow> bytes \<Rightarrow> bytes option \<Rightarrow> profile list \<Rightarrow> ('k, 'w) cwi \<Rightarrow> ('k, 'w) cwi" where
  "after_setup M root priv ps s = (new_holder (map_option (c_key M) priv) (s\<lparr>rootPrimaryKey := Some root\<rparr>))\<lparr>profiles := ps, authenticated := True\<rparr>"

lemma serve_setup:
  assumes "currentUMPToken s = Some t" "load_profiles M root t = Inr ps"
  shows "serve w (setupRootInfrastructure M root priv) s = (Some (Inr ()), after_setup M root priv ps s)"
  using assms by (simp add: setupRootInfrastructure_def after_setup_def run_simps)

lemma after_setup_simps [simp]:
  "rootPrimaryKey (after_setup M root priv ps s) = Some root" "profiles (after_setup M root priv ps s) = ps"
  "authenticated (after_setup M root priv ps s)" "currentUMPToken (after_setup M root priv ps s) = currentUMPToken s"
  "activeProfileId (after_setup M root priv ps s) = activeProfileId s" "rootPrivilegedKeyManager (after_setup M root priv ps s) = Some (length (holders s))"
  "holders (after_setup M root priv ps s) = holders s @ [\<lparr>h_oneTime = map_option (c_key M) priv, h_held = None\<rparr>]"
  "authenticationFlow (after_setup M root priv ps s) = authenticationFlow s" "underlying (after_setup M root priv ps s) = underlying s"
  "presentationKey (after_setup M root priv ps s) = presentationKey s" "recoveryKey (after_setup M root priv ps s) = recoveryKey s"
  "authenticationMode (after_setup M root priv ps s) = authenticationMode s" "draws (after_setup M root priv ps s) = draws s"
  by (simp_all add: after_setup_def new_holder_def)

definition switched :: "bytes \<Rightarrow> 'w \<Rightarrow> ('k, 'w) cwi \<Rightarrow> ('k, 'w) cwi" where
  "switched i u s = s\<lparr>activeProfileId := i, underlying := Some u\<rparr>"

lemma switched_simps [simp]:
  "rootPrimaryKey (switched i u s) = rootPrimaryKey s" "profiles (switched i u s) = profiles s"
  "authenticated (switched i u s) = authenticated s" "currentUMPToken (switched i u s) = currentUMPToken s"
  "activeProfileId (switched i u s) = i" "rootPrivilegedKeyManager (switched i u s) = rootPrivilegedKeyManager s"
  "holders (switched i u s) = holders s" "authenticationFlow (switched i u s) = authenticationFlow s"
  "underlying (switched i u s) = Some u" "presentationKey (switched i u s) = presentationKey s"
  "recoveryKey (switched i u s) = recoveryKey s" "authenticationMode (switched i u s) = authenticationMode s" "draws (switched i u s) = draws s"
  by (simp_all add: switched_def)

lemma serve_switch:
  assumes "authenticated s" "rootPrimaryKey s = Some root" "rootPrivilegedKeyManager s \<noteq> None" "builds w"
    and "profile_keys root (profiles s) i = Inr (key, pad, a)"
  shows "\<exists>u. w (BuildWallet key pad a) = Inr (AWallet u) \<and>
    serve w (switchProfile M i) s = (Some (Inr ()), switched a u s)"
proof -
  obtain u where "w (BuildWallet key pad a) = Inr (AWallet u)" using assms(4) by (meson builds_def)
  with assms show ?thesis by (auto simp: switchProfile_def switched_def run_simps)
qed

lemma all_zero_default [simp]: "all_zero DEFAULT_PROFILE_ID"
  by (simp add: all_zero_def DEFAULT_PROFILE_ID_def list_all_iff)

lemma profile_keys_default [simp]: "profile_keys root ps DEFAULT_PROFILE_ID = Inr (root, None, DEFAULT_PROFILE_ID)"
  by (simp add: profile_keys_def)

section \<open>Tokens\<close>

lemma opensI: "crypto_ok M \<Longrightarrow> length a = length b \<Longrightarrow> opens M a b (c_encrypt M (map2 (XOR) a b) n t) t"
  by (simp add: opens_def crypto_ok_def xor_32)

lemma serve_wrap_factor:
  assumes "wraps_ok M w"
  shows "\<exists>c. w (UnwrapKey (c_key M priv) c) = Inr (ABytes t) \<and>
    serve w (wrap_factor M priv t) s = (Some (Inr c), s\<lparr>draws := draws s + 1\<rparr>)"
proof -
  obtain c where "w (WrapKey (c_key M priv) (draws s) t) = Inr (ABytes c)" "w (UnwrapKey (c_key M priv) c) = Inr (ABytes t)"
    using assms by (meson wraps_ok_def)
  then show ?thesis by (auto simp: wrap_factor_def run_simps)
qed

lemma serve_wrap_roots:
  assumes "crypto_ok M" "all_32 x"
  shows "\<exists>t. roots_open M t x \<and> passwordSalt t = salt \<and> currentOutpoint t = None \<and> profilesEncrypted t = None \<and>
    serve w (wrap_roots M salt (f_password x) (f_presentation x) (f_recovery x) (f_primary x) (f_privileged x)) s
      = (Some (Inr t), s\<lparr>draws := draws s + 5\<rparr>)"
  using assms
  by (cases x) (auto simp: wrap_roots_def run_simps xor_32 all_32_def intro!: opensI)


section \<open>The root privileged key\<close>

text \<open>The root manager holds the key, has it for one use, or gets a password that derives the password key.\<close>

definition key_ready :: "('p, 'k) cwi_fixed \<Rightarrow> ('k, 'w, 'x, 'y) world \<Rightarrow> secrets \<Rightarrow> ump_token \<Rightarrow> 'k key_holder \<Rightarrow> bool" where
  "key_ready M w x t h \<longleftrightarrow> (case h_held h of
      Some k \<Rightarrow> k = c_key M (f_privileged x)
    | None \<Rightarrow> (case h_oneTime h of
        Some k \<Rightarrow> k = c_key M (f_privileged x)
      | None \<Rightarrow> (\<forall>reason. \<exists>pw. w (RetrievePassword reason) = Inr (AText pw) \<and> derives M w (passwordSalt t) (passwordKdf t) pw (f_password x))))"

text \<open>An authenticated user whose token opens with the factors \<open>x\<close>.\<close>

definition unlocked :: "('p, 'k) cwi_fixed \<Rightarrow> ('k, 'w, 'x, 'y) world \<Rightarrow> secrets \<Rightarrow> ump_token \<Rightarrow> ('k, 'w) cwi \<Rightarrow> bool" where
  "unlocked M w x t s \<longleftrightarrow> authenticated s \<and> currentUMPToken s = Some t \<and> rootPrimaryKey s = Some (f_primary x) \<and> token_opens M w t x \<and>
     length (c_key_bytes M (c_key M (f_privileged x))) \<le> 32 \<and>
     (\<exists>i. rootPrivilegedKeyManager s = Some i \<and> i < length (holders s) \<and> key_ready M w x t (holders s ! i))"

text \<open>The root manager holds the key.\<close>

definition holds_key :: "('p, 'k) cwi_fixed \<Rightarrow> secrets \<Rightarrow> ('k, 'w) cwi \<Rightarrow> bool" where
  "holds_key M x s \<longleftrightarrow> (\<exists>i. rootPrivilegedKeyManager s = Some i \<and> i < length (holders s) \<and> h_held (holders s ! i) = Some (c_key M (f_privileged x)))"

text \<open>Only the holders differ.\<close>

definition same_but_holders :: "('k, 'w) cwi \<Rightarrow> ('k, 'w) cwi \<Rightarrow> bool" where
  "same_but_holders s u \<longleftrightarrow> (\<exists>hs. length hs = length (holders s) \<and> u = s\<lparr>holders := hs\<rparr>)"

lemma same_but_holdersI: "length hs = length (holders s) \<Longrightarrow> same_but_holders s (s\<lparr>holders := hs\<rparr>)"
  unfolding same_but_holders_def by blast

lemma serve_getPrivilegedKey:
  fixes s :: "('k, 'w) cwi"
  assumes "unlocked M w x t s" "rootPrivilegedKeyManager s = Some i"
  shows "\<exists>u. serve w (getPrivilegedKey M i reason) s = (Some (Inr (c_key M (f_privileged x))), u) \<and>
    unlocked M w x t u \<and> holds_key M x u \<and> same_but_holders s u"
proof -
  let ?V = "c_key M (f_privileged x)"
  have i: "i < length (holders s)" and ready: "key_ready M w x t (holders s ! i)" and len: "length (c_key_bytes M ?V) \<le> 32"
    and T: "currentUMPToken s = Some t" "rootPrimaryKey s = Some (f_primary x)" "token_opens M w t x"
    using assms by (auto simp: unlocked_def)
  let ?u = "\<lambda>hs. s\<lparr>holders := hs\<rparr>"
  have keep: "unlocked M w x t (?u ((holders s)[i := h\<lparr>h_held := Some ?V\<rparr>])) \<and> holds_key M x (?u ((holders s)[i := h\<lparr>h_held := Some ?V\<rparr>])) \<and>
      same_but_holders s (?u ((holders s)[i := h\<lparr>h_held := Some ?V\<rparr>]))" for h
    using assms i by (auto simp: unlocked_def holds_key_def key_ready_def intro: same_but_holdersI)
  show ?thesis
  proof (cases "h_held (holders s ! i)")
    case (Some k)
    with ready have k: "k = ?V" by (simp add: key_ready_def)
    have "same_but_holders s s" unfolding same_but_holders_def by (intro exI [of _ "holders s"]) simp
    moreover have "holds_key M x s" using k Some i assms(2) by (simp add: holds_key_def)
    ultimately show ?thesis using k Some assms(1) by (simp add: getPrivilegedKey_def run_simps)
  next
    case None
    show ?thesis
    proof (cases "h_oneTime (holders s ! i)")
      case (Some k)
      with None ready have "k = ?V" by (simp add: key_ready_def)
      with None Some i len keep [of "(holders s ! i)\<lparr>h_oneTime := None\<rparr>"]
      show ?thesis by (auto simp: getPrivilegedKey_def root_key_getter_def run_simps upd_holder_def)
    next
      case one: None
      with None ready obtain pw where pw: "w (RetrievePassword reason) = Inr (AText pw)"
        and d: "derives M w (passwordSalt t) (passwordKdf t) pw (f_password x)"
        by (auto simp: key_ready_def)
      have o: "opens M (f_primary x) (f_password x) (passwordPrimaryPrivileged t) (f_privileged x)"
        using T(3) by (cases x) (auto simp: token_opens_def)
      have unlock: "serve w (unlock_privileged M (u_utf8 (c_codec M) pw) :: ('k, 'w, 'b, 'c, bytes) cwp) s = (Some (Inr (f_privileged x)), s)"
        using o d T by (auto simp: unlock_privileged_def run_simps derives_def opens_def)
      with None one pw i len keep [of "holders s ! i"]
      show ?thesis by (auto simp: getPrivilegedKey_def root_key_getter_def run_simps upd_holder_def)
    qed
  qed
qed

fun factor_value :: "('p, 'k) cwi_fixed \<Rightarrow> secrets \<Rightarrow> factor \<Rightarrow> bytes" where
  "factor_value M x PasswordKey = f_password x"
| "factor_value M x PresentationKey = f_presentation x"
| "factor_value M x RecoveryKey = f_recovery x"
| "factor_value M x PrivilegedKey = c_key_bytes M (c_key M (f_privileged x))"

lemma serve_getFactor:
  assumes "unlocked M w x t s"
  shows "\<exists>u. serve w (getFactor M f) s = (Some (Inr (factor_value M x f)), u) \<and> unlocked M w x t u \<and> holds_key M x u \<and> same_but_holders s u"
proof -
  obtain i where i: "rootPrivilegedKeyManager s = Some i" using assms by (auto simp: unlocked_def)
  have T: "authenticated s" "currentUMPToken s = Some t" "token_opens M w t x" using assms by (auto simp: unlocked_def)
  from serve_getPrivilegedKey [OF assms i] obtain u where
    u: "serve w (getPrivilegedKey M i (if f = PrivilegedKey then Some ''UMP token update'' else None)) s = (Some (Inr (c_key M (f_privileged x))), u)"
      "unlocked M w x t u" "holds_key M x u" "same_but_holders s u" by blast
  then show ?thesis
    using T i by (cases f) (auto simp: getFactor_def run_simps token_opens_def Let_def)
qed

lemma same_but_holders_trans: "same_but_holders s u \<Longrightarrow> same_but_holders u v \<Longrightarrow> same_but_holders s v"
  by (auto simp: same_but_holders_def)


section \<open>Publishing a new token\<close>

text \<open>The wallet of the active profile can be rebuilt.\<close>

definition active_ok :: "('k, 'w) cwi \<Rightarrow> bool" where
  "active_ok s \<longleftrightarrow> (if all_zero (activeProfileId s) then underlying s \<noteq> None
     else \<exists>root key pad. rootPrimaryKey s = Some root \<and> profile_keys root (profiles s) (activeProfileId s) = Inr (key, pad, activeProfileId s))"

text \<open>Publication succeeds with an outpoint, or fails with \<open>e\<close>.\<close>

definition publishes :: "('k, 'w, 'x, 'y) world \<Rightarrow> bool" where
  "publishes w \<longleftrightarrow> (\<forall>u t old. \<exists>p. w (BuildAndSend u t old) = Inr (AOutpoint p) \<and> p \<noteq> [])"

definition refuses :: "('k, 'w, 'x, 'y) world \<Rightarrow> cwi_error \<Rightarrow> bool" where
  "refuses w e \<longleftrightarrow> (\<forall>u t old. w (BuildAndSend u t old) = Inl e)"

lemma serve_publish:
  fixes s :: "('k, 'w) cwi" and w :: "('k, 'w, 'x, 'y) world"
  assumes s: "authenticated s" "rootPrimaryKey s \<noteq> None" "rootPrivilegedKeyManager s \<noteq> None" "active_ok s" and w: "builds w"
  shows "(publishes w \<longrightarrow> (\<exists>p u. p \<noteq> [] \<and> serve w (publish M t old :: ('k, 'w, 'x, 'y, unit) cwp) s
      = (Some (Inr ()), s\<lparr>currentUMPToken := Some (t\<lparr>currentOutpoint := Some p\<rparr>), underlying := Some u\<rparr>))) \<and>
    (refuses w e \<longrightarrow> (\<exists>u. serve w (publish M t old :: ('k, 'w, 'x, 'y, unit) cwp) s = (Some (Inl e), s\<lparr>underlying := Some u\<rparr>)))"
    (is "(_ \<longrightarrow> ?good) \<and> (_ \<longrightarrow> ?bad)")
proof -
  obtain root where root: "rootPrimaryKey s = Some root" using s(2) by auto
  show ?thesis
  proof (cases "all_zero (activeProfileId s)")
    case True
    then obtain u where u: "underlying s = Some u" using s(4) by (auto simp: active_ok_def)
    have same: "s\<lparr>underlying := Some u\<rparr> = s" using u by (cases s) simp
    have ?good if "publishes w"
    proof -
      from that obtain p where "w (BuildAndSend u t (Some old)) = Inr (AOutpoint p)" "p \<noteq> []" by (meson publishes_def)
      with True u show ?thesis
        by (intro exI [of _ p] exI [of _ u]) (cases s, simp add: publish_def run_simps)
    qed
    moreover have ?bad if "refuses w e"
      using that True u same
        by (intro exI [of _ u]) (simp add: publish_def run_simps refuses_def)
    ultimately show ?thesis by blast
  next
    case False
    let ?i = "activeProfileId s"
    obtain key pad where keys: "profile_keys root (profiles s) ?i = Inr (key, pad, ?i)"
      using False s(4) root by (auto simp: active_ok_def)
    obtain u where there: "serve w (switchProfile M DEFAULT_PROFILE_ID :: ('k, 'w, 'x, 'y, unit) cwp) s = (Some (Inr ()), switched DEFAULT_PROFILE_ID u s)"
      using serve_switch [OF s(1) root s(3) w profile_keys_default] by blast
    have home: "\<exists>v. serve w (switchProfile M ?i :: ('k, 'w, 'x, 'y, unit) cwp) q = (Some (Inr ()), switched ?i v q)"
      if "q = (switched DEFAULT_PROFILE_ID u s)\<lparr>currentUMPToken := tk\<rparr>" for q tk
      using serve_switch [of q root w ?i key pad ?i M] that s root keys w by auto
    have ?good if "publishes w"
    proof -
      from that obtain p where p: "w (BuildAndSend u t (Some old)) = Inr (AOutpoint p)" "p \<noteq> []" by (meson publishes_def)
      obtain v where "serve w (switchProfile M ?i :: ('k, 'w, 'x, 'y, unit) cwp)
          ((switched DEFAULT_PROFILE_ID u s)\<lparr>currentUMPToken := Some (t\<lparr>currentOutpoint := Some p\<rparr>)\<rparr>)
        = (Some (Inr ()), switched ?i v ((switched DEFAULT_PROFILE_ID u s)\<lparr>currentUMPToken := Some (t\<lparr>currentOutpoint := Some p\<rparr>)\<rparr>))"
        using home by blast
      with False p there show ?thesis
        by (intro exI [of _ p] exI [of _ v]) (cases s, simp add: publish_def run_simps switched_def)
    qed
    moreover have ?bad if r: "refuses w e"
    proof -
      have "(switched DEFAULT_PROFILE_ID u s)\<lparr>currentUMPToken := currentUMPToken s\<rparr> = switched DEFAULT_PROFILE_ID u s"
        by (cases s) (simp add: switched_def)
      then obtain v where "serve w (switchProfile M ?i :: ('k, 'w, 'x, 'y, unit) cwp) (switched DEFAULT_PROFILE_ID u s)
          = (Some (Inr ()), switched ?i v (switched DEFAULT_PROFILE_ID u s))"
        using home [of "switched DEFAULT_PROFILE_ID u s" "currentUMPToken s"] by auto
      with False r there show ?thesis
        by (intro exI [of _ v]) (cases s, simp add: publish_def run_simps refuses_def switched_def)
    qed
    ultimately show ?thesis by blast
  qed
qed


lemma token_opens_cong:
  "token_opens M w (t\<lparr>currentOutpoint := a\<rparr>) x = token_opens M w t x" "token_opens M w (t\<lparr>profilesEncrypted := b\<rparr>) x = token_opens M w t x"
  "token_opens M w (t\<lparr>umpVersion := c\<rparr>) x = token_opens M w t x" "token_opens M w (t\<lparr>passwordKdf := d\<rparr>) x = token_opens M w t x"
  by (cases x; simp add: token_opens_def)+

lemma roots_open_cong:
  "roots_open M (t\<lparr>presentationKeyEncrypted := a, passwordKeyEncrypted := b, recoveryKeyEncrypted := c\<rparr>) x = roots_open M t x"
  by (cases x) simp

lemma load_profiles_cong: "load_profiles M root (t\<lparr>currentOutpoint := a\<rparr>) = load_profiles M root t"
  by (simp add: load_profiles_def)

text \<open>The token \<open>updateAuthFactors\<close> makes.\<close>

definition new_token_of :: "('p, 'k) cwi_fixed \<Rightarrow> ('k, 'w, 'x, 'y) world \<Rightarrow> secrets \<Rightarrow> bytes \<Rightarrow> kdf_params option \<Rightarrow> profile list \<Rightarrow> ump_token \<Rightarrow> bool" where
  "new_token_of M w x salt kdf ps t \<longleftrightarrow> token_opens M w t x \<and> passwordSalt t = salt \<and> passwordKdf t = kdf \<and>
     umpVersion t = (if kdf = None then None else Some 3) \<and> load_profiles M (f_primary x) t = Inr ps"

lemma new_token_cong: "new_token_of M w x salt kdf ps (t\<lparr>currentOutpoint := a\<rparr>) = new_token_of M w x salt kdf ps t"
  by (simp add: new_token_of_def token_opens_cong load_profiles_cong)

text \<open>The encryption of the profiles.\<close>

lemma serve_encrypt_profiles:
  fixes s :: "('k, 'w) cwi" and w :: "('k, 'w, 'x, 'y) world"
  assumes M: "crypto_ok M" and names: "\<And>p. p \<in> set ps \<Longrightarrow> paired (p_name p)"
  shows "\<exists>c n. serve w (if ps = [] then Ret None else bindP (encryptP M root (u_utf8 (c_codec M) (profiles_text ps))) (\<lambda>c. Ret (Some c)) :: ('k, 'w, 'x, 'y, bytes option) cwp) s
      = (Some (Inr c), s\<lparr>draws := draws s + n\<rparr>) \<and> (\<forall>t. profilesEncrypted t = c \<longrightarrow> load_profiles M root t = Inr ps)"
proof (cases "ps = []")
  case True
  then show ?thesis by (intro exI [of _ None] exI [of _ 0]) (cases s, auto simp: load_profiles_def)
next
  case False
  let ?c = "c_encrypt M root (draws s) (u_utf8 (c_codec M) (profiles_text ps))"
  have "u_toUTF8 (c_codec M) (u_utf8 (c_codec M) (profiles_text ps)) = profiles_text ps"
    using M profiles_paired [OF names] by (simp add: crypto_ok_def codec_rules)
  then have "\<forall>t. profilesEncrypted t = Some ?c \<longrightarrow> load_profiles M root t = Inr ps"
    using M by (simp add: load_profiles_def crypto_ok_def profiles_read)
  with False show ?thesis by (intro exI [of _ "Some ?c"] exI [of _ 1]) (simp add: run_simps)
qed

lemma active_ok_cong:
  "active_ok (s\<lparr>draws := n\<rparr>) = active_ok s" "active_ok (s\<lparr>holders := hs\<rparr>) = active_ok s"
  by (simp_all add: active_ok_def)

lemma serve_update:
  fixes s :: "('k, 'w) cwi" and w :: "('k, 'w, 'x, 'y) world"
  assumes M: "crypto_ok M" "wraps_ok M w" "builds w" and y: "all_32 y" and names: "\<And>p. p \<in> set ps \<Longrightarrow> paired (p_name p)"
    and s: "authenticated s" "rootPrimaryKey s \<noteq> None" "rootPrivilegedKeyManager s \<noteq> None" "active_ok s"
    and old: "currentUMPToken s = Some old" "currentOutpoint old = Some q" "q \<noteq> []"
  shows "\<exists>t n. new_token_of M w y salt (passwordKdf old) ps t \<and>
    (publishes w \<longrightarrow> (\<exists>p u. p \<noteq> [] \<and>
       serve w (updateAuthFactors M salt (f_password y) (f_presentation y) (f_recovery y) (f_primary y) (f_privileged y) ps :: ('k, 'w, 'x, 'y, unit) cwp) s
       = (Some (Inr ()), s\<lparr>currentUMPToken := Some (t\<lparr>currentOutpoint := Some p\<rparr>), underlying := Some u, draws := n\<rparr>))) \<and>
    (refuses w e \<longrightarrow> (\<exists>u.
       serve w (updateAuthFactors M salt (f_password y) (f_presentation y) (f_recovery y) (f_primary y) (f_privileged y) ps :: ('k, 'w, 'x, 'y, unit) cwp) s
       = (Some (Inl e), s\<lparr>underlying := Some u, draws := n\<rparr>)))"
proof -
  let ?V = "f_privileged y"
  obtain c a where c: "serve w (if ps = [] then Ret None else bindP (encryptP M (f_primary y) (u_utf8 (c_codec M) (profiles_text ps))) (\<lambda>c. Ret (Some c)) :: ('k, 'w, 'x, 'y, bytes option) cwp) s
      = (Some (Inr c), s\<lparr>draws := draws s + a\<rparr>)" "\<forall>t. profilesEncrypted t = c \<longrightarrow> load_profiles M (f_primary y) t = Inr ps"
    using serve_encrypt_profiles [OF M(1) names] by blast
  let ?s1 = "s\<lparr>draws := draws s + a\<rparr>"
  obtain t0 where t0: "roots_open M t0 y" "passwordSalt t0 = salt" "serve w (wrap_roots M salt (f_password y) (f_presentation y) (f_recovery y) (f_primary y) ?V :: ('k, 'w, 'x, 'y, ump_token) cwp) ?s1
      = (Some (Inr t0), ?s1\<lparr>draws := draws ?s1 + 5\<rparr>)"
    using serve_wrap_roots [OF M(1) y] by blast
  let ?s2 = "?s1\<lparr>draws := draws ?s1 + 5\<rparr>"
  obtain pk where pk: "w (UnwrapKey (c_key M ?V) pk) = Inr (ABytes (f_presentation y))"
    "serve w (wrap_factor M ?V (f_presentation y) :: ('k, 'w, 'x, 'y, bytes) cwp) ?s2 = (Some (Inr pk), ?s2\<lparr>draws := draws ?s2 + 1\<rparr>)"
    using serve_wrap_factor [OF M(2)] by blast
  let ?s3 = "?s2\<lparr>draws := draws ?s2 + 1\<rparr>"
  obtain dk where dk: "w (UnwrapKey (c_key M ?V) dk) = Inr (ABytes (f_password y))"
    "serve w (wrap_factor M ?V (f_password y) :: ('k, 'w, 'x, 'y, bytes) cwp) ?s3 = (Some (Inr dk), ?s3\<lparr>draws := draws ?s3 + 1\<rparr>)"
    using serve_wrap_factor [OF M(2)] by blast
  let ?s4 = "?s3\<lparr>draws := draws ?s3 + 1\<rparr>"
  obtain rk where rk: "w (UnwrapKey (c_key M ?V) rk) = Inr (ABytes (f_recovery y))"
    "serve w (wrap_factor M ?V (f_recovery y) :: ('k, 'w, 'x, 'y, bytes) cwp) ?s4 = (Some (Inr rk), ?s4\<lparr>draws := draws ?s4 + 1\<rparr>)"
    using serve_wrap_factor [OF M(2)] by blast
  let ?s5 = "?s4\<lparr>draws := draws ?s4 + 1\<rparr>"
  let ?kdf = "passwordKdf old"
  let ?t = "t0\<lparr>presentationKeyEncrypted := pk, passwordKeyEncrypted := dk, recoveryKeyEncrypted := rk, profilesEncrypted := c,
     umpVersion := (if ?kdf = None then None else Some 3), passwordKdf := ?kdf\<rparr>"
  have "roots_open M ?t y" using t0(1) by (cases y) simp
  then have new: "new_token_of M w y salt ?kdf ps ?t"
    using t0 pk dk rk c(2) by (simp add: new_token_of_def token_opens_def Let_def)
  have len: "length (f_presentation y) = 32" "length (f_recovery y) = 32" "length (f_password y) = 32" "length (f_primary y) = 32"
    using y by (simp_all add: all_32_def)
  have run: "serve w (updateAuthFactors M salt (f_password y) (f_presentation y) (f_recovery y) (f_primary y) ?V ps :: ('k, 'w, 'x, 'y, unit) cwp) s
      = serve w (publish M ?t old :: ('k, 'w, 'x, 'y, unit) cwp) ?s5"
    using s old len c(1) t0(3) pk(2) dk(2) rk(2)
    by (simp add: updateAuthFactors_def serve_guardP serve_needP serve_liftP serve_bind xor_32 or_else_def)
  have s5: "authenticated ?s5" "rootPrimaryKey ?s5 \<noteq> None" "rootPrivilegedKeyManager ?s5 \<noteq> None" "active_ok ?s5"
    using s by (simp_all add: active_ok_cong)
  have "?s5 = s\<lparr>draws := draws ?s5\<rparr>" by simp
  with serve_publish [OF s5 M(3), of M ?t old e] new run show ?thesis
    by (intro exI [of _ ?t] exI [of _ "draws ?s5"]) (cases s, auto)
qed

end
