(* ===== verification/UmpProps.thy ===== *)
theory UmpProps
  imports UmpRuns
begin

text \<open>
  Properties of the CWI-style wallet manager: any two of the three factors log in; registration publishes a token for
  which that holds; changing a factor keeps the others; profiles, snapshots and tokens on chain are read back as they were written; what
  the manager lets through to the wallet; and what is left behind when a publication fails.
\<close>

section \<open>Logging in\<close>

text \<open>The programs of the three modes.\<close>

definition by_presentation_and_password :: "('p, 'k) cwi_fixed \<Rightarrow> bytes \<Rightarrow> jstr \<Rightarrow> ('k, 'w, 'x, 'y, unit) cwp" where
  "by_presentation_and_password M p pw = bindP (providePresentationKey M p) (\<lambda>_. providePassword M pw)"

definition by_recovery_and_password :: "('p, 'k) cwi_fixed \<Rightarrow> bytes \<Rightarrow> jstr \<Rightarrow> ('k, 'w, 'x, 'y, unit) cwp" where
  "by_recovery_and_password M r pw = bindP (provideRecoveryKey M r) (\<lambda>_. providePassword M pw)"

definition by_presentation_and_recovery :: "('p, 'k) cwi_fixed \<Rightarrow> bytes \<Rightarrow> bytes \<Rightarrow> ('k, 'w, 'x, 'y, unit) cwp" where
  "by_presentation_and_recovery M p r = bindP (providePresentationKey M p) (\<lambda>_. provideRecoveryKey M r)"

definition logs_in :: "('p, 'k) cwi_fixed \<Rightarrow> ('k, 'w, 'x, 'y) world \<Rightarrow> secrets \<Rightarrow> ump_token \<Rightarrow> profile list \<Rightarrow>
    ('k, 'w, 'x, 'y, unit) cwp \<Rightarrow> ('k, 'w) cwi \<Rightarrow> bool" where
  "logs_in M w x t ps prog s \<longleftrightarrow> (\<exists>u. serve w prog s = (Some (Inr ()), u) \<and> unlocked M w x t u \<and> profiles u = ps \<and>
     activeProfileId u = DEFAULT_PROFILE_ID \<and> underlying u \<noteq> None)"

lemma opensE:
  assumes "opens M a b c t"
  obtains k where "xor_bytes a b = Inr k" "c_decrypt M k c = Some t"
  using assms by (auto simp: opens_def)

lemma login_end:
  fixes w :: "('k, 'w, 'x, 'y) world" and s :: "('k, 'w) cwi"
  assumes "builds w" "currentUMPToken s = Some t" "load_profiles M (f_primary x) t = Inr ps" "token_opens M w t x"
    and "all_zero (activeProfileId s)" "length (c_key_bytes M (c_key M (f_privileged x))) \<le> 32"
    and key: "priv = Some (f_privileged x) \<or> (priv = None \<and> (\<forall>reason. w (RetrievePassword reason) = Inr (AText pw)) \<and>
      derives M w (passwordSalt t) (passwordKdf t) pw (f_password x))"
  shows "\<exists>u. serve w (bindP (setupRootInfrastructure M (f_primary x) priv) (\<lambda>_. bindP (readP activeProfileId) (\<lambda>i. switchProfile M i)) :: ('k, 'w, 'x, 'y, unit) cwp) s
      = (Some (Inr ()), u) \<and> unlocked M w x t u \<and> profiles u = ps \<and> activeProfileId u = DEFAULT_PROFILE_ID \<and> underlying u \<noteq> None"
proof -
  let ?t = "after_setup M (f_primary x) priv ps s"
  have keys: "profile_keys (f_primary x) (profiles ?t) (activeProfileId s) = Inr (f_primary x, None, DEFAULT_PROFILE_ID)"
    using assms(5) by (simp add: profile_keys_def)
  obtain u where u: "serve w (switchProfile M (activeProfileId s) :: ('k, 'w, 'x, 'y, unit) cwp) ?t = (Some (Inr ()), switched DEFAULT_PROFILE_ID u ?t)"
    using serve_switch [OF _ _ _ assms(1) keys] by auto
  have "unlocked M w x t (switched DEFAULT_PROFILE_ID u ?t)"
    using assms by (auto simp: unlocked_def key_ready_def)
  with u serve_setup [OF assms(2,3), of w priv] show ?thesis by (simp add: run_simps)
qed

text \<open>C7: Any two of the three factors of a token log a user in. For a token whose wrappings open with its presentation, recovery and
  password keys, each mode of authentication, from a manager that is not authenticated, ends authenticated with the
  same root primary key, the root privileged key within reach, and the profiles the token carries.\<close>

theorem any_two_factors:
  fixes w :: "('k, 'w, 'x, 'y) world" and s :: "('k, 'w) cwi"
  assumes token: "token_opens M w t (Secrets p r d R V)" "load_profiles M R t = Inr ps" "length (c_key_bytes M (c_key M V)) \<le> 32"
    and w: "builds w" "w (FindByPresentationKeyHash (c_sha256 M p)) = Inr (AToken (Some t))"
      "w (FindByRecoveryKeyHash (c_sha256 M r)) = Inr (AToken (Some t))"
      "\<And>reason. w (RetrievePassword reason) = Inr (AText pw)" "derives M w (passwordSalt t) (passwordKdf t) pw d"
    and s: "\<not> authenticated s" "all_zero (activeProfileId s)"
  shows "(authenticationMode s = PresentationAndPassword \<longrightarrow> logs_in M w (Secrets p r d R V) t ps (by_presentation_and_password M p pw) s) \<and>
    (authenticationMode s = RecoveryAndPassword \<longrightarrow> logs_in M w (Secrets p r d R V) t ps (by_recovery_and_password M r pw) s) \<and>
    (authenticationMode s = PresentationAndRecovery \<longrightarrow> logs_in M w (Secrets p r d R V) t ps (by_presentation_and_recovery M p r) s)"
proof (intro conjI impI)
  have open1: "opens M p d (passwordPresentationPrimary t) R" "opens M r d (passwordRecoveryPrimary t) R"
    "opens M p r (presentationRecoveryPrimary t) R" "opens M R d (passwordPrimaryPrivileged t) V" "opens M p r (presentationRecoveryPrivileged t) V"
    using token(1) by (simp_all add: token_opens_def)
  have ends: "\<exists>u. serve w (bindP (setupRootInfrastructure M R priv) (\<lambda>_. bindP (readP activeProfileId) (\<lambda>i. switchProfile M i)) :: ('k, 'w, 'x, 'y, unit) cwp) q
      = (Some (Inr ()), u) \<and> unlocked M w (Secrets p r d R V) t u \<and> profiles u = ps \<and> activeProfileId u = DEFAULT_PROFILE_ID \<and> underlying u \<noteq> None"
    if "currentUMPToken q = Some t" "all_zero (activeProfileId q)" "priv = Some V \<or> priv = None" for q priv
    using login_end [where x = "Secrets p r d R V" and pw = pw and w = w and s = q and priv = priv and M = M and t = t and ps = ps] assms that
    by auto
  have der: "serve w (derivePasswordKey M (passwordSalt t) (passwordKdf t) (u_utf8 (c_codec M) pw) :: ('k, 'w, 'x, 'y, bytes) cwp) q = (Some (Inr d), q)" for q
    using w(5) by (simp add: derives_def)
  {
    assume mode: "authenticationMode s = PresentationAndPassword"
    obtain k where k: "xor_bytes p d = Inr k" "c_decrypt M k (passwordPresentationPrimary t) = Some R" using open1(1) by (rule opensE)
    let ?s = "s\<lparr>authenticationFlow := ExistingUser, presentationKey := Some p, currentUMPToken := Some t\<rparr>"
    obtain u where "serve w (bindP (setupRootInfrastructure M R None) (\<lambda>_. bindP (readP activeProfileId) (\<lambda>i. switchProfile M i)) :: ('k, 'w, 'x, 'y, unit) cwp) ?s = (Some (Inr ()), u)"
      "unlocked M w (Secrets p r d R V) t u" "profiles u = ps" "activeProfileId u = DEFAULT_PROFILE_ID" "underlying u \<noteq> None"
      using ends [of ?s None] s by auto
    with mode s w k der show "logs_in M w (Secrets p r d R V) t ps (by_presentation_and_password M p pw) s"
      by (simp add: logs_in_def by_presentation_and_password_def providePresentationKey_def providePassword_def handleExistingUserPassword_def run_simps)
  next
    assume mode: "authenticationMode s = RecoveryAndPassword"
    obtain k where k: "xor_bytes r d = Inr k" "c_decrypt M k (passwordRecoveryPrimary t) = Some R" using open1(2) by (rule opensE)
    obtain v where v: "xor_bytes R d = Inr v" "c_decrypt M v (passwordPrimaryPrivileged t) = Some V" using open1(4) by (rule opensE)
    let ?s = "s\<lparr>authenticationFlow := ExistingUser, recoveryKey := Some r, currentUMPToken := Some t\<rparr>"
    obtain u where "serve w (bindP (setupRootInfrastructure M R (Some V)) (\<lambda>_. bindP (readP activeProfileId) (\<lambda>i. switchProfile M i)) :: ('k, 'w, 'x, 'y, unit) cwp) ?s = (Some (Inr ()), u)"
      "unlocked M w (Secrets p r d R V) t u" "profiles u = ps" "activeProfileId u = DEFAULT_PROFILE_ID" "underlying u \<noteq> None"
      using ends [of ?s "Some V"] s by auto
    with mode s w k v der show "logs_in M w (Secrets p r d R V) t ps (by_recovery_and_password M r pw) s"
      by (simp add: logs_in_def by_recovery_and_password_def provideRecoveryKey_def providePassword_def handleExistingUserPassword_def run_simps)
  next
    assume mode: "authenticationMode s = PresentationAndRecovery"
    obtain k where k: "xor_bytes p r = Inr k" "c_decrypt M k (presentationRecoveryPrimary t) = Some R" using open1(3) by (rule opensE)
    moreover have "c_decrypt M k (presentationRecoveryPrivileged t) = Some V" using open1(5) k(1) by (auto simp: opens_def)
    moreover let ?s = "s\<lparr>authenticationFlow := ExistingUser, presentationKey := Some p, currentUMPToken := Some t\<rparr>"
    obtain u where "serve w (bindP (setupRootInfrastructure M R (Some V)) (\<lambda>_. bindP (readP activeProfileId) (\<lambda>i. switchProfile M i)) :: ('k, 'w, 'x, 'y, unit) cwp) ?s = (Some (Inr ()), u)"
      "unlocked M w (Secrets p r d R V) t u" "profiles u = ps" "activeProfileId u = DEFAULT_PROFILE_ID" "underlying u \<noteq> None"
      using ends [of ?s "Some V"] s by auto
    ultimately show "logs_in M w (Secrets p r d R V) t ps (by_presentation_and_recovery M p r) s"
      using mode s w
      by (simp add: logs_in_def by_presentation_and_recovery_def providePresentationKey_def provideRecoveryKey_def run_simps)
  }
qed


section \<open>Registering\<close>

text \<open>The secrets of a new user: the presentation key given, the password key derived, and what the state's next draws are.\<close>

definition new_secrets :: "('p, 'k) cwi_fixed \<Rightarrow> bytes \<Rightarrow> bytes \<Rightarrow> nat \<Rightarrow> secrets" where
  "new_secrets M p d n = Secrets p (c_random M n 32) d (c_random M (n + 2) 32) (c_random M (n + 3) 32)"

lemma serve_new_user_token:
  fixes s :: "('k, 'w) cwi" and w :: "('k, 'w, 'x, 'y) world"
  assumes M: "crypto_ok M" "wraps_ok M w" and p: "presentationKey s = Some p" "length p = 32" "length d = 32"
    and w: "w (SaveRecoveryKey (c_random M (draws s) 32)) = Inr ADone"
      "derives M w (c_random M (draws s + 1) 32) (Some (c_kdfConfig M)) pw d"
  shows "\<exists>t n. serve w (new_user_token M pw :: ('k, 'w, 'x, 'y, bytes \<times> ump_token) cwp) s
      = (Some (Inr (c_random M (draws s + 2) 32, t)), s\<lparr>draws := n\<rparr>) \<and>
    token_opens M w t (new_secrets M p d (draws s)) \<and> passwordSalt t = c_random M (draws s + 1) 32 \<and>
    passwordKdf t = Some (c_kdfConfig M) \<and> umpVersion t = Some 3 \<and> profilesEncrypted t = None \<and> currentOutpoint t = None"
proof -
  let ?r = "c_random M (draws s) 32" and ?salt = "c_random M (draws s + 1) 32" and ?R = "c_random M (draws s + 2) 32"
    and ?V = "c_random M (draws s + 3) 32" and ?x = "new_secrets M p d (draws s)"
  have x: "all_32 ?x" using M(1) p by (simp add: all_32_def new_secrets_def crypto_ok_def)
  let ?s1 = "s\<lparr>draws := draws s + 4\<rparr>"
  obtain t0 where t0: "roots_open M t0 ?x" "passwordSalt t0 = ?salt" "profilesEncrypted t0 = None" "currentOutpoint t0 = None"
    "serve w (wrap_roots M ?salt d p ?r ?R ?V :: ('k, 'w, 'x, 'y, ump_token) cwp) ?s1 = (Some (Inr t0), ?s1\<lparr>draws := draws ?s1 + 5\<rparr>)"
    using serve_wrap_roots [OF M(1) x, of ?salt w ?s1] by (auto simp: new_secrets_def)
  let ?s2 = "?s1\<lparr>draws := draws ?s1 + 5\<rparr>"
  obtain pk where pk: "w (UnwrapKey (c_key M ?V) pk) = Inr (ABytes p)"
    "serve w (wrap_factor M ?V p :: ('k, 'w, 'x, 'y, bytes) cwp) ?s2 = (Some (Inr pk), ?s2\<lparr>draws := draws ?s2 + 1\<rparr>)"
    using serve_wrap_factor [OF M(2)] by blast
  let ?s3 = "?s2\<lparr>draws := draws ?s2 + 1\<rparr>"
  obtain dk where dk: "w (UnwrapKey (c_key M ?V) dk) = Inr (ABytes d)"
    "serve w (wrap_factor M ?V d :: ('k, 'w, 'x, 'y, bytes) cwp) ?s3 = (Some (Inr dk), ?s3\<lparr>draws := draws ?s3 + 1\<rparr>)"
    using serve_wrap_factor [OF M(2)] by blast
  let ?s4 = "?s3\<lparr>draws := draws ?s3 + 1\<rparr>"
  obtain rk where rk: "w (UnwrapKey (c_key M ?V) rk) = Inr (ABytes ?r)"
    "serve w (wrap_factor M ?V ?r :: ('k, 'w, 'x, 'y, bytes) cwp) ?s4 = (Some (Inr rk), ?s4\<lparr>draws := draws ?s4 + 1\<rparr>)"
    using serve_wrap_factor [OF M(2)] by blast
  let ?t = "t0\<lparr>presentationKeyEncrypted := pk, passwordKeyEncrypted := dk, recoveryKeyEncrypted := rk,
         umpVersion := Some 3, passwordKdf := Some (c_kdfConfig M)\<rparr>"
  have der: "serve w (derivePasswordKey M ?salt (Some (c_kdfConfig M)) (u_utf8 (c_codec M) pw) :: ('k, 'w, 'x, 'y, bytes) cwp) q = (Some (Inr d), q)" for q
    using w(2) by (simp add: derives_def)
  have "token_opens M w ?t ?x" using t0(1) pk dk rk by (simp add: token_opens_def Let_def new_secrets_def)
  moreover have "serve w (new_user_token M pw :: ('k, 'w, 'x, 'y, bytes \<times> ump_token) cwp) s = (Some (Inr (?R, ?t)), ?s4\<lparr>draws := draws ?s4 + 1\<rparr>)"
    using p w(1) der t0(5) pk(2) dk(2) rk(2)
    by (simp add: new_user_token_def serve_bind serve_randomP serve_await serve_needP numeral_2_eq_2 numeral_3_eq_3 eval_nat_numeral)
  ultimately show ?thesis using t0 by (intro exI [of _ ?t] exI [of _ "draws s + 12"]) (simp add: eval_nat_numeral)
qed


text \<open>A manager that waits for the password of a new user with presentation key \<open>p\<close>, and an outside that plays along up to publication.\<close>

definition new_user_ready :: "('p, 'k) cwi_fixed \<Rightarrow> ('k, 'w, 'x, 'y) world \<Rightarrow> bytes \<Rightarrow> bytes \<Rightarrow> jstr \<Rightarrow> ('k, 'w) cwi \<Rightarrow> bool" where
  "new_user_ready M w p d pw s \<longleftrightarrow> \<not> authenticated s \<and> authenticationMode s = PresentationAndPassword \<and> authenticationFlow s = NewUser \<and>
     presentationKey s = Some p \<and> length p = 32 \<and> length d = 32 \<and>
     w (SaveRecoveryKey (c_random M (draws s) 32)) = Inr ADone \<and> (\<forall>k u. w (FundNewWallet k u) = Inr ADone) \<and>
     derives M w (c_random M (draws s + 1) 32) (Some (c_kdfConfig M)) pw d"

text \<open>What registration has done before it publishes.\<close>

lemma register_unpublished:
  fixes s :: "('k, 'w) cwi" and w :: "('k, 'w, 'x, 'y) world"
  assumes M: "crypto_ok M" "wraps_ok M w" and w: "builds w" and s: "new_user_ready M w p d pw s"
  shows "\<exists>t u q. token_opens M w t (new_secrets M p d (draws s)) \<and> passwordSalt t = c_random M (draws s + 1) 32 \<and>
    passwordKdf t = Some (c_kdfConfig M) \<and> umpVersion t = Some 3 \<and> profilesEncrypted t = None \<and> currentOutpoint t = None \<and>
    authenticated q \<and> currentUMPToken q = Some t \<and> rootPrimaryKey q = Some (c_random M (draws s + 2) 32) \<and> underlying q = Some u \<and>
    serve w (providePassword M pw :: ('k, 'w, 'x, 'y, unit) cwp) s = serve w (bindP (awaitP (BuildAndSend u t None) get_outpoint wrong)
      (\<lambda>outpoint. modifyP (set_outpoint t outpoint)) :: ('k, 'w, 'x, 'y, unit) cwp) q"
proof -
  let ?R = "c_random M (draws s + 2) 32"
  have S: "\<not> authenticated s" "authenticationMode s = PresentationAndPassword" "authenticationFlow s = NewUser" "presentationKey s = Some p"
    "length p = 32" "length d = 32" "w (SaveRecoveryKey (c_random M (draws s) 32)) = Inr ADone" "\<And>k u. w (FundNewWallet k u) = Inr ADone"
    "derives M w (c_random M (draws s + 1) 32) (Some (c_kdfConfig M)) pw d"
    using s by (auto simp: new_user_ready_def)
  obtain t n where t: "serve w (new_user_token M pw :: ('k, 'w, 'x, 'y, bytes \<times> ump_token) cwp) s = (Some (Inr (?R, t)), s\<lparr>draws := n\<rparr>)"
    "token_opens M w t (new_secrets M p d (draws s))" "passwordSalt t = c_random M (draws s + 1) 32"
    "passwordKdf t = Some (c_kdfConfig M)" "umpVersion t = Some 3" "profilesEncrypted t = None" "currentOutpoint t = None"
    using serve_new_user_token [OF M S(4-7,9)] by blast
  let ?s1 = "s\<lparr>draws := n, currentUMPToken := Some t\<rparr>"
  have "load_profiles M ?R t = Inr []" using t(6) by (simp add: load_profiles_def)
  then have infra: "serve w (setupRootInfrastructure M ?R None :: ('k, 'w, 'x, 'y, unit) cwp) ?s1 = (Some (Inr ()), after_setup M ?R None [] ?s1)"
    by (intro serve_setup) simp_all
  let ?s2 = "after_setup M ?R None [] ?s1"
  obtain u where u: "serve w (switchProfile M DEFAULT_PROFILE_ID :: ('k, 'w, 'x, 'y, unit) cwp) ?s2 = (Some (Inr ()), switched DEFAULT_PROFILE_ID u ?s2)"
    using serve_switch [OF _ _ _ w profile_keys_default, of ?s2 ?R M] by auto
  let ?q = "switched DEFAULT_PROFILE_ID u ?s2"
  have "serve w (providePassword M pw :: ('k, 'w, 'x, 'y, unit) cwp) s = serve w (bindP (awaitP (BuildAndSend u t None) get_outpoint wrong)
      (\<lambda>outpoint. modifyP (set_outpoint t outpoint)) :: ('k, 'w, 'x, 'y, unit) cwp) ?q"
    using S t(1) infra u by (simp add: providePassword_def handleNewUserPassword_def fund_new_wallet_def run_simps)
  with t show ?thesis by (intro exI [of _ t] exI [of _ u] exI [of _ ?q]) simp
qed


text \<open>A registration whose publication fails is not undone: the call is refused, but the manager is authenticated, under a token without
  an outpoint, which nothing on chain corresponds to: no snapshot can be saved, and no factor or profile changed.\<close>

theorem registration_unpublished:
  fixes s :: "('k, 'w) cwi" and w :: "('k, 'w, 'x, 'y) world"
  assumes "crypto_ok M" "wraps_ok M w" "builds w" "refuses w e" "new_user_ready M w p d pw s"
  shows "\<exists>u. serve w (providePassword M pw :: ('k, 'w, 'x, 'y, unit) cwp) s = (Some (Inl e), u) \<and> authenticated u \<and>
    rootPrimaryKey u = Some (c_random M (draws s + 2) 32) \<and>
    fst (serve w (saveSnapshot M :: ('k, 'w, 'x, 'y, bytes) cwp) u) = Some (Inl (CToken NoOutpoint))"
proof -
  from register_unpublished [OF assms(1-3,5)] obtain t u q where q: "authenticated q" "currentUMPToken q = Some t" "currentOutpoint t = None"
      "rootPrimaryKey q = Some (c_random M (draws s + 2) 32)"
    and run: "serve w (providePassword M pw :: ('k, 'w, 'x, 'y, unit) cwp) s = serve w (bindP (awaitP (BuildAndSend u t None) get_outpoint wrong)
      (\<lambda>outpoint. modifyP (set_outpoint t outpoint)) :: ('k, 'w, 'x, 'y, unit) cwp) q" by blast
  have "serve w (providePassword M pw :: ('k, 'w, 'x, 'y, unit) cwp) s = (Some (Inl e), q)"
    using run assms(4) by (simp add: run_simps refuses_def)
  then show ?thesis
    using q by (intro exI [of _ q]) (simp add: saveSnapshot_def serializeUMPToken_def run_simps)
qed

end
