(* ===== verification/UmpFactors.thy ===== *)
theory UmpFactors
  imports UmpProps
begin

text \<open>
  Changing one factor, adding and deleting profiles: each fetches the other factors with the root privileged key and publishes a
  new token; what holds of it, and what is left when its publication fails.
\<close>

section \<open>Fetching factors, then publishing\<close>

text \<open>Only holders and the count of draws differ.\<close>

definition quiet :: "('k, 'w) cwi \<Rightarrow> ('k, 'w) cwi \<Rightarrow> bool" where
  "quiet s u \<longleftrightarrow> (\<exists>hs n. u = s\<lparr>holders := hs, draws := n\<rparr>)"

lemma quiet_refl: "quiet s s"
  unfolding quiet_def by (intro exI [of _ "holders s"] exI [of _ "draws s"]) simp

lemma quiet_trans: "quiet s u \<Longrightarrow> quiet u v \<Longrightarrow> quiet s v"
proof -
  assume "quiet s u" "quiet u v"
  then obtain hs n where "v = s\<lparr>holders := hs, draws := n\<rparr>" by (auto simp: quiet_def)
  then show ?thesis unfolding quiet_def by blast
qed

lemma quiet_same:
  assumes "quiet s u"
  shows "authenticated u = authenticated s" "currentUMPToken u = currentUMPToken s" "rootPrimaryKey u = rootPrimaryKey s"
    "profiles u = profiles s" "activeProfileId u = activeProfileId s" "presentationKey u = presentationKey s"
    "rootPrivilegedKeyManager u = rootPrivilegedKeyManager s" "active_ok u = active_ok s" "underlying u = underlying s"
  using assms by (auto simp: quiet_def active_ok_def)



lemma same_quiet: "same_but_holders s u \<Longrightarrow> quiet s u"
proof -
  assume "same_but_holders s u"
  then obtain hs where "u = s\<lparr>holders := hs\<rparr>" by (auto simp: same_but_holders_def)
  then show ?thesis unfolding quiet_def by (intro exI [of _ hs] exI [of _ "draws s"]) simp
qed

text \<open>A factor is fetched.\<close>

lemma fetch:
  fixes w :: "('k, 'w, 'x, 'y) world"
  assumes "unlocked M w x t s"
  obtains u where "\<And>g. serve w (bindP (getFactor M f) g :: ('k, 'w, 'x, 'y, 'a) cwp) s = serve w (g (factor_value M x f)) u"
    "unlocked M w x t u" "holds_key M x u" "quiet s u"
  using serve_getFactor [OF assms, of f] same_quiet by (fastforce simp: run_simps)

text \<open>The state after a token for the factors \<open>y\<close> has been published.\<close>

definition rekeyed :: "('p, 'k) cwi_fixed \<Rightarrow> ('k, 'w, 'x, 'y) world \<Rightarrow> secrets \<Rightarrow> bytes \<Rightarrow> kdf_params option \<Rightarrow> profile list \<Rightarrow> ('k, 'w) cwi \<Rightarrow> bool" where
  "rekeyed M w y salt kdf ps v \<longleftrightarrow> (\<exists>t. unlocked M w y t v \<and> passwordSalt t = salt \<and> passwordKdf t = kdf \<and>
     currentOutpoint t \<noteq> None \<and> load_profiles M (f_primary y) t = Inr ps \<and> profiles v = ps)"

lemma key_ready_held: "h_held h = Some (c_key M (f_privileged x)) \<Longrightarrow> key_ready M w x t h"
  by (simp add: key_ready_def)

lemma rekey:
  fixes s :: "('k, 'w) cwi" and w :: "('k, 'w, 'x, 'y) world"
  assumes M: "crypto_ok M" "wraps_ok M w" "builds w" and s: "unlocked M w x t s" "holds_key M x s" "active_ok s"
    and y: "all_32 y" "f_primary y = f_primary x" "f_privileged y = f_privileged x"
    and t: "currentOutpoint t = Some q" "q \<noteq> []" and names: "\<And>p. p \<in> set (profiles s) \<Longrightarrow> paired (p_name p)"
  shows "(publishes w \<longrightarrow> (\<exists>v. serve w (updateAuthFactors M salt (f_password y) (f_presentation y) (f_recovery y) (f_primary y) (f_privileged y) (profiles s) :: ('k, 'w, 'x, 'y, unit) cwp) s
        = (Some (Inr ()), v) \<and> rekeyed M w y salt (passwordKdf t) (profiles s) v \<and> activeProfileId v = activeProfileId s \<and> presentationKey v = presentationKey s)) \<and>
    (refuses w e \<longrightarrow> (\<exists>v. serve w (updateAuthFactors M salt (f_password y) (f_presentation y) (f_recovery y) (f_primary y) (f_privileged y) (profiles s) :: ('k, 'w, 'x, 'y, unit) cwp) s
        = (Some (Inl e), v) \<and> unlocked M w x t v \<and> profiles v = profiles s \<and> activeProfileId v = activeProfileId s))"
proof -
  obtain i where i: "rootPrivilegedKeyManager s = Some i" "i < length (holders s)" "h_held (holders s ! i) = Some (c_key M (f_privileged x))"
    using s(2) by (auto simp: holds_key_def)
  have S: "authenticated s" "rootPrimaryKey s \<noteq> None" "rootPrivilegedKeyManager s \<noteq> None" "currentUMPToken s = Some t"
    "rootPrimaryKey s = Some (f_primary x)" "length (c_key_bytes M (c_key M (f_privileged x))) \<le> 32" "token_opens M w t x"
    using s(1) by (auto simp: unlocked_def)
  from serve_update [OF M y(1) names S(1-3) s(3) S(4) t, where salt = salt and e = e] obtain t' n where
    t': "new_token_of M w y salt (passwordKdf t) (profiles s) t'"
    and good: "publishes w \<Longrightarrow> \<exists>p u. p \<noteq> [] \<and>
       serve w (updateAuthFactors M salt (f_password y) (f_presentation y) (f_recovery y) (f_primary y) (f_privileged y) (profiles s) :: ('k, 'w, 'x, 'y, unit) cwp) s
       = (Some (Inr ()), s\<lparr>currentUMPToken := Some (t'\<lparr>currentOutpoint := Some p\<rparr>), underlying := Some u, draws := n\<rparr>)"
    and bad: "refuses w e \<Longrightarrow> \<exists>u.
       serve w (updateAuthFactors M salt (f_password y) (f_presentation y) (f_recovery y) (f_primary y) (f_privileged y) (profiles s) :: ('k, 'w, 'x, 'y, unit) cwp) s
       = (Some (Inl e), s\<lparr>underlying := Some u, draws := n\<rparr>)" by blast
  have keep: "rekeyed M w y salt (passwordKdf t) (profiles s) (s\<lparr>currentUMPToken := Some (t'\<lparr>currentOutpoint := Some p\<rparr>), underlying := Some u, draws := n\<rparr>)" for p u
    unfolding rekeyed_def
    using t' S i y by (intro exI [of _ "t'\<lparr>currentOutpoint := Some p\<rparr>"])
      (simp add: unlocked_def new_token_of_def token_opens_cong load_profiles_cong key_ready_held)
  have same: "unlocked M w x t (s\<lparr>underlying := Some u, draws := n\<rparr>)" for u
    using S i by (simp add: unlocked_def key_ready_held)
  show ?thesis
  proof (intro conjI impI)
    assume "publishes w"
    with good keep show "\<exists>v. serve w (updateAuthFactors M salt (f_password y) (f_presentation y) (f_recovery y) (f_primary y) (f_privileged y) (profiles s) :: ('k, 'w, 'x, 'y, unit) cwp) s
        = (Some (Inr ()), v) \<and> rekeyed M w y salt (passwordKdf t) (profiles s) v \<and> activeProfileId v = activeProfileId s \<and> presentationKey v = presentationKey s"
      by fastforce
  next
    assume "refuses w e"
    with bad same show "\<exists>v. serve w (updateAuthFactors M salt (f_password y) (f_presentation y) (f_recovery y) (f_primary y) (f_privileged y) (profiles s) :: ('k, 'w, 'x, 'y, unit) cwp) s
        = (Some (Inl e), v) \<and> unlocked M w x t v \<and> profiles v = profiles s \<and> activeProfileId v = activeProfileId s"
      by fastforce
  qed
qed


section \<open>Changing a factor\<close>

text \<open>A user whose published token opens with \<open>x\<close>, in a manager whose factors can be changed: the root privileged key's bytes are those that were wrapped.\<close>

definition can_change :: "('p, 'k) cwi_fixed \<Rightarrow> ('k, 'w, 'x, 'y) world \<Rightarrow> secrets \<Rightarrow> ump_token \<Rightarrow> ('k, 'w) cwi \<Rightarrow> bool" where
  "can_change M w x t s \<longleftrightarrow> crypto_ok M \<and> wraps_ok M w \<and> builds w \<and> unlocked M w x t s \<and> active_ok s \<and> all_32 x \<and>
     c_key_bytes M (c_key M (f_privileged x)) = f_privileged x \<and> (\<exists>q. currentOutpoint t = Some q \<and> q \<noteq> []) \<and>
     (\<forall>p \<in> set (profiles s). paired (p_name p))"

lemma can_changeD:
  assumes "can_change M w x t s"
  shows "crypto_ok M" "wraps_ok M w" "builds w" "unlocked M w x t s" "active_ok s" "all_32 x"
    "c_key_bytes M (c_key M (f_privileged x)) = f_privileged x" "\<And>p. p \<in> set (profiles s) \<Longrightarrow> paired (p_name p)"
    "ready_for_update s" "currentUMPToken s = Some t" "rootPrimaryKey s = Some (f_primary x)"
  using assms by (auto simp: can_change_def unlocked_def ready_for_update_def)

lemma unlocked_same: "unlocked M w x t s \<Longrightarrow> currentUMPToken s = Some t \<and> rootPrimaryKey s = Some (f_primary x) \<and> ready_for_update s"
  by (auto simp: unlocked_def ready_for_update_def)

text \<open>The publication at the end of an update that began in \<open>s\<close>, from a state \<open>u\<close> that differs quietly.\<close>

lemma rekey_from:
  fixes s u :: "('k, 'w) cwi" and w :: "('k, 'w, 'x, 'y) world"
  assumes c: "can_change M w x t s" and u: "unlocked M w x t u" "holds_key M x u" "quiet s u"
    and y: "all_32 y" "f_primary y = f_primary x" "f_privileged y = f_privileged x"
  shows "(publishes w \<longrightarrow> (\<exists>v. serve w (updateAuthFactors M salt (f_password y) (f_presentation y) (f_recovery y) (f_primary y) (f_privileged y) (profiles s) :: ('k, 'w, 'x, 'y, unit) cwp) u
        = (Some (Inr ()), v) \<and> rekeyed M w y salt (passwordKdf t) (profiles s) v \<and> activeProfileId v = activeProfileId s \<and> presentationKey v = presentationKey s)) \<and>
    (refuses w e \<longrightarrow> (\<exists>v. serve w (updateAuthFactors M salt (f_password y) (f_presentation y) (f_recovery y) (f_primary y) (f_privileged y) (profiles s) :: ('k, 'w, 'x, 'y, unit) cwp) u
        = (Some (Inl e), v) \<and> unlocked M w x t v \<and> profiles v = profiles s \<and> activeProfileId v = activeProfileId s))"
proof -
  obtain q where q: "currentOutpoint t = Some q" "q \<noteq> []" using c by (auto simp: can_change_def)
  note same = quiet_same [OF u(3)]
  have "active_ok u" using can_changeD(5) [OF c] same by simp
  from rekey [OF can_changeD(1-3) [OF c] u(1,2) this y q, of salt e] can_changeD(8) [OF c] same show ?thesis by simp
qed



lemmas serve_heads = serve_guardP serve_needP serve_randomP serve_await serve_bind [of w "guardP P e" for w P e] serve_bind [of w "needP f e" for w f e]
  serve_bind [of w "randomP M n" for w M n] serve_bind [of w "awaitP q g b" for w q g b] serve_bind [of w "readP f" for w f]
  serve_bind [of w "modifyP f" for w f] serve_bind [of w "liftP c" for w c]



section \<open>Profiles\<close>

lemma rewrite:
  fixes s :: "('k, 'w) cwi" and w :: "('k, 'w, 'x, 'y) world"
  assumes c: "can_change M w x t s"
  shows "(publishes w \<longrightarrow> (\<exists>v. serve w (rewrite_profiles M :: ('k, 'w, 'x, 'y, unit) cwp) s = (Some (Inr ()), v) \<and>
      rekeyed M w x (passwordSalt t) (passwordKdf t) (profiles s) v \<and> activeProfileId v = activeProfileId s)) \<and>
    (refuses w e \<longrightarrow> (\<exists>v. serve w (rewrite_profiles M :: ('k, 'w, 'x, 'y, unit) cwp) s = (Some (Inl e), v) \<and>
      unlocked M w x t v \<and> profiles v = profiles s \<and> activeProfileId v = activeProfileId s))"
proof -
  obtain u1 where u1: "\<And>g :: bytes \<Rightarrow> ('k, 'w, 'x, 'y, unit) cwp. serve w (bindP (getFactor M PasswordKey) g) s = serve w (g (factor_value M x PasswordKey)) u1"
    "unlocked M w x t u1" "quiet s u1" by (rule fetch [OF can_changeD(4) [OF c], where f = PasswordKey and 'a = unit]) blast
  obtain u2 where u2: "\<And>g :: bytes \<Rightarrow> ('k, 'w, 'x, 'y, unit) cwp. serve w (bindP (getFactor M PresentationKey) g) u1 = serve w (g (factor_value M x PresentationKey)) u2"
    "unlocked M w x t u2" "quiet u1 u2" by (rule fetch [OF u1(2), where f = PresentationKey and 'a = unit]) blast
  obtain u3 where u3: "\<And>g :: bytes \<Rightarrow> ('k, 'w, 'x, 'y, unit) cwp. serve w (bindP (getFactor M RecoveryKey) g) u2 = serve w (g (factor_value M x RecoveryKey)) u3"
    "unlocked M w x t u3" "quiet u2 u3" by (rule fetch [OF u2(2), where f = RecoveryKey and 'a = unit]) blast
  obtain u4 where u4: "\<And>g :: bytes \<Rightarrow> ('k, 'w, 'x, 'y, unit) cwp. serve w (bindP (getFactor M PrivilegedKey) g) u3 = serve w (g (factor_value M x PrivilegedKey)) u4"
    "unlocked M w x t u4" "holds_key M x u4" "quiet u3 u4" by (rule fetch [OF u3(2), where f = PrivilegedKey and 'a = unit]) blast
  have Q: "quiet s u4" by (rule quiet_trans [OF quiet_trans [OF quiet_trans [OF u1(3) u2(3)] u3(3)] u4(4)])
  have run: "serve w (rewrite_profiles M :: ('k, 'w, 'x, 'y, unit) cwp) s
      = serve w (updateAuthFactors M (passwordSalt t) (f_password x) (f_presentation x) (f_recovery x) (f_primary x) (f_privileged x) (profiles s) :: ('k, 'w, 'x, 'y, unit) cwp) u4"
    using can_changeD(7,10) [OF c] u1(1) u2(1) u3(1) u4(1) unlocked_same [OF u3(2)] quiet_same(4) [OF Q]
    by (simp add: rewrite_profiles_def serve_heads)
  show ?thesis
    unfolding run using rekey_from [OF c u4(2,3) Q can_changeD(6) [OF c] refl refl, of "passwordSalt t" e] by blast
qed


lemma find_profile_append: "find_profile i ps = Some p \<Longrightarrow> find_profile i (ps @ qs) = Some p"
  unfolding find_profile_def by (induction ps) (auto split: if_splits)

lemma profile_keys_append:
  assumes "profile_keys root ps i = Inr k"
  shows "profile_keys root (ps @ qs) i = Inr k"
proof (cases "all_zero i")
  case True
  with assms show ?thesis by (simp add: profile_keys_def)
next
  case False
  with assms obtain p where "find_profile i ps = Some p" by (auto simp: profile_keys_def split: option.splits)
  with assms False show ?thesis by (simp add: profile_keys_def find_profile_append)
qed

text \<open>The state once a profile has been added to the list.\<close>

definition with_profile :: "('p, 'k) cwi_fixed \<Rightarrow> int \<Rightarrow> jstr \<Rightarrow> ('k, 'w) cwi \<Rightarrow> ('k, 'w) cwi" where
  "with_profile M now name s = s\<lparr>draws := draws s + 3, profiles := profiles s @ [\<lparr>p_name = name, p_id = c_random M (draws s) 16,
     p_primaryPad = c_random M (draws s + 1) 32, p_privilegedPad = c_random M (draws s + 2) 32, p_createdAt = now div 1000\<rparr>]\<rparr>"

lemma can_change_with_profile:
  assumes "can_change M w x t s" "paired name"
  shows "can_change M w x t (with_profile M now name s)"
proof -
  have "active_ok (with_profile M now name s)"
  proof (cases "all_zero (activeProfileId s)")
    case True
    with can_changeD(5) [OF assms(1)] show ?thesis by (simp add: active_ok_def with_profile_def)
  next
    case False
    with can_changeD(5) [OF assms(1)] obtain root key pad where
      "rootPrimaryKey s = Some root" "profile_keys root (profiles s) (activeProfileId s) = Inr (key, pad, activeProfileId s)"
      by (auto simp: active_ok_def)
    with False show ?thesis by (simp add: active_ok_def with_profile_def profile_keys_append)
  qed
  with assms show ?thesis by (auto simp: can_change_def with_profile_def unlocked_def)
qed





text \<open>A profile that was added is in the token, and in the list even if it is not. When publication succeeds, \<open>addProfile\<close> answers the new
  identifier and the token, still opened by the same factors, carries the old profiles and the new one. When it fails, the call is
  refused and the token unchanged, but the new profile stays in the manager's list.\<close>

theorem profile_added:
  fixes s :: "('k, 'w) cwi" and w :: "('k, 'w, 'x, 'y) world"
  assumes c: "can_change M w x t s" and name: "\<not> name_taken lower name (profiles s)" "paired name"
  shows "(publishes w \<longrightarrow> (\<exists>v. serve w (addProfile M lower now name :: ('k, 'w, 'x, 'y, bytes) cwp) s = (Some (Inr (c_random M (draws s) 16)), v) \<and>
      rekeyed M w x (passwordSalt t) (passwordKdf t) (profiles (with_profile M now name s)) v)) \<and>
    (refuses w e \<longrightarrow> (\<exists>v. serve w (addProfile M lower now name :: ('k, 'w, 'x, 'y, bytes) cwp) s = (Some (Inl e), v) \<and>
      currentUMPToken v = Some t \<and> profiles v = profiles (with_profile M now name s)))"
proof -
  have run: "serve w (addProfile M lower now name :: ('k, 'w, 'x, 'y, bytes) cwp) s
      = serve w (bindP (rewrite_profiles M) (\<lambda>_. Ret (c_random M (draws s) 16)) :: ('k, 'w, 'x, 'y, bytes) cwp) (with_profile M now name s)"
    using can_changeD(9) [OF c] name(1) by (simp add: addProfile_def serve_heads with_profile_def eval_nat_numeral)
  have "can_change M w x t (with_profile M now name s)" by (rule can_change_with_profile [OF c name(2)])
  from rewrite [OF this, of e] show ?thesis
    unfolding run by (auto simp: serve_bind unlocked_def)
qed

end
