(* ===== verification/UmpSnapshots.thy ===== *)
theory UmpSnapshots
  imports UmpProps
begin

text \<open>
  What the wallet manager writes, it reads back: its token on chain and its snapshots; what remains after a snapshot failed to load; what
  it lets through to the wallet; and the privileged keys of profiles.
\<close>

section \<open>On chain\<close>


section \<open>Snapshots\<close>

lemma token_read_simps [simp]: "token_read (Inr a) = Inr a" "token_read (Inl e) = Inl (CToken e)"
  by (simp_all add: token_read_def)




text \<open>Nothing of a session remains after a snapshot failed to load: whatever the bytes and the outside, if \<open>loadSnapshot\<close>
  throws, the manager is not authenticated and holds neither keys, token, profiles nor wallet.\<close>

theorem failed_load_destroys:
  assumes "serve w (loadSnapshot M b) s = (Some (Inl e), u)"
  shows "\<not> authenticated u \<and> rootPrimaryKey u = None \<and> currentUMPToken u = None \<and> presentationKey u = None \<and> recoveryKey u = None \<and>
    profiles u = [] \<and> underlying u = None \<and> rootPrivilegedKeyManager u = None"
proof -
  have "\<exists>v. u = destroy v"
    using assms by (auto simp: loadSnapshot_def serve_catch serve_bind [of w "modifyP destroy"] split: prod.splits option.splits sum.splits)
  then show ?thesis by (auto simp: destroy_def)
qed

section \<open>The wallet's methods\<close>

text \<open>A call reaches the wallet of the active profile only when the user is authenticated, a wallet is built and the caller does not
  claim the admin originator; it is then passed on unchanged. Otherwise it is refused at once.\<close>

theorem calls_let_through:
  fixes s :: "('k, 'w) cwi"
  shows "((\<exists>k. advance (cwi_forward M m args caller :: ('k, 'w, 'x, 'y, 'y) cwp) s = (s, Await (CallWallet u m args caller) k)) \<longleftrightarrow>
      authenticated s \<and> underlying s = Some u \<and> caller \<noteq> Some (c_admin M)) \<and>
    (\<not> (authenticated s \<and> underlying s \<noteq> None \<and> caller \<noteq> Some (c_admin M)) \<longleftrightarrow>
      (\<exists>e. advance (cwi_forward M m args caller :: ('k, 'w, 'x, 'y, 'y) cwp) s = (s, Throw e)))"
  by (auto simp: cwi_forward_def checkAuthAndUnderlying_def guardP_def needP_def readP_def awaitP_def split: option.splits)

section \<open>Privileged keys of profiles\<close>

text \<open>A profile's privileged key is the root key with the profile's pad, when the root key takes all its 32 bytes; when its leading
  byte is zero (\<open>toArray\<close> drops leading zeros) the key getter of every profile but the default one throws.\<close>

theorem profile_privileged_key:
  fixes s :: "('k, 'w) cwi" and w :: "('k, 'w, 'x, 'y) world"
  assumes "unlocked M w x t s" "length pad = 32"
  shows "fst (serve w (profile_key_getter M (Some pad) reason :: ('k, 'w, 'x, 'y, 'k) cwp) s) =
    (let root = c_key_bytes M (c_key M (f_privileged x)) in
     Some (if length root = 32 then Inr (c_key M (map2 (XOR) root pad)) else Inl (CErr ''XOR length mismatch'')))"
proof -
  obtain i where i: "rootPrivilegedKeyManager s = Some i" using assms(1) by (auto simp: unlocked_def)
  from serve_getPrivilegedKey [OF assms(1) i, of reason] obtain u where
    "serve w (getPrivilegedKey M i reason :: ('k, 'w, 'x, 'y, 'k) cwp) s = (Some (Inr (c_key M (f_privileged x))), u)" by blast
  with i assms(2) show ?thesis by (simp add: profile_key_getter_def run_simps xor_bytes_def)
qed

end
