(* ===== verification/UmpDemo.thy ===== *)
theory UmpDemo
  imports UmpFactors UmpSnapshots
begin

text \<open>
  The properties of the wallet manager at work: a codec, a cipher that only the key that encrypted opens, an outside that answers, a
  token, and a state, at which the hypotheses of the properties hold.
\<close>

definition demo_codec :: "bytes list \<Rightarrow> unit codec" where
  "demo_codec flds = \<lparr>u_utf8 = (\<lambda>s. s), u_toUTF8 = (\<lambda>s. s), u_varInt = (\<lambda>n. [n]),
     u_readVarInt = (\<lambda>r. case r of [] \<Rightarrow> None | n # t \<Rightarrow> Some (n, t)), u_readByte = (\<lambda>r. case r of [] \<Rightarrow> None | n # t \<Rightarrow> Some (n, t)),
     u_read = (\<lambda>n r. if n \<le> length r then Some (take n r, drop n r) else None),
     u_decode = (\<lambda>_ _. Some (js ''tx'', flds, ())), u_verify = (\<lambda>_ _ _. Some True)\<rparr>"

definition demo_decrypt :: "bytes \<Rightarrow> bytes \<Rightarrow> bytes option" where
  "demo_decrypt k c = (case c of [] \<Rightarrow> None | n # r \<Rightarrow> if n = length k \<and> take n r = k then Some (drop n r) else None)"

definition demo_fixed :: "(unit, bytes) cwi_fixed" where
  "demo_fixed = \<lparr>c_codec = demo_codec [], c_sha256 = rev, c_encrypt = (\<lambda>k n t. length k # k @ t), c_decrypt = demo_decrypt,
     c_key = (\<lambda>b. b), c_key_bytes = (\<lambda>b. b), c_identity = (\<lambda>b. b), c_random = (\<lambda>n k. replicate k n), c_subtle = True, c_funder = False,
     c_admin = js ''admin'', c_kdfConfig = default_kdf None None None None None\<rparr>"

abbreviation factor_of :: "nat \<Rightarrow> bytes" where
  "factor_of n \<equiv> replicate 32 n"

fun demo_world :: "ump_token \<Rightarrow> bool \<Rightarrow> (bytes, unit, unit, unit) world" where
  "demo_world t ok (FindByPresentationKeyHash h) = Inr (AToken (Some t))"
| "demo_world t ok (FindByRecoveryKeyHash h) = Inr (AToken (Some t))"
| "demo_world t ok (BuildAndSend u n old) = (if ok then Inr (AOutpoint [49]) else Inl (CErr ''broadcast failed''))"
| "demo_world t ok (SaveRecoveryKey k) = Inr ADone"
| "demo_world t ok (RetrievePassword reason) = Inr (AText [])"
| "demo_world t ok (FundNewWallet p u) = Inr ADone"
| "demo_world t ok (BuildWallet k pad i) = Inr (AWallet ())"
| "demo_world t ok (Pbkdf2Native p s n) = Inr (ABytes (factor_of 7))"
| "demo_world t ok (Pbkdf2Wasm p s n) = Inr (ABytes (factor_of 7))"
| "demo_world t ok (Argon2id p s a b c d) = Inr (ABytes (factor_of 5))"
| "demo_world t ok (WrapKey k n b) = Inr (ABytes (0 # b))"
| "demo_world t ok (UnwrapKey k c) = Inr (ABytes (tl c))"
| "demo_world t ok (CallWallet u m x c) = Inr (AResult ())"
| "demo_world t ok Sleep100 = Inr ADone"

definition demo_cipher :: "nat \<Rightarrow> nat \<Rightarrow> nat \<Rightarrow> bytes" where
  "demo_cipher a b c = c_encrypt demo_fixed (map2 (XOR) (factor_of a) (factor_of b)) 0 (factor_of c)"

text \<open>Presentation key 1, recovery key 2, root keys 3 and 4, password key \<open>d\<close>.\<close>

definition demo_token :: "kdf_params option \<Rightarrow> ump_token" where
  "demo_token kdf = \<lparr>passwordSalt = [9], passwordPresentationPrimary = demo_cipher 1 5 3, passwordRecoveryPrimary = demo_cipher 2 5 3,
     presentationRecoveryPrimary = demo_cipher 1 2 3, passwordPrimaryPrivileged = demo_cipher 3 5 4, presentationRecoveryPrivileged = demo_cipher 1 2 4,
     presentationHash = c_sha256 demo_fixed (factor_of 1), recoveryHash = c_sha256 demo_fixed (factor_of 2),
     presentationKeyEncrypted = 0 # factor_of 1, passwordKeyEncrypted = 0 # factor_of 5, recoveryKeyEncrypted = 0 # factor_of 2,
     profilesEncrypted = None, umpVersion = map_option (\<lambda>_. 3) kdf, passwordKdf = kdf, currentOutpoint = Some [48]\<rparr>"

abbreviation demo_secrets :: secrets where
  "demo_secrets \<equiv> Secrets (factor_of 1) (factor_of 2) (factor_of 5) (factor_of 3) (factor_of 4)"

abbreviation demo_kdf :: kdf_params where
  "demo_kdf \<equiv> c_kdfConfig demo_fixed"

definition demo_state :: "kdf_params option \<Rightarrow> (bytes, unit) cwi" where
  "demo_state kdf = new_cwi\<lparr>authenticated := True, currentUMPToken := Some (demo_token kdf), rootPrimaryKey := Some (factor_of 3),
     underlying := Some (), rootPrivilegedKeyManager := Some 0, holders := [\<lparr>h_oneTime = None, h_held = Some (factor_of 4)\<rparr>]\<rparr>"

lemma demo_codec_ok: "codec_ok (demo_codec flds)"
  by (simp add: codec_ok_def demo_codec_def)



lemma demo_crypto: "crypto_ok demo_fixed"
  using demo_codec_ok by (simp add: crypto_ok_def demo_fixed_def demo_decrypt_def)

lemma demo_outside: "wraps_ok demo_fixed (demo_world t ok)" "builds (demo_world t ok)" "publishes (demo_world t True)"
  "refuses (demo_world t False) (CErr ''broadcast failed'')"
  by (simp_all add: wraps_ok_def builds_def publishes_def refuses_def)

lemma demo_opens: "opens demo_fixed (factor_of a) (factor_of b) (demo_cipher a b c) (factor_of c)"
  unfolding demo_cipher_def by (rule opensI [OF demo_crypto]) simp

lemma demo_token_opens: "token_opens demo_fixed (demo_world t ok) (demo_token kdf) demo_secrets"
  by (simp add: token_opens_def demo_token_def demo_opens Let_def del: One_nat_def)

lemma demo_derives: "derives demo_fixed (demo_world t ok) salt (Some demo_kdf) pw (factor_of 5)"
  "derives demo_fixed (demo_world t ok) salt None pw (factor_of 7)"
  by (simp_all add: derives_def derivePasswordKey_def pbkdf2NativeOrWasm_def run_simps demo_fixed_def default_kdf_def or_else_def Let_def)
    (simp_all add: js_def run_simps)


lemma demo_can_change: "can_change demo_fixed (demo_world t ok) demo_secrets (demo_token kdf) (demo_state kdf)"
  using demo_crypto demo_outside demo_token_opens
  by (simp add: can_change_def unlocked_def demo_state_def active_ok_def new_cwi_def all_32_def key_ready_def)
    (simp add: demo_fixed_def demo_token_def)

lemma demo_loads: "load_profiles demo_fixed R (demo_token kdf) = Inr []"
  by (simp add: load_profiles_def demo_token_def)


section \<open>Witnesses\<close>

theorem any_two_factors_witness:
  "logs_in demo_fixed (demo_world (demo_token (Some demo_kdf)) True) demo_secrets (demo_token (Some demo_kdf)) []
     (by_recovery_and_password demo_fixed (factor_of 2) []) (new_cwi\<lparr>authenticationMode := RecoveryAndPassword\<rparr>)"
proof -
  let ?t = "demo_token (Some demo_kdf)" and ?s = "new_cwi\<lparr>authenticationMode := RecoveryAndPassword\<rparr> :: (bytes, unit) cwi"
  have "length (c_key_bytes demo_fixed (c_key demo_fixed (factor_of 4))) \<le> 32" by (simp add: demo_fixed_def)
  moreover have "derives demo_fixed (demo_world ?t True) (passwordSalt ?t) (passwordKdf ?t) [] (factor_of 5)"
    using demo_derives(1) by (simp add: demo_token_def)
  ultimately show ?thesis
    using any_two_factors [OF demo_token_opens demo_loads, of ?t True "Some demo_kdf" "[]" ?s] demo_outside(2)
    by (simp add: new_cwi_def)
qed

definition demo_new_user :: "(bytes, unit) cwi" where
  "demo_new_user = new_cwi\<lparr>presentationKey := Some (factor_of 1)\<rparr>"

lemma demo_new_user_ready: "new_user_ready demo_fixed (demo_world t ok) (factor_of 1) (factor_of 5) [] demo_new_user"
  using demo_derives(1) by (simp add: new_user_ready_def demo_new_user_def new_cwi_def)


theorem registration_unpublished_witness:
  "\<exists>u. authenticated u \<and> fst (serve (demo_world (demo_token None) False) (saveSnapshot demo_fixed :: (bytes, unit, unit, unit, bytes) cwp) u) = Some (Inl (CToken NoOutpoint))"
  using registration_unpublished [OF demo_crypto demo_outside(1,2,4) demo_new_user_ready, of "demo_token None"] by blast



theorem profile_added_witness:
  "\<exists>v. serve (demo_world (demo_token None) False) (addProfile demo_fixed (\<lambda>n. n) 0 (js ''work'') :: (bytes, unit, unit, unit, bytes) cwp) (demo_state (Some demo_kdf))
       = (Some (Inl (CErr ''broadcast failed'')), v) \<and> currentUMPToken v = Some (demo_token (Some demo_kdf)) \<and> length (profiles v) = 1"
proof -
  have n: "\<not> name_taken (\<lambda>n. n) (js ''work'') (profiles (demo_state (Some demo_kdf)))"
    by (simp add: name_taken_def demo_state_def new_cwi_def js_def)
  have "length (profiles (with_profile demo_fixed 0 (js ''work'') (demo_state (Some demo_kdf)))) = 1"
    by (simp add: with_profile_def demo_state_def new_cwi_def)
  then show ?thesis
    using profile_added [OF demo_can_change n paired_js, of "demo_token None" False 0 "CErr ''broadcast failed''"] demo_outside(4)
    by fastforce
qed



theorem failed_load_destroys_witness:
  "\<exists>u. serve (demo_world (demo_token None) True) (loadSnapshot demo_fixed [3] :: (bytes, unit, unit, unit, unit) cwp) (demo_state None)
      = (Some (Inl (CWrap ''Failed to load snapshot: '' (CErr ''Unsupported snapshot version''))), u) \<and> rootPrimaryKey u = None"
proof -
  have "open_snapshot demo_fixed [3] = Inl (CErr ''Unsupported snapshot version'')"
    by (simp add: open_snapshot_def demo_fixed_def demo_codec_def Let_def)
  then have "\<exists>u. serve (demo_world (demo_token None) True) (loadSnapshot demo_fixed [3] :: (bytes, unit, unit, unit, unit) cwp) (demo_state None)
      = (Some (Inl (CWrap ''Failed to load snapshot: '' (CErr ''Unsupported snapshot version''))), u)"
    by (simp add: loadSnapshot_def run_simps)
  with failed_load_destroys show ?thesis by blast
qed

theorem profile_privileged_key_witness:
  "fst (serve (demo_world (demo_token None) True) (profile_key_getter demo_fixed (Some (factor_of 8)) None :: (bytes, unit, unit, unit, bytes) cwp) (demo_state None))
     = Some (Inr (map2 (XOR) (factor_of 4) (factor_of 8)))"
  using profile_privileged_key [OF can_changeD(4) [OF demo_can_change [of "demo_token None" True None]], of "factor_of 8" None]
  by (simp add: demo_fixed_def)

end
