(* ===== verification/KeyGuard.thy ===== *)
theory KeyGuard
  imports Async JsText
begin

text \<open>
  The privileged key manager (\<^verbatim>\<open>src/src/sdk/PrivilegedKeyManager.ts\<close>): the key is kept for a while, split into four chunks, each
  XORed with a random pad, under random property names among decoys.

  The manager's properties are a map from names to bytes. What the SDK provides is the record \<open>guard_sdk\<close>: random bytes (the results of numbered
  draws), hexadecimal text, and private keys with their bytes. The timer is the time at which the key will be destroyed; \<open>guard_tick\<close> lets time pass.
  Setting a byte array to zero before its property is deleted leaves no trace in the model.
\<close>

unbundle bit_operations_syntax

type_synonym octets = "nat list"




section \<open>Bytes\<close>

definition xorBytes :: "octets \<Rightarrow> octets \<Rightarrow> octets" where
  "xorBytes a b = map (\<lambda>i. (a ! i) XOR (if i < length b then b ! i else 0)) [0..<length a]"




section \<open>Random names\<close>


section \<open>Storing, reassembling, destroying\<close>












section \<open>The manager\<close>

datatype guard_error = TooLong | KeyGetterFailed jstr




section \<open>What was stored is reassembled\<close>


lemma length_xorBytes [simp]: "length (xorBytes a b) = length a"
  by (simp add: xorBytes_def)










section \<open>Retention\<close>








end
