(* ===== verification/MerklePaths.thy ===== *)
theory MerklePaths
  imports JsBits
begin

text \<open>
  Merkle roots and merkle paths: \<open>convertProofToMerklePath\<close> (\<^verbatim>\<open>src/src/utility/tscProofToMerklePath.ts\<close>), which turns the proofs of
  the services into the SDK's paths, and \<open>computeMerkleRoot\<close> and \<open>computeMerklePath\<close> (\<^verbatim>\<open>src/src/mockchain/merkleTree.ts\<close>).

  Hashes are strings of hexadecimal digits in the reversed byte order; what is hashed are bytes in the natural one. The SDK's hash
  and conversions are the record \<open>merkle_sdk\<close>. A path is the height of its block with the leaves of its levels, the arguments of the SDK's
  \<open>MerklePath\<close>; \<open>path_root\<close> is the specification of the root such a path claims for the transaction it is made for.
\<close>

type_synonym mbytes = "nat list"

record merkle_sdk =
  mk_toArray :: "jstr \<Rightarrow> mbytes"
  mk_toHex :: "mbytes \<Rightarrow> jstr"
  mk_hash256 :: "mbytes \<Rightarrow> mbytes"

record merkle_leaf =
  leaf_offset :: int
  leaf_hash :: "jstr option"
  leaf_txid :: bool
  leaf_duplicate :: bool

record tsc_proof =
  tsc_height :: int
  tsc_index :: int
  tsc_nodes :: "jstr list"


type_synonym merkle_path = "int \<times> merkle_leaf list list"

section \<open>The root\<close>

definition doubleSha256BE :: "merkle_sdk \<Rightarrow> mbytes \<Rightarrow> mbytes" where
  "doubleSha256BE S bs = rev (mk_hash256 S bs)"

text \<open>One turn of the loop: pairs are hashed, the last one with itself when it has no partner.\<close>

fun next_level :: "merkle_sdk \<Rightarrow> mbytes list \<Rightarrow> mbytes list" where
  "next_level S [] = []"
| "next_level S [a] = [rev (doubleSha256BE S (a @ a))]"
| "next_level S (a # b # l) = rev (doubleSha256BE S (a @ b)) # next_level S l"

lemma length_next_level [simp]: "length (next_level S l) = (length l + 1) div 2"
  by (induction S l rule: next_level.induct) simp_all




section \<open>The path of a transaction in its block\<close>

definition plain_leaf :: "int \<Rightarrow> jstr \<Rightarrow> merkle_leaf" where
  "plain_leaf n h = \<lparr>leaf_offset = n, leaf_hash = Some h, leaf_txid = False, leaf_duplicate = False\<rparr>"

definition txid_leaf :: "int \<Rightarrow> jstr \<Rightarrow> merkle_leaf" where
  "txid_leaf n h = \<lparr>leaf_offset = n, leaf_hash = Some h, leaf_txid = True, leaf_duplicate = False\<rparr>"

definition duplicate_leaf :: "int \<Rightarrow> merkle_leaf" where
  "duplicate_leaf n = \<lparr>leaf_offset = n, leaf_hash = None, leaf_txid = False, leaf_duplicate = True\<rparr>"



fun next_txids :: "merkle_sdk \<Rightarrow> jstr list \<Rightarrow> jstr list" where
  "next_txids S [] = []"
| "next_txids S [a] = (let left = rev (mk_toArray S a) in [mk_toHex S (doubleSha256BE S (left @ left))])"
| "next_txids S (a # b # l) = mk_toHex S (doubleSha256BE S (rev (mk_toArray S a) @ rev (mk_toArray S b))) # next_txids S l"






section \<open>The path of a proof\<close>

definition proof_leaf :: "jstr \<Rightarrow> nat \<Rightarrow> int \<Rightarrow> jstr \<Rightarrow> merkle_leaf" where
  "proof_leaf txid level offset node = (if node = js ''*'' \<or> (level = 0 \<and> node = txid) then duplicate_leaf offset else plain_leaf offset node)"

fun proof_levels :: "jstr \<Rightarrow> int \<Rightarrow> nat \<Rightarrow> int \<Rightarrow> jstr list \<Rightarrow> merkle_leaf list list" where
  "proof_levels txid i level index [] = []"
| "proof_levels txid i level index (node # nodes) =
     (let isOdd = (0 < index \<and> index mod 2 = 1); leaf = proof_leaf txid level (if isOdd then index - 1 else index + 1) node; t = txid_leaf i txid
      in (if level = 0 then (if isOdd then [leaf, t] else [t, leaf]) else [leaf]) #
         proof_levels txid i (Suc level) (js_sar index 1) nodes)"

definition convertProofToMerklePath :: "jstr \<Rightarrow> tsc_proof \<Rightarrow> merkle_path" where
  "convertProofToMerklePath txid p = (tsc_height p, proof_levels txid (tsc_index p) 0 (tsc_index p) (tsc_nodes p))"

section \<open>What paths and proofs claim\<close>

text \<open>A step up: the hash of the node so far with its sibling at the level; without a sibling the path is no path.\<close>

definition pair_hash :: "merkle_sdk \<Rightarrow> mbytes \<Rightarrow> mbytes \<Rightarrow> mbytes" where
  "pair_hash S a b = mk_hash256 S (a @ b)"

definition other_offset :: "int \<Rightarrow> int" where
  "other_offset i = (if odd i then i - 1 else i + 1)"

definition climb :: "merkle_sdk \<Rightarrow> int \<Rightarrow> mbytes \<Rightarrow> merkle_leaf option \<Rightarrow> mbytes option" where
  "climb S i w leaf = (case leaf of None \<Rightarrow> None
     | Some s \<Rightarrow> if leaf_duplicate s then Some (pair_hash S w w)
         else (case leaf_hash s of None \<Rightarrow> None
           | Some h \<Rightarrow> let b = rev (mk_toArray S h) in Some (if odd i then pair_hash S b w else pair_hash S w b)))"

fun climb_levels :: "merkle_sdk \<Rightarrow> int \<Rightarrow> mbytes \<Rightarrow> merkle_leaf list list \<Rightarrow> mbytes option" where
  "climb_levels S i w [] = Some w"
| "climb_levels S i w (l # ls) = (case climb S i w (find (\<lambda>s. leaf_offset s = other_offset i) l) of
      None \<Rightarrow> None | Some w' \<Rightarrow> climb_levels S (i div 2) w' ls)"

text \<open>The root a path claims for the leaf that is marked as the transaction's. A single leaf is the root.\<close>

fun path_root :: "merkle_sdk \<Rightarrow> merkle_path \<Rightarrow> jstr option" where
  "path_root S (height, path) = (case path of [] \<Rightarrow> None
     | l # ls \<Rightarrow> (case find leaf_txid l of
         Some t \<Rightarrow> (case leaf_hash t of None \<Rightarrow> None
           | Some h \<Rightarrow> if path = [[t]] then Some h
               else map_option (\<lambda>w. mk_toHex S (rev w)) (climb_levels S (leaf_offset t) (rev (mk_toArray S h)) path))
       | None \<Rightarrow> None))"

text \<open>The root a proof of a service claims: its nodes from the bottom, \<open>'*'\<close> for a node that is paired with itself.\<close>

fun climb_nodes :: "merkle_sdk \<Rightarrow> int \<Rightarrow> mbytes \<Rightarrow> jstr list \<Rightarrow> mbytes" where
  "climb_nodes S i w [] = w"
| "climb_nodes S i w (n # ns) = climb_nodes S (i div 2)
     (if n = js ''*'' then pair_hash S w w
      else if odd i then pair_hash S (rev (mk_toArray S n)) w else pair_hash S w (rev (mk_toArray S n))) ns"

definition tsc_root :: "merkle_sdk \<Rightarrow> jstr \<Rightarrow> tsc_proof \<Rightarrow> jstr" where
  "tsc_root S txid p = mk_toHex S (rev (climb_nodes S (tsc_index p) (rev (mk_toArray S txid)) (tsc_nodes p)))"

section \<open>The path leads to the root\<close>

text \<open>The bytes of a hash; the SDK reads back the digits it wrote, and the transaction ids are such digits.\<close>

abbreviation hash_bytes :: "merkle_sdk \<Rightarrow> jstr \<Rightarrow> mbytes" where
  "hash_bytes S t \<equiv> rev (mk_toArray S t)"




lemma length_next_txids [simp]: "length (next_txids S l) = (length l + 1) div 2"
  by (induction S l rule: next_txids.induct) (simp_all add: Let_def)




lemma path_root_long:
  assumes "find leaf_txid l = Some (txid_leaf n t)" "length l = 2"
  shows "path_root S (h, l # ls) = map_option (\<lambda>w. mk_toHex S (rev w)) (climb_levels S n (hash_bytes S t) (l # ls))"
proof -
  obtain a b where "l = [a, b]" using assms(2) by (auto simp: length_Suc_conv numeral_2_eq_2)
  with assms(1) show ?thesis by (simp add: txid_leaf_def del: climb_levels.simps split: if_splits)
qed


text \<open>A proof's index is a number of 32 bits, so that the shift to the right halves it.\<close>

lemma js_sar_half: "0 \<le> i \<Longrightarrow> i < 2147483648 \<Longrightarrow> js_sar i 1 = i div 2"
  by (simp add: js_to_bits to_int32_bits to_int32_def drop_bit_eq_div)

lemma proof_leaf_offset [simp]: "leaf_offset (proof_leaf txid level n node) = n"
  by (simp add: proof_leaf_def duplicate_leaf_def plain_leaf_def)

lemma proof_climb:
  assumes "0 \<le> i" "i < 2147483648" "level = 0 \<longrightarrow> w = hash_bytes S txid \<and> i = i0"
  shows "climb_levels S i w (proof_levels txid i0 level i nodes) = Some (climb_nodes S i w nodes)"
  using assms
proof (induction nodes arbitrary: i w level)
  case (Cons node nodes)
  let ?leaf = "proof_leaf txid level (other_offset i) node"
  let ?l = "if level = 0 then (if odd i then [?leaf, txid_leaf i0 txid] else [txid_leaf i0 txid, ?leaf]) else [?leaf]"
  have o: "(0 < i \<and> i mod 2 = 1) = odd i" using Cons.prems(1) by (cases "i = 0") (auto simp: odd_iff_mod_2_eq_one)
  have p: "proof_levels txid i0 level i (node # nodes) = ?l # proof_levels txid i0 (Suc level) (i div 2) nodes"
    unfolding proof_levels.simps Let_def o js_sar_half [OF Cons.prems(1,2)] other_offset_def by (rule refl)
  have "other_offset i \<noteq> i" by (simp add: other_offset_def)
  then have "find (\<lambda>s. leaf_offset s = other_offset i) ?l = Some ?leaf"
    using Cons.prems(3) by (auto simp: txid_leaf_def)
  then have f: "climb_levels S i w (proof_levels txid i0 level i (node # nodes)) = (case climb S i w (Some ?leaf) of
      None \<Rightarrow> None | Some w' \<Rightarrow> climb_levels S (i div 2) w' (proof_levels txid i0 (Suc level) (i div 2) nodes))"
    unfolding p by (simp only: climb_levels.simps)
  let ?w = "if node = js ''*'' then pair_hash S w w
      else if odd i then pair_hash S (hash_bytes S node) w else pair_hash S w (hash_bytes S node)"
  have "climb S i w (Some ?leaf) = Some ?w"
    using Cons.prems(3) by (auto simp: climb_def proof_leaf_def duplicate_leaf_def plain_leaf_def Let_def)
  moreover have "climb_levels S (i div 2) ?w (proof_levels txid i0 (Suc level) (i div 2) nodes) = Some (climb_nodes S (i div 2) ?w nodes)"
    by (rule Cons.IH) (use Cons.prems in auto)
  ultimately show ?case unfolding f climb_nodes.simps by simp
qed simp

text \<open>C17: The path made of a service's proof claims the root the proof claims.\<close>

theorem proof_path_root:
  assumes "tsc_nodes p \<noteq> []" "0 \<le> tsc_index p" "tsc_index p < 2147483648"
  shows "fst (convertProofToMerklePath txid p) = tsc_height p \<and>
     path_root S (convertProofToMerklePath txid p) = Some (tsc_root S txid p)"
proof -
  obtain node nodes where n: "tsc_nodes p = node # nodes" using assms(1) by (cases "tsc_nodes p") auto
  let ?ls = "proof_levels txid (tsc_index p) 0 (tsc_index p) (tsc_nodes p)"
  obtain l ls where l: "?ls = l # ls" by (simp add: n Let_def)
  have "find leaf_txid l = Some (txid_leaf (tsc_index p) txid)" "length l = 2"
    using l by (auto simp: n Let_def proof_leaf_def duplicate_leaf_def plain_leaf_def txid_leaf_def split: if_splits)
  moreover have "climb_levels S (tsc_index p) (hash_bytes S txid) ?ls = Some (climb_nodes S (tsc_index p) (hash_bytes S txid) (tsc_nodes p))"
    by (rule proof_climb) (use assms in auto)
  ultimately show ?thesis by (simp add: convertProofToMerklePath_def tsc_root_def path_root_long l del: proof_levels.simps path_root.simps climb_levels.simps)
qed

section \<open>Witnesses\<close>

text \<open>A hash that forgets little, and strings that are their bytes: three transactions, the last paired with itself.\<close>

definition demo_merkle :: merkle_sdk where
  "demo_merkle = \<lparr>mk_toArray = (\<lambda>t. t), mk_toHex = (\<lambda>b. b), mk_hash256 = (\<lambda>b. length b # b)\<rparr>"


lemma proof_path_root_witness:
  "fst (convertProofToMerklePath [3] \<lparr>tsc_height = 700, tsc_index = 2, tsc_nodes = [js ''*'', [9]]\<rparr>) = 700 \<and>
   path_root demo_merkle (convertProofToMerklePath [3] \<lparr>tsc_height = 700, tsc_index = 2, tsc_nodes = [js ''*'', [9]]\<rparr>)
     = Some (tsc_root demo_merkle [3] \<lparr>tsc_height = 700, tsc_index = 2, tsc_nodes = [js ''*'', [9]]\<rparr>)"
  using proof_path_root [of "\<lparr>tsc_height = 700, tsc_index = 2, tsc_nodes = [js ''*'', [9]]\<rparr>" "[3]" demo_merkle] by simp

end
