(* ===== verification/SyncChunks.thy ===== *)
theory SyncChunks
  imports Prelude Complex_Main
begin

text \<open>
  Synchronising one store with another, chunk by chunk: what the reader sends (\<^verbatim>\<open>src/src/storage/methods/getSyncChunk.ts\<close>), what the
  writer does with it (\<^verbatim>\<open>src/src/storage/schema/entities/EntitySyncState.ts\<close>, \<^verbatim>\<open>MergeEntity.ts\<close>) and the loop around both
  (\<open>syncToWriter\<close> and \<open>syncFromReader\<close> of \<^verbatim>\<open>src/src/storage/WalletStorageManager.ts\<close>).

  The reader's queries are the record \<open>sync_reader\<close>; it does not change while a chunk is made. What the writer's tables do
  with a row (\<open>mergeFind\<close>, \<open>mergeExisting\<close>, \<open>mergeNew\<close> of the entity classes) is the record \<open>sync_writer\<close>, over the writer's state.
  Of a row the model has its id, its \<open>updated_at\<close>, the length of its JSON text, whether \<open>checkEntityValues\<close> accepts it, and its data.
  Dates are milliseconds. The twelve arrays of a chunk are a function of the table, \<open>None\<close> for an array that is not there.
\<close>

section \<open>Data\<close>

datatype sync_table = ProvenTxE | OutputBasketE | OutputTagE | TxLabelE | TransactionE | OutputE | TxLabelMapE | OutputTagMapE
  | CertificateE | CertificateFieldE | CommissionE | ProvenTxReqE

record 'd sync_item =
  si_id :: int
  si_updated_at :: int
  si_size :: int
  si_valid :: bool
  si_data :: 'd

record sync_user =
  su_userId :: int
  su_updated_at :: int
  su_activeStorage :: "jstr option"

record sync_args =
  sa_identityKey :: jstr
  sa_from :: jstr
  sa_to :: jstr
  sa_since :: "int option"
  sa_maxRoughSize :: int
  sa_maxItems :: int
  sa_offsets :: "(sync_table \<times> int) list"

record 'd sync_chunk =
  sc_from :: jstr
  sc_to :: jstr
  sc_identityKey :: jstr
  sc_user :: "sync_user option"
  sc_items :: "sync_table \<Rightarrow> 'd sync_item list option"

record 'd sync_reader =
  rd_user :: "jstr \<Rightarrow> sync_user option"
  rd_find :: "sync_table \<Rightarrow> int \<Rightarrow> int option \<Rightarrow> rat \<Rightarrow> int \<Rightarrow> 'd sync_item list"

datatype sync_error = NoSuchUser | OffsetsOutOfOrder sync_table | BadEntity | BadId | IdOverridden | WriterFailed jstr

text \<open>The order of the chunkers, of the offsets and of the merges: rows come after the rows they refer to.\<close>

definition sync_order :: "sync_table list" where
  "sync_order = [ProvenTxE, OutputBasketE, OutputTagE, TxLabelE, TransactionE, OutputE, TxLabelMapE, OutputTagMapE,
     CertificateE, CertificateFieldE, CommissionE, ProvenTxReqE]"

fun maxDivider :: "sync_table \<Rightarrow> nat" where
  "maxDivider ProvenTxE = 100"
| "maxDivider ProvenTxReqE = 100"
| "maxDivider TransactionE = 25"
| "maxDivider OutputE = 25"
| "maxDivider CertificateE = 25"
| "maxDivider CertificateFieldE = 25"
| "maxDivider CommissionE = 25"
| "maxDivider _ = 1"

section \<open>A chunk\<close>

text \<open>The local variables of \<open>getSyncChunk\<close>.\<close>

record 'd chunking =
  ch_i :: nat
  ch_done :: bool
  ch_itemCount :: int
  ch_roughSize :: int
  ch_items :: "sync_table \<Rightarrow> 'd sync_item list option"

definition pre_add :: "sync_table \<Rightarrow> 'd chunking \<Rightarrow> 'd chunking" where
  "pre_add t c = c\<lparr>ch_items := (ch_items c)(t := Some [])\<rparr>"

definition add_item :: "sync_table \<Rightarrow> 'd sync_item \<Rightarrow> 'd chunking \<Rightarrow> 'd chunking" where
  "add_item t x c = c\<lparr>ch_items := (ch_items c)(t := map_option (\<lambda>xs. xs @ [x]) (ch_items c t)),
     ch_itemCount := ch_itemCount c - 1, ch_roughSize := ch_roughSize c - si_size x\<rparr>"

fun add_page :: "sync_table \<Rightarrow> 'd sync_item list \<Rightarrow> int \<Rightarrow> 'd chunking \<Rightarrow> int \<times> 'd chunking" where
  "add_page t [] offset c = (offset, c)"
| "add_page t (x # xs) offset c = (let c' = add_item t x c in
     if ch_itemCount c' \<le> 0 \<or> ch_roughSize c' < 0 then (offset + 1, c'\<lparr>ch_done := True\<rparr>) else add_page t xs (offset + 1) c')"

lemma add_page_itemCount: "ch_itemCount (snd (add_page t xs offset c)) \<le> ch_itemCount c - of_bool (xs \<noteq> [])"
proof (induction xs arbitrary: offset c)
  case (Cons x xs)
  have "ch_itemCount (snd (add_page t xs (offset + 1) (add_item t x c))) \<le> ch_itemCount (add_item t x c) - of_bool (xs \<noteq> [])"
    by (rule Cons.IH)
  moreover have "ch_itemCount (add_item t x c) = ch_itemCount c - 1" by (simp add: add_item_def)
  ultimately show ?case by (cases "xs = []") (auto simp: Let_def)
qed simp

definition page_limit :: "sync_args \<Rightarrow> sync_table \<Rightarrow> int \<Rightarrow> rat" where
  "page_limit a t n = min (rat_of_int n) (max 10 (rat_of_int (sa_maxItems a) / rat_of_nat (maxDivider t)))"

text \<open>The loop over the pages of a table; \<open>pre\<close>: \<open>preAdd\<close> has been called.\<close>

function add_pages :: "'d sync_reader \<Rightarrow> sync_args \<Rightarrow> int \<Rightarrow> sync_table \<Rightarrow> bool \<Rightarrow> int \<Rightarrow> 'd chunking \<Rightarrow> sync_error + 'd chunking" where
  "add_pages R a userId t pre offset c =
     (if ch_done c \<or> page_limit a t (ch_itemCount c) \<le> 0 then Inr c
      else (let items = rd_find R t userId (sa_since a) (page_limit a t (ch_itemCount c)) offset;
                c1 = (if pre then c else pre_add t c) in
        if \<not> list_all si_valid items then Inl BadEntity
        else if items = [] then Inr c1
        else add_pages R a userId t True (fst (add_page t items offset c1)) (snd (add_page t items offset c1))))"
  by pat_completeness auto
termination
proof (relation "measure (\<lambda>(R, a, userId, t, pre, offset, c). nat (ch_itemCount c))", goal_cases)
  case (2 R a userId t pre offset c items c1)
  from 2(1) have "0 < ch_itemCount c" by (auto simp: page_limit_def min_def split: if_splits)
  moreover have "ch_itemCount c1 = ch_itemCount c" using 2(3) by (simp add: pre_add_def)
  ultimately show ?case using add_page_itemCount [of t items offset c1] 2(5) by (simp add: case_prod_unfold)
qed simp

declare add_pages.simps [simp del]

definition addItems :: "'d sync_reader \<Rightarrow> sync_args \<Rightarrow> int \<Rightarrow> sync_table \<Rightarrow> 'd chunking \<Rightarrow> sync_error + 'd chunking" where
  "addItems R a userId t c = (if length (sa_offsets a) \<le> ch_i c then Inr (c\<lparr>ch_done := True\<rparr>)
     else (let (name, offset) = sa_offsets a ! ch_i c; c' = c\<lparr>ch_i := ch_i c + 1\<rparr> in
       if t \<noteq> name then Inl (OffsetsOutOfOrder t) else add_pages R a userId t False offset c'))"

fun chunk_round :: "'d sync_reader \<Rightarrow> sync_args \<Rightarrow> int \<Rightarrow> sync_table list \<Rightarrow> 'd chunking \<Rightarrow> sync_error + 'd chunking" where
  "chunk_round R a userId [] c = Inr c"
| "chunk_round R a userId (t # ts) c = bindE (addItems R a userId t c) (chunk_round R a userId ts)"

text \<open>\<open>for (; !done;)\<close>: a round that does not end it has used twelve offsets, so one round more than there are offsets is enough.\<close>

primrec chunk_rounds :: "nat \<Rightarrow> 'd sync_reader \<Rightarrow> sync_args \<Rightarrow> int \<Rightarrow> 'd chunking \<Rightarrow> sync_error + 'd chunking" where
  "chunk_rounds 0 R a userId c = Inr c"
| "chunk_rounds (Suc n) R a userId c = (if ch_done c then Inr c
     else bindE (chunk_round R a userId sync_order c) (chunk_rounds n R a userId))"

definition new_chunking :: "sync_args \<Rightarrow> 'd chunking" where
  "new_chunking a = \<lparr>ch_i = 0, ch_done = False, ch_itemCount = sa_maxItems a, ch_roughSize = sa_maxRoughSize a, ch_items = (\<lambda>_. None)\<rparr>"

definition getSyncChunk :: "'d sync_reader \<Rightarrow> sync_args \<Rightarrow> sync_error + 'd sync_chunk" where
  "getSyncChunk R a = (case rd_user R (sa_identityKey a) of
      None \<Rightarrow> Inl NoSuchUser
    | Some u \<Rightarrow> bindE (chunk_rounds (length (sa_offsets a) + 1) R a (su_userId u) (new_chunking a)) (\<lambda>c.
        Inr \<lparr>sc_from = sa_from a, sc_to = sa_to a, sc_identityKey = sa_identityKey a,
          sc_user = (case sa_since a of None \<Rightarrow> Some u | Some d \<Rightarrow> if su_updated_at u > d then Some u else None),
          sc_items = ch_items c\<rparr>))"

section \<open>Merging a chunk\<close>

record entity_map =
  es_idMap :: "int \<Rightarrow> int option"
  es_maxUpdated_at :: "int option"
  es_count :: int

type_synonym sync_map = "sync_table \<Rightarrow> entity_map"

record sync_state =
  ss_userId :: int
  ss_storageIdentityKey :: jstr
  ss_when :: "int option"
  ss_syncMap :: sync_map

definition createSyncMap :: sync_map where
  "createSyncMap = (\<lambda>_. \<lparr>es_idMap = Map.empty, es_maxUpdated_at = None, es_count = 0\<rparr>)"

text \<open>What merging a row did: was it found, was it changed then, the row's id, and the id it has in the writer.\<close>

record merge_result =
  mr_found :: bool
  mr_merged :: bool
  mr_eiId :: int
  mr_eoId :: int

record ('d, 'w) sync_writer =
  wr_user :: "int \<Rightarrow> int option \<Rightarrow> sync_user \<Rightarrow> ('w, sync_error, bool) sem"
  wr_merge :: "sync_table \<Rightarrow> int option \<Rightarrow> int \<Rightarrow> sync_map \<Rightarrow> 'd sync_item \<Rightarrow> ('w, sync_error, merge_result) sem"

fun maxDate :: "int option \<Rightarrow> int option \<Rightarrow> int option" where
  "maxDate (Some a) (Some b) = Some (if a > b then a else b)"
| "maxDate (Some a) None = Some a"
| "maxDate None b = b"

definition verifyId :: "int \<Rightarrow> sync_error + int" where
  "verifyId i = (if i < 1 then Inl BadId else Inr i)"

definition updateSyncMap :: "(int \<Rightarrow> int option) \<Rightarrow> int \<Rightarrow> int \<Rightarrow> sync_error + (int \<Rightarrow> int option)" where
  "updateSyncMap m inId outId = bindE (verifyId inId) (\<lambda>i. bindE (verifyId outId) (\<lambda>j.
     case m i of None \<Rightarrow> Inr (m(i := Some j)) | Some k \<Rightarrow> if k \<noteq> j then Inl IdOverridden else Inr m))"

definition upd_table :: "sync_table \<Rightarrow> (entity_map \<Rightarrow> entity_map) \<Rightarrow> sync_map \<Rightarrow> sync_map" where
  "upd_table t f m = m(t := f (m t))"

definition merge_row :: "('d, 'w) sync_writer \<Rightarrow> int option \<Rightarrow> int \<Rightarrow> sync_table \<Rightarrow> 'd sync_item \<Rightarrow> sync_map \<Rightarrow>
    ('w, sync_error, sync_map \<times> int \<times> int) sem" where
  "merge_row W since userId t x m = (let m1 = upd_table t (\<lambda>e. e\<lparr>es_maxUpdated_at := maxDate (es_maxUpdated_at e) (Some (si_updated_at x))\<rparr>) m in
     bindS (wr_merge W t since userId m1 x) (\<lambda>r.
     let ins = of_bool (\<not> mr_found r); upd = of_bool (mr_found r \<and> mr_merged r) in
     if mr_eiId r > -1 then bindS (liftS (updateSyncMap (es_idMap (m1 t)) (mr_eiId r) (mr_eoId r))) (\<lambda>im.
         retS (upd_table t (\<lambda>e. e\<lparr>es_idMap := im\<rparr>) m1, ins, upd))
     else retS (m1, ins, upd)))"

fun merge_rows :: "('d, 'w) sync_writer \<Rightarrow> int option \<Rightarrow> int \<Rightarrow> sync_table \<Rightarrow> 'd sync_item list \<Rightarrow> sync_map \<Rightarrow>
    ('w, sync_error, sync_map \<times> int \<times> int) sem" where
  "merge_rows W since userId t [] m = retS (m, 0, 0)"
| "merge_rows W since userId t (x # xs) m = bindS (merge_row W since userId t x m) (\<lambda>(m1, i1, u1).
     bindS (merge_rows W since userId t xs m1) (\<lambda>(m2, i2, u2). retS (m2, i1 + i2, u1 + u2)))"

text \<open>\<open>MergeEntity.merge\<close> and what the loop of \<open>processSyncChunk\<close> does after it. The results so far: inserts, updates, \<open>maxUpdated_at\<close>, \<open>done\<close>.\<close>

definition merge_table :: "('d, 'w) sync_writer \<Rightarrow> int option \<Rightarrow> int \<Rightarrow> sync_table \<Rightarrow> 'd sync_item list option \<Rightarrow>
    sync_map \<times> int \<times> int \<times> int option \<times> bool \<Rightarrow> ('w, sync_error, sync_map \<times> int \<times> int \<times> int option \<times> bool) sem" where
  "merge_table W since userId t arr = (\<lambda>(m, ins, upd, mx, fin).
     bindS (case arr of None \<Rightarrow> retS (m, 0, 0) | Some xs \<Rightarrow> merge_rows W since userId t xs m) (\<lambda>(m1, i, u).
     let n = (case arr of None \<Rightarrow> 0 | Some xs \<Rightarrow> length xs); m2 = upd_table t (\<lambda>e. e\<lparr>es_count := es_count e + int n\<rparr>) m1 in
     retS (m2, ins + i, upd + u, maxDate mx (es_maxUpdated_at (m2 t)), fin \<and> arr \<noteq> None \<and> n = 0)))"

fun merge_tables :: "('d, 'w) sync_writer \<Rightarrow> int option \<Rightarrow> int \<Rightarrow> 'd sync_chunk \<Rightarrow> sync_table list \<Rightarrow>
    sync_map \<times> int \<times> int \<times> int option \<times> bool \<Rightarrow> ('w, sync_error, sync_map \<times> int \<times> int \<times> int option \<times> bool) sem" where
  "merge_tables W since userId chunk [] acc = retS acc"
| "merge_tables W since userId chunk (t # ts) acc = bindS (merge_table W since userId t (sc_items chunk t) acc) (merge_tables W since userId chunk ts)"

record sync_result =
  sr_done :: bool
  sr_maxUpdated_at :: "int option"
  sr_updates :: int
  sr_inserts :: int

definition processSyncChunk :: "('d, 'w) sync_writer \<Rightarrow> sync_state \<Rightarrow> sync_args \<Rightarrow> 'd sync_chunk \<Rightarrow>
    ('w, sync_error, sync_state \<times> sync_result) sem" where
  "processSyncChunk W ss a chunk =
     bindS (case sc_user chunk of None \<Rightarrow> retS (0, None)
       | Some ei \<Rightarrow> bindS (wr_user W (ss_userId ss) (sa_since a) ei) (\<lambda>merged.
           retS (if merged then (1, Some (su_updated_at ei)) else (0, None)))) (\<lambda>(upd, mx).
     bindS (merge_tables W (sa_since a) (ss_userId ss) chunk sync_order (ss_syncMap ss, 0, upd, mx, True)) (\<lambda>(m, ins, upd, mx, fin).
     retS (if fin then ss\<lparr>ss_when := mx, ss_syncMap := (\<lambda>t. (m t)\<lparr>es_count := 0\<rparr>)\<rparr> else ss\<lparr>ss_syncMap := m\<rparr>,
       \<lparr>sr_done = fin, sr_maxUpdated_at = mx, sr_updates = upd, sr_inserts = ins\<rparr>)))"

section \<open>The conversation\<close>

definition makeRequestSyncChunkArgs :: "sync_state \<Rightarrow> jstr \<Rightarrow> jstr \<Rightarrow> int option \<Rightarrow> int option \<Rightarrow> sync_args" where
  "makeRequestSyncChunkArgs ss identityKey toKey maxRoughSize maxItems =
     \<lparr>sa_identityKey = identityKey, sa_from = ss_storageIdentityKey ss, sa_to = toKey, sa_since = ss_when ss,
      sa_maxRoughSize = (case maxRoughSize of Some n \<Rightarrow> if n \<noteq> 0 then n else 10000000 | None \<Rightarrow> 10000000),
      sa_maxItems = (case maxItems of Some n \<Rightarrow> if n \<noteq> 0 then n else 1000 | None \<Rightarrow> 1000),
      sa_offsets = map (\<lambda>t. (t, es_count (ss_syncMap ss t))) sync_order\<rparr>"

text \<open>The loop, of at most \<open>n\<close> chunks (\<open>None\<close>: it is still going on). The sync state is what the writer stores from one turn to the next;
  the chunks stand for the log.\<close>

primrec sync_loop :: "nat \<Rightarrow> 'd sync_reader \<Rightarrow> ('d, 'w) sync_writer \<Rightarrow> jstr \<Rightarrow> jstr \<Rightarrow> sync_state \<Rightarrow> int \<Rightarrow> int \<Rightarrow> 'd sync_chunk list \<Rightarrow>
    ('w, sync_error, (sync_state \<times> int \<times> int \<times> 'd sync_chunk list) option) sem" where
  "sync_loop 0 R W identityKey toKey ss inserts updates chunks = retS None"
| "sync_loop (Suc n) R W identityKey toKey ss inserts updates chunks =
     (let a = makeRequestSyncChunkArgs ss identityKey toKey None None in
      bindS (liftS (getSyncChunk R a)) (\<lambda>chunk. bindS (processSyncChunk W ss a chunk) (\<lambda>(ss', r).
      let ins = inserts + sr_inserts r; upd = updates + sr_updates r; cs = chunks @ [chunk] in
      if sr_done r then retS (Some (ss', ins, upd, cs)) else sync_loop n R W identityKey toKey ss' ins upd cs)))"

end
