(* ===== verification/SyncProps.thy ===== *)
theory SyncProps
  imports SyncChunks
begin

text \<open>
  What a synchronisation delivers: the chunks cut the reader's rows, table after table in the order of dependency, into
  consecutive pieces; every chunk but the last has a row; the writer merges every row exactly once, and the conversation ends.
\<close>

section \<open>What the reader has and what a chunk holds\<close>

text \<open>A page is a non-empty piece of the rows at its offset when there are rows and the limit allows one.\<close>

definition reader_has :: "'d sync_reader \<Rightarrow> int \<Rightarrow> int option \<Rightarrow> (sync_table \<Rightarrow> 'd sync_item list) \<Rightarrow> bool" where
  "reader_has R userId since rows \<longleftrightarrow> (\<forall>t limit offset. 0 \<le> offset \<longrightarrow>
     (\<exists>k. rd_find R t userId since limit offset = take k (drop (nat offset) (rows t)) \<and> (1 \<le> limit \<longrightarrow> 0 < k))) \<and>
     (\<forall>t. list_all si_valid (rows t))"

definition tagged :: "(sync_table \<Rightarrow> 'd sync_item list) \<Rightarrow> sync_table list \<Rightarrow> (sync_table \<times> 'd sync_item) list" where
  "tagged f ts = concat (map (\<lambda>t. map (Pair t) (f t)) ts)"

definition got :: "(sync_table \<Rightarrow> 'd sync_item list option) \<Rightarrow> sync_table \<Rightarrow> 'd sync_item list" where
  "got arr t = (case arr t of None \<Rightarrow> [] | Some xs \<Rightarrow> xs)"

lemma tagged_simps [simp]: "tagged f [] = []" "tagged f (t # ts) = map (Pair t) (f t) @ tagged f ts"
  by (simp_all add: tagged_def)

lemma tagged_cong: "(\<And>t. t \<in> set ts \<Longrightarrow> f t = g t) \<Longrightarrow> tagged f ts = tagged g ts"
  by (induction ts) simp_all

lemma tagged_empty: "tagged f ts = [] \<longleftrightarrow> (\<forall>t \<in> set ts. f t = [])"
  by (induction ts) auto

text \<open>From \<open>c\<close> to \<open>c'\<close> the rows \<open>new\<close> were added to those of the table \<open>t\<close>, which were \<open>l\<close>.\<close>

definition grew :: "sync_table \<Rightarrow> 'd sync_item list \<Rightarrow> 'd sync_item list \<Rightarrow> 'd chunking \<Rightarrow> 'd chunking \<Rightarrow> bool" where
  "grew t l new c c' \<longleftrightarrow> ch_items c' t = Some (l @ new) \<and> (\<forall>u. u \<noteq> t \<longrightarrow> ch_items c' u = ch_items c u) \<and> ch_i c' = ch_i c"

definition page_added :: "sync_table \<Rightarrow> 'd sync_item list \<Rightarrow> 'd sync_item list \<Rightarrow> int \<Rightarrow> 'd chunking \<Rightarrow> bool" where
  "page_added t l xs offset c \<longleftrightarrow> (\<exists>new rest c'. add_page t xs offset c = (offset + int (length new), c') \<and> xs = new @ rest \<and>
     grew t l new c c' \<and> (xs \<noteq> [] \<longrightarrow> new \<noteq> []) \<and> (\<not> ch_done c' \<longrightarrow> rest = [] \<and> 0 < ch_itemCount c'))"

lemma grew_more: "grew t (l @ [x]) new (add_item t x c) c' \<Longrightarrow> ch_items c t = Some l \<Longrightarrow> grew t l (x # new) c c'"
  by (simp add: grew_def add_item_def)

lemma add_page_spec: "ch_items c t = Some l \<Longrightarrow> \<not> ch_done c \<Longrightarrow> 0 < ch_itemCount c \<Longrightarrow> page_added t l xs offset c"
proof (induction xs arbitrary: offset c l)
  case Nil
  then show ?case by (simp add: page_added_def grew_def)
next
  case (Cons x xs)
  let ?c = "add_item t x c"
  have c: "ch_items ?c t = Some (l @ [x])" "\<not> ch_done ?c" "grew t l [x] c ?c"
    using Cons.prems by (simp_all add: add_item_def grew_def)
  show ?case
  proof (cases "ch_itemCount ?c \<le> 0 \<or> ch_roughSize ?c < 0")
    case True
    with c have "add_page t (x # xs) offset c = (offset + int (length [x]), ?c\<lparr>ch_done := True\<rparr>) \<and> grew t l [x] c (?c\<lparr>ch_done := True\<rparr>)"
      by (simp add: Let_def grew_def)
    then show ?thesis unfolding page_added_def
      by (intro exI [of _ "[x]"] exI [of _ xs] exI [of _ "?c\<lparr>ch_done := True\<rparr>"]) simp
  next
    case False
    then have "page_added t (l @ [x]) xs (offset + 1) ?c" by (intro Cons.IH c) simp
    then obtain new rest c' where n: "add_page t xs (offset + 1) ?c = (offset + 1 + int (length new), c')" "xs = new @ rest"
      "grew t (l @ [x]) new ?c c'" "\<not> ch_done c' \<longrightarrow> rest = [] \<and> 0 < ch_itemCount c'"
      unfolding page_added_def by blast
    from grew_more [OF n(3) Cons.prems(1)] n False show ?thesis unfolding page_added_def
      by (intro exI [of _ "x # new"] exI [of _ rest] exI [of _ c']) (simp add: Let_def)
  qed
qed

lemma page_limit_1: "0 < n \<Longrightarrow> 1 \<le> page_limit a t n"
  by (simp add: page_limit_def)

definition pages_added :: "'d sync_reader \<Rightarrow> sync_args \<Rightarrow> int \<Rightarrow> (sync_table \<Rightarrow> 'd sync_item list) \<Rightarrow> sync_table \<Rightarrow> bool \<Rightarrow> int \<Rightarrow>
    'd sync_item list \<Rightarrow> 'd chunking \<Rightarrow> bool" where
  "pages_added R a userId rows t pre offset l c \<longleftrightarrow> (\<exists>new rest c'. add_pages R a userId t pre offset c = Inr c' \<and>
     drop (nat offset) (rows t) = new @ rest \<and> grew t l new c c' \<and>
     (if ch_done c' then new \<noteq> [] else rest = [] \<and> 0 < ch_itemCount c'))"

lemma grew_grew: "grew t l new c1 c2 \<Longrightarrow> grew t (l @ new) new2 c2 c3 \<Longrightarrow> (\<forall>u. u \<noteq> t \<longrightarrow> ch_items c1 u = ch_items c u) \<Longrightarrow>
    ch_i c1 = ch_i c \<Longrightarrow> grew t l (new @ new2) c c3"
  by (simp add: grew_def)

lemma add_pages_spec:
  assumes R: "reader_has R userId (sa_since a) rows"
    and "\<not> ch_done c" "0 < ch_itemCount c" "0 \<le> offset" "if pre then ch_items c t = Some l else l = []"
  shows "pages_added R a userId rows t pre offset l c"
  using assms(2-)
proof (induction "nat (ch_itemCount c)" arbitrary: c offset pre l rule: less_induct)
  case less
  let ?lim = "page_limit a t (ch_itemCount c)" and ?c1 = "if pre then c else pre_add t c" and ?left = "drop (nat offset) (rows t)"
  let ?items = "rd_find R t userId (sa_since a) ?lim offset"
  have lim: "1 \<le> ?lim" using less.prems(2) by (rule page_limit_1)
  with R less.prems(3) obtain k where k: "?items = take k ?left" "0 < k" unfolding reader_has_def by blast
  have "list_all si_valid (rows t)" using R by (simp add: reader_has_def)
  then have valid: "list_all si_valid ?items"
    unfolding k(1) list_all_iff by (meson in_set_dropD in_set_takeD)
  have c1: "ch_items ?c1 t = Some l" "\<forall>u. u \<noteq> t \<longrightarrow> ch_items ?c1 u = ch_items c u" "ch_i ?c1 = ch_i c" "\<not> ch_done ?c1"
    "ch_itemCount ?c1 = ch_itemCount c"
    using less.prems by (auto simp: pre_add_def)
  note turn = add_pages.simps [of R a userId t pre offset c]
  show ?case
  proof (cases "?items = []")
    case True
    with k have "?left = []" by (cases ?left) auto
    moreover have "add_pages R a userId t pre offset c = Inr ?c1"
      using less.prems(1) lim valid True by (subst turn) (simp add: Let_def)
    moreover have "grew t l [] c ?c1" using c1 by (simp add: grew_def)
    moreover have "0 < ch_itemCount ?c1" using c1(5) less.prems(2) by simp
    ultimately show ?thesis unfolding pages_added_def using c1(4) by (intro exI [of _ "[]"] exI [of _ ?c1]) simp
  next
    case False
    have "page_added t l ?items offset ?c1" by (rule add_page_spec) (use c1 less.prems(2) in simp_all)
    then obtain new rest c' where p: "add_page t ?items offset ?c1 = (offset + int (length new), c')" "?items = new @ rest"
      "grew t l new ?c1 c'" "new \<noteq> []" "\<not> ch_done c' \<longrightarrow> rest = [] \<and> 0 < ch_itemCount c'"
      using False unfolding page_added_def by blast
    have next_page: "add_pages R a userId t pre offset c = add_pages R a userId t True (offset + int (length new)) c'"
      using less.prems(1) lim valid False p(1) by (subst turn) (simp add: Let_def)
    define more where "more = rest @ drop k ?left"
    have d: "?left = new @ more"
      using k(1) p(2) unfolding more_def by (metis append_assoc append_take_drop_id)
    have g: "grew t l new c c'" using p(3) c1(2,3) by (simp add: grew_def)
    show ?thesis
    proof (cases "ch_done c'")
      case True
      then have "add_pages R a userId t True (offset + int (length new)) c' = Inr c'" by (subst add_pages.simps) simp
      with True p(4) d g next_page show ?thesis unfolding pages_added_def
        by (intro exI [of _ new] exI [of _ more] exI [of _ c']) simp
    next
      case False
      have "nat (ch_itemCount c') < nat (ch_itemCount c)"
        using add_page_itemCount [of t ?items offset ?c1] p(1,2,4) c1(5) less.prems(2) by simp
      moreover have "ch_items c' t = Some (l @ new)" using p(3) by (simp add: grew_def)
      ultimately have "pages_added R a userId rows t True (offset + int (length new)) (l @ new) c'"
        using False p(5) less.prems(3) by (intro less.hyps) simp_all
      then obtain new2 rest2 c2 where q: "add_pages R a userId t True (offset + int (length new)) c' = Inr c2"
        "drop (nat (offset + int (length new))) (rows t) = new2 @ rest2" "grew t (l @ new) new2 c' c2"
        "if ch_done c2 then new2 \<noteq> [] else rest2 = [] \<and> 0 < ch_itemCount c2" unfolding pages_added_def by blast
      have "drop (nat (offset + int (length new))) (rows t) = drop (length new) ?left"
        using less.prems(3) by (simp add: nat_add_distrib add.commute)
      then have "?left = (new @ new2) @ rest2" using d q(2) by simp
      moreover have "grew t l (new @ new2) c c2" using grew_grew [OF g q(3)] by simp
      moreover have "add_pages R a userId t pre offset c = Inr c2" using next_page q(1) by simp
      moreover have "if ch_done c2 then new @ new2 \<noteq> [] else rest2 = [] \<and> 0 < ch_itemCount c2"
        using q(4) p(4) by (simp split: if_splits)
      ultimately show ?thesis unfolding pages_added_def by blast
    qed
  qed
qed

section \<open>A round over the tables\<close>

text \<open>What was left at the tables is what was taken and what remains, the tables in their order.\<close>

definition cut :: "(sync_table \<Rightarrow> 'd sync_item list) \<Rightarrow> (sync_table \<Rightarrow> 'd sync_item list) \<Rightarrow> (sync_table \<Rightarrow> 'd sync_item list) \<Rightarrow>
    sync_table list \<Rightarrow> bool" where
  "cut f g h ts \<longleftrightarrow> tagged f ts = tagged g ts @ tagged h ts \<and> (\<forall>t \<in> set ts. f t = g t @ h t)"

definition round_took :: "'d sync_reader \<Rightarrow> sync_args \<Rightarrow> int \<Rightarrow> (sync_table \<Rightarrow> 'd sync_item list) \<Rightarrow> sync_table list \<Rightarrow> 'd chunking \<Rightarrow> bool" where
  "round_took R a userId left ts c \<longleftrightarrow> (\<exists>rest c'. chunk_round R a userId ts c = Inr c' \<and> cut left (got (ch_items c')) rest ts \<and>
     (\<forall>u. u \<notin> set ts \<longrightarrow> ch_items c' u = ch_items c u) \<and> ch_i c' = ch_i c + length ts \<and>
     (ch_done c \<longrightarrow> ch_done c' \<and> tagged (got (ch_items c')) ts = []) \<and>
     (if ch_done c' then ch_done c \<or> tagged (got (ch_items c')) ts \<noteq> []
      else tagged rest ts = [] \<and> (\<forall>t \<in> set ts. ch_items c' t \<noteq> None) \<and> 0 < ch_itemCount c'))"

definition left_at :: "(sync_table \<Rightarrow> int) \<Rightarrow> (sync_table \<Rightarrow> 'd sync_item list) \<Rightarrow> sync_table \<Rightarrow> 'd sync_item list" where
  "left_at off rows t = drop (nat (off t)) (rows t)"

lemma distinct_sync_order: "distinct sync_order" and all_tables: "t \<in> set sync_order"
  by (simp add: sync_order_def) (cases t; simp add: sync_order_def)

lemma addItems_at:
  assumes "sa_offsets a = map (\<lambda>t. (t, off t)) sync_order" "sync_order = pre @ t # ts" "ch_i c = length pre"
  shows "addItems R a userId t c = add_pages R a userId t False (off t) (c\<lparr>ch_i := ch_i c + 1\<rparr>)"
proof -
  have "sync_order ! length pre = t" "length pre < length sync_order" unfolding assms(2) by simp_all
  with assms(1,3) show ?thesis by (simp add: addItems_def)
qed

lemma round_spec:
  assumes R: "reader_has R userId (sa_since a) rows" and off: "sa_offsets a = map (\<lambda>t. (t, off t)) sync_order" "\<And>t. 0 \<le> off t"
    and "sync_order = pre @ ts" "ch_i c = length pre" "\<And>t. t \<in> set ts \<Longrightarrow> ch_items c t = None" "\<not> ch_done c \<Longrightarrow> 0 < ch_itemCount c"
  shows "round_took R a userId (left_at off rows) ts c"
  using assms(4-)
proof (induction ts arbitrary: pre c)
  case Nil
  then show ?case by (auto simp: round_took_def cut_def)
next
  case (Cons t ts)
  let ?left = "left_at off rows" and ?c = "c\<lparr>ch_i := ch_i c + 1\<rparr>"
  have o: "sync_order = (pre @ [t]) @ ts" using Cons.prems(1) by simp
  then have t: "t \<notin> set ts" using distinct_sync_order by (metis distinct_append distinct_singleton not_distinct_conv_prefix Cons.prems(1) distinct.simps(2))
  have at: "addItems R a userId t c = add_pages R a userId t False (off t) ?c" by (rule addItems_at [OF off(1) Cons.prems(1,2)])
  show ?case
  proof (cases "ch_done c")
    case True
    then have step: "addItems R a userId t c = Inr ?c" unfolding at by (subst add_pages.simps) simp
    have "round_took R a userId ?left ts ?c"
      by (rule Cons.IH [OF o]) (use Cons.prems True in auto)
    then obtain rest c' where c': "chunk_round R a userId ts ?c = Inr c'" "cut ?left (got (ch_items c')) rest ts"
      "\<forall>u. u \<notin> set ts \<longrightarrow> ch_items c' u = ch_items c u" "ch_i c' = ch_i c + 1 + length ts" "ch_done c'" "tagged (got (ch_items c')) ts = []"
      using True unfolding round_took_def by auto
    have g: "ch_items c' t = None" using c'(3) t Cons.prems(3) by simp
    let ?r = "rest(t := ?left t)"
    have r: "tagged ?r ts = tagged rest ts" using t by (intro tagged_cong) auto
    have "cut ?left (got (ch_items c')) ?r (t # ts)"
      using c'(2,6) g r t by (auto simp: cut_def got_def)
    moreover have "tagged (got (ch_items c')) (t # ts) = []" using c'(6) g by (simp add: got_def)
    moreover have "chunk_round R a userId (t # ts) c = Inr c'" using step c'(1) by simp
    moreover have "\<forall>u. u \<notin> set (t # ts) \<longrightarrow> ch_items c' u = ch_items c u" using c'(3) by simp
    ultimately show ?thesis using True c'(4,5) unfolding round_took_def
      by (intro exI [of _ ?r] exI [of _ c']) simp
  next
    case False
    have "pages_added R a userId rows t False (off t) [] ?c"
      by (rule add_pages_spec [OF R]) (use False Cons.prems(4) off(2) in simp_all)
    then obtain new rest1 c1 where p: "addItems R a userId t c = Inr c1" "?left t = new @ rest1" "ch_items c1 t = Some new"
      "\<forall>u. u \<noteq> t \<longrightarrow> ch_items c1 u = ch_items c u" "ch_i c1 = ch_i c + 1"
      "if ch_done c1 then new \<noteq> [] else rest1 = [] \<and> 0 < ch_itemCount c1"
      unfolding pages_added_def at left_at_def grew_def by auto
    have "round_took R a userId ?left ts c1"
    proof (rule Cons.IH [OF o])
      fix u assume u: "u \<in> set ts"
      then have "u \<noteq> t" using t by auto
      then show "ch_items c1 u = None" using p(4) Cons.prems(3) u by simp
    qed (use Cons.prems p in \<open>auto split: if_splits\<close>)
    then obtain rest c' where c': "chunk_round R a userId ts c1 = Inr c'" "cut ?left (got (ch_items c')) rest ts"
      "\<forall>u. u \<notin> set ts \<longrightarrow> ch_items c' u = ch_items c1 u" "ch_i c' = ch_i c1 + length ts"
      "ch_done c1 \<longrightarrow> ch_done c' \<and> tagged (got (ch_items c')) ts = []"
      "if ch_done c' then ch_done c1 \<or> tagged (got (ch_items c')) ts \<noteq> []
       else tagged rest ts = [] \<and> (\<forall>t \<in> set ts. ch_items c' t \<noteq> None) \<and> 0 < ch_itemCount c'"
      unfolding round_took_def by blast
    have g: "ch_items c' t = Some new" "got (ch_items c') t = new" using c'(3) t p(3) by (simp_all add: got_def)
    let ?r = "rest(t := rest1)"
    have r: "tagged ?r ts = tagged rest ts" using t by (intro tagged_cong) auto
    have cut: "cut ?left (got (ch_items c')) ?r (t # ts)"
    proof (cases "ch_done c1")
      case True
      with c'(2,5) g p(2) r t show ?thesis by (auto simp: cut_def)
    next
      case False
      with c'(2) g p(2,6) r t show ?thesis by (auto simp: cut_def)
    qed
    have "if ch_done c' then tagged (got (ch_items c')) (t # ts) \<noteq> []
       else tagged ?r (t # ts) = [] \<and> (\<forall>t \<in> set (t # ts). ch_items c' t \<noteq> None) \<and> 0 < ch_itemCount c'"
      using c'(5,6) p(6) g r by (auto split: if_splits)
    moreover have "chunk_round R a userId (t # ts) c = Inr c'" using p(1) c'(1) by simp
    ultimately show ?thesis using False cut c'(3,4) p(4,5) unfolding round_took_def
      by (intro exI [of _ ?r] exI [of _ c']) (auto split: if_splits)
  qed
qed

lemma round_over:
  "length (sa_offsets a) \<le> ch_i c \<Longrightarrow> ts \<noteq> [] \<Longrightarrow> chunk_round R a userId ts c = Inr (c\<lparr>ch_done := True\<rparr>)"
proof (induction ts arbitrary: c)
  case (Cons t ts)
  then show ?case by (cases "ts = []") (simp_all add: addItems_def)
qed simp

lemma rounds_over:
  assumes "length (sa_offsets a) \<le> ch_i c"
  shows "\<exists>b. chunk_rounds n R a userId c = Inr (c\<lparr>ch_done := b\<rparr>)"
proof (cases n)
  case (Suc m)
  show ?thesis
  proof (cases "ch_done c")
    case True
    then show ?thesis using Suc by (intro exI [of _ True]) simp
  next
    case False
    have "chunk_rounds m R a userId (c\<lparr>ch_done := True\<rparr>) = Inr (c\<lparr>ch_done := True\<rparr>)" by (cases m) simp_all
    moreover have "chunk_round R a userId sync_order c = Inr (c\<lparr>ch_done := True\<rparr>)"
      by (rule round_over [OF assms]) (simp add: sync_order_def)
    ultimately show ?thesis using False Suc by (intro exI [of _ True]) simp
  qed
qed (auto intro: exI [of _ "ch_done c"])

text \<open>A chunk is the next piece of what is left; it is empty only when nothing is left, and then all its arrays are there.\<close>

definition chunk_is :: "(sync_table \<Rightarrow> 'd sync_item list) \<Rightarrow> (sync_table \<Rightarrow> 'd sync_item list) \<Rightarrow> 'd sync_chunk \<Rightarrow> bool" where
  "chunk_is left rest chunk \<longleftrightarrow> cut left (got (sc_items chunk)) rest sync_order \<and>
     (tagged (got (sc_items chunk)) sync_order = [] \<longrightarrow> tagged left sync_order = [] \<and> (\<forall>t. sc_items chunk t = Some []))"

lemma chunk_spec:
  assumes R: "reader_has R (su_userId u) (sa_since a) rows" and u: "rd_user R (sa_identityKey a) = Some u"
    and off: "sa_offsets a = map (\<lambda>t. (t, off t)) sync_order" "\<And>t. 0 \<le> off t" and items: "0 < sa_maxItems a"
  shows "\<exists>rest chunk. getSyncChunk R a = Inr chunk \<and> chunk_is (left_at off rows) rest chunk"
proof -
  let ?c = "new_chunking a :: 'a chunking"
  have "round_took R a (su_userId u) (left_at off rows) sync_order ?c"
    by (rule round_spec [OF R off, where pre = "[]"]) (use items in \<open>simp_all add: new_chunking_def\<close>)
  then obtain rest c where c: "chunk_round R a (su_userId u) sync_order ?c = Inr c" "cut (left_at off rows) (got (ch_items c)) rest sync_order"
    "ch_i c = length sync_order"
    "if ch_done c then tagged (got (ch_items c)) sync_order \<noteq> [] else tagged rest sync_order = [] \<and> (\<forall>t \<in> set sync_order. ch_items c t \<noteq> None)"
    unfolding round_took_def by (auto simp: new_chunking_def split: if_splits)
  have "length (sa_offsets a) \<le> ch_i c" using c(3) off(1) by simp
  then obtain b where "chunk_rounds (length (sa_offsets a)) R a (su_userId u) c = Inr (c\<lparr>ch_done := b\<rparr>)"
    using rounds_over by blast
  then have r: "chunk_rounds (length (sa_offsets a) + 1) R a (su_userId u) ?c = Inr (c\<lparr>ch_done := b\<rparr>)"
    using c(1) by (simp add: new_chunking_def)
  have "tagged (left_at off rows) sync_order = [] \<and> (\<forall>t. ch_items c t = Some [])" if e: "tagged (got (ch_items c)) sync_order = []"
  proof
    from c(4) e have n: "tagged rest sync_order = []" "\<forall>t \<in> set sync_order. ch_items c t \<noteq> None" by (auto split: if_splits)
    then show "tagged (left_at off rows) sync_order = []" using c(2) e by (simp add: cut_def)
    show "\<forall>t. ch_items c t = Some []"
    proof
      fix t
      have "ch_items c t \<noteq> None" "got (ch_items c) t = []" using n(2) e all_tables [of t] by (auto simp: tagged_empty)
      then show "ch_items c t = Some []" by (auto simp: got_def)
    qed
  qed
  then show ?thesis using c(2) unfolding getSyncChunk_def u option.case r chunk_is_def by (intro exI [of _ rest]) (simp add: bindE_def)
qed

section \<open>What the writer merges\<close>

text \<open>The writer with a log of the rows it is given; and a writer that never fails and never gives a row another id than the map has, in
  the states and with the maps for which \<open>J\<close> holds.\<close>

definition logged :: "('d, 'w) sync_writer \<Rightarrow> ('d, 'w \<times> (sync_table \<times> 'd sync_item) list) sync_writer" where
  "logged W = \<lparr>wr_user = (\<lambda>i d u (w, l). (case wr_user W i d u w of (r, w') \<Rightarrow> (r, (w', l)))),
     wr_merge = (\<lambda>t d i m x (w, l). (case wr_merge W t d i m x w of (r, w') \<Rightarrow> (r, (w', l @ [(t, x)]))))\<rparr>"

definition id_maps :: "sync_map \<Rightarrow> sync_table \<Rightarrow> int \<Rightarrow> int option" where
  "id_maps m t = es_idMap (m t)"

definition merges_ok :: "('d, 'w) sync_writer \<Rightarrow> ((sync_table \<Rightarrow> int \<Rightarrow> int option) \<Rightarrow> 'w \<Rightarrow> bool) \<Rightarrow> bool" where
  "merges_ok W J \<longleftrightarrow>
     (\<forall>i d u m w. J m w \<longrightarrow> (\<exists>b w'. wr_user W i d u w = (Inr b, w') \<and> J m w')) \<and>
     (\<forall>t d i m x w. J (id_maps m) w \<longrightarrow> (\<exists>r w'. wr_merge W t d i m x w = (Inr r, w') \<and>
        (if mr_eiId r > -1
         then 1 \<le> mr_eiId r \<and> 1 \<le> mr_eoId r \<and> es_idMap (m t) (mr_eiId r) \<in> {None, Some (mr_eoId r)} \<and>
           J ((id_maps m)(t := (id_maps m t)(mr_eiId r := Some (mr_eoId r)))) w'
         else J (id_maps m) w')))"

text \<open>Every date of the log is within the maximum of its table; \<open>reaches\<close> compares with a maximum that may not be there.\<close>

definition reaches :: "int option \<Rightarrow> int \<Rightarrow> bool" where
  "reaches mx d \<longleftrightarrow> (\<exists>e. mx = Some e \<and> d \<le> e)"

definition dated :: "sync_map \<Rightarrow> (sync_table \<times> 'd sync_item) list \<Rightarrow> bool" where
  "dated m l \<longleftrightarrow> (\<forall>(t, x) \<in> set l. reaches (es_maxUpdated_at (m t)) (si_updated_at x))"

lemma reaches_maxDate [simp]: "reaches (maxDate a b) d \<longleftrightarrow> reaches a d \<or> reaches b d"
  by (cases "(a, b)" rule: maxDate.cases) (auto simp: reaches_def)

lemma reaches_Some [simp]: "reaches (Some e) d \<longleftrightarrow> d \<le> e"
  by (simp add: reaches_def)

definition counts :: "sync_map \<Rightarrow> sync_table \<Rightarrow> int" where
  "counts m t = es_count (m t)"

lemma id_maps_upd [simp]: "id_maps (m(t := e)) = (id_maps m)(t := es_idMap e)"
  by (auto simp: id_maps_def)

lemma dated_same: "dated m l \<Longrightarrow> (\<And>v. es_maxUpdated_at (m' v) = es_maxUpdated_at (m v)) \<Longrightarrow> dated m' l"
  by (simp add: dated_def)

lemma merge_row_spec:
  assumes W: "merges_ok W J" and J: "J (id_maps m) w" and d: "dated m l"
  shows "\<exists>m' i u w'. merge_row (logged W) since userId t x m (w, l) = (Inr (m', i, u), (w', l @ [(t, x)])) \<and>
     J (id_maps m') w' \<and> counts m' = counts m \<and> dated m' (l @ [(t, x)]) \<and> (\<forall>v. v \<noteq> t \<longrightarrow> m' v = m v)"
proof -
  define m1 where "m1 = upd_table t (\<lambda>e. e\<lparr>es_maxUpdated_at := maxDate (es_maxUpdated_at e) (Some (si_updated_at x))\<rparr>) m"
  have m1: "id_maps m1 = id_maps m" "counts m1 = counts m" "dated m1 (l @ [(t, x)])" "es_idMap (m1 t) = id_maps m t" "\<forall>v. v \<noteq> t \<longrightarrow> m1 v = m v"
    using d by (auto simp: m1_def upd_table_def id_maps_def counts_def dated_def fun_eq_iff)
  obtain r w' where r: "wr_merge W t since userId m1 x w = (Inr r, w')"
    "if mr_eiId r > -1
     then 1 \<le> mr_eiId r \<and> 1 \<le> mr_eoId r \<and> es_idMap (m1 t) (mr_eiId r) \<in> {None, Some (mr_eoId r)} \<and>
       J ((id_maps m)(t := (id_maps m t)(mr_eiId r := Some (mr_eoId r)))) w'
     else J (id_maps m) w'"
    using W J unfolding merges_ok_def by (metis m1(1))
  have log: "wr_merge (logged W) t since userId m1 x (w, l) = (Inr r, (w', l @ [(t, x)]))" using r(1) by (simp add: logged_def)
  show ?thesis
  proof (cases "mr_eiId r > -1")
    case False
    with log r(2) m1 show ?thesis by (simp add: merge_row_def m1_def [symmetric] Let_def retS_def)
  next
    case True
    let ?im = "(es_idMap (m1 t))(mr_eiId r := Some (mr_eoId r))"
    have "updateSyncMap (es_idMap (m1 t)) (mr_eiId r) (mr_eoId r) = Inr ?im"
      using True r(2) by (auto simp: updateSyncMap_def verifyId_def fun_upd_idem)
    moreover have "dated (upd_table t (\<lambda>e. e\<lparr>es_idMap := ?im\<rparr>) m1) (l @ [(t, x)])"
      by (rule dated_same [OF m1(3)]) (simp add: upd_table_def)
    moreover have "counts (upd_table t (\<lambda>e. e\<lparr>es_idMap := ?im\<rparr>) m1) = counts m"
      using m1(2) by (auto simp: upd_table_def counts_def fun_eq_iff)
    moreover have "id_maps (upd_table t (\<lambda>e. e\<lparr>es_idMap := ?im\<rparr>) m1) = (id_maps m)(t := (id_maps m t)(mr_eiId r := Some (mr_eoId r)))"
      "\<forall>v. v \<noteq> t \<longrightarrow> upd_table t (\<lambda>e. e\<lparr>es_idMap := ?im\<rparr>) m1 v = m v"
      using m1 by (simp_all add: upd_table_def)
    ultimately show ?thesis using True r(2) log by (simp add: merge_row_def m1_def [symmetric] Let_def retS_def)
  qed
qed

lemma merge_rows_spec:
  assumes W: "merges_ok W J" and "J (id_maps m) w" "dated m l"
  shows "\<exists>m' i u w'. merge_rows (logged W) since userId t xs m (w, l) = (Inr (m', i, u), (w', l @ map (Pair t) xs)) \<and>
     J (id_maps m') w' \<and> counts m' = counts m \<and> dated m' (l @ map (Pair t) xs) \<and> (\<forall>v. v \<noteq> t \<longrightarrow> m' v = m v)"
  using assms(2-)
proof (induction xs arbitrary: m w l)
  case Nil
  then show ?case by (simp add: retS_def)
next
  case (Cons x xs)
  from merge_row_spec [OF W Cons.prems] obtain m1 i1 u1 w1 where
    a: "merge_row (logged W) since userId t x m (w, l) = (Inr (m1, i1, u1), (w1, l @ [(t, x)]))"
    "J (id_maps m1) w1" "counts m1 = counts m" "dated m1 (l @ [(t, x)])" "\<forall>v. v \<noteq> t \<longrightarrow> m1 v = m v" by blast
  from Cons.IH [OF a(2,4)] obtain m2 i2 u2 w2 where
    "merge_rows (logged W) since userId t xs m1 (w1, l @ [(t, x)]) = (Inr (m2, i2, u2), (w2, (l @ [(t, x)]) @ map (Pair t) xs))"
    "J (id_maps m2) w2" "counts m2 = counts m1" "dated m2 ((l @ [(t, x)]) @ map (Pair t) xs)" "\<forall>v. v \<noteq> t \<longrightarrow> m2 v = m1 v" by blast
  with a show ?case by (simp add: retS_def)
qed

text \<open>One table, and all of them.\<close>

definition all_empty :: "'d sync_chunk \<Rightarrow> sync_table list \<Rightarrow> bool" where
  "all_empty chunk ts \<longleftrightarrow> (\<forall>t \<in> set ts. sc_items chunk t = Some [])"

lemma merge_table_spec:
  assumes W: "merges_ok W J" and "J (id_maps m) w" "dated m l"
  shows "\<exists>m' i u mx' w'. merge_table (logged W) since userId t (sc_items chunk t) (m, ins, upd, mx, fin) (w, l)
       = (Inr (m', i, u, mx', fin \<and> sc_items chunk t = Some []), (w', l @ map (Pair t) (got (sc_items chunk) t))) \<and>
     J (id_maps m') w' \<and> counts m' = (counts m)(t := counts m t + int (length (got (sc_items chunk) t))) \<and>
     dated m' (l @ map (Pair t) (got (sc_items chunk) t)) \<and> (\<forall>v. v \<noteq> t \<longrightarrow> m' v = m v) \<and> (\<forall>d. reaches mx d \<or> reaches (es_maxUpdated_at (m' t)) d \<longrightarrow> reaches mx' d)"
proof -
  let ?n = "int (length (got (sc_items chunk) t))"
  obtain m1 i u w1 where a: "(case sc_items chunk t of None \<Rightarrow> retS (m, 0, 0) | Some xs \<Rightarrow> merge_rows (logged W) since userId t xs m) (w, l)
      = (Inr (m1, i, u), (w1, l @ map (Pair t) (got (sc_items chunk) t)))"
    "J (id_maps m1) w1" "counts m1 = counts m" "dated m1 (l @ map (Pair t) (got (sc_items chunk) t))" "\<forall>v. v \<noteq> t \<longrightarrow> m1 v = m v"
  proof (cases "sc_items chunk t")
    case None
    with assms(2,3) that show ?thesis by (simp add: retS_def got_def)
  next
    case (Some xs)
    with merge_rows_spec [OF assms, of since userId t xs] that show ?thesis by (fastforce simp: got_def)
  qed
  let ?m2 = "upd_table t (\<lambda>e. e\<lparr>es_count := es_count e + ?n\<rparr>) m1"
  have run: "merge_table (logged W) since userId t (sc_items chunk t) (m, ins, upd, mx, fin) (w, l)
      = (Inr (?m2, ins + i, upd + u, maxDate mx (es_maxUpdated_at (?m2 t)), fin \<and> sc_items chunk t = Some []), (w1, l @ map (Pair t) (got (sc_items chunk) t)))"
    unfolding merge_table_def prod.case bindS_def a(1) by (cases "sc_items chunk t") (auto simp: Let_def retS_def got_def)
  have same: "id_maps ?m2 = id_maps m1" "\<And>v. es_maxUpdated_at (?m2 v) = es_maxUpdated_at (m1 v)"
    by (auto simp: upd_table_def id_maps_def)
  have "dated ?m2 (l @ map (Pair t) (got (sc_items chunk) t))" by (rule dated_same [OF a(4)]) (rule same(2))
  moreover have "counts ?m2 = (counts m)(t := counts m t + ?n)" using a(3) by (auto simp: upd_table_def counts_def fun_eq_iff)
  moreover have "\<forall>v. v \<noteq> t \<longrightarrow> ?m2 v = m v" using a(5) by (simp add: upd_table_def)
  moreover have "J (id_maps ?m2) w1" using a(2) unfolding same(1) .
  moreover have "\<forall>d. reaches mx d \<or> reaches (es_maxUpdated_at (?m2 t)) d \<longrightarrow> reaches (maxDate mx (es_maxUpdated_at (?m2 t))) d" by simp
  ultimately show ?thesis using run by blast
qed

lemma merge_tables_spec:
  assumes W: "merges_ok W J" and "J (id_maps m) w" "dated m l" "distinct ts"
  shows "\<exists>m' i u mx' w'. merge_tables (logged W) since userId chunk ts (m, ins, upd, mx, fin) (w, l)
       = (Inr (m', i, u, mx', fin \<and> all_empty chunk ts), (w', l @ tagged (got (sc_items chunk)) ts)) \<and>
     J (id_maps m') w' \<and> counts m' = (\<lambda>t. counts m t + (if t \<in> set ts then int (length (got (sc_items chunk) t)) else 0)) \<and>
     dated m' (l @ tagged (got (sc_items chunk)) ts) \<and> (\<forall>d. reaches mx d \<longrightarrow> reaches mx' d) \<and>
     (\<forall>t. t \<notin> set ts \<longrightarrow> m' t = m t) \<and> (\<forall>t \<in> set ts. \<forall>d. reaches (es_maxUpdated_at (m' t)) d \<longrightarrow> reaches mx' d)"
  using assms(2-)
proof (induction ts arbitrary: m w l ins upd mx fin)
  case Nil
  then show ?case by (simp add: retS_def all_empty_def)
next
  case (Cons t ts)
  from merge_table_spec [OF W Cons.prems(1,2), of since userId t chunk ins upd mx fin] obtain m1 i1 u1 mx1 w1 where
    a: "merge_table (logged W) since userId t (sc_items chunk t) (m, ins, upd, mx, fin) (w, l)
       = (Inr (m1, i1, u1, mx1, fin \<and> sc_items chunk t = Some []), (w1, l @ map (Pair t) (got (sc_items chunk) t)))"
    "J (id_maps m1) w1" "counts m1 = (counts m)(t := counts m t + int (length (got (sc_items chunk) t)))"
    "dated m1 (l @ map (Pair t) (got (sc_items chunk) t))" "\<forall>d. reaches mx d \<or> reaches (es_maxUpdated_at (m1 t)) d \<longrightarrow> reaches mx1 d"
    and others: "\<forall>u. u \<noteq> t \<longrightarrow> m1 u = m u" by blast
  from Cons.IH [OF a(2,4), of i1 u1 mx1 "fin \<and> sc_items chunk t = Some []"] Cons.prems(3) obtain m' i u mx' w' where
    b: "merge_tables (logged W) since userId chunk ts (m1, i1, u1, mx1, fin \<and> sc_items chunk t = Some []) (w1, l @ map (Pair t) (got (sc_items chunk) t))
       = (Inr (m', i, u, mx', (fin \<and> sc_items chunk t = Some []) \<and> all_empty chunk ts), (w', (l @ map (Pair t) (got (sc_items chunk) t)) @ tagged (got (sc_items chunk)) ts))"
    "J (id_maps m') w'" "counts m' = (\<lambda>u. counts m1 u + (if u \<in> set ts then int (length (got (sc_items chunk) u)) else 0))"
    "dated m' ((l @ map (Pair t) (got (sc_items chunk) t)) @ tagged (got (sc_items chunk)) ts)" "\<forall>d. reaches mx1 d \<longrightarrow> reaches mx' d"
    "\<forall>u. u \<notin> set ts \<longrightarrow> m' u = m1 u" "\<forall>u \<in> set ts. \<forall>d. reaches (es_maxUpdated_at (m' u)) d \<longrightarrow> reaches mx' d" by auto
  have t: "t \<notin> set ts" using Cons.prems(3) by simp
  have "counts m' = (\<lambda>u. counts m u + (if u \<in> set (t # ts) then int (length (got (sc_items chunk) u)) else 0))"
    using b(3) a(3) t by (auto simp: fun_eq_iff)
  moreover have "merge_tables (logged W) since userId chunk (t # ts) (m, ins, upd, mx, fin) (w, l)
       = (Inr (m', i, u, mx', fin \<and> all_empty chunk (t # ts)), (w', l @ tagged (got (sc_items chunk)) (t # ts)))"
    using a(1) b(1) by (simp add: all_empty_def bindS_def)
  moreover have "\<forall>u \<in> set (t # ts). \<forall>d. reaches (es_maxUpdated_at (m' u)) d \<longrightarrow> reaches mx' d"
    using b(5-7) a(5) t by auto
  ultimately show ?case using b(2,4,5,6) a(5) others by (intro exI conjI) auto
qed

section \<open>The conversation\<close>

definition chunk_merged :: "sync_state \<Rightarrow> 'd sync_chunk \<Rightarrow> sync_state \<Rightarrow> bool" where
  "chunk_merged ss chunk ss' \<longleftrightarrow>
     (if all_empty chunk sync_order
      then counts (ss_syncMap ss') = (\<lambda>_. 0) \<and> (\<forall>t d. reaches (es_maxUpdated_at (ss_syncMap ss' t)) d \<longrightarrow> reaches (ss_when ss') d)
      else counts (ss_syncMap ss') = (\<lambda>t. counts (ss_syncMap ss) t + int (length (got (sc_items chunk) t))) \<and> ss_when ss' = ss_when ss)"

lemma bindS_at: "m s = (Inr a, t) \<Longrightarrow> bindS m f s = f a t"
  by simp

lemma process_spec:
  assumes W: "merges_ok W J" and J: "J (id_maps (ss_syncMap ss)) w" and d: "dated (ss_syncMap ss) l"
  shows "\<exists>ss' r w'. processSyncChunk (logged W) ss a chunk (w, l) = (Inr (ss', r), (w', l @ tagged (got (sc_items chunk)) sync_order)) \<and>
     J (id_maps (ss_syncMap ss')) w' \<and> dated (ss_syncMap ss') (l @ tagged (got (sc_items chunk)) sync_order) \<and>
     sr_done r = all_empty chunk sync_order \<and> chunk_merged ss chunk ss'"
proof -
  let ?l = "l @ tagged (got (sc_items chunk)) sync_order"
  obtain upd :: int and mx w1 where u: "(case sc_user chunk of None \<Rightarrow> retS (0, None)
       | Some ei \<Rightarrow> bindS (wr_user (logged W) (ss_userId ss) (sa_since a) ei) (\<lambda>merged.
           retS (if merged then (1, Some (su_updated_at ei)) else (0, None)))) (w, l) = (Inr (upd, mx), (w1, l))"
    "J (id_maps (ss_syncMap ss)) w1"
  proof (cases "sc_user chunk")
    case None
    with J that show ?thesis by (simp add: retS_def)
  next
    case (Some ei)
    obtain b w' where "wr_user W (ss_userId ss) (sa_since a) ei w = (Inr b, w')" "J (id_maps (ss_syncMap ss)) w'"
      using W J unfolding merges_ok_def by blast
    with Some that show ?thesis by (cases b) (simp_all add: logged_def retS_def)
  qed
  from merge_tables_spec [OF W u(2) d distinct_sync_order, of "sa_since a" "ss_userId ss" chunk 0 upd mx True] obtain m i u' mx' w' where
    t: "merge_tables (logged W) (sa_since a) (ss_userId ss) chunk sync_order (ss_syncMap ss, 0, upd, mx, True) (w1, l)
       = (Inr (m, i, u', mx', all_empty chunk sync_order), (w', ?l))"
    "J (id_maps m) w'" "counts m = (\<lambda>t. counts (ss_syncMap ss) t + int (length (got (sc_items chunk) t)))" "dated m ?l"
    "\<forall>t d. reaches (es_maxUpdated_at (m t)) d \<longrightarrow> reaches mx' d" by (auto simp: all_tables)
  let ?m0 = "\<lambda>t. (m t)\<lparr>es_count := 0\<rparr>"
  have m0: "id_maps ?m0 = id_maps m" "counts ?m0 = (\<lambda>_. 0)" "dated ?m0 ?l"
    using t(4) by (auto simp: id_maps_def counts_def intro: dated_same)
  define fin where "fin = all_empty chunk sync_order"
  let ?ss = "if fin then ss\<lparr>ss_when := mx', ss_syncMap := ?m0\<rparr> else ss\<lparr>ss_syncMap := m\<rparr>"
  let ?r = "\<lparr>sr_done = fin, sr_maxUpdated_at = mx', sr_updates = u', sr_inserts = i\<rparr>"
  have "processSyncChunk (logged W) ss a chunk (w, l) = (Inr (?ss, ?r), (w', ?l))"
    unfolding processSyncChunk_def
    by (rule trans [OF bindS_at], rule u(1), unfold prod.case, rule trans [OF bindS_at], rule t(1)) (simp add: retS_def fin_def)
  moreover have "J (id_maps (ss_syncMap ?ss)) w'" "dated (ss_syncMap ?ss) ?l" using t(2,4) m0 by simp_all
  moreover have "chunk_merged ss chunk ?ss" using t(3,5) m0(2) by (simp add: chunk_merged_def fin_def [symmetric])
  moreover have "sr_done ?r = fin" by simp
  ultimately show ?thesis unfolding fin_def by blast
qed

definition sync_ends :: "nat \<Rightarrow> 'd sync_reader \<Rightarrow> ('d, 'w) sync_writer \<Rightarrow> jstr \<Rightarrow> jstr \<Rightarrow> sync_state \<Rightarrow> int \<Rightarrow> int \<Rightarrow> 'd sync_chunk list \<Rightarrow> 'w \<Rightarrow>
    (sync_table \<times> 'd sync_item) list \<Rightarrow> (sync_table \<times> 'd sync_item) list \<Rightarrow> bool" where
  "sync_ends n R W identityKey toKey ss ins upd cs w l rows \<longleftrightarrow>
     (\<exists>ss' ins' upd' cs' w'. sync_loop n R (logged W) identityKey toKey ss ins upd cs (w, l) = (Inr (Some (ss', ins', upd', cs')), (w', l @ rows)) \<and>
        (\<forall>t. es_count (ss_syncMap ss' t) = 0) \<and> (\<forall>(t, x) \<in> set (l @ rows). reaches (ss_when ss') (si_updated_at x)))"

lemma tagged_length_less: "cut f g h ts \<Longrightarrow> tagged g ts \<noteq> [] \<Longrightarrow> length (tagged h ts) < length (tagged f ts)"
  by (auto simp: cut_def)

lemma loop_spec:
  assumes W: "merges_ok W J" and u: "rd_user R identityKey = Some u"
    and "J (id_maps (ss_syncMap ss)) w" "dated (ss_syncMap ss) l" "\<And>t. 0 \<le> counts (ss_syncMap ss) t"
    and "reader_has R (su_userId u) (ss_when ss) rows"
  shows "\<exists>n \<le> length (tagged (left_at (counts (ss_syncMap ss)) rows) sync_order) + 1.
     sync_ends n R W identityKey toKey ss ins upd cs w l (tagged (left_at (counts (ss_syncMap ss)) rows) sync_order)"
  using assms(3-)
proof (induction "length (tagged (left_at (counts (ss_syncMap ss)) rows) sync_order)" arbitrary: ss w l ins upd cs rule: less_induct)
  case less
  let ?off = "counts (ss_syncMap ss)" and ?a = "makeRequestSyncChunkArgs ss identityKey toKey None None"
  let ?left = "left_at ?off rows"
  have a: "sa_since ?a = ss_when ss" "sa_identityKey ?a = identityKey" "sa_offsets ?a = map (\<lambda>t. (t, ?off t)) sync_order" "0 < sa_maxItems ?a"
    by (simp_all add: makeRequestSyncChunkArgs_def counts_def)
  from chunk_spec [of R u ?a rows ?off] u a less.prems obtain rest chunk where
    c: "getSyncChunk R ?a = Inr chunk" "chunk_is ?left rest chunk" by auto
  let ?new = "tagged (got (sc_items chunk)) sync_order"
  from process_spec [OF W less.prems(1,2), of ?a chunk] obtain ss' r w' where
    p: "processSyncChunk (logged W) ss ?a chunk (w, l) = (Inr (ss', r), (w', l @ ?new))" "J (id_maps (ss_syncMap ss')) w'"
    "dated (ss_syncMap ss') (l @ ?new)" "sr_done r = all_empty chunk sync_order" "chunk_merged ss chunk ss'" by blast
  have turn: "sync_loop (Suc n) R (logged W) identityKey toKey ss ins upd cs (w, l) =
      (if sr_done r then (Inr (Some (ss', ins + sr_inserts r, upd + sr_updates r, cs @ [chunk])), (w', l @ ?new))
       else sync_loop n R (logged W) identityKey toKey ss' (ins + sr_inserts r) (upd + sr_updates r) (cs @ [chunk]) (w', l @ ?new))" for n
    using c(1) p(1) by (simp add: bindS_def liftS_def retS_def Let_def)
  show ?case
  proof (cases "?new = []")
    case True
    then have e: "tagged ?left sync_order = []" "all_empty chunk sync_order" using c(2) by (auto simp: chunk_is_def all_empty_def)
    with p(5) have m: "\<forall>t. es_count (ss_syncMap ss' t) = 0" "\<And>t d. reaches (es_maxUpdated_at (ss_syncMap ss' t)) d \<Longrightarrow> reaches (ss_when ss') d"
      by (auto simp: chunk_merged_def counts_def fun_eq_iff)
    have "\<forall>(t, x) \<in> set l. reaches (ss_when ss') (si_updated_at x)" using p(3) m(2) by (fastforce simp: dated_def)
    with turn [of 0] e p(4) m(1) True have "sync_ends (Suc 0) R W identityKey toKey ss ins upd cs w l (tagged ?left sync_order)"
      by (simp add: sync_ends_def)
    then show ?thesis by (intro exI [of _ "Suc 0"]) simp
  next
    case False
    then have ne: "\<not> all_empty chunk sync_order" by (auto simp: tagged_empty all_empty_def got_def split: option.splits)
    with p(5) have m: "counts (ss_syncMap ss') = (\<lambda>t. ?off t + int (length (got (sc_items chunk) t)))" "ss_when ss' = ss_when ss"
      by (simp_all add: chunk_merged_def)
    have cut: "cut ?left (got (sc_items chunk)) rest sync_order" using c(2) by (simp add: chunk_is_def)
    have left: "left_at (counts (ss_syncMap ss')) rows t = rest t" for t
    proof -
      have "left_at (counts (ss_syncMap ss')) rows t = drop (length (got (sc_items chunk) t)) (?left t)"
        using less.prems(3) [of t] by (simp add: left_at_def m nat_add_distrib add.commute)
      also have "\<dots> = rest t" using cut all_tables [of t] by (simp add: cut_def)
      finally show ?thesis .
    qed
    let ?rest = "tagged (left_at (counts (ss_syncMap ss')) rows) sync_order"
    have r: "tagged ?left sync_order = ?new @ ?rest" "length ?rest < length (tagged ?left sync_order)"
      using cut tagged_length_less [OF cut False] by (simp_all add: cut_def left tagged_def)
    from less.hyps [OF r(2) p(2,3), of "ins + sr_inserts r" "upd + sr_updates r" "cs @ [chunk]"] less.prems(3,4) m obtain n where
      n: "n \<le> length ?rest + 1" "sync_ends n R W identityKey toKey ss' (ins + sr_inserts r) (upd + sr_updates r) (cs @ [chunk]) w' (l @ ?new) ?rest"
      by auto
    with turn [of n] ne p(4) r have "sync_ends (Suc n) R W identityKey toKey ss ins upd cs w l (tagged ?left sync_order)"
      by (simp add: sync_ends_def)
    with n(1) r(2) show ?thesis by (intro exI [of _ "Suc n"]) simp
  qed
qed

text \<open>C12: A synchronisation from the start, with a reader that does not change and a writer that does not fail, ends after at most one
  chunk more than there are rows; the writer has then merged every row of the reader exactly once, parents before children; the offsets are
  zero again, and the next synchronisation starts at a date no row merged is later than.\<close>

theorem sync_delivers:
  assumes "merges_ok W J" "J (id_maps (ss_syncMap ss)) w" "\<And>t. es_count (ss_syncMap ss t) = 0"
    and "rd_user R identityKey = Some u" "reader_has R (su_userId u) (ss_when ss) rows"
  shows "\<exists>n ss' ins upd chunks w'. n \<le> length (tagged rows sync_order) + 1 \<and>
     sync_loop n R (logged W) identityKey toKey ss 0 0 [] (w, []) = (Inr (Some (ss', ins, upd, chunks)), (w', tagged rows sync_order)) \<and>
     (\<forall>t. es_count (ss_syncMap ss' t) = 0) \<and> (\<forall>(t, x) \<in> set (tagged rows sync_order). reaches (ss_when ss') (si_updated_at x))"
proof -
  have z: "counts (ss_syncMap ss) = (\<lambda>_. 0)" using assms(3) by (simp add: counts_def fun_eq_iff)
  have l: "left_at (counts (ss_syncMap ss)) rows = rows" by (simp add: z left_at_def fun_eq_iff)
  have "dated (ss_syncMap ss) []" by (simp add: dated_def)
  from loop_spec [OF assms(1,4,2) this _ assms(5), of toKey 0 0 "[]"] show ?thesis
    unfolding l sync_ends_def append_Nil by (simp add: z)
qed

text \<open>Two outputs of one transaction, a writer that keeps the reader's ids.\<close>

definition demo_row :: "int \<Rightarrow> unit sync_item" where
  "demo_row i = \<lparr>si_id = i, si_updated_at = 100 + i, si_size = 300, si_valid = True, si_data = ()\<rparr>"

definition demo_rows :: "sync_table \<Rightarrow> unit sync_item list" where
  "demo_rows t = (case t of TransactionE \<Rightarrow> [demo_row 1] | OutputE \<Rightarrow> [demo_row 1, demo_row 2] | _ \<Rightarrow> [])"

definition demo_reader :: "unit sync_reader" where
  "demo_reader = \<lparr>rd_user = (\<lambda>_. Some \<lparr>su_userId = 1, su_updated_at = 5, su_activeStorage = None\<rparr>),
     rd_find = (\<lambda>t i d limit offset. take (nat \<lfloor>limit\<rfloor>) (drop (nat offset) (demo_rows t)))\<rparr>"

definition demo_writer :: "(unit, unit) sync_writer" where
  "demo_writer = \<lparr>wr_user = (\<lambda>_ _ _ w. (Inr False, w)),
     wr_merge = (\<lambda>t d i m x w. (Inr \<lparr>mr_found = False, mr_merged = False, mr_eiId = (if si_id x < 1 then - 1 else si_id x), mr_eoId = si_id x\<rparr>, w))\<rparr>"

definition demo_sync_state :: sync_state where
  "demo_sync_state = \<lparr>ss_userId = 1, ss_storageIdentityKey = [], ss_when = None, ss_syncMap = createSyncMap\<rparr>"

theorem sync_delivers_witness:
  "\<exists>n ss' ins upd chunks. n \<le> 4 \<and>
     sync_loop n demo_reader (logged demo_writer) [] [] demo_sync_state 0 0 [] ((), [])
       = (Inr (Some (ss', ins, upd, chunks)), ((), [(TransactionE, demo_row 1), (OutputE, demo_row 1), (OutputE, demo_row 2)])) \<and>
     reaches (ss_when ss') 102"
proof -
  let ?J = "\<lambda>(m :: sync_table \<Rightarrow> int \<Rightarrow> int option) (w :: unit). \<forall>t i j. m t i = Some j \<longrightarrow> j = i"
  let ?u = "\<lparr>su_userId = 1, su_updated_at = 5, su_activeStorage = None\<rparr>"
  have rows: "tagged demo_rows sync_order = [(TransactionE, demo_row 1), (OutputE, demo_row 1), (OutputE, demo_row 2)]"
    by (simp add: sync_order_def demo_rows_def)
  have W: "merges_ok demo_writer ?J"
    unfolding merges_ok_def demo_writer_def id_maps_def by (auto split: option.splits) (metis not_Some_eq)+
  have "\<exists>k. rd_find demo_reader t 1 None limit offset = take k (drop (nat offset) (demo_rows t)) \<and> (1 \<le> limit \<longrightarrow> 0 < k)" for t limit offset
    by (intro exI [of _ "nat \<lfloor>limit\<rfloor>"]) (simp add: demo_reader_def)
  then have R: "reader_has demo_reader (su_userId ?u) (ss_when demo_sync_state) demo_rows"
    by (auto simp: reader_has_def demo_sync_state_def demo_rows_def demo_row_def split: sync_table.split)
  have "?J (id_maps (ss_syncMap demo_sync_state)) ()" "\<And>t. es_count (ss_syncMap demo_sync_state t) = 0" "rd_user demo_reader [] = Some ?u"
    by (simp_all add: demo_sync_state_def createSyncMap_def id_maps_def demo_reader_def)
  from sync_delivers [OF W this R, of "[]"] obtain n ss' ins upd chunks w' where
    "n \<le> length (tagged demo_rows sync_order) + 1"
    "sync_loop n demo_reader (logged demo_writer) [] [] demo_sync_state 0 0 [] ((), []) = (Inr (Some (ss', ins, upd, chunks)), (w', tagged demo_rows sync_order))"
    "\<forall>(t, x) \<in> set (tagged demo_rows sync_order). reaches (ss_when ss') (si_updated_at x)" by blast
  then show ?thesis unfolding rows by (intro exI [of _ n] exI [of _ ss'] exI [of _ ins] exI [of _ upd] exI [of _ chunks]) (simp add: demo_row_def)
qed

section \<open>Ids\<close>

definition maps_more :: "sync_map \<Rightarrow> sync_map \<Rightarrow> bool" where
  "maps_more m m' \<longleftrightarrow> (\<forall>t. es_idMap (m t) \<subseteq>\<^sub>m es_idMap (m' t))"

lemma maps_more_trans: "maps_more a b \<Longrightarrow> maps_more b c \<Longrightarrow> maps_more a c"
  unfolding maps_more_def by (blast intro: map_le_trans)

lemma maps_more_same: "(\<And>v. es_idMap (m' v) = es_idMap (m v)) \<Longrightarrow> maps_more m m'"
  by (simp add: maps_more_def)

lemma updateSyncMap_more: "updateSyncMap m i j = Inr m' \<Longrightarrow> m \<subseteq>\<^sub>m m'"
  by (auto simp: updateSyncMap_def verifyId_def map_le_def split: if_splits option.splits)

lemma merge_row_more:
  assumes "merge_row W since userId t x m w = (Inr (m', i, u), w')"
  shows "maps_more m m'"
proof -
  define m1 where "m1 = upd_table t (\<lambda>e. e\<lparr>es_maxUpdated_at := maxDate (es_maxUpdated_at e) (Some (si_updated_at x))\<rparr>) m"
  have "maps_more m m1" by (rule maps_more_same) (simp add: m1_def upd_table_def)
  moreover from assms obtain r :: merge_result and w1 where
    r: "(if mr_eiId r > -1 then bindS (liftS (updateSyncMap (es_idMap (m1 t)) (mr_eiId r) (mr_eoId r))) (\<lambda>im.
         retS (upd_table t (\<lambda>e. e\<lparr>es_idMap := im\<rparr>) m1, of_bool (\<not> mr_found r), of_bool (mr_found r \<and> mr_merged r)))
       else retS (m1, of_bool (\<not> mr_found r), of_bool (mr_found r \<and> mr_merged r))) w1 = (Inr (m', i, u), w')"
    unfolding merge_row_def m1_def [symmetric] Let_def bindS_Inr_iff by (elim exE conjE) (rule that)
  have "maps_more m1 m'"
  proof (cases "mr_eiId r > -1")
    case True
    with r obtain im where "updateSyncMap (es_idMap (m1 t)) (mr_eiId r) (mr_eoId r) = Inr im" "m' = upd_table t (\<lambda>e. e\<lparr>es_idMap := im\<rparr>) m1"
      by (cases "updateSyncMap (es_idMap (m1 t)) (mr_eiId r) (mr_eoId r)") (simp_all add: bindS_def liftS_def retS_def)
    then show ?thesis using updateSyncMap_more by (simp add: maps_more_def upd_table_def)
  next
    case False
    with r show ?thesis by (simp add: retS_def maps_more_def)
  qed
  ultimately show ?thesis by (rule maps_more_trans)
qed

lemma bindS_InrE:
  assumes "bindS m f s = (Inr b, t)"
  obtains a u where "m s = (Inr a, u)" "f a u = (Inr b, t)"
  using assms by (auto simp: bindS_Inr_iff)

lemma merge_rows_more: "merge_rows W since userId t xs m w = (Inr (m', i, u), w') \<Longrightarrow> maps_more m m'"
proof (induction xs arbitrary: m w i u)
  case Nil
  then show ?case by (simp add: retS_def maps_more_def)
next
  case (Cons x xs)
  from Cons.prems [unfolded merge_rows.simps] obtain p w1 where
    a: "merge_row W since userId t x m w = (Inr p, w1)"
    and c: "(case p of (m1, i1, u1) \<Rightarrow> bindS (merge_rows W since userId t xs m1) (\<lambda>(m2, i2, u2). retS (m2, i1 + i2, u1 + u2))) w1 = (Inr (m', i, u), w')"
    by (rule bindS_InrE)
  obtain m1 i1 u1 where p: "p = (m1, i1, u1)" by (cases p)
  from c [unfolded p prod.case] obtain q w2 where b: "merge_rows W since userId t xs m1 w1 = (Inr q, w2)"
    and d: "(case q of (m2, i2, u2) \<Rightarrow> retS (m2, i1 + i2, u1 + u2)) w2 = (Inr (m', i, u) :: sync_error + _, w')"
    by (rule bindS_InrE)
  obtain m2 i2 u2 where q: "q = (m2, i2, u2)" by (cases q)
  from d have e: "m2 = m'" "w2 = w'" by (simp_all add: q retS_def)
  have "maps_more m m1" using merge_row_more a unfolding p .
  moreover have "maps_more m1 m'" using Cons.IH b unfolding q e .
  ultimately show ?case by (rule maps_more_trans)
qed

lemma merge_table_more: "merge_table W since userId t arr acc w = (Inr acc', w') \<Longrightarrow> maps_more (fst acc) (fst acc')"
proof -
  assume a: "merge_table W since userId t arr acc w = (Inr acc', w')"
  obtain m ins upd mx fin where acc: "acc = (m, ins, upd, mx, fin)" by (cases acc) auto
  obtain p w1 where r0: "(case arr of None \<Rightarrow> retS (m, 0, 0) | Some xs \<Rightarrow> merge_rows W since userId t xs m) w = (Inr p, w1)"
    and c: "(case p of (m1, i, u) \<Rightarrow> let n = (case arr of None \<Rightarrow> 0 | Some xs \<Rightarrow> length xs); m2 = upd_table t (\<lambda>e. e\<lparr>es_count := es_count e + int n\<rparr>) m1 in
     retS (m2, ins + i, upd + u, maxDate mx (es_maxUpdated_at (m2 t)), fin \<and> arr \<noteq> None \<and> n = 0)) w1 = (Inr acc' :: sync_error + _, w')"
    using a unfolding merge_table_def acc prod.case bindS_Inr_iff by (elim exE conjE) (rule that)
  obtain m1 i u where p: "p = (m1, i, u)" by (cases p)
  note r = r0 [unfolded p]
  have m': "fst acc' = upd_table t (\<lambda>e. e\<lparr>es_count := es_count e + int (case arr of None \<Rightarrow> 0 | Some xs \<Rightarrow> length xs)\<rparr>) m1"
    using c unfolding p prod.case Let_def retS_def by (simp add: prod_eq_iff)
  have "maps_more m m1" using r by (cases arr) (auto simp: retS_def maps_more_def dest: merge_rows_more)
  moreover have "maps_more m1 (fst acc')" unfolding m' by (rule maps_more_same) (simp add: upd_table_def)
  ultimately show ?thesis unfolding acc fst_conv by (rule maps_more_trans)
qed

lemma merge_tables_more: "merge_tables W since userId chunk ts acc w = (Inr acc', w') \<Longrightarrow> maps_more (fst acc) (fst acc')"
proof (induction ts arbitrary: acc w)
  case Nil
  then show ?case by (simp add: retS_def maps_more_def)
next
  case (Cons t ts)
  from Cons.prems [unfolded merge_tables.simps] obtain acc1 w1 where a: "merge_table W since userId t (sc_items chunk t) acc w = (Inr acc1, w1)"
    and b: "merge_tables W since userId chunk ts acc1 w1 = (Inr acc', w')" by (rule bindS_InrE)
  show ?case by (rule maps_more_trans [OF merge_table_more [OF a] Cons.IH [OF b]])
qed

text \<open>C16: An id the store has once mapped keeps its image through every chunk, whatever the writer's tables answer: a row that arrives again,
  or that another row refers to, is the same row of the writer as before.\<close>

theorem mapped_ids_stay:
  assumes "processSyncChunk W ss a chunk w = (Inr (ss', r), w')" "es_idMap (ss_syncMap ss t) i = Some j"
  shows "es_idMap (ss_syncMap ss' t) i = Some j"
proof -
  obtain p w1 where
    "(case p of (upd, mx) \<Rightarrow> bindS (merge_tables W (sa_since a) (ss_userId ss) chunk sync_order (ss_syncMap ss, 0, upd, mx, True)) (\<lambda>(m, ins, upd, mx, fin).
       retS (if fin then ss\<lparr>ss_when := mx, ss_syncMap := (\<lambda>t. (m t)\<lparr>es_count := 0\<rparr>)\<rparr> else ss\<lparr>ss_syncMap := m\<rparr>,
         \<lparr>sr_done = fin, sr_maxUpdated_at = mx, sr_updates = upd, sr_inserts = ins\<rparr>))) w1 = (Inr (ss', r), w')"
    by (rule bindS_InrE [OF assms(1) [unfolded processSyncChunk_def]])
  then obtain q w2 where
    t: "merge_tables W (sa_since a) (ss_userId ss) chunk sync_order (ss_syncMap ss, 0, fst p, snd p, True) w1 = (Inr q, w2)"
    and e: "(case q of (m, ins, upd, mx, fin) \<Rightarrow>
       retS (if fin then ss\<lparr>ss_when := mx, ss_syncMap := (\<lambda>t. (m t)\<lparr>es_count := 0\<rparr>)\<rparr> else ss\<lparr>ss_syncMap := m\<rparr>,
         \<lparr>sr_done = fin, sr_maxUpdated_at = mx, sr_updates = upd, sr_inserts = ins\<rparr>)) w2 = (Inr (ss', r) :: sync_error + _, w')"
    unfolding case_prod_beta [of _ p] by (rule bindS_InrE)
  obtain m ins upd mx fin where q: "q = (m, ins, upd, mx, fin)" by (cases q)
  have "ss' = (if fin then ss\<lparr>ss_when := mx, ss_syncMap := (\<lambda>t. (m t)\<lparr>es_count := 0\<rparr>)\<rparr> else ss\<lparr>ss_syncMap := m\<rparr>)"
    using e unfolding q prod.case retS_def by blast
  then have m: "es_idMap (ss_syncMap ss' v) = es_idMap (m v)" for v by (simp split: if_splits)
  have "maps_more (ss_syncMap ss) m" using merge_tables_more [OF t] by (simp add: q)
  then have "es_idMap (ss_syncMap ss t) \<subseteq>\<^sub>m es_idMap (m t)" by (simp add: maps_more_def)
  with assms(2) have "es_idMap (m t) i = Some j" by (metis domI map_le_def)
  then show ?thesis by (simp add: m)
qed

definition demo_chunk :: "unit sync_chunk" where
  "demo_chunk = \<lparr>sc_from = [], sc_to = [], sc_identityKey = [], sc_user = None,
     sc_items = (\<lambda>t. if t = OutputE then Some [demo_row 1, demo_row 2] else None)\<rparr>"

definition demo_known :: sync_state where
  "demo_known = demo_sync_state\<lparr>ss_syncMap := createSyncMap(OutputE := \<lparr>es_idMap = [1 \<mapsto> 1], es_maxUpdated_at = None, es_count = 1\<rparr>)\<rparr>"

lemma demo_chunk_processed:
  "\<exists>ss' r. processSyncChunk demo_writer demo_known (makeRequestSyncChunkArgs demo_known [] [] None None) demo_chunk ()
     = (Inr (ss', r), ()) \<and> es_idMap (ss_syncMap ss' OutputE) 2 = Some 2"
  by (simp add: processSyncChunk_def sync_order_def merge_table_def merge_row_def demo_chunk_def demo_known_def demo_sync_state_def
    createSyncMap_def demo_writer_def demo_row_def upd_table_def updateSyncMap_def verifyId_def retS_def liftS_def Let_def)

theorem mapped_ids_stay_witness:
  "\<exists>ss' r. processSyncChunk demo_writer demo_known (makeRequestSyncChunkArgs demo_known [] [] None None) demo_chunk ()
     = (Inr (ss', r), ()) \<and> es_idMap (ss_syncMap ss' OutputE) 1 = Some 1 \<and> es_idMap (ss_syncMap ss' OutputE) 2 = Some 2"
proof -
  from demo_chunk_processed obtain ss' r where
    p: "processSyncChunk demo_writer demo_known (makeRequestSyncChunkArgs demo_known [] [] None None) demo_chunk () = (Inr (ss', r), ())"
    and two: "es_idMap (ss_syncMap ss' OutputE) 2 = Some 2" by blast
  have "es_idMap (ss_syncMap demo_known OutputE) 1 = Some 1" by (simp add: demo_known_def)
  from mapped_ids_stay [OF p this] p two show ?thesis by blast
qed

end
