(* ===== verification/StoreManager.thy ===== *)
theory StoreManager
  imports Async MerklePaths
begin

text \<open>
  The manager of the wallet's stores (\<^verbatim>\<open>src/src/storage/WalletStorageManager.ts\<close>): which of the stores is the active one, the locks its
  readers and writers take, the operations it passes on to the active store, the change of the active store, and the renewal of merkle proofs.

  A managed store is named by its place in \<open>_stores\<close>, which only grows; \<open>_active\<close>, \<open>_backups\<close> and \<open>_conflictingActives\<close> hold such places,
  as the code's arrays hold references to the same objects. A promise is the number of its creation, \<open>sm_promises\<close> says which are resolved.
  What a provider, the services or a caller's function do is a request; \<open>Under\<close> marks the requests that are made under a lock, with the
  kind of the lock. A synchronisation of two stores (the loop of \<open>SyncChunks\<close>) is one request. The log texts are left out.

  A loop over \<open>_stores\<close> sees what is added to the array while it waits, so it reads the length at each turn; an array of JavaScript has at most
  \<open>MAX_ARRAY\<close> elements, which bounds it. \<open>_backups\<close> and \<open>_conflictingActives\<close> are looped over as they are at the start of the loop.
\<close>

section \<open>State\<close>

record store_settings =
  set_storageIdentityKey :: jstr
  set_storageName :: jstr

record store_user =
  usr_userId :: int
  usr_activeStorage :: jstr

record managed_store =
  mg_isStorageProvider :: bool
  mg_concurrentWrites :: bool
  mg_isAvailable :: bool
  mg_settings :: "store_settings option"
  mg_user :: "store_user option"

datatype lock_kind = ReaderLocks | WriterLocks | SyncLocks | SpLocks

record store_manager =
  sm_identityKey :: jstr
  sm_stores :: "managed_store list"
  sm_isAvailable :: bool
  sm_active :: "nat option"
  sm_backups :: "nat list option"
  sm_conflictingActives :: "nat list option"
  sm_userId :: "int option"
  sm_isActive :: bool
  sm_services :: bool
  sm_locks :: "lock_kind \<Rightarrow> nat list"
  sm_exclusive :: "nat list"
  sm_shared :: "nat list"
  sm_sharedCount :: int
  sm_promises :: "bool list"

record sm_auth =
  au_identityKey :: jstr
  au_userId :: "int option"
  au_isActive :: bool

datatype sm_error = NoStores | InvalidOperation | NotActive | Unauthorized | UserIdChanged | UnknownStore | BadArgs | NoServices
  | TypeErr | RangeErr | Thrown jstr

text \<open>A row of the proven transactions and a change of it.\<close>

record proven_tx =
  ptx_id :: int
  ptx_txid :: jstr
  ptx_height :: int
  ptx_index :: int
  ptx_merklePath :: mbytes
  ptx_merkleRoot :: jstr
  ptx_blockHash :: jstr

record proven_update =
  pu_height :: int
  pu_index :: int
  pu_merklePath :: mbytes
  pu_merkleRoot :: jstr
  pu_blockHash :: jstr

record proof_header =
  ph_hash :: jstr
  ph_merkleRoot :: jstr

datatype run_kind = AsReader | AsWriter | AsSync | AsStorageProvider | AsConcurrentWriter

datatype proven_filter = ByBlockHash jstr | ByHeightAndRoot int jstr

datatype 'q store_op =
    Client "sm_auth option" 'q
  | StoreFindOrInsertUser jstr
  | StoreDestroy
  | StoreSetActive jstr int jstr
  | SyncFrom nat "jstr option"
  | SyncInto nat
  | FindProven proven_filter
  | UpdateProven int proven_update

datatype 'q sm_req =
    AskAvailable nat
  | AskNewAvailable
  | AskUser nat jstr
  | Under run_kind nat "'q store_op"
  | AskChainTracker
  | AskMerklePath jstr
  | AskRoot jstr int

datatype 'r sm_ans =
    IsSettings store_settings
  | IsUser store_user
  | IsProven "proven_tx list"
  | IsProof "(merkle_path \<times> proof_header) option"
  | IsBool bool
  | IsDone
  | IsValue 'r

type_synonym ('q, 'r, 'a) smp = "(store_manager, 'q sm_req, 'r sm_ans, sm_error, 'a) prog"

definition new_managed :: "bool \<Rightarrow> bool \<Rightarrow> managed_store" where
  "new_managed isStorageProvider concurrentWrites = \<lparr>mg_isStorageProvider = isStorageProvider, mg_concurrentWrites = concurrentWrites,
     mg_isAvailable = False, mg_settings = None, mg_user = None\<rparr>"

definition new_manager :: "jstr \<Rightarrow> managed_store option \<Rightarrow> managed_store list \<Rightarrow> store_manager" where
  "new_manager identityKey active backups = \<lparr>sm_identityKey = identityKey,
     sm_stores = (case active of None \<Rightarrow> backups | Some a \<Rightarrow> a # backups), sm_isAvailable = False, sm_active = None, sm_backups = None,
     sm_conflictingActives = None, sm_userId = None, sm_isActive = False, sm_services = False, sm_locks = (\<lambda>_. []), sm_exclusive = [],
     sm_shared = [], sm_sharedCount = 0, sm_promises = []\<rparr>"

definition MAX_ARRAY :: nat where
  "MAX_ARRAY = 4294967295"

section \<open>Choosing the active store\<close>

definition settings_key :: "store_manager \<Rightarrow> nat \<Rightarrow> jstr option" where
  "settings_key s i = map_option set_storageIdentityKey (mg_settings (sm_stores s ! i))"

definition user_active :: "store_manager \<Rightarrow> nat \<Rightarrow> jstr option" where
  "user_active s i = map_option usr_activeStorage (mg_user (sm_stores s ! i))"

definition isActiveEnabled :: "store_manager \<Rightarrow> bool" where
  "isActiveEnabled s = (case sm_active s of None \<Rightarrow> False
     | Some i \<Rightarrow> settings_key s i = user_active s i \<and> sm_conflictingActives s = Some [])"

definition upd_store :: "nat \<Rightarrow> (managed_store \<Rightarrow> managed_store) \<Rightarrow> store_manager \<Rightarrow> store_manager" where
  "upd_store i f s = s\<lparr>sm_stores := (sm_stores s)[i := f (sm_stores s ! i)]\<rparr>"

definition getSettingsAnswer :: "'r sm_ans \<Rightarrow> store_settings option" where
  "getSettingsAnswer a = (case a of IsSettings x \<Rightarrow> Some x | _ \<Rightarrow> None)"

definition getUserAnswer :: "'r sm_ans \<Rightarrow> store_user option" where
  "getUserAnswer a = (case a of IsUser x \<Rightarrow> Some x | _ \<Rightarrow> None)"

definition getDone :: "'r sm_ans \<Rightarrow> unit option" where
  "getDone a = Some ()"

definition ensureStoreAvailable :: "nat \<Rightarrow> ('q, 'r, unit) smp" where
  "ensureStoreAvailable i = bindP (readP (\<lambda>s. let m = sm_stores s ! i in mg_isAvailable m \<and> mg_settings m \<noteq> None \<and> mg_user m \<noteq> None)) (\<lambda>ready.
     if ready then Ret ()
     else bindP (awaitP (AskAvailable i) getSettingsAnswer TypeErr) (\<lambda>x.
       bindP (modifyP (upd_store i (\<lambda>m. m\<lparr>mg_settings := Some x\<rparr>))) (\<lambda>_.
       bindP (readP sm_identityKey) (\<lambda>k. bindP (awaitP (AskUser i k) getUserAnswer TypeErr) (\<lambda>u.
       modifyP (upd_store i (\<lambda>m. m\<lparr>mg_user := Some u, mg_isAvailable := True\<rparr>)))))))"

definition selectActiveFromStore :: "nat \<Rightarrow> nat list \<Rightarrow> store_manager \<Rightarrow> store_manager \<times> nat list" where
  "selectActiveFromStore i backups s = (case sm_active s of
      None \<Rightarrow> (s\<lparr>sm_active := Some i\<rparr>, backups)
    | Some a \<Rightarrow> if user_active s i = settings_key s i \<and> \<not> isActiveEnabled s then (s\<lparr>sm_active := Some i\<rparr>, backups @ [a])
        else (s, backups @ [i]))"

text \<open>The turns of the loop over the stores, from the \<open>i\<close>-th on.\<close>

fun available_loop :: "nat \<Rightarrow> nat \<Rightarrow> nat list \<Rightarrow> ('q, 'r, nat list) smp" where
  "available_loop 0 i backups = Ret backups"
| "available_loop (Suc n) i backups = bindP (readP (\<lambda>s. i < length (sm_stores s))) (\<lambda>more.
     if \<not> more then Ret backups
     else bindP (ensureStoreAvailable i) (\<lambda>_.
       Do (\<lambda>s. fst (selectActiveFromStore i backups s)) (\<lambda>s. available_loop n (Suc i) (snd (selectActiveFromStore i backups s)))))"

definition append_some :: "nat list option \<Rightarrow> nat list \<Rightarrow> nat list option" where
  "append_some xs ys = map_option (\<lambda>zs. zs @ ys) xs"

definition partition_backups :: "nat list \<Rightarrow> store_manager \<Rightarrow> store_manager" where
  "partition_backups backups s = (let si = Option.bind (sm_active s) (settings_key s) in
     s\<lparr>sm_conflictingActives := append_some (sm_conflictingActives s) (filter (\<lambda>i. user_active s i \<noteq> si) backups),
       sm_backups := append_some (sm_backups s) (filter (\<lambda>i. user_active s i = si) backups)\<rparr>)"

definition become_available :: "store_manager \<Rightarrow> store_manager" where
  "become_available s = s\<lparr>sm_isAvailable := True,
     sm_userId := map_option usr_userId (Option.bind (sm_active s) (\<lambda>i. mg_user (sm_stores s ! i))), sm_isActive := isActiveEnabled s\<rparr>"

definition makeAvailable :: "('q, 'r, unit) smp" where
  "makeAvailable = bindP (readP sm_isAvailable) (\<lambda>av.
     if av then Ret ()
     else bindP (modifyP (\<lambda>s. s\<lparr>sm_active := None, sm_backups := Some [], sm_conflictingActives := Some []\<rparr>)) (\<lambda>_.
       bindP (readP (\<lambda>s. sm_stores s = [])) (\<lambda>none.
       if none then Throw NoStores
       else bindP (available_loop MAX_ARRAY 0 []) (\<lambda>backups.
         modifyP (\<lambda>s. become_available (partition_backups backups s))))))"

definition verifyActive :: "store_manager \<Rightarrow> nat option" where
  "verifyActive s = (if sm_isAvailable s then sm_active s else None)"

definition getActive :: "('q, 'r, nat) smp" where
  "getActive = bindP (readP verifyActive) (\<lambda>a. case a of None \<Rightarrow> Throw InvalidOperation | Some i \<Rightarrow> Ret i)"

definition auth_of :: "store_manager \<Rightarrow> sm_auth" where
  "auth_of s = \<lparr>au_identityKey = sm_identityKey s, au_userId = sm_userId s, au_isActive = sm_isActive s\<rparr>"

text \<open>The code hands out its one object \<open>_authId\<close>; whoever uses it later sees it as it is then, so a caller reads it with \<open>auth_of\<close> where
  it is used.\<close>

definition getAuth :: "bool \<Rightarrow> ('q, 'r, unit) smp" where
  "getAuth mustBeActive = bindP (readP sm_isAvailable) (\<lambda>av. bindP (whenP (\<not> av) makeAvailable) (\<lambda>_.
     bindP (readP sm_isActive) (\<lambda>act. if mustBeActive \<and> \<not> act then Throw NotActive else Ret ())))"

text \<open>The keys of the stores, where there are settings.\<close>

definition key_of :: "store_manager \<Rightarrow> nat \<Rightarrow> sm_error + jstr" where
  "key_of s i = (case settings_key s i of None \<Rightarrow> Inl TypeErr | Some k \<Rightarrow> Inr k)"

definition when_active :: "store_manager \<Rightarrow> (nat \<Rightarrow> sm_error + 'a) \<Rightarrow> sm_error + 'a" where
  "when_active s f = (case verifyActive s of None \<Rightarrow> Inl InvalidOperation | Some a \<Rightarrow> f a)"

definition getActiveStore :: "store_manager \<Rightarrow> sm_error + jstr" where
  "getActiveStore s = when_active s (key_of s)"

definition getBackupStores :: "store_manager \<Rightarrow> sm_error + jstr list" where
  "getBackupStores s = when_active s (\<lambda>_. case sm_backups s of None \<Rightarrow> Inl TypeErr | Some bs \<Rightarrow> mapE (key_of s) bs)"

definition getConflictingStores :: "store_manager \<Rightarrow> sm_error + jstr list" where
  "getConflictingStores s = when_active s (\<lambda>_. case sm_conflictingActives s of None \<Rightarrow> Inl TypeErr | Some cs \<Rightarrow> mapE (key_of s) cs)"

definition getAllStores :: "store_manager \<Rightarrow> sm_error + jstr list" where
  "getAllStores s = when_active s (\<lambda>_. mapE (key_of s) [0..<length (sm_stores s)])"

section \<open>Locks\<close>

definition settle :: "nat \<Rightarrow> store_manager \<Rightarrow> store_manager" where
  "settle w s = s\<lparr>sm_promises := (sm_promises s)[w := True]\<rparr>"

definition settle_head :: "nat list \<Rightarrow> store_manager \<Rightarrow> store_manager" where
  "settle_head ws s = (case ws of [] \<Rightarrow> s | w # _ \<Rightarrow> settle w s)"

definition enqueue_lock :: "lock_kind \<Rightarrow> store_manager \<Rightarrow> store_manager" where
  "enqueue_lock k s = (let w = length (sm_promises s); q = sm_locks s k @ [w] in
     s\<lparr>sm_locks := (sm_locks s)(k := q), sm_promises := sm_promises s @ [length q = 1]\<rparr>)"

definition waitDone :: "nat \<Rightarrow> ('q, 'r, unit) smp" where
  "waitDone w = bindP (waitP w) (\<lambda>_. Ret ())"

definition getActiveLock :: "lock_kind \<Rightarrow> ('q, 'r, unit) smp" where
  "getActiveLock k = bindP (readP sm_isAvailable) (\<lambda>av. bindP (whenP (\<not> av) makeAvailable) (\<lambda>_.
     Do (enqueue_lock k) (\<lambda>s. waitDone (length (sm_promises s)))))"

definition releaseActiveLock :: "lock_kind \<Rightarrow> store_manager \<Rightarrow> store_manager" where
  "releaseActiveLock k s = (let q = tl (sm_locks s k) in settle_head q (s\<lparr>sm_locks := (sm_locks s)(k := q)\<rparr>))"

definition enqueue_shared :: "store_manager \<Rightarrow> store_manager" where
  "enqueue_shared s = s\<lparr>sm_shared := sm_shared s @ [length (sm_promises s)], sm_promises := sm_promises s @ [False]\<rparr>"

definition count_shared :: "store_manager \<Rightarrow> store_manager" where
  "count_shared s = s\<lparr>sm_sharedCount := sm_sharedCount s + 1\<rparr>"

definition getActionWriterSharedLock :: "('q, 'r, unit) smp" where
  "getActionWriterSharedLock = bindP (readP (\<lambda>s. sm_exclusive s = [])) (\<lambda>free.
     if free then modifyP count_shared
     else Do enqueue_shared (\<lambda>s. bindP (waitDone (length (sm_promises s))) (\<lambda>_. modifyP count_shared)))"

definition releaseActionWriterSharedLock :: "store_manager \<Rightarrow> store_manager" where
  "releaseActionWriterSharedLock s = (let n = max 0 (sm_sharedCount s - 1); t = s\<lparr>sm_sharedCount := n\<rparr> in
     if n = 0 then settle_head (sm_exclusive s) t else t)"

definition enqueue_exclusive :: "store_manager \<Rightarrow> store_manager" where
  "enqueue_exclusive s = (let q = sm_exclusive s @ [length (sm_promises s)] in
     s\<lparr>sm_exclusive := q, sm_promises := sm_promises s @ [length q = 1 \<and> sm_sharedCount s = 0]\<rparr>)"

definition getActionWriterExclusiveLock :: "('q, 'r, unit) smp" where
  "getActionWriterExclusiveLock = Do enqueue_exclusive (\<lambda>s. waitDone (length (sm_promises s)))"

definition releaseActionWriterExclusiveLock :: "store_manager \<Rightarrow> store_manager" where
  "releaseActionWriterExclusiveLock s = (let q = tl (sm_exclusive s); t = s\<lparr>sm_exclusive := q\<rparr> in
     if q \<noteq> [] then (if sm_sharedCount s = 0 then settle_head q t else t)
     else fold settle (sm_shared s) (t\<lparr>sm_shared := []\<rparr>))"

text \<open>The locks an access takes, in this order; they are released in the opposite one.\<close>

definition locks_of :: "run_kind \<Rightarrow> lock_kind list" where
  "locks_of role = (case role of AsReader \<Rightarrow> [ReaderLocks] | AsWriter \<Rightarrow> [ReaderLocks, WriterLocks]
     | AsSync \<Rightarrow> [ReaderLocks, WriterLocks, SyncLocks] | AsStorageProvider \<Rightarrow> [ReaderLocks, WriterLocks, SyncLocks, SpLocks]
     | AsConcurrentWriter \<Rightarrow> [])"

definition getActiveFor :: "run_kind \<Rightarrow> ('q, 'r, nat) smp" where
  "getActiveFor role = bindP (eachP getActiveLock (locks_of role)) (\<lambda>_. bindP getActive (\<lambda>a.
     if role = AsStorageProvider
     then bindP (readP (\<lambda>s. mg_isStorageProvider (sm_stores s ! a))) (\<lambda>sp. if sp then Ret a else Throw InvalidOperation)
     else Ret a))"

definition releaseActiveFor :: "run_kind \<Rightarrow> store_manager \<Rightarrow> store_manager" where
  "releaseActiveFor role = fold releaseActiveLock (rev (locks_of role))"

definition runAsWriter :: "(nat \<Rightarrow> ('q, 'r, 'a) smp) \<Rightarrow> ('q, 'r, 'a) smp" where
  "runAsWriter writer = bindP getActionWriterExclusiveLock (\<lambda>_.
     finallyP (bindP (getActiveFor AsWriter) writer)
       (bindP (modifyP (releaseActiveFor AsWriter)) (\<lambda>_. modifyP releaseActionWriterExclusiveLock)))"

definition getConcurrentActionWriter :: "store_manager \<Rightarrow> nat option" where
  "getConcurrentActionWriter s = (if \<not> sm_isAvailable s \<or> \<not> isActiveEnabled s then None
     else if length (sm_stores s) \<noteq> 1 then None
     else if sm_backups s \<notin> {None, Some []} \<or> sm_conflictingActives s \<notin> {None, Some []} then None
     else (case verifyActive s of None \<Rightarrow> None | Some a \<Rightarrow> if mg_concurrentWrites (sm_stores s ! a) then Some a else None))"

text \<open>The shared lock is released on every way out of the \<open>try\<close> on which it is held.\<close>

definition runAsActionWriter :: "(nat \<Rightarrow> run_kind \<Rightarrow> ('q, 'r, 'a) smp) \<Rightarrow> ('q, 'r, 'a) smp" where
  "runAsActionWriter writer = bindP (readP getConcurrentActionWriter) (\<lambda>c. case c of
      None \<Rightarrow> runAsWriter (\<lambda>a. writer a AsWriter)
    | Some _ \<Rightarrow> bindP getActionWriterSharedLock (\<lambda>_. bindP (readP getConcurrentActionWriter) (\<lambda>c. case c of
        None \<Rightarrow> bindP (modifyP releaseActionWriterSharedLock) (\<lambda>_. runAsWriter (\<lambda>a. writer a AsWriter))
      | Some a \<Rightarrow> finallyP (writer a AsConcurrentWriter) (modifyP releaseActionWriterSharedLock))))"

text \<open>\<open>runAsReader\<close>, \<open>runAsSync\<close> without an \<open>activeSync\<close>, and \<open>runAsStorageProvider\<close>.\<close>

definition runAs :: "run_kind \<Rightarrow> (nat \<Rightarrow> ('q, 'r, 'a) smp) \<Rightarrow> ('q, 'r, 'a) smp" where
  "runAs role f = finallyP (bindP (getActiveFor role) f) (modifyP (releaseActiveFor role))"

definition runAsSync :: "(nat \<Rightarrow> ('q, 'r, 'a) smp) \<Rightarrow> nat option \<Rightarrow> ('q, 'r, 'a) smp" where
  "runAsSync f activeSync = (case activeSync of None \<Rightarrow> runAs AsSync f | Some a \<Rightarrow> f a)"

section \<open>Operations of the active store\<close>

datatype sm_method = AbortAction | CreateAction | InternalizeAction | RelinquishCertificate | RelinquishOutput | ProcessAction
  | InsertCertificate | ListActions | ListCertificates | ListOutputs | FindCertificates | FindOutputBaskets | FindOutputs
  | FindProvenTxReqs | Migrate

definition clientValue :: "'r sm_ans \<Rightarrow> 'r option" where
  "clientValue a = (case a of IsValue r \<Rightarrow> Some r | _ \<Rightarrow> None)"

text \<open>The call of the store, with the user's identity as it is now.\<close>

definition with_auth :: "run_kind \<Rightarrow> 'q \<Rightarrow> nat \<Rightarrow> ('q, 'r, 'r) smp" where
  "with_auth role q a = bindP (readP auth_of) (\<lambda>au. awaitP (Under role a (Client (Some au) q)) clientValue TypeErr)"

definition without_auth :: "run_kind \<Rightarrow> 'q \<Rightarrow> nat \<Rightarrow> ('q, 'r, 'r) smp" where
  "without_auth role q a = awaitP (Under role a (Client None q)) clientValue TypeErr"

definition writer_op :: "run_kind \<Rightarrow> 'q \<Rightarrow> nat \<Rightarrow> ('q, 'r, 'r) smp" where
  "writer_op role q a = bindP (getAuth True) (\<lambda>_. with_auth role q a)"

text \<open>\<open>V\<close>: the SDK's validation of the arguments, which fails or normalises them.\<close>

definition sm_call :: "(sm_method \<Rightarrow> 'q \<Rightarrow> 'q option) \<Rightarrow> sm_method \<Rightarrow> 'q \<Rightarrow> ('q, 'r, 'r) smp" where
  "sm_call V op q = (case op of
      CreateAction \<Rightarrow> runAsActionWriter (\<lambda>a role. writer_op role q a)
    | ProcessAction \<Rightarrow> runAsActionWriter (\<lambda>a role. writer_op role q a)
    | InsertCertificate \<Rightarrow> runAsWriter (writer_op AsWriter q)
    | FindProvenTxReqs \<Rightarrow> runAs AsReader (without_auth AsReader q)
    | Migrate \<Rightarrow> runAsWriter (without_auth AsWriter q)
    | _ \<Rightarrow>
      if op \<in> {AbortAction, InternalizeAction, RelinquishCertificate, RelinquishOutput}
      then (if V op q = None then Throw BadArgs else runAsWriter (writer_op AsWriter q))
      else if op \<in> {ListActions, ListOutputs}
      then (case V op q of None \<Rightarrow> Throw BadArgs
        | Some v \<Rightarrow> bindP (getAuth False) (\<lambda>_. runAs AsReader (with_auth AsReader v)))
      else bindP (getAuth False) (\<lambda>_. runAs AsReader (with_auth AsReader q)))"

fun destroy_loop :: "nat \<Rightarrow> nat \<Rightarrow> ('q, 'r, unit) smp" where
  "destroy_loop 0 i = Ret ()"
| "destroy_loop (Suc n) i = bindP (readP (\<lambda>s. i < length (sm_stores s))) (\<lambda>more. if \<not> more then Ret ()
     else bindP (awaitP (Under AsWriter i StoreDestroy) getDone TypeErr) (\<lambda>_. destroy_loop n (Suc i)))"

definition sm_destroy :: "('q, 'r, unit) smp" where
  "sm_destroy = bindP (readP (\<lambda>s. sm_stores s = [])) (\<lambda>none. if none then Ret ()
     else runAsWriter (\<lambda>_. destroy_loop MAX_ARRAY 0))"

definition sm_findOrInsertUser :: "jstr \<Rightarrow> ('q, 'r, store_user) smp" where
  "sm_findOrInsertUser identityKey = bindP (getAuth False) (\<lambda>_. bindP (readP sm_identityKey) (\<lambda>k.
     if identityKey \<noteq> k then Throw Unauthorized
     else runAsWriter (\<lambda>a. bindP (awaitP (Under AsWriter a (StoreFindOrInsertUser identityKey)) getUserAnswer TypeErr) (\<lambda>u.
       bindP (readP sm_userId) (\<lambda>i.
       if i \<notin> {None, Some 0, Some (usr_userId u)} then Throw UserIdChanged
       else bindP (modifyP (\<lambda>s. s\<lparr>sm_userId := Some (usr_userId u)\<rparr>)) (\<lambda>_. Ret u))))))"

definition addWalletStorageProvider :: "managed_store \<Rightarrow> ('q, 'r, unit) smp" where
  "addWalletStorageProvider provider = bindP (awaitP AskNewAvailable getSettingsAnswer TypeErr) (\<lambda>_.
     bindP (readP (\<lambda>s. MAX_ARRAY \<le> length (sm_stores s))) (\<lambda>full. if full then Throw RangeErr
     else bindP (modifyP (\<lambda>s. s\<lparr>sm_stores := sm_stores s @ [provider], sm_isAvailable := False\<rparr>)) (\<lambda>_. makeAvailable)))"

definition setServices :: "store_manager \<Rightarrow> store_manager" where
  "setServices s = s\<lparr>sm_services := True\<rparr>"

section \<open>Synchronising stores\<close>

text \<open>One loop of chunks, with the writer as the store it runs in or into.\<close>

definition syncFromReader :: "jstr \<Rightarrow> nat \<Rightarrow> nat option \<Rightarrow> ('q, 'r, unit) smp" where
  "syncFromReader identityKey reader activeSync = bindP (getAuth False) (\<lambda>_. bindP (readP sm_identityKey) (\<lambda>k.
     if identityKey \<noteq> k then Throw Unauthorized
     else bindP (awaitP (AskAvailable reader) getSettingsAnswer TypeErr) (\<lambda>_.
       runAsSync (\<lambda>a. bindP (readP (\<lambda>s. Option.bind (sm_active s) (user_active s))) (\<lambda>ua.
         awaitP (Under AsSync a (SyncFrom reader ua)) getDone TypeErr)) activeSync)))"

definition syncToWriter :: "nat \<Rightarrow> nat option \<Rightarrow> ('q, 'r, unit) smp" where
  "syncToWriter writer activeSync = bindP (awaitP (AskAvailable writer) getSettingsAnswer TypeErr) (\<lambda>_.
     runAsSync (\<lambda>a. awaitP (Under AsSync a (SyncInto writer)) getDone TypeErr) activeSync)"

definition updateBackups :: "nat option \<Rightarrow> ('q, 'r, unit) smp" where
  "updateBackups activeSync = bindP (getAuth True) (\<lambda>_.
     runAsSync (\<lambda>a. bindP (readP sm_backups) (\<lambda>bs. case bs of None \<Rightarrow> Throw TypeErr
       | Some bs \<Rightarrow> eachP (\<lambda>b. syncToWriter b (Some a)) bs)) activeSync)"

section \<open>Changing the active store\<close>

text \<open>The first store with the key. A store that was added and has no settings yet is not looked past.\<close>

definition store_with_key :: "jstr \<Rightarrow> store_manager \<Rightarrow> sm_error + nat" where
  "store_with_key key s = (case find (\<lambda>i. settings_key s i \<in> {None, Some key}) [0..<length (sm_stores s)] of
      None \<Rightarrow> Inl UnknownStore
    | Some i \<Rightarrow> if settings_key s i = None then Inl TypeErr else Inr i)"

definition setUserActive :: "nat \<Rightarrow> jstr \<Rightarrow> store_manager \<Rightarrow> store_manager" where
  "setUserActive i key = upd_store i (\<lambda>m. m\<lparr>mg_user := map_option (\<lambda>u. u\<lparr>usr_activeStorage := key\<rparr>) (mg_user m)\<rparr>)"

text \<open>The stores that conflict with the new active one: the former active store among them, the new one not.\<close>

definition mark_conflicts :: "jstr \<Rightarrow> store_manager \<Rightarrow> store_manager" where
  "mark_conflicts key s = (case (sm_conflictingActives s, sm_active s) of
      (Some cs, Some a) \<Rightarrow> s\<lparr>sm_conflictingActives := Some (filter (\<lambda>i. settings_key s i \<noteq> Some key) (cs @ [a]))\<rparr>
    | _ \<Rightarrow> s)"

definition conflicts :: "store_manager \<Rightarrow> nat list" where
  "conflicts s = (case sm_conflictingActives s of None \<Rightarrow> [] | Some cs \<Rightarrow> cs)"

fun propagate_loop :: "nat \<Rightarrow> jstr \<Rightarrow> nat \<Rightarrow> nat \<Rightarrow> ('q, 'r, unit) smp" where
  "propagate_loop 0 key source i = Ret ()"
| "propagate_loop (Suc n) key source i = bindP (readP (\<lambda>s. i < length (sm_stores s))) (\<lambda>more. if \<not> more then Ret ()
     else bindP (readP (\<lambda>s. mg_user (sm_stores s ! i) = None \<or> mg_settings (sm_stores s ! i) = None)) (\<lambda>bad. if bad then Throw TypeErr
     else bindP (modifyP (setUserActive i key)) (\<lambda>_. bindP (readP (\<lambda>s. settings_key s i \<noteq> settings_key s source)) (\<lambda>other.
       bindP (whenP other (syncToWriter i (Some source))) (\<lambda>_. propagate_loop n key source (Suc i))))))"

definition change_active :: "jstr \<Rightarrow> nat \<Rightarrow> ('q, 'r, unit) smp" where
  "change_active key newActive =
     bindP (readP (\<lambda>s. conflicts s \<noteq> [] \<and> sm_active s = None)) (\<lambda>bad. if bad then Throw TypeErr else
     bindP (readP (\<lambda>s. conflicts s \<noteq> [])) (\<lambda>conflicting.
     bindP (whenP conflicting (bindP (modifyP (mark_conflicts key)) (\<lambda>_. bindP (readP conflicts) (\<lambda>cs.
       eachP (\<lambda>c. syncToWriter newActive (Some c)) cs)))) (\<lambda>_.
     bindP (readP (\<lambda>s. if conflicts s \<noteq> [] then Some newActive else sm_active s)) (\<lambda>src. case src of None \<Rightarrow> Throw TypeErr
     | Some source \<Rightarrow>
       bindP (readP (\<lambda>s. (sm_identityKey s, mg_user (sm_stores s ! source)))) (\<lambda>(k, u). case u of None \<Rightarrow> Throw TypeErr
       | Some u \<Rightarrow>
         bindP (awaitP (Under AsSync source (StoreSetActive k (usr_userId u) key)) getDone TypeErr) (\<lambda>_.
         bindP (propagate_loop MAX_ARRAY key source 0) (\<lambda>_.
         bindP (modifyP (\<lambda>s. s\<lparr>sm_isAvailable := False\<rparr>)) (\<lambda>_. makeAvailable))))))))"

definition setActive :: "jstr \<Rightarrow> ('q, 'r, unit) smp" where
  "setActive key = bindP (readP sm_isAvailable) (\<lambda>av. bindP (whenP (\<not> av) makeAvailable) (\<lambda>_.
     bindP (readP (store_with_key key)) (\<lambda>i. case i of Inl e \<Rightarrow> Throw e
     | Inr newActive \<Rightarrow> bindP (getAuth False) (\<lambda>_. bindP getActive (\<lambda>a.
         bindP (readP (\<lambda>s. settings_key s a = Some key \<and> isActiveEnabled s)) (\<lambda>same. if same then Ret ()
         else runAsSync (\<lambda>_. change_active key newActive) None))))))"

record store_info =
  si_isActive :: bool
  si_isEnabled :: bool
  si_isBackup :: bool
  si_isConflicting :: bool
  si_store :: nat

definition getStores :: "store_manager \<Rightarrow> store_info list" where
  "getStores s =
     (case sm_active s of None \<Rightarrow> []
      | Some a \<Rightarrow> [\<lparr>si_isActive = True, si_isEnabled = isActiveEnabled s, si_isBackup = False, si_isConflicting = False, si_store = a\<rparr>]) @
     map (\<lambda>i. \<lparr>si_isActive = True, si_isEnabled = False, si_isBackup = False, si_isConflicting = True, si_store = i\<rparr>) (conflicts s) @
     map (\<lambda>i. \<lparr>si_isActive = False, si_isEnabled = False, si_isBackup = True, si_isConflicting = False, si_store = i\<rparr>)
       (case sm_backups s of None \<Rightarrow> [] | Some bs \<Rightarrow> bs)"

section \<open>Proving transactions again\<close>

record reprove_result =
  rr_updated :: "proven_update option"
  rr_unchanged :: bool
  rr_unavailable :: bool

record reprove_lists =
  rh_updated :: "(proven_tx \<times> proven_update) list"
  rh_unchanged :: "proven_tx list"
  rh_unavailable :: "proven_tx list"

definition getProofAnswer :: "'r sm_ans \<Rightarrow> (merkle_path \<times> proof_header) option option" where
  "getProofAnswer a = (case a of IsProof x \<Rightarrow> Some x | _ \<Rightarrow> None)"

definition getBoolAnswer :: "'r sm_ans \<Rightarrow> bool option" where
  "getBoolAnswer a = (case a of IsBool b \<Rightarrow> Some b | _ \<Rightarrow> None)"

definition getProvenAnswer :: "'r sm_ans \<Rightarrow> proven_tx list option" where
  "getProvenAnswer a = (case a of IsProven x \<Rightarrow> Some x | _ \<Rightarrow> None)"

definition unavailable :: reprove_result where
  "unavailable = \<lparr>rr_updated = None, rr_unchanged = False, rr_unavailable = True\<rparr>"

text \<open>\<open>toBinary\<close> and \<open>computeRoot\<close> are the SDK's; the second fails for a path without the transaction.\<close>

definition evaluateNewMerkleLeaf :: "(merkle_path \<Rightarrow> jstr \<Rightarrow> jstr option) \<Rightarrow> proven_tx \<Rightarrow> merkle_path \<Rightarrow> proven_update \<Rightarrow> ('q, 'r, reprove_result) smp" where
  "evaluateNewMerkleLeaf computeRoot ptx mp update =
     (if pu_blockHash update = ptx_blockHash ptx then Ret \<lparr>rr_updated = None, rr_unchanged = True, rr_unavailable = False\<rparr>
      else case computeRoot mp (ptx_txid ptx) of None \<Rightarrow> Throw (Thrown [])
      | Some root \<Rightarrow> bindP (awaitP (AskRoot root (pu_height update)) getBoolAnswer TypeErr) (\<lambda>ok.
          Ret (if ok then \<lparr>rr_updated = Some update, rr_unchanged = False, rr_unavailable = False\<rparr> else unavailable)))"

definition reproveProven :: "(merkle_path \<Rightarrow> mbytes) \<Rightarrow> (merkle_path \<Rightarrow> jstr \<Rightarrow> jstr option) \<Rightarrow> proven_tx \<Rightarrow> bool \<Rightarrow> ('q, 'r, reprove_result) smp" where
  "reproveProven toBinary computeRoot ptx noUpdate = bindP (readP sm_services) (\<lambda>sv. if \<not> sv then Throw NoServices
     else bindP (awaitP AskChainTracker getDone TypeErr) (\<lambda>_. bindP (awaitP (AskMerklePath (ptx_txid ptx)) getProofAnswer TypeErr) (\<lambda>mpr.
     bindP (case mpr of None \<Rightarrow> Ret unavailable
       | Some (mp, h) \<Rightarrow> (case snd mp of [] \<Rightarrow> Throw TypeErr
         | l # _ \<Rightarrow> (case find (\<lambda>x. leaf_txid x \<and> leaf_hash x = Some (ptx_txid ptx)) l of None \<Rightarrow> Ret unavailable
           | Some leaf \<Rightarrow> evaluateNewMerkleLeaf computeRoot ptx mp \<lparr>pu_height = fst mp, pu_index = leaf_offset leaf,
               pu_merklePath = toBinary mp, pu_merkleRoot = ph_merkleRoot h, pu_blockHash = ph_hash h\<rparr>))) (\<lambda>r.
     case rr_updated r of None \<Rightarrow> Ret r
     | Some update \<Rightarrow> if noUpdate then Ret r
         else bindP (runAs AsStorageProvider (\<lambda>a. awaitP (Under AsStorageProvider a (UpdateProven (ptx_id ptx) update)) getDone TypeErr)) (\<lambda>_. Ret r)))))"

definition add_reproved :: "proven_tx \<Rightarrow> reprove_result \<Rightarrow> reprove_lists \<Rightarrow> reprove_lists" where
  "add_reproved ptx rp r = \<lparr>
     rh_updated = rh_updated r @ (case rr_updated rp of None \<Rightarrow> [] | Some u \<Rightarrow> [(ptx, u)]),
     rh_unchanged = rh_unchanged r @ (if rr_unchanged rp then [ptx] else []),
     rh_unavailable = rh_unavailable r @ (if rr_unavailable rp then [ptx] else [])\<rparr>"

fun reprove_all :: "(merkle_path \<Rightarrow> mbytes) \<Rightarrow> (merkle_path \<Rightarrow> jstr \<Rightarrow> jstr option) \<Rightarrow> proven_tx list \<Rightarrow> reprove_lists \<Rightarrow> ('q, 'r, reprove_lists) smp" where
  "reprove_all toBinary computeRoot [] r = Ret r"
| "reprove_all toBinary computeRoot (ptx # ptxs) r = bindP (reproveProven toBinary computeRoot ptx True) (\<lambda>rp.
     reprove_all toBinary computeRoot ptxs (add_reproved ptx rp r))"

text \<open>\<open>reproveHeader\<close> for \<open>ByBlockHash\<close>, \<open>reproveHeightMerkleRoot\<close> for \<open>ByHeightAndRoot\<close>.\<close>

definition reproveRows :: "(merkle_path \<Rightarrow> mbytes) \<Rightarrow> (merkle_path \<Rightarrow> jstr \<Rightarrow> jstr option) \<Rightarrow> proven_filter \<Rightarrow> ('q, 'r, reprove_lists) smp" where
  "reproveRows toBinary computeRoot which =
     bindP (runAs AsStorageProvider (\<lambda>a. awaitP (Under AsStorageProvider a (FindProven which)) getProvenAnswer TypeErr)) (\<lambda>ptxs.
     bindP (reprove_all toBinary computeRoot ptxs \<lparr>rh_updated = [], rh_unchanged = [], rh_unavailable = []\<rparr>) (\<lambda>r.
     if rh_updated r = [] then Ret r
     else bindP (runAs AsStorageProvider (\<lambda>a. eachP (\<lambda>(ptx, u). awaitP (Under AsStorageProvider a (UpdateProven (ptx_id ptx) u)) getDone TypeErr)
       (rh_updated r))) (\<lambda>_. Ret r)))"

end
