(* ===== verification/StoreLocks.thy ===== *)
theory StoreLocks
  imports StoreManager
begin

text \<open>
  The locks of the storage manager under every interleaving of its operations. Each call has a ghost: the action-writer lock it holds or
  waits for, the promises of the store locks it holds, and the one it waits for. The locale \<open>ghosts\<close> is the logic for it: \<open>lk\<close> says that a
  program moves its ghost only along the steps that are allowed, and sends a request only when its ghost permits it; \<open>ghost_reachable\<close> carries
  this to all interleavings, with an invariant over the state and all the ghosts.
\<close>

section \<open>Calls with ghosts\<close>

text \<open>The steps of \<open>async_step\<close> with answers that are as \<open>ans\<close> says.\<close>

inductive answered_step ::
  "('q \<Rightarrow> 'e + 'r \<Rightarrow> bool) \<Rightarrow> ('s \<Rightarrow> nat \<Rightarrow> ('e + bool) option) \<Rightarrow> (('s, 'q, 'r, 'e, 'a) prog \<Rightarrow> bool) \<Rightarrow>
   ('s, 'q, 'r, 'e, 'a) async_sys \<Rightarrow> ('s, 'q, 'r, 'e, 'a) async_sys \<Rightarrow> bool"
  for ans settled starts where
  start: "starts p \<Longrightarrow> advance p s = (s', p') \<Longrightarrow> answered_step ans settled starts (s, ps) (s', ps @ [p'])"
| answer: "i < length ps \<Longrightarrow> ps ! i = Await q k \<Longrightarrow> ans q x \<Longrightarrow> advance (k x) s = (s', p') \<Longrightarrow>
    answered_step ans settled starts (s, ps) (s', ps[i := p'])"
| wake: "i < length ps \<Longrightarrow> ps ! i = Wait w k \<Longrightarrow> settled s w = Some x \<Longrightarrow> advance (k x) s = (s', p') \<Longrightarrow>
    answered_step ans settled starts (s, ps) (s', ps[i := p'])"

inductive_cases answered_stepE: "answered_step ans settled starts (s, ps) (s', ps')"

lemma answered_async: "answered_step ans settled starts sys sys' \<Longrightarrow> async_step settled starts moves sys sys'"
  by (induction rule: answered_step.induct) (auto intro: async_step.intros)

locale ghosts =
  fixes settled :: "'s \<Rightarrow> nat \<Rightarrow> ('e + bool) option"
    and ans :: "'q \<Rightarrow> 'e + 'r \<Rightarrow> bool"
    and may :: "'h \<Rightarrow> 'q \<Rightarrow> bool"
    and may_wait :: "'h \<Rightarrow> nat \<Rightarrow> bool"
    and woken :: "'h \<Rightarrow> 'h"
    and step :: "'h \<Rightarrow> 's \<Rightarrow> 'h \<Rightarrow> 's \<Rightarrow> bool"
    and view :: "'h \<Rightarrow> 's \<Rightarrow> bool"
    and inv :: "'s \<Rightarrow> 'h list \<Rightarrow> bool"
    and free :: "'h"
  assumes inv_view: "inv s hs \<Longrightarrow> i < length hs \<Longrightarrow> view (hs ! i) s"
    and inv_step: "inv s hs \<Longrightarrow> i < length hs \<Longrightarrow> step (hs ! i) s h' s' \<Longrightarrow> inv s' (hs[i := h'])"
    and inv_woken: "inv s hs \<Longrightarrow> i < length hs \<Longrightarrow> may_wait (hs ! i) w \<Longrightarrow> settled s w = Some x \<Longrightarrow> inv s (hs[i := woken (hs ! i)])"
    and inv_start: "inv s hs \<Longrightarrow> inv s (hs @ [free])"
begin

primrec lk :: "('s, 'q, 'r, 'e, 'a) prog \<Rightarrow> ('a \<Rightarrow> 'h \<Rightarrow> 's \<Rightarrow> bool) \<Rightarrow> ('e \<Rightarrow> 'h \<Rightarrow> 's \<Rightarrow> bool) \<Rightarrow> 'h \<Rightarrow> 's \<Rightarrow> bool" where
  "lk (Ret a) Q E h s = Q a h s"
| "lk (Throw e) Q E h s = E e h s"
| "lk (Do f k) Q E h s = (\<exists>h'. step h s h' (f s) \<and> (view h' (f s) \<longrightarrow> lk (k s) Q E h' (f s)))"
| "lk (Await q k) Q E h s = (may h q \<and> (\<forall>x t. ans q x \<longrightarrow> view h t \<longrightarrow> lk (k x) Q E h t))"
| "lk (Wait w k) Q E h s = (may_wait h w \<and> (\<forall>x t. settled t w = Some x \<longrightarrow> view (woken h) t \<longrightarrow> lk (k x) Q E (woken h) t))"

lemma lk_bind: "lk (bindP p f) Q E h s = lk p (\<lambda>a. lk (f a) Q E) E h s"
  by (induction p arbitrary: h s) simp_all

lemma lk_catch: "lk (catchP p c) Q E h s = lk p Q (\<lambda>e. lk (c e) Q E) h s"
  by (induction p arbitrary: h s) simp_all

lemma lk_mono:
  "lk p Q E h s \<Longrightarrow> (\<And>a h t. Q a h t \<Longrightarrow> Q' a h t) \<Longrightarrow> (\<And>e h t. E e h t \<Longrightarrow> E' e h t) \<Longrightarrow> lk p Q' E' h s"
proof (induction p arbitrary: h s)
  case (Do f k)
  then obtain h' where "step h s h' (f s)" "view h' (f s) \<longrightarrow> lk (k s) Q E h' (f s)" by auto
  with Do.IH Do.prems(2,3) show ?case by (auto intro!: exI [of _ h'])
qed simp_all

lemma lk_finally:
  assumes "lk p (\<lambda>a. lk c (\<lambda>_. Q a) E) (\<lambda>e. lk c (\<lambda>_. E e) E) h s"
  shows "lk (finallyP p c) Q E h s"
  unfolding finallyP_def lk_bind lk_catch lk.simps using assms by (auto elim!: lk_mono)

text \<open>A call at an \<open>await\<close>, with its ghost.\<close>

fun gparked :: "('s, 'q, 'r, 'e, 'a) prog \<Rightarrow> 'h \<Rightarrow> bool" where
  "gparked (Ret a) h = (h = free)"
| "gparked (Throw e) h = (h = free)"
| "gparked (Do f k) h = False"
| "gparked (Await q k) h = (may h q \<and> (\<forall>x t. ans q x \<longrightarrow> view h t \<longrightarrow> lk (k x) (\<lambda>_ h _. h = free) (\<lambda>_ h _. h = free) h t))"
| "gparked (Wait w k) h = (may_wait h w \<and> (\<forall>x t. settled t w = Some x \<longrightarrow> view (woken h) t \<longrightarrow>
     lk (k x) (\<lambda>_ h _. h = free) (\<lambda>_ h _. h = free) (woken h) t))"

abbreviation ends_free :: "('s, 'q, 'r, 'e, 'a) prog \<Rightarrow> 'h \<Rightarrow> 's \<Rightarrow> bool" where
  "ends_free p h s \<equiv> lk p (\<lambda>_ h _. h = free) (\<lambda>_ h _. h = free) h s"

lemma lk_advance:
  "ends_free p (hs ! i) s \<Longrightarrow> inv s hs \<Longrightarrow> i < length hs \<Longrightarrow> advance p s = (s', p') \<Longrightarrow> \<exists>h'. inv s' (hs[i := h']) \<and> gparked p' h'"
proof (induction p arbitrary: s hs)
  case (Do f k)
  from Do.prems(1) obtain h' where h: "step (hs ! i) s h' (f s)" "view h' (f s) \<longrightarrow> ends_free (k s) h' (f s)" by auto
  with Do.prems(2,3) have I: "inv (f s) (hs[i := h'])" by (auto intro: inv_step)
  with Do.prems(3) have "view h' (f s)" using inv_view [OF I, of i] by simp
  with h(2) Do.prems(3,4) I Do.IH [of "k s" "hs[i := h']" "f s"] show ?case by simp
next
  case (Ret a)
  then have "hs ! i = free" "s' = s" "p' = Ret a" by simp_all
  then show ?case using list_update_id [of hs i] Ret.prems(2) by (intro exI [of _ free]) (simp only: gparked.simps simp_thms)
next
  case (Throw e)
  then have "hs ! i = free" "s' = s" "p' = Throw e" by simp_all
  then show ?case using list_update_id [of hs i] Throw.prems(2) by (intro exI [of _ free]) (simp only: gparked.simps simp_thms)
next
  case (Await q k)
  then have "s' = s" "p' = Await q k" by simp_all
  with Await.prems show ?case by (intro exI [of _ "hs ! i"]) simp
next
  case (Wait w k)
  then have "s' = s" "p' = Wait w k" by simp_all
  with Wait.prems show ?case by (intro exI [of _ "hs ! i"]) simp
qed

lemma ghost_step:
  assumes "answered_step ans settled starts (s, ps) (s', ps')" and starts: "\<And>p s. starts p \<Longrightarrow> view free s \<Longrightarrow> ends_free p free s"
    and I: "inv s hs" and ok: "list_all2 gparked ps hs"
  shows "\<exists>hs'. inv s' hs' \<and> list_all2 gparked ps' hs'"
proof -
  have len: "length ps = length hs" using ok by (rule list_all2_lengthD)
  have nth: "gparked (ps ! i) (hs ! i)" if "i < length ps" for i using ok that by (rule list_all2_nthD)
  have put: "list_all2 gparked (ps[i := p']) (hs[i := h'])" if "gparked p' h'" for i p' h'
    using ok that by (rule list_all2_update_cong)
  from assms(1) show ?thesis
  proof (rule answered_stepE, goal_cases)
    case (1 p p')
    let ?hs = "hs @ [free]"
    have I': "inv s ?hs" using I by (rule inv_start)
    then have "ends_free p (?hs ! length hs) s" using inv_view [OF I', of "length hs"] starts 1(2) by simp
    from lk_advance [OF this I' _ 1(3)] obtain h' where "inv s' (?hs[length hs := h'])" "gparked p' h'" by auto
    then have "inv s' (hs @ [h'])" "list_all2 gparked (ps @ [p']) (hs @ [h'])" using ok by (simp_all add: list_all2_appendI)
    with 1(1) show ?case by blast
  next
    case (2 i q k x p')
    have "ends_free (k x) (hs ! i) s" using nth [OF 2(2)] 2(3,4) inv_view [OF I, of i] 2(2) len by simp
    from lk_advance [OF this I _ 2(5)] 2(2) len obtain h' where "inv s' (hs[i := h'])" "gparked p' h'" by auto
    with put 2(1) show ?case by blast
  next
    case (3 i w k x p')
    let ?hs = "hs[i := woken (hs ! i)]"
    have i: "i < length hs" using 3(2) len by simp
    have I': "inv s ?hs" using nth [OF 3(2)] 3(3,4) i by (auto intro: inv_woken [OF I])
    then have "ends_free (k x) (?hs ! i) s" using nth [OF 3(2)] 3(3,4) inv_view [OF I', of i] i by simp
    from lk_advance [OF this I' _ 3(5)] i obtain h' where "inv s' (hs[i := h'])" "gparked p' h'" by auto
    with put 3(1) show ?case by blast
  qed
qed

theorem ghost_reachable:
  assumes "(answered_step ans settled starts)\<^sup>*\<^sup>* (s, []) (s', ps')"
    and "\<And>p s. starts p \<Longrightarrow> view free s \<Longrightarrow> ends_free p free s" and "inv s []"
  shows "\<exists>hs. inv s' hs \<and> list_all2 gparked ps' hs"
  using assms(1)
proof (induction "(s', ps')" arbitrary: s' ps' rule: rtranclp_induct)
  case base
  then show ?case using assms(3) by auto
next
  case (step y)
  obtain t qs where y: "y = (t, qs)" by (cases y) auto
  from step(3) [OF y] obtain hs where "inv t hs" "list_all2 gparked qs hs" by blast
  from ghost_step [OF step(2) [unfolded y] assms(2) this] show ?case by blast
qed

end

section \<open>What a call holds\<close>

datatype action_lock = NoAction | WaitsExclusive nat | HoldsExclusive nat | WaitsShared nat | GotShared | HoldsShared

record ghost =
  gh_action :: action_lock
  gh_held :: "nat list"
  gh_wait :: "nat option"

definition free_ghost :: ghost where
  "free_ghost = \<lparr>gh_action = NoAction, gh_held = [], gh_wait = None\<rparr>"

definition chain :: "ghost \<Rightarrow> nat list" where
  "chain h = gh_held h @ (case gh_wait h of None \<Rightarrow> [] | Some w \<Rightarrow> [w])"

fun action_promises :: "action_lock \<Rightarrow> nat list" where
  "action_promises (WaitsExclusive w) = [w]"
| "action_promises (HoldsExclusive w) = [w]"
| "action_promises (WaitsShared w) = [w]"
| "action_promises _ = []"

definition owned :: "ghost \<Rightarrow> nat list" where
  "owned h = action_promises (gh_action h) @ chain h"

fun settled_action :: "action_lock \<Rightarrow> bool" where
  "settled_action (WaitsExclusive w) = False"
| "settled_action (WaitsShared w) = False"
| "settled_action GotShared = False"
| "settled_action _ = True"

definition idle :: "ghost \<Rightarrow> bool" where
  "idle h \<longleftrightarrow> gh_wait h = None \<and> settled_action (gh_action h)"

definition sm_may :: "ghost \<Rightarrow> 'q sm_req \<Rightarrow> bool" where
  "sm_may h q \<longleftrightarrow> idle h \<and> (case q of
      Under role a p \<Rightarrow> length (gh_held h) = length (locks_of role) \<and>
        (role = AsConcurrentWriter \<longrightarrow> gh_action h = HoldsShared) \<and> (role = AsWriter \<longrightarrow> (\<exists>w. gh_action h = HoldsExclusive w))
    | _ \<Rightarrow> True)"

definition sm_may_wait :: "ghost \<Rightarrow> nat \<Rightarrow> bool" where
  "sm_may_wait h w \<longleftrightarrow> (gh_wait h = Some w \<and> settled_action (gh_action h)) \<or>
     (chain h = [] \<and> (gh_action h = WaitsExclusive w \<or> gh_action h = WaitsShared w))"

definition sm_woken :: "ghost \<Rightarrow> ghost" where
  "sm_woken h = (case gh_wait h of Some w \<Rightarrow> h\<lparr>gh_held := gh_held h @ [w], gh_wait := None\<rparr>
     | None \<Rightarrow> (case gh_action h of WaitsExclusive w \<Rightarrow> h\<lparr>gh_action := HoldsExclusive w\<rparr>
       | WaitsShared w \<Rightarrow> h\<lparr>gh_action := GotShared\<rparr> | _ \<Rightarrow> h))"

definition sm_settled :: "store_manager \<Rightarrow> nat \<Rightarrow> (sm_error + bool) option" where
  "sm_settled s w = (if w < length (sm_promises s) \<and> sm_promises s ! w then Some (Inr True) else None)"

definition lock_number :: "nat \<Rightarrow> lock_kind" where
  "lock_number n = [ReaderLocks, WriterLocks, SyncLocks, SpLocks] ! n"

text \<open>What is not a lock.\<close>

definition same_locks :: "store_manager \<Rightarrow> store_manager \<Rightarrow> bool" where
  "same_locks s t \<longleftrightarrow> sm_locks t = sm_locks s \<and> sm_exclusive t = sm_exclusive s \<and> sm_shared t = sm_shared s \<and>
     sm_sharedCount t = sm_sharedCount s \<and> sm_promises t = sm_promises s \<and> (sm_stores s \<noteq> [] \<longrightarrow> sm_stores t \<noteq> [])"

inductive lock_step :: "ghost \<Rightarrow> store_manager \<Rightarrow> ghost \<Rightarrow> store_manager \<Rightarrow> bool" where
  other: "same_locks s t \<Longrightarrow> lock_step h s h t"
| enqueue: "idle h \<Longrightarrow> gh_action h \<noteq> HoldsShared \<Longrightarrow> length (gh_held h) < 4 \<Longrightarrow>
    lock_step h s (h\<lparr>gh_wait := Some (length (sm_promises s))\<rparr>) (enqueue_lock (lock_number (length (gh_held h))) s)"
| release: "idle h \<Longrightarrow> gh_held h = ws @ [w] \<Longrightarrow> length ws < 4 \<Longrightarrow> lock_step h s (h\<lparr>gh_held := ws\<rparr>) (releaseActiveLock (lock_number (length ws)) s)"
| ask_exclusive: "h = free_ghost \<Longrightarrow>
    lock_step h s (h\<lparr>gh_action := WaitsExclusive (length (sm_promises s))\<rparr>) (enqueue_exclusive s)"
| drop_exclusive: "h = free_ghost\<lparr>gh_action := HoldsExclusive w\<rparr> \<Longrightarrow> lock_step h s free_ghost (releaseActionWriterExclusiveLock s)"
| ask_shared: "h = free_ghost \<Longrightarrow> sm_exclusive s \<noteq> [] \<Longrightarrow>
    lock_step h s (h\<lparr>gh_action := WaitsShared (length (sm_promises s))\<rparr>) (enqueue_shared s)"
| take_shared: "h = free_ghost \<or> h = free_ghost\<lparr>gh_action := GotShared\<rparr> \<Longrightarrow>
    lock_step h s (free_ghost\<lparr>gh_action := HoldsShared\<rparr>) (count_shared s)"
| drop_shared: "h = free_ghost\<lparr>gh_action := HoldsShared\<rparr> \<Longrightarrow> lock_step h s free_ghost (releaseActionWriterSharedLock s)"

definition lock_steps :: "ghost \<Rightarrow> store_manager \<Rightarrow> ghost \<Rightarrow> store_manager \<Rightarrow> bool" where
  "lock_steps h s h' s' \<longleftrightarrow> (\<lambda>(h, s) (h', s'). lock_step h s h' s')\<^sup>*\<^sup>* (h, s) (h', s')"

definition sm_view :: "ghost \<Rightarrow> store_manager \<Rightarrow> bool" where
  "sm_view h s \<longleftrightarrow> sm_stores s \<noteq> []"

section \<open>The store locks\<close>

type_synonym held_wait = "nat list \<times> nat option"

definition chn :: "held_wait \<Rightarrow> nat list" where
  "chn c = fst c @ (case snd c of None \<Rightarrow> [] | Some w \<Rightarrow> [w])"

lemma chn_simps [simp]: "chn (ws, None) = ws" "chn (ws, Some w) = ws @ [w]"
  by (simp_all add: chn_def)

text \<open>The calls in the queue of the readers: the first has all its promises resolved and the other queues hold no more than its, the
  others wait for one promise each, and it is not resolved.\<close>

definition chain_queue :: "(lock_kind \<Rightarrow> nat list) \<Rightarrow> (nat \<Rightarrow> bool) \<Rightarrow> held_wait list \<Rightarrow> nat list \<Rightarrow> bool" where
  "chain_queue L P cs ns \<longleftrightarrow> distinct ns \<and> (\<forall>i. i \<in> set ns \<longleftrightarrow> i < length cs \<and> chn (cs ! i) \<noteq> []) \<and>
     L ReaderLocks = map (\<lambda>i. hd (chn (cs ! i))) ns \<and>
     (\<forall>i \<in> set (tl ns). \<exists>w. cs ! i = ([], Some w) \<and> \<not> P w) \<and>
     (\<forall>n. 0 < n \<and> n < 4 \<longrightarrow> L (lock_number n) = (case ns of [] \<Rightarrow> [] | i # _ \<Rightarrow> take 1 (drop n (chn (cs ! i))))) \<and>
     (case ns of [] \<Rightarrow> True | i # _ \<Rightarrow> (\<forall>w \<in> set (chn (cs ! i)). P w))"

definition chain_ok :: "(lock_kind \<Rightarrow> nat list) \<Rightarrow> (nat \<Rightarrow> bool) \<Rightarrow> held_wait list \<Rightarrow> bool" where
  "chain_ok L P cs \<longleftrightarrow> (\<exists>ns. chain_queue L P cs ns)"

lemma lock_number_simps [simp]: "lock_number 0 = ReaderLocks" "0 < n \<Longrightarrow> n < 4 \<Longrightarrow> lock_number n \<noteq> ReaderLocks"
  "n < 4 \<Longrightarrow> m < 4 \<Longrightarrow> lock_number n = lock_number m \<longleftrightarrow> n = m"
  by (auto simp: lock_number_def less_Suc_eq numeral_eq_Suc)

lemma chain_queueD:
  assumes "chain_queue L P cs ns"
  shows "distinct ns" "\<And>i. i \<in> set ns \<longleftrightarrow> i < length cs \<and> chn (cs ! i) \<noteq> []" "\<And>i. i \<in> set (tl ns) \<Longrightarrow> i \<in> set ns"
    "L ReaderLocks = map (\<lambda>i. hd (chn (cs ! i))) ns" "\<And>i. i \<in> set (tl ns) \<Longrightarrow> \<exists>w. cs ! i = ([], Some w) \<and> \<not> P w"
    "\<And>n. 0 < n \<Longrightarrow> n < 4 \<Longrightarrow> L (lock_number n) = (case ns of [] \<Rightarrow> [] | i # _ \<Rightarrow> take 1 (drop n (chn (cs ! i))))"
    "\<And>i ms w. ns = i # ms \<Longrightarrow> w \<in> set (chn (cs ! i)) \<Longrightarrow> P w"
proof -
  show "i \<in> set (tl ns) \<Longrightarrow> i \<in> set ns" for i by (cases ns) simp_all
  show "distinct ns" "\<And>i. i \<in> set ns \<longleftrightarrow> i < length cs \<and> chn (cs ! i) \<noteq> []" "L ReaderLocks = map (\<lambda>i. hd (chn (cs ! i))) ns"
    "\<And>i. i \<in> set (tl ns) \<Longrightarrow> \<exists>w. cs ! i = ([], Some w) \<and> \<not> P w"
    "\<And>n. 0 < n \<Longrightarrow> n < 4 \<Longrightarrow> L (lock_number n) = (case ns of [] \<Rightarrow> [] | i # _ \<Rightarrow> take 1 (drop n (chn (cs ! i))))"
    using assms unfolding chain_queue_def by blast+
  show "\<And>i ms w. ns = i # ms \<Longrightarrow> w \<in> set (chn (cs ! i)) \<Longrightarrow> P w" using assms by (simp add: chain_queue_def)
qed

lemma chain_frame:
  assumes "chain_ok L P cs" "\<And>i w. i < length cs \<Longrightarrow> w \<in> set (chn (cs ! i)) \<Longrightarrow> P' w = P w"
  shows "chain_ok L P' cs"
proof -
  obtain ns where q: "chain_queue L P cs ns" using assms(1) by (auto simp: chain_ok_def)
  note d = chain_queueD [OF q]
  have tail: "\<exists>w. cs ! i = ([], Some w) \<and> \<not> P' w" if i: "i \<in> set (tl ns)" for i
  proof -
    obtain w where "cs ! i = ([], Some w)" "\<not> P w" using d(5) i by blast
    with assms(2) [of i w] d(2) [of i] d(3) [OF i] show ?thesis by auto
  qed
  have "P' w" if "ns = i # ms" "w \<in> set (chn (cs ! i))" for i ms w
    using d(2) [of i] d(7) [OF that] assms(2) that by auto
  then have "case ns of [] \<Rightarrow> True | i # _ \<Rightarrow> (\<forall>w \<in> set (chn (cs ! i)). P' w)" by (cases ns) simp_all
  with tail q have "chain_queue L P' cs ns" unfolding chain_queue_def by blast
  then show ?thesis by (auto simp: chain_ok_def)
qed

lemma chain_start: "chain_ok L P cs \<Longrightarrow> chain_ok L P (cs @ [([], None)])"
proof -
  assume "chain_ok L P cs"
  then obtain ns where q: "chain_queue L P cs ns" by (auto simp: chain_ok_def)
  let ?cs = "cs @ [([], None)]"
  note s = chain_queueD(2) [OF q]
  have n: "?cs ! i = cs ! i" if "i \<in> set ns" for i using that s [of i] by (simp add: nth_append)
  have "chain_queue L P ?cs ns"
    unfolding chain_queue_def
  proof (intro conjI)
    show "\<forall>i. i \<in> set ns \<longleftrightarrow> i < length ?cs \<and> chn (?cs ! i) \<noteq> []"
    proof
      show "i \<in> set ns \<longleftrightarrow> i < length ?cs \<and> chn (?cs ! i) \<noteq> []" for i using s [of i] by (cases "i = length cs") (auto simp: nth_append)
    qed
    note d = chain_queueD [OF q]
    show "L ReaderLocks = map (\<lambda>i. hd (chn (?cs ! i))) ns" unfolding d(4) by (rule map_cong) (simp_all only: n)
    show "\<forall>i \<in> set (tl ns). \<exists>w. ?cs ! i = ([], Some w) \<and> \<not> P w" using d(5) n d(3) by metis
    have n1: "?cs ! i = cs ! i" if "ns = i # ms" for i ms using n [of i] that by simp
    show "\<forall>k. 0 < k \<and> k < 4 \<longrightarrow> L (lock_number k) = (case ns of [] \<Rightarrow> [] | i # _ \<Rightarrow> take 1 (drop k (chn (?cs ! i))))"
      using d(6) n1 by (simp split: list.split)
    show "case ns of [] \<Rightarrow> True | i # _ \<Rightarrow> (\<forall>w \<in> set (chn (?cs ! i)). P w)"
      using d(7) n1 by (simp split: list.split)
  qed (use q in \<open>simp add: chain_queue_def\<close>)
  then show ?thesis by (auto simp: chain_ok_def)
qed

text \<open>The first promise, at the end of the queue.\<close>

lemma chain_enqueue_first:
  assumes "chain_ok L P cs" "i < length cs" "cs ! i = ([], None)" "\<And>j. j < length cs \<Longrightarrow> w \<notin> set (chn (cs ! j))" "\<not> P w"
  shows "chain_ok (L(ReaderLocks := L ReaderLocks @ [w])) (\<lambda>v. P v \<or> v = w \<and> L ReaderLocks = []) (cs[i := ([], Some w)])"
proof -
  obtain ns where q: "chain_queue L P cs ns" using assms(1) by (auto simp: chain_ok_def)
  let ?cs = "cs[i := ([], Some w)]" and ?L = "L(ReaderLocks := L ReaderLocks @ [w])" and ?P = "\<lambda>v. P v \<or> v = w \<and> L ReaderLocks = []"
  note s = chain_queueD(2) [OF q]
  have i: "i \<notin> set ns" using s [of i] assms(3) by simp
  then have n: "?cs ! j = cs ! j" if "j \<in> set ns" for j using that by (metis nth_list_update_neq)
  have e: "L ReaderLocks = [] \<longleftrightarrow> ns = []" using chain_queueD(4) [OF q] by simp
  have "chain_queue ?L ?P ?cs (ns @ [i])"
    unfolding chain_queue_def
  proof (intro conjI)
    show "distinct (ns @ [i])" using q i by (simp add: chain_queue_def)
    show "\<forall>j. j \<in> set (ns @ [i]) \<longleftrightarrow> j < length ?cs \<and> chn (?cs ! j) \<noteq> []"
    proof
      show "j \<in> set (ns @ [i]) \<longleftrightarrow> j < length ?cs \<and> chn (?cs ! j) \<noteq> []" for j using s [of j] assms(2) by (cases "j = i") simp_all
    qed
    have "map (\<lambda>i. hd (chn (?cs ! i))) ns = L ReaderLocks" unfolding chain_queueD(4) [OF q] by (rule map_cong) (simp_all only: n)
    then show "?L ReaderLocks = map (\<lambda>i. hd (chn (?cs ! i))) (ns @ [i])" using assms(2) by simp
    have "\<exists>v. ?cs ! j = ([], Some v) \<and> \<not> ?P v" if j: "j \<in> set (tl ns)" for j
    proof -
      have "j \<in> set ns" using j by (cases ns) auto
      moreover obtain v where v: "cs ! j = ([], Some v)" "\<not> P v" using chain_queueD(5) [OF q j] by blast
      ultimately have "v \<noteq> w" using assms(4) [of j] s [of j] by auto
      with v n [OF \<open>j \<in> set ns\<close>] show ?thesis by auto
    qed
    then show "\<forall>j \<in> set (tl (ns @ [i])). \<exists>v. ?cs ! j = ([], Some v) \<and> \<not> ?P v"
      using assms(2,5) e by (cases ns) auto
    have n1: "?cs ! j = cs ! j" if "ns = j # ms" for j ms using n [of j] that by simp
    show "\<forall>k. 0 < k \<and> k < 4 \<longrightarrow> ?L (lock_number k) = (case ns @ [i] of [] \<Rightarrow> [] | i # _ \<Rightarrow> take 1 (drop k (chn (?cs ! i))))"
      using chain_queueD(6) [OF q] n1 assms(2) by (cases ns) simp_all
    show "case ns @ [i] of [] \<Rightarrow> True | i # _ \<Rightarrow> (\<forall>w \<in> set (chn (?cs ! i)). ?P w)"
      using chain_queueD(7) [OF q] n1 assms(2) e by (cases ns) simp_all
  qed
  then show ?thesis by (auto simp: chain_ok_def)
qed

text \<open>A call that holds something is the first.\<close>

lemma chain_head:
  assumes "chain_queue L P cs ns" "i < length cs" "chn (cs ! i) \<noteq> []" "fst (cs ! i) \<noteq> [] \<or> (\<exists>w. snd (cs ! i) = Some w \<and> P w)"
  shows "\<exists>ms. ns = i # ms"
proof -
  have "i \<in> set ns" using chain_queueD(2) [OF assms(1)] assms(2,3) by simp
  moreover have "i \<notin> set (tl ns)"
  proof
    assume "i \<in> set (tl ns)"
    then obtain w where "cs ! i = ([], Some w)" "\<not> P w" using chain_queueD(5) [OF assms(1)] by blast
    with assms(4) show False by simp
  qed
  ultimately show ?thesis by (cases ns) auto
qed

text \<open>What the first call does with its own promises, the first of them apart.\<close>

lemma chain_first_call:
  assumes "chain_queue L P cs (i # ms)" "\<And>k. k \<noteq> i \<Longrightarrow> k < length cs \<Longrightarrow> w \<notin> set (chn (cs ! k))"
    and "chn c \<noteq> []" "hd (chn c) = hd (chn (cs ! i))" "\<And>v. v \<in> set (chn c) \<Longrightarrow> P v \<or> v = w"
    and "L' ReaderLocks = L ReaderLocks" "\<And>n. 0 < n \<Longrightarrow> n < 4 \<Longrightarrow> L' (lock_number n) = take 1 (drop n (chn c))"
    and "\<And>v. P' v \<longleftrightarrow> P v \<or> v = w"
  shows "chain_ok L' P' (cs[i := c])"
proof -
  let ?cs = "cs[i := c]"
  have s: "i \<notin> set ms" "distinct ms" using chain_queueD(1) [OF assms(1)] by simp_all
  note s' = chain_queueD(2) [OF assms(1)]
  have i: "i < length cs" using s' [of i] by simp
  have n: "?cs ! j = cs ! j" if "j \<in> set ms" for j using that s(1) by (metis nth_list_update_neq)
  have "chain_queue L' P' ?cs (i # ms)"
    unfolding chain_queue_def list.case list.sel
  proof (intro conjI)
    show "distinct (i # ms)" using s by simp
    show "\<forall>j. j \<in> set (i # ms) \<longleftrightarrow> j < length ?cs \<and> chn (?cs ! j) \<noteq> []"
    proof
      show "j \<in> set (i # ms) \<longleftrightarrow> j < length ?cs \<and> chn (?cs ! j) \<noteq> []" for j using s' [of j] i assms(3) by (cases "j = i") simp_all
    qed
    have "map (\<lambda>j. hd (chn (?cs ! j))) ms = map (\<lambda>j. hd (chn (cs ! j))) ms" using n by simp
    then show "L' ReaderLocks = map (\<lambda>i. hd (chn (?cs ! i))) (i # ms)"
      using chain_queueD(4) [OF assms(1)] assms(4,6) i by (simp cong: map_cong)
    have "\<exists>v. ?cs ! j = ([], Some v) \<and> \<not> P' v" if j: "j \<in> set ms" for j
    proof -
      obtain v where v: "cs ! j = ([], Some v)" "\<not> P v" using chain_queueD(5) [OF assms(1), of j] j by auto
      have "j \<noteq> i" "j < length cs" using j s s' [of j] by auto
      then have "v \<noteq> w" using assms(2) [of j] v by auto
      with v n [OF j] assms(8) show ?thesis by auto
    qed
    then show "\<forall>j \<in> set ms. \<exists>v. ?cs ! j = ([], Some v) \<and> \<not> P' v" by blast
    show "\<forall>k. 0 < k \<and> k < 4 \<longrightarrow> L' (lock_number k) = take 1 (drop k (chn (?cs ! i)))" using assms(7) i by simp
    show "\<forall>v \<in> set (chn (?cs ! i)). P' v" using assms(5,8) i by simp
  qed
  then show ?thesis by (auto simp: chain_ok_def)
qed

lemma chain_woken:
  assumes "chain_ok L P cs" "i < length cs" "cs ! i = (ws, Some w)" "P w"
  shows "chain_ok L P (cs[i := (ws @ [w], None)])"
proof -
  obtain ns where q: "chain_queue L P cs ns" using assms(1) by (auto simp: chain_ok_def)
  from chain_head [OF q assms(2)] assms(3,4) obtain ms where ns: "ns = i # ms" by auto
  let ?cs = "cs[i := (ws @ [w], None)]"
  have i: "i \<notin> set ms" using chain_queueD(1) [OF q] ns by simp
  have c: "chn (?cs ! j) = chn (cs ! j)" for j using assms(2,3) by (cases "j = i") auto
  have "chain_queue L P ?cs (i # ms)"
    unfolding chain_queue_def c list.case list.sel length_list_update
  proof (intro conjI)
    have "?cs ! j = cs ! j" if "j \<in> set ms" for j using that i by (metis nth_list_update_neq)
    then show "\<forall>j \<in> set ms. \<exists>v. ?cs ! j = ([], Some v) \<and> \<not> P v" using chain_queueD(5) [OF q] ns by simp
  qed (use q in \<open>simp_all add: ns chain_queue_def\<close>)
  then show ?thesis by (auto simp: chain_ok_def)
qed

lemma chain_enqueue_next:
  assumes "chain_ok L P cs" "i < length cs" "cs ! i = (ws, None)" "ws \<noteq> []" "length ws < 4"
    and "\<And>j. j < length cs \<Longrightarrow> w \<notin> set (chn (cs ! j))"
  shows "L (lock_number (length ws)) = [] \<and>
     chain_ok (L(lock_number (length ws) := [w])) (\<lambda>v. P v \<or> v = w) (cs[i := (ws, Some w)])"
proof -
  obtain ns where q0: "chain_queue L P cs ns" using assms(1) by (auto simp: chain_ok_def)
  from chain_head [OF q0 assms(2)] assms(3,4) obtain ms where ns: "ns = i # ms" by auto
  note q = q0 [unfolded ns]
  have l: "L (lock_number n) = take 1 (drop n ws)" if "0 < n" "n < 4" for n using chain_queueD(6) [OF q that] assms(3) by simp
  have "chain_ok (L(lock_number (length ws) := [w])) (\<lambda>v. P v \<or> v = w) (cs[i := (ws, Some w)])"
  proof (rule chain_first_call [OF q])
    show "chn (ws, Some w) \<noteq> []" "hd (chn (ws, Some w)) = hd (chn (cs ! i))" using assms(3,4) by simp_all
    show "P v \<or> v = w" if "v \<in> set (chn (ws, Some w))" for v using that chain_queueD(7) [OF q refl, of v] assms(3) by auto
    have "lock_number (length ws) \<noteq> ReaderLocks" using assms(4,5) by (intro lock_number_simps(2)) simp_all
    then show "(L(lock_number (length ws) := [w])) ReaderLocks = L ReaderLocks" by simp
    show "(L(lock_number (length ws) := [w])) (lock_number n) = take 1 (drop n (chn (ws, Some w)))" if "0 < n" "n < 4" for n
      using l [OF that] that assms(5) by (cases "n < length ws"; cases "n = length ws") auto
  qed (use assms(6) in auto)
  with l [of "length ws"] assms(4,5) show ?thesis by simp
qed

lemma chain_release_next:
  assumes "chain_ok L P cs" "i < length cs" "cs ! i = (ws @ [w], None)" "ws \<noteq> []" "length ws < 4"
  shows "L (lock_number (length ws)) = [w] \<and> chain_ok (L(lock_number (length ws) := [])) P (cs[i := (ws, None)])"
proof -
  obtain ns where q0: "chain_queue L P cs ns" using assms(1) by (auto simp: chain_ok_def)
  from chain_head [OF q0 assms(2)] assms(3) obtain ms where ns: "ns = i # ms" by auto
  note q = q0 [unfolded ns]
  have l: "L (lock_number n) = take 1 (drop n (ws @ [w]))" if "0 < n" "n < 4" for n using chain_queueD(6) [OF q that] assms(3) by simp
  let ?L = "L(lock_number (length ws) := [])"
  note s' = chain_queueD(2) [OF q]
  have s: "i \<notin> set ms" using chain_queueD(1) [OF q] by simp
  have n: "cs[i := (ws, None)] ! j = cs ! j" if "j \<in> set ms" for j using that s by (metis nth_list_update_neq)
  have "chain_queue ?L P (cs[i := (ws, None)]) (i # ms)"
    unfolding chain_queue_def list.case list.sel
  proof (intro conjI)
    show "\<forall>j. j \<in> set (i # ms) \<longleftrightarrow> j < length (cs[i := (ws, None)]) \<and> chn (cs[i := (ws, None)] ! j) \<noteq> []"
    proof
      show "j \<in> set (i # ms) \<longleftrightarrow> j < length (cs[i := (ws, None)]) \<and> chn (cs[i := (ws, None)] ! j) \<noteq> []" for j
        using s' [of j] assms(2-4) by (cases "j = i") simp_all
    qed
    have "map (\<lambda>j. hd (chn (cs[i := (ws, None)] ! j))) ms = map (\<lambda>j. hd (chn (cs ! j))) ms" using n by simp
    moreover have "lock_number (length ws) \<noteq> ReaderLocks" using assms(4,5) by (intro lock_number_simps(2)) auto
    moreover have "L ReaderLocks = hd ws # map (\<lambda>j. hd (chn (cs ! j))) ms" using chain_queueD(4) [OF q] assms(3,4) by simp
    ultimately show "?L ReaderLocks = map (\<lambda>j. hd (chn (cs[i := (ws, None)] ! j))) (i # ms)"
      using assms(2) by simp
    show "\<forall>j \<in> set ms. \<exists>v. cs[i := (ws, None)] ! j = ([], Some v) \<and> \<not> P v" using chain_queueD(5) [OF q] n by simp
    show "\<forall>k. 0 < k \<and> k < 4 \<longrightarrow> ?L (lock_number k) = take 1 (drop k (chn (cs[i := (ws, None)] ! i)))"
      using l assms(2,5) by (auto simp: not_less_iff_gr_or_eq)
    show "\<forall>v \<in> set (chn (cs[i := (ws, None)] ! i)). P v" using chain_queueD(7) [OF q refl] assms(2,3) by simp
  qed (use q in \<open>simp add: chain_queue_def\<close>)
  with l [of "length ws"] assms(4,5) show ?thesis by (auto simp: chain_ok_def)
qed

text \<open>The first call leaves; the next one's promise is resolved.\<close>

lemma chain_release_first:
  assumes "chain_ok L P cs" "i < length cs" "cs ! i = ([w], None)"
    and apart: "\<And>j k v. j < length cs \<Longrightarrow> k < length cs \<Longrightarrow> v \<in> set (chn (cs ! j)) \<Longrightarrow> v \<in> set (chn (cs ! k)) \<Longrightarrow> j = k"
  shows "chain_ok (L(ReaderLocks := tl (L ReaderLocks))) (\<lambda>v. P v \<or> (\<exists>vs. tl (L ReaderLocks) = v # vs)) (cs[i := ([], None)])"
proof -
  obtain ns where q0: "chain_queue L P cs ns" using assms(1) by (auto simp: chain_ok_def)
  from chain_head [OF q0 assms(2)] assms(3) obtain ms where ns: "ns = i # ms" by auto
  note q = q0 [unfolded ns]
  let ?L = "L(ReaderLocks := tl (L ReaderLocks))" and ?P = "\<lambda>v. P v \<or> (\<exists>vs. tl (L ReaderLocks) = v # vs)" and ?cs = "cs[i := ([], None)]"
  have s: "i \<notin> set ms" "distinct ms" using chain_queueD(1) [OF q] by simp_all
  note s' = chain_queueD(2) [OF q]
  have n: "?cs ! j = cs ! j" if "j \<in> set ms" for j using that s(1) by (metis nth_list_update_neq)
  have r: "tl (L ReaderLocks) = map (\<lambda>j. hd (chn (cs ! j))) ms" using chain_queueD(4) [OF q] by simp
  have waits: "\<exists>v. cs ! j = ([], Some v) \<and> \<not> P v" if "j \<in> set ms" for j using chain_queueD(5) [OF q, of j] that by simp
  have l: "L (lock_number k) = []" if "0 < k" "k < 4" for k using chain_queueD(6) [OF q] that assms(3) by simp
  have "chain_queue ?L ?P ?cs ms"
    unfolding chain_queue_def
  proof (intro conjI)
    show "\<forall>j. j \<in> set ms \<longleftrightarrow> j < length ?cs \<and> chn (?cs ! j) \<noteq> []"
    proof
      show "j \<in> set ms \<longleftrightarrow> j < length ?cs \<and> chn (?cs ! j) \<noteq> []" for j using s' [of j] s(1) assms(2) by (cases "j = i") simp_all
    qed
    have "map (\<lambda>j. hd (chn (?cs ! j))) ms = map (\<lambda>j. hd (chn (cs ! j))) ms" by (rule map_cong) (simp_all only: n)
    then show "?L ReaderLocks = map (\<lambda>i. hd (chn (?cs ! i))) ms" using r by simp
    show "\<forall>j \<in> set (tl ms). \<exists>v. ?cs ! j = ([], Some v) \<and> \<not> ?P v"
    proof
      fix j assume j: "j \<in> set (tl ms)"
      then obtain k ks where ms: "ms = k # ks" by (cases ms) auto
      with j s(2) have jk: "j \<noteq> k" "j \<in> set ms" by auto
      obtain v where v: "cs ! j = ([], Some v)" "\<not> P v" using waits jk(2) by blast
      obtain u where u: "cs ! k = ([], Some u)" using waits [of k] ms by auto
      have "j < length cs" "k < length cs" using jk(2) ms s' [of j] s' [of k] by auto
      then have "u \<noteq> v" using apart [of j k v] u v jk(1) by auto
      with r ms u have "\<not> ?P v" using v by auto
      with v n [OF jk(2)] show "\<exists>v. ?cs ! j = ([], Some v) \<and> \<not> ?P v" by auto
    qed
    show "\<forall>k. 0 < k \<and> k < 4 \<longrightarrow> ?L (lock_number k) = (case ms of [] \<Rightarrow> [] | i # _ \<Rightarrow> take 1 (drop k (chn (?cs ! i))))"
    proof (cases ms)
      case Nil
      then show ?thesis using l by simp
    next
      case (Cons k ks)
      then show ?thesis using l waits [of k] n [of k] by auto
    qed
    show "case ms of [] \<Rightarrow> True | i # _ \<Rightarrow> (\<forall>w \<in> set (chn (?cs ! i)). ?P w)"
    proof (cases ms)
      case (Cons k ks)
      then show ?thesis using waits [of k] n [of k] r by auto
    qed simp
  qed (use s in simp)
  then show ?thesis by (auto simp: chain_ok_def)
qed

section \<open>The lock of the action writers\<close>

text \<open>The queue for the exclusive lock: only its first call has it, or is woken when no shared one is held. Who waits for a shared lock is in
  the list of those, unless it has been woken, and then somebody is in the queue.\<close>

fun exclusive_promise :: "action_lock \<Rightarrow> nat option" where
  "exclusive_promise (WaitsExclusive w) = Some w"
| "exclusive_promise (HoldsExclusive w) = Some w"
| "exclusive_promise _ = None"

definition shared_holders :: "action_lock list \<Rightarrow> int" where
  "shared_holders as = int (length (filter (\<lambda>a. a = HoldsShared) as))"

definition action_queue :: "nat list \<Rightarrow> nat list \<Rightarrow> int \<Rightarrow> (nat \<Rightarrow> bool) \<Rightarrow> action_lock list \<Rightarrow> nat list \<Rightarrow> bool" where
  "action_queue E S n P as es \<longleftrightarrow> distinct es \<and> (\<forall>i. i \<in> set es \<longleftrightarrow> i < length as \<and> exclusive_promise (as ! i) \<noteq> None) \<and>
     E = map (\<lambda>i. the (exclusive_promise (as ! i))) es \<and>
     (\<forall>i \<in> set (tl es). \<exists>w. as ! i = WaitsExclusive w \<and> \<not> P w) \<and>
     (case es of [] \<Rightarrow> True | i # _ \<Rightarrow> n = 0 \<longrightarrow> (\<forall>w. as ! i = WaitsExclusive w \<longrightarrow> P w))"

definition action_ok :: "nat list \<Rightarrow> nat list \<Rightarrow> int \<Rightarrow> (nat \<Rightarrow> bool) \<Rightarrow> action_lock list \<Rightarrow> bool" where
  "action_ok E S n P as \<longleftrightarrow> (\<exists>es. action_queue E S n P as es) \<and> n = shared_holders as \<and>
     (\<forall>w \<in> set S. \<not> P w \<and> (\<exists>i < length as. as ! i = WaitsShared w)) \<and>
     (\<forall>i < length as. \<forall>w. as ! i = WaitsShared w \<longrightarrow> w \<in> set S \<or> P w) \<and> (S \<noteq> [] \<longrightarrow> E \<noteq> [])"

lemma action_queueD:
  assumes "action_queue E S n P as es"
  shows "distinct es" "\<And>i. i \<in> set es \<longleftrightarrow> i < length as \<and> exclusive_promise (as ! i) \<noteq> None" "\<And>i. i \<in> set (tl es) \<Longrightarrow> i \<in> set es"
    "E = map (\<lambda>i. the (exclusive_promise (as ! i))) es" "\<And>i. i \<in> set (tl es) \<Longrightarrow> \<exists>w. as ! i = WaitsExclusive w \<and> \<not> P w"
    "\<And>i is w. es = i # is \<Longrightarrow> n = 0 \<Longrightarrow> as ! i = WaitsExclusive w \<Longrightarrow> P w"
proof -
  show "i \<in> set (tl es) \<Longrightarrow> i \<in> set es" for i by (cases es) simp_all
  show "distinct es" "\<And>i. i \<in> set es \<longleftrightarrow> i < length as \<and> exclusive_promise (as ! i) \<noteq> None"
    "E = map (\<lambda>i. the (exclusive_promise (as ! i))) es" "\<And>i. i \<in> set (tl es) \<Longrightarrow> \<exists>w. as ! i = WaitsExclusive w \<and> \<not> P w"
    using assms unfolding action_queue_def by blast+
  show "\<And>i is w. es = i # is \<Longrightarrow> n = 0 \<Longrightarrow> as ! i = WaitsExclusive w \<Longrightarrow> P w" using assms by (simp add: action_queue_def)
qed

lemma action_okD:
  assumes "action_ok E S n P as"
  shows "n = shared_holders as" "\<And>w. w \<in> set S \<Longrightarrow> \<not> P w" "\<And>w. w \<in> set S \<Longrightarrow> \<exists>i < length as. as ! i = WaitsShared w"
    "\<And>i w. i < length as \<Longrightarrow> as ! i = WaitsShared w \<Longrightarrow> w \<in> set S \<or> P w" "S \<noteq> [] \<Longrightarrow> E \<noteq> []"
  using assms by (simp_all add: action_ok_def)

lemma shared_holders_update:
  "i < length as \<Longrightarrow> shared_holders (as[i := a]) = shared_holders as - of_bool (as ! i = HoldsShared) + of_bool (a = HoldsShared)"
proof (induction as arbitrary: i)
  case (Cons b as)
  then show ?case by (cases i) (auto simp: shared_holders_def)
qed simp

lemma shared_holders_pos: "i < length as \<Longrightarrow> as ! i = HoldsShared \<Longrightarrow> 0 < shared_holders as"
  using nth_mem [of i as] by (auto simp: shared_holders_def filter_empty_conv)

text \<open>The queue of the exclusive lock stays while nobody enters or leaves it.\<close>

lemma action_queue_same:
  assumes q: "action_queue E S n P as es" and len: "length as' = length as"
    and same: "\<And>i. i < length as \<Longrightarrow> exclusive_promise (as' ! i) = exclusive_promise (as ! i)"
    and wait: "\<And>i w. i \<in> set (tl es) \<Longrightarrow> as ! i = WaitsExclusive w \<Longrightarrow> \<not> P w \<Longrightarrow> as' ! i = WaitsExclusive w \<and> \<not> P' w"
    and first: "\<And>i is w. es = i # is \<Longrightarrow> n' = 0 \<Longrightarrow> as' ! i = WaitsExclusive w \<Longrightarrow> P' w"
  shows "action_queue E S' n' P' as' es"
  unfolding action_queue_def
proof (intro conjI)
  note d = action_queueD [OF q]
  show "distinct es" by (rule d(1))
  show "\<forall>i. i \<in> set es \<longleftrightarrow> i < length as' \<and> exclusive_promise (as' ! i) \<noteq> None"
  proof
    show "i \<in> set es \<longleftrightarrow> i < length as' \<and> exclusive_promise (as' ! i) \<noteq> None" for i
      unfolding len d(2) using same [of i] by (cases "i < length as") simp_all
  qed
  show "E = map (\<lambda>i. the (exclusive_promise (as' ! i))) es"
    unfolding d(4) by (rule map_cong [OF refl]) (use same d(2) in auto)
  show "\<forall>i \<in> set (tl es). \<exists>w. as' ! i = WaitsExclusive w \<and> \<not> P' w" using d(5) wait by blast
  show "case es of [] \<Rightarrow> True | i # _ \<Rightarrow> n' = 0 \<longrightarrow> (\<forall>w. as' ! i = WaitsExclusive w \<longrightarrow> P' w)"
    using first by (simp split: list.split)
qed

lemma action_frame:
  assumes "action_ok E S n P as" "\<And>i w. i < length as \<Longrightarrow> w \<in> set (action_promises (as ! i)) \<Longrightarrow> P' w = P w"
  shows "action_ok E S n P' as"
proof -
  obtain es where q: "action_queue E S n P as es" using assms(1) by (auto simp: action_ok_def)
  note d = action_queueD [OF q]
  have "action_queue E S n P' as es"
  proof (rule action_queue_same [OF q])
    show "as ! i = WaitsExclusive w \<and> \<not> P' w" if "i \<in> set (tl es)" "as ! i = WaitsExclusive w" "\<not> P w" for i w
      using that d(2) [of i] d(3) [of i] assms(2) [of i w] by auto
    show "P' w" if "es = i # is" "n = 0" "as ! i = WaitsExclusive w" for i "is" w
      using d(6) [OF that] d(2) [of i] that assms(2) [of i w] by auto
  qed simp_all
  moreover have w: "P' w = P w" if "i < length as" "as ! i = WaitsShared w" for i w using that assms(2) [of i w] by simp
  moreover have "\<forall>w \<in> set S. \<not> P' w \<and> (\<exists>i < length as. as ! i = WaitsShared w)" using assms(1) w unfolding action_ok_def by metis
  moreover have "\<forall>i < length as. \<forall>w. as ! i = WaitsShared w \<longrightarrow> w \<in> set S \<or> P' w" using assms(1) w unfolding action_ok_def by metis
  ultimately show ?thesis using assms(1) unfolding action_ok_def by blast
qed

lemma action_start: "action_ok E S n P as \<Longrightarrow> action_ok E S n P (as @ [NoAction])"
proof -
  assume a: "action_ok E S n P as"
  then obtain es where q: "action_queue E S n P as es" by (auto simp: action_ok_def)
  note d = action_queueD [OF q]
  let ?as = "as @ [NoAction]"
  have n: "?as ! i = as ! i" if "i \<in> set es" for i using that d(2) [of i] by (simp add: nth_append)
  have "action_queue E S n P ?as es"
    unfolding action_queue_def
  proof (intro conjI)
    show "\<forall>i. i \<in> set es \<longleftrightarrow> i < length ?as \<and> exclusive_promise (?as ! i) \<noteq> None"
    proof
      show "i \<in> set es \<longleftrightarrow> i < length ?as \<and> exclusive_promise (?as ! i) \<noteq> None" for i
        using d(2) [of i] by (cases "i = length as") (auto simp: nth_append)
    qed
    show "E = map (\<lambda>i. the (exclusive_promise (?as ! i))) es" unfolding d(4) by (rule map_cong) (simp_all only: n)
    show "\<forall>i \<in> set (tl es). \<exists>w. ?as ! i = WaitsExclusive w \<and> \<not> P w" using d(5) n d(3) by metis
    have n1: "?as ! i = as ! i" if "es = i # is" for i "is" using n [of i] that by simp
    show "case es of [] \<Rightarrow> True | i # _ \<Rightarrow> n = 0 \<longrightarrow> (\<forall>w. ?as ! i = WaitsExclusive w \<longrightarrow> P w)"
      using d(6) n1 by (simp split: list.split)
  qed (rule d(1))
  moreover have "\<forall>w \<in> set S. \<not> P w \<and> (\<exists>i < length ?as. ?as ! i = WaitsShared w)"
    using a unfolding action_ok_def by (metis length_append_singleton less_SucI nth_append)
  moreover have "\<forall>i < length ?as. \<forall>w. ?as ! i = WaitsShared w \<longrightarrow> w \<in> set S \<or> P w"
    using a unfolding action_ok_def by (auto simp: nth_append less_Suc_eq)
  moreover have "shared_holders ?as = shared_holders as" by (simp add: shared_holders_def)
  ultimately show ?thesis using a unfolding action_ok_def by auto
qed

text \<open>A call that neither enters nor leaves the queue of the exclusive lock, nor wakes its first.\<close>

lemma action_aside:
  assumes "action_ok E S n P as" "i < length as" "exclusive_promise (as ! i) = None" "exclusive_promise a = None"
    and "n' = shared_holders (as[i := a])" "n' \<noteq> 0 \<or> n' = n"
    and "\<forall>w \<in> set S'. \<not> P w \<and> (\<exists>j < length as. as[i := a] ! j = WaitsShared w)"
    and "\<forall>j < length as. \<forall>w. as[i := a] ! j = WaitsShared w \<longrightarrow> w \<in> set S' \<or> P w" and "S' \<noteq> [] \<longrightarrow> E \<noteq> []"
  shows "action_ok E S' n' P (as[i := a])"
proof -
  obtain es where q: "action_queue E S n P as es" using assms(1) by (auto simp: action_ok_def)
  note d = action_queueD [OF q]
  have i: "i \<notin> set es" using d(2) [of i] assms(3) by simp
  have "action_queue E S' n' P (as[i := a]) es"
  proof (rule action_queue_same [OF q])
    show "exclusive_promise (as[i := a] ! j) = exclusive_promise (as ! j)" if "j < length as" for j
      using that assms(3,4) by (cases "j = i") simp_all
    show "as[i := a] ! j = WaitsExclusive w \<and> \<not> P w" if "j \<in> set (tl es)" "as ! j = WaitsExclusive w" "\<not> P w" for j w
      using that d(3) [OF that(1)] i by (metis nth_list_update_neq)
    show "P w" if "es = j # js" "n' = 0" "as[i := a] ! j = WaitsExclusive w" for j js w
    proof -
      have "j \<noteq> i" using i that(1) by auto
      then show ?thesis using d(6) [OF that(1)] that assms(6) by auto
    qed
  qed simp
  then show ?thesis unfolding action_ok_def using assms(5,7-9) by (intro conjI) auto
qed

lemma action_take_shared:
  assumes "action_ok E S n P as" "i < length as" "as ! i = NoAction \<or> as ! i = GotShared"
  shows "action_ok E S (n + 1) P (as[i := HoldsShared])"
proof -
  have n: "n = shared_holders as" "0 \<le> n" using assms(1) by (simp_all add: action_ok_def shared_holders_def)
  have j: "as[i := HoldsShared] ! j = WaitsShared w \<longleftrightarrow> as ! j = WaitsShared w" if "j < length as" for j w
    using that assms(2,3) by (cases "j = i") auto
  show ?thesis
  proof (rule action_aside [OF assms(1,2)])
    show "n + 1 = shared_holders (as[i := HoldsShared])" using assms(2,3) n by (auto simp: shared_holders_update)
    show "\<forall>w \<in> set S. \<not> P w \<and> (\<exists>k < length as. as[i := HoldsShared] ! k = WaitsShared w)" using assms(1) j unfolding action_ok_def by metis
    show "\<forall>k < length as. \<forall>w. as[i := HoldsShared] ! k = WaitsShared w \<longrightarrow> w \<in> set S \<or> P w" using assms(1) j unfolding action_ok_def by metis
    show "S \<noteq> [] \<longrightarrow> E \<noteq> []" using assms(1) by (simp add: action_ok_def)
  qed (use assms(3) n in auto)
qed

lemma action_ask_shared:
  assumes "action_ok E S n P as" "i < length as" "as ! i = NoAction" "E \<noteq> []" "\<not> P w"
  shows "action_ok E (S @ [w]) n P (as[i := WaitsShared w])"
proof (rule action_aside [OF assms(1,2)])
  have n: "n = shared_holders as" using assms(1) by (simp add: action_ok_def)
  show "n = shared_holders (as[i := WaitsShared w])" using assms(2,3) n by (simp add: shared_holders_update)
  have "\<exists>k < length as. as[i := WaitsShared w] ! k = WaitsShared v" if "v \<in> set S" for v
  proof -
    obtain k where "k < length as" "as ! k = WaitsShared v" using action_okD(3) [OF assms(1) \<open>v \<in> set S\<close>] by blast
    with assms(3) show ?thesis by (intro exI [of _ k]) (cases "k = i"; simp)
  qed
  moreover have "\<exists>k < length as. as[i := WaitsShared w] ! k = WaitsShared w" using assms(2) by (intro exI [of _ i]) simp
  moreover have "\<not> P v" if "v \<in> set S" for v using action_okD(2) [OF assms(1) that] .
  ultimately show "\<forall>v \<in> set (S @ [w]). \<not> P v \<and> (\<exists>k < length as. as[i := WaitsShared w] ! k = WaitsShared v)"
    using assms(5) by simp
  show "\<forall>k < length as. \<forall>v. as[i := WaitsShared w] ! k = WaitsShared v \<longrightarrow> v \<in> set (S @ [w]) \<or> P v"
  proof (intro allI impI)
    fix k v assume "k < length as" "as[i := WaitsShared w] ! k = WaitsShared v"
    then show "v \<in> set (S @ [w]) \<or> P v" using assms(2) action_okD(4) [OF assms(1), of k v] by (cases "k = i") auto
  qed
qed (use assms in simp_all)

lemma action_woken_shared:
  assumes "action_ok E S n P as" "i < length as" "as ! i = WaitsShared w" "P w"
  shows "action_ok E S n P (as[i := GotShared])"
proof (rule action_aside [OF assms(1,2)])
  have n: "n = shared_holders as" using assms(1) by (simp add: action_ok_def)
  show "n = shared_holders (as[i := GotShared])" using assms(2,3) n by (simp add: shared_holders_update)
  have w: "w \<notin> set S" using action_okD(2) [OF assms(1)] assms(4) by blast
  have "\<exists>k < length as. as[i := GotShared] ! k = WaitsShared v" if "v \<in> set S" for v
  proof -
    obtain k where k: "k < length as" "as ! k = WaitsShared v" using action_okD(3) [OF assms(1) \<open>v \<in> set S\<close>] by blast
    with assms(3) that w show ?thesis by (intro exI [of _ k]) (cases "k = i"; auto)
  qed
  moreover have "\<not> P v" if "v \<in> set S" for v using action_okD(2) [OF assms(1) that] .
  ultimately show "\<forall>v \<in> set S. \<not> P v \<and> (\<exists>k < length as. as[i := GotShared] ! k = WaitsShared v)" by simp
  show "\<forall>k < length as. \<forall>v. as[i := GotShared] ! k = WaitsShared v \<longrightarrow> v \<in> set S \<or> P v"
  proof (intro allI impI)
    fix k v assume "k < length as" "as[i := GotShared] ! k = WaitsShared v"
    then show "v \<in> set S \<or> P v" using assms(2) action_okD(4) [OF assms(1), of k v] by (cases "k = i") auto
  qed
  show "S \<noteq> [] \<longrightarrow> E \<noteq> []" using assms(1) by (simp add: action_ok_def)
qed (use assms(3) in simp_all)
text \<open>The queue of the exclusive lock.\<close>

lemma action_entry:
  assumes "action_ok E S n P as" "i < length as" "as ! i = NoAction" "\<not> P w"
    and "\<And>j. j < length as \<Longrightarrow> w \<notin> set (action_promises (as ! j))"
  shows "action_ok (E @ [w]) S n (\<lambda>v. P v \<or> v = w \<and> E = [] \<and> n = 0) (as[i := WaitsExclusive w])"
proof -
  obtain es where q: "action_queue E S n P as es" using assms(1) by (auto simp: action_ok_def)
  note d = action_queueD [OF q]
  note a = action_okD [OF assms(1)]
  let ?as = "as[i := WaitsExclusive w]" and ?P = "\<lambda>v. P v \<or> v = w \<and> E = [] \<and> n = 0"
  have i: "i \<notin> set es" using d(2) [of i] assms(3) by simp
  then have n: "?as ! j = as ! j" if "j \<in> set es" for j using that by (metis nth_list_update_neq)
  have e: "E = [] \<longleftrightarrow> es = []" using d(4) by simp
  have "action_queue (E @ [w]) S n ?P ?as (es @ [i])"
    unfolding action_queue_def
  proof (intro conjI)
    show "distinct (es @ [i])" using d(1) i by simp
    show "\<forall>j. j \<in> set (es @ [i]) \<longleftrightarrow> j < length ?as \<and> exclusive_promise (?as ! j) \<noteq> None"
    proof
      show "j \<in> set (es @ [i]) \<longleftrightarrow> j < length ?as \<and> exclusive_promise (?as ! j) \<noteq> None" for j
        using d(2) [of j] assms(2) by (cases "j = i") simp_all
    qed
    have "map (\<lambda>j. the (exclusive_promise (?as ! j))) es = E" unfolding d(4) by (rule map_cong) (simp_all only: n)
    then show "E @ [w] = map (\<lambda>j. the (exclusive_promise (?as ! j))) (es @ [i])" using assms(2) by simp
    have "\<exists>v. ?as ! j = WaitsExclusive v \<and> \<not> ?P v" if j: "j \<in> set (tl es)" for j
    proof -
      obtain v where v: "as ! j = WaitsExclusive v" "\<not> P v" using d(5) [OF j] by blast
      have "v \<noteq> w" using assms(5) [of j] v d(2) [of j] d(3) [OF j] by auto
      with v n [OF d(3) [OF j]] show ?thesis by auto
    qed
    then show "\<forall>j \<in> set (tl (es @ [i])). \<exists>v. ?as ! j = WaitsExclusive v \<and> \<not> ?P v"
      using assms(2,4) e by (cases es) auto
    have n1: "?as ! j = as ! j" if "es = j # js" for j js using n [of j] that by simp
    show "case es @ [i] of [] \<Rightarrow> True | j # _ \<Rightarrow> n = 0 \<longrightarrow> (\<forall>v. ?as ! j = WaitsExclusive v \<longrightarrow> ?P v)"
      using d(6) n1 assms(2) e by (cases es) auto
  qed
  moreover have "n = shared_holders ?as" using a(1) assms(2,3) by (simp add: shared_holders_update)
  moreover have shared: "?as ! k = WaitsShared v \<longleftrightarrow> as ! k = WaitsShared v" if "k < length as" for k v
    using that assms(3) by (cases "k = i") simp_all
  moreover have "\<not> ?P v" if "v \<in> set S" for v
  proof -
    obtain k where "k < length as" "as ! k = WaitsShared v" using a(3) [OF \<open>v \<in> set S\<close>] by blast
    then have "v \<noteq> w" using assms(5) [of k] by auto
    then show ?thesis using a(2) [OF that] by simp
  qed
  moreover have "\<exists>k < length as. ?as ! k = WaitsShared v" if "v \<in> set S" for v using a(3) [OF that] shared by blast
  moreover have "v \<in> set S \<or> ?P v" if "k < length ?as" "?as ! k = WaitsShared v" for k v using a(4) [of k v] shared that by auto
  ultimately show ?thesis unfolding action_ok_def by (intro conjI) auto
qed

lemma action_first:
  assumes "action_queue E S n P as es" "i < length as" "as ! i = HoldsExclusive w \<or> as ! i = WaitsExclusive w \<and> P w"
  shows "\<exists>is. es = i # is"
proof -
  have "i \<in> set es" using action_queueD(2) [OF assms(1), of i] assms(2,3) by auto
  moreover have "i \<notin> set (tl es)"
  proof
    assume "i \<in> set (tl es)"
    then obtain v where "as ! i = WaitsExclusive v" "\<not> P v" using action_queueD(5) [OF assms(1)] by blast
    with assms(3) show False by auto
  qed
  ultimately show ?thesis by (cases es) auto
qed

lemma action_woken_exclusive:
  assumes "action_ok E S n P as" "i < length as" "as ! i = WaitsExclusive w" "P w"
  shows "action_ok E S n P (as[i := HoldsExclusive w])"
proof -
  obtain es where q: "action_queue E S n P as es" using assms(1) by (auto simp: action_ok_def)
  from action_first [OF q assms(2)] assms(3,4) obtain "is" where es: "es = i # is" by auto
  have i: "i \<notin> set is" using action_queueD(1) [OF q] es by simp
  let ?as = "as[i := HoldsExclusive w]"
  have "action_queue E S n P ?as es"
  proof (rule action_queue_same [OF q])
    show "exclusive_promise (?as ! j) = exclusive_promise (as ! j)" if "j < length as" for j
      using that assms(3) by (cases "j = i") simp_all
    show "?as ! j = WaitsExclusive v \<and> \<not> P v" if "j \<in> set (tl es)" "as ! j = WaitsExclusive v" "\<not> P v" for j v
      using that i es by (metis list.sel(3) nth_list_update_neq)
    show "P v" if "es = j # js" "n = 0" "?as ! j = WaitsExclusive v" for j js v
      using that es assms(2) by simp
  qed simp
  moreover have "n = shared_holders ?as" using action_okD(1) [OF assms(1)] assms(2,3) by (simp add: shared_holders_update)
  moreover have shared: "?as ! k = WaitsShared v \<longleftrightarrow> as ! k = WaitsShared v" if "k < length as" for k v
    using that assms(3) by (cases "k = i") simp_all
  moreover have "\<exists>k < length as. ?as ! k = WaitsShared v" if "v \<in> set S" for v using action_okD(3) [OF assms(1) that] shared by blast
  ultimately show ?thesis unfolding action_ok_def using action_okD(2,4,5) [OF assms(1)] by (intro conjI) auto
qed

text \<open>What stands after the first call has left the queue; \<open>P'\<close> says whom it woke.\<close>

lemma action_leave:
  assumes "action_ok E S n P as" "i < length as" "as ! i = HoldsExclusive w"
    and apart: "\<And>j k v. j < length as \<Longrightarrow> k < length as \<Longrightarrow> v \<in> set (action_promises (as ! j)) \<Longrightarrow> v \<in> set (action_promises (as ! k)) \<Longrightarrow> j = k"
    and P': "\<And>v. P' v \<longleftrightarrow> P v \<or> (if tl E \<noteq> [] then n = 0 \<and> v = hd (tl E) else v \<in> set S)"
  shows "action_ok (tl E) (if tl E \<noteq> [] then S else []) n P' (as[i := NoAction])"
proof -
  obtain es where q: "action_queue E S n P as es" using assms(1) by (auto simp: action_ok_def)
  note d = action_queueD [OF q]
  note a = action_okD [OF assms(1)]
  from action_first [OF q assms(2)] assms(3) obtain "is" where es: "es = i # is" by auto
  have i: "i \<notin> set is" "distinct is" using d(1) es by simp_all
  let ?as = "as[i := NoAction]" and ?S = "if tl E \<noteq> [] then S else []"
  have n: "?as ! j = as ! j" if "j \<in> set is" for j using that i(1) by (metis nth_list_update_neq)
  have E: "tl E = map (\<lambda>j. the (exclusive_promise (as ! j))) is" using d(4) es by simp
  have waits: "\<exists>v. as ! j = WaitsExclusive v \<and> \<not> P v" if "j \<in> set is" for j using d(5) [of j] that es by simp
  have "action_queue (tl E) ?S n P' ?as is"
    unfolding action_queue_def
  proof (intro conjI)
    show "\<forall>j. j \<in> set is \<longleftrightarrow> j < length ?as \<and> exclusive_promise (?as ! j) \<noteq> None"
    proof
      show "j \<in> set is \<longleftrightarrow> j < length ?as \<and> exclusive_promise (?as ! j) \<noteq> None" for j
        using d(2) [of j] es i(1) assms(2) by (cases "j = i") simp_all
    qed
    show "tl E = map (\<lambda>j. the (exclusive_promise (?as ! j))) is" unfolding E by (rule map_cong) (simp_all only: n)
    show "\<forall>j \<in> set (tl is). \<exists>v. ?as ! j = WaitsExclusive v \<and> \<not> P' v"
    proof
      fix j assume j: "j \<in> set (tl is)"
      then obtain k ks where ks: "is = k # ks" by (cases "is") auto
      with j i(2) have jk: "j \<noteq> k" "j \<in> set is" by auto
      obtain v where v: "as ! j = WaitsExclusive v" "\<not> P v" using waits jk(2) by blast
      obtain u where u: "as ! k = WaitsExclusive u" using waits [of k] ks by auto
      have "j < length as" "k < length as" using jk(2) ks d(2) [of j] d(2) [of k] es by auto
      then have "u \<noteq> v" using apart [of j k v] u v jk(1) by auto
      with E ks u v have "\<not> P' v" unfolding P' by auto
      with v n [OF jk(2)] show "\<exists>v. ?as ! j = WaitsExclusive v \<and> \<not> P' v" by auto
    qed
    show "case is of [] \<Rightarrow> True | j # _ \<Rightarrow> n = 0 \<longrightarrow> (\<forall>v. ?as ! j = WaitsExclusive v \<longrightarrow> P' v)"
    proof (cases "is")
      case (Cons k ks)
      then have "?as ! k = as ! k" "tl E \<noteq> []" "hd (tl E) = the (exclusive_promise (as ! k))" using n [of k] E by simp_all
      then show ?thesis unfolding P' by (simp add: Cons)
    qed simp
  qed (rule i(2))
  moreover have "n = shared_holders ?as" using a(1) assms(2,3) by (simp add: shared_holders_update)
  moreover have shared: "?as ! k = WaitsShared v \<longleftrightarrow> as ! k = WaitsShared v" if "k < length as" for k v
    using that assms(3) by (cases "k = i") simp_all
  moreover have "\<not> P' v \<and> (\<exists>k < length ?as. ?as ! k = WaitsShared v)" if v: "v \<in> set ?S" for v
  proof -
    have ne: "tl E \<noteq> []" and v': "v \<in> set S" using v by (simp_all split: if_splits)
    obtain k where k: "k < length as" "as ! k = WaitsShared v" using a(3) [OF v'] by blast
    obtain j js where j: "is = j # js" using ne E by (cases "is") auto
    obtain u where u: "as ! j = WaitsExclusive u" using waits [of j] j by auto
    have "j < length as" using d(2) [of j] es j by simp
    then have "v \<noteq> u" using apart [of j k v] k u by auto
    then have "\<not> P' v" unfolding P' using a(2) [OF v'] ne E j u by simp
    then show ?thesis using k shared by auto
  qed
  moreover have "v \<in> set ?S \<or> P' v" if "k < length ?as" "?as ! k = WaitsShared v" for k v
    using a(4) [of k v] shared that unfolding P' by auto
  ultimately show ?thesis unfolding action_ok_def by (intro conjI) auto
qed

lemma action_drop_shared:
  assumes "action_ok E S n P as" "i < length as" "as ! i = HoldsShared"
    and apart: "\<And>j k v. j < length as \<Longrightarrow> k < length as \<Longrightarrow> v \<in> set (action_promises (as ! j)) \<Longrightarrow> v \<in> set (action_promises (as ! k)) \<Longrightarrow> j = k"
    and P': "\<And>v. P' v \<longleftrightarrow> P v \<or> n = 1 \<and> E \<noteq> [] \<and> v = hd E"
  shows "action_ok E S (n - 1) P' (as[i := NoAction])"
proof -
  obtain es where q: "action_queue E S n P as es" using assms(1) by (auto simp: action_ok_def)
  note d = action_queueD [OF q]
  note a = action_okD [OF assms(1)]
  let ?as = "as[i := NoAction]"
  have i: "i \<notin> set es" using d(2) [of i] assms(3) by simp
  have E: "hd E = the (exclusive_promise (as ! j))" if "es = j # js" for j js using d(4) that by simp
  have first: "\<exists>j js. es = j # js" if "E \<noteq> []" using d(4) that by (cases es) auto
  have "action_queue E S (n - 1) P' ?as es"
  proof (rule action_queue_same [OF q])
    show "exclusive_promise (?as ! j) = exclusive_promise (as ! j)" if "j < length as" for j
      using that assms(3) by (cases "j = i") simp_all
    show "?as ! j = WaitsExclusive v \<and> \<not> P' v" if j: "j \<in> set (tl es)" "as ! j = WaitsExclusive v" "\<not> P v" for j v
    proof -
      obtain k ks where k: "es = k # ks" using j(1) by (cases es) auto
      have jk: "j \<noteq> k" using d(1) j(1) k by auto
      have l: "j < length as" "k < length as" using d(2) [of j] d(2) [of k] d(3) [OF j(1)] k by auto
      obtain u where u: "exclusive_promise (as ! k) = Some u" using d(2) [of k] k by auto
      then have "u \<in> set (action_promises (as ! k))" by (cases "as ! k") simp_all
      then have "v \<noteq> u" using apart [OF l, of v] jk j(2) by auto
      then have "\<not> P' v" unfolding P' using j(3) E [OF k] u by simp
      moreover have "j \<noteq> i" using i d(3) [OF j(1)] by auto
      ultimately show ?thesis using j(2) by simp
    qed
    show "P' v" if "es = j # js" "n - 1 = 0" "?as ! j = WaitsExclusive v" for j js v
    proof -
      have "j \<noteq> i" using i that(1) by auto
      then have "as ! j = WaitsExclusive v" using that(3) by simp
      then show ?thesis unfolding P' using that(1,2) E [OF that(1)] d(4) by simp
    qed
  qed simp
  moreover have "n - 1 = shared_holders ?as" using a(1) assms(2,3) by (simp add: shared_holders_update)
  moreover have shared: "?as ! k = WaitsShared v \<longleftrightarrow> as ! k = WaitsShared v" if "k < length as" for k v
    using that assms(3) by (cases "k = i") simp_all
  moreover have "\<not> P' v \<and> (\<exists>k < length ?as. ?as ! k = WaitsShared v)" if v: "v \<in> set S" for v
  proof -
    obtain k where k: "k < length as" "as ! k = WaitsShared v" using a(3) [OF v] by blast
    have "S \<noteq> []" using v by auto
    then have "E \<noteq> []" by (rule a(5))
    then obtain j js where j: "es = j # js" using first by blast
    obtain u where u: "exclusive_promise (as ! j) = Some u" using d(2) [of j] j by auto
    then have "u \<in> set (action_promises (as ! j))" "j < length as" "j \<noteq> k" using d(2) [of j] j k by (cases "as ! j"; auto)+
    then have "v \<noteq> u" using apart [of j k v] k by auto
    then have "\<not> P' v" unfolding P' using a(2) [OF v] E [OF j] u by simp
    then show ?thesis using k shared by auto
  qed
  moreover have "v \<in> set S \<or> P' v" if "k < length ?as" "?as ! k = WaitsShared v" for k v
    using a(4) [of k v] shared that unfolding P' by auto
  ultimately show ?thesis unfolding action_ok_def using a(5) by (intro conjI) auto
qed

section \<open>The invariant of the locks\<close>

definition store_part :: "ghost \<Rightarrow> held_wait" where
  "store_part h = (gh_held h, gh_wait h)"

definition resolved :: "store_manager \<Rightarrow> nat \<Rightarrow> bool" where
  "resolved s w \<longleftrightarrow> w < length (sm_promises s) \<and> sm_promises s ! w"

definition shape :: "ghost \<Rightarrow> bool" where
  "shape h \<longleftrightarrow> distinct (owned h) \<and> (gh_action h \<in> {GotShared, HoldsShared} \<or> \<not> settled_action (gh_action h) \<longrightarrow> chain h = [])"

definition own_apart :: "ghost list \<Rightarrow> bool" where
  "own_apart hs \<longleftrightarrow> (\<forall>i < length hs. \<forall>j < length hs. \<forall>w \<in> set (owned (hs ! i)). w \<in> set (owned (hs ! j)) \<longrightarrow> i = j)"

definition sm_inv :: "store_manager \<Rightarrow> ghost list \<Rightarrow> bool" where
  "sm_inv s hs \<longleftrightarrow> sm_stores s \<noteq> [] \<and> own_apart hs \<and> (\<forall>h \<in> set hs. shape h \<and> (\<forall>w \<in> set (owned h). w < length (sm_promises s))) \<and>
     chain_ok (sm_locks s) (resolved s) (map store_part hs) \<and>
     action_ok (sm_exclusive s) (sm_shared s) (sm_sharedCount s) (resolved s) (map gh_action hs)"

lemma chain_store_part: "chain h = chn (store_part h)"
  by (simp add: chain_def chn_def store_part_def)

lemma owned_simps: "set (owned h) = set (action_promises (gh_action h)) \<union> set (chn (store_part h))"
  by (simp add: owned_def chain_store_part)

lemma sm_invD:
  assumes "sm_inv s hs"
  shows "sm_stores s \<noteq> []" "own_apart hs" "\<And>i. i < length hs \<Longrightarrow> shape (hs ! i)"
    "\<And>i w. i < length hs \<Longrightarrow> w \<in> set (owned (hs ! i)) \<Longrightarrow> w < length (sm_promises s)"
    "chain_ok (sm_locks s) (resolved s) (map store_part hs)"
    "action_ok (sm_exclusive s) (sm_shared s) (sm_sharedCount s) (resolved s) (map gh_action hs)"
  using assms by (auto simp: sm_inv_def)

text \<open>No promise belongs to two calls, or to both parts of one.\<close>

lemma chain_apart:
  assumes "sm_inv s hs" "j < length (map store_part hs)" "k < length (map store_part hs)"
    "v \<in> set (chn (map store_part hs ! j))" "v \<in> set (chn (map store_part hs ! k))"
  shows "j = k"
  using sm_invD(2) [OF assms(1)] assms(2-) by (auto simp: own_apart_def owned_simps)

lemma action_apart:
  assumes "sm_inv s hs" "j < length (map gh_action hs)" "k < length (map gh_action hs)"
    "v \<in> set (action_promises (map gh_action hs ! j))" "v \<in> set (action_promises (map gh_action hs ! k))"
  shows "j = k"
  using sm_invD(2) [OF assms(1)] assms(2-) by (auto simp: own_apart_def owned_simps)

lemma parts_apart:
  assumes "sm_inv s hs" "j < length hs" "k < length hs" "v \<in> set (action_promises (gh_action (hs ! j)))" "v \<in> set (chn (store_part (hs ! k)))"
  shows False
proof -
  have "j = k" using sm_invD(2) [OF assms(1)] assms(2-) by (auto simp: own_apart_def owned_simps)
  with assms(4,5) sm_invD(3) [OF assms(1,3)] show False by (auto simp: shape_def owned_def chain_store_part)
qed

lemma sm_inv_update:
  assumes inv: "sm_inv s hs" and i: "i < length hs" and "sm_stores s' \<noteq> []" "shape h'"
    and len: "length (sm_promises s) \<le> length (sm_promises s')"
    and own: "\<And>w. w \<in> set (owned h') \<Longrightarrow> w \<in> set (owned (hs ! i)) \<or> length (sm_promises s) \<le> w \<and> w < length (sm_promises s')"
    and "chain_ok (sm_locks s') (resolved s') ((map store_part hs)[i := store_part h'])"
    and "action_ok (sm_exclusive s') (sm_shared s') (sm_sharedCount s') (resolved s') ((map gh_action hs)[i := gh_action h'])"
  shows "sm_inv s' (hs[i := h'])"
proof -
  note d = sm_invD [OF inv]
  have "own_apart (hs[i := h'])"
    unfolding own_apart_def
  proof (intro allI impI ballI)
    have apart: "j = k" if "j < length hs" "k < length hs" "w \<in> set (owned (hs ! j))" "w \<in> set (owned (hs ! k))" for j k w
      using d(2) that unfolding own_apart_def by blast
    have mine: "k = i" if "k < length hs" "w \<in> set (owned (hs ! k))" "w \<in> set (owned h')" for k w
      using own [OF that(3)] apart [OF that(1) i that(2)] d(4) [OF that(1,2)] by auto
    fix j k w assume jk: "j < length (hs[i := h'])" "k < length (hs[i := h'])" "w \<in> set (owned (hs[i := h'] ! j))" "w \<in> set (owned (hs[i := h'] ! k))"
    consider "j = i" "k = i" | "j = i" "k \<noteq> i" | "j \<noteq> i" "k = i" | "j \<noteq> i" "k \<noteq> i" by blast
    then show "j = k"
    proof cases
      case 2
      with jk i mine [of k w] show ?thesis by simp
    next
      case 3
      with jk i mine [of j w] show ?thesis by simp
    next
      case 4
      with jk show ?thesis by (intro apart [of j k w]) simp_all
    qed simp
  qed
  moreover have "shape h \<and> (\<forall>w \<in> set (owned h). w < length (sm_promises s'))" if h: "h \<in> set (hs[i := h'])" for h
  proof -
    obtain j where j: "j < length hs" "h = hs[i := h'] ! j" using h by (auto simp: in_set_conv_nth)
    show ?thesis
    proof (cases "j = i")
      case True
      then have "h = h'" using j i by simp
      moreover have "w < length (sm_promises s')" if "w \<in> set (owned h')" for w using own [OF that] d(4) [OF i, of w] len by auto
      ultimately show ?thesis using assms(4) by simp
    next
      case False
      then have "h = hs ! j" using j by simp
      moreover have "w < length (sm_promises s')" if "w \<in> set (owned (hs ! j))" for w using d(4) [OF j(1) that] len by simp
      ultimately show ?thesis using d(3) [OF j(1)] by simp
    qed
  qed
  ultimately show ?thesis using assms(3,7,8) by (simp add: sm_inv_def map_update)
qed

lemma same_part: "i < length xs \<Longrightarrow> f h = f (xs ! i) \<Longrightarrow> (map f xs)[i := f h] = map f xs"
  by (metis length_map list_update_id nth_map)

text \<open>What the steps do to the promises.\<close>

lemma resolved_settle: "resolved (settle w s) v \<longleftrightarrow> resolved s v \<or> v = w \<and> w < length (sm_promises s)"
  by (cases "v = w") (auto simp: resolved_def settle_def)

lemma settle_fields [simp]: "sm_locks (settle w s) = sm_locks s" "sm_exclusive (settle w s) = sm_exclusive s" "sm_shared (settle w s) = sm_shared s"
  "sm_sharedCount (settle w s) = sm_sharedCount s" "sm_stores (settle w s) = sm_stores s" "length (sm_promises (settle w s)) = length (sm_promises s)"
  by (simp_all add: settle_def)

lemma settle_head_fields [simp]: "sm_locks (settle_head ws s) = sm_locks s" "sm_exclusive (settle_head ws s) = sm_exclusive s"
  "sm_shared (settle_head ws s) = sm_shared s" "sm_sharedCount (settle_head ws s) = sm_sharedCount s" "sm_stores (settle_head ws s) = sm_stores s"
  "length (sm_promises (settle_head ws s)) = length (sm_promises s)"
  by (simp_all add: settle_head_def split: list.split)

lemma resolved_settle_head: "resolved (settle_head ws s) v \<longleftrightarrow> resolved s v \<or> (\<exists>vs. ws = v # vs) \<and> v < length (sm_promises s)"
  by (auto simp: settle_head_def resolved_settle split: list.split)

lemma settle_each_fields [simp]: "sm_locks (fold settle ws s) = sm_locks s" "sm_exclusive (fold settle ws s) = sm_exclusive s"
  "sm_shared (fold settle ws s) = sm_shared s" "sm_sharedCount (fold settle ws s) = sm_sharedCount s" "sm_stores (fold settle ws s) = sm_stores s"
  "length (sm_promises (fold settle ws s)) = length (sm_promises s)"
  by (induction ws arbitrary: s) simp_all

lemma resolved_settle_all: "resolved (fold settle ws s) v \<longleftrightarrow> resolved s v \<or> v \<in> set ws \<and> v < length (sm_promises s)"
  by (induction ws arbitrary: s) (auto simp: resolved_settle)

lemma resolved_append: "sm_promises s' = sm_promises s @ [b] \<Longrightarrow> resolved s' v \<longleftrightarrow> resolved s v \<or> v = length (sm_promises s) \<and> b"
  by (auto simp: resolved_def nth_append less_Suc_eq)

lemma resolved_fresh: "\<not> resolved s (length (sm_promises s))"
  by (simp add: resolved_def)

lemma resolved_promises: "sm_promises s' = sm_promises s \<Longrightarrow> resolved s' = resolved s"
  by (simp add: resolved_def fun_eq_iff)

lemma fresh_promise:
  assumes "sm_inv s hs" "j < length hs"
  shows "length (sm_promises s) \<notin> set (owned (hs ! j))"
  using sm_invD(4) [OF assms] by blast

text \<open>The steps keep it.\<close>

lemma sm_inv_other: "sm_inv s hs \<Longrightarrow> same_locks s t \<Longrightarrow> sm_inv t hs"
  using resolved_promises [of t s] by (simp add: sm_inv_def same_locks_def)

text \<open>A step of the store locks, and one of the action locks, leave the other part as it is.\<close>

lemma sm_inv_store_step:
  assumes inv: "sm_inv s hs" and i: "i < length hs" and act: "gh_action h' = gh_action (hs ! i)" and "shape h'" "sm_stores s' \<noteq> []"
    and "length (sm_promises s) \<le> length (sm_promises s')" "sm_exclusive s' = sm_exclusive s" "sm_shared s' = sm_shared s" "sm_sharedCount s' = sm_sharedCount s"
    and own: "\<And>w. w \<in> set (owned h') \<Longrightarrow> w \<in> set (owned (hs ! i)) \<or> length (sm_promises s) \<le> w \<and> w < length (sm_promises s')"
    and "chain_ok (sm_locks s') (resolved s') ((map store_part hs)[i := store_part h'])"
    and wake: "\<And>w. resolved s' w \<noteq> resolved s w \<Longrightarrow> length (sm_promises s) \<le> w \<or> (\<exists>j < length hs. w \<in> set (chn (store_part (hs ! j))))"
  shows "sm_inv s' (hs[i := h'])"
proof (rule sm_inv_update [OF inv i])
  have "action_ok (sm_exclusive s) (sm_shared s) (sm_sharedCount s) (resolved s') (map gh_action hs)"
  proof (rule action_frame [OF sm_invD(6) [OF inv]])
    fix j w assume j: "j < length (map gh_action hs)" "w \<in> set (action_promises (map gh_action hs ! j))"
    then have "w < length (sm_promises s)" using sm_invD(4) [OF inv, of j w] by (simp add: owned_simps)
    with wake [of w] parts_apart [OF inv, of j _ w] j show "resolved s' w = resolved s w" by auto
  qed
  then show "action_ok (sm_exclusive s') (sm_shared s') (sm_sharedCount s') (resolved s') ((map gh_action hs)[i := gh_action h'])"
    using assms(7-9) same_part [OF i, of gh_action, OF act] by simp
qed fact+

lemma sm_inv_action_step:
  assumes inv: "sm_inv s hs" and i: "i < length hs" and part: "store_part h' = store_part (hs ! i)" and "shape h'" "sm_stores s' \<noteq> []"
    and "length (sm_promises s) \<le> length (sm_promises s')" "sm_locks s' = sm_locks s"
    and own: "\<And>w. w \<in> set (owned h') \<Longrightarrow> w \<in> set (owned (hs ! i)) \<or> length (sm_promises s) \<le> w \<and> w < length (sm_promises s')"
    and "action_ok (sm_exclusive s') (sm_shared s') (sm_sharedCount s') (resolved s') ((map gh_action hs)[i := gh_action h'])"
    and wake: "\<And>w. resolved s' w \<noteq> resolved s w \<Longrightarrow> length (sm_promises s) \<le> w \<or> (\<exists>j < length hs. w \<in> set (action_promises (gh_action (hs ! j))))"
  shows "sm_inv s' (hs[i := h'])"
proof (rule sm_inv_update [OF inv i])
  have "chain_ok (sm_locks s) (resolved s') (map store_part hs)"
  proof (rule chain_frame [OF sm_invD(5) [OF inv]])
    fix j w assume j: "j < length (map store_part hs)" "w \<in> set (chn (map store_part hs ! j))"
    then have "w < length (sm_promises s)" using sm_invD(4) [OF inv, of j w] by (simp add: owned_simps)
    with wake [of w] parts_apart [OF inv, of _ j w] j show "resolved s' w = resolved s w" by auto
  qed
  then show "chain_ok (sm_locks s') (resolved s') ((map store_part hs)[i := store_part h'])"
    using assms(7) same_part [OF i, of store_part, OF part] by simp
qed fact+

lemma shape_settled: "settled_action (gh_action h) \<Longrightarrow> gh_action h \<noteq> HoldsShared \<Longrightarrow> distinct (owned h) \<Longrightarrow> shape h"
  by (cases "gh_action h") (auto simp: shape_def)

lemma enqueue_lock_fields: "sm_exclusive (enqueue_lock k s) = sm_exclusive s" "sm_shared (enqueue_lock k s) = sm_shared s"
  "sm_sharedCount (enqueue_lock k s) = sm_sharedCount s" "sm_stores (enqueue_lock k s) = sm_stores s"
  "sm_promises (enqueue_lock k s) = sm_promises s @ [sm_locks s k = []]" "sm_locks (enqueue_lock k s) = (sm_locks s)(k := sm_locks s k @ [length (sm_promises s)])"
  by (simp_all add: enqueue_lock_def Let_def)

lemma sm_inv_enqueue:
  assumes inv: "sm_inv s hs" and i: "i < length hs" and h: "idle (hs ! i)" "gh_action (hs ! i) \<noteq> HoldsShared" "length (gh_held (hs ! i)) < 4"
  shows "sm_inv (enqueue_lock (lock_number (length (gh_held (hs ! i)))) s) (hs[i := (hs ! i)\<lparr>gh_wait := Some (length (sm_promises s))\<rparr>])"
proof (rule sm_inv_store_step [OF inv i])
  let ?w = "length (sm_promises s)" and ?ws = "gh_held (hs ! i)"
  let ?s = "enqueue_lock (lock_number (length ?ws)) s" and ?h = "(hs ! i)\<lparr>gh_wait := Some ?w\<rparr>" and ?cs = "map store_part hs"
  have part: "?cs ! i = (?ws, None)" "store_part ?h = (?ws, Some ?w)" using i h(1) by (simp_all add: store_part_def idle_def)
  have fresh: "?w \<notin> set (chn (?cs ! j))" if "j < length ?cs" for j using fresh_promise [OF inv, of j] that by (simp add: owned_simps)
  have res: "resolved ?s v \<longleftrightarrow> resolved s v \<or> v = ?w \<and> sm_locks s (lock_number (length ?ws)) = []" for v
    by (rule resolved_append) (rule enqueue_lock_fields)
  have own: "owned ?h = owned (hs ! i) @ [?w]" using h(1) by (simp add: owned_def chain_def idle_def)
  then have "distinct (owned ?h)" using sm_invD(3) [OF inv i] fresh_promise [OF inv i] by (simp add: shape_def)
  then show "shape ?h" using h by (intro shape_settled) (simp_all add: idle_def)
  show "w \<in> set (owned (hs ! i)) \<or> ?w \<le> w \<and> w < length (sm_promises ?s)" if "w \<in> set (owned ?h)" for w
    using that own by (auto simp: enqueue_lock_fields)
  show "chain_ok (sm_locks ?s) (resolved ?s) (?cs[i := store_part ?h])"
  proof (cases "?ws = []")
    case True
    have "chain_ok ((sm_locks s)(ReaderLocks := sm_locks s ReaderLocks @ [?w])) (\<lambda>v. resolved s v \<or> v = ?w \<and> sm_locks s ReaderLocks = []) (?cs[i := ([], Some ?w)])"
      by (rule chain_enqueue_first [OF sm_invD(5) [OF inv]]) (use i part True fresh resolved_fresh in simp_all)
    moreover have "resolved ?s = (\<lambda>v. resolved s v \<or> v = ?w \<and> sm_locks s ReaderLocks = [])" using res True by (simp add: fun_eq_iff)
    ultimately show ?thesis using True part by (simp add: enqueue_lock_fields)
  next
    case False
    have "sm_locks s (lock_number (length ?ws)) = [] \<and>
        chain_ok ((sm_locks s)(lock_number (length ?ws) := [?w])) (\<lambda>v. resolved s v \<or> v = ?w) (?cs[i := (?ws, Some ?w)])"
      by (rule chain_enqueue_next [OF sm_invD(5) [OF inv]]) (use i part False fresh h in simp_all)
    moreover from this have "resolved ?s = (\<lambda>v. resolved s v \<or> v = ?w)" using res by (simp add: fun_eq_iff)
    ultimately show ?thesis using part by (simp add: enqueue_lock_fields)
  qed
  show "?w \<le> w \<or> (\<exists>j < length hs. w \<in> set (chn (store_part (hs ! j))))" if "resolved ?s w \<noteq> resolved s w" for w
    using that res by auto
qed (use sm_invD(1) [OF inv] in \<open>simp_all add: enqueue_lock_fields\<close>)

lemma release_fields: "sm_exclusive (releaseActiveLock k s) = sm_exclusive s" "sm_shared (releaseActiveLock k s) = sm_shared s"
  "sm_sharedCount (releaseActiveLock k s) = sm_sharedCount s" "sm_stores (releaseActiveLock k s) = sm_stores s"
  "length (sm_promises (releaseActiveLock k s)) = length (sm_promises s)" "sm_locks (releaseActiveLock k s) = (sm_locks s)(k := tl (sm_locks s k))"
  by (simp_all add: releaseActiveLock_def Let_def)

lemma resolved_release: "resolved (releaseActiveLock k s) v \<longleftrightarrow> resolved s v \<or> (\<exists>vs. tl (sm_locks s k) = v # vs) \<and> v < length (sm_promises s)"
  unfolding releaseActiveLock_def Let_def resolved_settle_head by (simp add: resolved_def)

text \<open>The promises in the queue of the readers belong to calls.\<close>

lemma queued_owned:
  assumes "sm_inv s hs" "v \<in> set (sm_locks s ReaderLocks)"
  shows "\<exists>j < length hs. v \<in> set (chn (store_part (hs ! j)))"
proof -
  obtain ns where q: "chain_queue (sm_locks s) (resolved s) (map store_part hs) ns" using sm_invD(5) [OF assms(1)] by (auto simp: chain_ok_def)
  from assms(2) obtain j where j: "j \<in> set ns" "v = hd (chn (map store_part hs ! j))" unfolding chain_queueD(4) [OF q] by auto
  then have "j < length hs" "chn (store_part (hs ! j)) \<noteq> []" using chain_queueD(2) [OF q, of j] by auto
  with j show ?thesis by (intro exI [of _ j]) auto
qed

lemma sm_inv_release:
  assumes inv: "sm_inv s hs" and i: "i < length hs" and h: "idle (hs ! i)" "gh_held (hs ! i) = ws @ [w]" "length ws < 4"
  shows "sm_inv (releaseActiveLock (lock_number (length ws)) s) (hs[i := (hs ! i)\<lparr>gh_held := ws\<rparr>])"
proof (rule sm_inv_store_step [OF inv i])
  let ?k = "lock_number (length ws)" and ?h = "(hs ! i)\<lparr>gh_held := ws\<rparr>" and ?cs = "map store_part hs"
  let ?s = "releaseActiveLock ?k s"
  have part: "?cs ! i = (ws @ [w], None)" "store_part ?h = (ws, None)" using i h(1,2) by (simp_all add: store_part_def idle_def)
  have sub: "set (owned ?h) \<subseteq> set (owned (hs ! i))" using h(1,2) by (auto simp: owned_def chain_def idle_def)
  then show "v \<in> set (owned (hs ! i)) \<or> length (sm_promises s) \<le> v \<and> v < length (sm_promises ?s)" if "v \<in> set (owned ?h)" for v
    using that by blast
  have "gh_action (hs ! i) \<noteq> HoldsShared" using sm_invD(3) [OF inv i] h(2) by (auto simp: shape_def chain_def)
  moreover have "distinct (owned ?h)" using sm_invD(3) [OF inv i] h(1,2) by (simp add: shape_def owned_def chain_def idle_def)
  ultimately show "shape ?h" using h(1) by (intro shape_settled) (simp_all add: idle_def)
  have "chain_ok (sm_locks ?s) (resolved ?s) (?cs[i := store_part ?h]) \<and>
      (\<forall>v. resolved ?s v \<noteq> resolved s v \<longrightarrow> (\<exists>j < length hs. v \<in> set (chn (store_part (hs ! j)))))"
  proof (cases "ws = []")
    case True
    have low: "v < length (sm_promises s)" if "tl (sm_locks s ReaderLocks) = v # vs" for v vs
    proof -
      have "v \<in> set (sm_locks s ReaderLocks)" using that by (cases "sm_locks s ReaderLocks") auto
      then obtain j where "j < length hs" "v \<in> set (chn (store_part (hs ! j)))" using queued_owned [OF inv] by blast
      then show ?thesis using sm_invD(4) [OF inv, of j v] by (simp add: owned_simps)
    qed
    then have res: "resolved ?s v \<longleftrightarrow> resolved s v \<or> (\<exists>vs. tl (sm_locks s ReaderLocks) = v # vs)" for v
      using True by (auto simp: resolved_release)
    have "chain_ok ((sm_locks s)(ReaderLocks := tl (sm_locks s ReaderLocks))) (\<lambda>v. resolved s v \<or> (\<exists>vs. tl (sm_locks s ReaderLocks) = v # vs)) (?cs[i := ([], None)])"
      by (rule chain_release_first [OF sm_invD(5) [OF inv]]) (use i part True chain_apart [OF inv] in simp_all)
    moreover have "resolved ?s = (\<lambda>v. resolved s v \<or> (\<exists>vs. tl (sm_locks s ReaderLocks) = v # vs))" using res by (simp add: fun_eq_iff)
    moreover have "\<exists>j < length hs. v \<in> set (chn (store_part (hs ! j)))" if "resolved ?s v \<noteq> resolved s v" for v
    proof (rule queued_owned [OF inv])
      from that res obtain vs where "tl (sm_locks s ReaderLocks) = v # vs" by auto
      then show "v \<in> set (sm_locks s ReaderLocks)" by (cases "sm_locks s ReaderLocks") auto
    qed
    ultimately show ?thesis using True part by (simp add: release_fields)
  next
    case False
    have c: "sm_locks s ?k = [w] \<and> chain_ok ((sm_locks s)(?k := [])) (resolved s) (?cs[i := (ws, None)])"
      by (rule chain_release_next [OF sm_invD(5) [OF inv]]) (use i part False h in simp_all)
    then have "resolved ?s = resolved s" by (simp add: fun_eq_iff resolved_release)
    with c part show ?thesis by (simp add: release_fields)
  qed
  then show "chain_ok (sm_locks ?s) (resolved ?s) (?cs[i := store_part ?h])"
    "\<And>v. resolved ?s v \<noteq> resolved s v \<Longrightarrow> length (sm_promises s) \<le> v \<or> (\<exists>j < length hs. v \<in> set (chn (store_part (hs ! j))))" by blast+
qed (use sm_invD(1) [OF inv] in \<open>simp_all add: release_fields\<close>)

lemma free_simps [simp]: "gh_action free_ghost = NoAction" "gh_held free_ghost = []" "gh_wait free_ghost = None" "chain free_ghost = []"
  "owned free_ghost = []" "store_part free_ghost = ([], None)" "shape free_ghost"
  by (simp_all add: free_ghost_def chain_def owned_def store_part_def shape_def)

lemma with_action [simp]: "owned (free_ghost\<lparr>gh_action := a\<rparr>) = action_promises a" "store_part (h\<lparr>gh_action := a\<rparr>) = store_part h"
  "shape (free_ghost\<lparr>gh_action := a\<rparr>)"
  by (cases a; simp add: free_ghost_def chain_def owned_def store_part_def shape_def)+

lemma sm_inv_ask_exclusive:
  assumes inv: "sm_inv s hs" and i: "i < length hs" "hs ! i = free_ghost"
  shows "sm_inv (enqueue_exclusive s) (hs[i := free_ghost\<lparr>gh_action := WaitsExclusive (length (sm_promises s))\<rparr>])"
proof (rule sm_inv_action_step [OF inv i(1)])
  let ?w = "length (sm_promises s)" and ?s = "enqueue_exclusive s"
  have f: "sm_exclusive ?s = sm_exclusive s @ [?w]" "sm_shared ?s = sm_shared s" "sm_sharedCount ?s = sm_sharedCount s" "sm_locks ?s = sm_locks s"
    "sm_stores ?s = sm_stores s" "sm_promises ?s = sm_promises s @ [sm_exclusive s = [] \<and> sm_sharedCount s = 0]"
    by (simp_all add: enqueue_exclusive_def Let_def)
  note res = resolved_append [OF f(6)]
  have "action_ok (sm_exclusive s @ [?w]) (sm_shared s) (sm_sharedCount s)
      (\<lambda>v. resolved s v \<or> v = ?w \<and> sm_exclusive s = [] \<and> sm_sharedCount s = 0) ((map gh_action hs)[i := WaitsExclusive ?w])"
    by (rule action_entry [OF sm_invD(6) [OF inv]]) (use i fresh_promise [OF inv] resolved_fresh in \<open>auto simp: owned_simps\<close>)
  moreover have "resolved ?s = (\<lambda>v. resolved s v \<or> v = ?w \<and> sm_exclusive s = [] \<and> sm_sharedCount s = 0)" using res by (simp add: fun_eq_iff)
  ultimately show "action_ok (sm_exclusive ?s) (sm_shared ?s) (sm_sharedCount ?s) (resolved ?s)
      ((map gh_action hs)[i := gh_action (free_ghost\<lparr>gh_action := WaitsExclusive ?w\<rparr>)])"
    using f by simp
  show "?w \<le> v \<or> (\<exists>j < length hs. v \<in> set (action_promises (gh_action (hs ! j))))" if "resolved ?s v \<noteq> resolved s v" for v
    using that res by auto
qed (use i sm_invD(1) [OF inv] in \<open>simp_all add: enqueue_exclusive_def Let_def\<close>)

lemma sm_inv_ask_shared:
  assumes inv: "sm_inv s hs" and i: "i < length hs" "hs ! i = free_ghost" and e: "sm_exclusive s \<noteq> []"
  shows "sm_inv (enqueue_shared s) (hs[i := free_ghost\<lparr>gh_action := WaitsShared (length (sm_promises s))\<rparr>])"
proof (rule sm_inv_action_step [OF inv i(1)])
  let ?w = "length (sm_promises s)" and ?s = "enqueue_shared s"
  have p: "sm_promises ?s = sm_promises s @ [False]" by (simp add: enqueue_shared_def)
  then have res: "resolved ?s = resolved s" using resolved_append [OF p] by (simp add: fun_eq_iff)
  have "action_ok (sm_exclusive s) (sm_shared s @ [?w]) (sm_sharedCount s) (resolved s) ((map gh_action hs)[i := WaitsShared ?w])"
    by (rule action_ask_shared [OF sm_invD(6) [OF inv]]) (use i e resolved_fresh in simp_all)
  then show "action_ok (sm_exclusive ?s) (sm_shared ?s) (sm_sharedCount ?s) (resolved ?s)
      ((map gh_action hs)[i := gh_action (free_ghost\<lparr>gh_action := WaitsShared ?w\<rparr>)])"
    unfolding res by (simp add: enqueue_shared_def)
qed (use i sm_invD(1) [OF inv] resolved_append [of "enqueue_shared s" s False] in \<open>simp_all add: enqueue_shared_def\<close>)

lemma sm_inv_take_shared:
  assumes inv: "sm_inv s hs" and i: "i < length hs" "hs ! i = free_ghost \<or> hs ! i = free_ghost\<lparr>gh_action := GotShared\<rparr>"
  shows "sm_inv (count_shared s) (hs[i := free_ghost\<lparr>gh_action := HoldsShared\<rparr>])"
proof (rule sm_inv_action_step [OF inv i(1)])
  have res: "resolved (count_shared s) = resolved s" by (rule resolved_promises) (simp add: count_shared_def)
  have "action_ok (sm_exclusive s) (sm_shared s) (sm_sharedCount s + 1) (resolved s) ((map gh_action hs)[i := HoldsShared])"
    by (rule action_take_shared [OF sm_invD(6) [OF inv]]) (use i in auto)
  then show "action_ok (sm_exclusive (count_shared s)) (sm_shared (count_shared s)) (sm_sharedCount (count_shared s)) (resolved (count_shared s))
      ((map gh_action hs)[i := gh_action (free_ghost\<lparr>gh_action := HoldsShared\<rparr>)])"
    unfolding res by (simp add: count_shared_def)
qed (use i sm_invD(1) [OF inv] resolved_promises [of "count_shared s" s] in \<open>auto simp: count_shared_def\<close>)

text \<open>The promises in the other two lists belong to calls as well.\<close>

lemma exclusive_owned:
  assumes "sm_inv s hs" "v \<in> set (sm_exclusive s)"
  shows "\<exists>j < length hs. v \<in> set (action_promises (gh_action (hs ! j)))"
proof -
  obtain es where q: "action_queue (sm_exclusive s) (sm_shared s) (sm_sharedCount s) (resolved s) (map gh_action hs) es"
    using sm_invD(6) [OF assms(1)] by (auto simp: action_ok_def)
  from assms(2) obtain j where j: "j \<in> set es" "v = the (exclusive_promise (map gh_action hs ! j))" unfolding action_queueD(4) [OF q] by auto
  then have "j < length hs" "exclusive_promise (gh_action (hs ! j)) \<noteq> None" using action_queueD(2) [OF q, of j] by auto
  with j show ?thesis by (intro exI [of _ j]) (cases "gh_action (hs ! j)"; simp)
qed

lemma shared_owned:
  assumes "sm_inv s hs" "v \<in> set (sm_shared s)"
  shows "\<exists>j < length hs. v \<in> set (action_promises (gh_action (hs ! j)))"
proof -
  obtain j where "j < length hs" "gh_action (hs ! j) = WaitsShared v" using action_okD(3) [OF sm_invD(6) [OF assms(1)] assms(2)] by auto
  then show ?thesis by (intro exI [of _ j]) simp
qed

lemma action_promise_old: "sm_inv s hs \<Longrightarrow> j < length hs \<Longrightarrow> v \<in> set (action_promises (gh_action (hs ! j))) \<Longrightarrow> v < length (sm_promises s)"
  using sm_invD(4) [of s hs j v] by (simp add: owned_simps)

lemma sm_inv_drop_shared:
  assumes inv: "sm_inv s hs" and i: "i < length hs" "hs ! i = free_ghost\<lparr>gh_action := HoldsShared\<rparr>"
  shows "sm_inv (releaseActionWriterSharedLock s) (hs[i := free_ghost])"
proof (rule sm_inv_action_step [OF inv i(1)])
  let ?s = "releaseActionWriterSharedLock s" and ?E = "sm_exclusive s" and ?n = "sm_sharedCount s"
  have n: "0 < ?n" using action_okD(1) [OF sm_invD(6) [OF inv]] shared_holders_pos [of i "map gh_action hs"] i by simp
  have f: "sm_exclusive ?s = ?E" "sm_shared ?s = sm_shared s" "sm_sharedCount ?s = ?n - 1" "sm_locks ?s = sm_locks s"
    "sm_stores ?s = sm_stores s" "length (sm_promises ?s) = length (sm_promises s)"
    using n by (simp_all add: releaseActionWriterSharedLock_def Let_def)
  have old: "v < length (sm_promises s)" if "v \<in> set ?E" for v using exclusive_owned [OF inv that] action_promise_old [OF inv] by blast
  have res: "resolved ?s v \<longleftrightarrow> resolved s v \<or> ?n = 1 \<and> ?E \<noteq> [] \<and> v = hd ?E" for v
  proof (cases "?n = 1")
    case True
    then have "resolved ?s v \<longleftrightarrow> resolved s v \<or> (\<exists>vs. ?E = v # vs) \<and> v < length (sm_promises s)"
      unfolding releaseActionWriterSharedLock_def Let_def by (simp add: resolved_settle_head) (simp add: resolved_def)
    with True old [of v] show ?thesis by (cases ?E) auto
  next
    case False
    with n show ?thesis unfolding releaseActionWriterSharedLock_def Let_def by (simp add: resolved_def)
  qed
  have "action_ok ?E (sm_shared s) (?n - 1) (resolved ?s) ((map gh_action hs)[i := NoAction])"
    by (rule action_drop_shared [OF sm_invD(6) [OF inv]]) (use i res action_apart [OF inv] in simp_all)
  then show "action_ok (sm_exclusive ?s) (sm_shared ?s) (sm_sharedCount ?s) (resolved ?s) ((map gh_action hs)[i := gh_action free_ghost])"
    using f by simp
  show "length (sm_promises s) \<le> v \<or> (\<exists>j < length hs. v \<in> set (action_promises (gh_action (hs ! j))))" if "resolved ?s v \<noteq> resolved s v" for v
    using that res [of v] exclusive_owned [OF inv, of v] by auto
qed (use i sm_invD(1) [OF inv] in \<open>simp_all add: releaseActionWriterSharedLock_def Let_def\<close>)

lemma sm_inv_drop_exclusive:
  assumes inv: "sm_inv s hs" and i: "i < length hs" "hs ! i = free_ghost\<lparr>gh_action := HoldsExclusive w\<rparr>"
  shows "sm_inv (releaseActionWriterExclusiveLock s) (hs[i := free_ghost])"
proof (rule sm_inv_action_step [OF inv i(1)])
  let ?s = "releaseActionWriterExclusiveLock s" and ?E = "sm_exclusive s" and ?n = "sm_sharedCount s"
  have f: "sm_exclusive ?s = tl ?E" "sm_shared ?s = (if tl ?E \<noteq> [] then sm_shared s else [])" "sm_sharedCount ?s = ?n" "sm_locks ?s = sm_locks s"
    "sm_stores ?s = sm_stores s" "length (sm_promises ?s) = length (sm_promises s)"
    by (simp_all add: releaseActionWriterExclusiveLock_def Let_def)
  have tl: "v \<in> set ?E" if "v \<in> set (tl ?E)" for v using that by (cases ?E) simp_all
  have old: "v < length (sm_promises s)" if "v \<in> set ?E \<union> set (sm_shared s)" for v
    using that exclusive_owned [OF inv, of v] shared_owned [OF inv, of v] action_promise_old [OF inv] by blast
  have res: "resolved ?s v \<longleftrightarrow> resolved s v \<or> (if tl ?E \<noteq> [] then ?n = 0 \<and> v = hd (tl ?E) else v \<in> set (sm_shared s))" for v
  proof (cases "tl ?E")
    case Nil
    then have "resolved ?s v \<longleftrightarrow> resolved s v \<or> v \<in> set (sm_shared s) \<and> v < length (sm_promises s)"
      unfolding releaseActionWriterExclusiveLock_def Let_def by (simp add: resolved_settle_all) (simp add: resolved_def)
    with Nil old [of v] show ?thesis by auto
  next
    case (Cons u us)
    have "u < length (sm_promises s)" using old [of u] tl [of u] Cons by simp
    with Cons show ?thesis unfolding releaseActionWriterExclusiveLock_def Let_def
      by (auto simp: resolved_settle_head) (simp_all add: resolved_def)
  qed
  have "action_ok (tl ?E) (if tl ?E \<noteq> [] then sm_shared s else []) ?n (resolved ?s) ((map gh_action hs)[i := NoAction])"
    by (rule action_leave [OF sm_invD(6) [OF inv]]) (use i res action_apart [OF inv] in simp_all)
  then show "action_ok (sm_exclusive ?s) (sm_shared ?s) (sm_sharedCount ?s) (resolved ?s) ((map gh_action hs)[i := gh_action free_ghost])"
    using f by simp
  show "length (sm_promises s) \<le> v \<or> (\<exists>j < length hs. v \<in> set (action_promises (gh_action (hs ! j))))" if "resolved ?s v \<noteq> resolved s v" for v
    using that res [of v] exclusive_owned [OF inv, of v] shared_owned [OF inv, of v] tl [of v] by (auto split: if_splits)
qed (use i sm_invD(1) [OF inv] in \<open>simp_all add: releaseActionWriterExclusiveLock_def Let_def\<close>)

lemma sm_inv_woken:
  assumes inv: "sm_inv s hs" and i: "i < length hs" and w: "sm_may_wait (hs ! i) w" "sm_settled s w = Some x"
  shows "sm_inv s (hs[i := sm_woken (hs ! i)])"
proof -
  have res: "resolved s w" using w(2) by (auto simp: sm_settled_def resolved_def split: if_splits)
  have sh: "shape (hs ! i)" using sm_invD(3) [OF inv i] .
  show ?thesis
  proof (cases "gh_wait (hs ! i)")
    case (Some v)
    with w(1) have v: "v = w" "settled_action (gh_action (hs ! i))" by (auto simp: sm_may_wait_def chain_def)
    let ?h = "(hs ! i)\<lparr>gh_held := gh_held (hs ! i) @ [w], gh_wait := None\<rparr>"
    have own: "owned ?h = owned (hs ! i)" using Some v by (simp add: owned_def chain_def)
    have "gh_action (hs ! i) \<noteq> HoldsShared" using sh Some by (auto simp: shape_def chain_def)
    then have shape: "shape ?h" using v sh own by (intro shape_settled) (simp_all add: shape_def)
    have "chain_ok (sm_locks s) (resolved s) ((map store_part hs)[i := (gh_held (hs ! i) @ [w], None)])"
      by (rule chain_woken [OF sm_invD(5) [OF inv]]) (use i Some v res in \<open>simp_all add: store_part_def\<close>)
    then have "sm_inv s (hs[i := ?h])"
      using inv i shape own sm_invD(1) [OF inv] by (intro sm_inv_store_step [OF inv i]) (simp_all add: store_part_def)
    then show ?thesis using Some v by (simp add: sm_woken_def)
  next
    case None
    with w(1) have c: "chain (hs ! i) = []" "gh_held (hs ! i) = []" and a: "gh_action (hs ! i) = WaitsExclusive w \<or> gh_action (hs ! i) = WaitsShared w"
      by (auto simp: sm_may_wait_def chain_def)
    have h: "hs ! i = free_ghost\<lparr>gh_action := gh_action (hs ! i)\<rparr>" using None c by (simp add: free_ghost_def)
    define a' where "a' = (if gh_action (hs ! i) = WaitsExclusive w then HoldsExclusive w else GotShared)"
    have "action_ok (sm_exclusive s) (sm_shared s) (sm_sharedCount s) (resolved s) ((map gh_action hs)[i := a'])"
      using action_woken_exclusive [OF sm_invD(6) [OF inv], of i w] action_woken_shared [OF sm_invD(6) [OF inv], of i w] i a res
      by (auto simp: a'_def)
    moreover have "set (action_promises a') \<subseteq> set (owned (hs ! i))" using a by (auto simp: a'_def owned_def)
    moreover have "store_part (hs ! i) = ([], None)" using None c by (simp add: store_part_def)
    ultimately have "sm_inv s (hs[i := free_ghost\<lparr>gh_action := a'\<rparr>])"
      using sm_invD(1) [OF inv] by (intro sm_inv_action_step [OF inv i]) auto
    moreover have "sm_woken (hs ! i) = free_ghost\<lparr>gh_action := a'\<rparr>" using None a c by (auto simp: sm_woken_def a'_def free_ghost_def)
    ultimately show ?thesis by simp
  qed
qed

lemma sm_inv_start: "sm_inv s hs \<Longrightarrow> sm_inv s (hs @ [free_ghost])"
  unfolding sm_inv_def map_append list.map free_simps
proof (intro conjI)
  assume inv: "sm_stores s \<noteq> [] \<and> own_apart hs \<and> (\<forall>h \<in> set hs. shape h \<and> (\<forall>w \<in> set (owned h). w < length (sm_promises s))) \<and>
     chain_ok (sm_locks s) (resolved s) (map store_part hs) \<and>
     action_ok (sm_exclusive s) (sm_shared s) (sm_sharedCount s) (resolved s) (map gh_action hs)"
  show "own_apart (hs @ [free_ghost])"
    unfolding own_apart_def
  proof (intro allI impI ballI)
    fix i j w assume "i < length (hs @ [free_ghost])" "j < length (hs @ [free_ghost])" "w \<in> set (owned ((hs @ [free_ghost]) ! i))"
      "w \<in> set (owned ((hs @ [free_ghost]) ! j))"
    then show "i = j" using inv by (cases "i = length hs"; cases "j = length hs") (auto simp: own_apart_def nth_append less_Suc_eq)
  qed
  show "chain_ok (sm_locks s) (resolved s) (map store_part hs @ [([], None)])" using inv by (simp add: chain_start)
  show "action_ok (sm_exclusive s) (sm_shared s) (sm_sharedCount s) (resolved s) (map gh_action hs @ [NoAction])" using inv by (simp add: action_start)
qed simp_all

lemma lock_step_inv: "lock_step h s h' s' \<Longrightarrow> sm_inv s hs \<Longrightarrow> i < length hs \<Longrightarrow> h = hs ! i \<Longrightarrow> sm_inv s' (hs[i := h'])"
proof (induction rule: lock_step.induct)
  case (other s t h)
  then show ?case using sm_inv_other by simp
next
  case (enqueue h s)
  then show ?case using sm_inv_enqueue by simp
next
  case (release h ws w s)
  then show ?case using sm_inv_release by simp
qed (use sm_inv_ask_exclusive sm_inv_drop_exclusive sm_inv_ask_shared sm_inv_take_shared sm_inv_drop_shared in auto)

lemma lock_steps_inv:
  assumes "lock_steps h s h' s'" "sm_inv s hs" "i < length hs" "h = hs ! i"
  shows "sm_inv s' (hs[i := h'])"
  using assms(1) unfolding lock_steps_def
proof (induction rule: rtranclp_induct2)
  case refl
  then show ?case using assms(2,4) by simp
next
  case (step h1 s1 h2 s2)
  have "sm_inv s2 ((hs[i := h1])[i := h2])" by (rule lock_step_inv) (use step assms(3) in auto)
  then show ?case by simp
qed

text \<open>Providers that become available when asked, and answer with a user.\<close>

definition answers_ok :: "'q sm_req \<Rightarrow> sm_error + 'r sm_ans \<Rightarrow> bool" where
  "answers_ok q x \<longleftrightarrow> (case q of AskAvailable i \<Rightarrow> (\<exists>a. x = Inr (IsSettings a)) | AskUser i k \<Rightarrow> (\<exists>u. x = Inr (IsUser u)) | _ \<Rightarrow> True)"

interpretation sml: ghosts sm_settled answers_ok sm_may sm_may_wait sm_woken lock_steps sm_view sm_inv free_ghost
proof
  show "sm_view (hs ! i) s" if "sm_inv s hs" "i < length hs" for s hs i using that by (simp add: sm_inv_def sm_view_def)
  show "sm_inv s' (hs[i := h'])" if "sm_inv s hs" "i < length hs" "lock_steps (hs ! i) s h' s'" for s hs i h' s'
    using that lock_steps_inv by blast
  show "sm_inv s (hs[i := sm_woken (hs ! i)])" if "sm_inv s hs" "i < length hs" "sm_may_wait (hs ! i) w" "sm_settled s w = Some x" for s hs i w x
    using that by (rule sm_inv_woken)
  show "sm_inv s (hs @ [free_ghost])" if "sm_inv s hs" for s hs using that by (rule sm_inv_start)
qed

section \<open>The programs\<close>

lemma lock_steps_refl: "lock_steps h s h s"
  by (simp add: lock_steps_def)

lemma lock_steps_one: "lock_step h s h' s' \<Longrightarrow> lock_steps h s h' s'"
  by (auto simp: lock_steps_def intro: r_into_rtranclp)

lemma lock_steps_trans: "lock_steps h s h1 s1 \<Longrightarrow> lock_steps h1 s1 h' s' \<Longrightarrow> lock_steps h s h' s'"
  unfolding lock_steps_def by (rule rtranclp_trans)

text \<open>\<open>safe H p\<close>: started with a ghost in \<open>H\<close>, the program keeps it. \<open>sure H p\<close>: it does not fail either.\<close>

definition safe :: "(ghost \<Rightarrow> bool) \<Rightarrow> ('q, 'r, 'a) smp \<Rightarrow> bool" where
  "safe H p \<longleftrightarrow> (\<forall>h s. H h \<longrightarrow> sm_view h s \<longrightarrow> sml.lk p (\<lambda>_ h' t. h' = h \<and> sm_view h t) (\<lambda>_ h' t. h' = h \<and> sm_view h t) h s)"

definition sure :: "(ghost \<Rightarrow> bool) \<Rightarrow> ('q, 'r, 'a) smp \<Rightarrow> bool" where
  "sure H p \<longleftrightarrow> (\<forall>h s. H h \<longrightarrow> sm_view h s \<longrightarrow> sml.lk p (\<lambda>_ h' t. h' = h \<and> sm_view h t) (\<lambda>_ _ _. False) h s)"

lemma sure_safe: "sure H p \<Longrightarrow> safe H p"
  unfolding sure_def safe_def by (blast intro: sml.lk_mono)

lemma safe_bind: "safe H p \<Longrightarrow> (\<And>a. safe H (f a)) \<Longrightarrow> safe H (bindP p f)"
  unfolding safe_def sml.lk_bind by (blast intro: sml.lk_mono)

lemma sure_bind: "sure H p \<Longrightarrow> (\<And>a. sure H (f a)) \<Longrightarrow> sure H (bindP p f)"
  unfolding sure_def sml.lk_bind by (blast intro: sml.lk_mono)

lemma safe_simps: "safe H (Ret a)" "safe H (Throw e)"
  by (simp_all add: safe_def)

lemma sure_Ret: "sure H (Ret a)"
  by (simp add: sure_def)

lemma lk_read [simp]: "sml.lk (readP f) Q E h s \<longleftrightarrow> (\<exists>h'. lock_steps h s h' s \<and> (sm_view h' s \<longrightarrow> Q (f s) h' s))"
  by (simp add: readP_def)

lemma lk_modify: "sml.lk (modifyP f) Q E h s \<longleftrightarrow> (\<exists>h'. lock_steps h s h' (f s) \<and> (sm_view h' (f s) \<longrightarrow> Q () h' (f s)))"
  by (simp add: modifyP_def)

lemma sure_read: "sure H (readP f)"
  unfolding sure_def using lock_steps_refl by auto

text \<open>What a read has shown holds for what follows at once.\<close>

lemma safe_read_if: "(\<And>h s. H h \<Longrightarrow> sm_view h s \<Longrightarrow> sml.lk (g (f s)) (\<lambda>_ h' t. h' = h \<and> sm_view h t) (\<lambda>_ h' t. h' = h \<and> sm_view h t) h s) \<Longrightarrow>
    safe H (bindP (readP f) g)"
  unfolding safe_def sml.lk_bind lk_read using lock_steps_refl by blast

lemma sure_read_if: "(\<And>h s. H h \<Longrightarrow> sm_view h s \<Longrightarrow> sml.lk (g (f s)) (\<lambda>_ h' t. h' = h \<and> sm_view h t) (\<lambda>_ _ _. False) h s) \<Longrightarrow>
    sure H (bindP (readP f) g)"
  unfolding sure_def sml.lk_bind lk_read using lock_steps_refl by blast

lemma sure_Do: "(\<And>s. same_locks s (f s)) \<Longrightarrow> (\<And>s. sure H (k s)) \<Longrightarrow> sure H (Do f k)"
proof -
  assume same: "\<And>s. same_locks s (f s)" and k: "\<And>s. sure H (k s)"
  have "lock_steps h s h (f s)" "sm_view h s \<Longrightarrow> sm_view h (f s)" for h s
    using same [of s] lock_steps_one [OF lock_step.other [OF same [of s]]] by (simp_all add: sm_view_def same_locks_def)
  with k show ?thesis unfolding sure_def sml.lk.simps by blast
qed

lemma sure_modify: "(\<And>s. same_locks s (f s)) \<Longrightarrow> sure H (modifyP f)"
  unfolding modifyP_def by (intro sure_Do sure_Ret)

lemma safe_await: "(\<And>h. H h \<Longrightarrow> sm_may h q) \<Longrightarrow> safe H (awaitP q get bad)"
  by (auto simp: safe_def awaitP_def split: sum.split option.split)

lemma sure_available: "(\<And>h. H h \<Longrightarrow> idle h) \<Longrightarrow> sure H (awaitP (AskAvailable i) getSettingsAnswer bad)"
  by (auto simp: sure_def awaitP_def answers_ok_def sm_may_def getSettingsAnswer_def split: sum.split option.split)

lemma sure_user: "(\<And>h. H h \<Longrightarrow> idle h) \<Longrightarrow> sure H (awaitP (AskUser i k) getUserAnswer bad)"
  by (auto simp: sure_def awaitP_def answers_ok_def sm_may_def getUserAnswer_def split: sum.split option.split)

lemma sure_when: "(b \<Longrightarrow> sure H p) \<Longrightarrow> sure H (whenP b p)"
  by (simp add: whenP_def sure_Ret)

lemma safe_when: "(b \<Longrightarrow> safe H p) \<Longrightarrow> safe H (whenP b p)"
  by (simp add: whenP_def safe_simps)

lemma safe_if: "(b \<Longrightarrow> safe H p) \<Longrightarrow> (\<not> b \<Longrightarrow> safe H q) \<Longrightarrow> safe H (if b then p else q)"
  by simp

lemma safe_option: "safe H p \<Longrightarrow> (\<And>x. safe H (f x)) \<Longrightarrow> safe H (case v of None \<Rightarrow> p | Some x \<Rightarrow> f x)"
  by (simp split: option.split)

lemma safe_sum: "(\<And>e. safe H (f e)) \<Longrightarrow> (\<And>x. safe H (g x)) \<Longrightarrow> safe H (case v of Inl e \<Rightarrow> f e | Inr x \<Rightarrow> g x)"
  by (simp split: sum.split)

lemma safe_prod: "(\<And>x y. safe H (f x y)) \<Longrightarrow> safe H (case v of (x, y) \<Rightarrow> f x y)"
  by (simp split: prod.split)

lemma safe_list: "safe H p \<Longrightarrow> (\<And>x xs. safe H (f x xs)) \<Longrightarrow> safe H (case v of [] \<Rightarrow> p | x # xs \<Rightarrow> f x xs)"
  by (simp split: list.split)

lemma safe_each: "(\<And>x. safe H (f x)) \<Longrightarrow> safe H (eachP f xs)"
  by (induction xs) (simp_all add: safe_simps safe_bind)

lemmas safe_read = sure_safe [OF sure_read]
lemmas safe_modify = sure_safe [OF sure_modify]
lemmas safe_rules = safe_bind safe_simps safe_read safe_when safe_if safe_option safe_sum safe_prod safe_list safe_each

lemma same_locks_simps [simp]: "same_locks s s" "same_locks s (upd_store i f s)"
  "same_locks s (fst (selectActiveFromStore i bs s))" "same_locks s (partition_backups bs s)" "same_locks s (become_available s)"
  by (auto simp: same_locks_def upd_store_def selectActiveFromStore_def partition_backups_def become_available_def Let_def split: option.split)

lemma sure_ensure: "(\<And>h. H h \<Longrightarrow> idle h) \<Longrightarrow> sure H (ensureStoreAvailable i)"
  unfolding ensureStoreAvailable_def
  by (intro sure_bind sure_read) (simp add: sure_Ret sure_bind sure_available sure_user sure_modify sure_read)

lemma sure_if: "(b \<Longrightarrow> sure H p) \<Longrightarrow> (\<not> b \<Longrightarrow> sure H q) \<Longrightarrow> sure H (if b then p else q)"
  by simp

lemma sure_available_loop:
  assumes "\<And>h. H h \<Longrightarrow> idle h"
  shows "sure H (available_loop n i bs)"
proof (induction n arbitrary: i bs)
  case (Suc n)
  show ?case unfolding available_loop.simps
    by (intro sure_bind sure_read sure_if sure_Ret sure_Do Suc.IH sure_ensure assms) simp_all
qed (simp add: sure_Ret)

lemma sure_makeAvailable:
  assumes "\<And>h. H h \<Longrightarrow> idle h"
  shows "sure H makeAvailable"
proof -
  have same: "same_locks s (become_available (partition_backups bs s))" for bs s
    using same_locks_simps(4) [of s bs] same_locks_simps(5) [of "partition_backups bs s"] by (simp add: same_locks_def)
  have stores: "sure H (bindP (readP (\<lambda>s. sm_stores s = [])) (\<lambda>none. if none then Throw NoStores else p))" if "sure H p" for p :: "('q, 'r, unit) smp"
    by (rule sure_read_if) (use that in \<open>auto simp: sm_view_def sure_def\<close>)
  show ?thesis unfolding makeAvailable_def
    by (intro sure_bind sure_read sure_if sure_Ret sure_modify stores sure_available_loop assms same) (simp_all add: same_locks_def)
qed

lemma safe_getAuth: "(\<And>h. H h \<Longrightarrow> idle h) \<Longrightarrow> safe H (getAuth b)"
  unfolding getAuth_def by (intro safe_rules sure_safe [OF sure_makeAvailable]) simp_all

lemma safe_getActive: "safe H getActive"
  unfolding getActive_def by (intro safe_rules)

section \<open>Taking and giving back the locks\<close>

definition may_lock :: "ghost \<Rightarrow> bool" where
  "may_lock h \<longleftrightarrow> idle h \<and> gh_action h \<noteq> HoldsShared"

lemma lk_sure: "sure H p \<Longrightarrow> H h \<Longrightarrow> sm_view h s \<Longrightarrow> (\<And>a t. sm_view h t \<Longrightarrow> Q a h t) \<Longrightarrow> sml.lk p Q E h s"
  unfolding sure_def by (blast intro: sml.lk_mono)

lemma lk_safe: "safe H p \<Longrightarrow> H h \<Longrightarrow> sm_view h s \<Longrightarrow> (\<And>a t. sm_view h t \<Longrightarrow> Q a h t) \<Longrightarrow> (\<And>e t. sm_view h t \<Longrightarrow> E e h t) \<Longrightarrow> sml.lk p Q E h s"
  unfolding safe_def by (blast intro: sml.lk_mono)

lemma view_simps [simp]: "sm_view (h\<lparr>gh_held := ws\<rparr>) s = sm_view h s" "sm_view (h\<lparr>gh_wait := w\<rparr>) s = sm_view h s"
  "sm_view (h\<lparr>gh_action := a\<rparr>) s = sm_view h s" "sm_view h (releaseActiveFor role s) = sm_view h s"
  "sm_view h (enqueue_lock k s) = sm_view h s" "sm_view h (enqueue_exclusive s) = sm_view h s" "sm_view h (enqueue_shared s) = sm_view h s"
  "sm_view h (count_shared s) = sm_view h s" "sm_view h (releaseActionWriterSharedLock s) = sm_view h s"
  "sm_view h (releaseActionWriterExclusiveLock s) = sm_view h s"
proof -
  have "sm_stores (fold releaseActiveLock ks s) = sm_stores s" for ks by (induction ks arbitrary: s) (simp_all add: release_fields)
  then show "sm_view h (releaseActiveFor role s) = sm_view h s" by (simp add: sm_view_def releaseActiveFor_def)
qed (simp_all add: sm_view_def enqueue_lock_fields enqueue_exclusive_def enqueue_shared_def count_shared_def releaseActionWriterSharedLock_def
  releaseActionWriterExclusiveLock_def Let_def)

lemma lk_waitDone:
  assumes "sm_may_wait h w" "\<And>t. sm_view (sm_woken h) t \<Longrightarrow> Q () (sm_woken h) t"
  shows "sml.lk (waitDone w) Q E h s"
  using assms by (auto simp: waitDone_def waitP_def sm_settled_def split: if_splits)

lemma lk_getActiveLock:
  assumes h: "may_lock h" "length (gh_held h) < 4" and s: "sm_view h s"
    and Q: "\<And>w t. sm_view h t \<Longrightarrow> Q () (h\<lparr>gh_held := gh_held h @ [w]\<rparr>) t"
  shows "sml.lk (getActiveLock (lock_number (length (gh_held h))) :: ('q, 'r, unit) smp) Q E h s"
proof -
  have take: "sml.lk (Do (enqueue_lock (lock_number (length (gh_held h)))) (\<lambda>s. waitDone (length (sm_promises s))) :: ('q, 'r, unit) smp) Q E h t" if "sm_view h t" for t
  proof -
    let ?w = "length (sm_promises t)"
    let ?h = "h\<lparr>gh_wait := Some ?w\<rparr>"
    have "lock_steps h t ?h (enqueue_lock (lock_number (length (gh_held h))) t)"
      using h by (intro lock_steps_one lock_step.enqueue) (simp_all add: may_lock_def)
    moreover have "sm_woken ?h = h\<lparr>gh_held := gh_held h @ [?w]\<rparr>" using h(1) by (cases h) (simp add: sm_woken_def may_lock_def idle_def)
    then have "sml.lk (waitDone ?w :: ('q, 'r, unit) smp) Q E ?h u" for u
      using h(1) Q by (intro lk_waitDone) (simp_all add: sm_may_wait_def may_lock_def idle_def)
    ultimately show ?thesis by (auto intro!: exI [of _ ?h])
  qed
  have m: "sml.lk (whenP (\<not> av) makeAvailable :: ('q, 'r, unit) smp) (\<lambda>_. sml.lk (Do (enqueue_lock (lock_number (length (gh_held h))))
      (\<lambda>s. waitDone (length (sm_promises s))) :: ('q, 'r, unit) smp) Q E) E h s" for av
  proof (rule lk_sure)
    show "sure may_lock (whenP (\<not> av) makeAvailable)" by (intro sure_when sure_makeAvailable) (simp add: may_lock_def)
  qed (use h s take in simp_all)
  show ?thesis unfolding getActiveLock_def sml.lk_bind lk_read using m lock_steps_refl by blast
qed

lemma lk_each_lock:
  assumes "may_lock h" "length (gh_held h) + k \<le> 4" "sm_view h s"
  shows "sml.lk (eachP getActiveLock (map lock_number [length (gh_held h)..<length (gh_held h) + k]) :: ('q, 'r, unit) smp)
    (\<lambda>_ h' t. (\<exists>ws. length ws = length (gh_held h) + k \<and> h' = h\<lparr>gh_held := ws\<rparr>) \<and> sm_view h t) (\<lambda>_ _ _. False) h s"
  using assms
proof (induction k arbitrary: h s)
  case 0
  then show ?case by (auto intro: exI [of _ "gh_held h"])
next
  case (Suc k)
  let ?n = "length (gh_held h)"
  have u: "[?n..<?n + Suc k] = ?n # [Suc ?n..<Suc ?n + k]" by (simp add: upt_conv_Cons)
  show ?case unfolding u list.map eachP.simps sml.lk_bind
  proof (rule lk_getActiveLock [OF Suc.prems(1) _ Suc.prems(3)])
    fix w t assume t: "sm_view h t"
    let ?h = "h\<lparr>gh_held := gh_held h @ [w]\<rparr>"
    have "may_lock ?h" "length (gh_held ?h) = Suc ?n" using Suc.prems(1) by (simp_all add: may_lock_def idle_def)
    from Suc.IH [OF this(1), of t] this(2) Suc.prems(2) t
    show "sml.lk (eachP getActiveLock (map lock_number [Suc ?n..<Suc ?n + k]) :: ('q, 'r, unit) smp)
      (\<lambda>_ h' t. (\<exists>ws. length ws = ?n + Suc k \<and> h' = h\<lparr>gh_held := ws\<rparr>) \<and> sm_view h t) (\<lambda>_ _ _. False) ?h t"
      by (auto elim!: sml.lk_mono)
  qed (use Suc.prems in simp)
qed

lemma locks_of_numbers: "locks_of role = map lock_number [0..<length (locks_of role)]" "length (locks_of role) \<le> 4"
  by (cases role; simp add: locks_of_def lock_number_def upt_rec)+

lemma lk_getActiveFor:
  assumes "may_lock h" "gh_held h = []" "sm_view h s"
  shows "sml.lk (getActiveFor role) (\<lambda>_ h' t. (\<exists>ws. length ws = length (locks_of role) \<and> h' = h\<lparr>gh_held := ws\<rparr>) \<and> sm_view h t)
    (\<lambda>_ h' t. (\<exists>ws. length ws = length (locks_of role) \<and> h' = h\<lparr>gh_held := ws\<rparr>) \<and> sm_view h t) h s"
proof -
  let ?Q = "\<lambda>h' t. (\<exists>ws. length ws = length (locks_of role) \<and> h' = h\<lparr>gh_held := ws\<rparr>) \<and> sm_view h t"
  have locks: "sml.lk (eachP getActiveLock (locks_of role)) (\<lambda>_. ?Q) (\<lambda>_ _ _. False) h s"
    using lk_each_lock [OF assms(1), of "length (locks_of role)" s] assms(2,3) locks_of_numbers(2) [of role]
    by (subst locks_of_numbers(1)) simp
  have rest: "safe (\<lambda>_. True) (bindP getActive (\<lambda>a.
     if role = AsStorageProvider
     then bindP (readP (\<lambda>s. mg_isStorageProvider (sm_stores s ! a))) (\<lambda>sp. if sp then Ret a else Throw InvalidOperation)
     else Ret a))"
    by (intro safe_rules safe_getActive)
  show ?thesis unfolding getActiveFor_def sml.lk_bind [of "eachP getActiveLock (locks_of role)"]
    by (rule sml.lk_mono [OF locks]) (auto intro!: lk_safe [OF rest])
qed

lemma release_steps:
  assumes "idle h" "length ws \<le> 4"
  shows "lock_steps (h\<lparr>gh_held := ws\<rparr>) s (h\<lparr>gh_held := []\<rparr>) (fold releaseActiveLock (rev (map lock_number [0..<length ws])) s)"
  using assms(2)
proof (induction ws arbitrary: s rule: rev_induct)
  case Nil
  then show ?case by (simp add: lock_steps_refl)
next
  case (snoc w ws)
  have "lock_step (h\<lparr>gh_held := ws @ [w]\<rparr>) s ((h\<lparr>gh_held := ws @ [w]\<rparr>)\<lparr>gh_held := ws\<rparr>) (releaseActiveLock (lock_number (length ws)) s)"
    using assms(1) snoc.prems by (intro lock_step.release) (simp_all add: idle_def)
  then have "lock_steps (h\<lparr>gh_held := ws @ [w]\<rparr>) s (h\<lparr>gh_held := ws\<rparr>) (releaseActiveLock (lock_number (length ws)) s)"
    by (intro lock_steps_one) simp
  from lock_steps_trans [OF this snoc.IH] snoc.prems show ?case by simp
qed

lemma releaseActiveFor_steps:
  assumes "idle h" "length ws = length (locks_of role)"
  shows "lock_steps (h\<lparr>gh_held := ws\<rparr>) s (h\<lparr>gh_held := []\<rparr>) (releaseActiveFor role s)"
  using release_steps [OF assms(1), of ws s] assms(2) locks_of_numbers [of role] by (simp add: releaseActiveFor_def)

text \<open>The ghost of a call while its function runs.\<close>

definition within :: "run_kind \<Rightarrow> ghost \<Rightarrow> bool" where
  "within role h \<longleftrightarrow> idle h \<and> length (gh_held h) = length (locks_of role) \<and>
     (case role of AsWriter \<Rightarrow> \<exists>w. gh_action h = HoldsExclusive w | AsConcurrentWriter \<Rightarrow> gh_action h = HoldsShared | _ \<Rightarrow> gh_action h = NoAction)"

abbreviation unlocked :: "ghost \<Rightarrow> bool" where
  "unlocked h \<equiv> h = free_ghost"

lemma unlocked_idle: "unlocked h \<Longrightarrow> idle h"
  by (simp add: idle_def)

lemma within_idle: "within role h \<Longrightarrow> idle h"
  by (simp add: within_def)

lemma within_may: "within role h \<Longrightarrow> sm_may h (Under role a p)"
  by (cases role) (auto simp: within_def sm_may_def)

text \<open>The accesses under the store locks, from a ghost that holds none of them.\<close>

lemma lk_locked:
  assumes f: "\<And>a. safe (within role) (f a)" and h: "may_lock h" "gh_held h = []" "sm_view h s"
    and w: "\<And>ws. length ws = length (locks_of role) \<Longrightarrow> within role (h\<lparr>gh_held := ws\<rparr>)"
    and Q: "\<And>r t. sm_view h t \<Longrightarrow> sml.lk c (\<lambda>_. Q r) E h t" and E: "\<And>e t. sm_view h t \<Longrightarrow> sml.lk c (\<lambda>_. E e) E h t"
  shows "sml.lk (finallyP (bindP (getActiveFor role) f) (bindP (modifyP (releaseActiveFor role)) (\<lambda>_. c))) Q E h s"
proof (rule sml.lk_finally)
  let ?c = "bindP (modifyP (releaseActiveFor role)) (\<lambda>_. c)"
  let ?in = "\<lambda>h' t. (\<exists>ws. length ws = length (locks_of role) \<and> h' = h\<lparr>gh_held := ws\<rparr>) \<and> sm_view h t"
  have out: "sml.lk ?c T E h' t" if "?in h' t" "\<And>t. sm_view h t \<Longrightarrow> sml.lk c T E h t" for h' t T
  proof -
    have "idle h" using h(1) by (simp add: may_lock_def)
    with that(1) obtain ws where ws: "length ws = length (locks_of role)" "h' = h\<lparr>gh_held := ws\<rparr>" by blast
    have "lock_steps h' t h (releaseActiveFor role t)"
      using releaseActiveFor_steps [OF \<open>idle h\<close> ws(1), of t] h(2) by (cases h) (simp add: ws(2))
    with that show ?thesis
      unfolding sml.lk_bind modifyP_def by (auto intro!: exI [of _ h])
  qed
  show "sml.lk (bindP (getActiveFor role) f) (\<lambda>a. sml.lk ?c (\<lambda>_. Q a) E) (\<lambda>e. sml.lk ?c (\<lambda>_. E e) E) h s"
    unfolding sml.lk_bind [of "getActiveFor role"]
  proof (rule sml.lk_mono [OF lk_getActiveFor [OF h]])
    fix a h' t assume i: "?in h' t"
    then have wi: "within role h'" and v: "sm_view h' t" using w by auto
    have "sml.lk (f a) (\<lambda>_ h'' u. h'' = h' \<and> sm_view h' u) (\<lambda>_ h'' u. h'' = h' \<and> sm_view h' u) h' t"
      using f [of a] wi v unfolding safe_def by simp
    then show "sml.lk (f a) (\<lambda>a. sml.lk ?c (\<lambda>_. Q a) E) (\<lambda>e. sml.lk ?c (\<lambda>_. E e) E) h' t"
    proof (rule sml.lk_mono)
      fix b h'' u assume "h'' = h' \<and> sm_view h' u"
      then have "?in h'' u" using i by auto
      then show "sml.lk ?c (\<lambda>_. Q b) E h'' u" by (rule out) (rule Q)
    next
      fix e h'' u assume "h'' = h' \<and> sm_view h' u"
      then have "?in h'' u" using i by auto
      then show "sml.lk ?c (\<lambda>_. E e) E h'' u" by (rule out) (rule E)
    qed
  next
    fix e h' t assume "?in h' t"
    then show "sml.lk ?c (\<lambda>_. E e) E h' t" using out E by blast
  qed
qed

lemma safe_runAs:
  assumes "\<And>a. safe (within role) (f a)" "role \<in> {AsReader, AsSync, AsStorageProvider}"
  shows "safe unlocked (runAs role f)"
  unfolding safe_def
proof (intro allI impI)
  fix h s assume h: "unlocked h" "sm_view h s"
  have "sml.lk (finallyP (bindP (getActiveFor role) f) (bindP (modifyP (releaseActiveFor role)) (\<lambda>_. Ret ())))
      (\<lambda>_ h' t. h' = h \<and> sm_view h t) (\<lambda>_ h' t. h' = h \<and> sm_view h t) h s"
    by (rule lk_locked [OF assms(1)]) (use h assms(2) in \<open>auto simp: may_lock_def idle_def within_def\<close>)
  then show "sml.lk (runAs role f) (\<lambda>_ h' t. h' = h \<and> sm_view h t) (\<lambda>_ h' t. h' = h \<and> sm_view h t) h s"
    by (simp add: runAs_def bindP_Ret)
qed

lemma safe_runAsWriter:
  fixes f :: "nat \<Rightarrow> ('q, 'r, 'a) smp"
  assumes "\<And>a. safe (within AsWriter) (f a)"
  shows "safe unlocked (runAsWriter f)"
  unfolding safe_def
proof (intro allI impI)
  fix h s assume h: "unlocked h" "sm_view h s"
  let ?Q = "\<lambda>h' t. h' = h \<and> sm_view h t" and ?c = "modifyP releaseActionWriterExclusiveLock :: ('q, 'r, unit) smp"
  let ?p = "finallyP (bindP (getActiveFor AsWriter) f) (bindP (modifyP (releaseActiveFor AsWriter)) (\<lambda>_. ?c))"
  have run: "sml.lk ?p (\<lambda>_. ?Q) (\<lambda>_. ?Q) (free_ghost\<lparr>gh_action := HoldsExclusive w\<rparr>) t" if "sm_view h t" for w t
  proof (rule lk_locked [OF assms])
    have "lock_steps (free_ghost\<lparr>gh_action := HoldsExclusive w\<rparr>) u free_ghost (releaseActionWriterExclusiveLock u)" for u
      by (intro lock_steps_one lock_step.drop_exclusive) simp
    then have c: "sml.lk ?c (\<lambda>_. ?Q) (\<lambda>_. ?Q) (free_ghost\<lparr>gh_action := HoldsExclusive w\<rparr>) u" if "sm_view (free_ghost\<lparr>gh_action := HoldsExclusive w\<rparr>) u" for u
      using that h by (auto simp: modifyP_def)
    then show "sml.lk ?c (\<lambda>_. ?Q) (\<lambda>_. ?Q) (free_ghost\<lparr>gh_action := HoldsExclusive w\<rparr>) u" if "sm_view (free_ghost\<lparr>gh_action := HoldsExclusive w\<rparr>) u" for u
      using that by blast
    then show "sml.lk ?c (\<lambda>_. ?Q) (\<lambda>_. ?Q) (free_ghost\<lparr>gh_action := HoldsExclusive w\<rparr>) u" if "sm_view (free_ghost\<lparr>gh_action := HoldsExclusive w\<rparr>) u" for u
      using c that by blast
  qed (use that h in \<open>simp_all add: may_lock_def idle_def within_def\<close>)
  let ?w = "length (sm_promises s)"
  let ?h = "free_ghost\<lparr>gh_action := WaitsExclusive ?w\<rparr>"
  have "lock_steps h s ?h (enqueue_exclusive s)" using h by (intro lock_steps_one) (auto intro: lock_step.ask_exclusive)
  moreover have "sm_woken ?h = free_ghost\<lparr>gh_action := HoldsExclusive ?w\<rparr>" by (simp add: sm_woken_def free_ghost_def)
  then have "sml.lk (waitDone ?w :: ('q, 'r, unit) smp) (\<lambda>_. sml.lk ?p (\<lambda>_. ?Q) (\<lambda>_. ?Q)) (\<lambda>_. ?Q) ?h t" for t
    using run h by (intro lk_waitDone) (simp_all add: sm_may_wait_def chain_def)
  ultimately show "sml.lk (runAsWriter f) (\<lambda>_. ?Q) (\<lambda>_. ?Q) h s"
    unfolding runAsWriter_def getActionWriterExclusiveLock_def sml.lk_bind by (auto intro!: exI [of _ ?h])
qed

lemma safe_runAsActionWriter:
  fixes f :: "nat \<Rightarrow> run_kind \<Rightarrow> ('q, 'r, 'a) smp"
  assumes "\<And>a. safe (within AsWriter) (f a AsWriter)" and f: "\<And>a. safe (within AsConcurrentWriter) (f a AsConcurrentWriter)"
  shows "safe unlocked (runAsActionWriter f)"
  unfolding runAsActionWriter_def
proof (rule safe_bind [OF safe_read], rule safe_option, rule safe_runAsWriter [OF assms(1)])
  let ?sh = "free_ghost\<lparr>gh_action := HoldsShared\<rparr>" and ?c = "modifyP releaseActionWriterSharedLock :: ('q, 'r, unit) smp"
  let ?Q = "\<lambda>h' t. h' = free_ghost \<and> sm_view free_ghost t"
  let ?rest = "bindP (readP getConcurrentActionWriter) (\<lambda>c. case c of
        None \<Rightarrow> bindP (modifyP releaseActionWriterSharedLock) (\<lambda>_. runAsWriter (\<lambda>a. f a AsWriter))
      | Some a \<Rightarrow> finallyP (f a AsConcurrentWriter) (modifyP releaseActionWriterSharedLock))"
  have drop: "lock_steps ?sh t free_ghost (releaseActionWriterSharedLock t)" for t by (intro lock_steps_one lock_step.drop_shared) simp
  have gives: "sml.lk ?c (\<lambda>_. T) E ?sh t" if "sm_view free_ghost t" "\<And>u. sm_view free_ghost u \<Longrightarrow> T free_ghost u" for T E t
    using drop [of t] that(1) that(2) [of "releaseActionWriterSharedLock t"] by (auto simp: modifyP_def intro!: exI [of _ free_ghost])
  have w: "sml.lk (runAsWriter (\<lambda>a. f a AsWriter)) (\<lambda>_. ?Q) (\<lambda>_. ?Q) free_ghost t" if "sm_view free_ghost t" for t
    by (rule lk_safe [OF safe_runAsWriter [of "\<lambda>a. f a AsWriter", OF assms(1)]]) (use that in simp_all)
  have sh: "within AsConcurrentWriter ?sh" by (simp add: within_def idle_def locks_of_def)
  have c: "sml.lk (finallyP (f a AsConcurrentWriter) ?c) (\<lambda>_. ?Q) (\<lambda>_. ?Q) ?sh t" if "sm_view free_ghost t" for a t
  proof (rule sml.lk_finally)
    have "sml.lk (f a AsConcurrentWriter) (\<lambda>_ h u. h = ?sh \<and> sm_view ?sh u) (\<lambda>_ h u. h = ?sh \<and> sm_view ?sh u) ?sh t"
      by (rule f [unfolded safe_def, rule_format, OF sh]) (use that in simp)
    then show "sml.lk (f a AsConcurrentWriter) (\<lambda>_. sml.lk ?c (\<lambda>_. ?Q) (\<lambda>_. ?Q)) (\<lambda>_. sml.lk ?c (\<lambda>_. ?Q) (\<lambda>_. ?Q)) ?sh t"
      by (rule sml.lk_mono) (auto intro!: gives)
  qed
  have rest: "sml.lk ?rest (\<lambda>_. ?Q) (\<lambda>_. ?Q) ?sh t" if "sm_view free_ghost t" for t
  proof -
    have "sml.lk (case x of None \<Rightarrow> bindP (modifyP releaseActionWriterSharedLock) (\<lambda>_. runAsWriter (\<lambda>a. f a AsWriter))
      | Some a \<Rightarrow> finallyP (f a AsConcurrentWriter) (modifyP releaseActionWriterSharedLock)) (\<lambda>_. ?Q) (\<lambda>_. ?Q) ?sh t" for x
    proof (cases x)
      case None
      then show ?thesis unfolding None option.case sml.lk_bind by (intro gives that w)
    next
      case (Some a)
      then show ?thesis using c [OF that] by simp
    qed
    then show ?thesis unfolding sml.lk_bind [of "readP getConcurrentActionWriter"] lk_read using lock_steps_refl by blast
  qed
  show "safe unlocked (bindP getActionWriterSharedLock (\<lambda>_. ?rest))"
    unfolding safe_def
  proof (intro allI impI)
    fix h s assume h: "unlocked h" "sm_view h s"
    have take: "lock_steps g t ?sh (count_shared t)" if "g = free_ghost \<or> g = free_ghost\<lparr>gh_action := GotShared\<rparr>" for g t
      by (intro lock_steps_one lock_step.take_shared that)
    have count: "sml.lk (modifyP count_shared :: ('q, 'r, unit) smp) (\<lambda>_. sml.lk ?rest (\<lambda>_. ?Q) (\<lambda>_. ?Q)) (\<lambda>_. ?Q) g t"
      if "g = free_ghost \<or> g = free_ghost\<lparr>gh_action := GotShared\<rparr>" "sm_view free_ghost t" for g t
      unfolding lk_modify using take [OF that(1)] rest [of "count_shared t"] that(2) by (intro exI [of _ ?sh]) simp
    let ?w = "length (sm_promises s)"
    let ?h = "free_ghost\<lparr>gh_action := WaitsShared ?w\<rparr>"
    have woken: "sm_woken ?h = free_ghost\<lparr>gh_action := GotShared\<rparr>" by (simp add: sm_woken_def)
    have wait: "sml.lk (bindP (waitDone ?w) (\<lambda>_. modifyP count_shared) :: ('q, 'r, unit) smp) (\<lambda>_. sml.lk ?rest (\<lambda>_. ?Q) (\<lambda>_. ?Q)) (\<lambda>_. ?Q) ?h t" for t
      unfolding sml.lk_bind [of "waitDone ?w"]
    proof (rule lk_waitDone)
      show "sm_may_wait ?h ?w" by (simp add: sm_may_wait_def chain_def)
      show "sml.lk (modifyP count_shared :: ('q, 'r, unit) smp) (\<lambda>_. sml.lk ?rest (\<lambda>_. ?Q) (\<lambda>_. ?Q)) (\<lambda>_. ?Q) (sm_woken ?h) u" if "sm_view (sm_woken ?h) u" for u
        unfolding woken by (rule count) (use that woken in simp_all)
    qed
    have "sml.lk (if sm_exclusive s = [] then modifyP count_shared
        else Do enqueue_shared (\<lambda>s. bindP (waitDone (length (sm_promises s))) (\<lambda>_. modifyP count_shared)) :: ('q, 'r, unit) smp)
        (\<lambda>_. sml.lk ?rest (\<lambda>_. ?Q) (\<lambda>_. ?Q)) (\<lambda>_. ?Q) h s"
    proof (cases "sm_exclusive s = []")
      case True
      show ?thesis unfolding if_P [OF True] by (rule count) (use h in simp_all)
    next
      case False
      have "lock_steps h s ?h (enqueue_shared s)" using h False by (intro lock_steps_one) (auto intro: lock_step.ask_shared)
      with wait show ?thesis unfolding if_not_P [OF False] sml.lk.simps by (intro exI [of _ ?h]) blast
    qed
    then have "sml.lk (bindP getActionWriterSharedLock (\<lambda>_. ?rest)) (\<lambda>_. ?Q) (\<lambda>_. ?Q) h s"
      unfolding sml.lk_bind [of getActionWriterSharedLock]
      unfolding getActionWriterSharedLock_def
      unfolding sml.lk_bind [of "readP (\<lambda>s. sm_exclusive s = [])"] lk_read using lock_steps_refl by blast
    with h show "sml.lk (bindP getActionWriterSharedLock (\<lambda>_. ?rest)) (\<lambda>_ h' t. h' = h \<and> sm_view h t) (\<lambda>_ h' t. h' = h \<and> sm_view h t) h s" by simp
  qed
qed

section \<open>All the operations\<close>

lemma safe_mono: "safe H p \<Longrightarrow> (\<And>h. H' h \<Longrightarrow> H h) \<Longrightarrow> safe H' p"
  by (simp add: safe_def)

lemma idle_may: "idle h \<Longrightarrow> sm_may h (AskAvailable i)" "idle h \<Longrightarrow> sm_may h AskNewAvailable" "idle h \<Longrightarrow> sm_may h (AskUser i k)"
  "idle h \<Longrightarrow> sm_may h AskChainTracker" "idle h \<Longrightarrow> sm_may h (AskMerklePath t)" "idle h \<Longrightarrow> sm_may h (AskRoot t n)"
  by (simp_all add: sm_may_def)

lemmas may_rules = within_may idle_may [OF within_idle] idle_may [OF unlocked_idle]

lemma safe_writer_op: "safe (within role) (writer_op role q a)"
  unfolding writer_op_def with_auth_def by (intro safe_rules safe_getAuth safe_await within_may within_idle)

lemma safe_client: "safe (within role) (with_auth role q a)" "safe (within role) (without_auth role q a)"
  unfolding with_auth_def without_auth_def by (intro safe_rules safe_await within_may; assumption)+

lemma safe_call: "safe unlocked (sm_call V op q)"
proof -
  have w: "safe unlocked (runAsWriter (writer_op AsWriter x))" for x by (intro safe_runAsWriter safe_writer_op)
  have a: "safe unlocked (runAsActionWriter (\<lambda>a role. writer_op role x a))" for x by (intro safe_runAsActionWriter safe_writer_op)
  have r: "safe unlocked (bindP (getAuth False) (\<lambda>_. runAs AsReader (with_auth AsReader x)))" for x
    by (intro safe_bind safe_getAuth unlocked_idle safe_runAs safe_client) simp_all
  have n: "safe unlocked (runAs AsReader (without_auth AsReader x))" "safe unlocked (runAsWriter (without_auth AsWriter x))" for x
    by (intro safe_runAs safe_client, simp, intro safe_runAsWriter safe_client)
  show ?thesis unfolding sm_call_def by (cases op) (auto intro!: w a r n safe_simps split: option.split)
qed

lemma safe_destroy_loop: "safe (within AsWriter) (destroy_loop n i)"
proof (induction n arbitrary: i)
  case (Suc n)
  show ?case unfolding destroy_loop.simps by (intro safe_rules safe_await within_may Suc.IH)
qed (simp add: safe_simps)

lemma safe_destroy: "safe unlocked sm_destroy"
  unfolding sm_destroy_def by (intro safe_bind safe_read safe_if safe_simps safe_runAsWriter safe_destroy_loop)

lemma safe_findOrInsertUser: "safe unlocked (sm_findOrInsertUser k)"
  unfolding sm_findOrInsertUser_def
  by (intro safe_bind safe_read safe_if safe_simps safe_runAsWriter safe_getAuth unlocked_idle safe_await within_may safe_modify)
    (simp_all add: same_locks_def)

lemma safe_add: "safe unlocked (addWalletStorageProvider m)"
  unfolding addWalletStorageProvider_def
  by (intro safe_bind safe_read safe_if safe_simps safe_await idle_may unlocked_idle safe_modify sure_safe [OF sure_makeAvailable])
    (simp_all add: same_locks_def)

lemma safe_syncToWriter: "safe (within AsSync) (syncToWriter b (Some a))" "safe unlocked (syncToWriter b None)"
  unfolding syncToWriter_def runAsSync_def option.case
  by (intro safe_bind safe_await safe_runAs within_may idle_may within_idle unlocked_idle; simp)+

lemma safe_syncFromReader: "safe unlocked (syncFromReader k r None)"
  unfolding syncFromReader_def runAsSync_def option.case
  by (intro safe_bind safe_read safe_if safe_simps safe_await safe_runAs safe_getAuth within_may idle_may unlocked_idle) simp_all

lemma safe_updateBackups: "safe unlocked (updateBackups None)"
  unfolding updateBackups_def runAsSync_def option.case
  by (intro safe_bind safe_read safe_option safe_simps safe_each safe_syncToWriter safe_runAs safe_getAuth unlocked_idle) simp_all

lemma safe_propagate: "safe (within AsSync) (propagate_loop n key src i)"
proof (induction n arbitrary: i)
  case (Suc n)
  have "same_locks s (setUserActive i key s)" for s by (simp add: setUserActive_def)
  then show ?case unfolding propagate_loop.simps by (intro safe_rules safe_modify safe_syncToWriter Suc.IH)
qed (simp add: safe_simps)

lemma safe_setActive: "safe unlocked (setActive key)"
proof -
  have m: "same_locks s (mark_conflicts key s)" for s by (auto simp: mark_conflicts_def same_locks_def split: option.split)
  have "safe (within AsSync) (change_active key n)" for n
    unfolding change_active_def
    by (intro safe_rules safe_modify m safe_syncToWriter safe_await within_may safe_propagate sure_safe [OF sure_makeAvailable] within_idle)
      (simp_all add: same_locks_def)
  then show ?thesis
    unfolding setActive_def runAsSync_def option.case
    by (intro safe_bind safe_read safe_when safe_sum safe_if safe_simps safe_getAuth unlocked_idle safe_getActive safe_runAs
      sure_safe [OF sure_makeAvailable]) simp_all
qed

lemma safe_evaluate: "safe unlocked (evaluateNewMerkleLeaf c ptx mp u)"
  unfolding evaluateNewMerkleLeaf_def by (intro safe_rules safe_await idle_may unlocked_idle)

lemma safe_reproveProven: "safe unlocked (reproveProven b c ptx noUpdate)"
  unfolding reproveProven_def
  by (intro safe_bind safe_read safe_if safe_option safe_list safe_prod safe_simps safe_await safe_evaluate safe_runAs within_may idle_may unlocked_idle) simp_all

lemma safe_reprove_all: "safe unlocked (reprove_all b c ptxs r)"
proof (induction ptxs arbitrary: r)
  case (Cons ptx ptxs)
  show ?case unfolding reprove_all.simps by (intro safe_bind safe_reproveProven Cons.IH)
qed (simp add: safe_simps)

lemma safe_reproveRows: "safe unlocked (reproveRows b c which)"
  unfolding reproveRows_def
  by (intro safe_bind safe_if safe_each safe_prod safe_simps safe_reprove_all safe_runAs safe_await within_may) simp_all

text \<open>A call: one of the operations, whose result is left out.\<close>

definition voidP :: "('q, 'r, 'a) smp \<Rightarrow> ('q, 'r, unit) smp" where
  "voidP p = bindP p (\<lambda>_. Ret ())"

definition sm_starts :: "(sm_method \<Rightarrow> 'q \<Rightarrow> 'q option) \<Rightarrow> (merkle_path \<Rightarrow> mbytes) \<Rightarrow> (merkle_path \<Rightarrow> jstr \<Rightarrow> jstr option) \<Rightarrow> ('q, 'r, unit) smp \<Rightarrow> bool" where
  "sm_starts V b c p \<longleftrightarrow> p = makeAvailable \<or> p = sm_destroy \<or> p = updateBackups None \<or> p = modifyP setServices \<or> (\<exists>must. p = getAuth must) \<or>
     (\<exists>op q. p = voidP (sm_call V op q)) \<or> (\<exists>k. p = voidP (sm_findOrInsertUser k)) \<or> (\<exists>m. p = addWalletStorageProvider m) \<or>
     (\<exists>k r. p = syncFromReader k r None) \<or> (\<exists>w. p = syncToWriter w None) \<or> (\<exists>key. p = setActive key) \<or>
     (\<exists>ptx noUpdate. p = voidP (reproveProven b c ptx noUpdate)) \<or> (\<exists>which. p = voidP (reproveRows b c which))"

lemma safe_void: "safe H p \<Longrightarrow> safe H (voidP p)"
  unfolding voidP_def by (intro safe_bind safe_simps)

lemma safe_starts: "sm_starts V b c p \<Longrightarrow> safe unlocked p"
proof -
  have "safe unlocked (modifyP setServices)" by (rule safe_modify) (simp add: setServices_def same_locks_def)
  moreover have "safe unlocked makeAvailable" by (intro sure_safe sure_makeAvailable unlocked_idle)
  ultimately show "sm_starts V b c p \<Longrightarrow> safe unlocked p"
    unfolding sm_starts_def by (elim disjE exE)
      (simp_all add: safe_destroy safe_updateBackups safe_getAuth unlocked_idle safe_void safe_call safe_findOrInsertUser safe_add safe_syncFromReader
        safe_syncToWriter safe_setActive safe_reproveProven safe_reproveRows)
qed

abbreviation sm_runs :: "(sm_method \<Rightarrow> 'q \<Rightarrow> 'q option) \<Rightarrow> (merkle_path \<Rightarrow> mbytes) \<Rightarrow> (merkle_path \<Rightarrow> jstr \<Rightarrow> jstr option) \<Rightarrow> store_manager \<Rightarrow>
    store_manager \<Rightarrow> ('q, 'r, unit) smp list \<Rightarrow> bool" where
  "sm_runs V b c s0 s ps \<equiv> (answered_step answers_ok sm_settled (sm_starts V b c))\<^sup>*\<^sup>* (s0, []) (s, ps)"

lemma sm_inv_new: "sm_stores (new_manager k a bs) \<noteq> [] \<Longrightarrow> sm_inv (new_manager k a bs) []"
  by (auto simp: sm_inv_def new_manager_def own_apart_def chain_ok_def chain_queue_def action_ok_def action_queue_def shared_holders_def
    intro!: exI [of _ "[]"])

lemma sm_reachable:
  assumes "sm_runs V b c (new_manager k a bs) s ps" "sm_stores (new_manager k a bs) \<noteq> []"
  shows "\<exists>hs. sm_inv s hs \<and> list_all2 sml.gparked ps hs"
proof (rule sml.ghost_reachable [OF assms(1)])
  show "sml.ends_free p free_ghost t" if "sm_starts V b c p" "sm_view free_ghost t" for p :: "('a, 'b, unit) smp" and t
    using safe_starts [OF that(1)] that(2) unfolding safe_def by (auto elim!: sml.lk_mono)
qed (use sm_inv_new [OF assms(2)] in simp)

end
