(* ===== verification/StoreProps.thy ===== *)
theory StoreProps
  imports StoreLocks
begin

text \<open>
  Runs of the storage manager, step by step: what its theorems apply to, and what its locks do not give. Then the operations alone: how
  \<open>makeAvailable\<close> chooses the active store and sorts the others, what \<open>setActive\<close> leaves, and when a merkle proof is replaced.
\<close>

section \<open>What the locks are for\<close>

text \<open>The access of a store that is under way.\<close>

definition access_of :: "('q, 'r, 'a) smp \<Rightarrow> run_kind option" where
  "access_of p = (case p of Await q k \<Rightarrow> (case q of Under r n x \<Rightarrow> Some r | _ \<Rightarrow> None) | _ \<Rightarrow> None)"



text \<open>A call that has ended, and one that waits for a promise that is settled.\<close>

definition ended :: "('s, 'q, 'r, 'e, 'a) prog \<Rightarrow> bool" where
  "ended p \<longleftrightarrow> (\<exists>a. p = Ret a) \<or> (\<exists>e. p = Throw e)"

definition can_go_on :: "store_manager \<Rightarrow> ('q, 'r, 'a) smp \<Rightarrow> bool" where
  "can_go_on s p \<longleftrightarrow> (\<exists>w k. p = Wait w k \<and> sm_settled s w \<noteq> None)"

text \<open>C13: When no request is under way, every call has ended, or one of them can go on: nobody waits for a lock that is not given.\<close>

theorem nobody_waits_in_vain:
  assumes "sm_runs V b c (new_manager k a bs) s ps" "sm_stores (new_manager k a bs) \<noteq> []" "\<And>q f. Await q f \<notin> set ps"
  shows "(\<forall>p \<in> set ps. ended p) \<or> (\<exists>p \<in> set ps. can_go_on s p)"
proof (rule ccontr)
  assume stuck: "\<not> ((\<forall>p \<in> set ps. ended p) \<or> (\<exists>p \<in> set ps. can_go_on s p))"
  obtain hs where inv: "sm_inv s hs" and ok: "list_all2 sml.gparked ps hs" using sm_reachable [OF assms(1,2)] by blast
  have len: "length hs = length ps" using list_all2_lengthD [OF ok] by simp
  have park: "hs ! i = free_ghost \<or> (\<exists>w. sm_may_wait (hs ! i) w \<and> \<not> resolved s w)" if "i < length hs" for i
  proof -
    have g: "sml.gparked (ps ! i) (hs ! i)" using list_all2_nthD [OF ok] that len by simp
    show ?thesis
    proof (cases "ps ! i")
      case (Await q f)
      then show ?thesis using assms(3) that len by (metis nth_mem)
    next
      case (Wait w f)
      have "\<not> can_go_on s (ps ! i)" using stuck that len by (metis nth_mem)
      then have "\<not> resolved s w" by (auto simp: Wait can_go_on_def sm_settled_def resolved_def split: if_splits)
      with g show ?thesis by (auto simp: Wait)
    qed (use g in simp_all)
  qed
  obtain ns where q: "chain_queue (sm_locks s) (resolved s) (map store_part hs) ns" using sm_invD(5) [OF inv] by (auto simp: chain_ok_def)
  obtain es where e: "action_queue (sm_exclusive s) (sm_shared s) (sm_sharedCount s) (resolved s) (map gh_action hs) es"
    using sm_invD(6) [OF inv] by (auto simp: action_ok_def)
  have no_chain: "chn (store_part (hs ! i)) = []" if "i < length hs" for i
  proof (cases ns)
    case Nil
    then show ?thesis using chain_queueD(2) [OF q, of i] that by simp
  next
    case (Cons j ms)
    then have j: "j < length hs" "chn (store_part (hs ! j)) \<noteq> []" using chain_queueD(2) [OF q, of j] by auto
    then obtain w where w: "sm_may_wait (hs ! j) w" "\<not> resolved s w" using park [of j] by auto
    then have "w \<in> set (chn (store_part (hs ! j)))" using j(2) by (auto simp: sm_may_wait_def chain_store_part store_part_def chn_def)
    then have "resolved s w" using chain_queueD(7) [OF q Cons, of w] j(1) by simp
    with w show ?thesis by simp
  qed
  have waits: "gh_action (hs ! i) = NoAction \<or> (\<exists>w. \<not> resolved s w \<and> (gh_action (hs ! i) = WaitsExclusive w \<or> gh_action (hs ! i) = WaitsShared w))"
    if "i < length hs" for i
    using park [OF that] no_chain [OF that] by (auto simp: sm_may_wait_def store_part_def chn_def)
  have "shared_holders (map gh_action hs) = 0"
  proof -
    have "filter (\<lambda>a. a = HoldsShared) (map gh_action hs) = []" using waits by (fastforce simp: filter_empty_conv in_set_conv_nth)
    then show ?thesis by (simp add: shared_holders_def)
  qed
  then have n: "sm_sharedCount s = 0" using action_okD(1) [OF sm_invD(6) [OF inv]] by simp
  have no_exclusive: "es = []"
  proof (cases es)
    case (Cons j js)
    then have j: "j < length hs" "exclusive_promise (gh_action (hs ! j)) \<noteq> None" using action_queueD(2) [OF e, of j] by auto
    then obtain w where "gh_action (hs ! j) = WaitsExclusive w" "\<not> resolved s w" using waits [OF j(1)] by auto
    then show ?thesis using action_queueD(6) [OF e Cons n, of w] j(1) by simp
  qed
  then have "sm_exclusive s = []" using action_queueD(4) [OF e] by simp
  then have no_shared: "sm_shared s = []" using action_okD(5) [OF sm_invD(6) [OF inv]] by blast
  have "hs ! i = free_ghost" if i: "i < length hs" for i
  proof (rule ccontr)
    assume "hs ! i \<noteq> free_ghost"
    then obtain w where w: "sm_may_wait (hs ! i) w" "\<not> resolved s w" using park [OF i] by blast
    then have "gh_action (hs ! i) = WaitsExclusive w \<or> gh_action (hs ! i) = WaitsShared w"
      using no_chain [OF i] by (auto simp: sm_may_wait_def store_part_def chn_def)
    then show False
      using action_queueD(2) [OF e, of i] no_exclusive action_okD(4) [OF sm_invD(6) [OF inv], of i w] no_shared w(2) i by auto
  qed
  then have "ended (ps ! i)" if "i < length ps" for i
  proof (cases "ps ! i")
    case (Await q f)
    then show ?thesis using assms(3) that by (metis nth_mem)
  qed (use list_all2_nthD [OF ok that] \<open>\<And>i. i < length hs \<Longrightarrow> hs ! i = free_ghost\<close> [of i] that len in \<open>auto simp: ended_def sm_may_wait_def\<close>)
  then have "\<forall>p \<in> set ps. ended p" by (auto simp: in_set_conv_nth)
  with stuck show False by blast
qed

section \<open>Runs\<close>


fun act_answers :: "('q \<Rightarrow> 'e + 'r \<Rightarrow> bool) \<Rightarrow> ('s, 'q, 'r, 'e, 'a) act \<Rightarrow> ('s, 'q, 'r, 'e, 'a) async_sys \<Rightarrow> bool" where
  "act_answers ans (Answer i x) sys = (case snd sys ! i of Await q k \<Rightarrow> ans q x | _ \<Rightarrow> True)"
| "act_answers ans _ sys = True"

fun run_answered :: "('q \<Rightarrow> 'e + 'r \<Rightarrow> bool) \<Rightarrow> ('s \<Rightarrow> nat \<Rightarrow> ('e + bool) option) \<Rightarrow> ('s, 'q, 'r, 'e, 'a) act list \<Rightarrow> ('s, 'q, 'r, 'e, 'a) async_sys \<Rightarrow>
    ('s, 'q, 'r, 'e, 'a) async_sys option" where
  "run_answered ans settled [] sys = Some sys"
| "run_answered ans settled (a # as) sys = (if \<not> act_answers ans a sys then None
     else case act_step settled a sys of None \<Rightarrow> None | Some sys' \<Rightarrow> run_answered ans settled as sys')"

lemma act_step_answered:
  assumes "act_step settled a sys = Some sys'" "act_ok starts a" "act_answers ans a sys"
  shows "answered_step ans settled starts sys sys'"
proof -
  obtain s ps where sys: "sys = (s, ps)" by (cases sys)
  obtain s' ps' where sys': "sys' = (s', ps')" by (cases sys')
  show ?thesis
  proof (cases a)
    case (Start p)
    with assms show ?thesis by (auto simp: sys sys' split: prod.splits intro: answered_step.start)
  next
    case (Answer i x)
    with assms(1,3) obtain q k where "i < length ps" "ps ! i = Await q k" "ans q x" "sys' = resume i (k x) sys"
      by (auto simp: sys split: if_splits prog.splits)
    then show ?thesis
      by (cases "advance (k x) s") (auto simp: sys resume_def intro: answered_step.answer)
  next
    case (Wake i)
    with assms(1) obtain w k x where "i < length ps" "ps ! i = Wait w k" "settled s w = Some x" "sys' = resume i (k x) sys"
      by (auto simp: sys split: if_splits prog.splits)
    then show ?thesis
      by (cases "advance (k x) s") (auto simp: sys resume_def intro: answered_step.wake)
  qed
qed

lemma run_answered_sound:
  "run_answered ans settled as sys = Some sys' \<Longrightarrow> list_all (act_ok starts) as \<Longrightarrow> (answered_step ans settled starts)\<^sup>*\<^sup>* sys sys'"
  by (induction "as" arbitrary: sys)
    (auto split: option.splits if_splits intro: converse_rtranclp_into_rtranclp act_step_answered)

text \<open>The stretches of a program, one operation at a time; a loop is unfolded only where a stretch reaches it.\<close>

lemma advance_bind:
  "advance (bindP p f) s = (case advance p s of (t, p') \<Rightarrow> (case p' of Ret a \<Rightarrow> advance (f a) t | Throw e \<Rightarrow> (t, Throw e)
     | Do g k \<Rightarrow> (t, bindP p' f) | Await q k \<Rightarrow> (t, Await q (\<lambda>x. bindP (k x) f)) | Wait w k \<Rightarrow> (t, Wait w (\<lambda>x. bindP (k x) f))))"
  by (induction p arbitrary: s) simp_all

lemma advance_catch:
  "advance (catchP p h) s = (case advance p s of (t, p') \<Rightarrow> (case p' of Ret a \<Rightarrow> (t, Ret a) | Throw e \<Rightarrow> advance (h e) t
     | Do g k \<Rightarrow> (t, catchP p' h) | Await q k \<Rightarrow> (t, Await q (\<lambda>x. catchP (k x) h)) | Wait w k \<Rightarrow> (t, Wait w (\<lambda>x. catchP (k x) h))))"
  by (induction p arbitrary: s) simp_all

lemma advance_simps:
  "advance (readP r) s = (s, Ret (r s))"
  "advance (modifyP m) s = (m s, Ret ())"
  "advance (whenP b u) s = (if b then advance u s else (s, Ret ()))"
  "advance (awaitP q get bad) s = (s, Await q (\<lambda>x. case x of Inl e \<Rightarrow> Throw e | Inr r \<Rightarrow> (case get r of None \<Rightarrow> Throw bad | Some a \<Rightarrow> Ret a)))"
  "advance (waitDone w) s = (s, Wait w (\<lambda>x. case x of Inl e \<Rightarrow> Throw e | Inr b \<Rightarrow> Ret ()))"
  by (auto simp: readP_def modifyP_def whenP_def awaitP_def waitDone_def waitP_def fun_eq_iff split: sum.split)

lemma advance_each:
  "advance (eachP f []) s = (s, Ret ())"
  "advance (eachP f (x # xs)) s = advance (bindP (f x) (\<lambda>_. eachP f xs)) s"
  by simp_all

lemma advance_loop:
  "0 < n \<Longrightarrow> advance (available_loop n i bs) s = (if i < length (sm_stores s)
     then advance (bindP (ensureStoreAvailable i) (\<lambda>_. Do (\<lambda>s. fst (selectActiveFromStore i bs s)) (\<lambda>s.
       available_loop (n - Suc 0) (Suc i) (snd (selectActiveFromStore i bs s))))) s
     else (s, Ret bs))"
  by (cases n) (simp_all add: advance_bind advance_simps)

lemma advance_ops:
  "advance (ensureStoreAvailable i) s = (let m = sm_stores s ! i in
     if mg_isAvailable m \<and> mg_settings m \<noteq> None \<and> mg_user m \<noteq> None then (s, Ret ())
     else advance (bindP (awaitP (AskAvailable i) getSettingsAnswer TypeErr) (\<lambda>x.
       bindP (modifyP (upd_store i (\<lambda>m. m\<lparr>mg_settings := Some x\<rparr>))) (\<lambda>_.
       bindP (readP sm_identityKey) (\<lambda>k. bindP (awaitP (AskUser i k) getUserAnswer TypeErr) (\<lambda>u.
       modifyP (upd_store i (\<lambda>m. m\<lparr>mg_user := Some u, mg_isAvailable := True\<rparr>))))))) s)"
  "advance makeAvailable s = (if sm_isAvailable s then (s, Ret ())
     else if sm_stores s = [] then (s\<lparr>sm_active := None, sm_backups := Some [], sm_conflictingActives := Some []\<rparr>, Throw NoStores)
     else advance (bindP (available_loop MAX_ARRAY 0 []) (\<lambda>backups. modifyP (\<lambda>s. become_available (partition_backups backups s))))
       (s\<lparr>sm_active := None, sm_backups := Some [], sm_conflictingActives := Some []\<rparr>))"
  "advance getActive s = (s, case verifyActive s of None \<Rightarrow> Throw InvalidOperation | Some i \<Rightarrow> Ret i)"
  by (simp_all add: ensureStoreAvailable_def makeAvailable_def getActive_def advance_bind advance_simps Let_def split: option.split)

lemma some_turns: "0 < MAX_ARRAY" "Suc 0 < MAX_ARRAY" "Suc (Suc 0) < MAX_ARRAY" "\<not> MAX_ARRAY \<le> Suc 0"
  by (simp_all add: MAX_ARRAY_def)

text \<open>What the loop and its end compute, for a state that is written out.\<close>

abbreviation written :: "jstr \<Rightarrow> managed_store list \<Rightarrow> bool \<Rightarrow> nat option \<Rightarrow> nat list option \<Rightarrow> nat list option \<Rightarrow> int option \<Rightarrow> bool \<Rightarrow> bool \<Rightarrow>
    (lock_kind \<Rightarrow> nat list) \<Rightarrow> nat list \<Rightarrow> nat list \<Rightarrow> int \<Rightarrow> bool list \<Rightarrow> store_manager" where
  "written k ss av a bs cs u act sv ls ex sh n ps \<equiv> \<lparr>sm_identityKey = k, sm_stores = ss, sm_isAvailable = av, sm_active = a, sm_backups = bs,
     sm_conflictingActives = cs, sm_userId = u, sm_isActive = act, sm_services = sv, sm_locks = ls, sm_exclusive = ex, sm_shared = sh,
     sm_sharedCount = n, sm_promises = ps\<rparr>"

lemmas choice_defs = selectActiveFromStore_def partition_backups_def become_available_def append_some_def isActiveEnabled_def settings_key_def
  user_active_def

lemmas choice_simps =
  choice_defs(1) [of i bk "written k ss av a bs cs u act sv ls ex sh n ps" for i bk k ss av a bs cs u act sv ls ex sh n ps]
  choice_defs(2) [of bk "written k ss av a bs cs u act sv ls ex sh n ps" for bk k ss av a bs cs u act sv ls ex sh n ps]
  choice_defs(3) [of "written k ss av a bs cs u act sv ls ex sh n ps" for k ss av a bs cs u act sv ls ex sh n ps]
  choice_defs(5) [of "written k ss av a bs cs u act sv ls ex sh n ps" for k ss av a bs cs u act sv ls ex sh n ps]
  choice_defs(6) [of "written k ss av a bs cs u act sv ls ex sh n ps" for k ss av a bs cs u act sv ls ex sh n ps]
  choice_defs(7) [of "written k ss av a bs cs u act sv ls ex sh n ps" for k ss av a bs cs u act sv ls ex sh n ps]
  append_some_def

lemmas run_simps = run_answered.simps act_answers.simps act_step.simps resume_def advance_bind advance_catch advance_simps advance_each advance_loop
  advance_ops some_turns choice_simps answers_ok_def sm_settled_def getSettingsAnswer_def getUserAnswer_def clientValue_def upd_store_def Let_def
  verifyActive_def new_manager_def new_managed_def

lemmas call_simps = voidP_def sm_call_def runAs_def runAsWriter_def runAsActionWriter_def finallyP_def getActiveFor_def locks_of_def getAuth_def
  with_auth_def without_auth_def writer_op_def getActiveLock_def enqueue_lock_def releaseActiveFor_def releaseActiveLock_def settle_def
  getActionWriterExclusiveLock_def enqueue_exclusive_def releaseActionWriterExclusiveLock_def getConcurrentActionWriter_def
  getActionWriterSharedLock_def enqueue_shared_def count_shared_def releaseActionWriterSharedLock_def settle_head_def auth_of_def

text \<open>A manager of one store, and its answers.\<close>

definition one_store :: "bool \<Rightarrow> store_manager" where
  "one_store concurrent = new_manager [1] (Some (new_managed True concurrent)) []"

definition the_settings :: "sm_error + unit sm_ans" where
  "the_settings = Inr (IsSettings \<lparr>set_storageIdentityKey = [2], set_storageName = [3]\<rparr>)"

definition other_settings :: "sm_error + unit sm_ans" where
  "other_settings = Inr (IsSettings \<lparr>set_storageIdentityKey = [4], set_storageName = [5]\<rparr>)"

definition the_user :: "sm_error + unit sm_ans" where
  "the_user = Inr (IsUser \<lparr>usr_userId = 7, usr_activeStorage = [2]\<rparr>)"

type_synonym sm_program = "(unit, unit, unit) smp"

definition reading :: sm_program where
  "reading = voidP (sm_call (\<lambda>_. Some) FindProvenTxReqs ())"

definition writing :: sm_program where
  "writing = voidP (sm_call (\<lambda>_. Some) Migrate ())"

definition acting :: sm_program where
  "acting = voidP (sm_call (\<lambda>_. Some) CreateAction ())"

abbreviation one_runs :: "bool \<Rightarrow> store_manager \<Rightarrow> sm_program list \<Rightarrow> bool" where
  "one_runs concurrent s ps \<equiv> sm_runs (\<lambda>_. Some) (\<lambda>_. []) (\<lambda>_ _. None) (one_store concurrent) s ps"

lemma sm_starts_calls: "sm_starts (\<lambda>_. Some) b c reading" "sm_starts (\<lambda>_. Some) b c writing" "sm_starts (\<lambda>_. Some) b c acting"
  "sm_starts (\<lambda>_. Some) b c (getAuth must)" "sm_starts (\<lambda>_. Some) b c (addWalletStorageProvider m)"
  unfolding sm_starts_def reading_def writing_def acting_def by blast+

lemma one_runsI:
  assumes "run_answered answers_ok sm_settled as (one_store concurrent, []) = Some (s, ps)"
    "list_all (act_ok (sm_starts (\<lambda>_. Some) (\<lambda>_. []) (\<lambda>_ _. None))) as"
  shows "one_runs concurrent s ps"
  by (rule run_answered_sound [OF assms])

lemmas example_simps = run_simps call_simps reading_def writing_def acting_def one_store_def the_settings_def other_settings_def the_user_def access_of_def

section \<open>The theorems about the locks applied\<close>


lemma reader_done: "\<exists>s ps. one_runs False s ps \<and> length ps = 2 \<and> (\<forall>q f. Await q f \<notin> set ps)"
proof -
  let ?acts = "[Start reading, Answer 0 the_settings, Answer 0 the_user, Wake 0, Start reading, Answer 0 (Inr (IsValue ()))]"
  have "\<exists>s ps. run_answered answers_ok sm_settled ?acts (one_store False, []) = Some (s, ps) \<and> length ps = 2 \<and> (\<forall>q f. Await q f \<notin> set ps)"
    by (simp add: example_simps)
  then show ?thesis using one_runsI [of ?acts False] by (fastforce simp: sm_starts_calls)
qed


theorem nobody_waits_in_vain_witness:
  "\<exists>s ps. one_runs False s ps \<and> length ps = 2 \<and> ((\<forall>p \<in> set ps. ended p) \<or> (\<exists>p \<in> set ps. can_go_on s p))"
proof -
  obtain s ps where r: "one_runs False s ps" "length ps = 2" "\<forall>q f. Await q f \<notin> set ps" using reader_done by (elim exE conjE)
  have n: "sm_stores (one_store False) \<noteq> []" by (simp add: one_store_def new_manager_def)
  have "(\<forall>p \<in> set ps. ended p) \<or> (\<exists>p \<in> set ps. can_go_on s p)"
    by (rule nobody_waits_in_vain [OF r(1) [unfolded one_store_def] n [unfolded one_store_def]]) (simp add: r(3))
  with r(1,2) show ?thesis by (intro exI conjI)
qed

section \<open>What the locks do not give\<close>

text \<open>A writer and a concurrent action writer at the same time: the one is given the exclusive lock after the other has been told to go on,
  and before it is counted.\<close>

lemma action_writer_race: "\<exists>s ps. one_runs True s ps \<and> map access_of ps = [None, Some AsConcurrentWriter, Some AsWriter]"
proof -
  let ?acts = "[Start writing, Wake 0, Answer 0 the_settings, Answer 0 the_user, Wake 0, Wake 0, Start acting, Answer 0 (Inr (IsValue ())),
    Start writing, Wake 2, Wake 2, Wake 2, Wake 1]"
  have "\<exists>s ps. run_answered answers_ok sm_settled ?acts (one_store True, []) = Some (s, ps) \<and> map access_of ps = [None, Some AsConcurrentWriter, Some AsWriter]"
    by (simp add: example_simps)
  then show ?thesis using one_runsI [of ?acts True] by (fastforce simp: sm_starts_calls)
qed

text \<open>Two calls that find the manager not yet available: the one store becomes the active one and its own backup.\<close>

lemma active_backs_itself_up: "\<exists>s ps. one_runs False s ps \<and> sm_active s = Some 0 \<and> sm_backups s = Some [0] \<and> sm_isAvailable s"
proof -
  let ?acts = "[Start (getAuth False), Start (getAuth False), Answer 0 the_settings, Answer 1 the_settings, Answer 0 the_user, Answer 1 the_user]"
  have "\<exists>s ps. run_answered answers_ok sm_settled ?acts (one_store False, []) = Some (s, ps) \<and> sm_active s = Some 0 \<and> sm_backups s = Some [0] \<and>
      sm_isAvailable s"
    by (simp add: example_simps)
  then show ?thesis using one_runsI [of ?acts False] by (fastforce simp: sm_starts_calls)
qed

text \<open>A reader whose \<open>makeAvailable\<close> fails gives back a lock it never took: the writer's, so the next reader reads while the writer writes.\<close>

lemma failed_reader_frees_writer:
  "\<exists>s ps. (async_step sm_settled (sm_starts (\<lambda>_. Some) (\<lambda>_. []) (\<lambda>_ _. None)) (\<lambda>_ _. False))\<^sup>*\<^sup>* (one_store False, [] :: sm_program list) (s, ps) \<and>
     map access_of ps = [Some AsWriter, None, None, Some AsReader]"
proof -
  let ?acts = "[Start writing, Wake 0, Answer 0 the_settings, Answer 0 the_user, Wake 0, Wake 0, Start (addWalletStorageProvider (new_managed True False)),
    Answer 1 other_settings, Start reading, Answer 2 (Inl (Thrown [])), Start reading, Answer 3 other_settings, Answer 3 the_user, Wake 3]"
  have "\<exists>s ps. run_acts sm_settled ?acts (one_store False, []) = Some (s, ps) \<and> map access_of ps = [Some AsWriter, None, None, Some AsReader]"
    by (simp add: example_simps addWalletStorageProvider_def)
  then obtain s ps where r: "run_acts sm_settled ?acts (one_store False, []) = Some (s, ps)" "map access_of ps = [Some AsWriter, None, None, Some AsReader]"
    by (elim exE conjE)
  have "list_all (act_ok (sm_starts (\<lambda>_. Some) (\<lambda>_. []) (\<lambda>_ _. None))) ?acts" by (simp add: sm_starts_calls)
  then have "(async_step sm_settled (sm_starts (\<lambda>_. Some) (\<lambda>_. []) (\<lambda>_ _. None)) (\<lambda>_ _. False))\<^sup>*\<^sup>* (one_store False, []) (s, ps)"
    by (rule run_acts_sound [OF r(1)])
  with r(2) show ?thesis by (intro exI conjI)
qed

section \<open>Choosing the active store\<close>

text \<open>What the stores answer: the settings and the user of each.\<close>

definition stores_answer :: "('q sm_req \<Rightarrow> sm_error + 'r sm_ans) \<Rightarrow> jstr \<Rightarrow> (nat \<Rightarrow> store_settings) \<Rightarrow> (nat \<Rightarrow> store_user) \<Rightarrow> bool" where
  "stores_answer w k S U \<longleftrightarrow> (\<forall>i. w (AskAvailable i) = Inr (IsSettings (S i)) \<and> w (AskUser i k) = Inr (IsUser (U i)))"

definition store_ready :: "managed_store \<Rightarrow> bool" where
  "store_ready m \<longleftrightarrow> mg_isAvailable m \<and> mg_settings m \<noteq> None \<and> mg_user m \<noteq> None"

text \<open>A store after \<open>ensureStoreAvailable\<close>.\<close>

definition made_ready :: "store_settings \<Rightarrow> store_user \<Rightarrow> managed_store \<Rightarrow> managed_store" where
  "made_ready x u m = (if store_ready m then m else m\<lparr>mg_settings := Some x, mg_user := Some u, mg_isAvailable := True\<rparr>)"

definition all_ready :: "(nat \<Rightarrow> store_settings) \<Rightarrow> (nat \<Rightarrow> store_user) \<Rightarrow> managed_store list \<Rightarrow> managed_store list" where
  "all_ready S U ms = map (\<lambda>i. made_ready (S i) (U i) (ms ! i)) [0..<length ms]"

text \<open>The store its user selects, the first such store, and the others in the order in which they are sorted.\<close>

definition selected :: "managed_store \<Rightarrow> bool" where
  "selected m \<longleftrightarrow> map_option usr_activeStorage (mg_user m) = map_option set_storageIdentityKey (mg_settings m)"

definition chosen :: "managed_store list \<Rightarrow> nat" where
  "chosen ms = (case find (\<lambda>i. selected (ms ! i)) [0..<length ms] of None \<Rightarrow> 0 | Some i \<Rightarrow> i)"

definition others :: "nat \<Rightarrow> nat \<Rightarrow> nat list" where
  "others a n = (if a = 0 then [1..<n] else [1..<a] @ 0 # [Suc a..<n])"

lemma set_others: "a < n \<Longrightarrow> set (others a n) = {..<n} - {a}"
  by (auto simp: others_def)

lemma distinct_others: "distinct (others a n)"
  by (auto simp: others_def)

lemma find_Some_first: "find P xs = Some x \<Longrightarrow> P x \<and> x \<in> set xs"
  by (induction xs) (auto split: if_splits)

lemma chosen_less: "ms \<noteq> [] \<Longrightarrow> chosen ms < length ms"
  by (auto simp: chosen_def split: option.split dest: find_Some_first)

lemma chosen_selected: "i < length ms \<Longrightarrow> selected (ms ! i) \<Longrightarrow> selected (ms ! chosen ms)"
  by (auto simp: chosen_def find_None_iff split: option.split dest: find_Some_first)

lemma length_all_ready [simp]: "length (all_ready S U ms) = length ms"
  by (simp add: all_ready_def)

lemma nth_all_ready [simp]: "i < length ms \<Longrightarrow> all_ready S U ms ! i = made_ready (S i) (U i) (ms ! i)"
  by (simp add: all_ready_def)

lemma serve_ensure:
  assumes "stores_answer w (sm_identityKey s) S U" "i < length (sm_stores s)"
  shows "serve w (ensureStoreAvailable i) s = (Some (Inr ()), s\<lparr>sm_stores := (sm_stores s)[i := made_ready (S i) (U i) (sm_stores s ! i)]\<rparr>)"
  using assms
  by (auto simp: ensureStoreAvailable_def serve_bind serve_awaitP [of w _ "IsSettings (S i)" _ "S i"] serve_awaitP [of w _ "IsUser (U i)" _ "U i"]
    stores_answer_def made_ready_def store_ready_def Let_def upd_store_def getSettingsAnswer_def getUserAnswer_def)

text \<open>The state before the \<open>i\<close>-th turn of the loop, and what the turns have put aside.\<close>

definition turn :: "managed_store list \<Rightarrow> store_manager \<Rightarrow> nat \<Rightarrow> store_manager" where
  "turn ms s i = s\<lparr>sm_stores := take i ms @ drop i (sm_stores s), sm_active := (if i = 0 then None else Some (chosen (take i ms)))\<rparr>"

definition aside :: "managed_store list \<Rightarrow> nat \<Rightarrow> nat list" where
  "aside ms i = (if i = 0 then [] else others (chosen (take i ms)) i)"

lemma chosen_snoc:
  assumes "ms \<noteq> []"
  shows "chosen (ms @ [m]) = (if selected (ms ! chosen ms) then chosen ms else if selected m then length ms else 0)"
    and "\<not> selected (ms ! chosen ms) \<Longrightarrow> chosen ms = 0"
proof -
  have f: "find (\<lambda>i. selected ((ms @ [m]) ! i)) [0..<length ms] = find (\<lambda>i. selected (ms ! i)) [0..<length ms]"
    by (rule find_cong) (auto simp: nth_append)
  have "find P (xs @ ys) = (case find P xs of None \<Rightarrow> find P ys | Some x \<Rightarrow> Some x)" for P and xs ys :: "nat list"
    by (induction xs) auto
  then show "chosen (ms @ [m]) = (if selected (ms ! chosen ms) then chosen ms else if selected m then length ms else 0)"
    using f chosen_selected [of _ ms] assms
    by (auto simp: chosen_def [of "ms @ [m]"] nth_append chosen_def [of ms] find_None_iff split: option.split dest: find_Some_first)
  show "\<not> selected (ms ! chosen ms) \<Longrightarrow> chosen ms = 0"
    by (auto simp: chosen_def split: option.splits dest: find_Some_first)
qed

lemma turn_step:
  assumes i: "i < length ms" and cs: "sm_conflictingActives s = Some []" and len: "length (sm_stores s) = length ms"
  shows "selectActiveFromStore i (aside ms i) ((turn ms s i)\<lparr>sm_stores := (sm_stores (turn ms s i))[i := ms ! i]\<rparr>) = (turn ms s (Suc i), aside ms (Suc i))"
proof (cases "i = 0")
  case True
  have "chosen (take (Suc 0) ms) = 0" using i True by (auto simp: chosen_def take_Suc_conv_app_nth split: option.split)
  with True i len show ?thesis
    by (cases ms; cases "sm_stores s") (auto simp: turn_def aside_def others_def selectActiveFromStore_def)
next
  case False
  let ?c = "chosen (take i ms)"
  have c: "?c < i" using chosen_less [of "take i ms"] i False by (cases ms) auto
  have st: "(sm_stores (turn ms s i))[i := ms ! i] = take (Suc i) ms @ drop (Suc i) (sm_stores s)"
    using i len by (simp add: turn_def list_update_append take_Suc_conv_app_nth upd_conv_take_nth_drop Cons_nth_drop_Suc [symmetric])
  have nth: "(take (Suc i) ms @ drop (Suc i) (sm_stores s)) ! j = ms ! j" if "j \<le> i" for j using i that by (simp add: nth_append)
  have new: "chosen (take (Suc i) ms) = (if selected (ms ! ?c) then ?c else if selected (ms ! i) then i else 0)"
    "\<not> selected (ms ! ?c) \<Longrightarrow> ?c = 0"
    using chosen_snoc(1) [of "take i ms" "ms ! i"] chosen_snoc(2) [of "take i ms"] i False c by (cases "ms = []"; auto simp: take_Suc_conv_app_nth)+
  have o: "others ?c i @ [i] = others ?c (Suc i)" using c by (auto simp: others_def)
  have o': "?c = 0 \<Longrightarrow> others 0 i @ [0] = others i (Suc i)" using False by (auto simp: others_def)
  show ?thesis unfolding st using False c new nth [of ?c] nth [of i] o o'
    by (auto simp: selectActiveFromStore_def isActiveEnabled_def settings_key_def user_active_def turn_def aside_def selected_def cs)
qed

lemma serve_loop:
  assumes ms: "ms = all_ready S U (sm_stores s)" and cs: "sm_conflictingActives s = Some []" and w: "stores_answer w (sm_identityKey s) S U"
  shows "length ms - i \<le> n \<Longrightarrow> i \<le> length ms \<Longrightarrow>
    serve w (available_loop n i (aside ms i)) (turn ms s i) = (Some (Inr (aside ms (length ms))), turn ms s (length ms))"
proof (induction n arbitrary: i)
  case (Suc n)
  have len: "length (sm_stores s) = length ms" "length (sm_stores (turn ms s i)) = length ms" using ms Suc.prems(2) by (simp_all add: turn_def)
  show ?case
  proof (cases "i < length ms")
    case True
    have k: "sm_identityKey (turn ms s i) = sm_identityKey s" by (simp add: turn_def)
    have "sm_stores (turn ms s i) ! i = sm_stores s ! i" using True len by (simp add: turn_def nth_append)
    then have "made_ready (S i) (U i) (sm_stores (turn ms s i) ! i) = ms ! i" using True ms by simp
    then have "serve w (ensureStoreAvailable i) (turn ms s i) = (Some (Inr ()), (turn ms s i)\<lparr>sm_stores := (sm_stores (turn ms s i))[i := ms ! i]\<rparr>)"
      using serve_ensure [of w "turn ms s i" S U i] w k True len by simp
    then show ?thesis using True len turn_step [OF True cs len(1)] Suc.IH [of "Suc i"] Suc.prems by (simp add: serve_bind)
  qed (use Suc.prems len in \<open>simp add: serve_bind\<close>)
qed (simp add: serve_bind)

text \<open>The user of the \<open>i\<close>-th store selects the active one too.\<close>

definition agrees :: "managed_store list \<Rightarrow> nat \<Rightarrow> bool" where
  "agrees ms i \<longleftrightarrow> map_option usr_activeStorage (mg_user (ms ! i)) = map_option set_storageIdentityKey (mg_settings (ms ! chosen ms))"

text \<open>C18: \<open>makeAvailable\<close> with stores that answer: the active store is the first one whose user selects it, or else the first; every other store is a
  backup when its user selects the active store too, and conflicts with it otherwise; and the user is active when no store disagrees.\<close>

theorem makeAvailable_chooses:
  assumes "\<not> sm_isAvailable s" "sm_stores s \<noteq> []" "length (sm_stores s) \<le> MAX_ARRAY" "stores_answer w (sm_identityKey s) S U"
    and ms: "ms = all_ready S U (sm_stores s)" and bs: "bs = others (chosen ms) (length ms)"
  shows "serve w makeAvailable s = (Some (Inr ()), s\<lparr>sm_stores := ms, sm_active := Some (chosen ms),
      sm_conflictingActives := Some (filter (\<lambda>i. \<not> agrees ms i) bs), sm_backups := Some (filter (agrees ms) bs), sm_isAvailable := True,
      sm_userId := map_option usr_userId (mg_user (ms ! chosen ms)), sm_isActive := (\<forall>i < length ms. agrees ms i)\<rparr>)"
proof -
  let ?s = "s\<lparr>sm_active := None, sm_backups := Some [], sm_conflictingActives := Some []\<rparr>"
  have l: "length (sm_stores s) = length ms" "ms \<noteq> []" using assms(2) ms by (auto simp: all_ready_def)
  have "serve w (available_loop MAX_ARRAY 0 (aside ms 0)) (turn ms ?s 0) = (Some (Inr (aside ms (length ms))), turn ms ?s (length ms))"
    by (rule serve_loop [of ms S U ?s], unfold ms) (use assms(3,4) in simp_all)
  moreover have t: "turn ms ?s (length ms) = ?s\<lparr>sm_stores := ms, sm_active := Some (chosen ms)\<rparr>" "turn ms ?s 0 = ?s"
    "aside ms 0 = []" "aside ms (length ms) = bs"
    using l bs by (simp_all add: turn_def aside_def)
  ultimately have loop: "serve w (available_loop MAX_ARRAY 0 []) ?s = (Some (Inr bs), ?s\<lparr>sm_stores := ms, sm_active := Some (chosen ms)\<rparr>)" by simp
  have all: "(\<forall>i < length ms. agrees ms i) \<longleftrightarrow> agrees ms (chosen ms) \<and> filter (\<lambda>i. \<not> agrees ms i) bs = []"
    using chosen_less [OF l(2)] set_others [of "chosen ms" "length ms"] bs by (auto simp: filter_empty_conv)
  have "become_available (partition_backups bs (?s\<lparr>sm_stores := ms, sm_active := Some (chosen ms)\<rparr>)) = s\<lparr>sm_stores := ms, sm_active := Some (chosen ms),
      sm_conflictingActives := Some (filter (\<lambda>i. \<not> agrees ms i) bs), sm_backups := Some (filter (agrees ms) bs), sm_isAvailable := True,
      sm_userId := map_option usr_userId (mg_user (ms ! chosen ms)), sm_isActive := (\<forall>i < length ms. agrees ms i)\<rparr>"
    unfolding all by (auto simp: become_available_def partition_backups_def append_some_def Let_def isActiveEnabled_def user_active_def settings_key_def
      agrees_def [abs_def] eq_commute)
  with assms(1,2) loop show ?thesis by (simp add: makeAvailable_def serve_bind)
qed

section \<open>Changing the active store\<close>

text \<open>Stores that take part: what they are asked, they do.\<close>

definition stores_work :: "('q sm_req \<Rightarrow> sm_error + 'r sm_ans) \<Rightarrow> jstr \<Rightarrow> (nat \<Rightarrow> store_settings) \<Rightarrow> (nat \<Rightarrow> store_user) \<Rightarrow> bool" where
  "stores_work w k S U \<longleftrightarrow> stores_answer w k S U \<and> (\<forall>i j. \<exists>x. w (Under AsSync i (SyncInto j)) = Inr x) \<and>
     (\<forall>i k u key. \<exists>x. w (Under AsSync i (StoreSetActive k u key)) = Inr x)"

definition with_key :: "jstr \<Rightarrow> managed_store \<Rightarrow> managed_store" where
  "with_key key m = m\<lparr>mg_user := map_option (\<lambda>u. u\<lparr>usr_activeStorage := key\<rparr>) (mg_user m)\<rparr>"

lemma serve_syncToWriter:
  assumes "stores_work w k S U"
  shows "serve w (syncToWriter i (Some a)) s = (Some (Inr ()), s)"
proof -
  obtain x where "w (Under AsSync a (SyncInto i)) = Inr x" using assms unfolding stores_work_def by blast
  then show ?thesis using assms
    by (simp add: syncToWriter_def runAsSync_def serve_bind serve_awaitP [of w _ "IsSettings (S i)" _ "S i"] serve_awaitP [of w _ x _ "()"]
      stores_work_def stores_answer_def getSettingsAnswer_def getDone_def)
qed

lemma serve_each_same: "(\<And>x. serve w (f x) s = (Some (Inr ()), s)) \<Longrightarrow> serve w (eachP f xs) s = (Some (Inr ()), s)"
  by (induction xs) (simp_all add: serve_bind)

lemma serve_propagate:
  assumes w: "stores_work w k S U"
  shows "length (sm_stores s) - i \<le> n \<Longrightarrow> \<forall>m \<in> set (sm_stores s). store_ready m \<Longrightarrow> serve w (propagate_loop n key source i) s =
    (Some (Inr ()), s\<lparr>sm_stores := take i (sm_stores s) @ map (with_key key) (drop i (sm_stores s))\<rparr>)"
proof (induction n arbitrary: i s)
  case (Suc n)
  show ?case
  proof (cases "i < length (sm_stores s)")
    case True
    let ?s = "setUserActive i key s"
    have st: "sm_stores ?s = (sm_stores s)[i := with_key key (sm_stores s ! i)]" by (simp add: setUserActive_def upd_store_def with_key_def)
    then have l: "length (sm_stores ?s) = length (sm_stores s)" by simp
    have r: "store_ready (sm_stores s ! i)" using True Suc.prems(2) by simp
    then have "store_ready (with_key key (sm_stores s ! i))" by (auto simp: store_ready_def with_key_def)
    then have "\<forall>m \<in> set (sm_stores ?s). store_ready m" using Suc.prems(2) set_update_subset_insert [of "sm_stores s" i] unfolding st by fastforce
    then have "serve w (propagate_loop n key source (Suc i)) ?s =
        (Some (Inr ()), ?s\<lparr>sm_stores := take (Suc i) (sm_stores ?s) @ map (with_key key) (drop (Suc i) (sm_stores ?s))\<rparr>)"
      by (intro Suc.IH) (use Suc.prems(1) l in simp_all)
    moreover have "take (Suc i) (sm_stores ?s) @ map (with_key key) (drop (Suc i) (sm_stores ?s)) = take i (sm_stores s) @ map (with_key key) (drop i (sm_stores s))"
      using True by (simp add: st take_Suc_conv_app_nth Cons_nth_drop_Suc [symmetric])
    moreover have "?s\<lparr>sm_stores := x\<rparr> = s\<lparr>sm_stores := x\<rparr>" for x by (simp add: setUserActive_def upd_store_def)
    ultimately show ?thesis using True r
      by (simp add: serve_bind whenP_def serve_syncToWriter [OF w] store_ready_def)
  qed (simp add: serve_bind)
qed simp

lemma all_ready_same: "\<forall>m \<in> set ms. store_ready m \<Longrightarrow> all_ready S U ms = ms"
  by (rule nth_equalityI) (simp_all add: made_ready_def)

lemma map_with_key:
  assumes r: "\<forall>m \<in> set ms. store_ready m" and n: "n < length ms"
    and k: "map_option set_storageIdentityKey (mg_settings (ms ! n)) = Some key"
    and only: "\<And>i. i < length ms \<Longrightarrow> map_option set_storageIdentityKey (mg_settings (ms ! i)) = Some key \<Longrightarrow> i = n"
  shows "all_ready S U (map (with_key key) ms) = map (with_key key) ms" "chosen (map (with_key key) ms) = n"
    "\<And>i. i < length ms \<Longrightarrow> agrees (map (with_key key) ms) i"
proof -
  let ?ms = "map (with_key key) ms"
  have user: "map_option usr_activeStorage (mg_user (?ms ! i)) = Some key" "mg_settings (?ms ! i) = mg_settings (ms ! i)" if "i < length ms" for i
    using r nth_mem [OF that] that by (auto simp: store_ready_def with_key_def dest!: bspec)
  have "\<forall>m \<in> set ?ms. store_ready m" using r by (auto simp: store_ready_def with_key_def)
  then show "all_ready S U ?ms = ?ms" by (rule all_ready_same)
  have sel: "selected (?ms ! i) \<longleftrightarrow> i = n" if "i < length ms" for i
    unfolding selected_def user [OF that] using k only [OF that] by metis
  have "chosen ?ms < length ms" using chosen_less [of ?ms] n by (cases ms) auto
  moreover have "selected (?ms ! chosen ?ms)" using chosen_selected [of n ?ms] sel [OF n] n by simp
  ultimately show c: "chosen ?ms = n" using sel by blast
  show "agrees ?ms i" if "i < length ms" for i
    unfolding agrees_def c using user [OF that] user(2) [OF n] k by (simp del: map_option_eq_Some)
qed

text \<open>C14: The change of the active store with stores that work: afterwards every user selects the new store, it is the active one, and all the
  others are its backups; whatever was conflicting before is not any more.\<close>

theorem change_active_correct:
  assumes w: "stores_work w (sm_identityKey s) S U" and ready: "\<forall>m \<in> set (sm_stores s). store_ready m"
    and len: "length (sm_stores s) \<le> MAX_ARRAY" and a: "sm_active s = Some a" "a < length (sm_stores s)"
    and n: "n < length (sm_stores s)" "settings_key s n = Some key"
    and only: "\<And>i. i < length (sm_stores s) \<Longrightarrow> settings_key s i = Some key \<Longrightarrow> i = n"
  shows "serve w (change_active key n) s = (Some (Inr ()), s\<lparr>sm_stores := map (with_key key) (sm_stores s), sm_active := Some n,
      sm_conflictingActives := Some [], sm_backups := Some (others n (length (sm_stores s))), sm_isAvailable := True,
      sm_userId := map_option usr_userId (mg_user (sm_stores s ! n)), sm_isActive := True\<rparr>)"
proof -
  let ?ms = "map (with_key key) (sm_stores s)"
  define t where "t = (if conflicts s \<noteq> [] then mark_conflicts key s else s)"
  let ?u = "t\<lparr>sm_stores := ?ms, sm_isAvailable := False\<rparr>"
  define src where "src = (if conflicts t = [] then a else n)"
  have T: "sm_stores t = sm_stores s" "sm_identityKey t = sm_identityKey s" "sm_active t = Some a"
    using a by (auto simp: t_def mark_conflicts_def split: option.split)
  note M = map_with_key [OF ready n(1) n(2) [unfolded settings_key_def] only [unfolded settings_key_def]]
  have "src < length (sm_stores s)" using a n by (simp add: src_def)
  then obtain v where v: "mg_user (sm_stores s ! src) = Some v" using ready by (fastforce simp: store_ready_def)
  obtain x where x: "w (Under AsSync src (StoreSetActive (sm_identityKey s) (usr_userId v) key)) = Inr x" using w unfolding stores_work_def by blast
  have set: "serve w (awaitP (Under AsSync src (StoreSetActive (sm_identityKey s) (usr_userId v) key)) getDone TypeErr) t = (Some (Inr ()), t)"
    using x by (simp add: serve_awaitP [of w _ x _ "()"] getDone_def)
  have spread: "serve w (propagate_loop MAX_ARRAY key src 0) t = (Some (Inr ()), t\<lparr>sm_stores := ?ms\<rparr>)"
    using serve_propagate [OF w, of t 0 MAX_ARRAY key src] ready len T by simp
  have "serve w makeAvailable ?u = (Some (Inr ()), ?u\<lparr>sm_stores := ?ms, sm_active := Some (chosen ?ms),
      sm_conflictingActives := Some (filter (\<lambda>i. \<not> agrees ?ms i) (others (chosen ?ms) (length ?ms))),
      sm_backups := Some (filter (agrees ?ms) (others (chosen ?ms) (length ?ms))), sm_isAvailable := True,
      sm_userId := map_option usr_userId (mg_user (?ms ! chosen ?ms)), sm_isActive := (\<forall>i < length ?ms. agrees ?ms i)\<rparr>)"
    by (rule makeAvailable_chooses [where S = S and U = U]) (use n len w T M(1) in \<open>auto simp: stores_work_def\<close>)
  moreover have "filter (\<lambda>i. \<not> agrees ?ms i) (others n (length ?ms)) = []" "filter (agrees ?ms) (others n (length ?ms)) = others n (length ?ms)"
    using M(3) n by (auto simp: filter_empty_conv filter_id_conv set_others)
  moreover have "map_option usr_userId (mg_user (?ms ! n)) = map_option usr_userId (mg_user (sm_stores s ! n))"
    using n by (simp add: with_key_def option.map_comp comp_def)
  ultimately have av: "serve w makeAvailable ?u = (Some (Inr ()), s\<lparr>sm_stores := ?ms, sm_active := Some n,
      sm_conflictingActives := Some [], sm_backups := Some (others n (length (sm_stores s))), sm_isAvailable := True,
      sm_userId := map_option usr_userId (mg_user (sm_stores s ! n)), sm_isActive := True\<rparr>)"
    using M(2,3) by (simp add: t_def mark_conflicts_def split: option.split)
  have merged: "serve w (whenP (conflicts s \<noteq> []) (bindP (modifyP (mark_conflicts key)) (\<lambda>_. bindP (readP conflicts) (\<lambda>cs.
      eachP (\<lambda>c. syncToWriter n (Some c)) cs)))) s = (Some (Inr ()), t)"
    by (simp add: t_def whenP_def serve_bind serve_each_same serve_syncToWriter [OF w])
  show ?thesis unfolding change_active_def
    using merged set spread av v a T by (cases "conflicts t = []") (simp_all add: serve_bind src_def)
qed

section \<open>Proving transactions again\<close>

text \<open>C19: A new proof is offered for a transaction only when it is one: the services gave a path with the transaction among its leaves, the path
  leads to a root the chain tracker confirms for its height, and its block is another one than before.\<close>

theorem reproveProven_confirmed:
  assumes "serve w (reproveProven b c ptx True) s = (Some (Inr r), t)" "rr_updated r = Some u"
  shows "\<exists>height level levels h leaf root. w (AskMerklePath (ptx_txid ptx)) = Inr (IsProof (Some ((height, level # levels), h))) \<and>
    leaf \<in> set level \<and> leaf_txid leaf \<and> leaf_hash leaf = Some (ptx_txid ptx) \<and>
    c (height, level # levels) (ptx_txid ptx) = Some root \<and> w (AskRoot root height) = Inr (IsBool True) \<and> ph_hash h \<noteq> ptx_blockHash ptx \<and>
    u = \<lparr>pu_height = height, pu_index = leaf_offset leaf, pu_merklePath = b (height, level # levels), pu_merkleRoot = ph_merkleRoot h,
      pu_blockHash = ph_hash h\<rparr> \<and> t = s"
proof -
  have a: "serve w (awaitP q get bad) s = (case w q of Inl e \<Rightarrow> (Some (Inl e), s) | Inr x \<Rightarrow>
      (case get x of None \<Rightarrow> (Some (Inl bad), s) | Some y \<Rightarrow> (Some (Inr y), s)))" for q get bad s
    by (simp add: awaitP_def split: sum.split option.split)
  show ?thesis using assms
    by (auto simp: reproveProven_def evaluateNewMerkleLeaf_def unavailable_def serve_bind a getDone_def getProofAnswer_def getBoolAnswer_def
      split: if_splits sum.splits sm_ans.splits option.splits list.splits prod.splits dest!: find_Some_first)
qed

section \<open>A change that fails\<close>

text \<open>When the merging of the conflicting stores fails, the former active store stays, and is left among the stores that conflict with it.\<close>

lemma failed_change_keeps_conflict:
  assumes "sm_conflictingActives s = Some (c # cs)" "sm_active s = Some a" "settings_key s a \<noteq> Some key" "settings_key s c \<noteq> Some key"
    and "w (AskAvailable n) = Inl e"
  shows "\<exists>t. serve w (change_active key n) s = (Some (Inl e), t) \<and> sm_active t = Some a \<and> sm_isAvailable t = sm_isAvailable s \<and> a \<in> set (conflicts t)"
  using assms by (simp add: change_active_def serve_bind conflicts_def whenP_def mark_conflicts_def syncToWriter_def awaitP_def)

section \<open>The theorems about single operations applied\<close>

text \<open>Stores whose key is their place, and whose users select \<open>picks\<close>.\<close>

definition some_stores :: "(nat \<Rightarrow> nat) \<Rightarrow> unit sm_req \<Rightarrow> sm_error + unit sm_ans" where
  "some_stores picks q = (case q of AskAvailable i \<Rightarrow> Inr (IsSettings \<lparr>set_storageIdentityKey = [i], set_storageName = []\<rparr>)
     | AskUser i k \<Rightarrow> Inr (IsUser \<lparr>usr_userId = int i, usr_activeStorage = [picks i]\<rparr>) | _ \<Rightarrow> Inr IsDone)"

definition one_of :: "nat \<Rightarrow> nat \<Rightarrow> managed_store" where
  "one_of i pick = \<lparr>mg_isStorageProvider = True, mg_concurrentWrites = False, mg_isAvailable = True,
     mg_settings = Some \<lparr>set_storageIdentityKey = [i], set_storageName = []\<rparr>, mg_user = Some \<lparr>usr_userId = int i, usr_activeStorage = [pick]\<rparr>\<rparr>"

definition three_stores :: store_manager where
  "three_stores = (new_manager [7] (Some (new_managed True False)) [new_managed True False, new_managed True False])"

lemma some_stores_work:
  "stores_work (some_stores picks) k (\<lambda>i. \<lparr>set_storageIdentityKey = [i], set_storageName = []\<rparr>) (\<lambda>i. \<lparr>usr_userId = int i, usr_activeStorage = [picks i]\<rparr>)"
  by (simp add: stores_work_def stores_answer_def some_stores_def)

lemma makeAvailable_chooses_witness:
  "\<exists>t. serve (some_stores (\<lambda>i. if i = 0 then 9 else 1)) makeAvailable three_stores = (Some (Inr ()), t) \<and> sm_active t = Some 1 \<and> sm_backups t = Some [2] \<and>
     sm_conflictingActives t = Some [0] \<and> \<not> sm_isActive t"
proof -
  let ?ms = "[one_of 0 9, one_of 1 1, one_of 2 1]"
  have ms: "?ms = all_ready (\<lambda>i. \<lparr>set_storageIdentityKey = [i], set_storageName = []\<rparr>) (\<lambda>i. \<lparr>usr_userId = int i, usr_activeStorage = [if i = 0 then 9 else 1]\<rparr>)
      (sm_stores three_stores)"
    by (simp add: all_ready_def made_ready_def store_ready_def three_stores_def new_manager_def new_managed_def one_of_def upt_conv_Cons)
  have c: "chosen ?ms = 1" by (simp add: chosen_def selected_def one_of_def upt_conv_Cons)
  have bs: "[0, 2] = others (chosen ?ms) (length ?ms)" unfolding c by (simp add: others_def upt_conv_Cons eval_nat_numeral)
  have ag: "\<not> agrees ?ms 0" "agrees ?ms 2" unfolding agrees_def c by (simp_all add: one_of_def)
  then have "\<not> (\<forall>i < length ?ms. agrees ?ms i)" by auto
  with ag show ?thesis
    using makeAvailable_chooses [OF _ _ _ some_stores_work [of "\<lambda>i. if i = 0 then 9 else 1", unfolded stores_work_def, THEN conjunct1] ms bs]
    unfolding c by (simp add: three_stores_def new_manager_def MAX_ARRAY_def)
qed

definition in_conflict :: store_manager where
  "in_conflict = three_stores\<lparr>sm_stores := [one_of 0 9, one_of 1 1, one_of 2 1], sm_active := Some 1, sm_backups := Some [2],
     sm_conflictingActives := Some [0], sm_isAvailable := True\<rparr>"

lemma change_active_witness:
  "\<exists>t. serve (some_stores (\<lambda>i. 1)) (change_active [2] 2) in_conflict = (Some (Inr ()), t) \<and> sm_active t = Some 2 \<and> sm_backups t = Some [1, 0] \<and>
     sm_conflictingActives t = Some [] \<and> sm_isActive t"
proof -
  have o: "others 2 (Suc (Suc (Suc 0))) = [1, 0]" by (simp add: others_def upt_conv_Cons eval_nat_numeral)
  have only: "i = 2" if "i < length (sm_stores in_conflict)" "settings_key in_conflict i = Some [2]" for i
    using that by (auto simp: in_conflict_def settings_key_def one_of_def less_Suc_eq numeral_eq_Suc)
  show ?thesis
    using change_active_correct [OF some_stores_work [of "\<lambda>_. 1"], of in_conflict 1 2 "[2]"] only o
    by (simp add: in_conflict_def one_of_def store_ready_def MAX_ARRAY_def settings_key_def)
qed

definition a_proven_tx :: proven_tx where
  "a_proven_tx = \<lparr>ptx_id = 1, ptx_txid = [3], ptx_height = 4, ptx_index = 0, ptx_merklePath = [], ptx_merkleRoot = [], ptx_blockHash = []\<rparr>"

text \<open>Services that know one path, of one leaf.\<close>

definition one_path :: "unit sm_req \<Rightarrow> sm_error + unit sm_ans" where
  "one_path q = (case q of AskMerklePath t \<Rightarrow> Inr (IsProof (Some ((5, [[\<lparr>leaf_offset = 0, leaf_hash = Some t, leaf_txid = True, leaf_duplicate = False\<rparr>]]),
      \<lparr>ph_hash = [1], ph_merkleRoot = [2]\<rparr>)))
     | AskRoot x n \<Rightarrow> Inr (IsBool (x = [2] \<and> n = 5)) | _ \<Rightarrow> Inr IsDone)"

lemma reproveProven_witness:
  "\<exists>r u t. serve one_path (reproveProven (\<lambda>_. []) (\<lambda>_ _. Some [2]) a_proven_tx True) (setServices three_stores) = (Some (Inr r), t) \<and> rr_updated r = Some u \<and>
     one_path (AskRoot [2] (pu_height u)) = Inr (IsBool True) \<and> t = setServices three_stores"
proof -
  let ?p = "reproveProven (\<lambda>_. []) (\<lambda>_ _. Some [2]) a_proven_tx True"
  have "\<exists>r u t. serve one_path ?p (setServices three_stores) = (Some (Inr r), t) \<and> rr_updated r = Some u"
    by (simp add: reproveProven_def evaluateNewMerkleLeaf_def serve_bind awaitP_def one_path_def getDone_def getProofAnswer_def getBoolAnswer_def
      setServices_def a_proven_tx_def)
  then obtain r u t where r: "serve one_path ?p (setServices three_stores) = (Some (Inr r), t)" "rr_updated r = Some u" by blast
  from reproveProven_confirmed [OF r] r show ?thesis by (fastforce simp: one_path_def)
qed

end
